(* ===== verification/Prelude.thy ===== *)
theory Prelude
  imports Main "HOL-Library.Word"
begin

text \<open>
  Shared by every component: the result type of code that can stop the process (a failed
  \<open>assert\<close>, a null dereference), C's conversions between integer widths on \<open>int\<close>, byte
  memories, and the generic list and word lemmas the component theories use.
\<close>

unbundle bit_operations_syntax

section \<open>Runs that may stop the process\<close>

text \<open>
  A C function that may fail an \<open>assert\<close> or dereference a bad pointer returns
  \<open>Inl t\<close> for the trap \<open>t\<close>; a normal return is \<open>Inr\<close>.
\<close>

datatype trap =
    Assert_failed       \<comment> \<open>an \<open>assert\<close> of the source is false\<close>
  | Panic               \<comment> \<open>\<open>panic\<close> is called\<close>
  | Null_deref          \<comment> \<open>a member of a null pointer is read\<close>
  | Use_after_free      \<comment> \<open>a freed node is read\<close>
  | Overrun             \<comment> \<open>an array is read beyond its end\<close>
  | Div_by_zero         \<comment> \<open>an integer is divided by zero\<close>

type_synonym 'a run = "trap + 'a"

definition bindE :: "'a run \<Rightarrow> ('a \<Rightarrow> 'b run) \<Rightarrow> 'b run" where
  "bindE m f = (case m of Inl t \<Rightarrow> Inl t | Inr x \<Rightarrow> f x)"

definition assertE :: "bool \<Rightarrow> 'a run \<Rightarrow> 'a run" where
  "assertE b m = (if b then m else Inl Assert_failed)"

named_theorems run_simps

lemma bindE_simps [simp, run_simps]:
  "bindE (Inl t) f = Inl t"
  "bindE (Inr x) f = f x"
  by (simp_all add: bindE_def)

lemma assertE_simps [simp, run_simps]:
  "assertE True m = m"
  "assertE False m = Inl Assert_failed"
  by (simp_all add: assertE_def)

lemma bindE_eq_Inr [simp]: "bindE m f = Inr y \<longleftrightarrow> (\<exists>x. m = Inr x \<and> f x = Inr y)"
  by (cases m) auto

lemma assertE_eq_Inr [simp]: "assertE b m = Inr y \<longleftrightarrow> b \<and> m = Inr y"
  by (cases b) auto

section \<open>C conversions on \<open>int\<close>\<close>

text \<open>
  Integers of a C type are \<open>int\<close> values in the type's range; these are the conversions to
  a 64-bit unsigned (\<open>size_t\<close>, \<open>uintptr_t\<close>) and to a 32-bit signed \<open>int\<close>.
\<close>

definition size_t :: "int \<Rightarrow> int" where
  "size_t x = x mod 2 ^ 64"

definition c_int :: "int \<Rightarrow> int" where
  "c_int x = (x + 2 ^ 31) mod 2 ^ 32 - 2 ^ 31"

lemma size_t_id: "0 \<le> x \<Longrightarrow> x < 2 ^ 64 \<Longrightarrow> size_t x = x"
  by (simp add: size_t_def)

lemma size_t_small [simp]: "0 \<le> x \<Longrightarrow> x < 2 ^ 32 \<Longrightarrow> size_t x = x"
  by (simp add: size_t_def)

lemma c_int_id: "- (2 ^ 31) \<le> x \<Longrightarrow> x < 2 ^ 31 \<Longrightarrow> c_int x = x"
  by (simp add: c_int_def)

lemma c_int_range: "- (2 ^ 31) \<le> c_int x \<and> c_int x < 2 ^ 31"
proof -
  have "0 \<le> (x + 2 ^ 31) mod 2 ^ 32" "(x + 2 ^ 31) mod 2 ^ 32 < 2 ^ 32"
    by simp_all
  then show ?thesis by (simp add: c_int_def)
qed

lemma c_int_size_t [simp]: "c_int (size_t x) = c_int x"
proof -
  have "(x mod 2 ^ 64) mod 2 ^ 32 = x mod (2 ^ 32 :: int)"
    by (rule mod_mod_cancel) simp
  then have "(x mod 2 ^ 64 + 2 ^ 31) mod 2 ^ 32 = (x + 2 ^ 31) mod (2 ^ 32 :: int)"
    by (metis mod_add_left_eq)
  then show ?thesis by (simp add: c_int_def size_t_def)
qed

lemma c_int_0 [simp]: "c_int 0 = 0"
  by (simp add: c_int_def)

section \<open>Masks\<close>

lemma int_and_mask: "(x::int) AND (2 ^ k - 1) = x mod 2 ^ k"
  by (metis mask_eq_exp_minus_1 take_bit_eq_mask take_bit_eq_mod)

lemma int_and_not_mask: "(x::int) AND NOT (2 ^ k - 1) = x - x mod 2 ^ k"
proof -
  let ?m = "2 ^ k - 1 :: int"
  have "(x AND NOT ?m) + (x AND ?m) = (x AND NOT ?m) OR (x AND ?m)"
    by (rule disjunctive_add) (auto simp: bit_simps)
  also have "\<dots> = x"
    by (rule bit_eqI) (auto simp: bit_simps)
  finally show ?thesis by (simp add: int_and_mask)
qed

lemma int_or_mask: "(x::int) OR (2 ^ k - 1) = x - x mod 2 ^ k + (2 ^ k - 1)"
proof -
  let ?m = "2 ^ k - 1 :: int"
  have "(x AND NOT ?m) + ?m = (x AND NOT ?m) OR ?m"
    by (rule disjunctive_add) (auto simp: bit_simps)
  also have "\<dots> = x OR ?m"
    by (rule bit_eqI) (auto simp: bit_simps)
  finally show ?thesis by (simp add: int_and_not_mask)
qed

lemma align_up_delta: "(((x::int) OR (2 ^ k - 1)) - x + 1) AND (2 ^ k - 1) = (- x) mod 2 ^ k"
proof -
  have "((x OR (2 ^ k - 1)) - x + 1) AND (2 ^ k - 1) = (2 ^ k - x mod 2 ^ k) mod 2 ^ k"
    by (simp add: int_or_mask int_and_mask)
  also have "\<dots> = (- x) mod 2 ^ k"
    by (metis diff_0 minus_mod_self1 mod_diff_eq mod_mod_trivial mod_diff_right_eq mod_self)
  finally show ?thesis .
qed

section \<open>Byte memories\<close>

type_synonym memory = "int \<Rightarrow> 8 word"

definition mem_set :: "memory \<Rightarrow> int \<Rightarrow> 8 word \<Rightarrow> int \<Rightarrow> memory" where
  "mem_set m p v n = (\<lambda>a. if p \<le> a \<and> a < p + n then v else m a)"

definition mem_move :: "memory \<Rightarrow> int \<Rightarrow> int \<Rightarrow> int \<Rightarrow> memory" where
  "mem_move m dst src n = (\<lambda>a. if dst \<le> a \<and> a < dst + n then m (src + (a - dst)) else m a)"

section \<open>Lists\<close>

lemma nth_mid [simp]: "(pre @ x # post) ! length pre = x"
  by (simp add: nth_append)

lemma nth_mid_Suc [simp]: "(pre @ x # y # post) ! Suc (length pre) = y"
  by (simp add: nth_append)

lemma update_mid [simp]: "(pre @ x # post)[length pre := v] = pre @ v # post"
  by (simp add: list_update_append)

lemma update_mid_Suc [simp]: "(pre @ x # y # post)[Suc (length pre) := v] = pre @ x # v # post"
  by (simp add: list_update_append)

lemma drop_mid_Suc [simp]: "drop (Suc (length pre)) (pre @ x # post) = post"
  by simp

lemma drop_mid_Suc2 [simp]: "drop (Suc (Suc (length pre))) (pre @ x # y # post) = post"
  by simp

lemma nth_split: "i < length xs \<Longrightarrow> \<exists>pre post. xs = pre @ xs ! i # post \<and> length pre = i"
  by (intro exI[of _ "take i xs"] exI[of _ "drop (Suc i) xs"]) (simp add: id_take_nth_drop[symmetric])

end
