(* ===== verification/Smalloc.thy ===== *)
theory Smalloc
  imports Prelude
begin

text \<open>
  The pool allocator of fdpp/smalloc.c.

  A pool is a linked list of nodes that tile one address range; the first node is embedded
  in the pool structure. The list is modelled by \<open>mp_nodes\<close>, the field \<open>next\<close> by the
  order, and a node pointer by the node's index. Sizes and addresses are \<open>int\<close> values;
  every place where the code converts (an \<open>int delta\<close>, a \<open>size_t\<close> sum that can
  wrap) applies \<^const>\<open>c_int\<close> or \<^const>\<open>size_t\<close>. The commit and uncommit call-backs
  are kept as a trace of their calls, the answer of \<open>commit\<close> being any function of that
  trace and the arguments. Diagnostics (\<open>smerror\<close>, \<open>do_smerror\<close>, \<open>smdump\<close>) print only
  and are left out, except for the assertion on the priority in \<open>do_smerror\<close>.
\<close>

section \<open>State\<close>

record memnode =
  mn_size :: int
  mn_used :: bool
  mem_area :: int

datatype sm_call = Commit int int | Uncommit int int

record mempool =
  mp_size :: int
  mp_avail :: int
  mp_nodes :: "memnode list"
  mp_commit :: "(sm_call list \<Rightarrow> int \<Rightarrow> int \<Rightarrow> bool) option"
  mp_uncommit :: bool
  mp_calls :: "sm_call list"
  mp_mem :: memory

definition pool_used :: "mempool \<Rightarrow> bool" where
  "pool_used mp \<longleftrightarrow> mn_used (mp_nodes mp ! 0) \<or> 1 < length (mp_nodes mp)"

definition page_mask :: "int \<Rightarrow> int" where
  "page_mask a = a - a mod 4096"

definition page_align :: "int \<Rightarrow> int" where
  "page_align a = size_t (page_mask (a + 4095))"

section \<open>Queries\<close>

fun largest_free :: "memnode list \<Rightarrow> int \<Rightarrow> int" where
  "largest_free [] sz = sz"
| "largest_free (n # ns) sz =
     largest_free ns (if \<not> mn_used n \<and> sz < mn_size n then mn_size n else sz)"

definition smget_largest_free_area :: "mempool \<Rightarrow> int" where
  "smget_largest_free_area mp = largest_free (mp_nodes mp) 0"

definition get_oom_pr :: "mempool \<Rightarrow> int \<Rightarrow> int" where
  "get_oom_pr mp sz =
     (if sz \<le> smget_largest_free_area mp then -1
      else if mp_size mp < sz then 2
      else if mp_avail mp < sz then 1
      else 0)"

definition do_smerror :: "int \<Rightarrow> 'a \<Rightarrow> 'a run" where
  "do_smerror prio r = assertE (prio \<noteq> -1) (Inr r)"

definition smget_free_space :: "mempool \<Rightarrow> int" where
  "smget_free_space mp = mp_avail mp"

fun free_upto :: "memnode list \<Rightarrow> int \<Rightarrow> int \<Rightarrow> int" where
  "free_upto [] tp cnt = size_t cnt"
| "free_upto (n # ns) tp cnt =
     (if tp < mem_area n + mn_size n
      then size_t (if \<not> mn_used n \<and> mem_area n < tp then c_int (cnt + (tp - mem_area n)) else cnt)
      else free_upto ns tp (if \<not> mn_used n then c_int (cnt + mn_size n) else cnt))"

definition smget_free_space_upto :: "mempool \<Rightarrow> int \<Rightarrow> int" where
  "smget_free_space_upto mp tp = free_upto (mp_nodes mp) tp 0"

definition smget_base_addr :: "mempool \<Rightarrow> int" where
  "smget_base_addr mp = mem_area (mp_nodes mp ! 0)"

section \<open>Committing memory\<close>

definition sm_uncommit :: "int \<Rightarrow> int \<Rightarrow> mempool \<Rightarrow> mempool run" where
  "sm_uncommit addr sz mp =
     (let aa = page_align addr;
          asz = page_mask (size_t (sz - (aa - addr)));
          mp1 = mp\<lparr>mp_avail := size_t (mp_avail mp + sz)\<rparr>
      in assertE (mp_avail mp1 \<le> mp_size mp1)
           (Inr (if mp_uncommit mp1
                 then mp1\<lparr>mp_calls := mp_calls mp1 @ [Uncommit aa asz]\<rparr> else mp1)))"

definition do_commit :: "int \<Rightarrow> int \<Rightarrow> int \<Rightarrow> int \<Rightarrow> mempool \<Rightarrow> (bool \<times> mempool) run" where
  "do_commit addr sz e_addr e_size mp =
     (case mp_commit mp of
        None \<Rightarrow> Inr (True, mp)
      | Some f \<Rightarrow>
          (let ok = f (mp_calls mp) addr sz;
               mp1 = mp\<lparr>mp_calls := mp_calls mp @ [Commit addr sz]\<rparr>
           in if \<not> ok
              then (if e_size \<noteq> 0
                    then bindE (sm_uncommit e_addr e_size mp1) (\<lambda>mp2. Inr (False, mp2))
                    else Inr (False, mp1))
              else Inr (True, mp1)))"

definition sm_commit :: "int \<Rightarrow> int \<Rightarrow> int \<Rightarrow> int \<Rightarrow> mempool \<Rightarrow> (bool \<times> mempool) run" where
  "sm_commit addr sz e_addr e_size mp =
     (let aa = page_mask addr;
          asz = page_align (size_t (sz + (addr - aa)))
      in bindE (do_commit aa asz e_addr e_size mp) (\<lambda>(ok, mp1).
           if ok
           then assertE (sz \<le> mp_avail mp1)
                  (Inr (True, mp1\<lparr>mp_avail := size_t (mp_avail mp1 - sz)\<rparr>))
           else Inr (False, mp1)))"

definition sm_commit_simple :: "int \<Rightarrow> int \<Rightarrow> mempool \<Rightarrow> (bool \<times> mempool) run" where
  "sm_commit_simple addr sz mp = sm_commit addr sz 0 0 mp"

section \<open>The node list\<close>

text \<open>
  \<open>mntruncate\<close> moves the border between node \<open>i\<close> and its successor: a free successor
  is moved (and dropped when it becomes empty), otherwise a free node is inserted. The
  second half of the first assertion, \<open>nmn->size + delta >= 0\<close>, compares an unsigned
  value with zero and always holds.
\<close>

definition mntruncate :: "nat \<Rightarrow> int \<Rightarrow> memnode list \<Rightarrow> memnode list run" where
  "mntruncate i sz ns =
     (let pmn = ns ! i; delta = c_int (size_t (mn_size pmn - sz)) in
      if delta = 0 then Inr ns
      else if Suc i < length ns \<and> \<not> mn_used (ns ! Suc i) then
        (let nmn = ns ! Suc i;
             nmn' = nmn\<lparr>mn_size := size_t (mn_size nmn + delta), mem_area := mem_area nmn - delta\<rparr>;
             pmn' = pmn\<lparr>mn_size := size_t (mn_size pmn - delta)\<rparr>
         in assertE (0 < sz)
              (if mn_size nmn' = 0
               then (let ns' = take i ns @ pmn' # drop (Suc (Suc i)) ns
                     in assertE (\<not> (Suc i < length ns' \<and> \<not> mn_used (ns' ! Suc i))) (Inr ns'))
               else Inr (ns[i := pmn', Suc i := nmn'])))
      else assertE (sz < mn_size pmn)
             (Inr (take i ns @ pmn\<lparr>mn_size := sz\<rparr> #
                   \<lparr>mn_size = size_t delta, mn_used = False, mem_area = mem_area pmn + sz\<rparr> #
                   drop (Suc i) ns)))"

fun find_area :: "nat \<Rightarrow> memnode list \<Rightarrow> int \<Rightarrow> nat option" where
  "find_area i [] ptr = None"
| "find_area i (n # ns) ptr =
     (if ptr < mem_area n then None
      else if mem_area n = ptr then Some i
      else find_area (Suc i) ns ptr)"

definition find_mn :: "mempool \<Rightarrow> int \<Rightarrow> nat option" where
  "find_mn mp ptr = (if \<not> pool_used mp then None else find_area 0 (mp_nodes mp) ptr)"

fun find_mn_at :: "nat \<Rightarrow> memnode list \<Rightarrow> int \<Rightarrow> nat option" where
  "find_mn_at i [] ptr = None"
| "find_mn_at i (n # ns) ptr =
     (if ptr < mem_area n then None
      else if ptr < mem_area n + mn_size n then Some i
      else find_mn_at (Suc i) ns ptr)"

fun smfind_free_area :: "nat \<Rightarrow> memnode list \<Rightarrow> int \<Rightarrow> nat option" where
  "smfind_free_area i [] sz = None"
| "smfind_free_area i (n # ns) sz =
     (if \<not> mn_used n \<and> sz \<le> mn_size n then Some i else smfind_free_area (Suc i) ns sz)"

fun smfind_free_area_topdown ::
    "nat \<Rightarrow> memnode list \<Rightarrow> int \<Rightarrow> int \<Rightarrow> nat option \<Rightarrow> nat option" where
  "smfind_free_area_topdown i [] tp sz mn1 = mn1"
| "smfind_free_area_topdown i (n # ns) tp sz mn1 =
     (if tp \<noteq> 0 \<and> tp < mem_area n + sz then mn1
      else smfind_free_area_topdown (Suc i) ns tp sz
             (if \<not> mn_used n \<and> sz \<le> mn_size n then Some i else mn1))"

definition smget_area_size :: "mempool \<Rightarrow> int \<Rightarrow> int" where
  "smget_area_size mp ptr =
     (case find_mn mp ptr of None \<Rightarrow> -1 | Some i \<Rightarrow> c_int (mn_size (mp_nodes mp ! i)))"

section \<open>Allocation\<close>

text \<open>
  A node pointer returned by the allocation functions is \<open>Some i\<close>, an index into the node
  list of the returned pool; \<open>None\<close> is \<open>NULL\<close>. \<open>sm_take\<close> is the tail the three
  allocation functions share: commit, mark used, cut to size, clear.
\<close>

definition sm_take :: "nat \<Rightarrow> int \<Rightarrow> mempool \<Rightarrow> (nat option \<times> mempool) run" where
  "sm_take i sz mp =
     bindE (sm_commit_simple (mem_area (mp_nodes mp ! i)) sz mp) (\<lambda>(ok, mp1).
       if \<not> ok then Inr (None, mp1)
       else bindE (mntruncate i sz ((mp_nodes mp1)[i := (mp_nodes mp1 ! i)\<lparr>mn_used := True\<rparr>])) (\<lambda>ns.
         assertE (mn_size (ns ! i) = sz)
           (Inr (Some i, mp1\<lparr>mp_nodes := ns, mp_mem := mem_set (mp_mem mp1) (mem_area (ns ! i)) 0 sz\<rparr>))))"

text \<open>Cutting \<open>delta\<close> bytes off the front of a free node before it is taken.\<close>

definition sm_skip :: "nat \<Rightarrow> int \<Rightarrow> int \<Rightarrow> mempool \<Rightarrow> (nat option \<times> mempool) run" where
  "sm_skip i delta sz mp =
     (if delta \<noteq> 0
      then bindE (mntruncate i (size_t delta) (mp_nodes mp)) (\<lambda>ns.
             if length ns \<le> Suc i then Inl Null_deref
             else assertE (\<not> mn_used (ns ! Suc i) \<and> sz \<le> mn_size (ns ! Suc i))
                    (sm_take (Suc i) sz (mp\<lparr>mp_nodes := ns\<rparr>)))
      else sm_take i sz mp)"

definition sm_alloc_fixed :: "int \<Rightarrow> int \<Rightarrow> mempool \<Rightarrow> (nat option \<times> mempool) run" where
  "sm_alloc_fixed ptr sz mp =
     (if sz = 0 \<or> ptr = 0 then Inr (None, mp)
      else case find_mn_at 0 (mp_nodes mp) ptr of
        None \<Rightarrow> Inr (None, mp)
      | Some i \<Rightarrow>
          (let mn = mp_nodes mp ! i; delta = ptr - mem_area mn in
           if mn_used mn then do_smerror 0 (None, mp)
           else assertE (0 \<le> delta)
             (if mn_size mn < size_t (sz + delta)
              then (let pr = get_oom_pr mp sz in do_smerror (if pr < 0 then 0 else pr) (None, mp))
              else sm_skip i delta sz mp)))"

text \<open>\<open>__builtin_popcount(align) == 1\<close>: the argument is converted to \<open>unsigned int\<close>.\<close>

definition popcount_is_1 :: "int \<Rightarrow> bool" where
  "popcount_is_1 a \<longleftrightarrow> (\<exists>k \<in> set [0..<32]. a mod 2 ^ 32 = 2 ^ k)"

definition sm_alloc_aligned :: "int \<Rightarrow> int \<Rightarrow> mempool \<Rightarrow> (nat option \<times> mempool) run" where
  "sm_alloc_aligned algn sz mp =
     (if sz = 0 then Inr (None, mp)
      else assertE (popcount_is_1 algn)
        (let al = algn - 1 in
         case smfind_free_area 0 (mp_nodes mp) (size_t (sz + al)) of
           None \<Rightarrow> do_smerror (get_oom_pr mp sz) (None, mp)
         | Some i \<Rightarrow>
             (let iptr = mem_area (mp_nodes mp ! i);
                  delta = c_int (((iptr OR al) - iptr + 1) AND al)
              in sm_skip i delta sz mp)))"

definition sm_alloc_mn :: "int \<Rightarrow> mempool \<Rightarrow> (nat option \<times> mempool) run" where
  "sm_alloc_mn sz mp = sm_alloc_aligned 1 sz mp"

definition sm_alloc_aligned_topdown ::
    "int \<Rightarrow> int \<Rightarrow> int \<Rightarrow> mempool \<Rightarrow> (nat option \<times> mempool) run" where
  "sm_alloc_aligned_topdown tp algn sz mp =
     (if sz = 0 then Inr (None, mp)
      else assertE (popcount_is_1 algn)
        (let al = algn - 1 in
         case smfind_free_area_topdown 0 (mp_nodes mp) tp (size_t (sz + al)) None of
           None \<Rightarrow> do_smerror (get_oom_pr mp sz) (None, mp)
         | Some i \<Rightarrow>
             (let mn = mp_nodes mp ! i;
                  end0 = mem_area mn + mn_size mn;
                  min_top = (if tp \<noteq> 0 \<and> tp \<le> end0 then tp else end0);
                  iptr = size_t (min_top - sz) AND NOT al;
                  iend = iptr + sz;
                  delta = c_int (end0 - iend)
              in bindE (if delta \<noteq> 0 then mntruncate i (size_t (mn_size mn - delta)) (mp_nodes mp)
                        else Inr (mp_nodes mp)) (\<lambda>ns.
                   assertE (mem_area (ns ! i) \<le> iptr)
                     (sm_skip i (c_int (iptr - mem_area (ns ! i))) sz (mp\<lparr>mp_nodes := ns\<rparr>))))))"

definition sm_alloc_topdown :: "int \<Rightarrow> mempool \<Rightarrow> (nat option \<times> mempool) run" where
  "sm_alloc_topdown sz mp = sm_alloc_aligned_topdown 0 1 sz mp"

text \<open>The address of a returned node; \<open>0\<close> is \<open>NULL\<close>.\<close>

definition node_addr :: "(nat option \<times> mempool) run \<Rightarrow> (int \<times> mempool) run" where
  "node_addr r = bindE r (\<lambda>(mn, mp).
     case mn of None \<Rightarrow> Inr (0, mp) | Some i \<Rightarrow> Inr (mem_area (mp_nodes mp ! i), mp))"

definition smalloc :: "int \<Rightarrow> mempool \<Rightarrow> (int \<times> mempool) run" where
  "smalloc sz mp = node_addr (sm_alloc_mn sz mp)"

definition smalloc_fixed :: "int \<Rightarrow> int \<Rightarrow> mempool \<Rightarrow> (int \<times> mempool) run" where
  "smalloc_fixed ptr sz mp = bindE (sm_alloc_fixed ptr sz mp) (\<lambda>(mn, mp).
     case mn of None \<Rightarrow> Inr (0, mp)
     | Some i \<Rightarrow> assertE (mem_area (mp_nodes mp ! i) = ptr) (Inr (mem_area (mp_nodes mp ! i), mp)))"

definition check_aligned :: "int \<Rightarrow> (int \<times> mempool) run \<Rightarrow> (int \<times> mempool) run" where
  "check_aligned algn r = bindE r (\<lambda>(p, mp).
     assertE (p = 0 \<or> p AND (algn - 1) = 0) (Inr (p, mp)))"

definition smalloc_aligned :: "int \<Rightarrow> int \<Rightarrow> mempool \<Rightarrow> (int \<times> mempool) run" where
  "smalloc_aligned algn sz mp = check_aligned algn (node_addr (sm_alloc_aligned algn sz mp))"

definition smalloc_topdown :: "int \<Rightarrow> mempool \<Rightarrow> (int \<times> mempool) run" where
  "smalloc_topdown sz mp = node_addr (sm_alloc_topdown sz mp)"

definition smalloc_aligned_topdown ::
    "int \<Rightarrow> int \<Rightarrow> int \<Rightarrow> mempool \<Rightarrow> (int \<times> mempool) run" where
  "smalloc_aligned_topdown tp algn sz mp =
     check_aligned algn (node_addr (sm_alloc_aligned_topdown tp algn sz mp))"

section \<open>Release\<close>

definition merge_next :: "nat \<Rightarrow> memnode list \<Rightarrow> memnode list run" where
  "merge_next i ns =
     (if Suc i < length ns \<and> \<not> mn_used (ns ! Suc i)
      then assertE (mem_area (ns ! i) \<le> mem_area (ns ! Suc i))
             (mntruncate i (size_t (mn_size (ns ! i) + mn_size (ns ! Suc i))) ns)
      else Inr ns)"

definition merge_prev :: "nat \<Rightarrow> memnode list \<Rightarrow> memnode list run" where
  "merge_prev i ns =
     (if 0 < i \<and> \<not> mn_used (ns ! (i - 1))
      then assertE (mem_area (ns ! (i - 1)) \<le> mem_area (ns ! i))
             (mntruncate (i - 1) (size_t (mn_size (ns ! (i - 1)) + mn_size (ns ! i))) ns)
      else Inr ns)"

definition smfree :: "int \<Rightarrow> mempool \<Rightarrow> (int \<times> mempool) run" where
  "smfree ptr mp =
     (if ptr = 0 then Inr (-1, mp)
      else case find_mn mp ptr of
        None \<Rightarrow> Inr (-1, mp)
      | Some i \<Rightarrow>
          (let mn = mp_nodes mp ! i in
           if \<not> mn_used mn then Inr (-1, mp)
           else assertE (0 < mn_size mn)
             (bindE (sm_uncommit (mem_area mn) (mn_size mn) mp) (\<lambda>mp1.
              bindE (merge_next i ((mp_nodes mp1)[i := mn\<lparr>mn_used := False\<rparr>])) (\<lambda>ns1.
              bindE (merge_prev i ns1) (\<lambda>ns2.
              Inr (0, mp1\<lparr>mp_nodes := ns2\<rparr>)))))))"

section \<open>Resizing\<close>

text \<open>
  \<open>sm_realloc_alloc_mn\<close> gets the node \<open>i\<close>, its predecessor \<open>i - 1\<close> (none when
  \<open>i = 0\<close>) and its successor \<open>Suc i\<close>, which may be null. The call
  \<open>sm_alloc_mn\<close> can insert nodes before \<open>i\<close>, so the used node is named by its record
  \<open>mn\<close> from there on, and the new node is found again by its address after
  \<open>smfree\<close>: the node structures of used areas do not move.
\<close>

definition move_commit :: "memnode \<Rightarrow> memnode \<Rightarrow> memnode \<Rightarrow> int \<Rightarrow> mempool \<Rightarrow> (bool \<times> mempool) run" where
  "move_commit pmn mn nmn sz mp =
     (let psize = min sz (mn_size pmn) in
      bindE (sm_commit_simple (mem_area pmn) psize mp) (\<lambda>(ok, mp1).
        if \<not> ok then Inr (False, mp1)
        else if mn_size pmn + mn_size mn < sz
        then sm_commit (mem_area nmn) (sz - mn_size pmn - mn_size mn) (mem_area pmn) psize mp1
        else Inr (True, mp1)))"

definition move_uncommit :: "memnode \<Rightarrow> memnode \<Rightarrow> int \<Rightarrow> mempool \<Rightarrow> mempool run" where
  "move_uncommit pmn mn sz mp =
     (if sz < mn_size pmn + mn_size mn
      then (let overl = (if mn_size pmn < sz then sz - mn_size pmn else 0)
            in sm_uncommit (mem_area mn + overl) (mn_size mn - overl) mp)
      else Inr mp)"

definition move_nodes :: "nat \<Rightarrow> int \<Rightarrow> memnode list \<Rightarrow> memnode list run" where
  "move_nodes i sz ns =
     bindE (if \<not> mn_used (ns ! Suc i)
            then mntruncate i (size_t (mn_size (ns ! i) + mn_size (ns ! Suc i))) ns
            else Inr ns) (\<lambda>ns1.
     mntruncate (i - 1) sz ns1)"

definition sm_move_down :: "nat \<Rightarrow> int \<Rightarrow> mempool \<Rightarrow> (nat option \<times> mempool) run" where
  "sm_move_down i sz mp =
     (let pmn = mp_nodes mp ! (i - 1); mn = mp_nodes mp ! i; nmn = mp_nodes mp ! Suc i in
      bindE (move_commit pmn mn nmn sz mp) (\<lambda>(ok, mp1).
        if \<not> ok then Inr (None, mp1)
        else
          (let mem1 = mem_move (mp_mem mp1) (mem_area pmn) (mem_area mn) (mn_size mn);
               mem2 = mem_set mem1 (mem_area pmn + mn_size mn) 0 (sz - mn_size mn);
               ns0 = (mp_nodes mp1)[i - 1 := pmn\<lparr>mn_used := True\<rparr>, i := mn\<lparr>mn_used := False\<rparr>]
           in bindE (move_uncommit pmn mn sz (mp1\<lparr>mp_nodes := ns0, mp_mem := mem2\<rparr>)) (\<lambda>mp2.
              bindE (move_nodes i sz (mp_nodes mp2)) (\<lambda>ns.
              Inr (Some (i - 1), mp2\<lparr>mp_nodes := ns\<rparr>))))))"

definition sm_relocate :: "nat \<Rightarrow> int \<Rightarrow> mempool \<Rightarrow> (nat option \<times> mempool) run" where
  "sm_relocate i sz mp =
     (let mn = mp_nodes mp ! i in
      bindE (sm_alloc_mn sz mp) (\<lambda>(r, mp1).
        case r of
          None \<Rightarrow> do_smerror (get_oom_pr mp1 sz) (None, mp1)
        | Some j \<Rightarrow>
            (let na = mem_area (mp_nodes mp1 ! j);
                 mp2 = mp1\<lparr>mp_mem := mem_move (mp_mem mp1) na (mem_area mn) (mn_size mn)\<rparr>
             in bindE (smfree (mem_area mn) mp2) (\<lambda>(_, mp3). Inr (find_mn mp3 na, mp3)))))"

definition sm_realloc_alloc_mn :: "nat \<Rightarrow> int \<Rightarrow> mempool \<Rightarrow> (nat option \<times> mempool) run" where
  "sm_realloc_alloc_mn i sz mp =
     (let ns = mp_nodes mp in
      if 0 < i \<and> \<not> mn_used (ns ! (i - 1)) then
        (if length ns \<le> Suc i then Inl Null_deref
         else if sz \<le> size_t (mn_size (ns ! (i - 1)) + mn_size (ns ! i) +
                             (if mn_used (ns ! Suc i) then 0 else mn_size (ns ! Suc i)))
         then sm_move_down i sz mp
         else sm_relocate i sz mp)
      else sm_relocate i sz mp)"

definition sm_shrink :: "nat \<Rightarrow> int \<Rightarrow> mempool \<Rightarrow> mempool run" where
  "sm_shrink i sz mp =
     (let mn = mp_nodes mp ! i in
      bindE (sm_uncommit (mem_area mn + sz) (mn_size mn - sz) mp) (\<lambda>mp1.
      bindE (mntruncate i sz (mp_nodes mp1)) (\<lambda>ns. Inr (mp1\<lparr>mp_nodes := ns\<rparr>))))"

definition can_expand :: "nat \<Rightarrow> int \<Rightarrow> mempool \<Rightarrow> bool" where
  "can_expand i sz mp \<longleftrightarrow>
     Suc i < length (mp_nodes mp) \<and> \<not> mn_used (mp_nodes mp ! Suc i) \<and>
     sz \<le> size_t (mn_size (mp_nodes mp ! i) + mn_size (mp_nodes mp ! Suc i))"

definition sm_expand :: "nat \<Rightarrow> int \<Rightarrow> mempool \<Rightarrow> (bool \<times> mempool) run" where
  "sm_expand i sz mp =
     (let mn = mp_nodes mp ! i; nmn = mp_nodes mp ! Suc i in
      bindE (sm_commit_simple (mem_area nmn) (sz - mn_size mn) mp) (\<lambda>(ok, mp1).
      if \<not> ok then Inr (False, mp1)
      else bindE (mntruncate i sz (mp_nodes mp1)) (\<lambda>ns.
        Inr (True, mp1\<lparr>mp_nodes := ns,
                        mp_mem := mem_set (mp_mem mp1) (mem_area nmn) 0 (sz - mn_size mn)\<rparr>))))"

definition return_node :: "nat \<Rightarrow> int \<Rightarrow> mempool \<Rightarrow> (int \<times> mempool) run" where
  "return_node i sz mp =
     assertE (mn_size (mp_nodes mp ! i) = sz) (Inr (mem_area (mp_nodes mp ! i), mp))"

definition smrealloc :: "int \<Rightarrow> int \<Rightarrow> mempool \<Rightarrow> (int \<times> mempool) run" where
  "smrealloc ptr sz mp =
     (if ptr = 0 then smalloc sz mp
      else case find_mn mp ptr of
        None \<Rightarrow> Inr (0, mp)
      | Some i \<Rightarrow>
          (let mn = mp_nodes mp ! i in
           if \<not> mn_used mn then Inr (0, mp)
           else if sz = 0 then bindE (smfree ptr mp) (\<lambda>(_, mp1). Inr (0, mp1))
           else if sz = mn_size mn then Inr (ptr, mp)
           else if sz < mn_size mn then bindE (sm_shrink i sz mp) (return_node i sz)
           else if can_expand i sz mp then
             bindE (sm_expand i sz mp) (\<lambda>(ok, mp1).
               if ok then return_node i sz mp1 else Inr (0, mp1))
           else
             bindE (sm_realloc_alloc_mn i sz mp) (\<lambda>(r, mp1).
               case r of None \<Rightarrow> Inr (0, mp1) | Some j \<Rightarrow> return_node j sz mp1)))"

text \<open>
  In the last branch of \<open>smrealloc_aligned\<close> the variable \<open>mn\<close> still points to the old
  node after \<open>smfree\<close>: the node is gone when it was merged into a free predecessor, and
  otherwise the final assertion reads its size.
\<close>

definition smrealloc_aligned :: "int \<Rightarrow> int \<Rightarrow> int \<Rightarrow> mempool \<Rightarrow> (int \<times> mempool) run" where
  "smrealloc_aligned ptr algn sz mp =
     assertE (popcount_is_1 algn)
     (if ptr = 0 then smalloc_aligned algn sz mp
      else case find_mn mp ptr of
        None \<Rightarrow> Inr (0, mp)
      | Some i \<Rightarrow>
          (let mn = mp_nodes mp ! i in
           if \<not> mn_used mn then Inr (0, mp)
           else if sz = 0 then bindE (smfree ptr mp) (\<lambda>(_, mp1). Inr (0, mp1))
           else if sz = mn_size mn then Inr (ptr, mp)
           else if mem_area mn AND (algn - 1) \<noteq> 0 then Inr (0, mp)
           else if sz < mn_size mn then bindE (sm_shrink i sz mp) (return_node i sz)
           else if can_expand i sz mp then
             bindE (sm_expand i sz mp) (\<lambda>(ok, mp1).
               if ok then return_node i sz mp1 else Inr (0, mp1))
           else
             bindE (sm_alloc_aligned algn sz mp) (\<lambda>(r, mp1).
               case r of None \<Rightarrow> Inr (0, mp1)
               | Some j \<Rightarrow>
                   bindE (smfree (mem_area mn)
                           (mp1\<lparr>mp_mem := mem_move (mp_mem mp1) (mem_area (mp_nodes mp1 ! j))
                                           (mem_area mn) (mn_size mn)\<rparr>)) (\<lambda>(_, mp2).
                     case find_mn mp2 (mem_area mn) of
                       None \<Rightarrow> Inl Use_after_free
                     | Some k \<Rightarrow> return_node k sz mp2))))"

section \<open>Pools\<close>

definition sminit :: "int \<Rightarrow> int \<Rightarrow> memory \<Rightarrow> mempool" where
  "sminit start sz mem =
     \<lparr>mp_size = sz, mp_avail = sz,
      mp_nodes = [\<lparr>mn_size = sz, mn_used = False, mem_area = start\<rparr>],
      mp_commit = None, mp_uncommit = False, mp_calls = [], mp_mem = mem\<rparr>"

definition do_sminit_com ::
    "int \<Rightarrow> int \<Rightarrow> (sm_call list \<Rightarrow> int \<Rightarrow> int \<Rightarrow> bool) option \<Rightarrow> bool \<Rightarrow> bool \<Rightarrow> memory \<Rightarrow> mempool" where
  "do_sminit_com start sz commit uncommit do_uncommit mem =
     (sminit start sz mem)\<lparr>mp_commit := commit, mp_uncommit := uncommit,
        mp_calls := (if uncommit \<and> do_uncommit then [Uncommit start sz] else [])\<rparr>"

definition sminit_com where
  "sminit_com start sz commit uncommit = do_sminit_com start sz commit uncommit True"

definition sminit_comu where
  "sminit_comu start sz commit uncommit = do_sminit_com start sz commit uncommit False"

text \<open>The loop of \<open>smfree_all\<close>: \<open>None\<close> would be a loop that does not end.\<close>

partial_function (option) smfree_all :: "mempool \<Rightarrow> mempool run option" where
  "smfree_all mp =
     (if \<not> pool_used mp then Some (assertE (length (mp_nodes mp) = 1) (Inr mp))
      else
        (let i = (if mn_used (mp_nodes mp ! 0) then 0 else 1) in
         if length (mp_nodes mp) \<le> i \<or> \<not> mn_used (mp_nodes mp ! i) then Some (Inl Assert_failed)
         else case smfree (mem_area (mp_nodes mp ! i)) mp of
                Inl t \<Rightarrow> Some (Inl t)
              | Inr (_, mp1) \<Rightarrow> smfree_all mp1))"

declare smfree_all.simps [simp del]

definition smdestroy :: "mempool \<Rightarrow> (int \<times> mempool) run option" where
  "smdestroy mp =
     (let avail = mp_avail mp mod 2 ^ 32 in
      map_option (\<lambda>r. bindE r (\<lambda>mp1.
        let sz = mn_size (mp_nodes mp1 ! 0) in
        assertE (avail \<le> sz) (Inr (c_int (sz - avail), mp1)))) (smfree_all mp))"

end
