(* ===== verification/Region.thy ===== *)
theory Region
  imports Prelude
begin

text \<open>
  The contract between an allocator of address ranges and its clients: a request returns a
  fresh range or fails without effect, a release gives back exactly the named range. Both
  allocators of the program, the pool allocator of fdpp/smalloc.c and the DOS memory
  manager of kernel/memmgr.c, are interpretations; what a client may rely on over a whole
  run is proved here once.
\<close>

definition disjoint_areas :: "int \<times> int \<Rightarrow> int \<times> int \<Rightarrow> bool" where
  "disjoint_areas x y \<longleftrightarrow> fst x + snd x \<le> fst y \<or> fst y + snd y \<le> fst x"

definition pairwise_disjoint :: "(int \<times> int) set \<Rightarrow> bool" where
  "pairwise_disjoint A \<longleftrightarrow> (\<forall>a \<in> A. \<forall>b \<in> A. a \<noteq> b \<longrightarrow> disjoint_areas a b)"

lemma disjoint_areas_sym: "disjoint_areas a b \<longleftrightarrow> disjoint_areas b a"
  by (auto simp: disjoint_areas_def)

lemma pairwise_disjoint_insert:
  "pairwise_disjoint A \<Longrightarrow> (\<And>a. a \<in> A \<Longrightarrow> disjoint_areas x a) \<Longrightarrow> pairwise_disjoint (insert x A)"
  unfolding pairwise_disjoint_def using disjoint_areas_sym by blast

lemma pairwise_disjoint_subset: "pairwise_disjoint A \<Longrightarrow> B \<subseteq> A \<Longrightarrow> pairwise_disjoint B"
  unfolding pairwise_disjoint_def by blast

datatype request = Get int | Give_back int

text \<open>Serving a list of requests; a trap stops the run.\<close>

fun serve ::
    "(int \<Rightarrow> 's \<Rightarrow> (int \<times> 's) run) \<Rightarrow> (int \<Rightarrow> 's \<Rightarrow> (int \<times> 's) run) \<Rightarrow> request list \<Rightarrow> 's \<Rightarrow> 's run" where
  "serve alloc release [] s = Inr s"
| "serve alloc release (Get n # rs) s = bindE (alloc n s) (\<lambda>(_, s1). serve alloc release rs s1)"
| "serve alloc release (Give_back p # rs) s = bindE (release p s) (\<lambda>(_, s1). serve alloc release rs s1)"

locale region_alloc =
  fixes alloc :: "int \<Rightarrow> 's \<Rightarrow> (int \<times> 's) run"
    and release :: "int \<Rightarrow> 's \<Rightarrow> (int \<times> 's) run"
    and areas :: "'s \<Rightarrow> (int \<times> int) set"
    and invar :: "'s \<Rightarrow> bool"
    and extent :: "int \<Rightarrow> int"
    and valid :: "int \<Rightarrow> bool"
  assumes alloc_law: "invar s \<Longrightarrow> valid n \<Longrightarrow>
      \<exists>p s1. alloc n s = Inr (p, s1) \<and> invar s1 \<and>
        (p = 0 \<and> areas s1 = areas s \<or>
         areas s1 = insert (p, extent n) (areas s) \<and> (\<forall>a \<in> areas s. disjoint_areas (p, extent n) a))"
    and release_law: "invar s \<Longrightarrow> (p, n) \<in> areas s \<Longrightarrow>
      \<exists>s1. release p s = Inr (0, s1) \<and> invar s1 \<and> areas s1 = areas s - {(p, n)}"
    and release_other_law: "invar s \<Longrightarrow> \<forall>n. (p, n) \<notin> areas s \<Longrightarrow> 
      \<exists>r s1. release p s = Inr (r, s1) \<and> invar s1 \<and> areas s1 = areas s"
begin

lemma serve_disjoint:
  assumes "invar s" "pairwise_disjoint (areas s)" "\<forall>n. Get n \<in> set rs \<longrightarrow> valid n"
  shows "\<exists>s1. serve alloc release rs s = Inr s1 \<and> invar s1 \<and> pairwise_disjoint (areas s1)"
  using assms
proof (induction rs arbitrary: s)
  case (Cons r rs)
  show ?case
  proof (cases r)
    case (Get n)
    with Cons.prems obtain p s1 where "alloc n s = Inr (p, s1)" "invar s1" "pairwise_disjoint (areas s1)"
      using alloc_law[of s n] pairwise_disjoint_insert[of "areas s" "(p, extent n)" for p] by fastforce
    with Cons.IH[of s1] Cons.prems(3) Get show ?thesis by simp
  next
    case (Give_back p)
    have "\<exists>v s1. release p s = Inr (v, s1) \<and> invar s1 \<and> areas s1 \<subseteq> areas s"
    proof (cases "\<exists>n. (p, n) \<in> areas s")
      case True
      then obtain n where "(p, n) \<in> areas s" by blast
      from release_law[OF Cons.prems(1) this] show ?thesis by blast
    next
      case False
      then have "\<forall>n. (p, n) \<notin> areas s" by simp
      from release_other_law[OF Cons.prems(1) this] show ?thesis by blast
    qed
    then obtain v s1 where "release p s = Inr (v, s1)" "invar s1" "pairwise_disjoint (areas s1)"
      using pairwise_disjoint_subset[OF Cons.prems(2)] by blast
    with Cons.IH[of s1] Cons.prems(3) Give_back show ?thesis by simp
  qed
qed simp

lemma serve_fresh:
  assumes "invar s" "areas s = {}" "\<forall>n. Get n \<in> set rs \<longrightarrow> valid n"
  shows "\<exists>s1. serve alloc release rs s = Inr s1 \<and> invar s1 \<and> pairwise_disjoint (areas s1)"
  using assms by (intro serve_disjoint) (auto simp: pairwise_disjoint_def)

end

end
