(* ===== verification/Smalloc_Proofs.thy ===== *)
theory Smalloc_Proofs
  imports Smalloc Region
begin

text \<open>
  Well-formed pools and the lemmas about the operations of \<open>Smalloc\<close>. A pool is well
  formed when its nodes tile the pool's range in order, no two free nodes are neighbours,
  the free counter is the sum of the free nodes, and the pool is smaller than 2 GiB (beyond
  which the \<open>int\<close> border shifts of \<open>mntruncate\<close> lose bits).
\<close>

section \<open>Well-formed pools\<close>

fun chain :: "int \<Rightarrow> memnode list \<Rightarrow> int \<Rightarrow> bool" where
  "chain a [] e \<longleftrightarrow> a = e"
| "chain a (n # ns) e \<longleftrightarrow> mem_area n = a \<and> 0 < mn_size n \<and> chain (a + mn_size n) ns e"

fun coalesced :: "memnode list \<Rightarrow> bool" where
  "coalesced [] \<longleftrightarrow> True"
| "coalesced (n # ns) \<longleftrightarrow> (ns = [] \<or> mn_used n \<or> mn_used (hd ns)) \<and> coalesced ns"

definition free_sum :: "memnode list \<Rightarrow> int" where
  "free_sum ns = sum_list (map (\<lambda>n. if mn_used n then 0 else mn_size n) ns)"

definition pool_ok :: "mempool \<Rightarrow> bool" where
  "pool_ok mp \<longleftrightarrow>
     mp_nodes mp \<noteq> [] \<and> 0 < smget_base_addr mp \<and> mp_size mp < 2 ^ 31 \<and>
     smget_base_addr mp + mp_size mp < 2 ^ 63 \<and>
     chain (smget_base_addr mp) (mp_nodes mp) (smget_base_addr mp + mp_size mp) \<and>
     coalesced (mp_nodes mp) \<and> mp_avail mp = free_sum (mp_nodes mp)"

text \<open>The areas a client holds, as (address, size) pairs.\<close>

definition live_areas :: "memnode list \<Rightarrow> (int \<times> int) set" where
  "live_areas ns = {(mem_area n, mn_size n) | n. n \<in> set ns \<and> mn_used n}"

definition live :: "mempool \<Rightarrow> (int \<times> int) set" where
  "live mp = live_areas (mp_nodes mp)"

lemma node_chain_append: "chain a (xs @ ys) e \<longleftrightarrow> (\<exists>m. chain a xs m \<and> chain m ys e)"
  by (induction xs arbitrary: a) auto

lemma chain_le: "chain a ns e \<Longrightarrow> a \<le> e"
  by (induction ns arbitrary: a) fastforce+

lemma chain_less: "chain a ns e \<Longrightarrow> ns \<noteq> [] \<Longrightarrow> a < e"
  by (cases ns) (auto dest: chain_le)

lemma chain_member:
  "chain a ns e \<Longrightarrow> n \<in> set ns \<Longrightarrow> a \<le> mem_area n \<and> 0 < mn_size n \<and> mem_area n + mn_size n \<le> e"
proof (induction ns arbitrary: a)
  case (Cons m ns)
  then show ?case using chain_le[of "a + mn_size m" ns e] by fastforce
qed simp

lemma chain_mid:
  assumes "chain a (pre @ n # post) e"
  shows "chain a pre (mem_area n)" "0 < mn_size n" "chain (mem_area n + mn_size n) post e"
    "a \<le> mem_area n" "mem_area n + mn_size n \<le> e"
  using assms by (auto simp: node_chain_append dest: chain_le)

lemma coalesced_append:
  "coalesced (xs @ ys) \<longleftrightarrow>
     coalesced xs \<and> coalesced ys \<and> (xs = [] \<or> ys = [] \<or> mn_used (last xs) \<or> mn_used (hd ys))"
  by (induction xs) auto

lemma free_sum_simps [simp]:
  "free_sum [] = 0"
  "free_sum (n # ns) = (if mn_used n then 0 else mn_size n) + free_sum ns"
  "free_sum (xs @ ys) = free_sum xs + free_sum ys"
  by (simp_all add: free_sum_def)

lemma free_sum_le: "chain a ns e \<Longrightarrow> 0 \<le> free_sum ns \<and> free_sum ns \<le> e - a"
proof (induction ns arbitrary: a)
  case (Cons n ns)
  from Cons.prems have "0 \<le> free_sum ns \<and> free_sum ns \<le> e - (a + mn_size n)"
    by (intro Cons.IH) simp
  with Cons.prems show ?case by auto
qed simp

lemma live_areas_simps [simp]:
  "live_areas [] = {}"
  "live_areas (n # ns) = (if mn_used n then {(mem_area n, mn_size n)} else {}) \<union> live_areas ns"
  "live_areas (xs @ ys) = live_areas xs \<union> live_areas ys"
  by (auto simp: live_areas_def)

lemma live_areas_bounds:
  "chain a ns e \<Longrightarrow> (p, sz) \<in> live_areas ns \<Longrightarrow> a \<le> p \<and> 0 < sz \<and> p + sz \<le> e"
  by (auto simp: live_areas_def dest: chain_member)

text \<open>The nodes around a node of a chain lie on its two sides.\<close>

lemma live_areas_sides:
  assumes "chain a (pre @ n # post) e" "(p, sz) \<in> live_areas pre \<union> live_areas post"
  shows "p + sz \<le> mem_area n \<or> mem_area n + mn_size n \<le> p"
  using live_areas_bounds[OF chain_mid(1)[OF assms(1)]] live_areas_bounds[OF chain_mid(3)[OF assms(1)]]
    assms(2) by fastforce

text \<open>The parts of a well-formed pool split at one node.\<close>

lemma pool_ok_mid:
  assumes "pool_ok mp" "mp_nodes mp = pre @ n # post"
  shows "0 < mem_area n" "0 < mn_size n" "mn_size n < 2 ^ 31" "mem_area n + mn_size n < 2 ^ 63"
    "mn_size n \<le> mp_size mp" "mp_size mp < 2 ^ 31" "0 \<le> mp_avail mp" "mp_avail mp \<le> mp_size mp"
    "\<not> mn_used n \<Longrightarrow> mn_size n \<le> mp_avail mp"
    "\<not> mn_used n \<Longrightarrow> post = [] \<or> mn_used (hd post)"
    "\<not> mn_used n \<Longrightarrow> pre = [] \<or> mn_used (last pre)"
proof -
  let ?b = "smget_base_addr mp" and ?e = "smget_base_addr mp + mp_size mp"
  have c: "chain ?b (pre @ n # post) ?e" and b: "0 < ?b" "mp_size mp < 2 ^ 31" "?e < 2 ^ 63"
    and av: "mp_avail mp = free_sum (pre @ n # post)" and co: "coalesced (pre @ n # post)"
    using assms by (auto simp: pool_ok_def)
  note m = chain_mid[OF c]
  show "0 < mem_area n" "0 < mn_size n" "mn_size n < 2 ^ 31" "mem_area n + mn_size n < 2 ^ 63"
    "mn_size n \<le> mp_size mp" "mp_size mp < 2 ^ 31"
    using m b by linarith+
  show "0 \<le> mp_avail mp" "mp_avail mp \<le> mp_size mp"
    using free_sum_le[OF c] av by auto
  show "mn_size n \<le> mp_avail mp" if "\<not> mn_used n"
    using that av free_sum_le[OF m(1)] free_sum_le[OF m(3)] by simp
  show "post = [] \<or> mn_used (hd post)" if "\<not> mn_used n"
    using that co by (simp add: coalesced_append)
  show "pre = [] \<or> mn_used (last pre)" if "\<not> mn_used n"
    using that co by (auto simp: coalesced_append)
qed

section \<open>Shifting the border of a node\<close>

lemma mntruncate_same:
  "sz = mn_size n \<Longrightarrow> mntruncate (length pre) sz (pre @ n # post) = Inr (pre @ n # post)"
  by (simp add: mntruncate_def Let_def)

lemma mntruncate_split:
  assumes "0 \<le> sz" "sz < mn_size n" "mn_size n < 2 ^ 31" "post = [] \<or> mn_used (hd post)"
  shows "mntruncate (length pre) sz (pre @ n # post) =
    Inr (pre @ n\<lparr>mn_size := sz\<rparr> #
         \<lparr>mn_size = mn_size n - sz, mn_used = False, mem_area = mem_area n + sz\<rparr> # post)"
proof -
  have "c_int (size_t (mn_size n - sz)) = mn_size n - sz"
    using assms by (simp add: c_int_id)
  with assms show ?thesis
    by (cases post) (simp_all add: mntruncate_def Let_def)
qed

lemma mntruncate_shift:
  assumes "0 < sz" "sz < mn_size n + mn_size m" "mn_size n < 2 ^ 31" "mn_size m < 2 ^ 31"
    "0 < mn_size n" "0 < mn_size m" "mn_size n + mn_size m < 2 ^ 31" "\<not> mn_used m" "sz \<noteq> mn_size n"
  shows "mntruncate (length pre) sz (pre @ n # m # post) =
    Inr (pre @ n\<lparr>mn_size := sz\<rparr> #
         m\<lparr>mn_size := mn_size n + mn_size m - sz, mem_area := mem_area m + sz - mn_size n\<rparr> # post)"
proof -
  have "c_int (size_t (mn_size n - sz)) = mn_size n - sz"
    using assms by (simp add: c_int_id)
  with assms show ?thesis
    by (simp add: mntruncate_def Let_def algebra_simps list_update_append)
qed

lemma mntruncate_absorb:
  assumes "sz = mn_size n + mn_size m" "0 < mn_size n" "0 < mn_size m" "sz < 2 ^ 31"
    "\<not> mn_used m" "post = [] \<or> mn_used (hd post)"
  shows "mntruncate (length pre) sz (pre @ n # m # post) = Inr (pre @ n\<lparr>mn_size := sz\<rparr> # post)"
proof -
  have "c_int (size_t (mn_size n - sz)) = - mn_size m"
    using assms by (simp add: c_int_id)
  with assms show ?thesis
    by (cases post) (simp_all add: mntruncate_def Let_def)
qed

lemmas mntruncate_cases = mntruncate_same mntruncate_split mntruncate_shift mntruncate_absorb

section \<open>Commit and uncommit\<close>

text \<open>A state that differs from \<open>mp\<close> in the call trace only.\<close>

definition same_but_calls :: "mempool \<Rightarrow> mempool \<Rightarrow> bool" where
  "same_but_calls mp mp1 \<longleftrightarrow> (\<exists>c. mp1 = mp\<lparr>mp_calls := c\<rparr>)"

lemma same_but_calls_refl [simp]: "same_but_calls mp mp"
  by (auto simp: same_but_calls_def intro!: exI[of _ "mp_calls mp"])

lemma same_but_calls_upd [simp]: "same_but_calls mp (mp\<lparr>mp_calls := c\<rparr>)"
  by (auto simp: same_but_calls_def)

lemma nodes_update_same [simp]: "mp_nodes mp = ns \<Longrightarrow> mp\<lparr>mp_nodes := ns\<rparr> = mp"
  by auto

lemma sm_commit_simple_cases:
  assumes "sz \<le> mp_avail mp" "mp_avail mp < 2 ^ 32" "0 \<le> sz"
  obtains (ok) c where "sm_commit_simple a sz mp = Inr (True, mp\<lparr>mp_avail := mp_avail mp - sz, mp_calls := c\<rparr>)"
  | (failed) c where "sm_commit_simple a sz mp = Inr (False, mp\<lparr>mp_calls := c\<rparr>)" "mp_commit mp \<noteq> None"
proof (cases "mp_commit mp")
  case None
  then have "sm_commit_simple a sz mp = Inr (True, mp\<lparr>mp_avail := mp_avail mp - sz, mp_calls := mp_calls mp\<rparr>)"
    using assms by (simp add: sm_commit_simple_def sm_commit_def do_commit_def Let_def)
  then show ?thesis by (rule ok)
next
  case (Some f)
  let ?a = "page_mask a" and ?s = "page_align (size_t (sz + (a - page_mask a)))"
  let ?c = "mp_calls mp @ [Commit ?a ?s]"
  show ?thesis
  proof (cases "f (mp_calls mp) ?a ?s")
    case True
    with Some have "sm_commit_simple a sz mp = Inr (True, mp\<lparr>mp_avail := mp_avail mp - sz, mp_calls := ?c\<rparr>)"
      using assms by (simp add: sm_commit_simple_def sm_commit_def do_commit_def Let_def)
    then show ?thesis by (rule ok)
  next
    case False
    with Some have "sm_commit_simple a sz mp = Inr (False, mp\<lparr>mp_calls := ?c\<rparr>)"
      by (simp add: sm_commit_simple_def sm_commit_def do_commit_def Let_def)
    then show ?thesis using Some by (intro failed) auto
  qed
qed

lemma sm_commit_simple_None:
  "mp_commit mp = None \<Longrightarrow> sz \<le> mp_avail mp \<Longrightarrow> mp_avail mp < 2 ^ 32 \<Longrightarrow> 0 \<le> sz \<Longrightarrow>
   sm_commit_simple a sz mp = Inr (True, mp\<lparr>mp_avail := mp_avail mp - sz\<rparr>)"
  by (simp add: sm_commit_simple_def sm_commit_def do_commit_def Let_def)

lemma sm_uncommit_ok:
  assumes "0 \<le> mp_avail mp" "0 \<le> sz" "mp_avail mp + sz \<le> mp_size mp" "mp_size mp < 2 ^ 32"
  obtains c where "sm_uncommit a sz mp = Inr (mp\<lparr>mp_avail := mp_avail mp + sz, mp_calls := c\<rparr>)"
proof (cases "mp_uncommit mp")
  case True
  with assms have "sm_uncommit a sz mp = Inr (mp\<lparr>mp_avail := mp_avail mp + sz, mp_calls := mp_calls mp @
     [Uncommit (page_align a) (page_mask (size_t (sz - (page_align a - a))))]\<rparr>)"
    by (simp add: sm_uncommit_def Let_def)
  then show ?thesis by (rule that)
next
  case False
  with assms have "sm_uncommit a sz mp = Inr (mp\<lparr>mp_avail := mp_avail mp + sz, mp_calls := mp_calls mp\<rparr>)"
    by (simp add: sm_uncommit_def Let_def)
  then show ?thesis by (rule that)
qed

section \<open>Allocation\<close>

text \<open>
  What every allocation function does to the node list: a free node \<open>n\<close> is replaced by a
  free remainder of \<open>d\<close> bytes, the new area, and a free rest (the remainders left out
  when empty).
\<close>

definition carve :: "memnode \<Rightarrow> int \<Rightarrow> int \<Rightarrow> memnode list" where
  "carve n d sz =
     (if d = 0 then [] else [\<lparr>mn_size = d, mn_used = False, mem_area = mem_area n\<rparr>]) @
     [\<lparr>mn_size = sz, mn_used = True, mem_area = mem_area n + d\<rparr>] @
     (if mn_size n = d + sz then []
      else [\<lparr>mn_size = mn_size n - d - sz, mn_used = False, mem_area = mem_area n + d + sz\<rparr>])"

definition alloc_at :: "int \<Rightarrow> int \<Rightarrow> mempool \<Rightarrow> mempool \<Rightarrow> bool" where
  "alloc_at p sz mp mp1 \<longleftrightarrow>
     (\<exists>pre n post d c. mp_nodes mp = pre @ n # post \<and> \<not> mn_used n \<and> 0 \<le> d \<and> 0 < sz \<and>
        d + sz \<le> mn_size n \<and> p = mem_area n + d \<and>
        mp1 = mp\<lparr>mp_nodes := pre @ carve n d sz @ post, mp_avail := mp_avail mp - sz,
                 mp_mem := mem_set (mp_mem mp) p 0 sz, mp_calls := c\<rparr>)"

lemma free_node_eq:
  "\<not> mn_used n \<Longrightarrow> n\<lparr>mn_size := s\<rparr> = \<lparr>mn_size = s, mn_used = False, mem_area = mem_area n\<rparr>"
  "n\<lparr>mn_used := True, mn_size := s\<rparr> = \<lparr>mn_size = s, mn_used = True, mem_area = mem_area n\<rparr>"
  "s = mn_size n \<Longrightarrow> n\<lparr>mn_used := True\<rparr> = \<lparr>mn_size = s, mn_used = True, mem_area = mem_area n\<rparr>"
  by (cases n; simp)+

lemma sm_take_mid:
  assumes ns: "mp_nodes mp = pre @ n # post" and free: "\<not> mn_used n"
    and sz: "0 < sz" "sz \<le> mn_size n" "mn_size n < 2 ^ 31"
    and post: "sz = mn_size n \<or> post = [] \<or> mn_used (hd post)"
    and av: "sz \<le> mp_avail mp" "mp_avail mp < 2 ^ 32"
  shows "(\<exists>c. sm_take (length pre) sz mp = Inr (Some (length pre),
      mp\<lparr>mp_nodes := pre @ carve n 0 sz @ post, mp_avail := mp_avail mp - sz,
         mp_mem := mem_set (mp_mem mp) (mem_area n) 0 sz, mp_calls := c\<rparr>)) \<or>
    (\<exists>c. sm_take (length pre) sz mp = Inr (None, mp\<lparr>mp_calls := c\<rparr>) \<and> mp_commit mp \<noteq> None)"
proof (cases rule: sm_commit_simple_cases[where a = "mem_area n", OF av(1) av(2)])
  case 1
  show ?case using sz by simp
next
  case (2 c)
  let ?u = "n\<lparr>mn_used := True\<rparr>"
  have t: "mntruncate (length pre) sz (pre @ ?u # post) = Inr (pre @ carve n 0 sz @ post)"
  proof (cases "sz = mn_size n")
    case True
    then show ?thesis
      using mntruncate_same[of sz ?u] by (simp add: carve_def free_node_eq)
  next
    case False
    then show ?thesis
      using sz post mntruncate_split[of sz ?u post pre] by (simp add: carve_def free_node_eq)
  qed
  have "sm_take (length pre) sz mp = Inr (Some (length pre),
      mp\<lparr>mp_nodes := pre @ carve n 0 sz @ post, mp_avail := mp_avail mp - sz,
         mp_mem := mem_set (mp_mem mp) (mem_area n) 0 sz, mp_calls := c\<rparr>)"
    using 2 t by (simp add: sm_take_def ns) (simp add: carve_def)
  then show ?thesis by blast
next
  case (3 c)
  then have "sm_take (length pre) sz mp = Inr (None, mp\<lparr>mp_calls := c\<rparr>)"
    by (simp add: sm_take_def ns)
  then show ?thesis using 3 by blast
qed

text \<open>The outcomes of an allocation: an area, or \<open>NULL\<close> after a refused commit.\<close>

definition alloc_outcome :: "int \<Rightarrow> int \<Rightarrow> mempool \<Rightarrow> (nat option \<times> mempool) run \<Rightarrow> bool" where
  "alloc_outcome p sz mp r \<longleftrightarrow>
     (\<exists>i mp1. r = Inr (Some i, mp1) \<and> alloc_at p sz mp mp1 \<and> i < length (mp_nodes mp1) \<and>
        mp_nodes mp1 ! i = \<lparr>mn_size = sz, mn_used = True, mem_area = p\<rparr>) \<or>
     (\<exists>c ns. r = Inr (None, mp\<lparr>mp_nodes := ns, mp_calls := c\<rparr>) \<and>
        mp_commit mp \<noteq> None \<and> live_areas ns = live mp)"

lemma sm_skip_mid:
  assumes ok: "pool_ok mp" and ns: "mp_nodes mp = pre @ n # post" and free: "\<not> mn_used n"
    and d: "0 \<le> d" "d + sz \<le> mn_size n" and sz: "0 < sz"
  shows "alloc_outcome (mem_area n + d) sz mp (sm_skip (length pre) d sz mp)"
proof -
  note m = pool_ok_mid[OF ok ns]
  have post: "post = [] \<or> mn_used (hd post)" and av: "sz \<le> mp_avail mp" "mp_avail mp < 2 ^ 32"
    using m free d sz by auto
  show ?thesis
  proof (cases "d = 0")
    case True
    have "sz = mn_size n \<or> post = [] \<or> mn_used (hd post)" using post by blast
    from sm_take_mid[OF ns free sz _ _ this av] d m True
    consider c where "sm_take (length pre) sz mp = Inr (Some (length pre),
        mp\<lparr>mp_nodes := pre @ carve n 0 sz @ post, mp_avail := mp_avail mp - sz,
           mp_mem := mem_set (mp_mem mp) (mem_area n) 0 sz, mp_calls := c\<rparr>)"
      | c where "sm_take (length pre) sz mp = Inr (None, mp\<lparr>mp_calls := c\<rparr>)" "mp_commit mp \<noteq> None"
      by auto
    then show ?thesis
    proof cases
      case 1
      then have "alloc_at (mem_area n + d) sz mp (mp\<lparr>mp_nodes := pre @ carve n 0 sz @ post,
          mp_avail := mp_avail mp - sz, mp_mem := mem_set (mp_mem mp) (mem_area n) 0 sz, mp_calls := c\<rparr>)"
        unfolding alloc_at_def using ns free d sz True by fastforce
      with 1 True show ?thesis by (auto simp: alloc_outcome_def sm_skip_def carve_def)
    next
      case 2
      with True have "sm_skip (length pre) d sz mp = Inr (None, mp\<lparr>mp_nodes := mp_nodes mp, mp_calls := c\<rparr>)"
        by (simp add: sm_skip_def)
      with 2 show ?thesis unfolding alloc_outcome_def live_def by blast
    qed
  next
    case False
    let ?f = "\<lparr>mn_size = d, mn_used = False, mem_area = mem_area n\<rparr>"
    let ?r = "\<lparr>mn_size = mn_size n - d, mn_used = False, mem_area = mem_area n + d\<rparr>"
    let ?mp = "mp\<lparr>mp_nodes := (pre @ [?f]) @ ?r # post\<rparr>"
    have t: "mntruncate (length pre) (size_t d) (mp_nodes mp) = Inr (pre @ ?f # ?r # post)"
      using mntruncate_split[of d n post pre] d sz m post by (simp add: ns free_node_eq free)
    have skip: "sm_skip (length pre) d sz mp = sm_take (length (pre @ [?f])) sz ?mp"
      using False t d by (simp add: sm_skip_def)
    have carve: "(pre @ [?f]) @ carve ?r 0 sz @ post = pre @ carve n d sz @ post"
      using False by (auto simp: carve_def)
    have "(\<exists>c. sm_take (length (pre @ [?f])) sz ?mp = Inr (Some (length (pre @ [?f])),
        ?mp\<lparr>mp_nodes := (pre @ [?f]) @ carve ?r 0 sz @ post, mp_avail := mp_avail ?mp - sz,
           mp_mem := mem_set (mp_mem ?mp) (mem_area ?r) 0 sz, mp_calls := c\<rparr>)) \<or>
      (\<exists>c. sm_take (length (pre @ [?f])) sz ?mp = Inr (None, ?mp\<lparr>mp_calls := c\<rparr>) \<and> mp_commit ?mp \<noteq> None)"
      by (rule sm_take_mid) (use d m sz post av in auto)
    then consider c where "sm_take (length (pre @ [?f])) sz ?mp = Inr (Some (length (pre @ [?f])),
        ?mp\<lparr>mp_nodes := pre @ carve n d sz @ post, mp_avail := mp_avail mp - sz,
           mp_mem := mem_set (mp_mem mp) (mem_area n + d) 0 sz, mp_calls := c\<rparr>)"
      | c where "sm_take (length (pre @ [?f])) sz ?mp = Inr (None, ?mp\<lparr>mp_calls := c\<rparr>)" "mp_commit mp \<noteq> None"
      unfolding carve by auto
    then show ?thesis
    proof cases
      case 1
      have "alloc_at (mem_area n + d) sz mp (mp\<lparr>mp_nodes := pre @ carve n d sz @ post,
          mp_avail := mp_avail mp - sz, mp_mem := mem_set (mp_mem mp) (mem_area n + d) 0 sz, mp_calls := c\<rparr>)"
        unfolding alloc_at_def using ns free d sz by fastforce
      with 1 False show ?thesis
        by (auto simp: alloc_outcome_def skip carve_def nth_append)
    next
      case 2
      have "live_areas (pre @ ?f # ?r # post) = live mp"
        using free by (simp add: live_def ns)
      with 2 skip show ?thesis unfolding alloc_outcome_def by fastforce
    qed
  qed
qed

text \<open>The searches return the node their loop conditions describe.\<close>

lemma smfind_free_area_Some:
  "smfind_free_area i ns sz = Some j \<Longrightarrow>
   \<exists>pre n post. ns = pre @ n # post \<and> j = i + length pre \<and> \<not> mn_used n \<and> sz \<le> mn_size n \<and>
     (\<forall>m \<in> set pre. mn_used m \<or> mn_size m < sz)"
proof (induction ns arbitrary: i)
  case (Cons m ns)
  show ?case
  proof (cases "\<not> mn_used m \<and> sz \<le> mn_size m")
    case True
    with Cons.prems show ?thesis by (intro exI[of _ "[]"]) auto
  next
    case False
    with Cons.prems have "smfind_free_area (Suc i) ns sz = Some j" by auto
    from Cons.IH[OF this] obtain pre n post where "ns = pre @ n # post" "j = Suc i + length pre"
      "\<not> mn_used n" "sz \<le> mn_size n" "\<forall>m \<in> set pre. mn_used m \<or> mn_size m < sz" by blast
    with False show ?thesis by (intro exI[of _ "m # pre"] exI[of _ n] exI[of _ post]) auto
  qed
qed simp

lemma smfind_free_area_None:
  "smfind_free_area i ns sz = None \<longleftrightarrow> (\<forall>m \<in> set ns. mn_used m \<or> mn_size m < sz)"
  by (induction ns arbitrary: i) auto

lemma smfind_free_area_topdown_Some:
  assumes "smfind_free_area_topdown i ns tp sz mn1 = Some j" "mn1 \<noteq> Some j"
  shows "\<exists>pre n post. ns = pre @ n # post \<and> j = i + length pre \<and> \<not> mn_used n \<and> sz \<le> mn_size n \<and>
     (tp = 0 \<or> mem_area n + sz \<le> tp)"
  using assms
proof (induction ns arbitrary: i mn1)
  case (Cons m ns)
  let ?mn1 = "if \<not> mn_used m \<and> sz \<le> mn_size m then Some i else mn1"
  from Cons.prems have go: "\<not> (tp \<noteq> 0 \<and> tp < mem_area m + sz)"
    and rec: "smfind_free_area_topdown (Suc i) ns tp sz ?mn1 = Some j"
    by (auto split: if_splits)
  show ?case
  proof (cases "?mn1 = Some j")
    case True
    with Cons.prems(2) have "\<not> mn_used m" "sz \<le> mn_size m" "i = j" by (auto split: if_splits)
    with go show ?thesis by (intro exI[of _ "[]"]) auto
  next
    case False
    from Cons.IH[OF rec this] obtain pre n post where "ns = pre @ n # post" "j = Suc i + length pre"
      "\<not> mn_used n" "sz \<le> mn_size n" "tp = 0 \<or> mem_area n + sz \<le> tp" by blast
    then show ?thesis by (intro exI[of _ "m # pre"] exI[of _ n] exI[of _ post]) auto
  qed
qed simp

lemma find_mn_at_Some:
  "find_mn_at i ns ptr = Some j \<Longrightarrow>
   \<exists>pre n post. ns = pre @ n # post \<and> j = i + length pre \<and> mem_area n \<le> ptr \<and> ptr < mem_area n + mn_size n"
proof (induction ns arbitrary: i)
  case (Cons m ns)
  show ?case
  proof (cases "ptr < mem_area m + mn_size m")
    case True
    with Cons.prems show ?thesis by (intro exI[of _ "[]"]) (auto split: if_splits)
  next
    case False
    with Cons.prems have "find_mn_at (Suc i) ns ptr = Some j" by (auto split: if_splits)
    from Cons.IH[OF this] obtain pre n post where "ns = pre @ n # post" "j = Suc i + length pre"
      "mem_area n \<le> ptr" "ptr < mem_area n + mn_size n" by blast
    then show ?thesis by (intro exI[of _ "m # pre"] exI[of _ n] exI[of _ post]) auto
  qed
qed simp

lemma popcount_is_1_pow2: "k \<le> 31 \<Longrightarrow> popcount_is_1 (2 ^ k)"
proof -
  assume "k \<le> 31"
  then have "(2::int) ^ k \<le> 2 ^ 31" by (intro power_increasing) auto
  then have "(2::int) ^ k mod 2 ^ 32 = 2 ^ k" by (intro mod_pos_pos_trivial) auto
  with \<open>k \<le> 31\<close> show ?thesis unfolding popcount_is_1_def by (intro bexI[of _ k]) auto
qed

lemma sm_alloc_aligned_cases:
  assumes ok: "pool_ok mp" and k: "k \<le> 31" and sz: "0 < sz" "sz < 2 ^ 63"
  shows "(\<exists>p. alloc_outcome p sz mp (sm_alloc_aligned (2 ^ k) sz mp) \<and> p mod 2 ^ k = 0) \<or>
    ((\<forall>n \<in> set (mp_nodes mp). mn_used n \<or> mn_size n < sz + 2 ^ k - 1) \<and>
     sm_alloc_aligned (2 ^ k) sz mp = do_smerror (get_oom_pr mp sz) (None, mp))"
proof -
  have k2: "(1::int) \<le> 2 ^ k" "(2::int) ^ k \<le> 2 ^ 31"
    using k power_increasing[of k 31 "2::int"] by auto
  then have st: "size_t (sz + (2 ^ k - 1)) = sz + 2 ^ k - 1"
    using sz by (subst size_t_id) auto
  note al = sm_alloc_aligned_def popcount_is_1_pow2[OF k] Let_def st align_up_delta
  show ?thesis
  proof (cases "smfind_free_area 0 (mp_nodes mp) (sz + 2 ^ k - 1)")
    case None
    then have "sm_alloc_aligned (2 ^ k) sz mp = do_smerror (get_oom_pr mp sz) (None, mp)"
      using sz by (simp add: al)
    with None show ?thesis by (auto simp: smfind_free_area_None)
  next
    case (Some j)
    then obtain pre n post where n: "mp_nodes mp = pre @ n # post" "j = length pre" "\<not> mn_used n"
      "sz + 2 ^ k - 1 \<le> mn_size n" by (auto dest: smfind_free_area_Some)
    define d where "d = (- mem_area n) mod 2 ^ k"
    have d: "0 \<le> d" "d < 2 ^ k" by (simp_all add: d_def)
    have "alloc_outcome (mem_area n + d) sz mp (sm_skip (length pre) d sz mp)"
      using d n sz by (intro sm_skip_mid[OF ok]) auto
    moreover have "c_int d = d" using d k2 by (intro c_int_id) auto
    then have "sm_alloc_aligned (2 ^ k) sz mp = sm_skip (length pre) d sz mp"
      using Some n sz by (simp add: al d_def)
    moreover have "(mem_area n + d) mod 2 ^ k = 0"
      by (simp add: d_def mod_add_right_eq)
    ultimately show ?thesis by auto
  qed
qed

lemma sm_alloc_fixed_cases:
  assumes ok: "pool_ok mp" and sz: "0 < sz" "sz < 2 ^ 63" and p: "0 < p"
  shows "alloc_outcome p sz mp (sm_alloc_fixed p sz mp) \<or> sm_alloc_fixed p sz mp = Inr (None, mp)"
proof (cases "find_mn_at 0 (mp_nodes mp) p")
  case None
  then show ?thesis using sz by (simp add: sm_alloc_fixed_def)
next
  case (Some i)
  then obtain pre n post where n: "mp_nodes mp = pre @ n # post" "i = length pre"
    "mem_area n \<le> p" "p < mem_area n + mn_size n" by (auto dest: find_mn_at_Some)
  note m = pool_ok_mid[OF ok n(1)]
  have st: "size_t (sz + (p - mem_area n)) = sz + (p - mem_area n)"
    using n m(3) sz by (intro size_t_id) auto
  show ?thesis
  proof (cases "mn_used n \<or> mn_size n < sz + (p - mem_area n)")
    case True
    then show ?thesis
      using Some n sz p st by (auto simp: sm_alloc_fixed_def do_smerror_def Let_def)
  next
    case False
    have "alloc_outcome (mem_area n + (p - mem_area n)) sz mp (sm_skip (length pre) (p - mem_area n) sz mp)"
      using False n sz by (intro sm_skip_mid[OF ok]) auto
    then show ?thesis
      using Some n sz p st False by (simp add: sm_alloc_fixed_def Let_def)
  qed
qed

text \<open>
  The top-down variant first cuts the free bytes above the new area off, then the bytes
  below; the lower cut meets a free successor and moves its border instead of inserting a
  node. Either way the node list ends up carved.
\<close>

lemma sm_skip_below:
  assumes ok: "pool_ok mp" and ns: "mp_nodes mp = pre @ n # post" and free: "\<not> mn_used n"
    and d: "0 \<le> d" and sz: "0 < sz" and e: "d + sz < mn_size n"
    and upper: "upper = \<lparr>mn_size = mn_size n - d - sz, mn_used = False, mem_area = mem_area n + d + sz\<rparr>"
  shows "alloc_outcome (mem_area n + d) sz mp
     (sm_skip (length pre) d sz (mp\<lparr>mp_nodes := pre @ n\<lparr>mn_size := d + sz\<rparr> # upper # post\<rparr>))"
    (is "alloc_outcome _ _ _ (sm_skip _ _ _ ?mp)")
proof -
  note m = pool_ok_mid[OF ok ns]
  have av: "sz \<le> mp_avail ?mp" "mp_avail ?mp < 2 ^ 32" using m free d e by auto
  let ?f = "\<lparr>mn_size = d, mn_used = False, mem_area = mem_area n\<rparr>"
  let ?r = "\<lparr>mn_size = mn_size n - d, mn_used = False, mem_area = mem_area n + d\<rparr>"
  show ?thesis
  proof (cases "d = 0")
    case True
    let ?n = "n\<lparr>mn_size := d + sz\<rparr>"
    have carve: "pre @ carve ?n 0 sz @ upper # post = pre @ carve n d sz @ post"
      using True e by (simp add: carve_def upper)
    have "(\<exists>c. sm_take (length pre) sz ?mp = Inr (Some (length pre),
        ?mp\<lparr>mp_nodes := pre @ carve ?n 0 sz @ upper # post, mp_avail := mp_avail ?mp - sz,
           mp_mem := mem_set (mp_mem ?mp) (mem_area ?n) 0 sz, mp_calls := c\<rparr>)) \<or>
      (\<exists>c. sm_take (length pre) sz ?mp = Inr (None, ?mp\<lparr>mp_calls := c\<rparr>) \<and> mp_commit ?mp \<noteq> None)"
      by (rule sm_take_mid) (use d m sz e av free True in auto)
    then consider c where "sm_skip (length pre) d sz ?mp = Inr (Some (length pre),
        mp\<lparr>mp_nodes := pre @ carve n d sz @ post, mp_avail := mp_avail mp - sz,
           mp_mem := mem_set (mp_mem mp) (mem_area n + d) 0 sz, mp_calls := c\<rparr>)"
      | c where "sm_skip (length pre) d sz ?mp = Inr (None, ?mp\<lparr>mp_calls := c\<rparr>)" "mp_commit mp \<noteq> None"
      unfolding carve using True by (auto simp: sm_skip_def)
    then show ?thesis
    proof cases
      case 1
      moreover have "alloc_at (mem_area n + d) sz mp (mp\<lparr>mp_nodes := pre @ carve n d sz @ post,
          mp_avail := mp_avail mp - sz, mp_mem := mem_set (mp_mem mp) (mem_area n + d) 0 sz, mp_calls := c\<rparr>)"
        unfolding alloc_at_def using ns free d sz e by fastforce
      ultimately show ?thesis using True by (auto simp: alloc_outcome_def carve_def)
    next
      case 2
      then show ?thesis unfolding alloc_outcome_def live_def
        by (intro disjI2 exI[of _ c] exI[of _ "mp_nodes ?mp"]) (simp add: ns free upper)
    qed
  next
    case False
    let ?mp1 = "mp\<lparr>mp_nodes := (pre @ [?f]) @ ?r # post\<rparr>"
    have t: "mntruncate (length pre) (size_t d) (pre @ n\<lparr>mn_size := d + sz\<rparr> # upper # post) =
        Inr (pre @ ?f # ?r # post)"
      using mntruncate_shift[of d "n\<lparr>mn_size := d + sz\<rparr>" upper pre post] False d sz e m free
      by (simp add: upper free_node_eq)
    have t2: "mntruncate (length pre) (size_t d) (mp_nodes mp) = Inr (pre @ ?f # ?r # post)"
      using mntruncate_split[of d n post pre] d sz m e by (simp add: ns free_node_eq free)
    have "sm_skip (length pre) d sz ?mp = sm_skip (length pre) d sz mp"
      using False t t2 by (simp add: sm_skip_def)
    then show ?thesis using sm_skip_mid[OF ok ns free d _ sz] e by simp
  qed
qed

lemma sm_alloc_aligned_topdown_cases:
  assumes ok: "pool_ok mp" and k: "k \<le> 31" and sz: "0 < sz" "sz < 2 ^ 63" and tp: "0 \<le> tp" "tp < 2 ^ 63"
  shows "(\<exists>p. alloc_outcome p sz mp (sm_alloc_aligned_topdown tp (2 ^ k) sz mp) \<and>
       p mod 2 ^ k = 0 \<and> (tp = 0 \<or> p + sz \<le> tp)) \<or>
    sm_alloc_aligned_topdown tp (2 ^ k) sz mp = do_smerror (get_oom_pr mp sz) (None, mp)"
proof -
  have k2: "(1::int) \<le> 2 ^ k" "(2::int) ^ k \<le> 2 ^ 31"
    using k power_increasing[of k 31 "2::int"] by auto
  then have st: "size_t (sz + (2 ^ k - 1)) = sz + 2 ^ k - 1"
    using sz by (subst size_t_id) auto
  note al = sm_alloc_aligned_topdown_def popcount_is_1_pow2[OF k] Let_def st int_and_not_mask
  show ?thesis
  proof (cases "smfind_free_area_topdown 0 (mp_nodes mp) tp (sz + 2 ^ k - 1) None")
    case None
    then show ?thesis using sz by (simp add: al)
  next
    case (Some j)
    then obtain pre n post where n: "mp_nodes mp = pre @ n # post" "j = length pre" "\<not> mn_used n"
      "sz + 2 ^ k - 1 \<le> mn_size n" "tp = 0 \<or> mem_area n + (sz + 2 ^ k - 1) \<le> tp"
      by (auto dest!: smfind_free_area_topdown_Some)
    note m = pool_ok_mid[OF ok n(1)]
    define mt where "mt = (if tp \<noteq> 0 \<and> tp \<le> mem_area n + mn_size n then tp else mem_area n + mn_size n)"
    define p where "p = (mt - sz) - (mt - sz) mod 2 ^ k"
    have mt: "mem_area n + (sz + 2 ^ k - 1) \<le> mt" "mt \<le> mem_area n + mn_size n" "tp = 0 \<or> mt \<le> tp"
      using n k2 by (auto simp: mt_def)
    have r: "0 \<le> (mt - sz) mod 2 ^ k" "(mt - sz) mod 2 ^ k < 2 ^ k" by simp_all
    then have p: "mem_area n \<le> p" "p + sz \<le> mt" using mt unfolding p_def by linarith+
    have "0 \<le> mt - sz" "mt - sz < 2 ^ 63" using mt(1,2) m(1,4) k2(1) sz(1) by linarith+
    then have stm: "size_t (mt - sz) = mt - sz" by (intro size_t_id) auto
    have pm: "p mod 2 ^ k = 0" by (simp add: p_def minus_mod_eq_div_mult [symmetric])
    define d where "d = p - mem_area n"
    have d: "0 \<le> d" "d + sz \<le> mn_size n" "mem_area n + d = p" using p mt by (auto simp: d_def)
    have ci: "c_int (p - mem_area n) = d" "c_int (mem_area n + mn_size n - (p + sz)) = mn_size n - d - sz"
      using d m sz by (auto simp: d_def c_int_id)
    have "alloc_outcome p sz mp (sm_alloc_aligned_topdown tp (2 ^ k) sz mp)"
    proof (cases "d + sz = mn_size n")
      case True
      then show ?thesis
        using Some n sz stm ci d sm_skip_mid[OF ok n(1) n(3) d(1,2) sz(1)]
        by (simp add: al mt_def[symmetric] p_def[symmetric])
    next
      case False
      let ?u = "\<lparr>mn_size = mn_size n - d - sz, mn_used = False, mem_area = mem_area n + d + sz\<rparr>"
      have "mntruncate (length pre) (size_t (d + sz)) (pre @ n # post) =
          Inr (pre @ n\<lparr>mn_size := d + sz\<rparr> # ?u # post)"
        using mntruncate_split[of "d + sz" n post pre] d sz m False n(3) by (simp add: algebra_simps)
      then have "sm_alloc_aligned_topdown tp (2 ^ k) sz mp =
          sm_skip (length pre) d sz (mp\<lparr>mp_nodes := pre @ n\<lparr>mn_size := d + sz\<rparr> # ?u # post\<rparr>)"
        using Some n sz stm ci d p False by (simp add: al mt_def[symmetric] p_def[symmetric])
      then show ?thesis
        using sm_skip_below[OF ok n(1) n(3) d(1) sz(1) _ refl] d False by simp
    qed
    then show ?thesis using pm p mt by fastforce
  qed
qed

section \<open>What an allocation does to a pool\<close>

lemma chain_carve:
  assumes "0 \<le> d" "0 < sz" "d + sz \<le> mn_size n"
  shows "chain (mem_area n) (carve n d sz) (mem_area n + mn_size n)"
  using assms by (auto simp: carve_def)

lemma live_areas_carve: "live_areas (carve n d sz) = {(mem_area n + d, sz)}"
  by (simp add: carve_def)

lemma free_sum_carve: "free_sum (carve n d sz) = mn_size n - sz"
  by (auto simp: carve_def)

lemma coalesced_carve:
  assumes "coalesced (pre @ n # post)" "\<not> mn_used n"
  shows "coalesced (pre @ carve n d sz @ post)"
  using assms by (cases "d = 0"; cases "mn_size n = d + sz") (auto simp: carve_def coalesced_append)

lemma smget_base_addr_carve:
  "mp_nodes mp = pre @ n # post \<Longrightarrow> mp_nodes mp1 = pre @ carve n d sz @ post \<Longrightarrow>
   smget_base_addr mp1 = smget_base_addr mp"
  by (cases pre) (auto simp: smget_base_addr_def carve_def)

lemma alloc_at_ok:
  assumes ok: "pool_ok mp" and at: "alloc_at p sz mp mp1"
  shows "pool_ok mp1" "live mp1 = insert (p, sz) (live mp)"
    "smget_base_addr mp1 = smget_base_addr mp" "mp_size mp1 = mp_size mp" "mp_commit mp1 = mp_commit mp"
    "mp_avail mp1 = mp_avail mp - sz"
    "mp_mem mp1 = mem_set (mp_mem mp) p 0 sz" "0 < sz" "0 < p"
    "smget_base_addr mp \<le> p" "p + sz \<le> smget_base_addr mp + mp_size mp"
    "\<And>a. a \<in> live mp \<Longrightarrow> disjoint_areas (p, sz) a"
proof -
  from at obtain pre n post d c where ns: "mp_nodes mp = pre @ n # post" "\<not> mn_used n"
    and d: "0 \<le> d" "0 < sz" "d + sz \<le> mn_size n" and p: "p = mem_area n + d"
    and mp1: "mp1 = mp\<lparr>mp_nodes := pre @ carve n d sz @ post, mp_avail := mp_avail mp - sz,
                 mp_mem := mem_set (mp_mem mp) p 0 sz, mp_calls := c\<rparr>"
    unfolding alloc_at_def by blast
  have b: "smget_base_addr mp1 = smget_base_addr mp"
    by (rule smget_base_addr_carve[OF ns(1)]) (simp add: mp1)
  have c: "chain (smget_base_addr mp) (pre @ n # post) (smget_base_addr mp + mp_size mp)"
    and co: "coalesced (pre @ n # post)" and av: "mp_avail mp = free_sum (pre @ n # post)"
    using ok by (auto simp: pool_ok_def ns)
  note m = chain_mid[OF c]
  have c1: "chain (smget_base_addr mp) (pre @ carve n d sz @ post) (smget_base_addr mp + mp_size mp)"
    using m(1,3) chain_carve[OF d] by (auto simp: node_chain_append)
  have "pre @ carve n d sz @ post \<noteq> []" by (simp add: carve_def)
  then show "pool_ok mp1"
    using ok b c1 coalesced_carve[OF co ns(2)] av ns by (simp add: pool_ok_def mp1 free_sum_carve)
  show "live mp1 = insert (p, sz) (live mp)"
    using ns by (auto simp: live_def mp1 live_areas_carve p)
  show "smget_base_addr mp \<le> p" "p + sz \<le> smget_base_addr mp + mp_size mp"
    using m d p by auto
  then show "0 < p" using ok by (simp add: pool_ok_def)
  show "disjoint_areas (p, sz) a" if "a \<in> live mp" for a
  proof -
    from that ns have "(fst a, snd a) \<in> live_areas pre \<union> live_areas post"
      by (auto simp: live_def)
    from live_areas_sides[OF c this] show ?thesis using d p by (auto simp: disjoint_areas_def)
  qed
  show "smget_base_addr mp1 = smget_base_addr mp" by (rule b)
  show "mp_size mp1 = mp_size mp" "mp_commit mp1 = mp_commit mp" "mp_avail mp1 = mp_avail mp - sz"
    "mp_mem mp1 = mem_set (mp_mem mp) p 0 sz" "0 < sz"
    using d by (simp_all add: mp1)
qed

text \<open>The live areas of a well-formed pool are disjoint and inside the pool.\<close>

lemma live_disjoint:
  assumes "pool_ok mp" "a \<in> live mp" "b \<in> live mp" "a \<noteq> b"
  shows "disjoint_areas a b"
proof -
  from assms(2) obtain n where n: "n \<in> set (mp_nodes mp)" "mn_used n" "a = (mem_area n, mn_size n)"
    by (auto simp: live_def live_areas_def)
  then obtain pre post where ns: "mp_nodes mp = pre @ n # post" by (metis split_list)
  have "chain (smget_base_addr mp) (pre @ n # post) (smget_base_addr mp + mp_size mp)"
    using assms(1) by (simp add: pool_ok_def ns)
  moreover have "(fst b, snd b) \<in> live_areas pre \<union> live_areas post"
    using assms(3,4) n by (auto simp: live_def ns)
  ultimately show ?thesis using live_areas_sides n by (fastforce simp: disjoint_areas_def)
qed

lemma live_inside:
  "pool_ok mp \<Longrightarrow> (p, sz) \<in> live mp \<Longrightarrow>
   smget_base_addr mp \<le> p \<and> 0 < sz \<and> p + sz \<le> smget_base_addr mp + mp_size mp"
  unfolding pool_ok_def live_def by (meson live_areas_bounds)

lemma live_finite: "finite (live mp)"
proof -
  have "live mp = (\<lambda>n. (mem_area n, mn_size n)) ` {n \<in> set (mp_nodes mp). mn_used n}"
    by (auto simp: live_def live_areas_def)
  then show ?thesis by simp
qed

section \<open>Release\<close>

lemma find_area_Some:
  "find_area i ns ptr = Some j \<Longrightarrow>
   \<exists>pre n post. ns = pre @ n # post \<and> j = i + length pre \<and> mem_area n = ptr"
proof (induction ns arbitrary: i)
  case (Cons m ns)
  show ?case
  proof (cases "mem_area m = ptr")
    case True
    with Cons.prems show ?thesis by (intro exI[of _ "[]"]) auto
  next
    case False
    with Cons.prems have "find_area (Suc i) ns ptr = Some j" by (auto split: if_splits)
    from Cons.IH[OF this] obtain pre n post where "ns = pre @ n # post" "j = Suc i + length pre"
      "mem_area n = ptr" by blast
    then show ?thesis by (intro exI[of _ "m # pre"] exI[of _ n] exI[of _ post]) auto
  qed
qed simp

lemma find_area_mid:
  "chain a (pre @ n # post) e \<Longrightarrow> find_area i (pre @ n # post) (mem_area n) = Some (i + length pre)"
proof (induction pre arbitrary: a i)
  case (Cons m pre)
  then have c: "mem_area m = a" "0 < mn_size m" "chain (a + mn_size m) (pre @ n # post) e" by auto
  then have "a < mem_area n" using chain_mid(4)[OF c(3)] by simp
  with Cons.IH[OF c(3)] c show ?case by simp
qed simp

lemma find_mn_mid:
  assumes "pool_ok mp" "mp_nodes mp = pre @ n # post" "mn_used n"
  shows "find_mn mp (mem_area n) = Some (length pre)"
proof -
  have "chain (smget_base_addr mp) (pre @ n # post) (smget_base_addr mp + mp_size mp)"
    using assms by (simp add: pool_ok_def)
  moreover have "pool_used mp"
    using assms by (cases pre) (auto simp: pool_used_def)
  ultimately show ?thesis
    using assms find_area_mid[of _ pre n post _ 0] by (simp add: find_mn_def)
qed

lemma find_mn_Some:
  assumes "find_mn mp ptr = Some i"
  obtains pre n post where "mp_nodes mp = pre @ n # post" "i = length pre" "mem_area n = ptr"
  using assms by (auto simp: find_mn_def dest: find_area_Some split: if_splits)

text \<open>The free block that takes the place of the freed node and its free neighbours.\<close>

definition released :: "memnode list \<Rightarrow> memnode \<Rightarrow> memnode list \<Rightarrow> memnode list" where
  "released pre n post =
     (let fwd = (if post \<noteq> [] \<and> \<not> mn_used (hd post) then mn_size (hd post) else 0);
          post1 = (if post \<noteq> [] \<and> \<not> mn_used (hd post) then tl post else post)
      in if pre \<noteq> [] \<and> \<not> mn_used (last pre)
         then butlast pre @ (last pre)\<lparr>mn_size := mn_size (last pre) + (mn_size n + fwd)\<rparr> # post1
         else pre @ \<lparr>mn_size = mn_size n + fwd, mn_used = False, mem_area = mem_area n\<rparr> # post1)"

lemma released_ok:
  assumes "chain a (pre @ n # post) e" "coalesced (pre @ n # post)" "mn_used n"
  shows "chain a (released pre n post) e \<and> coalesced (released pre n post) \<and>
    live_areas (released pre n post) = live_areas pre \<union> live_areas post \<and>
    free_sum (released pre n post) = free_sum (pre @ n # post) + mn_size n \<and>
    mem_area (released pre n post ! 0) = mem_area ((pre @ n # post) ! 0) \<and>
    released pre n post \<noteq> []"
  using assms
  by (cases pre rule: rev_cases; cases post)
    (auto simp: released_def node_chain_append coalesced_append nth_append algebra_simps)

text \<open>The two merges of \<open>smfree\<close>, on the free node \<open>u\<close>.\<close>

definition fwd_size :: "memnode \<Rightarrow> memnode list \<Rightarrow> int" where
  "fwd_size u post = mn_size u + (if post \<noteq> [] \<and> \<not> mn_used (hd post) then mn_size (hd post) else 0)"

definition fwd_rest :: "memnode list \<Rightarrow> memnode list" where
  "fwd_rest post = (if post \<noteq> [] \<and> \<not> mn_used (hd post) then tl post else post)"

lemma merge_next_mid:
  assumes c: "chain b (pre @ u # post) e" and co: "coalesced post" and sz: "e - b < 2 ^ 31"
  shows "merge_next (length pre) (pre @ u # post) = Inr (pre @ u\<lparr>mn_size := fwd_size u post\<rparr> # fwd_rest post)"
proof (cases post)
  case Nil
  then show ?thesis by (simp add: merge_next_def fwd_size_def fwd_rest_def)
next
  case (Cons q qs)
  show ?thesis
  proof (cases "mn_used q")
    case True
    with Cons show ?thesis by (simp add: merge_next_def fwd_size_def fwd_rest_def)
  next
    case False
    note m = chain_mid[OF c]
    have q: "mem_area q = mem_area u + mn_size u" "0 < mn_size q" "mem_area q + mn_size q \<le> e"
      using m(3) Cons chain_le[of _ qs e] by auto
    then have small: "mn_size u + mn_size q < 2 ^ 31" using m(4) sz by simp
    have "mntruncate (length pre) (mn_size u + mn_size q) (pre @ u # q # qs) =
        Inr (pre @ u\<lparr>mn_size := mn_size u + mn_size q\<rparr> # qs)"
      by (rule mntruncate_absorb) (use small q m(2) False co Cons in auto)
    with Cons False q m(2) small show ?thesis
      by (simp add: merge_next_def fwd_size_def fwd_rest_def)
  qed
qed

lemma merge_prev_mid:
  assumes c: "chain b (pre @ v # post) e" and hd: "post = [] \<or> mn_used (hd post)"
    and sz: "e - b < 2 ^ 31" and free: "\<not> mn_used v"
  shows "merge_prev (length pre) (pre @ v # post) =
    Inr (if pre \<noteq> [] \<and> \<not> mn_used (last pre)
         then butlast pre @ (last pre)\<lparr>mn_size := mn_size (last pre) + mn_size v\<rparr> # post
         else pre @ v # post)"
proof (cases pre rule: rev_cases)
  case Nil
  then show ?thesis by (simp add: merge_prev_def)
next
  case (snoc ps p)
  show ?thesis
  proof (cases "mn_used p")
    case True
    with snoc show ?thesis by (simp add: merge_prev_def nth_append)
  next
    case False
    from c snoc have c2: "chain b (ps @ p # v # post) e" by simp
    note m = chain_mid[OF c2]
    have p: "mem_area v = mem_area p + mn_size p" "0 < mn_size v" "mem_area v + mn_size v \<le> e"
      using m(3) chain_le[of _ post e] by auto
    then have small: "mn_size p + mn_size v < 2 ^ 31" using m(4) sz by simp
    have "mntruncate (length ps) (mn_size p + mn_size v) (ps @ p # v # post) =
        Inr (ps @ p\<lparr>mn_size := mn_size p + mn_size v\<rparr> # post)"
      by (rule mntruncate_absorb) (use small p m(2) free hd in auto)
    then show ?thesis using snoc False p m(2) small by (simp add: merge_prev_def nth_append)
  qed
qed

lemma smfree_mid:
  assumes ok: "pool_ok mp" and ns: "mp_nodes mp = pre @ n # post" and used: "mn_used n"
  obtains c where "smfree (mem_area n) mp =
    Inr (0, mp\<lparr>mp_nodes := released pre n post, mp_avail := mp_avail mp + mn_size n, mp_calls := c\<rparr>)"
proof -
  let ?b = "smget_base_addr mp" and ?e = "smget_base_addr mp + mp_size mp"
  have c: "chain ?b (pre @ n # post) ?e" and co: "coalesced (pre @ n # post)"
    and av: "mp_avail mp = free_sum (pre @ n # post)"
    using ok by (auto simp: pool_ok_def ns)
  note m = pool_ok_mid[OF ok ns] and rel = released_ok[OF c co used]
  have sum: "mp_avail mp + mn_size n \<le> mp_size mp"
    using free_sum_le[of ?b "released pre n post" ?e] rel av by simp
  obtain cl where uc: "sm_uncommit (mem_area n) (mn_size n) mp =
      Inr (mp\<lparr>mp_avail := mp_avail mp + mn_size n, mp_calls := cl\<rparr>)"
    using sm_uncommit_ok[of mp "mn_size n" "mem_area n"] m sum by auto
  let ?u = "n\<lparr>mn_used := False\<rparr>"
  let ?v = "?u\<lparr>mn_size := fwd_size ?u post\<rparr>"
  have c0: "chain ?b (pre @ ?u # post) ?e" using c by (simp add: node_chain_append)
  have co0: "coalesced post" "fwd_rest post = [] \<or> mn_used (hd (fwd_rest post))"
    using co by (cases post; auto simp: coalesced_append fwd_rest_def)+
  have c1: "chain ?b (pre @ ?v # fwd_rest post) ?e"
    using c by (cases post) (auto simp: node_chain_append fwd_size_def fwd_rest_def algebra_simps)
  have "merge_next (length pre) (pre @ ?u # post) = Inr (pre @ ?v # fwd_rest post)"
    by (rule merge_next_mid[OF c0 co0(1)]) (use m in simp)
  moreover have "merge_prev (length pre) (pre @ ?v # fwd_rest post) = Inr (released pre n post)"
    using merge_prev_mid[OF c1 co0(2)] m
    by (simp add: released_def Let_def fwd_size_def fwd_rest_def free_node_eq)
  ultimately have "smfree (mem_area n) mp =
    Inr (0, mp\<lparr>mp_nodes := released pre n post, mp_avail := mp_avail mp + mn_size n, mp_calls := cl\<rparr>)"
    using find_mn_mid[OF ok ns used] m(1,2) used uc by (simp add: smfree_def ns)
  then show ?thesis by (rule that)
qed

lemma live_split:
  assumes "(p, sz) \<in> live mp"
  obtains pre n post where "mp_nodes mp = pre @ n # post" "mn_used n" "mem_area n = p" "mn_size n = sz"
  using assms by (auto simp: live_def live_areas_def) (metis split_list)

lemma live_minus_mid:
  assumes "pool_ok mp" "mp_nodes mp = pre @ n # post" "mn_used n"
  shows "live mp - {(mem_area n, mn_size n)} = live_areas pre \<union> live_areas post"
proof -
  have c: "chain (smget_base_addr mp) (pre @ n # post) (smget_base_addr mp + mp_size mp)"
    using assms by (simp add: pool_ok_def)
  have "(mem_area n, mn_size n) \<notin> live_areas pre \<union> live_areas post"
    using live_areas_sides[OF c] chain_mid(2)[OF c] by fastforce
  then show ?thesis using assms by (auto simp: live_def)
qed

lemma smfree_live:
  assumes ok: "pool_ok mp" and p: "(p, sz) \<in> live mp"
  shows "\<exists>mp1. smfree p mp = Inr (0, mp1) \<and> pool_ok mp1 \<and> live mp1 = live mp - {(p, sz)} \<and>
    mp_mem mp1 = mp_mem mp \<and> mp_avail mp1 = mp_avail mp + sz \<and> mp_size mp1 = mp_size mp \<and>
    smget_base_addr mp1 = smget_base_addr mp \<and> mp_commit mp1 = mp_commit mp"
proof -
  obtain pre n post where n: "mp_nodes mp = pre @ n # post" "mn_used n" "mem_area n = p" "mn_size n = sz"
    using live_split[OF p] .
  obtain c where f: "smfree p mp =
      Inr (0, mp\<lparr>mp_nodes := released pre n post, mp_avail := mp_avail mp + sz, mp_calls := c\<rparr>)"
    using smfree_mid[OF ok n(1,2)] n by metis
  have "chain (smget_base_addr mp) (pre @ n # post) (smget_base_addr mp + mp_size mp)"
    "coalesced (pre @ n # post)" using ok n by (auto simp: pool_ok_def)
  from released_ok[OF this n(2)] show ?thesis
    using ok n live_minus_mid[OF ok n(1,2)] f
    by (simp add: pool_ok_def smget_base_addr_def live_def)
qed

lemma smfree_not_live:
  assumes "\<forall>sz. (p, sz) \<notin> live mp"
  shows "smfree p mp = Inr (-1, mp)"
proof (cases "find_mn mp p")
  case None
  then show ?thesis by (simp add: smfree_def)
next
  case (Some i)
  then obtain pre n post where n: "mp_nodes mp = pre @ n # post" "i = length pre" "mem_area n = p"
    by (rule find_mn_Some)
  with assms have "\<not> mn_used n" by (auto simp: live_def)
  with Some n show ?thesis by (simp add: smfree_def)
qed

section \<open>Resizing\<close>

text \<open>
  \<open>resized p old q sz mp mp1\<close>: the area \<open>(p, old)\<close> became \<open>(q, sz)\<close>; its first bytes
  are kept, bytes it gained are zero, and every other area and its bytes are unchanged.
\<close>

definition resized :: "int \<Rightarrow> int \<Rightarrow> int \<Rightarrow> int \<Rightarrow> mempool \<Rightarrow> mempool \<Rightarrow> bool" where
  "resized p old q sz mp mp1 \<longleftrightarrow>
     pool_ok mp1 \<and> live mp1 = insert (q, sz) (live mp - {(p, old)}) \<and>
     smget_base_addr mp1 = smget_base_addr mp \<and> mp_size mp1 = mp_size mp \<and>
     (\<forall>i. 0 \<le> i \<and> i < min old sz \<longrightarrow> mp_mem mp1 (q + i) = mp_mem mp (p + i)) \<and>
     (\<forall>i. old \<le> i \<and> i < sz \<longrightarrow> mp_mem mp1 (q + i) = 0) \<and>
     (\<forall>(r, t) \<in> live mp - {(p, old)}. \<forall>i. 0 \<le> i \<and> i < t \<longrightarrow> mp_mem mp1 (r + i) = mp_mem mp (r + i))"

lemma resizedI:
  assumes ok: "pool_ok mp" and ns: "mp_nodes mp = pre @ n # post" "mn_used n"
    and ns1: "mp_nodes mp1 = pl @ m # pr" "mn_used m"
    and c1: "chain (smget_base_addr mp) (pl @ m # pr) (smget_base_addr mp + mp_size mp)"
    and co1: "coalesced (pl @ m # pr)" and av1: "mp_avail mp1 = free_sum (pl @ m # pr)"
    and s1: "mp_size mp1 = mp_size mp"
    and others: "live_areas pl \<union> live_areas pr = live_areas pre \<union> live_areas post"
    and old: "\<And>i. 0 \<le> i \<Longrightarrow> i < mn_size n \<Longrightarrow> i < mn_size m \<Longrightarrow>
       mp_mem mp1 (mem_area m + i) = mp_mem mp (mem_area n + i)"
    and new: "\<And>i. mn_size n \<le> i \<Longrightarrow> i < mn_size m \<Longrightarrow> mp_mem mp1 (mem_area m + i) = 0"
    and frame: "\<And>a. a < mem_area m \<or> mem_area m + mn_size m \<le> a \<Longrightarrow> mp_mem mp1 a = mp_mem mp a"
  shows "resized (mem_area n) (mn_size n) (mem_area m) (mn_size m) mp mp1"
proof -
  have b: "smget_base_addr mp1 = smget_base_addr mp"
    using c1 ns1 by (cases pl) (auto simp: smget_base_addr_def)
  have lm: "live mp - {(mem_area n, mn_size n)} = live_areas pre \<union> live_areas post"
    by (rule live_minus_mid[OF ok ns])
  have sides: "r + t \<le> mem_area m \<or> mem_area m + mn_size m \<le> r"
    if "(r, t) \<in> live_areas pre \<union> live_areas post" for r t
    using live_areas_sides[OF c1] that others by blast
  have "pool_ok mp1"
    using ok b c1 co1 av1 s1 ns1 by (simp add: pool_ok_def)
  moreover have "live mp1 = insert (mem_area m, mn_size m) (live mp - {(mem_area n, mn_size n)})"
    unfolding lm others[symmetric] using ns1 by (auto simp: live_def)
  moreover have "\<forall>(r, t) \<in> live mp - {(mem_area n, mn_size n)}. \<forall>i. 0 \<le> i \<and> i < t \<longrightarrow>
      mp_mem mp1 (r + i) = mp_mem mp (r + i)"
    unfolding lm using sides by (fastforce intro: frame)
  ultimately show ?thesis using b s1 old new by (simp add: resized_def)
qed

text \<open>Moving the end of a used node \<open>n\<close>: down, or up into a free successor.\<close>

lemma border_move:
  assumes c: "chain b (pre @ n # post) e" and co: "coalesced post" and small: "e - b < 2 ^ 31"
    and sz: "0 < sz" "sz < mn_size n \<or> (post \<noteq> [] \<and> \<not> mn_used (hd post) \<and>
       mn_size n < sz \<and> sz \<le> mn_size n + mn_size (hd post))"
  shows "\<exists>post1. mntruncate (length pre) sz (pre @ n # post) = Inr (pre @ n\<lparr>mn_size := sz\<rparr> # post1) \<and>
     chain (mem_area n + sz) post1 e \<and> coalesced post1 \<and>
     live_areas post1 = live_areas post \<and> free_sum post1 = free_sum post + (mn_size n - sz)"
proof (cases "post = [] \<or> mn_used (hd post)")
  case True
  note m = chain_mid[OF c]
  have "mntruncate (length pre) sz (pre @ n # post) = Inr (pre @ n\<lparr>mn_size := sz\<rparr> #
       \<lparr>mn_size = mn_size n - sz, mn_used = False, mem_area = mem_area n + sz\<rparr> # post)"
    using sz m(4,5) small True by (intro mntruncate_split) auto
  then show ?thesis using True m(3) co sz by auto
next
  case False
  then obtain q qs where q: "post = q # qs" "\<not> mn_used q" by (cases post) auto
  note m = chain_mid[OF c]
  have qc: "mem_area q = mem_area n + mn_size n" "0 < mn_size q" "mem_area q + mn_size q \<le> e"
    "chain (mem_area q + mn_size q) qs e" "qs = [] \<or> mn_used (hd qs)" "coalesced qs"
    using m(3) q chain_le[of _ qs e] co by auto
  then have sm: "mn_size n + mn_size q < 2 ^ 31" using m(4) small by simp
  show ?thesis
  proof (cases "sz = mn_size n + mn_size q")
    case True
    then have "mntruncate (length pre) sz (pre @ n # q # qs) = Inr (pre @ n\<lparr>mn_size := sz\<rparr> # qs)"
      using m(2) qc sm q by (intro mntruncate_absorb) auto
    then show ?thesis using q qc True by (auto simp: algebra_simps)
  next
    case ne: False
    have "mntruncate (length pre) sz (pre @ n # q # qs) = Inr (pre @ n\<lparr>mn_size := sz\<rparr> #
         q\<lparr>mn_size := mn_size n + mn_size q - sz, mem_area := mem_area q + sz - mn_size n\<rparr> # qs)"
      using sz m(2) qc sm q ne by (intro mntruncate_shift) auto
    then show ?thesis using q qc ne sz by (auto simp: algebra_simps)
  qed
qed

lemma sm_shrink_mid:
  assumes ok: "pool_ok mp" and ns: "mp_nodes mp = pre @ n # post" "mn_used n"
    and sz: "0 < sz" "sz < mn_size n"
  shows "\<exists>mp1. sm_shrink (length pre) sz mp = Inr mp1 \<and> resized (mem_area n) (mn_size n) (mem_area n) sz mp mp1 \<and>
     mp_nodes mp1 ! length pre = n\<lparr>mn_size := sz\<rparr>"
proof -
  let ?b = "smget_base_addr mp" and ?e = "smget_base_addr mp + mp_size mp"
  have c: "chain ?b (pre @ n # post) ?e" and co: "coalesced (pre @ n # post)"
    and av: "mp_avail mp = free_sum (pre @ n # post)"
    using ok by (auto simp: pool_ok_def ns)
  note m = pool_ok_mid[OF ok ns(1)]
  have "mp_avail mp + mn_size n \<le> mp_size mp"
    using free_sum_le[of ?b "released pre n post" ?e] released_ok[OF c co ns(2)] av by simp
  then obtain cl where uc: "sm_uncommit (mem_area n + sz) (mn_size n - sz) mp =
      Inr (mp\<lparr>mp_avail := mp_avail mp + (mn_size n - sz), mp_calls := cl\<rparr>)"
    using sm_uncommit_ok[of mp "mn_size n - sz" "mem_area n + sz"] m sz by auto
  obtain post1 where t: "mntruncate (length pre) sz (pre @ n # post) = Inr (pre @ n\<lparr>mn_size := sz\<rparr> # post1)"
    and p1: "chain (mem_area n + sz) post1 ?e" "coalesced post1"
      "live_areas post1 = live_areas post" "free_sum post1 = free_sum post + (mn_size n - sz)"
    using border_move[OF c] co m(6) sz by (auto simp: coalesced_append)
  let ?mp1 = "mp\<lparr>mp_nodes := pre @ n\<lparr>mn_size := sz\<rparr> # post1, mp_avail := mp_avail mp + (mn_size n - sz), mp_calls := cl\<rparr>"
  have "sm_shrink (length pre) sz mp = Inr ?mp1"
    using uc t ns by (simp add: sm_shrink_def)
  moreover have "resized (mem_area n) (mn_size n) (mem_area (n\<lparr>mn_size := sz\<rparr>)) (mn_size (n\<lparr>mn_size := sz\<rparr>)) mp ?mp1"
    by (rule resizedI[OF ok ns, where pl = pre and pr = post1])
      (use ns p1 c co av sz in \<open>auto simp: node_chain_append coalesced_append\<close>)
  ultimately show ?thesis by simp
qed

lemma sm_expand_mid:
  assumes ok: "pool_ok mp" and cm: "mp_commit mp = None"
    and ns: "mp_nodes mp = pre @ n # q # qs" "mn_used n" "\<not> mn_used q"
    and sz: "mn_size n < sz" "sz \<le> mn_size n + mn_size q"
  shows "\<exists>mp1. sm_expand (length pre) sz mp = Inr (True, mp1) \<and>
     resized (mem_area n) (mn_size n) (mem_area n) sz mp mp1 \<and> mp_nodes mp1 ! length pre = n\<lparr>mn_size := sz\<rparr>"
proof -
  let ?b = "smget_base_addr mp" and ?e = "smget_base_addr mp + mp_size mp"
  have c: "chain ?b (pre @ n # q # qs) ?e" and co: "coalesced (pre @ n # q # qs)"
    and av: "mp_avail mp = free_sum (pre @ n # q # qs)"
    using ok by (auto simp: pool_ok_def ns)
  note m = pool_ok_mid[OF ok ns(1)]
  have "mn_size q \<le> mp_avail mp" using pool_ok_mid(9)[OF ok, of "pre @ [n]" q qs] ns by simp
  then have cs: "sm_commit_simple (mem_area q) (sz - mn_size n) mp =
      Inr (True, mp\<lparr>mp_avail := mp_avail mp - (sz - mn_size n)\<rparr>)"
    using m sz cm by (intro sm_commit_simple_None) auto
  obtain post1 where t: "mntruncate (length pre) sz (pre @ n # q # qs) = Inr (pre @ n\<lparr>mn_size := sz\<rparr> # post1)"
    and p1: "chain (mem_area n + sz) post1 ?e" "coalesced post1"
      "live_areas post1 = live_areas (q # qs)" "free_sum post1 = free_sum (q # qs) + (mn_size n - sz)"
    using border_move[OF c, of sz] co m(2,6) sz ns by (auto simp: coalesced_append)
  let ?mp1 = "mp\<lparr>mp_nodes := pre @ n\<lparr>mn_size := sz\<rparr> # post1, mp_avail := mp_avail mp - (sz - mn_size n),
     mp_mem := mem_set (mp_mem mp) (mem_area q) 0 (sz - mn_size n)\<rparr>"
  have "sm_expand (length pre) sz mp = Inr (True, ?mp1)"
    using cs t ns by (simp add: sm_expand_def)
  moreover have q: "mem_area q = mem_area n + mn_size n" using chain_mid(3)[OF c] by simp
  have "resized (mem_area n) (mn_size n) (mem_area (n\<lparr>mn_size := sz\<rparr>)) (mn_size (n\<lparr>mn_size := sz\<rparr>)) mp ?mp1"
    by (rule resizedI[OF ok ns(1,2), where pl = pre and pr = post1])
      (use ns p1 c co av sz q m(2) in \<open>auto simp: node_chain_append coalesced_append mem_set_def\<close>)
  ultimately show ?thesis by auto
qed

text \<open>Moving an area down into its free predecessor \<open>p\<close>.\<close>

lemma sm_commit_None:
  "mp_commit mp = None \<Longrightarrow> sz \<le> mp_avail mp \<Longrightarrow> mp_avail mp < 2 ^ 32 \<Longrightarrow> 0 \<le> sz \<Longrightarrow>
   sm_commit a sz ea es mp = Inr (True, mp\<lparr>mp_avail := mp_avail mp - sz\<rparr>)"
  by (simp add: sm_commit_def do_commit_def Let_def)

lemma move_nodes_mid:
  assumes c: "chain b (ps @ p # n # q # qs) e" and co: "coalesced (ps @ p # n # q # qs)"
    and small: "e - b < 2 ^ 31" and used: "\<not> mn_used p" "mn_used n"
    and sz: "mn_size n < sz" "sz \<le> mn_size p + mn_size n + (if mn_used q then 0 else mn_size q)"
  shows "\<exists>post1. move_nodes (Suc (length ps)) sz (ps @ p\<lparr>mn_used := True\<rparr> # n\<lparr>mn_used := False\<rparr> # q # qs) =
      Inr (ps @ p\<lparr>mn_used := True, mn_size := sz\<rparr> # post1) \<and>
    chain (mem_area p + sz) post1 e \<and> coalesced post1 \<and> live_areas post1 = live_areas (q # qs) \<and>
    free_sum post1 = free_sum (n\<lparr>mn_used := False\<rparr> # q # qs) + (mn_size p - sz)"
proof -
  let ?p = "p\<lparr>mn_used := True\<rparr>" and ?n = "n\<lparr>mn_used := False\<rparr>"
  define w where "w = (if mn_used q then mn_size n else mn_size n + mn_size q)"
  let ?w = "?n\<lparr>mn_size := w\<rparr>"
  have c2: "chain b ((ps @ [p]) @ n # q # qs) e" using c by simp
  note m = chain_mid[OF c] and m2 = chain_mid[OF c2]
  have qc: "mem_area q = mem_area n + mn_size n" "0 < mn_size q" "mem_area q + mn_size q \<le> e"
    "chain (mem_area q + mn_size q) qs e" "mn_used q \<or> qs = [] \<or> mn_used (hd qs)" "coalesced qs"
    "mem_area n = mem_area p + mn_size p"
    using m2(3) m(3) chain_le[of _ qs e] co by (auto simp: coalesced_append)
  then have sm: "mn_size n + mn_size q < 2 ^ 31" "mn_size p < 2 ^ 31" using m2(4) m(4,5) small by auto
  let ?rest = "if mn_used q then q # qs else qs"
  have cw: "chain b (ps @ ?p # ?w # ?rest) e"
    using m qc m2(2) by (auto simp: node_chain_append w_def algebra_simps)
  have t1: "(if \<not> mn_used q then mntruncate (Suc (length ps)) (size_t (mn_size n + mn_size q)) (ps @ ?p # ?n # q # qs)
      else Inr (ps @ ?p # ?n # q # qs)) = Inr (ps @ ?p # ?w # ?rest)"
  proof (cases "mn_used q")
    case False
    have "mntruncate (length (ps @ [?p])) (mn_size n + mn_size q) ((ps @ [?p]) @ ?n # q # qs) =
        Inr ((ps @ [?p]) @ ?n\<lparr>mn_size := mn_size n + mn_size q\<rparr> # qs)"
      using False qc m2(2) sm by (intro mntruncate_absorb) auto
    with False qc m2(2) sm show ?thesis by (simp add: w_def)
  qed (simp add: w_def)
  have co1: "coalesced (?w # ?rest)" using qc co used by (auto simp: coalesced_append w_def)
  obtain post1 where t2:
    "mntruncate (length ps) sz (ps @ ?p # ?w # ?rest) = Inr (ps @ ?p\<lparr>mn_size := sz\<rparr> # post1)"
    "chain (mem_area ?p + sz) post1 e" "coalesced post1" "live_areas post1 = live_areas (?w # ?rest)"
    "free_sum post1 = free_sum (?w # ?rest) + (mn_size ?p - sz)"
  proof (cases "sz = mn_size p")
    case True
    show ?thesis
      by (rule that[of "?w # ?rest"]) (use True cw co1 mntruncate_same[of sz ?p] in \<open>auto simp: node_chain_append\<close>)
  next
    case False
    have "sz < mn_size ?p \<or> (?w # ?rest \<noteq> [] \<and> \<not> mn_used (hd (?w # ?rest)) \<and>
       mn_size ?p < sz \<and> sz \<le> mn_size ?p + mn_size (hd (?w # ?rest)))"
      using False sz by (auto simp: w_def)
    then show ?thesis
      using border_move[OF cw co1 small, of sz] sz m2(2) that by auto
  qed
  have nth: "(ps @ ?p # ?n # q # qs) ! Suc (length ps) = ?n"
    "(ps @ ?p # ?n # q # qs) ! Suc (Suc (length ps)) = q" by (simp_all add: nth_append)
  have "move_nodes (Suc (length ps)) sz (ps @ ?p # ?n # q # qs) = Inr (ps @ ?p\<lparr>mn_size := sz\<rparr> # post1)"
    using t1 t2(1) by (cases "mn_used q") (auto simp: move_nodes_def nth)
  with t2 show ?thesis by (intro exI[of _ post1]) (auto simp: w_def)
qed

lemma sm_move_down_mid:
  assumes ok: "pool_ok mp" and cm: "mp_commit mp = None"
    and ns: "mp_nodes mp = ps @ p # n # q # qs" "\<not> mn_used p" "mn_used n"
    and sz: "mn_size n < sz" "sz \<le> mn_size p + mn_size n + (if mn_used q then 0 else mn_size q)"
  shows "\<exists>mp1. sm_move_down (Suc (length ps)) sz mp = Inr (Some (length ps), mp1) \<and>
     resized (mem_area n) (mn_size n) (mem_area p) sz mp mp1 \<and>
     mp_nodes mp1 ! length ps = p\<lparr>mn_used := True, mn_size := sz\<rparr>"
proof -
  let ?b = "smget_base_addr mp" and ?e = "smget_base_addr mp + mp_size mp"
  let ?p = "p\<lparr>mn_used := True\<rparr>" and ?n = "n\<lparr>mn_used := False\<rparr>"
  have c: "chain ?b (ps @ p # n # q # qs) ?e" and co: "coalesced (ps @ p # n # q # qs)"
    and av: "mp_avail mp = free_sum (ps @ p # n # q # qs)"
    using ok by (auto simp: pool_ok_def ns)
  have nsn: "mp_nodes mp = (ps @ [p]) @ n # q # qs" using ns by simp
  note m = pool_ok_mid[OF ok ns(1)] and mn = pool_ok_mid[OF ok nsn]
  have cn: "chain ?b ((ps @ [p]) @ n # q # qs) ?e" using c by simp
  have cr: "chain ?b (ps @ p # ?n # q # qs) ?e" using c by (simp add: node_chain_append)
  have sum: "mp_avail mp + mn_size n \<le> mp_size mp"
    using free_sum_le[OF cr] av ns by simp
  have pq: "mn_size p + (if mn_used q then 0 else mn_size q) \<le> mp_avail mp"
    using free_sum_le[OF chain_mid(1)[OF c]] free_sum_le[of "mem_area q + mn_size q" qs ?e]
      chain_mid(3)[OF cn] av ns by simp
  obtain post1 where t: "move_nodes (Suc (length ps)) sz (ps @ ?p # ?n # q # qs) =
      Inr (ps @ p\<lparr>mn_used := True, mn_size := sz\<rparr> # post1)"
    and p1: "chain (mem_area p + sz) post1 ?e" "coalesced post1" "live_areas post1 = live_areas (q # qs)"
    "free_sum post1 = free_sum (?n # q # qs) + (mn_size p - sz)"
    using move_nodes_mid[OF c co _ ns(2,3) sz] m by auto
  define psize where "psize = min sz (mn_size p)"
  have psz: "0 \<le> psize" "psize \<le> mn_size p" using m sz mn by (auto simp: psize_def)
  have c1: "sm_commit_simple (mem_area p) psize mp = Inr (True, mp\<lparr>mp_avail := mp_avail mp - psize\<rparr>)"
    using m psz cm ns by (intro sm_commit_simple_None) auto
  let ?av2 = "mp_avail mp - psize - (if mn_size p + mn_size n < sz then sz - mn_size p - mn_size n else 0)"
  have c2: "move_commit p n q sz mp = Inr (True, mp\<lparr>mp_avail := ?av2\<rparr>)"
    using m psz cm ns sz pq c1 by (auto simp: move_commit_def sm_commit_None psize_def[symmetric])
  let ?mem = "mem_set (mem_move (mp_mem mp) (mem_area p) (mem_area n) (mn_size n)) (mem_area p + mn_size n) 0 (sz - mn_size n)"
  let ?mp3 = "mp\<lparr>mp_avail := ?av2, mp_nodes := ps @ ?p # ?n # q # qs, mp_mem := ?mem\<rparr>"
  let ?ov = "if mn_size p < sz then sz - mn_size p else 0"
  define x where "x = (if mn_used q then 0 else mn_size q)"
  have x: "0 \<le> x" "sz \<le> mn_size p + mn_size n + x" "mn_size p + x \<le> mp_avail mp"
    using sz pq pool_ok_mid(2)[OF ok, of "(ps @ [p]) @ [n]" q qs] ns by (auto simp: x_def)
  have ps: "sz \<le> mn_size p \<Longrightarrow> psize = sz" "mn_size p \<le> sz \<Longrightarrow> psize = mn_size p"
    by (auto simp: psize_def)
  have av2: "0 \<le> ?av2" "sz < mn_size p + mn_size n \<Longrightarrow> ?av2 + (mn_size n - ?ov) = mp_avail mp - (sz - mn_size n)"
    "\<not> sz < mn_size p + mn_size n \<Longrightarrow> ?av2 = mp_avail mp - (sz - mn_size n)"
    using psz(2) x sz(1) mn(2) ps by (simp_all split: if_split)
  obtain cl where u: "move_uncommit p n sz ?mp3 =
      Inr (?mp3\<lparr>mp_avail := mp_avail mp - (sz - mn_size n), mp_calls := cl\<rparr>)"
  proof (cases "sz < mn_size p + mn_size n")
    case True
    have "0 \<le> mp_avail ?mp3" "0 \<le> mn_size n - ?ov" "mp_avail ?mp3 + (mn_size n - ?ov) \<le> mp_size ?mp3"
      "mp_size ?mp3 < 2 ^ 32"
      using av2 True sz sum m mn by auto
    from sm_uncommit_ok[OF this, of "mem_area n + ?ov"] obtain cl where
      "sm_uncommit (mem_area n + ?ov) (mn_size n - ?ov) ?mp3 =
        Inr (?mp3\<lparr>mp_avail := mp_avail ?mp3 + (mn_size n - ?ov), mp_calls := cl\<rparr>)" .
    with True av2(2) show ?thesis by (intro that[of cl]) (simp add: move_uncommit_def Let_def)
  next
    case False
    with av2(3) show ?thesis by (intro that[of "mp_calls mp"]) (simp add: move_uncommit_def)
  qed
  let ?mp1 = "mp\<lparr>mp_nodes := ps @ p\<lparr>mn_used := True, mn_size := sz\<rparr> # post1,
     mp_avail := mp_avail mp - (sz - mn_size n), mp_mem := ?mem, mp_calls := cl\<rparr>"
  have upd: "(ps @ p # n # q # qs)[length ps := ?p, Suc (length ps) := ?n] = ps @ ?p # ?n # q # qs"
    by (simp add: list_update_append)
  have nth: "(ps @ p # n # q # qs) ! Suc (Suc (length ps)) = q" by (simp add: nth_append)
  have "sm_move_down (Suc (length ps)) sz mp = Inr (Some (length ps), ?mp1)"
    using c2 u t unfolding sm_move_down_def Let_def
    by (simp add: ns(1) upd nth del: list_update_append)
  moreover have "mem_area n = mem_area p + mn_size p" using chain_mid(3)[OF c] by simp
  then have "resized (mem_area n) (mn_size n) (mem_area (p\<lparr>mn_used := True, mn_size := sz\<rparr>))
      (mn_size (p\<lparr>mn_used := True, mn_size := sz\<rparr>)) mp ?mp1"
    by (intro resizedI[OF ok nsn ns(3), where pl = ps and pr = post1])
      (use ns p1 c co av sz m(2) mn(2) in \<open>auto simp: node_chain_append coalesced_append mem_set_def mem_move_def\<close>)
  ultimately show ?thesis by auto
qed

lemma alloc_outcome_None:
  "mp_commit mp = None \<Longrightarrow> alloc_outcome p sz mp r \<Longrightarrow>
   \<exists>i mp1. r = Inr (Some i, mp1) \<and> alloc_at p sz mp mp1 \<and> i < length (mp_nodes mp1) \<and>
     mp_nodes mp1 ! i = \<lparr>mn_size = sz, mn_used = True, mem_area = p\<rparr>"
  by (auto simp: alloc_outcome_def)

lemma largest_free_acc: "sz \<le> largest_free ns sz"
proof (induction ns arbitrary: sz)
  case (Cons n ns)
  show ?case using Cons.IH[of sz] Cons.IH[of "mn_size n"] by auto
qed simp

lemma largest_free_ge: "n \<in> set ns \<Longrightarrow> \<not> mn_used n \<Longrightarrow> mn_size n \<le> largest_free ns sz"
proof (induction ns arbitrary: sz)
  case (Cons m ns)
  show ?case
    using Cons.IH Cons.prems largest_free_acc[of sz ns] largest_free_acc[of "mn_size m" ns] by fastforce
qed simp

lemma largest_free_less:
  "\<forall>n \<in> set ns. mn_used n \<or> mn_size n < b \<Longrightarrow> sz < b \<Longrightarrow> largest_free ns sz < b"
  by (induction ns arbitrary: sz) auto

text \<open>Plain allocation fails without stopping: the request exceeds every free node.\<close>

lemma sm_alloc_mn_cases:
  assumes ok: "pool_ok mp" and sz: "0 < sz" "sz < 2 ^ 63"
  shows "(\<exists>p. alloc_outcome p sz mp (sm_alloc_mn sz mp)) \<or>
    ((\<forall>n \<in> set (mp_nodes mp). mn_used n \<or> mn_size n < sz) \<and> 0 \<le> get_oom_pr mp sz \<and>
     sm_alloc_mn sz mp = Inr (None, mp))"
  using sm_alloc_aligned_cases[OF ok, of 0 sz] sz largest_free_less[of "mp_nodes mp" sz 0]
  by (auto simp: sm_alloc_mn_def do_smerror_def get_oom_pr_def smget_largest_free_area_def)

lemma live_bytes_kept:
  "disjoint_areas (p, sz) (r, t) \<Longrightarrow> 0 \<le> i \<Longrightarrow> i < t \<Longrightarrow> mem_set m p v sz (r + i) = m (r + i)"
  "disjoint_areas (p, sz) (r, t) \<Longrightarrow> 0 \<le> i \<Longrightarrow> i < t \<Longrightarrow> k \<le> sz \<Longrightarrow> mem_move m p src k (r + i) = m (r + i)"
  by (auto simp: disjoint_areas_def mem_set_def mem_move_def)

lemma find_mn_live:
  assumes "pool_ok mp" "(p, sz) \<in> live mp"
  shows "\<exists>i. find_mn mp p = Some i \<and> i < length (mp_nodes mp) \<and> mp_nodes mp ! i = \<lparr>mn_size = sz, mn_used = True, mem_area = p\<rparr>"
proof -
  obtain pre n post where n: "mp_nodes mp = pre @ n # post" "mn_used n" "mem_area n = p" "mn_size n = sz"
    using live_split[OF assms(2)] .
  then have "n = \<lparr>mn_size = sz, mn_used = True, mem_area = p\<rparr>" by simp
  with find_mn_mid[OF assms(1) n(1,2)] n show ?thesis by auto
qed

lemma sm_relocate_mid:
  assumes ok: "pool_ok mp" and cm: "mp_commit mp = None"
    and ns: "mp_nodes mp = pre @ n # post" "mn_used n" and sz: "mn_size n < sz" "sz < 2 ^ 63"
  shows "sm_relocate (length pre) sz mp = Inr (None, mp) \<or>
    (\<exists>j mp1 q. sm_relocate (length pre) sz mp = Inr (Some j, mp1) \<and>
       resized (mem_area n) (mn_size n) q sz mp mp1 \<and>
       mp_nodes mp1 ! j = \<lparr>mn_size = sz, mn_used = True, mem_area = q\<rparr>)"
proof -
  have sz0: "0 < sz" using sz pool_ok_mid(2)[OF ok ns(1)] by simp
  let ?old = "(mem_area n, mn_size n)"
  have old: "?old \<in> live mp" using ns by (auto simp: live_def)
  from sm_alloc_mn_cases[OF ok sz0 sz(2)] show ?thesis
  proof
    assume "\<exists>p. alloc_outcome p sz mp (sm_alloc_mn sz mp)"
    then obtain q j mp1 where al: "sm_alloc_mn sz mp = Inr (Some j, mp1)" "alloc_at q sz mp mp1"
      "mp_nodes mp1 ! j = \<lparr>mn_size = sz, mn_used = True, mem_area = q\<rparr>"
      using alloc_outcome_None[OF cm] by blast
    note at = alloc_at_ok[OF ok al(2)]
    let ?mp2 = "mp1\<lparr>mp_mem := mem_move (mp_mem mp1) q (mem_area n) (mn_size n)\<rparr>"
    have ok2: "pool_ok ?mp2" using at(1) by (simp add: pool_ok_def smget_base_addr_def)
    have l2: "live ?mp2 = insert (q, sz) (live mp)" using at(2) by (simp add: live_def)
    obtain mp3 where f: "smfree (mem_area n) ?mp2 = Inr (0, mp3)" "pool_ok mp3"
      "live mp3 = live ?mp2 - {?old}" "mp_mem mp3 = mp_mem ?mp2" "mp_size mp3 = mp_size ?mp2"
      "smget_base_addr mp3 = smget_base_addr ?mp2"
      using smfree_live[OF ok2, of "mem_area n" "mn_size n"] l2 old by auto
    have "(q, sz) \<noteq> ?old" using at(12)[OF old] sz by auto
    then have l3: "live mp3 = insert (q, sz) (live mp - {?old})" using f(3) l2 by auto
    then obtain k where k: "find_mn mp3 q = Some k" "mp_nodes mp3 ! k = \<lparr>mn_size = sz, mn_used = True, mem_area = q\<rparr>"
      using find_mn_live[OF f(2)] by blast
    have "sm_relocate (length pre) sz mp = Inr (Some k, mp3)"
      using al f(1) k(1) ns(1) by (simp add: sm_relocate_def)
    moreover have m3: "mp_mem mp3 = mem_move (mem_set (mp_mem mp) q 0 sz) q (mem_area n) (mn_size n)"
      using f(4) at(7) by simp
    have "mp_mem mp3 (q + i) = mp_mem mp (mem_area n + i)" if "0 \<le> i" "i < min (mn_size n) sz" for i
      using that live_bytes_kept(1)[OF at(12)[OF old], of i] by (simp add: m3 mem_move_def)
    moreover have "mp_mem mp3 (q + i) = 0" if "mn_size n \<le> i" "i < sz" for i
      using that sz pool_ok_mid(2)[OF ok ns(1)] by (simp add: m3 mem_move_def mem_set_def)
    moreover have "mp_mem mp3 (r + i) = mp_mem mp (r + i)" if "(r, t) \<in> live mp" "0 \<le> i" "i < t" for r t i
      using live_bytes_kept[OF at(12)[OF that(1)] that(2,3)] sz by (simp add: m3)
    moreover have "smget_base_addr mp3 = smget_base_addr mp" "mp_size mp3 = mp_size mp"
      using f(5,6) at(3,4) by (simp_all add: smget_base_addr_def)
    ultimately have "resized (mem_area n) (mn_size n) q sz mp mp3"
      unfolding resized_def using f(2) l3 by auto
    moreover note \<open>sm_relocate (length pre) sz mp = Inr (Some k, mp3)\<close>
    ultimately show ?thesis using k(2) by blast
  next
    assume n: "(\<forall>n \<in> set (mp_nodes mp). mn_used n \<or> mn_size n < sz) \<and> 0 \<le> get_oom_pr mp sz \<and>
      sm_alloc_mn sz mp = Inr (None, mp)"
    then have "sm_relocate (length pre) sz mp = Inr (None, mp)"
      by (simp add: sm_relocate_def do_smerror_def)
    then show ?thesis by blast
  qed
qed

text \<open>
  The whole of \<open>smrealloc\<close> on a live area. The one case left out is a growing area that is
  the last of the pool, right after a free node, where \<open>sm_realloc_alloc_mn\<close> reads the
  missing successor.
\<close>

definition last_after_free :: "int \<Rightarrow> mempool \<Rightarrow> bool" where
  "last_after_free p mp \<longleftrightarrow>
     (\<exists>ps f n. mp_nodes mp = ps @ [f, n] \<and> \<not> mn_used f \<and> mn_used n \<and> mem_area n = p)"

lemma smrealloc_shrink:
  assumes ok: "pool_ok mp" and ns: "mp_nodes mp = pre @ n # post" "mn_used n"
    and sz: "0 < sz" "sz < mn_size n"
  shows "\<exists>mp1. smrealloc (mem_area n) sz mp = Inr (mem_area n, mp1) \<and>
    resized (mem_area n) (mn_size n) (mem_area n) sz mp mp1"
proof -
  obtain mp1 where "sm_shrink (length pre) sz mp = Inr mp1"
    "resized (mem_area n) (mn_size n) (mem_area n) sz mp mp1" "mp_nodes mp1 ! length pre = n\<lparr>mn_size := sz\<rparr>"
    using sm_shrink_mid[OF ok ns sz] by blast
  with find_mn_mid[OF ok ns] pool_ok_mid(1)[OF ok ns(1)] ns sz show ?thesis
    by (simp add: smrealloc_def return_node_def)
qed

lemma can_expand_mid:
  assumes ok: "pool_ok mp" and ns: "mp_nodes mp = pre @ n # post"
  shows "can_expand (length pre) sz mp \<longleftrightarrow>
    (post \<noteq> [] \<and> \<not> mn_used (hd post) \<and> sz \<le> mn_size n + mn_size (hd post))"
proof (cases post)
  case Nil
  then show ?thesis by (simp add: can_expand_def ns)
next
  case (Cons q qs)
  have ns2: "mp_nodes mp = (pre @ [n]) @ q # qs" using ns Cons by simp
  have "size_t (mn_size n + mn_size q) = mn_size n + mn_size q"
    using pool_ok_mid(2,3)[OF ok ns] pool_ok_mid(2,3)[OF ok ns2] by (intro size_t_small) auto
  then show ?thesis using Cons by (simp add: can_expand_def ns)
qed

lemma smrealloc_grow:
  assumes ok: "pool_ok mp" and cm: "mp_commit mp = None"
    and ns: "mp_nodes mp = pre @ n # post" "mn_used n" and sz: "mn_size n < sz" "sz < 2 ^ 63"
    and last: "\<not> last_after_free (mem_area n) mp"
  shows "smrealloc (mem_area n) sz mp = Inr (0, mp) \<or>
    (\<exists>q mp1. smrealloc (mem_area n) sz mp = Inr (q, mp1) \<and> q \<noteq> 0 \<and>
       resized (mem_area n) (mn_size n) q sz mp mp1)"
proof -
  note m = pool_ok_mid(1,2)[OF ok ns(1)]
  have live0: "q \<noteq> 0" if "resized (mem_area n) (mn_size n) q sz mp mp1" for q mp1
  proof -
    from that have "pool_ok mp1" "(q, sz) \<in> live mp1" "smget_base_addr mp1 = smget_base_addr mp"
      by (auto simp: resized_def)
    then show ?thesis using live_inside[of mp1 q sz] ok by (auto simp: pool_ok_def)
  qed
  have R: "smrealloc (mem_area n) sz mp =
      (if can_expand (length pre) sz mp then
         bindE (sm_expand (length pre) sz mp) (\<lambda>(ok, mp1). if ok then return_node (length pre) sz mp1 else Inr (0, mp1))
       else bindE (sm_realloc_alloc_mn (length pre) sz mp) (\<lambda>(r, mp1).
         case r of None \<Rightarrow> Inr (0, mp1) | Some j \<Rightarrow> return_node j sz mp1))"
    using find_mn_mid[OF ok ns] m ns sz by (simp add: smrealloc_def)
  show ?thesis
  proof (cases "can_expand (length pre) sz mp")
    case True
    then obtain q qs where q: "post = q # qs" "\<not> mn_used q" "sz \<le> mn_size n + mn_size q"
      using can_expand_mid[OF ok ns(1)] by (cases post) auto
    obtain mp1 where "sm_expand (length pre) sz mp = Inr (True, mp1)"
      "resized (mem_area n) (mn_size n) (mem_area n) sz mp mp1" "mp_nodes mp1 ! length pre = n\<lparr>mn_size := sz\<rparr>"
      using sm_expand_mid[OF ok cm, of pre n q qs sz] ns q sz by auto
    with True R m show ?thesis by (simp add: return_node_def)
  next
    case False
    note relo = sm_relocate_mid[OF ok cm ns sz]
    have "sm_realloc_alloc_mn (length pre) sz mp = Inr (None, mp) \<or>
      (\<exists>j mp1 q. sm_realloc_alloc_mn (length pre) sz mp = Inr (Some j, mp1) \<and>
        resized (mem_area n) (mn_size n) q sz mp mp1 \<and>
        mn_size (mp_nodes mp1 ! j) = sz \<and> mem_area (mp_nodes mp1 ! j) = q)"
    proof (cases "pre \<noteq> [] \<and> \<not> mn_used (last pre)")
      case pf: False
      then have "sm_realloc_alloc_mn (length pre) sz mp = sm_relocate (length pre) sz mp"
        by (cases pre rule: rev_cases) (auto simp: sm_realloc_alloc_mn_def ns nth_append)
      with relo show ?thesis by auto
    next
      case True
      then obtain ps p where pre: "pre = ps @ [p]" "\<not> mn_used p" by (cases pre rule: rev_cases) auto
      with last ns obtain q qs where post: "post = q # qs"
        by (cases post) (auto simp: last_after_free_def)
      have nsp: "mp_nodes mp = ps @ p # n # q # qs" "mp_nodes mp = (ps @ [p, n]) @ q # qs"
        using ns pre post by auto
      let ?room = "mn_size p + mn_size n + (if mn_used q then 0 else mn_size q)"
      have "size_t ?room = ?room"
        using pool_ok_mid(2,3)[OF ok nsp(1)] pool_ok_mid(2,3)[OF ok nsp(2)] pool_ok_mid(2,3)[OF ok ns(1)]
        by (intro size_t_id) auto
      moreover have "(ps @ p # n # q # qs) ! Suc (Suc (length ps)) = q" by (simp add: nth_append)
      ultimately have "sm_realloc_alloc_mn (length pre) sz mp =
          (if sz \<le> ?room then sm_move_down (length pre) sz mp else sm_relocate (length pre) sz mp)"
        using pre post by (cases "mn_used q") (auto simp: sm_realloc_alloc_mn_def ns)
      then show ?thesis
        using relo sm_move_down_mid[OF ok cm nsp(1) pre(2) ns(2) sz(1)] pre(1) by auto
    qed
    then show ?thesis
      using False R live0 by (auto simp: return_node_def)
  qed
qed

section \<open>Emptying a pool\<close>

lemma live_card_free:
  "pool_ok mp \<Longrightarrow> (p, sz) \<in> live mp \<Longrightarrow> card (live mp - {(p, sz)}) < card (live mp)"
  by (metis card_Diff1_less live_finite)

lemma smfree_all_unfold:
  "pool_used mp \<Longrightarrow> (if mn_used (mp_nodes mp ! 0) then 0 else 1) = i \<Longrightarrow> i < length (mp_nodes mp) \<Longrightarrow>
   mn_used (mp_nodes mp ! i) \<Longrightarrow> smfree (mem_area (mp_nodes mp ! i)) mp = Inr (r, mp1) \<Longrightarrow>
   smfree_all mp = smfree_all mp1"
  by (subst smfree_all.simps) (simp only: Let_def, simp)

lemma smfree_all_step:
  assumes ok: "pool_ok mp" and used: "pool_used mp"
  obtains p sz mp1 where "(p, sz) \<in> live mp" "smfree p mp = Inr (0, mp1)" "smfree_all mp = smfree_all mp1"
    "pool_ok mp1" "live mp1 = live mp - {(p, sz)}" "mp_size mp1 = mp_size mp"
    "smget_base_addr mp1 = smget_base_addr mp"
proof -
  obtain n ns where ns: "mp_nodes mp = n # ns" and co: "coalesced (n # ns)"
    using ok by (cases "mp_nodes mp") (auto simp: pool_ok_def)
  define i where "i = (if mn_used n then 0 else 1 :: nat)"
  have i: "i < length (mp_nodes mp)" "mn_used (mp_nodes mp ! i)"
    using used ns co by (auto simp: pool_used_def i_def hd_conv_nth)
  let ?m = "mp_nodes mp ! i"
  have live: "(mem_area ?m, mn_size ?m) \<in> live mp" using i by (auto simp: live_def live_areas_def)
  with smfree_live[OF ok this] obtain mp1 where f: "smfree (mem_area ?m) mp = Inr (0, mp1)" "pool_ok mp1"
    "live mp1 = live mp - {(mem_area ?m, mn_size ?m)}" "mp_size mp1 = mp_size mp"
    "smget_base_addr mp1 = smget_base_addr mp" by blast
  have all: "smfree_all mp = smfree_all mp1"
    by (rule smfree_all_unfold[OF used _ i f(1)]) (simp add: i_def ns)
  show ?thesis by (rule that[OF live f(1) all f(2-5)])
qed

lemma unused_pool_nodes:
  assumes "pool_ok mp" "\<not> pool_used mp"
  shows "mp_nodes mp = [\<lparr>mn_size = mp_size mp, mn_used = False, mem_area = smget_base_addr mp\<rparr>]"
  using assms by (cases "mp_nodes mp") (auto simp: pool_ok_def pool_used_def)

lemma smfree_all_ok:
  "pool_ok mp \<Longrightarrow> \<exists>mp1. smfree_all mp = Some (Inr mp1) \<and> pool_ok mp1 \<and> live mp1 = {} \<and>
     mp_nodes mp1 = [\<lparr>mn_size = mp_size mp, mn_used = False, mem_area = smget_base_addr mp\<rparr>]"
proof (induction "card (live mp)" arbitrary: mp rule: less_induct)
  case less
  show ?case
  proof (cases "pool_used mp")
    case False
    then have "smfree_all mp = Some (Inr mp)"
      using unused_pool_nodes[OF less.prems] by (subst smfree_all.simps) simp
    with unused_pool_nodes[OF less.prems False] less.prems show ?thesis by (simp add: live_def)
  next
    case True
    obtain p sz mp1 where s: "(p, sz) \<in> live mp" "smfree_all mp = smfree_all mp1" "pool_ok mp1"
      "live mp1 = live mp - {(p, sz)}" "mp_size mp1 = mp_size mp" "smget_base_addr mp1 = smget_base_addr mp"
      using smfree_all_step[OF less.prems True] .
    have "card (live mp1) < card (live mp)" using live_card_free[OF less.prems s(1)] s(4) by simp
    from less.hyps[OF this s(3)] show ?thesis using s by simp
  qed
qed

lemma free_sum_live: "chain a ns e \<Longrightarrow> free_sum ns + sum_list (map (\<lambda>n. if mn_used n then mn_size n else 0) ns) = e - a"
proof (induction ns arbitrary: a)
  case (Cons n ns)
  then have "chain (a + mn_size n) ns e" by simp
  from Cons.IH[OF this] show ?case by simp
qed simp

lemma sminit_ok:
  "0 < start \<Longrightarrow> 0 < sz \<Longrightarrow> sz < 2 ^ 31 \<Longrightarrow> start + sz < 2 ^ 63 \<Longrightarrow>
   pool_ok (sminit start sz mem) \<and> live (sminit start sz mem) = {} \<and> mp_commit (sminit start sz mem) = None"
  by (simp add: sminit_def pool_ok_def smget_base_addr_def live_def)

end
