(* ===== verification/Smalloc_Props.thy ===== *)
theory Smalloc_Props
  imports Smalloc_Proofs
begin

text \<open>
  What the pool allocator of fdpp/smalloc.c guarantees, and where it does not do what its
  callers expect.
\<close>

section \<open>The allocator contract\<close>

lemma smalloc_outcome:
  assumes "pool_ok mp" "0 < sz" "sz < 2 ^ 63" "mp_commit mp = None"
  shows "(\<exists>p mp1. smalloc sz mp = Inr (p, mp1) \<and> alloc_at p sz mp mp1) \<or>
    ((\<forall>n \<in> set (mp_nodes mp). mn_used n \<or> mn_size n < sz) \<and> smalloc sz mp = Inr (0, mp))"
proof (cases "\<exists>p. alloc_outcome p sz mp (sm_alloc_mn sz mp)")
  case True
  then obtain p i mp1 where "sm_alloc_mn sz mp = Inr (Some i, mp1)" "alloc_at p sz mp mp1"
    "mp_nodes mp1 ! i = \<lparr>mn_size = sz, mn_used = True, mem_area = p\<rparr>"
    using alloc_outcome_None[OF assms(4)] by blast
  then have "smalloc sz mp = Inr (p, mp1) \<and> alloc_at p sz mp mp1"
    by (simp add: smalloc_def node_addr_def)
  then show ?thesis by blast
next
  case False
  with sm_alloc_mn_cases[OF assms(1-3)] show ?thesis
    by (auto simp: smalloc_def node_addr_def)
qed

interpretation sm: region_alloc smalloc smfree live
  "\<lambda>mp. pool_ok mp \<and> mp_commit mp = None" "\<lambda>n. n" "\<lambda>n. 0 \<le> n \<and> n < 2 ^ 63"
proof (unfold_locales, goal_cases)
  case (1 mp n)
  show ?case
  proof (cases "n = 0")
    case True
    with 1 show ?thesis
      by (simp add: smalloc_def sm_alloc_mn_def sm_alloc_aligned_def node_addr_def)
  next
    case False
    with 1 consider (area) p mp1 where "smalloc n mp = Inr (p, mp1)" "alloc_at p n mp mp1"
      | (full) "smalloc n mp = Inr (0, mp)"
      using smalloc_outcome[of mp n] by auto
    then show ?thesis
    proof cases
      case area
      have ok: "pool_ok mp" using 1 by simp
      note at = alloc_at_ok(1,2,5,12)[OF ok area(2)]
      have "\<forall>a \<in> live mp. disjoint_areas (p, n) a" using at(4) by blast
      with at(1-3) area(1) 1 show ?thesis by simp
    next
      case full
      with 1 show ?thesis by simp
    qed
  qed
next
  case (2 mp p n)
  then show ?case using smfree_live[of mp p n] by auto
next
  case (3 mp p)
  then show ?case using smfree_not_live[of p mp] by fastforce
qed

section \<open>Allocation returns fresh memory\<close>

text \<open>
  \<open>fresh_area p sz mp mp1\<close>: from \<open>mp\<close> to \<open>mp1\<close> the area \<open>(p, sz)\<close> was handed out: it lies
  in the pool, meets no area in use, reads as zero, and nothing else changed.
\<close>

definition fresh_area :: "int \<Rightarrow> int \<Rightarrow> mempool \<Rightarrow> mempool \<Rightarrow> bool" where
  "fresh_area p sz mp mp1 \<longleftrightarrow>
     pool_ok mp1 \<and> live mp1 = insert (p, sz) (live mp) \<and>
     (\<forall>a \<in> live mp. disjoint_areas (p, sz) a) \<and>
     smget_base_addr mp \<le> p \<and> p + sz \<le> smget_base_addr mp + mp_size mp \<and>
     smget_free_space mp1 = smget_free_space mp - sz \<and>
     mp_mem mp1 = (\<lambda>a. if p \<le> a \<and> a < p + sz then 0 else mp_mem mp a)"

lemma alloc_at_fresh: "pool_ok mp \<Longrightarrow> alloc_at p sz mp mp1 \<Longrightarrow> fresh_area p sz mp mp1 \<and> p \<noteq> 0"
  using alloc_at_ok[of mp p sz mp1]
  by (simp add: fresh_area_def smget_free_space_def mem_set_def)

lemma alloc_outcome_fresh:
  assumes "pool_ok mp" "alloc_outcome q sz mp r" "node_addr r = Inr (p, mp1)" "p \<noteq> 0"
  shows "p = q \<and> fresh_area p sz mp mp1"
  using assms alloc_at_fresh by (auto simp: alloc_outcome_def node_addr_def)

lemma do_smerror_None: "node_addr (do_smerror k (None, mp)) = Inr (p, mp1) \<Longrightarrow> p = 0"
  by (auto simp: node_addr_def do_smerror_def)

lemma check_aligned_Inr: "check_aligned a r = Inr x \<Longrightarrow> r = Inr x"
  by (cases x) (auto simp: check_aligned_def)

lemma smalloc_aligned_fresh:
  assumes "pool_ok mp" "k \<le> 31" "0 < sz" "sz < 2 ^ 63"
    "node_addr (sm_alloc_aligned (2 ^ k) sz mp) = Inr (p, mp1)" "p \<noteq> 0"
  shows "p mod 2 ^ k = 0 \<and> fresh_area p sz mp mp1"
  using sm_alloc_aligned_cases[OF assms(1-4)] alloc_outcome_fresh[OF assms(1) _ assms(5,6)]
    do_smerror_None assms(5,6) by metis

lemma smalloc_topdown_fresh:
  assumes "pool_ok mp" "k \<le> 31" "0 < sz" "sz < 2 ^ 63" "0 \<le> tp" "tp < 2 ^ 63"
    "node_addr (sm_alloc_aligned_topdown tp (2 ^ k) sz mp) = Inr (p, mp1)" "p \<noteq> 0"
  shows "p mod 2 ^ k = 0 \<and> (tp = 0 \<or> p + sz \<le> tp) \<and> fresh_area p sz mp mp1"
  using sm_alloc_aligned_topdown_cases[OF assms(1-6)] alloc_outcome_fresh[OF assms(1) _ assms(7,8)]
    do_smerror_None assms(7,8) by metis

lemma smalloc_fixed_fresh:
  assumes ok: "pool_ok mp" and sz: "0 < sz" "sz < 2 ^ 63" and q: "0 < q"
    and r: "smalloc_fixed q sz mp = Inr (p, mp1)" and p: "p \<noteq> 0"
  shows "p = q \<and> fresh_area p sz mp mp1"
proof -
  from r p have "node_addr (sm_alloc_fixed q sz mp) = Inr (p, mp1)" "sm_alloc_fixed q sz mp \<noteq> Inr (None, mp)"
    by (auto simp: smalloc_fixed_def node_addr_def split: option.splits)
  with sm_alloc_fixed_cases[OF ok sz q] alloc_outcome_fresh[OF ok _ _ p] show ?thesis by blast
qed

definition placed :: "int \<Rightarrow> nat \<Rightarrow> int \<Rightarrow> int \<Rightarrow> mempool \<Rightarrow> (int \<times> mempool) run \<Rightarrow> int \<Rightarrow> bool" where
  "placed q k tp sz mp r p \<longleftrightarrow>
     r = smalloc sz mp \<or> r = smalloc_topdown sz mp \<or>
     r = smalloc_aligned (2 ^ k) sz mp \<and> p mod 2 ^ k = 0 \<or>
     r = smalloc_aligned_topdown tp (2 ^ k) sz mp \<and> p mod 2 ^ k = 0 \<and> (tp = 0 \<or> p + sz \<le> tp) \<or>
     r = smalloc_fixed q sz mp \<and> p = q"

lemma pow2_0: "(2::int) ^ 0 = 1"
  by simp

text \<open>
  C1. Every allocation entry point of the pool allocator (\<open>smalloc\<close>, \<open>smalloc_topdown\<close>,
  \<open>smalloc_aligned\<close>, \<open>smalloc_aligned_topdown\<close>, \<open>smalloc_fixed\<close>), when it returns a
  non-null pointer, returns a fresh zeroed area inside the pool, disjoint from every area in
  use, placed as asked (aligned, below the limit, at the address), and keeps the pool well
  formed, whatever the commit call-back answers.
\<close>

theorem allocation_returns_fresh_area:
  assumes "pool_ok mp" "0 < sz" "sz < 2 ^ 63" "k \<le> 31" "0 \<le> tp" "tp < 2 ^ 63" "0 < q"
    and "r \<in> {smalloc sz mp, smalloc_topdown sz mp, smalloc_aligned (2 ^ k) sz mp,
              smalloc_aligned_topdown tp (2 ^ k) sz mp, smalloc_fixed q sz mp}"
    and "r = Inr (p, mp1)" and "p \<noteq> 0"
  shows "fresh_area p sz mp mp1 \<and> placed q k tp sz mp r p"
proof -
  consider "r = smalloc sz mp" | "r = smalloc_topdown sz mp" | "r = smalloc_aligned (2 ^ k) sz mp"
    | "r = smalloc_aligned_topdown tp (2 ^ k) sz mp" | "r = smalloc_fixed q sz mp"
    using assms(8) by blast
  then show ?thesis
  proof cases
    case 1
    then show ?thesis
      using smalloc_aligned_fresh[of mp 0 sz p mp1] assms
      by (simp add: smalloc_def sm_alloc_mn_def placed_def)
  next
    case 2
    then show ?thesis
      using smalloc_topdown_fresh[of mp 0 sz 0 p mp1] assms
      by (simp add: smalloc_topdown_def sm_alloc_topdown_def placed_def)
  next
    case 3
    then have "node_addr (sm_alloc_aligned (2 ^ k) sz mp) = Inr (p, mp1)"
      using assms(9) check_aligned_Inr unfolding smalloc_aligned_def by metis
    with 3 show ?thesis using smalloc_aligned_fresh[of mp k sz p mp1] assms(1-4,10) by (simp add: placed_def)
  next
    case 4
    then have "node_addr (sm_alloc_aligned_topdown tp (2 ^ k) sz mp) = Inr (p, mp1)"
      using assms(9) check_aligned_Inr unfolding smalloc_aligned_topdown_def by metis
    with 4 show ?thesis
      using smalloc_topdown_fresh[of mp k sz tp p mp1] assms(1-6,10) by (simp add: placed_def)
  next
    case 5
    with assms(9) have "smalloc_fixed q sz mp = Inr (p, mp1)" by simp
    from smalloc_fixed_fresh[OF assms(1-3,7) this assms(10)] 5 show ?thesis
      unfolding placed_def by blast
  qed
qed

text \<open>A small pool for the witnesses: 64 bytes at 4096, all bytes 7.\<close>

definition pool64 :: mempool where
  "pool64 = sminit 4096 64 (\<lambda>_. 7)"

lemma pool64_ok: "pool_ok pool64" "mp_commit pool64 = None" "live pool64 = {}"
  using sminit_ok[of 4096 64 "\<lambda>_. 7"] by (simp_all add: pool64_def)

lemmas alloc_eval = smalloc_def sm_alloc_mn_def sm_alloc_aligned_def sm_alloc_aligned_topdown_def
  smalloc_aligned_def smalloc_aligned_topdown_def check_aligned_def
  node_addr_def sm_skip_def sm_take_def sm_commit_simple_def sm_commit_def do_commit_def
  mntruncate_def do_smerror_def get_oom_pr_def smget_largest_free_area_def sminit_def
  c_int_def size_t_def page_mask_def page_align_def Let_def

lemma popcount_is_1_numerals [simp]: "popcount_is_1 1" "popcount_is_1 8" "popcount_is_1 16"
  using popcount_is_1_pow2[of 0] popcount_is_1_pow2[of 3] popcount_is_1_pow2[of 4] by simp_all

lemma pool64_topdown:
  "smalloc_aligned_topdown 4144 8 10 pool64 = Inr (4128, pool64\<lparr>mp_avail := 54,
     mp_mem := mem_set (\<lambda>_. 7) 4128 0 10,
     mp_nodes := [\<lparr>mn_size = 32, mn_used = False, mem_area = 4096\<rparr>,
       \<lparr>mn_size = 10, mn_used = True, mem_area = 4128\<rparr>,
       \<lparr>mn_size = 22, mn_used = False, mem_area = 4138\<rparr>]\<rparr>)"
  by (simp add: alloc_eval pool64_def)

theorem allocation_returns_fresh_area_witness:
  "\<exists>mp1. smalloc_aligned_topdown 4144 8 10 pool64 = Inr (4128, mp1) \<and> fresh_area 4128 10 pool64 mp1"
  using allocation_returns_fresh_area[of pool64 10 3 4144 4096 "smalloc_aligned_topdown 4144 8 10 pool64" 4128]
    pool64_ok(1) pool64_topdown by auto

text \<open>
  C4. Without call-backs \<open>smalloc\<close> never stops the process and returns \<open>NULL\<close>, leaving
  the pool as it was, exactly when no free node is large enough.
\<close>

theorem smalloc_null_iff_full:
  assumes "pool_ok mp" "mp_commit mp = None" "0 < sz" "sz < 2 ^ 63"
  shows "\<exists>p mp1. smalloc sz mp = Inr (p, mp1) \<and>
    (p = 0 \<longleftrightarrow> smget_largest_free_area mp < sz) \<and> (p = 0 \<longrightarrow> mp1 = mp)"
proof -
  note lf = largest_free_ge[of _ "mp_nodes mp" 0] largest_free_less[of "mp_nodes mp" sz 0]
  from smalloc_outcome[OF assms(1,3,4,2)] show ?thesis
  proof
    assume "\<exists>p mp1. smalloc sz mp = Inr (p, mp1) \<and> alloc_at p sz mp mp1"
    then obtain p mp1 where s: "smalloc sz mp = Inr (p, mp1)" "alloc_at p sz mp mp1" by blast
    then obtain n where "n \<in> set (mp_nodes mp)" "\<not> mn_used n" "sz \<le> mn_size n"
      unfolding alloc_at_def by fastforce
    then have "sz \<le> smget_largest_free_area mp"
      using lf(1) by (fastforce simp: smget_largest_free_area_def)
    with s alloc_at_ok(9)[OF assms(1) s(2)] show ?thesis by simp
  next
    assume "(\<forall>n \<in> set (mp_nodes mp). mn_used n \<or> mn_size n < sz) \<and> smalloc sz mp = Inr (0, mp)"
    with lf(2) assms(3) show ?thesis by (simp add: smget_largest_free_area_def)
  qed
qed

theorem smalloc_null_iff_full_witness:
  "\<exists>p mp1. smalloc 65 pool64 = Inr (p, mp1) \<and> (p = 0 \<longleftrightarrow> smget_largest_free_area pool64 < 65) \<and>
     (p = 0 \<longrightarrow> mp1 = pool64)"
  by (rule smalloc_null_iff_full) (simp_all add: pool64_ok)

section \<open>Release undoes allocation\<close>

lemma released_carve:
  assumes "chain a (pre @ n # post) e" "coalesced (pre @ n # post)" "\<not> mn_used n"
    "0 \<le> d" "0 < sz" "d + sz \<le> mn_size n"
  obtains pl u pr where "pre @ carve n d sz @ post = pl @ u # pr" "mn_used u"
    "mem_area u = mem_area n + d" "mn_size u = sz" "released pl u pr = pre @ n # post"
proof -
  let ?u = "\<lparr>mn_size = sz, mn_used = True, mem_area = mem_area n + d\<rparr>"
  let ?f = "if d = 0 then [] else [\<lparr>mn_size = d, mn_used = False, mem_area = mem_area n\<rparr>]"
  let ?b = "if mn_size n = d + sz then []
    else [\<lparr>mn_size = mn_size n - d - sz, mn_used = False, mem_area = mem_area n + d + sz\<rparr>]"
  have nb: "pre = [] \<or> mn_used (last pre)" "post = [] \<or> mn_used (hd post)"
    using assms(2,3) by (auto simp: coalesced_append)
  have n: "n = \<lparr>mn_size = mn_size n, mn_used = False, mem_area = mem_area n\<rparr>" using assms(3) by simp
  have "released (pre @ ?f) ?u (?b @ post) = pre @ n # post"
    using nb by (cases "d = 0"; cases "mn_size n = d + sz"; subst (6) n)
      (auto simp: released_def Let_def)
  then show ?thesis by (intro that[of "pre @ ?f" ?u "?b @ post"]) (auto simp: carve_def)
qed

text \<open>
  C2. Freeing the area an allocation just returned restores the node list and the free
  counter exactly: the cuts made by the allocation are merged away again, with both
  neighbours.
\<close>

theorem smfree_undoes_smalloc:
  assumes "pool_ok mp" "0 < sz" "sz < 2 ^ 63" "mp_commit mp = None"
    and "smalloc sz mp = Inr (p, mp1)" and "p \<noteq> 0"
  shows "\<exists>mp2. smfree p mp1 = Inr (0, mp2) \<and> mp_nodes mp2 = mp_nodes mp \<and>
    mp_avail mp2 = mp_avail mp \<and> smfree p mp2 = Inr (-1, mp2)"
proof -
  have at: "alloc_at p sz mp mp1"
    using smalloc_outcome[OF assms(1-4)] assms(5,6) by auto
  then obtain pre n post d c where ns: "mp_nodes mp = pre @ n # post" "\<not> mn_used n"
    and d: "0 \<le> d" "0 < sz" "d + sz \<le> mn_size n" and p: "p = mem_area n + d"
    and mp1: "mp_nodes mp1 = pre @ carve n d sz @ post" "mp_avail mp1 = mp_avail mp - sz"
    unfolding alloc_at_def by auto
  have c: "chain (smget_base_addr mp) (pre @ n # post) (smget_base_addr mp + mp_size mp)"
    and co: "coalesced (pre @ n # post)" using assms(1) ns by (auto simp: pool_ok_def)
  obtain pl u pr where u: "pre @ carve n d sz @ post = pl @ u # pr" "mn_used u"
    "mem_area u = mem_area n + d" "mn_size u = sz" "released pl u pr = pre @ n # post"
    using released_carve[OF c co ns(2) d] .
  have "mp_nodes mp1 = pl @ u # pr" using mp1 u by simp
  from smfree_mid[OF alloc_at_ok(1)[OF assms(1) at] this u(2)] obtain c2 where
    "smfree (mem_area u) mp1 = Inr (0, mp1\<lparr>mp_nodes := released pl u pr,
       mp_avail := mp_avail mp1 + mn_size u, mp_calls := c2\<rparr>)" .
  then obtain mp2 where
    f: "smfree p mp1 = Inr (0, mp2)" "mp_nodes mp2 = mp_nodes mp" "mp_avail mp2 = mp_avail mp"
    unfolding u(3-5) p[symmetric] ns(1)[symmetric] mp1(2) by simp
  have "\<forall>t. (p, t) \<notin> live mp2"
  proof (intro allI notI)
    fix t assume "(p, t) \<in> live mp2"
    then have "(p, t) \<in> live mp" using f(2) by (simp add: live_def)
    with alloc_at_ok(8,12)[OF assms(1) at] live_inside[OF assms(1)] show False
      by (fastforce simp: disjoint_areas_def)
  qed
  with f smfree_not_live show ?thesis by blast
qed

lemma pool64_smalloc10:
  "smalloc 10 pool64 = Inr (4096, pool64\<lparr>mp_avail := 54, mp_mem := mem_set (\<lambda>_. 7) 4096 0 10,
     mp_nodes := [\<lparr>mn_size = 10, mn_used = True, mem_area = 4096\<rparr>,
       \<lparr>mn_size = 54, mn_used = False, mem_area = 4106\<rparr>]\<rparr>)"
  by (simp add: alloc_eval pool64_def)

theorem smfree_undoes_smalloc_witness:
  "\<exists>mp1 mp2. smalloc 10 pool64 = Inr (4096, mp1) \<and> smfree 4096 mp1 = Inr (0, mp2) \<and>
     mp_nodes mp2 = mp_nodes pool64"
  using smfree_undoes_smalloc[OF pool64_ok(1) _ _ pool64_ok(2) pool64_smalloc10] pool64_smalloc10
  by auto

text \<open>
  C3. Clients: any sequence of \<open>smalloc\<close> and \<open>smfree\<close> calls, whatever pointers are
  passed to \<open>smfree\<close>, runs to its end on a pool set up by \<open>sminit\<close> without failing an
  assertion, and the areas in use stay pairwise disjoint.
\<close>

theorem smalloc_clients_get_disjoint_areas:
  assumes "0 < start" "0 < sz" "sz < 2 ^ 31" "start + sz < 2 ^ 63"
    and "\<forall>n. Get n \<in> set rs \<longrightarrow> 0 \<le> n \<and> n < 2 ^ 63"
  shows "\<exists>mp1. serve smalloc smfree rs (sminit start sz mem) = Inr mp1 \<and> pool_ok mp1 \<and>
    pairwise_disjoint (live mp1)"
  using sm.serve_fresh[of "sminit start sz mem" rs] sminit_ok[OF assms(1-4)] assms(5) by auto

theorem smalloc_clients_get_disjoint_areas_witness:
  "\<exists>mp1. serve smalloc smfree [Get 10, Get 20, Give_back 4096, Give_back 77, Get 30] (sminit 4096 64 (\<lambda>_. 0)) = Inr mp1 \<and>
     pool_ok mp1 \<and> pairwise_disjoint (live mp1)"
  by (rule smalloc_clients_get_disjoint_areas) auto

section \<open>Resizing keeps the contents\<close>

lemma resized_same:
  assumes "pool_ok mp" "(p, sz) \<in> live mp"
  shows "resized p sz p sz mp mp"
  using assms by (auto simp: resized_def)

text \<open>
  C5. \<open>smrealloc\<close> on an area in use, to any non-zero size: it either returns \<open>NULL\<close> and
  changes nothing, or returns an area of the new size whose leading bytes are the old ones
  and whose gained bytes are zero, keeps every other area and its bytes, and keeps the pool
  well formed. Excluded is growing the pool's last area when it follows a free node.
\<close>

theorem smrealloc_keeps_contents:
  assumes "pool_ok mp" "mp_commit mp = None" "(p, old) \<in> live mp" "0 < sz" "sz < 2 ^ 63"
    and "\<not> (old < sz \<and> last_after_free p mp)"
  shows "\<exists>q mp1. smrealloc p sz mp = Inr (q, mp1) \<and>
    (q = 0 \<and> mp1 = mp \<or> q \<noteq> 0 \<and> resized p old q sz mp mp1)"
proof -
  obtain pre n post where n: "mp_nodes mp = pre @ n # post" "mn_used n" "mem_area n = p" "mn_size n = old"
    using live_split[OF assms(3)] .
  have p: "p \<noteq> 0" using pool_ok_mid(1)[OF assms(1) n(1)] n(3) by simp
  consider "sz < old" | "sz = old" | "old < sz" by linarith
  then show ?thesis
  proof cases
    case 1
    then show ?thesis
      using smrealloc_shrink[OF assms(1) n(1,2) assms(4)] n(3,4) p by blast
  next
    case 2
    have "smrealloc p sz mp = Inr (p, mp)"
      using find_mn_mid[OF assms(1) n(1,2)] n p assms(4) 2 by (simp add: smrealloc_def)
    then show ?thesis using resized_same assms(1,3) p 2 by blast
  next
    case 3
    have "\<not> last_after_free (mem_area n) mp" using assms(6) 3 n(3) by simp
    with smrealloc_grow[OF assms(1,2) n(1,2) _ assms(5)] n(3,4) 3 show ?thesis by blast
  qed
qed

definition pool64_used10 :: mempool where
  "pool64_used10 = pool64\<lparr>mp_avail := 54, mp_mem := mem_set (\<lambda>_. 7) 4096 0 10,
     mp_nodes := [\<lparr>mn_size = 10, mn_used = True, mem_area = 4096\<rparr>,
       \<lparr>mn_size = 54, mn_used = False, mem_area = 4106\<rparr>]\<rparr>"

lemma pool64_used10_ok: "pool_ok pool64_used10" "mp_commit pool64_used10 = None"
  "(4096, 10) \<in> live pool64_used10" "\<not> last_after_free 4096 pool64_used10"
  by (auto simp: pool64_used10_def pool64_def sminit_def pool_ok_def smget_base_addr_def live_def
      last_after_free_def Cons_eq_append_conv)

theorem smrealloc_keeps_contents_witness:
  "\<exists>q mp1. smrealloc 4096 20 pool64_used10 = Inr (q, mp1) \<and>
    (q = 0 \<and> mp1 = pool64_used10 \<or> q \<noteq> 0 \<and> resized 4096 10 q 20 pool64_used10 mp1)"
  by (rule smrealloc_keeps_contents) (simp_all add: pool64_used10_ok)

section \<open>Destroying a pool reports the leak\<close>

lemma sum_live_areas:
  "chain a ns e \<Longrightarrow> (\<Sum>x \<in> live_areas ns. snd x) = sum_list (map (\<lambda>n. if mn_used n then mn_size n else 0) ns)"
proof (induction ns arbitrary: a)
  case (Cons n ns)
  then have c: "chain (a + mn_size n) ns e" "mem_area n = a" "0 < mn_size n" by auto
  have "live_areas ns \<subseteq> (\<lambda>n. (mem_area n, mn_size n)) ` set ns" by (auto simp: live_areas_def)
  then have "finite (live_areas ns)" by (rule finite_subset) simp
  moreover have "(mem_area n, mn_size n) \<notin> live_areas ns"
    using live_areas_bounds[OF c(1)] c(2,3) by fastforce
  ultimately show ?case using Cons.IH[OF c(1)] by simp
qed simp

text \<open>
  \<open>smdestroy\<close> ends, frees every area, leaves one free node that spans the pool, and
  returns the number of bytes that were still in use.
\<close>

theorem smdestroy_returns_leak:
  assumes "pool_ok mp"
  shows "\<exists>mp1. smdestroy mp = Some (Inr (\<Sum>x \<in> live mp. snd x, mp1)) \<and> live mp1 = {} \<and>
    mp_nodes mp1 = [\<lparr>mn_size = mp_size mp, mn_used = False, mem_area = smget_base_addr mp\<rparr>]"
proof -
  obtain mp1 where all: "smfree_all mp = Some (Inr mp1)" "live mp1 = {}"
    "mp_nodes mp1 = [\<lparr>mn_size = mp_size mp, mn_used = False, mem_area = smget_base_addr mp\<rparr>]"
    using smfree_all_ok[OF assms] by blast
  have c: "chain (smget_base_addr mp) (mp_nodes mp) (smget_base_addr mp + mp_size mp)"
    and av: "mp_avail mp = free_sum (mp_nodes mp)" and sz: "mp_size mp < 2 ^ 31"
    using assms by (auto simp: pool_ok_def)
  have leak: "(\<Sum>x \<in> live mp. snd x) = mp_size mp - mp_avail mp"
    using sum_live_areas[OF c] free_sum_live[OF c] av by (simp add: live_def)
  have "0 \<le> mp_avail mp" "mp_avail mp \<le> mp_size mp"
    using free_sum_le[OF c] av by simp_all
  then have "smdestroy mp = Some (Inr (\<Sum>x \<in> live mp. snd x, mp1))"
    using all sz leak by (simp add: smdestroy_def Let_def c_int_id)
  with all show ?thesis by blast
qed

theorem smdestroy_returns_leak_witness:
  "\<exists>mp1. smdestroy pool64_used10 = Some (Inr (10, mp1)) \<and> live mp1 = {}"
proof -
  have "(\<Sum>x \<in> live pool64_used10. snd x) = 10"
    by (simp add: pool64_used10_def live_def)
  with smdestroy_returns_leak[OF pool64_used10_ok(1)] show ?thesis by auto
qed

section \<open>Where the allocator stops the process\<close>

text \<open>
  An aligned request that fails only because of alignment slack (some free node holds
  the size, none holds size + align - 1) does not return \<open>NULL\<close>: \<open>get_oom_pr\<close>
  answers -1, and \<open>do_smerror\<close> asserts that the priority is not -1.
\<close>

theorem smalloc_aligned_slack_aborts:
  assumes "pool_ok mp" "0 < sz" "sz < 2 ^ 63" "k \<le> 31"
    and "sz \<le> smget_largest_free_area mp"
    and "\<forall>n \<in> set (mp_nodes mp). mn_used n \<or> mn_size n < sz + 2 ^ k - 1"
  shows "smalloc_aligned (2 ^ k) sz mp = Inl Assert_failed"
proof -
  from sm_alloc_aligned_cases[OF assms(1,4,2,3)] show ?thesis
  proof (elim disjE exE conjE)
    assume "sm_alloc_aligned (2 ^ k) sz mp = do_smerror (get_oom_pr mp sz) (None, mp)"
    moreover have "get_oom_pr mp sz = -1" using assms(5) by (simp add: get_oom_pr_def)
    ultimately show ?thesis
      by (simp add: smalloc_aligned_def check_aligned_def node_addr_def do_smerror_def)
  next
    fix p assume "alloc_outcome p sz mp (sm_alloc_aligned (2 ^ k) sz mp)"
    have k2: "(1::int) \<le> 2 ^ k" "(2::int) ^ k \<le> 2 ^ 31"
      using assms(4) power_increasing[of k 31 "2::int"] by auto
    then have st: "size_t (sz + (2 ^ k - 1)) = sz + 2 ^ k - 1"
      using assms(2,3) by (subst size_t_id) auto
    have "smfind_free_area 0 (mp_nodes mp) (sz + 2 ^ k - 1) = None"
      using assms(6) by (simp add: smfind_free_area_None)
    then have "sm_alloc_aligned (2 ^ k) sz mp = do_smerror (get_oom_pr mp sz) (None, mp)"
      using assms(2) by (simp add: sm_alloc_aligned_def popcount_is_1_pow2[OF assms(4)] st)
    moreover have "get_oom_pr mp sz = -1" using assms(5) by (simp add: get_oom_pr_def)
    ultimately show ?thesis
      by (simp add: smalloc_aligned_def check_aligned_def node_addr_def do_smerror_def)
  qed
qed

theorem smalloc_aligned_slack_aborts_witness: "smalloc_aligned 16 64 pool64 = Inl Assert_failed"
  using smalloc_aligned_slack_aborts[OF pool64_ok(1), of 64 4]
  by (simp add: pool64_def sminit_def smget_largest_free_area_def)

text \<open>
  Growing the last area of a pool when the node before it is free:
  \<open>sm_realloc_alloc_mn\<close> reads \<open>nmn->used\<close> although there is no next node.
\<close>

theorem smrealloc_last_area_null_deref:
  assumes "pool_ok mp" "(p, old) \<in> live mp" "old < sz" "last_after_free p mp"
  shows "smrealloc p sz mp = Inl Null_deref"
proof -
  from assms(4) obtain ps f n where n: "mp_nodes mp = ps @ [f, n]" "\<not> mn_used f" "mn_used n" "mem_area n = p"
    unfolding last_after_free_def by blast
  have ns: "mp_nodes mp = (ps @ [f]) @ n # []" using n(1) by simp
  note m = pool_ok_mid(1,2)[OF assms(1) ns]
  have "mn_size n = old"
  proof -
    obtain pre n2 post where n2: "mp_nodes mp = pre @ n2 # post" "mn_used n2" "mem_area n2 = p" "mn_size n2 = old"
      using live_split[OF assms(2)] .
    then have "length pre = length (ps @ [f])"
      using find_mn_mid[OF assms(1) n2(1,2)] find_mn_mid[OF assms(1) ns n(3)] n(4) by simp
    then have "mp_nodes mp ! length pre = n" using n(1) by simp
    with n2 show ?thesis by simp
  qed
  moreover have "find_mn mp p = Some (Suc (length ps))"
    using find_mn_mid[OF assms(1) ns n(3)] n(4) by simp
  moreover have "(ps @ [f, n]) ! Suc (length ps) = n" by (simp add: nth_append)
  ultimately show ?thesis
    using m n assms(3) by (simp add: smrealloc_def can_expand_def sm_realloc_alloc_mn_def)
qed

definition pool64_last :: mempool where
  "pool64_last = pool64\<lparr>mp_avail := 54,
     mp_nodes := [\<lparr>mn_size = 54, mn_used = False, mem_area = 4096\<rparr>,
       \<lparr>mn_size = 10, mn_used = True, mem_area = 4150\<rparr>]\<rparr>"

lemma pool64_last_ok: "pool_ok pool64_last" "(4150, 10) \<in> live pool64_last" "last_after_free 4150 pool64_last"
proof -
  show "pool_ok pool64_last" "(4150, 10) \<in> live pool64_last"
    by (auto simp: pool64_last_def pool64_def sminit_def pool_ok_def smget_base_addr_def live_def)
  show "last_after_free 4150 pool64_last"
    unfolding last_after_free_def
    by (intro exI[of _ "[]"] exI[of _ "\<lparr>mn_size = 54, mn_used = False, mem_area = 4096\<rparr>"]
        exI[of _ "\<lparr>mn_size = 10, mn_used = True, mem_area = 4150\<rparr>"]) (simp add: pool64_last_def)
qed

text \<open>The witness reaches that state with one top-down allocation.\<close>

theorem smrealloc_last_area_null_deref_witness:
  "(\<exists>mp1. smalloc_topdown 10 pool64 = Inr (4150, mp1) \<and> mp_nodes mp1 = mp_nodes pool64_last) \<and>
   smrealloc 4150 20 pool64_last = Inl Null_deref"
  using smrealloc_last_area_null_deref[OF pool64_last_ok(1,2) _ pool64_last_ok(3), of 20]
  by (simp add: alloc_eval smalloc_topdown_def sm_alloc_topdown_def pool64_last_def pool64_def)

section \<open>The aligned resize\<close>

lemma find_area_inside:
  "chain a (xs @ n # ys) e \<Longrightarrow> mem_area n < ptr \<Longrightarrow> ptr < mem_area n + mn_size n \<Longrightarrow>
   find_area i (xs @ n # ys) ptr = None"
proof (induction xs arbitrary: a i)
  case Nil
  then have "chain (mem_area n + mn_size n) ys e" by simp
  with Nil show ?case by (cases ys) auto
next
  case (Cons x xs)
  then have c: "chain (a + mn_size x) (xs @ n # ys) e" "mem_area x = a" "0 < mn_size x" by auto
  moreover have "a < ptr" using chain_mid(4)[OF c(1)] c(3) Cons.prems(2) by simp
  ultimately show ?case using Cons.IH[OF c(1)] Cons.prems by simp
qed

text \<open>Reading a node through its old pointer after it was freed.\<close>

lemma stale_node:
  assumes ok: "pool_ok mp" and ns: "mp_nodes mp = released pre n post"
    and c: "chain b (pre @ n # post) e" and used: "mn_used n" and sz: "mn_size n < sz"
    and fwd: "post = [] \<or> mn_used (hd post) \<or> mn_size n + mn_size (hd post) < sz"
  shows "(case find_mn mp (mem_area n) of None \<Rightarrow> Inl Use_after_free | Some k \<Rightarrow> return_node k sz mp)
    \<in> {Inl Assert_failed, Inl Use_after_free}"
proof (cases "pool_used mp")
  case False
  then show ?thesis by (simp add: find_mn_def)
next
  case True
  have cr: "chain (smget_base_addr mp) (released pre n post) (smget_base_addr mp + mp_size mp)"
    using ok ns by (simp add: pool_ok_def)
  let ?f = "if post \<noteq> [] \<and> \<not> mn_used (hd post) then mn_size (hd post) else 0"
  let ?r = "if post \<noteq> [] \<and> \<not> mn_used (hd post) then tl post else post"
  have f: "0 \<le> ?f" using chain_mid(3)[OF c] by (cases post) auto
  show ?thesis
  proof (cases "pre \<noteq> [] \<and> \<not> mn_used (last pre)")
    case merged: True
    then obtain ps p where p: "pre = ps @ [p]" "\<not> mn_used p" by (cases pre rule: rev_cases) auto
    let ?l = "p\<lparr>mn_size := mn_size p + (mn_size n + ?f)\<rparr>"
    have r: "released pre n post = ps @ ?l # ?r" using p by (simp add: released_def Let_def)
    have "mem_area p + mn_size p = mem_area n" "0 < mn_size p" "0 < mn_size n"
      using c p by (auto simp: node_chain_append)
    then have "find_area 0 (ps @ ?l # ?r) (mem_area n) = None"
      using cr r f by (intro find_area_inside[where a = "smget_base_addr mp"]) auto
    then show ?thesis using r ns by (simp add: find_mn_def)
  next
    case False
    let ?l = "\<lparr>mn_size = mn_size n + ?f, mn_used = False, mem_area = mem_area n\<rparr>"
    have r: "released pre n post = pre @ ?l # ?r" using False by (auto simp: released_def Let_def)
    have "find_mn mp (mem_area n) = Some (length pre)"
      using find_area_mid[of "smget_base_addr mp" pre ?l ?r _ 0] cr r True ns by (simp add: find_mn_def)
    moreover have "mn_size (mp_nodes mp ! length pre) \<noteq> sz" using r ns sz fwd by auto
    ultimately show ?thesis by (simp add: return_node_def)
  qed
qed

text \<open>An allocation of \<open>sz\<close> bytes does not touch a smaller free node.\<close>

lemma alloc_at_keeps_successor:
  assumes "alloc_at q sz mp mp1" "mp_nodes mp = pre @ n # post" "mn_used n"
    and "post = [] \<or> mn_used (hd post) \<or> mn_size n + mn_size (hd post) < sz" "0 < mn_size n"
  shows "\<exists>pre2 post2. mp_nodes mp1 = pre2 @ n # post2 \<and>
    (post2 = [] \<or> mn_used (hd post2) \<or> mn_size n + mn_size (hd post2) < sz)"
proof -
  from assms(1) obtain pa f pb d c where a: "mp_nodes mp = pa @ f # pb" "\<not> mn_used f" "0 \<le> d" "d + sz \<le> mn_size f"
    "mp_nodes mp1 = pa @ carve f d sz @ pb" unfolding alloc_at_def by fastforce
  from a(1) assms(2) have "pre @ n # post = pa @ f # pb" by simp
  then consider us where "pa = pre @ n # us" "post = us @ f # pb"
    | us where "pre = pa @ f # us" "pb = us @ n # post"
    using assms(3) a(2) by (auto simp: append_eq_append_conv2 append_eq_Cons_conv Cons_eq_append_conv)
  then show ?thesis
  proof cases
    case (1 us)
    then have "us \<noteq> []" using assms(4,5) a(2-4) by auto
    with 1 assms(4) a(5) show ?thesis
      by (intro exI[of _ pre] exI[of _ "us @ carve f d sz @ pb"]) auto
  next
    case (2 us)
    with assms(4) a(5) show ?thesis
      by (intro exI[of _ "pa @ carve f d sz @ us"] exI[of _ post]) auto
  qed
qed

text \<open>
  \<open>smrealloc_aligned\<close> can never move an area: when the area has to grow and cannot
  grow in place, the call stops the process whenever the new aligned area could be
  allocated, because \<open>mn\<close> still names the freed node.
\<close>

theorem smrealloc_aligned_never_moves:
  assumes "pool_ok mp" "mp_commit mp = None" "(p, old) \<in> live mp" "old < sz" "sz < 2 ^ 63" "k \<le> 31"
    and "p mod 2 ^ k = 0"
    and "\<forall>pre n m post. mp_nodes mp = pre @ n # m # post \<longrightarrow> mem_area n = p \<longrightarrow>
           mn_used m \<or> mn_size n + mn_size m < sz"
    and "n \<in> set (mp_nodes mp)" "\<not> mn_used n" "sz + 2 ^ k - 1 \<le> mn_size n"
  shows "smrealloc_aligned p (2 ^ k) sz mp \<in> {Inl Assert_failed, Inl Use_after_free}"
proof -
  obtain pre n0 post where n0: "mp_nodes mp = pre @ n0 # post" "mn_used n0" "mem_area n0 = p" "mn_size n0 = old"
    using live_split[OF assms(3)] .
  note m = pool_ok_mid(1,2)[OF assms(1) n0(1)]
  have sz: "0 < sz" using m n0 assms(4) by simp
  have nexp: "\<not> can_expand (length pre) sz mp"
    using can_expand_mid[OF assms(1) n0(1), of sz] assms(8) n0 by (cases post) fastforce+
  have fwd: "post = [] \<or> mn_used (hd post) \<or> mn_size n0 + mn_size (hd post) < sz"
    using assms(8) n0 by (cases post) auto
  from sm_alloc_aligned_cases[OF assms(1,6) sz assms(5)] assms(9-11)
  obtain q where "alloc_outcome q sz mp (sm_alloc_aligned (2 ^ k) sz mp)" by fastforce
  then obtain j mp1 where al: "sm_alloc_aligned (2 ^ k) sz mp = Inr (Some j, mp1)" "alloc_at q sz mp mp1"
    using alloc_outcome_None[OF assms(2)] by blast
  obtain pre2 post2 where n2: "mp_nodes mp1 = pre2 @ n0 # post2"
    "post2 = [] \<or> mn_used (hd post2) \<or> mn_size n0 + mn_size (hd post2) < sz"
    using alloc_at_keeps_successor[OF al(2) n0(1,2) fwd] m(2) n0 assms(4) by auto
  let ?mp2 = "mp1\<lparr>mp_mem := mem_move (mp_mem mp1) (mem_area (mp_nodes mp1 ! j)) p old\<rparr>"
  have ok2: "pool_ok ?mp2" using alloc_at_ok(1)[OF assms(1) al(2)] by (simp add: pool_ok_def smget_base_addr_def)
  have nsm: "mp_nodes ?mp2 = pre2 @ n0 # post2" using n2 by simp
  obtain c where "smfree (mem_area n0) ?mp2 = Inr (0, ?mp2\<lparr>mp_nodes := released pre2 n0 post2,
      mp_avail := mp_avail ?mp2 + mn_size n0, mp_calls := c\<rparr>)"
    using smfree_mid[OF ok2 nsm n0(2)] .
  then obtain mp3 where f: "smfree p ?mp2 = Inr (0, mp3)" "mp_nodes mp3 = released pre2 n0 post2"
    using n0(3) by simp
  have "(p, old) \<in> live ?mp2" using nsm n0 by (auto simp: live_def)
  then have ok3: "pool_ok mp3" using smfree_live[OF ok2, of p old] f(1) by auto
  have "chain (smget_base_addr ?mp2) (pre2 @ n0 # post2) (smget_base_addr ?mp2 + mp_size ?mp2)"
    using ok2 nsm by (simp add: pool_ok_def)
  from stale_node[OF ok3 f(2) this n0(2) _ n2(2)] assms(4) n0
  have stale: "(case find_mn mp3 p of None \<Rightarrow> Inl Use_after_free | Some k \<Rightarrow> return_node k sz mp3)
    \<in> {Inl Assert_failed, Inl Use_after_free}" by simp
  have "p AND (2 ^ k - 1) = 0" using assms(7) by (simp add: int_and_mask)
  then have "smrealloc_aligned p (2 ^ k) sz mp =
      (case find_mn mp3 p of None \<Rightarrow> Inl Use_after_free | Some k \<Rightarrow> return_node k sz mp3)"
    using find_mn_mid[OF assms(1) n0(1,2)] n0 m assms(4) sz nexp al(1) f(1)
    by (simp add: smrealloc_aligned_def popcount_is_1_pow2[OF assms(6)])
  with stale show ?thesis by simp
qed

definition pool64_mid :: mempool where
  "pool64_mid = pool64\<lparr>mp_avail := 40,
     mp_nodes := [\<lparr>mn_size = 16, mn_used = True, mem_area = 4096\<rparr>,
       \<lparr>mn_size = 8, mn_used = True, mem_area = 4112\<rparr>,
       \<lparr>mn_size = 40, mn_used = False, mem_area = 4120\<rparr>]\<rparr>"

theorem smrealloc_aligned_never_moves_witness:
  "smrealloc_aligned 4096 16 24 pool64_mid \<in> {Inl Assert_failed, Inl Use_after_free}"
proof -
  have "pool_ok pool64_mid" "mp_commit pool64_mid = None" "(4096, 16) \<in> live pool64_mid"
    by (auto simp: pool64_mid_def pool64_def sminit_def pool_ok_def smget_base_addr_def live_def)
  moreover have "\<forall>pre n m post. mp_nodes pool64_mid = pre @ n # m # post \<longrightarrow> mem_area n = 4096 \<longrightarrow>
      mn_used m \<or> mn_size n + mn_size m < 24"
    by (auto simp: pool64_mid_def Cons_eq_append_conv)
  ultimately show ?thesis
    using smrealloc_aligned_never_moves[of pool64_mid 4096 16 24 4
        "\<lparr>mn_size = 40, mn_used = False, mem_area = 4120\<rparr>"] by (simp add: pool64_mid_def)
qed

section \<open>Pools of 4 GiB\<close>

text \<open>
  \<open>mntruncate\<close> keeps the size difference in an \<open>int\<close>: the first \<open>smalloc\<close> from a
  pool that is a multiple of 4 GiB larger than the request does not cut the node and fails
  the assertion on its size.
\<close>

theorem smalloc_4gib_aborts:
  assumes "0 < sz" "sz < 2 ^ 31" "0 < k" "k < 2 ^ 20"
  shows "smalloc sz (sminit start (sz + k * 2 ^ 32) mem) = Inl Assert_failed"
proof -
  have b: "sz + k * 4294967296 < 18446744073709551616" using assms by auto
  have c: "c_int (k * 4294967296) = 0" by (simp add: c_int_def mod_add_left_eq [symmetric])
  show ?thesis
    using assms b c popcount_is_1_numerals
    by (simp add: smalloc_def sm_alloc_mn_def sm_alloc_aligned_def node_addr_def sm_skip_def sm_take_def
        sm_commit_simple_def sm_commit_def do_commit_def sminit_def mntruncate_def Let_def size_t_id)
qed

theorem smalloc_4gib_aborts_witness: "smalloc 16 (sminit 4096 (16 + 1 * 2 ^ 32) (\<lambda>_. 0)) = Inl Assert_failed"
  by (rule smalloc_4gib_aborts) simp_all

end
