(* ===== verification/Bytes.thy ===== *)
theory Bytes
  imports Prelude
begin

text \<open>
  Little-endian 16- and 32-bit fields in byte memory, the way the code reads packed
  structures and disk sectors (\<open>getword\<close>, \<open>getlong\<close>, \<open>fputword\<close>, \<open>fputlong\<close>), with
  the read-over-write lemmas the components use.
\<close>

type_synonym bytes = "nat \<Rightarrow> 8 word"

definition get16 :: "bytes \<Rightarrow> nat \<Rightarrow> 16 word" where
  "get16 m a = ucast (m a) + 256 * ucast (m (a + 1))"

definition put16 :: "bytes \<Rightarrow> nat \<Rightarrow> 16 word \<Rightarrow> bytes" where
  "put16 m a w = m(a := ucast w, a + 1 := ucast (drop_bit 8 w))"

definition get32 :: "bytes \<Rightarrow> nat \<Rightarrow> 32 word" where
  "get32 m a = ucast (get16 m a) + 65536 * ucast (get16 m (a + 2))"

definition put32 :: "bytes \<Rightarrow> nat \<Rightarrow> 32 word \<Rightarrow> bytes" where
  "put32 m a w = put16 (put16 m a (ucast w)) (a + 2) (ucast (drop_bit 16 w))"

lemma unat8: "unat (w :: 8 word) < 256"
  using unsigned_less[of w, where ?'a = nat] by simp

lemma unat16: "unat (w :: 16 word) < 65536"
  using unsigned_less[of w, where ?'a = nat] by simp

lemma unat32: "unat (w :: 32 word) < 4294967296"
  using unsigned_less[of w, where ?'a = nat] by simp

lemma unat_ucast: "unat (ucast (w :: 'a :: len word) :: 'b :: len word) = unat w mod 2 ^ LENGTH('b)"
  by (simp add: unsigned_ucast_eq take_bit_eq_mod)

lemma unat_join8: "unat (ucast (l :: 8 word) + 256 * ucast (k :: 8 word) :: 16 word) = unat l + 256 * unat k"
proof -
  have l: "unat l < 256" "unat k < 256" by (rule unat8)+
  have "unat (256 * ucast k :: 16 word) = 256 * unat k"
    using l by (simp add: unat_word_ariths unat_ucast)
  then show ?thesis using l by (simp add: unat_word_ariths unat_ucast)
qed

lemma split8: "ucast (ucast w :: 8 word) + 256 * ucast (ucast (drop_bit 8 w) :: 8 word) = (w :: 16 word)"
proof -
  have b: "unat w < 65536" by (rule unat16)
  have "unat (ucast (ucast w :: 8 word) + 256 * ucast (ucast (drop_bit 8 w) :: 8 word) :: 16 word)
      = unat w mod 256 + 256 * (unat w div 256 mod 256)"
    by (simp add: unat_join8 unat_ucast drop_bit_eq_div unat_div)
  also have "\<dots> = unat w" using b by (simp add: mod_less)
  finally show ?thesis by (simp add: word_unat_eq_iff)
qed

lemma get16_put16 [simp]: "get16 (put16 m a w) a = w"
  by (simp add: get16_def put16_def split8)

lemma get16_put16_other [simp]: "b + 2 \<le> a \<or> a + 2 \<le> b \<Longrightarrow> get16 (put16 m a w) b = get16 m b"
  by (auto simp: get16_def put16_def)

lemma put16_other [simp]: "b < a \<or> a + 2 \<le> b \<Longrightarrow> put16 m a w b = m b"
  by (auto simp: put16_def)

lemma get16_cong: "m a = m' a \<Longrightarrow> m (a + 1) = m' (a + 1) \<Longrightarrow> get16 m a = get16 m' a"
  by (simp add: get16_def)

lemma unat_get16: "unat (get16 m a) = unat (m a) + 256 * unat (m (a + 1))"
  by (simp add: get16_def unat_join8)

lemma split16: "ucast (ucast w :: 16 word) + 65536 * ucast (ucast (drop_bit 16 w) :: 16 word) = (w :: 32 word)"
proof -
  have b: "unat w < 4294967296" by (rule unat32)
  let ?h = "ucast (ucast (drop_bit 16 w) :: 16 word) :: 32 word"
  have h: "unat ?h = unat w div 65536 mod 65536"
    by (simp add: unat_ucast drop_bit_eq_div unat_div)
  then have h2: "unat (65536 * ?h) = 65536 * (unat w div 65536 mod 65536)"
    by (simp add: unat_word_ariths)
  have l: "unat (ucast (ucast w :: 16 word) :: 32 word) = unat w mod 65536"
    by (simp add: unat_ucast)
  have s: "unat w mod 65536 + 65536 * (unat w div 65536 mod 65536) = unat w"
    using b by (simp add: mod_less)
  have "unat (ucast (ucast w :: 16 word) + 65536 * ?h) = (unat w mod 65536 + 65536 * (unat w div 65536 mod 65536)) mod 4294967296"
    using h2 l by (simp add: unat_word_ariths)
  also have "\<dots> = unat w" using s b by (simp only:) simp
  finally show ?thesis by (simp add: word_unat_eq_iff)
qed

lemma get32_put32 [simp]: "get32 (put32 m a w) a = w"
  by (simp add: get32_def put32_def split16)

lemma get32_put32_other [simp]: "b + 4 \<le> a \<or> a + 4 \<le> b \<Longrightarrow> get32 (put32 m a w) b = get32 m b"
  by (auto simp: get32_def put32_def)

lemma get16_put32_other [simp]: "b + 2 \<le> a \<or> a + 4 \<le> b \<Longrightarrow> get16 (put32 m a w) b = get16 m b"
  by (auto simp: put32_def)

lemma get32_put16_other [simp]: "b + 4 \<le> a \<or> a + 2 \<le> b \<Longrightarrow> get32 (put16 m a w) b = get32 m b"
  by (auto simp: get32_def)

lemma put32_other [simp]: "b < a \<or> a + 4 \<le> b \<Longrightarrow> put32 m a w b = m b"
  by (auto simp: put32_def)

end
