(* ===== verification/Errors.thy ===== *)
theory Errors
  imports Prelude
begin

text \<open>The result codes of hdr/error.h: a function of the kernel returns 0 or more on success,
  and one of the negative codes below otherwise.\<close>

definition SUCCESS :: int where "SUCCESS = 0"
definition DE_INVLDFUNC :: int where "DE_INVLDFUNC = -1"
definition DE_FILENOTFND :: int where "DE_FILENOTFND = -2"
definition DE_PATHNOTFND :: int where "DE_PATHNOTFND = -3"
definition DE_TOOMANY :: int where "DE_TOOMANY = -4"
definition DE_ACCESS :: int where "DE_ACCESS = -5"
definition DE_INVLDHNDL :: int where "DE_INVLDHNDL = -6"
definition DE_MCBDESTRY :: int where "DE_MCBDESTRY = -7"
definition DE_NOMEM :: int where "DE_NOMEM = -8"
definition DE_INVLDMCB :: int where "DE_INVLDMCB = -9"
definition DE_INVLDENV :: int where "DE_INVLDENV = -10"
definition DE_INVLDFMT :: int where "DE_INVLDFMT = -11"
definition DE_INVLDACC :: int where "DE_INVLDACC = -12"
definition DE_INVLDDATA :: int where "DE_INVLDDATA = -13"
definition DE_INVLDDRV :: int where "DE_INVLDDRV = -15"
definition DE_RMVCUDIR :: int where "DE_RMVCUDIR = -16"
definition DE_DEVICE :: int where "DE_DEVICE = -17"
definition DE_NFILES :: int where "DE_NFILES = -18"
definition DE_WRTPRTCT :: int where "DE_WRTPRTCT = -19"
definition DE_BLKINVLD :: int where "DE_BLKINVLD = -20"
definition DE_INVLDBUF :: int where "DE_INVLDBUF = -24"
definition DE_SEEK :: int where "DE_SEEK = -25"
definition DE_HNDLDSKFULL :: int where "DE_HNDLDSKFULL = -28"
definition DE_INVLDPARM :: int where "DE_INVLDPARM = -0x57"
definition DE_SHARING :: int where "DE_SHARING = -32"
definition DE_LOCK :: int where "DE_LOCK = -33"
definition DE_FILEEXISTS :: int where "DE_FILEEXISTS = -80"

lemmas rc_defs = SUCCESS_def DE_INVLDFUNC_def DE_MCBDESTRY_def DE_NOMEM_def DE_INVLDMCB_def

lemmas de_defs = SUCCESS_def DE_INVLDFUNC_def DE_FILENOTFND_def DE_PATHNOTFND_def DE_TOOMANY_def DE_ACCESS_def DE_INVLDHNDL_def DE_MCBDESTRY_def DE_NOMEM_def DE_INVLDMCB_def DE_INVLDENV_def DE_INVLDFMT_def DE_INVLDACC_def DE_INVLDDATA_def DE_INVLDDRV_def DE_RMVCUDIR_def DE_DEVICE_def DE_NFILES_def DE_WRTPRTCT_def DE_BLKINVLD_def DE_INVLDBUF_def DE_SEEK_def DE_HNDLDSKFULL_def DE_INVLDPARM_def DE_SHARING_def DE_LOCK_def DE_FILEEXISTS_def

end
