(* ===== verification/Hma.thy ===== *)
theory Hma
  imports Bytes Errors
begin

text \<open>
  The high memory area: the manager of kernel/hmamgr.c, its multiplex interface in
  \<open>int2F_12_handler\<close> (kernel/inthndlr.c, function 4Ah) and the bump allocator
  \<open>HMAalloc\<close> of kernel/inithma.c.

  The segment FFFFh is byte memory indexed by offset. A far pointer into it is its 16-bit
  offset, so \<open>nxtMCBsize\<close> wraps as \<open>MK_FP\<close> does. \<open>MCBDESTRY\<close> reports to the
  host and yields \<open>DE_MCBDESTRY\<close>; the model keeps the value. The loops over the chain
  are partial functions to \<open>option\<close>: \<open>None\<close> is a loop that does not end. The memory
  protection hints (\<open>fd_prot_mem\<close>, \<open>fd_mark_mem\<close>) do not change memory and are left
  out.
\<close>

section \<open>State\<close>

record hma =
  cu_psp :: "16 word"
  HMAclaimed :: bool
  hmem :: bytes

definition HMCB_SIG :: "16 word" where "HMCB_SIG = 0x534d"

definition h_sig :: "bytes \<Rightarrow> 16 word \<Rightarrow> 16 word" where "h_sig m p = get16 m (unat p)"
definition h_owner :: "bytes \<Rightarrow> 16 word \<Rightarrow> 16 word" where "h_owner m p = get16 m (unat p + 2)"
definition h_size :: "bytes \<Rightarrow> 16 word \<Rightarrow> 16 word" where "h_size m p = get16 m (unat p + 4)"
definition h_next :: "bytes \<Rightarrow> 16 word \<Rightarrow> 16 word" where "h_next m p = get16 m (unat p + 6)"

definition set_owner :: "16 word \<Rightarrow> 16 word \<Rightarrow> bytes \<Rightarrow> bytes" where "set_owner p w m = put16 m (unat p + 2) w"
definition set_size :: "16 word \<Rightarrow> 16 word \<Rightarrow> bytes \<Rightarrow> bytes" where "set_size p w m = put16 m (unat p + 4) w"
definition set_next :: "16 word \<Rightarrow> 16 word \<Rightarrow> bytes \<Rightarrow> bytes" where "set_next p w m = put16 m (unat p + 6) w"

definition init_mcb :: "16 word \<Rightarrow> bytes \<Rightarrow> bytes" where
  "init_mcb p m = put16 (\<lambda>x. if unat p \<le> x \<and> x < unat p + 16 then 0 else m x) (unat p) HMCB_SIG"

definition nxtMCBsize :: "16 word \<Rightarrow> 16 word \<Rightarrow> 16 word" where
  "nxtMCBsize p sz = p + sz + 16"

definition nxtMCBsizeTd :: "bytes \<Rightarrow> 16 word \<Rightarrow> 16 word \<Rightarrow> 16 word" where
  "nxtMCBsizeTd m p sz = p + h_size m p - sz"

definition FIRST_MCB :: "16 word" where "FIRST_MCB = 0x10"

section \<open>The manager\<close>

partial_function (option) hma_joinMCBs :: "16 word \<Rightarrow> bytes \<Rightarrow> (int \<times> bytes) option" where
  "hma_joinMCBs p m =
     (if h_next m p = 0 then Some (SUCCESS, m)
      else let q = h_next m p in
        if h_owner m q \<noteq> 0 then Some (SUCCESS, m)
        else if h_sig m q \<noteq> HMCB_SIG then Some (DE_MCBDESTRY, m)
        else let m1 = set_next p (h_next m q) m;
                 m2 = set_size p (h_size m1 p + h_size m1 q + 16) m1
             in hma_joinMCBs p (set_size q 0xffff m2))"

text \<open>The search loop of \<open>DosHMAAlloc\<close>: a status, and the block when it is \<open>SUCCESS\<close>.\<close>

partial_function (option) hma_search :: "16 word \<Rightarrow> 16 word \<Rightarrow> bytes \<Rightarrow> (int \<times> 16 word \<times> bytes) option" where
  "hma_search sz p m =
     (if h_sig m p \<noteq> HMCB_SIG then Some (DE_MCBDESTRY, p, m)
      else case (if h_owner m p = 0 then hma_joinMCBs p m else Some (SUCCESS, m)) of
        None \<Rightarrow> None
      | Some (rc, m1) \<Rightarrow>
          if rc \<noteq> SUCCESS then Some (DE_MCBDESTRY, p, m1)
          else if h_owner m p = 0 \<and> sz \<le> h_size m1 p then Some (SUCCESS, p, m1)
          else if h_next m1 p = 0 then Some (DE_NOMEM, p, m1)
          else hma_search sz (h_next m1 p) m1)"

definition hma_split :: "16 word \<Rightarrow> bool \<Rightarrow> 16 word \<Rightarrow> bytes \<Rightarrow> 16 word \<times> bytes" where
  "hma_split sz topdown f m =
     (if sz = h_size m f then (f, m)
      else
        let p = (if topdown then nxtMCBsizeTd m f sz else nxtMCBsize f sz);
            m1 = init_mcb p m;
            m2 = set_next p (h_next m1 f) m1;
            m3 = set_size p (if topdown then sz else h_size m2 f - sz - 16) m2;
            m4 = set_next f p m3;
            m5 = set_owner p 0 m4;
            m6 = set_size f (if topdown then h_size m5 f - (sz + 16) else sz) m5
        in (if topdown then p else f, m6))"

definition DosHMAAlloc :: "16 word \<Rightarrow> bool \<Rightarrow> 'a hma_scheme \<Rightarrow> (int \<times> 16 word option \<times> 'a hma_scheme) option" where
  "DosHMAAlloc sz topdown s =
     (if \<not> HMAclaimed s then Some (DE_NOMEM, None, s)
      else case hma_search sz FIRST_MCB (hmem s) of
        None \<Rightarrow> None
      | Some (rc, f, m) \<Rightarrow>
          if rc \<noteq> SUCCESS then Some (rc, None, s\<lparr>hmem := m\<rparr>)
          else case hma_split sz topdown f m of (g, m1) \<Rightarrow>
            Some (SUCCESS, Some (g + 16), s\<lparr>hmem := set_owner g (cu_psp s) m1\<rparr>))"

definition DosHMAFree :: "16 word \<Rightarrow> 'a hma_scheme \<Rightarrow> (int \<times> 'a hma_scheme) option" where
  "DosHMAFree off s =
     (if \<not> HMAclaimed s then Some (DE_NOMEM, s)
      else if off = 0 then Some (DE_INVLDMCB, s)
      else let p = off - 16 in
        if h_sig (hmem s) p \<noteq> HMCB_SIG then Some (DE_INVLDMCB, s)
        else if h_owner (hmem s) p = 0 then Some (SUCCESS, s)
        else case hma_joinMCBs p (set_owner p 0 (hmem s)) of
          None \<Rightarrow> None
        | Some (rc, m) \<Rightarrow> Some (if rc \<noteq> SUCCESS then DE_MCBDESTRY else SUCCESS, s\<lparr>hmem := m\<rparr>))"

definition hma_cut :: "16 word \<Rightarrow> 16 word \<Rightarrow> bytes \<Rightarrow> (int \<times> bytes) option" where
  "hma_cut p sz m =
     (if h_size m p \<le> sz then Some (SUCCESS, m)
      else
        let q = nxtMCBsize p sz;
            m1 = init_mcb q m;
            m2 = set_size q (h_size m1 p - sz - 16) m1;
            m3 = set_next q (h_next m2 p) m2;
            m4 = set_next p q (set_size p sz m3)
        in hma_joinMCBs q (set_owner q 0 m4))"

definition DosHMAChange :: "16 word \<Rightarrow> 16 word \<Rightarrow> 'a hma_scheme \<Rightarrow> (int \<times> 'a hma_scheme) option" where
  "DosHMAChange off sz s =
     (if \<not> HMAclaimed s then Some (DE_NOMEM, s)
      else if sz = 0 then DosHMAFree (off - 16) s
      else let p = off - 16 in
        if h_sig (hmem s) p \<noteq> HMCB_SIG then Some (DE_INVLDMCB, s)
        else case (if h_size (hmem s) p < sz then hma_joinMCBs p (hmem s) else Some (SUCCESS, hmem s)) of
          None \<Rightarrow> None
        | Some (rc, m) \<Rightarrow>
            if rc \<noteq> SUCCESS then Some (DE_MCBDESTRY, s\<lparr>hmem := m\<rparr>)
            else if h_size m p < sz then Some (DE_NOMEM, s\<lparr>hmem := m\<rparr>)
            else case hma_cut p sz m of
              None \<Rightarrow> None
            | Some (rc, m1) \<Rightarrow>
                if rc \<noteq> SUCCESS then Some (DE_MCBDESTRY, s\<lparr>hmem := m1\<rparr>)
                else Some (SUCCESS, s\<lparr>hmem := set_owner p (cu_psp s) m1\<rparr>))"

partial_function (option) hma_check :: "16 word \<Rightarrow> bytes \<Rightarrow> int option" where
  "hma_check p m =
     (if h_next m p = 0 then Some SUCCESS
      else if h_sig m p \<noteq> HMCB_SIG then Some DE_MCBDESTRY
      else hma_check (h_next m p) m)"

definition DosHMACheck :: "'a hma_scheme \<Rightarrow> int option" where
  "DosHMACheck s = (if \<not> HMAclaimed s then Some SUCCESS else hma_check FIRST_MCB (hmem s))"

partial_function (option) hma_last :: "16 word \<Rightarrow> bytes \<Rightarrow> (int \<times> 16 word) option" where
  "hma_last p m =
     (if h_next m p = 0 then Some (SUCCESS, p)
      else if h_sig m p \<noteq> HMCB_SIG then Some (DE_MCBDESTRY, p)
      else hma_last (h_next m p) m)"

text \<open>\<open>DosHMAQuery\<close>: the status, \<open>*off\<close> and \<open>*avail\<close>.\<close>

definition DosHMAQuery :: "'a hma_scheme \<Rightarrow> (int \<times> (16 word \<times> 16 word) option) option" where
  "DosHMAQuery s =
     (if \<not> HMAclaimed s then Some (DE_NOMEM, None)
      else case hma_last FIRST_MCB (hmem s) of
        None \<Rightarrow> None
      | Some (rc, p) \<Rightarrow>
          if rc \<noteq> SUCCESS then Some (rc, None) else Some (SUCCESS, Some (p, h_size (hmem s) p)))"

partial_function (option) hma_free_owner ::
    "16 word \<Rightarrow> 16 word \<Rightarrow> 'a hma_scheme \<Rightarrow> (int \<times> 'a hma_scheme) option" where
  "hma_free_owner ps p s =
     (if h_sig (hmem s) p \<noteq> HMCB_SIG then Some (DE_MCBDESTRY, s)
      else case (if h_owner (hmem s) p = ps then DosHMAFree p s else Some (SUCCESS, s)) of
        None \<Rightarrow> None
      | Some (_, s1) \<Rightarrow>
          if h_next (hmem s1) p = 0 then Some (SUCCESS, s1)
          else hma_free_owner ps (h_next (hmem s1) p) s1)"

definition FreeProcessHMA :: "16 word \<Rightarrow> 'a hma_scheme \<Rightarrow> (int \<times> 'a hma_scheme) option" where
  "FreeProcessHMA ps s =
     (if \<not> HMAclaimed s then Some (SUCCESS, s) else hma_free_owner ps FIRST_MCB s)"

definition HMAInitFirstMcb :: "16 word \<Rightarrow> 'a hma_scheme \<Rightarrow> 'a hma_scheme" where
  "HMAInitFirstMcb off s =
     (let m1 = set_size off (word_of_int (0x10000 - uint off - 0x10)) (init_mcb off (hmem s));
          m2 = (if 0x20 < off
                then set_next FIRST_MCB off
                       (set_size FIRST_MCB (off - 0x20)
                         (set_owner FIRST_MCB 0xffff (init_mcb FIRST_MCB m1)))
                else m1)
      in s\<lparr>hmem := m2\<rparr>)"

declare hma_joinMCBs.simps [simp del] hma_search.simps [simp del] hma_check.simps [simp del]
  hma_last.simps [simp del] hma_free_owner.simps [simp del]

section \<open>The multiplex interface\<close>

text \<open>
  Function 4Ah of interrupt 2Fh, for the subfunctions 1 to 4 (for another one the code tests
  a status it never set; the model has no answer). The answer is the registers \<open>AX\<close> (unless kept), \<open>BX\<close>,
  \<open>DI\<close>; \<open>ES\<close> is FFFFh. \<open>ClaimHMA\<close> talks to the XMS driver, so its answer
  \<open>claim\<close> is an argument; when it succeeds it sets \<open>HMAclaimed\<close>.
\<close>

record hma_regs =
  r_ax :: "16 word"
  r_bx :: "16 word"
  r_dx :: "16 word"
  r_di :: "16 word"
  r_es :: "16 word"

definition para_align :: "16 word \<Rightarrow> 16 word" where
  "para_align n = (n + 0xf) AND 0xfff0"

definition set_claimed :: "bool \<Rightarrow> 'a hma_scheme \<Rightarrow> 'a hma_scheme" where
  "set_claimed claim s =
     (if \<not> HMAclaimed s \<and> claim then HMAInitFirstMcb 0x10 (s\<lparr>HMAclaimed := True\<rparr>) else s)"

definition hma_finish :: "int \<Rightarrow> hma_regs \<Rightarrow> hma_regs" where
  "hma_finish rc r = (if rc < SUCCESS then r\<lparr>r_di := 0xffff, r_bx := 0\<rparr> else r)"

definition hma_alloc_call :: "16 word \<Rightarrow> bool \<Rightarrow> hma_regs \<Rightarrow> 'a hma_scheme \<Rightarrow> (hma_regs \<times> 'a hma_scheme) option" where
  "hma_alloc_call n topdown r s =
     (case DosHMAAlloc n topdown s of
        None \<Rightarrow> None
      | Some (rc, di, s1) \<Rightarrow>
          Some (hma_finish rc (r\<lparr>r_bx := n, r_di := (case di of None \<Rightarrow> r_di r | Some d \<Rightarrow> d)\<rparr>), s1))"

definition int2F_4A :: "bool \<Rightarrow> hma_regs \<Rightarrow> 'a hma_scheme \<Rightarrow> (hma_regs \<times> 'a hma_scheme) option" where
  "int2F_4A claim r0 s =
     (let r = r0\<lparr>r_es := 0xffff\<rparr>; al = r_ax r AND 0xff; dl = r_dx r AND 0xff in
      if al = 1 then
        (case DosHMAQuery s of
           None \<Rightarrow> None
         | Some (rc, None) \<Rightarrow> Some (hma_finish rc r, s)
         | Some (rc, Some (off, avail)) \<Rightarrow> Some (hma_finish rc (r\<lparr>r_di := off, r_bx := avail\<rparr>), s))
      else if al = 2 then
        (case DosHMAQuery s of
           None \<Rightarrow> None
         | Some (rc, None) \<Rightarrow> Some (hma_finish rc r, s)
         | Some (rc, Some (off, avail)) \<Rightarrow>
             hma_alloc_call (min (para_align (r_bx r)) avail) False r s)
      else if al = 3 then
        (if \<not> HMAclaimed s \<and> \<not> claim then Some (hma_finish DE_NOMEM r, s)
         else let s1 = set_claimed claim s in
           if dl = 0 \<or> dl = 1 then hma_alloc_call (para_align (r_bx r)) (dl = 1) r s1
           else if dl = 2 then
             (case DosHMAFree (r_di r) s1 of None \<Rightarrow> None | Some (rc, s2) \<Rightarrow> Some (hma_finish rc r, s2))
           else Some (hma_finish DE_INVLDFUNC r, s1))
      else if al = 4 then
        (if \<not> HMAclaimed s \<and> \<not> claim then Some (hma_finish DE_NOMEM r, s)
         else Some (hma_finish SUCCESS (r\<lparr>r_ax := 0, r_di := 0x10\<rparr>), set_claimed claim s))
      else None)"

section \<open>The boot-time allocator\<close>

text \<open>\<open>HMAalloc\<close> after the HMA is claimed; \<open>HMAFree\<close> is a 32-bit \<open>LONG\<close> and stays below
  \<open>0x10000\<close> plus 15. Zero-filling the area is the byte map's update.\<close>

definition HMAalloc :: "16 word \<Rightarrow> int \<Rightarrow> 'a hma_scheme \<Rightarrow> 16 word \<times> int \<times> 'a hma_scheme" where
  "HMAalloc bytes HMAFree s =
     (if \<not> HMAclaimed s \<or> bytes = 0 then (0xffff, HMAFree, s)
      else if 0x10000 - uint bytes < HMAFree then (0xffff, HMAFree, s)
      else
        let p = (word_of_int HMAFree :: 16 word) in
        (p, (HMAFree + uint bytes + 0xf) AND 0x1fff0,
         s\<lparr>hmem := (\<lambda>x. if unat p \<le> x \<and> x < unat p + unat bytes then 0 else hmem s x)\<rparr>))"

end
