(* ===== verification/Blocks.thy ===== *)
theory Blocks
  imports Prelude
begin

text \<open>
  Chains of memory blocks, each introduced by a header: the common ground of the DOS
  memory manager (kernel/memmgr.c, headers of one paragraph) and of the HMA manager
  (kernel/hmamgr.c, headers of 16 bytes).

  A view \<open>v\<close> reads the header at an address: \<open>Some (b, l)\<close> for a valid header of
  block \<open>b\<close>, with \<open>l\<close> set for the last one. \<open>chain h lim v a bs\<close> says that the
  headers met from \<open>a\<close> on describe exactly the blocks \<open>bs\<close>, that these follow one
  another without a gap and that they end by \<open>lim\<close>. The header size is \<open>h\<close>.
\<close>

datatype blk = Blk (bsize: nat) (bowner: "16 word")

abbreviation is_free :: "blk \<Rightarrow> bool" where
  "is_free b \<equiv> bowner b = 0"

type_synonym view = "nat \<Rightarrow> (blk \<times> bool) option"

fun chain :: "nat \<Rightarrow> nat \<Rightarrow> view \<Rightarrow> nat \<Rightarrow> blk list \<Rightarrow> bool" where
  "chain h lim v a [] \<longleftrightarrow> False"
| "chain h lim v a (b # bs) \<longleftrightarrow>
     0 < a \<and> a + h + bsize b \<le> lim \<and> v a = Some (b, bs = []) \<and>
     (bs \<noteq> [] \<longrightarrow> chain h lim v (a + h + bsize b) bs)"

fun span :: "nat \<Rightarrow> blk list \<Rightarrow> nat" where
  "span h [] = 0"
| "span h (b # bs) = h + bsize b + span h bs"

text \<open>The initial part of a chain: blocks that all have a successor.\<close>

fun run_up :: "nat \<Rightarrow> view \<Rightarrow> nat \<Rightarrow> blk list \<Rightarrow> bool" where
  "run_up h v a [] \<longleftrightarrow> True"
| "run_up h v a (b # bs) \<longleftrightarrow> 0 < a \<and> v a = Some (b, False) \<and> run_up h v (a + h + bsize b) bs"

text \<open>The areas in use: address, size and owner.\<close>

fun used :: "nat \<Rightarrow> nat \<Rightarrow> blk list \<Rightarrow> (nat \<times> nat \<times> 16 word) set" where
  "used h a [] = {}"
| "used h a (b # bs) =
     (if is_free b then {} else {(a + h, bsize b, bowner b)}) \<union> used h (a + h + bsize b) bs"

text \<open>The effect of joining a block with the free blocks that follow it, and of doing so
  with every free block.\<close>

fun absorb :: "nat \<Rightarrow> blk \<Rightarrow> blk list \<Rightarrow> blk list" where
  "absorb h b [] = [b]"
| "absorb h b (c # cs) =
     (if is_free c then absorb h (Blk (bsize b + h + bsize c) (bowner b)) cs else b # c # cs)"

fun coalesce :: "nat \<Rightarrow> blk list \<Rightarrow> blk list" where
  "coalesce h [] = []"
| "coalesce h (b # bs) =
     (case coalesce h bs of
        [] \<Rightarrow> [b]
      | c # cs \<Rightarrow> if is_free b \<and> is_free c then Blk (bsize b + h + bsize c) 0 # cs else b # c # cs)"

definition fits :: "nat \<Rightarrow> blk \<Rightarrow> bool" where
  "fits n b \<longleftrightarrow> is_free b \<and> n \<le> bsize b"

section \<open>Chains\<close>

lemma chain_append:
  "chain h lim v a (xs @ b # bs) \<longleftrightarrow> run_up h v a xs \<and> chain h lim v (a + span h xs) (b # bs)"
  by (induction xs arbitrary: a) (auto simp: add.assoc)

lemma chain_nonempty: "chain h lim v a bs \<Longrightarrow> bs \<noteq> []"
  by auto

lemma chain_pos: "chain h lim v a bs \<Longrightarrow> 0 < a"
  by (cases bs) auto

lemma chain_end: "chain h lim v a bs \<Longrightarrow> a + span h bs \<le> lim"
proof (induction bs arbitrary: a)
  case (Cons b bs)
  then show ?case by (cases "bs = []") (force simp: add.assoc)+
qed simp

lemma chain_fits: "chain h lim v a bs \<Longrightarrow> b \<in> set bs \<Longrightarrow> bsize b + h < lim \<and> 0 < lim"
  by (induction bs arbitrary: a) auto

lemma chain_cong:
  assumes "chain h lim v a bs" "\<And>x. a \<le> x \<Longrightarrow> x + h \<le> a + span h bs \<Longrightarrow> v' x = v x"
  shows "chain h lim v' a bs"
  using assms
proof (induction bs arbitrary: a)
  case (Cons b bs)
  have "v' a = v a" using Cons.prems by simp
  moreover have "bs \<noteq> [] \<Longrightarrow> chain h lim v' (a + h + bsize b) bs"
    using Cons.prems by (intro Cons.IH) auto
  ultimately show ?case using Cons.prems(1) by auto
qed simp

lemma run_up_cong:
  assumes "run_up h v a bs" "\<And>x. a \<le> x \<Longrightarrow> x + h \<le> a + span h bs \<Longrightarrow> v' x = v x"
  shows "run_up h v' a bs"
  using assms
proof (induction bs arbitrary: a)
  case (Cons b bs)
  have "v' a = v a" using Cons.prems by simp
  moreover have "run_up h v' (a + h + bsize b) bs"
    using Cons.prems by (intro Cons.IH) auto
  ultimately show ?case using Cons.prems(1) by auto
qed simp

lemma span_append [simp]: "span h (xs @ ys) = span h xs + span h ys"
  by (induction xs) auto

lemma chain_determ: "chain h lim v a bs \<Longrightarrow> chain h lim v a cs \<Longrightarrow> bs = cs"
proof (induction bs arbitrary: a cs)
  case (Cons b bs)
  then obtain c cs' where "cs = c # cs'" by (cases cs) auto
  with Cons show ?case by (cases "bs = []") auto
qed simp

lemma used_append [simp]: "used h a (xs @ ys) = used h a xs \<union> used h (a + span h xs) ys"
  by (induction xs arbitrary: a) (auto simp: add.assoc)

lemma used_bounds: "(p, n, w) \<in> used h a bs \<Longrightarrow> a + h \<le> p \<and> p + n \<le> a + span h bs \<and> w \<noteq> 0"
  by (induction bs arbitrary: a) (fastforce split: if_splits)+

lemma used_disjoint:
  assumes "(p, n, w) \<in> used h a bs" "(q, m, u) \<in> used h a bs"
  shows "(p, n, w) = (q, m, u) \<or> p + n + h \<le> q \<or> q + m + h \<le> p"
  using assms
proof (induction bs arbitrary: a)
  case (Cons b bs)
  let ?t = "used h (a + h + bsize b) bs"
  have "(p, n, w) \<in> ?t \<Longrightarrow> (q, m, u) \<in> ?t \<Longrightarrow> ?case" using Cons.IH by blast
  moreover have "(p, n, w) \<in> ?t \<Longrightarrow> (q, m, u) \<notin> ?t \<Longrightarrow> ?case"
    using Cons.prems used_bounds[of p n w h "a + h + bsize b" bs] by (auto split: if_splits)
  moreover have "(p, n, w) \<notin> ?t \<Longrightarrow> (q, m, u) \<in> ?t \<Longrightarrow> ?case"
    using Cons.prems used_bounds[of q m u h "a + h + bsize b" bs] by (auto split: if_splits)
  moreover have "(p, n, w) \<notin> ?t \<Longrightarrow> (q, m, u) \<notin> ?t \<Longrightarrow> ?case"
    using Cons.prems by (auto split: if_splits)
  ultimately show ?case by blast
qed simp

lemma used_free: "\<forall>b \<in> set bs. is_free b \<Longrightarrow> used h a bs = {}"
  by (induction bs arbitrary: a) auto

lemma used_split:
  assumes "(p, n, w) \<in> used h a bs"
  obtains xs b ys where "bs = xs @ b # ys" "p = a + span h xs + h" "bsize b = n" "bowner b = w" "w \<noteq> 0"
proof -
  have "\<exists>xs b ys. bs = xs @ b # ys \<and> p = a + span h xs + h \<and> bsize b = n \<and> bowner b = w \<and> w \<noteq> 0"
    using assms
  proof (induction bs arbitrary: a)
    case (Cons b bs)
    show ?case
    proof (cases "(p, n, w) \<in> used h (a + h + bsize b) bs")
      case True
      from Cons.IH[OF this] obtain xs c ys where
        "bs = xs @ c # ys" "p = a + h + bsize b + span h xs + h" "bsize c = n" "bowner c = w" "w \<noteq> 0"
        by blast
      then show ?thesis by (intro exI[of _ "b # xs"] exI[of _ c] exI[of _ ys]) simp
    next
      case False
      with Cons.prems show ?thesis
        by (intro exI[of _ "[]"] exI[of _ b] exI[of _ bs]) (auto split: if_splits)
    qed
  qed simp
  with that show ?thesis by blast
qed

section \<open>Joining free blocks\<close>

lemma absorb_split:
  "\<exists>fs cs. bs = fs @ cs \<and> (\<forall>f \<in> set fs. is_free f) \<and> (cs = [] \<or> \<not> is_free (hd cs)) \<and>
     absorb h b bs = Blk (bsize b + span h fs) (bowner b) # cs"
proof (induction bs arbitrary: b)
  case Nil
  then show ?case by (cases b) simp
next
  case (Cons c bs)
  show ?case
  proof (cases "is_free c")
    case True
    from Cons.IH[of "Blk (bsize b + h + bsize c) (bowner b)"] obtain fs cs where
      "bs = fs @ cs" "\<forall>f \<in> set fs. is_free f" "cs = [] \<or> \<not> is_free (hd cs)"
      "absorb h (Blk (bsize b + h + bsize c) (bowner b)) bs = Blk (bsize b + h + bsize c + span h fs) (bowner b) # cs"
      by auto
    with True show ?thesis by (intro exI[of _ "c # fs"] exI[of _ cs]) (auto simp: add.assoc)
  next
    case False
    then show ?thesis by (intro exI[of _ "[]"] exI[of _ "c # bs"]) (cases b; simp)
  qed
qed

lemma absorb_Cons: "\<exists>x xs. absorb h b bs = x # xs \<and> bowner x = bowner b \<and> bsize b \<le> bsize x \<and> length xs \<le> length bs"
  using absorb_split[of bs h b] by auto

lemma span_absorb [simp]: "span h (absorb h b bs) = h + bsize b + span h bs"
  by (induction bs arbitrary: b) auto

lemma used_absorb: "is_free b \<Longrightarrow> used h a (absorb h b bs) = used h a (b # bs)"
  by (induction bs arbitrary: b) (auto simp: add.assoc)

lemma coalesce_join:
  assumes "is_free b" "is_free c"
  shows "coalesce h (b # c # bs) = coalesce h (Blk (bsize b + h + bsize c) 0 # bs)"
  using assms by (cases "coalesce h bs") auto

lemma coalesce_used: "\<not> is_free b \<Longrightarrow> coalesce h (b # bs) = b # coalesce h bs"
  by (auto split: list.splits)

lemma coalesce_before_used: "\<not> is_free c \<Longrightarrow> coalesce h (b # c # bs) = b # coalesce h (c # bs)"
  by (cases "coalesce h bs") auto

lemma absorb_coalesce:
  assumes "is_free b" "absorb h b bs = x # xs"
  shows "coalesce h (b # bs) = x # coalesce h xs"
  using assms
proof (induction bs arbitrary: b)
  case (Cons c bs)
  show ?case
  proof (cases "is_free c")
    case True
    let ?d = "Blk (bsize b + h + bsize c) (bowner b)"
    have "coalesce h (?d # bs) = x # coalesce h xs"
      using Cons.IH[of ?d] Cons.prems True by simp
    with coalesce_join[OF Cons.prems(1) True, of h bs] Cons.prems(1) show ?thesis
      by (metis)
  next
    case False
    then have "x = b" "xs = c # bs" using Cons.prems by auto
    then show ?thesis by (simp only: coalesce_before_used[OF False])
  qed
qed simp

lemma used_coalesce [simp]: "used h a (coalesce h bs) = used h a bs"
proof (induction bs arbitrary: a)
  case (Cons b bs)
  have ih: "used h (a + h + bsize b) (coalesce h bs) = used h (a + h + bsize b) bs" by (rule Cons.IH)
  show ?case
  proof (cases "coalesce h bs")
    case (Cons c cs)
    with ih[symmetric] show ?thesis by (simp add: add.assoc)
  qed (use ih in simp)
qed simp

lemma span_coalesce [simp]: "span h (coalesce h bs) = span h bs"
proof (induction bs)
  case (Cons b bs)
  then show ?case by (cases "coalesce h bs") simp_all
qed simp

lemma coalesce_nonempty [simp]: "coalesce h bs = [] \<longleftrightarrow> bs = []"
  by (cases bs) (auto split: list.splits)

text \<open>Without two free neighbours there is nothing to join.\<close>

fun tight :: "blk list \<Rightarrow> bool" where
  "tight (b # c # bs) \<longleftrightarrow> \<not> (is_free b \<and> is_free c) \<and> tight (c # bs)"
| "tight _ \<longleftrightarrow> True"

lemma tight_coalesce: "tight (coalesce h bs)"
proof (induction bs)
  case (Cons b bs)
  show ?case
  proof (cases "coalesce h bs")
    case (Cons c cs)
    with Cons.IH show ?thesis by (cases cs) auto
  qed simp
qed simp

lemma coalesce_tight: "tight bs \<Longrightarrow> coalesce h bs = bs"
  by (induction bs rule: tight.induct) auto

lemma coalesce_idem [simp]: "coalesce h (coalesce h bs) = coalesce h bs"
  by (rule coalesce_tight[OF tight_coalesce])

section \<open>Searching\<close>

definition sizes_dvd :: "nat \<Rightarrow> blk list \<Rightarrow> bool" where
  "sizes_dvd h bs \<longleftrightarrow> (\<forall>b \<in> set bs. h dvd bsize b)"

lemma sizes_dvd_simps [simp]:
  "sizes_dvd h []" "sizes_dvd h (b # bs) \<longleftrightarrow> h dvd bsize b \<and> sizes_dvd h bs"
  "sizes_dvd h (xs @ ys) \<longleftrightarrow> sizes_dvd h xs \<and> sizes_dvd h ys"
  by (auto simp: sizes_dvd_def)

text \<open>\<open>found h n bs pre b post\<close>: joining the free blocks of \<open>bs\<close> up to \<open>b\<close> gives
  \<open>pre @ b # post\<close>, and \<open>b\<close> is the first free block of at least \<open>n\<close>.\<close>

definition found :: "nat \<Rightarrow> nat \<Rightarrow> blk list \<Rightarrow> blk list \<Rightarrow> blk \<Rightarrow> blk list \<Rightarrow> bool" where
  "found h n bs pre b post \<longleftrightarrow>
     coalesce h (pre @ b # post) = coalesce h bs \<and> fits n b \<and> (\<forall>x \<in> set pre. \<not> fits n x) \<and>
     (sizes_dvd h bs \<longrightarrow> sizes_dvd h (pre @ b # post))"

lemma sizes_dvd_absorb: "sizes_dvd h (b # bs) \<Longrightarrow> sizes_dvd h (absorb h b bs)"
proof (induction bs arbitrary: b)
  case (Cons c bs)
  then have "h dvd bsize b + h + bsize c" by simp
  with Cons.prems Cons.IH[of "Blk (bsize b + h + bsize c) (bowner b)"] show ?case by simp
qed simp

lemma coalesce_absorbed:
  assumes "is_free b" "absorb h b bs = x # xs"
  shows "coalesce h (b # bs) = x # coalesce h xs" "coalesce h (x # xs) = x # coalesce h xs"
proof -
  show 1: "coalesce h (b # bs) = x # coalesce h xs" by (rule absorb_coalesce[OF assms])
  from absorb_split[of bs h b] assms(2) have "xs = [] \<or> \<not> is_free (hd xs)" by auto
  then show "coalesce h (x # xs) = x # coalesce h xs"
    using coalesce_before_used by (cases xs) fastforce+
qed

text \<open>Only the headers of a chain matter to it.\<close>

lemma chain_cong_headers:
  assumes "chain h lim v a bs"
    "\<And>pre b post. bs = pre @ b # post \<Longrightarrow> v' (a + span h pre) = v (a + span h pre)"
  shows "chain h lim v' a bs"
  using assms
proof (induction bs arbitrary: a)
  case (Cons b bs)
  have "v' a = v a" using Cons.prems(2)[of "[]" b bs] by simp
  moreover have "chain h lim v' (a + h + bsize b) bs" if "bs \<noteq> []"
  proof (rule Cons.IH)
    show "chain h lim v (a + h + bsize b) bs" using Cons.prems(1) that by simp
    show "v' (a + h + bsize b + span h pre) = v (a + h + bsize b + span h pre)" if "bs = pre @ c # post" for pre c post
      using Cons.prems(2)[of "b # pre" c post] that by (simp add: add.assoc)
  qed
  ultimately show ?case using Cons.prems(1) by simp
qed simp

section \<open>Replacing a block\<close>

lemma chain_at:
  "chain h lim v a (pre @ b # post) \<Longrightarrow>
     v (a + span h pre) = Some (b, post = []) \<and> 0 < a + span h pre \<and> a + span h pre + h + bsize b \<le> lim"
  by (auto simp: chain_append)

lemma chain_splice1:
  assumes c: "chain h lim v a (pre @ b # post)" and A: "A = a + span h pre"
    and v': "\<And>x. x + h \<le> A \<or> A + h + bsize b \<le> x \<Longrightarrow> v' x = v x"
    and new: "v' A = Some (c, post = [])" "bsize c = bsize b"
  shows "chain h lim v' a (pre @ c # post)"
proof -
  have r: "run_up h v a pre" and cb: "chain h lim v A (b # post)" using c A by (auto simp: chain_append)
  have "run_up h v' a pre" by (rule run_up_cong[OF r]) (use v' A in auto)
  moreover have "post \<noteq> [] \<Longrightarrow> chain h lim v' (A + h + bsize b) post"
    by (rule chain_cong[of h lim v]) (use cb v' in auto)
  ultimately show ?thesis using cb new A by (simp add: chain_append)
qed

lemma chain_splice2:
  assumes c: "chain h lim v a (pre @ b # post)" and A: "A = a + span h pre"
    and v': "\<And>x. x + h \<le> A \<or> A + h + bsize b \<le> x \<Longrightarrow> v' x = v x"
    and new: "v' A = Some (c, False)" "v' (A + h + bsize c) = Some (d, post = [])"
      "bsize c + h + bsize d = bsize b"
  shows "chain h lim v' a (pre @ c # d # post)"
proof -
  have r: "run_up h v a pre" and cb: "chain h lim v A (b # post)" using c A by (auto simp: chain_append)
  have "run_up h v' a pre" by (rule run_up_cong[OF r]) (use v' A in auto)
  moreover have "post \<noteq> [] \<Longrightarrow> chain h lim v' (A + h + bsize b) post"
    by (rule chain_cong[of h lim v]) (use cb v' in auto)
  moreover have e: "A + h + bsize c + h + bsize d = A + h + bsize b" using new(3) by simp
  ultimately have "chain h lim v' A (c # d # post)"
    using cb new by (simp only: chain.simps e) auto
  with \<open>run_up h v' a pre\<close> show ?thesis using A by (simp only: chain_append)
qed

text \<open>Taking \<open>n\<close> units of a block, from its start or from its end, and the header
  address of the part taken.\<close>

definition carve :: "nat \<Rightarrow> nat \<Rightarrow> bool \<Rightarrow> 16 word \<Rightarrow> blk \<Rightarrow> blk list" where
  "carve h n from_end w b =
     (if n = bsize b then [Blk n w]
      else if from_end then [Blk (bsize b - n - h) 0, Blk n w]
      else [Blk n w, Blk (bsize b - n - h) 0])"

definition carve_at :: "nat \<Rightarrow> nat \<Rightarrow> bool \<Rightarrow> nat \<Rightarrow> blk \<Rightarrow> nat" where
  "carve_at h n from_end a b = (if n \<noteq> bsize b \<and> from_end then a + bsize b - n else a)"

lemma used_carve:
  assumes "is_free b" "n = bsize b \<or> n + h \<le> bsize b" "w \<noteq> 0"
  shows "used h a (pre @ carve h n e w b @ post) =
    insert (carve_at h n e (a + span h pre) b + h, n, w) (used h a (pre @ b # post))"
proof -
  have "h + (bsize b - n - h) + (h + n) = h + bsize b" "h + n + (h + (bsize b - n - h)) = h + bsize b"
    "bsize b - n - h + h = bsize b - n" if "n + h \<le> bsize b" using that by auto
  then show ?thesis using assms
    by (cases "n = bsize b"; cases e) (simp_all add: carve_def carve_at_def ac_simps insert_commute Un_left_commute)
qed

lemma carve_fresh:
  assumes "(p, k, u) \<in> used h a (pre @ b # post)" "is_free b" "n = bsize b \<or> n + h \<le> bsize b"
  shows "p + k + h \<le> carve_at h n e (a + span h pre) b + h \<or>
    carve_at h n e (a + span h pre) b + h + n + h \<le> p"
  using assms used_bounds[of p k u h a pre] used_bounds[of p k u h "a + span h pre + h + bsize b" post]
  by (auto simp: carve_at_def split: if_splits)

lemma sizes_dvd_carve:
  assumes "sizes_dvd h [b]" "h dvd n" "n \<le> bsize b"
  shows "sizes_dvd h (carve h n e w b)" "n = bsize b \<or> n + h \<le> bsize b"
proof -
  show r: "n = bsize b \<or> n + h \<le> bsize b"
  proof (rule ccontr)
    assume "\<not> ?thesis"
    then have "0 < bsize b - n" "bsize b - n < h" using assms(3) by auto
    moreover have "h dvd bsize b - n" using assms by (simp add: dvd_diff_nat)
    ultimately show False by (simp add: nat_dvd_not_less)
  qed
  show "sizes_dvd h (carve h n e w b)"
    using assms by (auto simp: carve_def dvd_diff_nat)
qed

lemma used_release:
  assumes "\<not> is_free b" "0 < h"
  shows "used h a (pre @ Blk (bsize b) 0 # post) =
    used h a (pre @ b # post) - {(a + span h pre + h, bsize b, bowner b)}"
proof -
  let ?x = "(a + span h pre + h, bsize b, bowner b)"
  have "?x \<notin> used h a pre" using used_bounds[of "a + span h pre + h" "bsize b" "bowner b" h a pre] assms by auto
  moreover have "?x \<notin> used h (a + span h pre + h + bsize b) post"
    using used_bounds[of "a + span h pre + h" "bsize b" "bowner b" h "a + span h pre + h + bsize b" post] assms by auto
  ultimately show ?thesis using assms by auto
qed

lemma found_used: "found h n bs pre b post \<Longrightarrow> used h a (pre @ b # post) = used h a bs"
  unfolding found_def by (metis used_coalesce)

lemma found_span: "found h n bs pre b post \<Longrightarrow> span h (pre @ b # post) = span h bs"
  unfolding found_def by (metis span_coalesce)

section \<open>The interface of a joining operation\<close>

text \<open>
  What both managers promise of their \<open>joinMCBs\<close>: one turn of the loop on a valid
  header, as seen through the view. The loop itself is then the same for both.
\<close>

locale block_heap =
  fixes h :: nat and lim :: nat
    and v :: "'m \<Rightarrow> view"
    and join :: "nat \<Rightarrow> 'm \<Rightarrow> (int \<times> 'm) option"
  assumes join_last: "v m a = Some (b, True) \<Longrightarrow> a + h + bsize b \<le> lim \<Longrightarrow> 0 < a \<Longrightarrow> join a m = Some (0, m)"
    and join_used: "v m a = Some (b, False) \<Longrightarrow> v m (a + h + bsize b) = Some (c, l) \<Longrightarrow> \<not> is_free c \<Longrightarrow>
        a + h + bsize b + h + bsize c \<le> lim \<Longrightarrow> 0 < a \<Longrightarrow> join a m = Some (0, m)"
    and join_free: "v m a = Some (b, False) \<Longrightarrow> v m (a + h + bsize b) = Some (c, l) \<Longrightarrow> is_free c \<Longrightarrow>
        a + h + bsize b + h + bsize c \<le> lim \<Longrightarrow> 0 < a \<Longrightarrow>
        \<exists>m'. join a m = join a m' \<and> v m' a = Some (Blk (bsize b + h + bsize c) (bowner b), l) \<and>
          (\<forall>x. x + h \<le> a \<or> a + h + bsize b + h \<le> x \<longrightarrow> v m' x = v m x)"
begin

lemma join_chain:
  "chain h lim (v m) a (b # bs) \<Longrightarrow>
     \<exists>m'. join a m = Some (0, m') \<and> chain h lim (v m') a (absorb h b bs) \<and>
       (\<forall>x. x + h \<le> a \<longrightarrow> v m' x = v m x)"
proof (induction bs arbitrary: b m)
  case Nil
  then show ?case using join_last[of m a b] by auto
next
  case (Cons c cs)
  let ?q = "a + h + bsize b"
  have va: "v m a = Some (b, False)" "0 < a" and vq: "v m ?q = Some (c, cs = [])"
    and le: "?q + h + bsize c \<le> lim" and rest: "cs \<noteq> [] \<Longrightarrow> chain h lim (v m) (?q + h + bsize c) cs"
    using Cons.prems by auto
  show ?case
  proof (cases "is_free c")
    case False
    from join_used[OF va(1) vq this le va(2)] False Cons.prems show ?thesis by auto
  next
    case True
    let ?d = "Blk (bsize b + h + bsize c) (bowner b)"
    from join_free[OF va(1) vq True le va(2)] obtain m1 where
      j: "join a m = join a m1" and v1: "v m1 a = Some (?d, cs = [])"
      and fr: "\<And>x. x + h \<le> a \<Longrightarrow> v m1 x = v m x" "\<And>x. ?q + h \<le> x \<Longrightarrow> v m1 x = v m x" by blast
    have "cs \<noteq> [] \<Longrightarrow> chain h lim (v m1) (?q + h + bsize c) cs"
      by (rule chain_cong[OF rest]) (auto intro: fr)
    then have "chain h lim (v m1) a (?d # cs)" using v1 va(2) le by (simp add: add.assoc)
    from Cons.IH[OF this] j True fr(1) show ?thesis by fastforce
  qed
qed

lemma join_in_chain:
  assumes "chain h lim (v m) s (pre @ b # bs)"
  shows "\<exists>m'. join (s + span h pre) m = Some (0, m') \<and> chain h lim (v m') s (pre @ absorb h b bs) \<and>
    (\<forall>x. x + h \<le> s + span h pre \<longrightarrow> v m' x = v m x)"
proof -
  let ?a = "s + span h pre"
  have r: "run_up h (v m) s pre" and c: "chain h lim (v m) ?a (b # bs)"
    using assms by (auto simp: chain_append simp del: chain.simps)
  from join_chain[OF c] obtain m' where m': "join ?a m = Some (0, m')" "chain h lim (v m') ?a (absorb h b bs)"
    "\<forall>x. x + h \<le> ?a \<longrightarrow> v m' x = v m x" by blast
  have "run_up h (v m') s pre" by (rule run_up_cong[OF r]) (use m'(3) in auto)
  moreover obtain x xs where "absorb h b bs = x # xs" using absorb_Cons by blast
  ultimately show ?thesis using m' by (auto simp: chain_append simp del: chain.simps)
qed

end

end
