(* ===== verification/Hma_Proofs.thy ===== *)
theory Hma_Proofs
  imports Hma Blocks
begin

text \<open>
  The HMA manager against the block lists of \<^theory_text>\<open>Blocks\<close>: the view of a header, the
  interpretation of \<open>block_heap\<close> on \<open>hma_joinMCBs\<close>, and the search, split, release and
  query of kernel/hmamgr.c on a well-formed chain.
\<close>

definition hview :: "bytes \<Rightarrow> view" where
  "hview m a =
     (if 65536 \<le> a \<or> get16 m a \<noteq> HMCB_SIG then None
      else let n = get16 m (a + 6); b = Blk (unat (get16 m (a + 4))) (get16 m (a + 2)) in
        if n = 0 then Some (b, True)
        else if unat n = a + 16 + bsize b then Some (b, False) else None)"

definition hchain :: "bytes \<Rightarrow> blk list \<Rightarrow> bool" where
  "hchain m bs \<longleftrightarrow> chain 16 65536 (hview m) 16 bs"

lemma unat_of_nat16: "a < 65536 \<Longrightarrow> unat (word_of_nat a :: 16 word) = a"
  by (simp add: unat_of_nat)

lemma word_eq_of_nat: "unat (w :: 16 word) = n \<Longrightarrow> w = word_of_nat n"
  by auto

lemma hview_SomeD:
  assumes "hview m a = Some (b, l)"
  shows "a < 65536" "get16 m a = HMCB_SIG" "bsize b = unat (get16 m (a + 4))" "bowner b = get16 m (a + 2)"
    "l \<longleftrightarrow> get16 m (a + 6) = 0" "\<not> l \<Longrightarrow> unat (get16 m (a + 6)) = a + 16 + bsize b"
  using assms by (auto simp: hview_def Let_def split: if_splits)

lemma hview_cong:
  assumes "get16 m a = get16 m' a" "get16 m (a + 2) = get16 m' (a + 2)"
    "get16 m (a + 4) = get16 m' (a + 4)" "get16 m (a + 6) = get16 m' (a + 6)"
  shows "hview m a = hview m' a"
  using assms by (simp add: hview_def)

lemma hview_bytes_cong: "(\<And>x. a \<le> x \<Longrightarrow> x < a + 8 \<Longrightarrow> m x = m' x) \<Longrightarrow> hview m a = hview m' a"
  by (rule hview_cong; rule get16_cong) auto

lemma hview_fields:
  assumes "hview m (unat p) = Some (b, l)"
  shows "h_sig m p = HMCB_SIG" "unat (h_size m p) = bsize b" "h_owner m p = bowner b"
    "h_next m p = 0 \<longleftrightarrow> l" "\<not> l \<Longrightarrow> unat (h_next m p) = unat p + 16 + bsize b"
  using hview_SomeD[OF assms]
  by (auto simp: h_sig_def h_size_def h_owner_def h_next_def)

lemma unat_add3:
  assumes "unat (a :: 16 word) + unat b + 16 < 65536"
  shows "unat (a + b + 16) = unat a + unat b + 16"
proof -
  have "unat (a + b) = unat a + unat b" using assms by (simp add: unat_word_ariths)
  then show ?thesis using assms by (simp add: unat_word_ariths)
qed

lemma hma_join_step:
  assumes p: "hview m (unat p) = Some (b, False)" and q: "hview m (unat q) = Some (c, l)"
    and uq: "unat q = unat p + 16 + bsize b" and free: "is_free c"
    and le: "unat q + 16 + bsize c \<le> 65536" and pos: "0 < unat p"
  defines "m3 \<equiv> (let m1 = set_next p (h_next m q) m in
      set_size q 0xffff (set_size p (h_size m1 p + h_size m1 q + 16) m1))"
  shows "hma_joinMCBs p m = hma_joinMCBs p m3"
    "hview m3 (unat p) = Some (Blk (bsize b + 16 + bsize c) (bowner b), l)"
    "x + 16 \<le> unat p \<or> unat q + 16 \<le> x \<Longrightarrow> hview m3 x = hview m x"
proof -
  note fp = hview_fields[OF p] and fq = hview_fields[OF q]
  have n: "h_next m p = q" using fp(5) uq by (simp add: word_unat_eq_iff)
  show "hma_joinMCBs p m = hma_joinMCBs p m3"
    using fp(4) fq(1,3) free n by (subst hma_joinMCBs.simps) (simp add: m3_def Let_def)
  have sz: "unat (h_size m p + h_size m q + 16) = bsize b + 16 + bsize c"
    using fp(2) fq(2) uq le pos by (subst unat_add3) auto
  have g: "get16 m3 (unat p) = get16 m (unat p)" "get16 m3 (unat p + 2) = get16 m (unat p + 2)"
    "get16 m3 (unat p + 4) = h_size m p + h_size m q + 16" "get16 m3 (unat p + 6) = h_next m q"
    using uq by (auto simp: m3_def Let_def set_next_def set_size_def h_size_def)
  have nq: "if l then h_next m q = 0 else unat (h_next m q) = unat p + 16 + (bsize b + 16 + bsize c) \<and> h_next m q \<noteq> 0"
    using fq(4,5) uq by auto
  show "hview m3 (unat p) = Some (Blk (bsize b + 16 + bsize c) (bowner b), l)"
    using g sz nq hview_SomeD(1,2,4)[OF p] by (auto simp: hview_def Let_def split: if_splits)
  assume x: "x + 16 \<le> unat p \<or> unat q + 16 \<le> x"
  show "hview m3 x = hview m x"
    by (rule hview_cong) (use x uq in \<open>auto simp: m3_def Let_def set_next_def set_size_def\<close>)
qed

interpretation hma: block_heap 16 65536 hview "\<lambda>a. hma_joinMCBs (word_of_nat a)"
proof unfold_locales
  fix m a b
  assume v: "hview m a = Some (b, True)"
  then have "unat (word_of_nat a :: 16 word) = a" by (intro unat_of_nat16 hview_SomeD(1))
  with v show "hma_joinMCBs (word_of_nat a) m = Some (0, m)"
    using hview_fields(4)[of m "word_of_nat a" b True]
    by (subst hma_joinMCBs.simps) (simp add: SUCCESS_def)
next
  fix m a b c l
  assume v: "hview m a = Some (b, False)" "hview m (a + 16 + bsize b) = Some (c, l)"
  let ?p = "word_of_nat a :: 16 word"
  have up: "unat ?p = a" by (rule unat_of_nat16[OF hview_SomeD(1)[OF v(1)]])
  obtain q :: "16 word" where uq: "unat q = a + 16 + bsize b"
    using unat_of_nat16[OF hview_SomeD(1)[OF v(2)]] by blast
  note u = up uq
  have vp: "hview m (unat ?p) = Some (b, False)" and vq: "hview m (unat q) = Some (c, l)"
    using v u by simp_all
  have n: "h_next m ?p = q" using hview_fields(5)[OF vp] u by (simp add: word_unat_eq_iff)
  show "hma_joinMCBs ?p m = Some (0, m)" if "bowner c \<noteq> 0"
    using that hview_fields(3)[OF vq] hview_fields(4)[OF vp] n
    by (subst hma_joinMCBs.simps) (simp add: SUCCESS_def)
  assume f: "is_free c" and le: "a + 16 + bsize b + 16 + bsize c \<le> 65536" and pos: "0 < a"
  show "\<exists>m'. hma_joinMCBs ?p m = hma_joinMCBs ?p m' \<and>
      hview m' a = Some (Blk (bsize b + 16 + bsize c) (bowner b), l) \<and>
      (\<forall>x. x + 16 \<le> a \<or> a + 16 + bsize b + 16 \<le> x \<longrightarrow> hview m' x = hview m x)"
    using hma_join_step[OF vp vq] u f le pos by (metis (no_types, lifting))
qed

section \<open>The search\<close>

lemma hma_join_ok:
  assumes "chain 16 65536 (hview m) (unat p) (b # bs)"
  obtains m' where "hma_joinMCBs p m = Some (0, m')" "chain 16 65536 (hview m') (unat p) (absorb 16 b bs)"
    "\<And>x. x + 16 \<le> unat p \<Longrightarrow> hview m' x = hview m x"
  using hma.join_chain[OF assms] by auto

lemma hma_search_step:
  assumes c: "chain 16 65536 (hview m) (unat p) (b # bs)"
  obtains x xs m1 where
    "coalesce 16 (b # bs) = x # coalesce 16 xs" "coalesce 16 (x # xs) = x # coalesce 16 xs"
    "chain 16 65536 (hview m1) (unat p) (x # xs)" "length xs \<le> length bs"
    "\<And>a. a + 16 \<le> unat p \<Longrightarrow> hview m1 a = hview m a"
    "bowner x = bowner b" "sizes_dvd 16 (b # bs) \<Longrightarrow> sizes_dvd 16 (x # xs)"
    "hma_search n p m =
       (if fits (unat n) x then Some (SUCCESS, p, m1)
        else if xs = [] then Some (DE_NOMEM, p, m1)
        else hma_search n (word_of_nat (unat p + 16 + bsize x)) m1)"
proof -
  have v: "hview m (unat p) = Some (b, bs = [])" using c by simp
  note f = hview_fields[OF v]
  obtain x xs m1 where x: "coalesce 16 (b # bs) = x # coalesce 16 xs" "coalesce 16 (x # xs) = x # coalesce 16 xs"
      "chain 16 65536 (hview m1) (unat p) (x # xs)" "length xs \<le> length bs"
      "\<And>a. a + 16 \<le> unat p \<Longrightarrow> hview m1 a = hview m a" "bowner x = bowner b"
      "sizes_dvd 16 (b # bs) \<Longrightarrow> sizes_dvd 16 (x # xs)"
      "(if h_owner m p = 0 then hma_joinMCBs p m else Some (SUCCESS, m)) = Some (SUCCESS, m1)"
  proof (cases "is_free b")
    case True
    obtain x xs where a: "absorb 16 b bs = x # xs" "bowner x = bowner b" "length xs \<le> length bs"
      using absorb_Cons by metis
    obtain m1 where "hma_joinMCBs p m = Some (0, m1)"
      "chain 16 65536 (hview m1) (unat p) (absorb 16 b bs)" "\<And>a. a + 16 \<le> unat p \<Longrightarrow> hview m1 a = hview m a"
      using hma_join_ok[OF c] by blast
    with a True f(3) coalesce_absorbed[OF True a(1)] sizes_dvd_absorb[of 16 b bs] show ?thesis
      by (intro that[of x xs m1]) (simp_all add: SUCCESS_def)
  next
    case False
    with f(3) c coalesce_used[OF False] show ?thesis
      by (intro that[of b bs m]) (simp_all add: SUCCESS_def)
  qed
  have v1: "hview m1 (unat p) = Some (x, xs = [])" using x(3) by simp
  note f1 = hview_fields[OF v1]
  have "hma_search n p m =
       (if fits (unat n) x then Some (SUCCESS, p, m1)
        else if xs = [] then Some (DE_NOMEM, p, m1)
        else hma_search n (h_next m1 p) m1)"
    using x(6,8) f(1,3) f1(2,4)
    by (subst hma_search.simps) (simp add: fits_def word_le_nat_alt SUCCESS_def DE_MCBDESTRY_def)
  moreover have "xs \<noteq> [] \<Longrightarrow> h_next m1 p = word_of_nat (unat p + 16 + bsize x)"
    using f1(5) word_eq_of_nat by blast
  ultimately show ?thesis using x by (intro that[of x xs m1]) auto
qed

lemma hma_search_ok:
  assumes "chain 16 65536 (hview m) (unat p) bs"
  shows "\<exists>m'. (\<forall>x. x + 16 \<le> unat p \<longrightarrow> hview m' x = hview m x) \<and>
    ((\<exists>q. hma_search n p m = Some (DE_NOMEM, q, m')) \<and> chain 16 65536 (hview m') (unat p) (coalesce 16 bs) \<and>
       (\<forall>b \<in> set (coalesce 16 bs). \<not> fits (unat n) b) \<or>
     (\<exists>pre b post. found 16 (unat n) bs pre b post \<and> chain 16 65536 (hview m') (unat p) (pre @ b # post) \<and>
       hma_search n p m = Some (SUCCESS, word_of_nat (unat p + span 16 pre), m')))"
  using assms
proof (induction "length bs" arbitrary: bs p m rule: less_induct)
  case less
  then obtain b cs where bs: "bs = b # cs" by (cases bs) auto
  from hma_search_step[OF less.prems[unfolded bs], where n = n] obtain x xs m1 where s:
    "coalesce 16 (b # cs) = x # coalesce 16 xs" "coalesce 16 (x # xs) = x # coalesce 16 xs"
    "chain 16 65536 (hview m1) (unat p) (x # xs)" "length xs \<le> length cs"
    "\<And>a. a + 16 \<le> unat p \<Longrightarrow> hview m1 a = hview m a" "bowner x = bowner b"
    "sizes_dvd 16 (b # cs) \<Longrightarrow> sizes_dvd 16 (x # xs)"
    "hma_search n p m =
       (if fits (unat n) x then Some (SUCCESS, p, m1)
        else if xs = [] then Some (DE_NOMEM, p, m1)
        else hma_search n (word_of_nat (unat p + 16 + bsize x)) m1)" by blast
  consider "fits (unat n) x" | "\<not> fits (unat n) x" "xs = []" | "\<not> fits (unat n) x" "xs \<noteq> []" by blast
  then show ?case
  proof cases
    case 1
    have "found 16 (unat n) bs [] x xs"
      using 1 s(1,2,7) by (simp add: found_def bs del: coalesce.simps sizes_dvd_simps)
    moreover have "hma_search n p m = Some (SUCCESS, word_of_nat (unat p + span 16 []), m1)" using s(8) 1 by simp
    ultimately show ?thesis using s(3,5) by (metis append_Nil)
  next
    case 2
    then have "coalesce 16 bs = [x]" "hma_search n p m = Some (DE_NOMEM, p, m1)" using s(1,8) bs by simp_all
    with 2 s(3,5) show ?thesis by (intro exI[of _ m1] conjI disjI1) auto
  next
    case 3
    have c2: "chain 16 65536 (hview m1) (unat p + 16 + bsize x) xs" using s(3) 3(2) by simp
    then have "unat p + 16 + bsize x < 65536" using 3(2) by (cases xs) auto
    then obtain q :: "16 word" where qd: "word_of_nat (unat p + 16 + bsize x) = q" and uq: "unat q = unat p + 16 + bsize x"
      using unat_of_nat16 by blast
    have c2q: "chain 16 65536 (hview m1) (unat q) xs" using c2 uq by simp
    have len: "length xs < length bs" using s(4) bs by simp
    have hs: "hma_search n p m = hma_search n q m1" using s(8) 3 qd by (simp only: if_False)
    have pv: "0 < unat p" "unat p + 16 + bsize x \<le> 65536" "hview m1 (unat p) = Some (x, False)" using s(3) 3(2) by auto
    have ext: "chain 16 65536 (hview m') (unat p) (x # ys)"
      if "chain 16 65536 (hview m') (unat q) ys" "hview m' (unat p) = hview m1 (unat p)" for m' ys
      using that pv uq by (cases "ys = []") (auto simp: add.assoc)
    from less.hyps[OF len c2q] obtain m' where
      m': "\<And>y. y + 16 \<le> unat q \<Longrightarrow> hview m' y = hview m1 y" and
      cases: "(\<exists>q'. hma_search n q m1 = Some (DE_NOMEM, q', m')) \<and> chain 16 65536 (hview m') (unat q) (coalesce 16 xs) \<and>
         (\<forall>b \<in> set (coalesce 16 xs). \<not> fits (unat n) b) \<or>
       (\<exists>pre b post. found 16 (unat n) xs pre b post \<and> chain 16 65536 (hview m') (unat q) (pre @ b # post) \<and>
         hma_search n q m1 = Some (SUCCESS, word_of_nat (unat q + span 16 pre), m'))" by blast
    have vp: "hview m' (unat p) = hview m1 (unat p)" using m' uq by simp
    have fr: "\<And>y. y + 16 \<le> unat p \<Longrightarrow> hview m' y = hview m y" using m' s(5) uq by simp
    from cases show ?thesis
    proof (elim disjE conjE exE)
      fix q'
      assume "hma_search n q m1 = Some (DE_NOMEM, q', m')" "chain 16 65536 (hview m') (unat q) (coalesce 16 xs)"
        "\<forall>b \<in> set (coalesce 16 xs). \<not> fits (unat n) b"
      with hs fr ext[OF _ vp] s(1) 3(1) show ?thesis
        unfolding bs by (intro exI[of _ m'] conjI disjI1) (auto simp del: coalesce.simps chain.simps)
    next
      fix pre c post
      assume a: "found 16 (unat n) xs pre c post" "chain 16 65536 (hview m') (unat q) (pre @ c # post)"
        "hma_search n q m1 = Some (SUCCESS, word_of_nat (unat q + span 16 pre), m')"
      have "coalesce 16 (x # pre @ c # post) = coalesce 16 (x # xs)"
        using a(1) by (simp add: found_def)
      then have "found 16 (unat n) bs (x # pre) c post"
        using a(1) s(1,2,7) 3(1) by (simp add: found_def bs del: coalesce.simps)
      moreover have "chain 16 65536 (hview m') (unat p) ((x # pre) @ c # post)" using ext[OF a(2) vp] by simp
      moreover have "hma_search n p m = Some (SUCCESS, word_of_nat (unat p + span 16 (x # pre)), m')"
        using hs a(3) uq by (simp add: add.assoc)
      ultimately show ?thesis using fr by blast
    qed
  qed
qed

section \<open>Taking and cutting a block\<close>

lemma get16_init_mcb [simp]:
  "get16 (init_mcb p m) (unat p) = HMCB_SIG"
  "get16 (init_mcb p m) (unat p + 2) = 0"
  "x + 2 \<le> unat p \<or> unat p + 16 \<le> x \<Longrightarrow> get16 (init_mcb p m) x = get16 m x"
  using split8[of HMCB_SIG] by (auto simp: init_mcb_def get16_def put16_def)

lemma unat_sub3:
  assumes "unat b + 16 \<le> unat (a :: 16 word)"
  shows "unat (a - b - 16) = unat a - unat b - 16"
  using assms by (simp add: unat_sub word_le_nat_alt unat_sub_if')

lemma hview_two:
  assumes "hview m (unat f) = Some (b, l)" "unat p = unat f + 16 + bsize c" "bsize c + 16 + bsize d = bsize b"
    "unat f + 16 + bsize b \<le> 65536" "0 < unat f"
    "get16 m' (unat f) = HMCB_SIG" "get16 m' (unat f + 2) = bowner c" "unat (get16 m' (unat f + 4)) = bsize c"
    "get16 m' (unat f + 6) = p"
    "get16 m' (unat p) = HMCB_SIG" "get16 m' (unat p + 2) = bowner d" "unat (get16 m' (unat p + 4)) = bsize d"
    "get16 m' (unat p + 6) = h_next m f"
  shows "hview m' (unat f) = Some (c, False)" "hview m' (unat f + 16 + bsize c) = Some (d, l)"
proof -
  have "p \<noteq> 0" using assms(2) by (auto simp: unat_eq_zero[symmetric])
  then show "hview m' (unat f) = Some (c, False)"
    using assms by (auto simp: hview_def Let_def)
  have "h_next m f = 0 \<longleftrightarrow> l" "\<not> l \<Longrightarrow> unat (h_next m f) = unat p + 16 + bsize d"
    using hview_fields(4,5)[OF assms(1)] assms(2,3) by auto
  then show "hview m' (unat f + 16 + bsize c) = Some (d, l)"
    using assms unat16[of p] by (auto simp: hview_def Let_def)
qed

definition two_headers :: "16 word \<Rightarrow> 16 word \<Rightarrow> 16 word \<Rightarrow> 16 word \<Rightarrow> 16 word \<Rightarrow> bytes \<Rightarrow> bytes" where
  "two_headers f p sf sp nx m =
     set_size f sf (set_owner p 0 (set_next f p (set_size p sp (set_next p nx (init_mcb p m)))))"

lemma two_headers_fields:
  assumes "unat f + 16 \<le> unat p"
  shows "get16 (two_headers f p sf sp nx m) (unat f) = get16 m (unat f)"
    "get16 (two_headers f p sf sp nx m) (unat f + 2) = get16 m (unat f + 2)"
    "get16 (two_headers f p sf sp nx m) (unat f + 4) = sf"
    "get16 (two_headers f p sf sp nx m) (unat f + 6) = p"
    "get16 (two_headers f p sf sp nx m) (unat p) = HMCB_SIG"
    "get16 (two_headers f p sf sp nx m) (unat p + 2) = 0"
    "get16 (two_headers f p sf sp nx m) (unat p + 4) = sp"
    "get16 (two_headers f p sf sp nx m) (unat p + 6) = nx"
    "x + 2 \<le> unat f \<or> unat p + 16 \<le> x \<Longrightarrow> get16 (two_headers f p sf sp nx m) x = get16 m x"
  using assms by (auto simp: two_headers_def set_size_def set_owner_def set_next_def)

lemma set_owner_fields:
  "get16 (set_owner g w m) (unat g + 2) = w"
  "x \<noteq> unat g + 2 \<Longrightarrow> x \<noteq> unat g + 1 \<Longrightarrow> x \<noteq> unat g + 3 \<Longrightarrow> get16 (set_owner g w m) x = get16 m x"
  unfolding set_owner_def by (simp, rule get16_put16_other, arith)

lemma hview_two_headers:
  assumes v: "hview m (unat f) = Some (b, l)" and p: "unat p = unat f + 16 + unat sf"
    and sz: "unat sf + 16 + unat sp = bsize b" and le: "unat f + 16 + bsize b \<le> 65536" and pos: "0 < unat f"
    and b: "is_free b"
  defines "M \<equiv> two_headers f p sf sp (h_next m f) m"
  shows "hview (set_owner f w M) (unat f) = Some (Blk (unat sf) w, False) \<and>
      hview (set_owner f w M) (unat f + 16 + unat sf) = Some (Blk (unat sp) 0, l)"
    "hview (set_owner p w M) (unat f) = Some (Blk (unat sf) 0, False) \<and>
      hview (set_owner p w M) (unat f + 16 + unat sf) = Some (Blk (unat sp) w, l)"
    "x + 16 \<le> unat f \<or> unat f + 16 + bsize b \<le> x \<Longrightarrow> hview (set_owner f w M) x = hview m x"
    "x + 16 \<le> unat f \<or> unat f + 16 + bsize b \<le> x \<Longrightarrow> hview (set_owner p w M) x = hview m x"
proof -
  have fp: "unat f + 16 \<le> unat p" using p by simp
  note tf = two_headers_fields[OF fp, where sf = sf and sp = sp and nx = "h_next m f" and m = m, folded M_def] and gs = hview_SomeD[OF v]
  have "get16 (set_owner f w M) (unat f) = HMCB_SIG" "get16 (set_owner f w M) (unat f + 2) = w"
    "unat (get16 (set_owner f w M) (unat f + 4)) = unat sf" "get16 (set_owner f w M) (unat f + 6) = p"
    "get16 (set_owner f w M) (unat p) = HMCB_SIG" "get16 (set_owner f w M) (unat p + 2) = 0"
    "unat (get16 (set_owner f w M) (unat p + 4)) = unat sp" "get16 (set_owner f w M) (unat p + 6) = h_next m f"
    using fp tf gs(2,4) b by (simp_all add: set_owner_fields del: add_2_eq_Suc')
  then show "hview (set_owner f w M) (unat f) = Some (Blk (unat sf) w, False) \<and>
      hview (set_owner f w M) (unat f + 16 + unat sf) = Some (Blk (unat sp) 0, l)"
    using hview_two[OF v _ _ le pos, of p "Blk (unat sf) w" "Blk (unat sp) 0"] p sz
    by (simp only: blk.sel)
  have "get16 (set_owner p w M) (unat f) = HMCB_SIG" "get16 (set_owner p w M) (unat f + 2) = 0"
    "unat (get16 (set_owner p w M) (unat f + 4)) = unat sf" "get16 (set_owner p w M) (unat f + 6) = p"
    "get16 (set_owner p w M) (unat p) = HMCB_SIG" "get16 (set_owner p w M) (unat p + 2) = w"
    "unat (get16 (set_owner p w M) (unat p + 4)) = unat sp" "get16 (set_owner p w M) (unat p + 6) = h_next m f"
    using fp tf gs(2,4) b by (simp_all add: set_owner_fields del: add_2_eq_Suc')
  then show "hview (set_owner p w M) (unat f) = Some (Blk (unat sf) 0, False) \<and>
      hview (set_owner p w M) (unat f + 16 + unat sf) = Some (Blk (unat sp) w, l)"
    using hview_two[OF v _ _ le pos, of p "Blk (unat sf) 0" "Blk (unat sp) w"] p sz
    by (simp only: blk.sel)
  show "hview (set_owner f w M) x = hview m x" if x: "x + 16 \<le> unat f \<or> unat f + 16 + bsize b \<le> x"
    by (rule hview_cong; subst set_owner_fields(2); (rule tf(9))?) (use x p sz in auto)
  show "hview (set_owner p w M) x = hview m x" if x: "x + 16 \<le> unat f \<or> unat f + 16 + bsize b \<le> x"
    by (rule hview_cong; subst set_owner_fields(2); (rule tf(9))?) (use x p sz in auto)
qed

lemma hma_split_ok:
  assumes c: "chain 16 65536 (hview m) a (pre @ b # post)" and f: "unat f = a + span 16 pre"
    and fit: "fits (unat n) b" "unat n = bsize b \<or> unat n + 16 \<le> bsize b"
    and s: "hma_split n e f m = (g, m1)"
  shows "chain 16 65536 (hview (set_owner g w m1)) a (pre @ carve 16 (unat n) e w b @ post)"
    "unat g = carve_at 16 (unat n) e (a + span 16 pre) b"
proof -
  let ?n = "unat n" and ?m = "set_owner g w m1"
  have v: "hview m (unat f) = Some (b, post = [])" and pos: "0 < unat f"
    and le: "unat f + 16 + bsize b \<le> 65536" using chain_at[OF c] f by auto
  note fs = hview_fields[OF v] and gs = hview_SomeD[OF v]
  have "chain 16 65536 (hview ?m) a (pre @ carve 16 ?n e w b @ post) \<and> unat g = carve_at 16 ?n e (unat f) b"
  proof (cases "?n = bsize b")
    case True
    then have g: "g = f" "m1 = m" using s fs(2) by (auto simp: hma_split_def word_unat_eq_iff)
    have "hview ?m (unat f) = Some (Blk ?n w, post = [])"
      using gs True by (auto simp: hview_def g set_owner_def Let_def)
    moreover have "hview ?m x = hview m x" if "x + 16 \<le> unat f \<or> unat f + 16 + bsize b \<le> x" for x
      by (rule hview_cong) (use that in \<open>auto simp: g set_owner_def\<close>)
    ultimately show ?thesis
      using chain_splice1[OF c f] True g by (auto simp: carve_def carve_at_def)
  next
    case False
    then have nb: "n \<noteq> h_size m f" and n16: "?n + 16 \<le> bsize b" using fs(2) fit(2) by auto
    have sz: "unat (h_size m f - n - 16) = bsize b - ?n - 16"
      using n16 fs(2) by (subst unat_sub3) auto
    show ?thesis
    proof (cases e)
      case True
      define p where "p = nxtMCBsizeTd m f n"
      have "unat (f + h_size m f) = unat f + bsize b" using fs(2) le pos by (simp add: unat_word_ariths)
      then have p: "unat p = unat f + 16 + (bsize b - ?n - 16)"
        using n16 le by (simp add: p_def nxtMCBsizeTd_def unat_sub_if')
      have sz: "unat (h_size m f - (n + 16)) = bsize b - ?n - 16" using sz by (simp only: diff_diff_eq)
      have g: "g = p" and m1: "m1 = two_headers f p (h_size m f - (n + 16)) n (h_next m f) m"
        using s nb True p by (auto simp: hma_split_def Let_def p_def[symmetric] two_headers_def
            set_size_def set_owner_def set_next_def h_size_def h_next_def)
      note two = hview_two_headers[OF v _ _ le pos, where p = p and sf = "h_size m f - (n + 16)" and sp = n and w = w, folded m1]
      show ?thesis
        using chain_splice2[OF c f, where v' = "hview ?m" and c = "Blk (bsize b - ?n - 16) 0" and d = "Blk ?n w"]
          two fit(1) False True n16 p g sz by (simp add: carve_def carve_at_def fits_def)
    next
      case e: False
      define p where "p = nxtMCBsize f n"
      have p: "unat p = unat f + 16 + ?n"
        using n16 le unat_add3[of f n] by (simp add: p_def nxtMCBsize_def)
      have g: "g = f" and m1: "m1 = two_headers f p n (h_size m f - n - 16) (h_next m f) m"
        using s nb e p by (auto simp: hma_split_def Let_def p_def[symmetric] two_headers_def
            set_size_def set_owner_def set_next_def h_size_def h_next_def)
      note two = hview_two_headers[OF v _ _ le pos, where p = p and sf = n and sp = "h_size m f - n - 16" and w = w, folded m1]
      show ?thesis
        using chain_splice2[OF c f, where v' = "hview ?m" and c = "Blk ?n w" and d = "Blk (bsize b - ?n - 16) 0"]
          two fit(1) False e n16 p g sz by (simp add: carve_def carve_at_def fits_def)
    qed
  qed
  then show "chain 16 65536 (hview (set_owner g w m1)) a (pre @ carve 16 (unat n) e w b @ post)"
    "unat g = carve_at 16 (unat n) e (a + span 16 pre) b" using f by auto
qed

end
