(* ===== verification/Hma_Props.thy ===== *)
theory Hma_Props
  imports Hma_Proofs
begin

text \<open>
  The properties of the HMA manager. \<open>hma_ok s bs\<close> says that the HMA is claimed and that
  its chain describes the blocks \<open>bs\<close>, all of whole paragraphs.
\<close>

definition hma_ok :: "'a hma_scheme \<Rightarrow> blk list \<Rightarrow> bool" where
  "hma_ok s bs \<longleftrightarrow> HMAclaimed s \<and> hchain (hmem s) bs \<and> sizes_dvd 16 bs"

definition hma_used :: "blk list \<Rightarrow> (nat \<times> nat \<times> 16 word) set" where
  "hma_used bs = used 16 16 bs"

lemma sizes_dvd_coalesce: "sizes_dvd h bs \<Longrightarrow> sizes_dvd h (coalesce h bs)"
proof (induction bs)
  case (Cons b bs)
  then show ?case by (cases "coalesce h bs") simp_all
qed simp

section \<open>Setting up\<close>

lemma hview_init:
  fixes p sz nx :: "16 word"
  assumes "get16 m (unat p) = HMCB_SIG" "get16 m (unat p + 2) = w" "get16 m (unat p + 4) = sz" "get16 m (unat p + 6) = nx"
    "nx = 0 \<or> unat nx = unat p + 16 + unat sz"
  shows "hview m (unat p) = Some (Blk (unat sz) w, nx = 0)"
  using assms unat16[of p] by (auto simp: hview_def Let_def)

lemma get16_init_mcb_zero: "2 \<le> k \<Longrightarrow> k + 2 \<le> 16 \<Longrightarrow> get16 (init_mcb p m) (unat p + k) = 0"
  by (simp add: init_mcb_def get16_def put16_def)

lemma init_mcb_fields:
  "get16 (set_size p sz (init_mcb p m)) (unat p) = HMCB_SIG"
  "get16 (set_size p sz (init_mcb p m)) (unat p + 2) = 0"
  "get16 (set_size p sz (init_mcb p m)) (unat p + 4) = sz"
  "get16 (set_size p sz (init_mcb p m)) (unat p + 6) = 0"
  "x + 2 \<le> unat p \<or> unat p + 16 \<le> x \<Longrightarrow> get16 (set_size p sz (init_mcb p m)) x = get16 m x"
  by (auto simp: set_size_def get16_init_mcb_zero simp del: add_2_eq_Suc')

lemma init_size:
  assumes "16 \<le> unat (off :: 16 word)" "unat off \<le> 65520"
  shows "unat (word_of_int (65536 - uint off - 16) :: 16 word) = 65536 - unat off - 16"
proof -
  obtain k where k: "unat off + k = 65520" using assms(2) by (metis le_Suc_ex)
  moreover have "uint off = int (unat off)" by simp
  ultimately have "65536 - uint off - 16 = int k" by linarith
  then have "word_of_int (65536 - uint off - 16) = (word_of_nat k :: 16 word)" by simp
  moreover have "unat (word_of_nat k :: 16 word) = k" using k by (intro unat_of_nat16) simp
  ultimately show ?thesis using k by simp
qed

text \<open>
  \<open>HMAInitFirstMcb\<close> called for a claimed HMA sets up a well-formed chain: one free
  block for the offset 10h of the XMS client interface, and a block of the system in front
  of the free one when the kernel's text occupies the start of the HMA.
\<close>

lemma hma_init_low:
  assumes "HMAclaimed s"
  shows "hma_ok (HMAInitFirstMcb 0x10 s) [Blk 65504 0]"
proof -
  let ?m = "set_size 16 65504 (init_mcb 16 (hmem s))"
  have "hview ?m (unat (16 :: 16 word)) = Some (Blk (unat (65504 :: 16 word)) 0, (0 :: 16 word) = 0)"
    by (rule hview_init; (rule init_mcb_fields(1-4))?) simp
  then show ?thesis
    using assms by (simp add: hma_ok_def hchain_def HMAInitFirstMcb_def word_less_nat_alt)
qed

lemma hma_init_high:
  assumes cl: "HMAclaimed s" and off: "0x20 < unat off" "unat off \<le> 65520" "16 dvd unat off"
  shows "hma_ok (HMAInitFirstMcb off s) [Blk (unat off - 32) 0xffff, Blk (65520 - unat off) 0]"
proof -
  let ?sz = "word_of_int (65536 - uint off - 16) :: 16 word"
  let ?q = "set_size off ?sz (init_mcb off (hmem s))"
  let ?m = "set_next 16 off (set_size 16 (off - 0x20) (set_owner 16 0xffff (init_mcb 16 ?q)))"
  have sz: "unat ?sz = 65520 - unat off" using init_size[of off] off by simp
  have s1: "unat (off - 0x20) = unat off - 32" using off(1) by (simp add: unat_sub word_le_nat_alt)
  have u: "unat (16 :: 16 word) = 16" by simp
  have m16: "get16 ?m 16 = HMCB_SIG" "get16 ?m 18 = 0xffff" "get16 ?m 20 = off - 0x20" "get16 ?m 22 = off"
    using get16_init_mcb(1,2)[of 16 ?q] by (simp_all add: set_next_def set_size_def set_owner_def)
  have mo: "get16 ?m x = get16 ?q x" if "32 \<le> x" for x
    using that get16_init_mcb(3)[of x 16 ?q] by (simp add: set_next_def set_size_def set_owner_def)
  have nz: "off \<noteq> 0" using off(1) by auto
  have v1: "hview ?m 16 = Some (Blk (unat off - 32) 0xffff, False)"
    using hview_init[where m = ?m and p = 16 and w = "0xffff" and sz = "off - 0x20" and nx = off] m16 s1 off(1) nz by simp
  have v2: "hview ?m (unat off) = Some (Blk (65520 - unat off) 0, True)"
    using hview_init[where m = ?m and p = off and w = 0 and sz = ?sz and nx = 0] mo[of "unat off"] mo[of "unat off + 2"] mo[of "unat off + 4"]
      mo[of "unat off + 6"] init_mcb_fields(1-4)[of off ?sz "hmem s"] off(1) sz by simp
  have "hmem (HMAInitFirstMcb off s) = ?m"
    using off(1) by (simp add: HMAInitFirstMcb_def Let_def FIRST_MCB_def word_less_nat_alt)
  moreover have "HMAclaimed (HMAInitFirstMcb off s)" using cl by (simp add: HMAInitFirstMcb_def Let_def)
  moreover have "16 dvd unat off - 32" "16 dvd 65520 - unat off" using off by (auto intro!: dvd_diff_nat)
  ultimately show ?thesis using v1 v2 off by (simp add: hma_ok_def hchain_def)
qed

section \<open>Allocation\<close>

lemma DosHMAAlloc_cases:
  assumes ok: "hma_ok s bs" and n: "16 dvd unat n" and psp: "cu_psp s \<noteq> 0"
  obtains s1 where "DosHMAAlloc n e s = Some (DE_NOMEM, None, s1)" "hma_ok s1 (coalesce 16 bs)"
      "\<forall>b \<in> set (coalesce 16 bs). \<not> fits (unat n) b"
  | s1 g pre b post where "DosHMAAlloc n e s = Some (SUCCESS, Some (g + 16), s1)"
      "found 16 (unat n) bs pre b post" "unat n = bsize b \<or> unat n + 16 \<le> bsize b"
      "hma_ok s1 (pre @ carve 16 (unat n) e (cu_psp s) b @ post)"
      "unat g = carve_at 16 (unat n) e (16 + span 16 pre) b" "unat g + 16 + unat n \<le> 65536"
      "hma_used (pre @ carve 16 (unat n) e (cu_psp s) b @ post) = insert (unat g + 16, unat n, cu_psp s) (hma_used bs)"
proof -
  have cl: "HMAclaimed s" and c: "chain 16 65536 (hview (hmem s)) (unat FIRST_MCB) bs" and d: "sizes_dvd 16 bs"
    using ok by (auto simp: hma_ok_def hchain_def FIRST_MCB_def)
  from hma_search_ok[OF c, of n] obtain m' where
    "(\<exists>q. hma_search n FIRST_MCB (hmem s) = Some (DE_NOMEM, q, m')) \<and>
       chain 16 65536 (hview m') (unat FIRST_MCB) (coalesce 16 bs) \<and>
       (\<forall>b \<in> set (coalesce 16 bs). \<not> fits (unat n) b) \<or>
     (\<exists>pre b post. found 16 (unat n) bs pre b post \<and> chain 16 65536 (hview m') (unat FIRST_MCB) (pre @ b # post) \<and>
       hma_search n FIRST_MCB (hmem s) = Some (SUCCESS, word_of_nat (unat FIRST_MCB + span 16 pre), m'))" by blast
  then show ?thesis
  proof (elim disjE conjE exE)
    fix q
    assume "hma_search n FIRST_MCB (hmem s) = Some (DE_NOMEM, q, m')"
      "chain 16 65536 (hview m') (unat FIRST_MCB) (coalesce 16 bs)" "\<forall>b \<in> set (coalesce 16 bs). \<not> fits (unat n) b"
    then show ?thesis using cl sizes_dvd_coalesce[OF d]
      by (intro that(1)[of "s\<lparr>hmem := m'\<rparr>"])
        (simp_all add: DosHMAAlloc_def rc_defs hma_ok_def hchain_def FIRST_MCB_def)
  next
    fix pre b post
    let ?f = "word_of_nat (unat FIRST_MCB + span 16 pre) :: 16 word"
    assume fd: "found 16 (unat n) bs pre b post" and cm: "chain 16 65536 (hview m') (unat FIRST_MCB) (pre @ b # post)"
      and hs: "hma_search n FIRST_MCB (hmem s) = Some (SUCCESS, ?f, m')"
    have fit: "fits (unat n) b" and dv: "sizes_dvd 16 (pre @ b # post)" using fd d by (auto simp: found_def)
    have nb: "unat n = bsize b \<or> unat n + 16 \<le> bsize b"
      using sizes_dvd_carve(2)[of 16 b "unat n"] dv n fit by (simp add: fits_def)
    have lt: "unat FIRST_MCB + span 16 pre < 65536" using chain_at[OF cm] by simp
    have f: "unat ?f = unat FIRST_MCB + span 16 pre" by (rule unat_of_nat16[OF lt])
    obtain g m1 where sp: "hma_split n e ?f m' = (g, m1)" by force
    note split = hma_split_ok(1)[OF cm f fit nb sp, where w = "cu_psp s"] hma_split_ok(2)[OF cm f fit nb sp]
    have g: "unat g + 16 + unat n \<le> 65536"
      using chain_at[OF cm] split(2) nb fit by (auto simp: carve_at_def fits_def)
    let ?new = "pre @ carve 16 (unat n) e (cu_psp s) b @ post"
    let ?s1 = "s\<lparr>hmem := set_owner g (cu_psp s) m1\<rparr>"
    have "sizes_dvd 16 (carve 16 (unat n) e (cu_psp s) b)"
      using sizes_dvd_carve(1)[of 16 b "unat n"] dv n fit by (simp add: fits_def)
    then have "hma_ok ?s1 ?new"
      using split(1) cl dv by (simp add: hma_ok_def hchain_def FIRST_MCB_def)
    moreover have "hma_used ?new = insert (unat g + 16, unat n, cu_psp s) (hma_used bs)"
      using used_carve[OF _ nb psp, of 16 pre e post] fit split(2) found_used[OF fd, of 16]
      by (simp add: hma_used_def fits_def FIRST_MCB_def)
    ultimately show ?thesis
      using cl hs sp fd nb g split(2) by (intro that(2)[of g ?s1 pre b post])
        (simp_all add: DosHMAAlloc_def FIRST_MCB_def)
  qed
qed

text \<open>
  C10. \<open>DosHMAAlloc\<close> for a positive number of whole paragraphs either finds no free block
  of that size, even after joining neighbours, or takes the first one that fits: the new
  area has exactly the requested size, belongs to the current process and is clear of every
  other area in use, header included; the chain stays well formed.
\<close>

theorem DosHMAAlloc_first_fit:
  assumes ok: "hma_ok s bs" and n: "16 dvd unat n" "0 < n" and psp: "cu_psp s \<noteq> 0"
  shows "(\<exists>s1. DosHMAAlloc n topdown s = Some (DE_NOMEM, None, s1) \<and> hma_ok s1 (coalesce 16 bs) \<and>
        (\<forall>b \<in> set (coalesce 16 bs). \<not> fits (unat n) b)) \<or>
    (\<exists>s1 p pre b post. DosHMAAlloc n topdown s = Some (SUCCESS, Some p, s1) \<and>
        found 16 (unat n) bs pre b post \<and>
        hma_ok s1 (pre @ carve 16 (unat n) topdown (cu_psp s) b @ post) \<and>
        hma_used (pre @ carve 16 (unat n) topdown (cu_psp s) b @ post) =
          insert (unat p, unat n, cu_psp s) (hma_used bs) \<and>
        (\<forall>(q, k, w) \<in> hma_used bs. q + k + 16 \<le> unat p \<or> unat p + unat n + 16 \<le> q))"
proof (rule DosHMAAlloc_cases[OF ok n(1) psp, of topdown])
  fix s1 g pre b post
  assume a: "DosHMAAlloc n topdown s = Some (SUCCESS, Some (g + 16), s1)"
    "found 16 (unat n) bs pre b post" "unat n = bsize b \<or> unat n + 16 \<le> bsize b"
    "hma_ok s1 (pre @ carve 16 (unat n) topdown (cu_psp s) b @ post)"
    "unat g = carve_at 16 (unat n) topdown (16 + span 16 pre) b" "unat g + 16 + unat n \<le> 65536"
    "hma_used (pre @ carve 16 (unat n) topdown (cu_psp s) b @ post) = insert (unat g + 16, unat n, cu_psp s) (hma_used bs)"
  have "0 < unat n" using n(2) by (simp add: word_less_nat_alt)
  then have p: "unat (g + 16) = unat g + 16" using a(6) by (simp add: unat_word_ariths)
  have free: "is_free b" using a(2) by (simp add: found_def fits_def)
  have "\<forall>(q, k, w) \<in> hma_used bs. q + k + 16 \<le> unat (g + 16) \<or> unat (g + 16) + unat n + 16 \<le> q"
    using carve_fresh[OF _ free a(3), of _ _ _ 16 pre post topdown] p a(5) found_used[OF a(2), of 16]
    by (auto simp: hma_used_def)
  with a p show ?thesis
    by (intro disjI2 exI[of _ s1] exI[of _ "g + 16"] exI[of _ pre] exI[of _ b] exI[of _ post] conjI) simp_all
qed blast

definition hma0 :: hma where
  "hma0 = HMAInitFirstMcb 0x10 \<lparr>cu_psp = 0x1234, HMAclaimed = True, hmem = (\<lambda>_. 0)\<rparr>"

lemma hma0_ok: "hma_ok hma0 [Blk 65504 0]" "cu_psp hma0 = 0x1234"
proof -
  show "hma_ok hma0 [Blk 65504 0]" unfolding hma0_def by (rule hma_init_low) simp
  show "cu_psp hma0 = 0x1234" by (simp add: hma0_def HMAInitFirstMcb_def Let_def)
qed

theorem DosHMAAlloc_first_fit_witness:
  "\<exists>s1 p. DosHMAAlloc 0x40 True hma0 = Some (SUCCESS, Some p, s1)"
  using DosHMAAlloc_first_fit[where s = hma0 and bs = "[Blk 65504 0]" and n = 64 and topdown = True] hma0_ok
  by (auto simp: fits_def)

section \<open>Releasing\<close>

lemma hview_set_owner:
  assumes "hview m (unat p) = Some (b, l)"
  shows "hview (set_owner p w m) (unat p) = Some (Blk (bsize b) w, l)"
    "x + 16 \<le> unat p \<or> unat p + 16 \<le> x \<Longrightarrow> hview (set_owner p w m) x = hview m x"
  using hview_SomeD[OF assms]
  by (auto simp: hview_def set_owner_def Let_def)

lemma chain_set_owner:
  assumes c: "chain 16 65536 (hview m) a (pre @ b # post)" and p: "unat p = a + span 16 pre"
  shows "chain 16 65536 (hview (set_owner p w m)) a (pre @ Blk (bsize b) w # post)"
proof -
  have v: "hview m (unat p) = Some (b, post = [])" using chain_at[OF c] p by simp
  show ?thesis
    by (rule chain_splice1[OF c p]) (auto simp: hview_set_owner[OF v])
qed

lemma hma_used_header:
  assumes "hma_ok s bs" "(unat (off :: 16 word), k, w) \<in> hma_used bs"
  obtains pre b post where "bs = pre @ b # post" "unat (off - 16) = 16 + span 16 pre" "bsize b = k" "bowner b = w" "w \<noteq> 0"
    "chain 16 65536 (hview (hmem s)) 16 (pre @ b # post)" "off \<noteq> 0" "unat off = 16 + span 16 pre + 16"
proof -
  from used_split[OF assms(2)[unfolded hma_used_def]] obtain pre b post where
    b: "bs = pre @ b # post" "unat off = 16 + span 16 pre + 16" "bsize b = k" "bowner b = w" "w \<noteq> 0" .
  have "unat (off - 16) = 16 + span 16 pre" using b(2) by (simp add: unat_sub word_le_nat_alt)
  moreover have "off \<noteq> 0" using b(2) by auto
  ultimately show ?thesis using b that assms(1) by (simp add: hma_ok_def hchain_def)
qed

text \<open>
  \<open>DosHMAFree\<close> of an area in use succeeds and takes exactly that area out of use; the
  chain stays well formed, the freed block joined with the free ones behind it.
\<close>

theorem DosHMAFree_releases:
  assumes ok: "hma_ok s bs" and u: "(unat off, k, w) \<in> hma_used bs"
  shows "\<exists>s1 bs1. DosHMAFree off s = Some (SUCCESS, s1) \<and> hma_ok s1 bs1 \<and> span 16 bs1 = span 16 bs \<and>
    hma_used bs1 = hma_used bs - {(unat off, k, w)}"
proof -
  from hma_used_header[OF ok u] obtain pre b post where
    b: "bs = pre @ b # post" "unat (off - 16) = 16 + span 16 pre" "bsize b = k" "bowner b = w" "w \<noteq> 0"
    and c: "chain 16 65536 (hview (hmem s)) 16 (pre @ b # post)" and nz: "off \<noteq> 0"
    and uo: "unat off = 16 + span 16 pre + 16" .
  have v: "hview (hmem s) (unat (off - 16)) = Some (b, post = [])" using chain_at[OF c] b(2) by simp
  let ?m = "set_owner (off - 16) 0 (hmem s)"
  from hma.join_in_chain[OF chain_set_owner[OF c b(2), of 0]] obtain m' where
    j: "hma_joinMCBs (word_of_nat (16 + span 16 pre)) ?m = Some (0, m')"
    and c': "chain 16 65536 (hview m') 16 (pre @ absorb 16 (Blk (bsize b) 0) post)" by blast
  have j: "hma_joinMCBs (off - 16) ?m = Some (0, m')" using j word_eq_of_nat[OF b(2)] by simp
  let ?bs1 = "pre @ absorb 16 (Blk (bsize b) 0) post"
  have "DosHMAFree off s = Some (SUCCESS, s\<lparr>hmem := m'\<rparr>)"
    using ok nz hview_fields(1,3)[OF v] b(4,5) j
    by (simp add: DosHMAFree_def hma_ok_def Let_def SUCCESS_def)
  moreover have "sizes_dvd 16 (absorb 16 (Blk (bsize b) 0) post)"
    using ok b(1) by (intro sizes_dvd_absorb) (simp add: hma_ok_def)
  then have "hma_ok (s\<lparr>hmem := m'\<rparr>) ?bs1" using ok c' b(1) by (simp add: hma_ok_def hchain_def)
  moreover have "hma_used ?bs1 = hma_used bs - {(unat off, k, w)}"
  proof -
    have "used 16 16 ?bs1 = used 16 16 (pre @ Blk (bsize b) 0 # post)"
      using used_absorb[of "Blk (bsize b) 0" 16] by simp
    also have "\<dots> = used 16 16 bs - {(16 + span 16 pre + 16, bsize b, bowner b)}"
      using used_release[of b 16 16 pre post] b by simp
    also have "16 + span 16 pre + 16 = unat off" using uo by simp
    finally show ?thesis using b(3,4) by (simp add: hma_used_def)
  qed
  ultimately show ?thesis using b(1) by (intro exI[of _ "s\<lparr>hmem := m'\<rparr>"] exI[of _ ?bs1]) simp
qed

text \<open>A claimed HMA with one block of 64 bytes of the process 1234h at its start.\<close>

definition hma1 :: hma where
  "hma1 = hma0\<lparr>hmem := set_owner 16 0x1234 (snd (hma_split 64 False 16 (hmem hma0)))\<rparr>"

lemma hma1_ok: "hma_ok hma1 [Blk 64 0x1234, Blk 65424 0]" "cu_psp hma1 = 0x1234"
proof -
  have c: "chain 16 65536 (hview (hmem hma0)) 16 ([] @ Blk 65504 0 # [])"
    using hma0_ok by (simp add: hma_ok_def hchain_def)
  obtain g m1 where sp: "hma_split 64 False 16 (hmem hma0) = (g, m1)" by force
  have g: "g = 16" using sp by (auto simp: hma_split_def Let_def split: if_splits)
  have "chain 16 65536 (hview (hmem hma1)) 16 ([] @ carve 16 (unat (64 :: 16 word)) False 0x1234 (Blk 65504 0) @ [])"
    using hma_split_ok(1)[OF c _ _ _ sp, where w = "0x1234"] sp g by (simp add: hma1_def fits_def)
  then show "hma_ok hma1 [Blk 64 0x1234, Blk 65424 0]"
    using hma0_ok by (simp add: hma_ok_def hchain_def carve_def hma1_def)
  show "cu_psp hma1 = 0x1234" using hma0_ok by (simp add: hma1_def)
qed

theorem DosHMAFree_releases_witness:
  "\<exists>s1 bs1. DosHMAFree 32 hma1 = Some (SUCCESS, s1) \<and> hma_ok s1 bs1 \<and> hma_used bs1 = {}"
  using DosHMAFree_releases[OF hma1_ok(1), of 32 64 "0x1234"] by (simp add: hma_used_def) blast

section \<open>The release at process exit\<close>

lemma free_owner_idle:
  "chain 16 65536 (hview (hmem s)) (unat p) bs \<Longrightarrow> HMAclaimed s \<Longrightarrow>
   (\<And>pre b post. bs = pre @ b # post \<Longrightarrow> bowner b = ps \<Longrightarrow>
      h_sig (hmem s) (word_of_nat (unat p + span 16 pre) - 16) \<noteq> HMCB_SIG) \<Longrightarrow>
   hma_free_owner ps p s = Some (SUCCESS, s)"
proof (induction bs arbitrary: p)
  case (Cons b bs)
  have v: "hview (hmem s) (unat p) = Some (b, bs = [])" using Cons.prems(1) by simp
  note f = hview_fields[OF v]
  have "bowner b = ps \<Longrightarrow> h_sig (hmem s) (p - 16) \<noteq> HMCB_SIG" using Cons.prems(3)[of "[]" b bs] by simp
  then have d: "(if h_owner (hmem s) p = ps then DosHMAFree p s else Some (SUCCESS, s)) = Some (SUCCESS, s) \<or>
      (if h_owner (hmem s) p = ps then DosHMAFree p s else Some (SUCCESS, s)) = Some (DE_INVLDMCB, s)"
    using Cons.prems(2) f(3) by (simp add: DosHMAFree_def Let_def)
  show ?case
  proof (cases "bs = []")
    case True
    then show ?thesis using d f(1,4) by (subst hma_free_owner.simps) auto
  next
    case False
    then have n: "unat (h_next (hmem s) p) = unat p + 16 + bsize b" using f(5) by simp
    have "hma_free_owner ps (h_next (hmem s) p) s = Some (SUCCESS, s)"
    proof (rule Cons.IH)
      show "chain 16 65536 (hview (hmem s)) (unat (h_next (hmem s) p)) bs" using Cons.prems(1) False n by simp
      show "h_sig (hmem s) (word_of_nat (unat (h_next (hmem s) p) + span 16 pre) - 16) \<noteq> HMCB_SIG"
        if "bs = pre @ c # post" "bowner c = ps" for pre c post
        using Cons.prems(3)[of "b # pre" c post] that n by (simp add: add.assoc)
    qed (rule Cons.prems(2))
    then show ?thesis using d f(1,4) False by (subst hma_free_owner.simps) auto
  qed
qed simp

text \<open>
  \<open>FreeProcessHMA\<close>, called when a process ends, frees nothing: it hands
  \<open>DosHMAFree\<close> the offset of a header where that expects the offset of the area, so the
  check of the signature looks 16 bytes in front of the header. Unless those bytes, the
  last of the area before, happen to hold a signature, the HMA is left as it was and the
  areas of the process stay in use for ever.
\<close>

theorem FreeProcessHMA_frees_nothing:
  assumes "hma_ok s bs"
    and "\<And>pre b post. bs = pre @ b # post \<Longrightarrow> bowner b = ps \<Longrightarrow>
      h_sig (hmem s) (word_of_nat (16 + span 16 pre) - 16) \<noteq> HMCB_SIG"
  shows "FreeProcessHMA ps s = Some (SUCCESS, s)"
  using free_owner_idle[of s FIRST_MCB bs ps] assms
  by (simp add: FreeProcessHMA_def hma_ok_def hchain_def FIRST_MCB_def)

theorem FreeProcessHMA_frees_nothing_witness:
  "FreeProcessHMA 0x1234 hma1 = Some (SUCCESS, hma1) \<and> (32, 64, 0x1234) \<in> hma_used [Blk 64 0x1234, Blk 65424 0]"
proof -
  have "h_sig (hmem hma1) 0 \<noteq> HMCB_SIG"
    by (simp add: hma1_def hma0_def hma_split_def HMAInitFirstMcb_def Let_def h_sig_def set_owner_def set_size_def
        set_next_def init_mcb_def nxtMCBsize_def h_size_def h_next_def get16_def put16_def HMCB_SIG_def word_less_nat_alt)
  then have "FreeProcessHMA 0x1234 hma1 = Some (SUCCESS, hma1)"
    by (intro FreeProcessHMA_frees_nothing[OF hma1_ok(1)]) (auto simp: Cons_eq_append_conv)
  then show ?thesis by (simp add: hma_used_def)
qed

section \<open>The multiplex interface\<close>

lemma and_fff0: "x AND 0xfff0 = push_bit 4 (drop_bit 4 (x :: 16 word))"
proof -
  have "(0xfff0 :: 16 word) = push_bit 4 (mask 12)" by (simp add: mask_eq_exp_minus_1 push_bit_eq_mult)
  moreover have "x AND push_bit 4 (mask 12) = push_bit 4 (drop_bit 4 x)"
    by (rule bit_eqI) (auto simp: bit_simps)
  ultimately show ?thesis by simp
qed

lemma unat_and_fff0: "unat (x AND 0xfff0 :: 16 word) = unat x div 16 * 16"
proof -
  have "unat x div 16 * 16 < 65536" using unat16[of x] by linarith
  then show ?thesis
    by (simp add: and_fff0 push_bit_eq_mult drop_bit_eq_div unat_word_ariths unat_div mult.commute)
qed

lemma unat_para_align: "unat (para_align n) = (unat n + 15) mod 65536 div 16 * 16"
  by (simp add: para_align_def unat_and_fff0 unat_word_ariths)

lemma para_align_dvd: "16 dvd unat (para_align n)"
  by (simp add: unat_para_align)

lemma para_align_wraps: "0xfff0 < n \<Longrightarrow> para_align n = 0"
proof -
  assume "0xfff0 < n"
  then have "65520 < unat n" by (simp add: word_less_nat_alt)
  then have "(unat n + 15) mod 65536 = unat n + 15 - 65536" using unat16[of n] by (simp add: mod_if)
  then have "unat (para_align n) = unat (0 :: 16 word)" using unat16[of n] by (simp add: unat_para_align)
  then show "para_align n = 0" by (simp only: word_unat_eq_iff)
qed

lemma coalesce_free: "b \<in> set bs \<Longrightarrow> is_free b \<Longrightarrow> \<exists>c \<in> set (coalesce h bs). is_free c"
proof (induction bs)
  case (Cons x bs)
  show ?case
  proof (cases "coalesce h bs")
    case Nil
    with Cons.prems show ?thesis by simp
  next
    case (Cons c cs)
    note e = this
    show ?thesis
    proof (cases "is_free x \<and> is_free c")
      case False
      have "b = x \<or> (\<exists>d \<in> set (c # cs). is_free d)" using Cons.IH Cons.prems e by auto
      with False e Cons.prems show ?thesis by auto
    qed (use e in simp)
  qed
qed simp

text \<open>
  A request of more than FFF0h bytes through the multiplex interface (function 4A03h)
  succeeds although no block of the HMA is that large: rounding the size up to a paragraph
  wraps to zero in 16 bits, and an area of zero bytes is handed out.
\<close>

theorem int2F_4A_huge_request_succeeds:
  assumes ok: "hma_ok s bs" and free: "b \<in> set bs" "is_free b" and psp: "cu_psp s \<noteq> 0"
    and r: "r_ax r = 0x4a03" "r_dx r = 0" "0xfff0 < r_bx r"
  shows "\<exists>s1 bs1 di a. int2F_4A claim r s = Some (r\<lparr>r_es := 0xffff, r_bx := 0, r_di := di\<rparr>, s1) \<and>
    hma_ok s1 bs1 \<and> hma_used bs1 = insert (a, 0, cu_psp s) (hma_used bs)"
proof (rule DosHMAAlloc_cases[OF ok _ psp, of 0 False])
  assume "\<forall>c \<in> set (coalesce 16 bs). \<not> fits (unat (0 :: 16 word)) c"
  with coalesce_free[OF free, of 16] show ?thesis by (auto simp: fits_def)
next
  fix s1 g pre c post
  assume "DosHMAAlloc 0 False s = Some (SUCCESS, Some (g + 16), s1)"
    "hma_ok s1 (pre @ carve 16 (unat (0 :: 16 word)) False (cu_psp s) c @ post)"
    "hma_used (pre @ carve 16 (unat (0 :: 16 word)) False (cu_psp s) c @ post) =
      insert (unat g + 16, unat (0 :: 16 word), cu_psp s) (hma_used bs)"
  then show ?thesis
    using r ok para_align_wraps[OF r(3)]
    by (intro exI[of _ s1] exI[of _ "pre @ carve 16 0 False (cu_psp s) c @ post"] exI[of _ "g + 16"] exI[of _ "unat g + 16"])
      (simp add: int2F_4A_def Let_def set_claimed_def hma_ok_def hma_alloc_call_def hma_finish_def SUCCESS_def)
qed simp

theorem int2F_4A_huge_request_succeeds_witness:
  "\<exists>s1 di. int2F_4A False \<lparr>r_ax = 0x4a03, r_bx = 0xfff8, r_dx = 0, r_di = 0, r_es = 0\<rparr> hma0 =
    Some (\<lparr>r_ax = 0x4a03, r_bx = 0, r_dx = 0, r_di = di, r_es = 0xffff\<rparr>, s1)"
  using int2F_4A_huge_request_succeeds[OF hma0_ok(1), where b = "Blk 65504 0" and claim = False
      and r = "\<lparr>r_ax = 0x4a03, r_bx = 0xfff8, r_dx = 0, r_di = 0, r_es = 0\<rparr>"] hma0_ok(2)
  by auto

section \<open>The query\<close>

lemma hma_last_chain:
  "chain 16 65536 (hview m) (unat p) (xs @ [b]) \<Longrightarrow>
     hma_last p m = Some (SUCCESS, word_of_nat (unat p + span 16 xs))"
proof (induction xs arbitrary: p)
  case Nil
  then have v: "hview m (unat p) = Some (b, True)" by simp
  with hview_fields(4)[OF v] show ?case by (subst hma_last.simps) simp
next
  case (Cons x xs)
  then have v: "hview m (unat p) = Some (x, False)" by simp
  note f = hview_fields[OF v]
  have "chain 16 65536 (hview m) (unat (h_next m p)) (xs @ [b])" using Cons.prems f(5) by simp
  from Cons.IH[OF this] f(1,4,5) show ?case by (subst hma_last.simps) (simp add: add.assoc)
qed

text \<open>
  \<open>DosHMAQuery\<close> ends on every well-formed chain and reports the last block: the
  offset of its header and its size. It does so whether that block is free or in use, so
  the free space it reports may belong to a process already.
\<close>

theorem DosHMAQuery_reports_last:
  assumes "hma_ok s (bs @ [b])"
  shows "DosHMAQuery s = Some (SUCCESS, Some (word_of_nat (16 + span 16 bs), word_of_nat (bsize b)))"
proof -
  have c: "chain 16 65536 (hview (hmem s)) (unat FIRST_MCB) (bs @ [b])" and cl: "HMAclaimed s"
    using assms by (auto simp: hma_ok_def hchain_def FIRST_MCB_def)
  have "unat FIRST_MCB + span 16 bs < 65536" using chain_at[OF c] by simp
  note u = unat_of_nat16[OF this]
  have "hview (hmem s) (unat (word_of_nat (unat FIRST_MCB + span 16 bs) :: 16 word)) = Some (b, True)"
    using chain_at[OF c] u by simp
  from word_eq_of_nat[OF hview_fields(2)[OF this]] hma_last_chain[OF c] cl show ?thesis
    by (simp add: DosHMAQuery_def SUCCESS_def FIRST_MCB_def)
qed

theorem DosHMAQuery_reports_last_witness:
  "DosHMAQuery hma1 = Some (SUCCESS, Some (96, 65424))"
  using DosHMAQuery_reports_last[of hma1 "[Blk 64 0x1234]" "Blk 65424 0"] hma1_ok(1) by simp

section \<open>The boot-time allocator\<close>

lemma and_1fff0:
  fixes x :: int
  assumes "0 \<le> x" "x < 0x20000"
  shows "x AND 0x1fff0 = x - x mod 16"
proof -
  have "(0x1fff0 :: int) = push_bit 4 (mask 13)" by (simp add: mask_eq_exp_minus_1 push_bit_eq_mult)
  moreover have "x AND push_bit 4 (mask 13) = push_bit 4 (take_bit 13 (drop_bit 4 x))"
    by (rule bit_eqI) (auto simp: bit_simps)
  moreover have "x div 16 < 8192" using assms(2) by linarith
  then have "take_bit 13 (drop_bit 4 x) = x div 16"
    using assms(1) by (simp add: take_bit_eq_mod drop_bit_eq_div)
  ultimately show ?thesis by (simp add: push_bit_eq_mult minus_mod_eq_div_mult)
qed

text \<open>
  \<open>HMAalloc\<close> hands out the HMA in order: the area starts at the first free byte,
  ends by the end of the segment, is cleared, and nothing else is written; the first free
  byte moves to the next paragraph boundary behind it. When the rest is too small, nothing
  changes.
\<close>

theorem HMAalloc_bumps:
  assumes cl: "HMAclaimed s" and F: "0 \<le> F" "F \<le> 0x10000" "F mod 16 = 0" and b: "bytes \<noteq> 0"
  shows "if F + uint bytes \<le> 0x10000
    then \<exists>p F' s'. HMAalloc bytes F s = (p, F', s') \<and> uint p = F \<and>
      F + uint bytes \<le> F' \<and> F' < F + uint bytes + 16 \<and> F' \<le> 0x10000 \<and> F' mod 16 = 0 \<and>
      (\<forall>x. hmem s' x = (if F \<le> int x \<and> int x < F + uint bytes then 0 else hmem s x))
    else HMAalloc bytes F s = (0xffff, F, s)"
proof (cases "F + uint bytes \<le> 0x10000")
  case True
  let ?p = "word_of_int F :: 16 word" and ?F = "(F + uint bytes + 0xf) AND 0x1fff0"
  have b0: "0 < uint bytes" using b word_uint_eq_iff[of bytes 0] by (simp add: less_le)
  then have lt: "F < 65536" using True by simp
  have p: "uint ?p = F" using F(1) lt by (simp add: uint_word_of_int)
  then have pn: "int (unat ?p) = F" by simp
  have F': "?F = F + uint bytes + 15 - (F + uint bytes + 15) mod 16"
    using F(1) True b0 by (intro and_1fff0) auto
  have m: "0 \<le> (F + uint bytes + 15) mod 16" "(F + uint bytes + 15) mod 16 < 16" by simp_all
  have d: "?F mod 16 = 0" unfolding F' by (simp add: mod_diff_eq [symmetric])
  have le: "?F \<le> 0x10000"
  proof (rule ccontr)
    assume "\<not> ?thesis"
    then have "0x10010 \<le> ?F" using d by presburger
    then show False using F' True m by linarith
  qed
  have mem: "(unat ?p \<le> x \<and> x < unat ?p + unat bytes) = (F \<le> int x \<and> int x < F + uint bytes)" for x
    using pn by (metis of_nat_add of_nat_le_iff of_nat_less_iff uint_nat)
  show ?thesis
    using True cl b p F' m d le b0 by (auto simp: HMAalloc_def Let_def mem)
next
  case False
  then show ?thesis using cl b by (simp add: HMAalloc_def)
qed

theorem HMAalloc_bumps_witness:
  "\<exists>s'. HMAalloc 0x25 0x40 hma0 = (0x40, 0x70, s')"
proof -
  have "uint (p :: 16 word) = 64 \<Longrightarrow> p = 64" for p by (simp add: word_uint_eq_iff)
  then show ?thesis
    using HMAalloc_bumps[of hma0 "0x40" "0x25"] hma0_ok(1)
    by (auto simp: hma_ok_def)
qed

end
