(* ===== verification/Memmgr.thy ===== *)
theory Memmgr
  imports Hma
begin

text \<open>
  The DOS memory manager of kernel/memmgr.c: the chain of memory control blocks.

  A pointer to an MCB is its linear paragraph number (the segments the code works with
  have offset 0; a sum beyond FFFFh becomes an offset into segment FFFFh, which is the same
  linear paragraph), and memory gives the MCB at a paragraph. The null far pointer is
  paragraph 0: following it is a trap. \<open>para2far\<close> is thus the identity. A mode is the
  16-bit \<open>COUNT\<close> it is passed as. \<open>MCBDESTRY\<close> yields \<open>DE_MCBDESTRY\<close> as in the HMA
  manager, and the loops are partial functions again. An output parameter is an optional
  result, \<open>None\<close> when the code does not write it.
\<close>

section \<open>State\<close>

record mcb =
  m_type :: "8 word"
  m_psp :: "16 word"
  m_size :: "16 word"
  m_name :: "8 word list"

type_synonym mcbs = "nat \<Rightarrow> mcb"

record dosmem = hma +
  mcbs :: mcbs
  first_mcb :: "16 word"
  uppermem_root :: "16 word"
  uppermem_link :: "8 word"
  mem_access_mode :: "8 word"

definition MCB_NORMAL :: "8 word" where "MCB_NORMAL = 0x4d"
definition MCB_LAST :: "8 word" where "MCB_LAST = 0x5a"

definition LARGEST :: "16 word" where "LARGEST = -1"
definition FIRST_FIT :: "16 word" where "FIRST_FIT = 0"
definition BEST_FIT :: "16 word" where "BEST_FIT = 1"
definition LAST_FIT :: "16 word" where "LAST_FIT = 2"
definition FIRST_FIT_UO :: "16 word" where "FIRST_FIT_UO = 0x40"
definition BEST_FIT_UO :: "16 word" where "BEST_FIT_UO = 0x41"
definition LAST_FIT_UO :: "16 word" where "LAST_FIT_UO = 0x42"
definition FIRST_FIT_U :: "16 word" where "FIRST_FIT_U = 0x80"
definition BEST_FIT_U :: "16 word" where "BEST_FIT_U = 0x81"
definition LAST_FIT_U :: "16 word" where "LAST_FIT_U = 0x82"

lemmas mode_defs = LARGEST_def FIRST_FIT_def BEST_FIT_def LAST_FIT_def FIRST_FIT_UO_def BEST_FIT_UO_def
  LAST_FIT_UO_def FIRST_FIT_U_def BEST_FIT_U_def LAST_FIT_U_def

definition FP_SEG :: "nat \<Rightarrow> nat" where "FP_SEG p = min p 0xffff"

definition nxtMCB :: "mcbs \<Rightarrow> nat \<Rightarrow> nat" where
  "nxtMCB m p = p + unat (m_size (m p)) + 1"

definition mcbFree :: "mcb \<Rightarrow> bool" where "mcbFree b \<longleftrightarrow> m_psp b = 0"

definition mcbFreeable :: "mcb \<Rightarrow> bool" where
  "mcbFreeable b \<longleftrightarrow> m_type b = MCB_NORMAL \<or> m_type b = MCB_LAST"

definition mcbValid :: "mcb \<Rightarrow> bool" where
  "mcbValid b \<longleftrightarrow> m_size b \<noteq> 0xffff \<and> (m_type b = MCB_NORMAL \<or> m_type b = MCB_LAST)"

section \<open>Joining\<close>

partial_function (option) joinMCBs :: "nat \<Rightarrow> mcbs \<Rightarrow> (int \<times> mcbs) option" where
  "joinMCBs p m =
     (if m_type (m p) \<noteq> MCB_NORMAL then Some (SUCCESS, m)
      else let q = nxtMCB m p in
        if \<not> mcbFree (m q) then Some (SUCCESS, m)
        else if \<not> mcbValid (m q) then Some (DE_MCBDESTRY, m)
        else let m1 = m(p := (m p)\<lparr>m_type := m_type (m q), m_size := m_size (m p) + (m_size (m q) + 1)\<rparr>)
             in joinMCBs p (m1(q := (m1 q)\<lparr>m_size := 0xffff\<rparr>)))"

section \<open>Allocation\<close>

definition first_mode :: "16 word \<Rightarrow> bool" where
  "first_mode mode \<longleftrightarrow> mode = FIRST_FIT \<or> mode = FIRST_FIT_U \<or> mode = FIRST_FIT_UO"

definition best_mode :: "16 word \<Rightarrow> bool" where
  "best_mode mode \<longleftrightarrow> mode = BEST_FIT \<or> mode = BEST_FIT_U \<or> mode = BEST_FIT_UO"

definition last_mode :: "16 word \<Rightarrow> bool" where
  "last_mode mode \<longleftrightarrow> mode = LAST_FIT \<or> mode = LAST_FIT_U \<or> mode = LAST_FIT_UO"

definition bigger :: "mcbs \<Rightarrow> nat option \<Rightarrow> nat \<Rightarrow> nat option" where
  "bigger m big p =
     (case big of None \<Rightarrow> Some p | Some g \<Rightarrow> if m_size (m g) < m_size (m p) then Some p else Some g)"

text \<open>The switch over the modes, for a block that is large enough.\<close>

definition rule_set :: "16 word \<Rightarrow> mcbs \<Rightarrow> nat option \<Rightarrow> nat \<Rightarrow> nat option" where
  "rule_set mode m found p =
     (if mode = LARGEST then found
      else if best_mode mode then
        (case found of None \<Rightarrow> Some p | Some f \<Rightarrow> if m_size (m p) < m_size (m f) then Some p else Some f)
      else Some p)"

text \<open>The outcome of the loop: a corrupt chain, a jump to \<open>stopIt\<close>, or the end of the
  chain with \<open>biggestSeg\<close> and \<open>foundSeg\<close>.\<close>

datatype outcome = Destroyed | Stopped nat | Ended "nat option" "nat option"

partial_function (option) mcb_search ::
    "16 word \<Rightarrow> 16 word \<Rightarrow> nat \<Rightarrow> nat option \<Rightarrow> nat option \<Rightarrow> mcbs \<Rightarrow> (outcome \<times> mcbs) option" where
  "mcb_search sz mode p big found m =
     (if \<not> mcbValid (m p) then Some (Destroyed, m)
      else case (if mcbFree (m p) then joinMCBs (FP_SEG p) m else Some (SUCCESS, m)) of
        None \<Rightarrow> None
      | Some (rc, m1) \<Rightarrow>
          if rc \<noteq> SUCCESS then Some (Destroyed, m1)
          else
            let free = mcbFree (m p);
                fit = (free \<and> sz \<le> m_size (m1 p));
                big1 = (if free then bigger m1 big p else big);
                found1 = (if fit then rule_set mode m1 found p else found)
            in if fit \<and> first_mode mode then Some (Stopped p, m1)
               else if m_type (m1 p) = MCB_LAST then Some (Ended big1 found1, m1)
               else mcb_search sz mode (nxtMCB m1 p) big1 found1 m1)"

declare joinMCBs.simps [simp del] mcb_search.simps [simp del]

text \<open>Splitting the found block, and handing it out.\<close>

definition mcb_split :: "16 word \<Rightarrow> 16 word \<Rightarrow> nat \<Rightarrow> mcbs \<Rightarrow> nat \<times> mcbs" where
  "mcb_split sz mode f m =
     (if mode \<noteq> LARGEST \<and> sz \<noteq> m_size (m f) then
        (if last_mode mode then
           (let p = f;
                m1 = m(p := (m p)\<lparr>m_size := m_size (m p) - (sz + 1)\<rparr>);
                g = nxtMCB m1 p;
                m2 = m1(g := (m1 g)\<lparr>m_type := m_type (m1 p)\<rparr>);
                m3 = m2(p := (m2 p)\<lparr>m_type := MCB_NORMAL\<rparr>);
                m4 = m3(p := (m3 p)\<lparr>m_psp := 0\<rparr>)
            in (g, m4(g := (m4 g)\<lparr>m_size := sz\<rparr>)))
         else
           (let p = f + unat sz + 1;
                m1 = m(p := (m p)\<lparr>m_type := m_type (m f), m_size := m_size (m f) - sz - 1\<rparr>);
                m2 = m1(f := (m1 f)\<lparr>m_type := MCB_NORMAL\<rparr>);
                m3 = m2(p := (m2 p)\<lparr>m_psp := 0\<rparr>)
            in (f, m3(f := (m3 f)\<lparr>m_size := sz\<rparr>))))
      else (f, m))"

definition hand_out :: "16 word \<Rightarrow> nat \<Rightarrow> mcbs \<Rightarrow> mcbs" where
  "hand_out psp f m = m(f := (m f)\<lparr>m_psp := psp, m_name := (m_name (m f))[0 := 0]\<rparr>)"

definition umb_linked :: "'a dosmem_scheme \<Rightarrow> bool" where
  "umb_linked s \<longleftrightarrow> uppermem_link s AND 1 \<noteq> 0 \<and> uppermem_root s \<noteq> 0xffff"

definition start_mcb :: "16 word \<Rightarrow> 16 word \<Rightarrow> 'a dosmem_scheme \<Rightarrow> nat" where
  "start_mcb sz mode s =
     (let tmpmode = (if mode = LARGEST then ucast (mem_access_mode s) else mode) in
      if umb_linked s \<and> (mode \<noteq> LARGEST \<or> sz = 0xffff) \<and>
         tmpmode AND (FIRST_FIT_UO OR FIRST_FIT_U) \<noteq> 0
      then unat (uppermem_root s) else unat (first_mcb s))"

text \<open>
  \<open>DosMemAlloc\<close>: the status, \<open>*para\<close> and \<open>*asize\<close>. The call is made with a non-null
  \<open>asize\<close> when the mode is \<open>LARGEST\<close>, as its comment demands; a caller that passes a null
  pointer otherwise ignores the value.
\<close>

type_synonym 'a alloc_result = "int \<times> nat option \<times> 16 word option \<times> 'a"

definition alloc_found ::
    "16 word \<Rightarrow> 16 word \<Rightarrow> nat \<Rightarrow> 16 word option \<Rightarrow> 'a dosmem_scheme \<Rightarrow> mcbs \<Rightarrow> 'a dosmem_scheme alloc_result" where
  "alloc_found sz mode f asize s m =
     (case mcb_split sz mode f m of (g, m1) \<Rightarrow>
        (SUCCESS, Some (FP_SEG g), asize, s\<lparr>mcbs := hand_out (cu_psp s) g m1\<rparr>))"

partial_function (option) DosMemAlloc ::
    "16 word \<Rightarrow> 16 word \<Rightarrow> 'a dosmem_scheme \<Rightarrow> 'a dosmem_scheme alloc_result run option" where
  "DosMemAlloc sz mode s =
     (if start_mcb sz mode s = 0 then Some (Inl Null_deref)
      else case mcb_search sz mode (start_mcb sz mode s) None None (mcbs s) of
        None \<Rightarrow> None
      | Some (Destroyed, m) \<Rightarrow> Some (Inr (DE_MCBDESTRY, None, None, s\<lparr>mcbs := m\<rparr>))
      | Some (Stopped f, m) \<Rightarrow> Some (Inr (alloc_found sz mode f None s m))
      | Some (Ended big found, m) \<Rightarrow>
          let bsz = (case big of None \<Rightarrow> 0 | Some g \<Rightarrow> m_size (m g));
              take = (mode = LARGEST \<and> big \<noteq> None \<and> sz \<le> bsz);
              found1 = (if take then big else found);
              asize = (if take then Some bsz else None)
          in case found1 of
               Some f \<Rightarrow>
                 if m_size (m f) \<noteq> 0 then Some (Inr (alloc_found sz mode f asize s m))
                 else if mode \<noteq> LARGEST \<and> mode AND FIRST_FIT_U \<noteq> 0 \<and> umb_linked s
                 then DosMemAlloc sz (mode AND NOT FIRST_FIT_U) (s\<lparr>mcbs := m\<rparr>)
                 else Some (Inr (DE_NOMEM, None, Some bsz, s\<lparr>mcbs := m\<rparr>))
             | None \<Rightarrow>
                 if mode \<noteq> LARGEST \<and> mode AND FIRST_FIT_U \<noteq> 0 \<and> umb_linked s
                 then DosMemAlloc sz (mode AND NOT FIRST_FIT_U) (s\<lparr>mcbs := m\<rparr>)
                 else Some (Inr (DE_NOMEM, None, Some bsz, s\<lparr>mcbs := m\<rparr>)))"

declare DosMemAlloc.simps [simp del]

text \<open>\<open>DosMemLargest\<close>: the status and \<open>*size\<close>; a result of \<open>DosMemAlloc\<close> that is a
  trap ends the call.\<close>

definition largest_pass :: "'a dosmem_scheme \<Rightarrow> (16 word \<times> 'a dosmem_scheme) run option" where
  "largest_pass s =
     (case DosMemAlloc 0xffff LARGEST s of
        None \<Rightarrow> None
      | Some (Inl t) \<Rightarrow> Some (Inl t)
      | Some (Inr (rc, para, asize, s1)) \<Rightarrow> Some (Inr (case asize of None \<Rightarrow> 0 | Some z \<Rightarrow> z, s1)))"

definition DosMemLargest :: "'a dosmem_scheme \<Rightarrow> (int \<times> 16 word \<times> 'a dosmem_scheme) run option" where
  "DosMemLargest s =
     (case largest_pass s of
        None \<Rightarrow> None
      | Some (Inl t) \<Rightarrow> Some (Inl t)
      | Some (Inr (sz, s1)) \<Rightarrow>
          if mem_access_mode s1 AND 0x80 \<noteq> 0 then
            (case largest_pass (s1\<lparr>mem_access_mode := mem_access_mode s1 AND NOT 0x80\<rparr>) of
               None \<Rightarrow> None
             | Some (Inl t) \<Rightarrow> Some (Inl t)
             | Some (Inr (low, s2)) \<Rightarrow>
                 let z = (if sz < low then low else sz)
                 in Some (Inr (if z \<noteq> 0 then SUCCESS else DE_NOMEM, z,
                      s2\<lparr>mem_access_mode := mem_access_mode s2 OR 0x80\<rparr>)))
          else Some (Inr (if sz \<noteq> 0 then SUCCESS else DE_NOMEM, sz, s1)))"

section \<open>Release and resizing\<close>

definition free_mcb :: "nat \<Rightarrow> mcbs \<Rightarrow> mcbs" where
  "free_mcb p m = m(p := (m p)\<lparr>m_psp := 0, m_name := replicate 8 0\<rparr>)"

definition DosMemFree :: "16 word \<Rightarrow> 'a dosmem_scheme \<Rightarrow> int \<times> 'a dosmem_scheme" where
  "DosMemFree para s =
     (if para = 0 then (DE_INVLDMCB, s)
      else let p = unat para in
        if \<not> mcbFreeable (mcbs s p) then (DE_INVLDMCB, s)
        else if mcbFree (mcbs s p) then (SUCCESS, s)
        else (SUCCESS, s\<lparr>mcbs := free_mcb p (mcbs s)\<rparr>))"

definition mcb_cut :: "nat \<Rightarrow> 16 word \<Rightarrow> mcbs \<Rightarrow> (int \<times> mcbs) option" where
  "mcb_cut p sz m =
     (if sz < m_size (m p) then
        let q = p + unat sz + 1;
            m1 = m(q := (m q)\<lparr>m_size := m_size (m p) - sz - 1, m_type := m_type (m p)\<rparr>);
            m2 = m1(p := (m1 p)\<lparr>m_size := sz, m_type := MCB_NORMAL\<rparr>);
            m3 = m2(q := (m2 q)\<lparr>m_psp := 0\<rparr>)
        in joinMCBs (FP_SEG q) m3
      else Some (SUCCESS, m))"

text \<open>\<open>DosMemChange\<close>: the status and \<open>*maxSize\<close>. The MCB of a data segment \<open>para\<close> is at
  \<open>para - 1\<close>: for 0 the difference is -1, which makes segment FFFFh, and for 1 it is the
  null pointer.\<close>

definition DosMemChange ::
    "16 word \<Rightarrow> 16 word \<Rightarrow> 'a dosmem_scheme \<Rightarrow> (int \<times> 16 word option \<times> 'a dosmem_scheme) run option" where
  "DosMemChange para sz s =
     (let p = (if para = 0 then 0xffff else unat para - 1) in
      if p = 0 then Some (Inl Null_deref)
      else if \<not> mcbValid (mcbs s p) then Some (Inr (DE_INVLDMCB, None, s))
      else case (if m_size (mcbs s p) < sz then joinMCBs (FP_SEG p) (mcbs s) else Some (SUCCESS, mcbs s)) of
        None \<Rightarrow> None
      | Some (rc, m) \<Rightarrow>
          if rc \<noteq> SUCCESS then Some (Inr (DE_MCBDESTRY, None, s\<lparr>mcbs := m\<rparr>))
          else if m_size (m p) < sz then Some (Inr (DE_NOMEM, Some (m_size (m p)), s\<lparr>mcbs := m\<rparr>))
          else case mcb_cut p sz m of
            None \<Rightarrow> None
          | Some (rc, m1) \<Rightarrow>
              if rc \<noteq> SUCCESS then Some (Inr (DE_MCBDESTRY, None, s\<lparr>mcbs := m1\<rparr>))
              else Some (Inr (SUCCESS, None, s\<lparr>mcbs := m1(p := (m1 p)\<lparr>m_psp := cu_psp s\<rparr>)\<rparr>)))"

section \<open>Checking and the upper memory link\<close>

partial_function (option) mcb_check :: "nat \<Rightarrow> mcbs \<Rightarrow> int option" where
  "mcb_check p m =
     (if m_type (m p) = MCB_LAST then Some SUCCESS
      else if m_type (m p) \<noteq> MCB_NORMAL then Some DE_MCBDESTRY
      else mcb_check (nxtMCB m p) m)"

definition DosMemCheck :: "'a dosmem_scheme \<Rightarrow> int run option" where
  "DosMemCheck s =
     (if first_mcb s = 0 then Some (Inl Null_deref)
      else case mcb_check (unat (first_mcb s)) (mcbs s) of
        None \<Rightarrow> None
      | Some rc \<Rightarrow>
          if rc \<noteq> SUCCESS then Some (Inr rc)
          else (case DosHMACheck s of None \<Rightarrow> None | Some rc1 \<Rightarrow> Some (Inr rc1)))"

text \<open>The walk of \<open>DosUmbLink\<close>: \<open>Some None\<close> is the early return on a bad MCB, otherwise
  \<open>q\<close> (which may be null) and \<open>p\<close>.\<close>

partial_function (option) umb_walk :: "nat \<Rightarrow> nat option \<Rightarrow> nat \<Rightarrow> mcbs \<Rightarrow> (nat option \<times> nat) option option" where
  "umb_walk root q p m =
     (if FP_SEG p \<noteq> root \<and> m_type (m p) \<noteq> MCB_LAST
      then if \<not> mcbValid (m p) then Some None else umb_walk root (Some p) (nxtMCB m p) m
      else Some (Some (q, p)))"

definition set_type :: "8 word \<Rightarrow> nat \<Rightarrow> 'a dosmem_scheme \<Rightarrow> 'a dosmem_scheme" where
  "set_type t p s = s\<lparr>mcbs := (mcbs s)(p := (mcbs s p)\<lparr>m_type := t\<rparr>)\<rparr>"

definition DosUmbLink :: "16 word \<Rightarrow> 'a dosmem_scheme \<Rightarrow> 'a dosmem_scheme run option" where
  "DosUmbLink n s =
     (if uppermem_root s = 0xffff then Some (Inr s)
      else if 1 < n \<or> ucast (uppermem_link s AND 1) = n then Some (Inr s)
      else if first_mcb s = 0 then Some (Inl Null_deref)
      else case umb_walk (unat (uppermem_root s)) None (unat (first_mcb s)) (mcbs s) of
        None \<Rightarrow> None
      | Some None \<Rightarrow> Some (Inr s)
      | Some (Some (q, p)) \<Rightarrow>
          if n = 0 then
            (case q of
               None \<Rightarrow> Some (Inl Null_deref)
             | Some q1 \<Rightarrow>
                 Some (Inr ((if m_type (mcbs s q1) = MCB_NORMAL \<and> FP_SEG p = unat (uppermem_root s)
                             then set_type MCB_LAST q1 s else s)\<lparr>uppermem_link := ucast n\<rparr>)))
          else if m_type (mcbs s p) = MCB_LAST
          then Some (Inr ((set_type MCB_NORMAL p s)\<lparr>uppermem_link := ucast n\<rparr>))
          else Some (Inr s))"

section \<open>Release at process exit\<close>

partial_function (option) free_owned :: "16 word \<Rightarrow> nat \<Rightarrow> 'a dosmem_scheme \<Rightarrow> (int \<times> 'a dosmem_scheme) option" where
  "free_owned ps p s =
     (if \<not> mcbValid (mcbs s p) then Some (DE_MCBDESTRY, s)
      else
        let s1 = (if m_psp (mcbs s p) = ps then snd (DosMemFree (word_of_nat (FP_SEG p)) s) else s)
        in if m_type (mcbs s1 p) = MCB_LAST then Some (SUCCESS, s1)
           else free_owned ps (nxtMCB (mcbs s1) p) s1)"

definition FreeProcessMem :: "16 word \<Rightarrow> 'a dosmem_scheme \<Rightarrow> (int \<times> 'a dosmem_scheme) run option" where
  "FreeProcessMem ps s =
     (case DosUmbLink 1 s of
        None \<Rightarrow> None
      | Some (Inl t) \<Rightarrow> Some (Inl t)
      | Some (Inr s1) \<Rightarrow>
          if first_mcb s1 = 0 then Some (Inl Null_deref)
          else case free_owned ps (unat (first_mcb s1)) s1 of
            None \<Rightarrow> None
          | Some (rc, s2) \<Rightarrow>
              if rc \<noteq> SUCCESS then Some (Inr (rc, s2))
              else case DosUmbLink (ucast (uppermem_link s AND 1)) s2 of
                None \<Rightarrow> None
              | Some (Inl t) \<Rightarrow> Some (Inl t)
              | Some (Inr s3) \<Rightarrow>
                  (case FreeProcessHMA ps s3 of
                     None \<Rightarrow> None
                   | Some (_, s4) \<Rightarrow> Some (Inr (SUCCESS, s4))))"

declare mcb_check.simps [simp del] umb_walk.simps [simp del] free_owned.simps [simp del]

section \<open>The system calls\<close>

text \<open>
  Functions 48h, 49h and 4Ah of interrupt 21h (kernel/inthndlr.c): the carry flag, the
  registers the call can change and the state. \<open>panic\<close> is a trap.
\<close>

definition panic_unless_ok :: "'a dosmem_scheme \<Rightarrow> 'b run option \<Rightarrow> 'b run option" where
  "panic_unless_ok s r =
     (case DosMemCheck s of
        None \<Rightarrow> None
      | Some (Inl t) \<Rightarrow> Some (Inl t)
      | Some (Inr rc) \<Rightarrow> if rc \<noteq> SUCCESS then Some (Inl Panic) else r)"

definition int21_48 :: "16 word \<Rightarrow> 'a dosmem_scheme \<Rightarrow> (bool \<times> 16 word \<times> 16 word \<times> 'a dosmem_scheme) run option" where
  "int21_48 bx s =
     (case DosMemAlloc bx (ucast (mem_access_mode s)) s of
        None \<Rightarrow> None
      | Some (Inl t) \<Rightarrow> Some (Inl t)
      | Some (Inr (rc, para, asize, s1)) \<Rightarrow>
          if rc < 0 then
            (case DosMemLargest s1 of
               None \<Rightarrow> None
             | Some (Inl t) \<Rightarrow> Some (Inl t)
             | Some (Inr (_, z, s2)) \<Rightarrow> panic_unless_ok s2 (Some (Inr (True, word_of_int (- rc), z, s2))))
          else
            Some (Inr (False, (case para of None \<Rightarrow> 0 | Some p \<Rightarrow> word_of_nat (p + 1)),
              (case asize of None \<Rightarrow> bx | Some z \<Rightarrow> z), s1)))"

definition int21_49 :: "16 word \<Rightarrow> 16 word \<Rightarrow> 'a dosmem_scheme \<Rightarrow> (bool \<times> 16 word \<times> 'a dosmem_scheme) run option" where
  "int21_49 ax es s =
     (case DosMemFree (es - 1) s of
        (rc, s1) \<Rightarrow>
          if rc < SUCCESS then panic_unless_ok s1 (Some (Inr (True, word_of_int (- rc), s1)))
          else Some (Inr (False, ax, s1)))"

definition int21_4A ::
    "16 word \<Rightarrow> 16 word \<Rightarrow> 'a dosmem_scheme \<Rightarrow> (bool \<times> 16 word \<times> 16 word \<times> 'a dosmem_scheme) run option" where
  "int21_4A es bx s =
     panic_unless_ok s
      (case DosMemChange es bx s of
         None \<Rightarrow> None
       | Some (Inl t) \<Rightarrow> Some (Inl t)
       | Some (Inr (rc, maxs, s1)) \<Rightarrow>
           let bx1 = (case maxs of None \<Rightarrow> bx | Some z \<Rightarrow> z) in
           if rc < 0 then panic_unless_ok s1 (Some (Inr (True, word_of_int (- rc), bx1, s1)))
           else Some (Inr (False, es, bx1, s1)))"

end
