(* ===== verification/Memmgr_Proofs.thy ===== *)
theory Memmgr_Proofs
  imports Memmgr Hma_Props
begin

text \<open>
  The DOS memory manager against the block lists of \<^theory_text>\<open>Blocks\<close>: the view of an MCB, the
  interpretation of \<open>block_heap\<close> on \<open>joinMCBs\<close>, the search under each rule and the split.
\<close>

declare One_nat_def [simp del]

definition mview :: "mcbs \<Rightarrow> view" where
  "mview m a =
     (if mcbValid (m a) then Some (Blk (unat (m_size (m a))) (m_psp (m a)), m_type (m a) = MCB_LAST) else None)"

abbreviation mchain :: "mcbs \<Rightarrow> nat \<Rightarrow> blk list \<Rightarrow> bool" where
  "mchain m \<equiv> chain 1 65536 (mview m)"

lemma types_differ [simp]: "MCB_LAST \<noteq> MCB_NORMAL" "MCB_NORMAL \<noteq> MCB_LAST"
  by (simp_all add: MCB_LAST_def MCB_NORMAL_def)

lemma mview_SomeD:
  assumes "mview m a = Some (b, l)"
  shows "mcbValid (m a)" "unat (m_size (m a)) = bsize b" "m_psp (m a) = bowner b" "mcbFree (m a) \<longleftrightarrow> is_free b"
    "m_type (m a) = (if l then MCB_LAST else MCB_NORMAL)" "nxtMCB m a = a + 1 + bsize b"
  using assms by (auto simp: mview_def mcbValid_def mcbFree_def nxtMCB_def split: if_splits)

lemma mview_same: "m' a = m a \<Longrightarrow> mview m' a = mview m a"
  by (simp add: mview_def)

lemma mview_upd:
  "m_type c = (if l then MCB_LAST else MCB_NORMAL) \<Longrightarrow> m_size c \<noteq> 0xffff \<Longrightarrow>
    mview (m(a := c)) a = Some (Blk (unat (m_size c)) (m_psp c), l)"
  by (simp add: mview_def mcbValid_def)

lemma size_ok: "unat (w :: 16 word) < 65535 \<Longrightarrow> w \<noteq> 0xffff"
  by (auto simp: One_nat_def)

interpretation mem: block_heap 1 65536 mview joinMCBs
proof unfold_locales
  fix m a b
  assume "mview m a = Some (b, True)"
  from mview_SomeD[OF this] show "joinMCBs a m = Some (0, m)"
    by (subst joinMCBs.simps) (simp add: SUCCESS_def)
next
  fix m a b c l
  assume v: "mview m a = Some (b, False)" "mview m (a + 1 + bsize b) = Some (c, l)"
  let ?q = "a + 1 + bsize b"
  note p = mview_SomeD[OF v(1)] and q = mview_SomeD[OF v(2)]
  show "joinMCBs a m = Some (0, m)" if "bowner c \<noteq> 0"
    using that p q by (subst joinMCBs.simps) (simp add: SUCCESS_def)
  assume f: "is_free c" and le: "?q + 1 + bsize c \<le> 65536" and pos: "0 < a"
  let ?w = "m_size (m a) + (m_size (m ?q) + 1)"
  let ?m1 = "m(a := (m a)\<lparr>m_type := m_type (m ?q), m_size := ?w\<rparr>)"
  let ?m = "?m1(?q := (?m1 ?q)\<lparr>m_size := 0xffff\<rparr>)"
  have w: "unat ?w = bsize b + 1 + bsize c"
    using p(2) q(2) le pos by (simp add: unat_word_ariths)
  have "joinMCBs a m = joinMCBs a ?m"
    using p q f by (subst joinMCBs.simps) (simp add: Let_def)
  moreover have "mview ?m a = Some (Blk (bsize b + 1 + bsize c) (bowner b), l)"
    using w p(3) q(5) le pos size_ok[of ?w] by (auto simp: mview_def mcbValid_def)
  moreover have "\<forall>x. x + 1 \<le> a \<or> ?q + 1 \<le> x \<longrightarrow> mview ?m x = mview m x"
    by (auto intro!: mview_same)
  ultimately show "\<exists>m'. joinMCBs a m = joinMCBs a m' \<and>
      mview m' a = Some (Blk (bsize b + 1 + bsize c) (bowner b), l) \<and>
      (\<forall>x. x + 1 \<le> a \<or> ?q + 1 \<le> x \<longrightarrow> mview m' x = mview m x)" by blast
qed

section \<open>The search\<close>

text \<open>One turn of the loop on a well-formed chain: the head is joined, then examined.\<close>

lemma mcb_search_step:
  assumes c: "mchain m p (b # bs)"
  obtains x xs m1 where
    "coalesce 1 (b # bs) = x # coalesce 1 xs" "coalesce 1 (x # xs) = x # coalesce 1 xs"
    "mchain m1 p (x # xs)" "length xs \<le> length bs" "\<forall>a < p. mview m1 a = mview m a"
    "bowner x = bowner b"
    "mcb_search sz mode p big fnd m =
       (if fits (unat sz) x \<and> first_mode mode then Some (Stopped p, m1)
        else
          let big1 = (if is_free x then bigger m1 big p else big);
              fnd1 = (if fits (unat sz) x then rule_set mode m1 fnd p else fnd)
          in if xs = [] then Some (Ended big1 fnd1, m1)
             else mcb_search sz mode (p + 1 + bsize x) big1 fnd1 m1)"
proof -
  have v: "mview m p = Some (b, bs = [])" and seg: "FP_SEG p = p" using c by (auto simp: FP_SEG_def)
  note f = mview_SomeD[OF v]
  obtain x xs m1 where x: "coalesce 1 (b # bs) = x # coalesce 1 xs" "coalesce 1 (x # xs) = x # coalesce 1 xs"
      "mchain m1 p (x # xs)" "length xs \<le> length bs" "\<forall>a < p. mview m1 a = mview m a" "bowner x = bowner b"
      "(if mcbFree (m p) then joinMCBs (FP_SEG p) m else Some (SUCCESS, m)) = Some (SUCCESS, m1)"
  proof (cases "is_free b")
    case True
    obtain x xs where a: "absorb 1 b bs = x # xs" "bowner x = bowner b" "length xs \<le> length bs"
      using absorb_Cons by metis
    obtain m1 where "joinMCBs p m = Some (0, m1)" "mchain m1 p (absorb 1 b bs)" "\<forall>a < p. mview m1 a = mview m a"
      using mem.join_chain[OF c] by (auto simp: Suc_le_eq)
    with a True f(4) seg coalesce_absorbed[OF True a(1)] show ?thesis
      by (intro that[of x xs m1]) (simp_all add: SUCCESS_def)
  next
    case False
    with f(4) c coalesce_used[OF False] show ?thesis
      by (intro that[of b bs m]) (simp_all add: SUCCESS_def)
  qed
  have v1: "mview m1 p = Some (x, xs = [])" using x(3) by simp
  note f1 = mview_SomeD[OF v1]
  have fr: "mcbFree (m p) = is_free x" using f(4) x(6) by simp
  have "mcb_search sz mode p big fnd m =
       (if fits (unat sz) x \<and> first_mode mode then Some (Stopped p, m1)
        else
          let big1 = (if is_free x then bigger m1 big p else big);
              fnd1 = (if fits (unat sz) x then rule_set mode m1 fnd p else fnd)
          in if xs = [] then Some (Ended big1 fnd1, m1)
             else mcb_search sz mode (p + 1 + bsize x) big1 fnd1 m1)"
    using f(1) f1(2,5,6) x(7)
    by (subst mcb_search.simps) (simp add: Let_def fits_def word_le_nat_alt fr)
  with x show ?thesis using that by blast
qed

text \<open>What the loop computes, over the joined blocks: \<open>biggestSeg\<close> and, for the rules
  that look at the whole chain, \<open>foundSeg\<close>, with their sizes.\<close>

fun scan_big :: "nat \<Rightarrow> blk list \<Rightarrow> (nat \<times> nat) option \<Rightarrow> (nat \<times> nat) option" where
  "scan_big a [] acc = acc"
| "scan_big a (b # bs) acc =
     scan_big (a + 1 + bsize b) bs
       (if is_free b \<and> (case acc of None \<Rightarrow> True | Some (_, s) \<Rightarrow> s < bsize b) then Some (a, bsize b) else acc)"

fun scan_fit :: "16 word \<Rightarrow> nat \<Rightarrow> nat \<Rightarrow> blk list \<Rightarrow> (nat \<times> nat) option \<Rightarrow> (nat \<times> nat) option" where
  "scan_fit mode n a [] acc = acc"
| "scan_fit mode n a (b # bs) acc =
     scan_fit mode n (a + 1 + bsize b) bs
       (if fits n b \<and> mode \<noteq> LARGEST \<and>
           (best_mode mode \<longrightarrow> (case acc of None \<Rightarrow> True | Some (_, s) \<Rightarrow> bsize b < s))
        then Some (a, bsize b) else acc)"

definition sized :: "mcbs \<Rightarrow> nat \<Rightarrow> nat option \<Rightarrow> (nat \<times> nat) option \<Rightarrow> bool" where
  "sized m p o1 acc \<longleftrightarrow>
     (case acc of None \<Rightarrow> o1 = None
      | Some (a, n) \<Rightarrow> o1 = Some a \<and> a < p \<and> (\<exists>b l. mview m a = Some (b, l) \<and> bsize b = n))"

lemma sized_size: "sized m p (Some a) acc \<Longrightarrow> acc = Some (a, unat (m_size (m a)))"
  using mview_SomeD(2)[of m a] by (auto simp: sized_def split: option.splits)

lemma sized_cong: "sized m p o1 acc \<Longrightarrow> \<forall>a < p. mview m' a = mview m a \<Longrightarrow> p \<le> q \<Longrightarrow> sized m' q o1 acc"
  by (auto simp: sized_def split: option.splits)

lemma sized_bigger:
  assumes "sized m p big acc" "mview m p = Some (x, l)"
  shows "sized m (p + 1 + bsize x) (bigger m big p)
    (if case acc of None \<Rightarrow> True | Some (_, s) \<Rightarrow> s < bsize x then Some (p, bsize x) else acc)"
  using assms mview_SomeD(2)[OF assms(2)] sized_size[of m p _ acc]
  by (cases big) (auto simp: bigger_def sized_def word_less_nat_alt split: option.splits)

lemma sized_rule:
  assumes "sized m p fnd acc" "mview m p = Some (x, l)"
  shows "sized m (p + 1 + bsize x) (rule_set mode m fnd p)
    (if mode \<noteq> LARGEST \<and> (best_mode mode \<longrightarrow> (case acc of None \<Rightarrow> True | Some (_, s) \<Rightarrow> bsize x < s))
     then Some (p, bsize x) else acc)"
  using assms mview_SomeD(2)[OF assms(2)] sized_size[of m p _ acc]
  by (cases fnd) (auto simp: rule_set_def sized_def word_less_nat_alt split: option.splits)

lemma mchain_extend:
  assumes "mchain m' (p + 1 + bsize x) ys" "mview m' p = mview m1 p" "mchain m1 p (x # xs)" "xs \<noteq> []"
  shows "mchain m' p (x # ys)"
  using assms by (cases "ys = []") auto

text \<open>Stopping at a block, or running to the end, from \<open>p\<close> on.\<close>

definition stops :: "16 word \<Rightarrow> 16 word \<Rightarrow> nat \<Rightarrow> blk list \<Rightarrow> (outcome \<times> mcbs) option \<Rightarrow> mcbs \<Rightarrow> bool" where
  "stops sz mode p bs r m' \<longleftrightarrow> first_mode mode \<and>
     (\<exists>pre b post. found 1 (unat sz) bs pre b post \<and> mchain m' p (pre @ b # post) \<and>
        r = Some (Stopped (p + span 1 pre), m'))"

definition runs_out ::
    "16 word \<Rightarrow> 16 word \<Rightarrow> nat \<Rightarrow> (nat \<times> nat) option \<Rightarrow> (nat \<times> nat) option \<Rightarrow> blk list \<Rightarrow>
     (outcome \<times> mcbs) option \<Rightarrow> mcbs \<Rightarrow> bool" where
  "runs_out sz mode p gacc facc bs r m' \<longleftrightarrow>
     (first_mode mode \<longrightarrow> (\<forall>b \<in> set (coalesce 1 bs). \<not> fits (unat sz) b)) \<and> mchain m' p (coalesce 1 bs) \<and>
     (\<exists>big fnd. r = Some (Ended big fnd, m') \<and>
        sized m' (p + span 1 bs) big (scan_big p (coalesce 1 bs) gacc) \<and>
        sized m' (p + span 1 bs) fnd (scan_fit mode (unat sz) p (coalesce 1 bs) facc))"

lemma mcb_search_ok:
  assumes "mchain m p bs" "sized m p big gacc" "sized m p fnd facc"
  shows "\<exists>m'. (\<forall>a < p. mview m' a = mview m a) \<and>
    (stops sz mode p bs (mcb_search sz mode p big fnd m) m' \<or>
     runs_out sz mode p gacc facc bs (mcb_search sz mode p big fnd m) m')"
  using assms
proof (induction "length bs" arbitrary: bs p m big gacc fnd facc rule: less_induct)
  case less
  then obtain b cs where bs: "bs = b # cs" by (cases bs) auto
  let ?r = "mcb_search sz mode p big fnd m"
  from mcb_search_step[OF less.prems(1)[unfolded bs], where sz = sz and mode = mode and big = big and fnd = fnd]
  obtain x xs m1 where s:
    "coalesce 1 (b # cs) = x # coalesce 1 xs" "coalesce 1 (x # xs) = x # coalesce 1 xs"
    "mchain m1 p (x # xs)" "length xs \<le> length cs" "\<forall>a < p. mview m1 a = mview m a"
    "bowner x = bowner b"
    and r: "?r = (if fits (unat sz) x \<and> first_mode mode then Some (Stopped p, m1)
        else
          let big1 = (if is_free x then bigger m1 big p else big);
              fnd1 = (if fits (unat sz) x then rule_set mode m1 fnd p else fnd)
          in if xs = [] then Some (Ended big1 fnd1, m1)
             else mcb_search sz mode (p + 1 + bsize x) big1 fnd1 m1)" .
  have vx: "mview m1 p = Some (x, xs = [])" using s(3) by simp
  have co: "coalesce 1 bs = x # coalesce 1 xs" "coalesce 1 (x # xs) = coalesce 1 bs" using s(1,2) bs by simp_all
  have sp: "span 1 bs = 1 + bsize x + span 1 xs" using arg_cong[OF co(1), of "span 1"] by simp
  show ?case
  proof (cases "fits (unat sz) x \<and> first_mode mode")
    case True
    have "found 1 (unat sz) bs [] x xs" using True co by (simp add: found_def sizes_dvd_def)
    then have "stops sz mode p bs ?r m1"
      using True s(3) r unfolding stops_def by (intro conjI exI[of _ "[]"] exI[of _ x] exI[of _ xs]) simp_all
    with s(5) show ?thesis by blast
  next
    case False
    define big1 where "big1 = (if is_free x then bigger m1 big p else big)"
    define fnd1 where "fnd1 = (if fits (unat sz) x then rule_set mode m1 fnd p else fnd)"
    define gacc1 where "gacc1 = (if is_free x \<and> (case gacc of None \<Rightarrow> True | Some (_, s) \<Rightarrow> s < bsize x)
      then Some (p, bsize x) else gacc)"
    define facc1 where "facc1 = (if fits (unat sz) x \<and> mode \<noteq> LARGEST \<and>
      (best_mode mode \<longrightarrow> (case facc of None \<Rightarrow> True | Some (_, s) \<Rightarrow> bsize x < s)) then Some (p, bsize x) else facc)"
    have b0: "sized m1 p big gacc" "sized m1 p fnd facc"
      using sized_cong[OF less.prems(2) s(5) order_refl] sized_cong[OF less.prems(3) s(5) order_refl] by auto
    have b1: "sized m1 (p + 1 + bsize x) big1 gacc1"
      using sized_bigger[OF b0(1) vx] sized_cong[OF b0(1), of m1 "p + 1 + bsize x"] by (auto simp: big1_def gacc1_def)
    have f1: "sized m1 (p + 1 + bsize x) fnd1 facc1"
      using sized_rule[OF b0(2) vx, of mode] sized_cong[OF b0(2), of m1 "p + 1 + bsize x"] by (auto simp: fnd1_def facc1_def)
    have r': "?r = (if xs = [] then Some (Ended big1 fnd1, m1) else mcb_search sz mode (p + 1 + bsize x) big1 fnd1 m1)"
      using r False by (simp only: big1_def fnd1_def Let_def if_False)
    have scans: "scan_big p (coalesce 1 bs) gacc = scan_big (p + 1 + bsize x) (coalesce 1 xs) gacc1"
      "scan_fit mode (unat sz) p (coalesce 1 bs) facc = scan_fit mode (unat sz) (p + 1 + bsize x) (coalesce 1 xs) facc1"
      using co(1) by (simp_all add: gacc1_def facc1_def)
    show ?thesis
    proof (cases "xs = []")
      case True
      have e: "p + span 1 bs = p + 1 + bsize x" using sp True by simp
      have "sized m1 (p + span 1 bs) big1 (scan_big p (coalesce 1 bs) gacc)"
        "sized m1 (p + span 1 bs) fnd1 (scan_fit mode (unat sz) p (coalesce 1 bs) facc)"
        unfolding e scans using b1 f1 True by simp_all
      moreover have "coalesce 1 bs = [x]" using co(1) True by simp
      moreover have "?r = Some (Ended big1 fnd1, m1)" using r' True by simp
      ultimately have "runs_out sz mode p gacc facc bs ?r m1"
        using s(3) False True unfolding runs_out_def by auto
      with s(5) show ?thesis by blast
    next
      case ne: False
      have c2: "mchain m1 (p + 1 + bsize x) xs" using s(3) ne by simp
      have len: "length xs < length bs" using s(4) bs by simp
      let ?r2 = "mcb_search sz mode (p + 1 + bsize x) big1 fnd1 m1"
      from less.hyps[OF len c2 b1 f1] obtain m' where m': "\<forall>a < p + 1 + bsize x. mview m' a = mview m1 a"
        and d: "stops sz mode (p + 1 + bsize x) xs ?r2 m' \<or> runs_out sz mode (p + 1 + bsize x) gacc1 facc1 xs ?r2 m'" by blast
      have vp: "mview m' p = mview m1 p" using m' by simp
      have frame: "\<forall>a < p. mview m' a = mview m a" using m' s(5) by simp
      have rr: "?r = ?r2" using r' ne by simp
      from d show ?thesis
      proof
        assume "stops sz mode (p + 1 + bsize x) xs ?r2 m'"
        then obtain pre c post where st: "first_mode mode" "found 1 (unat sz) xs pre c post"
          "mchain m' (p + 1 + bsize x) (pre @ c # post)" "?r2 = Some (Stopped (p + 1 + bsize x + span 1 pre), m')"
          unfolding stops_def by blast
        have "coalesce 1 (x # pre @ c # post) = coalesce 1 (x # xs)" using st(2) by (simp add: found_def)
        then have "found 1 (unat sz) bs (x # pre) c post"
          using st(1,2) False co(2) by (simp add: found_def sizes_dvd_def)
        moreover have "mchain m' p ((x # pre) @ c # post)" using mchain_extend[OF st(3) vp s(3) ne] by simp
        moreover have "?r = Some (Stopped (p + span 1 (x # pre)), m')" using rr st(4) by (simp add: add.assoc)
        ultimately have "stops sz mode p bs ?r m'" using st(1) unfolding stops_def by blast
        with frame show ?thesis by blast
      next
        assume ro: "runs_out sz mode (p + 1 + bsize x) gacc1 facc1 xs ?r2 m'"
        then have "mchain m' (p + 1 + bsize x) (coalesce 1 xs)" by (simp only: runs_out_def)
        then have "mchain m' p (coalesce 1 bs)" using mchain_extend[OF _ vp s(3) ne] co(1) by metis
        moreover have "first_mode mode \<longrightarrow> (\<forall>b \<in> set (coalesce 1 bs). \<not> fits (unat sz) b)"
          using ro False co(1) unfolding runs_out_def by auto
        moreover have "p + 1 + bsize x + span 1 xs = p + span 1 bs" using sp by simp
        ultimately have "runs_out sz mode p gacc facc bs ?r m'"
          using ro unfolding runs_out_def rr scans by metis
        with frame show ?thesis by blast
      qed
    qed
  qed
qed

section \<open>Splitting and handing out\<close>

lemma mview_owner:
  assumes "mview m a = Some (b, l)"
  shows "mview (hand_out w a m) a = Some (Blk (bsize b) w, l)"
  using assms by (auto simp: mview_def hand_out_def mcbValid_def split: if_splits)

lemma mcb_split_ok:
  assumes c: "mchain m a (pre @ b # post)" and f: "f = a + span 1 pre"
    and fit: "fits n b" and n: "n = (if mode = LARGEST then bsize b else unat sz)"
    and s: "mcb_split sz mode f m = (g, m1)"
  shows "mchain (hand_out w g m1) a (pre @ carve 1 n (last_mode mode) w b @ post)"
    "g = carve_at 1 n (last_mode mode) f b" "\<And>x. x < f \<Longrightarrow> mview (hand_out w g m1) x = mview m x"
proof -
  let ?m = "hand_out w g m1" and ?l = "last_mode mode"
  have v: "mview m f = Some (b, post = [])" and pos: "0 < f" and le: "f + 1 + bsize b \<le> 65536"
    using chain_at[OF c] f by auto
  note fs = mview_SomeD[OF v]
  have fw: "unat (m_size (m f)) = bsize b" by (rule fs(2))
  have all: "mchain ?m a (pre @ carve 1 n ?l w b @ post) \<and> g = carve_at 1 n ?l f b \<and> (\<forall>x < f. mview ?m x = mview m x)"
  proof (cases "n = bsize b")
    case True
    then have g: "g = f" "m1 = m" using s fw n by (auto simp: mcb_split_def word_unat_eq_iff split: if_splits)
    have o: "mview ?m x = mview m x" if "x \<noteq> f" for x
      using that by (auto simp: g hand_out_def intro: mview_same)
    have "mview ?m f = Some (Blk n w, post = [])" using mview_owner[OF v] g True by simp
    then have "mchain ?m a (pre @ Blk n w # post)"
      by (intro chain_splice1[OF c f]) (use o True in auto)
    then show ?thesis using g True o by (simp add: carve_def carve_at_def)
  next
    case False
    then have ml: "mode \<noteq> LARGEST" and nu: "n = unat sz" using n by (auto split: if_splits)
    have nb: "n + 1 \<le> bsize b" using False fit by (simp add: fits_def)
    have ne: "sz \<noteq> m_size (m f)" using False fw nu by auto
    have w1: "unat (m_size (m f) - sz - 1) = bsize b - n - 1"
      using nb fw nu by (simp add: unat_sub_if' word_le_nat_alt)
    then have w2: "unat (m_size (m f) - (sz + 1)) = bsize b - n - 1" by (simp add: diff_diff_eq)
    have sm: "m_size (m f) - sz - 1 \<noteq> 0xffff" "m_size (m f) - (sz + 1) \<noteq> 0xffff" "sz \<noteq> 0xffff"
      using size_ok w1 w2 nb nu le pos by (auto intro!: size_ok)
    have ty: "m_type (m f) = (if post = [] then MCB_LAST else MCB_NORMAL)" by (rule fs(5))
    show ?thesis
    proof (cases ?l)
      case True
      define q where "q = f + (bsize b - n)"
      have q: "f + unat (m_size (m f) - (sz + 1)) + 1 = q" "q \<noteq> f" "f \<noteq> q" using w2 nb by (simp_all add: q_def)
      have r: "g = q" "m1 f = (m f)\<lparr>m_size := m_size (m f) - (sz + 1), m_type := MCB_NORMAL, m_psp := 0\<rparr>"
        "m1 q = (m q)\<lparr>m_type := m_type (m f), m_size := sz\<rparr>" "\<And>x. x \<noteq> f \<Longrightarrow> x \<noteq> q \<Longrightarrow> m1 x = m x"
        using s ml ne True q by (auto simp: mcb_split_def nxtMCB_def Let_def)
      have vf: "mview ?m f = Some (Blk (bsize b - n - 1) 0, False)"
        using r(1,2) q(3) sm w2 by (simp add: mview_def hand_out_def mcbValid_def)
      have "mview ?m q = Some (Blk n w, post = [])"
        using r(1,3) sm nu ty by (simp add: mview_def hand_out_def mcbValid_def)
      moreover have "q = f + 1 + (bsize b - n - 1)" using nb by (simp add: q_def)
      ultimately have vq: "mview ?m (f + 1 + bsize (Blk (bsize b - n - 1) 0)) = Some (Blk n w, post = [])" by simp
      have o: "mview ?m x = mview m x" if "x \<noteq> f" "x \<noteq> q" for x
        using r(1,4) that by (auto simp: hand_out_def intro: mview_same)
      have "mchain ?m a (pre @ Blk (bsize b - n - 1) 0 # Blk n w # post)"
        by (rule chain_splice2[OF c f _ vf vq]) (use o nb q_def in auto)
      moreover have "q = carve_at 1 n True f b" using False nb by (simp add: carve_at_def q_def)
      ultimately show ?thesis using r(1) True False o q_def by (simp add: carve_def)
    next
      case l: False
      define q where "q = f + unat sz + 1"
      have q: "q \<noteq> f" "f \<noteq> q" by (simp_all add: q_def)
      have r: "g = f" "m1 f = (m f)\<lparr>m_type := MCB_NORMAL, m_size := sz\<rparr>"
        "m1 q = (m q)\<lparr>m_type := m_type (m f), m_size := m_size (m f) - sz - 1, m_psp := 0\<rparr>"
        "\<And>x. x \<noteq> f \<Longrightarrow> x \<noteq> q \<Longrightarrow> m1 x = m x"
        using s ml ne l q by (auto simp: mcb_split_def Let_def q_def[symmetric])
      have vf: "mview ?m f = Some (Blk n w, False)"
        using r(1,2) sm nu by (simp add: mview_def hand_out_def mcbValid_def)
      have "mview ?m q = Some (Blk (bsize b - n - 1) 0, post = [])"
        using r(1,3) q(1) sm w1 ty by (simp add: mview_def hand_out_def mcbValid_def)
      then have vq: "mview ?m (f + 1 + bsize (Blk n w)) = Some (Blk (bsize b - n - 1) 0, post = [])"
        using nu by (simp add: q_def ac_simps)
      have o: "mview ?m x = mview m x" if "x \<noteq> f" "x \<noteq> q" for x
        using r(1,4) that by (auto simp: hand_out_def intro: mview_same)
      have "mchain ?m a (pre @ Blk n w # Blk (bsize b - n - 1) 0 # post)"
        by (rule chain_splice2[OF c f _ vf vq]) (use o nb nu q_def in auto)
      then show ?thesis using r(1) l False o q_def by (simp add: carve_def carve_at_def)
    qed
  qed
  then show "mchain ?m a (pre @ carve 1 n ?l w b @ post)" "g = carve_at 1 n ?l f b"
    "\<And>x. x < f \<Longrightarrow> mview ?m x = mview m x" by auto
qed

section \<open>What the scans find\<close>

text \<open>The size of the largest free block, 0 without one.\<close>

fun largest_blk :: "blk list \<Rightarrow> nat" where
  "largest_blk [] = 0"
| "largest_blk (b # bs) = (if is_free b then max (bsize b) (largest_blk bs) else largest_blk bs)"

lemma largest_blk_ge: "b \<in> set bs \<Longrightarrow> is_free b \<Longrightarrow> bsize b \<le> largest_blk bs"
  by (induction bs) auto

lemma largest_coalesce: "largest_blk bs \<le> largest_blk (coalesce h bs)"
proof (induction bs)
  case (Cons b bs)
  then show ?case by (cases "coalesce h bs") auto
qed simp

lemma scan_big_None: "scan_big a bs acc = None \<longleftrightarrow> acc = None \<and> (\<forall>b \<in> set bs. \<not> is_free b)"
  by (induction bs arbitrary: a acc) (auto split: option.splits)

lemma scan_big_Some:
  "scan_big a bs acc = Some (g, n) \<Longrightarrow>
     (case acc of None \<Rightarrow> n = largest_blk bs | Some (_, n0) \<Rightarrow> n = max n0 (largest_blk bs)) \<and>
     (acc = Some (g, n) \<or> (\<exists>pre b post. bs = pre @ b # post \<and> g = a + span 1 pre \<and> n = bsize b \<and> is_free b))"
proof (induction bs arbitrary: a acc)
  case (Cons x bs)
  let ?acc = "if is_free x \<and> (case acc of None \<Rightarrow> True | Some (_, s) \<Rightarrow> s < bsize x) then Some (a, bsize x) else acc"
  have "scan_big (a + 1 + bsize x) bs ?acc = Some (g, n)" using Cons.prems by simp
  note ih = Cons.IH[OF this]
  have "case acc of None \<Rightarrow> n = largest_blk (x # bs) | Some (_, n0) \<Rightarrow> n = max n0 (largest_blk (x # bs))"
    using ih[THEN conjunct1] by (cases acc) (auto split: if_splits)
  moreover have "acc = Some (g, n) \<or> (\<exists>pre b post. x # bs = pre @ b # post \<and> g = a + span 1 pre \<and> n = bsize b \<and> is_free b)"
    using ih[THEN conjunct2]
  proof
    assume "?acc = Some (g, n)"
    then show ?thesis by (cases "?acc = acc") (fastforce split: if_splits)+
  next
    assume "\<exists>pre b post. bs = pre @ b # post \<and> g = a + 1 + bsize x + span 1 pre \<and> n = bsize b \<and> is_free b"
    then obtain pre b post where "bs = pre @ b # post" "g = a + 1 + bsize x + span 1 pre" "n = bsize b" "is_free b" by blast
    then show ?thesis by (intro disjI2 exI[of _ "x # pre"] exI[of _ b] exI[of _ post]) simp
  qed
  ultimately show ?case ..
qed (auto split: option.splits)

text \<open>The choice each rule makes among the blocks that are large enough.\<close>

definition chosen :: "16 word \<Rightarrow> nat \<Rightarrow> blk list \<Rightarrow> blk \<Rightarrow> blk list \<Rightarrow> bool" where
  "chosen mode n pre b post \<longleftrightarrow> fits n b \<and>
     (if first_mode mode then \<forall>x \<in> set pre. \<not> fits n x
      else if best_mode mode then
        (\<forall>x \<in> set pre. fits n x \<longrightarrow> bsize b < bsize x) \<and> (\<forall>x \<in> set post. fits n x \<longrightarrow> bsize b \<le> bsize x)
      else \<forall>x \<in> set post. \<not> fits n x)"

lemma scan_fit_Some:
  assumes "mode \<noteq> LARGEST"
  shows "scan_fit mode n a bs acc = Some (g, k) \<Longrightarrow>
     (best_mode mode \<longrightarrow> (case acc of None \<Rightarrow> True | Some (_, k0) \<Rightarrow> k \<le> k0) \<and> (\<forall>x \<in> set bs. fits n x \<longrightarrow> k \<le> bsize x)) \<and>
     ((acc = Some (g, k) \<and> (\<not> best_mode mode \<longrightarrow> (\<forall>x \<in> set bs. \<not> fits n x))) \<or>
      (\<exists>pre b post. bs = pre @ b # post \<and> g = a + span 1 pre \<and> k = bsize b \<and> fits n b \<and>
         (if best_mode mode then
            (case acc of None \<Rightarrow> True | Some (_, k0) \<Rightarrow> k < k0) \<and> (\<forall>x \<in> set pre. fits n x \<longrightarrow> k < bsize x)
          else \<forall>x \<in> set post. \<not> fits n x)))"
proof (induction bs arbitrary: a acc)
  case (Cons x bs)
  let ?c = "fits n x \<and> (best_mode mode \<longrightarrow> (case acc of None \<Rightarrow> True | Some (_, s) \<Rightarrow> bsize x < s))"
  let ?acc = "if ?c then Some (a, bsize x) else acc"
  have "scan_fit mode n (a + 1 + bsize x) bs ?acc = Some (g, k)" using Cons.prems assms by simp
  note ih = Cons.IH[OF this]
  have best: "best_mode mode \<longrightarrow> (case acc of None \<Rightarrow> True | Some (_, k0) \<Rightarrow> k \<le> k0) \<and> (\<forall>y \<in> set (x # bs). fits n y \<longrightarrow> k \<le> bsize y)"
    using ih[THEN conjunct1] by (cases acc) (auto split: if_splits)
  from ih[THEN conjunct2] show ?case
  proof (elim disjE exE conjE)
    assume a: "?acc = Some (g, k)" "\<not> best_mode mode \<longrightarrow> (\<forall>x \<in> set bs. \<not> fits n x)"
    show ?thesis
    proof (cases ?c)
      case True
      then have "x # bs = [] @ x # bs" "g = a + span 1 []" "k = bsize x" "fits n x"
        "if best_mode mode then (case acc of None \<Rightarrow> True | Some (_, k0) \<Rightarrow> k < k0) \<and> (\<forall>y \<in> set []. fits n y \<longrightarrow> k < bsize y)
          else \<forall>y \<in> set bs. \<not> fits n y"
        using a by auto
      with best show ?thesis by blast
    next
      case False
      with a have "acc = Some (g, k)" by (simp only: if_False)
      with a(2) False best show ?thesis by auto
    qed
  next
    fix pre b post
    assume a: "bs = pre @ b # post" "g = a + 1 + bsize x + span 1 pre" "k = bsize b" "fits n b"
      "if best_mode mode then (case ?acc of None \<Rightarrow> True | Some (_, k0) \<Rightarrow> k < k0) \<and> (\<forall>x \<in> set pre. fits n x \<longrightarrow> k < bsize x)
        else \<forall>x \<in> set post. \<not> fits n x"
    have "if best_mode mode then (case acc of None \<Rightarrow> True | Some (_, k0) \<Rightarrow> k < k0) \<and>
        (\<forall>y \<in> set (x # pre). fits n y \<longrightarrow> k < bsize y) else \<forall>y \<in> set post. \<not> fits n y"
      using a(5) by (cases acc) (auto split: if_splits)
    moreover have "x # bs = (x # pre) @ b # post" "g = a + span 1 (x # pre)" using a(1,2) by simp_all
    ultimately show ?thesis using best a(3,4) by blast
  qed
qed simp

lemma scan_fit_None: "mode \<noteq> LARGEST \<Longrightarrow> scan_fit mode n a bs acc = None \<Longrightarrow> acc = None \<and> (\<forall>b \<in> set bs. \<not> fits n b)"
proof (induction bs arbitrary: a acc)
  case (Cons x bs)
  let ?c = "fits n x \<and> (best_mode mode \<longrightarrow> (case acc of None \<Rightarrow> True | Some (_, s) \<Rightarrow> bsize x < s))"
  have "scan_fit mode n (a + 1 + bsize x) bs (if ?c then Some (a, bsize x) else acc) = None"
    using Cons.prems by simp
  from Cons.IH[OF Cons.prems(1) this] show ?case by (cases ?c) auto
qed simp

lemma scan_fit_chosen:
  assumes "mode \<noteq> LARGEST" "\<not> first_mode mode" "scan_fit mode n a bs None = Some (g, k)"
  obtains pre b post where "bs = pre @ b # post" "g = a + span 1 pre" "k = bsize b" "chosen mode n pre b post"
proof -
  from scan_fit_Some[OF assms(1,3)] obtain pre b post where
    p: "bs = pre @ b # post" "g = a + span 1 pre" "k = bsize b" "fits n b"
    and best: "best_mode mode \<Longrightarrow> (\<forall>x \<in> set bs. fits n x \<longrightarrow> k \<le> bsize x) \<and> (\<forall>x \<in> set pre. fits n x \<longrightarrow> k < bsize x)"
    and other: "\<not> best_mode mode \<Longrightarrow> \<forall>x \<in> set post. \<not> fits n x" by (auto split: if_splits)
  have "chosen mode n pre b post"
    using p best other assms(2) by (cases "best_mode mode") (auto simp: chosen_def)
  with p that show ?thesis by blast
qed

lemma no_fit_largest: "\<forall>b \<in> set bs. \<not> fits n b \<Longrightarrow> 0 < n \<Longrightarrow> largest_blk bs < n"
  by (induction bs) (auto simp: fits_def not_le)

section \<open>The allocation\<close>

lemma scan_fit_no_fit: "\<forall>b \<in> set bs. \<not> fits n b \<Longrightarrow> scan_fit mode n a bs acc = acc"
  by (induction bs arbitrary: a) auto

lemma largest_no_free: "\<forall>b \<in> set bs. \<not> is_free b \<Longrightarrow> largest_blk bs = 0"
  by (induction bs) auto

lemma sized_largest:
  assumes "sized m p big (scan_big a bs None)"
  shows "(case big of None \<Rightarrow> 0 | Some g \<Rightarrow> m_size (m g)) = word_of_nat (largest_blk bs)"
proof (cases "scan_big a bs None")
  case None
  with assms largest_no_free[of bs] scan_big_None[of a bs None] show ?thesis by (simp add: sized_def)
next
  case (Some gn)
  then obtain g n where gn: "scan_big a bs None = Some (g, n)" by (cases gn) auto
  then have "n = largest_blk bs" using scan_big_Some[OF gn] by simp
  moreover have "big = Some g" using assms gn by (simp add: sized_def)
  moreover have "n = unat (m_size (m g))" using sized_size[of m p g] assms gn \<open>big = Some g\<close> by fastforce
  ultimately show ?thesis using word_eq_of_nat[of "m_size (m g)" "largest_blk bs"] by simp
qed

lemma carve_at_bound:
  assumes "mchain m a (pre @ b # post)" "fits n b" "n = bsize b \<or> n + 1 \<le> bsize b"
  shows "carve_at 1 n e (a + span 1 pre) b + 1 + n \<le> 65536" "0 < carve_at 1 n e (a + span 1 pre) b"
  using chain_at[OF assms(1)] assms(2,3) by (auto simp: carve_at_def fits_def)

lemma fits_cases: "fits n b \<Longrightarrow> n = bsize b \<or> n + 1 \<le> bsize b"
  by (auto simp: fits_def)

text \<open>The outcome of one pass from \<open>a\<close>.\<close>

definition alloc_pass ::
    "16 word \<Rightarrow> 16 word \<Rightarrow> nat \<Rightarrow> blk list \<Rightarrow> 'a dosmem_scheme \<Rightarrow> 'a dosmem_scheme alloc_result run option \<Rightarrow>
     mcbs \<Rightarrow> blk list \<Rightarrow> bool" where
  "alloc_pass sz mode a bs s r m' bs' \<longleftrightarrow>
     (\<exists>pre b post. coalesce 1 (pre @ b # post) = coalesce 1 bs \<and> chosen mode (unat sz) pre b post \<and>
        (first_mode mode \<or> pre @ b # post = coalesce 1 bs) \<and>
        bs' = pre @ carve 1 (unat sz) (last_mode mode) (cu_psp s) b @ post \<and>
        r = Some (Inr (SUCCESS, Some (carve_at 1 (unat sz) (last_mode mode) (a + span 1 pre) b), None, s\<lparr>mcbs := m'\<rparr>)))"

lemma alloc_found_ok:
  assumes c: "mchain m a (pre @ b # post)" and fit: "fits (unat sz) b" and ml: "mode \<noteq> LARGEST"
  shows "\<exists>m'. alloc_found sz mode (a + span 1 pre) asz s m =
      (SUCCESS, Some (carve_at 1 (unat sz) (last_mode mode) (a + span 1 pre) b), asz, s\<lparr>mcbs := m'\<rparr>) \<and>
    mchain m' a (pre @ carve 1 (unat sz) (last_mode mode) (cu_psp s) b @ post) \<and>
    (\<forall>x < a. mview m' x = mview m x)"
proof -
  obtain g m1 where s: "mcb_split sz mode (a + span 1 pre) m = (g, m1)" by force
  note sp = mcb_split_ok[OF c refl fit _ s, unfolded if_not_P[OF ml], OF refl]
  have "FP_SEG g = g" using carve_at_bound(1)[OF c fit fits_cases[OF fit], of "last_mode mode"] sp(2) by (simp add: FP_SEG_def)
  then have "alloc_found sz mode (a + span 1 pre) asz s m =
      (SUCCESS, Some (carve_at 1 (unat sz) (last_mode mode) (a + span 1 pre) b), asz,
       s\<lparr>mcbs := hand_out (cu_psp s) g m1\<rparr>)"
    using s sp(2) by (simp add: alloc_found_def)
  moreover have "\<forall>x < a. mview (hand_out (cu_psp s) g m1) x = mview m x" using sp(3) by simp
  ultimately show ?thesis using sp(1) by blast
qed

lemma DosMemAlloc_pass:
  assumes c: "mchain (mcbs s) (start_mcb sz mode s) bs" and ml: "mode \<noteq> LARGEST" and n: "0 < unat sz"
  shows "\<exists>m'. (\<forall>x < start_mcb sz mode s. mview m' x = mview (mcbs s) x) \<and>
    ((\<exists>bs'. alloc_pass sz mode (start_mcb sz mode s) bs s (DosMemAlloc sz mode s) m' bs' \<and>
        mchain m' (start_mcb sz mode s) bs') \<or>
     ((\<forall>b \<in> set (coalesce 1 bs). \<not> fits (unat sz) b) \<and> mchain m' (start_mcb sz mode s) (coalesce 1 bs) \<and>
      DosMemAlloc sz mode s =
        (if mode AND FIRST_FIT_U \<noteq> 0 \<and> umb_linked s
         then DosMemAlloc sz (mode AND NOT FIRST_FIT_U) (s\<lparr>mcbs := m'\<rparr>)
         else Some (Inr (DE_NOMEM, None, Some (word_of_nat (largest_blk (coalesce 1 bs))), s\<lparr>mcbs := m'\<rparr>)))))"
proof -
  let ?a = "start_mcb sz mode s" and ?n = "unat sz"
  let ?r = "mcb_search sz mode ?a None None (mcbs s)"
  have pos: "?a \<noteq> 0" using chain_pos[OF c] by simp
  have s0: "sized (mcbs s) ?a None None" by (simp add: sized_def)
  from mcb_search_ok[OF c s0 s0, of sz mode] obtain m where fr: "\<forall>x < ?a. mview m x = mview (mcbs s) x"
    and d: "stops sz mode ?a bs ?r m \<or> runs_out sz mode ?a None None bs ?r m" by blast
  from d show ?thesis
  proof
    assume "stops sz mode ?a bs ?r m"
    then obtain pre b post where st: "first_mode mode" "found 1 ?n bs pre b post" "mchain m ?a (pre @ b # post)"
      "?r = Some (Stopped (?a + span 1 pre), m)" unfolding stops_def by blast
    have fit: "fits ?n b" using st(2) by (simp add: found_def)
    from alloc_found_ok[OF st(3) fit ml, of None s] obtain m' where
      m': "alloc_found sz mode (?a + span 1 pre) None s m =
        (SUCCESS, Some (carve_at 1 ?n (last_mode mode) (?a + span 1 pre) b), None, s\<lparr>mcbs := m'\<rparr>)"
        "mchain m' ?a (pre @ carve 1 ?n (last_mode mode) (cu_psp s) b @ post)" "\<forall>x < ?a. mview m' x = mview m x" by blast
    have "DosMemAlloc sz mode s = Some (Inr (alloc_found sz mode (?a + span 1 pre) None s m))"
      using pos st(4) by (subst DosMemAlloc.simps) simp
    moreover have "chosen mode ?n pre b post" using st(1,2) by (simp add: chosen_def found_def)
    moreover have "coalesce 1 (pre @ b # post) = coalesce 1 bs" using st(2) by (simp add: found_def)
    ultimately have "alloc_pass sz mode ?a bs s (DosMemAlloc sz mode s) m' (pre @ carve 1 ?n (last_mode mode) (cu_psp s) b @ post)"
      using st(1) m'(1) unfolding alloc_pass_def by metis
    with m' fr show ?thesis by metis
  next
    assume "runs_out sz mode ?a None None bs ?r m"
    then obtain big fnd where ro: "first_mode mode \<longrightarrow> (\<forall>b \<in> set (coalesce 1 bs). \<not> fits ?n b)"
      "mchain m ?a (coalesce 1 bs)" "?r = Some (Ended big fnd, m)"
      "sized m (?a + span 1 bs) big (scan_big ?a (coalesce 1 bs) None)"
      "sized m (?a + span 1 bs) fnd (scan_fit mode ?n ?a (coalesce 1 bs) None)" unfolding runs_out_def by blast
    have bsz: "(case big of None \<Rightarrow> 0 | Some g \<Rightarrow> m_size (m g)) = word_of_nat (largest_blk (coalesce 1 bs))"
      by (rule sized_largest[OF ro(4)])
    show ?thesis
    proof (cases "scan_fit mode ?n ?a (coalesce 1 bs) None")
      case None
      then have "fnd = None" using ro(5) by (simp add: sized_def)
      then have "DosMemAlloc sz mode s =
        (if mode AND FIRST_FIT_U \<noteq> 0 \<and> umb_linked s
         then DosMemAlloc sz (mode AND NOT FIRST_FIT_U) (s\<lparr>mcbs := m\<rparr>)
         else Some (Inr (DE_NOMEM, None, Some (word_of_nat (largest_blk (coalesce 1 bs))), s\<lparr>mcbs := m\<rparr>)))"
        using pos ro(3) ml bsz by (subst DosMemAlloc.simps) (simp add: Let_def)
      with scan_fit_None[OF ml None] ro(2) fr show ?thesis by blast
    next
      case (Some gk)
      obtain g k where gk: "scan_fit mode ?n ?a (coalesce 1 bs) None = Some (g, k)" using Some by (cases gk) auto
      have nf: "\<not> first_mode mode" using ro(1) scan_fit_no_fit[of "coalesce 1 bs" ?n mode ?a None] gk by auto
      from scan_fit_chosen[OF ml nf gk] obtain pre b post where
        p: "coalesce 1 bs = pre @ b # post" "g = ?a + span 1 pre" "k = bsize b" "chosen mode ?n pre b post" .
      have fit: "fits ?n b" using p(4) by (simp add: chosen_def)
      have fg: "fnd = Some g" using ro(5) gk by (simp add: sized_def)
      have "k = unat (m_size (m g))" using sized_size[of m _ g] ro(5) gk fg by fastforce
      then have nz: "m_size (m g) \<noteq> 0" using fit n p(3) by (auto simp: fits_def)
      from alloc_found_ok[OF ro(2)[unfolded p(1)] fit ml, of None s] obtain m' where
        m': "alloc_found sz mode (?a + span 1 pre) None s m =
          (SUCCESS, Some (carve_at 1 ?n (last_mode mode) (?a + span 1 pre) b), None, s\<lparr>mcbs := m'\<rparr>)"
          "mchain m' ?a (pre @ carve 1 ?n (last_mode mode) (cu_psp s) b @ post)" "\<forall>x < ?a. mview m' x = mview m x" by blast
      have "DosMemAlloc sz mode s = Some (Inr (alloc_found sz mode (?a + span 1 pre) None s m))"
        using pos ro(3) ml fg nz p(2) by (subst DosMemAlloc.simps) (simp add: Let_def)
      moreover have "coalesce 1 (pre @ b # post) = coalesce 1 bs"
        using p(1) coalesce_idem by metis
      ultimately have "alloc_pass sz mode ?a bs s (DosMemAlloc sz mode s) m' (pre @ carve 1 ?n (last_mode mode) (cu_psp s) b @ post)"
        using p(1,4) m'(1) unfolding alloc_pass_def by metis
      with m' fr show ?thesis by metis
    qed
  qed
qed

end
