(* ===== verification/Memmgr_Props.thy ===== *)
theory Memmgr_Props
  imports Memmgr_Proofs Region
begin

text \<open>
  The properties of the DOS memory manager. \<open>dos_ok s bs\<close> says that the chain from
  \<open>first_mcb\<close> describes the blocks \<open>bs\<close> and that a process is running.
\<close>

declare One_nat_def [simp del]

definition dos_ok :: "'a dosmem_scheme \<Rightarrow> blk list \<Rightarrow> bool" where
  "dos_ok s bs \<longleftrightarrow> mchain (mcbs s) (unat (first_mcb s)) bs \<and> cu_psp s \<noteq> 0"

definition dos_used :: "'a dosmem_scheme \<Rightarrow> blk list \<Rightarrow> (nat \<times> nat \<times> 16 word) set" where
  "dos_used s bs = used 1 (unat (first_mcb s)) bs"

text \<open>The request searches the whole chain: upper memory is not linked or not asked for.\<close>

definition whole_chain :: "16 word \<Rightarrow> 'a dosmem_scheme \<Rightarrow> bool" where
  "whole_chain mode s \<longleftrightarrow> \<not> umb_linked s \<or> mode AND (FIRST_FIT_UO OR FIRST_FIT_U) = 0"

lemma start_whole: "mode \<noteq> LARGEST \<Longrightarrow> whole_chain mode s \<Longrightarrow> start_mcb sz mode s = unat (first_mcb s)"
  by (auto simp: start_mcb_def whole_chain_def Let_def)

lemma and_or_zero: "x AND (a OR b) = 0 \<Longrightarrow> x AND b = 0" for x :: "16 word"
  by (metis and_zero_eq bit.conj_disj_distrib or_eq_0_iff)

lemma no_retry:
  assumes "whole_chain mode s"
  shows "\<not> (mode AND FIRST_FIT_U \<noteq> 0 \<and> umb_linked s)"
  using assms and_or_zero unfolding whole_chain_def by blast

lemma DosMemAlloc_rule:
  assumes ok: "dos_ok s bs" and m: "mode \<noteq> LARGEST" "whole_chain mode s" and n: "0 < unat sz"
  shows "(\<exists>s1 pre b post p. DosMemAlloc sz mode s = Some (Inr (SUCCESS, Some p, None, s1)) \<and>
        s1 = s\<lparr>mcbs := mcbs s1\<rparr> \<and>
        coalesce 1 (pre @ b # post) = coalesce 1 bs \<and> chosen mode (unat sz) pre b post \<and>
        (first_mode mode \<or> pre @ b # post = coalesce 1 bs) \<and>
        p = carve_at 1 (unat sz) (last_mode mode) (unat (first_mcb s) + span 1 pre) b \<and>
        dos_ok s1 (pre @ carve 1 (unat sz) (last_mode mode) (cu_psp s) b @ post) \<and>
        dos_used s1 (pre @ carve 1 (unat sz) (last_mode mode) (cu_psp s) b @ post) =
          insert (p + 1, unat sz, cu_psp s) (dos_used s bs) \<and>
        (\<forall>(q, k, w) \<in> dos_used s bs. q + k < p + 1 \<or> p + 1 + unat sz < q)) \<or>
    (\<exists>s1. DosMemAlloc sz mode s =
          Some (Inr (DE_NOMEM, None, Some (word_of_nat (largest_blk (coalesce 1 bs))), s1)) \<and>
        s1 = s\<lparr>mcbs := mcbs s1\<rparr> \<and> dos_ok s1 (coalesce 1 bs) \<and> largest_blk (coalesce 1 bs) < unat sz)"
proof -
  let ?a = "unat (first_mcb s)" and ?n = "unat sz"
  have st: "start_mcb sz mode s = ?a" by (rule start_whole[OF m])
  have c: "mchain (mcbs s) (start_mcb sz mode s) bs" and psp: "cu_psp s \<noteq> 0"
    using ok by (simp_all add: dos_ok_def st)
  from DosMemAlloc_pass[OF c m(1) n] no_retry[OF m(2)] obtain m' where
    "(\<exists>bs'. alloc_pass sz mode ?a bs s (DosMemAlloc sz mode s) m' bs' \<and> mchain m' ?a bs') \<or>
     (\<forall>b \<in> set (coalesce 1 bs). \<not> fits ?n b) \<and> mchain m' ?a (coalesce 1 bs) \<and>
      DosMemAlloc sz mode s = Some (Inr (DE_NOMEM, None, Some (word_of_nat (largest_blk (coalesce 1 bs))), s\<lparr>mcbs := m'\<rparr>))"
    unfolding st by (auto simp only: if_False)
  then show ?thesis
  proof (elim disjE exE conjE)
    fix bs'
    assume ap: "alloc_pass sz mode ?a bs s (DosMemAlloc sz mode s) m' bs'" and c': "mchain m' ?a bs'"
    from ap obtain pre b post where p: "coalesce 1 (pre @ b # post) = coalesce 1 bs" "chosen mode ?n pre b post"
      "first_mode mode \<or> pre @ b # post = coalesce 1 bs"
      "bs' = pre @ carve 1 ?n (last_mode mode) (cu_psp s) b @ post"
      "DosMemAlloc sz mode s =
        Some (Inr (SUCCESS, Some (carve_at 1 ?n (last_mode mode) (?a + span 1 pre) b), None, s\<lparr>mcbs := m'\<rparr>))"
      unfolding alloc_pass_def by blast
    have fit: "fits ?n b" using p(2) by (simp add: chosen_def)
    then have free: "is_free b" and nb: "?n = bsize b \<or> ?n + 1 \<le> bsize b" by (auto simp: fits_def)
    have u: "used 1 ?a (pre @ b # post) = used 1 ?a bs" using p(1) by (metis used_coalesce)
    have "dos_ok (s\<lparr>mcbs := m'\<rparr>) bs'" using c' psp by (simp add: dos_ok_def)
    moreover have "dos_used (s\<lparr>mcbs := m'\<rparr>) bs' =
        insert (carve_at 1 ?n (last_mode mode) (?a + span 1 pre) b + 1, ?n, cu_psp s) (dos_used s bs)"
      using used_carve[OF free nb psp] p(4) u by (simp add: dos_used_def)
    moreover have "\<forall>(q, k, w) \<in> dos_used s bs. q + k < carve_at 1 ?n (last_mode mode) (?a + span 1 pre) b + 1 \<or>
        carve_at 1 ?n (last_mode mode) (?a + span 1 pre) b + 1 + ?n < q"
    proof (clarify)
      fix q k w
      assume q: "(q, k, w) \<in> dos_used s bs" and nq: "\<not> carve_at 1 ?n (last_mode mode) (?a + span 1 pre) b + 1 + ?n < q"
      have "(q, k, w) \<in> used 1 ?a (pre @ b # post)" using q u by (simp add: dos_used_def)
      from carve_fresh[OF this free nb, of "last_mode mode"]
      show "q + k < carve_at 1 ?n (last_mode mode) (?a + span 1 pre) b + 1"
        using nq by (simp add: Suc_le_eq)
    qed
    moreover have "s\<lparr>mcbs := m'\<rparr> = s\<lparr>mcbs := mcbs (s\<lparr>mcbs := m'\<rparr>)\<rparr>" by simp
    ultimately show ?thesis using p(1-3,5) unfolding p(4) by blast
  next
    assume "\<forall>b \<in> set (coalesce 1 bs). \<not> fits ?n b" "mchain m' ?a (coalesce 1 bs)"
      "DosMemAlloc sz mode s = Some (Inr (DE_NOMEM, None, Some (word_of_nat (largest_blk (coalesce 1 bs))), s\<lparr>mcbs := m'\<rparr>))"
    with psp no_fit_largest[OF _ n, of "coalesce 1 bs"] show ?thesis
      by (intro disjI2 exI[of _ "s\<lparr>mcbs := m'\<rparr>"]) (simp add: dos_ok_def)
  qed
qed

text \<open>
  C6. \<open>DosMemAlloc\<close> over the whole chain, for a positive size and any mode but
  \<open>LARGEST\<close>: the free blocks are joined and either one is chosen by the rule of the mode
  (the first, a smallest or the last one that is large enough), from which exactly the
  requested size is taken, at its end for the last-fit modes, for the current process and
  clear of all areas in use; or none is large enough, and the status is
  \<open>DE_NOMEM\<close> with the size of the largest free block. The chain stays well formed.
\<close>

theorem DosMemAlloc_follows_rule:
  assumes ok: "dos_ok s bs" and m: "mode \<noteq> LARGEST" "whole_chain mode s" and n: "0 < unat sz"
  shows "(\<exists>s1 pre b post p. DosMemAlloc sz mode s = Some (Inr (SUCCESS, Some p, None, s1)) \<and>
        s1 = s\<lparr>mcbs := mcbs s1\<rparr> \<and>
        coalesce 1 (pre @ b # post) = coalesce 1 bs \<and> chosen mode (unat sz) pre b post \<and>
        (first_mode mode \<or> pre @ b # post = coalesce 1 bs) \<and>
        p = carve_at 1 (unat sz) (last_mode mode) (unat (first_mcb s) + span 1 pre) b \<and>
        dos_ok s1 (pre @ carve 1 (unat sz) (last_mode mode) (cu_psp s) b @ post) \<and>
        dos_used s1 (pre @ carve 1 (unat sz) (last_mode mode) (cu_psp s) b @ post) =
          insert (p + 1, unat sz, cu_psp s) (dos_used s bs) \<and>
        (\<forall>(q, k, w) \<in> dos_used s bs. q + k < p + 1 \<or> p + 1 + unat sz < q)) \<or>
    (\<exists>s1. DosMemAlloc sz mode s =
          Some (Inr (DE_NOMEM, None, Some (word_of_nat (largest_blk (coalesce 1 bs))), s1)) \<and>
        s1 = s\<lparr>mcbs := mcbs s1\<rparr> \<and> dos_ok s1 (coalesce 1 bs) \<and> largest_blk (coalesce 1 bs) < unat sz)"
  by (rule DosMemAlloc_rule[OF assms])

text \<open>A small arena: an area of process 8, a free block, an area of the running process
  200h and a free block at the end.\<close>

definition mcb_of :: "8 word \<Rightarrow> 16 word \<Rightarrow> 16 word \<Rightarrow> mcb" where
  "mcb_of t psp sz = \<lparr>m_type = t, m_psp = psp, m_size = sz, m_name = replicate 8 0\<rparr>"

definition dos0 :: dosmem where
  "dos0 = \<lparr>cu_psp = 0x200, HMAclaimed = False, hmem = (\<lambda>_. 0),
     mcbs = (\<lambda>_. mcb_of 0 0 0)(256 := mcb_of MCB_NORMAL 8 16, 273 := mcb_of MCB_NORMAL 0 4096,
       4370 := mcb_of MCB_NORMAL 0x200 16, 4387 := mcb_of MCB_LAST 0 512),
     first_mcb = 0x100, uppermem_root = 0xffff, uppermem_link = 0, mem_access_mode = 0\<rparr>"

definition blks0 :: "blk list" where
  "blks0 = [Blk 16 8, Blk 4096 0, Blk 16 0x200, Blk 512 0]"

lemma dos0_ok: "dos_ok dos0 blks0" "whole_chain mode dos0" "cu_psp dos0 = 0x200" "first_mcb dos0 = 0x100"
  "coalesce 1 blks0 = blks0" "HMAclaimed dos0 = False" "dos_used dos0 blks0 = {(257, 16, 8), (4371, 16, 0x200)}"
  by (simp_all add: dos_ok_def dos0_def blks0_def mview_def mcb_of_def mcbValid_def whole_chain_def umb_linked_def dos_used_def insert_commute)

theorem DosMemAlloc_follows_rule_witness:
  "\<exists>s1 p. DosMemAlloc 100 LAST_FIT dos0 = Some (Inr (SUCCESS, Some p, None, s1))"
  using DosMemAlloc_follows_rule[OF dos0_ok(1) _ dos0_ok(2), where mode = LAST_FIT and sz = 100]
  by (auto simp: mode_defs dos0_ok(5)) (simp add: blks0_def)

section \<open>Upper memory\<close>

lemma mchain_upper:
  assumes c: "mchain m a (lo @ hi)" and c': "mchain m' (a + span 1 lo) hi'"
    and fr: "\<forall>x < a + span 1 lo. mview m' x = mview m x" and ne: "hi \<noteq> []"
  shows "mchain m' a (lo @ hi')"
proof -
  obtain b bs where "hi = b # bs" using ne by (cases hi) auto
  then have r: "run_up 1 (mview m) a lo" using c by (simp add: chain_append)
  have "run_up 1 (mview m') a lo" by (rule run_up_cong[OF r]) (use fr in auto)
  moreover obtain b' bs' where "hi' = b' # bs'" using chain_nonempty[OF c'] by (cases hi') auto
  ultimately show ?thesis using c' by (simp add: chain_append)
qed

text \<open>
  With upper memory linked, a mode with the upper-memory bit searches the upper part of
  the chain first. When a block there fits, the area is taken from the upper part and the
  lower part stays as it is; otherwise the call continues as the same request without that
  bit, on the chain with the upper free blocks joined.
\<close>

theorem DosMemAlloc_upper_first:
  assumes c: "mchain (mcbs s) (unat (first_mcb s)) (lo @ hi)" and ne: "hi \<noteq> []"
    and root: "unat (uppermem_root s) = unat (first_mcb s) + span 1 lo"
    and linked: "umb_linked s" and m: "mode \<noteq> LARGEST" "mode AND FIRST_FIT_U \<noteq> 0" and n: "0 < unat sz"
  shows "\<exists>m'. (\<exists>pre b post. coalesce 1 (pre @ b # post) = coalesce 1 hi \<and> chosen mode (unat sz) pre b post \<and>
        DosMemAlloc sz mode s = Some (Inr (SUCCESS,
          Some (carve_at 1 (unat sz) (last_mode mode) (unat (uppermem_root s) + span 1 pre) b), None, s\<lparr>mcbs := m'\<rparr>)) \<and>
        mchain m' (unat (first_mcb s)) (lo @ pre @ carve 1 (unat sz) (last_mode mode) (cu_psp s) b @ post)) \<or>
    ((\<forall>b \<in> set (coalesce 1 hi). \<not> fits (unat sz) b) \<and> mchain m' (unat (first_mcb s)) (lo @ coalesce 1 hi) \<and>
      DosMemAlloc sz mode s = DosMemAlloc sz (mode AND NOT FIRST_FIT_U) (s\<lparr>mcbs := m'\<rparr>))"
proof -
  let ?a = "unat (uppermem_root s)"
  have "mode AND (FIRST_FIT_UO OR FIRST_FIT_U) \<noteq> 0" using m(2) and_or_zero by blast
  then have st: "start_mcb sz mode s = ?a" using linked m(1) by (simp add: start_mcb_def Let_def)
  have cu: "mchain (mcbs s) (start_mcb sz mode s) hi"
    using c ne st root by (cases hi) (simp_all add: chain_append)
  from DosMemAlloc_pass[OF cu m(1) n] m(2) linked obtain m' where fr: "\<forall>x < ?a. mview m' x = mview (mcbs s) x"
    and d: "(\<exists>bs'. alloc_pass sz mode ?a hi s (DosMemAlloc sz mode s) m' bs' \<and> mchain m' ?a bs') \<or>
     (\<forall>b \<in> set (coalesce 1 hi). \<not> fits (unat sz) b) \<and> mchain m' ?a (coalesce 1 hi) \<and>
      DosMemAlloc sz mode s = DosMemAlloc sz (mode AND NOT FIRST_FIT_U) (s\<lparr>mcbs := m'\<rparr>)"
    unfolding st by auto
  have up: "mchain m' (unat (first_mcb s)) (lo @ hi')" if "mchain m' ?a hi'" for hi'
    using mchain_upper[OF c _ _ ne] that fr root by simp
  from d show ?thesis
  proof (elim disjE exE conjE)
    fix bs'
    assume "alloc_pass sz mode ?a hi s (DosMemAlloc sz mode s) m' bs'" "mchain m' ?a bs'"
    with up[of bs'] show ?thesis unfolding alloc_pass_def by blast
  next
    assume "\<forall>b \<in> set (coalesce 1 hi). \<not> fits (unat sz) b" "mchain m' ?a (coalesce 1 hi)"
      "DosMemAlloc sz mode s = DosMemAlloc sz (mode AND NOT FIRST_FIT_U) (s\<lparr>mcbs := m'\<rparr>)"
    with up show ?thesis by blast
  qed
qed

definition dos1 :: dosmem where
  "dos1 = dos0\<lparr>uppermem_root := 0x1112, uppermem_link := 1\<rparr>"

theorem DosMemAlloc_upper_first_witness:
  "\<exists>m'. DosMemAlloc 600 BEST_FIT_U dos1 = DosMemAlloc 600 BEST_FIT (dos1\<lparr>mcbs := m'\<rparr>)"
proof -
  have c: "mchain (mcbs dos1) (unat (first_mcb dos1)) ([Blk 16 8, Blk 4096 0] @ [Blk 16 0x200, Blk 512 0])"
    using dos0_ok(1) by (simp add: dos1_def dos_ok_def blks0_def)
  have h: "coalesce 1 [Blk 16 0x200, Blk 512 0] = [Blk 16 0x200, Blk 512 0]" by simp
  have co: "\<not> chosen BEST_FIT_U 600 pre b post" if "coalesce 1 (pre @ b # post) = [Blk 16 0x200, Blk 512 0]" for pre b post
  proof
    assume "chosen BEST_FIT_U 600 pre b post"
    then have "is_free b" "600 \<le> bsize b" by (auto simp: chosen_def fits_def)
    then have "600 \<le> largest_blk (pre @ b # post)" using largest_blk_ge[of b "pre @ b # post"] by simp
    also have "\<dots> \<le> largest_blk (coalesce 1 (pre @ b # post))" by (rule largest_coalesce)
    finally show False using that by simp
  qed
  have u: "umb_linked dos1" "unat (uppermem_root dos1) = unat (first_mcb dos1) + span 1 [Blk 16 8, Blk 4096 0]"
    by (simp_all add: umb_linked_def dos1_def dos0_def)
  have "\<exists>m'. DosMemAlloc 600 BEST_FIT_U dos1 = DosMemAlloc 600 (BEST_FIT_U AND NOT FIRST_FIT_U) (dos1\<lparr>mcbs := m'\<rparr>)"
    using DosMemAlloc_upper_first[OF c _ u(2,1), of BEST_FIT_U 600] co h by (fastforce simp: mode_defs)
  then show ?thesis by (simp add: mode_defs)
qed

section \<open>The largest block\<close>

lemma largest_bound: "\<forall>b \<in> set bs. bsize b \<le> k \<Longrightarrow> largest_blk bs \<le> k"
  by (induction bs) auto

lemma scan_fit_LARGEST: "scan_fit LARGEST n a bs acc = acc"
  by (induction bs arbitrary: a) simp_all

lemma chain_largest: "mchain m a bs \<Longrightarrow> largest_blk bs < 65535"
  using largest_bound[of bs 65534] chain_fits[of 1 65536 "mview m" a bs] by fastforce

lemma DosMemAlloc_LARGEST:
  assumes c: "mchain (mcbs s) (start_mcb 0xffff LARGEST s) bs"
  shows "\<exists>m'. DosMemAlloc 0xffff LARGEST s =
      Some (Inr (DE_NOMEM, None, Some (word_of_nat (largest_blk (coalesce 1 bs))), s\<lparr>mcbs := m'\<rparr>)) \<and>
    mchain m' (start_mcb 0xffff LARGEST s) (coalesce 1 bs) \<and>
    (\<forall>x < start_mcb 0xffff LARGEST s. mview m' x = mview (mcbs s) x)"
proof -
  let ?a = "start_mcb 0xffff LARGEST s"
  let ?r = "mcb_search 0xffff LARGEST ?a None None (mcbs s)"
  have s0: "sized (mcbs s) ?a None None" by (simp add: sized_def)
  have nf: "\<not> first_mode LARGEST" by (simp add: first_mode_def mode_defs)
  from mcb_search_ok[OF c s0 s0, of "0xffff" LARGEST] nf obtain m where fr: "\<forall>x < ?a. mview m x = mview (mcbs s) x"
    and "runs_out 0xffff LARGEST ?a None None bs ?r m" by (auto simp: stops_def)
  then obtain big fnd where ro: "mchain m ?a (coalesce 1 bs)" "?r = Some (Ended big fnd, m)"
      "sized m (?a + span 1 bs) big (scan_big ?a (coalesce 1 bs) None)"
      "sized m (?a + span 1 bs) fnd None" unfolding runs_out_def scan_fit_LARGEST by blast
  have fnd: "fnd = None" using ro(4) by (simp add: sized_def)
  have bsz: "(case big of None \<Rightarrow> 0 | Some g \<Rightarrow> m_size (m g)) = word_of_nat (largest_blk (coalesce 1 bs))"
    by (rule sized_largest[OF ro(3)])
  have "unat (word_of_nat (largest_blk (coalesce 1 bs)) :: 16 word) = largest_blk (coalesce 1 bs)"
    using chain_largest[OF ro(1)] by (intro unat_of_nat16) simp
  then have nle: "\<not> 0xffff \<le> (word_of_nat (largest_blk (coalesce 1 bs)) :: 16 word)"
    using chain_largest[OF ro(1)] by (simp add: word_le_nat_alt One_nat_def)
  have "DosMemAlloc 0xffff LARGEST s =
      Some (Inr (DE_NOMEM, None, Some (word_of_nat (largest_blk (coalesce 1 bs))), s\<lparr>mcbs := m\<rparr>))"
    using chain_pos[OF c] ro(2) fnd bsz nle by (subst DosMemAlloc.simps) (simp add: Let_def)
  with ro(1) fr show ?thesis by blast
qed

lemma largest_pass_ok:
  assumes "mchain (mcbs s) (start_mcb 0xffff LARGEST s) bs"
  shows "\<exists>m'. largest_pass s = Some (Inr (word_of_nat (largest_blk (coalesce 1 bs)), s\<lparr>mcbs := m'\<rparr>)) \<and>
    mchain m' (start_mcb 0xffff LARGEST s) (coalesce 1 bs) \<and>
    (\<forall>x < start_mcb 0xffff LARGEST s. mview m' x = mview (mcbs s) x)"
  using DosMemAlloc_LARGEST[OF assms] by (auto simp: largest_pass_def)

lemma clear_set_bit: "bit x k \<Longrightarrow> (x AND NOT (2 ^ k)) OR 2 ^ k = x" for x :: "'a :: len word"
  by (rule bit_eqI) (auto simp: bit_simps)

lemma access_bits: "x AND 0x80 \<noteq> 0 \<Longrightarrow> (x AND NOT 0x80) OR 0x80 = x" for x :: "8 word"
  using clear_set_bit[of x 7] and_exp_eq_0_iff_not_bit[of x 7] by simp

lemma ucast_and: "(ucast x :: 16 word) AND ucast m = ucast (x AND m)" for x m :: "8 word"
  by (rule bit_eqI) (auto simp: bit_simps)

lemma ucast_c0: "x AND 0xc0 = 0 \<Longrightarrow> (ucast x :: 16 word) AND 0xc0 = 0" for x :: "8 word"
proof -
  assume "x AND 0xc0 = 0"
  have "(ucast x :: 16 word) AND 0xc0 = ucast (x AND 0xc0)"
    using ucast_and[of x "0xc0"] by (simp add: One_nat_def)
  with \<open>x AND 0xc0 = 0\<close> show ?thesis by simp
qed

lemma and_c0_zero: "x AND 0xc0 = 0 \<Longrightarrow> x AND 0x80 = 0" for x :: "8 word"
proof -
  assume "x AND 0xc0 = 0"
  have "x AND 0x80 = (x AND 0xc0) AND 0x80" by (simp add: and.assoc)
  with \<open>x AND 0xc0 = 0\<close> show ?thesis by simp
qed

lemma DosMemLargest_rule:
  assumes ok: "dos_ok s bs" and whole: "\<not> umb_linked s \<or> mem_access_mode s AND 0xc0 = 0"
  shows "\<exists>s1. DosMemLargest s =
      Some (Inr (if largest_blk (coalesce 1 bs) = 0 then DE_NOMEM else SUCCESS,
        word_of_nat (largest_blk (coalesce 1 bs)), s1)) \<and>
    dos_ok s1 (coalesce 1 bs) \<and> dos_used s1 (coalesce 1 bs) = dos_used s bs \<and>
    s1 = s\<lparr>mcbs := mcbs s1\<rparr>"
proof -
  let ?z = "largest_blk (coalesce 1 bs)" and ?f = "unat (first_mcb s)"
  have psp: "cu_psp s \<noteq> 0" using ok by (simp add: dos_ok_def)
  have st: "start_mcb 0xffff LARGEST s = ?f"
    using whole by (auto simp: start_mcb_def Let_def mode_defs ucast_c0)
  from largest_pass_ok[of s bs, unfolded st] ok obtain m1 where
    p1: "largest_pass s = Some (Inr (word_of_nat ?z, s\<lparr>mcbs := m1\<rparr>))" "mchain m1 ?f (coalesce 1 bs)"
    by (auto simp: dos_ok_def)
  have u: "unat (word_of_nat ?z :: 16 word) = ?z"
    using chain_largest[OF p1(2)] by (intro unat_of_nat16) simp
  have zero: "(word_of_nat ?z :: 16 word) = 0 \<longleftrightarrow> ?z = 0" using u unat_eq_zero[of "word_of_nat ?z :: 16 word"] by (simp only:)
  show ?thesis
  proof (cases "mem_access_mode s AND 0x80 = 0")
    case True
    then have "DosMemLargest s = Some (Inr (if ?z = 0 then DE_NOMEM else SUCCESS, word_of_nat ?z, s\<lparr>mcbs := m1\<rparr>))"
      using p1(1) zero by (simp add: DosMemLargest_def)
    then show ?thesis using p1(2) psp by (simp add: dos_ok_def dos_used_def)
  next
    case False
    define s2 where "s2 = s\<lparr>mcbs := m1, mem_access_mode := mem_access_mode s AND NOT 0x80\<rparr>"
    have nl: "\<not> umb_linked s" using whole False and_c0_zero by blast
    then have st2: "start_mcb 0xffff LARGEST s2 = ?f"
      by (auto simp: start_mcb_def Let_def s2_def umb_linked_def)
    from largest_pass_ok[of s2 "coalesce 1 bs", unfolded st2] p1(2) obtain m2 where
      p2: "largest_pass s2 = Some (Inr (word_of_nat ?z, s2\<lparr>mcbs := m2\<rparr>))" "mchain m2 ?f (coalesce 1 bs)"
      by (auto simp: s2_def)
    define s3 where "s3 = s2\<lparr>mcbs := m2, mem_access_mode := mem_access_mode s\<rparr>"
    have "DosMemLargest s = Some (Inr (if ?z = 0 then DE_NOMEM else SUCCESS, word_of_nat ?z, s3))"
      using False p1(1) p2(1) zero access_bits[OF False] by (simp add: DosMemLargest_def s2_def s3_def Let_def)
    moreover have "dos_ok s3 (coalesce 1 bs)" "dos_used s3 (coalesce 1 bs) = dos_used s bs"
      using p2(2) psp by (simp_all add: dos_ok_def dos_used_def s3_def s2_def)
    moreover have "s3 = s\<lparr>mcbs := mcbs s3\<rparr>" by (simp add: s3_def s2_def)
    ultimately show ?thesis by blast
  qed
qed

text \<open>
  \<open>DosMemLargest\<close> over the whole chain reports the size of the largest free block
  after joining neighbours, and fails exactly when that is zero; no area in use is touched
  and the allocation strategy is as before, although the call changes it on the way.
\<close>

theorem DosMemLargest_is_largest:
  assumes ok: "dos_ok s bs" and whole: "\<not> umb_linked s \<or> mem_access_mode s AND 0xc0 = 0"
  shows "\<exists>s1. DosMemLargest s =
      Some (Inr (if largest_blk (coalesce 1 bs) = 0 then DE_NOMEM else SUCCESS,
        word_of_nat (largest_blk (coalesce 1 bs)), s1)) \<and>
    dos_ok s1 (coalesce 1 bs) \<and> dos_used s1 (coalesce 1 bs) = dos_used s bs \<and>
    s1 = s\<lparr>mcbs := mcbs s1\<rparr>"
  by (rule DosMemLargest_rule[OF assms])

theorem DosMemLargest_is_largest_witness:
  "\<exists>s1. DosMemLargest dos0 = Some (Inr (SUCCESS, 4096, s1))"
  using DosMemLargest_is_largest[OF dos0_ok(1)] dos0_ok(5)
  by (auto simp: blks0_def umb_linked_def dos0_def)

section \<open>Release\<close>

lemma chain_free_mcb:
  assumes c: "mchain m a (pre @ b # post)"
  shows "mchain (free_mcb (a + span 1 pre) m) a (pre @ Blk (bsize b) 0 # post)"
proof -
  let ?p = "a + span 1 pre"
  have v: "mview m ?p = Some (b, post = [])" using chain_at[OF c] by simp
  have "mview (free_mcb ?p m) ?p = Some (Blk (bsize b) 0, post = [])"
    using v by (auto simp: mview_def free_mcb_def mcbValid_def split: if_splits)
  moreover have "mview (free_mcb ?p m) x = mview m x" if "x \<noteq> ?p" for x
    using that by (auto simp: free_mcb_def intro: mview_same)
  ultimately show ?thesis by (intro chain_splice1[OF c refl]) auto
qed

lemma dos_used_header:
  assumes "dos_ok s bs" "(p, k, w) \<in> dos_used s bs"
  obtains pre b post where "bs = pre @ b # post" "p = unat (first_mcb s) + span 1 pre + 1" "bsize b = k" "bowner b = w" "w \<noteq> 0"
    "mchain (mcbs s) (unat (first_mcb s)) (pre @ b # post)"
  using used_split[OF assms(2)[unfolded dos_used_def]] assms(1)[unfolded dos_ok_def] that by metis

lemma mview_DosMemFree:
  assumes "mview (mcbs s) p = Some (b, l)" "0 < p" "p < 65536"
  shows "DosMemFree (word_of_nat p) s = (SUCCESS, if is_free b then s else s\<lparr>mcbs := free_mcb p (mcbs s)\<rparr>)"
proof -
  have u: "unat (word_of_nat p :: 16 word) = p" by (rule unat_of_nat16[OF assms(3)])
  then have "(word_of_nat p :: 16 word) \<noteq> 0" using assms(2) by (metis unat_0 less_irrefl)
  with u mview_SomeD(1,4)[OF assms(1)] show ?thesis
    by (auto simp: DosMemFree_def Let_def mcbFreeable_def mcbValid_def)
qed

lemma DosMemFree_rule:
  assumes ok: "dos_ok s bs" and u: "(p + 1, k, w) \<in> dos_used s bs"
  shows "\<exists>s1 bs1. DosMemFree (word_of_nat p) s = (SUCCESS, s1) \<and> s1 = s\<lparr>mcbs := mcbs s1\<rparr> \<and> dos_ok s1 bs1 \<and>
    map bsize bs1 = map bsize bs \<and> dos_used s1 bs1 = dos_used s bs - {(p + 1, k, w)}"
proof -
  from dos_used_header[OF ok u] obtain pre b post where b: "bs = pre @ b # post"
    "p = unat (first_mcb s) + span 1 pre" "bsize b = k" "bowner b = w" "w \<noteq> 0"
    and c: "mchain (mcbs s) (unat (first_mcb s)) (pre @ b # post)" by (metis add_right_cancel)
  let ?m = "free_mcb p (mcbs s)" and ?bs1 = "pre @ Blk (bsize b) 0 # post"
  have v: "mview (mcbs s) p = Some (b, post = [])" "0 < p" "p < 65536" using chain_at[OF c] b(2) by auto
  have "DosMemFree (word_of_nat p) s = (SUCCESS, s\<lparr>mcbs := ?m\<rparr>)"
    using mview_DosMemFree[OF v] b(4,5) by simp
  moreover have "dos_ok (s\<lparr>mcbs := ?m\<rparr>) ?bs1"
    using chain_free_mcb[OF c] b(2) ok by (simp add: dos_ok_def)
  moreover have "dos_used (s\<lparr>mcbs := ?m\<rparr>) ?bs1 = dos_used s bs - {(p + 1, k, w)}"
    using used_release[of b 1 "unat (first_mcb s)" pre post] b by (simp add: dos_used_def)
  moreover have "map bsize ?bs1 = map bsize bs" using b(1) by simp
  moreover have "s\<lparr>mcbs := ?m\<rparr> = s\<lparr>mcbs := mcbs (s\<lparr>mcbs := ?m\<rparr>)\<rparr>" by simp
  ultimately show ?thesis by blast
qed

text \<open>
  \<open>DosMemFree\<close> of the MCB of an area in use succeeds, takes exactly that area out of
  use and leaves the layout of the chain as it is; neighbours are joined later.
\<close>

theorem DosMemFree_releases:
  assumes ok: "dos_ok s bs" and u: "(p + 1, k, w) \<in> dos_used s bs"
  shows "\<exists>s1 bs1. DosMemFree (word_of_nat p) s = (SUCCESS, s1) \<and> s1 = s\<lparr>mcbs := mcbs s1\<rparr> \<and> dos_ok s1 bs1 \<and>
    map bsize bs1 = map bsize bs \<and> dos_used s1 bs1 = dos_used s bs - {(p + 1, k, w)}"
  by (rule DosMemFree_rule[OF assms])

theorem DosMemFree_releases_witness:
  "\<exists>s1 bs1. DosMemFree 256 dos0 = (SUCCESS, s1) \<and> dos_ok s1 bs1 \<and> dos_used s1 bs1 = {(4371, 16, 0x200)}"
  using DosMemFree_releases[OF dos0_ok(1), of 256 16 8] unfolding dos0_ok(7) by auto

section \<open>Resizing\<close>

lemma joined:
  assumes "mchain m a (pre @ b # post)"
  obtains m' x xs where "joinMCBs (a + span 1 pre) m = Some (0, m')" "absorb 1 b post = x # xs"
    "mchain m' a (pre @ x # xs)" "bowner x = bowner b"
proof -
  from mem.join_in_chain[OF assms] obtain m' where "joinMCBs (a + span 1 pre) m = Some (0, m')"
    "mchain m' a (pre @ absorb 1 b post)" by blast
  moreover obtain x xs where "absorb 1 b post = x # xs" "bowner x = bowner b" using absorb_Cons by metis
  ultimately show ?thesis using that by simp
qed

lemma mcb_cut_ok:
  assumes c: "mchain m a (pre @ b # post)" and p: "p = a + span 1 pre" and n: "unat sz \<le> bsize b"
  shows "\<exists>m' rest. mcb_cut p sz m = Some (SUCCESS, m') \<and> mchain m' a (pre @ Blk (unat sz) (bowner b) # rest) \<and>
    used 1 (p + 1 + unat sz) rest = used 1 (p + 1 + bsize b) post \<and> span 1 rest + unat sz = span 1 post + bsize b"
proof (cases "unat sz = bsize b")
  case True
  have "mview m p = Some (b, post = [])" using chain_at[OF c] p by simp
  note v = mview_SomeD[OF this]
  have "mcb_cut p sz m = Some (SUCCESS, m)" using True v(2) by (simp add: mcb_cut_def word_less_nat_alt)
  moreover have "Blk (unat sz) (bowner b) = b" using True by (cases b) simp
  ultimately show ?thesis using c True by (intro exI[of _ m] exI[of _ post]) simp
next
  case False
  have v: "mview m p = Some (b, post = [])" and pos: "0 < p" and le: "p + 1 + bsize b \<le> 65536"
    using chain_at[OF c] p by auto
  note fs = mview_SomeD[OF v]
  define q where "q = p + unat sz + 1"
  have q: "q \<noteq> p" "p \<noteq> q" "q < 65536" using n False le by (simp_all add: q_def)
  have w1: "unat (m_size (m p) - sz - 1) = bsize b - unat sz - 1"
    using n False fs(2) by (simp add: unat_sub_if' word_le_nat_alt)
  let ?d = "Blk (bsize b - unat sz - 1) 0"
  define m1 where "m1 = m(q := (m q)\<lparr>m_size := m_size (m p) - sz - 1, m_type := m_type (m p)\<rparr>)"
  define m2 where "m2 = m1(p := (m1 p)\<lparr>m_size := sz, m_type := MCB_NORMAL\<rparr>)"
  define m3 where "m3 = m2(q := (m2 q)\<lparr>m_psp := 0\<rparr>)"
  have sm: "m_size (m p) - sz - 1 \<noteq> 0xffff" "sz \<noteq> 0xffff"
    by (rule size_ok, use w1 n False le pos in linarith)+
  have vp: "mview m3 p = Some (Blk (unat sz) (bowner b), False)"
    using q sm fs(3) by (simp add: m3_def m2_def m1_def mview_def mcbValid_def)
  have "mview m3 q = Some (?d, post = [])"
    using q sm fs(5) w1 by (simp add: m3_def m2_def m1_def mview_def mcbValid_def)
  then have vq: "mview m3 (p + 1 + bsize (Blk (unat sz) (bowner b))) = Some (?d, post = [])"
    by (simp add: q_def ac_simps)
  have o: "mview m3 x = mview m x" if "x \<noteq> p" "x \<noteq> q" for x
    using that by (auto simp: m3_def m2_def m1_def intro: mview_same)
  have "mchain m3 a (pre @ Blk (unat sz) (bowner b) # ?d # post)"
    by (rule chain_splice2[OF c p _ vp vq]) (use o n False q_def in auto)
  then have c3: "mchain m3 a ((pre @ [Blk (unat sz) (bowner b)]) @ ?d # post)" by simp
  from mem.join_in_chain[OF c3] obtain m' where
    j: "joinMCBs (a + span 1 (pre @ [Blk (unat sz) (bowner b)])) m3 = Some (0, m')"
    "mchain m' a ((pre @ [Blk (unat sz) (bowner b)]) @ absorb 1 ?d post)" by blast
  have "a + span 1 (pre @ [Blk (unat sz) (bowner b)]) = q" using p by (simp add: q_def)
  with j(1) have "joinMCBs q m3 = Some (0, m')" by simp
  then have "mcb_cut p sz m = Some (SUCCESS, m')"
    using n False fs(2) q(3)
    by (simp add: mcb_cut_def Let_def m3_def m2_def m1_def q_def word_less_nat_alt FP_SEG_def SUCCESS_def)
  moreover have "used 1 (p + 1 + unat sz) (absorb 1 ?d post) = used 1 (p + 1 + bsize b) post"
    using used_absorb[of ?d 1 "p + 1 + unat sz" post] n False by (simp add: ac_simps)
  ultimately show ?thesis using j(2) n False
    by (intro exI[of _ m'] exI[of _ "absorb 1 ?d post"]) simp
qed

lemma absorb_room:
  "absorb h b bs = Blk (bsize b + span h (takeWhile is_free bs)) (bowner b) # dropWhile is_free bs"
  by (induction bs arbitrary: b) (auto simp: ac_simps)

lemma used_dropWhile: "used h (a + span h (takeWhile is_free bs)) (dropWhile is_free bs) = used h a bs"
proof (induction bs arbitrary: a)
  case (Cons b bs)
  from Cons.IH[of "a + h + bsize b"] show ?case by (simp add: add.assoc)
qed simp

lemma chain_set_psp:
  assumes c: "mchain m a (pre @ b # post)" and p: "p = a + span 1 pre"
  shows "mchain (m(p := (m p)\<lparr>m_psp := w\<rparr>)) a (pre @ Blk (bsize b) w # post)"
proof -
  have v: "mview m p = Some (b, post = [])" using chain_at[OF c] p by simp
  have "mview (m(p := (m p)\<lparr>m_psp := w\<rparr>)) p = Some (Blk (bsize b) w, post = [])"
    using v by (auto simp: mview_def mcbValid_def split: if_splits)
  then show ?thesis by (intro chain_splice1[OF c p]) (auto intro: mview_same)
qed

lemma used_replace:
  assumes "\<not> is_free b" "w \<noteq> 0" "used 1 (p + 1 + n) rest = used 1 (p + 1 + bsize b) post" "p = a + span 1 pre"
  shows "used 1 a (pre @ Blk n w # rest) = insert (p + 1, n, w) (used 1 a (pre @ b # post) - {(p + 1, bsize b, bowner b)})"
proof -
  have "used 1 a (pre @ b # post) - {(p + 1, bsize b, bowner b)} = used 1 a (pre @ Blk (bsize b) 0 # post)"
    using used_release[of b 1 a pre post] assms by simp
  then show ?thesis using assms by simp
qed

text \<open>
  C8. \<open>DosMemChange\<close> of an area in use succeeds exactly when the new size is at most the
  room the area has: its size and the free blocks right behind it. Then the area gets
  exactly that size and the running process as its owner. Otherwise the area grows into all
  of its room, keeps its owner, and the status is \<open>DE_NOMEM\<close> with that room as the
  maximal size. Every other area in use is left alone.
\<close>

theorem DosMemChange_resizes:
  assumes ok: "dos_ok s (pre @ b # post)" and b: "\<not> is_free b"
    and para: "unat para = unat (first_mcb s) + span 1 pre + 1"
  defines "room \<equiv> bsize b + span 1 (takeWhile is_free post)"
  defines "others \<equiv> dos_used s (pre @ b # post) - {(unat para, bsize b, bowner b)}"
  shows "if unat sz \<le> room
    then \<exists>s1 bs1. DosMemChange para sz s = Some (Inr (SUCCESS, None, s1)) \<and> dos_ok s1 bs1 \<and>
      dos_used s1 bs1 = insert (unat para, unat sz, cu_psp s) others
    else \<exists>s1 bs1. DosMemChange para sz s = Some (Inr (DE_NOMEM, Some (word_of_nat room), s1)) \<and> dos_ok s1 bs1 \<and>
      dos_used s1 bs1 = insert (unat para, room, bowner b) others"
proof -
  let ?a = "unat (first_mcb s)"
  define p where "p = ?a + span 1 pre"
  have c: "mchain (mcbs s) ?a (pre @ b # post)" and psp: "cu_psp s \<noteq> 0" using ok by (auto simp: dos_ok_def)
  have v: "mview (mcbs s) p = Some (b, post = [])" and pos: "0 < p" and le: "p + 1 + bsize b \<le> 65536"
    using chain_at[OF c] p_def by auto
  note fs = mview_SomeD[OF v]
  have pp: "unat para = p + 1" "unat para - 1 = p" using para by (simp_all add: p_def)
  then have pn: "para \<noteq> 0" by auto
  have seg: "FP_SEG p = p" using le by (simp add: FP_SEG_def)
  define r where "r = (if m_size (mcbs s p) < sz then joinMCBs (FP_SEG p) (mcbs s) else Some (SUCCESS, mcbs s))"
  have oth: "others = used 1 ?a (pre @ b # post) - {(p + 1, bsize b, bowner b)}"
    by (simp add: others_def dos_used_def pp)
  obtain m x xs where m: "r = Some (SUCCESS, m)" "mchain m ?a (pre @ x # xs)" "bowner x = bowner b"
    "used 1 (p + 1 + bsize x) xs = used 1 (p + 1 + bsize b) post"
    "unat sz \<le> bsize b \<Longrightarrow> bsize x = bsize b" "\<not> unat sz \<le> bsize b \<Longrightarrow> bsize x = room"
  proof (cases "unat sz \<le> bsize b")
    case True
    then show ?thesis using that[of "mcbs s" b post] c fs(2) by (simp add: r_def word_less_nat_alt)
  next
    case False
    from joined[OF c] obtain m' x xs where j: "joinMCBs p (mcbs s) = Some (0, m')" "absorb 1 b post = x # xs"
      "mchain m' ?a (pre @ x # xs)" "bowner x = bowner b" unfolding p_def by metis
    have x: "bsize x = room" "xs = dropWhile is_free post" using j(2) by (auto simp: absorb_room room_def)
    have "used 1 (p + 1 + bsize x) xs = used 1 (p + 1 + bsize b) post"
      using used_dropWhile[of 1 "p + 1 + bsize b" post] x by (simp add: room_def ac_simps)
    then show ?thesis using that[of m' x xs] j x False fs(2) seg
      by (simp add: r_def word_less_nat_alt SUCCESS_def)
  qed
  have vm: "unat (m_size (m p)) = bsize x" using chain_at[OF m(2)] mview_SomeD(2)[of m p] by (auto simp: p_def)
  have br: "bsize b \<le> room" by (simp add: room_def)
  have run: "DosMemChange para sz s =
     (if m_size (m p) < sz then Some (Inr (DE_NOMEM, Some (m_size (m p)), s\<lparr>mcbs := m\<rparr>))
      else case mcb_cut p sz m of
            None \<Rightarrow> None
          | Some (rc, m1) \<Rightarrow>
              if rc \<noteq> SUCCESS then Some (Inr (DE_MCBDESTRY, None, s\<lparr>mcbs := m1\<rparr>))
              else Some (Inr (SUCCESS, None, s\<lparr>mcbs := m1(p := (m1 p)\<lparr>m_psp := cu_psp s\<rparr>)\<rparr>)))"
    using m(1) fs(1) pn pp(2) pos by (simp add: DosMemChange_def Let_def r_def)
  show ?thesis
  proof (cases "unat sz \<le> room")
    case True
    then have szx: "unat sz \<le> bsize x" using m(5,6) by (cases "unat sz \<le> bsize b") auto
    from mcb_cut_ok[OF m(2) p_def szx] obtain m1 rest where cut: "mcb_cut p sz m = Some (SUCCESS, m1)"
      "mchain m1 ?a (pre @ Blk (unat sz) (bowner x) # rest)"
      "used 1 (p + 1 + unat sz) rest = used 1 (p + 1 + bsize x) xs" by blast
    let ?s1 = "s\<lparr>mcbs := m1(p := (m1 p)\<lparr>m_psp := cu_psp s\<rparr>)\<rparr>" and ?bs1 = "pre @ Blk (unat sz) (cu_psp s) # rest"
    have "DosMemChange para sz s = Some (Inr (SUCCESS, None, ?s1))"
      using run cut(1) szx vm by (simp add: word_less_nat_alt)
    moreover have "dos_ok ?s1 ?bs1" using chain_set_psp[OF cut(2) p_def] psp by (simp add: dos_ok_def)
    moreover have "dos_used ?s1 ?bs1 = insert (unat para, unat sz, cu_psp s) others"
      using used_replace[OF b psp, of p "unat sz" rest post ?a pre] cut(3) m(4) p_def oth pp(1)
      by (simp add: dos_used_def)
    ultimately show ?thesis using True by auto
  next
    case False
    then have x: "bsize x = room" using m(6) br by simp
    have bw: "bowner b \<noteq> 0" using b by simp
    have sw: "m_size (m p) = word_of_nat room" by (rule word_eq_of_nat) (use vm x in simp)
    have "DosMemChange para sz s = Some (Inr (DE_NOMEM, Some (word_of_nat room), s\<lparr>mcbs := m\<rparr>))"
      using run sw vm x False by (simp add: word_less_nat_alt)
    moreover have "dos_ok (s\<lparr>mcbs := m\<rparr>) (pre @ x # xs)" using m(2) psp by (simp add: dos_ok_def)
    moreover have "x = Blk room (bowner b)" using x m(3) by (cases x) simp
    then have "dos_used (s\<lparr>mcbs := m\<rparr>) (pre @ x # xs) = insert (unat para, room, bowner b) others"
      using used_replace[OF b bw, of p room xs post ?a pre] m(4) x p_def oth pp(1)
      by (simp add: dos_used_def)
    ultimately show ?thesis using False by auto
  qed
qed

theorem DosMemChange_resizes_witness:
  "\<exists>s1 bs1. DosMemChange 257 5000 dos0 = Some (Inr (DE_NOMEM, Some 4113, s1)) \<and>
     dos_used s1 bs1 = {(257, 4113, 8), (4371, 16, 0x200)}"
proof -
  have ok: "dos_ok dos0 ([] @ Blk 16 8 # [Blk 4096 0, Blk 16 0x200, Blk 512 0])"
    and u: "dos_used dos0 ([] @ Blk 16 8 # [Blk 4096 0, Blk 16 0x200, Blk 512 0]) = {(257, 16, 8), (4371, 16, 0x200)}"
    using dos0_ok(1,7) by (simp_all add: blks0_def)
  show ?thesis
    using DosMemChange_resizes[OF ok, of 257 5000] unfolding u by (auto simp: dos0_ok(4))
qed

section \<open>Checking\<close>

lemma mcb_check_chain: "mchain m a bs \<Longrightarrow> mcb_check a m = Some SUCCESS"
proof (induction bs arbitrary: a)
  case (Cons b bs)
  have v: "mview m a = Some (b, bs = [])" using Cons.prems by simp
  note f = mview_SomeD[OF v]
  show ?case
  proof (cases "bs = []")
    case False
    have "mchain m (a + 1 + bsize b) bs" using Cons.prems False by simp
    from Cons.IH[OF this] f(5,6) False show ?thesis by (subst mcb_check.simps) simp
  qed (use f(5) in \<open>subst mcb_check.simps, simp\<close>)
qed simp

lemma hma_check_chain: "chain 16 65536 (hview m) (unat p) bs \<Longrightarrow> hma_check p m = Some SUCCESS"
proof (induction bs arbitrary: p)
  case (Cons b bs)
  have v: "hview m (unat p) = Some (b, bs = [])" using Cons.prems by simp
  note f = hview_fields[OF v]
  show ?case
  proof (cases "bs = []")
    case False
    have "chain 16 65536 (hview m) (unat (h_next m p)) bs" using Cons.prems False f(5) by simp
    from Cons.IH[OF this] f(1,4) False show ?thesis by (subst hma_check.simps) simp
  qed (use f(4) in \<open>subst hma_check.simps, simp\<close>)
qed simp

definition hma_fine :: "'a hma_scheme \<Rightarrow> bool" where
  "hma_fine s \<longleftrightarrow> HMAclaimed s \<longrightarrow> (\<exists>hs. hma_ok s hs)"

lemma DosMemCheck_ok: "dos_ok s bs \<Longrightarrow> hma_fine s \<Longrightarrow> DosMemCheck s = Some (Inr SUCCESS)"
proof -
  assume ok: "dos_ok s bs" and h: "hma_fine s"
  have "first_mcb s \<noteq> 0" using ok chain_pos[of 1 65536 "mview (mcbs s)"] by (force simp: dos_ok_def)
  moreover have "DosHMACheck s = Some SUCCESS"
    using h hma_check_chain[of "hmem s" FIRST_MCB] by (auto simp: hma_fine_def hma_ok_def hchain_def DosHMACheck_def FIRST_MCB_def)
  ultimately show ?thesis using ok mcb_check_chain by (auto simp: DosMemCheck_def dos_ok_def)
qed

text \<open>
  On a sound arena the system call to resize a block (function 4Ah) with segment 1
  passes the consistency check and then follows the null far pointer: the MCB of segment 1
  would be at segment 0, which only \<open>DosMemFree\<close> guards against. Any program can bring
  the host down with it.
\<close>

theorem int21_4A_segment_1_crashes:
  assumes "dos_ok s bs" "hma_fine s"
  shows "int21_4A 1 bx s = Some (Inl Null_deref)"
  using DosMemCheck_ok[OF assms] by (simp add: int21_4A_def panic_unless_ok_def DosMemChange_def)

theorem int21_4A_segment_1_crashes_witness: "int21_4A 1 16 dos0 = Some (Inl Null_deref)"
  by (rule int21_4A_segment_1_crashes[OF dos0_ok(1)]) (simp add: hma_fine_def dos0_ok)

section \<open>Linking upper memory\<close>

definition umb_ok :: "'a dosmem_scheme \<Rightarrow> blk list \<Rightarrow> blk list \<Rightarrow> bool" where
  "umb_ok s lo hi \<longleftrightarrow> uppermem_root s \<noteq> 0xffff \<and> lo \<noteq> [] \<and> hi \<noteq> [] \<and>
     unat (uppermem_root s) = unat (first_mcb s) + span 1 lo \<and>
     (if uppermem_link s = 0
      then mchain (mcbs s) (unat (first_mcb s)) lo \<and> mchain (mcbs s) (unat (uppermem_root s)) hi
      else uppermem_link s = 1 \<and> mchain (mcbs s) (unat (first_mcb s)) (lo @ hi))"

lemma run_up_last:
  "run_up 1 (mview m) a (xs @ [b]) \<longleftrightarrow> run_up 1 (mview m) a xs \<and> 0 < a + span 1 xs \<and>
     mview m (a + span 1 xs) = Some (b, False)"
  by (induction xs arbitrary: a) (auto simp: add.assoc)

lemma walk_up:
  "run_up 1 (mview m) a xs \<Longrightarrow> a + span 1 xs \<le> root \<Longrightarrow> root \<le> 65535 \<Longrightarrow>
     umb_walk root q a m = umb_walk root (if xs = [] then q else Some (a + span 1 (butlast xs))) (a + span 1 xs) m"
proof (induction xs arbitrary: a q)
  case (Cons b xs)
  have v: "mview m a = Some (b, False)" using Cons.prems(1) by simp
  note f = mview_SomeD[OF v]
  have "FP_SEG a \<noteq> root" using Cons.prems(2,3) by (simp add: FP_SEG_def)
  then have "umb_walk root q a m = umb_walk root (Some a) (a + 1 + bsize b) m"
    using f(1,5,6) by (subst umb_walk.simps) simp
  also have "\<dots> = umb_walk root (if xs = [] then Some a else Some (a + 1 + bsize b + span 1 (butlast xs)))
      (a + 1 + bsize b + span 1 xs) m"
    using Cons.IH[of "a + 1 + bsize b" "Some a"] Cons.prems by simp
  finally show ?case by (simp add: add.assoc)
qed simp

lemma set_type_chain:
  assumes "mview m p = Some (b, l)"
  shows "mview (m(p := (m p)\<lparr>m_type := if l' then MCB_LAST else MCB_NORMAL\<rparr>)) p = Some (b, l')"
    "x \<noteq> p \<Longrightarrow> mview (m(p := (m p)\<lparr>m_type := t\<rparr>)) x = mview m x"
  using assms by (auto simp: mview_def mcbValid_def split: if_splits)

lemma mchain_snoc: "mchain m a (xs @ [b]) \<longleftrightarrow> run_up 1 (mview m) a xs \<and> 0 < a + span 1 xs \<and>
    a + span 1 xs + 1 + bsize b \<le> 65536 \<and> mview m (a + span 1 xs) = Some (b, True)"
  by (auto simp: chain_append)

lemma run_up_change:
  assumes "run_up 1 (mview m) a xs" "\<And>x. x < a + span 1 xs \<Longrightarrow> mview m' x = mview m x"
  shows "run_up 1 (mview m') a xs"
  by (rule run_up_cong[OF assms(1)]) (use assms(2) in auto)

lemma link_splits:
  assumes lo: "lo = xs @ [b]" and hi: "hi \<noteq> []" and p: "p = a + span 1 xs"
  shows "mchain m a (lo @ hi) \<Longrightarrow>
      mchain (m(p := (m p)\<lparr>m_type := MCB_LAST\<rparr>)) a lo \<and> mchain (m(p := (m p)\<lparr>m_type := MCB_LAST\<rparr>)) (a + span 1 lo) hi"
    "mchain m a lo \<Longrightarrow> mchain m (a + span 1 lo) hi \<Longrightarrow>
      mchain (m(p := (m p)\<lparr>m_type := MCB_NORMAL\<rparr>)) a (lo @ hi)"
proof -
  obtain h hs where h: "hi = h # hs" using hi by (cases hi) auto
  have sp: "a + span 1 lo = p + 1 + bsize b" using lo p by simp
  {
    assume "mchain m a (lo @ hi)"
    then have c: "run_up 1 (mview m) a xs" "0 < p" "mview m p = Some (b, False)" "p + 1 + bsize b \<le> 65536"
      "mchain m (p + 1 + bsize b) hi"
      using lo p h by (simp_all add: chain_append)
    let ?m = "m(p := (m p)\<lparr>m_type := MCB_LAST\<rparr>)"
    have v: "mview ?m p = Some (b, True)" using set_type_chain(1)[OF c(3), of True] by simp
    have o: "x \<noteq> p \<Longrightarrow> mview ?m x = mview m x" for x by (rule set_type_chain(2)[OF c(3)])
    have "run_up 1 (mview ?m) a xs" by (rule run_up_change[OF c(1)]) (use o p in auto)
    then have "mchain ?m a lo" using v c(2,4) p unfolding lo mchain_snoc by simp
    moreover have "mchain ?m (p + 1 + bsize b) hi" by (rule chain_cong[OF c(5)]) (use o in auto)
    ultimately show "mchain ?m a lo \<and> mchain ?m (a + span 1 lo) hi" using sp by simp
  next
    assume "mchain m a lo" and c5: "mchain m (a + span 1 lo) hi"
    then have c: "run_up 1 (mview m) a xs" "0 < p" "mview m p = Some (b, True)" "p + 1 + bsize b \<le> 65536"
      unfolding lo mchain_snoc p by simp_all
    let ?m = "m(p := (m p)\<lparr>m_type := MCB_NORMAL\<rparr>)"
    have v: "mview ?m p = Some (b, False)" using set_type_chain(1)[OF c(3), of False] by simp
    have o: "x \<noteq> p \<Longrightarrow> mview ?m x = mview m x" for x by (rule set_type_chain(2)[OF c(3)])
    have "run_up 1 (mview ?m) a xs" by (rule run_up_change[OF c(1)]) (use o p in auto)
    moreover have "mchain ?m (p + 1 + bsize b) hi"
      by (rule chain_cong[OF c5[unfolded sp]]) (use o in auto)
    ultimately have "mchain ?m a (xs @ b # hi)" using v c(2,4) p hi by (simp add: chain_append)
    then show "mchain ?m a (lo @ hi)" using lo by simp
  }
qed

lemma umb_walk_linked:
  assumes "mchain m a (lo @ hi)" "lo = xs @ [b]" "hi \<noteq> []" "root = a + span 1 lo" "root \<le> 65535"
  shows "umb_walk root None a m = Some (Some (Some (a + span 1 xs), root))"
proof -
  obtain h hs where "hi = h # hs" using assms(3) by (cases hi) auto
  then have r: "run_up 1 (mview m) a lo" using assms(1) by (simp add: chain_append)
  have "umb_walk root None a m = umb_walk root (Some (a + span 1 xs)) root m"
    using walk_up[OF r, of root None] assms(2,4,5) by simp
  then show ?thesis using assms(5) by (subst (asm) (2) umb_walk.simps) (simp add: FP_SEG_def)
qed

lemma umb_walk_unlinked:
  assumes "mchain m a (xs @ [b])" "root = a + span 1 (xs @ [b])" "root \<le> 65535"
  shows "\<exists>q. umb_walk root None a m = Some (Some (q, a + span 1 xs))"
proof -
  have c: "run_up 1 (mview m) a xs" "mview m (a + span 1 xs) = Some (b, True)" using assms(1) unfolding mchain_snoc by auto
  have "umb_walk root None a m = umb_walk root (if xs = [] then None else Some (a + span 1 (butlast xs))) (a + span 1 xs) m"
    by (rule walk_up[OF c(1)]) (use assms(2,3) in auto)
  also have "\<dots> = Some (Some (if xs = [] then None else Some (a + span 1 (butlast xs)), a + span 1 xs))"
    using mview_SomeD(5)[OF c(2)] by (subst umb_walk.simps) simp
  finally show ?thesis by blast
qed

lemma DosUmbLink_ok:
  assumes ok: "umb_ok s lo hi" and n: "n = 0 \<or> n = 1"
  shows "\<exists>m'. DosUmbLink n s = Some (Inr (s\<lparr>mcbs := m', uppermem_link := ucast n\<rparr>)) \<and>
    umb_ok (s\<lparr>mcbs := m', uppermem_link := ucast n\<rparr>) lo hi"
proof -
  let ?a = "unat (first_mcb s)" and ?r = "unat (uppermem_root s)"
  have rt: "uppermem_root s \<noteq> 0xffff" "?r = ?a + span 1 lo" "lo \<noteq> []" "hi \<noteq> []" "?r \<le> 65535"
    using ok unat16[of "uppermem_root s"] by (auto simp: umb_ok_def)
  obtain xs b where lo: "lo = xs @ [b]" using rt(3) by (cases lo rule: rev_cases) auto
  have pos: "first_mcb s \<noteq> 0"
  proof
    assume "first_mcb s = 0"
    then show False using ok rt(3) chain_pos[of 1 65536 "mview (mcbs s)" 0] by (auto simp: umb_ok_def split: if_splits)
  qed
  have lnk: "uppermem_link s = 0 \<or> uppermem_link s = 1" using ok by (auto simp: umb_ok_def split: if_splits)
  then consider (same) "uppermem_link s = ucast n" "ucast (uppermem_link s AND 1) = n"
    | (cut) "uppermem_link s = 1" "n = 0" | (join) "uppermem_link s = 0" "n = 1"
    using n by auto
  then show ?thesis
  proof cases
    case same
    then have "DosUmbLink n s = Some (Inr s)" using rt(1) by (simp add: DosUmbLink_def)
    moreover have "s\<lparr>mcbs := mcbs s, uppermem_link := ucast n\<rparr> = s" using same(1) by simp
    ultimately show ?thesis using ok by (intro exI[of _ "mcbs s"]) simp
  next
    case cut
    have c: "mchain (mcbs s) ?a (lo @ hi)" using ok cut(1) by (simp add: umb_ok_def)
    let ?p = "?a + span 1 xs"
    have "m_type (mcbs s ?p) = MCB_NORMAL"
      using c lo mview_SomeD(5)[of "mcbs s" ?p b False] by (simp add: chain_append rt(4))
    then have "DosUmbLink n s = Some (Inr ((set_type MCB_LAST ?p s)\<lparr>uppermem_link := ucast n\<rparr>))"
      using cut rt(1,5) pos umb_walk_linked[OF c lo rt(4) rt(2) rt(5)]
      by (simp add: DosUmbLink_def FP_SEG_def)
    then show ?thesis using link_splits(1)[OF lo rt(4) refl c] rt cut
      by (intro exI[of _ "(mcbs s)(?p := (mcbs s ?p)\<lparr>m_type := MCB_LAST\<rparr>)"]) (simp add: set_type_def umb_ok_def)
  next
    case join
    have c: "mchain (mcbs s) ?a lo" "mchain (mcbs s) (?a + span 1 lo) hi"
      using ok join(1) rt(2) by (simp_all add: umb_ok_def)
    let ?p = "?a + span 1 xs"
    have t: "m_type (mcbs s ?p) = MCB_LAST"
      using c(1) lo mview_SomeD(5)[of "mcbs s" ?p b True] by (simp add: mchain_snoc)
    obtain q where "umb_walk ?r None ?a (mcbs s) = Some (Some (q, ?p))"
      using umb_walk_unlinked[of "mcbs s" ?a xs b ?r] c(1) lo rt(2,5) by auto
    then have "DosUmbLink n s = Some (Inr ((set_type MCB_NORMAL ?p s)\<lparr>uppermem_link := ucast n\<rparr>))"
      using join rt(1) pos t by (simp add: DosUmbLink_def)
    then show ?thesis using link_splits(2)[OF lo rt(4) refl c] rt join
      by (intro exI[of _ "(mcbs s)(?p := (mcbs s ?p)\<lparr>m_type := MCB_NORMAL\<rparr>)"]) (simp add: set_type_def umb_ok_def)
  qed
qed

text \<open>
  \<open>DosUmbLink\<close> ends and never goes wrong on an arena with upper memory: linking makes
  one chain of the lower and the upper blocks, unlinking cuts it exactly at
  \<open>uppermem_root\<close>, and neither changes a block; the link state is the requested one.
\<close>

theorem DosUmbLink_links:
  assumes "umb_ok s lo hi" "n \<le> 1"
  shows "\<exists>s1. DosUmbLink n s = Some (Inr s1) \<and> umb_ok s1 lo hi \<and> uppermem_link s1 = ucast n"
proof -
  have "n = 0 \<or> n = 1"
  proof -
    have "unat n \<le> 1" using assms(2) by (simp add: word_le_nat_alt)
    then have "unat n = unat (0 :: 16 word) \<or> unat n = unat (1 :: 16 word)" by auto
    then show ?thesis by (simp only: word_unat_eq_iff)
  qed
  from DosUmbLink_ok[OF assms(1) this] show ?thesis by auto
qed

lemma dos1_umb: "umb_ok dos1 [Blk 16 8, Blk 4096 0] [Blk 16 0x200, Blk 512 0]"
  using dos0_ok(1) by (simp add: umb_ok_def dos1_def dos_ok_def blks0_def dos0_ok(4))

theorem DosUmbLink_links_witness:
  "\<exists>s1. DosUmbLink 0 dos1 = Some (Inr s1) \<and> umb_ok s1 [Blk 16 8, Blk 4096 0] [Blk 16 0x200, Blk 512 0] \<and>
    uppermem_link s1 = 0"
  using DosUmbLink_links[OF dos1_umb, of 0] by simp

section \<open>Release at process exit\<close>

text \<open>What the exit of the process \<open>ps\<close> does to a block.\<close>

definition release_blk :: "16 word \<Rightarrow> blk \<Rightarrow> blk" where
  "release_blk ps b = (if bowner b = ps then Blk (bsize b) 0 else b)"

lemma release_size [simp]: "bsize (release_blk ps b) = bsize b"
  by (simp add: release_blk_def)

lemma span_release [simp]: "span h (map (release_blk ps) bs) = span h bs"
  by (induction bs) auto

lemma used_release_map: "ps \<noteq> 0 \<Longrightarrow>
    used h a (map (release_blk ps) bs) = {(p, n, w). (p, n, w) \<in> used h a bs \<and> w \<noteq> ps}"
proof (induction bs arbitrary: a)
  case (Cons b bs)
  from Cons.IH[OF Cons.prems, of "a + h + bsize b"] show ?case
    using Cons.prems by (auto simp: release_blk_def)
qed simp

lemma free_owned_chain:
  "mchain (mcbs s) p bs \<Longrightarrow>
     \<exists>m'. free_owned ps p s = Some (SUCCESS, s\<lparr>mcbs := m'\<rparr>) \<and> mchain m' p (map (release_blk ps) bs) \<and>
       (\<forall>x < p. mview m' x = mview (mcbs s) x)"
proof (induction bs arbitrary: p s)
  case (Cons b bs)
  have v: "mview (mcbs s) p = Some (b, bs = [])" and pos: "0 < p" and le: "p + 1 + bsize b \<le> 65536"
    using Cons.prems by auto
  note f = mview_SomeD[OF v]
  have seg: "FP_SEG p = p" using le by (simp add: FP_SEG_def)
  define m1 where "m1 = (if bowner b = ps \<and> \<not> is_free b then free_mcb p (mcbs s) else mcbs s)"
  define s1 where "s1 = (if m_psp (mcbs s p) = ps then snd (DosMemFree (word_of_nat (FP_SEG p)) s) else s)"
  have s1: "s1 = s\<lparr>mcbs := m1\<rparr>"
    using mview_DosMemFree[OF v pos] le f(3) seg by (auto simp: s1_def m1_def)
  have v1: "mview m1 p = Some (release_blk ps b, bs = [])"
    using v f by (auto simp: m1_def release_blk_def mview_def free_mcb_def mcbValid_def split: if_splits)
  have o1: "mview m1 x = mview (mcbs s) x" if "x \<noteq> p" for x
    using that by (auto simp: m1_def free_mcb_def intro: mview_same)
  note f1 = mview_SomeD[OF v1]
  have step: "free_owned ps p s = (if bs = [] then Some (SUCCESS, s1) else free_owned ps (p + 1 + bsize b) s1)"
    using f(1) f1(5,6) s1 by (subst free_owned.simps) (simp add: s1_def[symmetric] Let_def)
  show ?case
  proof (cases "bs = []")
    case True
    then have "mchain m1 p (map (release_blk ps) (b # bs))" using v1 pos le by simp
    with step s1 o1 True show ?thesis by (intro exI[of _ m1]) auto
  next
    case False
    have c: "mchain (mcbs s) (p + 1 + bsize b) bs" using Cons.prems False by simp
    have "mchain m1 (p + 1 + bsize b) bs" by (rule chain_cong[OF c]) (use o1 in auto)
    then have "mchain (mcbs s1) (p + 1 + bsize b) bs" by (simp add: s1)
    from Cons.IH[OF this] obtain m' where m': "free_owned ps (p + 1 + bsize b) s1 = Some (SUCCESS, s1\<lparr>mcbs := m'\<rparr>)"
      "mchain m' (p + 1 + bsize b) (map (release_blk ps) bs)" "\<forall>x < p + 1 + bsize b. mview m' x = mview (mcbs s1) x" by blast
    have "mview m' p = Some (release_blk ps b, False)" using m'(3) v1 False by (simp add: s1)
    then have "mchain m' p (map (release_blk ps) (b # bs))" using m'(2) pos le False by simp
    moreover have "\<forall>x < p. mview m' x = mview (mcbs s) x" using m'(3) o1 by (simp add: s1)
    ultimately show ?thesis using step m'(1) False s1 by auto
  qed
qed simp

text \<open>
  C9. \<open>FreeProcessMem\<close> ends and frees every block of the process, in lower and in upper
  memory alike, whether upper memory was linked or not; every other block keeps its owner,
  no block moves or changes size, and the link state is restored. (The HMA is not claimed.)
\<close>

theorem FreeProcessMem_frees:
  assumes ok: "umb_ok s lo hi" and h: "\<not> HMAclaimed s"
  shows "\<exists>s1. FreeProcessMem ps s = Some (Inr (SUCCESS, s1)) \<and>
    umb_ok s1 (map (release_blk ps) lo) (map (release_blk ps) hi) \<and> uppermem_link s1 = uppermem_link s"
proof -
  from DosUmbLink_ok[OF ok, of 1] obtain m1 where
    l1: "DosUmbLink 1 s = Some (Inr (s\<lparr>mcbs := m1, uppermem_link := 1\<rparr>))"
    and ok1: "umb_ok (s\<lparr>mcbs := m1, uppermem_link := 1\<rparr>) lo hi" by auto
  let ?s1 = "s\<lparr>mcbs := m1, uppermem_link := 1\<rparr>" and ?a = "unat (first_mcb s)"
  have c1: "mchain (mcbs ?s1) ?a (lo @ hi)" using ok1 by (simp add: umb_ok_def)
  from free_owned_chain[OF c1, of ps] obtain m2 where
    fo: "free_owned ps ?a ?s1 = Some (SUCCESS, ?s1\<lparr>mcbs := m2\<rparr>)"
    and c2: "mchain m2 ?a (map (release_blk ps) (lo @ hi))" by blast
  let ?s2 = "?s1\<lparr>mcbs := m2\<rparr>" and ?lo = "map (release_blk ps) lo" and ?hi = "map (release_blk ps) hi"
  have ok2: "umb_ok ?s2 ?lo ?hi" using ok c2 by (simp add: umb_ok_def)
  have lnk: "uppermem_link s = 0 \<or> uppermem_link s = 1" using ok by (auto simp: umb_ok_def split: if_splits)
  then have n: "(ucast (uppermem_link s AND 1) :: 16 word) = 0 \<or> (ucast (uppermem_link s AND 1) :: 16 word) = 1"
    and u: "(ucast (ucast (uppermem_link s AND 1) :: 16 word) :: 8 word) = uppermem_link s" by auto
  from DosUmbLink_ok[OF ok2 n] u obtain m3 where
    l3: "DosUmbLink (ucast (uppermem_link s AND 1)) ?s2 = Some (Inr (?s2\<lparr>mcbs := m3, uppermem_link := uppermem_link s\<rparr>))"
    and ok3: "umb_ok (?s2\<lparr>mcbs := m3, uppermem_link := uppermem_link s\<rparr>) ?lo ?hi" by auto
  have pos: "first_mcb s \<noteq> 0" using chain_pos[OF c2] by auto
  have "FreeProcessMem ps s = Some (Inr (SUCCESS, ?s2\<lparr>mcbs := m3, uppermem_link := uppermem_link s\<rparr>))"
    using l1 fo l3 pos h by (simp add: FreeProcessMem_def FreeProcessHMA_def)
  with ok3 show ?thesis by auto
qed

theorem FreeProcessMem_frees_witness:
  "\<exists>s1. FreeProcessMem 0x200 dos1 = Some (Inr (SUCCESS, s1)) \<and>
    umb_ok s1 [Blk 16 8, Blk 4096 0] [Blk 16 0, Blk 512 0] \<and> uppermem_link s1 = 1"
  using FreeProcessMem_frees[OF dos1_umb, of "0x200"] by (simp add: release_blk_def dos1_def dos0_def)

section \<open>What clients may rely on\<close>

text \<open>
  The memory system calls under first fit with upper memory unlinked or not asked for, as
  an instance of \<open>region_alloc\<close>; areas are (segment, paragraphs). A segment handed back is
  a 16-bit register value other than 0, so \<open>dos_put\<close> makes no call for another number.
\<close>

definition dos_get :: "int \<Rightarrow> dosmem \<Rightarrow> (int \<times> dosmem) run" where
  "dos_get n s =
     (case int21_48 (word_of_int n) s of
        None \<Rightarrow> Inl Assert_failed
      | Some (Inl t) \<Rightarrow> Inl t
      | Some (Inr (carry, ax, bx, s1)) \<Rightarrow> Inr (if carry then 0 else uint ax, s1))"

definition dos_put :: "int \<Rightarrow> dosmem \<Rightarrow> (int \<times> dosmem) run" where
  "dos_put p s =
     (if p \<le> 0 \<or> 65536 \<le> p then Inr (0, s) else
      case int21_49 0 (word_of_int p) s of
        None \<Rightarrow> Inl Assert_failed
      | Some (Inl t) \<Rightarrow> Inl t
      | Some (Inr (carry, ax, s1)) \<Rightarrow> Inr (uint ax, s1))"

definition dos_inv :: "dosmem \<Rightarrow> bool" where
  "dos_inv s \<longleftrightarrow> (\<exists>bs. dos_ok s bs) \<and> hma_fine s \<and> mem_access_mode s AND 0xc0 = 0"

definition dos_live :: "dosmem \<Rightarrow> (int \<times> int) set" where
  "dos_live s = {(int p, int n) | p n. \<exists>bs w. dos_ok s bs \<and> (p, n, w) \<in> dos_used s bs}"

lemma dos_ok_unique: "dos_ok s bs \<Longrightarrow> dos_ok s cs \<Longrightarrow> cs = bs"
  using chain_determ unfolding dos_ok_def by blast

lemma dos_live_eq: "dos_ok s bs \<Longrightarrow> dos_live s = (\<lambda>(p, n, w). (int p, int n)) ` dos_used s bs"
proof -
  assume ok: "dos_ok s bs"
  then have "(\<exists>cs w. dos_ok s cs \<and> (p, n, w) \<in> dos_used s cs) \<longleftrightarrow> (\<exists>w. (p, n, w) \<in> dos_used s bs)" for p n
    using dos_ok_unique by metis
  then show ?thesis by (force simp: dos_live_def)
qed

lemma dos_inv_run: "dos_inv s \<Longrightarrow> dos_ok s1 bs \<Longrightarrow> s1 = s\<lparr>mcbs := mcbs s1\<rparr> \<Longrightarrow> dos_inv s1"
  by (cases s1) (auto simp: dos_inv_def hma_fine_def hma_ok_def)

lemma dos_inv_mode:
  assumes "dos_inv s"
  shows "(ucast (mem_access_mode s) :: 16 word) \<noteq> LARGEST" "whole_chain (ucast (mem_access_mode s)) s"
proof -
  have "(ucast (mem_access_mode s) :: 16 word) AND 0xc0 = 0" using assms ucast_c0 by (simp add: dos_inv_def)
  then show "whole_chain (ucast (mem_access_mode s)) s" "(ucast (mem_access_mode s) :: 16 word) \<noteq> LARGEST"
    by (auto simp: whole_chain_def mode_defs)
qed

lemma dos_get_law:
  assumes inv: "dos_inv s" and n: "0 < n" "n < 65536"
  shows "\<exists>p s1. dos_get n s = Inr (p, s1) \<and> dos_inv s1 \<and>
    (p = 0 \<and> dos_live s1 = dos_live s \<or>
     dos_live s1 = insert (p, n) (dos_live s) \<and> (\<forall>a \<in> dos_live s. disjoint_areas (p, n) a))"
proof -
  obtain bs where ok: "dos_ok s bs" using inv by (auto simp: dos_inv_def)
  let ?mode = "ucast (mem_access_mode s) :: 16 word" and ?n = "word_of_int n :: 16 word"
  have un: "unat ?n = nat n" "int (nat n) = n" using n by (simp_all add: unat_eq_nat_uint uint_word_of_int)
  then have pos: "0 < unat ?n" using n by simp
  note live = dos_live_eq[OF ok]
  from DosMemAlloc_rule[OF ok dos_inv_mode[OF inv] pos] show ?thesis
  proof
    assume "\<exists>s1 pre b post p. DosMemAlloc ?n ?mode s = Some (Inr (SUCCESS, Some p, None, s1)) \<and>
        s1 = s\<lparr>mcbs := mcbs s1\<rparr> \<and>
        coalesce 1 (pre @ b # post) = coalesce 1 bs \<and> chosen ?mode (unat ?n) pre b post \<and>
        (first_mode ?mode \<or> pre @ b # post = coalesce 1 bs) \<and>
        p = carve_at 1 (unat ?n) (last_mode ?mode) (unat (first_mcb s) + span 1 pre) b \<and>
        dos_ok s1 (pre @ carve 1 (unat ?n) (last_mode ?mode) (cu_psp s) b @ post) \<and>
        dos_used s1 (pre @ carve 1 (unat ?n) (last_mode ?mode) (cu_psp s) b @ post) =
          insert (p + 1, unat ?n, cu_psp s) (dos_used s bs) \<and>
        (\<forall>(q, k, w) \<in> dos_used s bs. q + k < p + 1 \<or> p + 1 + unat ?n < q)"
    then show ?thesis
    proof (elim exE conjE)
    fix s1 pre b post p
    let ?bs1 = "pre @ carve 1 (unat ?n) (last_mode ?mode) (cu_psp s) b @ post"
    assume al: "DosMemAlloc ?n ?mode s = Some (Inr (SUCCESS, Some p, None, s1))" and fr: "s1 = s\<lparr>mcbs := mcbs s1\<rparr>"
      and ok1: "dos_ok s1 ?bs1" and u: "dos_used s1 ?bs1 = insert (p + 1, unat ?n, cu_psp s) (dos_used s bs)"
      and d: "\<forall>(q, k, w) \<in> dos_used s bs. q + k < p + 1 \<or> p + 1 + unat ?n < q"
    have "(p + 1, unat ?n, cu_psp s) \<in> used 1 (unat (first_mcb s1)) ?bs1" using u by (simp add: dos_used_def)
    from used_bounds[OF this] have "p + 1 + unat ?n \<le> unat (first_mcb s1) + span 1 ?bs1" by simp
    also have "\<dots> \<le> 65536" by (rule chain_end[OF ok1[unfolded dos_ok_def, THEN conjunct1]])
    finally have p: "p + 1 < 65536" using pos by simp
    have up: "uint (word_of_nat (p + 1) :: 16 word) = int p + 1"
      using arg_cong[OF unat_of_nat16[OF p], of int] by simp
    have "dos_get n s = Inr (int p + 1, s1)"
      using al up by (simp add: dos_get_def int21_48_def SUCCESS_def)
    moreover have "dos_live s1 = insert (int p + 1, n) (dos_live s)"
      using dos_live_eq[OF ok1] u un by (simp add: live)
    moreover have "disjoint_areas (int p + 1, n) a" if al: "a \<in> dos_live s" for a
    proof -
      obtain q k w where q: "(q, k, w) \<in> dos_used s bs" "a = (int q, int k)" using al live by auto
      from d q(1) have "q + k < p + 1 \<or> p + 1 + unat ?n < q" by auto
      then show ?thesis using q(2) un by (auto simp: disjoint_areas_def)
    qed
    ultimately show ?thesis using dos_inv_run[OF inv ok1 fr] by blast
    qed
  next
    assume "\<exists>s1. DosMemAlloc ?n ?mode s = Some (Inr (DE_NOMEM, None, Some (word_of_nat (largest_blk (coalesce 1 bs))), s1)) \<and>
        s1 = s\<lparr>mcbs := mcbs s1\<rparr> \<and> dos_ok s1 (coalesce 1 bs) \<and> largest_blk (coalesce 1 bs) < unat ?n"
    then show ?thesis
    proof (elim exE conjE)
    fix s1
    assume al: "DosMemAlloc ?n ?mode s = Some (Inr (DE_NOMEM, None, Some (word_of_nat (largest_blk (coalesce 1 bs))), s1))"
      and fr: "s1 = s\<lparr>mcbs := mcbs s1\<rparr>" and ok1: "dos_ok s1 (coalesce 1 bs)"
    have inv1: "dos_inv s1" by (rule dos_inv_run[OF inv ok1 fr])
    have "\<not> umb_linked s1 \<or> mem_access_mode s1 AND 0xc0 = 0" using inv1 by (simp add: dos_inv_def)
    from DosMemLargest_rule[OF ok1 this] obtain rc z s2 where
      la: "DosMemLargest s1 = Some (Inr (rc, z, s2))" "dos_ok s2 (coalesce 1 bs)"
        "dos_used s2 (coalesce 1 bs) = dos_used s1 (coalesce 1 bs)" "s2 = s1\<lparr>mcbs := mcbs s2\<rparr>" by auto
    have inv2: "dos_inv s2" by (rule dos_inv_run[OF inv1 la(2,4)])
    then have "DosMemCheck s2 = Some (Inr SUCCESS)" using DosMemCheck_ok[OF la(2)] by (simp add: dos_inv_def)
    then have "dos_get n s = Inr (0, s2)"
      using al la(1) by (simp add: dos_get_def int21_48_def DE_NOMEM_def panic_unless_ok_def)
    moreover have "first_mcb s1 = first_mcb s" using arg_cong[OF fr, of first_mcb] by simp
    then have "dos_used s1 (coalesce 1 bs) = dos_used s bs" by (simp add: dos_used_def)
    then have "dos_live s2 = dos_live s" using dos_live_eq[OF la(2)] la(3) live by simp
    ultimately show ?thesis using inv2 by blast
    qed
  qed
qed

lemma dos_used_range:
  assumes "dos_ok s bs" "(p, k, w) \<in> dos_used s bs"
  shows "1 < p" "p + k \<le> 65536"
proof -
  have c: "mchain (mcbs s) (unat (first_mcb s)) bs" using assms(1) by (simp add: dos_ok_def)
  from used_bounds[OF assms(2)[unfolded dos_used_def]] chain_pos[OF c] chain_end[OF c]
  show "1 < p" "p + k \<le> 65536" by simp_all
qed

lemma image_minus_one: "(\<And>y. y \<in> D \<Longrightarrow> f y = f x \<Longrightarrow> y = x) \<Longrightarrow> f ` (D - {x}) = f ` D - {f x}"
  by auto

lemma uint16: "uint (w :: 16 word) < 65536"
  using unsigned_less[of w, where ?'a = int] by simp

lemma dos_put_release:
  assumes inv: "dos_inv s" and l: "(p, n) \<in> dos_live s" "p < 65536"
  shows "\<exists>s1. dos_put p s = Inr (0, s1) \<and> dos_inv s1 \<and> dos_live s1 = dos_live s - {(p, n)}"
proof -
  obtain bs where ok: "dos_ok s bs" using inv by (auto simp: dos_inv_def)
  obtain q k w where q: "(q, k, w) \<in> dos_used s bs" "p = int q" "n = int k"
    using l(1) dos_live_eq[OF ok] by auto
  have r: "1 < q" "q < 65536" using dos_used_range[OF ok q(1)] l(2) q(2) by auto
  have es: "word_of_int p - 1 = (word_of_nat (q - 1) :: 16 word)" using q(2) r(1) by (simp add: of_nat_diff)
  have u: "(q - 1 + 1, k, w) \<in> dos_used s bs" using q(1) r(1) by simp
  from DosMemFree_rule[OF ok u] obtain s1 bs1 where
    f: "DosMemFree (word_of_nat (q - 1)) s = (SUCCESS, s1)" "s1 = s\<lparr>mcbs := mcbs s1\<rparr>" "dos_ok s1 bs1"
      "dos_used s1 bs1 = dos_used s bs - {(q - 1 + 1, k, w)}" by blast
  have "dos_put p s = Inr (0, s1)"
    using f(1) q(2) r es by (simp add: dos_put_def int21_49_def SUCCESS_def)
  moreover have "dos_live s1 = dos_live s - {(p, n)}"
  proof -
    have un: "k' = k \<and> w' = w" if m: "(q, k', w') \<in> dos_used s bs" for k' w'
      using used_disjoint[OF m[unfolded dos_used_def] q(1)[unfolded dos_used_def]] by simp
    have uq: "x = (q, k, w)" if x: "x \<in> dos_used s bs" "(\<lambda>(p, n, w). (int p, int n)) x = (\<lambda>(p, n, w). (int p, int n)) (q, k, w)" for x
    proof -
      obtain a k' w' where e: "x = (a, k', w')" by (cases x)
      then have "a = q" using x(2) by simp
      with un x(1) e show ?thesis by blast
    qed
    have "(\<lambda>(p, n, w). (int p, int n)) ` (dos_used s bs - {(q, k, w)}) =
        (\<lambda>(p, n, w). (int p, int n)) ` dos_used s bs - {(\<lambda>(p, n, w). (int p, int n)) (q, k, w)}"
      by (rule image_minus_one[OF uq])
    then show ?thesis
      using f(4) r(1) q(2,3) unfolding dos_live_eq[OF ok] dos_live_eq[OF f(3)] by simp
  qed
  ultimately show ?thesis using dos_inv_run[OF inv f(3,2)] by blast
qed

lemma dos_put_other:
  assumes inv: "dos_inv s" and l: "\<forall>n. (p, n) \<notin> dos_live s"
  shows "\<exists>r s1. dos_put p s = Inr (r, s1) \<and> dos_inv s1 \<and> dos_live s1 = dos_live s"
proof (cases "p \<le> 0 \<or> 65536 \<le> p")
  case True
  then show ?thesis using inv by (simp add: dos_put_def)
next
  case False
  obtain bs where ok: "dos_ok s bs" using inv by (auto simp: dos_inv_def)
  obtain q where q: "p = int (q + 1)" using False by (metis int_one_le_iff_zero_less not_le zero_less_imp_eq_int Suc_eq_plus1 gr0_implies_Suc)
  have q16: "q < 65536" using q False by simp
  have es: "word_of_int p - 1 = (word_of_nat q :: 16 word)" using q by simp
  define s1 where "s1 = snd (DosMemFree (word_of_nat q) s)"
  have u: "unat (word_of_nat q :: 16 word) = q" by (rule unat_of_nat16[OF q16])
  have s1: "s1 = s \<or> q \<noteq> 0 \<and> s1 = s\<lparr>mcbs := free_mcb q (mcbs s)\<rparr> \<and> \<not> mcbFree (mcbs s q)"
    using u by (auto simp: s1_def DosMemFree_def Let_def)
  have ok1: "dos_ok s1 bs"
  proof (cases "s1 = s")
    case False
    with s1 have s1: "s1 = s\<lparr>mcbs := free_mcb q (mcbs s)\<rparr>" "\<not> mcbFree (mcbs s q)" by auto
    have c: "mchain (mcbs s) (unat (first_mcb s)) bs" using ok by (simp add: dos_ok_def)
    have "mchain (free_mcb q (mcbs s)) (unat (first_mcb s)) bs"
    proof (rule chain_cong_headers[OF c])
      fix pre b post assume bs: "bs = pre @ b # post"
      have v: "mview (mcbs s) (unat (first_mcb s) + span 1 pre) = Some (b, post = [])"
        using chain_at[OF c[unfolded bs]] by simp
      have "unat (first_mcb s) + span 1 pre \<noteq> q"
      proof
        assume e: "unat (first_mcb s) + span 1 pre = q"
        then have "\<not> is_free b" using s1(2) mview_SomeD(4)[OF v] by simp
        then have "(q + 1, bsize b, bowner b) \<in> dos_used s bs" using e by (simp add: dos_used_def bs)
        with l q show False by (force simp: dos_live_eq[OF ok])
      qed
      then show "mview (free_mcb q (mcbs s)) (unat (first_mcb s) + span 1 pre) = mview (mcbs s) (unat (first_mcb s) + span 1 pre)"
        by (intro mview_same) (simp add: free_mcb_def)
    qed
    then show ?thesis using ok s1(1) by (simp add: dos_ok_def)
  qed (use ok in simp)
  have fr: "s1 = s\<lparr>mcbs := mcbs s1\<rparr>" using s1 by auto
  have inv1: "dos_inv s1" by (rule dos_inv_run[OF inv ok1 fr])
  have "first_mcb s1 = first_mcb s" using arg_cong[OF fr, of first_mcb] by simp
  then have "dos_live s1 = dos_live s"
    unfolding dos_live_eq[OF ok] dos_live_eq[OF ok1] by (simp add: dos_used_def)
  moreover have "DosMemCheck s1 = Some (Inr SUCCESS)" using DosMemCheck_ok[OF ok1] inv1 by (simp add: dos_inv_def)
  then have "\<exists>r. dos_put p s = Inr (r, s1)"
    using False es by (auto simp: dos_put_def int21_49_def panic_unless_ok_def s1_def split: prod.splits)
  ultimately show ?thesis using inv1 by blast
qed

interpretation dos: region_alloc dos_get dos_put "\<lambda>s. dos_live s \<inter> {(p, n). p < 65536}" dos_inv "\<lambda>n. n" "\<lambda>n. 0 < n \<and> n < 65536"
proof (unfold_locales, goal_cases)
  case (1 s n)
  then obtain p s1 where "dos_get n s = Inr (p, s1)" "dos_inv s1"
    "p = 0 \<and> dos_live s1 = dos_live s \<or>
     dos_live s1 = insert (p, n) (dos_live s) \<and> (\<forall>a \<in> dos_live s. disjoint_areas (p, n) a)"
    using dos_get_law[of s n] by auto
  moreover have "p < 65536"
    using calculation(1) uint16 by (auto simp: dos_get_def split: option.splits sum.splits if_splits)
  ultimately show ?case by auto
next
  case (2 s p n)
  then show ?case using dos_put_release[of s p n] by auto
next
  case (3 s p)
  show ?case
  proof (cases "p < 65536")
    case True
    with 3 have "\<forall>n. (p, n) \<notin> dos_live s" by auto
    from dos_put_other[OF 3(1) this] show ?thesis by metis
  next
    case False
    then show ?thesis using 3(1) by (simp add: dos_put_def)
  qed
qed

text \<open>
  C7. Programs that call the memory system calls (48h and 49h) in any order and hand back
  any segments, their own or not, always hold pairwise disjoint areas: each call returns,
  the consistency checks pass and the chain stays well formed.
\<close>

theorem memory_calls_keep_areas_disjoint:
  assumes "dos_inv s" "\<forall>n. Get n \<in> set rs \<longrightarrow> 0 < n \<and> n < 65536"
  shows "\<exists>s1. serve dos_get dos_put rs s = Inr s1 \<and> dos_inv s1 \<and>
    pairwise_disjoint (dos_live s1 \<inter> {(p, n). p < 65536})"
proof -
  obtain bs where ok: "dos_ok s bs" using assms(1) by (auto simp: dos_inv_def)
  have "pairwise_disjoint (dos_live s \<inter> {(p, n). p < 65536})"
    unfolding pairwise_disjoint_def
  proof (intro ballI impI)
    fix x y assume x: "x \<in> dos_live s \<inter> {(p, n). p < 65536}" and y: "y \<in> dos_live s \<inter> {(p, n). p < 65536}" and ne: "x \<noteq> y"
    obtain p n w where p: "(p, n, w) \<in> dos_used s bs" "x = (int p, int n)" using x dos_live_eq[OF ok] by auto
    obtain q m u where q: "(q, m, u) \<in> dos_used s bs" "y = (int q, int m)" using y dos_live_eq[OF ok] by auto
    from used_disjoint[OF p(1)[unfolded dos_used_def] q(1)[unfolded dos_used_def]] ne p(2) q(2)
    show "disjoint_areas x y" by (auto simp: disjoint_areas_def)
  qed
  from dos.serve_disjoint[OF assms(1) this assms(2)] show ?thesis .
qed

theorem memory_calls_keep_areas_disjoint_witness:
  "\<exists>s1. serve dos_get dos_put [Get 100, Give_back 257, Get 9000, Give_back 4371, Give_back 3] dos0 = Inr s1 \<and>
    pairwise_disjoint (dos_live s1 \<inter> {(p, n). p < 65536})"
proof -
  have "dos_inv dos0" using dos0_ok(1) by (auto simp: dos_inv_def hma_fine_def dos0_def)
  from memory_calls_keep_areas_disjoint[OF this, of "[Get 100, Give_back 257, Get 9000, Give_back 4371, Give_back 3]"]
  show ?thesis by auto
qed

end
