(* ===== verification/Share.thy ===== *)
theory Share
  imports Errors
begin

text \<open>
  kernel/share.c: the table of open files and the table of locked regions of SHARE, and the
  calls the file functions make: open check, close, access check, lock and unlock.
\<close>

section \<open>State\<close>

text \<open>
  A file name is an array of 128 bytes that holds a C string; an entry whose name is empty is
  unused. A name that a caller passes is the list of its bytes in front of the terminator.
\<close>

record file_t =
  f_name :: "8 word list"
  f_psp :: "16 word"
  f_openmode :: "8 word"
  f_sharemode :: "8 word"
  f_first_openmode :: "8 word"
  f_first_sharemode :: "8 word"

text \<open>The bounds of a region are \<open>unsigned long\<close> in the code and only ever hold the 32-bit
  values the calls compute.\<close>

record lock_t =
  l_used :: bool
  l_start :: "32 word"
  l_end :: "32 word"
  l_fileno :: nat

text \<open>A call of \<open>share_criterr\<close>, the assembly routine that raises the critical error
  interrupt; its result is ignored by the code, so the model records the call.\<close>

record criterr =
  ce_flags :: "16 word"
  ce_err :: "16 word"
  ce_device :: "32 word"
  ce_ax :: "16 word"

record share =
  file_table :: "file_t list"
  lock_table :: "lock_t list"
  criterrs :: "criterr list"

definition file_table_size :: nat where "file_table_size = 256"
definition lock_table_size :: nat where "lock_table_size = 1024"

definition share_init :: "share" where
  "share_init =
     \<lparr>file_table = replicate file_table_size
        \<lparr>f_name = replicate 128 0, f_psp = 0, f_openmode = 0, f_sharemode = 0,
         f_first_openmode = 0, f_first_sharemode = 0\<rparr>,
      lock_table = replicate lock_table_size \<lparr>l_used = False, l_start = 0, l_end = 0, l_fileno = 0\<rparr>,
      criterrs = []\<rparr>"

section \<open>Names\<close>

definition unused_name :: "8 word list \<Rightarrow> bool" where
  "unused_name n \<longleftrightarrow> n ! 0 = 0"

text \<open>\<open>strcmp\<close> of two arrays; running off the end of one is a trap.\<close>

fun fnmatches :: "8 word list \<Rightarrow> 8 word list \<Rightarrow> bool run" where
  "fnmatches (a # as) (b # bs) =
     (if a \<noteq> b then Inr False else if a = 0 then Inr True else fnmatches as bs)"
| "fnmatches _ _ = Inl Overrun"

text \<open>The copy of a name into the array of an entry: the loop stops at the terminator or at
  the end of the array, whichever comes first.\<close>

fun copy_name :: "8 word list \<Rightarrow> 8 word list \<Rightarrow> 8 word list" where
  "copy_name [] name = []"
| "copy_name (_ # old) [] = 0 # old"
| "copy_name (_ # old) (c # cs) = (if c = 0 then 0 # old else c # copy_name old cs)"

section \<open>The open check\<close>

definition open_actions :: "nat list list" where
  "open_actions =
     [[0, 1, 1, 1, 1],
      [2, 1, 1, 1, 1],
      [2, 1, 1, 1, 1],
      [2, 1, 1, 1, 1],
      [2, 1, 1, 1, 0]]"

text \<open>First share mode, first open mode, current share mode, current open mode, action.\<close>

type_synonym open_exception = "8 word \<times> 8 word \<times> 8 word \<times> 8 word \<times> nat"

definition open_exceptions :: "open_exception list" where
  "open_exceptions =
     [(0, 0, 2, 0, 0), (0, 0, 4, 0, 0),
      (2, 0, 0, 0, 0), (2, 0, 2, 0, 0), (2, 0, 4, 0, 0),
      (2, 1, 3, 0, 0), (2, 1, 4, 0, 0), (2, 2, 4, 0, 0),
      (3, 0, 2, 1, 0), (3, 0, 4, 1, 0), (3, 1, 4, 1, 0), (3, 2, 4, 1, 0), (3, 1, 3, 1, 0),
      (4, 0, 0, 0, 0), (4, 0, 2, 0, 0), (4, 0, 2, 1, 0), (4, 0, 2, 2, 0),
      (4, 1, 3, 0, 0), (4, 1, 3, 1, 0), (4, 1, 3, 2, 0)]"

fun find_exception :: "8 word \<Rightarrow> 8 word \<Rightarrow> 8 word \<Rightarrow> 8 word \<Rightarrow> open_exception list \<Rightarrow> nat option" where
  "find_exception fs fo cs co [] = None"
| "find_exception fs fo cs co ((fs1, fo1, cs1, co1, act) # xs) =
     (if fs1 = fs \<and> cs1 = cs \<and> fo1 = fo \<and> co1 = co then Some act
      else find_exception fs fo cs co xs)"

definition open_action :: "8 word \<Rightarrow> 8 word \<Rightarrow> 8 word \<Rightarrow> 8 word \<Rightarrow> nat" where
  "open_action fs fo cs co =
     (case find_exception fs fo cs co open_exceptions of
        Some act \<Rightarrow> act
      | None \<Rightarrow> open_actions ! unat fs ! unat cs)"

text \<open>The first entry, other than \<open>fileno\<close>, that is in use for the same name.\<close>

fun find_open :: "nat \<Rightarrow> nat list \<Rightarrow> file_t list \<Rightarrow> nat option run" where
  "find_open fileno [] ft = Inr None"
| "find_open fileno (i # is) ft =
     (if i = fileno \<or> unused_name (f_name (ft ! i)) then find_open fileno is ft
      else bindE (fnmatches (f_name (ft ! i)) (f_name (ft ! fileno)))
             (\<lambda>m. if m then Inr (Some i) else find_open fileno is ft))"

definition free_file_table_entry :: "nat \<Rightarrow> share \<Rightarrow> share" where
  "free_file_table_entry fileno s =
     s\<lparr>file_table := (file_table s)[fileno :=
         (file_table s ! fileno)\<lparr>f_name := (f_name (file_table s ! fileno))[0 := 0]\<rparr>]\<rparr>"

definition set_first :: "nat \<Rightarrow> 8 word \<Rightarrow> 8 word \<Rightarrow> share \<Rightarrow> share" where
  "set_first fileno fs fo s =
     s\<lparr>file_table := (file_table s)[fileno :=
         (file_table s ! fileno)\<lparr>f_first_sharemode := fs, f_first_openmode := fo\<rparr>]\<rparr>"

text \<open>The flags word of a critical error for a disk operation on the file's drive.\<close>

definition criterr_flags :: "8 word list \<Rightarrow> 16 word" where
  "criterr_flags n =
     (if n ! 0 \<noteq> 0 \<and> n ! 1 = 0x3a then 0x0e00 OR (scast (n ! 0) - 0x41) else 0x0e00)"

definition raise_criterr :: "16 word \<Rightarrow> 16 word \<Rightarrow> 32 word \<Rightarrow> 16 word \<Rightarrow> share \<Rightarrow> share" where
  "raise_criterr flags err dev ax s =
     s\<lparr>criterrs := criterrs s @ [\<lparr>ce_flags = flags, ce_err = err, ce_device = dev, ce_ax = ax\<rparr>]\<rparr>"

definition refuse_with_int24 :: "nat \<Rightarrow> 32 word \<Rightarrow> 16 word \<Rightarrow> share \<Rightarrow> int \<times> share" where
  "refuse_with_int24 fileno dev ax s =
     (DE_SHARING,
      if dev \<noteq> 0 then
        raise_criterr (criterr_flags (f_name (file_table s ! fileno))) 0x0d dev ax
          (free_file_table_entry fileno s)
      else s)"

definition do_open_check :: "nat \<Rightarrow> bool \<Rightarrow> 32 word \<Rightarrow> 16 word \<Rightarrow> share \<Rightarrow> (int \<times> share) run" where
  "do_open_check fileno rdonly dev ax s =
     (let f = file_table s ! fileno;
          s0 = set_first fileno (f_sharemode f) (f_openmode f) s
      in bindE (find_open fileno [0..<file_table_size] (file_table s0)) (\<lambda>other.
        case other of
          None \<Rightarrow> Inr (int fileno, s0)
        | Some i \<Rightarrow>
            let p = file_table s0 ! i;
                s1 = set_first fileno (f_first_sharemode p) (f_first_openmode p) s0;
                act = open_action (f_first_sharemode p) (f_first_openmode p)
                        (f_sharemode f) (f_openmode f)
            in if act = 1 \<or> act = 3 \<and> \<not> rdonly
               then Inr (DE_SHARING, free_file_table_entry fileno s1)
               else if act = 2 \<or> act = 4 \<and> \<not> rdonly
               then Inr (refuse_with_int24 fileno dev ax s1)
               else Inr (int fileno, s1)))"

section \<open>Opening and closing\<close>

fun find_free_file :: "nat list \<Rightarrow> file_t list \<Rightarrow> nat option" where
  "find_free_file [] ft = None"
| "find_free_file (i # is) ft =
     (if unused_name (f_name (ft ! i)) then Some i else find_free_file is ft)"

definition share_mode :: "16 word \<Rightarrow> 16 word" where
  "share_mode m = (let m1 = m AND 7 in if 4 < m1 then 0 else m1)"

definition open_mode :: "16 word \<Rightarrow> 16 word" where
  "open_mode m = (let m1 = m AND 3 in if 2 < m1 then 0 else m1)"

definition claim_entry :: "nat \<Rightarrow> 8 word list \<Rightarrow> 16 word \<Rightarrow> 16 word \<Rightarrow> 16 word \<Rightarrow> share \<Rightarrow> share" where
  "claim_entry fileno name psp om sm s =
     (let f = file_table s ! fileno in
      s\<lparr>file_table := (file_table s)[fileno :=
          f\<lparr>f_name := copy_name (f_name f) name, f_psp := psp,
            f_openmode := ucast om, f_sharemode := ucast sm\<rparr>]\<rparr>)"

definition share_open_file ::
    "8 word list \<Rightarrow> 16 word \<Rightarrow> 16 word \<Rightarrow> 16 word \<Rightarrow> bool \<Rightarrow> 32 word \<Rightarrow> 16 word \<Rightarrow> share \<Rightarrow>
     (int \<times> share) run" where
  "share_open_file name psp openmode sharemode rdonly dev ax s =
     (case find_free_file [0..<file_table_size] (file_table s) of
        None \<Rightarrow> Inr (-1, s)
      | Some fileno \<Rightarrow>
          do_open_check fileno rdonly dev ax
            (claim_entry fileno name psp (open_mode openmode) (share_mode sharemode) s))"

definition remove_all_locks :: "nat \<Rightarrow> share \<Rightarrow> share" where
  "remove_all_locks fileno s =
     s\<lparr>lock_table := map (\<lambda>l. if l_fileno l = fileno then l\<lparr>l_used := False\<rparr> else l) (lock_table s)\<rparr>"

definition share_close_file :: "nat \<Rightarrow> share \<Rightarrow> share" where
  "share_close_file fileno s = free_file_table_entry fileno (remove_all_locks fileno s)"

section \<open>Locks\<close>

text \<open>The end of a region, and its length, clipped where \<open>ofs + len\<close> wraps.\<close>

definition end_of :: "32 word \<Rightarrow> 32 word \<Rightarrow> 32 word" where
  "end_of ofs len = (if ofs + len < ofs then 0xffffffff else ofs + len)"

definition len_of :: "32 word \<Rightarrow> 32 word \<Rightarrow> 32 word" where
  "len_of ofs len = (if ofs + len < ofs then 0xffffffff - ofs else len)"

fun locked_out ::
    "nat \<Rightarrow> bool \<Rightarrow> 32 word \<Rightarrow> 32 word \<Rightarrow> file_t list \<Rightarrow> lock_t list \<Rightarrow> bool run" where
  "locked_out fileno same ofs endofs ft [] = Inr False"
| "locked_out fileno same ofs endofs ft (l # ls) =
     (if l_used l \<and> (\<not> same \<or> fileno \<noteq> l_fileno l) then
        bindE (fnmatches (f_name (ft ! fileno)) (f_name (ft ! l_fileno l)))
          (\<lambda>m. if m \<and> ofs < l_end l \<and> l_start l < endofs then Inr True
               else locked_out fileno same ofs endofs ft ls)
      else locked_out fileno same ofs endofs ft ls)"

definition do_access_check :: "nat \<Rightarrow> 32 word \<Rightarrow> 32 word \<Rightarrow> bool \<Rightarrow> share \<Rightarrow> bool run" where
  "do_access_check fileno ofs len same s =
     (if len_of ofs len < 1 then Inr False
      else locked_out fileno same ofs (end_of ofs len) (file_table s) (lock_table s))"

definition share_access_check ::
    "nat \<Rightarrow> 32 word \<Rightarrow> 32 word \<Rightarrow> 32 word \<Rightarrow> 16 word \<Rightarrow> share \<Rightarrow> (int \<times> share) run" where
  "share_access_check fileno ofs len dev ax s =
     bindE (do_access_check fileno ofs len True s) (\<lambda>err.
       Inr (if err then
              (DE_ACCESS,
               if dev \<noteq> 0
               then raise_criterr (criterr_flags (f_name (file_table s ! fileno))) 0x0e dev ax s
               else s)
            else (0, s)))"

fun find_lock :: "nat \<Rightarrow> 32 word \<Rightarrow> 32 word \<Rightarrow> lock_t list \<Rightarrow> nat option" where
  "find_lock fileno ofs endofs [] = None"
| "find_lock fileno ofs endofs (l # ls) =
     (if l_used l \<and> l_fileno l = fileno \<and> l_start l = ofs \<and> l_end l = endofs then Some 0
      else map_option Suc (find_lock fileno ofs endofs ls))"

fun find_free_lock :: "lock_t list \<Rightarrow> nat option" where
  "find_free_lock [] = None"
| "find_free_lock (l # ls) = (if \<not> l_used l then Some 0 else map_option Suc (find_free_lock ls))"

definition share_lock_unlock ::
    "nat \<Rightarrow> 32 word \<Rightarrow> 32 word \<Rightarrow> bool \<Rightarrow> share \<Rightarrow> (int \<times> share) run" where
  "share_lock_unlock fileno ofs len unlock s =
     (let lt = lock_table s; endofs = end_of ofs len; len1 = len_of ofs len in
      if len1 < 1 then Inr (0, s)
      else if unlock then
        (case find_lock fileno ofs endofs lt of
           Some i \<Rightarrow> Inr (0, s\<lparr>lock_table := lt[i := (lt ! i)\<lparr>l_used := False\<rparr>]\<rparr>)
         | None \<Rightarrow> Inr (DE_LOCK, s))
      else bindE (do_access_check fileno ofs len1 False s) (\<lambda>err.
        if err then Inr (DE_LOCK, s)
        else case find_free_lock lt of
               Some i \<Rightarrow> Inr (0, s\<lparr>lock_table := lt[i :=
                  \<lparr>l_used = True, l_start = ofs, l_end = ofs + len1, l_fileno = fileno\<rparr>]\<rparr>)
             | None \<Rightarrow> Inr (-0x24, s)))"

section \<open>Query\<close>

fun find_by_name :: "8 word list \<Rightarrow> file_t list \<Rightarrow> file_t option run" where
  "find_by_name name [] = Inr None"
| "find_by_name name (f # fs) =
     bindE (fnmatches (name @ [0]) (f_name f)) (\<lambda>m. if m then Inr (Some f) else find_by_name name fs)"

text \<open>The share mode and open mode of the entry, and its owner.\<close>

definition share_is_file_open :: "8 word list \<Rightarrow> share \<Rightarrow> (16 word \<times> 16 word) option run" where
  "share_is_file_open name s =
     bindE (find_by_name name (file_table s)) (\<lambda>r.
       Inr (case r of None \<Rightarrow> None
            | Some f \<Rightarrow> Some ((push_bit 8 (ucast (f_sharemode f))) OR ucast (f_openmode f), f_psp f)))"

text \<open>The installation check of the multiplex interface: AX and carry.\<close>

definition int2F_10_handler :: "16 word \<Rightarrow> 16 word \<times> bool" where
  "int2F_10_handler ax =
     (if drop_bit 8 ax AND 0xff = 0x10 \<and> ax AND 0xff = 0 then (ax OR 0xff, False) else (ax, True))"

end
