(* ===== verification/Share_Proofs.thy ===== *)
theory Share_Proofs
  imports Share Bytes
begin

text \<open>
  The invariant of SHARE's tables, what the loops over them compute, and that every call
  keeps the invariant.
\<close>

section \<open>Names\<close>

definition name_of :: "file_t \<Rightarrow> 8 word list" where
  "name_of f = takeWhile (\<lambda>c. c \<noteq> 0) (f_name f)"

definition terminated :: "8 word list \<Rightarrow> bool" where
  "terminated n \<longleftrightarrow> length n = 128 \<and> 0 \<in> set n"

definition legal_name :: "8 word list \<Rightarrow> bool" where
  "legal_name n \<longleftrightarrow> n \<noteq> [] \<and> 0 \<notin> set n \<and> length n < 128"

lemma fnmatches_terminated:
  "0 \<in> set a \<Longrightarrow> 0 \<in> set b \<Longrightarrow>
   fnmatches a b = Inr (takeWhile (\<lambda>c. c \<noteq> 0) a = takeWhile (\<lambda>c. c \<noteq> 0) b)"
  by (induction a b rule: fnmatches.induct) auto

lemma takeWhile_name [simp]: "0 \<notin> set n \<Longrightarrow> takeWhile (\<lambda>c. c \<noteq> (0::8 word)) (n @ 0 # r) = n"
  by (induction n) auto

lemma copy_name_short:
  "0 \<notin> set name \<Longrightarrow> length name < length old \<Longrightarrow>
   copy_name old name = name @ 0 # drop (Suc (length name)) old"
  by (induction old name rule: copy_name.induct) auto

lemma unused_name_iff: "terminated n \<Longrightarrow> unused_name n \<longleftrightarrow> takeWhile (\<lambda>c. c \<noteq> 0) n = []"
  by (cases n) (auto simp: unused_name_def terminated_def)

lemma terminated_clear: "terminated n \<Longrightarrow> terminated (n[0 := 0])"
  by (cases n) (auto simp: terminated_def)

lemma takeWhile_clear: "terminated n \<Longrightarrow> takeWhile (\<lambda>c. c \<noteq> 0) (n[0 := 0]) = []"
  by (cases n) (auto simp: terminated_def)

section \<open>The invariant\<close>

text \<open>An entry in use, and the name of an entry.\<close>

definition nm :: "share \<Rightarrow> nat \<Rightarrow> 8 word list" where
  "nm s i = name_of (file_table s ! i)"

definition in_use :: "share \<Rightarrow> nat \<Rightarrow> bool" where
  "in_use s i \<longleftrightarrow> i < 256 \<and> nm s i \<noteq> []"

definition entry_ok :: "file_t \<Rightarrow> bool" where
  "entry_ok f \<longleftrightarrow> terminated (f_name f) \<and> f_openmode f \<le> 2 \<and> f_sharemode f \<le> 4 \<and>
     f_first_openmode f \<le> 2 \<and> f_first_sharemode f \<le> 4"

definition tables_ok :: "share \<Rightarrow> bool" where
  "tables_ok s \<longleftrightarrow> length (file_table s) = 256 \<and> length (lock_table s) = 1024 \<and>
     (\<forall>f \<in> set (file_table s). entry_ok f)"

text \<open>Two regions do not meet; the regions locked on one file, through whatever entries, are
  disjoint and not empty, and belong to entries in use.\<close>

definition apart :: "lock_t \<Rightarrow> lock_t \<Rightarrow> bool" where
  "apart l k \<longleftrightarrow> l_end l \<le> l_start k \<or> l_end k \<le> l_start l"

definition locks_ok :: "share \<Rightarrow> bool" where
  "locks_ok s \<longleftrightarrow>
     (\<forall>l \<in> set (lock_table s). l_used l \<longrightarrow> in_use s (l_fileno l) \<and> l_start l < l_end l) \<and>
     (\<forall>i < 1024. \<forall>j < 1024. i \<noteq> j \<and> l_used (lock_table s ! i) \<and> l_used (lock_table s ! j) \<and>
        nm s (l_fileno (lock_table s ! i)) = nm s (l_fileno (lock_table s ! j)) \<longrightarrow>
        apart (lock_table s ! i) (lock_table s ! j))"

text \<open>An entry that denies all has its file to itself.\<close>

definition exclusive_ok :: "share \<Rightarrow> bool" where
  "exclusive_ok s \<longleftrightarrow>
     (\<forall>i < 256. in_use s i \<and> f_sharemode (file_table s ! i) = 1 \<longrightarrow>
        f_first_sharemode (file_table s ! i) = 1 \<and>
        (\<forall>j < 256. in_use s j \<and> nm s j = nm s i \<longrightarrow> j = i))"

definition share_ok :: "share \<Rightarrow> bool" where
  "share_ok s \<longleftrightarrow> tables_ok s \<and> locks_ok s \<and> exclusive_ok s"

lemma share_okD:
  assumes "share_ok s"
  shows "length (file_table s) = 256" "length (lock_table s) = 1024"
    "i < 256 \<Longrightarrow> entry_ok (file_table s ! i)" "tables_ok s" "locks_ok s" "exclusive_ok s"
  using assms by (auto simp: share_ok_def tables_ok_def)

lemma entry_terminated [simp]: "tables_ok s \<Longrightarrow> i < 256 \<Longrightarrow> terminated (f_name (file_table s ! i))"
  by (auto simp: tables_ok_def entry_ok_def)

lemma entry_zero [simp]: "tables_ok s \<Longrightarrow> i < 256 \<Longrightarrow> 0 \<in> set (f_name (file_table s ! i))"
  using entry_terminated by (auto simp: terminated_def)

lemma unused_iff: "tables_ok s \<Longrightarrow> i < 256 \<Longrightarrow> unused_name (f_name (file_table s ! i)) \<longleftrightarrow> \<not> in_use s i"
  by (simp add: unused_name_iff in_use_def nm_def name_of_def)

lemma fnmatches_nm:
  "tables_ok s \<Longrightarrow> i < 256 \<Longrightarrow> j < 256 \<Longrightarrow>
   fnmatches (f_name (file_table s ! i)) (f_name (file_table s ! j)) = Inr (nm s i = nm s j)"
  by (simp add: fnmatches_terminated nm_def name_of_def)

section \<open>The loops\<close>

lemma find_free_file_Some:
  "find_free_file is ft = Some i \<Longrightarrow> i \<in> set is \<and> unused_name (f_name (ft ! i))"
  by (induction "is") (auto split: if_splits)

lemma find_free_file_None:
  "find_free_file is ft = None \<longleftrightarrow> (\<forall>i \<in> set is. \<not> unused_name (f_name (ft ! i)))"
  by (induction "is") auto

lemma find_open_eq:
  assumes "tables_ok s" "set is \<subseteq> {..<256}" "k < 256"
  shows "find_open k is (file_table s) = Inr (find (\<lambda>i. i \<noteq> k \<and> in_use s i \<and> nm s i = nm s k) is)"
  using assms by (induction "is") (auto simp: unused_iff fnmatches_nm)

lemma locked_out_eq:
  assumes "tables_ok s" "k < 256" "\<forall>l \<in> set ls. l_used l \<longrightarrow> l_fileno l < 256"
  shows "locked_out k same a b (file_table s) ls =
    Inr (\<exists>l \<in> set ls. l_used l \<and> (\<not> same \<or> k \<noteq> l_fileno l) \<and> nm s k = nm s (l_fileno l) \<and>
           a < l_end l \<and> l_start l < b)"
  using assms(3) by (induction ls) (auto simp: fnmatches_nm[OF assms(1,2)])

lemma find_lock_Some:
  "find_lock k a b ls = Some i \<Longrightarrow>
   i < length ls \<and> l_used (ls ! i) \<and> l_fileno (ls ! i) = k \<and> l_start (ls ! i) = a \<and> l_end (ls ! i) = b"
  by (induction ls arbitrary: i) (auto split: if_splits)

lemma find_lock_None:
  "find_lock k a b ls = None \<longleftrightarrow>
   (\<forall>l \<in> set ls. \<not> (l_used l \<and> l_fileno l = k \<and> l_start l = a \<and> l_end l = b))"
  by (induction ls) auto

lemma find_free_lock_Some: "find_free_lock ls = Some i \<Longrightarrow> i < length ls \<and> \<not> l_used (ls ! i)"
  by (induction ls arbitrary: i) (auto split: if_splits)

lemma find_free_lock_None: "find_free_lock ls = None \<longleftrightarrow> (\<forall>l \<in> set ls. l_used l)"
  by (induction ls) auto

section \<open>Changing one entry\<close>

definition put_entry :: "nat \<Rightarrow> file_t \<Rightarrow> share \<Rightarrow> share" where
  "put_entry k f s = s\<lparr>file_table := (file_table s)[k := f]\<rparr>"

lemma put_entry_simps [simp]:
  "lock_table (put_entry k f s) = lock_table s"
  "criterrs (put_entry k f s) = criterrs s"
  "length (file_table (put_entry k f s)) = length (file_table s)"
  "put_entry k f (put_entry k g s) = put_entry k f s"
  by (simp_all add: put_entry_def)

lemma put_entry_nth [simp]:
  "length (file_table s) = 256 \<Longrightarrow> k < 256 \<Longrightarrow>
   file_table (put_entry k f s) ! i = (if i = k then f else file_table s ! i)"
  by (simp add: put_entry_def nth_list_update)

lemma put_entry_nm:
  "length (file_table s) = 256 \<Longrightarrow> k < 256 \<Longrightarrow>
   nm (put_entry k f s) i = (if i = k then name_of f else nm s i)"
  by (simp add: nm_def)

lemma put_entry_in_use:
  "length (file_table s) = 256 \<Longrightarrow> k < 256 \<Longrightarrow>
   in_use (put_entry k f s) i = (if i = k then name_of f \<noteq> [] else in_use s i)"
  by (auto simp: in_use_def put_entry_nm)

lemma put_entry_tables: "tables_ok s \<Longrightarrow> entry_ok f \<Longrightarrow> tables_ok (put_entry k f s)"
  using set_update_subset_insert[of "file_table s" k f]
  by (auto simp: tables_ok_def put_entry_def)

lemma put_entry_locks:
  assumes "locks_ok s" "tables_ok s" "k < 256"
    and "\<forall>l \<in> set (lock_table s). l_used l \<longrightarrow> l_fileno l \<noteq> k"
  shows "locks_ok (put_entry k f s)"
proof -
  have len: "length (file_table s) = 256" "length (lock_table s) = 1024" using assms(2) by (auto simp: tables_ok_def)
  have "l_fileno (lock_table s ! i) \<noteq> k" if "i < 1024" "l_used (lock_table s ! i)" for i
    using assms(4) that len by (auto simp: all_set_conv_all_nth)
  then show ?thesis
    using assms(1,3,4) len unfolding locks_ok_def by (auto simp: put_entry_nm put_entry_in_use)
qed

lemma free_entry_put:
  "free_file_table_entry k s = put_entry k ((file_table s ! k)\<lparr>f_name := (f_name (file_table s ! k))[0 := 0]\<rparr>) s"
  by (simp add: free_file_table_entry_def put_entry_def)

lemma set_first_put:
  "set_first k fs fo s = put_entry k ((file_table s ! k)\<lparr>f_first_sharemode := fs, f_first_openmode := fo\<rparr>) s"
  by (simp add: set_first_def put_entry_def)

text \<open>The entry an open writes.\<close>

definition entry_for ::
    "8 word list \<Rightarrow> 16 word \<Rightarrow> 8 word \<Rightarrow> 8 word \<Rightarrow> 8 word \<Rightarrow> 8 word \<Rightarrow> file_t \<Rightarrow> file_t" where
  "entry_for name psp om sm fs fo f =
     f\<lparr>f_name := copy_name (f_name f) name, f_psp := psp, f_openmode := om, f_sharemode := sm,
       f_first_sharemode := fs, f_first_openmode := fo\<rparr>"

lemma modes_range:
  "(ucast (share_mode m) :: 8 word) \<le> 4" "(ucast (open_mode m) :: 8 word) \<le> 2"
proof -
  have "unat (share_mode m) \<le> 4" by (simp add: share_mode_def Let_def word_less_nat_alt not_less)
  moreover have "unat (open_mode m) \<le> 2" by (simp add: open_mode_def Let_def word_less_nat_alt not_less)
  ultimately show "(ucast (share_mode m) :: 8 word) \<le> 4" "(ucast (open_mode m) :: 8 word) \<le> 2"
    by (simp_all add: word_le_nat_alt unsigned_ucast_eq take_bit_nat_eq_self)
qed

lemma entry_for_ok:
  assumes "entry_ok f" "legal_name name" "om \<le> 2" "sm \<le> 4" "fs \<le> 4" "fo \<le> 2"
  shows "entry_ok (entry_for name psp om sm fs fo f)" "name_of (entry_for name psp om sm fs fo f) = name"
  using assms
  by (auto simp: entry_ok_def entry_for_def name_of_def terminated_def legal_name_def copy_name_short)

lemma clear_entry_ok:
  assumes "entry_ok f"
  shows "entry_ok (f\<lparr>f_name := (f_name f)[0 := 0]\<rparr>)" "name_of (f\<lparr>f_name := (f_name f)[0 := 0]\<rparr>) = []"
  using assms by (auto simp: entry_ok_def name_of_def terminated_clear takeWhile_clear)

section \<open>Opening a file\<close>

lemma find_exception_0: "find_exception fs fo cs co open_exceptions \<in> {None, Some 0}"
  by (simp add: open_exceptions_def)

lemma word_le_4: "w \<le> (4 :: 8 word) \<longleftrightarrow> w = 0 \<or> w = 1 \<or> w = 2 \<or> w = 3 \<or> w = 4"
  by (simp add: word_unat_eq_iff word_le_nat_alt) linarith

lemma open_action_range:
  assumes "fs \<le> 4" "cs \<le> 4"
  shows "open_action fs fo cs co \<in> {0, 1, 2}"
proof -
  have "open_actions ! unat fs ! unat cs \<in> {0, 1, 2}"
    using assms unfolding word_le_4 by (elim disjE) (simp_all add: open_actions_def)
  then show ?thesis using find_exception_0[of fs fo cs co] by (auto simp: open_action_def)
qed

text \<open>\<open>first_open s name\<close>: the first entry in use for a name.\<close>

definition first_open :: "share \<Rightarrow> 8 word list \<Rightarrow> nat option" where
  "first_open s name = find (\<lambda>i. in_use s i \<and> nm s i = name) [0..<256]"

lemma first_open_Some: "first_open s name = Some i \<Longrightarrow> i < 256 \<and> in_use s i \<and> nm s i = name"
  by (auto simp: first_open_def find_Some_iff)

lemma first_open_None: "first_open s name = None \<longleftrightarrow> (\<forall>i. in_use s i \<longrightarrow> nm s i \<noteq> name)"
  by (auto simp: first_open_def find_None_iff in_use_def)

lemma share_open_full:
  assumes "tables_ok s" "\<forall>i < 256. in_use s i"
  shows "share_open_file name psp om sm ro dev ax s = Inr (-1, s)"
proof -
  have "find_free_file [0..<256] (file_table s) = None"
    using assms by (simp add: find_free_file_None unused_iff)
  then show ?thesis by (simp add: share_open_file_def file_table_size_def)
qed

lemma share_open_eq:
  fixes psp om sm :: "16 word"
  assumes ok: "tables_ok s" and n: "legal_name name"
    and k: "find_free_file [0..<256] (file_table s) = Some k"
  defines "o1 \<equiv> ucast (open_mode om)" and "c1 \<equiv> ucast (share_mode sm)"
  defines "put fs fo \<equiv> put_entry k (entry_for name psp o1 c1 fs fo (file_table s ! k)) s"
  shows "share_open_file name psp om sm ro dev ax s =
    (case first_open s name of
       None \<Rightarrow> Inr (int k, put c1 o1)
     | Some i \<Rightarrow>
         let fs = f_first_sharemode (file_table s ! i); fo = f_first_openmode (file_table s ! i);
             act = open_action fs fo c1 o1
         in if act = 1 \<or> act = 3 \<and> \<not> ro then Inr (DE_SHARING, free_file_table_entry k (put fs fo))
            else if act = 2 \<or> act = 4 \<and> \<not> ro then Inr (refuse_with_int24 k dev ax (put fs fo))
            else Inr (int k, put fs fo))"
proof -
  have len: "length (file_table s) = 256" using ok by (simp add: tables_ok_def)
  have k1: "k < 256" "\<not> in_use s k" using find_free_file_Some[OF k] ok by (auto simp: unused_iff)
  let ?f = "file_table s ! k"
  let ?s0 = "put c1 o1"
  have ent: "entry_ok ?f" using ok k1 by (simp add: tables_ok_def)
  have m: "o1 \<le> 2" "c1 \<le> 4" unfolding o1_def c1_def by (rule modes_range)+
  have eo: "entry_ok (entry_for name psp o1 c1 c1 o1 ?f)"
    "name_of (entry_for name psp o1 c1 c1 o1 ?f) = name"
    using entry_for_ok[OF ent n m(1,2,2,1)] by auto
  have ok0: "tables_ok ?s0" unfolding put_def by (rule put_entry_tables[OF ok eo(1)])
  have use0: "in_use ?s0 i \<longleftrightarrow> i \<noteq> k \<and> in_use s i \<or> i = k" "nm ?s0 i = (if i = k then name else nm s i)" for i
    using len k1 n eo(2) by (auto simp: put_def put_entry_in_use put_entry_nm legal_name_def)
  have sub: "set [0..<256] \<subseteq> {..<256::nat}" by auto
  have "(\<lambda>i. i \<noteq> k \<and> in_use ?s0 i \<and> nm ?s0 i = nm ?s0 k) = (\<lambda>i. in_use s i \<and> nm s i = name)"
    using k1(2) by (auto simp: use0)
  then have fo: "find_open k [0..<256] (file_table ?s0) = Inr (first_open s name)"
    using find_open_eq[OF ok0 sub k1(1)] unfolding first_open_def by simp
  have claim: "claim_entry k name psp (open_mode om) (share_mode sm) s =
      put_entry k (?f\<lparr>f_name := copy_name (f_name ?f) name, f_psp := psp,
        f_openmode := o1, f_sharemode := c1\<rparr>) s"
    by (simp add: claim_entry_def Let_def put_entry_def o1_def c1_def)
  have first0: "set_first k c1 o1 (claim_entry k name psp (open_mode om) (share_mode sm) s) = ?s0"
    unfolding claim put_def using len k1 by (simp add: set_first_put entry_for_def)
  have first1: "set_first k fs fo ?s0 = put fs fo" for fs fo
    unfolding put_def using len k1 by (simp add: set_first_put entry_for_def)
  have other: "file_table ?s0 ! i = file_table s ! i" if "first_open s name = Some i" for i
    using first_open_Some[OF that] k1 len by (auto simp: put_def)
  have modes: "f_sharemode (file_table (claim_entry k name psp (open_mode om) (share_mode sm) s) ! k) = c1"
    "f_openmode (file_table (claim_entry k name psp (open_mode om) (share_mode sm) s) ! k) = o1"
    using len k1 by (simp_all add: claim)
  show ?thesis
    unfolding share_open_file_def file_table_size_def k option.case
    unfolding do_open_check_def file_table_size_def Let_def modes first0 fo bindE_simps first1
    by (cases "first_open s name") (simp_all add: other first1)
qed

section \<open>Every call keeps the invariant\<close>

lemma unused_no_locks:
  assumes "locks_ok s" "\<not> in_use s k"
  shows "\<forall>l \<in> set (lock_table s). l_used l \<longrightarrow> l_fileno l \<noteq> k"
  using assms by (auto simp: locks_ok_def)

lemma put_entry_same_name_excl:
  assumes ex: "exclusive_ok s" and len: "length (file_table s) = 256" and k: "k < 256"
    and u: "\<not> in_use s k"
    and f: "name_of f \<noteq> [] \<Longrightarrow> f_sharemode f = 1 \<Longrightarrow> f_first_sharemode f = 1 \<and> (\<forall>i. in_use s i \<longrightarrow> nm s i \<noteq> name_of f)"
    and g: "name_of f \<noteq> [] \<Longrightarrow> \<forall>i. in_use s i \<and> nm s i = name_of f \<longrightarrow> f_sharemode (file_table s ! i) \<noteq> 1"
  shows "exclusive_ok (put_entry k f s)"
  using ex k u f g len unfolding exclusive_ok_def
  by (auto simp: put_entry_in_use put_entry_nm)

lemma share_ok_put_unused:
  assumes ok: "share_ok s" and k: "k < 256" and u: "\<not> in_use s k" and e: "entry_ok f" "name_of f = []"
  shows "share_ok (put_entry k f s)"
proof -
  note d = share_okD[OF ok]
  show ?thesis unfolding share_ok_def
    using put_entry_tables[OF d(4) e(1)] put_entry_locks[OF d(5,4) k unused_no_locks[OF d(5) u]]
      put_entry_same_name_excl[OF d(6,1) k u, of f] e(2) by simp
qed

lemma share_ok_criterrs [simp]: "share_ok (s\<lparr>criterrs := c\<rparr>) \<longleftrightarrow> share_ok s"
  by (simp add: share_ok_def tables_ok_def locks_ok_def exclusive_ok_def in_use_def nm_def)

lemma raise_criterr_ok [simp]: "share_ok (raise_criterr a b c d s) \<longleftrightarrow> share_ok s"
  by (simp add: raise_criterr_def)

lemma deny_all_actions:
  assumes "fs \<le> 4" "cs \<le> 4"
  shows "fs = 1 \<Longrightarrow> open_action fs fo cs co \<noteq> 0" "cs = 1 \<Longrightarrow> open_action fs fo cs co \<noteq> 0"
proof -
  show "open_action fs fo cs co \<noteq> 0" if "fs = 1"
    using assms that unfolding word_le_4
    by (elim disjE) (simp_all add: open_action_def open_actions_def open_exceptions_def)
  show "open_action fs fo cs co \<noteq> 0" if "cs = 1"
    using assms that unfolding word_le_4
    by (elim disjE) (simp_all add: open_action_def open_actions_def open_exceptions_def)
qed

lemma share_open_ok:
  fixes psp om sm :: "16 word"
  assumes ok: "share_ok s" and n: "legal_name name" and dev: "dev \<noteq> 0"
  shows "\<exists>r s1. share_open_file name psp om sm ro dev ax s = Inr (r, s1) \<and> share_ok s1 \<and>
    lock_table s1 = lock_table s \<and>
    (r < 0 \<and> (\<forall>i. in_use s1 i \<longleftrightarrow> in_use s i) \<and> (\<forall>i. in_use s i \<longrightarrow> file_table s1 ! i = file_table s ! i) \<or>
     0 \<le> r \<and> r < 256 \<and> \<not> in_use s (nat r) \<and> in_use s1 (nat r) \<and> nm s1 (nat r) = name \<and>
     (\<forall>i. i \<noteq> nat r \<longrightarrow> in_use s1 i = in_use s i \<and> file_table s1 ! i = file_table s ! i))"
proof (cases "find_free_file [0..<256] (file_table s)")
  case None
  note d = share_okD[OF ok]
  from None have "\<forall>i < 256. in_use s i" using d(4) by (simp add: find_free_file_None unused_iff)
  from share_open_full[OF d(4) this] ok show ?thesis by auto
next
  case (Some k)
  note d = share_okD[OF ok]
  have k: "k < 256" "\<not> in_use s k" using find_free_file_Some[OF Some] d(4) by (auto simp: unused_iff)
  note res = share_open_eq[OF d(4) n Some, of psp om sm ro dev ax]
  let ?o = "ucast (open_mode om) :: 8 word" and ?c = "ucast (share_mode sm) :: 8 word"
  let ?f = "\<lambda>fs fo. entry_for name psp ?o ?c fs fo (file_table s ! k)"
  let ?p = "\<lambda>fs fo. put_entry k (?f fs fo) s"
  have fe: "entry_ok (?f fs fo)" "name_of (?f fs fo) = name" if "fs \<le> 4" "fo \<le> 2" for fs fo
    using entry_for_ok[OF d(3)[OF k(1)] n _ _ that] modes_range by auto
  have opened: ?thesis if r: "share_open_file name psp om sm ro dev ax s = Inr (int k, ?p fs fo)"
    and m: "fs \<le> 4" "fo \<le> 2"
    and e1: "?c = 1 \<Longrightarrow> fs = 1 \<and> (\<forall>i. in_use s i \<longrightarrow> nm s i \<noteq> name)"
    and e2: "\<forall>i. in_use s i \<and> nm s i = name \<longrightarrow> f_sharemode (file_table s ! i) \<noteq> 1" for fs fo
  proof -
    have "exclusive_ok (?p fs fo)"
    proof (rule put_entry_same_name_excl[OF d(6,1) k])
      show "f_first_sharemode (?f fs fo) = 1 \<and> (\<forall>i. in_use s i \<longrightarrow> nm s i \<noteq> name_of (?f fs fo))"
        if "f_sharemode (?f fs fo) = 1" using that e1 fe(2)[OF m] by (auto simp: entry_for_def)
      show "\<forall>i. in_use s i \<and> nm s i = name_of (?f fs fo) \<longrightarrow> f_sharemode (file_table s ! i) \<noteq> 1"
        using e2 fe(2)[OF m] by auto
    qed
    then have "share_ok (?p fs fo)" unfolding share_ok_def
      using put_entry_tables[OF d(4) fe(1)[OF m]] put_entry_locks[OF d(5,4) k(1) unused_no_locks[OF d(5) k(2)]] by simp
    then show ?thesis unfolding r
      using k d(1) fe(2)[OF m] n by (auto simp: put_entry_in_use put_entry_nm legal_name_def)
  qed
  have dropped: "share_ok (free_file_table_entry k (?p fs fo))"
      "in_use (free_file_table_entry k (?p fs fo)) i = in_use s i"
      "in_use s i \<Longrightarrow> file_table (free_file_table_entry k (?p fs fo)) ! i = file_table s ! i"
    if m: "fs \<le> 4" "fo \<le> 2" for fs fo i
    using share_ok_put_unused[OF ok k, OF clear_entry_ok[OF fe(1)[OF m]]] clear_entry_ok[OF fe(1)[OF m]] k d(1)
    by (auto simp: free_entry_put put_entry_in_use)
  show ?thesis
  proof (cases "first_open s name")
    case None
    then have r: "share_open_file name psp om sm ro dev ax s = Inr (int k, ?p ?c ?o)" using res by simp
    show ?thesis
      by (rule opened[OF r]) (use None modes_range in \<open>auto simp: first_open_None\<close>)
  next
    case (Some i)
    note fi = first_open_Some[OF Some]
    let ?fs = "f_first_sharemode (file_table s ! i)" and ?fo = "f_first_openmode (file_table s ! i)"
    have m: "?fs \<le> 4" "?fo \<le> 2" using d(3)[of i] fi by (auto simp: entry_ok_def)
    let ?a = "open_action ?fs ?fo ?c ?o"
    consider "?a = 0" | "?a = 1" | "?a = 2" using open_action_range[OF m(1) modes_range(1)[of sm], where fo = ?fo and co = ?o] by auto
    then show ?thesis
    proof cases
      case 1
      then have r: "share_open_file name psp om sm ro dev ax s = Inr (int k, ?p ?fs ?fo)"
        using res Some by simp
      have "?c \<noteq> 1" "?fs \<noteq> 1" using deny_all_actions[OF m(1) modes_range(1)] 1 by blast+
      moreover have "f_sharemode (file_table s ! j) \<noteq> 1" if "in_use s j" "nm s j = name" for j
      proof
        assume "f_sharemode (file_table s ! j) = 1"
        with that d(6) have "i = j" "f_first_sharemode (file_table s ! j) = 1"
          using fi by (auto simp: exclusive_ok_def in_use_def)
        with \<open>?fs \<noteq> 1\<close> show False by simp
      qed
      ultimately show ?thesis by (intro opened[OF r m]) auto
    next
      case 2
      then have "share_open_file name psp om sm ro dev ax s = Inr (DE_SHARING, free_file_table_entry k (?p ?fs ?fo))"
        using res Some by simp
      with dropped[OF m] show ?thesis by (simp add: DE_SHARING_def free_entry_put)
    next
      case 3
      then have "share_open_file name psp om sm ro dev ax s = Inr (refuse_with_int24 k dev ax (?p ?fs ?fo))"
        using res Some by simp
      with dropped[OF m] dev show ?thesis
        by (simp add: DE_SHARING_def refuse_with_int24_def raise_criterr_def free_entry_put in_use_def nm_def)
    qed
  qed
qed

text \<open>Closing.\<close>

lemma share_close_ok:
  assumes ok: "share_ok s" and k: "k < 256"
  shows "share_ok (share_close_file k s)"
    "in_use (share_close_file k s) i \<longleftrightarrow> i \<noteq> k \<and> in_use s i"
    "i \<noteq> k \<Longrightarrow> file_table (share_close_file k s) ! i = file_table s ! i"
proof -
  note d = share_okD[OF ok]
  let ?s = "remove_all_locks k s"
  have t: "file_table ?s = file_table s" "length (lock_table ?s) = 1024" using d by (simp_all add: remove_all_locks_def)
  then have u: "in_use ?s j = in_use s j" "nm ?s j = nm s j" for j by (simp_all add: in_use_def nm_def)
  have tb: "tables_ok ?s" using d(4) t by (simp add: tables_ok_def)
  have nth: "l_used (lock_table ?s ! j) \<longleftrightarrow> l_used (lock_table s ! j) \<and> l_fileno (lock_table s ! j) \<noteq> k"
      "l_fileno (lock_table ?s ! j) = l_fileno (lock_table s ! j)"
      "apart (lock_table ?s ! j) (lock_table ?s ! m) \<longleftrightarrow> apart (lock_table s ! j) (lock_table s ! m)"
    if "j < 1024" "m < 1024" for j m
    using that d(2) by (simp_all add: remove_all_locks_def apart_def)
  have "\<forall>l \<in> set (lock_table ?s). l_used l \<longrightarrow> in_use s (l_fileno l) \<and> l_start l < l_end l"
    using d(5) unfolding locks_ok_def remove_all_locks_def by auto
  moreover have "\<forall>i<1024. \<forall>j<1024. i \<noteq> j \<and> l_used (lock_table ?s ! i) \<and> l_used (lock_table ?s ! j) \<and>
      nm s (l_fileno (lock_table ?s ! i)) = nm s (l_fileno (lock_table ?s ! j)) \<longrightarrow>
      apart (lock_table ?s ! i) (lock_table ?s ! j)"
  proof (intro allI impI, elim conjE)
    fix i j :: nat
    assume ij: "i < 1024" "j < 1024" "i \<noteq> j"
      and us: "l_used (lock_table ?s ! i)" "l_used (lock_table ?s ! j)"
      and nn: "nm s (l_fileno (lock_table ?s ! i)) = nm s (l_fileno (lock_table ?s ! j))"
    note n1 = nth[OF ij(1,2)] nth[OF ij(2,1)]
    from us nn have "l_used (lock_table s ! i)" "l_used (lock_table s ! j)"
      "nm s (l_fileno (lock_table s ! i)) = nm s (l_fileno (lock_table s ! j))"
      by (simp_all only: n1 simp_thms)
    with ij d(5) have "apart (lock_table s ! i) (lock_table s ! j)" unfolding locks_ok_def by blast
    then show "apart (lock_table ?s ! i) (lock_table ?s ! j)" by (simp only: n1)
  qed
  ultimately have lk: "locks_ok ?s" unfolding locks_ok_def u by (rule conjI)
  have no: "\<forall>l \<in> set (lock_table ?s). l_used l \<longrightarrow> l_fileno l \<noteq> k"
    unfolding all_set_conv_all_nth t(2) using nth(1,2) by metis
  let ?g = "(file_table s ! k)\<lparr>f_name := (f_name (file_table s ! k))[0 := 0]\<rparr>"
  note g = clear_entry_ok[OF d(3)[OF k]]
  have c: "share_close_file k s = put_entry k ?g ?s"
    by (simp add: share_close_file_def free_entry_put t)
  have ex: "exclusive_ok (put_entry k ?g ?s)"
    using d(6) d(1) k g(2) t(1) unfolding exclusive_ok_def
    by (auto simp: put_entry_in_use put_entry_nm u)
  show "share_ok (share_close_file k s)" unfolding c share_ok_def
    using put_entry_tables[OF tb g(1)] put_entry_locks[OF lk tb k no] ex by simp
  show "in_use (share_close_file k s) i \<longleftrightarrow> i \<noteq> k \<and> in_use s i"
    "i \<noteq> k \<Longrightarrow> file_table (share_close_file k s) ! i = file_table s ! i"
    unfolding c using d(1) k g(2) t(1) by (auto simp: put_entry_in_use u)
qed

section \<open>Locking and unlocking\<close>

text \<open>A region is not empty after clipping.\<close>

definition region_ok :: "32 word \<Rightarrow> 32 word \<Rightarrow> bool" where
  "region_ok ofs len \<longleftrightarrow> ofs < end_of ofs len"

lemma unat_end_of: "unat (end_of ofs len) = min (unat ofs + unat len) 0xffffffff"
proof (cases "unat ofs + unat len < 2 ^ 32")
  case True
  then have s: "unat (ofs + len) = unat ofs + unat len" by (simp add: unat_word_ariths)
  then have "\<not> ofs + len < ofs" by (simp add: word_less_nat_alt)
  then show ?thesis using s True by (simp add: end_of_def)
next
  case False
  have b: "unat ofs < 2 ^ 32" "unat len < 2 ^ 32" using unat32[of ofs] unat32[of len] by simp_all
  have "unat (ofs + len) = unat ofs + unat len - 2 ^ 32"
    using False b by (simp add: unat_word_ariths mod_if)
  then have "ofs + len < ofs" using b False by (simp add: word_less_nat_alt)
  then show ?thesis using False by (simp add: end_of_def)
qed

lemma unat_len_of: "unat (len_of ofs len) = unat (end_of ofs len) - unat ofs"
proof (cases "ofs + len < ofs")
  case True
  moreover have "ofs \<le> 0xffffffff" using unat32[of ofs] by (simp add: word_le_nat_alt)
  ultimately show ?thesis by (simp add: len_of_def end_of_def unat_sub)
next
  case False
  then have "ofs \<le> ofs + len" by simp
  with False show ?thesis
    by (simp add: len_of_def end_of_def unat_plus_simple)
qed

lemma region_facts:
  "len_of ofs len < 1 \<longleftrightarrow> \<not> region_ok ofs len"
  "ofs + len_of ofs len = end_of ofs len"
  "end_of ofs (len_of ofs len) = end_of ofs len"
  "len_of ofs (len_of ofs len) = len_of ofs len"
proof -
  have le: "unat ofs \<le> unat (end_of ofs len)" using unat32[of ofs] by (simp add: unat_end_of)
  show "len_of ofs len < 1 \<longleftrightarrow> \<not> region_ok ofs len"
    using le by (auto simp: region_ok_def word_less_nat_alt unat_len_of)
  show 1: "ofs + len_of ofs len = end_of ofs len" by (simp add: len_of_def end_of_def)
  have "\<not> end_of ofs len < ofs" using le by (simp add: word_less_nat_alt)
  then show "end_of ofs (len_of ofs len) = end_of ofs len" "len_of ofs (len_of ofs len) = len_of ofs len"
    using 1 by (simp_all add: end_of_def[of ofs "len_of ofs len"] len_of_def[of ofs "len_of ofs len"])
qed

text \<open>A region in use on the file meets the bytes from \<open>a\<close> up to \<open>b\<close>.\<close>

definition meets :: "share \<Rightarrow> 8 word list \<Rightarrow> 32 word \<Rightarrow> 32 word \<Rightarrow> lock_t \<Rightarrow> bool" where
  "meets s n a b l \<longleftrightarrow> l_used l \<and> nm s (l_fileno l) = n \<and> a < l_end l \<and> l_start l < b"

lemma locks_range: "share_ok s \<Longrightarrow> \<forall>l \<in> set (lock_table s). l_used l \<longrightarrow> l_fileno l < 256"
  by (auto simp: share_ok_def locks_ok_def in_use_def)

lemma access_check_eq:
  assumes ok: "share_ok s" and k: "k < 256"
  shows "do_access_check k ofs len same s =
    Inr (region_ok ofs len \<and> (\<exists>l \<in> set (lock_table s). meets s (nm s k) ofs (end_of ofs len) l \<and> (same \<longrightarrow> l_fileno l \<noteq> k)))"
  unfolding do_access_check_def region_facts(1)
  using locked_out_eq[OF share_okD(4)[OF ok] k locks_range[OF ok]]
  by (auto simp: meets_def)

lemma share_lock_eq:
  assumes ok: "share_ok s" and k: "k < 256" and r: "region_ok ofs len"
  shows "share_lock_unlock k ofs len False s =
    Inr (if \<exists>l \<in> set (lock_table s). meets s (nm s k) ofs (end_of ofs len) l then (DE_LOCK, s)
         else case find_free_lock (lock_table s) of
           Some i \<Rightarrow> (0, s\<lparr>lock_table := (lock_table s)[i :=
              \<lparr>l_used = True, l_start = ofs, l_end = end_of ofs len, l_fileno = k\<rparr>]\<rparr>)
         | None \<Rightarrow> (-0x24, s))"
  using r unfolding share_lock_unlock_def Let_def region_facts access_check_eq[OF ok k]
  by (auto simp: region_ok_def region_facts split: option.split)

lemma share_unlock_eq:
  assumes "region_ok ofs len"
  shows "share_lock_unlock k ofs len True s =
    Inr (case find_lock k ofs (end_of ofs len) (lock_table s) of
           Some i \<Rightarrow> (0, s\<lparr>lock_table := (lock_table s)[i := (lock_table s ! i)\<lparr>l_used := False\<rparr>]\<rparr>)
         | None \<Rightarrow> (DE_LOCK, s))"
  using assms unfolding share_lock_unlock_def Let_def region_facts
  by (auto split: option.split)

lemma share_lock_empty: "\<not> region_ok ofs len \<Longrightarrow> share_lock_unlock k ofs len unlock s = Inr (0, s)"
  by (simp only: share_lock_unlock_def Let_def region_facts(1) if_True simp_thms)

lemma lock_table_frame [simp]:
  "nm (s\<lparr>lock_table := t\<rparr>) = nm s" "in_use (s\<lparr>lock_table := t\<rparr>) = in_use s"
  by (auto simp: nm_def in_use_def fun_eq_iff)

lemma put_lock_ok:
  assumes ok: "share_ok s" and i: "i < 1024"
    and l: "l_used l \<Longrightarrow> in_use s (l_fileno l) \<and> l_start l < l_end l"
    and a: "\<And>j. l_used l \<Longrightarrow> j < 1024 \<Longrightarrow> j \<noteq> i \<Longrightarrow> l_used (lock_table s ! j) \<Longrightarrow>
       nm s (l_fileno (lock_table s ! j)) = nm s (l_fileno l) \<Longrightarrow> apart (lock_table s ! j) l"
  shows "share_ok (s\<lparr>lock_table := (lock_table s)[i := l]\<rparr>)"
proof -
  note d = share_okD[OF ok]
  let ?t = "(lock_table s)[i := l]"
  have nth: "?t ! j = (if j = i then l else lock_table s ! j)" if "j < 1024" for j
    using that i d(2) by (simp add: nth_list_update)
  have sym: "apart x y \<longleftrightarrow> apart y x" for x y by (auto simp: apart_def)
  have "\<forall>x \<in> set ?t. l_used x \<longrightarrow> in_use s (l_fileno x) \<and> l_start x < l_end x"
    using d(5) l set_update_subset_insert[of "lock_table s" i l] unfolding locks_ok_def by blast
  moreover have "\<forall>m<1024. \<forall>j<1024. m \<noteq> j \<and> l_used (?t ! m) \<and> l_used (?t ! j) \<and>
      nm s (l_fileno (?t ! m)) = nm s (l_fileno (?t ! j)) \<longrightarrow> apart (?t ! m) (?t ! j)"
  proof (intro allI impI, elim conjE)
    fix m j :: nat
    assume h: "m < 1024" "j < 1024" "m \<noteq> j" "l_used (?t ! m)" "l_used (?t ! j)"
      "nm s (l_fileno (?t ! m)) = nm s (l_fileno (?t ! j))"
    consider "m = i" "j \<noteq> i" | "m \<noteq> i" "j = i" | "m \<noteq> i" "j \<noteq> i" using h(3) by blast
    then show "apart (?t ! m) (?t ! j)"
    proof cases
      case 1
      with h a[of j] show ?thesis by (simp add: nth sym)
    next
      case 2
      with h a[of m] show ?thesis by (simp add: nth)
    next
      case 3
      with h have "l_used (lock_table s ! m)" "l_used (lock_table s ! j)"
        "nm s (l_fileno (lock_table s ! m)) = nm s (l_fileno (lock_table s ! j))" by (simp_all add: nth)
      with d(5) h(1-3) have "apart (lock_table s ! m) (lock_table s ! j)" unfolding locks_ok_def by blast
      with 3 h show ?thesis by (simp add: nth)
    qed
  qed
  ultimately have "locks_ok (s\<lparr>lock_table := ?t\<rparr>)" unfolding locks_ok_def by simp
  then show ?thesis using d(4,6) by (simp add: share_ok_def tables_ok_def exclusive_ok_def)
qed

lemma share_lock_unlock_ok:
  assumes ok: "share_ok s" and k: "in_use s k"
  shows "\<exists>r s1. share_lock_unlock k ofs len unlock s = Inr (r, s1) \<and> share_ok s1 \<and> file_table s1 = file_table s"
proof -
  have k1: "k < 256" using k by (simp add: in_use_def)
  consider "\<not> region_ok ofs len" | "region_ok ofs len" "unlock" | "region_ok ofs len" "\<not> unlock" by blast
  then show ?thesis
  proof cases
    case 1
    with ok show ?thesis by (simp add: share_lock_empty)
  next
    case 2
    have "i < 1024" if "find_lock k ofs (end_of ofs len) (lock_table s) = Some i" for i
      using find_lock_Some[OF that] share_okD(2)[OF ok] by simp
    then show ?thesis
      using 2 ok put_lock_ok[OF ok, of _ "(lock_table s ! i)\<lparr>l_used := False\<rparr>" for i]
      by (auto simp: share_unlock_eq split: option.split)
  next
    case 3
    let ?l = "\<lparr>l_used = True, l_start = ofs, l_end = end_of ofs len, l_fileno = k\<rparr>"
    show ?thesis
    proof (cases "\<exists>l \<in> set (lock_table s). meets s (nm s k) ofs (end_of ofs len) l")
      case True
      with 3 ok show ?thesis by (simp add: share_lock_eq[OF ok k1])
    next
      case False
      show ?thesis
      proof (cases "find_free_lock (lock_table s)")
        case None
        with 3 False ok show ?thesis by (simp add: share_lock_eq[OF ok k1])
      next
        case (Some i)
        have "share_ok (s\<lparr>lock_table := (lock_table s)[i := ?l]\<rparr>)"
        proof (rule put_lock_ok[OF ok])
          show "i < 1024" using find_free_lock_Some[OF Some] share_okD(2)[OF ok] by simp
          show "in_use s (l_fileno ?l) \<and> l_start ?l < l_end ?l" using k 3 by (simp add: region_ok_def)
          show "apart (lock_table s ! j) ?l"
            if "j < 1024" "l_used (lock_table s ! j)"
              "nm s (l_fileno (lock_table s ! j)) = nm s (l_fileno ?l)" for j
            using False that share_okD(2)[OF ok] nth_mem[of j "lock_table s"]
            by (auto simp: meets_def apart_def not_less)
        qed
        with 3 False Some show ?thesis by (simp add: share_lock_eq[OF ok k1])
      qed
    qed
  qed
qed

end
