(* ===== verification/Share_Props.thy ===== *)
theory Share_Props
  imports Share_Proofs
begin

text \<open>
  What SHARE guarantees: a run of calls keeps the tables sound, the lock table implements a
  map from the bytes of a file to their owner, an open is decided by the share table alone,
  and a file opened to deny all has one opener.
\<close>

section \<open>Runs of calls\<close>

text \<open>
  The calls the file functions make. A name is a legal path of less than 128 bytes, the
  device header is not null, and \<open>Close\<close>, \<open>Lock\<close> and \<open>Unlock\<close> name an entry in use: the
  file functions call them with the number an open returned.
\<close>

inductive share_step :: "share \<Rightarrow> share \<Rightarrow> bool" where
  Open: "legal_name name \<Longrightarrow> dev \<noteq> 0 \<Longrightarrow>
    share_open_file name psp om sm ro dev ax s = Inr (r, s1) \<Longrightarrow> share_step s s1"
| Close: "in_use s k \<Longrightarrow> share_step s (share_close_file k s)"
| Access: "in_use s k \<Longrightarrow> share_access_check k ofs len dev ax s = Inr (r, s1) \<Longrightarrow> share_step s s1"
| Lock: "in_use s k \<Longrightarrow> share_lock_unlock k ofs len unlock s = Inr (r, s1) \<Longrightarrow> share_step s s1"

inductive share_reach :: "share \<Rightarrow> bool" where
  init: "share_reach share_init"
| step: "share_reach s \<Longrightarrow> share_step s s1 \<Longrightarrow> share_reach s1"

lemma share_access_check_ok:
  assumes ok: "share_ok s" and k: "k < 256"
  shows "\<exists>r s1. share_access_check k ofs len dev ax s = Inr (r, s1) \<and> share_ok s1 \<and>
    file_table s1 = file_table s \<and> lock_table s1 = lock_table s"
  using ok by (simp add: share_access_check_def access_check_eq[OF ok k] raise_criterr_def)

lemma share_init_ok: "share_ok share_init"
proof -
  have "nm share_init i = []" if "i < 256" for i
    using that by (simp add: nm_def name_of_def share_init_def file_table_size_def)
  moreover have "entry_ok f" if "f \<in> set (file_table share_init)" for f
    using that by (simp add: share_init_def file_table_size_def entry_ok_def terminated_def)
  ultimately show ?thesis
    by (auto simp: share_ok_def tables_ok_def locks_ok_def exclusive_ok_def in_use_def)
      (simp_all add: share_init_def file_table_size_def lock_table_size_def)
qed

lemma share_step_ok: "share_step s s1 \<Longrightarrow> share_ok s \<Longrightarrow> share_ok s1"
proof (induction rule: share_step.induct)
  case (Open name dev psp om sm ro ax s r s1)
  with share_open_ok[OF Open.prems Open.hyps(1,2), of psp om sm ro ax] show ?case by auto
next
  case (Close s k)
  then show ?case using share_close_ok(1)[of s k] by (simp add: in_use_def)
next
  case (Access s k ofs len dev ax r s1)
  with share_access_check_ok[OF Access.prems, of k ofs len dev ax] show ?case by (auto simp: in_use_def)
next
  case (Lock s k ofs len unlock r s1)
  with share_lock_unlock_ok[OF Lock.prems Lock.hyps(1), of ofs len unlock] show ?case by auto
qed

lemma share_reach_ok: "share_reach s \<Longrightarrow> share_ok s"
  by (induction rule: share_reach.induct) (auto intro: share_init_ok share_step_ok)

section \<open>The lock table as a map from bytes to owners\<close>

definition owner1 :: "share \<Rightarrow> 8 word list \<Rightarrow> nat \<Rightarrow> lock_t \<Rightarrow> nat set" where
  "owner1 s n x l =
     (if l_used l \<and> nm s (l_fileno l) = n \<and> unat (l_start l) \<le> x \<and> x < unat (l_end l)
      then {l_fileno l} else {})"

text \<open>The entries that have byte \<open>x\<close> of the file \<open>n\<close> locked.\<close>

definition byte_owners :: "share \<Rightarrow> 8 word list \<Rightarrow> nat \<Rightarrow> nat set" where
  "byte_owners s n x = (\<Union>l \<in> set (lock_table s). owner1 s n x l)"

definition region_bytes :: "32 word \<Rightarrow> 32 word \<Rightarrow> nat set" where
  "region_bytes ofs len = {unat ofs ..< unat (end_of ofs len)}"

text \<open>The abstract operations on the map.\<close>

definition own_set :: "nat set \<Rightarrow> 8 word list \<Rightarrow> nat set \<Rightarrow> (8 word list \<Rightarrow> nat \<Rightarrow> nat set) \<Rightarrow> 8 word list \<Rightarrow> nat \<Rightarrow> nat set" where
  "own_set k n R own = (\<lambda>m x. if m = n \<and> x \<in> R then k else own m x)"

lemma meets_iff_owner:
  assumes "share_ok s" "l \<in> set (lock_table s)" "region_ok ofs len"
  shows "meets s n ofs (end_of ofs len) l \<longleftrightarrow> (\<exists>x \<in> region_bytes ofs len. owner1 s n x l = {l_fileno l})"
proof
  assume m: "meets s n ofs (end_of ofs len) l"
  let ?x = "max (unat ofs) (unat (l_start l))"
  have "l_start l < l_end l" using assms(1,2) m by (auto simp: share_ok_def locks_ok_def meets_def)
  then have "?x \<in> region_bytes ofs len" "owner1 s n ?x l = {l_fileno l}"
    using m assms(3) by (auto simp: meets_def region_bytes_def region_ok_def owner1_def word_less_nat_alt)
  then show "\<exists>x \<in> region_bytes ofs len. owner1 s n x l = {l_fileno l}" by blast
next
  assume "\<exists>x \<in> region_bytes ofs len. owner1 s n x l = {l_fileno l}"
  then show "meets s n ofs (end_of ofs len) l"
    by (auto simp: meets_def region_bytes_def owner1_def word_less_nat_alt split: if_splits)
qed

lemma owner1_cases: "owner1 s n x l = {} \<or> owner1 s n x l = {l_fileno l}"
  by (simp add: owner1_def)

lemma no_lock_iff_no_owner:
  assumes "share_ok s" "region_ok ofs len"
  shows "(\<exists>l \<in> set (lock_table s). meets s n ofs (end_of ofs len) l \<and> l_fileno l \<notin> K) \<longleftrightarrow>
    (\<exists>x \<in> region_bytes ofs len. \<not> byte_owners s n x \<subseteq> K)"
proof -
  have "(\<exists>l \<in> set (lock_table s). meets s n ofs (end_of ofs len) l \<and> l_fileno l \<notin> K) \<longleftrightarrow>
      (\<exists>l \<in> set (lock_table s). \<exists>x \<in> region_bytes ofs len. owner1 s n x l = {l_fileno l} \<and> l_fileno l \<notin> K)"
    using meets_iff_owner[OF assms(1) _ assms(2)] by blast
  also have "\<dots> \<longleftrightarrow> (\<exists>x \<in> region_bytes ofs len. \<exists>l \<in> set (lock_table s). \<not> owner1 s n x l \<subseteq> K)"
    using owner1_cases[of s n] by (metis empty_subsetI insert_subset)
  also have "\<dots> \<longleftrightarrow> (\<exists>x \<in> region_bytes ofs len. \<not> byte_owners s n x \<subseteq> K)"
    unfolding byte_owners_def by blast
  finally show ?thesis .
qed

lemma owner1_frame: "owner1 (s\<lparr>lock_table := t\<rparr>) = owner1 s"
  by (simp add: owner1_def fun_eq_iff)

definition other_owners :: "share \<Rightarrow> nat \<Rightarrow> 8 word list \<Rightarrow> nat \<Rightarrow> nat set" where
  "other_owners s i n x = (\<Union>j \<in> {..<length (lock_table s)} - {i}. owner1 s n x (lock_table s ! j))"

lemma byte_owners_put:
  assumes "i < length (lock_table s)"
  shows "byte_owners (s\<lparr>lock_table := (lock_table s)[i := l]\<rparr>) n x = owner1 s n x l \<union> other_owners s i n x"
proof -
  have all: "(\<Union>l \<in> set t. f l) = (\<Union>j \<in> {..<length t}. f (t ! j))" for t :: "lock_t list" and f :: "lock_t \<Rightarrow> nat set"
    by (auto simp: set_conv_nth)
  have "byte_owners (s\<lparr>lock_table := (lock_table s)[i := l]\<rparr>) n x =
      (\<Union>j \<in> {..<length (lock_table s)}. owner1 s n x ((lock_table s)[i := l] ! j))"
    by (simp add: byte_owners_def all owner1_frame)
  also have "\<dots> = (\<Union>j \<in> insert i ({..<length (lock_table s)} - {i}). owner1 s n x ((lock_table s)[i := l] ! j))"
    using assms by (simp add: insert_absorb)
  also have "\<dots> = owner1 s n x ((lock_table s)[i := l] ! i) \<union>
      (\<Union>j \<in> {..<length (lock_table s)} - {i}. owner1 s n x ((lock_table s)[i := l] ! j))"
    by (rule UN_insert)
  also have "(\<Union>j \<in> {..<length (lock_table s)} - {i}. owner1 s n x ((lock_table s)[i := l] ! j)) = other_owners s i n x"
    unfolding other_owners_def by (rule SUP_cong) auto
  also have "(lock_table s)[i := l] ! i = l" using assms by simp
  finally show ?thesis .
qed

lemma byte_owners_split:
  "i < length (lock_table s) \<Longrightarrow> byte_owners s n x = owner1 s n x (lock_table s ! i) \<union> other_owners s i n x"
  using byte_owners_put[of i s "lock_table s ! i"] by simp

lemma lock_owners:
  assumes ok: "share_ok s" and k: "in_use s k" and r: "region_ok ofs len"
  shows "\<exists>r s1. share_lock_unlock k ofs len False s = Inr (r, s1) \<and>
    ((\<exists>x \<in> region_bytes ofs len. byte_owners s (nm s k) x \<noteq> {}) \<and> r = DE_LOCK \<and> s1 = s \<or>
     (\<forall>x \<in> region_bytes ofs len. byte_owners s (nm s k) x = {}) \<and>
       (r = 0 \<and> byte_owners s1 = own_set {k} (nm s k) (region_bytes ofs len) (byte_owners s) \<or>
        r = -0x24 \<and> s1 = s \<and> (\<forall>l \<in> set (lock_table s). l_used l)))"
proof -
  have k1: "k < 256" using k by (simp add: in_use_def)
  note iff = no_lock_iff_no_owner[OF ok r, of "nm s k" "{}"]
  show ?thesis
  proof (cases "\<exists>l \<in> set (lock_table s). meets s (nm s k) ofs (end_of ofs len) l")
    case True
    with iff show ?thesis by (auto simp: share_lock_eq[OF ok k1 r])
  next
    case False
    with iff have none: "\<forall>x \<in> region_bytes ofs len. byte_owners s (nm s k) x = {}" by simp
    show ?thesis
    proof (cases "find_free_lock (lock_table s)")
      case None
      then have "\<forall>l \<in> set (lock_table s). l_used l" by (simp add: find_free_lock_None)
      with False none None show ?thesis by (simp add: share_lock_eq[OF ok k1 r])
    next
      case (Some i)
      let ?l = "\<lparr>l_used = True, l_start = ofs, l_end = end_of ofs len, l_fileno = k\<rparr>"
      note fr = find_free_lock_Some[OF Some]
      note rest = byte_owners_split[of i s] byte_owners_put[of i s]
      have "owner1 s n x (lock_table s ! i) = {}" for n x using fr by (simp add: owner1_def)
      moreover have "owner1 s n x ?l = (if n = nm s k \<and> x \<in> region_bytes ofs len then {k} else {})" for n x
        by (auto simp: owner1_def region_bytes_def)
      ultimately have "byte_owners (s\<lparr>lock_table := (lock_table s)[i := ?l]\<rparr>) =
          own_set {k} (nm s k) (region_bytes ofs len) (byte_owners s)"
        using none fr by (auto simp: fun_eq_iff own_set_def rest)
      with False Some none show ?thesis by (simp add: share_lock_eq[OF ok k1 r])
    qed
  qed
qed

lemma unlock_owners:
  assumes ok: "share_ok s" and k: "in_use s k" and r: "region_ok ofs len"
  shows "\<exists>r s1. share_lock_unlock k ofs len True s = Inr (r, s1) \<and>
    (if \<exists>l \<in> set (lock_table s). l_used l \<and> l_fileno l = k \<and> l_start l = ofs \<and> l_end l = end_of ofs len
     then r = 0 \<and> (\<forall>x \<in> region_bytes ofs len. byte_owners s (nm s k) x = {k}) \<and>
       byte_owners s1 = own_set {} (nm s k) (region_bytes ofs len) (byte_owners s)
     else r = DE_LOCK \<and> s1 = s)"
proof (cases "find_lock k ofs (end_of ofs len) (lock_table s)")
  case None
  then have no: "\<not> (\<exists>l \<in> set (lock_table s). l_used l \<and> l_fileno l = k \<and> l_start l = ofs \<and> l_end l = end_of ofs len)"
    by (auto simp: find_lock_None)
  show ?thesis unfolding share_unlock_eq[OF r] if_not_P[OF no] None by simp
next
  case (Some i)
  note fl = find_lock_Some[OF Some]
  let ?l = "lock_table s ! i"
  have len: "length (lock_table s) = 1024" using share_okD(2)[OF ok] .
  have i: "i < length (lock_table s)" using fl by blast
  note rest = byte_owners_split[OF i] byte_owners_put[OF i]
  have o: "owner1 s n x ?l = (if n = nm s k \<and> x \<in> region_bytes ofs len then {k} else {})" for n x
    using fl by (auto simp: owner1_def region_bytes_def)
  have z: "owner1 s n x (?l\<lparr>l_used := False\<rparr>) = {}" for n x by (simp add: owner1_def)
  have "owner1 s (nm s k) x (lock_table s ! j) = {}"
    if x: "x \<in> region_bytes ofs len" and j: "j < 1024" "j \<noteq> i" for x j
  proof (rule ccontr)
    assume a: "owner1 s (nm s k) x (lock_table s ! j) \<noteq> {}"
    then have "l_used (lock_table s ! j)" "nm s (l_fileno (lock_table s ! j)) = nm s (l_fileno ?l)"
      using fl by (auto simp: owner1_def split: if_splits)
    with j fl len share_okD(5)[OF ok] have "apart (lock_table s ! j) ?l" unfolding locks_ok_def by auto
    with a x fl show False
      by (auto simp: owner1_def apart_def region_bytes_def word_le_nat_alt split: if_splits)
  qed
  then have e: "other_owners s i (nm s k) x = {}" if "x \<in> region_bytes ofs len" for x
    using that len by (auto simp: other_owners_def)
  have "byte_owners (s\<lparr>lock_table := (lock_table s)[i := ?l\<lparr>l_used := False\<rparr>]\<rparr>) =
      own_set {} (nm s k) (region_bytes ofs len) (byte_owners s)"
    using e by (auto simp: fun_eq_iff own_set_def rest(1,2) o z)
  moreover have "\<forall>x \<in> region_bytes ofs len. byte_owners s (nm s k) x = {k}"
    using e by (simp add: rest(1) o)
  moreover have "?l \<in> set (lock_table s)" using fl by simp
  ultimately show ?thesis using fl Some by (auto simp: share_unlock_eq[OF r])
qed

lemma close_owners:
  assumes ok: "share_ok s" and k: "k < 256"
  shows "byte_owners (share_close_file k s) = (\<lambda>n x. byte_owners s n x - {k})"
proof (intro ext)
  fix n x
  note d = share_okD[OF ok]
  let ?s = "share_close_file k s"
  let ?g = "\<lambda>l. if l_fileno l = k then l\<lparr>l_used := False\<rparr> else l"
  have lt: "lock_table ?s = map ?g (lock_table s)"
    by (simp add: share_close_file_def free_entry_put remove_all_locks_def)
  have "nm ?s i = nm s i" if "i \<noteq> k" for i
    using share_close_ok(3)[OF ok k that] by (simp add: nm_def)
  then have g: "owner1 ?s n x (?g l) = owner1 s n x l - {k}" for l
    by (auto simp: owner1_def)
  have "byte_owners ?s n x = (\<Union>l \<in> set (lock_table s). owner1 ?s n x (?g l))"
    by (simp only: byte_owners_def lt set_map image_image)
  also have "\<dots> = (\<Union>l \<in> set (lock_table s). owner1 s n x l - {k})" by (simp only: g)
  finally show "byte_owners ?s n x = byte_owners s n x - {k}" by (auto simp: byte_owners_def)
qed

lemma criterr_flags_copy:
  assumes "legal_name name" "terminated old"
  shows "criterr_flags (copy_name old name) = criterr_flags (name @ [0])"
proof -
  have l: "length name < length old" using assms by (simp add: legal_name_def terminated_def)
  have "(name @ 0 # r) ! 0 = (name @ [0]) ! 0 \<and> (name @ 0 # r) ! 1 = (name @ [0]) ! 1" for r
    using assms(1) by (cases name; cases "tl name") (auto simp: legal_name_def)
  note h = conjunct1[OF this] conjunct2[OF this]
  have "copy_name old name = name @ 0 # drop (Suc (length name)) old"
    using assms(1) copy_name_short[OF _ l] by (simp add: legal_name_def)
  then show ?thesis by (simp only: criterr_flags_def h[of "drop (Suc (length name)) old"])
qed

lemma share_open_rule:
  fixes psp om sm :: "16 word"
  assumes ok: "share_ok s" and n: "legal_name name" and dev: "dev \<noteq> 0"
  shows "\<exists>r s1. share_open_file name psp om sm ro dev ax s = Inr (r, s1) \<and>
    (if \<forall>i < 256. in_use s i then r = -1 \<and> s1 = s
     else let o1 = ucast (open_mode om); c1 = ucast (share_mode sm);
              (fs, fo) = (case first_open s name of
                 None \<Rightarrow> (c1, o1)
               | Some i \<Rightarrow> (f_first_sharemode (file_table s ! i), f_first_openmode (file_table s ! i)))
       in if first_open s name = None \<or> open_action fs fo c1 o1 = 0
          then 0 \<le> r \<and> r < 256 \<and> \<not> in_use s (nat r) \<and>
            s1 = put_entry (nat r) (entry_for name psp o1 c1 fs fo (file_table s ! nat r)) s
          else r = DE_SHARING \<and> in_use s1 = in_use s \<and>
            (\<forall>j. in_use s j \<longrightarrow> file_table s1 ! j = file_table s ! j) \<and> lock_table s1 = lock_table s \<and>
            criterrs s1 = criterrs s @
              (if open_action fs fo c1 o1 = 2
               then [\<lparr>ce_flags = criterr_flags (name @ [0]), ce_err = 0x0d, ce_device = dev, ce_ax = ax\<rparr>]
               else []))"
proof (cases "find_free_file [0..<256] (file_table s)")
  case None
  note d = share_okD[OF ok]
  from None have "\<forall>i < 256. in_use s i" using d(4) by (simp add: find_free_file_None unused_iff)
  then show ?thesis using share_open_full[OF d(4)] by auto
next
  case (Some k)
  note d = share_okD[OF ok]
  have k: "k < 256" "\<not> in_use s k" using find_free_file_Some[OF Some] d(4) by (auto simp: unused_iff)
  then have nf: "\<not> (\<forall>i < 256. in_use s i)" by blast
  let ?o = "ucast (open_mode om) :: 8 word" and ?c = "ucast (share_mode sm) :: 8 word"
  note res = share_open_eq[OF d(4) n Some, of psp om sm ro dev ax]
  note e = d(3)[OF k(1)]
  have t: "terminated (f_name (file_table s ! k))" using e by (simp add: entry_ok_def)
  show ?thesis
  proof (cases "first_open s name")
    case None
    then show ?thesis unfolding if_not_P[OF nf] using res k by (simp add: Let_def)
  next
    case fi: (Some i)
    let ?fs = "f_first_sharemode (file_table s ! i)" and ?fo = "f_first_openmode (file_table s ! i)"
    let ?p = "put_entry k (entry_for name psp ?o ?c ?fs ?fo (file_table s ! k)) s"
    have m: "?fs \<le> 4" "?fo \<le> 2" using d(3)[of i] first_open_Some[OF fi] by (auto simp: entry_ok_def)
    note fe = entry_for_ok[OF e n modes_range(2)[of om] modes_range(1)[of sm] m, of psp]
    have free: "in_use (free_file_table_entry k ?p) = in_use s"
        "\<forall>j. in_use s j \<longrightarrow> file_table (free_file_table_entry k ?p) ! j = file_table s ! j"
        "lock_table (free_file_table_entry k ?p) = lock_table s"
        "criterrs (free_file_table_entry k ?p) = criterrs s"
      using clear_entry_ok[OF fe(1)] k d(1) by (auto simp: free_entry_put put_entry_in_use fun_eq_iff)
    have fl: "criterr_flags (f_name (file_table ?p ! k)) = criterr_flags (name @ [0])"
      using k d(1) criterr_flags_copy[OF n t] by (simp add: entry_for_def)
    let ?a = "open_action ?fs ?fo ?c ?o"
    consider "?a = 0" | "?a = 1" | "?a = 2"
      using open_action_range[OF m(1) modes_range(1)[of sm], where fo = ?fo and co = ?o] by auto
    then show ?thesis
    proof cases
      case 1
      then show ?thesis unfolding if_not_P[OF nf] using res fi k by (simp add: Let_def)
    next
      case 2
      then show ?thesis unfolding if_not_P[OF nf] using res fi k free by (simp add: Let_def)
    next
      case 3
      then have "share_open_file name psp om sm ro dev ax s = Inr (refuse_with_int24 k dev ax ?p)"
        using res fi by simp
      with 3 fi free fl dev show ?thesis unfolding if_not_P[OF nf]
        by (simp add: Let_def refuse_with_int24_def raise_criterr_def in_use_def nm_def fun_eq_iff)
    qed
  qed
qed

lemma share_ops_owners:
  assumes ok: "share_ok s" and k: "in_use s k" and r: "region_ok ofs len"
  shows "\<exists>r s1. share_access_check k ofs len dev ax s = Inr (r, s1) \<and>
    (r = 0 \<longleftrightarrow> (\<forall>x \<in> region_bytes ofs len. byte_owners s (nm s k) x \<subseteq> {k})) \<and> lock_table s1 = lock_table s"
proof -
  have k1: "k < 256" using k by (simp add: in_use_def)
  show ?thesis
    using no_lock_iff_no_owner[OF ok r, of "nm s k" "{k}"] r
    by (auto simp: share_access_check_def access_check_eq[OF ok k1] DE_ACCESS_def raise_criterr_def)
qed

lemma last_byte_unlockable: "share_lock_unlock k 0xffffffff len unlock s = Inr (0, s)"
proof (rule share_lock_empty)
  have "unat (end_of 0xffffffff len) \<le> 0xffffffff" by (simp add: unat_end_of)
  then show "\<not> region_ok 0xffffffff len" by (simp add: region_ok_def word_less_nat_alt)
qed

section \<open>A run\<close>

text \<open>A file opened three times, and two regions of it locked, for the concrete instances below.\<close>

lemma find_free_file_first:
  "\<lbrakk>tables_ok s; k < 256; \<not> in_use s k; \<forall>i < k. in_use s i\<rbrakk> \<Longrightarrow>
   find_free_file [0..<256] (file_table s) = Some k"
proof -
  assume h: "tables_ok s" "k < 256" "\<not> in_use s k" "\<forall>i < k. in_use s i"
  then have split: "[0..<256] = [0..<k] @ k # [Suc k..<256]"
    using upt_add_eq_append[of 0 k "256 - k"] upt_conv_Cons[of k 256] by simp
  have app: "find_free_file (is @ k # js) (file_table s) = Some k" if "\<forall>i \<in> set is. \<not> unused_name (f_name (file_table s ! i))" for "is" js
    using that h by (induction "is") (auto simp: unused_iff)
  show ?thesis unfolding split by (rule app) (use h in \<open>auto simp: unused_iff\<close>)
qed

lemma first_open_0: "in_use s 0 \<Longrightarrow> nm s 0 = name \<Longrightarrow> first_open s name = Some 0"
  by (simp add: first_open_def upt_conv_Cons)

definition C_A :: "8 word list" where "C_A = [0x43, 0x3a, 0x5c, 0x41]"

lemma C_A_legal: "legal_name C_A"
  by (simp add: legal_name_def C_A_def)

text \<open>An open of \<open>C:\A\<close> from the state \<open>s\<close>, in whose table the entries below \<open>k\<close> are in use;
  \<open>fs\<close> and \<open>fo\<close> are the first modes it inherits.\<close>

definition opened :: "nat \<Rightarrow> 8 word \<Rightarrow> 8 word \<Rightarrow> 8 word \<Rightarrow> 8 word \<Rightarrow> share \<Rightarrow> share" where
  "opened k om sm fs fo s = put_entry k (entry_for C_A 0x100 om sm fs fo (file_table s ! k)) s"

definition prefix_used :: "nat \<Rightarrow> share \<Rightarrow> bool" where
  "prefix_used k s \<longleftrightarrow> share_reach s \<and> (\<forall>i < k. in_use s i \<and> nm s i = C_A) \<and> (\<forall>i \<ge> k. \<not> in_use s i)"

lemma prefix_init: "prefix_used 0 share_init"
proof -
  have "nm share_init i = []" if "i < 256" for i
    using that by (simp add: nm_def name_of_def share_init_def file_table_size_def)
  then show ?thesis by (auto simp: prefix_used_def in_use_def intro: share_reach.init)
qed

lemma open_prefix:
  assumes p: "prefix_used k s" and k: "k < 256"
    and f: "if k = 0 then fs = ucast (share_mode sm) \<and> fo = ucast (open_mode om)
       else fs = f_first_sharemode (file_table s ! 0) \<and> fo = f_first_openmode (file_table s ! 0) \<and>
         open_action fs fo (ucast (share_mode sm)) (ucast (open_mode om)) = 0"
  shows "prefix_used (Suc k) (opened k (ucast (open_mode om)) (ucast (share_mode sm)) fs fo s)"
    "f_first_sharemode (file_table (opened k (ucast (open_mode om)) (ucast (share_mode sm)) fs fo s) ! 0) = fs"
    "f_first_openmode (file_table (opened k (ucast (open_mode om)) (ucast (share_mode sm)) fs fo s) ! 0) = fo"
proof -
  have ok: "share_ok s" using p by (simp add: prefix_used_def share_reach_ok)
  note d = share_okD[OF ok]
  let ?s = "opened k (ucast (open_mode om)) (ucast (share_mode sm)) fs fo s"
  have ff: "find_free_file [0..<256] (file_table s) = Some k"
    using p k by (intro find_free_file_first d(4)) (auto simp: prefix_used_def)
  have fo0: "first_open s C_A = (if k = 0 then None else Some 0)"
    using p first_open_0[of s C_A] by (auto simp: prefix_used_def first_open_None)
  have "share_open_file C_A 0x100 om sm False 1 0x3d s = Inr (int k, ?s)"
    unfolding share_open_eq[OF d(4) C_A_legal ff] fo0 using f by (auto simp: Let_def opened_def split: if_splits)
  then have r: "share_reach ?s"
    using p C_A_legal share_step.Open[of C_A 1] by (auto simp: prefix_used_def intro: share_reach.step)
  let ?e = "entry_for C_A 0x100 (ucast (open_mode om)) (ucast (share_mode sm)) fs fo (file_table s ! k)"
  have "terminated (f_name (file_table s ! k))" using d(4) k by simp
  then have "length C_A < length (f_name (file_table s ! k))" "0 \<notin> set C_A"
    by (simp_all add: C_A_def terminated_def)
  from copy_name_short[OF this(2,1)] have "name_of ?e = C_A"
    by (simp add: entry_for_def name_of_def C_A_def)
  moreover have "C_A \<noteq> []" by (simp add: C_A_def)
  ultimately show "prefix_used (Suc k) ?s" unfolding prefix_used_def
    using r p k d(1) by (auto simp: opened_def prefix_used_def put_entry_in_use put_entry_nm less_Suc_eq)
  show "f_first_sharemode (file_table ?s ! 0) = fs" "f_first_openmode (file_table ?s ! 0) = fo"
    using f k d(1) by (auto simp: opened_def entry_for_def split: if_splits)
qed

definition sh1 :: share where "sh1 = opened 0 0 4 4 0 share_init"
definition sh2 :: share where "sh2 = opened 1 2 2 4 0 sh1"
definition sh3 :: share where "sh3 = opened 2 2 2 4 0 sh2"

lemma modes: "open_mode 0 = 0" "open_mode 2 = 2" "share_mode 4 = 4" "share_mode 2 = 2"
  by (simp_all add: open_mode_def share_mode_def)

lemma sh1_used: "prefix_used 1 sh1" "f_first_sharemode (file_table sh1 ! 0) = 4" "f_first_openmode (file_table sh1 ! 0) = 0"
  unfolding sh1_def using open_prefix[OF prefix_init, of 4 4 0 0] by (simp_all add: modes)

lemma sh2_used: "prefix_used 2 sh2" "f_first_sharemode (file_table sh2 ! 0) = 4" "f_first_openmode (file_table sh2 ! 0) = 0"
  unfolding sh2_def using open_prefix[OF sh1_used(1), of 4 2 0 2] sh1_used(2,3)
  by (simp_all add: modes open_action_def open_exceptions_def flip: numeral_2_eq_2)

lemma sh3_used: "prefix_used 3 sh3"
  unfolding sh3_def using open_prefix[OF sh2_used(1), of 4 2 0 2] sh2_used(2,3)
  by (simp_all add: modes open_action_def open_exceptions_def)

lemma sh3_entry: "i < 3 \<Longrightarrow> in_use sh3 i" "i < 3 \<Longrightarrow> nm sh3 i = C_A" "share_reach sh3" "share_ok sh3"
  using sh3_used by (auto simp: prefix_used_def share_reach_ok)

lemma region_eval: "region_ok 0 10" "region_ok 20 5" "end_of 0 10 = 10" "end_of 20 5 = 25"
  by (simp_all add: region_ok_def end_of_def)

lemma locks_1024: "replicate lock_table_size l = l # l # replicate 1022 l"
  by (simp add: lock_table_size_def flip: replicate_Suc)

definition free_lock :: lock_t where
  "free_lock = \<lparr>l_used = False, l_start = 0, l_end = 0, l_fileno = 0\<rparr>"

definition lock1 :: lock_t where
  "lock1 = \<lparr>l_used = True, l_start = 0, l_end = 10, l_fileno = 0\<rparr>"

definition lock2 :: lock_t where
  "lock2 = \<lparr>l_used = True, l_start = 20, l_end = 25, l_fileno = 1\<rparr>"

definition sh4 :: share where "sh4 = sh3\<lparr>lock_table := lock1 # free_lock # replicate 1022 free_lock\<rparr>"
definition sh5 :: share where "sh5 = sh3\<lparr>lock_table := lock1 # lock2 # replicate 1022 free_lock\<rparr>"

lemma sh3_locks: "lock_table sh3 = free_lock # free_lock # replicate 1022 free_lock"
  by (simp add: sh3_def sh2_def sh1_def opened_def share_init_def locks_1024 free_lock_def)

lemma sh4_lock: "share_lock_unlock 0 0 10 False sh3 = Inr (0, sh4)"
  unfolding share_lock_eq[OF sh3_entry(4) _ region_eval(1), of 0, simplified] sh3_locks region_eval
  by (simp add: meets_def free_lock_def sh4_def lock1_def)

lemma sh4_ok: "share_reach sh4" "share_ok sh4" "in_use sh4 i = in_use sh3 i" "nm sh4 = nm sh3"
proof -
  show r: "share_reach sh4"
    using share_reach.step[OF sh3_entry(3) share_step.Lock[OF _ sh4_lock]] sh3_entry(1)[of 0] by simp
  then show "share_ok sh4" by (rule share_reach_ok)
qed (simp_all add: sh4_def)

lemma sh5_lock: "share_lock_unlock 1 20 5 False sh4 = Inr (0, sh5)"
  by (subst share_lock_eq[OF sh4_ok(2) _ region_eval(2)])
    (simp_all add: region_eval meets_def free_lock_def sh4_def sh5_def lock1_def lock2_def)

lemma sh5_ok: "share_reach sh5" "nm sh5 = nm sh3"
  using share_reach.step[OF sh4_ok(1) share_step.Lock[OF _ sh5_lock]] sh4_ok(3) sh3_entry(1)[of 1]
  by (simp_all add: sh5_def)

section \<open>Properties\<close>

text \<open>
  C11. In every state that SHARE reaches by open, close, access and lock calls, two locked
  regions on one file never overlap, whatever handles hold them; and no call reads beyond
  the end of a name.
\<close>

theorem share_locks_never_overlap:
  assumes "share_reach s" "i < lock_table_size" "j < lock_table_size" "i \<noteq> j"
    and "l_used (lock_table s ! i)" "l_used (lock_table s ! j)"
    and "nm s (l_fileno (lock_table s ! i)) = nm s (l_fileno (lock_table s ! j))"
  shows "l_end (lock_table s ! i) \<le> l_start (lock_table s ! j) \<or>
    l_end (lock_table s ! j) \<le> l_start (lock_table s ! i)"
  using share_okD(5)[OF share_reach_ok[OF assms(1)]] assms(2-)
  unfolding locks_ok_def lock_table_size_def apart_def by blast

theorem share_locks_never_overlap_witness:
  "l_end (lock_table sh5 ! 0) \<le> l_start (lock_table sh5 ! 1) \<or>
   l_end (lock_table sh5 ! 1) \<le> l_start (lock_table sh5 ! 0)"
  by (rule share_locks_never_overlap[OF sh5_ok(1)])
    (simp_all add: sh5_ok sh3_entry lock_table_size_def sh5_def lock1_def lock2_def)

text \<open>
  C12. The lock table implements a map from the bytes of each file to the entry that owns
  them. In a state SHARE reaches, for a region that is not empty after clipping: a lock fails
  with a lock violation exactly when some byte of the region is owned, by whatever entry, and
  otherwise makes the entry the owner of exactly these bytes (or reports a full table); an
  unlock of a region that was locked as such gives up exactly its bytes; an access is refused
  exactly when another entry owns a byte of it; closing an entry gives up all its bytes.
\<close>

theorem share_refines_byte_owners:
  assumes "share_reach s" "in_use s k" "region_ok ofs len"
  shows "(\<exists>r s1. share_lock_unlock k ofs len False s = Inr (r, s1) \<and>
      ((\<exists>x \<in> region_bytes ofs len. byte_owners s (nm s k) x \<noteq> {}) \<and> r = DE_LOCK \<and> s1 = s \<or>
       (\<forall>x \<in> region_bytes ofs len. byte_owners s (nm s k) x = {}) \<and>
         (r = 0 \<and> byte_owners s1 = own_set {k} (nm s k) (region_bytes ofs len) (byte_owners s) \<or>
          r = -0x24 \<and> s1 = s \<and> (\<forall>l \<in> set (lock_table s). l_used l)))) \<and>
    (\<exists>r s1. share_lock_unlock k ofs len True s = Inr (r, s1) \<and>
      (if \<exists>l \<in> set (lock_table s). l_used l \<and> l_fileno l = k \<and> l_start l = ofs \<and> l_end l = end_of ofs len
       then r = 0 \<and> (\<forall>x \<in> region_bytes ofs len. byte_owners s (nm s k) x = {k}) \<and>
         byte_owners s1 = own_set {} (nm s k) (region_bytes ofs len) (byte_owners s)
       else r = DE_LOCK \<and> s1 = s)) \<and>
    (\<exists>r s1. share_access_check k ofs len dev ax s = Inr (r, s1) \<and>
      (r = 0 \<longleftrightarrow> (\<forall>x \<in> region_bytes ofs len. byte_owners s (nm s k) x \<subseteq> {k})) \<and>
      lock_table s1 = lock_table s) \<and>
    byte_owners (share_close_file k s) = (\<lambda>n x. byte_owners s n x - {k})"
proof -
  have ok: "share_ok s" "k < 256" using assms(1,2) by (auto simp: share_reach_ok in_use_def)
  show ?thesis
    by (intro conjI lock_owners[OF ok(1) assms(2,3)] unlock_owners[OF ok(1) assms(2,3)]
        share_ops_owners[OF ok(1) assms(2,3)] close_owners[OF ok])
qed

theorem share_refines_byte_owners_witness:
  "byte_owners (share_close_file 0 sh4) = (\<lambda>n x. byte_owners sh4 n x - {0}) \<and>
   byte_owners sh4 C_A 5 = {0}"
proof -
  have "in_use sh4 0" by (simp add: sh4_ok sh3_entry)
  from share_refines_byte_owners[OF sh4_ok(1) this region_eval(1), of 0 0]
  show ?thesis using sh3_entry(2)[of 0] by (simp add: byte_owners_def owner1_def sh4_def lock1_def free_lock_def)
qed

text \<open>
  C13. An open is decided by the sharing rules alone. In a state SHARE reaches, an open of a
  legal name fails with -1 when all 256 entries are in use. Otherwise it takes an unused entry
  for itself, when nobody has the file open (its own modes become the first modes), or when
  the table of actions, with its exceptions, allows its modes beside the first modes of the
  file (which it inherits). Else it reports a sharing violation, leaves every entry in use
  and every lock as they were, and raises a critical error exactly when the action asks for one.
\<close>

theorem share_open_follows_table:
  fixes psp om sm :: "16 word"
  assumes "share_reach s" "legal_name name" "dev \<noteq> 0"
  shows "\<exists>r s1. share_open_file name psp om sm ro dev ax s = Inr (r, s1) \<and>
    (if \<forall>i < 256. in_use s i then r = -1 \<and> s1 = s
     else let o1 = ucast (open_mode om); c1 = ucast (share_mode sm);
              (fs, fo) = (case first_open s name of
                 None \<Rightarrow> (c1, o1)
               | Some i \<Rightarrow> (f_first_sharemode (file_table s ! i), f_first_openmode (file_table s ! i)))
       in if first_open s name = None \<or> open_action fs fo c1 o1 = 0
          then 0 \<le> r \<and> r < 256 \<and> \<not> in_use s (nat r) \<and>
            s1 = put_entry (nat r) (entry_for name psp o1 c1 fs fo (file_table s ! nat r)) s
          else r = DE_SHARING \<and> in_use s1 = in_use s \<and>
            (\<forall>j. in_use s j \<longrightarrow> file_table s1 ! j = file_table s ! j) \<and> lock_table s1 = lock_table s \<and>
            criterrs s1 = criterrs s @
              (if open_action fs fo c1 o1 = 2
               then [\<lparr>ce_flags = criterr_flags (name @ [0]), ce_err = 0x0d, ce_device = dev, ce_ax = ax\<rparr>]
               else []))"
  by (rule share_open_rule[OF share_reach_ok[OF assms(1)] assms(2,3)])

theorem share_open_follows_table_witness:
  "\<exists>r s1. share_open_file C_A 0x100 0 1 False 7 0x3d sh1 = Inr (r, s1) \<and> r = DE_SHARING \<and> in_use s1 = in_use sh1"
proof -
  have r: "share_reach sh1" and f: "first_open sh1 C_A = Some 0" and "\<not> in_use sh1 5"
    using sh1_used(1) first_open_0[of sh1 C_A] by (auto simp: prefix_used_def)
  then have nf: "\<not> (\<forall>i < 256. in_use sh1 i)" by (auto intro!: exI[of _ 5])
  have m: "share_mode 1 = 1" by (simp add: share_mode_def)
  have a: "open_action 4 0 1 0 = 1"
    by (simp add: open_action_def open_exceptions_def open_actions_def)
  show ?thesis
    using share_open_follows_table[OF r C_A_legal, of 7 "0x100" 0 1 False "0x3d"]
    unfolding if_not_P[OF nf] f by (auto simp: modes m sh1_used(2,3) a Let_def)
qed

text \<open>
  C14. A file opened in the mode that denies all has one opener: in every state SHARE
  reaches, two entries in use for one file never deny all, neither of them. Neither a later
  open, in whatever mode, nor the order of opens and closes can break this.
\<close>

theorem deny_all_is_exclusive:
  assumes "share_reach s" "in_use s i" "in_use s j" "i \<noteq> j" "nm s i = nm s j"
  shows "f_sharemode (file_table s ! i) \<noteq> 1 \<and> f_sharemode (file_table s ! j) \<noteq> 1"
  using share_okD(6)[OF share_reach_ok[OF assms(1)]] assms(2-)
  unfolding exclusive_ok_def in_use_def by metis

theorem deny_all_is_exclusive_witness:
  "f_sharemode (file_table sh3 ! 0) \<noteq> 1 \<and> f_sharemode (file_table sh3 ! 2) \<noteq> 1"
  by (rule deny_all_is_exclusive[OF sh3_entry(3)]) (simp_all add: sh3_entry)

text \<open>
  Denying writers is not exclusive: SHARE reaches a state in which two handles have
  the same file open for reading and writing and both deny writing to everyone else. The open
  check compares a new opener with the modes of the first opener only, so a reader that
  denied nothing lets in any number of writers that each deny all other writers.
\<close>

theorem two_writers_deny_writing:
  "\<exists>s. share_reach s \<and> in_use s 1 \<and> in_use s 2 \<and> nm s 1 = nm s 2 \<and>
     f_openmode (file_table s ! 1) = 2 \<and> f_sharemode (file_table s ! 1) = 2 \<and>
     f_openmode (file_table s ! 2) = 2 \<and> f_sharemode (file_table s ! 2) = 2"
proof -
  have len: "length (file_table sh2) = 256" "length (file_table sh1) = 256"
    using sh2_used sh1_used by (auto simp: prefix_used_def dest!: share_reach_ok share_okD(1))
  then have "f_openmode (file_table sh3 ! 1) = 2 \<and> f_sharemode (file_table sh3 ! 1) = 2 \<and>
      f_openmode (file_table sh3 ! 2) = 2 \<and> f_sharemode (file_table sh3 ! 2) = 2"
    by (simp add: sh3_def sh2_def opened_def entry_for_def)
  moreover have "share_reach sh3 \<and> in_use sh3 1 \<and> in_use sh3 2 \<and> nm sh3 1 = nm sh3 2"
    by (simp add: sh3_entry)
  ultimately show ?thesis by blast
qed

end
