(* ===== verification/Handles.thy ===== *)
theory Handles
  imports Memmgr Share
begin

text \<open>
  File handles: the part of kernel/dosfns.c that manages the system file table (SFT) and the
  handle table of a process, with \<open>SetJFTSize\<close> of kernel/newstuff.c and the inheritance
  of handles in kernel/task.c.

  The state extends that of the memory manager, which \<open>SetJFTSize\<close> calls, and holds the
  tables of SHARE. The SFT is a chain of blocks; a far pointer to an entry is its number in
  the whole chain, \<open>None\<close> the value FFFF:FFFF that stands for no entry. Of an entry and of
  a PSP the model has the fields this code uses. The layers below (FAT file system, device
  drivers, network redirector, path resolution) are the record \<open>layers\<close>, an argument of the
  operations that call them; a layer sees and returns the whole state.
\<close>

section \<open>State\<close>

record sft_t =
  sft_count :: "16 word"
  sft_mode :: "16 word"
  sft_attrib :: "8 word"
  sft_flags :: "16 word"
  sft_dev :: "32 word"
  sft_relclust_high :: "16 word"
  sft_time :: "16 word"
  sft_date :: "16 word"
  sft_size :: "32 word"
  sft_posit :: "32 word"
  sft_relclust :: "16 word"
  sft_dirsector :: "32 word"
  sft_diridx :: "8 word"
  sft_name :: "8 word list"
  sft_stclust :: "32 word"
  sft_psp :: "16 word"
  sft_shroff :: int
  sft_cuclust :: "32 word"

definition sft_zero :: sft_t where
  "sft_zero = \<lparr>sft_count = 0, sft_mode = 0, sft_attrib = 0, sft_flags = 0, sft_dev = 0,
     sft_relclust_high = 0, sft_time = 0, sft_date = 0, sft_size = 0, sft_posit = 0, sft_relclust = 0,
     sft_dirsector = 0, sft_diridx = 0, sft_name = replicate 11 0, sft_stclust = 0,
     sft_psp = 0, sft_shroff = 0, sft_cuclust = 0\<rparr>"

definition SFT_FSHARED :: "16 word" where "SFT_FSHARED = 0x8000"
definition SFT_FOCRM :: "16 word" where "SFT_FOCRM = 0x0800"
definition SFT_FDEVICE :: "16 word" where "SFT_FDEVICE = 0x0080"
definition SFT_MASK :: "16 word" where "SFT_MASK = 0x0060"
definition SFT_FEOF :: "16 word" where "SFT_FEOF = 0x0040"
definition SFT_FBINARY :: "16 word" where "SFT_FBINARY = 0x0020"
definition SFT_FNUL :: "16 word" where "SFT_FNUL = 0x0004"
definition SFT_FCONOUT :: "16 word" where "SFT_FCONOUT = 0x0002"
definition SFT_FCONIN :: "16 word" where "SFT_FCONIN = 0x0001"

lemmas sft_flag_defs = SFT_FSHARED_def SFT_FOCRM_def SFT_FDEVICE_def SFT_MASK_def SFT_FEOF_def
  SFT_FBINARY_def SFT_FNUL_def SFT_FCONOUT_def SFT_FCONIN_def

text \<open>A process: how many handles it may use, its handle table (FFh is no open file; the
  table may be longer than \<open>ps_maxfiles\<close> after that was lowered), its parent and its size.\<close>

record psp_t =
  ps_maxfiles :: nat
  ps_filetab :: "8 word list"
  ps_parent :: "16 word"
  ps_size :: "16 word"

record dhdr =
  dh_attr :: "16 word"
  dh_name :: "8 word list"

record cds_t =
  cdsCurrentPath :: "8 word list"
  cdsFlags :: "16 word"
  cdsDpb :: "32 word"
  cdsStrtClst :: "16 word"

definition CDSNETWDRV :: "16 word" where "CDSNETWDRV = 0x8000"
definition CDSJOINED :: "16 word" where "CDSJOINED = 0x2000"
definition CDSVALID :: "16 word" where "CDSVALID = 0xc000"

text \<open>\<open>devices\<close> is the chain of device headers that starts at the NUL device, each with its
  far pointer; \<open>dpb_device\<close> gives the device header of a drive parameter block.\<close>

record 'w kernel = dosmem +
  share_tab :: share
  sft_tbl :: "sft_t list list"
  lpCurSft :: "nat option"
  current_sft_idx :: nat
  psps :: "16 word \<Rightarrow> psp_t"
  CDSp :: "cds_t list"
  default_drive :: nat
  current_ldt :: "nat option"
  devices :: "(32 word \<times> dhdr) list"
  dpb_device :: "32 word \<Rightarrow> 32 word"
  PriPathName :: "8 word list"
  fcb_name :: "8 word list"
  OpenMode :: "8 word"
  ext_open :: "16 word \<times> 16 word \<times> 16 word"
  dta :: "32 word"
  current_filepos :: "32 word"
  world :: 'w

record 'w layers =
  L_truename :: "8 word list \<Rightarrow> 'w kernel \<Rightarrow> int \<times> 'w kernel"
  L_name83 :: "8 word list \<Rightarrow> 8 word list"
  L_upcase :: "8 word \<Rightarrow> 8 word"
  L_dos_open :: "8 word list \<Rightarrow> 16 word \<Rightarrow> 16 word \<Rightarrow> nat \<Rightarrow> 'w kernel \<Rightarrow> int \<times> 'w kernel"
  L_dos_close :: "nat \<Rightarrow> 'w kernel \<Rightarrow> int \<times> 'w kernel"
  L_rwblock :: "nat \<Rightarrow> 32 word \<Rightarrow> 32 word \<Rightarrow> bool \<Rightarrow> 'w kernel \<Rightarrow> int \<times> 'w kernel"
  L_char_io :: "32 word \<Rightarrow> 32 word \<Rightarrow> 32 word \<Rightarrow> nat \<Rightarrow> 'w kernel \<Rightarrow> int \<times> 'w kernel"
  L_read_line :: "nat \<Rightarrow> 32 word \<Rightarrow> 32 word \<Rightarrow> bool \<Rightarrow> 'w kernel \<Rightarrow> int \<times> 'w kernel"
  L_cooked_read :: "32 word \<Rightarrow> 32 word \<Rightarrow> 32 word \<Rightarrow> bool \<Rightarrow> 'w kernel \<Rightarrow> int \<times> 'w kernel"
  L_cooked_write :: "32 word \<Rightarrow> 32 word \<Rightarrow> 32 word \<Rightarrow> 'w kernel \<Rightarrow> int \<times> 'w kernel"
  L_update_scr_pos :: "32 word \<Rightarrow> nat \<Rightarrow> 'w kernel \<Rightarrow> 'w kernel"
  L_peek :: "32 word \<Rightarrow> 'w kernel \<Rightarrow> 8 word"
  L_redirect :: "16 word \<Rightarrow> nat option \<Rightarrow> 16 word \<Rightarrow> 'w kernel \<Rightarrow> int \<times> 'w kernel"
  L_remote_rw :: "16 word \<Rightarrow> nat \<Rightarrow> 32 word \<Rightarrow> 'w kernel \<Rightarrow> int \<times> 'w kernel"
  L_remote_seek64 :: "nat \<Rightarrow> 64 word \<Rightarrow> 16 word \<Rightarrow> 'w kernel \<Rightarrow> 64 word option \<times> 'w kernel"
  L_remote_lseek :: "nat \<Rightarrow> 32 word \<Rightarrow> 'w kernel \<Rightarrow> 32 word \<times> 'w kernel"
  L_remote_lock :: "nat \<Rightarrow> 32 word \<Rightarrow> 32 word \<Rightarrow> bool \<Rightarrow> 'w kernel \<Rightarrow> int \<times> 'w kernel"
  L_getdate :: "'w kernel \<Rightarrow> 16 word"
  L_gettime :: "'w kernel \<Rightarrow> 16 word"

section \<open>Current directory structures\<close>

definition get_cds_unvalidated :: "nat \<Rightarrow> 'w kernel \<Rightarrow> nat option" where
  "get_cds_unvalidated drive s = (if length (CDSp s) \<le> drive then None else Some drive)"

definition get_cds :: "nat \<Rightarrow> 'w kernel \<Rightarrow> nat option" where
  "get_cds drive s =
     (if length (CDSp s) \<le> drive then None
      else let c = CDSp s ! drive; flags = cdsFlags c in
        if flags AND CDSVALID = 0 \<or> flags AND CDSJOINED \<noteq> 0 then None
        else if flags AND CDSNETWDRV = 0 \<and> cdsDpb c = 0 then None
        else Some drive)"

definition get_cds1 :: "nat \<Rightarrow> 'w kernel \<Rightarrow> nat option" where
  "get_cds1 drv s = get_cds (if drv = 0 then default_drive s else drv - 1) s"

definition DosSelectDrv :: "nat \<Rightarrow> 'w kernel \<Rightarrow> nat \<times> 'w kernel" where
  "DosSelectDrv drv s =
     (let s1 = s\<lparr>current_ldt := get_cds drv s\<rparr>
      in (length (CDSp s), if current_ldt s1 \<noteq> None then s1\<lparr>default_drive := drv\<rparr> else s1))"

section \<open>The system file table\<close>

text \<open>The walk along the blocks: the number inside the block, and in the whole chain.\<close>

fun sft_walk :: "sft_t list list \<Rightarrow> int \<Rightarrow> nat \<Rightarrow> (int \<times> nat) option" where
  "sft_walk [] i base = None"
| "sft_walk (b # bs) i base =
     (if i < int (length b) then Some (i, base + nat i)
      else sft_walk bs (i - int (length b)) (base + length b))"

fun sft_upd :: "nat \<Rightarrow> (sft_t \<Rightarrow> sft_t) \<Rightarrow> sft_t list list \<Rightarrow> sft_t list list" where
  "sft_upd k f [] = []"
| "sft_upd k f (b # bs) =
     (if k < length b then b[k := f (b ! k)] # bs else b # sft_upd (k - length b) f bs)"

definition sft_at :: "'w kernel \<Rightarrow> nat \<Rightarrow> sft_t" where
  "sft_at s k = concat (sft_tbl s) ! k"

definition set_sft :: "nat \<Rightarrow> (sft_t \<Rightarrow> sft_t) \<Rightarrow> 'w kernel \<Rightarrow> 'w kernel" where
  "set_sft k f s = s\<lparr>sft_tbl := sft_upd k f (sft_tbl s)\<rparr>"

definition idx_to_sft0 :: "int \<Rightarrow> 'w kernel \<Rightarrow> int \<times> 'w kernel" where
  "idx_to_sft0 i s =
     (if i < 0 then (-1, s\<lparr>lpCurSft := None\<rparr>)
      else case sft_walk (sft_tbl s) i 0 of
             Some (r, k) \<Rightarrow> (r, s\<lparr>lpCurSft := Some k\<rparr>)
           | None \<Rightarrow> (-1, s\<lparr>lpCurSft := None\<rparr>))"

definition idx_to_sft :: "int \<Rightarrow> 'w kernel \<Rightarrow> nat option \<times> 'w kernel" where
  "idx_to_sft i s =
     (case idx_to_sft0 i s of (r, s1) \<Rightarrow>
        (case lpCurSft s1 of
           None \<Rightarrow> (None, s1)
         | Some k \<Rightarrow> (if r = -1 \<or> sft_count (sft_at s1 k) = 0 then None else Some k, s1)))"

definition filetab :: "'w kernel \<Rightarrow> 8 word list" where
  "filetab s = ps_filetab (psps s (cu_psp s))"

definition maxfiles :: "'w kernel \<Rightarrow> nat" where
  "maxfiles s = ps_maxfiles (psps s (cu_psp s))"

definition set_filetab :: "8 word list \<Rightarrow> 'w kernel \<Rightarrow> 'w kernel" where
  "set_filetab t s = s\<lparr>psps := (psps s)(cu_psp s := (psps s (cu_psp s))\<lparr>ps_filetab := t\<rparr>)\<rparr>"

definition get_sft_idx :: "nat \<Rightarrow> 'w kernel \<Rightarrow> int" where
  "get_sft_idx hndl s =
     (if maxfiles s \<le> hndl then DE_INVLDHNDL
      else if filetab s ! hndl = 0xff then DE_INVLDHNDL else uint (filetab s ! hndl))"

definition get_sft :: "nat \<Rightarrow> 'w kernel \<Rightarrow> nat option \<times> 'w kernel" where
  "get_sft hndl s = idx_to_sft (get_sft_idx hndl s) s"

fun find_ff :: "8 word list \<Rightarrow> nat option" where
  "find_ff [] = None"
| "find_ff (b # bs) = (if b = 0xff then Some 0 else map_option Suc (find_ff bs))"

definition get_free_hndl :: "'w kernel \<Rightarrow> int" where
  "get_free_hndl s = (case find_ff (take (maxfiles s) (filetab s)) of None \<Rightarrow> DE_TOOMANY | Some h \<Rightarrow> int h)"

text \<open>The free entry, in the inner loop over a block and the outer loop over the chain.\<close>

fun free_in_block :: "sft_t list \<Rightarrow> nat \<Rightarrow> nat option" where
  "free_in_block [] k = None"
| "free_in_block (f # fs) k = (if sft_count f = 0 then Some k else free_in_block fs (k + 1))"

fun free_in_chain :: "sft_t list list \<Rightarrow> nat \<Rightarrow> nat option" where
  "free_in_chain [] k = None"
| "free_in_chain (b # bs) k =
     (case free_in_block b k of Some j \<Rightarrow> Some j | None \<Rightarrow> free_in_chain bs (k + length b))"

definition get_free_sft :: "'w kernel \<Rightarrow> nat option \<times> 'w kernel" where
  "get_free_sft s =
     (case free_in_chain (sft_tbl s) 0 of
        Some k \<Rightarrow> (Some k, s\<lparr>current_sft_idx := k\<rparr>)
      | None \<Rightarrow> (None, s))"

section \<open>Names of files and devices\<close>

text \<open>\<open>get_basename\<close>: what follows the last path separator.\<close>

definition path_sep :: "8 word \<Rightarrow> bool" where
  "path_sep c \<longleftrightarrow> c = 0x2f \<or> c = 0x5c \<or> c = 0x3a"

definition get_basename :: "8 word list \<Rightarrow> 8 word list" where
  "get_basename fname = rev (takeWhile (\<lambda>c. \<not> path_sep c) (rev fname))"

definition set_fcbname :: "'w layers \<Rightarrow> 'w kernel \<Rightarrow> 'w kernel" where
  "set_fcbname L s = s\<lparr>fcb_name := L_name83 L (get_basename (PriPathName s))\<rparr>"

definition blank :: "8 word \<Rightarrow> bool" where
  "blank c \<longleftrightarrow> c = 0x20 \<or> c = 0"

text \<open>The comparison of the name, up to a dot or its end, with the eight bytes of a device.\<close>

fun dev_match :: "(8 word \<Rightarrow> 8 word) \<Rightarrow> 8 word list \<Rightarrow> 8 word list \<Rightarrow> bool" where
  "dev_match up cs [] = True"
| "dev_match up [] (n # ns) = list_all blank (n # ns)"
| "dev_match up (c # cs) (n # ns) =
     (if c = 0x2e then list_all blank (n # ns) else up c = up n \<and> dev_match up cs ns)"

fun find_device :: "(8 word \<Rightarrow> 8 word) \<Rightarrow> 8 word list \<Rightarrow> (32 word \<times> dhdr) list \<Rightarrow> (32 word \<times> dhdr) option" where
  "find_device up froot [] = None"
| "find_device up froot ((p, d) # ds) =
     (if dh_attr d AND 0x8000 \<noteq> 0 \<and> dev_match up froot (dh_name d) then Some (p, d)
      else find_device up froot ds)"

definition IsDevice :: "'w layers \<Rightarrow> 8 word list \<Rightarrow> 'w kernel \<Rightarrow> (32 word \<times> dhdr) option" where
  "IsDevice L fname s =
     (let froot = get_basename fname in
      if froot = [] \<or> froot = [0x2e] \<or> froot = [0x2e, 0x2e] then None
      else find_device (L_upcase L) froot (devices s))"

section \<open>Opening\<close>

text \<open>The trailing null bytes of the name, from the last backwards, become spaces.\<close>

fun pad_back :: "8 word list \<Rightarrow> 8 word list" where
  "pad_back [] = []"
| "pad_back (c # cs) = (if c = 0 then 0x20 # pad_back cs else c # cs)"

definition C_OPEN :: nat where "C_OPEN = 0x0d"
definition C_CLOSE :: nat where "C_CLOSE = 0x0e"
definition C_INPUT :: nat where "C_INPUT = 4"
definition C_OUTPUT :: nat where "C_OUTPUT = 8"

definition DeviceOpenSft :: "'w layers \<Rightarrow> 32 word \<times> dhdr \<Rightarrow> nat \<Rightarrow> 'w kernel \<Rightarrow> int \<times> 'w kernel" where
  "DeviceOpenSft L d k s =
     (case d of (dhp, h) \<Rightarrow>
      let s1 = set_sft k (\<lambda>f. f\<lparr>sft_shroff := -1, sft_count := sft_count f + 1,
                 sft_flags := (dh_attr h AND NOT (SFT_MASK OR SFT_FSHARED)) OR SFT_FDEVICE OR SFT_FEOF,
                 sft_name := map (L_upcase L) (rev (pad_back (rev (dh_name h @ drop 8 (sft_name f))))),
                 sft_dev := dhp, sft_date := L_getdate L s, sft_time := L_gettime L s,
                 sft_attrib := 0x40\<rparr>) s
      in if dh_attr h AND SFT_FOCRM \<noteq> 0 then
           (case L_char_io L dhp 0 0 C_OPEN s1 of (rc, s2) \<Rightarrow>
              (if rc \<noteq> SUCCESS then DE_ACCESS else SUCCESS, s2))
         else (SUCCESS, s1))"

definition on_share :: "(share \<Rightarrow> (int \<times> share) run) \<Rightarrow> 'w kernel \<Rightarrow> (int \<times> 'w kernel) run" where
  "on_share f s = bindE (f (share_tab s)) (\<lambda>(r, h). Inr (r, s\<lparr>share_tab := h\<rparr>))"

definition close_share :: "nat \<Rightarrow> 'w kernel \<Rightarrow> 'w kernel" where
  "close_share k s =
     (let n = sft_shroff (sft_at s k);
          s1 = (if 0 \<le> n then s\<lparr>share_tab := share_close_file (nat n) (share_tab s)\<rparr> else s)
      in set_sft k (\<lambda>f. f\<lparr>sft_shroff := -1\<rparr>) s1)"

definition IS_DEVICE :: int where "IS_DEVICE = 0x20"
definition IS_NETWORK :: int where "IS_NETWORK = 0x40"

text \<open>The number of the entry in the low word, the action of the open in the high one.\<close>

definition open_result :: "nat \<Rightarrow> int \<Rightarrow> int" where
  "open_result k st = int k OR push_bit 16 st"

definition open_network ::
    "'w layers \<Rightarrow> 16 word \<Rightarrow> 16 word \<Rightarrow> nat \<Rightarrow> 'w kernel \<Rightarrow> int \<times> 'w kernel" where
  "open_network L flags attrib k s =
     (let attrib1 = (if flags AND 0x0600 = 0x0400 then attrib OR 0x100 else attrib);
          s1 = s\<lparr>lpCurSft := Some k\<rparr>;
          (cmd, attrib2, s2) =
            (if flags AND 0x0800 = 0 then
               (0x112e, attrib1,
                s1\<lparr>ext_open := (flags AND 0x70ff, attrib1 AND 0xff,
                     drop_bit 8 (flags AND 0x0300) OR drop_bit 6 (flags AND 0x0400))\<rparr>)
             else if flags AND 0x0400 = 0 then (0x1116, scast (ucast flags :: 8 word), s1)
             else (0x1117, attrib1, s1))
      in case L_redirect L cmd (Some k) attrib2 s2 of (status, s3) \<Rightarrow>
           if SUCCESS \<le> status then
             (open_result k status,
              if sft_count (sft_at s3 k) = 0 then set_sft k (\<lambda>f. f\<lparr>sft_count := 1\<rparr>) s3 else s3)
           else (status, s3))"

definition first_char :: "8 word list \<Rightarrow> 8 word" where
  "first_char path = (case path of [] \<Rightarrow> 0 | c # _ \<Rightarrow> c)"

definition open_disk ::
    "'w layers \<Rightarrow> 16 word \<Rightarrow> 16 word \<Rightarrow> nat \<Rightarrow> 'w kernel \<Rightarrow> (int \<times> 'w kernel) run" where
  "open_disk L flags attrib k s =
     (let path = PriPathName s; c0 = first_char path; drive = sint c0 - 0x41 in
      if 2 < flags AND 3 then Inr (DE_INVLDACC, s)
      else if flags AND 0x8000 = 0 \<and> attrib AND NOT 0x2f \<noteq> 0 then Inr (DE_ACCESS, s)
      else case (if drive < 0 then None else get_cds (nat drive) s) of
        None \<Rightarrow> Inr (DE_ACCESS, s)
      | Some c \<Rightarrow>
          if cdsDpb (CDSp s ! c) = 0 then Inr (DE_ACCESS, s)
          else bindE (on_share (share_open_file path (cu_psp s) (flags AND 3) (drop_bit 4 flags AND 7)
                        (attrib AND 1 \<noteq> 0) (dpb_device s (cdsDpb (CDSp s ! c))) 0x3d) s) (\<lambda>(n, s1).
            let s2 = set_sft k (\<lambda>f. f\<lparr>sft_shroff := n\<rparr>) s1 in
            if n < 0 then Inr (n, s2)
            else
              let s3 = set_sft k (\<lambda>f. f\<lparr>sft_count := sft_count f + 1, sft_flags := scast c0 - 0x41\<rparr>) s2
              in case L_dos_open L path flags attrib k s3 of (result, s4) \<Rightarrow>
                if result < 0 then
                  Inr (result, set_sft k (\<lambda>f. f\<lparr>sft_count := sft_count f - 1\<rparr>) (close_share k s4))
                else Inr (open_result k result, s4)))"

definition DosOpenSft ::
    "'w layers \<Rightarrow> 8 word list \<Rightarrow> 16 word \<Rightarrow> 16 word \<Rightarrow> 'w kernel \<Rightarrow> (int \<times> 'w kernel) run" where
  "DosOpenSft L fname flags attrib0 s =
     (case L_truename L fname s of (result, s1) \<Rightarrow>
      if result < SUCCESS then Inr (result, s1)
      else case get_free_sft (set_fcbname L s1) of
        (None, s2) \<Rightarrow> Inr (DE_TOOMANY, s2)
      | (Some k, s2) \<Rightarrow>
          let attrib = attrib0 OR 0x20;
              s3 = set_sft k (\<lambda>_. sft_zero\<lparr>sft_psp := cu_psp s2, sft_mode := flags AND 0xf0ff,
                     sft_shroff := -1, sft_attrib := ucast attrib\<rparr>) (s2\<lparr>OpenMode := ucast flags\<rparr>)
          in if result AND IS_NETWORK \<noteq> 0 then Inr (open_network L flags attrib k s3)
             else if result AND IS_DEVICE \<noteq> 0 \<and> IsDevice L fname s3 \<noteq> None then
               (case DeviceOpenSft L (the (IsDevice L fname s3)) k s3 of (rc, s4) \<Rightarrow>
                  Inr (if rc < SUCCESS then rc else int k, s4))
             else open_disk L flags attrib k s3)"

definition DosOpen ::
    "'w layers \<Rightarrow> 8 word list \<Rightarrow> 16 word \<Rightarrow> 16 word \<Rightarrow> 'w kernel \<Rightarrow> (int \<times> 'w kernel) run" where
  "DosOpen L fname mode attrib s =
     (if mode AND NOT 0xfff3 \<noteq> 0 then Inr (DE_INVLDACC, s)
      else let hndl = get_free_hndl s in
        if hndl < 0 then Inr (hndl, s)
        else bindE (DosOpenSft L fname mode attrib s) (\<lambda>(result, s1).
          if result < SUCCESS then Inr (result, s1)
          else Inr (hndl OR (result AND 0xffff0000),
                    set_filetab ((filetab s1)[nat hndl := word_of_int result]) s1)))"

section \<open>Closing\<close>

definition DosCloseSft :: "'w layers \<Rightarrow> int \<Rightarrow> bool \<Rightarrow> 'w kernel \<Rightarrow> int \<times> 'w kernel" where
  "DosCloseSft L sft_idx commitonly s =
     (case idx_to_sft sft_idx s of
        (None, s1) \<Rightarrow> (DE_INVLDHNDL, s1)
      | (Some k, s0) \<Rightarrow>
          let s1 = s0\<lparr>lpCurSft := Some k\<rparr>; f = sft_at s1 k in
          if sft_flags f AND SFT_FSHARED \<noteq> 0 then
            L_redirect L (if commitonly then 0x1107 else 0x1106) (Some k) 0 s1
          else if sft_flags f AND SFT_FDEVICE \<noteq> 0 then
            (case (if list_ex (\<lambda>(p, h). p = sft_dev f \<and> dh_attr h AND SFT_FOCRM \<noteq> 0) (devices s1)
                   then L_char_io L (sft_dev f) 0 0 C_CLOSE s1 else (SUCCESS, s1)) of (rc, s2) \<Rightarrow>
               if rc \<noteq> SUCCESS then (DE_INVLDHNDL, s2)
               else (SUCCESS, if commitonly then s2
                              else set_sft k (\<lambda>f. f\<lparr>sft_count := sft_count f - 1\<rparr>) s2))
          else
            (case L_dos_close L (nat sft_idx) s1 of (result, s2) \<Rightarrow>
               if commitonly \<or> result \<noteq> SUCCESS then (result, s2)
               else (SUCCESS, set_sft k (\<lambda>f. f\<lparr>sft_count := sft_count f - 1\<rparr>)
                  (if sft_count (sft_at s2 k) = 1 then close_share k s2 else s2))))"

text \<open>The handle is a \<open>COUNT\<close>: from 8000h on it is a negative index of the table.\<close>

definition DosClose :: "'w layers \<Rightarrow> nat \<Rightarrow> 'w kernel \<Rightarrow> (int \<times> 'w kernel) run" where
  "DosClose L hndl s =
     (let i = get_sft_idx hndl s in
      case idx_to_sft i s of
        (None, s1) \<Rightarrow> Inr (DE_INVLDHNDL, s1)
      | (Some k, s1) \<Rightarrow>
          if 0x8000 \<le> hndl then Inl Overrun
          else Inr (DosCloseSft L i False (set_filetab ((filetab s1)[hndl := 0xff]) s1)))"

section \<open>Duplicating and inheriting\<close>

definition CloneHandle :: "nat \<Rightarrow> 'w kernel \<Rightarrow> int \<times> 'w kernel" where
  "CloneHandle hndl s =
     (case get_sft hndl s of
        (None, s1) \<Rightarrow> (DE_INVLDHNDL, s1)
      | (Some k, s1) \<Rightarrow>
          if sft_mode (sft_at s1 k) AND 0x80 \<noteq> 0 then (DE_INVLDHNDL, s1)
          else (SUCCESS, set_sft k (\<lambda>f. f\<lparr>sft_count := sft_count f + 1\<rparr>) s1))"

text \<open>A new handle beyond the table is an access beyond the array.\<close>

definition DosForceDup :: "'w layers \<Rightarrow> nat \<Rightarrow> nat \<Rightarrow> 'w kernel \<Rightarrow> (int \<times> 'w kernel) run" where
  "DosForceDup L old new s =
     (case get_sft old s of
        (None, s1) \<Rightarrow> Inr (DE_INVLDHNDL, s1)
      | (Some k, s1) \<Rightarrow>
          if length (filetab s1) \<le> new then Inl Overrun
          else bindE (if filetab s1 ! new \<noteq> 0xff then DosClose L new s1 else Inr (SUCCESS, s1))
            (\<lambda>(ret, s2).
              if ret \<noteq> SUCCESS then Inr (ret, s2)
              else Inr (SUCCESS,
                set_sft k (\<lambda>f. f\<lparr>sft_count := sft_count f + 1\<rparr>)
                  (set_filetab ((filetab s2)[new := filetab s2 ! old]) s2))))"

definition DosDup :: "'w layers \<Rightarrow> nat \<Rightarrow> 'w kernel \<Rightarrow> (int \<times> 'w kernel) run" where
  "DosDup L hndl s =
     (let new = get_free_hndl s in
      if new < 0 then Inr (new, s)
      else bindE (DosForceDup L hndl (nat new) s) (\<lambda>(rc, s1).
        Inr (if rc < 0 then DE_INVLDHNDL else new, s1)))"

definition set_maxfiles :: "nat \<Rightarrow> 'w kernel \<Rightarrow> 'w kernel" where
  "set_maxfiles n s = s\<lparr>psps := (psps s)(cu_psp s := (psps s (cu_psp s))\<lparr>ps_maxfiles := n\<rparr>)\<rparr>"

definition SetJFTSize :: "nat \<Rightarrow> 'w kernel \<Rightarrow> (int \<times> 'w kernel) run option" where
  "SetJFTSize nHandles s =
     (if nHandles \<le> maxfiles s then Some (Inr (SUCCESS, set_maxfiles nHandles s))
      else case DosMemAlloc (word_of_nat ((nHandles + 0xf) div 16)) (ucast (mem_access_mode s)) s of
        None \<Rightarrow> None
      | Some (Inl t) \<Rightarrow> Some (Inl t)
      | Some (Inr (rc, para, asize, s1)) \<Rightarrow>
          if rc < 0 then Some (Inr (DE_NOMEM, s1))
          else Some (Inr (SUCCESS,
            set_maxfiles nHandles
              (set_filetab (take (maxfiles s1) (filetab s1) @ replicate (nHandles - maxfiles s1) 0xff) s1))))"

text \<open>The handles a child process gets, one after the other.\<close>

fun inherit_handles :: "nat list \<Rightarrow> 8 word list \<Rightarrow> 8 word list \<Rightarrow> 'w kernel \<Rightarrow> 8 word list \<times> 'w kernel" where
  "inherit_handles [] q p s = (p, s)"
| "inherit_handles (i # is) q p s =
     (case CloneHandle i s of (rc, s1) \<Rightarrow>
        inherit_handles is q (if 0 \<le> rc then p[i := q ! i] else p) s1)"

definition child_psp :: "16 word \<Rightarrow> 16 word \<Rightarrow> 16 word \<Rightarrow> 'w kernel \<Rightarrow> 'w kernel" where
  "child_psp para cur_psp psize s =
     (case inherit_handles [0..<20] (ps_filetab (psps s cur_psp)) (replicate 20 0xff) s of (t, s1) \<Rightarrow>
        s1\<lparr>psps := (psps s1)(para := \<lparr>ps_maxfiles = 20, ps_filetab = t, ps_parent = cu_psp s, ps_size = psize\<rparr>)\<rparr>)"

text \<open>The 20 handles of a new PSP are copied whatever the size of the table they come from.\<close>

definition new_psp :: "16 word \<Rightarrow> 16 word \<Rightarrow> 'w kernel \<Rightarrow> 'w kernel run" where
  "new_psp para cur_psp s =
     (let q = psps s cur_psp;
          s1 = s\<lparr>psps := (psps s)(para := q\<lparr>ps_maxfiles := 20, ps_filetab := take 20 (ps_filetab q)\<rparr>)\<rparr>
      in if length (ps_filetab q) < 20 then Inl Overrun else Inr (snd (CloneHandle 2 (snd (CloneHandle 1 (snd (CloneHandle 0 s1)))))))"

fun close_handles :: "'w layers \<Rightarrow> nat list \<Rightarrow> 'w kernel \<Rightarrow> 'w kernel run" where
  "close_handles L [] s = Inr s"
| "close_handles L (i # is) s = bindE (DosClose L i s) (\<lambda>(_, s1). close_handles L is s1)"

section \<open>Seeking\<close>

definition seek_remote ::
    "'w layers \<Rightarrow> nat \<Rightarrow> 32 word \<Rightarrow> 16 word \<Rightarrow> 'w kernel \<Rightarrow> 32 word option \<times> 'w kernel" where
  "seek_remote L k new_pos mode s =
     (if sft_flags (sft_at s k) AND SFT_FSHARED = 0 then (None, s)
      else
        let pos = (if mode = 0 \<or> new_pos AND 0x80000000 = 0 then ucast new_pos
                   else push_bit 32 0xffffffff OR ucast new_pos)
        in case L_remote_seek64 L k pos mode s of
             (None, s1) \<Rightarrow> (None, s1)
           | (Some p, s1) \<Rightarrow>
               let high = drop_bit 32 p in
               (Some (if high = 0 \<or> high = 0xffffffff then ucast p else -1), s1))"

definition SftSeek2 ::
    "'w layers \<Rightarrow> int \<Rightarrow> 32 word \<Rightarrow> 16 word \<Rightarrow> 'w kernel \<Rightarrow> int \<times> 32 word option \<times> 'w kernel" where
  "SftSeek2 L sft_idx new_pos mode s =
     (case idx_to_sft sft_idx s of
        (None, s1) \<Rightarrow> (DE_INVLDHNDL, None, s1)
      | (Some k, s1) \<Rightarrow>
          if 2 < mode then (DE_INVLDFUNC, None, s1)
          else
            let s2 = s1\<lparr>lpCurSft := Some k\<rparr>; f = sft_at s2 k;
                done = (\<lambda>pos s3. (SUCCESS, Some pos, set_sft k (\<lambda>f. f\<lparr>sft_posit := pos\<rparr>) s3))
            in if sft_flags f AND SFT_FDEVICE \<noteq> 0 then done 0 s2
               else case seek_remote L k new_pos mode s2 of
                 (Some p, s3) \<Rightarrow> (SUCCESS, Some p, s3)
               | (None, s3) \<Rightarrow>
                   if mode = 1 then done (new_pos + sft_posit (sft_at s3 k)) s3
                   else if mode = 2 then
                     (if sft_flags (sft_at s3 k) AND SFT_FSHARED \<noteq> 0 then
                        (case L_remote_lseek L k new_pos s3 of (pos, s4) \<Rightarrow> done pos s4)
                      else done (new_pos + sft_size (sft_at s3 k)) s3)
                   else done new_pos s3)"

text \<open>The position, or the error code as the unsigned value the code returns.\<close>

definition DosSeek ::
    "'w layers \<Rightarrow> nat \<Rightarrow> 32 word \<Rightarrow> 16 word \<Rightarrow> 'w kernel \<Rightarrow> 32 word \<times> int \<times> 'w kernel" where
  "DosSeek L hndl new_pos mode s =
     (case SftSeek2 L (get_sft_idx hndl s) new_pos mode s of (rc, p, s1) \<Rightarrow>
        (if rc = SUCCESS then the p else word_of_int rc, rc, s1))"

section \<open>Reading, writing and locking\<close>

text \<open>The transfer of a remote file, with the transfer address set for the redirector.\<close>

definition transfer_remote ::
    "'w layers \<Rightarrow> 16 word \<Rightarrow> nat \<Rightarrow> 32 word \<Rightarrow> 32 word \<Rightarrow> 'w kernel \<Rightarrow> int \<times> 'w kernel" where
  "transfer_remote L cmd k n bp s =
     (let save_dta = dta s;
          s1 = s\<lparr>lpCurSft := Some k, current_filepos := sft_posit (sft_at s k), dta := bp\<rparr>
      in case L_remote_rw L cmd k n s1 of (c, s2) \<Rightarrow> (c, s2\<lparr>dta := save_dta\<rparr>))"

text \<open>The check of SHARE before a transfer of a file on disk.\<close>

definition share_allows ::
    "nat \<Rightarrow> 32 word \<Rightarrow> 16 word \<Rightarrow> 'w kernel \<Rightarrow> (int \<times> 'w kernel) run" where
  "share_allows k n fn s =
     (let f = sft_at s k in
      if 0 \<le> sft_shroff f then
        on_share (share_access_check (nat (sft_shroff f)) (sft_posit f) n (dpb_device s (sft_dev f)) fn) s
      else Inr (SUCCESS, s))"

definition read_device ::
    "'w layers \<Rightarrow> int \<Rightarrow> nat \<Rightarrow> 32 word \<Rightarrow> 32 word \<Rightarrow> bool \<Rightarrow> bool \<Rightarrow> 'w kernel \<Rightarrow> int \<times> 'w kernel" where
  "read_device L sft_idx k n bp allow_echo check_break s =
     (let f = sft_at s k; dev = sft_dev f in
      if sft_flags f AND SFT_FBINARY \<noteq> 0 then L_char_io L dev n bp C_INPUT s
      else if sft_flags f AND SFT_FEOF = 0 then (0, s)
      else case (if sft_flags f AND SFT_FCONIN \<noteq> 0 \<and> allow_echo
                 then L_read_line L (nat sft_idx) n bp check_break s
                 else L_cooked_read L dev n bp check_break s) of (rc, s1) \<Rightarrow>
        (rc, if L_peek L bp s1 = 0x1a
             then set_sft k (\<lambda>f. f\<lparr>sft_flags := sft_flags f AND NOT SFT_FEOF\<rparr>) s1 else s1))"

definition DosReadSftExt ::
    "'w layers \<Rightarrow> int \<Rightarrow> 32 word \<Rightarrow> 32 word \<Rightarrow> bool \<Rightarrow> bool \<Rightarrow> 'w kernel \<Rightarrow> (int \<times> 'w kernel) run" where
  "DosReadSftExt L sft_idx n bp allow_echo check_break s =
     (case idx_to_sft sft_idx s of
        (None, s1) \<Rightarrow> Inr (DE_INVLDHNDL, s1)
      | (Some k, s1) \<Rightarrow>
          let f = sft_at s1 k in
          if sft_mode f AND 1 \<noteq> 0 then Inr (DE_ACCESS, s1)
          else if sft_flags f AND SFT_FSHARED \<noteq> 0 then Inr (transfer_remote L 0x1108 k n bp s1)
          else if sft_flags f AND SFT_FDEVICE \<noteq> 0 then
            Inr (read_device L sft_idx k n bp allow_echo check_break s1)
          else bindE (share_allows k n 0x3f s1) (\<lambda>(rc, s2).
            if rc \<noteq> SUCCESS then Inr (rc, s2)
            else Inr (L_rwblock L (nat sft_idx) bp n False s2)))"

fun echo_screen :: "'w layers \<Rightarrow> 32 word \<Rightarrow> nat \<Rightarrow> 'w kernel \<Rightarrow> 'w kernel" where
  "echo_screen L p 0 s = s"
| "echo_screen L p (Suc cnt) s = echo_screen L (p + 1) cnt (L_update_scr_pos L p 1 s)"

definition write_device ::
    "'w layers \<Rightarrow> nat \<Rightarrow> 32 word \<Rightarrow> 32 word \<Rightarrow> 'w kernel \<Rightarrow> int \<times> 'w kernel" where
  "write_device L k n bp s =
     (let f = sft_at s k; dev = sft_dev f in
      if sft_flags f AND SFT_FBINARY \<noteq> 0 then
        (case L_char_io L dev n bp C_OUTPUT s of (rc, s1) \<Rightarrow>
           (rc, if 0 < rc \<and> sft_flags (sft_at s1 k) AND SFT_FCONOUT \<noteq> 0
                then echo_screen L bp (nat rc) s1 else s1))
      else
        let s1 = set_sft k (\<lambda>f. f\<lparr>sft_flags := sft_flags f OR SFT_FEOF\<rparr>) s in
        if sft_flags f AND SFT_FNUL \<noteq> 0 then (sint n, s1)
        else L_cooked_write L dev n bp s1)"

definition DosWriteSftUnchecked ::
    "'w layers \<Rightarrow> int \<Rightarrow> 32 word \<Rightarrow> 32 word \<Rightarrow> 'w kernel \<Rightarrow> (int \<times> 'w kernel) run" where
  "DosWriteSftUnchecked L sft_idx n bp s =
     (case idx_to_sft sft_idx s of
        (None, s1) \<Rightarrow> Inr (DE_INVLDHNDL, s1)
      | (Some k, s1) \<Rightarrow>
          let f = sft_at s1 k in
          if sft_flags f AND SFT_FSHARED \<noteq> 0 then Inr (transfer_remote L 0x1109 k n bp s1)
          else if sft_flags f AND SFT_FDEVICE \<noteq> 0 then Inr (write_device L k n bp s1)
          else bindE (share_allows k n 0x40 s1) (\<lambda>(rc, s2).
            if rc \<noteq> SUCCESS then Inr (rc, s2)
            else Inr (L_rwblock L (nat sft_idx) bp n True s2)))"

text \<open>The mode is read before the entry is checked: with no entry, from whatever lies at
  FFFF:FFFF, which is the parameter \<open>stray\<close>.\<close>

definition DosWriteSft ::
    "'w layers \<Rightarrow> 16 word \<Rightarrow> int \<Rightarrow> 32 word \<Rightarrow> 32 word \<Rightarrow> 'w kernel \<Rightarrow> (int \<times> 'w kernel) run" where
  "DosWriteSft L stray sft_idx n bp s =
     (case idx_to_sft sft_idx s of (e, s1) \<Rightarrow>
        let mode = (case e of None \<Rightarrow> stray | Some k \<Rightarrow> sft_mode (sft_at s1 k)) in
        if mode AND 3 = 0 then Inr (DE_ACCESS, s1)
        else DosWriteSftUnchecked L sft_idx n bp s1)"

definition DosLockUnlock ::
    "'w layers \<Rightarrow> nat \<Rightarrow> 32 word \<Rightarrow> 32 word \<Rightarrow> bool \<Rightarrow> 'w kernel \<Rightarrow> (int \<times> 'w kernel) run" where
  "DosLockUnlock L hndl pos len unlock s =
     (case get_sft hndl s of
        (None, s1) \<Rightarrow> Inr (DE_INVLDHNDL, s1)
      | (Some k, s1) \<Rightarrow>
          let f = sft_at s1 k in
          if sft_flags f AND SFT_FSHARED \<noteq> 0 then Inr (L_remote_lock L k pos len unlock s1)
          else if sft_shroff f < 0 then Inr (DE_LOCK, s1)
          else on_share (share_lock_unlock (nat (sft_shroff f)) pos len unlock) s1)"

end
