(* ===== verification/Handles_Proofs.thy ===== *)
theory Handles_Proofs
  imports Handles Share_Proofs
begin

text \<open>
  The chain of SFT blocks as one flat table, reference counts of handles, and what each
  operation on handles does to them.
\<close>

section \<open>The chain as a flat table\<close>

definition nsft :: "'w kernel \<Rightarrow> nat" where
  "nsft s = length (concat (sft_tbl s))"

lemma sft_walk_eq:
  "0 \<le> i \<Longrightarrow> map_option snd (sft_walk bs i base) =
     (if nat i < length (concat bs) then Some (base + nat i) else None)"
  by (induction bs i base rule: sft_walk.induct) (auto simp: nat_diff_distrib nat_less_iff)

lemma sft_walk_index: "0 \<le> i \<Longrightarrow> sft_walk bs i base = Some (r, k) \<Longrightarrow> 0 \<le> r"
  by (induction bs i base rule: sft_walk.induct) (auto split: if_splits)

lemma concat_sft_upd: "concat (sft_upd k f bs) = (concat bs)[k := f (concat bs ! k)]"
  by (induction k f bs rule: sft_upd.induct) (auto simp: list_update_append nth_append)

lemma free_in_block_append:
  "free_in_block (a @ b) k =
     (case free_in_block a k of Some j \<Rightarrow> Some j | None \<Rightarrow> free_in_block b (k + length a))"
  by (induction a k rule: free_in_block.induct) (auto split: option.splits)

lemma free_in_chain_eq: "free_in_chain bs k = free_in_block (concat bs) k"
  by (induction bs k rule: free_in_chain.induct) (auto simp: free_in_block_append split: option.splits)

lemma free_in_block_Some:
  "free_in_block b k = Some j \<Longrightarrow>
   k \<le> j \<and> j < k + length b \<and> sft_count (b ! (j - k)) = 0 \<and> (\<forall>i < j - k. sft_count (b ! i) \<noteq> 0)"
  by (induction b k rule: free_in_block.induct) (auto split: if_splits simp: nth_Cons' Suc_diff_le)


lemma free_in_block_None: "free_in_block b k = None \<longleftrightarrow> (\<forall>f \<in> set b. sft_count f \<noteq> 0)"
  by (induction b k rule: free_in_block.induct) auto

lemma idx_to_sft_eq:
  "idx_to_sft i s =
     (if 0 \<le> i \<and> nat i < nsft s \<and> sft_count (sft_at s (nat i)) \<noteq> 0 then Some (nat i) else None,
      s\<lparr>lpCurSft := if 0 \<le> i \<and> nat i < nsft s then Some (nat i) else None\<rparr>)"
proof (cases "0 \<le> i")
  case True
  note w = sft_walk_eq[OF True, of "sft_tbl s" 0]
  show ?thesis
  proof (cases "sft_walk (sft_tbl s) i 0")
    case None
    with w True show ?thesis
      by (auto simp: idx_to_sft_def idx_to_sft0_def nsft_def split: if_splits)
  next
    case (Some p)
    obtain r k where p: "p = (r, k)" by (cases p)
    with Some w sft_walk_index[OF True, of "sft_tbl s" 0 r k] True show ?thesis
      by (auto simp: idx_to_sft_def idx_to_sft0_def nsft_def sft_at_def split: if_splits)
  qed
qed (simp add: idx_to_sft_def idx_to_sft0_def)

lemma get_free_sft_eq:
  "get_free_sft s =
     (case free_in_block (concat (sft_tbl s)) 0 of
        Some k \<Rightarrow> (Some k, s\<lparr>current_sft_idx := k\<rparr>) | None \<Rightarrow> (None, s))"
  by (simp add: get_free_sft_def free_in_chain_eq)

lemma sft_at_set [simp]:
  "k < nsft s \<Longrightarrow> sft_at (set_sft k f s) j = (if j = k then f (sft_at s k) else sft_at s j)"
  by (simp add: sft_at_def set_sft_def concat_sft_upd nsft_def nth_list_update)

lemma set_sft_frame [simp]:
  "nsft (set_sft k f s) = nsft s" "psps (set_sft k f s) = psps s" "cu_psp (set_sft k f s) = cu_psp s"
  "share_tab (set_sft k f s) = share_tab s" "world (set_sft k f s) = world s"
  "devices (set_sft k f s) = devices s" "PriPathName (set_sft k f s) = PriPathName s"
  "CDSp (set_sft k f s) = CDSp s" "dpb_device (set_sft k f s) = dpb_device s"
  by (simp_all add: set_sft_def nsft_def concat_sft_upd)

lemma sft_at_frame [simp]:
  "sft_at (s\<lparr>lpCurSft := l\<rparr>) = sft_at s" "sft_at (s\<lparr>current_sft_idx := n\<rparr>) = sft_at s"
  "sft_at (s\<lparr>psps := q\<rparr>) = sft_at s" "sft_at (s\<lparr>share_tab := h\<rparr>) = sft_at s"
  "sft_at (s\<lparr>OpenMode := b\<rparr>) = sft_at s" "sft_at (s\<lparr>fcb_name := w\<rparr>) = sft_at s"
  "nsft (s\<lparr>lpCurSft := l\<rparr>) = nsft s" "nsft (s\<lparr>current_sft_idx := n\<rparr>) = nsft s"
  "nsft (s\<lparr>psps := q\<rparr>) = nsft s" "nsft (s\<lparr>share_tab := h\<rparr>) = nsft s"
  "nsft (s\<lparr>OpenMode := b\<rparr>) = nsft s" "nsft (s\<lparr>fcb_name := w\<rparr>) = nsft s"
  by (simp_all add: fun_eq_iff sft_at_def nsft_def)

lemma set_filetab_frame [simp]:
  "sft_at (set_filetab t s) = sft_at s" "nsft (set_filetab t s) = nsft s"
  "cu_psp (set_filetab t s) = cu_psp s" "share_tab (set_filetab t s) = share_tab s"
  "world (set_filetab t s) = world s" "devices (set_filetab t s) = devices s"
  "maxfiles (set_filetab t s) = maxfiles s" "filetab (set_filetab t s) = t"
  by (simp_all add: set_filetab_def maxfiles_def filetab_def)

lemma filetab_frame [simp]:
  "filetab (s\<lparr>lpCurSft := l\<rparr>) = filetab s" "maxfiles (s\<lparr>lpCurSft := l\<rparr>) = maxfiles s"
  "filetab (s\<lparr>current_sft_idx := n\<rparr>) = filetab s" "maxfiles (s\<lparr>current_sft_idx := n\<rparr>) = maxfiles s"
  "filetab (s\<lparr>share_tab := h\<rparr>) = filetab s" "maxfiles (s\<lparr>share_tab := h\<rparr>) = maxfiles s"
  "filetab (set_sft k f s) = filetab s" "maxfiles (set_sft k f s) = maxfiles s"
  by (simp_all add: filetab_def maxfiles_def)

section \<open>References\<close>

text \<open>How many handles of the processes in \<open>P\<close> refer to an entry, and the invariant: a handle
  in use refers to an entry, and an entry counts at least the handles that refer to it. The
  surplus is what else keeps the entry open (an FCB, the program loader, a failed close).\<close>

definition open_slots :: "psp_t \<Rightarrow> nat \<Rightarrow> nat set" where
  "open_slots p k = {h. h < ps_maxfiles p \<and> ps_filetab p ! h \<noteq> 0xff \<and> unat (ps_filetab p ! h) = k}"

definition refs :: "16 word set \<Rightarrow> 'w kernel \<Rightarrow> nat \<Rightarrow> nat" where
  "refs P s k = (\<Sum>p \<in> P. card (open_slots (psps s p) k))"

definition surplus :: "16 word set \<Rightarrow> 'w kernel \<Rightarrow> nat \<Rightarrow> int" where
  "surplus P s k = int (unat (sft_count (sft_at s k))) - int (refs P s k)"

definition handles_ok :: "16 word set \<Rightarrow> 'w kernel \<Rightarrow> bool" where
  "handles_ok P s \<longleftrightarrow> finite P \<and> cu_psp s \<in> P \<and> nsft s \<le> 255 \<and>
     (\<forall>p \<in> P. ps_maxfiles (psps s p) \<le> length (ps_filetab (psps s p)) \<and>
        (\<forall>h < ps_maxfiles (psps s p). ps_filetab (psps s p) ! h \<noteq> 0xff \<longrightarrow>
           unat (ps_filetab (psps s p) ! h) < nsft s)) \<and>
     (\<forall>k < nsft s. 0 \<le> surplus P s k)"

lemma open_slots_finite [simp]: "finite (open_slots p k)"
  by (rule finite_subset[of _ "{..<ps_maxfiles p}"]) (auto simp: open_slots_def)

lemma open_slots_put:
  assumes "h < ps_maxfiles p" "h < length (ps_filetab p)"
  shows "open_slots (p\<lparr>ps_filetab := (ps_filetab p)[h := v]\<rparr>) k =
    (if v \<noteq> 0xff \<and> unat v = k then insert h (open_slots p k) else open_slots p k - {h})"
  using assms by (auto simp: open_slots_def nth_list_update)

text \<open>Writing one slot of the current process moves one reference.\<close>

lemma refs_put:
  assumes P: "finite P" "cu_psp s \<in> P" and h: "h < maxfiles s" "h < length (filetab s)"
  shows "int (refs P (set_filetab ((filetab s)[h := v]) s) k) =
    int (refs P s k) - (if filetab s ! h \<noteq> 0xff \<and> unat (filetab s ! h) = k then 1 else 0)
      + (if v \<noteq> 0xff \<and> unat v = k then 1 else 0)"
proof -
  let ?c = "cu_psp s" and ?p = "psps s (cu_psp s)"
  let ?q = "?p\<lparr>ps_filetab := (ps_filetab ?p)[h := v]\<rparr>"
  have split: "refs P t k = card (open_slots (psps t ?c) k) + (\<Sum>p \<in> P - {?c}. card (open_slots (psps t p) k))"
    for t :: "'a kernel"
    unfolding refs_def using P by (simp add: sum.remove)
  have q: "psps (set_filetab ((filetab s)[h := v]) s) = (psps s)(?c := ?q)"
    by (simp add: set_filetab_def filetab_def)
  have hh: "h < ps_maxfiles ?p" "h < length (ps_filetab ?p)" using h by (simp_all add: maxfiles_def filetab_def)
  have mem: "h \<in> open_slots ?p k \<longleftrightarrow> filetab s ! h \<noteq> 0xff \<and> unat (filetab s ! h) = k"
    using hh by (auto simp: open_slots_def filetab_def)
  have "int (card (open_slots ?q k)) = int (card (open_slots ?p k)) - (if h \<in> open_slots ?p k then 1 else 0)
      + (if v \<noteq> 0xff \<and> unat v = k then 1 else 0)"
  proof -
    have "0 < card (open_slots ?p k)" if "h \<in> open_slots ?p k" using that by (auto simp: card_gt_0_iff)
    then show ?thesis
      unfolding open_slots_put[OF hh] by (auto simp: insert_absorb card_Diff_singleton)
  qed
  moreover have "(\<Sum>p \<in> P - {?c}. card (open_slots (((psps s)(?c := ?q)) p) k)) =
      (\<Sum>p \<in> P - {?c}. card (open_slots (psps s p) k))"
    by (rule sum.cong) auto
  ultimately show ?thesis unfolding split q mem by simp
qed

section \<open>How an operation changes the counts\<close>

text \<open>\<open>bump k d s t\<close>: from \<open>s\<close> to \<open>t\<close> the count of entry \<open>k\<close> changed by \<open>d\<close>, and nothing else that
  handles depend on.\<close>

definition is_local :: "sft_t \<Rightarrow> bool" where
  "is_local f \<longleftrightarrow> sft_flags f AND SFT_FSHARED = 0"

definition bump :: "nat \<Rightarrow> 16 word \<Rightarrow> 'w kernel \<Rightarrow> 'w kernel \<Rightarrow> bool" where
  "bump k d s t \<longleftrightarrow> psps t = psps s \<and> cu_psp t = cu_psp s \<and> nsft t = nsft s \<and>
     (\<forall>j < nsft s. sft_count (sft_at t j) = sft_count (sft_at s j) + (if j = k then d else 0) \<and>
        (is_local (sft_at s j) \<longrightarrow> is_local (sft_at t j)))"

definition same_refs :: "'w kernel \<Rightarrow> 'w kernel \<Rightarrow> bool" where
  "same_refs = bump 0 0"

text \<open>What the layers below promise: they leave handles and counts alone, and keep a local
  entry local.\<close>

definition layers_ok :: "'w layers \<Rightarrow> bool" where
  "layers_ok L \<longleftrightarrow>
     (\<forall>n s. same_refs s (snd (L_truename L n s))) \<and>
     (\<forall>p f a k s. same_refs s (snd (L_dos_open L p f a k s))) \<and>
     (\<forall>k s. same_refs s (snd (L_dos_close L k s))) \<and>
     (\<forall>d n b c s. same_refs s (snd (L_char_io L d n b c s)))"

lemma layers_okD:
  assumes "layers_ok L"
  shows "L_truename L n s = (r, s1) \<Longrightarrow> same_refs s s1"
    "L_dos_open L p f a k s = (r, s1) \<Longrightarrow> same_refs s s1"
    "L_dos_close L k s = (r, s1) \<Longrightarrow> same_refs s s1"
    "L_char_io L d m b c s = (r, s1) \<Longrightarrow> same_refs s s1"
  using assms unfolding layers_ok_def by (metis fst_conv snd_conv)+

lemma bump_trans: "bump k d s t \<Longrightarrow> bump k e t u \<Longrightarrow> bump k (d + e) s u"
  by (auto simp: bump_def)

lemma same_refs_bump: "same_refs s t \<longleftrightarrow> bump k 0 s t"
  by (auto simp: same_refs_def bump_def)

lemma same_refs_refl [simp]: "same_refs s s"
  by (simp add: same_refs_def bump_def)

lemma same_refs_trans: "same_refs s t \<Longrightarrow> same_refs t u \<Longrightarrow> same_refs s u"
  unfolding same_refs_def using bump_trans[of 0 0 s t 0 u] by simp

lemma same_then_bump: "same_refs s t \<Longrightarrow> bump k d t u \<Longrightarrow> bump k d s u"
  using bump_trans[of k 0 s t d u] by (simp add: same_refs_bump[of s t k])

lemma bump_then_same: "bump k d s t \<Longrightarrow> same_refs t u \<Longrightarrow> bump k d s u"
  using bump_trans[of k d s t 0 u] by (simp add: same_refs_bump[of t u k])

lemma same_refs_frame [simp]:
  "same_refs s (s\<lparr>lpCurSft := l\<rparr>)" "same_refs s (s\<lparr>current_sft_idx := n\<rparr>)"
  "same_refs s (s\<lparr>share_tab := h\<rparr>)" "same_refs s (s\<lparr>OpenMode := b\<rparr>)"
  "same_refs s (s\<lparr>fcb_name := w\<rparr>)"
  by (simp_all add: same_refs_def bump_def)

lemma bump_set_sft:
  "k < nsft s \<Longrightarrow> sft_count (f (sft_at s k)) = sft_count (sft_at s k) + d \<Longrightarrow>
   (is_local (sft_at s k) \<Longrightarrow> is_local (f (sft_at s k))) \<Longrightarrow> bump k d s (set_sft k f s)"
  by (auto simp: bump_def)

lemma same_refs_set_sft:
  "k < nsft s \<Longrightarrow> sft_count (f (sft_at s k)) = sft_count (sft_at s k) \<Longrightarrow>
   (is_local (sft_at s k) \<Longrightarrow> is_local (f (sft_at s k))) \<Longrightarrow> same_refs s (set_sft k f s)"
  by (auto simp: same_refs_def bump_def)

lemma close_share_refs:
  assumes "k < nsft s"
  shows "same_refs s (close_share k s)"
proof -
  let ?n = "sft_shroff (sft_at s k)"
  let ?t = "if 0 \<le> ?n then s\<lparr>share_tab := share_close_file (nat ?n) (share_tab s)\<rparr> else s"
  have s: "same_refs s ?t" and "k < nsft ?t" using assms by simp_all
  from this(2) have "same_refs ?t (set_sft k (\<lambda>f. f\<lparr>sft_shroff := -1\<rparr>) ?t)"
    by (rule same_refs_set_sft) (simp_all add: is_local_def)
  from same_refs_trans[OF s this] show ?thesis unfolding close_share_def Let_def .
qed

lemma set_filetab_bump: "bump k d s t \<Longrightarrow> bump k d (set_filetab b s) (set_filetab b t)"
  by (simp add: bump_def set_filetab_def)

lemma bump_surplus:
  assumes "bump k d s t" "j < nsft s"
  shows "surplus P t j = int (unat (sft_count (sft_at s j) + (if j = k then d else 0))) - int (refs P s j)"
  using assms by (auto simp: bump_def surplus_def refs_def)

lemma same_refs_surplus: "same_refs s t \<Longrightarrow> j < nsft s \<Longrightarrow> surplus P t j = surplus P s j"
  unfolding same_refs_def using bump_surplus[of 0 0 s t j P] by (simp add: surplus_def)

lemma same_refs_ok:
  assumes "same_refs s t" "handles_ok P s"
  shows "handles_ok P t"
proof -
  have e: "psps t = psps s" "cu_psp t = cu_psp s" "nsft t = nsft s"
    using assms(1) by (simp_all add: same_refs_def bump_def)
  have "\<forall>k < nsft s. surplus P t k = surplus P s k" using same_refs_surplus[OF assms(1)] by blast
  then show ?thesis using assms(2) unfolding handles_ok_def e by simp
qed

section \<open>Closing\<close>

lemma DosCloseSft_local:
  assumes L: "layers_ok L" and i: "0 \<le> i" "nat i < nsft s" "sft_count (sft_at s (nat i)) \<noteq> 0"
    and loc: "is_local (sft_at s (nat i))"
  shows "\<exists>rc s1. DosCloseSft L i False s = (rc, s1) \<and>
    (rc = SUCCESS \<and> bump (nat i) (-1) s s1 \<or> rc \<noteq> SUCCESS \<and> same_refs s s1)"
proof -
  let ?k = "nat i" and ?s = "s\<lparr>lpCurSft := Some (nat i)\<rparr>"
  have id: "idx_to_sft i s = (Some ?k, ?s)" using i by (simp add: idx_to_sft_eq)
  have fr: "same_refs s ?s" by simp
  have dec: "bump ?k (-1) s (set_sft ?k (\<lambda>f. f\<lparr>sft_count := sft_count f - 1\<rparr>) t)" if "same_refs s t" for t
  proof (rule same_then_bump[OF that])
    have "?k < nsft t" using that i by (simp add: same_refs_def bump_def)
    then show "bump ?k (-1) t (set_sft ?k (\<lambda>f. f\<lparr>sft_count := sft_count f - 1\<rparr>) t)"
      by (rule bump_set_sft) (simp_all add: is_local_def)
  qed
  show ?thesis
  proof (cases "sft_flags (sft_at s ?k) AND SFT_FDEVICE = 0")
    case False
    define io where "io = (if list_ex (\<lambda>(p, h). p = sft_dev (sft_at s ?k) \<and> dh_attr h AND SFT_FOCRM \<noteq> 0) (devices s)
      then L_char_io L (sft_dev (sft_at s ?k)) 0 0 C_CLOSE ?s else (SUCCESS, ?s))"
    obtain rc s2 where io2: "io = (rc, s2)" by (cases io)
    have "same_refs ?s s2"
      using io2 layers_okD(4)[OF L, of _ 0 0 C_CLOSE ?s rc s2] by (auto simp: io_def split: if_splits)
    then have "same_refs s s2" by (rule same_refs_trans[OF fr])
    moreover have "DosCloseSft L i False s = (case io of (rc, s2) \<Rightarrow>
        if rc \<noteq> SUCCESS then (DE_INVLDHNDL, s2)
        else (SUCCESS, set_sft ?k (\<lambda>f. f\<lparr>sft_count := sft_count f - 1\<rparr>) s2))"
      using False loc id unfolding DosCloseSft_def io_def is_local_def by (simp add: Let_def split: prod.split)
    ultimately show ?thesis
      using io2 dec[of s2] by (auto simp: DE_INVLDHNDL_def SUCCESS_def)
  next
    case True
    obtain rc s2 where cl: "L_dos_close L ?k ?s = (rc, s2)" by (cases "L_dos_close L ?k ?s")
    then have s2: "same_refs s s2" using layers_okD(3)[OF L cl] same_refs_trans[OF fr] by blast
    then have k2: "?k < nsft s2" using i by (simp add: same_refs_def bump_def)
    have "same_refs s (if sft_count (sft_at s2 ?k) = 1 then close_share ?k s2 else s2)"
      using same_refs_trans[OF s2 close_share_refs[OF k2]] s2 by simp
    then show ?thesis
      using True loc cl s2 dec id by (auto simp: DosCloseSft_def is_local_def Let_def)
  qed
qed

text \<open>A close gives up the handle; when it succeeds it gives up the reference as well.\<close>

lemma DosClose_cases:
  assumes L: "layers_ok L" and ok: "handles_ok P s" and loc: "\<forall>k < nsft s. is_local (sft_at s k)"
    and h: "h < 0x8000"
  shows "\<exists>rc s1. DosClose L h s = Inr (rc, s1) \<and>
    (rc = DE_INVLDHNDL \<and> same_refs s s1 \<or>
     h < maxfiles s \<and> filetab s ! h \<noteq> 0xff \<and>
       (if rc = SUCCESS then bump (unat (filetab s ! h)) (-1) (set_filetab ((filetab s)[h := 0xff]) s) s1
        else same_refs (set_filetab ((filetab s)[h := 0xff]) s) s1))"
proof (cases "h < maxfiles s \<and> filetab s ! h \<noteq> 0xff \<and> sft_count (sft_at s (unat (filetab s ! h))) \<noteq> 0")
  case False
  have "fst (idx_to_sft (get_sft_idx h s) s) = None"
    using False by (auto simp: get_sft_idx_def idx_to_sft_eq DE_INVLDHNDL_def)
  moreover have "same_refs s (snd (idx_to_sft (get_sft_idx h s) s))" by (simp add: idx_to_sft_eq)
  ultimately show ?thesis
    by (cases "idx_to_sft (get_sft_idx h s) s") (auto simp: DosClose_def Let_def)
next
  case True
  let ?i = "get_sft_idx h s" and ?t = "set_filetab ((filetab s)[h := 0xff]) s"
  have i: "?i = uint (filetab s ! h)" "nat ?i = unat (filetab s ! h)" using True by (auto simp: get_sft_idx_def)
  have k: "unat (filetab s ! h) < nsft s"
    using ok True unfolding handles_ok_def maxfiles_def filetab_def by blast
  let ?s1 = "s\<lparr>lpCurSft := Some (nat ?i)\<rparr>"
  have id: "idx_to_sft ?i s = (Some (nat ?i), ?s1)" using True k i by (simp add: idx_to_sft_eq)
  let ?u = "set_filetab ((filetab ?s1)[h := 0xff]) ?s1"
  have tu: "same_refs ?t ?u" by (simp add: same_refs_def bump_def set_filetab_def filetab_def)
  have "0 \<le> ?i" "nat ?i < nsft ?u" "sft_count (sft_at ?u (nat ?i)) \<noteq> 0" "is_local (sft_at ?u (nat ?i))"
    using True k i loc by simp_all
  from DosCloseSft_local[OF L this] obtain rc s1 where
    c: "DosCloseSft L ?i False ?u = (rc, s1)" and
    d: "rc = SUCCESS \<and> bump (nat ?i) (-1) ?u s1 \<or> rc \<noteq> SUCCESS \<and> same_refs ?u s1" by blast
  from d have d2: "if rc = SUCCESS then bump (unat (filetab s ! h)) (-1) ?t s1 else same_refs ?t s1"
    using same_then_bump[OF tu] same_refs_trans[OF tu] i by (auto split: if_splits)
  have "DosClose L h s = Inr (rc, s1)"
    using c id h unfolding DosClose_def Let_def by simp
  with d2 True show ?thesis by auto
qed

section \<open>Handles and counts together\<close>

text \<open>A call that reports success keeps every surplus; a call that fails may leave one larger:
  an entry that stays open though no handle refers to it.\<close>

definition all_local :: "'w kernel \<Rightarrow> bool" where
  "all_local s \<longleftrightarrow> (\<forall>k < nsft s. is_local (sft_at s k))"

definition kept :: "16 word set \<Rightarrow> bool \<Rightarrow> 'w kernel \<Rightarrow> 'w kernel \<Rightarrow> bool" where
  "kept P good s t \<longleftrightarrow> handles_ok P t \<and> all_local t \<and> nsft t = nsft s \<and> cu_psp t = cu_psp s \<and>
     (\<forall>k < nsft s. surplus P s k \<le> surplus P t k \<and> (good \<longrightarrow> surplus P t k = surplus P s k))"

lemma kept_trans: "kept P g s t \<Longrightarrow> kept P g t u \<Longrightarrow> kept P g s u"
  unfolding kept_def by (metis order_trans)

lemma kept_mono:
  assumes "kept P False t u" "nsft t = nsft s" "cu_psp t = cu_psp s"
    and le: "\<forall>k < nsft s. surplus P s k \<le> surplus P t k"
  shows "kept P False s u"
proof -
  have "surplus P s k \<le> surplus P u k" if "k < nsft s" for k
    using that assms by (metis kept_def order_trans)
  then show ?thesis using assms(1-3) by (simp add: kept_def)
qed

lemma bump_local: "bump k d s t \<Longrightarrow> all_local s \<Longrightarrow> all_local t"
  by (auto simp: bump_def all_local_def)

lemma same_refs_kept: "same_refs s t \<Longrightarrow> handles_ok P s \<Longrightarrow> all_local s \<Longrightarrow> kept P g s t"
  using same_refs_ok[of s t P] same_refs_surplus[of s t _ P] bump_local[of 0 0 s t]
  by (simp add: kept_def same_refs_def bump_def)

lemma bump_ok:
  assumes b: "bump k d s t" and ok: "handles_ok P s"
    and sur: "\<forall>j < nsft s. 0 \<le> surplus P t j"
  shows "handles_ok P t"
proof -
  have e: "psps t = psps s" "cu_psp t = cu_psp s" "nsft t = nsft s" using b by (simp_all add: bump_def)
  show ?thesis using ok sur unfolding handles_ok_def e by simp
qed

lemma put_slot_surplus:
  assumes ok: "handles_ok P s" and h: "h < maxfiles s"
  shows "surplus P (set_filetab ((filetab s)[h := v]) s) k = surplus P s k
    + (if filetab s ! h \<noteq> 0xff \<and> unat (filetab s ! h) = k then 1 else 0)
    - (if v \<noteq> 0xff \<and> unat v = k then 1 else 0)"
proof -
  have "finite P" "cu_psp s \<in> P" "h < length (filetab s)"
    using ok h unfolding handles_ok_def maxfiles_def filetab_def by auto
  from refs_put[OF this(1,2) h this(3), of v k] show ?thesis by (simp add: surplus_def)
qed

lemma put_slot_ok:
  assumes ok: "handles_ok P s" and h: "h < maxfiles s"
    and v: "v = 0xff \<or> unat v < nsft s"
    and sur: "\<forall>j < nsft s. 0 \<le> surplus P (set_filetab ((filetab s)[h := v]) s) j"
  shows "handles_ok P (set_filetab ((filetab s)[h := v]) s)"
proof -
  let ?t = "set_filetab ((filetab s)[h := v]) s" and ?c = "cu_psp s"
  have ps: "psps ?t = (psps s)(?c := (psps s ?c)\<lparr>ps_filetab := (ps_filetab (psps s ?c))[h := v]\<rparr>)"
    by (simp add: set_filetab_def filetab_def)
  have "ps_maxfiles (psps ?t p) \<le> length (ps_filetab (psps ?t p)) \<and>
      (\<forall>j < ps_maxfiles (psps ?t p). ps_filetab (psps ?t p) ! j \<noteq> 0xff \<longrightarrow> unat (ps_filetab (psps ?t p) ! j) < nsft ?t)"
    if p: "p \<in> P" for p
  proof -
    have "ps_maxfiles (psps s p) \<le> length (ps_filetab (psps s p))"
      "\<forall>j < ps_maxfiles (psps s p). ps_filetab (psps s p) ! j \<noteq> 0xff \<longrightarrow> unat (ps_filetab (psps s p) ! j) < nsft s"
      using ok p unfolding handles_ok_def by blast+
    moreover have "h < length (ps_filetab (psps s ?c))"
      using ok h unfolding handles_ok_def maxfiles_def by auto
    ultimately show ?thesis using v unfolding ps by (cases "p = ?c") (auto simp: nth_list_update)
  qed
  then show ?thesis using ok sur unfolding handles_ok_def by simp
qed

lemma unat_dec: "w \<noteq> 0 \<Longrightarrow> int (unat (w - 1)) = int (unat w) - 1" for w :: "16 word"
proof -
  assume w: "w \<noteq> 0"
  have "unat (w - 1) = unat w - 1" by (rule unat_minus_one[OF w])
  moreover have "0 < unat w" using w by (simp add: unat_gt_0)
  ultimately show ?thesis by linarith
qed

lemma unat_inc: "w \<noteq> 0xffff \<Longrightarrow> int (unat (w + 1)) = int (unat w) + 1" for w :: "16 word"
proof -
  assume w: "w \<noteq> 0xffff"
  have "w + 1 \<noteq> 0"
  proof
    assume "w + 1 = 0"
    then have "w = - 1" by (simp add: eq_neg_iff_add_eq_0)
    with w show False by simp
  qed
  from unat_dec[OF this] show ?thesis by simp
qed

lemma DosClose_kept:
  assumes L: "layers_ok L" and ok: "handles_ok P s" and loc: "all_local s" and h: "h < 0x8000"
  shows "\<exists>rc s1. DosClose L h s = Inr (rc, s1) \<and> kept P (rc = SUCCESS) s s1 \<and>
    (rc = SUCCESS \<longrightarrow> h < maxfiles s \<and> filetab s ! h \<noteq> 0xff \<and> filetab s1 = (filetab s)[h := 0xff] \<and>
       maxfiles s1 = maxfiles s \<and>
       (\<forall>k < nsft s. sft_count (sft_at s1 k) = sft_count (sft_at s k) - (if k = unat (filetab s ! h) then 1 else 0)))"
proof -
  have "\<forall>k < nsft s. is_local (sft_at s k)" using loc by (simp add: all_local_def)
  from DosClose_cases[OF L ok this h] obtain rc s1 where c: "DosClose L h s = Inr (rc, s1)" and
    d: "rc = DE_INVLDHNDL \<and> same_refs s s1 \<or>
     h < maxfiles s \<and> filetab s ! h \<noteq> 0xff \<and>
       (if rc = SUCCESS then bump (unat (filetab s ! h)) (-1) (set_filetab ((filetab s)[h := 0xff]) s) s1
        else same_refs (set_filetab ((filetab s)[h := 0xff]) s) s1)" by blast
  from d show ?thesis
  proof (elim disjE conjE)
    assume "rc = DE_INVLDHNDL" "same_refs s s1"
    then show ?thesis using c same_refs_kept[OF _ ok loc] by (simp add: DE_INVLDHNDL_def SUCCESS_def)
  next
    assume h1: "h < maxfiles s" and o: "filetab s ! h \<noteq> 0xff"
      and e: "if rc = SUCCESS then bump (unat (filetab s ! h)) (-1) (set_filetab ((filetab s)[h := 0xff]) s) s1
        else same_refs (set_filetab ((filetab s)[h := 0xff]) s) s1"
    let ?t = "set_filetab ((filetab s)[h := 0xff]) s" and ?k = "unat (filetab s ! h)"
    have sur: "surplus P ?t j = surplus P s j + (if j = ?k then 1 else 0)" for j
      using put_slot_surplus[OF ok h1, of "0xff" j] o by auto
    have pos: "0 \<le> surplus P s j" if "j < nsft s" for j using ok that by (simp add: handles_ok_def)
    have okt: "handles_ok P ?t" by (rule put_slot_ok[OF ok h1]) (use sur pos in auto)
    have loct: "all_local ?t" using loc by (simp add: all_local_def)
    have k: "?k < nsft s" using ok h1 o unfolding handles_ok_def maxfiles_def filetab_def by blast
    show ?thesis
    proof (cases "rc = SUCCESS")
      case False
      then have r: "kept P False ?t s1" using same_refs_kept[OF _ okt loct] e by simp
      then have "kept P False s s1" by (rule kept_mono) (use sur in simp_all)
      with c False show ?thesis by auto
    next
      case True
      then have b: "bump ?k (-1) ?t s1" using e by simp
      have "0 < int (unat (sft_count (sft_at s ?k)))"
        using sur[of ?k] pos[OF k] okt k unfolding surplus_def by simp
      then have nz: "sft_count (sft_at s ?k) \<noteq> 0" by auto
      have s1: "surplus P s1 j = surplus P s j" if j: "j < nsft s" for j
      proof -
        have "surplus P s1 j = int (unat (sft_count (sft_at s j) + (if j = ?k then -1 else 0))) - int (refs P ?t j)"
          using bump_surplus[OF b, of j] j by simp
        also have "int (unat (sft_count (sft_at s j) + (if j = ?k then -1 else 0))) =
            int (unat (sft_count (sft_at s j))) - (if j = ?k then 1 else 0)"
          using unat_dec[OF nz] by (cases "j = ?k") simp_all
        finally show ?thesis using sur[of j] by (simp add: surplus_def)
      qed
      then have "handles_ok P s1" using bump_ok[OF b okt] pos by simp
      then have "kept P True s s1" using s1 bump_local[OF b loct] b by (simp add: kept_def bump_def)
      moreover have "filetab s1 = (filetab s)[h := 0xff]" "maxfiles s1 = maxfiles s"
      proof -
        have "psps s1 = psps ?t" "cu_psp s1 = cu_psp ?t" using b by (simp_all add: bump_def)
        then have "filetab s1 = filetab ?t" "maxfiles s1 = maxfiles ?t" by (simp_all add: filetab_def maxfiles_def)
        then show "filetab s1 = (filetab s)[h := 0xff]" "maxfiles s1 = maxfiles s" by simp_all
      qed
      moreover have "\<forall>j < nsft s. sft_count (sft_at s1 j) = sft_count (sft_at s j) - (if j = ?k then 1 else 0)"
        using b by (simp add: bump_def)
      ultimately show ?thesis using c True h1 o by auto
    qed
  qed
qed

section \<open>Duplicating\<close>

lemma bump_attach:
  assumes ok: "handles_ok P s" and loc: "all_local s" and b: "bump k 1 s t" and k: "k < nsft s"
    and c: "sft_count (sft_at s k) \<noteq> 0xffff"
    and h: "h < maxfiles s" "filetab s ! h = 0xff" and v: "v \<noteq> 0xff" "unat v = k"
  shows "kept P True s (set_filetab ((filetab t)[h := v]) t)"
proof -
  have e: "psps t = psps s" "cu_psp t = cu_psp s" "nsft t = nsft s" using b by (simp_all add: bump_def)
  then have ft: "filetab t = filetab s" "maxfiles t = maxfiles s" by (simp_all add: filetab_def maxfiles_def)
  have sur: "surplus P t j = surplus P s j + (if j = k then 1 else 0)" if "j < nsft s" for j
    using bump_surplus[OF b that, of P] unat_inc[OF c] by (auto simp: surplus_def)
  have pos: "0 \<le> surplus P s j" if "j < nsft s" for j using ok that by (simp add: handles_ok_def)
  have okt: "handles_ok P t" by (rule bump_ok[OF b ok]) (use sur pos in auto)
  let ?u = "set_filetab ((filetab t)[h := v]) t"
  have sur2: "surplus P ?u j = surplus P s j" if "j < nsft s" for j
    using put_slot_surplus[OF okt, of h v j] h v sur[OF that] ft by auto
  have "handles_ok P ?u" by (rule put_slot_ok[OF okt]) (use h v k e ft sur2 pos in auto)
  then show ?thesis using sur2 e bump_local[OF b loc] by (simp add: kept_def all_local_def)
qed

lemma set_sft_filetab: "set_sft k f (set_filetab x s) = set_filetab x (set_sft k f s)"
  by (simp add: set_sft_def set_filetab_def)

lemma filetab_open:
  assumes "handles_ok P s" "h < maxfiles s"
  shows "h < length (filetab s)" "filetab s ! h \<noteq> 0xff \<Longrightarrow> unat (filetab s ! h) < nsft s"
  using assms unfolding handles_ok_def maxfiles_def filetab_def by auto

lemma get_sft_eq:
  "get_sft h s =
     (if h < maxfiles s \<and> filetab s ! h \<noteq> 0xff \<and> unat (filetab s ! h) < nsft s \<and>
         sft_count (sft_at s (unat (filetab s ! h))) \<noteq> 0
      then Some (unat (filetab s ! h)) else None,
      snd (get_sft h s)) \<and> same_refs s (snd (get_sft h s)) \<and>
   filetab (snd (get_sft h s)) = filetab s \<and> maxfiles (snd (get_sft h s)) = maxfiles s \<and>
   sft_at (snd (get_sft h s)) = sft_at s"
  by (simp add: get_sft_def idx_to_sft_eq get_sft_idx_def DE_INVLDHNDL_def)

lemma DosForceDup_kept:
  assumes L: "layers_ok L" and ok: "handles_ok P s" and loc: "all_local s"
    and n: "new < maxfiles s" "filetab s ! new = 0xff \<or> new < 0x8000" "old \<noteq> new"
    and c: "\<forall>k < nsft s. sft_count (sft_at s k) \<noteq> 0xffff"
  shows "\<exists>rc s1. DosForceDup L old new s = Inr (rc, s1) \<and> kept P (rc = SUCCESS) s s1 \<and>
    (rc = SUCCESS \<longrightarrow> filetab s1 = (filetab s)[new := filetab s ! old]) \<and>
    (filetab s ! new = 0xff \<longrightarrow> rc = SUCCESS \<or> rc = DE_INVLDHNDL)"
proof -
  obtain e s1 where g: "get_sft old s = (e, s1)" by (cases "get_sft old s")
  note gs = get_sft_eq[of old s, unfolded g snd_conv]
  have r1: "same_refs s s1" "filetab s1 = filetab s" "maxfiles s1 = maxfiles s" "sft_at s1 = sft_at s"
    using gs by auto
  have n1: "nsft s1 = nsft s" using r1(1) by (simp add: same_refs_def bump_def)
  have ok1: "handles_ok P s1" "all_local s1" and k1: "kept P g s s1" for g
    using same_refs_kept[OF r1(1) ok loc] by (auto simp: kept_def)
  show ?thesis
  proof (cases e)
    case None
    then show ?thesis using g k1 by (auto simp: DosForceDup_def DE_INVLDHNDL_def SUCCESS_def)
  next
    case (Some k)
    let ?b = "filetab s ! old"
    have o: "old < maxfiles s" "?b \<noteq> 0xff" "k = unat ?b" "k < nsft s" "sft_count (sft_at s k) \<noteq> 0"
      using gs Some by (auto split: if_splits)
    have len: "\<not> length (filetab s1) \<le> new" using filetab_open(1)[OF ok n(1)] r1 by simp
    obtain ret s2 where m: "(if filetab s1 ! new \<noteq> 0xff then DosClose L new s1 else Inr (SUCCESS, s1)) = Inr (ret, s2)"
      and kept2: "kept P (ret = SUCCESS) s1 s2" and free: "filetab s1 ! new = 0xff \<longrightarrow> ret = SUCCESS"
      and su: "ret = SUCCESS \<Longrightarrow> new < maxfiles s2 \<and> filetab s2 = (filetab s)[new := 0xff] \<and> sft_count (sft_at s2 k) \<noteq> 0xffff"
    proof (cases "filetab s1 ! new = 0xff")
      case True
      have lu: "(filetab s)[new := 0xff] = filetab s"
        using True r1 list_update_id[of "filetab s" new] by simp
      show thesis
        by (rule that[of SUCCESS s1]) (use True n c o r1 ok1 lu in \<open>auto simp: kept_def SUCCESS_def\<close>)
    next
      case False
      then have n8: "new < 0x8000" using n(2) r1 by simp
      from DosClose_kept[OF L ok1(1,2) n8] obtain rc t where t: "DosClose L new s1 = Inr (rc, t)"
        "kept P (rc = SUCCESS) s1 t"
        "rc = SUCCESS \<longrightarrow> filetab t = (filetab s1)[new := 0xff] \<and> maxfiles t = maxfiles s1 \<and>
           (\<forall>k < nsft s1. sft_count (sft_at t k) = sft_count (sft_at s1 k) - (if k = unat (filetab s1 ! new) then 1 else 0))"
        by blast
      have "sft_count (sft_at s k) - (if b then 1 else 0) \<noteq> 0xffff" for b
        using o(5) c o(4) by (auto simp: diff_eq_eq)
      then show thesis
        by (intro that[of rc t]) (use False t n o r1 n1 in auto)
    qed
    show ?thesis
    proof (cases "ret = SUCCESS")
      case False
      then have "DosForceDup L old new s = Inr (ret, s2)"
        using g Some len m by (simp add: DosForceDup_def)
      with False kept_mono[of P s1 s2 s] kept2 k1[of True] n1 free r1 show ?thesis by (auto simp: kept_def)
    next
      case True
      note s2 = su[OF True]
      have b2: "filetab s2 ! old = ?b" using s2 n(3) by simp
      let ?inc = "\<lambda>f. f\<lparr>sft_count := sft_count f + 1\<rparr>"
      let ?t = "set_sft k ?inc s2"
      have ok2: "handles_ok P s2" "all_local s2" "nsft s2 = nsft s" using kept2 n1 by (auto simp: kept_def)
      have k2: "k < nsft s2" using o(4) ok2(3) by simp
      have b: "bump k 1 s2 ?t" by (rule bump_set_sft[OF k2]) (simp_all add: is_local_def)
      have f: "new < maxfiles s2" "filetab s2 ! new = 0xff" "sft_count (sft_at s2 k) \<noteq> 0xffff"
        using s2 filetab_open(1)[OF ok n(1)] by simp_all
      have "kept P True s2 (set_filetab ((filetab ?t)[new := ?b]) ?t)"
        by (rule bump_attach[OF ok2(1,2) b k2 f(3) f(1,2) o(2) o(3)[symmetric]])
      moreover have "set_filetab ((filetab ?t)[new := ?b]) ?t = set_sft k ?inc (set_filetab ((filetab s2)[new := ?b]) s2)"
        by (simp add: set_sft_filetab)
      ultimately have kp: "kept P True s2 (set_sft k ?inc (set_filetab ((filetab s2)[new := ?b]) s2))" by simp
      have "DosForceDup L old new s = Inr (SUCCESS, set_sft k ?inc (set_filetab ((filetab s2)[new := ?b]) s2))"
        using g Some len m True b2 by (simp add: DosForceDup_def)
      with kept_trans[OF k1[of True] kept_trans[OF _ kp]] kept2 True s2 show ?thesis by simp
    qed
  qed
qed

lemma find_ff_Some: "find_ff bs = Some h \<Longrightarrow> h < length bs \<and> bs ! h = 0xff \<and> (\<forall>j < h. bs ! j \<noteq> 0xff)"
  by (induction bs arbitrary: h) (auto split: if_splits simp: nth_Cons')

lemma get_free_hndl_Some:
  assumes "get_free_hndl s = h" "0 \<le> h"
  shows "nat h < maxfiles s" "filetab s ! nat h = 0xff" "\<forall>j < nat h. filetab s ! j \<noteq> 0xff" "int (nat h) = h"
  using assms find_ff_Some[of "take (maxfiles s) (filetab s)"]
  by (auto simp: get_free_hndl_def DE_TOOMANY_def split: option.splits)

section \<open>Opening\<close>

lemma open_result_facts:
  assumes "k < 255" "0 \<le> st"
  shows "0 \<le> open_result k st" "word_of_int (open_result k st) = (word_of_nat k :: 8 word)"
proof -
  show "0 \<le> open_result k st" using assms(2) by (simp add: open_result_def or_nonnegative_int_iff)
  have "take_bit 8 (open_result k st) = take_bit 8 (int k)"
    by (rule bit_eqI) (auto simp: open_result_def bit_simps)
  then have "(word_of_int (open_result k st) :: 8 word) = word_of_int (int k)"
    unfolding word_of_int_eq_iff by simp
  then show "word_of_int (open_result k st) = (word_of_nat k :: 8 word)" by simp
qed

lemma drive_flags_local:
  assumes "0 \<le> sint (c :: 8 word) - 0x41"
  shows "(scast c - 0x41 :: 16 word) AND SFT_FSHARED = 0"
proof -
  let ?v = "scast c - 0x41 :: 16 word"
  have c: "sint c < 128" using sint_lt[of c] by simp
  have "?v = word_of_int (sint c - 0x41)" by simp
  then have "uint ?v = (sint c - 0x41) mod 2 ^ 16" by (simp only: uint_word_of_int) simp
  then have "uint ?v = sint c - 0x41" using assms c by simp
  then have "?v < 0x8000" using c by (simp add: word_less_alt)
  then have m: "?v AND mask 15 = ?v" by (intro less_mask_eq) simp
  have "?v AND SFT_FSHARED = (?v AND mask 15) AND SFT_FSHARED" by (simp only: m)
  also have "\<dots> = ?v AND (mask 15 AND SFT_FSHARED)" by (rule and.assoc)
  also have "mask 15 AND SFT_FSHARED = 0" by (simp add: SFT_FSHARED_def mask_eq_exp_minus_1)
  finally show ?thesis by simp
qed

text \<open>What an open leaves behind: either it failed, and at most one entry that was free is left
  open, or it opened the free entry it names.\<close>

definition open_outcome :: "int \<Rightarrow> 'w kernel \<Rightarrow> 'w kernel \<Rightarrow> bool" where
  "open_outcome r s t \<longleftrightarrow>
     (\<exists>k < nsft s. sft_count (sft_at s k) = 0 \<and> bump k 1 s t \<and>
        (0 \<le> r \<longrightarrow> word_of_int r = (word_of_nat k :: 8 word))) \<or>
     r < 0 \<and> same_refs s t"

lemma DeviceOpenSft_outcome:
  assumes L: "layers_ok L" and k: "k < nsft s"
  shows "\<exists>rc t. DeviceOpenSft L d k s = (rc, t) \<and> bump k 1 s t \<and> (rc = SUCCESS \<or> rc = DE_ACCESS)"
proof -
  obtain dhp h where d: "d = (dhp, h)" by (cases d)
  define t where "t = set_sft k (\<lambda>f. f\<lparr>sft_shroff := -1, sft_count := sft_count f + 1,
      sft_flags := (dh_attr h AND NOT (SFT_MASK OR SFT_FSHARED)) OR SFT_FDEVICE OR SFT_FEOF,
      sft_name := map (L_upcase L) (rev (pad_back (rev (dh_name h @ drop 8 (sft_name f))))),
      sft_dev := dhp, sft_date := L_getdate L s, sft_time := L_gettime L s, sft_attrib := 0x40\<rparr>) s"
  have "((x AND NOT (SFT_MASK OR SFT_FSHARED)) OR SFT_FDEVICE OR SFT_FEOF) AND SFT_FSHARED = 0" for x
  proof (rule bit_word_eqI)
    fix n assume "n < LENGTH(16)"
    have "n = 15" if "bit SFT_FSHARED n"
      using that bit_exp_iff[of 15 n, where ?'a = "16 word"] by (simp add: SFT_FSHARED_def)
    then show "bit (((x AND NOT (SFT_MASK OR SFT_FSHARED)) OR SFT_FDEVICE OR SFT_FEOF) AND SFT_FSHARED) n = bit 0 n"
      by (auto simp: bit_simps) (auto simp: sft_flag_defs)
  qed
  then have b: "bump k 1 s t" unfolding t_def by (intro bump_set_sft[OF k]) (simp_all add: is_local_def)
  have "DeviceOpenSft L d k s =
      (if dh_attr h AND SFT_FOCRM \<noteq> 0 then
         (case L_char_io L dhp 0 0 C_OPEN t of (rc, s2) \<Rightarrow> (if rc \<noteq> SUCCESS then DE_ACCESS else SUCCESS, s2))
       else (SUCCESS, t))"
    by (simp add: DeviceOpenSft_def d t_def Let_def)
  moreover obtain rc s2 where io: "L_char_io L dhp 0 0 C_OPEN t = (rc, s2)" by (cases "L_char_io L dhp 0 0 C_OPEN t")
  ultimately show ?thesis using b bump_then_same[OF b layers_okD(4)[OF L io]] by auto
qed

lemma on_share_same:
  "on_share f s = Inr (r, t) \<Longrightarrow> same_refs s t \<and> nsft t = nsft s \<and> sft_at t = sft_at s"
  by (auto simp: on_share_def split: prod.splits)

lemma open_disk_outcome:
  assumes L: "layers_ok L" and k: "k < nsft s" "k < 255" "sft_count (sft_at s k) = 0"
    and r: "open_disk L flags attrib k s = Inr (r, t)"
  shows "open_outcome r s t"
proof -
  let ?c = "first_char (PriPathName s)" and ?d = "sint (first_char (PriPathName s)) - 0x41"
  have fail: "open_outcome r s t" if "r < 0" "same_refs s t" using that by (simp add: open_outcome_def)
  consider "2 < flags AND 3" | "\<not> 2 < flags AND 3" "flags AND 0x8000 = 0 \<and> attrib AND NOT 0x2f \<noteq> 0"
    | "\<not> 2 < flags AND 3" "\<not> (flags AND 0x8000 = 0 \<and> attrib AND NOT 0x2f \<noteq> 0)" by blast
  then show ?thesis
  proof cases
    case 1
    with r show ?thesis by (intro fail) (auto simp: open_disk_def DE_INVLDACC_def)
  next
    case 2
    with r show ?thesis by (intro fail) (auto simp: open_disk_def DE_ACCESS_def)
  next
    case 3
    show ?thesis
    proof (cases "if ?d < 0 then None else get_cds (nat ?d) s")
      case None
      with 3 r show ?thesis by (intro fail) (auto simp: open_disk_def Let_def DE_ACCESS_def)
    next
      case (Some c)
      show ?thesis
      proof (cases "cdsDpb (CDSp s ! c) = 0")
        case True
        with 3 Some r show ?thesis by (intro fail) (auto simp: open_disk_def Let_def DE_ACCESS_def)
      next
        case False
        let ?o = "on_share (share_open_file (PriPathName s) (cu_psp s) (flags AND 3) (drop_bit 4 flags AND 7)
                  (attrib AND 1 \<noteq> 0) (dpb_device s (cdsDpb (CDSp s ! c))) 0x3d) s"
        have eq: "open_disk L flags attrib k s = bindE ?o (\<lambda>(n, s1).
            let s2 = set_sft k (\<lambda>f. f\<lparr>sft_shroff := n\<rparr>) s1 in
            if n < 0 then Inr (n, s2)
            else let s3 = set_sft k (\<lambda>f. f\<lparr>sft_count := sft_count f + 1, sft_flags := scast ?c - 0x41\<rparr>) s2
              in case L_dos_open L (PriPathName s) flags attrib k s3 of (result, s4) \<Rightarrow>
                if result < 0 then
                  Inr (result, set_sft k (\<lambda>f. f\<lparr>sft_count := sft_count f - 1\<rparr>) (close_share k s4))
                else Inr (open_result k result, s4))"
          unfolding open_disk_def Let_def if_not_P[OF 3(1)] if_not_P[OF 3(2)] Some option.case if_not_P[OF False]
          by (rule refl)
        with r obtain n s1 where o: "?o = Inr (n, s1)" by (cases ?o) auto
        let ?s2 = "set_sft k (\<lambda>f. f\<lparr>sft_shroff := n\<rparr>) s1"
        note os = on_share_same[OF o]
        have s2: "same_refs s ?s2" "k < nsft ?s2" "nsft ?s2 = nsft s"
          using os k same_refs_set_sft[of k s1 "\<lambda>f. f\<lparr>sft_shroff := n\<rparr>"] same_refs_trans
          by (auto simp: is_local_def)
        show ?thesis
        proof (cases "n < 0")
          case True
          with r eq o s2 show ?thesis by (intro fail) (auto simp: Let_def)
        next
          case nn: False
          let ?s3 = "set_sft k (\<lambda>f. f\<lparr>sft_count := sft_count f + 1, sft_flags := scast ?c - 0x41\<rparr>) ?s2"
          have d0: "0 \<le> ?d" using Some by (simp split: if_splits)
          have "bump k 1 ?s2 ?s3"
            by (rule bump_set_sft[OF s2(2)]) (simp_all add: is_local_def drive_flags_local[OF d0])
          then have b3: "bump k 1 s ?s3" by (rule same_then_bump[OF s2(1)])
          obtain result s4 where lo: "L_dos_open L (PriPathName s) flags attrib k ?s3 = (result, s4)"
            by (cases "L_dos_open L (PriPathName s) flags attrib k ?s3")
          have b4: "bump k 1 s s4" by (rule bump_then_same[OF b3 layers_okD(2)[OF L lo]])
          then have k4: "k < nsft s4" using k by (simp add: bump_def)
          show ?thesis
          proof (cases "result < 0")
            case False
            then have "r = open_result k result" "t = s4" using r eq o nn lo by (auto simp: Let_def)
            with b4 k open_result_facts[OF k(2), of result] False show ?thesis by (auto simp: open_outcome_def)
          next
            case True
            let ?cl = "close_share k s4"
            have c4: "bump k 1 s ?cl" by (rule bump_then_same[OF b4 close_share_refs[OF k4]])
            then have "k < nsft ?cl" using k by (simp add: bump_def)
            then have "bump k (-1) ?cl (set_sft k (\<lambda>f. f\<lparr>sft_count := sft_count f - 1\<rparr>) ?cl)"
              by (rule bump_set_sft) (simp_all add: is_local_def)
            from bump_trans[OF c4 this] have "same_refs s (set_sft k (\<lambda>f. f\<lparr>sft_count := sft_count f - 1\<rparr>) ?cl)"
              using same_refs_bump[of s _ k] by simp
            with True r eq o nn lo show ?thesis by (intro fail) (auto simp: Let_def)
          qed
        qed
      qed
    qed
  qed
qed

lemma open_outcome_trans: "same_refs s t \<Longrightarrow> open_outcome r t u \<Longrightarrow> open_outcome r s u"
  unfolding open_outcome_def
  using same_refs_trans[of s t u] same_then_bump[of s t _ 1 u]
  by (auto simp: same_refs_def bump_def[of 0 0])

lemma DosOpenSft_outcome:
  assumes L: "layers_ok L" and n: "nsft s \<le> 255" and net: "fst (L_truename L fname s) AND IS_NETWORK = 0"
    and r: "DosOpenSft L fname flags attrib0 s = Inr (r, t)"
  shows "open_outcome r s t"
proof -
  obtain res s1 where tn: "L_truename L fname s = (res, s1)" by (cases "L_truename L fname s")
  note t1 = layers_okD(1)[OF L tn]
  have fr: "same_refs s (set_fcbname L s1)"
    using same_refs_trans[OF t1] by (simp add: set_fcbname_def)
  show ?thesis
  proof (cases "res < SUCCESS")
    case True
    with r tn t1 show ?thesis by (simp add: DosOpenSft_def open_outcome_def SUCCESS_def)
  next
    case False
    let ?f = "set_fcbname L s1"
    show ?thesis
    proof (cases "free_in_block (concat (sft_tbl ?f)) 0")
      case None
      with r tn False fr show ?thesis
        by (simp add: DosOpenSft_def get_free_sft_eq open_outcome_def DE_TOOMANY_def)
    next
      case (Some k)
      let ?s2 = "?f\<lparr>current_sft_idx := k\<rparr>" and ?a = "attrib0 OR 0x20"
      let ?z = "\<lambda>_::sft_t. sft_zero\<lparr>sft_psp := cu_psp ?s2, sft_mode := flags AND 0xf0ff,
                     sft_shroff := -1, sft_attrib := ucast ?a\<rparr>"
      let ?s3 = "set_sft k ?z (?s2\<lparr>OpenMode := ucast flags\<rparr>)"
      have k: "k < nsft ?f" "sft_count (sft_at ?f k) = 0"
        using free_in_block_Some[OF Some] by (simp_all add: nsft_def sft_at_def)
      have "same_refs (?s2\<lparr>OpenMode := ucast flags\<rparr>) ?s3"
        by (rule same_refs_set_sft) (use k in \<open>simp_all add: sft_zero_def is_local_def\<close>)
      then have s3: "same_refs ?f ?s3"
        by (rule same_refs_trans[OF same_refs_trans[OF same_refs_frame(2) same_refs_frame(4)]])
      then have k3: "k < nsft ?s3" "k < 255" "sft_count (sft_at ?s3 k) = 0"
        using k n fr by (auto simp: same_refs_def bump_def sft_zero_def)
      have nn: "\<not> res AND IS_NETWORK \<noteq> 0" using net tn by simp
      note eq = r[unfolded DosOpenSft_def tn prod.case if_not_P[OF False] get_free_sft_eq Some option.case Let_def]
      have "open_outcome r ?s3 t"
      proof (cases "res AND IS_DEVICE \<noteq> 0 \<and> IsDevice L fname ?s3 \<noteq> None")
        case True
        from DeviceOpenSft_outcome[OF L k3(1), of "the (IsDevice L fname ?s3)"] obtain rc s4 where
          d: "DeviceOpenSft L (the (IsDevice L fname ?s3)) k ?s3 = (rc, s4)" "bump k 1 ?s3 s4"
            "rc = SUCCESS \<or> rc = DE_ACCESS" by blast
        from eq[unfolded if_not_P[OF nn] if_P[OF True] d(1)]
        have "r = (if rc < SUCCESS then rc else int k)" "t = s4" by simp_all
        then show ?thesis using d(2,3) k3
          by (auto simp: open_outcome_def SUCCESS_def DE_ACCESS_def)
      next
        case False
        from eq[unfolded if_not_P[OF nn] if_not_P[OF False]]
        have "open_disk L flags ?a k ?s3 = Inr (r, t)" .
        then show ?thesis by (rule open_disk_outcome[OF L k3])
      qed
      then show ?thesis using open_outcome_trans same_refs_trans[OF fr s3] by blast
    qed
  qed
qed

lemma DosOpen_kept:
  assumes L: "layers_ok L" and ok: "handles_ok P s" and loc: "all_local s"
    and net: "fst (L_truename L fname s) AND IS_NETWORK = 0"
    and r: "DosOpen L fname mode attrib s = Inr (r, t)"
  shows "kept P (0 \<le> r) s t"
proof -
  have n: "nsft s \<le> 255" using ok by (simp add: handles_ok_def)
  have same: "same_refs s s" by simp
  show ?thesis
  proof (cases "mode AND NOT 0xfff3 \<noteq> 0 \<or> get_free_hndl s < 0")
    case True
    with r have "t = s" by (auto simp: DosOpen_def Let_def split: if_splits)
    then show ?thesis using same_refs_kept[OF same ok loc] by simp
  next
    case False
    let ?h = "get_free_hndl s"
    have h: "nat ?h < maxfiles s" "filetab s ! nat ?h = 0xff" "int (nat ?h) = ?h"
      using get_free_hndl_Some[of s ?h] False by auto
    from r False obtain res s1 where o: "DosOpenSft L fname mode attrib s = Inr (res, s1)"
      by (cases "DosOpenSft L fname mode attrib s") (auto simp: DosOpen_def Let_def)
    note out = DosOpenSft_outcome[OF L n net o]
    show ?thesis
    proof (cases "res < SUCCESS")
      case True
      with r False o have rt: "r = res" "t = s1" by (simp_all add: DosOpen_def Let_def)
      from out show ?thesis unfolding open_outcome_def rt
      proof (elim disjE exE conjE)
        fix k assume k: "k < nsft s" "sft_count (sft_at s k) = 0" and b: "bump k 1 s s1"
        have sur: "surplus P s1 j = surplus P s j + (if j = k then 1 else 0)" if "j < nsft s" for j
          using bump_surplus[OF b that, of P] k by (auto simp: surplus_def)
        have "handles_ok P s1"
          by (rule bump_ok[OF b ok]) (use sur ok in \<open>auto simp: handles_ok_def\<close>)
        then show "kept P (0 \<le> res) s s1"
          using True sur bump_local[OF b loc] b by (simp add: kept_def bump_def SUCCESS_def)
      next
        assume "same_refs s s1"
        from same_refs_kept[OF this ok loc] show "kept P (0 \<le> res) s s1" .
      qed
    next
      case res: False
      then obtain k where k: "k < nsft s" "sft_count (sft_at s k) = 0" "bump k 1 s s1"
        "word_of_int res = (word_of_nat k :: 8 word)"
        using out by (auto simp: open_outcome_def SUCCESS_def)
      have rr: "r = ?h OR (res AND 0xffff0000)" "t = set_filetab ((filetab s1)[nat ?h := word_of_nat k]) s1"
        using r False o res k(4) by (simp_all add: DosOpen_def Let_def)
      have w: "unat (word_of_nat k :: 8 word) = k" using k(1) n by (simp add: unat_of_nat take_bit_nat_eq_self)
      have "(word_of_nat k :: 8 word) \<noteq> 0xff"
      proof
        assume "(word_of_nat k :: 8 word) = 0xff"
        with w have "k = 255" by simp
        with k(1) n show False by simp
      qed
      from bump_attach[OF ok loc k(3,1) _ h(1,2) this w] k(2) have "kept P True s t" by (simp add: rr)
      then show ?thesis by (auto simp: kept_def)
    qed
  qed
qed

lemma DosDup_kept:
  assumes L: "layers_ok L" and ok: "handles_ok P s" and loc: "all_local s"
    and c: "\<forall>k < nsft s. sft_count (sft_at s k) \<noteq> 0xffff"
  shows "\<exists>r t. DosDup L h s = Inr (r, t) \<and> kept P (0 \<le> r) s t"
proof (cases "get_free_hndl s < 0")
  case True
  then show ?thesis using same_refs_kept[OF same_refs_refl ok loc] by (auto simp: DosDup_def Let_def)
next
  case False
  let ?n = "get_free_hndl s"
  have n: "nat ?n < maxfiles s" "filetab s ! nat ?n = 0xff" using get_free_hndl_Some[of s ?n] False by auto
  show ?thesis
  proof (cases "fst (get_sft h s)")
    case None
    then have "DosForceDup L h (nat ?n) s = Inr (DE_INVLDHNDL, snd (get_sft h s))"
      by (cases "get_sft h s") (simp add: DosForceDup_def)
    with False same_refs_kept[of s "snd (get_sft h s)", OF _ ok loc] get_sft_eq[of h s]
    show ?thesis by (auto simp: DosDup_def Let_def DE_INVLDHNDL_def)
  next
    case (Some k)
    then have "h \<noteq> nat ?n" using get_sft_eq[of h s] n by (cases "get_sft h s") (auto split: if_splits)
    from DosForceDup_kept[OF L ok loc n(1) _ this c] n obtain rc s1 where
      f: "DosForceDup L h (nat ?n) s = Inr (rc, s1)" "kept P (rc = SUCCESS) s s1"
        "rc = SUCCESS \<or> rc = DE_INVLDHNDL" using n(2) by auto
    have "kept P (0 \<le> (if rc < 0 then DE_INVLDHNDL else ?n)) s s1"
      using f(2,3) False by (auto simp: SUCCESS_def DE_INVLDHNDL_def)
    then show ?thesis using f(1) False by (simp add: DosDup_def Let_def)
  qed
qed

text \<open>A close that returns, whatever the number of the handle.\<close>

lemma DosClose_any:
  assumes L: "layers_ok L" and ok: "handles_ok P s" and loc: "all_local s" and r: "DosClose L h s = Inr (r, t)"
  shows "kept P (r = SUCCESS) s t"
proof (cases "h < 0x8000")
  case True
  then show ?thesis using DosClose_kept[OF L ok loc True] r by auto
next
  case False
  obtain e s1 where i: "idx_to_sft (get_sft_idx h s) s = (e, s1)" by (cases "idx_to_sft (get_sft_idx h s) s")
  have "same_refs s s1" using i by (auto simp: idx_to_sft_eq split: if_splits)
  moreover have "t = s1" using r i False by (cases e) (simp_all add: DosClose_def Let_def)
  ultimately show ?thesis using same_refs_kept[OF _ ok loc] by blast
qed

text \<open>A count that goes up while no handle comes to refer to the entry.\<close>

lemma bump_unused:
  assumes ok: "handles_ok P s" and loc: "all_local s" and b: "bump k 1 s t" and k: "k < nsft s" and c: "sft_count (sft_at s k) \<noteq> 0xffff"
  shows "kept P False s t"
proof -
  have sur: "surplus P t j = surplus P s j + (if j = k then 1 else 0)" if "j < nsft s" for j
    using bump_surplus[OF b that, of P] unat_inc[OF c] by (auto simp: surplus_def)
  have "handles_ok P t" by (rule bump_ok[OF b ok]) (use sur ok in \<open>auto simp: handles_ok_def\<close>)
  then show ?thesis using sur bump_local[OF b loc] b by (simp add: kept_def bump_def)
qed

text \<open>Slots at and beyond \<open>ps_maxfiles\<close> are no handles.\<close>

lemma put_beyond:
  assumes ok: "handles_ok P s" and loc: "all_local s" and h: "maxfiles s \<le> h"
  shows "kept P True s (set_filetab ((filetab s)[h := v]) s)"
proof -
  let ?t = "set_filetab ((filetab s)[h := v]) s"
  have nth: "ps_filetab (psps ?t p) ! j = ps_filetab (psps s p) ! j" if "j < ps_maxfiles (psps s p)" for p j
    using h that by (auto simp: set_filetab_def filetab_def maxfiles_def)
  have mx: "ps_maxfiles (psps ?t p) = ps_maxfiles (psps s p)" "length (ps_filetab (psps ?t p)) = length (ps_filetab (psps s p))" for p
    by (simp_all add: set_filetab_def filetab_def)
  have "open_slots (psps ?t p) k = open_slots (psps s p) k" for p k
    using nth[of _ p] by (auto simp: open_slots_def mx)
  then have sur: "surplus P ?t k = surplus P s k" for k by (simp add: surplus_def refs_def)
  have "handles_ok P ?t" using ok nth unfolding handles_ok_def mx by (simp add: sur)
  then show ?thesis using sur loc by (simp add: kept_def all_local_def)
qed

lemma put_same_slot: "filetab s ! h = v \<Longrightarrow> set_filetab ((filetab s)[h := v]) s = s"
  by (cases s) (auto simp: set_filetab_def filetab_def)

lemma inc_count_unused:
  assumes k: "kept P g s u" and ok: "k < nsft s" "sft_count (sft_at u k) \<noteq> 0xffff"
  shows "kept P False s (set_sft k (\<lambda>f. f\<lparr>sft_count := sft_count f + 1\<rparr>) u)"
proof -
  have u: "handles_ok P u" "all_local u" "nsft u = nsft s" using k by (simp_all add: kept_def)
  have ku: "k < nsft u" using ok u(3) by simp
  have "bump k 1 u (set_sft k (\<lambda>f. f\<lparr>sft_count := sft_count f + 1\<rparr>) u)" by (rule bump_set_sft[OF ku]) (simp_all add: is_local_def)
  from bump_unused[OF u(1,2) this ku ok(2)] have "kept P False u (set_sft k (\<lambda>f. f\<lparr>sft_count := sft_count f + 1\<rparr>) u)" .
  moreover have "kept P False s u" using k by (simp add: kept_def)
  ultimately show ?thesis using kept_trans by blast
qed

lemma DosForceDup_any:
  assumes L: "layers_ok L" and ok: "handles_ok P s" and loc: "all_local s"
    and c: "\<forall>k < nsft s. sft_count (sft_at s k) \<noteq> 0xffff" and r: "DosForceDup L old new s = Inr (r, t)"
  shows "kept P (r = SUCCESS \<and> old \<noteq> new \<and> new < maxfiles s) s t"
proof (cases "new < maxfiles s \<and> old \<noteq> new \<and> (filetab s ! new = 0xff \<or> new < 0x8000)")
  case True
  then show ?thesis using DosForceDup_kept[OF L ok loc, of new old] c r by auto
next
  case nb: False
  obtain e s1 where g: "get_sft old s = (e, s1)" by (cases "get_sft old s")
  note gs = get_sft_eq[of old s, unfolded g snd_conv]
  have r1: "same_refs s s1" "filetab s1 = filetab s" "maxfiles s1 = maxfiles s" "sft_at s1 = sft_at s" using gs by auto
  have k1: "kept P b s s1" for b using same_refs_kept[OF r1(1) ok loc] .
  have ok1: "handles_ok P s1" "all_local s1" "nsft s1 = nsft s" using k1[of True] by (simp_all add: kept_def)
  show ?thesis
  proof (cases e)
    case None
    then show ?thesis using r g k1 by (simp add: DosForceDup_def)
  next
    case (Some k)
    have o: "old < maxfiles s" "k = unat (filetab s ! old)" "k < nsft s" "sft_count (sft_at s k) \<noteq> 0"
      using gs Some by (auto split: if_splits)
    let ?m = "if filetab s1 ! new \<noteq> 0xff then DosClose L new s1 else Inr (SUCCESS, s1)"
    obtain ret s2 where m: "?m = Inr (ret, s2)"
      using r g Some by (cases ?m) (auto simp: DosForceDup_def split: if_splits)
    have k2: "kept P (ret = SUCCESS) s1 s2"
      using m DosClose_any[OF L ok1(1,2)] same_refs_kept[OF same_refs_refl ok1(1,2)] by (auto split: if_splits)
    then have k02: "kept P (ret = SUCCESS) s s2" using kept_trans[OF k1] by blast
    have rt: "(r, t) = (if ret \<noteq> SUCCESS then (ret, s2) else (SUCCESS,
        set_sft k (\<lambda>f. f\<lparr>sft_count := sft_count f + 1\<rparr>) (set_filetab ((filetab s2)[new := filetab s2 ! old]) s2)))"
      using r g Some m by (auto simp: DosForceDup_def split: if_splits)
    show ?thesis
    proof (cases "ret = SUCCESS")
      case False
      then show ?thesis using rt k02 by (simp add: kept_def)
    next
      case suc: True
      then have t: "t = set_sft k (\<lambda>f. f\<lparr>sft_count := sft_count f + 1\<rparr>) (set_filetab ((filetab s2)[new := filetab s2 ! old]) s2)"
        using rt by simp
      have high: "new < 0x8000" if "filetab s1 ! new \<noteq> 0xff"
      proof (rule ccontr)
        assume h: "\<not> new < 0x8000"
        have "DosClose L new s1 = Inr (SUCCESS, s2)" using that m suc by simp
        with h show False
          by (cases "idx_to_sft (get_sft_idx new s1) s1")
            (auto simp: DosClose_def Let_def DE_INVLDHNDL_def SUCCESS_def split: option.splits)
      qed
      have hi: "old = new" if "new < maxfiles s" using that nb high r1(2) by auto
      have "kept P False s t"
      proof (cases "new < maxfiles s")
        case False
        have "filetab s1 ! new = 0xff"
        proof (rule ccontr)
          assume "filetab s1 ! new \<noteq> 0xff"
          then have "DosClose L new s1 = Inr (ret, s2)" using m by simp
          then have "ret = DE_INVLDHNDL" using False r1(3)
            by (auto simp: DosClose_def Let_def get_sft_idx_def idx_to_sft_eq DE_INVLDHNDL_def)
          then show False using suc by (simp add: DE_INVLDHNDL_def SUCCESS_def)
        qed
        then have s2: "s2 = s1" using m by simp
        have "kept P True s1 (set_filetab ((filetab s1)[new := filetab s1 ! old]) s1)"
          by (rule put_beyond[OF ok1(1,2)]) (use False r1(3) in simp)
        from kept_trans[OF k1 this] show ?thesis
          unfolding t s2 by (rule inc_count_unused) (use o c r1 in simp_all)
      next
        case True
        have hi: "old = new" using hi[OF True] .
        then have occ: "filetab s1 ! new \<noteq> 0xff" using gs Some r1(2) by (auto split: if_splits)
        then have cl: "DosClose L new s1 = Inr (SUCCESS, s2)" using m suc by simp
        have n8: "new < 0x8000" using high[OF occ] .
        have d: "filetab s2 = (filetab s1)[new := 0xff]"
          "sft_count (sft_at s2 k) = sft_count (sft_at s1 k) - (if k = unat (filetab s1 ! new) then 1 else 0)"
          using DosClose_kept[OF L ok1(1,2) n8] cl o(3) ok1(3) by auto
        have "new < length (filetab s1)" using filetab_open(1)[OF ok1(1)] True r1(3) by simp
        then have ff: "filetab s2 ! old = 0xff" "filetab s2 ! new = 0xff" using d(1) hi by simp_all
        have cnt: "sft_count (sft_at s2 k) \<noteq> 0xffff" using d(2) o(4) r1(4) o(3) c by (auto simp: diff_eq_eq)
        show ?thesis unfolding t ff(1) put_same_slot[OF ff(2)]
          by (rule inc_count_unused[OF k02 o(3) cnt])
      qed
      moreover have e: "(r = SUCCESS \<and> old \<noteq> new \<and> new < maxfiles s) = False" using hi by blast
      ultimately show ?thesis unfolding e by blast
    qed
  qed
qed

section \<open>Inheriting\<close>

definition slots_of :: "8 word list \<Rightarrow> nat \<Rightarrow> nat set" where
  "slots_of t k = {i. i < length t \<and> t ! i \<noteq> 0xff \<and> unat (t ! i) = k}"

lemma slots_finite [simp]: "finite (slots_of t k)"
  by (rule finite_subset[of _ "{..<length t}"]) (auto simp: slots_of_def)

lemma slots_put:
  "i < length t \<Longrightarrow> t ! i = 0xff \<Longrightarrow> v \<noteq> 0xff \<Longrightarrow>
   slots_of (t[i := v]) k = (if unat v = k then insert i (slots_of t k) else slots_of t k)"
  by (auto simp: slots_of_def nth_list_update)

lemma CloneHandle_cases:
  "\<exists>rc s1. CloneHandle h s = (rc, s1) \<and>
     (rc = DE_INVLDHNDL \<and> same_refs s s1 \<or>
      rc = SUCCESS \<and> h < maxfiles s \<and> filetab s ! h \<noteq> 0xff \<and> unat (filetab s ! h) < nsft s \<and>
        bump (unat (filetab s ! h)) 1 s s1)"
proof -
  obtain e s1 where g: "get_sft h s = (e, s1)" by (cases "get_sft h s")
  note gs = get_sft_eq[of h s, unfolded g snd_conv]
  then have s1: "same_refs s s1" by simp
  then have n1: "nsft s1 = nsft s" by (simp add: same_refs_def bump_def)
  show ?thesis
  proof (cases e)
    case None
    with g s1 show ?thesis by (simp add: CloneHandle_def)
  next
    case (Some k)
    then have k: "h < maxfiles s" "filetab s ! h \<noteq> 0xff" "k = unat (filetab s ! h)" "k < nsft s"
      using gs by (auto split: if_splits)
    have "bump k 1 s1 (set_sft k (\<lambda>f. f\<lparr>sft_count := sft_count f + 1\<rparr>) s1)"
      by (rule bump_set_sft) (use k n1 in \<open>simp_all add: is_local_def\<close>)
    with g s1 Some k same_then_bump[OF s1] show ?thesis
      by (auto simp: CloneHandle_def)
  qed
qed

lemma inherit_handles_ok:
  assumes "distinct is" "\<forall>i \<in> set is. i < length p \<and> p ! i = 0xff"
    and "\<forall>k < nsft s. unat (sft_count (sft_at s k)) + length is < 0xffff" "q = filetab s"
  shows "\<exists>t s1. inherit_handles is q p s = (t, s1) \<and> length t = length p \<and>
    psps s1 = psps s \<and> cu_psp s1 = cu_psp s \<and> nsft s1 = nsft s \<and>
    (\<forall>i < length t. t ! i \<noteq> p ! i \<longrightarrow> unat (t ! i) < nsft s) \<and>
    (\<forall>k < nsft s. (is_local (sft_at s k) \<longrightarrow> is_local (sft_at s1 k)) \<and>
       int (unat (sft_count (sft_at s1 k))) - int (card (slots_of t k)) =
       int (unat (sft_count (sft_at s k))) - int (card (slots_of p k)))"
  using assms
proof (induction "is" arbitrary: p s)
  case (Cons i "is")
  obtain rc s1 where c: "CloneHandle i s = (rc, s1)" and
    d: "rc = DE_INVLDHNDL \<and> same_refs s s1 \<or>
      rc = SUCCESS \<and> i < maxfiles s \<and> filetab s ! i \<noteq> 0xff \<and> unat (filetab s ! i) < nsft s \<and>
        bump (unat (filetab s ! i)) 1 s s1"
    using CloneHandle_cases[of i s] by blast
  define p1 where "p1 = (if 0 \<le> rc then p[i := q ! i] else p)"
  define d1 :: "16 word" where "d1 = (if rc = SUCCESS then 1 else 0)"
  define k1 where "k1 = unat (filetab s ! i)"
  have b: "bump k1 d1 s s1"
    using d by (auto simp: d1_def k1_def same_refs_bump[of s s1 k1] DE_INVLDHNDL_def SUCCESS_def)
  have e: "psps s1 = psps s" "cu_psp s1 = cu_psp s" "nsft s1 = nsft s" "q = filetab s1"
    using b Cons.prems(4) by (simp_all add: bump_def filetab_def)
  have i: "i < length p" "p ! i = 0xff" "i \<notin> set is" using Cons.prems(1,2) by auto
  have p1: "length p1 = length p" "\<forall>j \<in> set is. j < length p1 \<and> p1 ! j = 0xff"
    "\<forall>j < length p. p1 ! j \<noteq> p ! j \<longrightarrow> unat (p1 ! j) < nsft s"
    using Cons.prems i d by (auto simp: p1_def nth_list_update DE_INVLDHNDL_def)
  have cnt: "(is_local (sft_at s k) \<longrightarrow> is_local (sft_at s1 k)) \<and>
      int (unat (sft_count (sft_at s1 k))) = int (unat (sft_count (sft_at s k))) + (if rc = SUCCESS \<and> k = k1 then 1 else 0)"
    if k: "k < nsft s" for k
  proof -
    have "unat (sft_count (sft_at s k)) < 0xffff" using Cons.prems(3) k by auto
    then have "sft_count (sft_at s k) \<noteq> 0xffff" by auto
    with b k unat_inc[OF this] show ?thesis by (auto simp: bump_def d1_def)
  qed
  have sl: "int (card (slots_of p1 k)) = int (card (slots_of p k)) + (if rc = SUCCESS \<and> k = k1 then 1 else 0)" for k
  proof (cases "rc = SUCCESS")
    case True
    then have "q ! i \<noteq> 0xff" "p1 = p[i := q ! i]" using d Cons.prems(4) by (auto simp: p1_def SUCCESS_def DE_INVLDHNDL_def)
    moreover have "i \<notin> slots_of p k" using i by (simp add: slots_of_def)
    ultimately show ?thesis using slots_put[OF i(1,2), of "q ! i" k] True Cons.prems(4) by (auto simp: k1_def)
  next
    case False
    then have "p1 = p" using d by (auto simp: p1_def DE_INVLDHNDL_def)
    then show ?thesis using False by simp
  qed
  have "\<forall>k < nsft s1. unat (sft_count (sft_at s1 k)) + length is < 0xffff"
  proof (intro allI impI)
    fix k assume "k < nsft s1"
    then have "k < nsft s" using e by simp
    note k = this
    have "int (unat (sft_count (sft_at s1 k))) \<le> int (unat (sft_count (sft_at s k))) + 1"
      unfolding conjunct2[OF cnt[OF k]] by simp
    then have "unat (sft_count (sft_at s1 k)) \<le> unat (sft_count (sft_at s k)) + 1" by linarith
    moreover have "unat (sft_count (sft_at s k)) + Suc (length is) < 0xffff" using Cons.prems(3) k by simp
    ultimately show "unat (sft_count (sft_at s1 k)) + length is < 0xffff" by linarith
  qed
  from Cons.IH[OF _ p1(2) this e(4)] Cons.prems(1) obtain t u where
    u: "inherit_handles is q p1 s1 = (t, u)" "length t = length p1" "psps u = psps s1" "cu_psp u = cu_psp s1"
      "nsft u = nsft s1" "\<forall>i < length t. t ! i \<noteq> p1 ! i \<longrightarrow> unat (t ! i) < nsft s1"
      "\<forall>k < nsft s1. (is_local (sft_at s1 k) \<longrightarrow> is_local (sft_at u k)) \<and>
        int (unat (sft_count (sft_at u k))) - int (card (slots_of t k)) =
        int (unat (sft_count (sft_at s1 k))) - int (card (slots_of p1 k))" by auto
  have "inherit_handles (i # is) q p s = (t, u)" using c u(1) by (simp add: p1_def)
  moreover have "\<forall>j < length t. t ! j \<noteq> p ! j \<longrightarrow> unat (t ! j) < nsft s"
    using u(2,6) p1(1,3) e(3) by metis
  ultimately show ?case using u e p1(1) cnt sl by (intro exI[of _ t] exI[of _ u]) auto
qed auto

lemma child_psp_kept:
  fixes psize :: "16 word"
  assumes ok: "handles_ok P s" and loc: "all_local s" and new: "para \<notin> P"
    and c: "\<forall>k < nsft s. unat (sft_count (sft_at s k)) + 20 < 0xffff"
  defines "t \<equiv> child_psp para (cu_psp s) psize s"
  shows "handles_ok (insert para P) t \<and> all_local t \<and> nsft t = nsft s \<and> cu_psp t = cu_psp s \<and>
    (\<forall>k < nsft s. surplus (insert para P) t k = surplus P s k)"
proof -
  have P: "finite P" "cu_psp s \<in> P" using ok by (simp_all add: handles_ok_def)
  obtain tab u where h: "inherit_handles [0..<20] (filetab s) (replicate 20 0xff) s = (tab, u)"
    and u: "length tab = 20" "psps u = psps s" "cu_psp u = cu_psp s" "nsft u = nsft s"
      "\<forall>i < 20. tab ! i \<noteq> replicate 20 0xff ! i \<longrightarrow> unat (tab ! i) < nsft s"
      "\<forall>k < nsft s. (is_local (sft_at s k) \<longrightarrow> is_local (sft_at u k)) \<and>
        int (unat (sft_count (sft_at u k))) - int (card (slots_of tab k)) =
        int (unat (sft_count (sft_at s k))) - int (card (slots_of (replicate 20 0xff) k))"
    using inherit_handles_ok[of "[0..<20]" "replicate 20 0xff" s "filetab s"] c by auto
  let ?p = "\<lparr>ps_maxfiles = 20, ps_filetab = tab, ps_parent = cu_psp s, ps_size = psize\<rparr>"
  have t: "t = u\<lparr>psps := (psps u)(para := ?p)\<rparr>"
    using h by (simp add: t_def child_psp_def filetab_def)
  have nsft: "nsft t = nsft s" "cu_psp t = cu_psp s" "sft_at t = sft_at u" using u by (simp_all add: t)
  have "slots_of (replicate 20 0xff) k = {}" for k by (auto simp: slots_of_def)
  moreover have "open_slots ?p k = slots_of tab k" for k using u(1) by (auto simp: open_slots_def slots_of_def)
  ultimately have cnt: "int (unat (sft_count (sft_at u k))) = int (unat (sft_count (sft_at s k))) + int (card (open_slots ?p k))"
    if "k < nsft s" for k using u(6) that by auto
  have "(\<Sum>p \<in> P. card (open_slots (((psps s)(para := ?p)) p) k)) = refs P s k" for k
    unfolding refs_def using new by (intro sum.cong) auto
  then have refs: "refs (insert para P) t k = card (open_slots ?p k) + refs P s k" for k
    using P new u(2) by (simp add: refs_def t)
  have sur: "surplus (insert para P) t k = surplus P s k" if "k < nsft s" for k
    using cnt[OF that] by (simp add: surplus_def nsft refs)
  have "handles_ok (insert para P) t"
    unfolding handles_ok_def nsft
  proof (intro conjI ballI allI impI)
    fix p assume p: "p \<in> insert para P"
    show "ps_maxfiles (psps t p) \<le> length (ps_filetab (psps t p))"
      using p ok u(1,2) by (auto simp: t handles_ok_def)
    fix h assume "h < ps_maxfiles (psps t p)" "ps_filetab (psps t p) ! h \<noteq> 0xff"
    then show "unat (ps_filetab (psps t p) ! h) < nsft s"
      using p ok u(2,5) unfolding t handles_ok_def by (cases "p = para") auto
  qed (use P ok sur in \<open>auto simp: handles_ok_def\<close>)
  moreover have "all_local t" using loc u(4,6) by (simp add: all_local_def nsft)
  ultimately show ?thesis using sur nsft by simp
qed

end
