(* ===== verification/Handles_Props.thy ===== *)
theory Handles_Props
  imports Handles_Proofs Share_Props
begin

text \<open>
  What holds of file handles: the chain of SFT blocks behaves as one table, the calls keep the
  reference counts, the last close of a file frees its entry, SHARE guards every transfer; and
  what goes wrong when a handle is duplicated onto itself.
\<close>

section \<open>Runs of calls\<close>

text \<open>One call, from a set of processes and a state to the next. An open is of a path that
  \<open>truename\<close> does not find on the network: entries of the redirector are counted by the
  redirector. A call that adds references starts with room in the counts, which are 16 bits wide
  and wrap after 65535 references. The flag says that the call succeeded and, for a forced
  duplicate, that the new handle is another one and within the table of the process, which the
  code does not check.\<close>

definition roomy :: "'w kernel \<Rightarrow> bool" where
  "roomy s \<longleftrightarrow> (\<forall>k < nsft s. unat (sft_count (sft_at s k)) + 20 < 0xffff)"

inductive handle_call ::
    "'w layers \<Rightarrow> bool \<Rightarrow> 16 word set \<Rightarrow> 'w kernel \<Rightarrow> 16 word set \<Rightarrow> 'w kernel \<Rightarrow> bool"
  for L :: "'w layers" where
  Open: "fst (L_truename L fname s) AND IS_NETWORK = 0 \<Longrightarrow> DosOpen L fname mode attrib s = Inr (r, t) \<Longrightarrow>
    handle_call L (0 \<le> r) P s P t"
| Close: "DosClose L h s = Inr (r, t) \<Longrightarrow> handle_call L (r = SUCCESS) P s P t"
| Dup: "roomy s \<Longrightarrow> DosDup L h s = Inr (r, t) \<Longrightarrow> handle_call L (0 \<le> r) P s P t"
| ForceDup: "roomy s \<Longrightarrow> DosForceDup L old new s = Inr (r, t) \<Longrightarrow>
    handle_call L (r = SUCCESS \<and> old \<noteq> new \<and> new < maxfiles s) P s P t"
| Child: "roomy s \<Longrightarrow> para \<notin> P \<Longrightarrow>
    handle_call L True P s (insert para P) (child_psp para (cu_psp s) psize s)"
| Switch: "p \<in> P \<Longrightarrow> handle_call L True P s P (s\<lparr>cu_psp := p\<rparr>)"

inductive handle_run ::
    "'w layers \<Rightarrow> bool \<Rightarrow> 16 word set \<Rightarrow> 'w kernel \<Rightarrow> 16 word set \<Rightarrow> 'w kernel \<Rightarrow> bool"
  for L :: "'w layers" where
  finish: "handle_run L g P s P s"
| call: "handle_call L g P s Q t \<Longrightarrow> handle_run L g2 Q t R u \<Longrightarrow> handle_run L (g \<and> g2) P s R u"

lemma roomy_counts: "roomy s \<Longrightarrow> \<forall>k < nsft s. sft_count (sft_at s k) \<noteq> 0xffff"
proof (intro allI impI notI)
  fix k assume "roomy s" "k < nsft s" and e: "sft_count (sft_at s k) = 0xffff"
  have "unat (sft_count (sft_at s k)) + 20 < 0xffff"
    using \<open>roomy s\<close> \<open>k < nsft s\<close> unfolding roomy_def by blast
  with e show False by simp
qed

lemma handle_call_kept:
  assumes L: "layers_ok L" and c: "handle_call L g P s Q t" and ok: "handles_ok P s" and loc: "all_local s"
  shows "handles_ok Q t \<and> all_local t \<and> nsft t = nsft s \<and>
    (\<forall>k < nsft s. surplus P s k \<le> surplus Q t k \<and> (g \<longrightarrow> surplus Q t k = surplus P s k))"
  using c ok loc
proof (induction rule: handle_call.induct)
  case (Open fname mode attrib s r t P)
  from DosOpen_kept[OF L Open.prems Open.hyps] show ?case by (simp add: kept_def)
next
  case (Close h s r t P)
  from DosClose_any[OF L Close.prems Close.hyps] show ?case by (simp add: kept_def)
next
  case (Dup s h r t P)
  from DosDup_kept[OF L Dup.prems roomy_counts[OF Dup.hyps(1)], of h] Dup.hyps show ?case
    by (auto simp: kept_def roomy_def)
next
  case (ForceDup s old new r t P)
  from DosForceDup_any[OF L ForceDup.prems roomy_counts[OF ForceDup.hyps(1)] ForceDup.hyps(2)]
  show ?case by (simp add: kept_def)
next
  case (Child s para P psize)
  from child_psp_kept[OF Child.prems Child.hyps(2), of psize] Child.hyps(1) show ?case by (simp add: roomy_def)
next
  case (Switch p P s)
  have "sft_at (s\<lparr>cu_psp := p\<rparr>) = sft_at s" "nsft (s\<lparr>cu_psp := p\<rparr>) = nsft s"
    by (simp_all add: fun_eq_iff sft_at_def nsft_def)
  with Switch show ?case by (simp add: handles_ok_def all_local_def surplus_def refs_def)
qed

lemma handle_run_kept:
  assumes L: "layers_ok L" and c: "handle_run L g P s Q t" and ok: "handles_ok P s" and loc: "all_local s"
  shows "handles_ok Q t \<and> nsft t = nsft s \<and>
    (\<forall>k < nsft s. surplus P s k \<le> surplus Q t k \<and> (g \<longrightarrow> surplus Q t k = surplus P s k))"
  using c ok loc
proof (induction rule: handle_run.induct)
  case (call g P s Q t g2 R u)
  from handle_call_kept[OF L call.hyps(1) call.prems] call.IH show ?case by fastforce
qed simp

section \<open>The last reference\<close>

text \<open>Handle \<open>h\<close> refers to entry \<open>k\<close>, a file on a disk that SHARE knows; and a FAT layer
  whose close of that file succeeds and leaves the entry's count and number in SHARE alone.\<close>

definition file_handle :: "'w kernel \<Rightarrow> nat \<Rightarrow> nat \<Rightarrow> bool" where
  "file_handle s h k \<longleftrightarrow> h < 0x8000 \<and> h < maxfiles s \<and> h < length (filetab s) \<and> filetab s ! h \<noteq> 0xff \<and>
     unat (filetab s ! h) = k \<and> k < nsft s \<and> sft_count (sft_at s k) \<noteq> 0 \<and>
     sft_flags (sft_at s k) AND SFT_FSHARED = 0 \<and> sft_flags (sft_at s k) AND SFT_FDEVICE = 0 \<and>
     0 \<le> sft_shroff (sft_at s k)"

definition close_succeeds :: "'w layers \<Rightarrow> nat \<Rightarrow> bool" where
  "close_succeeds L k \<longleftrightarrow>
     (\<forall>s. \<exists>t. L_dos_close L k s = (SUCCESS, t) \<and> psps t = psps s \<and> cu_psp t = cu_psp s \<and>
        nsft t = nsft s \<and> share_tab t = share_tab s \<and>
        sft_count (sft_at t k) = sft_count (sft_at s k) \<and> sft_shroff (sft_at t k) = sft_shroff (sft_at s k))"

lemma DosClose_file:
  assumes h: "file_handle s h k" and L: "close_succeeds L k"
  shows "\<exists>t. DosClose L h s = Inr (SUCCESS, t) \<and> filetab t = (filetab s)[h := 0xff] \<and> nsft t = nsft s \<and>
    sft_count (sft_at t k) = sft_count (sft_at s k) - 1 \<and>
    (if sft_count (sft_at s k) = 1
     then share_tab t = share_close_file (nat (sft_shroff (sft_at s k))) (share_tab s) \<and> sft_shroff (sft_at t k) = -1
     else share_tab t = share_tab s \<and> sft_shroff (sft_at t k) = sft_shroff (sft_at s k))"
proof -
  have f: "h < 0x8000" "h < maxfiles s" "filetab s ! h \<noteq> 0xff" "unat (filetab s ! h) = k" "k < nsft s"
    "sft_count (sft_at s k) \<noteq> 0" "sft_flags (sft_at s k) AND SFT_FSHARED = 0"
    "sft_flags (sft_at s k) AND SFT_FDEVICE = 0" "0 \<le> sft_shroff (sft_at s k)"
    using h unfolding file_handle_def by blast+
  let ?i = "get_sft_idx h s"
  have i: "?i = uint (filetab s ! h)" "nat ?i = k" "0 \<le> ?i" using f by (auto simp: get_sft_idx_def)
  have id: "idx_to_sft ?i s = (Some k, s\<lparr>lpCurSft := Some k\<rparr>)" using f i by (simp add: idx_to_sft_eq)
  let ?u = "set_filetab ((filetab s)[h := 0xff]) (s\<lparr>lpCurSft := Some k\<rparr>)"
  have id2: "idx_to_sft ?i ?u = (Some k, ?u\<lparr>lpCurSft := Some k\<rparr>)" using f i by (simp add: idx_to_sft_eq)
  let ?v = "?u\<lparr>lpCurSft := Some k\<rparr>"
  obtain t where t: "L_dos_close L k ?v = (SUCCESS, t)" "psps t = psps ?v" "cu_psp t = cu_psp ?v" "nsft t = nsft s"
    "share_tab t = share_tab s" "sft_count (sft_at t k) = sft_count (sft_at s k)"
    "sft_shroff (sft_at t k) = sft_shroff (sft_at s k)"
    using L[unfolded close_succeeds_def, rule_format, of ?v] by auto
  let ?c = "if sft_count (sft_at t k) = 1 then close_share k t else t"
  let ?w = "set_sft k (\<lambda>f. f\<lparr>sft_count := sft_count f - 1\<rparr>) ?c"
  have "DosCloseSft L ?i False ?u = (SUCCESS, ?w)"
    using f i id2 t(1) unfolding DosCloseSft_def by (simp add: Let_def)
  then have "DosClose L h s = Inr (SUCCESS, ?w)"
    using f id unfolding DosClose_def Let_def by simp
  moreover have "filetab t = (filetab s)[h := 0xff]"
    using t(2,3) unfolding filetab_def by (simp add: set_filetab_def)
  moreover have "filetab (close_share k t) = filetab t" "nsft (close_share k t) = nsft t"
    by (simp_all add: close_share_def Let_def)
  moreover have "share_tab (close_share k t) = share_close_file (nat (sft_shroff (sft_at t k))) (share_tab t)"
      "sft_shroff (sft_at (close_share k t) k) = -1" "sft_count (sft_at (close_share k t) k) = sft_count (sft_at t k)"
    using f t by (simp_all add: close_share_def Let_def)
  ultimately show ?thesis using t f by (intro exI[of _ ?w]) simp
qed

lemma DosForceDup_self:
  assumes h: "file_handle s h k" and L: "close_succeeds L k" and c: "sft_count (sft_at s k) = 1"
  shows "\<exists>t. DosForceDup L h h s = Inr (SUCCESS, t) \<and> filetab t ! h = 0xff \<and> sft_count (sft_at t k) = 1 \<and>
    share_tab t = share_close_file (nat (sft_shroff (sft_at s k))) (share_tab s)"
proof -
  have f: "h < maxfiles s" "h < length (filetab s)" "filetab s ! h \<noteq> 0xff" "unat (filetab s ! h) = k" "k < nsft s"
    using h unfolding file_handle_def by blast+
  obtain e s1 where g: "get_sft h s = (e, s1)" by (cases "get_sft h s")
  note gs = get_sft_eq[of h s, unfolded g snd_conv]
  have e: "e = Some k" "filetab s1 = filetab s" "maxfiles s1 = maxfiles s" "sft_at s1 = sft_at s"
    "nsft s1 = nsft s" "share_tab s1 = share_tab s"
    using gs f c g by (auto simp: same_refs_def bump_def get_sft_def idx_to_sft_eq split: if_splits)
  then have "file_handle s1 h k" using h unfolding file_handle_def by simp
  from DosClose_file[OF this L] obtain t where t: "DosClose L h s1 = Inr (SUCCESS, t)"
    "filetab t = (filetab s)[h := 0xff]" "nsft t = nsft s" "sft_count (sft_at t k) = 0"
    "share_tab t = share_close_file (nat (sft_shroff (sft_at s k))) (share_tab s)"
    using e c by auto
  let ?u = "set_sft k (\<lambda>f. f\<lparr>sft_count := sft_count f + 1\<rparr>) (set_filetab ((filetab t)[h := filetab t ! h]) t)"
  have "DosForceDup L h h s = Inr (SUCCESS, ?u)"
    using g e f t(1) by (simp add: DosForceDup_def)
  then show ?thesis using t f by (intro exI[of _ ?u]) simp
qed

section \<open>Transfers and locks\<close>

lemma share_access_refused:
  assumes ok: "share_ok s" and k: "in_use s k" and r: "region_ok ofs len"
    and x: "\<exists>x \<in> region_bytes ofs len. \<not> byte_owners s (nm s k) x \<subseteq> {k}"
  shows "\<exists>s1. share_access_check k ofs len dev ax s = Inr (DE_ACCESS, s1)"
proof -
  have k1: "k < 256" using k by (simp add: in_use_def)
  have "region_ok ofs len \<and> (\<exists>l \<in> set (lock_table s). meets s (nm s k) ofs (end_of ofs len) l \<and> (True \<longrightarrow> l_fileno l \<noteq> k))"
    using no_lock_iff_no_owner[OF ok r, of "nm s k" "{k}"] x r by simp
  then have "do_access_check k ofs len True s = Inr True"
    unfolding access_check_eq[OF ok k1] by blast
  then show ?thesis by (simp add: share_access_check_def)
qed

lemma transfer_refused:
  assumes k: "k < nsft s" "sft_count (sft_at s k) \<noteq> 0"
    and f: "sft_flags (sft_at s k) AND SFT_FSHARED = 0" "sft_flags (sft_at s k) AND SFT_FDEVICE = 0"
      "sft_shroff (sft_at s k) = int n"
    and ok: "share_ok (share_tab s)" "in_use (share_tab s) n"
    and r: "region_ok (sft_posit (sft_at s k)) len"
      "\<exists>x \<in> region_bytes (sft_posit (sft_at s k)) len. \<not> byte_owners (share_tab s) (nm (share_tab s) n) x \<subseteq> {n}"
  shows "\<exists>t. DosWriteSftUnchecked L (int k) len bp s = Inr (DE_ACCESS, t) \<and> world t = world s \<and> sft_tbl t = sft_tbl s"
    "sft_mode (sft_at s k) AND 1 = 0 \<Longrightarrow>
     \<exists>t. DosReadSftExt L (int k) len bp echo chk s = Inr (DE_ACCESS, t) \<and> world t = world s \<and> sft_tbl t = sft_tbl s"
proof -
  let ?s = "s\<lparr>lpCurSft := Some k\<rparr>"
  have id: "idx_to_sft (int k) s = (Some k, ?s)" using k by (simp add: idx_to_sft_eq)
  have sa: "\<exists>t. share_allows k len fn ?s = Inr (DE_ACCESS, t) \<and> world t = world s \<and> sft_tbl t = sft_tbl s" for fn
  proof -
    from share_access_refused[OF ok r, of "dpb_device s (sft_dev (sft_at s k))" fn] obtain h where
      "share_access_check n (sft_posit (sft_at s k)) len (dpb_device s (sft_dev (sft_at s k))) fn (share_tab s) = Inr (DE_ACCESS, h)"
      by blast
    then show ?thesis using f(3) by (simp add: share_allows_def Let_def on_share_def)
  qed
  have ne: "DE_ACCESS \<noteq> SUCCESS" by (simp add: DE_ACCESS_def SUCCESS_def)
  show "\<exists>t. DosWriteSftUnchecked L (int k) len bp s = Inr (DE_ACCESS, t) \<and> world t = world s \<and> sft_tbl t = sft_tbl s"
    using sa[of "0x40"] f(1,2) id ne by (auto simp: DosWriteSftUnchecked_def Let_def)
  show "\<exists>t. DosReadSftExt L (int k) len bp echo chk s = Inr (DE_ACCESS, t) \<and> world t = world s \<and> sft_tbl t = sft_tbl s"
    if "sft_mode (sft_at s k) AND 1 = 0"
    using sa[of "0x3f"] f(1,2) id ne that by (auto simp: DosReadSftExt_def Let_def)
qed

section \<open>A small system\<close>

definition L0 :: "unit layers" where
  "L0 = \<lparr>L_truename = \<lambda>n s. (0, s), L_name83 = \<lambda>n. replicate 11 0x20, L_upcase = \<lambda>c. c,
     L_dos_open = \<lambda>p f a k s. (1, s), L_dos_close = \<lambda>k s. (0, s),
     L_rwblock = \<lambda>k b n w s. (uint n, s), L_char_io = \<lambda>d n b c s. (0, s),
     L_read_line = \<lambda>k n b c s. (0, s), L_cooked_read = \<lambda>d n b c s. (0, s),
     L_cooked_write = \<lambda>d n b s. (uint n, s), L_update_scr_pos = \<lambda>p n s. s, L_peek = \<lambda>p s. 0,
     L_redirect = \<lambda>c k a s. (0, s), L_remote_rw = \<lambda>c k n s. (0, s),
     L_remote_seek64 = \<lambda>k p m s. (None, s), L_remote_lseek = \<lambda>k p s. (0, s),
     L_remote_lock = \<lambda>k p n u s. (0, s), L_getdate = \<lambda>s. 0, L_gettime = \<lambda>s. 0\<rparr>"

lemma L0_ok: "layers_ok L0"
  by (simp add: layers_ok_def L0_def IS_NETWORK_def)

text \<open>Two blocks of one and two entries; handle 0 refers to entry 1, a file that SHARE knows
  as its entry 0.\<close>

definition file1 :: sft_t where
  "file1 = sft_zero\<lparr>sft_count := 1, sft_mode := 2, sft_flags := 2, sft_shroff := 0, sft_posit := 4\<rparr>"

definition kern0 :: "unit kernel" where
  "kern0 = \<lparr>cu_psp = 0x100, HMAclaimed = False, hmem = (\<lambda>_. 0), mcbs = (\<lambda>_. \<lparr>m_type = 0, m_psp = 0, m_size = 0, m_name = []\<rparr>),
     first_mcb = 0, uppermem_root = 0xffff, uppermem_link = 0, mem_access_mode = 0,
     share_tab = sh4, sft_tbl = [[sft_zero], [file1, sft_zero]], lpCurSft = None, current_sft_idx = 0,
     psps = (\<lambda>_. \<lparr>ps_maxfiles = 3, ps_filetab = [1, 0xff, 0xff], ps_parent = 0x100, ps_size = 0x10\<rparr>),
     CDSp = [], default_drive = 0, current_ldt = None, devices = [], dpb_device = (\<lambda>_. 1),
     PriPathName = [], fcb_name = [], OpenMode = 0, ext_open = (0, 0, 0), dta = 0, current_filepos = 0,
     world = ()\<rparr>"

lemma kern0_sft: "nsft kern0 = 3" "sft_at kern0 0 = sft_zero" "sft_at kern0 (Suc 0) = file1" "sft_at kern0 2 = sft_zero"
  by (simp_all add: nsft_def sft_at_def kern0_def numeral_2_eq_2)

lemma kern0_psp: "maxfiles kern0 = 3" "filetab kern0 = [1, 0xff, 0xff]" "cu_psp kern0 = 0x100"
  by (simp_all add: maxfiles_def filetab_def kern0_def)

lemma less3: "k < 3 \<longleftrightarrow> k = 0 \<or> k = 1 \<or> k = (2 :: nat)" by linarith

lemma kern0_ok: "handles_ok {0x100} kern0" "all_local kern0" "roomy kern0"
proof -
  have "h \<in> open_slots (psps kern0 0x100) k \<longleftrightarrow> h = 0 \<and> k = 1" for h k
    by (cases "h < 3") (auto simp: open_slots_def kern0_def less3)
  then have slots: "open_slots (psps kern0 0x100) k = (if k = 1 then {0} else {})" for k by auto
  have "refs {0x100} kern0 k = (if k = 1 then 1 else 0)" for k by (simp add: refs_def slots)
  then show "handles_ok {0x100} kern0"
    by (auto simp: handles_ok_def surplus_def kern0_sft less3 sft_zero_def file1_def)
      (auto simp: kern0_def less3 numeral_2_eq_2)
  show "all_local kern0" by (auto simp: all_local_def kern0_sft less3 is_local_def sft_zero_def file1_def SFT_FSHARED_def)
  show "roomy kern0" by (auto simp: roomy_def kern0_sft kern0_psp less3 sft_zero_def file1_def)
qed

section \<open>Properties\<close>

text \<open>
  C15. The calls on handles keep the reference counts of the system file table. From a sound
  state without entries of the network redirector, any run of open (of paths that are not on the
  network), close, duplicate, force-duplicate, inherit and process-switch calls, with any layers
  below that leave handles alone and as long as the 16-bit counts have room, ends in a sound
  state: every handle in use refers to an existing entry whose count is at least the number of
  handles that refer to it, so no reference is lost, whether calls succeed or fail. If moreover
  all calls of the run succeeded and no forced duplicate had its old handle or a handle beyond
  the table as the new one, the difference between the count of each entry and the handles that
  refer to it is what it was at the start: none is leaked. A forced duplicate of a handle onto
  itself does leak one, as the last but one property of this theory shows.
\<close>

theorem handle_calls_keep_counts:
  assumes "layers_ok L" "handles_ok P s" "all_local s" "handle_run L g P s Q t"
  shows "handles_ok Q t \<and> (g \<longrightarrow> (\<forall>k < nsft s. surplus Q t k = surplus P s k))"
  using handle_run_kept[OF assms(1,4,2,3)] by simp

lemma kern0_dup: "\<exists>t. DosDup L0 0 kern0 = Inr (1, t)"
  by (simp add: DosDup_def get_free_hndl_def kern0_psp DosForceDup_def get_sft_def get_sft_idx_def
      idx_to_sft_eq kern0_sft file1_def Let_def DE_INVLDHNDL_def SUCCESS_def)

theorem handle_calls_keep_counts_witness:
  "\<exists>t. DosDup L0 0 kern0 = Inr (1, t) \<and> handles_ok {0x100} t \<and> surplus {0x100} t 1 = surplus {0x100} kern0 1"
proof -
  obtain t where t: "DosDup L0 0 kern0 = Inr (1, t)" using kern0_dup by blast
  have "handle_run L0 (True \<and> True) {0x100} kern0 {0x100} t"
    using handle_run.call[OF handle_call.Dup[OF kern0_ok(3) t] handle_run.finish] by simp
  from handle_calls_keep_counts[OF L0_ok kern0_ok(1,2) this] t show ?thesis by (auto simp: kern0_sft)
qed

text \<open>
  The chain of SFT blocks is one flat table. Finding the entry of a number by walking the
  blocks, finding the first free entry, and writing an entry give what indexing, searching
  and updating the concatenation of the blocks gives, for any division into blocks, empty
  ones included; and an unused entry is treated as no entry.
\<close>

theorem sft_chain_is_flat_table:
  "fst (idx_to_sft i s) =
     (if 0 \<le> i \<and> nat i < length (concat (sft_tbl s)) \<and> sft_count (concat (sft_tbl s) ! nat i) \<noteq> 0
      then Some (nat i) else None) \<and>
   fst (get_free_sft s) = free_in_block (concat (sft_tbl s)) 0 \<and>
   concat (sft_tbl (set_sft k f s)) = (concat (sft_tbl s))[k := f (concat (sft_tbl s) ! k)]"
  by (simp add: idx_to_sft_eq nsft_def sft_at_def get_free_sft_eq set_sft_def concat_sft_upd split: option.split)

text \<open>
  C16. Closing a handle of a file on disk frees its slot in the handle table and takes one
  reference off the SFT entry. Only the close that takes the last reference tells SHARE,
  which drops the entry and all its locks; an earlier close leaves SHARE's tables alone.
\<close>

theorem last_close_leaves_share:
  assumes "file_handle s h k" "close_succeeds L k"
  shows "\<exists>t. DosClose L h s = Inr (SUCCESS, t) \<and> filetab t = (filetab s)[h := 0xff] \<and>
    sft_count (sft_at t k) = sft_count (sft_at s k) - 1 \<and>
    (if sft_count (sft_at s k) = 1
     then share_tab t = share_close_file (nat (sft_shroff (sft_at s k))) (share_tab s) \<and> sft_shroff (sft_at t k) = -1
     else share_tab t = share_tab s \<and> sft_shroff (sft_at t k) = sft_shroff (sft_at s k))"
  using DosClose_file[OF assms] by auto

lemma kern0_handle: "file_handle kern0 0 1"
  by (simp add: file_handle_def kern0_psp kern0_sft file1_def SFT_FSHARED_def SFT_FDEVICE_def)

lemma L0_close: "close_succeeds L0 1"
  by (simp add: close_succeeds_def L0_def SUCCESS_def)

theorem last_close_leaves_share_witness:
  "\<exists>t. DosClose L0 0 kern0 = Inr (SUCCESS, t) \<and> filetab t = [0xff, 0xff, 0xff] \<and> share_tab t = share_close_file 0 sh4"
  using last_close_leaves_share[OF kern0_handle L0_close]
  by (auto simp: kern0_sft kern0_psp file1_def) (simp add: kern0_def)

text \<open>
  C17. The system call that forces a duplicate (function 46h) has no guard against equal
  handles: duplicating a handle that holds the last reference to a file onto itself closes
  the file, so that SHARE forgets it, and reports success; the handle is then unused while the
  SFT entry counts a reference that nobody can give up.
\<close>

theorem force_dup_onto_itself_loses_file:
  assumes "file_handle s h k" "close_succeeds L k" "sft_count (sft_at s k) = 1"
  shows "\<exists>t. DosForceDup L h h s = Inr (SUCCESS, t) \<and> filetab t ! h = 0xff \<and> sft_count (sft_at t k) = 1 \<and>
    share_tab t = share_close_file (nat (sft_shroff (sft_at s k))) (share_tab s)"
  by (rule DosForceDup_self[OF assms])

theorem force_dup_onto_itself_loses_file_witness:
  "\<exists>t. DosForceDup L0 0 0 kern0 = Inr (SUCCESS, t) \<and> filetab t ! 0 = 0xff \<and> sft_count (sft_at t 1) = 1"
  using force_dup_onto_itself_loses_file[OF kern0_handle L0_close] by (auto simp: kern0_sft file1_def)

text \<open>
  C18. SHARE guards every transfer of a file on disk. In a state in which SHARE's tables were
  reached by its calls, a read or a write that touches a byte which another handle has
  locked fails with access denied, before the file system is called: nothing on disk changes.
\<close>

theorem locked_bytes_are_not_transferred:
  assumes "k < nsft s" "sft_count (sft_at s k) \<noteq> 0"
    and "sft_flags (sft_at s k) AND SFT_FSHARED = 0" "sft_flags (sft_at s k) AND SFT_FDEVICE = 0"
    and "sft_shroff (sft_at s k) = int n" "share_reach (share_tab s)" "in_use (share_tab s) n"
    and "region_ok (sft_posit (sft_at s k)) len" "x \<in> region_bytes (sft_posit (sft_at s k)) len"
    and "m \<noteq> n" "m \<in> byte_owners (share_tab s) (nm (share_tab s) n) x"
  shows "(\<exists>t. DosWriteSftUnchecked L (int k) len bp s = Inr (DE_ACCESS, t) \<and> world t = world s \<and> sft_tbl t = sft_tbl s) \<and>
    (sft_mode (sft_at s k) AND 1 = 0 \<longrightarrow>
     (\<exists>t. DosReadSftExt L (int k) len bp echo chk s = Inr (DE_ACCESS, t) \<and> world t = world s \<and> sft_tbl t = sft_tbl s))"
proof -
  have "\<exists>x \<in> region_bytes (sft_posit (sft_at s k)) len. \<not> byte_owners (share_tab s) (nm (share_tab s) n) x \<subseteq> {n}"
    using assms(9-11) by blast
  from transfer_refused[OF assms(1-5) share_reach_ok[OF assms(6)] assms(7,8) this] show ?thesis by blast
qed

text \<open>In the small system entry 1 of the SFT with SHARE's entry 1, while entry 0 of SHARE has
  bytes 0 to 9 locked.\<close>

definition kern1 :: "unit kernel" where
  "kern1 = kern0\<lparr>sft_tbl := [[sft_zero], [file1\<lparr>sft_shroff := 1\<rparr>, sft_zero]]\<rparr>"

theorem locked_bytes_are_not_transferred_witness:
  "\<exists>t. DosWriteSftUnchecked L0 1 2 0 kern1 = Inr (DE_ACCESS, t) \<and> sft_tbl t = sft_tbl kern1"
proof -
  have n: "nsft kern1 = 3" "sft_at kern1 1 = file1\<lparr>sft_shroff := 1\<rparr>" "share_tab kern1 = sh4"
    by (simp_all add: nsft_def sft_at_def kern1_def kern0_def)
  have o: "0 \<in> byte_owners sh4 (nm sh4 1) 4"
    using sh3_entry(2)[of 0] sh3_entry(2)[of 1] by (simp add: byte_owners_def owner1_def sh4_def lock1_def)
  have u: "in_use sh4 1" by (simp add: sh4_ok sh3_entry)
  have r: "region_ok 4 2" "4 \<in> region_bytes 4 2" by (simp_all add: region_ok_def region_bytes_def end_of_def)
  show ?thesis
    using locked_bytes_are_not_transferred[of 1 kern1 1 2 4 0 L0 0, unfolded n] o u r sh4_ok(1)
    by (auto simp: file1_def SFT_FSHARED_def SFT_FDEVICE_def)
qed

end
