(* ===== verification/Blockio.thy ===== *)
theory Blockio
  imports Handles Bytes "HOL-Library.Monad_Syntax"
begin

text \<open>
  The block cache of kernel/blockio.c, the critical-error entry points of kernel/error.c and
  the set-up of the buffers in kernel/config.c.

  The buffers lie in one segment and form a ring through the offsets \<open>b_next\<close> and
  \<open>b_prev\<close>; \<open>bufs\<close> gives the buffer at an offset, \<open>firstbuf\<close> the offset of the most recently
  used one. The driver's entry point \<open>execrh\<close> is the argument \<open>E\<close> of every operation that
  calls it: it gets the request and the device and answers with the request as the driver
  left it; \<open>r_trans\<close> is the memory at the transfer address. A loop of the source that
  need not end is a \<open>partial_function (option)\<close>: \<open>None\<close> means that it does not return.
\<close>

section \<open>State\<close>

text \<open>The device of a drive parameter block is in the field \<open>dpb_device\<close> of the kernel's state;
  the two halves of the count of free clusters are the field \<open>dpb_xnfreeclst\<close>.\<close>

record buffer =
  b_next :: "16 word"
  b_prev :: "16 word"
  b_unit :: "8 word"
  b_flag :: "8 word"
  b_blkno :: "32 word"
  b_copies :: "8 word"
  b_offset :: "16 word"
  b_dpbp :: "32 word"
  b_buffer :: bytes

definition BFR_DIRTY :: "8 word" where "BFR_DIRTY = 0x40"
definition BFR_VALID :: "8 word" where "BFR_VALID = 0x20"
definition BFR_DATA :: "8 word" where "BFR_DATA = 0x08"
definition BFR_DIR :: "8 word" where "BFR_DIR = 0x04"
definition BFR_FAT :: "8 word" where "BFR_FAT = 0x02"
definition BFR_UNCACHE :: "8 word" where "BFR_UNCACHE = 0x01"

lemmas bfr_defs = BFR_DIRTY_def BFR_VALID_def BFR_DATA_def BFR_DIR_def BFR_FAT_def BFR_UNCACHE_def

record dpb =
  dpb_unit :: "8 word"
  dpb_subunit :: "8 word"
  dpb_secsize :: "16 word"
  dpb_clsmask :: "8 word"
  dpb_shftcnt :: "8 word"
  dpb_fatstrt :: "16 word"
  dpb_fats :: "8 word"
  dpb_dirents :: "16 word"
  dpb_data :: "16 word"
  dpb_size :: "16 word"
  dpb_fatsize :: "16 word"
  dpb_dirstrt :: "16 word"
  dpb_mdb :: "8 word"
  dpb_flags :: "8 word"
  dpb_cluster :: "16 word"
  dpb_xnfreeclst :: "32 word"
  dpb_xflags :: "16 word"
  dpb_xfsinfosec :: "16 word"
  dpb_xbackupsec :: "16 word"
  dpb_xdata :: "32 word"
  dpb_xsize :: "32 word"
  dpb_xfatsize :: "32 word"
  dpb_xrootclst :: "32 word"
  dpb_xcluster :: "32 word"

record request =
  r_length :: "8 word"
  r_unit :: "8 word"
  r_command :: "8 word"
  r_status :: "16 word"
  r_meddesc :: "8 word"
  r_trans :: bytes
  r_count :: "16 word"
  r_start :: "16 word"
  r_huge :: "32 word"

definition S_ERROR :: "16 word" where "S_ERROR = 0x8000"
definition S_DONE :: "16 word" where "S_DONE = 0x0100"
definition S_MASK :: "16 word" where "S_MASK = 0x00ff"
definition CMD_INPUT :: "8 word" where "CMD_INPUT = 0x04"
definition CMD_OUTPUT :: "8 word" where "CMD_OUTPUT = 0x08"
definition CMD_OUTVFY :: "8 word" where "CMD_OUTVFY = 0x09"
definition HUGECOUNT :: "16 word" where "HUGECOUNT = 0xffff"
definition MAXSHORT :: "32 word" where "MAXSHORT = 0xffff"
definition ATTR_HUGE :: "16 word" where "ATTR_HUGE = 0x0002"
definition CDSPHYSDRV :: "16 word" where "CDSPHYSDRV = 0x4000"
definition DSKWRITE :: nat where "DSKWRITE = 1"
definition DSKREAD :: nat where "DSKREAD = 2"
definition DSKWRITEINT26 :: nat where "DSKWRITEINT26 = 3"
definition DSKREADINT25 :: nat where "DSKREADINT25 = 4"
definition XFR_READ :: nat where "XFR_READ = 1"
definition XFR_WRITE :: nat where "XFR_WRITE = 2"

lemmas dsk_defs = DSKWRITE_def DSKREAD_def DSKWRITEINT26_def DSKREADINT25_def
lemmas req_defs = S_ERROR_def S_DONE_def S_MASK_def CMD_INPUT_def CMD_OUTPUT_def CMD_OUTVFY_def
  HUGECOUNT_def MAXSHORT_def ATTR_HUGE_def

record 'w diskio =
  kern :: "'w kernel"
  bufs :: "16 word \<Rightarrow> buffer"
  buf_seg :: "16 word"
  firstbuf :: "16 word"
  dpbs :: "32 word \<Rightarrow> dpb"
  verify_ena :: bool
  bufloc :: "8 word"
  deblock_buf :: bytes
  IoReqHdr :: request
  CritErrCode :: "16 word"
  nbuffers :: int

type_synonym 'w driver = "request \<Rightarrow> 32 word \<Rightarrow> 'w \<Rightarrow> request \<times> 'w"

definition set_buf :: "16 word \<Rightarrow> (buffer \<Rightarrow> buffer) \<Rightarrow> 'w diskio \<Rightarrow> 'w diskio" where
  "set_buf p f s = s\<lparr>bufs := (bufs s)(p := f (bufs s p))\<rparr>"

definition set_req :: "(request \<Rightarrow> request) \<Rightarrow> 'w diskio \<Rightarrow> 'w diskio" where
  "set_req f s = s\<lparr>IoReqHdr := f (IoReqHdr s)\<rparr>"

definition set_dpb :: "32 word \<Rightarrow> (dpb \<Rightarrow> dpb) \<Rightarrow> 'w diskio \<Rightarrow> 'w diskio" where
  "set_dpb p f s = s\<lparr>dpbs := (dpbs s)(p := f (dpbs s p))\<rparr>"

definition flag_set :: "8 word \<Rightarrow> 8 word \<Rightarrow> bool" where
  "flag_set f m \<longleftrightarrow> f AND m \<noteq> 0"

section \<open>Critical errors\<close>

definition A_CONTINUE :: int where "A_CONTINUE = 0"
definition A_RETRY :: int where "A_RETRY = 1"
definition A_ABORT :: int where "A_ABORT = 2"
definition A_FAIL :: int where "A_FAIL = 3"

lemmas answer_defs = A_CONTINUE_def A_RETRY_def A_ABORT_def A_FAIL_def

definition DoCriticalError :: "16 word \<Rightarrow> 16 word \<Rightarrow> 16 word \<Rightarrow> 32 word \<Rightarrow> int" where
  "DoCriticalError flag drive err dev = A_FAIL"

definition block_error :: "16 word \<Rightarrow> 32 word \<Rightarrow> nat \<Rightarrow> 'w diskio \<Rightarrow> int \<times> 'w diskio" where
  "block_error drive dev mode s =
     (let e = r_status (IoReqHdr s) AND S_MASK
      in (DoCriticalError (0x38 OR (if mode = DSKWRITE then 1 else 0)) drive e dev,
          s\<lparr>CritErrCode := e + 0x13\<rparr>))"

section \<open>The device driver interface\<close>

definition get_dpb :: "16 word \<Rightarrow> 'w diskio \<Rightarrow> 32 word option" where
  "get_dpb dsk s =
     (case get_cds (unat (scast dsk :: 32 word)) (kern s) of
        None \<Rightarrow> None
      | Some c \<Rightarrow> let d = CDSp (kern s) ! c in
          if cdsFlags d AND CDSPHYSDRV = 0 \<or> cdsDpb d = 0 then None else Some (cdsDpb d))"

definition dev_attr :: "32 word \<Rightarrow> 'w diskio \<Rightarrow> 16 word" where
  "dev_attr dev s = (case map_of (devices (kern s)) dev of None \<Rightarrow> 0 | Some h \<Rightarrow> dh_attr h)"

definition copy_bytes :: "nat \<Rightarrow> bytes \<Rightarrow> bytes \<Rightarrow> bytes" where
  "copy_bytes n src dst = (\<lambda>i. if i < n then src i else dst i)"

definition with_world :: "'w \<Rightarrow> 'w kernel \<Rightarrow> 'w kernel" where
  "with_world w k = k\<lparr>world := w\<rparr>"

definition execrh :: "'w driver \<Rightarrow> 32 word \<Rightarrow> 'w diskio \<Rightarrow> 'w diskio" where
  "execrh E dev s =
     (case E (IoReqHdr s) dev (world (kern s)) of
        (r, w) \<Rightarrow> s\<lparr>IoReqHdr := r, kern := with_world w (kern s)\<rparr>)"

text \<open>The command of a transfer; \<open>None\<close> for a mode that is none.\<close>

definition xfer_command :: "nat \<Rightarrow> bool \<Rightarrow> 8 word option" where
  "xfer_command mode verify =
     (if mode = DSKWRITE \<and> verify then Some CMD_OUTVFY
      else if mode = DSKWRITE \<or> mode = DSKWRITEINT26 then Some CMD_OUTPUT
      else if mode = DSKREADINT25 \<or> mode = DSKREAD then Some CMD_INPUT
      else None)"

definition xfer_request ::
    "32 word \<Rightarrow> 8 word \<Rightarrow> 32 word \<Rightarrow> 16 word \<Rightarrow> 'w diskio \<Rightarrow> 'w diskio" where
  "xfer_request dp cmd blkno numblocks s =
     (let s1 = set_req (\<lambda>r. r\<lparr>r_command := cmd, r_status := 0, r_meddesc := dpb_mdb (dpbs s dp),
                 r_count := numblocks\<rparr>) s
      in if dev_attr (dpb_device (kern s) dp) s AND ATTR_HUGE \<noteq> 0 \<or> MAXSHORT \<le> blkno
         then set_req (\<lambda>r. r\<lparr>r_start := HUGECOUNT, r_huge := blkno\<rparr>) s1
         else set_req (\<lambda>r. r\<lparr>r_start := ucast blkno\<rparr>) s1)"

text \<open>One call of the driver. A single block above A000h goes through \<open>deblock_buf\<close>
  unless the buffers are in conventional memory.\<close>

definition xfer_call ::
    "'w driver \<Rightarrow> 32 word \<Rightarrow> 16 word \<Rightarrow> bytes \<Rightarrow> 16 word \<Rightarrow> nat \<Rightarrow> 'w diskio \<Rightarrow> bytes \<times> 'w diskio" where
  "xfer_call E dp seg data numblocks mode s =
     (let dev = dpb_device (kern s) dp; n = unat (dpb_secsize (dpbs s dp)) in
      if 0xa000 \<le> seg \<and> numblocks = 1 \<and> bufloc s \<noteq> 0 then
        let s1 = (if mode = DSKWRITE then s\<lparr>deblock_buf := copy_bytes n data (deblock_buf s)\<rparr> else s);
            s2 = execrh E dev (set_req (\<lambda>r. r\<lparr>r_trans := deblock_buf s1\<rparr>) s1);
            s3 = s2\<lparr>deblock_buf := r_trans (IoReqHdr s2)\<rparr>
        in (if mode = DSKREAD then copy_bytes n (deblock_buf s3) data else data, s3)
      else
        let s2 = execrh E dev (set_req (\<lambda>r. r\<lparr>r_trans := data\<rparr>) s)
        in (r_trans (IoReqHdr s2), s2))"

text \<open>The inner loop asks until it gets one of the four answers.\<close>

partial_function (option) ask_error ::
    "16 word \<Rightarrow> 32 word \<Rightarrow> nat \<Rightarrow> 'w diskio \<Rightarrow> (int \<times> 'w diskio) option" where
  "ask_error drive dev mode s =
     (case block_error drive dev mode s of
        (a, s1) \<Rightarrow> if a = A_ABORT \<or> a = A_FAIL \<or> a = A_RETRY \<or> a = A_CONTINUE then Some (a, s1)
                   else ask_error drive dev mode s1)"

partial_function (option) dskxfer_loop ::
    "'w driver \<Rightarrow> 32 word \<Rightarrow> 32 word \<Rightarrow> 16 word \<Rightarrow> bytes \<Rightarrow> 16 word \<Rightarrow> nat \<Rightarrow> 'w diskio
     \<Rightarrow> (16 word \<times> bytes \<times> 'w diskio) option" where
  "dskxfer_loop E dp blkno seg data numblocks mode s =
     (let s0 = set_req (\<lambda>r. r\<lparr>r_length := 30, r_unit := dpb_subunit (dpbs s dp)\<rparr>) s in
      case xfer_command mode (verify_ena s0) of
        None \<Rightarrow> Some (0x0100, data, s0)
      | Some cmd \<Rightarrow>
          (case xfer_call E dp seg data numblocks mode (xfer_request dp cmd blkno numblocks s0) of
             (data1, s1) \<Rightarrow>
               if r_status (IoReqHdr s1) AND (S_ERROR OR S_DONE) = S_DONE then Some (0, data1, s1)
               else if DSKWRITEINT26 \<le> mode then Some (r_status (IoReqHdr s1), data1, s1)
               else do {
                 (a, s2) \<leftarrow> ask_error (scast (dpb_unit (dpbs s1 dp))) (dpb_device (kern s1) dp) mode s1;
                 (if a = A_ABORT \<or> a = A_FAIL then Some (r_status (IoReqHdr s2), data1, s2)
                  else if a = A_RETRY then dskxfer_loop E dp blkno seg data1 numblocks mode s2
                  else Some (0, data1, s2))
               }))"

definition dskxfer ::
    "'w driver \<Rightarrow> 16 word \<Rightarrow> 32 word \<Rightarrow> 16 word \<Rightarrow> bytes \<Rightarrow> 16 word \<Rightarrow> nat \<Rightarrow> 'w diskio
     \<Rightarrow> (16 word \<times> bytes \<times> 'w diskio) option" where
  "dskxfer E dsk blkno seg data numblocks mode s =
     (case get_dpb dsk s of
        None \<Rightarrow> Some (0x0201, data, s)
      | Some dp \<Rightarrow> dskxfer_loop E dp blkno seg data numblocks mode s)"

section \<open>The ring of buffers\<close>

text \<open>
  A loop \<open>do body; bp = b_next(bp); while (FP_OFF(bp) != FP_OFF(firstbuf))\<close>: the body gets the
  buffer, the loop's variables and the state, and returns from the function with \<open>Inl\<close> or
  goes on with \<open>Inr\<close>.
\<close>

partial_function (option) ring_do ::
    "(16 word \<Rightarrow> 'a \<Rightarrow> 'w diskio \<Rightarrow> ('r + 'a \<times> 'w diskio) option) \<Rightarrow> 16 word \<Rightarrow> 'a \<Rightarrow> 'w diskio
     \<Rightarrow> ('r + 'a \<times> 'w diskio) option" where
  "ring_do body bp a s = do {
     r \<leftarrow> body bp a s;
     (case r of
        Inl x \<Rightarrow> Some (Inl x)
      | Inr as \<Rightarrow> let bp1 = b_next (bufs (snd as) bp) in
          if bp1 = firstbuf (snd as) then Some (Inr as) else ring_do body bp1 (fst as) (snd as))
   }"

definition move_buffer :: "16 word \<Rightarrow> 16 word \<Rightarrow> 'w diskio \<Rightarrow> 'w diskio" where
  "move_buffer bp first s =
     (let s = set_buf (b_next (bufs s bp)) (\<lambda>b. b\<lparr>b_prev := b_prev (bufs s bp)\<rparr>) s;
          s = set_buf (b_prev (bufs s bp)) (\<lambda>b. b\<lparr>b_next := b_next (bufs s bp)\<rparr>) s;
          s = set_buf bp (\<lambda>b. b\<lparr>b_prev := b_prev (bufs s first)\<rparr>) s;
          s = set_buf bp (\<lambda>b. b\<lparr>b_next := first\<rparr>) s;
          s = set_buf (b_next (bufs s bp)) (\<lambda>b. b\<lparr>b_prev := bp\<rparr>) s
      in set_buf (b_prev (bufs s bp)) (\<lambda>b. b\<lparr>b_next := bp\<rparr>) s)"

definition holds_block :: "32 word \<Rightarrow> 16 word \<Rightarrow> buffer \<Rightarrow> bool" where
  "holds_block blkno dsk b \<longleftrightarrow>
     b_blkno b = blkno \<and> flag_set (b_flag b) BFR_VALID \<and> scast (b_unit b) = dsk"

record scan =
  fat_count :: int
  lastNonFat :: "16 word"
  uncacheBuf :: "16 word"

definition search_body ::
    "32 word \<Rightarrow> 16 word \<Rightarrow> 16 word \<Rightarrow> 16 word \<Rightarrow> scan \<Rightarrow> 'w diskio
     \<Rightarrow> (16 word \<times> 'w diskio + scan \<times> 'w diskio) option" where
  "search_body blkno dsk first bp a s =
     (let b = bufs s bp in
      if holds_block blkno dsk b then
        let s1 = set_buf bp (\<lambda>b. b\<lparr>b_flag := b_flag b AND NOT BFR_UNCACHE\<rparr>) s
        in Some (Inl (bp, if bp \<noteq> first then move_buffer bp first (s1\<lparr>firstbuf := bp\<rparr>) else s1))
      else
        let a1 = (if flag_set (b_flag b) BFR_UNCACHE then a\<lparr>uncacheBuf := bp\<rparr> else a)
        in Some (Inr (if flag_set (b_flag b) BFR_FAT then a1\<lparr>fat_count := fat_count a1 + 1\<rparr>
                      else a1\<lparr>lastNonFat := bp\<rparr>, s)))"

text \<open>The buffer to replace: after the loop \<open>bp\<close> is the first buffer again.\<close>

definition victim :: "16 word \<Rightarrow> scan \<Rightarrow> 'w diskio \<Rightarrow> 16 word" where
  "victim first a s =
     (if uncacheBuf a \<noteq> 0 then uncacheBuf a
      else if flag_set (b_flag (bufs s first)) BFR_FAT \<and> fat_count a < 3 \<and> lastNonFat a \<noteq> 0 then lastNonFat a
      else b_prev (bufs s first))"

definition searchblock :: "32 word \<Rightarrow> 16 word \<Rightarrow> 'w diskio \<Rightarrow> (16 word \<times> 'w diskio) option" where
  "searchblock blkno dsk s = do {
     let first = firstbuf s;
     r \<leftarrow> ring_do (search_body blkno dsk first) first \<lparr>fat_count = 0, lastNonFat = 0, uncacheBuf = 0\<rparr> s;
     (case r of
        Inl hit \<Rightarrow> Some hit
      | Inr (a, s1) \<Rightarrow>
          let bp = victim first a s1;
              s2 = set_buf bp (\<lambda>b. b\<lparr>b_flag := b_flag b OR BFR_UNCACHE\<rparr>) s1
          in Some (bp, if bp \<noteq> first then (move_buffer bp first s2)\<lparr>firstbuf := bp\<rparr> else s2))
   }"

section \<open>Writing buffers back\<close>

text \<open>\<open>while (b_copies--)\<close> writes the buffer to every copy of the FAT.\<close>

fun write_copies ::
    "'w driver \<Rightarrow> 16 word \<Rightarrow> nat \<Rightarrow> 32 word \<Rightarrow> 32 word \<Rightarrow> bool \<Rightarrow> 'w diskio \<Rightarrow> (bool \<times> 'w diskio) option" where
  "write_copies E bp 0 blkno off ok s = Some (ok, s)"
| "write_copies E bp (Suc n) blkno off ok s = do {
     (st, d, s1) \<leftarrow> dskxfer E (scast (b_unit (bufs s bp))) blkno (buf_seg s) (b_buffer (bufs s bp)) 1 DSKWRITE s;
     write_copies E bp n (blkno + off) off (ok \<and> st = 0) (set_buf bp (\<lambda>b. b\<lparr>b_buffer := d\<rparr>) s1)
   }"

definition flush1 :: "'w driver \<Rightarrow> 16 word \<Rightarrow> 'w diskio \<Rightarrow> (bool \<times> 'w diskio) option" where
  "flush1 E bp s = do {
     let b = bufs s bp;
     (ok, s1) \<leftarrow>
       (if b_flag b AND (BFR_VALID OR BFR_DIRTY) = BFR_VALID OR BFR_DIRTY then
          if flag_set (b_flag b) BFR_FAT then
            write_copies E bp (unat (b_copies b)) (b_blkno b)
              (if b_offset b = 0 then dpb_xfatsize (dpbs s (b_dpbp b)) else ucast (b_offset b)) True s
          else write_copies E bp 1 (b_blkno b) 0 True s
        else Some (True, s));
     let s2 = set_buf bp (\<lambda>b. b\<lparr>b_flag := b_flag b AND NOT BFR_DIRTY\<rparr>) s1;
     Some (ok, if ok then s2 else set_buf bp (\<lambda>b. b\<lparr>b_flag := b_flag b AND NOT BFR_VALID\<rparr>) s2)
   }"

section \<open>Fetching a block\<close>

definition getblk ::
    "'w driver \<Rightarrow> 32 word \<Rightarrow> 16 word \<Rightarrow> bool \<Rightarrow> 'w diskio \<Rightarrow> (16 word option \<times> 'w diskio) option" where
  "getblk E blkno dsk overwrite s = do {
     (bp, s1) \<leftarrow> searchblock blkno dsk s;
     (if \<not> flag_set (b_flag (bufs s1 bp)) BFR_UNCACHE then Some (Some bp, s1)
      else do {
        (ok, s2) \<leftarrow> flush1 E bp s1;
        (if \<not> ok then Some (None, s2)
         else do {
           (st, s3) \<leftarrow>
             (if overwrite then Some (0, s2)
              else do {
                (st, d, s3) \<leftarrow> dskxfer E dsk blkno (buf_seg s2) (b_buffer (bufs s2 bp)) 1 DSKREAD s2;
                Some (st, set_buf bp (\<lambda>b. b\<lparr>b_buffer := d\<rparr>) s3)
              });
           (if st \<noteq> 0 then Some (None, s3)
            else Some (Some bp, set_buf bp (\<lambda>b. b\<lparr>b_flag := BFR_VALID OR BFR_DATA, b_unit := ucast dsk,
                                                  b_blkno := blkno\<rparr>) s3))
         })
      })
   }"

definition getblock :: "'w driver \<Rightarrow> 32 word \<Rightarrow> 16 word \<Rightarrow> 'w diskio \<Rightarrow> (16 word option \<times> 'w diskio) option" where
  "getblock E blkno dsk s = getblk E blkno dsk False s"

section \<open>Operations on all buffers\<close>

definition ring_state :: "('r + 'a \<times> 'w diskio) option \<Rightarrow> ('a \<times> 'w diskio) option" where
  "ring_state r = (case r of Some (Inr x) \<Rightarrow> Some x | _ \<Rightarrow> None)"

definition DeleteBlockInBufferCache ::
    "'w driver \<Rightarrow> 32 word \<Rightarrow> 32 word \<Rightarrow> 16 word \<Rightarrow> nat \<Rightarrow> 'w diskio \<Rightarrow> 'w diskio option" where
  "DeleteBlockInBufferCache E blknolow blknohigh dsk mode s =
     map_option snd (ring_state (ring_do (\<lambda>bp (a :: unit) s.
       let b = bufs s bp in
       if blknolow \<le> b_blkno b \<and> b_blkno b \<le> blknohigh \<and> flag_set (b_flag b) BFR_VALID
          \<and> scast (b_unit b) = dsk then
         if mode = XFR_READ then do { (ok, s1) \<leftarrow> flush1 E bp s; Some (Inr ((), s1)) }
         else Some (Inr ((), set_buf bp (\<lambda>b. b\<lparr>b_flag := 0\<rparr>) s))
       else Some (Inr ((), s) :: unit + unit \<times> 'w diskio)) (firstbuf s) () s))"

definition setinvld :: "16 word \<Rightarrow> 'w diskio \<Rightarrow> 'w diskio option" where
  "setinvld dsk s =
     map_option snd (ring_state (ring_do (\<lambda>bp (a :: unit) s.
       Some (Inr ((), if scast (b_unit (bufs s bp)) = dsk then set_buf bp (\<lambda>b. b\<lparr>b_flag := 0\<rparr>) s else s)
             :: unit + unit \<times> 'w diskio)) (firstbuf s) () s))"

definition dirty_buffers :: "16 word \<Rightarrow> 'w diskio \<Rightarrow> bool option" where
  "dirty_buffers dsk s =
     map_option (\<lambda>r. case r of Inl x \<Rightarrow> x | Inr _ \<Rightarrow> False) (ring_do (\<lambda>bp (a :: unit) s.
       let b = bufs s bp in
       Some (if scast (b_unit b) = dsk \<and> b_flag b AND (BFR_VALID OR BFR_DIRTY) = BFR_VALID OR BFR_DIRTY
             then Inl True else Inr ((), s))) (firstbuf s) () s)"

definition flush_buffers :: "'w driver \<Rightarrow> 16 word \<Rightarrow> 'w diskio \<Rightarrow> (bool \<times> 'w diskio) option" where
  "flush_buffers E dsk s =
     ring_state (ring_do (\<lambda>bp ok s.
       if scast (b_unit (bufs s bp)) = dsk then do {
         (ok1, s1) \<leftarrow> flush1 E bp s;
         Some (Inr (ok \<and> ok1, s1))
       } else Some (Inr (ok, s) :: unit + bool \<times> 'w diskio)) (firstbuf s) True s)"

text \<open>\<open>flushall\<close> is the call of the network redirector at the end.\<close>

definition flush_all :: "'w driver \<Rightarrow> ('w diskio \<Rightarrow> 'w diskio) \<Rightarrow> 'w diskio \<Rightarrow> (bool \<times> 'w diskio) option" where
  "flush_all E flushall s =
     map_option (\<lambda>(ok, s1). (ok, flushall s1))
       (ring_state (ring_do (\<lambda>bp ok s. do {
         (ok1, s1) \<leftarrow> flush1 E bp s;
         Some (Inr (ok \<and> ok1, set_buf bp (\<lambda>b. b\<lparr>b_flag := b_flag b AND NOT BFR_VALID\<rparr>) s1)
               :: unit + bool \<times> 'w diskio)
       }) (firstbuf s) True s))"

section \<open>Setting up the ring\<close>

definition buffer_zero :: buffer where
  "buffer_zero = \<lparr>b_next = 0, b_prev = 0, b_unit = 0, b_flag = 0, b_blkno = 0, b_copies = 0,
     b_offset = 0, b_dpbp = 0, b_buffer = (\<lambda>_. 0)\<rparr>"

definition sizeof_buffer :: "16 word" where
  "sizeof_buffer = 0x214"

text \<open>The loop \<open>do ... while (--i)\<close>; the result is the last buffer.\<close>

fun link_buffers :: "nat \<Rightarrow> 16 word \<Rightarrow> 'w diskio \<Rightarrow> 16 word \<times> 'w diskio" where
  "link_buffers 0 p s = (p, s)"
| "link_buffers (Suc i) p s =
     (let s1 = set_buf p (\<lambda>b. b\<lparr>b_next := p + sizeof_buffer\<rparr>) s;
          p1 = p + sizeof_buffer
      in link_buffers i p1 (set_buf p1 (\<lambda>b. b\<lparr>b_prev := p1 - sizeof_buffer\<rparr>) s1))"

text \<open>\<open>seg\<close> and \<open>off\<close> are the address \<open>KernelAlloc\<close> returns, which clears the memory;
  \<open>xferbuf\<close> is what \<open>DiskTransferBuffer\<close> holds.\<close>

definition config_init_buffers ::
    "int \<Rightarrow> 16 word \<Rightarrow> 16 word \<Rightarrow> bytes \<Rightarrow> 'w diskio \<Rightarrow> 'w diskio" where
  "config_init_buffers wanted seg off xferbuf s =
     (let w1 = (if wanted < 0 then - wanted else wanted);
          w2 = (if w1 < 3 then 3 else w1);
          n = nat (if 99 < w2 then 99 else w2);
          s1 = s\<lparr>nbuffers := int n, bufs := (\<lambda>_. buffer_zero), buf_seg := seg, deblock_buf := xferbuf,
                 firstbuf := off\<rparr>;
          s2 = set_buf off (\<lambda>b. b\<lparr>b_prev := off + of_nat (n - 1) * sizeof_buffer\<rparr>) s1
      in case link_buffers (n - 1) off s2 of
           (p, s3) \<Rightarrow> set_buf p (\<lambda>b. b\<lparr>b_next := p - of_nat (n - 1) * sizeof_buffer\<rparr>) s3)"

end
