(* ===== verification/Blockio_Proofs.thy ===== *)
theory Blockio_Proofs
  imports Blockio
begin

text \<open>
  The ring of buffers as the list of its offsets in the order of use, the loops over the ring
  as recursions over that list, and what each operation of the cache does to it.
\<close>

section \<open>The ring\<close>

fun linked :: "(16 word \<Rightarrow> buffer) \<Rightarrow> 16 word list \<Rightarrow> bool" where
  "linked m (x # y # zs) \<longleftrightarrow> b_next (m x) = y \<and> b_prev (m y) = x \<and> linked m (y # zs)"
| "linked m _ \<longleftrightarrow> True"

definition ring :: "(16 word \<Rightarrow> buffer) \<Rightarrow> 16 word list \<Rightarrow> bool" where
  "ring m xs \<longleftrightarrow> xs \<noteq> [] \<and> distinct xs \<and> linked m xs
     \<and> b_next (m (last xs)) = hd xs \<and> b_prev (m (hd xs)) = last xs"

lemma linked_snoc:
  "linked m (xs @ [z]) \<longleftrightarrow> linked m xs \<and> (xs \<noteq> [] \<longrightarrow> b_next (m (last xs)) = z \<and> b_prev (m z) = last xs)"
  by (induction m xs rule: linked.induct) auto

lemma linked_Cons:
  "linked m (x # xs) \<longleftrightarrow> linked m xs \<and> (xs \<noteq> [] \<longrightarrow> b_next (m x) = hd xs \<and> b_prev (m (hd xs)) = x)"
  by (cases xs) auto

lemma linked_cong:
  "\<forall>x \<in> set (butlast xs). b_next (m x) = b_next (m' x) \<Longrightarrow>
   \<forall>x \<in> set (tl xs). b_prev (m x) = b_prev (m' x) \<Longrightarrow> linked m xs = linked m' xs"
  by (induction m xs rule: linked.induct) (auto split: if_splits)

lemma ring_rotate1: "ring m (x # xs) \<longleftrightarrow> ring m (xs @ [x])"
  by (cases "xs = []") (auto simp: ring_def linked_snoc linked_Cons)

lemma ring_rotate: "ring m (xs @ ys) \<longleftrightarrow> ring m (ys @ xs)"
proof (induction xs arbitrary: ys)
  case (Cons x xs)
  have "ring m (x # xs @ ys) \<longleftrightarrow> ring m (xs @ (ys @ [x]))" using ring_rotate1[of m x "xs @ ys"] by simp
  also have "\<dots> \<longleftrightarrow> ring m (ys @ [x] @ xs)" using Cons.IH[of "ys @ [x]"] by simp
  finally show ?case by simp
qed simp

lemma ring_cong:
  assumes "\<forall>x \<in> set xs. b_next (m x) = b_next (m' x) \<and> b_prev (m x) = b_prev (m' x)"
  shows "ring m xs = ring m' xs"
proof (cases "xs = []")
  case False
  have "linked m xs = linked m' xs"
    by (rule linked_cong) (use assms in \<open>auto dest: in_set_butlastD list.set_sel(2)[OF False]\<close>)
  then show ?thesis using assms False by (simp add: ring_def)
qed (simp add: ring_def)

lemma not_last_in_butlast: "distinct xs \<Longrightarrow> z \<in> set (butlast xs) \<Longrightarrow> z \<noteq> last xs"
  by (induction xs) (auto split: if_splits)

text \<open>Taking the first buffer out of the ring, and putting one in front.\<close>

lemma ring_remove:
  assumes r: "ring m (x # y # ys)"
    and n: "\<forall>z \<in> set (y # ys). b_next (m' z) = (if z = last (y # ys) then y else b_next (m z))"
    and p: "\<forall>z \<in> set (y # ys). b_prev (m' z) = (if z = y then last (y # ys) else b_prev (m z))"
  shows "ring m' (y # ys)"
proof -
  have d: "distinct (y # ys)" and l: "linked m (y # ys)" using r by (auto simp: ring_def linked_Cons)
  have "linked m (y # ys) = linked m' (y # ys)"
  proof (rule linked_cong)
    show "\<forall>x \<in> set (butlast (y # ys)). b_next (m x) = b_next (m' x)"
      using n not_last_in_butlast[OF d] by (metis in_set_butlastD)
    show "\<forall>x \<in> set (tl (y # ys)). b_prev (m x) = b_prev (m' x)"
      using p d by auto
  qed
  then show ?thesis using d l n p by (simp add: ring_def)
qed

lemma ring_insert:
  assumes r: "ring m (y # ys)" and x: "x \<notin> set (y # ys)"
    and n: "\<forall>z \<in> set (y # ys). b_next (m' z) = (if z = last (y # ys) then x else b_next (m z))"
    and p: "\<forall>z \<in> set (y # ys). b_prev (m' z) = (if z = y then x else b_prev (m z))"
    and xn: "b_next (m' x) = y" and xp: "b_prev (m' x) = last (y # ys)"
  shows "ring m' (x # y # ys)"
proof -
  have d: "distinct (y # ys)" and l: "linked m (y # ys)" using r by (auto simp: ring_def)
  have "linked m (y # ys) = linked m' (y # ys)"
  proof (rule linked_cong)
    show "\<forall>x \<in> set (butlast (y # ys)). b_next (m x) = b_next (m' x)"
      using n not_last_in_butlast[OF d] by (metis in_set_butlastD)
    show "\<forall>x \<in> set (tl (y # ys)). b_prev (m x) = b_prev (m' x)"
      using p d by auto
  qed
  then show ?thesis using d l n p x xn xp by (auto simp: ring_def)
qed

section \<open>Moving a buffer to the front\<close>

definition same_data :: "(16 word \<Rightarrow> buffer) \<Rightarrow> (16 word \<Rightarrow> buffer) \<Rightarrow> bool" where
  "same_data m m' \<longleftrightarrow> (\<forall>x. b_unit (m' x) = b_unit (m x) \<and> b_flag (m' x) = b_flag (m x)
     \<and> b_blkno (m' x) = b_blkno (m x) \<and> b_copies (m' x) = b_copies (m x) \<and> b_offset (m' x) = b_offset (m x)
     \<and> b_dpbp (m' x) = b_dpbp (m x) \<and> b_buffer (m' x) = b_buffer (m x))"

lemma same_data_refl [simp]: "same_data m m"
  by (simp add: same_data_def)

lemma same_data_set_buf [simp]:
  "same_data m (bufs (set_buf p (\<lambda>b. b\<lparr>b_next := n\<rparr>) s)) = same_data m (bufs s)"
  "same_data m (bufs (set_buf p (\<lambda>b. b\<lparr>b_prev := n\<rparr>) s)) = same_data m (bufs s)"
  by (auto simp: same_data_def set_buf_def)

lemma set_buf_simps [simp]:
  "bufs (set_buf p f s) = (bufs s)(p := f (bufs s p))"
  "firstbuf (set_buf p f s) = firstbuf s" "kern (set_buf p f s) = kern s"
  "buf_seg (set_buf p f s) = buf_seg s" "dpbs (set_buf p f s) = dpbs s"
  "verify_ena (set_buf p f s) = verify_ena s" "bufloc (set_buf p f s) = bufloc s"
  "deblock_buf (set_buf p f s) = deblock_buf s" "IoReqHdr (set_buf p f s) = IoReqHdr s"
  "CritErrCode (set_buf p f s) = CritErrCode s" "nbuffers (set_buf p f s) = nbuffers s"
  by (simp_all add: set_buf_def)

lemma set_buf_more: "set_buf p f s = s\<lparr>bufs := (bufs s)(p := f (bufs s p))\<rparr>"
  by (simp add: set_buf_def)

lemma move_buffer_only_bufs: "move_buffer bp first s = s\<lparr>bufs := bufs (move_buffer bp first s)\<rparr>"
  by (simp add: move_buffer_def Let_def set_buf_more)

lemma move_buffer_same: "same_data (bufs s) (bufs (move_buffer bp first s))"
  unfolding move_buffer_def Let_def by (simp del: set_buf_simps)

lemma move_buffer_bufs:
  assumes "b_next (bufs s x) = n" "b_prev (bufs s x) = p" "n \<noteq> x" "p \<noteq> x" "a \<noteq> x" "l \<noteq> x"
    and m1: "m1 = (\<lambda>m. m(p := (m p)\<lparr>b_next := n\<rparr>)) ((bufs s)(n := (bufs s n)\<lparr>b_prev := p\<rparr>))"
    and l: "b_prev (m1 a) = l" and m2: "m2 = m1(x := (m1 x)\<lparr>b_prev := l, b_next := a\<rparr>)"
  shows "bufs (move_buffer x a s) = (\<lambda>m. m(l := (m l)\<lparr>b_next := x\<rparr>)) (m2(a := (m2 a)\<lparr>b_prev := x\<rparr>))"
proof -
  define s1 where "s1 = set_buf p (\<lambda>b. b\<lparr>b_next := n\<rparr>) (set_buf n (\<lambda>b. b\<lparr>b_prev := p\<rparr>) s)"
  have s1: "bufs s1 = m1" by (simp add: s1_def m1 del: fun_upd_apply)
  define s2 where "s2 = set_buf x (\<lambda>b. b\<lparr>b_next := a\<rparr>) (set_buf x (\<lambda>b. b\<lparr>b_prev := b_prev (bufs s1 a)\<rparr>) s1)"
  have s2: "bufs s2 = m2" using l by (simp add: s2_def s1 m2)
  have "move_buffer x a s = set_buf l (\<lambda>b. b\<lparr>b_next := x\<rparr>) (set_buf a (\<lambda>b. b\<lparr>b_prev := x\<rparr>) s2)"
  proof -
    have "bufs s2 x = (m1 x)\<lparr>b_prev := l, b_next := a\<rparr>" using s2 m2 by simp
    then have x2: "b_next (bufs s2 x) = a" "b_prev (bufs s2 x) = l" by auto
    have "move_buffer x a s = set_buf (b_prev (bufs (set_buf (b_next (bufs s2 x)) (\<lambda>b. b\<lparr>b_prev := x\<rparr>) s2) x))
        (\<lambda>b. b\<lparr>b_next := x\<rparr>) (set_buf (b_next (bufs s2 x)) (\<lambda>b. b\<lparr>b_prev := x\<rparr>) s2)"
      using assms(1-4) by (simp add: move_buffer_def Let_def s2_def s1_def fun_upd_other del: fun_upd_apply)
    then show ?thesis using x2 assms(5) by (simp add: fun_upd_other del: fun_upd_apply)
  qed
  then show ?thesis by (simp add: s2 del: fun_upd_apply)
qed

lemma move_buffer_ring:
  assumes r: "ring (bufs s) (a # pre @ x # post)"
  shows "ring (bufs (move_buffer x a s)) (x # a # pre @ post)"
proof -
  let ?m = "bufs s"
  let ?ys = "post @ a # pre"
  let ?p = "last (a # pre)" and ?n = "hd (post @ [a])"
  have rx: "ring ?m (x # ?ys)" using r ring_rotate[of ?m "a # pre" "x # post"] by simp
  have d: "x \<notin> set ?ys" "distinct ?ys" using rx by (auto simp: ring_def)
  obtain y ys where y: "?ys = y # ys" by (cases ?ys) auto
  have yn: "y = ?n" using y by (cases post) auto
  have ln: "last ?ys = ?p" by simp
  have "b_next (?m x) = y" "b_prev (?m x) = ?p"
    using rx y ln by (auto simp: ring_def linked_Cons)
  then have nx: "b_next (?m x) = ?n" "b_prev (?m x) = ?p" using yn by auto
  have np: "?n \<in> set ?ys" "?p \<in> set ?ys" "?n \<noteq> x" "?p \<noteq> x"
    using d y yn ln by (metis list.set_intros(1), metis last_in_set list.distinct(1) y, metis list.set_intros(1),
      metis last_in_set list.distinct(1) y)
  define m1 where "m1 = (\<lambda>m. m(?p := (m ?p)\<lparr>b_next := ?n\<rparr>)) (?m(?n := (?m ?n)\<lparr>b_prev := ?p\<rparr>))"
  have "ring m1 (y # ys)"
    by (rule ring_remove[of ?m x]) (use rx y yn ln in \<open>auto simp: m1_def simp del: last.simps hd_append\<close>)
  then have "ring m1 (post @ a # pre)" using y by simp
  then have r1: "ring m1 (a # pre @ post)" using ring_rotate[of m1 post "a # pre"] by simp
  have m1x: "m1 x = ?m x" using np by (simp add: m1_def)
  let ?l = "last (a # pre @ post)"
  have l: "b_prev (m1 a) = ?l" using r1 by (simp add: ring_def)
  have "?l \<in> set (a # pre @ post)" by (rule last_in_set) simp
  moreover have "x \<notin> set (a # pre @ post)" using d by auto
  ultimately have ax: "a \<noteq> x" "?l \<noteq> x" by auto
  define m2 where "m2 = m1(x := (m1 x)\<lparr>b_prev := ?l, b_next := a\<rparr>)"
  define m3 where "m3 = (\<lambda>m. m(?l := (m ?l)\<lparr>b_next := x\<rparr>)) (m2(a := (m2 a)\<lparr>b_prev := x\<rparr>))"
  have e: "bufs (move_buffer x a s) = m3"
    unfolding m3_def by (rule move_buffer_bufs[OF nx np(3,4) ax m1_def l m2_def])
  have "ring m3 (x # a # (pre @ post))"
    by (rule ring_insert[OF r1]) (use d ax in \<open>auto simp: m3_def m2_def simp del: last.simps\<close>)
  then show ?thesis by (simp add: e)
qed

section \<open>Loops over the ring\<close>

definition lru :: "'w diskio \<Rightarrow> 16 word list \<Rightarrow> bool" where
  "lru s os \<longleftrightarrow> ring (bufs s) os \<and> firstbuf s = hd os"

definition same_links :: "'w diskio \<Rightarrow> 'w diskio \<Rightarrow> bool" where
  "same_links s s' \<longleftrightarrow> firstbuf s' = firstbuf s
     \<and> (\<forall>y. b_next (bufs s' y) = b_next (bufs s y) \<and> b_prev (bufs s' y) = b_prev (bufs s y))"

lemma same_links_refl [simp]: "same_links s s"
  by (simp add: same_links_def)

lemma same_links_trans: "same_links s s' \<Longrightarrow> same_links s' s'' \<Longrightarrow> same_links s s''"
  by (simp add: same_links_def)

lemma lru_same_links: "same_links s s' \<Longrightarrow> lru s os \<Longrightarrow> lru s' os"
  unfolding lru_def same_links_def by (metis ring_cong)

definition keeps_links :: "(16 word \<Rightarrow> 'a \<Rightarrow> 'w diskio \<Rightarrow> ('r + 'a \<times> 'w diskio) option) \<Rightarrow> bool" where
  "keeps_links body \<longleftrightarrow> (\<forall>x a s a' s'. body x a s = Some (Inr (a', s')) \<longrightarrow> same_links s s')"

fun list_do ::
    "(16 word \<Rightarrow> 'a \<Rightarrow> 'w diskio \<Rightarrow> ('r + 'a \<times> 'w diskio) option) \<Rightarrow> 16 word list \<Rightarrow> 'a \<Rightarrow> 'w diskio
     \<Rightarrow> ('r + 'a \<times> 'w diskio) option" where
  "list_do body [] a s = Some (Inr (a, s))"
| "list_do body (x # xs) a s =
     Option.bind (body x a s) (\<lambda>r. case r of Inl y \<Rightarrow> Some (Inl y) | Inr as \<Rightarrow> list_do body xs (fst as) (snd as))"

lemma ring_do_suffix:
  assumes "keeps_links body"
  shows "linked (bufs s) (x # xs) \<Longrightarrow> b_next (bufs s (last (x # xs))) = firstbuf s \<Longrightarrow> firstbuf s \<notin> set xs \<Longrightarrow>
    ring_do body x a s = list_do body (x # xs) a s"
proof (induction xs arbitrary: x a s)
  case Nil
  then show ?case
    using assms by (subst ring_do.simps)
      (auto simp: keeps_links_def same_links_def Let_def split: Option.bind_splits sum.splits)
next
  case (Cons y ys)
  show ?case
  proof (cases "body x a s")
    case (Some r)
    show ?thesis
    proof (cases r)
      case (Inr as)
      obtain a' s' where as: "as = (a', s')" by (cases as)
      have sl: "same_links s s'" using assms Some Inr as by (auto simp: keeps_links_def)
      have "linked (bufs s) (y # ys)" using Cons.prems(1) by simp
      then have l: "linked (bufs s') (y # ys)"
        using sl linked_cong[of "y # ys" "bufs s" "bufs s'"] by (simp add: same_links_def)
      have n: "b_next (bufs s' x) = y" using sl Cons.prems(1) by (simp add: same_links_def)
      have "ring_do body y a' s' = list_do body (y # ys) a' s'"
        by (rule Cons.IH) (use l sl Cons.prems in \<open>auto simp: same_links_def\<close>)
      moreover have "y \<noteq> firstbuf s'" using sl Cons.prems(3) by (auto simp: same_links_def)
      ultimately show ?thesis using Some Inr as n by (subst ring_do.simps) (simp add: Let_def)
    qed (use Some in \<open>simp add: ring_do.simps[of body x]\<close>)
  qed (simp add: ring_do.simps[of body x])
qed

lemma ring_do_list:
  assumes "keeps_links body" "lru s os"
  shows "ring_do body (firstbuf s) a s = list_do body os a s"
proof -
  obtain x xs where os: "os = x # xs" using assms(2) by (cases os) (auto simp: lru_def ring_def)
  show ?thesis unfolding os
    using ring_do_suffix[OF assms(1), of s x xs a] assms(2) os by (auto simp: lru_def ring_def)
qed

section \<open>The search is a move-to-front list\<close>

definition scan_step :: "(16 word \<Rightarrow> buffer) \<Rightarrow> 16 word \<Rightarrow> scan \<Rightarrow> scan" where
  "scan_step m x a =
     (let a1 = (if flag_set (b_flag (m x)) BFR_UNCACHE then a\<lparr>uncacheBuf := x\<rparr> else a)
      in if flag_set (b_flag (m x)) BFR_FAT then a1\<lparr>fat_count := fat_count a1 + 1\<rparr> else a1\<lparr>lastNonFat := x\<rparr>)"

lemma search_list:
  "list_do (search_body blkno dsk first) xs a s =
     (case find (\<lambda>x. holds_block blkno dsk (bufs s x)) xs of
        Some x \<Rightarrow> Some (Inl (x, let s1 = set_buf x (\<lambda>b. b\<lparr>b_flag := b_flag b AND NOT BFR_UNCACHE\<rparr>) s
                              in if x \<noteq> first then move_buffer x first (s1\<lparr>firstbuf := x\<rparr>) else s1))
      | None \<Rightarrow> Some (Inr (fold (scan_step (bufs s)) xs a, s)))"
  by (induction xs arbitrary: a) (auto simp: search_body_def Let_def scan_step_def split: option.splits)

lemma search_keeps_links: "keeps_links (search_body blkno dsk first)"
  by (auto simp: keeps_links_def search_body_def Let_def split: if_splits)

text \<open>The buffer to replace, on the list of buffers in the order of use. An offset of 0 in
  \<open>uncacheBuf\<close> or \<open>lastNonFat\<close> counts as none.\<close>

definition lru_victim :: "(16 word \<Rightarrow> buffer) \<Rightarrow> 16 word list \<Rightarrow> 16 word" where
  "lru_victim m os =
     (let un = filter (\<lambda>x. flag_set (b_flag (m x)) BFR_UNCACHE) os;
          nf = filter (\<lambda>x. \<not> flag_set (b_flag (m x)) BFR_FAT) os in
      if un \<noteq> [] \<and> last un \<noteq> 0 then last un
      else if flag_set (b_flag (m (hd os))) BFR_FAT \<and> length os - length nf < 3 \<and> nf \<noteq> [] \<and> last nf \<noteq> 0 then last nf
      else last os)"

text \<open>What the comments of \<open>blockio.c\<close> say: \<open>UNCACHE\<close> buffers are recycled first; then the last
  buffer in the chain or, when fewer than three buffers hold a FAT, the last that does not.\<close>

definition fat_count_low :: "(16 word \<Rightarrow> buffer) \<Rightarrow> 16 word list \<Rightarrow> bool" where
  "fat_count_low m os \<longleftrightarrow> length (filter (\<lambda>x. flag_set (b_flag (m x)) BFR_FAT) os) < 3"

definition documented_victim :: "(16 word \<Rightarrow> buffer) \<Rightarrow> 16 word list \<Rightarrow> 16 word" where
  "documented_victim m os =
     (let un = filter (\<lambda>x. flag_set (b_flag (m x)) BFR_UNCACHE) os;
          nf = filter (\<lambda>x. \<not> flag_set (b_flag (m x)) BFR_FAT) os in
      if un \<noteq> [] then last un
      else if fat_count_low m os \<and> nf \<noteq> [] then last nf
      else last os)"

lemma last_filter_eq: "os \<noteq> [] \<Longrightarrow> P (last os) \<Longrightarrow> filter P os \<noteq> [] \<and> last (filter P os) = last os"
  by (induction os rule: rev_induct) auto

lemma last_filter_sat: "filter P os \<noteq> [] \<Longrightarrow> last (filter P os) \<in> set os \<and> P (last (filter P os))"
  using last_in_set[of "filter P os"] by simp

lemma scan_fold:
  "uncacheBuf (fold (scan_step m) xs a) =
     (let un = filter (\<lambda>x. flag_set (b_flag (m x)) BFR_UNCACHE) xs in if un = [] then uncacheBuf a else last un)"
  "lastNonFat (fold (scan_step m) xs a) =
     (let nf = filter (\<lambda>x. \<not> flag_set (b_flag (m x)) BFR_FAT) xs in if nf = [] then lastNonFat a else last nf)"
  "fat_count (fold (scan_step m) xs a) =
     fat_count a + int (length (filter (\<lambda>x. flag_set (b_flag (m x)) BFR_FAT) xs))"
  by (induction xs arbitrary: a) (auto simp: scan_step_def Let_def)

lemma length_filter_not: "length xs - length (filter (\<lambda>x. \<not> P x) xs) = length (filter P xs)"
  using sum_length_filter_compl[of P xs] by simp

text \<open>The code follows its comments on buffers that do not lie at offset 0, but for one case: no
  buffer is \<open>UNCACHE\<close>, too few hold a FAT, the last does and the first, which the code tests in
  its place, does not.\<close>

lemma lru_victim_documented:
  assumes "os \<noteq> []" "0 \<notin> set os"
  shows "lru_victim m os = documented_victim m os \<longleftrightarrow>
     (\<exists>x \<in> set os. flag_set (b_flag (m x)) BFR_UNCACHE) \<or> \<not> fat_count_low m os
     \<or> flag_set (b_flag (m (hd os))) BFR_FAT \<or> \<not> flag_set (b_flag (m (last os))) BFR_FAT"
proof -
  let ?un = "filter (\<lambda>x. flag_set (b_flag (m x)) BFR_UNCACHE) os"
  let ?nf = "filter (\<lambda>x. \<not> flag_set (b_flag (m x)) BFR_FAT) os"
  have un: "(\<exists>x \<in> set os. flag_set (b_flag (m x)) BFR_UNCACHE) \<longleftrightarrow> ?un \<noteq> []" by (auto simp: filter_empty_conv)
  have l: "?un \<noteq> [] \<Longrightarrow> last ?un \<noteq> 0" "?nf \<noteq> [] \<Longrightarrow> last ?nf \<noteq> 0"
    using last_filter_sat[of _ os] assms(2) by metis+
  have h: "\<not> flag_set (b_flag (m (hd os))) BFR_FAT \<Longrightarrow> ?nf \<noteq> []"
    using assms(1) by (cases os) auto
  have e: "\<not> flag_set (b_flag (m (last os))) BFR_FAT \<Longrightarrow> ?nf \<noteq> [] \<and> last ?nf = last os"
    by (rule last_filter_eq[OF assms(1)])
  have d: "flag_set (b_flag (m (last os))) BFR_FAT \<Longrightarrow> ?nf \<noteq> [] \<Longrightarrow> last ?nf \<noteq> last os"
    using last_filter_sat[of "\<lambda>x. \<not> flag_set (b_flag (m x)) BFR_FAT" os] by metis
  show ?thesis
    unfolding lru_victim_def documented_victim_def Let_def un length_filter_not fat_count_low_def[symmetric]
    using l h e d by (cases "?un = []"; cases "?nf = []") (auto split: if_splits)
qed

lemma victim_eq:
  "b_prev (bufs s (hd os)) = last os \<Longrightarrow>
   victim (hd os) (fold (scan_step (bufs s)) os \<lparr>fat_count = 0, lastNonFat = 0, uncacheBuf = 0\<rparr>) s
     = lru_victim (bufs s) os"
  by (auto simp: victim_def lru_victim_def scan_fold Let_def length_filter_not)

lemma lru_victim_in: "os \<noteq> [] \<Longrightarrow> lru_victim m os \<in> set os"
proof -
  assume "os \<noteq> []"
  moreover have "\<And>P. filter P os \<noteq> [] \<Longrightarrow> last (filter P os) \<in> set os"
    by (metis filter_is_subset last_in_set subset_iff)
  ultimately show ?thesis by (auto simp: lru_victim_def Let_def)
qed

definition flagged :: "16 word \<Rightarrow> (8 word \<Rightarrow> 8 word) \<Rightarrow> (16 word \<Rightarrow> buffer) \<Rightarrow> 16 word \<Rightarrow> buffer" where
  "flagged x f m = m(x := (m x)\<lparr>b_flag := f (b_flag (m x))\<rparr>)"

lemma flagged_set_buf: "bufs (set_buf x (\<lambda>b. b\<lparr>b_flag := f (b_flag b)\<rparr>) s) = flagged x f (bufs s)"
  by (simp add: flagged_def)

lemma same_links_flag [simp]: "same_links s (set_buf x (\<lambda>b. b\<lparr>b_flag := f b\<rparr>) s)"
  by (simp add: same_links_def)

lemma move_to_front:
  assumes l: "lru s (a # xs)" and x: "x \<in> set xs"
  shows "lru ((move_buffer x a s)\<lparr>firstbuf := x\<rparr>) (x # remove1 x (a # xs))"
proof -
  obtain pre post where xs: "xs = pre @ x # post" "x \<notin> set pre"
    using x by (meson split_list_first)
  have "x \<noteq> a" using l x by (auto simp: lru_def ring_def)
  then have "remove1 x (a # xs) = a # pre @ post" using xs by (simp add: remove1_append)
  then show ?thesis using move_buffer_ring[of s a pre x post] l xs by (simp add: lru_def)
qed

lemma move_buffer_firstbuf: "move_buffer x a (s\<lparr>firstbuf := y\<rparr>) = (move_buffer x a s)\<lparr>firstbuf := y\<rparr>"
  by (simp add: move_buffer_def Let_def set_buf_def)

text \<open>A buffer is brought to the front of the list with a new flag; nothing else changes.\<close>

definition to_front :: "16 word \<Rightarrow> (8 word \<Rightarrow> 8 word) \<Rightarrow> 'w diskio \<Rightarrow> 'w diskio \<Rightarrow> bool" where
  "to_front x f s s' \<longleftrightarrow> same_data (flagged x f (bufs s)) (bufs s') \<and> s' = s\<lparr>bufs := bufs s', firstbuf := x\<rparr>"

definition bring_front :: "16 word \<Rightarrow> (8 word \<Rightarrow> 8 word) \<Rightarrow> 'w diskio \<Rightarrow> 'w diskio" where
  "bring_front x f s =
     (let s1 = set_buf x (\<lambda>b. b\<lparr>b_flag := f (b_flag b)\<rparr>) s
      in if x \<noteq> firstbuf s then (move_buffer x (firstbuf s) s1)\<lparr>firstbuf := x\<rparr> else s1)"

lemma remove1_hd: "os \<noteq> [] \<Longrightarrow> hd os # remove1 (hd os) os = os"
  by (cases os) auto

lemma bring_front:
  assumes l: "lru s os" and x: "x \<in> set os"
  shows "lru (bring_front x f s) (x # remove1 x os) \<and> to_front x f s (bring_front x f s)"
proof -
  let ?s1 = "set_buf x (\<lambda>b. b\<lparr>b_flag := f (b_flag b)\<rparr>) s"
  have l1: "lru ?s1 os" by (rule lru_same_links[OF same_links_flag l])
  obtain a xs where os: "os = a # xs" using x by (cases os) auto
  have a: "firstbuf s = a" using l os by (simp add: lru_def)
  show ?thesis
  proof (cases "x = a")
    case True
    then show ?thesis using l1 a os
      by (simp add: bring_front_def to_front_def Let_def) (simp add: set_buf_def flagged_def)
  next
    case False
    then have "lru ((move_buffer x a ?s1)\<lparr>firstbuf := x\<rparr>) (x # remove1 x os)"
      using move_to_front[of ?s1 a xs x] l1 os x by auto
    moreover have "same_data (flagged x f (bufs s)) (bufs (move_buffer x a ?s1))"
      using move_buffer_same[of ?s1 x a] by (simp only: flagged_set_buf)
    moreover have "move_buffer x a ?s1 = s\<lparr>bufs := bufs (move_buffer x a ?s1)\<rparr>"
      using move_buffer_only_bufs[of x a ?s1] by (simp add: set_buf_def)
    ultimately show ?thesis using False a
      by (simp add: bring_front_def Let_def to_front_def)
  qed
qed

definition lru_find :: "32 word \<Rightarrow> 16 word \<Rightarrow> 'w diskio \<Rightarrow> 16 word list \<Rightarrow> 16 word option" where
  "lru_find blkno dsk s os = find (\<lambda>x. holds_block blkno dsk (bufs s x)) os"

lemma searchblock_eq:
  assumes l: "lru s os"
  shows "searchblock blkno dsk s =
    (case lru_find blkno dsk s os of
       Some x \<Rightarrow> Some (x, bring_front x (\<lambda>g. g AND NOT BFR_UNCACHE) s)
     | None \<Rightarrow> let x = lru_victim (bufs s) os in Some (x, bring_front x (\<lambda>g. g OR BFR_UNCACHE) s))"
proof -
  have f: "firstbuf s = hd os" and p: "b_prev (bufs s (hd os)) = last os" using l by (auto simp: lru_def ring_def)
  show ?thesis
    unfolding searchblock_def Let_def ring_do_list[OF search_keeps_links l] search_list lru_find_def[symmetric]
    by (cases "lru_find blkno dsk s os")
      (simp_all add: victim_eq[OF p] f bring_front_def Let_def move_buffer_firstbuf)
qed

section \<open>A transfer is one call of the driver\<close>

definition xfer_once ::
    "'w driver \<Rightarrow> 32 word \<Rightarrow> 32 word \<Rightarrow> 16 word \<Rightarrow> bytes \<Rightarrow> 16 word \<Rightarrow> nat \<Rightarrow> 'w diskio
     \<Rightarrow> 16 word \<times> bytes \<times> 'w diskio" where
  "xfer_once E dp blkno seg data numblocks mode s =
     (let s0 = set_req (\<lambda>r. r\<lparr>r_length := 30, r_unit := dpb_subunit (dpbs s dp)\<rparr>) s in
      case xfer_command mode (verify_ena s) of
        None \<Rightarrow> (0x0100, data, s0)
      | Some cmd \<Rightarrow>
          (case xfer_call E dp seg data numblocks mode (xfer_request dp cmd blkno numblocks s0) of
             (d, s1) \<Rightarrow> let st = r_status (IoReqHdr s1) in
               if st AND (S_ERROR OR S_DONE) = S_DONE then (0, d, s1)
               else (st, d, if DSKWRITEINT26 \<le> mode then s1 else s1\<lparr>CritErrCode := (st AND S_MASK) + 0x13\<rparr>)))"

lemma ask_error_fails: "ask_error drive dev mode s = Some (A_FAIL, s\<lparr>CritErrCode := (r_status (IoReqHdr s) AND S_MASK) + 0x13\<rparr>)"
  by (subst ask_error.simps) (simp add: block_error_def DoCriticalError_def Let_def)

lemma dskxfer_loop_once:
  "dskxfer_loop E dp blkno seg data numblocks mode s = Some (xfer_once E dp blkno seg data numblocks mode s)"
  by (subst dskxfer_loop.simps)
    (auto simp: xfer_once_def ask_error_fails answer_defs set_req_def Let_def split: option.splits prod.splits)

lemma dskxfer_eq:
  "dskxfer E dsk blkno seg data numblocks mode s =
     Some (case get_dpb dsk s of None \<Rightarrow> (0x0201, data, s)
           | Some dp \<Rightarrow> xfer_once E dp blkno seg data numblocks mode s)"
  by (simp add: dskxfer_def dskxfer_loop_once split: option.splits)

lemma with_world_simps [simp]:
  "world (with_world w k) = w" "with_world w (with_world v k) = with_world w k"
  "CDSp (with_world w k) = CDSp k" "dpb_device (with_world w k) = dpb_device k" "devices (with_world w k) = devices k"
  "get_cds n (with_world w k) = get_cds n k"
  by (simp_all add: with_world_def get_cds_def Let_def)

lemma with_world_same: "with_world (world k) k = k"
  by (simp add: with_world_def)

text \<open>A transfer changes the world, the request, the error code and the deblocking buffer only.\<close>

definition io_only :: "'w diskio \<Rightarrow> 'w diskio \<Rightarrow> bool" where
  "io_only s s' \<longleftrightarrow> bufs s' = bufs s \<and> firstbuf s' = firstbuf s \<and> buf_seg s' = buf_seg s \<and> dpbs s' = dpbs s
     \<and> verify_ena s' = verify_ena s \<and> bufloc s' = bufloc s \<and> nbuffers s' = nbuffers s
     \<and> (\<exists>w. kern s' = with_world w (kern s))"

lemma io_only_refl [simp]: "io_only s s"
  unfolding io_only_def using with_world_same[of "kern s"] by metis

lemma io_only_trans: "io_only s s' \<Longrightarrow> io_only s' s'' \<Longrightarrow> io_only s s''"
  unfolding io_only_def by auto

lemma io_only_step:
  "io_only s s' \<Longrightarrow> io_only s (set_req f s')"
  "io_only s s' \<Longrightarrow> io_only s (s'\<lparr>deblock_buf := d\<rparr>)"
  "io_only s s' \<Longrightarrow> io_only s (s'\<lparr>CritErrCode := c\<rparr>)"
  "io_only s s' \<Longrightarrow> io_only s (execrh E dev s')"
  by (auto simp: io_only_def set_req_def execrh_def split: prod.split)

lemma xfer_request_io_only: "io_only s s' \<Longrightarrow> io_only s (xfer_request dp cmd blkno n s')"
  by (simp add: xfer_request_def Let_def io_only_step)

lemma xfer_call_io_only: "io_only s s' \<Longrightarrow> io_only s (snd (xfer_call E dp seg data n mode s'))"
  by (simp add: xfer_call_def Let_def io_only_step)

lemma xfer_once_io_only: "io_only s (snd (snd (xfer_once E dp blkno seg data numblocks mode s)))"
proof (cases "xfer_command mode (verify_ena s)")
  case (Some cmd)
  let ?s0 = "set_req (\<lambda>r. r\<lparr>r_length := 30, r_unit := dpb_subunit (dpbs s dp)\<rparr>) s"
  obtain d s1 where c: "xfer_call E dp seg data numblocks mode (xfer_request dp cmd blkno numblocks ?s0) = (d, s1)"
    by (cases "xfer_call E dp seg data numblocks mode (xfer_request dp cmd blkno numblocks ?s0)")
  have "io_only s (snd (xfer_call E dp seg data numblocks mode (xfer_request dp cmd blkno numblocks ?s0)))"
    by (intro xfer_call_io_only xfer_request_io_only io_only_step io_only_refl)
  then have "io_only s s1" using c by simp
  then show ?thesis using Some c by (simp add: xfer_once_def Let_def io_only_step)
qed (simp add: xfer_once_def Let_def io_only_step)

lemma get_dpb_cong: "kern s' = with_world w (kern s) \<Longrightarrow> get_dpb dsk s' = get_dpb dsk s"
  by (simp add: get_dpb_def split: option.split)

lemma get_dpb_io_only: "io_only s s' \<Longrightarrow> get_dpb dsk s' = get_dpb dsk s"
  unfolding io_only_def using get_dpb_cong by metis

section \<open>Flags\<close>

lemma bfr_exp:
  "BFR_DIRTY = 2 ^ 6" "BFR_VALID = 2 ^ 5" "BFR_DATA = 2 ^ 3" "BFR_DIR = 2 ^ 2" "BFR_FAT = 2 ^ 1" "BFR_UNCACHE = 2 ^ 0"
  by (simp_all add: bfr_defs)

lemma flag_set_exp: "k < 8 \<Longrightarrow> flag_set f (2 ^ k) \<longleftrightarrow> bit f k"
  unfolding flag_set_def by (metis and_exp_eq_0_iff_not_bit)

lemma flag_bit [simp]:
  "flag_set f BFR_DIRTY = bit f 6" "flag_set f BFR_VALID = bit f 5" "flag_set f BFR_DATA = bit f 3"
  "flag_set f BFR_DIR = bit f 2" "flag_set f BFR_FAT = bit f 1" "flag_set f BFR_UNCACHE = bit f 0"
  by (simp_all only: bfr_exp flag_set_exp)

lemma bit_bfr:
  "bit BFR_DIRTY k \<longleftrightarrow> k = 6" "bit BFR_VALID k \<longleftrightarrow> k = 5" "bit BFR_DATA k \<longleftrightarrow> k = 3"
  "bit BFR_DIR k \<longleftrightarrow> k = 2" "bit BFR_FAT k \<longleftrightarrow> k = 1" "bit BFR_UNCACHE k \<longleftrightarrow> k = 0"
  unfolding bfr_exp bit_exp_iff by auto

lemmas flag_simps = bit_and_iff bit_or_iff bit_bfr

lemma bit_not8 [simp]: "k < 8 \<Longrightarrow> bit (NOT (f :: 8 word)) k \<longleftrightarrow> \<not> bit f k"
  by (simp add: bit_not_iff)

lemma valid_dirty: "f AND (BFR_VALID OR BFR_DIRTY) = BFR_VALID OR BFR_DIRTY \<longleftrightarrow> bit f 5 \<and> bit f 6"
proof
  assume e: "f AND (BFR_VALID OR BFR_DIRTY) = BFR_VALID OR BFR_DIRTY"
  show "bit f 5 \<and> bit f 6"
    using arg_cong[OF e, of "\<lambda>w. bit w 5"] arg_cong[OF e, of "\<lambda>w. bit w 6"] by (simp add: flag_simps)
qed (rule bit_eqI, auto simp: flag_simps)

end
