(* ===== verification/Blockio_View.thy ===== *)
theory Blockio_View
  imports Blockio_Proofs
begin

text \<open>
  What the cache shows of a disk: the sector in the buffer that holds a block, or the sector on
  the disk. A driver is \<open>reliable\<close> when it reads what was written; then fetching a block and
  writing buffers back change nothing the cache shows.
\<close>

section \<open>A reliable driver\<close>

definition sector :: "nat \<Rightarrow> bytes \<Rightarrow> bytes" where
  "sector n b = (\<lambda>i. if i < n then b i else 0)"

lemma sector_idem [simp]: "sector n (sector n b) = sector n b"
  by (simp add: sector_def fun_eq_iff)

lemma sector_copy [simp]: "sector n (copy_bytes n src dst) = sector n src"
  by (simp add: sector_def copy_bytes_def fun_eq_iff)

lemma sector_nth: "i < n \<Longrightarrow> sector n b i = b i"
  by (simp add: sector_def)

definition request_block :: "request \<Rightarrow> 32 word" where
  "request_block r = (if r_start r = HUGECOUNT then r_huge r else ucast (r_start r))"

type_synonym 'w disk_reader = "'w \<Rightarrow> 32 word \<times> 8 word \<Rightarrow> 32 word \<Rightarrow> bytes"

definition reliable :: "'w driver \<Rightarrow> nat \<Rightarrow> 'w disk_reader \<Rightarrow> bool" where
  "reliable E n rd \<longleftrightarrow> (\<forall>r dev w r' w'. r_count r = 1 \<longrightarrow> E r dev w = (r', w') \<longrightarrow>
     r_command r \<in> {CMD_INPUT, CMD_OUTPUT, CMD_OUTVFY} \<longrightarrow>
       r_status r' AND (S_ERROR OR S_DONE) = S_DONE
       \<and> (r_command r = CMD_INPUT \<longrightarrow>
            rd w' = rd w \<and> sector n (r_trans r') = sector n (rd w (dev, r_unit r) (request_block r)))
       \<and> (r_command r \<noteq> CMD_INPUT \<longrightarrow> r_trans r' = r_trans r
            \<and> rd w' = (rd w)((dev, r_unit r) := (rd w (dev, r_unit r))(request_block r := sector n (r_trans r)))))"

definition drive_key :: "'w diskio \<Rightarrow> 32 word \<Rightarrow> 32 word \<times> 8 word" where
  "drive_key s dp = (dpb_device (kern s) dp, dpb_subunit (dpbs s dp))"

lemma drive_key_io_only: "io_only s s' \<Longrightarrow> drive_key s' dp = drive_key s dp"
  by (auto simp: io_only_def drive_key_def)

lemma set_req_simps [simp]:
  "IoReqHdr (set_req f s) = f (IoReqHdr s)" "kern (set_req f s) = kern s" "dpbs (set_req f s) = dpbs s"
  "bufs (set_req f s) = bufs s" "bufloc (set_req f s) = bufloc s" "deblock_buf (set_req f s) = deblock_buf s"
  by (simp_all add: set_req_def)

lemma xfer_request_simps:
  "r_command (IoReqHdr (xfer_request dp cmd b n s)) = cmd" "r_count (IoReqHdr (xfer_request dp cmd b n s)) = n"
  "r_unit (IoReqHdr (xfer_request dp cmd b n s)) = r_unit (IoReqHdr s)"
  "request_block (IoReqHdr (xfer_request dp cmd b n s)) = b"
  "kern (xfer_request dp cmd b n s) = kern s" "dpbs (xfer_request dp cmd b n s) = dpbs s"
proof -
  have "b < MAXSHORT \<Longrightarrow> ucast b \<noteq> HUGECOUNT \<and> ucast (ucast b :: 16 word) = b"
  proof -
    assume "b < MAXSHORT"
    then have b: "unat b < 65535" by (simp add: MAXSHORT_def word_less_nat_alt)
    then have "unat (ucast b :: 16 word) = unat b" by (simp add: unat_ucast)
    then show ?thesis using b by (auto simp: HUGECOUNT_def word_unat_eq_iff unat_ucast)
  qed
  then show "request_block (IoReqHdr (xfer_request dp cmd b n s)) = b"
    by (auto simp: xfer_request_def request_block_def Let_def not_le)
qed (simp_all add: xfer_request_def Let_def)

lemma execrh_run:
  "E (IoReqHdr s) dev (world (kern s)) = (r, w) \<Longrightarrow>
     IoReqHdr (execrh E dev s) = r \<and> world (kern (execrh E dev s)) = w"
  by (simp add: execrh_def)

lemma xfer_call_direct:
  assumes "\<not> (0xa000 \<le> seg \<and> bufloc s \<noteq> 0)"
    and e: "E ((IoReqHdr s)\<lparr>r_trans := data\<rparr>) (dpb_device (kern s) dp) (world (kern s)) = (r', w')"
    and c: "xfer_call E dp seg data 1 mode s = (d, s')"
  shows "IoReqHdr s' = r' \<and> world (kern s') = w' \<and> d = r_trans r'"
proof -
  let ?s2 = "execrh E (dpb_device (kern s) dp) (set_req (\<lambda>r. r\<lparr>r_trans := data\<rparr>) s)"
  have h: "\<not> (0xa000 \<le> seg \<and> (1 :: 16 word) = 1 \<and> bufloc s \<noteq> 0)" using assms(1) by blast
  have "xfer_call E dp seg data 1 mode s = (r_trans (IoReqHdr ?s2), ?s2)"
    by (simp only: xfer_call_def Let_def if_not_P[OF h])
  moreover have "IoReqHdr ?s2 = r' \<and> world (kern ?s2) = w'"
    by (rule execrh_run) (simp add: e)
  ultimately show ?thesis using c by auto
qed

lemma xfer_call_deblock:
  assumes "0xa000 \<le> seg" "bufloc s \<noteq> 0" and n: "unat (dpb_secsize (dpbs s dp)) = n"
    and t: "t = (if mode = DSKWRITE then copy_bytes n data (deblock_buf s) else deblock_buf s)"
    and e: "E ((IoReqHdr s)\<lparr>r_trans := t\<rparr>) (dpb_device (kern s) dp) (world (kern s)) = (r', w')"
    and c: "xfer_call E dp seg data 1 mode s = (d, s')"
  shows "IoReqHdr s' = r' \<and> world (kern s') = w' \<and> d = (if mode = DSKREAD then copy_bytes n (r_trans r') data else data)"
proof -
  let ?s1 = "if mode = DSKWRITE then s\<lparr>deblock_buf := copy_bytes n data (deblock_buf s)\<rparr> else s"
  let ?s2 = "execrh E (dpb_device (kern s) dp) (set_req (\<lambda>r. r\<lparr>r_trans := deblock_buf ?s1\<rparr>) ?s1)"
  have h: "0xa000 \<le> seg \<and> (1 :: 16 word) = 1 \<and> bufloc s \<noteq> 0" using assms(1,2) by blast
  have "xfer_call E dp seg data 1 mode s =
      (if mode = DSKREAD then copy_bytes n (deblock_buf (?s2\<lparr>deblock_buf := r_trans (IoReqHdr ?s2)\<rparr>)) data else data,
       ?s2\<lparr>deblock_buf := r_trans (IoReqHdr ?s2)\<rparr>)"
    by (simp only: xfer_call_def Let_def if_P[OF h] n)
  moreover have "IoReqHdr ?s2 = r' \<and> world (kern ?s2) = w'"
    by (rule execrh_run) (use e t in \<open>simp split: if_splits\<close>)
  ultimately show ?thesis using c by auto
qed

lemma xfer_call_reliable:
  assumes rel: "reliable E n rd" and n: "unat (dpb_secsize (dpbs s dp)) = n"
    and r: "r_count (IoReqHdr s) = 1" "r_command (IoReqHdr s) = cmd" "r_unit (IoReqHdr s) = dpb_subunit (dpbs s dp)"
    and cmd: "cmd = (if mode = DSKREAD then CMD_INPUT else if verify_ena s then CMD_OUTVFY else CMD_OUTPUT)"
    and mode: "mode = DSKREAD \<or> mode = DSKWRITE"
    and c: "xfer_call E dp seg data 1 mode s = (d, s')"
  shows "r_status (IoReqHdr s') AND (S_ERROR OR S_DONE) = S_DONE"
    "mode = DSKREAD \<Longrightarrow> rd (world (kern s')) = rd (world (kern s))
       \<and> sector n d = sector n (rd (world (kern s)) (drive_key s dp) (request_block (IoReqHdr s)))"
    "mode = DSKWRITE \<Longrightarrow> d = data
       \<and> rd (world (kern s')) = (rd (world (kern s)))(drive_key s dp :=
            (rd (world (kern s)) (drive_key s dp))(request_block (IoReqHdr s) := sector n data))"
proof -
  define dev where "dev = dpb_device (kern s) dp"
  define t where "t = (if 0xa000 \<le> seg \<and> bufloc s \<noteq> 0
     then if mode = DSKWRITE then copy_bytes n data (deblock_buf s) else deblock_buf s else data)"
  obtain r' w' where e: "E ((IoReqHdr s)\<lparr>r_trans := t\<rparr>) dev (world (kern s)) = (r', w')"
    by (cases "E ((IoReqHdr s)\<lparr>r_trans := t\<rparr>) dev (world (kern s))")
  let ?r = "(IoReqHdr s)\<lparr>r_trans := t\<rparr>"
  have cm: "r_command ?r \<in> {CMD_INPUT, CMD_OUTPUT, CMD_OUTVFY}" "r_command ?r = CMD_INPUT \<longleftrightarrow> mode = DSKREAD"
    "r_command ?r \<noteq> CMD_INPUT \<longleftrightarrow> mode \<noteq> DSKREAD" and rc: "r_count ?r = 1"
    using r cmd mode by (auto simp: req_defs)
  have b: "request_block ?r = request_block (IoReqHdr s)" by (simp add: request_block_def)
  have run: "IoReqHdr s' = r' \<and> world (kern s') = w'
      \<and> d = (if 0xa000 \<le> seg \<and> bufloc s \<noteq> 0 then if mode = DSKREAD then copy_bytes n (r_trans r') data else data
             else r_trans r')"
  proof (cases "0xa000 \<le> seg \<and> bufloc s \<noteq> 0")
    case True
    then show ?thesis using xfer_call_deblock[OF _ _ n refl _ c] e by (simp add: t_def dev_def)
  next
    case False
    then show ?thesis using xfer_call_direct[OF False _ c] e by (auto simp: t_def dev_def)
  qed
  then have st: "IoReqHdr s' = r' \<and> world (kern s') = w'" by simp
  have d: "mode = DSKREAD \<Longrightarrow> sector n d = sector n (r_trans r')"
    "mode = DSKWRITE \<Longrightarrow> d = (if 0xa000 \<le> seg \<and> bufloc s \<noteq> 0 then data else r_trans r')"
    using run by (auto simp: dsk_defs)
  have k: "drive_key s dp = (dev, r_unit ?r)" using r by (simp add: drive_key_def dev_def)
  have R: "r_status r' AND (S_ERROR OR S_DONE) = S_DONE
       \<and> (mode = DSKREAD \<longrightarrow>
            rd w' = rd (world (kern s)) \<and> sector n (r_trans r') = sector n (rd (world (kern s)) (drive_key s dp) (request_block ?r)))
       \<and> (mode \<noteq> DSKREAD \<longrightarrow> r_trans r' = t
            \<and> rd w' = (rd (world (kern s)))(drive_key s dp := (rd (world (kern s)) (drive_key s dp))(request_block ?r := sector n t)))"
  proof -
    have "r_status r' AND (S_ERROR OR S_DONE) = S_DONE
       \<and> (r_command ?r = CMD_INPUT \<longrightarrow>
            rd w' = rd (world (kern s)) \<and> sector n (r_trans r') = sector n (rd (world (kern s)) (dev, r_unit ?r) (request_block ?r)))
       \<and> (r_command ?r \<noteq> CMD_INPUT \<longrightarrow> r_trans r' = r_trans ?r
            \<and> rd w' = (rd (world (kern s)))((dev, r_unit ?r) :=
                 (rd (world (kern s)) (dev, r_unit ?r))(request_block ?r := sector n (r_trans ?r))))"
      using rel[unfolded reliable_def] rc e cm(1) by blast
    moreover have "r_trans ?r = t" by simp
    ultimately show ?thesis unfolding cm(2,3) k by simp
  qed
  show "r_status (IoReqHdr s') AND (S_ERROR OR S_DONE) = S_DONE" using R st by simp
  show "mode = DSKREAD \<Longrightarrow> rd (world (kern s')) = rd (world (kern s))
       \<and> sector n d = sector n (rd (world (kern s)) (drive_key s dp) (request_block (IoReqHdr s)))"
    using R st d b by simp
  show "mode = DSKWRITE \<Longrightarrow> d = data
       \<and> rd (world (kern s')) = (rd (world (kern s)))(drive_key s dp :=
            (rd (world (kern s)) (drive_key s dp))(request_block (IoReqHdr s) := sector n data))"
    using R st d(2) b mode by (auto simp: t_def dsk_defs)
qed

lemma dskxfer_reliable:
  assumes rel: "reliable E n rd" and g: "get_dpb dsk s = Some dp" and n: "unat (dpb_secsize (dpbs s dp)) = n"
  shows "\<exists>d s'. dskxfer E dsk blkno seg data 1 DSKREAD s = Some (0, d, s') \<and> io_only s s'
      \<and> rd (world (kern s')) = rd (world (kern s))
      \<and> sector n d = sector n (rd (world (kern s)) (drive_key s dp) blkno)"
    and "\<exists>s'. dskxfer E dsk blkno seg data 1 DSKWRITE s = Some (0, data, s') \<and> io_only s s'
      \<and> rd (world (kern s')) = (rd (world (kern s)))(drive_key s dp :=
           (rd (world (kern s)) (drive_key s dp))(blkno := sector n data))"
proof -
  let ?s0 = "set_req (\<lambda>r. r\<lparr>r_length := 30, r_unit := dpb_subunit (dpbs s dp)\<rparr>) s"
  have main: "\<exists>d s'. dskxfer E dsk blkno seg data 1 mode s = Some (0, d, s') \<and> io_only s s'
      \<and> (mode = DSKREAD \<longrightarrow> rd (world (kern s')) = rd (world (kern s))
            \<and> sector n d = sector n (rd (world (kern s)) (drive_key s dp) blkno))
      \<and> (mode = DSKWRITE \<longrightarrow> d = data \<and> rd (world (kern s')) = (rd (world (kern s)))(drive_key s dp :=
           (rd (world (kern s)) (drive_key s dp))(blkno := sector n data)))"
    if mode: "mode = DSKREAD \<or> mode = DSKWRITE" for mode
  proof -
    define cmd where "cmd = (if mode = DSKREAD then CMD_INPUT else if verify_ena s then CMD_OUTVFY else CMD_OUTPUT)"
    have x: "xfer_command mode (verify_ena s) = Some cmd"
      using mode by (auto simp: xfer_command_def cmd_def dsk_defs)
    let ?s1 = "xfer_request dp cmd blkno 1 ?s0"
    obtain d s' where c: "xfer_call E dp seg data 1 mode ?s1 = (d, s')" by (cases "xfer_call E dp seg data 1 mode ?s1")
    have v: "verify_ena ?s1 = verify_ena s" by (simp add: xfer_request_def set_req_def Let_def)
    have k: "drive_key ?s1 dp = drive_key s dp" by (simp add: drive_key_def xfer_request_simps)
    note R = xfer_call_reliable[OF rel _ _ _ _ _ mode c, of cmd, unfolded v k xfer_request_simps]
    have st: "r_status (IoReqHdr s') AND (S_ERROR OR S_DONE) = S_DONE"
      using R(1) n by (simp add: cmd_def)
    then have e: "xfer_once E dp blkno seg data 1 mode s = (0, d, s')"
      using x c by (simp add: xfer_once_def Let_def)
    have "io_only s s'" using xfer_once_io_only[of s E dp blkno seg data 1 mode] e by simp
    moreover have "dskxfer E dsk blkno seg data 1 mode s = Some (0, d, s')"
      by (simp only: dskxfer_eq g option.case e)
    moreover have "mode = DSKREAD \<longrightarrow> rd (world (kern s')) = rd (world (kern s))
            \<and> sector n d = sector n (rd (world (kern s)) (drive_key s dp) blkno)"
      using R(2) n by (simp add: cmd_def)
    moreover have "mode = DSKWRITE \<longrightarrow> d = data \<and> rd (world (kern s')) = (rd (world (kern s)))(drive_key s dp :=
           (rd (world (kern s)) (drive_key s dp))(blkno := sector n data))"
      using R(3) n by (simp add: cmd_def)
    ultimately show ?thesis by blast
  qed
  show "\<exists>d s'. dskxfer E dsk blkno seg data 1 DSKREAD s = Some (0, d, s') \<and> io_only s s'
      \<and> rd (world (kern s')) = rd (world (kern s))
      \<and> sector n d = sector n (rd (world (kern s)) (drive_key s dp) blkno)"
    using main[of DSKREAD] by auto
  show "\<exists>s'. dskxfer E dsk blkno seg data 1 DSKWRITE s = Some (0, data, s') \<and> io_only s s'
      \<and> rd (world (kern s')) = (rd (world (kern s)))(drive_key s dp :=
           (rd (world (kern s)) (drive_key s dp))(blkno := sector n data))"
    using main[of DSKWRITE] by (auto simp: dsk_defs)
qed

section \<open>What the cache shows\<close>

type_synonym block_id = "16 word \<times> 32 word"

definition dkey :: "'w diskio \<Rightarrow> 16 word \<Rightarrow> 32 word \<times> 8 word" where
  "dkey s d = drive_key s (the (get_dpb d s))"

definition disk :: "nat \<Rightarrow> 'w disk_reader \<Rightarrow> 'w diskio \<Rightarrow> block_id \<Rightarrow> bytes" where
  "disk n rd s v = sector n (rd (world (kern s)) (dkey s (fst v)) (snd v))"

definition buf_id :: "buffer \<Rightarrow> block_id" where
  "buf_id b = (scast (b_unit b), b_blkno b)"

abbreviation b_valid :: "buffer \<Rightarrow> bool" where "b_valid b \<equiv> bit (b_flag b) 5"
abbreviation b_dirty :: "buffer \<Rightarrow> bool" where "b_dirty b \<equiv> bit (b_flag b) 6"
abbreviation b_fat :: "buffer \<Rightarrow> bool" where "b_fat b \<equiv> bit (b_flag b) (Suc 0)"

lemma holds_block_iff: "holds_block blkno dsk b \<longleftrightarrow> b_valid b \<and> buf_id b = (dsk, blkno)"
  by (auto simp: holds_block_def buf_id_def)

definition view :: "nat \<Rightarrow> 'w disk_reader \<Rightarrow> 'w diskio \<Rightarrow> 16 word list \<Rightarrow> block_id \<Rightarrow> bytes" where
  "view n rd s os v =
     (case lru_find (snd v) (fst v) s os of
        Some x \<Rightarrow> sector n (b_buffer (bufs s x)) | None \<Rightarrow> disk n rd s v)"

text \<open>The distance between the copies of the FAT, as \<open>flush1\<close> computes it. A mirror is a
  block of a further copy; the blocks \<open>V\<close> whose contents matter include no mirror.\<close>

definition copy_offset :: "'w diskio \<Rightarrow> buffer \<Rightarrow> 32 word" where
  "copy_offset s b = (if b_offset b = 0 then dpb_xfatsize (dpbs s (b_dpbp b)) else ucast (b_offset b))"

definition mirrors_ok :: "block_id set \<Rightarrow> 'w diskio \<Rightarrow> buffer \<Rightarrow> bool" where
  "mirrors_ok V s b \<longleftrightarrow> 0 < unat (b_copies b) \<and>
     (\<forall>i. 0 < i \<and> i < unat (b_copies b) \<longrightarrow> (scast (b_unit b), b_blkno b + of_nat i * copy_offset s b) \<notin> V)"

definition drives_ok :: "nat \<Rightarrow> 16 word set \<Rightarrow> 'w diskio \<Rightarrow> bool" where
  "drives_ok n D s \<longleftrightarrow> inj_on (dkey s) D \<and>
     (\<forall>d \<in> D. scast (ucast d :: 8 word) = d \<and>
        (\<exists>dp. get_dpb d s = Some dp \<and> unat (dpb_secsize (dpbs s dp)) = n))"

definition buffer_ok :: "nat \<Rightarrow> 'w disk_reader \<Rightarrow> block_id set \<Rightarrow> 'w diskio \<Rightarrow> buffer \<Rightarrow> bool" where
  "buffer_ok n rd V s b \<longleftrightarrow> (b_valid b \<longrightarrow> buf_id b \<in> V
     \<and> (\<not> b_dirty b \<longrightarrow> sector n (b_buffer b) = disk n rd s (buf_id b)) \<and> (b_fat b \<longrightarrow> mirrors_ok V s b))"

definition unique_blocks :: "'w diskio \<Rightarrow> 16 word set \<Rightarrow> bool" where
  "unique_blocks s X \<longleftrightarrow> (\<forall>x \<in> X. \<forall>y \<in> X. b_valid (bufs s x) \<longrightarrow> b_valid (bufs s y)
     \<longrightarrow> buf_id (bufs s x) = buf_id (bufs s y) \<longrightarrow> x = y)"

definition cache_ok :: "nat \<Rightarrow> 'w disk_reader \<Rightarrow> block_id set \<Rightarrow> 'w diskio \<Rightarrow> 16 word list \<Rightarrow> bool" where
  "cache_ok n rd V s os \<longleftrightarrow> lru s os \<and> drives_ok n (fst ` V) s
     \<and> (\<forall>x \<in> set os. buffer_ok n rd V s (bufs s x)) \<and> unique_blocks s (set os)"

lemma view_hit:
  assumes "cache_ok n rd V s os" "x \<in> set os" "b_valid (bufs s x)"
  shows "view n rd s os (buf_id (bufs s x)) = sector n (b_buffer (bufs s x))"
proof -
  let ?P = "\<lambda>y. holds_block (b_blkno (bufs s x)) (scast (b_unit (bufs s x))) (bufs s y)"
  have "?P x" using assms(3) by (simp add: holds_block_iff buf_id_def)
  then obtain y where y: "find ?P os = Some y" using assms(2) by (metis find_None_iff option.exhaust)
  then have "?P y" "y \<in> set os" by (auto simp: find_Some_iff)
  then have "y = x" using assms by (auto simp: cache_ok_def unique_blocks_def holds_block_iff buf_id_def)
  then show ?thesis using y by (simp add: view_def lru_find_def buf_id_def)
qed

lemma view_miss:
  assumes "\<forall>x \<in> set os. b_valid (bufs s x) \<longrightarrow> buf_id (bufs s x) \<noteq> v"
  shows "view n rd s os v = disk n rd s v"
proof -
  have "find (\<lambda>x. holds_block (snd v) (fst v) (bufs s x)) os = None"
    using assms by (auto simp: find_None_iff holds_block_iff)
  then show ?thesis by (simp add: view_def lru_find_def)
qed

text \<open>Two states with the same buffers but for the order of use and the other flag bits.\<close>

definition same_cache :: "'w diskio \<Rightarrow> 'w diskio \<Rightarrow> bool" where
  "same_cache s s' \<longleftrightarrow> kern s' = kern s \<and> dpbs s' = dpbs s \<and>
     (\<forall>x. b_unit (bufs s' x) = b_unit (bufs s x) \<and> b_blkno (bufs s' x) = b_blkno (bufs s x)
        \<and> b_copies (bufs s' x) = b_copies (bufs s x) \<and> b_offset (bufs s' x) = b_offset (bufs s x)
        \<and> b_dpbp (bufs s' x) = b_dpbp (bufs s x) \<and> b_buffer (bufs s' x) = b_buffer (bufs s x)
        \<and> b_valid (bufs s' x) = b_valid (bufs s x) \<and> b_dirty (bufs s' x) = b_dirty (bufs s x)
        \<and> b_fat (bufs s' x) = b_fat (bufs s x))"

lemma get_dpb_same: "kern s' = kern s \<Longrightarrow> get_dpb d s' = get_dpb d s"
  using get_dpb_cong[of s' "world (kern s)" s d] by (simp add: with_world_same)

lemma disk_cong: "kern s' = kern s \<Longrightarrow> dpbs s' = dpbs s \<Longrightarrow> disk n rd s' v = disk n rd s v"
  using get_dpb_same[of s' s] by (simp add: disk_def dkey_def drive_key_def)

lemma drives_ok_cong: "kern s' = with_world w (kern s) \<Longrightarrow> dpbs s' = dpbs s \<Longrightarrow> drives_ok n D s' = drives_ok n D s"
  using get_dpb_cong[of s' w s] by (simp add: drives_ok_def dkey_def drive_key_def inj_on_def)

lemma same_cache_ok:
  assumes "same_cache s s'" "cache_ok n rd V s os" "lru s' os'" "set os' = set os"
  shows "cache_ok n rd V s' os'" and "view n rd s' os' = view n rd s os"
proof -
  have k: "kern s' = kern s" "dpbs s' = dpbs s" using assms(1) by (auto simp: same_cache_def)
  have b: "buf_id (bufs s' x) = buf_id (bufs s x)" "b_valid (bufs s' x) = b_valid (bufs s x)"
    "b_buffer (bufs s' x) = b_buffer (bufs s x)" for x
    using assms(1) by (auto simp: same_cache_def buf_id_def)
  have m: "mirrors_ok V s' (bufs s' x) = mirrors_ok V s (bufs s x)" for x
    using assms(1) by (simp add: same_cache_def mirrors_ok_def copy_offset_def)
  have o: "buffer_ok n rd V s' (bufs s' x) = buffer_ok n rd V s (bufs s x)" for x
    using assms(1) b m by (simp add: buffer_ok_def disk_cong[OF k] same_cache_def)
  have d: "drives_ok n D s' = drives_ok n D s" for D
    using drives_ok_cong[of s' "world (kern s)" s] k by (simp add: with_world_same)
  show ok: "cache_ok n rd V s' os'"
    using assms(2-4) by (simp add: cache_ok_def o d unique_blocks_def b)
  show "view n rd s' os' = view n rd s os"
  proof
    fix v
    show "view n rd s' os' v = view n rd s os v"
    proof (cases "\<exists>x \<in> set os. b_valid (bufs s x) \<and> buf_id (bufs s x) = v")
      case True
      then obtain x where x: "x \<in> set os" "b_valid (bufs s x)" "buf_id (bufs s x) = v" by auto
      then show ?thesis using view_hit[OF assms(2), of x] view_hit[OF ok, of x] assms(4) b by simp
    next
      case False
      then show ?thesis using view_miss[of os s v] view_miss[of os' s' v] assms(4) b disk_cong[OF k] by auto
    qed
  qed
qed

section \<open>Writing a buffer back\<close>

lemma set_buf_same: "set_buf x (\<lambda>b. b\<lparr>b_buffer := b_buffer (bufs s x)\<rparr>) s = s"
  by (simp add: set_buf_def)

lemma write_copies_reliable:
  assumes rel: "reliable E n rd" and u: "scast (b_unit (bufs s x)) = d"
    and g: "get_dpb d s = Some dp" and n: "unat (dpb_secsize (dpbs s dp)) = n"
  shows "\<exists>s'. write_copies E x k blk off ok s = Some (ok, s') \<and> io_only s s' \<and>
     rd (world (kern s')) = (rd (world (kern s)))(dkey s d :=
       (\<lambda>b. if \<exists>i<k. b = blk + of_nat i * off then sector n (b_buffer (bufs s x)) else rd (world (kern s)) (dkey s d) b))"
  using assms(2-)
proof (induction k arbitrary: blk s)
  case 0
  then show ?case by simp
next
  case (Suc k)
  have key: "dkey s d = drive_key s dp" using Suc.prems(2) by (simp add: dkey_def)
  obtain s1 where s1: "dskxfer E d blk (buf_seg s) (b_buffer (bufs s x)) 1 DSKWRITE s
        = Some (0, b_buffer (bufs s x), s1)" "io_only s s1"
      "rd (world (kern s1)) = (rd (world (kern s)))(dkey s d :=
           (rd (world (kern s)) (dkey s d))(blk := sector n (b_buffer (bufs s x))))"
    using dskxfer_reliable(2)[OF rel Suc.prems(2,3), of blk "buf_seg s" "b_buffer (bufs s x)"] key by auto
  have b1: "bufs s1 = bufs s" "dpbs s1 = dpbs s" using s1(2) by (auto simp: io_only_def)
  have g1: "get_dpb d s1 = Some dp" using get_dpb_io_only[OF s1(2)] Suc.prems(2) by simp
  have k1: "dkey s1 d = dkey s d" using g1 Suc.prems(2) drive_key_io_only[OF s1(2)] by (simp add: dkey_def)
  have sb: "set_buf x (\<lambda>b. b\<lparr>b_buffer := b_buffer (bufs s x)\<rparr>) s1 = s1"
    using set_buf_same[of x s1] b1 by simp
  obtain s' where s': "write_copies E x k (blk + off) off ok s1 = Some (ok, s')" "io_only s1 s'"
     "rd (world (kern s')) = (rd (world (kern s1)))(dkey s d :=
       (\<lambda>b. if \<exists>i<k. b = blk + off + of_nat i * off then sector n (b_buffer (bufs s x)) else rd (world (kern s1)) (dkey s d) b))"
  proof -
    have u1: "scast (b_unit (bufs s1 x)) = d" "unat (dpb_secsize (dpbs s1 dp)) = n" using Suc.prems b1 by auto
    show ?thesis using that Suc.IH[OF u1(1) g1 u1(2), of "blk + off"] unfolding b1 k1 by blast
  qed
  have ex: "(\<exists>i<Suc k. b = blk + of_nat i * off) \<longleftrightarrow> b = blk \<or> (\<exists>i<k. b = blk + off + of_nat i * off)" for b
    by (auto simp: Ex_less_Suc2 algebra_simps)
  show ?case
  proof (intro exI conjI)
    show "write_copies E x (Suc k) blk off ok s = Some (ok, s')"
      using s1(1) s'(1) Suc.prems(1) sb by simp
    show "io_only s s'" using s1(2) s'(2) io_only_trans by blast
    show "rd (world (kern s')) = (rd (world (kern s)))(dkey s d :=
       (\<lambda>b. if \<exists>i<Suc k. b = blk + of_nat i * off then sector n (b_buffer (bufs s x)) else rd (world (kern s)) (dkey s d) b))"
      unfolding s'(3) s1(3) ex by (auto simp: fun_eq_iff)
  qed
qed

lemma set_buf_io_only: "io_only s s1 \<Longrightarrow> kern (set_buf x f s1) = kern s1 \<and> dpbs (set_buf x f s1) = dpbs s
    \<and> firstbuf (set_buf x f s1) = firstbuf s \<and> bufs (set_buf x f s1) = (bufs s)(x := f (bufs s x))"
  by (simp add: io_only_def)

text \<open>What \<open>flush1\<close> does under a reliable driver: the buffer is clean, its sector is on the
  disk at its own block, and no other block that matters has changed.\<close>

lemma flush1_effect:
  assumes rel: "reliable E n rd" and ok: "cache_ok n rd V s os" and x: "x \<in> set os"
  shows "\<exists>s1 s'. flush1 E x s = Some (True, s') \<and> io_only s s1
     \<and> s' = set_buf x (\<lambda>b. b\<lparr>b_flag := b_flag b AND NOT BFR_DIRTY\<rparr>) s1
     \<and> (\<forall>v \<in> V. disk n rd s1 v =
          (if b_valid (bufs s x) \<and> b_dirty (bufs s x) \<and> v = buf_id (bufs s x) then sector n (b_buffer (bufs s x))
           else disk n rd s v))"
proof (cases "b_valid (bufs s x) \<and> b_dirty (bufs s x)")
  case False
  then show ?thesis
    by (intro exI[of _ s] exI[of _ "set_buf x (\<lambda>b. b\<lparr>b_flag := b_flag b AND NOT BFR_DIRTY\<rparr>) s"])
      (auto simp: flush1_def valid_dirty)
next
  case True
  let ?b = "bufs s x"
  let ?d = "scast (b_unit ?b) :: 16 word"
  have bo: "buffer_ok n rd V s ?b" using ok x by (auto simp: cache_ok_def)
  then have idV: "buf_id ?b \<in> V" using True by (simp add: buffer_ok_def)
  then have dD: "?d \<in> fst ` V" by (force simp: buf_id_def)
  then obtain dp where dp: "get_dpb ?d s = Some dp" "unat (dpb_secsize (dpbs s dp)) = n"
    using ok by (auto simp: cache_ok_def drives_ok_def)
  define k where "k = (if b_fat ?b then unat (b_copies ?b) else 1)"
  define off where "off = (if b_fat ?b then copy_offset s ?b else 0)"
  obtain s1 where s1: "write_copies E x k (b_blkno ?b) off True s = Some (True, s1)" "io_only s s1"
     "rd (world (kern s1)) = (rd (world (kern s)))(dkey s ?d :=
       (\<lambda>b. if \<exists>i<k. b = b_blkno ?b + of_nat i * off then sector n (b_buffer ?b) else rd (world (kern s)) (dkey s ?d) b))"
    using write_copies_reliable[OF rel refl dp] by blast
  have f: "flush1 E x s = Some (True, set_buf x (\<lambda>b. b\<lparr>b_flag := b_flag b AND NOT BFR_DIRTY\<rparr>) s1)"
    using s1(1) True
    by (cases "b_fat ?b") (simp_all add: flush1_def valid_dirty k_def off_def copy_offset_def del: write_copies.simps)
  have k0: "0 < k" and mir: "\<And>i. 0 < i \<Longrightarrow> i < k \<Longrightarrow> (?d, b_blkno ?b + of_nat i * off) \<notin> V"
    using bo True by (auto simp: k_def off_def buffer_ok_def mirrors_ok_def)
  have "disk n rd s1 v = (if v = buf_id ?b then sector n (b_buffer ?b) else disk n rd s v)" if v: "v \<in> V" for v
  proof -
    have key: "dkey s1 e = dkey s e" for e
      using get_dpb_io_only[OF s1(2)] drive_key_io_only[OF s1(2)] by (simp add: dkey_def)
    have inj: "dkey s (fst v) = dkey s ?d \<longleftrightarrow> fst v = ?d"
      using ok v dD by (metis (no_types, lifting) cache_ok_def drives_ok_def imageI inj_on_contraD)
    have hit: "(\<exists>i<k. b = b_blkno ?b + of_nat i * off) \<longleftrightarrow> b = b_blkno ?b" if "(?d, b) \<in> V" for b
    proof
      assume "\<exists>i<k. b = b_blkno ?b + of_nat i * off"
      then obtain i where i: "i < k" "b = b_blkno ?b + of_nat i * off" by blast
      then show "b = b_blkno ?b" using mir[of i] that by (cases "i = 0") auto
    qed (use k0 in \<open>auto intro!: exI[of _ 0]\<close>)
    show ?thesis
    proof (cases "fst v = ?d")
      case True
      then have "(\<exists>i<k. snd v = b_blkno ?b + of_nat i * off) \<longleftrightarrow> v = buf_id ?b"
        using hit[of "snd v"] v by (metis buf_id_def prod.collapse prod.inject)
      then show ?thesis using True s1(3) key by (simp add: disk_def)
    next
      case False
      then have "v \<noteq> buf_id ?b" by (auto simp: buf_id_def)
      then show ?thesis using False inj s1(3) key by (simp add: disk_def)
    qed
  qed
  then show ?thesis using True
    by (intro exI[of _ s1] exI[of _ "set_buf x (\<lambda>b. b\<lparr>b_flag := b_flag b AND NOT BFR_DIRTY\<rparr>) s1"] conjI f s1(2) refl) auto
qed

lemma flush1_ok:
  assumes rel: "reliable E n rd" and ok: "cache_ok n rd V s os" and x: "x \<in> set os"
  shows "\<exists>s'. flush1 E x s = Some (True, s') \<and> cache_ok n rd V s' os
     \<and> (\<forall>v \<in> V. view n rd s' os v = view n rd s os v)
     \<and> bufs s' = flagged x (\<lambda>g. g AND NOT BFR_DIRTY) (bufs s) \<and> firstbuf s' = firstbuf s
     \<and> (\<exists>w. kern s' = with_world w (kern s)) \<and> dpbs s' = dpbs s"
proof -
  obtain s1 s' where f: "flush1 E x s = Some (True, s')" "io_only s s1"
     and s': "s' = set_buf x (\<lambda>b. b\<lparr>b_flag := b_flag b AND NOT BFR_DIRTY\<rparr>) s1"
     and d: "\<forall>v \<in> V. disk n rd s1 v =
          (if b_valid (bufs s x) \<and> b_dirty (bufs s x) \<and> v = buf_id (bufs s x) then sector n (b_buffer (bufs s x))
           else disk n rd s v)"
    using flush1_effect[OF assms] by blast
  have b': "bufs s' = flagged x (\<lambda>g. g AND NOT BFR_DIRTY) (bufs s)" "firstbuf s' = firstbuf s" "dpbs s' = dpbs s"
    "kern s' = kern s1"
    using f(2) by (auto simp: s' io_only_def flagged_def)
  obtain w where w: "kern s' = with_world w (kern s)" using f(2) b'(4) by (auto simp: io_only_def)
  have ds: "disk n rd s' v = disk n rd s1 v" for v
    by (rule disk_cong) (simp_all add: s')
  have flds: "buf_id (bufs s' y) = buf_id (bufs s y)" "b_valid (bufs s' y) = b_valid (bufs s y)"
    "b_buffer (bufs s' y) = b_buffer (bufs s y)" "b_fat (bufs s' y) = b_fat (bufs s y)"
    "b_dirty (bufs s' y) = (y \<noteq> x \<and> b_dirty (bufs s y))" "mirrors_ok V s' (bufs s' y) = mirrors_ok V s (bufs s y)" for y
    by (auto simp: b' flagged_def buf_id_def flag_simps mirrors_ok_def copy_offset_def)
  have uniq: "unique_blocks s (set os)" and bo: "\<And>y. y \<in> set os \<Longrightarrow> buffer_ok n rd V s (bufs s y)"
    using ok by (auto simp: cache_ok_def)
  have bo': "buffer_ok n rd V s' (bufs s' y)" if y: "y \<in> set os" for y
  proof -
    have "b_valid (bufs s x) \<and> b_dirty (bufs s x) \<and> b_valid (bufs s y) \<and> buf_id (bufs s y) = buf_id (bufs s x) \<Longrightarrow> y = x"
      using uniq x y unfolding unique_blocks_def by blast
    then show ?thesis using bo[OF y] d by (auto simp: buffer_ok_def flds ds)
  qed
  have l: "lru s' os"
    using ok lru_same_links[of s s' os] by (auto simp: cache_ok_def same_links_def b' flagged_def)
  have ok': "cache_ok n rd V s' os"
    using ok l bo' drives_ok_cong[OF w b'(3)] uniq by (simp add: cache_ok_def unique_blocks_def flds)
  have "view n rd s' os v = view n rd s os v" if v: "v \<in> V" for v
  proof (cases "\<exists>y \<in> set os. b_valid (bufs s y) \<and> buf_id (bufs s y) = v")
    case True
    then obtain y where y: "y \<in> set os" "b_valid (bufs s y)" "buf_id (bufs s y) = v" by blast
    then show ?thesis using view_hit[OF ok, of y] view_hit[OF ok', of y] flds by simp
  next
    case False
    then show ?thesis using view_miss[of os s v] view_miss[of os s' v] flds ds d v x by auto
  qed
  then show ?thesis using f(1) ok' b' w by blast
qed

section \<open>Fetching a block\<close>

text \<open>Every buffer but \<open>x\<close> keeps its data.\<close>

definition others_kept :: "16 word \<Rightarrow> 'w diskio \<Rightarrow> 'w diskio \<Rightarrow> bool" where
  "others_kept x s s' \<longleftrightarrow> (\<forall>y. y \<noteq> x \<longrightarrow> b_flag (bufs s' y) = b_flag (bufs s y)
     \<and> buf_id (bufs s' y) = buf_id (bufs s y) \<and> b_buffer (bufs s' y) = b_buffer (bufs s y)
     \<and> b_copies (bufs s' y) = b_copies (bufs s y) \<and> b_offset (bufs s' y) = b_offset (bufs s y)
     \<and> b_dpbp (bufs s' y) = b_dpbp (bufs s y))"

lemma to_front_others: "to_front x f s s' \<Longrightarrow> others_kept x s s'"
  by (auto simp: to_front_def others_kept_def same_data_def flagged_def buf_id_def)

lemma others_kept_trans: "others_kept x s s' \<Longrightarrow> others_kept x s' s'' \<Longrightarrow> others_kept x s s''"
  by (simp add: others_kept_def)

text \<open>\<open>getblk\<close> finds the block in the cache or replaces the buffer the search selects: the
  buffer it returns shows the block, and nothing the cache shows has changed.\<close>

lemma lru_front: "lru s os \<Longrightarrow> x \<in> set os \<Longrightarrow> set (x # remove1 x os) = set os"
  by (auto simp: lru_def ring_def set_remove1_eq)

lemma front_same_cache:
  assumes "to_front x f s s'" "\<And>g. bit (f g) 5 = bit g 5 \<and> bit (f g) 6 = bit g 6 \<and> bit (f g) (Suc 0) = bit g (Suc 0)"
  shows "same_cache s s'"
proof -
  have "same_data (flagged x f (bufs s)) (bufs s')" "kern s' = kern s" "dpbs s' = dpbs s"
    using assms(1) by (auto simp: to_front_def) (metis diskio.select_convs(1) diskio.surjective diskio.update_convs(2,4),
      metis diskio.select_convs(5) diskio.surjective diskio.update_convs(2,4))
  then show ?thesis using assms(2) by (auto simp: same_cache_def same_data_def flagged_def)
qed

lemma getblk_hit:
  assumes ok: "cache_ok n rd V s os" and h: "lru_find blk d s os = Some x"
  shows "\<exists>s'. getblk E blk d False s = Some (Some x, s') \<and> cache_ok n rd V s' (x # remove1 x os)
     \<and> view n rd s' (x # remove1 x os) = view n rd s os \<and> x \<in> set os
     \<and> b_valid (bufs s' x) \<and> buf_id (bufs s' x) = (d, blk) \<and> same_cache s s'
     \<and> \<not> bit (b_flag (bufs s' x)) 0 \<and> others_kept x s s'"
proof -
  let ?f = "\<lambda>g. g AND NOT BFR_UNCACHE"
  let ?s' = "bring_front x ?f s"
  have l: "lru s os" using ok by (simp add: cache_ok_def)
  have x: "x \<in> set os" "b_valid (bufs s x)" "buf_id (bufs s x) = (d, blk)"
    using h by (auto simp: lru_find_def find_Some_iff holds_block_iff)
  have bf: "lru ?s' (x # remove1 x os)" "to_front x ?f s ?s'" using bring_front[OF l x(1), of ?f] by auto
  have sc: "same_cache s ?s'" by (rule front_same_cache[OF bf(2)]) (simp add: flag_simps)
  have nu: "\<not> bit (b_flag (bufs ?s' x)) 0"
    using bf(2) by (auto simp: to_front_def same_data_def flagged_def flag_simps)
  then have "getblk E blk d False s = Some (Some x, ?s')"
    using h by (simp add: getblk_def searchblock_eq[OF l])
  moreover have "b_valid (bufs ?s' x) \<and> buf_id (bufs ?s' x) = (d, blk)"
    using sc x by (simp add: same_cache_def buf_id_def)
  ultimately show ?thesis
    using same_cache_ok[OF sc ok bf(1) lru_front[OF l x(1)]] x(1) sc nu to_front_others[OF bf(2)] by blast
qed

text \<open>The buffer the search marks \<open>UNCACHE\<close> is flushed, read and given to the block.\<close>

lemma getblk_miss_state:
  assumes ok: "cache_ok n rd V s os" and x: "x \<in> set os" and clean: "\<not> b_dirty (bufs s x)"
    and miss: "\<forall>y \<in> set os. b_valid (bufs s y) \<longrightarrow> buf_id (bufs s y) \<noteq> (d, blk)" and dV: "(d, blk) \<in> V"
    and io: "io_only s s1" "rd (world (kern s1)) = rd (world (kern s))"
    and dat: "sector n dt = disk n rd s (d, blk)"
    and s': "s' = set_buf x (\<lambda>b. b\<lparr>b_flag := BFR_VALID OR BFR_DATA, b_unit := ucast d, b_blkno := blk\<rparr>)
                   (set_buf x (\<lambda>b. b\<lparr>b_buffer := dt\<rparr>) s1)"
  shows "cache_ok n rd V s' os \<and> (\<forall>v \<in> V. view n rd s' os v = view n rd s os v)"
proof -
  have u: "scast (ucast d :: 8 word) = d"
    using ok dV by (force simp: cache_ok_def drives_ok_def)
  obtain w where w: "kern s' = with_world w (kern s)" using io(1) by (auto simp: s' io_only_def)
  have dp: "dpbs s' = dpbs s" using io(1) by (simp add: s' io_only_def)
  have others: "y \<noteq> x \<Longrightarrow> bufs s' y = bufs s y" for y using io(1) by (simp add: s' io_only_def)
  have self: "buf_id (bufs s' x) = (d, blk)" "b_valid (bufs s' x)" "\<not> b_dirty (bufs s' x)" "\<not> b_fat (bufs s' x)"
    "b_buffer (bufs s' x) = dt"
    using io(1) u by (simp_all add: s' io_only_def buf_id_def flag_simps)
  have ds: "disk n rd s' v = disk n rd s v" for v
    using io(2) get_dpb_cong[OF w] w dp by (simp add: disk_def dkey_def drive_key_def) (simp add: s')
  have m: "mirrors_ok V s' b = mirrors_ok V s b" for b by (simp add: mirrors_ok_def copy_offset_def dp)
  have l: "lru s' os"
    using ok io(1) lru_same_links[of s s' os] by (auto simp: cache_ok_def same_links_def s' io_only_def)
  have bo: "buffer_ok n rd V s' (bufs s' y)" if "y \<in> set os" for y
  proof (cases "y = x")
    case True
    then show ?thesis using self dV dat by (simp add: buffer_ok_def ds)
  next
    case False
    then show ?thesis using ok that others[of y] by (simp add: cache_ok_def buffer_ok_def ds m)
  qed
  have uq: "unique_blocks s' (set os)"
    using ok miss others self by (auto simp: cache_ok_def unique_blocks_def) metis+
  have ok': "cache_ok n rd V s' os"
    using ok l bo uq drives_ok_cong[OF w dp] by (simp add: cache_ok_def)
  have "view n rd s' os v = view n rd s os v" if v: "v \<in> V" for v
  proof (cases "\<exists>y \<in> set os. y \<noteq> x \<and> b_valid (bufs s y) \<and> buf_id (bufs s y) = v")
    case True
    then obtain y where y: "y \<in> set os" "y \<noteq> x" "b_valid (bufs s y)" "buf_id (bufs s y) = v" by blast
    then show ?thesis using view_hit[OF ok, of y] view_hit[OF ok', of y] others by simp
  next
    case none: False
    have "view n rd s os v = disk n rd s v"
    proof (cases "b_valid (bufs s x) \<and> buf_id (bufs s x) = v")
      case True
      then show ?thesis using view_hit[OF ok x] ok x clean by (simp add: cache_ok_def buffer_ok_def)
    next
      case False
      then show ?thesis using view_miss[of os s v] none by auto
    qed
    moreover have "view n rd s' os v = disk n rd s v"
    proof (cases "v = (d, blk)")
      case True
      then show ?thesis using view_hit[OF ok' x] self dat by simp
    next
      case False
      then show ?thesis using view_miss[of os s' v] none others self ds by metis
    qed
    ultimately show ?thesis by simp
  qed
  then show ?thesis using ok' by blast
qed

lemma getblk_ok:
  assumes rel: "reliable E n rd" and ok: "cache_ok n rd V s os" and dV: "(d, blk) \<in> V"
  shows "\<exists>x s'. getblk E blk d False s = Some (Some x, s') \<and> x \<in> set os \<and> cache_ok n rd V s' (x # remove1 x os)
     \<and> (\<forall>v \<in> V. view n rd s' (x # remove1 x os) v = view n rd s os v)
     \<and> b_valid (bufs s' x) \<and> buf_id (bufs s' x) = (d, blk)
     \<and> dpbs s' = dpbs s \<and> (\<exists>w. kern s' = with_world w (kern s))
     \<and> \<not> bit (b_flag (bufs s' x)) 0 \<and> others_kept x s s'
     \<and> x = (case lru_find blk d s os of Some y \<Rightarrow> y | None \<Rightarrow> lru_victim (bufs s) os)"
proof (cases "lru_find blk d s os")
  case (Some x)
  obtain s' where s': "getblk E blk d False s = Some (Some x, s')" "cache_ok n rd V s' (x # remove1 x os)"
     "view n rd s' (x # remove1 x os) = view n rd s os" "x \<in> set os" "b_valid (bufs s' x)"
     "buf_id (bufs s' x) = (d, blk)" "same_cache s s'" "\<not> bit (b_flag (bufs s' x)) 0" "others_kept x s s'"
    using getblk_hit[OF ok Some, of E] by blast
  have "dpbs s' = dpbs s" "kern s' = with_world (world (kern s)) (kern s)"
    using s'(7) by (simp_all add: same_cache_def with_world_same)
  then show ?thesis using s' Some by auto
next
  case None
  let ?f = "\<lambda>g. g OR BFR_UNCACHE"
  define x where "x = lru_victim (bufs s) os"
  define os' where "os' = x # remove1 x os"
  define s1 where "s1 = bring_front x ?f s"
  have l: "lru s os" using ok by (simp add: cache_ok_def)
  then have x: "x \<in> set os" using lru_victim_in by (auto simp: x_def lru_def ring_def)
  have bf: "lru s1 os'" "to_front x ?f s s1" using bring_front[OF l x, of ?f] by (auto simp: s1_def os'_def)
  have sc: "same_cache s s1" by (rule front_same_cache[OF bf(2)]) (simp add: flag_simps)
  have so: "set os' = set os" using lru_front[OF l x] by (simp add: os'_def)
  note ok1 = same_cache_ok[OF sc ok bf(1) so]
  have x': "x \<in> set os'" using so x by simp
  obtain s2 where s2: "flush1 E x s1 = Some (True, s2)" "cache_ok n rd V s2 os'"
      "\<forall>v \<in> V. view n rd s2 os' v = view n rd s1 os' v"
      "bufs s2 = flagged x (\<lambda>g. g AND NOT BFR_DIRTY) (bufs s1)" "\<exists>w. kern s2 = with_world w (kern s1)" "dpbs s2 = dpbs s1"
    using flush1_ok[OF rel ok1(1) x'] by blast
  have "d \<in> fst ` V" using dV by force
  then obtain dp where dp: "get_dpb d s2 = Some dp" "unat (dpb_secsize (dpbs s2 dp)) = n"
    using s2(2) by (auto simp: cache_ok_def drives_ok_def)
  obtain dt s3 where s3: "dskxfer E d blk (buf_seg s2) (b_buffer (bufs s2 x)) 1 DSKREAD s2 = Some (0, dt, s3)"
      "io_only s2 s3" "rd (world (kern s3)) = rd (world (kern s2))"
      "sector n dt = sector n (rd (world (kern s2)) (drive_key s2 dp) blk)"
    using dskxfer_reliable(1)[OF rel dp] by blast
  define s4 where "s4 = set_buf x (\<lambda>b. b\<lparr>b_flag := BFR_VALID OR BFR_DATA, b_unit := ucast d, b_blkno := blk\<rparr>)
                   (set_buf x (\<lambda>b. b\<lparr>b_buffer := dt\<rparr>) s3)"
  have "bit (b_flag (bufs s1 x)) 0"
    using bf(2) by (auto simp: to_front_def same_data_def flagged_def flag_simps)
  then have g: "getblk E blk d False s = Some (Some x, s4)"
    using None s2(1) s3(1) by (simp add: getblk_def searchblock_eq[OF l] x_def[symmetric] s1_def[symmetric] s4_def Let_def)
  have miss: "\<forall>y \<in> set os'. b_valid (bufs s2 y) \<longrightarrow> buf_id (bufs s2 y) \<noteq> (d, blk)"
    using None so sc s2(4)
    by (auto simp: lru_find_def find_None_iff holds_block_iff same_cache_def flagged_def buf_id_def flag_simps)
  have dat: "sector n dt = disk n rd s2 (d, blk)" using s3(4) dp by (simp add: disk_def dkey_def)
  have clean: "\<not> b_dirty (bufs s2 x)" using s2(4) by (simp add: flagged_def flag_simps)
  have r: "cache_ok n rd V s4 os'" "\<forall>v \<in> V. view n rd s4 os' v = view n rd s2 os' v"
    using getblk_miss_state[OF s2(2) x' clean miss dV s3(2,3) dat s4_def] by auto
  have u: "scast (ucast d :: 8 word) = d"
    using ok dV by (force simp: cache_ok_def drives_ok_def)
  have self: "b_valid (bufs s4 x)" "buf_id (bufs s4 x) = (d, blk)" by (simp_all add: s4_def buf_id_def flag_simps u)
  have k: "dpbs s4 = dpbs s" "\<exists>w. kern s4 = with_world w (kern s)"
    using s3(2) s2(5,6) sc by (auto simp: s4_def io_only_def same_cache_def)
  have nu: "\<not> bit (b_flag (bufs s4 x)) 0" by (simp add: s4_def flag_simps)
  have "others_kept x s1 s4"
    using s2(4) s3(2) by (simp add: others_kept_def flagged_def s4_def io_only_def)
  then have oth: "others_kept x s s4" using to_front_others[OF bf(2)] others_kept_trans by blast
  have xv: "x = (case lru_find blk d s os of Some y \<Rightarrow> y | None \<Rightarrow> lru_victim (bufs s) os)"
    using None by (simp add: x_def)
  have vw: "\<forall>v \<in> V. view n rd s4 (x # remove1 x os) v = view n rd s os v"
    using r(2) s2(3) ok1(2) unfolding os'_def by simp
  show ?thesis using g x r(1)[unfolded os'_def] vw self k nu oth xv by blast
qed

section \<open>Changing the contents of a buffer\<close>

lemma same_links_set_buf:
  "(\<And>b. b_next (f b) = b_next b \<and> b_prev (f b) = b_prev b) \<Longrightarrow> same_links s (set_buf x f s)"
  by (simp add: same_links_def)

text \<open>A buffer whose unit and block stay gets new contents and is marked dirty, or only its
  other fields change.\<close>

lemma poke_ok:
  assumes ok: "cache_ok n rd V s os" and x: "x \<in> set os" "b_valid (bufs s x)"
    and id: "buf_id (bufs s' x) = buf_id (bufs s x)" "b_valid (bufs s' x)"
      "b_dirty (bufs s' x) \<or> \<not> b_dirty (bufs s x) \<and> b_buffer (bufs s' x) = b_buffer (bufs s x)"
    and fat: "b_fat (bufs s' x) \<longrightarrow> mirrors_ok V s' (bufs s' x)"
    and oth: "\<And>y. y \<noteq> x \<Longrightarrow> bufs s' y = bufs s y" and l: "same_links s s'"
    and k: "kern s' = kern s" "\<And>p. dpb_xfatsize (dpbs s' p) = dpb_xfatsize (dpbs s p)
       \<and> dpb_secsize (dpbs s' p) = dpb_secsize (dpbs s p) \<and> dpb_subunit (dpbs s' p) = dpb_subunit (dpbs s p)"
  shows "cache_ok n rd V s' os"
    and "view n rd s' os = (view n rd s os)(buf_id (bufs s x) := sector n (b_buffer (bufs s' x)))"
proof -
  have g: "get_dpb d s' = get_dpb d s" for d using get_dpb_same[OF k(1)] .
  have ds: "disk n rd s' v = disk n rd s v" for v using k g by (simp add: disk_def dkey_def drive_key_def)
  have m: "mirrors_ok V s' b = mirrors_ok V s b" for b using k by (simp add: mirrors_ok_def copy_offset_def)
  have bo: "buffer_ok n rd V s' (bufs s' y)" if "y \<in> set os" for y
  proof (cases "y = x")
    case True
    have "buffer_ok n rd V s (bufs s x)" using ok x by (simp add: cache_ok_def)
    then show ?thesis using True x id fat ds by (auto simp: buffer_ok_def)
  next
    case False
    then show ?thesis using ok that oth[of y] by (simp add: cache_ok_def buffer_ok_def ds m)
  qed
  have same: "b_valid (bufs s' y) = b_valid (bufs s y)" "buf_id (bufs s' y) = buf_id (bufs s y)" for y
    using oth[of y] id x by (cases "y = x"; simp)+
  have "drives_ok n (fst ` V) s'" using ok k g by (simp add: cache_ok_def drives_ok_def dkey_def drive_key_def inj_on_def)
  then show ok': "cache_ok n rd V s' os"
    using ok bo lru_same_links[OF l] by (simp add: cache_ok_def unique_blocks_def same)
  show "view n rd s' os = (view n rd s os)(buf_id (bufs s x) := sector n (b_buffer (bufs s' x)))"
  proof
    fix v
    show "view n rd s' os v = ((view n rd s os)(buf_id (bufs s x) := sector n (b_buffer (bufs s' x)))) v"
    proof (cases "\<exists>y \<in> set os. b_valid (bufs s y) \<and> buf_id (bufs s y) = v")
      case True
      then obtain y where y: "y \<in> set os" "b_valid (bufs s y)" "buf_id (bufs s y) = v" by blast
      have "y = x" if "buf_id (bufs s x) = v" using that y x ok by (auto simp: cache_ok_def unique_blocks_def)
      moreover have "view n rd s os v = sector n (b_buffer (bufs s y))" "view n rd s' os v = sector n (b_buffer (bufs s' y))"
        using view_hit[OF ok, of y] view_hit[OF ok', of y] y same by auto
      ultimately show ?thesis using oth[of y] y by (cases "y = x") auto
    next
      case False
      then show ?thesis using view_miss[of os s v] view_miss[of os s' v] same ds x by auto
    qed
  qed
qed

section \<open>Flushing every buffer\<close>

lemma dskxfer_io_only:
  assumes "dskxfer E dsk blkno seg data n mode s = Some (st, d, s')"
  shows "io_only s s'"
proof (cases "get_dpb dsk s")
  case (Some dp)
  then show ?thesis using assms xfer_once_io_only[of s E dp blkno seg data n mode] by (simp add: dskxfer_eq)
qed (use assms in \<open>simp add: dskxfer_eq\<close>)

lemma flush1_same_links: "flush1 E x s = Some (ok, s') \<Longrightarrow> same_links s s'"
proof -
  have w: "write_copies E x k blk off a s = Some (b, s1) \<Longrightarrow> same_links s s1" for k blk off a b s1
  proof (induction k arbitrary: blk a s)
    case (Suc k)
    obtain st d s2 where t: "dskxfer E (scast (b_unit (bufs s x))) blk (buf_seg s) (b_buffer (bufs s x)) 1 DSKWRITE s
        = Some (st, d, s2)" by (metis dskxfer_eq prod_cases3)
    have "io_only s s2"
      using t by (rule dskxfer_io_only)
    then have "same_links s (set_buf x (\<lambda>b. b\<lparr>b_buffer := d\<rparr>) s2)" by (auto simp: io_only_def same_links_def)
    moreover have "same_links (set_buf x (\<lambda>b. b\<lparr>b_buffer := d\<rparr>) s2) s1" using Suc t by auto
    ultimately show ?case by (rule same_links_trans)
  qed simp
  let ?b = "bufs s x"
  let ?W = "if b_flag ?b AND (BFR_VALID OR BFR_DIRTY) = BFR_VALID OR BFR_DIRTY then
          if flag_set (b_flag ?b) BFR_FAT then
            write_copies E x (unat (b_copies ?b)) (b_blkno ?b)
              (if b_offset ?b = 0 then dpb_xfatsize (dpbs s (b_dpbp ?b)) else ucast (b_offset ?b)) True s
          else write_copies E x 1 (b_blkno ?b) 0 True s
        else Some (True, s)"
  assume f: "flush1 E x s = Some (ok, s')"
  then obtain ok1 s1 where s1: "?W = Some (ok1, s1)" by (cases ?W) (auto simp: flush1_def Let_def)
  have "same_links s s1"
  proof (cases "b_flag ?b AND (BFR_VALID OR BFR_DIRTY) = BFR_VALID OR BFR_DIRTY")
    case True
    then show ?thesis using s1 w by (cases "flag_set (b_flag ?b) BFR_FAT") (simp_all del: write_copies.simps flag_bit)
  qed (use s1 in simp)
  moreover have "same_links s1 s'"
    using f s1 unfolding flush1_def Let_def by (auto simp: same_links_def split: if_splits)
  ultimately show ?thesis by (rule same_links_trans)
qed

lemma invalidate_ok:
  assumes ok: "cache_ok n rd V s os" and x: "x \<in> set os" and clean: "\<not> b_dirty (bufs s x)"
    and s': "s' = set_buf x (\<lambda>b. b\<lparr>b_flag := b_flag b AND NOT BFR_VALID\<rparr>) s"
  shows "cache_ok n rd V s' os \<and> view n rd s' os = view n rd s os \<and> \<not> b_valid (bufs s' x)"
proof -
  have k: "kern s' = kern s" "dpbs s' = dpbs s" by (simp_all add: s')
  have f: "b_valid (bufs s' y) = (y \<noteq> x \<and> b_valid (bufs s y))" "buf_id (bufs s' y) = buf_id (bufs s y)"
    "b_dirty (bufs s' y) = b_dirty (bufs s y)" "b_fat (bufs s' y) = b_fat (bufs s y)"
    "b_buffer (bufs s' y) = b_buffer (bufs s y)" "mirrors_ok V s' (bufs s' y) = mirrors_ok V s (bufs s y)" for y
    by (auto simp: s' flag_simps buf_id_def mirrors_ok_def copy_offset_def)
  have bo: "y \<in> set os \<Longrightarrow> buffer_ok n rd V s' (bufs s' y)" for y
    using ok by (auto simp: cache_ok_def buffer_ok_def f disk_cong[OF k])
  have d: "drives_ok n (fst ` V) s'"
    using ok drives_ok_cong[of s' "world (kern s)" s] k by (simp add: with_world_same cache_ok_def)
  have l: "lru s' os" using ok lru_same_links[of s s' os] by (simp add: cache_ok_def s')
  have ok': "cache_ok n rd V s' os"
    using ok bo d l by (auto simp: cache_ok_def unique_blocks_def f)
  have "view n rd s' os v = view n rd s os v" for v
  proof (cases "\<exists>y \<in> set os. b_valid (bufs s y) \<and> buf_id (bufs s y) = v")
    case True
    then obtain y where y: "y \<in> set os" "b_valid (bufs s y)" "buf_id (bufs s y) = v" by blast
    show ?thesis
    proof (cases "y = x")
      case True
      have "\<forall>z \<in> set os. b_valid (bufs s' z) \<longrightarrow> buf_id (bufs s' z) \<noteq> v"
        using ok y True f by (auto simp: cache_ok_def unique_blocks_def)
      then have "view n rd s' os v = disk n rd s v" using view_miss[of os s' v n rd] disk_cong[OF k] by simp
      moreover have "view n rd s os v = disk n rd s v"
        using view_hit[OF ok y(1,2)] y True ok clean by (auto simp: cache_ok_def buffer_ok_def)
      ultimately show ?thesis by simp
    next
      case False
      then show ?thesis using view_hit[OF ok y(1,2)] view_hit[OF ok' y(1)] y f by auto
    qed
  next
    case False
    then show ?thesis using view_miss[of os s v] view_miss[of os s' v] f disk_cong[OF k] by auto
  qed
  then show ?thesis using ok' f by auto
qed

definition flush_body :: "'w driver \<Rightarrow> 16 word \<Rightarrow> bool \<Rightarrow> 'w diskio \<Rightarrow> (unit + bool \<times> 'w diskio) option" where
  "flush_body E bp ok s = do {
     (ok1, s1) \<leftarrow> flush1 E bp s;
     Some (Inr (ok \<and> ok1, set_buf bp (\<lambda>b. b\<lparr>b_flag := b_flag b AND NOT BFR_VALID\<rparr>) s1))
   }"

lemma flush_body_links: "keeps_links (flush_body E)"
  using flush1_same_links
  by (fastforce simp: keeps_links_def flush_body_def same_links_def split: Option.bind_splits)

lemma flush_list:
  assumes rel: "reliable E n rd"
  shows "cache_ok n rd V s os \<Longrightarrow> set xs \<subseteq> set os \<Longrightarrow>
    \<exists>s'. list_do (flush_body E) xs a s = Some (Inr (a, s')) \<and> cache_ok n rd V s' os
      \<and> (\<forall>v \<in> V. view n rd s' os v = view n rd s os v)
      \<and> (\<forall>y. b_valid (bufs s' y) \<longrightarrow> y \<notin> set xs \<and> b_valid (bufs s y))"
proof (induction xs arbitrary: a s)
  case (Cons x xs)
  obtain s1 where s1: "flush1 E x s = Some (True, s1)" "cache_ok n rd V s1 os"
     "\<forall>v \<in> V. view n rd s1 os v = view n rd s os v" "bufs s1 = flagged x (\<lambda>g. g AND NOT BFR_DIRTY) (bufs s)"
    using flush1_ok[OF rel Cons.prems(1), of x] Cons.prems(2) by auto
  define s2 where "s2 = set_buf x (\<lambda>b. b\<lparr>b_flag := b_flag b AND NOT BFR_VALID\<rparr>) s1"
  have s2: "cache_ok n rd V s2 os" "view n rd s2 os = view n rd s1 os"
    using invalidate_ok[OF s1(2) _ _ s2_def] Cons.prems(2) s1(4) by (auto simp: flagged_def flag_simps)
  obtain s3 where s3: "list_do (flush_body E) xs a s2 = Some (Inr (a, s3))" "cache_ok n rd V s3 os"
      "\<forall>v \<in> V. view n rd s3 os v = view n rd s2 os v" "\<forall>y. b_valid (bufs s3 y) \<longrightarrow> y \<notin> set xs \<and> b_valid (bufs s2 y)"
    using Cons.IH[OF s2(1), of a] Cons.prems(2) by auto
  have "list_do (flush_body E) (x # xs) a s = Some (Inr (a, s3))"
    using s1(1) s3(1) by (simp add: flush_body_def s2_def)
  moreover have "b_valid (bufs s3 y) \<longrightarrow> y \<notin> set (x # xs) \<and> b_valid (bufs s y)" for y
  proof
    assume "b_valid (bufs s3 y)"
    then have "y \<notin> set xs" "b_valid (bufs s2 y)" using s3(4) by auto
    then show "y \<notin> set (x # xs) \<and> b_valid (bufs s y)"
      using s1(4) by (auto simp: s2_def flagged_def flag_simps split: if_splits)
  qed
  ultimately show ?case using s3(2,3) s2(2) s1(3) by auto
qed simp

end
