(* ===== verification/Blockio_Props.thy ===== *)
theory Blockio_Props
  imports Blockio_View
begin

text \<open>The properties of the block cache, with their witnesses on a cache of three buffers.\<close>

section \<open>An example\<close>

type_synonym platters = "32 word \<times> 8 word \<Rightarrow> 32 word \<Rightarrow> bytes"

definition ram_disk :: "platters driver" where
  "ram_disk r dev w =
     (let k = (dev, r_unit r); b = request_block r in
      if r_command r = CMD_INPUT then (r\<lparr>r_status := S_DONE, r_trans := sector 512 (w k b)\<rparr>, w)
      else (r\<lparr>r_status := S_DONE\<rparr>, w(k := (w k)(b := sector 512 (r_trans r)))))"

lemma ram_disk_reliable: "reliable ram_disk 512 (\<lambda>w. w)"
  by (auto simp: reliable_def ram_disk_def Let_def req_defs)

definition kern1 :: "platters kernel" where
  "kern1 = \<lparr>cu_psp = 0x100, HMAclaimed = False, hmem = (\<lambda>_. 0),
     mcbs = (\<lambda>_. \<lparr>m_type = 0, m_psp = 0, m_size = 0, m_name = []\<rparr>),
     first_mcb = 0, uppermem_root = 0, uppermem_link = 0, mem_access_mode = 0,
     share_tab = undefined, sft_tbl = [], lpCurSft = None, current_sft_idx = 0,
     psps = (\<lambda>_. \<lparr>ps_maxfiles = 0, ps_filetab = [], ps_parent = 0, ps_size = 0\<rparr>),
     CDSp = [\<lparr>cdsCurrentPath = [], cdsFlags = 0x4000, cdsDpb = 0x700000, cdsStrtClst = 0\<rparr>], default_drive = 0, current_ldt = None,
     devices = [], dpb_device = (\<lambda>_. 0x800000), PriPathName = [], fcb_name = [], OpenMode = 0,
     ext_open = (0, 0, 0), dta = 0, current_filepos = 0, world = (\<lambda>_ _ _. 7)\<rparr>"

definition dpb1 :: dpb where
  "dpb1 = \<lparr>dpb_unit = 0, dpb_subunit = 0, dpb_secsize = 512, dpb_clsmask = 3, dpb_shftcnt = 2, dpb_fatstrt = 1,
     dpb_fats = 2, dpb_dirents = 512, dpb_data = 45, dpb_size = 2000, dpb_fatsize = 6, dpb_dirstrt = 13,
     dpb_mdb = 0xf8, dpb_flags = 0, dpb_cluster = 0, dpb_xnfreeclst = 0xffffffff, dpb_xflags = 0,
     dpb_xfsinfosec = 0xffff, dpb_xbackupsec = 0, dpb_xdata = 45, dpb_xsize = 2000, dpb_xfatsize = 6,
     dpb_xrootclst = 0, dpb_xcluster = 0\<rparr>"

definition io1 :: "platters diskio" where
  "io1 = config_init_buffers 3 0x500 0 (\<lambda>_. 0)
     \<lparr>kern = kern1, bufs = (\<lambda>_. buffer_zero), buf_seg = 0, firstbuf = 0, dpbs = (\<lambda>_. dpb1), verify_ena = False,
      bufloc = 0, deblock_buf = (\<lambda>_. 0),
      IoReqHdr = \<lparr>r_length = 0, r_unit = 0, r_command = 0, r_status = 0, r_meddesc = 0, r_trans = (\<lambda>_. 0),
        r_count = 0, r_start = 0, r_huge = 0\<rparr>,
      CritErrCode = 0, nbuffers = 0\<rparr>"

lemma link_two: "link_buffers 2 p s = link_buffers (Suc (Suc 0)) p s"
  by (simp only: numeral_2_eq_2)

lemma io1_simps:
  "kern io1 = kern1" "dpbs io1 = (\<lambda>_. dpb1)" "firstbuf io1 = 0"
  "bufs io1 = (\<lambda>p. buffer_zero\<lparr>b_next := (if p = 0 then 0x214 else if p = 0x214 then 0x428 else 0),
                     b_prev := (if p = 0 then 0x428 else if p = 0x214 then 0 else if p = 0x428 then 0x214 else 0)\<rparr>)"
  by (auto simp: io1_def config_init_buffers_def Let_def link_two sizeof_buffer_def buffer_zero_def fun_eq_iff)

lemma io1_lru: "lru io1 [0, 0x214, 0x428]"
  by (simp add: lru_def ring_def io1_simps)

lemma io1_get_dpb: "get_dpb 0 io1 = Some 0x700000"
  by (simp add: get_dpb_def io1_simps kern1_def get_cds_def Let_def CDSPHYSDRV_def CDSVALID_def CDSJOINED_def CDSNETWDRV_def)

lemma io1_ok: "cache_ok 512 (\<lambda>w. w) {(0, 1), (0, 40)} io1 [0, 0x214, 0x428]"
proof -
  have "drives_ok 512 (fst ` {(0, 1), (0, 40)}) io1"
    by (auto simp: drives_ok_def io1_get_dpb io1_simps dpb1_def)
  moreover have "\<not> b_valid (bufs io1 x)" for x by (simp add: io1_simps buffer_zero_def)
  ultimately show ?thesis using io1_lru by (simp add: cache_ok_def buffer_ok_def unique_blocks_def)
qed

section \<open>Properties\<close>

text \<open>C19. The search for a block refines a move-to-front list: on a well-formed ring it returns
  the buffer that holds the block or, when none does, recycles one, and that buffer is then the
  first of a well-formed ring with the others in their order; but for its \<open>UNCACHE\<close> flag
  (cleared when found, set when not) no buffer's data changes, and nothing else of the state.
  The buffer recycled is the last \<open>UNCACHE\<close> buffer, unless that one lies at offset 0; else, if
  the first buffer of the ring holds a FAT and fewer than three do, the last that does not, unless
  at offset 0; else the last buffer of the ring. The comments of the code ask for the last
  \<open>UNCACHE\<close> buffer, else the last that holds no FAT when fewer than three do, else the last. When
  no buffer lies at offset 0 the code recycles that one if and only if some buffer is
  \<open>UNCACHE\<close>, three or more hold a FAT, the first does, or the last does not: in the case left,
  a buffer of the FAT is recycled although they are low.\<close>

theorem searchblock_is_lru_list:
  assumes "lru s os"
  shows "\<exists>x s'. searchblock blkno dsk s = Some (x, s') \<and> x \<in> set os \<and> lru s' (x # remove1 x os)
     \<and> x = (case lru_find blkno dsk s os of Some y \<Rightarrow> y | None \<Rightarrow> lru_victim (bufs s) os)
     \<and> to_front x (\<lambda>g. if lru_find blkno dsk s os = None then g OR BFR_UNCACHE else g AND NOT BFR_UNCACHE) s s'
     \<and> (lru_find blkno dsk s os = None \<and> 0 \<notin> set os \<longrightarrow>
          (x = documented_victim (bufs s) os \<longleftrightarrow>
             (\<exists>y \<in> set os. flag_set (b_flag (bufs s y)) BFR_UNCACHE) \<or> \<not> fat_count_low (bufs s) os
             \<or> flag_set (b_flag (bufs s (hd os))) BFR_FAT \<or> \<not> flag_set (b_flag (bufs s (last os))) BFR_FAT))"
proof (cases "lru_find blkno dsk s os")
  case None
  have os: "os \<noteq> []" using assms by (auto simp: lru_def ring_def)
  then have "lru_victim (bufs s) os \<in> set os" by (rule lru_victim_in)
  then show ?thesis
    using bring_front[OF assms] searchblock_eq[OF assms, of blkno dsk] None lru_victim_documented[OF os, of "bufs s"]
    by (simp add: Let_def)
next
  case (Some x)
  then have "x \<in> set os" by (auto simp: lru_find_def find_Some_iff)
  then show ?thesis using bring_front[OF assms] searchblock_eq[OF assms, of blkno dsk] Some by simp
qed

definition io_ring :: "platters diskio" where
  "io_ring = io1\<lparr>firstbuf := 0x10, bufs := (\<lambda>_. buffer_zero)
     (0x10 := buffer_zero\<lparr>b_next := 0x224, b_prev := 0x438, b_flag := 0x28, b_blkno := 60\<rparr>,
      0x224 := buffer_zero\<lparr>b_next := 0x438, b_prev := 0x10, b_flag := 0x28, b_blkno := 61\<rparr>,
      0x438 := buffer_zero\<lparr>b_next := 0x10, b_prev := 0x224, b_flag := 0x22, b_blkno := 1\<rparr>)\<rparr>"

theorem searchblock_is_lru_list_witness:
  "\<exists>s'. searchblock 40 0 io_ring = Some (0x438, s') \<and> lru s' [0x438, 0x10, 0x224]
     \<and> documented_victim (bufs io_ring) [0x10, 0x224, 0x438] = 0x224"
proof -
  let ?os = "[0x10, 0x224, 0x438] :: 16 word list"
  have l: "lru io_ring ?os" by (simp add: lru_def ring_def io_ring_def)
  have n: "lru_find 40 0 io_ring ?os = None"
    by (simp add: lru_find_def io_ring_def holds_block_iff buf_id_def buffer_zero_def)
  have v: "lru_victim (bufs io_ring) ?os = 0x438"
    by (simp add: lru_victim_def io_ring_def buffer_zero_def bfr_defs flag_set_def)
  have d: "documented_victim (bufs io_ring) ?os = 0x224"
    by (simp add: documented_victim_def fat_count_low_def io_ring_def buffer_zero_def bfr_defs flag_set_def)
  show ?thesis using searchblock_is_lru_list[OF l, of 40 0] n v d by auto
qed

text \<open>C20. Fetching a block under a reliable driver always succeeds: the buffer returned is the
  first of the ring and holds the requested block with the contents the cache showed for it, and
  the contents the cache shows of any block are unchanged, whichever buffer was written
  back and reused.\<close>

theorem getblk_shows_block:
  assumes "reliable E n rd" "cache_ok n rd V s os" "(d, blk) \<in> V"
  shows "\<exists>x s'. getblk E blk d False s = Some (Some x, s') \<and> cache_ok n rd V s' (x # remove1 x os)
     \<and> (\<forall>v \<in> V. view n rd s' (x # remove1 x os) v = view n rd s os v)
     \<and> buf_id (bufs s' x) = (d, blk) \<and> sector n (b_buffer (bufs s' x)) = view n rd s os (d, blk)"
proof -
  obtain x s' where r: "getblk E blk d False s = Some (Some x, s')" "x \<in> set os" "cache_ok n rd V s' (x # remove1 x os)"
     "\<forall>v \<in> V. view n rd s' (x # remove1 x os) v = view n rd s os v"
     "b_valid (bufs s' x)" "buf_id (bufs s' x) = (d, blk)"
    using getblk_ok[OF assms] by blast
  have "view n rd s' (x # remove1 x os) (d, blk) = sector n (b_buffer (bufs s' x))"
    using view_hit[OF r(3), of x] r(5,6) by simp
  then show ?thesis using r assms(3) by auto
qed

theorem getblk_shows_block_witness:
  "\<exists>x s'. getblk ram_disk 40 0 False io1 = Some (Some x, s') \<and> b_buffer (bufs s' x) 3 = 7"
proof -
  obtain x s' where r: "getblk ram_disk 40 0 False io1 = Some (Some x, s')"
    "sector 512 (b_buffer (bufs s' x)) = view 512 (\<lambda>w. w) io1 [0, 0x214, 0x428] (0, 40)"
    using getblk_shows_block[OF ram_disk_reliable io1_ok, of 0 40] by auto
  have "view 512 (\<lambda>w. w) io1 [0, 0x214, 0x428] (0, 40) 3 = 7"
    by (simp add: view_miss io1_simps buffer_zero_def disk_def sector_def kern1_def)
  then have "sector 512 (b_buffer (bufs s' x)) 3 = 7" using r(2) by simp
  then show ?thesis using r(1) by (auto simp: sector_def)
qed

text \<open>C21. \<open>flush\<close> under a reliable driver returns success; when it calls the network redirector at its
  end, the disk holds everything the cache showed before and no buffer is valid any more.\<close>

theorem flush_writes_everything:
  assumes "reliable E n rd" "cache_ok n rd V s os"
  shows "\<exists>s'. flush_all E flushall s = Some (True, flushall s') \<and> (\<forall>v \<in> V. disk n rd s' v = view n rd s os v)
     \<and> (\<forall>x \<in> set os. \<not> b_valid (bufs s' x)) \<and> lru s' os"
proof -
  have l: "lru s os" using assms(2) by (simp add: cache_ok_def)
  obtain s' where s': "list_do (flush_body E) os True s = Some (Inr (True, s'))" "cache_ok n rd V s' os"
      "\<forall>v \<in> V. view n rd s' os v = view n rd s os v"
      "\<forall>y. b_valid (bufs s' y) \<longrightarrow> y \<notin> set os \<and> b_valid (bufs s y)"
    using flush_list[OF assms, of os True] by auto
  have "ring_do (flush_body E) (firstbuf s) True s = Some (Inr (True, s'))"
    using ring_do_list[OF flush_body_links l] s'(1) by simp
  then have "flush_all E flushall s = Some (True, flushall s')"
    by (simp add: flush_all_def flush_body_def[abs_def] ring_state_def)
  moreover have "disk n rd s' v = view n rd s os v" if "v \<in> V" for v
    using s'(3,4) that view_miss[of os s' v n rd] by metis
  ultimately show ?thesis using s'(2,4) by (auto simp: cache_ok_def)
qed

theorem flush_writes_everything_witness:
  "\<exists>s'. flush_all ram_disk id io1 = Some (True, s') \<and> lru s' [0, 0x214, 0x428]"
  using flush_writes_everything[OF ram_disk_reliable io1_ok, of id] by auto

text \<open>C22. A read that fails leaves the buffer it was to fill valid under its old block: if the
  driver stored bytes before it reported the error, the next request for the old block is
  answered from the cache with those bytes.\<close>

theorem failed_read_poisons_block:
  assumes l: "lru s os" and none: "lru_find blk d s os = None" and x: "x = lru_victim (bufs s) os"
    and v: "b_valid (bufs s x)" "\<not> b_dirty (bufs s x)" "buf_id (bufs s x) = (d2, blk2)"
    and dp: "get_dpb d s = Some dp" and seg: "buf_seg s < 0xa000"
    and E: "\<forall>r dev w. E r dev w = (r\<lparr>r_status := st, r_trans := junk\<rparr>, w)"
    and st: "st AND (S_ERROR OR S_DONE) \<noteq> S_DONE" "st \<noteq> 0"
  shows "\<exists>s1 s2. getblk E blk d False s = Some (None, s1)
     \<and> getblk E blk2 d2 False s1 = Some (Some x, s2) \<and> b_buffer (bufs s2 x) = junk"
proof -
  let ?f = "\<lambda>g. g OR BFR_UNCACHE"
  define s0 where "s0 = bring_front x ?f s"
  have xin: "x \<in> set os" using l lru_victim_in by (auto simp: x lru_def ring_def)
  have bf: "lru s0 (x # remove1 x os)" "to_front x ?f s s0" using bring_front[OF l xin, of ?f] by (auto simp: s0_def)
  have sc: "same_cache s s0" by (rule front_same_cache[OF bf(2)]) (simp add: flag_simps)
  have sg: "buf_seg s0 = buf_seg s"
    using bf(2) by (auto simp: to_front_def) (metis diskio.select_convs(3) diskio.surjective diskio.update_convs(2,4))
  have un: "bit (b_flag (bufs s0 x)) 0"
    using bf(2) by (auto simp: to_front_def same_data_def flagged_def flag_simps)
  define s1 where "s1 = set_buf x (\<lambda>b. b\<lparr>b_flag := b_flag b AND NOT BFR_DIRTY\<rparr>) s0"
  have fl: "flush1 E x s0 = Some (True, s1)"
    using v(2) sc by (simp add: flush1_def valid_dirty same_cache_def s1_def)
  have g: "get_dpb d s1 = Some dp" using dp get_dpb_same[of s1 s d] sc by (simp add: s1_def same_cache_def)
  obtain st' dt s2 where t: "dskxfer E d blk (buf_seg s1) (b_buffer (bufs s1 x)) 1 DSKREAD s1 = Some (st', dt, s2)"
    by (metis dskxfer_eq prod_cases3)
  have "st' = st \<and> dt = junk"
  proof -
    let ?r0 = "set_req (\<lambda>r. r\<lparr>r_length := 30, r_unit := dpb_subunit (dpbs s1 dp)\<rparr>) s1"
    let ?s = "xfer_request dp CMD_INPUT blk 1 ?r0"
    obtain d' s' where c: "xfer_call E dp (buf_seg s1) (b_buffer (bufs s1 x)) 1 DSKREAD ?s = (d', s')"
      by (cases "xfer_call E dp (buf_seg s1) (b_buffer (bufs s1 x)) 1 DSKREAD ?s")
    have "\<not> (0xa000 \<le> buf_seg s1 \<and> bufloc ?s \<noteq> 0)" using seg sg by (auto simp: s1_def dest: leD)
    then have "IoReqHdr s' = (IoReqHdr ?s)\<lparr>r_trans := junk, r_status := st\<rparr> \<and> d' = junk"
      using xfer_call_direct[OF _ _ c] E by simp
    then show ?thesis
      using t g c st by (auto simp: dskxfer_eq xfer_once_def xfer_command_def dsk_defs Let_def)
  qed
  define s3 where "s3 = set_buf x (\<lambda>b. b\<lparr>b_buffer := dt\<rparr>) s2"
  have "searchblock blk d s = Some (x, s0)"
    by (simp add: searchblock_eq[OF l] none x[symmetric] s0_def)
  then have g1: "getblk E blk d False s = Some (None, s3)"
    using un fl t st(2) \<open>st' = st \<and> dt = junk\<close> by (simp add: getblk_def s3_def)
  have io: "io_only s1 s2" using t by (rule dskxfer_io_only)
  have "same_links s0 s3" using io by (auto simp: same_links_def s3_def s1_def io_only_def)
  then have l3: "lru s3 (x # remove1 x os)" using bf(1) lru_same_links by blast
  have h: "holds_block blk2 d2 (bufs s3 x)" "b_buffer (bufs s3 x) = junk"
    using io v sc \<open>st' = st \<and> dt = junk\<close>
    by (auto simp: holds_block_iff s3_def s1_def io_only_def buf_id_def same_cache_def flag_simps)
  then have f: "lru_find blk2 d2 s3 (x # remove1 x os) = Some x" by (simp add: lru_find_def)
  define s4 where "s4 = bring_front x (\<lambda>g. g AND NOT BFR_UNCACHE) s3"
  have "to_front x (\<lambda>g. g AND NOT BFR_UNCACHE) s3 s4" using bring_front[OF l3] by (simp add: s4_def)
  then have "b_buffer (bufs s4 x) = junk" "\<not> bit (b_flag (bufs s4 x)) 0"
    using h(2) by (auto simp: to_front_def same_data_def flagged_def flag_simps)
  moreover have "getblk E blk2 d2 False s3 = Some (Some x, s4)"
    using f calculation(2) by (simp add: getblk_def searchblock_eq[OF l3] s4_def)
  ultimately show ?thesis using g1 by blast
qed

definition broken_disk :: "platters driver" where
  "broken_disk r dev w = (r\<lparr>r_status := 0x8102, r_trans := (\<lambda>_. 0xff)\<rparr>, w)"

definition io2 :: "platters diskio" where
  "io2 = set_buf 0x428 (\<lambda>b. b\<lparr>b_flag := BFR_VALID, b_blkno := 5\<rparr>) io1"

theorem failed_read_poisons_block_witness:
  "\<exists>s1 s2. getblk broken_disk 9 0 False io2 = Some (None, s1)
     \<and> getblk broken_disk 5 0 False s1 = Some (Some 0x428, s2) \<and> b_buffer (bufs s2 0x428) 0 = 0xff"
proof -
  have l: "lru io2 [0, 0x214, 0x428]" using lru_same_links[of io1 io2] io1_lru by (simp add: io2_def same_links_def)
  have n: "lru_find 9 0 io2 [0, 0x214, 0x428] = None"
    by (simp add: lru_find_def io2_def io1_simps holds_block_iff buffer_zero_def buf_id_def)
  have x: "0x428 = lru_victim (bufs io2) [0, 0x214, 0x428]"
    by (simp add: lru_victim_def io2_def io1_simps buffer_zero_def flag_simps)
  have g: "get_dpb 0 io2 = Some 0x700000" using io1_get_dpb get_dpb_same[of io2 io1] by (simp add: io2_def)
  have s: "buf_seg io2 < 0xa000" by (simp add: io2_def io1_def config_init_buffers_def Let_def link_two)
  have b: "b_valid (bufs io2 0x428)" "\<not> b_dirty (bufs io2 0x428)" "buf_id (bufs io2 0x428) = (0, 5)"
    by (simp_all add: io2_def io1_simps flag_simps buf_id_def buffer_zero_def)
  have "\<forall>r dev w. broken_disk r dev w = (r\<lparr>r_status := 0x8102, r_trans := (\<lambda>_. 0xff)\<rparr>, w)"
    by (simp add: broken_disk_def)
  then show ?thesis using failed_read_poisons_block[OF l n x b g s, where E = broken_disk and st = "0x8102" and junk = "\<lambda>_. 0xff"]
    by (auto simp: S_ERROR_def S_DONE_def)
qed

end
