(* ===== verification/FatTab.thy ===== *)
theory FatTab
  imports Blockio
begin

text \<open>
  The file allocation table, kernel/fattab.c: reading and writing the entry of a cluster in the
  12-, 16- and 32-bit formats through the block cache, and the free-cluster count of FAT32. The
  messages the code prints on a bad index are left out. \<open>unsigned\<close> is 32 bits wide.
\<close>

section \<open>Formats\<close>

definition FAT_MAGIC :: int where "FAT_MAGIC = 4085"
definition FAT_MAGIC16 :: int where "FAT_MAGIC16 = 65525"
definition LONG_LAST_CLUSTER :: "32 word" where "LONG_LAST_CLUSTER = 0x0FFFFFFF"
definition LONG_BAD :: "32 word" where "LONG_BAD = 0x0FFFFFF7"
definition MASK16 :: "16 word" where "MASK16 = 0xFFF8"
definition BAD16 :: "16 word" where "BAD16 = 0xFFF7"
definition MASK12 :: "32 word" where "MASK12 = 0xFF8"
definition BAD12 :: "32 word" where "BAD12 = 0xFF7"
definition READ_CLUSTER :: "32 word" where "READ_CLUSTER = 1"
definition FREE_CLUSTER :: "32 word" where "FREE_CLUSTER = 0"
definition FAT_NO_MIRRORING :: "16 word" where "FAT_NO_MIRRORING = 0x80"
definition UNKNCLUSTER :: "32 word" where "UNKNCLUSTER = 0"
definition XUNKNCLSTFREE :: "32 word" where "XUNKNCLSTFREE = 0xffffffff"
definition UNKNCLSTFREE :: "16 word" where "UNKNCLSTFREE = 0xffff"

lemmas fat_defs = FAT_MAGIC_def FAT_MAGIC16_def LONG_LAST_CLUSTER_def LONG_BAD_def MASK16_def BAD16_def
  MASK12_def BAD12_def READ_CLUSTER_def FREE_CLUSTER_def FAT_NO_MIRRORING_def UNKNCLUSTER_def
  XUNKNCLSTFREE_def UNKNCLSTFREE_def

text \<open>\<open>dpb_size - 1\<close> is computed in \<open>int\<close>.\<close>

definition ISFAT32 :: "dpb \<Rightarrow> bool" where
  "ISFAT32 d \<longleftrightarrow> dpb_fatsize d = 0"

definition ISFAT16 :: "dpb \<Rightarrow> bool" where
  "ISFAT16 d \<longleftrightarrow> FAT_MAGIC < uint (dpb_size d) \<and> uint (dpb_size d) \<le> FAT_MAGIC16"

definition ISFAT12 :: "dpb \<Rightarrow> bool" where
  "ISFAT12 d \<longleftrightarrow> uint (dpb_size d) - 1 < FAT_MAGIC"

definition dpb_nfreeclst :: "dpb \<Rightarrow> 16 word" where
  "dpb_nfreeclst d = ucast (dpb_xnfreeclst d)"

definition set_nfreeclst :: "16 word \<Rightarrow> dpb \<Rightarrow> dpb" where
  "set_nfreeclst v d = d\<lparr>dpb_xnfreeclst := (dpb_xnfreeclst d AND 0xffff0000) OR ucast v\<rparr>"

section \<open>Blocks of the FAT\<close>

definition getFATblock :: "'w driver \<Rightarrow> 32 word \<Rightarrow> 32 word \<Rightarrow> 'w diskio \<Rightarrow> (16 word option \<times> 'w diskio) option" where
  "getFATblock E dp clussec s = do {
     (r, s1) \<leftarrow> getblock E clussec (scast (dpb_unit (dpbs s dp))) s;
     (case r of
        None \<Rightarrow> Some (None, s1)
      | Some bp \<Rightarrow>
          let d = dpbs s1 dp in
          Some (Some bp, set_buf bp (\<lambda>b. b\<lparr>
            b_flag := (b_flag b AND NOT (BFR_DATA OR BFR_DIR)) OR (BFR_FAT OR BFR_VALID),
            b_dpbp := dp,
            b_copies := (if ISFAT32 d \<and> dpb_xflags d AND FAT_NO_MIRRORING \<noteq> 0 then 1 else dpb_fats d),
            b_offset := dpb_fatsize d\<rparr>) s1))
   }"

text \<open>The information sector of FAT32: the count of free clusters at 1E8h and the last
  allocated cluster at 1ECh. The result of \<open>getblock\<close> is not checked.\<close>

definition fsinfo_block :: "'w driver \<Rightarrow> 32 word \<Rightarrow> 8 word \<Rightarrow> 'w diskio \<Rightarrow> ((16 word \<times> 'w diskio) run) option" where
  "fsinfo_block E dp clear s = do {
     (r, s1) \<leftarrow> getblock E (ucast (dpb_xfsinfosec (dpbs s dp))) (scast (dpb_unit (dpbs s dp))) s;
     (case r of
        None \<Rightarrow> Some (Inl Null_deref)
      | Some bp \<Rightarrow> Some (Inr (bp, set_buf bp (\<lambda>b. b\<lparr>b_flag := (b_flag b AND NOT clear) OR BFR_VALID\<rparr>) s1)))
   }"

definition read_fsinfo :: "'w driver \<Rightarrow> 32 word \<Rightarrow> 'w diskio \<Rightarrow> ('w diskio run) option" where
  "read_fsinfo E dp s =
     (if dpb_xfsinfosec (dpbs s dp) = 0xffff then Some (Inr s)
      else do {
        r \<leftarrow> fsinfo_block E dp (BFR_DATA OR BFR_DIR OR BFR_FAT OR BFR_DIRTY) s;
        Some (bindE r (\<lambda>(bp, s1).
          let m = b_buffer (bufs s1 bp); d = dpbs s1 dp;
              n = get32 m 0x1e8; c = get32 m 0x1ec
          in Inr (set_dpb dp (\<lambda>d. d\<lparr>dpb_xnfreeclst := (if dpb_xsize d \<le> n then XUNKNCLSTFREE else n),
                                    dpb_xcluster := (if c < 2 \<or> dpb_xsize d < c then UNKNCLUSTER else c)\<rparr>) s1)))
      })"

definition write_fsinfo :: "'w driver \<Rightarrow> 32 word \<Rightarrow> 'w diskio \<Rightarrow> ('w diskio run) option" where
  "write_fsinfo E dp s =
     (if dpb_xfsinfosec (dpbs s dp) = 0xffff then Some (Inr s)
      else do {
        r \<leftarrow> fsinfo_block E dp (BFR_DATA OR BFR_DIR OR BFR_FAT) s;
        Some (bindE r (\<lambda>(bp, s1).
          let m = b_buffer (bufs s1 bp); d = dpbs s1 dp;
              news = get32 m 0x1e8 \<noteq> dpb_xnfreeclst d \<or> get32 m 0x1ec \<noteq> dpb_xcluster d
          in Inr (set_buf bp (\<lambda>b. b\<lparr>b_flag := (if news then b_flag b OR BFR_DIRTY else b_flag b),
                    b_buffer := put32 (put32 m 0x1e8 (dpb_xnfreeclst d)) 0x1ec (dpb_xcluster d)\<rparr>) s1)))
      })"

section \<open>Reading and writing an entry\<close>

text \<open>The number of clusters, the entries in a sector (in nibbles for FAT12), an entry's offset in its
  sector and that sector.\<close>

definition max_cluster :: "dpb \<Rightarrow> 32 word" where
  "max_cluster d = (if ISFAT32 d then dpb_xsize d else ucast (dpb_size d))"

definition fat_div :: "dpb \<Rightarrow> 32 word" where
  "fat_div d = (let n = ucast (dpb_secsize d) in
     if ISFAT12 d then n * 2 else if ISFAT32 d then n div 2 div 2 else n div 2)"

definition fat_index :: "dpb \<Rightarrow> 32 word \<Rightarrow> 32 word \<times> 32 word" where
  "fat_index d c =
     (let clussec = (if ISFAT12 d then c * 3 else c);
          secdiv = fat_div d;
          sec = clussec div secdiv + ucast (dpb_fatstrt d)
      in (clussec mod secdiv,
          if ISFAT32 d \<and> dpb_xflags d AND FAT_NO_MIRRORING \<noteq> 0
          then sec + ucast (dpb_xflags d AND 0xf) * dpb_xfatsize d else sec))"

text \<open>The two bytes of a FAT12 entry, and what is read from or packed into them.\<close>

definition unpack12 :: "32 word \<Rightarrow> 32 word \<Rightarrow> 32 word" where
  "unpack12 c w = (if c AND 1 \<noteq> 0 then drop_bit 4 w else w) AND 0x0fff"

definition pack12 :: "32 word \<Rightarrow> 32 word \<Rightarrow> 32 word \<Rightarrow> 32 word" where
  "pack12 c v w =
     (if c AND 1 \<noteq> 0 then (w AND 0x000f) OR push_bit 4 (v AND 0x0fff) else (w AND 0xf000) OR (v AND 0x0fff))"

definition read12 :: "32 word \<Rightarrow> 32 word" where
  "read12 v = (if MASK12 \<le> v then LONG_LAST_CLUSTER else if v = BAD12 then LONG_BAD else v)"

definition read16 :: "16 word \<Rightarrow> 32 word" where
  "read16 v = (if MASK16 \<le> v then LONG_LAST_CLUSTER else if v = BAD16 then LONG_BAD else ucast v)"

definition read32 :: "32 word \<Rightarrow> 32 word" where
  "read32 v = (if LONG_BAD < v then LONG_LAST_CLUSTER else v)"

definition put_byte :: "16 word \<Rightarrow> nat \<Rightarrow> 8 word \<Rightarrow> 'w diskio \<Rightarrow> 'w diskio" where
  "put_byte bp i v = set_buf bp (\<lambda>b. b\<lparr>b_buffer := (b_buffer b)(i := v)\<rparr>)"

definition mark_dirty :: "16 word \<Rightarrow> 'w diskio \<Rightarrow> 'w diskio" where
  "mark_dirty bp = set_buf bp (\<lambda>b. b\<lparr>b_flag := b_flag b OR (BFR_DIRTY OR BFR_VALID)\<rparr>)"

text \<open>An entry of each format: \<open>Inl\<close> what the function returns at once, or \<open>Inr\<close> whether
  the entry was free before it was written.\<close>

definition link12 ::
    "'w driver \<Rightarrow> 32 word \<Rightarrow> 32 word \<Rightarrow> 32 word \<Rightarrow> 16 word \<Rightarrow> 32 word \<Rightarrow> 32 word \<Rightarrow> 'w diskio
     \<Rightarrow> ((32 word + bool) \<times> 'w diskio) option" where
  "link12 E dp c1 c2 bp idx clussec s =
     (let i = unat idx div 2 in do {
        (q, s1) \<leftarrow>
          (if unat (dpb_secsize (dpbs s dp)) - 1 \<le> i then do {
             (r, s1) \<leftarrow> getFATblock E dp (clussec + 1) s;
             Some (case r of None \<Rightarrow> (None, s1)
                   | Some bp1 \<Rightarrow> (Some (bp1, 0), if c2 \<noteq> READ_CLUSTER then mark_dirty bp1 s1 else s1))
           } else Some (Some (bp, i + 1), s));
        (case q of
           None \<Rightarrow> Some (Inl 1, s1)
         | Some (bp1, j) \<Rightarrow>
             let w = ucast (b_buffer (bufs s1 bp) i) OR push_bit 8 (ucast (b_buffer (bufs s1 bp1) j));
                 old = unpack12 c1 w in
             if c2 = READ_CLUSTER then Some (Inl (read12 old), s1)
             else let v = pack12 c1 c2 w in
               Some (Inr (old = FREE_CLUSTER), put_byte bp1 j (ucast (drop_bit 8 v)) (put_byte bp i (ucast v) s1)))
      })"

definition link16 :: "32 word \<Rightarrow> 16 word \<Rightarrow> 32 word \<Rightarrow> 'w diskio \<Rightarrow> (32 word + bool) \<times> 'w diskio" where
  "link16 c2 bp idx s =
     (let i = unat idx * 2; res = get16 (b_buffer (bufs s bp)) i in
      if c2 = READ_CLUSTER then (Inl (read16 res), s)
      else (Inr (res = 0), set_buf bp (\<lambda>b. b\<lparr>b_buffer := put16 (b_buffer b) i (ucast c2)\<rparr>) s))"

definition link32 :: "32 word \<Rightarrow> 16 word \<Rightarrow> 32 word \<Rightarrow> 'w diskio \<Rightarrow> (32 word + bool) \<times> 'w diskio" where
  "link32 c2 bp idx s =
     (let i = unat idx * 4; res = get32 (b_buffer (bufs s bp)) i AND LONG_LAST_CLUSTER in
      if c2 = READ_CLUSTER then (Inl (read32 res), s)
      else (Inr (res = FREE_CLUSTER),
            set_buf bp (\<lambda>b. b\<lparr>b_buffer := put32 (b_buffer b) i (c2 AND LONG_LAST_CLUSTER)\<rparr>) s))"

text \<open>The count of free clusters after a write.\<close>

definition count_free :: "'w driver \<Rightarrow> 32 word \<Rightarrow> 32 word \<Rightarrow> bool \<Rightarrow> 'w diskio \<Rightarrow> ('w diskio run) option" where
  "count_free E dp c2 wasfree s =
     (if c2 = FREE_CLUSTER \<or> wasfree then
        let adjust = (if \<not> wasfree then 1 else if c2 \<noteq> FREE_CLUSTER then -1 else 0) :: int; d = dpbs s dp in
        if ISFAT32 d \<and> dpb_xnfreeclst d \<noteq> XUNKNCLSTFREE then
          write_fsinfo E dp (set_dpb dp (\<lambda>d. d\<lparr>dpb_xnfreeclst := dpb_xnfreeclst d + of_int adjust\<rparr>) s)
        else if dpb_nfreeclst d \<noteq> UNKNCLSTFREE then
          Some (Inr (set_dpb dp (\<lambda>d. set_nfreeclst (dpb_nfreeclst d + of_int adjust) d) s))
        else Some (Inr s)
      else Some (Inr s))"

definition link_fat ::
    "'w driver \<Rightarrow> 32 word \<Rightarrow> 32 word \<Rightarrow> 32 word \<Rightarrow> 'w diskio \<Rightarrow> ((32 word \<times> 'w diskio) run) option" where
  "link_fat E dp c1 c2 s =
     (let d = dpbs s dp in
      if c1 \<le> 1 \<or> max_cluster d < c1 then Some (Inr (1, s))
      else if c2 < LONG_BAD \<and> max_cluster d < c2 then Some (Inr (1, s))
      else if fat_div d = 0 then Some (Inl Div_by_zero)
      else case fat_index d c1 of (idx, clussec) \<Rightarrow> do {
        (r, s1) \<leftarrow> getFATblock E dp clussec s;
        (case r of
           None \<Rightarrow> Some (Inr (1, s1))
         | Some bp \<Rightarrow> do {
             (q, s2) \<leftarrow>
               (if ISFAT12 d then link12 E dp c1 c2 bp idx clussec s1
                else if ISFAT16 d then Some (link16 c2 bp idx s1)
                else if ISFAT32 d then Some (link32 c2 bp idx s1)
                else Some (Inl 1, s1));
             (case q of
                Inl v \<Rightarrow> Some (Inr (v, s2))
              | Inr wasfree \<Rightarrow> do {
                  r2 \<leftarrow> count_free E dp c2 wasfree (mark_dirty bp s2);
                  Some (bindE r2 (\<lambda>s3. Inr (0, s3)))
                })
           })
      })"

definition next_cluster :: "'w driver \<Rightarrow> 32 word \<Rightarrow> 32 word \<Rightarrow> 'w diskio \<Rightarrow> ((32 word \<times> 'w diskio) run) option" where
  "next_cluster E dp c s = do {
     r \<leftarrow> link_fat E dp c READ_CLUSTER s;
     (case r of
        Inl t \<Rightarrow> Some (Inl t)
      | Inr (candidate, s1) \<Rightarrow>
          if candidate < 2 \<or> LONG_BAD \<le> candidate then Some (Inr (candidate, s1))
          else do {
            r2 \<leftarrow> link_fat E dp candidate READ_CLUSTER s1;
            Some (bindE r2 (\<lambda>(following, s2).
              if following < 2 \<or> following < LONG_BAD \<and> max_cluster (dpbs s2 dp) < following then Inr (1, s2)
              else Inr (candidate, s2)))
          })
   }"

definition is_free_cluster :: "'w driver \<Rightarrow> 32 word \<Rightarrow> 32 word \<Rightarrow> 'w diskio \<Rightarrow> ((bool \<times> 'w diskio) run) option" where
  "is_free_cluster E dp c s = do {
     r \<leftarrow> link_fat E dp c READ_CLUSTER s;
     Some (bindE r (\<lambda>(v, s1). Inr (v = FREE_CLUSTER, s1)))
   }"

end
