(* ===== verification/Clusters.thy ===== *)
theory Clusters
  imports FatTab
begin

text \<open>
  Clusters of files, the part of kernel/fatfs.c that allocates, follows and frees chains of
  clusters, and the derivation of a drive parameter block from a BIOS parameter block. A
  function gets the f-node it works on as an argument and returns it updated; the fields
  \<open>dm_*\<close> are those of the directory match \<open>f_dmp\<close> points to, of which each f-node has its own. Messages are left out.
\<close>

section \<open>F-nodes\<close>

record dirent =
  dir_name :: "8 word list"
  dir_attrib :: "8 word"
  dir_case :: "8 word"
  dir_crtimems :: "8 word"
  dir_crtime :: "16 word"
  dir_crdate :: "16 word"
  dir_accdate :: "16 word"
  dir_start_high :: "16 word"
  dir_time :: "16 word"
  dir_date :: "16 word"
  dir_start :: "16 word"
  dir_size :: "32 word"

record f_node =
  f_flags :: "16 word"
  f_dir :: dirent
  d_flags :: "16 word"
  f_dirsector :: "32 word"
  f_diridx :: "8 word"
  f_dpb :: "32 word"
  f_offset :: "32 word"
  f_cluster_offset :: "32 word"
  f_cluster :: "32 word"
  f_sft_idx :: "8 word"
  dm_drive :: "8 word"
  dm_name_pat :: "8 word list"
  dm_attr_srch :: "8 word"
  dm_entry :: "16 word"
  dm_dircluster :: "32 word"

text \<open>A call that may crash or not return, and goes on with its result.\<close>

abbreviation bindR :: "('a run) option \<Rightarrow> ('a \<Rightarrow> ('b run) option) \<Rightarrow> ('b run) option" where
  "bindR m f \<equiv> Option.bind m (\<lambda>r. case r of Inl t \<Rightarrow> Some (Inl t) | Inr x \<Rightarrow> f x)"

abbreviation returnR :: "'a \<Rightarrow> ('a run) option" where
  "returnR x \<equiv> Some (Inr x)"

definition getdstart :: "dpb \<Rightarrow> dirent \<Rightarrow> 32 word" where
  "getdstart d e =
     (if \<not> ISFAT32 d then ucast (dir_start e)
      else push_bit 16 (ucast (dir_start_high e)) OR ucast (dir_start e))"

definition setdstart :: "32 word \<Rightarrow> dirent \<Rightarrow> dirent" where
  "setdstart v e = e\<lparr>dir_start := ucast v, dir_start_high := ucast (drop_bit 16 v)\<rparr>"

definition clus2phys :: "32 word \<Rightarrow> dpb \<Rightarrow> 32 word" where
  "clus2phys c d =
     push_bit (unat (dpb_shftcnt d)) (c - 2) + (if ISFAT32 d then dpb_xdata d else ucast (dpb_data d))"

section \<open>Allocating a cluster\<close>

text \<open>The search starts at the hint, wraps at the last cluster and ends where it started. The
  result is the cluster returned and the new hint.\<close>

partial_function (option) find_fat_loop ::
    "'w driver \<Rightarrow> 32 word \<Rightarrow> 32 word \<Rightarrow> 32 word \<Rightarrow> 32 word \<Rightarrow> 'w diskio
     \<Rightarrow> ((32 word \<times> 32 word \<times> 'w diskio) run) option" where
  "find_fat_loop E dp sz cluster idx s =
     bindR (is_free_cluster E dp idx s) (\<lambda>(free, s1).
       if free then returnR (idx, idx, s1)
       else
         let idx1 = idx + 1; idx2 = (if sz < idx1 then 2 else idx1) in
         if idx2 = cluster then returnR (LONG_LAST_CLUSTER, UNKNCLUSTER, s1)
         else find_fat_loop E dp sz cluster idx2 s1)"

definition find_fat_free :: "'w driver \<Rightarrow> 32 word \<Rightarrow> 'w diskio \<Rightarrow> ((32 word \<times> 'w diskio) run) option" where
  "find_fat_free E dp s =
     (let d = dpbs s dp;
          idx = (if ISFAT32 d then if dpb_xcluster d \<noteq> UNKNCLUSTER then dpb_xcluster d else 2
                 else if dpb_cluster d \<noteq> 0 then ucast (dpb_cluster d) else 2)
      in bindR (find_fat_loop E dp (max_cluster d) idx idx s) (\<lambda>(res, cluster, s1).
        if ISFAT32 d then
          bindR (write_fsinfo E dp (set_dpb dp (\<lambda>d. d\<lparr>dpb_xcluster := cluster\<rparr>) s1)) (\<lambda>s2. returnR (res, s2))
        else returnR (res, set_dpb dp (\<lambda>d. d\<lparr>dpb_cluster := ucast cluster\<rparr>) s1)))"

text \<open>\<open>extend\<close> (here \<open>extend_file\<close>): the new cluster becomes the end of a chain first, then the chain's old end gets
  its number, or the directory entry of an empty file.\<close>

definition extend_file :: "'w driver \<Rightarrow> f_node \<Rightarrow> 'w diskio \<Rightarrow> ((32 word \<times> f_node \<times> 'w diskio) run) option" where
  "extend_file E f s =
     bindR (find_fat_free E (f_dpb f) s) (\<lambda>(free_fat, s1).
       if free_fat = LONG_LAST_CLUSTER then returnR (free_fat, f, s1)
       else bindR (link_fat E (f_dpb f) free_fat LONG_LAST_CLUSTER s1) (\<lambda>(r, s2).
         if r \<noteq> 0 then returnR (LONG_LAST_CLUSTER, f, s2)
         else if f_cluster f = FREE_CLUSTER then
           returnR (free_fat, f\<lparr>f_dir := setdstart free_fat (f_dir f)\<rparr>, s2)
         else bindR (next_cluster E (f_dpb f) (f_cluster f) s2) (\<lambda>(n, s3).
           if n \<noteq> LONG_LAST_CLUSTER then returnR (LONG_LAST_CLUSTER, f, s3)
           else bindR (link_fat E (f_dpb f) (f_cluster f) free_fat s3) (\<lambda>(r2, s4).
             returnR (if r2 \<noteq> 0 then LONG_LAST_CLUSTER else free_fat, f, s4)))))"

section \<open>Following a chain\<close>

partial_function (option) map_loop ::
    "'w driver \<Rightarrow> nat \<Rightarrow> 32 word \<Rightarrow> f_node \<Rightarrow> 'w diskio \<Rightarrow> ((int \<times> f_node \<times> 'w diskio) run) option" where
  "map_loop E mode relcluster f s =
     (if f_cluster_offset f = relcluster then returnR (SUCCESS, f, s)
      else bindR (next_cluster E (f_dpb f) (f_cluster f) s) (\<lambda>(cluster, s1).
        if cluster \<le> 1 then returnR (DE_SEEK, f, s1)
        else if cluster = LONG_LAST_CLUSTER then
          if mode = XFR_READ then returnR (DE_SEEK, f, s1)
          else bindR (extend_file E f s1) (\<lambda>(c, f1, s2).
            if c = LONG_LAST_CLUSTER then returnR (DE_HNDLDSKFULL, f1, s2)
            else map_loop E mode relcluster
                   (f1\<lparr>f_cluster := c, f_cluster_offset := f_cluster_offset f1 + 1\<rparr>) s2)
        else map_loop E mode relcluster (f\<lparr>f_cluster := cluster, f_cluster_offset := f_cluster_offset f + 1\<rparr>) s1))"

definition rel_cluster :: "f_node \<Rightarrow> dpb \<Rightarrow> 32 word" where
  "rel_cluster f d = drop_bit (unat (dpb_shftcnt d)) (f_offset f div ucast (dpb_secsize d))"

definition map_from ::
    "'w driver \<Rightarrow> nat \<Rightarrow> f_node \<Rightarrow> 'w diskio \<Rightarrow> ((int \<times> f_node \<times> 'w diskio) run) option" where
  "map_from E mode f s =
     (let d = dpbs s (f_dpb f); rel = rel_cluster f d;
          f1 = (if rel < f_cluster_offset f
                then f\<lparr>f_cluster := (if f_sft_idx f = 0xff then dm_dircluster f else getdstart d (f_dir f)),
                       f_cluster_offset := 0\<rparr>
                else f)
      in if dpb_secsize d = 0 then Some (Inl Div_by_zero) else map_loop E mode rel f1 s)"

definition map_cluster ::
    "'w driver \<Rightarrow> nat \<Rightarrow> f_node \<Rightarrow> 'w diskio \<Rightarrow> ((int \<times> f_node \<times> 'w diskio) run) option" where
  "map_cluster E mode f s =
     (if f_cluster f = FREE_CLUSTER then
        if mode = XFR_READ then returnR (DE_SEEK, f, s)
        else bindR (extend_file E f s) (\<lambda>(c, f1, s1).
          if c = LONG_LAST_CLUSTER then returnR (DE_HNDLDSKFULL, f1, s1)
          else map_from E mode (f1\<lparr>f_cluster := c\<rparr>) s1)
      else map_from E mode f s)"

section \<open>Freeing a chain\<close>

definition lower_hint :: "32 word \<Rightarrow> dpb \<Rightarrow> dpb" where
  "lower_hint st d =
     (if ISFAT32 d then
        if dpb_xcluster d = UNKNCLUSTER \<or> st < dpb_xcluster d then d\<lparr>dpb_xcluster := st\<rparr> else d
      else if dpb_cluster d = 0 \<or> ucast st < dpb_cluster d then d\<lparr>dpb_cluster := ucast st\<rparr> else d)"

partial_function (option) wipe_out_clusters :: "'w driver \<Rightarrow> 32 word \<Rightarrow> 32 word \<Rightarrow> 'w diskio \<Rightarrow> ('w diskio run) option" where
  "wipe_out_clusters E dp st s =
     (if st = LONG_LAST_CLUSTER then
        if ISFAT32 (dpbs s dp) then write_fsinfo E dp s else returnR s
      else bindR (next_cluster E dp st s) (\<lambda>(next, s1).
        if next \<le> 1 then returnR s1
        else bindR (link_fat E dp st FREE_CLUSTER s1) (\<lambda>(r, s2).
          if r \<noteq> 0 then returnR s2
          else wipe_out_clusters E dp next (set_dpb dp (lower_hint st) s2))))"

definition wipe_out :: "'w driver \<Rightarrow> f_node \<Rightarrow> 'w diskio \<Rightarrow> ('w diskio run) option" where
  "wipe_out E f s =
     (let c = getdstart (dpbs s (f_dpb f)) (f_dir f)
      in if c \<noteq> FREE_CLUSTER then wipe_out_clusters E (f_dpb f) c s else returnR s)"

definition shrink_file :: "'w driver \<Rightarrow> f_node \<Rightarrow> 'w diskio \<Rightarrow> ((int \<times> f_node \<times> 'w diskio) run) option" where
  "shrink_file E f0 s =
     (let restore = (\<lambda>(r, f, s). (r :: int, f\<lparr>f_offset := f_offset f0\<rparr>, s));
          f = (if f_offset f0 \<noteq> 0 then f0\<lparr>f_offset := f_offset f0 - 1\<rparr> else f0)
      in if f_offset f0 = 0 \<and> f_cluster f0 = FREE_CLUSTER then returnR (restore (SUCCESS, f, s))
      else bindR (map_cluster E XFR_READ f s) (\<lambda>(r, f1, s1).
        if r \<noteq> SUCCESS then returnR (restore (DE_ACCESS, f1, s1))
        else let st = f_cluster f1 in
          bindR (next_cluster E (f_dpb f) st s1) (\<lambda>(next, s2).
            if next \<le> 1 then returnR (restore (DE_ACCESS, f1, s2))
            else
              let empty = dir_size (f_dir f1) = 0;
                  f2 = (if empty then f1\<lparr>f_cluster := FREE_CLUSTER, f_dir := setdstart FREE_CLUSTER (f_dir f1)\<rparr> else f1)
              in if \<not> empty \<and> next = LONG_LAST_CLUSTER then returnR (restore (SUCCESS, f2, s2))
              else bindR (link_fat E (f_dpb f) st (if empty then FREE_CLUSTER else LONG_LAST_CLUSTER) s2) (\<lambda>(r3, s3).
                if r3 \<noteq> 0 then returnR (restore (DE_ACCESS, f2, s3))
                else bindR (wipe_out_clusters E (f_dpb f) next s3) (\<lambda>s4. do {
                  (ok, s5) \<leftarrow> flush_buffers E (scast (dpb_unit (dpbs s4 (f_dpb f)))) s4;
                  returnR (restore (if ok then SUCCESS else DE_ACCESS, f2, s5))
                })))))"

section \<open>Counting free clusters\<close>

text \<open>The loop from cluster \<open>i\<close> to the last one.\<close>

partial_function (option) count_loop ::
    "'w driver \<Rightarrow> 32 word \<Rightarrow> 32 word \<Rightarrow> 32 word \<Rightarrow> 32 word \<Rightarrow> 'w diskio \<Rightarrow> ((32 word \<times> 'w diskio) run) option" where
  "count_loop E dp max_cl i cnt s =
     (if max_cl < i then returnR (cnt, s)
      else bindR (is_free_cluster E dp i s) (\<lambda>(free, s1).
        if free then
          let s2 = (if cnt = 0 then set_dpb dp (\<lambda>d. if ISFAT32 d then d\<lparr>dpb_xcluster := i\<rparr> else d\<lparr>dpb_cluster := ucast i\<rparr>) s1
                    else s1)
          in count_loop E dp max_cl (i + 1) (cnt + 1) s2
        else count_loop E dp max_cl (i + 1) cnt s1))"

definition dos_free :: "'w driver \<Rightarrow> 32 word \<Rightarrow> 'w diskio \<Rightarrow> ((32 word \<times> 'w diskio) run) option" where
  "dos_free E dp s =
     (let d = dpbs s dp in
      if ISFAT32 d \<and> dpb_xnfreeclst d \<noteq> XUNKNCLSTFREE then returnR (dpb_xnfreeclst d, s)
      else if \<not> ISFAT32 d \<and> dpb_nfreeclst d \<noteq> UNKNCLSTFREE then returnR (ucast (dpb_nfreeclst d), s)
      else bindR (count_loop E dp (max_cluster d) 2 0 s) (\<lambda>(cnt, s1).
        if ISFAT32 d then
          bindR (write_fsinfo E dp (set_dpb dp (\<lambda>d. d\<lparr>dpb_xnfreeclst := cnt\<rparr>) s1)) (\<lambda>s2. returnR (cnt, s2))
        else returnR (cnt, set_dpb dp (set_nfreeclst (ucast cnt)) s1)))"

section \<open>Clearing a new directory\<close>

fun clear_loop :: "'w driver \<Rightarrow> 32 word \<Rightarrow> 16 word \<Rightarrow> nat \<Rightarrow> nat \<Rightarrow> 'w diskio \<Rightarrow> (int \<times> 'w diskio) option" where
  "clear_loop E first unit 0 idx s = Some (SUCCESS, s)"
| "clear_loop E first unit (Suc n) idx s = do {
     (r, s1) \<leftarrow> getblk E (first + of_nat idx) unit True s;
     (case r of
        None \<Rightarrow> Some (DE_ACCESS, s1)
      | Some bp \<Rightarrow> clear_loop E first unit n (Suc idx) (set_buf bp (\<lambda>b. b\<lparr>b_buffer := (\<lambda>_. 0),
            b_flag := (let g = b_flag b OR (BFR_DIRTY OR BFR_VALID) in if idx \<noteq> 0 then g OR BFR_UNCACHE else g)\<rparr>) s1))
   }"

definition clear_dir :: "'w driver \<Rightarrow> f_node \<Rightarrow> 32 word \<Rightarrow> 'w diskio \<Rightarrow> (int \<times> 'w diskio) option" where
  "clear_dir E f cluster s =
     (let d = dpbs s (f_dpb f)
      in clear_loop E (clus2phys cluster d) (scast (dpb_unit d)) (unat (dpb_clsmask d) + 1) 0 s)"

section \<open>From a BIOS parameter block to a drive parameter block\<close>

record bpb =
  bpb_nbyte :: "16 word"
  bpb_nsector :: "8 word"
  bpb_nreserved :: "16 word"
  bpb_nfat :: "8 word"
  bpb_ndirent :: "16 word"
  bpb_nsize :: "16 word"
  bpb_mdesc :: "8 word"
  bpb_nfsect :: "16 word"
  bpb_huge :: "32 word"
  bpb_xnfsect :: "32 word"
  bpb_xflags :: "16 word"
  bpb_xrootclst :: "32 word"
  bpb_xfsinfosec :: "16 word"
  bpb_xbackupsec :: "16 word"

fun shift_count :: "nat \<Rightarrow> nat" where
  "shift_count n = (if 1 < n then Suc (shift_count (n div 2)) else 0)"

declare shift_count.simps [simp del]

text \<open>The number of clusters, limited to what the FAT has room for.\<close>

definition fit_size :: "dpb \<Rightarrow> 16 word \<Rightarrow> 16 word" where
  "fit_size d sz =
     (let tmp = ucast (dpb_fatsize d) * ucast (dpb_secsize d div 2) :: 32 word in
      if 0x10000 \<le> tmp then sz
      else if FAT_MAGIC < uint sz then
        if uint tmp \<le> FAT_MAGIC then sz
        else if tmp \<le> ucast sz then ucast (tmp - 1) else sz
      else if 0x4000 \<le> tmp then sz
      else let t = tmp * 4 div 3 in if t \<le> ucast sz then ucast (t - 1) else sz)"

definition dpb16to32 :: "dpb \<Rightarrow> dpb" where
  "dpb16to32 d = d\<lparr>dpb_xflags := 0, dpb_xfsinfosec := 0xffff, dpb_xbackupsec := 0xffff, dpb_xrootclst := 0,
     dpb_xdata := ucast (dpb_data d), dpb_xsize := ucast (dpb_size d)\<rparr>"

definition bpb_dpb16 :: "bpb \<Rightarrow> 32 word \<Rightarrow> dpb \<Rightarrow> dpb" where
  "bpb_dpb16 b secs d0 =
     (let sh = shift_count (unat (bpb_nsector b));
          ents = uint (bpb_nbyte b) div 32;
          dirstrt = bpb_nreserved b + ucast (bpb_nfat b) * bpb_nfsect b;
          data = dirstrt + word_of_int ((uint (bpb_ndirent b) + ents - 1) div ents);
          d = d0\<lparr>dpb_shftcnt := of_nat sh, dpb_mdb := bpb_mdesc b, dpb_secsize := bpb_nbyte b,
                dpb_clsmask := bpb_nsector b - 1, dpb_fatstrt := bpb_nreserved b, dpb_fats := bpb_nfat b,
                dpb_dirents := bpb_ndirent b, dpb_fatsize := bpb_nfsect b, dpb_dirstrt := dirstrt, dpb_data := data\<rparr>
      in set_nfreeclst UNKNCLSTFREE (d\<lparr>dpb_size := fit_size d (ucast (drop_bit sh (secs - ucast data)) + 1),
            dpb_flags := 0, dpb_cluster := 0\<rparr>))"

definition bpb_dpb32 :: "bpb \<Rightarrow> 32 word \<Rightarrow> dpb \<Rightarrow> dpb" where
  "bpb_dpb32 b secs d0 =
     (let d = dpb16to32 (d0\<lparr>dpb_xfatsize := (if bpb_nfsect b = 0 then bpb_xnfsect b else ucast (bpb_nfsect b)),
                            dpb_xcluster := UNKNCLUSTER, dpb_xnfreeclst := XUNKNCLSTFREE\<rparr>);
          xdata = ucast (dpb_fatstrt d) + ucast (dpb_fats d) * dpb_xfatsize d
      in if ISFAT32 d then
           d\<lparr>dpb_xflags := bpb_xflags b, dpb_xfsinfosec := bpb_xfsinfosec b, dpb_xbackupsec := bpb_xbackupsec b,
             dpb_dirents := 0, dpb_dirstrt := 0xffff, dpb_size := 0, dpb_xdata := xdata,
             dpb_xsize := drop_bit (unat (dpb_shftcnt d)) (secs - xdata) + 1, dpb_xrootclst := bpb_xrootclst b\<rparr>
         else d)"

definition bpb_to_dpb :: "'w driver \<Rightarrow> bpb \<Rightarrow> 32 word \<Rightarrow> bool \<Rightarrow> 'w diskio \<Rightarrow> ('w diskio run) option" where
  "bpb_to_dpb E b dp extended s =
     (if uint (bpb_nbyte b) div 32 = 0 then Some (Inl Div_by_zero)
      else
        let secs = (if bpb_nsize b = 0 then bpb_huge b else ucast (bpb_nsize b));
            d = bpb_dpb16 b secs (dpbs s dp)
        in if extended then
             let d1 = bpb_dpb32 b secs d; s1 = set_dpb dp (\<lambda>_. d1) s
             in if ISFAT32 d1 then read_fsinfo E dp s1 else returnR s1
           else returnR (set_dpb dp (\<lambda>_. d) s))"

end
