(* ===== verification/FatTab_Proofs.thy ===== *)
theory FatTab_Proofs
  imports FatTab Blockio_View
begin

text \<open>
  Entries of the FAT as fields of one sequence of bytes: what the formats promise as the locale
  \<open>fat_codec\<close>, its interpretations for the 12- and 16-bit formats, and \<open>link_fat\<close> through the
  block cache as a read or a write of that sequence.
\<close>

section \<open>The formats on a byte sequence\<close>

definition pair12 :: "bytes \<Rightarrow> nat \<Rightarrow> 32 word" where
  "pair12 F i = ucast (F i) OR push_bit 8 (ucast (F (Suc i)))"

definition load12 :: "bytes \<Rightarrow> nat \<Rightarrow> 32 word" where
  "load12 F c = unpack12 (of_nat c) (pair12 F (3 * c div 2))"

definition store12 :: "bytes \<Rightarrow> nat \<Rightarrow> 32 word \<Rightarrow> bytes" where
  "store12 F c v =
     (let i = 3 * c div 2; p = pack12 (of_nat c) v (pair12 F i)
      in F(i := ucast p, Suc i := ucast (drop_bit 8 p)))"

definition load16 :: "bytes \<Rightarrow> nat \<Rightarrow> 32 word" where
  "load16 F c = ucast (get16 F (2 * c))"

definition store16 :: "bytes \<Rightarrow> nat \<Rightarrow> 32 word \<Rightarrow> bytes" where
  "store16 F c v = put16 F (2 * c) (ucast v)"

text \<open>Bit \<open>n\<close> of the sequence; entry \<open>c\<close> of a FAT12 is bits \<open>12 * c\<close> to \<open>12 * c + 11\<close>.\<close>

definition fbit :: "bytes \<Rightarrow> nat \<Rightarrow> bool" where
  "fbit F n = bit (F (n div 8)) (n mod 8)"

lemma mask_consts:
  "(0x0fff :: 32 word) = mask 12" "(0x000f :: 32 word) = mask 4" "(0xf000 :: 32 word) = push_bit 12 (mask 4)"
  by (simp_all add: mask_eq_exp_minus_1 push_bit_eq_mult)

lemma bit8_less: "bit (w :: 8 word) m \<Longrightarrow> m < 8"
  using bit_imp_le_length[of w m] by simp

lemma bit_pair12:
  "bit (pair12 F i) k \<longleftrightarrow> (k < 8 \<and> bit (F i) k) \<or> (8 \<le> k \<and> k < 16 \<and> bit (F (Suc i)) (k - 8))"
  unfolding pair12_def using bit8_less[of "F (Suc i)" "k - 8"] bit8_less[of "F i" k]
  by (auto simp: bit_or_iff bit_push_bit_iff bit_unsigned_iff)

lemma odd_word: "(of_nat c :: 32 word) AND 1 \<noteq> 0 \<longleftrightarrow> odd c"
proof -
  have "(of_nat c :: 32 word) AND 2 ^ 0 \<noteq> 0 \<longleftrightarrow> bit (of_nat c :: 32 word) 0"
    by (metis and_exp_eq_0_iff_not_bit)
  also have "\<dots> \<longleftrightarrow> odd c" by (simp add: bit_of_nat_iff bit_0)
  finally show ?thesis by simp
qed

lemma bit_unpack12: "bit (unpack12 (of_nat c) w) k \<longleftrightarrow> k < 12 \<and> bit w (if odd c then k + 4 else k)"
  unfolding unpack12_def odd_word mask_consts
  by (auto simp: bit_and_iff bit_mask_iff bit_drop_bit_eq add.commute)

lemma bit_pack12:
  "bit (pack12 (of_nat c) v w) k \<longleftrightarrow>
     (if odd c then (k < 4 \<and> bit w k) \<or> (4 \<le> k \<and> k < 16 \<and> bit v (k - 4))
      else (k < 12 \<and> bit v k) \<or> (12 \<le> k \<and> k < 16 \<and> bit w k))"
proof -
  have "k < 16 \<Longrightarrow> k < 32" by simp
  then show ?thesis
    unfolding pack12_def odd_word mask_consts
    by (auto simp: bit_and_iff bit_or_iff bit_mask_iff bit_push_bit_iff)
qed

lemma pos12: "12 * c div 8 = 3 * c div 2" "12 * c mod 8 = (if odd c then 4 else 0)" for c :: nat
proof -
  obtain m :: nat where "c = 2 * m \<or> c = Suc (2 * m)" by (metis oddE evenE Suc_eq_plus1)
  then show "12 * c div 8 = 3 * c div 2" "12 * c mod 8 = (if odd c then 4 else 0)" by auto presburger+
qed

lemma div8: "j < 8 \<Longrightarrow> (8 * i + j) div 8 = i \<and> (8 * i + j) mod 8 = (j :: nat)"
  by simp

lemma div16: "j < 16 \<Longrightarrow> j div 8 = (if j < 8 then 0 else 1) \<and> j mod 8 = (if j < 8 then j else j - (8 :: nat))"
  by presburger

lemma fbit_at: "fbit F (12 * c + k) =
   (let i = 3 * c div 2; j = k + (if odd c then 4 else 0) in bit (F (i + j div 8)) (j mod 8))"
proof -
  have "12 * c + k = 8 * (3 * c div 2) + (k + (if odd c then 4 else 0))"
    using pos12[of c] div_mult_mod_eq[of "12 * c" 8] by (simp add: algebra_simps)
  then show ?thesis by (simp only: fbit_def Let_def) simp
qed

lemma bit_load12: "bit (load12 F c) k \<longleftrightarrow> k < 12 \<and> fbit F (12 * c + k)"
proof (cases "k < 12")
  case True
  let ?j = "k + (if odd c then 4 else 0)"
  have j: "?j < 16" using True by simp
  then have "?j div 8 = (if ?j < 8 then 0 else 1)" "?j mod 8 = (if ?j < 8 then ?j else ?j - 8)"
    using div16[of ?j] by auto
  then show ?thesis using True j
    by (auto simp: load12_def bit_unpack12 bit_pair12 fbit_at Let_def split: if_splits)
qed (simp add: load12_def bit_unpack12)

lemma fbit_store12:
  "fbit (store12 F c v) n \<longleftrightarrow> (if 12 * c \<le> n \<and> n < 12 * c + 12 then bit v (n - 12 * c) else fbit F n)"
proof -
  let ?i = "3 * c div 2" and ?e = "if odd c then 4 else 0 :: nat"
  have e: "12 * c = 8 * ?i + ?e" using pos12[of c] div_mult_mod_eq[of "12 * c" 8] by simp
  define p where "p = pack12 (of_nat c) v (pair12 F ?i)"
  have S: "store12 F c v = F(?i := ucast p, Suc ?i := ucast (drop_bit 8 p))"
    by (simp add: store12_def p_def Let_def)
  show ?thesis
  proof (cases "n div 8 = ?i \<or> n div 8 = Suc ?i")
    case False
    then have "\<not> (12 * c \<le> n \<and> n < 12 * c + 12)" using e by (auto split: if_splits)
    then show ?thesis using False by (auto simp: fbit_def S)
  next
    case True
    define k where "k = n - 8 * ?i"
    have n: "n = 8 * ?i + k" "k < 16" using True by (auto simp: k_def)
    have b: "fbit (store12 F c v) n = bit p k"
    proof (cases "k < 8")
      case True
      then have "n div 8 = ?i" "n mod 8 = k" using n True div8[of k ?i] by auto
      then show ?thesis using True by (simp add: fbit_def S bit_unsigned_iff)
    next
      case False
      then have "n div 8 = Suc ?i" "n mod 8 = k - 8" using n False div8[of "k - 8" "Suc ?i"] by auto
      moreover have "k - 8 < 8" using False n(2) by simp
      ultimately show ?thesis using False by (simp add: fbit_def S bit_unsigned_iff bit_drop_bit_eq)
    qed
    have w: "bit (pair12 F ?i) k = fbit F n"
    proof (cases "k < 8")
      case True
      then have "n div 8 = ?i" "n mod 8 = k" using n True div8[of k ?i] by auto
      then show ?thesis using True by (simp add: fbit_def bit_pair12)
    next
      case False
      then have "n div 8 = Suc ?i" "n mod 8 = k - 8" using n False div8[of "k - 8" "Suc ?i"] by auto
      then show ?thesis using False n(2) by (simp add: fbit_def bit_pair12)
    qed
    show ?thesis using n(2) unfolding b e p_def bit_pack12 w
      by (auto simp: n(1) split: if_splits)
  qed
qed

section \<open>What the formats promise\<close>

text \<open>
  A table of entries in a byte sequence: writing the number of a cluster or the end mark into
  an entry makes it readable there and changes no other entry. Following the entries from a
  cluster gives the chain of a file.
\<close>

fun fat_chain :: "(nat \<Rightarrow> 32 word) \<Rightarrow> nat \<Rightarrow> nat list \<Rightarrow> bool" where
  "fat_chain nxt c [] \<longleftrightarrow> nxt c = LONG_LAST_CLUSTER"
| "fat_chain nxt c (d # ds) \<longleftrightarrow> nxt c = of_nat d \<and> fat_chain nxt d ds"

lemma fat_chain_cong: "\<forall>x \<in> set (c # ds). nxt' x = nxt x \<Longrightarrow> fat_chain nxt' c ds = fat_chain nxt c ds"
  by (induction nxt c ds rule: fat_chain.induct) auto

lemma fat_chain_snoc:
  "fat_chain nxt c (ds @ [d]) \<longleftrightarrow>
     fat_chain (nxt(last (c # ds) := LONG_LAST_CLUSTER)) c ds \<and> nxt (last (c # ds)) = of_nat d
     \<and> nxt d = LONG_LAST_CLUSTER" if "distinct (c # ds)"
  using that by (induction ds arbitrary: c) (auto simp: fat_chain_cong)

locale fat_codec =
  fixes entry :: "bytes \<Rightarrow> nat \<Rightarrow> 32 word"
    and store :: "bytes \<Rightarrow> nat \<Rightarrow> 32 word \<Rightarrow> bytes"
    and limit :: nat
  assumes entry_same: "v \<le> of_nat limit \<or> v = LONG_LAST_CLUSTER \<Longrightarrow> entry (store F c v) c = v"
    and entry_other: "c \<noteq> c' \<Longrightarrow> entry (store F c v) c' = entry F c'"
begin

lemma entry_store:
  "v \<le> of_nat limit \<or> v = LONG_LAST_CLUSTER \<Longrightarrow> entry (store F c v) = (entry F)(c := v)"
  using entry_same entry_other by (auto simp: fun_eq_iff)

lemma chain_frame: "c' \<notin> set (c # ds) \<Longrightarrow> fat_chain (entry (store F c' v)) c ds = fat_chain (entry F) c ds"
  by (rule fat_chain_cong) (metis entry_other)

text \<open>Appending a cluster: the new one gets the end mark, then the old last one its number.\<close>

lemma append_cluster:
  assumes ch: "fat_chain (entry F) c ds" and d: "distinct (c # ds)" "new \<notin> set (c # ds)"
    and lim: "(of_nat new :: 32 word) \<le> of_nat limit"
  shows "fat_chain (entry (store (store F new LONG_LAST_CLUSTER) (last (c # ds)) (of_nat new))) c (ds @ [new])"
proof -
  let ?l = "last (c # ds)"
  have l: "?l \<in> set (c # ds)" by (rule last_in_set) simp
  then have nl: "new \<noteq> ?l" using d by auto
  let ?e = "(entry F)(new := LONG_LAST_CLUSTER, ?l := of_nat new)"
  have e: "entry (store (store F new LONG_LAST_CLUSTER) ?l (of_nat new)) = ?e"
    using lim by (simp add: entry_store)
  have "fat_chain (?e(?l := LONG_LAST_CLUSTER)) c ds"
  proof -
    have "entry F ?l = LONG_LAST_CLUSTER" using ch by (induction ds arbitrary: c) auto
    then have "\<forall>x \<in> set (c # ds). (?e(?l := LONG_LAST_CLUSTER)) x = entry F x" using d by auto
    then show ?thesis using ch fat_chain_cong by metis
  qed
  then show ?thesis unfolding e fat_chain_snoc[OF d(1)] using nl by auto
qed

end

subsection \<open>The 12-bit format\<close>

lemma load12_store12: "load12 (store12 F c v) c' = (if c = c' then v AND 0x0fff else load12 F c')"
proof (rule bit_eqI)
  fix k
  show "bit (load12 (store12 F c v) c') k = bit (if c = c' then v AND 0x0fff else load12 F c') k"
  proof (cases "c = c'")
    case True
    then show ?thesis unfolding bit_load12 fbit_store12 mask_consts by (auto simp: bit_and_iff bit_mask_iff)
  next
    case False
    then have "k < 12 \<Longrightarrow> \<not> (12 * c \<le> 12 * c' + k \<and> 12 * c' + k < 12 * c + 12)" by presburger
    then show ?thesis using False by (auto simp: bit_load12 fbit_store12)
  qed
qed

definition entry12 :: "bytes \<Rightarrow> nat \<Rightarrow> 32 word" where
  "entry12 F c = read12 (load12 F c)"

lemma and_0xfff_small: "(v :: 32 word) < 4096 \<Longrightarrow> v AND 0x0fff = v"
  unfolding mask_consts by (rule less_mask_eq) simp

interpretation fat12: fat_codec entry12 store12 4085
proof
  fix F :: bytes and c :: nat and v :: "32 word"
  assume "v \<le> of_nat 4085 \<or> v = LONG_LAST_CLUSTER"
  then show "entry12 (store12 F c v) c = v"
  proof
    assume "v \<le> of_nat 4085"
    then have v: "v \<le> 0xff5" by simp
    then have "v < 4096" by (rule order.strict_trans1) simp
    moreover have "\<not> MASK12 \<le> v" "v \<noteq> BAD12"
      using v by (auto simp: MASK12_def BAD12_def dest: order.trans)
    ultimately show ?thesis by (simp add: entry12_def load12_store12 read12_def and_0xfff_small)
  qed (simp add: entry12_def load12_store12 read12_def fat_defs)
qed (simp add: entry12_def load12_store12)

subsection \<open>The 16-bit format\<close>

definition entry16 :: "bytes \<Rightarrow> nat \<Rightarrow> 32 word" where
  "entry16 F c = read16 (get16 F (2 * c))"

lemma get16_store16: "get16 (store16 F c v) (2 * c') = (if c = c' then ucast v else get16 F (2 * c'))"
proof (cases "c = c'")
  case False
  then have "2 * c' + 2 \<le> 2 * c \<or> 2 * c + 2 \<le> 2 * c'" by presburger
  then show ?thesis using False by (simp add: store16_def)
qed (simp add: store16_def)

interpretation fat16: fat_codec entry16 store16 65525
proof
  fix F :: bytes and c :: nat and v :: "32 word"
  assume "v \<le> of_nat 65525 \<or> v = LONG_LAST_CLUSTER"
  then show "entry16 (store16 F c v) c = v"
  proof
    assume "v \<le> of_nat 65525"
    then have "unat v \<le> 65525" by (simp add: word_le_nat_alt)
    then have u: "unat (ucast v :: 16 word) = unat v" by (simp add: unat_ucast)
    then have "ucast (ucast v :: 16 word) = v" by (simp add: word_unat_eq_iff unat_ucast)
    moreover have "\<not> MASK16 \<le> (ucast v :: 16 word)" "(ucast v :: 16 word) \<noteq> BAD16"
      using u \<open>unat v \<le> 65525\<close> by (auto simp: MASK16_def BAD16_def word_le_nat_alt word_unat_eq_iff)
    ultimately show ?thesis by (simp add: entry16_def get16_store16 read16_def)
  qed (simp add: entry16_def get16_store16 read16_def fat_defs)
qed (simp add: entry16_def get16_store16)

section \<open>A volume in the cache\<close>

text \<open>The blocks \<open>V\<close> that matter include the first FAT of the volume and no other copy of it,
  and the FAT is long enough for the clusters.\<close>

abbreviation vol_unit :: "dpb \<Rightarrow> 16 word" where
  "vol_unit d \<equiv> scast (dpb_unit d)"

definition fat_sector :: "dpb \<Rightarrow> nat \<Rightarrow> 32 word" where
  "fat_sector d k = ucast (dpb_fatstrt d) + of_nat k"

definition fat_len :: "dpb \<Rightarrow> nat" where
  "fat_len d = 512 * unat (dpb_fatsize d)"

definition fat_vol :: "block_id set \<Rightarrow> dpb \<Rightarrow> bool" where
  "fat_vol V d \<longleftrightarrow> dpb_secsize d = 512 \<and> \<not> ISFAT32 d \<and> (ISFAT12 d \<or> ISFAT16 d) \<and> 0 < unat (dpb_fats d)
     \<and> (\<forall>k < unat (dpb_fatsize d). (vol_unit d, fat_sector d k) \<in> V
          \<and> (\<forall>i. 0 < i \<and> i < unat (dpb_fats d) \<longrightarrow>
               (vol_unit d, fat_sector d k + of_nat i * ucast (dpb_fatsize d)) \<notin> V))
     \<and> (\<forall>c \<le> unat (dpb_size d). (if ISFAT12 d then 3 * c div 2 else 2 * c) + 1 < fat_len d)"

definition fat_bytes :: "'w disk_reader \<Rightarrow> 'w diskio \<Rightarrow> 16 word list \<Rightarrow> 32 word \<Rightarrow> bytes" where
  "fat_bytes rd s os dp =
     (\<lambda>i. if i < fat_len (dpbs s dp)
          then view 512 rd s os (vol_unit (dpbs s dp), fat_sector (dpbs s dp) (i div 512)) (i mod 512) else 0)"

text \<open>A buffer that holds a sector of the FAT, ready to be written to.\<close>

definition fat_buffer :: "dpb \<Rightarrow> nat \<Rightarrow> buffer \<Rightarrow> bool" where
  "fat_buffer d k b \<longleftrightarrow> b_valid b \<and> buf_id b = (vol_unit d, fat_sector d k) \<and> b_fat b
     \<and> b_copies b = dpb_fats d \<and> b_offset b = dpb_fatsize d"

lemma fat_buffer_mirrors:
  assumes "fat_vol V (dpbs s dp)" "fat_buffer (dpbs s dp) k b" "k < unat (dpb_fatsize (dpbs s dp))"
  shows "mirrors_ok V s' b"
  using assms by (auto simp: mirrors_ok_def fat_vol_def fat_buffer_def buf_id_def copy_offset_def ISFAT32_def)

lemma fat_read:
  assumes "cache_ok 512 rd V s os" "x \<in> set os" "fat_buffer (dpbs s dp) k (bufs s x)" "i < 512"
    "k < unat (dpb_fatsize (dpbs s dp))"
  shows "b_buffer (bufs s x) i = fat_bytes rd s os dp (512 * k + i)"
  using view_hit[OF assms(1,2)] assms(3-5) by (simp add: fat_bytes_def fat_buffer_def sector_def fat_len_def)

text \<open>What the lower layers must give: the driver is reliable, the cache sound and has a second
  buffer, and the volume is laid out as its parameter block says.\<close>

definition fat_ok :: "'w disk_reader \<Rightarrow> block_id set \<Rightarrow> 32 word \<Rightarrow> 'w diskio \<Rightarrow> 16 word list \<Rightarrow> bool" where
  "fat_ok rd V dp s os \<longleftrightarrow> cache_ok 512 rd V s os \<and> 2 \<le> length os \<and> fat_vol V (dpbs s dp)"

lemma fat_sector_inj:
  "k < 65536 \<Longrightarrow> j < 65536 \<Longrightarrow> fat_sector d k = fat_sector d j \<longleftrightarrow> k = j"
proof
  assume a: "k < 65536" "j < 65536" "fat_sector d k = fat_sector d j"
  then have "(of_nat k :: 32 word) = of_nat j" by (simp add: fat_sector_def)
  then have "unat (of_nat k :: 32 word) = unat (of_nat j :: 32 word)" by simp
  moreover have "unat (of_nat n :: 32 word) = n" if "n < 65536" for n
    using that by (simp add: unsigned_of_nat take_bit_eq_mod)
  ultimately show "k = j" using a by simp
qed simp

lemma retag_state:
  assumes ok: "cache_ok n rd V s os" and x: "x \<in> set os" "b_valid (bufs s x)"
    and f: "\<And>b. b_valid (f b) = b_valid b \<and> b_dirty (f b) = b_dirty b \<and> buf_id (f b) = buf_id b
       \<and> b_buffer (f b) = b_buffer b \<and> b_next (f b) = b_next b \<and> b_prev (f b) = b_prev b"
    and m: "b_fat (f (bufs s x)) \<longrightarrow> mirrors_ok V s (f (bufs s x))"
  shows "cache_ok n rd V (set_buf x f s) os" "view n rd (set_buf x f s) os = view n rd s os"
proof -
  let ?s = "set_buf x f s"
  have mm: "mirrors_ok V ?s b = mirrors_ok V s b" for b by (simp add: mirrors_ok_def copy_offset_def)
  note P = poke_ok[OF ok x, of ?s]
  show "cache_ok n rd V ?s os"
    by (rule P(1)) (use f m x mm in \<open>auto simp: same_links_def\<close>)
  have "view n rd ?s os = (view n rd s os)(buf_id (bufs s x) := sector n (b_buffer (bufs ?s x)))"
    by (rule P(2)) (use f m x mm in \<open>auto simp: same_links_def\<close>)
  also have "\<dots> = view n rd s os" using view_hit[OF ok x] f by (simp add: fun_upd_idem)
  finally show "view n rd ?s os = view n rd s os" .
qed

lemma getFATblock_ok:
  assumes rel: "reliable E 512 rd" and ok: "fat_ok rd V dp s os" and k: "k < unat (dpb_fatsize (dpbs s dp))"
  shows "\<exists>x s'. getFATblock E dp (fat_sector (dpbs s dp) k) s = Some (Some x, s') \<and> x \<in> set os
     \<and> fat_ok rd V dp s' (x # remove1 x os)
     \<and> (\<forall>v \<in> V. view 512 rd s' (x # remove1 x os) v = view 512 rd s os v)
     \<and> fat_buffer (dpbs s' dp) k (bufs s' x) \<and> dpbs s' = dpbs s
     \<and> \<not> bit (b_flag (bufs s' x)) 0 \<and> others_kept x s s'
     \<and> x = (case lru_find (fat_sector (dpbs s dp) k) (vol_unit (dpbs s dp)) s os of
              Some y \<Rightarrow> y | None \<Rightarrow> lru_victim (bufs s) os)"
proof -
  let ?d = "dpbs s dp"
  have co: "cache_ok 512 rd V s os" "2 \<le> length os" and vol: "fat_vol V ?d" using ok by (auto simp: fat_ok_def)
  have inV: "(vol_unit ?d, fat_sector ?d k) \<in> V" using vol k by (simp add: fat_vol_def)
  obtain x s1 where g: "getblk E (fat_sector ?d k) (vol_unit ?d) False s = Some (Some x, s1)" "x \<in> set os"
      "cache_ok 512 rd V s1 (x # remove1 x os)"
      "\<forall>v \<in> V. view 512 rd s1 (x # remove1 x os) v = view 512 rd s os v"
      "b_valid (bufs s1 x)" "buf_id (bufs s1 x) = (vol_unit ?d, fat_sector ?d k)" "dpbs s1 = dpbs s"
      "\<not> bit (b_flag (bufs s1 x)) 0" "others_kept x s s1"
      "x = (case lru_find (fat_sector ?d k) (vol_unit ?d) s os of Some y \<Rightarrow> y | None \<Rightarrow> lru_victim (bufs s) os)"
    using getblk_ok[OF rel co(1) inV] by blast
  let ?f = "\<lambda>b. b\<lparr>b_flag := (b_flag b AND NOT (BFR_DATA OR BFR_DIR)) OR (BFR_FAT OR BFR_VALID), b_dpbp := dp,
       b_copies := dpb_fats ?d, b_offset := dpb_fatsize ?d\<rparr>"
  have nf: "\<not> ISFAT32 ?d" using vol by (simp add: fat_vol_def)
  define s' where "s' = set_buf x ?f s1"
  have G: "getFATblock E dp (fat_sector ?d k) s = Some (Some x, s')"
    using g(1,7) nf by (simp add: getFATblock_def getblock_def s'_def Let_def)
  have xs: "x \<in> set (x # remove1 x os)" by simp
  have fb: "fat_buffer ?d k (?f (bufs s1 x))" using g(5,6) by (auto simp: fat_buffer_def flag_simps buf_id_def)
  have m: "mirrors_ok V s1 (?f (bufs s1 x))" using fat_buffer_mirrors[OF vol fb k] .
  let ?g = "\<lambda>b. if b_valid b then ?f b else b"
  have s'2: "s' = set_buf x ?g s1" using g(5) by (simp add: s'_def set_buf_def)
  have R: "cache_ok 512 rd V (set_buf x ?g s1) (x # remove1 x os)"
    "view 512 rd (set_buf x ?g s1) (x # remove1 x os) = view 512 rd s1 (x # remove1 x os)"
    by (rule retag_state[OF g(3) xs g(5)]; use m g(5) in \<open>auto simp: flag_simps buf_id_def\<close>)+
  have len: "2 \<le> length (x # remove1 x os)" using co(2) g(2) by (simp add: length_remove1)
  have k': "dpbs s' = dpbs s" using g(7) by (simp add: s'_def)
  have o: "others_kept x s s'" using g(9) by (simp add: others_kept_def s'_def)
  have "\<not> bit (b_flag (bufs s' x)) 0" using g(8) by (simp add: s'_def flag_simps)
  moreover have "fat_buffer (dpbs s' dp) k (bufs s' x)" using fb k' by (simp add: s'_def)
  moreover have "fat_ok rd V dp s' (x # remove1 x os)" using R(1) len vol k' by (simp add: fat_ok_def s'2)
  moreover have "\<forall>v \<in> V. view 512 rd s' (x # remove1 x os) v = view 512 rd s os v"
    using R(2) g(4) by (simp add: s'2)
  ultimately show ?thesis using G g(2,10) o k' by blast
qed

text \<open>The blocks outside the first FAT keep what the cache shows of them.\<close>

definition fat_blocks :: "dpb \<Rightarrow> block_id set" where
  "fat_blocks d = (\<lambda>k. (vol_unit d, fat_sector d k)) ` {..< unat (dpb_fatsize d)}"

definition data_kept :: "'w disk_reader \<Rightarrow> block_id set \<Rightarrow> dpb \<Rightarrow> 'w diskio \<Rightarrow> 16 word list \<Rightarrow> 'w diskio \<Rightarrow> 16 word list \<Rightarrow> bool" where
  "data_kept rd V d s os s' os' \<longleftrightarrow> (\<forall>v \<in> V - fat_blocks d. view 512 rd s' os' v = view 512 rd s os v)"

lemma data_kept_trans:
  "data_kept rd V d s os s' os' \<Longrightarrow> data_kept rd V d s' os' s'' os'' \<Longrightarrow> data_kept rd V d s os s'' os''"
  by (simp add: data_kept_def)

lemma data_kept_view: "\<forall>v \<in> V. view 512 rd s' os' v = view 512 rd s os v \<Longrightarrow> data_kept rd V d s os s' os'"
  by (simp add: data_kept_def)

lemma fat_bytes_view:
  assumes "\<forall>v \<in> V. view 512 rd s' os' v = view 512 rd s os v" "dpbs s' = dpbs s" "fat_vol V (dpbs s dp)"
  shows "fat_bytes rd s' os' dp = fat_bytes rd s os dp"
proof
  fix i
  have "i < fat_len (dpbs s dp) \<Longrightarrow> (vol_unit (dpbs s dp), fat_sector (dpbs s dp) (i div 512)) \<in> V"
    using assms(3) by (auto simp: fat_vol_def fat_len_def)
  then show "fat_bytes rd s' os' dp i = fat_bytes rd s os dp i"
    using assms(1,2) by (auto simp: fat_bytes_def)
qed

lemma fat_write:
  assumes ok: "fat_ok rd V dp s os" and x: "x \<in> set os" "fat_buffer (dpbs s dp) k (bufs s x)"
    and k: "k < unat (dpb_fatsize (dpbs s dp))"
    and f: "fat_buffer (dpbs s dp) k (f (bufs s x))" "b_dirty (f (bufs s x))"
      "\<And>b. b_next (f b) = b_next b \<and> b_prev (f b) = b_prev b"
  shows "fat_ok rd V dp (set_buf x f s) os"
    and "data_kept rd V (dpbs s dp) s os (set_buf x f s) os"
    and "fat_bytes rd (set_buf x f s) os dp =
      (\<lambda>i. if i < fat_len (dpbs s dp) \<and> i div 512 = k then b_buffer (f (bufs s x)) (i mod 512) else fat_bytes rd s os dp i)"
proof -
  let ?d = "dpbs s dp" and ?s = "set_buf x f s"
  have co: "cache_ok 512 rd V s os" and vol: "fat_vol V ?d" using ok by (auto simp: fat_ok_def)
  have bx: "b_valid (bufs s x)" "buf_id (bufs s x) = (vol_unit ?d, fat_sector ?d k)"
    using x by (auto simp: fat_buffer_def)
  have bf: "b_valid (f (bufs s x))" "buf_id (f (bufs s x)) = buf_id (bufs s x)"
    using f(1) bx by (auto simp: fat_buffer_def)
  have m: "mirrors_ok V ?s (f (bufs s x))" using fat_buffer_mirrors[OF vol f(1) k] .
  note P = poke_ok[OF co x(1) bx(1), of ?s]
  have "cache_ok 512 rd V ?s os"
    by (rule P(1)) (use f bf m in \<open>auto simp: same_links_def\<close>)
  then show "fat_ok rd V dp ?s os" using ok by (simp add: fat_ok_def)
  have vw: "view 512 rd ?s os = (view 512 rd s os)((vol_unit ?d, fat_sector ?d k) := sector 512 (b_buffer (f (bufs s x))))"
    unfolding bx(2)[symmetric]
    by (rule P(2)[simplified]) (use f bf m in \<open>auto simp: same_links_def\<close>)
  then show "data_kept rd V ?d s os ?s os" using k by (auto simp: data_kept_def fat_blocks_def)
  have fs: "unat (dpb_fatsize ?d) < 65536" by (rule unat16)
  show "fat_bytes rd ?s os dp =
      (\<lambda>i. if i < fat_len ?d \<and> i div 512 = k then b_buffer (f (bufs s x)) (i mod 512) else fat_bytes rd s os dp i)"
  proof
    fix i
    have "i < fat_len ?d \<Longrightarrow> fat_sector ?d (i div 512) = fat_sector ?d k \<longleftrightarrow> i div 512 = k"
      using fat_sector_inj[of "i div 512" k ?d] k fs by (auto simp: fat_len_def)
    then show "fat_bytes rd ?s os dp i =
      (if i < fat_len ?d \<and> i div 512 = k then b_buffer (f (bufs s x)) (i mod 512) else fat_bytes rd s os dp i)"
      by (auto simp: fat_bytes_def vw sector_def)
  qed
qed

lemma fat_write_byte:
  assumes ok: "fat_ok rd V dp s os" and x: "x \<in> set os" "fat_buffer (dpbs s dp) k (bufs s x)"
    and k: "k < unat (dpb_fatsize (dpbs s dp))" "i < 512" and e: "j = 512 * k + i"
    and s': "s' = mark_dirty x (put_byte x i v s)"
  shows "fat_ok rd V dp s' os \<and> data_kept rd V (dpbs s dp) s os s' os
    \<and> fat_bytes rd s' os dp = (fat_bytes rd s os dp)(j := v) \<and> dpbs s' = dpbs s
    \<and> (\<forall>y. b_buffer (bufs s' y) = (if y = x then (b_buffer (bufs s x))(i := v) else b_buffer (bufs s y)))
    \<and> (\<forall>d k y. fat_buffer d k (bufs s y) \<longrightarrow> fat_buffer d k (bufs s' y))"
proof -
  let ?f = "\<lambda>b. b\<lparr>b_buffer := (b_buffer b)(i := v), b_flag := b_flag b OR (BFR_DIRTY OR BFR_VALID)\<rparr>"
  have s: "s' = set_buf x ?f s" by (simp add: s' mark_dirty_def put_byte_def set_buf_def)
  have fb: "fat_buffer d m b \<Longrightarrow> fat_buffer d m (?f b)" for d m b
    by (auto simp: fat_buffer_def flag_simps buf_id_def)
  have dirty: "b_dirty (?f (bufs s x))" by (simp add: flag_simps)
  have nx: "\<And>b. b_next (?f b) = b_next b \<and> b_prev (?f b) = b_prev b" by simp
  have co: "cache_ok 512 rd V s os" using ok by (simp add: fat_ok_def)
  note W = fat_write[where f = ?f, OF ok x k(1) fb[OF x(2)] dirty nx, folded s]
  have "fat_ok rd V dp s' os" "data_kept rd V (dpbs s dp) s os s' os" by (rule W(1), rule W(2))
  moreover have "fat_bytes rd s' os dp = (fat_bytes rd s os dp)(j := v)"
  proof
    fix a
    have "fat_bytes rd s' os dp a = (if a < fat_len (dpbs s dp) \<and> a div 512 = k
        then ((b_buffer (bufs s x))(i := v)) (a mod 512) else fat_bytes rd s os dp a)"
      unfolding W(3) by simp
    moreover have "a div 512 = k \<Longrightarrow> a mod 512 = i \<longleftrightarrow> a = j"
      using div_mult_mod_eq[of a 512] e by linarith
    moreover have "j < fat_len (dpbs s dp)" "j div 512 = k" using k e by (simp_all add: fat_len_def)
    moreover have "a div 512 = k \<Longrightarrow> b_buffer (bufs s x) (a mod 512) = fat_bytes rd s os dp a"
      using fat_read[OF co x, of "a mod 512"] k(1) div_mult_mod_eq[of a 512] by (simp add: mult.commute)
    ultimately show "fat_bytes rd s' os dp a = ((fat_bytes rd s os dp)(j := v)) a" by auto
  qed
  moreover have "dpbs s' = dpbs s" by (simp add: s)
  moreover have "\<forall>y. b_buffer (bufs s' y) = (if y = x then (b_buffer (bufs s x))(i := v) else b_buffer (bufs s y))"
    by (simp add: s)
  moreover have "\<forall>d k y. fat_buffer d k (bufs s y) \<longrightarrow> fat_buffer d k (bufs s' y)" using fb by (simp add: s)
  ultimately show ?thesis by blast
qed

lemma lru_victim_not_first:
  assumes "distinct (x # xs)" "xs \<noteq> []" "b_fat (m x)" "\<not> bit (b_flag (m x)) 0"
  shows "lru_victim m (x # xs) \<noteq> x"
proof -
  have "last (filter P (x # xs)) \<noteq> x" if "\<not> P x" "filter P (x # xs) \<noteq> []" for P
  proof -
    have "last (filter P (x # xs)) \<in> set (filter P (x # xs))" using that(2) by (rule last_in_set)
    then have "P (last (filter P (x # xs)))" by (simp only: set_filter mem_Collect_eq)
    then show ?thesis using that(1) by metis
  qed
  moreover have "last (x # xs) \<noteq> x" using assms(1,2) by auto
  ultimately show ?thesis using assms(3,4) unfolding lru_victim_def Let_def
    by (auto simp del: filter.simps last.simps)
qed

section \<open>Reading and writing an entry\<close>

lemma unat_small: "n < 4294967296 \<Longrightarrow> unat (of_nat n :: 32 word) = n"
  by (simp add: unsigned_of_nat take_bit_eq_mod)

lemma fat_index12:
  assumes "ISFAT12 d" "\<not> ISFAT32 d" "dpb_secsize d = 512" "c < 65536"
  shows "fat_index d (of_nat c) = (of_nat (3 * c mod 1024), fat_sector d (3 * c div 1024))"
proof -
  have "unat (of_nat c * 3 :: 32 word) = 3 * c" using assms(4) by (simp add: unat_word_ariths unat_small)
  then have "(of_nat c * 3 :: 32 word) div 1024 = of_nat (3 * c div 1024)"
    "(of_nat c * 3 :: 32 word) mod 1024 = of_nat (3 * c mod 1024)"
    using assms(4) by (simp_all add: word_unat_eq_iff unat_div unat_mod unat_small)
  moreover have "(ucast (512 :: 16 word) * 2 :: 32 word) = 1024" by simp
  ultimately show ?thesis using assms(1-3) by (simp add: fat_index_def fat_div_def Let_def fat_sector_def)
qed

lemma fat_index16:
  assumes "\<not> ISFAT12 d" "\<not> ISFAT32 d" "dpb_secsize d = 512" "c < 65536"
  shows "fat_index d (of_nat c) = (of_nat (c mod 256), fat_sector d (c div 256))"
proof -
  have "(of_nat c :: 32 word) div 256 = of_nat (c div 256)" "(of_nat c :: 32 word) mod 256 = of_nat (c mod 256)"
    using assms(4) by (simp_all add: word_unat_eq_iff unat_div unat_mod unat_small)
  moreover have "(ucast (512 :: 16 word) div 2 :: 32 word) = 256" by simp
  ultimately show ?thesis using assms(1-3) by (simp add: fat_index_def fat_div_def Let_def fat_sector_def)
qed

text \<open>The parameter block of the volume may change in its count of free clusters and its hint.\<close>

lemma set_hint_ok:
  assumes ok: "fat_ok rd V dp s os" and s': "s' = set_dpb dp (\<lambda>d. d\<lparr>dpb_xnfreeclst := n, dpb_cluster := c\<rparr>) s"
  shows "fat_ok rd V dp s' os \<and> view 512 rd s' os = view 512 rd s os \<and> fat_bytes rd s' os dp = fat_bytes rd s os dp"
proof -
  have k: "kern s' = kern s" "bufs s' = bufs s" "firstbuf s' = firstbuf s" by (simp_all add: s' set_dpb_def)
  have d: "dpb_secsize (dpbs s' p) = dpb_secsize (dpbs s p)" "dpb_subunit (dpbs s' p) = dpb_subunit (dpbs s p)"
    "dpb_xfatsize (dpbs s' p) = dpb_xfatsize (dpbs s p)" "dpb_fatsize (dpbs s' p) = dpb_fatsize (dpbs s p)"
    "dpb_size (dpbs s' p) = dpb_size (dpbs s p)" "dpb_unit (dpbs s' p) = dpb_unit (dpbs s p)"
    "dpb_fats (dpbs s' p) = dpb_fats (dpbs s p)" "dpb_fatstrt (dpbs s' p) = dpb_fatstrt (dpbs s p)" for p
    by (auto simp: s' set_dpb_def)
  have g: "get_dpb e s' = get_dpb e s" for e using get_dpb_same[OF k(1)] .
  have ds: "disk n rd s' v = disk n rd s v" for n v using k g d by (simp add: disk_def dkey_def drive_key_def)
  have m: "mirrors_ok V s' b = mirrors_ok V s b" for b by (simp add: mirrors_ok_def copy_offset_def d)
  have vw: "view 512 rd s' os = view 512 rd s os" by (simp add: view_def lru_find_def k ds fun_eq_iff split: option.split)
  have "cache_ok 512 rd V s' os"
    using ok k g d
    by (simp add: fat_ok_def cache_ok_def lru_def drives_ok_def dkey_def drive_key_def buffer_ok_def ds m unique_blocks_def
        inj_on_def)
  moreover have "fat_vol V (dpbs s' dp) = fat_vol V (dpbs s dp)"
    by (simp add: fat_vol_def d ISFAT32_def ISFAT12_def ISFAT16_def fat_sector_def fat_len_def)
  moreover have "fat_bytes rd s' os dp = fat_bytes rd s os dp"
    by (simp add: fat_bytes_def vw d fat_sector_def fat_len_def cong: if_cong)
  ultimately show ?thesis using ok vw by (simp add: fat_ok_def)
qed

lemma set_count_ok:
  assumes ok: "fat_ok rd V dp s os" and s': "s' = set_dpb dp (\<lambda>d. d\<lparr>dpb_xnfreeclst := n\<rparr>) s"
  shows "fat_ok rd V dp s' os \<and> view 512 rd s' os = view 512 rd s os \<and> fat_bytes rd s' os dp = fat_bytes rd s os dp"
  by (rule set_hint_ok[OF ok, where n = n and c = "dpb_cluster (dpbs s dp)"]) (simp add: s' set_dpb_def)

lemma count_free_eq:
  assumes "\<not> ISFAT32 (dpbs s dp)"
  shows "\<exists>n. count_free E dp v was s = Some (Inr (set_dpb dp (\<lambda>d. d\<lparr>dpb_xnfreeclst := n\<rparr>) s))"
proof -
  have same: "s = set_dpb dp (\<lambda>d. d\<lparr>dpb_xnfreeclst := dpb_xnfreeclst (dpbs s dp)\<rparr>) s"
    by (simp add: set_dpb_def)
  have set: "\<exists>n. set_dpb dp (set_nfreeclst w) s = set_dpb dp (\<lambda>d. d\<lparr>dpb_xnfreeclst := n\<rparr>) s" for w
    by (simp add: set_dpb_def set_nfreeclst_def) blast
  show ?thesis
  proof (cases "(v = FREE_CLUSTER \<or> was) \<and> dpb_nfreeclst (dpbs s dp) \<noteq> UNKNCLSTFREE")
    case True
    then show ?thesis using assms set
      by (auto simp: count_free_def Let_def set_dpb_def)
  next
    case False
    then have "count_free E dp v was s = Some (Inr s)" using assms by (auto simp: count_free_def Let_def)
    then show ?thesis using same by metis
  qed
qed

text \<open>A 16-bit entry lies in one sector.\<close>

lemma mark_dirty_twice: "mark_dirty x (put_byte x j w (mark_dirty x (put_byte x i v s))) =
   mark_dirty x (put_byte x j w (put_byte x i v s))"
  by (simp add: mark_dirty_def put_byte_def set_buf_def ac_simps)

lemma link16_ok:
  assumes ok: "fat_ok rd V dp s os" and x: "x \<in> set os" "fat_buffer (dpbs s dp) k (bufs s x)"
    and k: "k < unat (dpb_fatsize (dpbs s dp))" and i: "i < 256"
    and F: "F = fat_bytes rd s os dp"
  shows "link16 READ_CLUSTER x (of_nat i) s = (Inl (read16 (get16 F (2 * (256 * k + i)))), s)"
    and "v \<noteq> READ_CLUSTER \<Longrightarrow> \<exists>was s1. link16 v x (of_nat i) s = (Inr was, s1) \<and> (let s' = mark_dirty x s1 in
      fat_ok rd V dp s' os \<and> data_kept rd V (dpbs s dp) s os s' os
      \<and> fat_bytes rd s' os dp = store16 F (256 * k + i) v \<and> dpbs s' = dpbs s)"
proof -
  let ?c = "256 * k + i"
  have co: "cache_ok 512 rd V s os" using ok by (simp add: fat_ok_def)
  have ui: "unat (of_nat i :: 32 word) = i" using i by (simp add: unat_small)
  have b: "b_buffer (bufs s x) (2 * i) = F (2 * ?c)" "b_buffer (bufs s x) (2 * i + 1) = F (2 * ?c + 1)"
    using fat_read[OF co x _ k, of "2 * i"] fat_read[OF co x _ k, of "2 * i + 1"] i F by (simp_all add: algebra_simps)
  have r: "get16 (b_buffer (bufs s x)) (i * 2) = get16 F (2 * ?c)"
    using b by (simp add: get16_def mult.commute)
  then show "link16 READ_CLUSTER x (of_nat i) s = (Inl (read16 (get16 F (2 * ?c))), s)"
    by (simp add: link16_def Let_def ui)
  assume v: "v \<noteq> READ_CLUSTER"
  let ?w = "ucast v :: 16 word"
  define s1 where "s1 = mark_dirty x (put_byte x (2 * i) (ucast ?w) s)"
  define s2 where "s2 = mark_dirty x (put_byte x (2 * i + 1) (ucast (drop_bit 8 ?w)) s1)"
  have W1: "fat_ok rd V dp s1 os" "data_kept rd V (dpbs s dp) s os s1 os"
    "fat_bytes rd s1 os dp = F(2 * ?c := ucast ?w)" "dpbs s1 = dpbs s" "fat_buffer (dpbs s dp) k (bufs s1 x)"
    using fat_write_byte[OF ok x k _ _ s1_def, of "2 * ?c"] i F x(2) by (auto simp: algebra_simps)
  have W2: "fat_ok rd V dp s2 os" "data_kept rd V (dpbs s dp) s1 os s2 os"
    "fat_bytes rd s2 os dp = F(2 * ?c := ucast ?w, 2 * ?c + 1 := ucast (drop_bit 8 ?w))" "dpbs s2 = dpbs s1"
    using fat_write_byte[OF W1(1) x(1) _ _ _ _ s2_def, of k "2 * ?c + 1"] W1(3-5) k i by (auto simp: algebra_simps)
  have "mark_dirty x (set_buf x (\<lambda>b. b\<lparr>b_buffer := put16 (b_buffer b) (i * 2) ?w\<rparr>) s) = s2"
    unfolding s2_def s1_def mark_dirty_twice by (simp add: put_byte_def mark_dirty_def set_buf_def put16_def mult.commute)
  moreover have "link16 v x (of_nat i) s = (Inr (get16 (b_buffer (bufs s x)) (i * 2) = 0),
      set_buf x (\<lambda>b. b\<lparr>b_buffer := put16 (b_buffer b) (i * 2) ?w\<rparr>) s)"
    using v by (simp add: link16_def Let_def ui)
  moreover have "fat_bytes rd s2 os dp = store16 F ?c v" using W2(3) by (simp add: store16_def put16_def)
  ultimately show "\<exists>was s1. link16 v x (of_nat i) s = (Inr was, s1) \<and> (let s' = mark_dirty x s1 in
      fat_ok rd V dp s' os \<and> data_kept rd V (dpbs s dp) s os s' os
      \<and> fat_bytes rd s' os dp = store16 F ?c v \<and> dpbs s' = dpbs s)"
    using W2 W1(2,4) data_kept_trans by (auto simp: Let_def)
qed

text \<open>A 12-bit entry may straddle two sectors; the second one is fetched while the first is in
  use, and the replacement rule never takes the buffer of the first.\<close>

lemma lru_find_Some: "lru_find blk d s os = Some z \<Longrightarrow> z \<in> set os \<and> b_valid (bufs s z) \<and> buf_id (bufs s z) = (d, blk)"
  by (auto simp: lru_find_def find_Some_iff holds_block_iff)

lemma second_sector:
  assumes rel: "reliable E 512 rd" and ok: "fat_ok rd V dp s (x # xs)"
    and x: "fat_buffer (dpbs s dp) k (bufs s x)" "\<not> bit (b_flag (bufs s x)) 0"
    and k: "Suc k < unat (dpb_fatsize (dpbs s dp))"
  shows "\<exists>y s' os'. getFATblock E dp (fat_sector (dpbs s dp) (Suc k)) s = Some (Some y, s') \<and> y \<noteq> x
     \<and> y \<in> set os' \<and> set os' = set (x # xs) \<and> fat_ok rd V dp s' os'
     \<and> (\<forall>v \<in> V. view 512 rd s' os' v = view 512 rd s (x # xs) v) \<and> dpbs s' = dpbs s
     \<and> fat_buffer (dpbs s dp) (Suc k) (bufs s' y) \<and> fat_buffer (dpbs s dp) k (bufs s' x)"
proof -
  let ?d = "dpbs s dp"
  obtain y s' where g: "getFATblock E dp (fat_sector ?d (Suc k)) s = Some (Some y, s')" "y \<in> set (x # xs)"
     "fat_ok rd V dp s' (y # remove1 y (x # xs))"
     "\<forall>v \<in> V. view 512 rd s' (y # remove1 y (x # xs)) v = view 512 rd s (x # xs) v"
     "fat_buffer (dpbs s' dp) (Suc k) (bufs s' y)" "dpbs s' = dpbs s" "others_kept y s s'"
     "y = (case lru_find (fat_sector ?d (Suc k)) (vol_unit ?d) s (x # xs) of
              Some z \<Rightarrow> z | None \<Rightarrow> lru_victim (bufs s) (x # xs))"
    using getFATblock_ok[OF rel ok k] by blast
  have dist: "distinct (x # xs)" "xs \<noteq> []" using ok by (auto simp: fat_ok_def cache_ok_def lru_def ring_def)
  have fs: "Suc k < 65536" using k unat16[of "dpb_fatsize ?d"] by simp
  have "y \<noteq> x"
  proof (cases "lru_find (fat_sector ?d (Suc k)) (vol_unit ?d) s (x # xs)")
    case None
    then show ?thesis using g(8) lru_victim_not_first[OF dist, of "bufs s"] x by (auto simp: fat_buffer_def)
  next
    case (Some z)
    then have "buf_id (bufs s z) = (vol_unit ?d, fat_sector ?d (Suc k))" using lru_find_Some by blast
    moreover have "fat_sector ?d (Suc k) \<noteq> fat_sector ?d k" using fat_sector_inj[of "Suc k" k ?d] fs by simp
    ultimately show ?thesis using g(8) Some x(1) by (auto simp: fat_buffer_def)
  qed
  moreover have "fat_buffer ?d k (bufs s' x)"
    using g(7) x(1) \<open>y \<noteq> x\<close> by (simp add: fat_buffer_def others_kept_def)
  moreover have "set (y # remove1 y (x # xs)) = set (x # xs)" using dist(1) g(2) by (auto simp: set_remove1_eq)
  ultimately show ?thesis using g(1,3-6) by (metis list.set_intros(1))
qed

definition entry_at :: "nat \<Rightarrow> nat \<Rightarrow> nat \<Rightarrow> bool" where
  "entry_at c k i \<longleftrightarrow> 3 * c div 2 = 512 * k + i \<and> i < 512 \<and> 3 * c div 1024 = k \<and> 3 * c mod 1024 div 2 = i"

lemma entry_at: "entry_at c (3 * c div 1024) (3 * c mod 1024 div 2)"
proof -
  let ?n = "3 * c"
  have "?n mod 1024 = 2 * (?n div 2 mod 512) + ?n mod 2" using mod_mult2_eq[of ?n 2 512] by simp
  then have i: "?n mod 1024 div 2 = ?n div 2 mod 512" by simp
  have k: "?n div 1024 = ?n div 2 div 512" using div_mult2_eq[of ?n 2 512] by simp
  show ?thesis unfolding entry_at_def i k by simp
qed

lemma flag_buffer_swap: "b\<lparr>b_flag := f, b_buffer := m\<rparr> = b\<lparr>b_buffer := m, b_flag := f\<rparr>"
  by simp

lemma put_commute:
  "y \<noteq> x \<Longrightarrow> mark_dirty x (put_byte y j h (put_byte x i l (mark_dirty y s)))
     = mark_dirty y (put_byte y j h (mark_dirty x (put_byte x i l s)))"
  by (simp add: mark_dirty_def put_byte_def set_buf_def fun_upd_twist flag_buffer_swap)

lemma link12_ok:
  assumes rel: "reliable E 512 rd" and ok: "fat_ok rd V dp s (x # xs)"
    and x: "fat_buffer (dpbs s dp) k (bufs s x)" "\<not> bit (b_flag (bufs s x)) 0"
    and e: "entry_at c k i" and len: "3 * c div 2 + 1 < fat_len (dpbs s dp)" and c: "c < 65536"
    and F: "F = fat_bytes rd s (x # xs) dp"
  shows "\<exists>s' os'. link12 E dp (of_nat c) READ_CLUSTER x (of_nat (3 * c mod 1024)) (fat_sector (dpbs s dp) k) s
       = Some (Inl (entry12 F c), s') \<and> fat_ok rd V dp s' os' \<and> set os' = set (x # xs)
     \<and> data_kept rd V (dpbs s dp) s (x # xs) s' os' \<and> fat_bytes rd s' os' dp = F \<and> dpbs s' = dpbs s"
    and "v \<noteq> READ_CLUSTER \<Longrightarrow>
     \<exists>was s1 os'. link12 E dp (of_nat c) v x (of_nat (3 * c mod 1024)) (fat_sector (dpbs s dp) k) s
       = Some (Inr was, s1) \<and> (let s' = mark_dirty x s1 in fat_ok rd V dp s' os' \<and> set os' = set (x # xs)
     \<and> data_kept rd V (dpbs s dp) s (x # xs) s' os' \<and> fat_bytes rd s' os' dp = store12 F c v \<and> dpbs s' = dpbs s)"
proof -
  let ?d = "dpbs s dp" and ?j = "3 * c div 2"
  let ?L = "\<lambda>v. link12 E dp (of_nat c) v x (of_nat (3 * c mod 1024)) (fat_sector ?d k) s"
  have co: "cache_ok 512 rd V s (x # xs)" and vol: "fat_vol V ?d" using ok by (auto simp: fat_ok_def)
  have kf: "k < unat (dpb_fatsize ?d)" using e len by (simp add: entry_at_def fat_len_def)
  have ix: "unat (of_nat (3 * c mod 1024) :: 32 word) div 2 = i" using e by (simp add: entry_at_def unat_small)
  have i: "i < 512" "?j = 512 * k + i" using e by (auto simp: entry_at_def)
  have ss: "unat (dpb_secsize ?d) = 512" using vol by (simp add: fat_vol_def)
  have bi: "b_buffer (bufs s x) i = F ?j" using fat_read[OF co _ x(1) i(1) kf] F i(2) by simp
  define p where "p v = pack12 (of_nat c) v (pair12 F ?j)" for v
  have st: "store12 F c v = F(?j := ucast (p v), Suc ?j := ucast (drop_bit 8 (p v)))" for v
    by (simp add: store12_def p_def Let_def)
  have en: "read12 (unpack12 (of_nat c) (pair12 F ?j)) = entry12 F c" by (simp add: entry12_def load12_def)
  have both: "(\<exists>s' os'. ?L READ_CLUSTER = Some (Inl (entry12 F c), s') \<and> fat_ok rd V dp s' os' \<and> set os' = set (x # xs)
        \<and> data_kept rd V ?d s (x # xs) s' os' \<and> fat_bytes rd s' os' dp = F \<and> dpbs s' = dpbs s)
      \<and> (v \<noteq> READ_CLUSTER \<longrightarrow> (\<exists>was s1 os'. ?L v = Some (Inr was, s1) \<and> (let s' = mark_dirty x s1 in
          fat_ok rd V dp s' os' \<and> set os' = set (x # xs) \<and> data_kept rd V ?d s (x # xs) s' os'
          \<and> fat_bytes rd s' os' dp = store12 F c v \<and> dpbs s' = dpbs s)))" for v
  proof (cases "i < 511")
    case True
    have b2: "b_buffer (bufs s x) (Suc i) = F (Suc ?j)"
      using fat_read[OF co _ x(1) _ kf, of "Suc i"] F i(2) True by simp
    have w: "ucast (b_buffer (bufs s x) i) OR push_bit 8 (ucast (b_buffer (bufs s x) (Suc i))) = pair12 F ?j"
      by (simp add: pair12_def bi b2)
    have R: "?L READ_CLUSTER = Some (Inl (entry12 F c), s)"
      using True ss by (simp add: link12_def Let_def ix w en)
    have W: "v \<noteq> READ_CLUSTER \<Longrightarrow> ?L v = Some (Inr (unpack12 (of_nat c) (pair12 F ?j) = FREE_CLUSTER),
        put_byte x (Suc i) (ucast (drop_bit 8 (p v))) (put_byte x i (ucast (p v)) s))"
      using True ss by (simp add: link12_def Let_def ix w p_def)
    define s1 where "s1 = mark_dirty x (put_byte x i (ucast (p v)) s)"
    define s2 where "s2 = mark_dirty x (put_byte x (Suc i) (ucast (drop_bit 8 (p v))) s1)"
    have W1: "fat_ok rd V dp s1 (x # xs)" "data_kept rd V ?d s (x # xs) s1 (x # xs)"
      "fat_bytes rd s1 (x # xs) dp = F(?j := ucast (p v))" "dpbs s1 = dpbs s" "fat_buffer ?d k (bufs s1 x)"
      using fat_write_byte[OF ok _ x(1) kf i(1) i(2) s1_def] F x(1) by auto
    have W2: "fat_ok rd V dp s2 (x # xs)" "data_kept rd V ?d s1 (x # xs) s2 (x # xs)"
      "fat_bytes rd s2 (x # xs) dp = store12 F c v" "dpbs s2 = dpbs s"
      using fat_write_byte[OF W1(1) _ _ _ _ _ s2_def, of k "Suc ?j"] W1(3-5) kf True i(2) st by auto
    have e2: "mark_dirty x (put_byte x (Suc i) (ucast (drop_bit 8 (p v))) (put_byte x i (ucast (p v)) s)) = s2"
      by (simp add: s2_def s1_def mark_dirty_twice)
    have r: "\<exists>s' os'. ?L READ_CLUSTER = Some (Inl (entry12 F c), s') \<and> fat_ok rd V dp s' os' \<and> set os' = set (x # xs)
        \<and> data_kept rd V ?d s (x # xs) s' os' \<and> fat_bytes rd s' os' dp = F \<and> dpbs s' = dpbs s"
      using R ok F by (intro exI[of _ s] exI[of _ "x # xs"]) (auto simp: data_kept_def)
    have "data_kept rd V ?d s (x # xs) s2 (x # xs)" using data_kept_trans W1(2) W2(2) by blast
    then show ?thesis using r W e2 W2 unfolding Let_def by metis
  next
    case False
    then have i511: "i = 511" using i(1) by simp
    have k1: "Suc k < unat (dpb_fatsize ?d)" using len i(2) i511 by (simp add: fat_len_def)
    have sec: "fat_sector ?d k + 1 = fat_sector ?d (Suc k)" by (simp add: fat_sector_def)
    obtain y s1 os' where y: "getFATblock E dp (fat_sector ?d (Suc k)) s = Some (Some y, s1)" "y \<noteq> x"
      "y \<in> set os'" "set os' = set (x # xs)" "fat_ok rd V dp s1 os'"
      "\<forall>v \<in> V. view 512 rd s1 os' v = view 512 rd s (x # xs) v" "dpbs s1 = dpbs s"
      "fat_buffer ?d (Suc k) (bufs s1 y)" "fat_buffer ?d k (bufs s1 x)"
      using second_sector[OF rel ok x k1] by blast
    have co1: "cache_ok 512 rd V s1 os'" using y(5) by (simp add: fat_ok_def)
    have F1: "fat_bytes rd s1 os' dp = F" using fat_bytes_view[OF y(6,7) vol] F by simp
    have xin: "x \<in> set os'" using y(4) by simp
    have kf1: "k < unat (dpb_fatsize (dpbs s1 dp))" "Suc k < unat (dpb_fatsize (dpbs s1 dp))" using kf k1 y(7) by auto
    have fx: "fat_buffer (dpbs s1 dp) k (bufs s1 x)" and fy: "fat_buffer (dpbs s1 dp) (Suc k) (bufs s1 y)"
      using y(7-9) by auto
    have bx: "b_buffer (bufs s1 x) i = F ?j" using fat_read[OF co1 xin fx i(1) kf1(1)] F1 i(2) by simp
    have by': "b_buffer (bufs s1 y) 0 = F (Suc ?j)"
      using fat_read[OF co1 y(3) fy _ kf1(2), of 0] F1 i(2) i511 by simp
    have w: "ucast (b_buffer (bufs s1 x) i) OR push_bit 8 (ucast (b_buffer (bufs s1 y) 0)) = pair12 F ?j"
      by (simp add: pair12_def bx by')
    have wd: "b_buffer (bufs (mark_dirty y s1) z) = b_buffer (bufs s1 z)" for z by (simp add: mark_dirty_def)
    have R: "?L READ_CLUSTER = Some (Inl (entry12 F c), s1)"
      using i511 ss y(1) w by (simp add: link12_def Let_def ix sec en)
    have W: "v \<noteq> READ_CLUSTER \<Longrightarrow> ?L v = Some (Inr (unpack12 (of_nat c) (pair12 F ?j) = FREE_CLUSTER),
        put_byte y 0 (ucast (drop_bit 8 (p v))) (put_byte x i (ucast (p v)) (mark_dirty y s1)))"
      using i511 ss y(1) w by (simp add: link12_def Let_def ix sec wd p_def)
    define s2 where "s2 = mark_dirty x (put_byte x i (ucast (p v)) s1)"
    define s3 where "s3 = mark_dirty y (put_byte y 0 (ucast (drop_bit 8 (p v))) s2)"
    have W1: "fat_ok rd V dp s2 os'" "data_kept rd V ?d s1 os' s2 os'"
      "fat_bytes rd s2 os' dp = F(?j := ucast (p v))" "dpbs s2 = dpbs s" "fat_buffer ?d (Suc k) (bufs s2 y)"
      using fat_write_byte[OF y(5) xin fx kf1(1) i(1) i(2) s2_def] F1 y(7,8) by auto
    have W2: "fat_ok rd V dp s3 os'" "data_kept rd V ?d s2 os' s3 os'"
      "fat_bytes rd s3 os' dp = store12 F c v" "dpbs s3 = dpbs s"
      using fat_write_byte[OF W1(1) y(3) _ _ _ _ s3_def, of "Suc k" "Suc ?j"] W1(3-5) k1 i(2) i511 st by auto
    have e2: "mark_dirty x (put_byte y 0 (ucast (drop_bit 8 (p v))) (put_byte x i (ucast (p v)) (mark_dirty y s1))) = s3"
      by (simp add: s3_def s2_def put_commute[OF y(2)])
    have d1: "data_kept rd V ?d s (x # xs) s1 os'" using data_kept_view[OF y(6)] .
    have d3: "data_kept rd V ?d s (x # xs) s3 os'" using data_kept_trans d1 W1(2) W2(2) by blast
    have r: "\<exists>s' os'. ?L READ_CLUSTER = Some (Inl (entry12 F c), s') \<and> fat_ok rd V dp s' os' \<and> set os' = set (x # xs)
        \<and> data_kept rd V ?d s (x # xs) s' os' \<and> fat_bytes rd s' os' dp = F \<and> dpbs s' = dpbs s"
      using R y(4,5,7) F1 d1 by blast
    show ?thesis using r W e2 W2 d3 y(4) unfolding Let_def by metis
  qed
  show "\<exists>s' os'. ?L READ_CLUSTER = Some (Inl (entry12 F c), s') \<and> fat_ok rd V dp s' os' \<and> set os' = set (x # xs)
     \<and> data_kept rd V ?d s (x # xs) s' os' \<and> fat_bytes rd s' os' dp = F \<and> dpbs s' = dpbs s"
    using both by blast
  show "v \<noteq> READ_CLUSTER \<Longrightarrow> \<exists>was s1 os'. ?L v = Some (Inr was, s1) \<and> (let s' = mark_dirty x s1 in
     fat_ok rd V dp s' os' \<and> set os' = set (x # xs) \<and> data_kept rd V ?d s (x # xs) s' os'
     \<and> fat_bytes rd s' os' dp = store12 F c v \<and> dpbs s' = dpbs s)"
    using both by blast
qed

section \<open>\<open>link_fat\<close> reads and writes one entry\<close>

definition entry_of :: "dpb \<Rightarrow> bytes \<Rightarrow> nat \<Rightarrow> 32 word" where
  "entry_of d F c = (if ISFAT12 d then entry12 F c else entry16 F c)"

definition store_of :: "dpb \<Rightarrow> bytes \<Rightarrow> nat \<Rightarrow> 32 word \<Rightarrow> bytes" where
  "store_of d F c v = (if ISFAT12 d then store12 F c v else store16 F c v)"

text \<open>The state after an access, with the order of the buffers: everything as before but for
  the bytes of the FAT.\<close>

definition fat_step :: "'w disk_reader \<Rightarrow> block_id set \<Rightarrow> 32 word \<Rightarrow> 'w diskio \<Rightarrow> 16 word list
    \<Rightarrow> 'w diskio \<Rightarrow> 16 word list \<Rightarrow> bytes \<Rightarrow> bool" where
  "fat_step rd V dp s os s' os' F \<longleftrightarrow> fat_ok rd V dp s' os' \<and> set os' = set os
     \<and> data_kept rd V (dpbs s dp) s os s' os' \<and> fat_bytes rd s' os' dp = F"

lemma link_fat_block:
  assumes rel: "reliable E 512 rd" and ok: "fat_ok rd V dp s os" and c: "2 \<le> c" "c \<le> unat (dpb_size (dpbs s dp))"
    and F: "F = fat_bytes rd s os dp"
  shows "\<exists>x xs s1 k idx. getFATblock E dp (fat_sector (dpbs s dp) k) s = Some (Some x, s1)
     \<and> fat_index (dpbs s dp) (of_nat c) = (idx, fat_sector (dpbs s dp) k)
     \<and> fat_step rd V dp s os s1 (x # xs) F \<and> dpbs s1 = dpbs s
     \<and> fat_buffer (dpbs s1 dp) k (bufs s1 x) \<and> \<not> bit (b_flag (bufs s1 x)) 0
     \<and> k < unat (dpb_fatsize (dpbs s dp))
     \<and> (if ISFAT12 (dpbs s dp) then idx = of_nat (3 * c mod 1024) \<and> k = 3 * c div 1024
        else idx = of_nat (c mod 256) \<and> k = c div 256)"
proof -
  let ?d = "dpbs s dp"
  have vol: "fat_vol V ?d" using ok by (simp add: fat_ok_def)
  have c16: "c < 65536" using c(2) unat16[of "dpb_size ?d"] by simp
  have len: "(if ISFAT12 ?d then 3 * c div 2 else 2 * c) + 1 < 512 * unat (dpb_fatsize ?d)"
    using vol c(2) by (simp add: fat_vol_def fat_len_def)
  define k where "k = (if ISFAT12 ?d then 3 * c div 1024 else c div 256)"
  define idx :: "32 word" where "idx = (if ISFAT12 ?d then of_nat (3 * c mod 1024) else of_nat (c mod 256))"
  have k: "k < unat (dpb_fatsize ?d)"
  proof (cases "ISFAT12 ?d")
    case True
    then have "3 * c div 2 div 512 < unat (dpb_fatsize ?d)" using len by (simp add: div_less_iff_less_mult mult.commute)
    then show ?thesis using True by (simp add: k_def div_mult2_eq[symmetric])
  next
    case False
    then have "c < 256 * unat (dpb_fatsize ?d)" using len by simp
    then show ?thesis using False by (simp add: k_def div_less_iff_less_mult mult.commute)
  qed
  have fi: "fat_index ?d (of_nat c) = (idx, fat_sector ?d k)"
    using vol c16 fat_index12[of ?d c] fat_index16[of ?d c] by (simp add: fat_vol_def k_def idx_def)
  obtain x s1 where g: "getFATblock E dp (fat_sector ?d k) s = Some (Some x, s1)" "x \<in> set os"
      "fat_ok rd V dp s1 (x # remove1 x os)"
      "\<forall>v \<in> V. view 512 rd s1 (x # remove1 x os) v = view 512 rd s os v"
      "fat_buffer (dpbs s1 dp) k (bufs s1 x)" "dpbs s1 = dpbs s" "\<not> bit (b_flag (bufs s1 x)) 0"
    using getFATblock_ok[OF rel ok k] by blast
  have "set (x # remove1 x os) = set os"
    using ok g(2) by (intro lru_front[of s]) (auto simp: fat_ok_def cache_ok_def)
  then have "fat_step rd V dp s os s1 (x # remove1 x os) F"
    using g(3) fat_bytes_view[OF g(4,6) vol] data_kept_view[OF g(4)] F by (simp add: fat_step_def)
  then show ?thesis using g k fi by (metis (no_types, lifting) idx_def k_def)
qed

lemma fat_step_trans:
  "fat_step rd V dp s os s1 os1 F \<Longrightarrow> fat_step rd V dp s1 os1 s2 os2 G \<Longrightarrow> dpbs s1 = dpbs s \<Longrightarrow>
     fat_step rd V dp s os s2 os2 G"
  unfolding fat_step_def using data_kept_trans by metis

lemma link_fat_format:
  assumes rel: "reliable E 512 rd" and ok: "fat_ok rd V dp s (x # xs)" and c: "2 \<le> c" "c \<le> unat (dpb_size (dpbs s dp))"
    and F: "F = fat_bytes rd s (x # xs) dp" and fb: "fat_buffer (dpbs s dp) k (bufs s x)" "\<not> bit (b_flag (bufs s x)) 0"
    and k: "k < unat (dpb_fatsize (dpbs s dp))"
      "if ISFAT12 (dpbs s dp) then idx = of_nat (3 * c mod 1024) \<and> k = 3 * c div 1024
        else idx = of_nat (c mod 256) \<and> k = c div 256"
    and Q: "\<And>v. Q v = (if ISFAT12 (dpbs s dp) then link12 E dp (of_nat c) v x idx (fat_sector (dpbs s dp) k) s
         else if ISFAT16 (dpbs s dp) then Some (link16 v x idx s)
         else if ISFAT32 (dpbs s dp) then Some (link32 v x idx s) else Some (Inl 1, s))"
  shows "\<exists>s' os'. Q READ_CLUSTER = Some (Inl (entry_of (dpbs s dp) F c), s')
      \<and> fat_step rd V dp s (x # xs) s' os' F \<and> dpbs s' = dpbs s"
    and "v \<noteq> READ_CLUSTER \<Longrightarrow> \<exists>was s1 os'. Q v = Some (Inr was, s1)
      \<and> fat_step rd V dp s (x # xs) (mark_dirty x s1) os' (store_of (dpbs s dp) F c v)
      \<and> dpbs (mark_dirty x s1) = dpbs s"
proof -
  let ?d = "dpbs s dp"
  have vol: "fat_vol V ?d" using ok by (simp add: fat_ok_def)
  have c16: "c < 65536" using c(2) unat16[of "dpb_size ?d"] by simp
  have len: "(if ISFAT12 ?d then 3 * c div 2 else 2 * c) + 1 < fat_len ?d" using vol c(2) by (simp add: fat_vol_def)
  have both: "(\<exists>s' os'. Q READ_CLUSTER = Some (Inl (entry_of ?d F c), s')
      \<and> fat_step rd V dp s (x # xs) s' os' F \<and> dpbs s' = dpbs s)
    \<and> (v \<noteq> READ_CLUSTER \<longrightarrow> (\<exists>was s1 os'. Q v = Some (Inr was, s1)
      \<and> fat_step rd V dp s (x # xs) (mark_dirty x s1) os' (store_of ?d F c v) \<and> dpbs (mark_dirty x s1) = dpbs s))" for v
  proof (cases "ISFAT12 ?d")
    case True
    then have e: "entry_at c k (3 * c mod 1024 div 2)" "idx = of_nat (3 * c mod 1024)" using k(2) entry_at by auto
    have q: "Q v = link12 E dp (of_nat c) v x (of_nat (3 * c mod 1024)) (fat_sector ?d k) s" for v
      using Q True e(2) by simp
    have l: "3 * c div 2 + 1 < fat_len ?d" using len True by simp
    show ?thesis
      using link12_ok[OF rel ok fb e(1) l c16 F] True unfolding q Let_def fat_step_def entry_of_def store_of_def by simp
  next
    case False
    then have 16: "ISFAT16 ?d" "idx = of_nat (c mod 256)" "k = c div 256" using vol k(2) by (auto simp: fat_vol_def)
    have q: "Q v = Some (link16 v x (of_nat (c mod 256)) s)" for v using Q False 16 by simp
    have cc: "256 * k + c mod 256 = c" using 16(3) by simp
    note R = link16_ok[OF ok _ fb(1) k(1) _ F, of "c mod 256", unfolded cc]
    have r: "Q READ_CLUSTER = Some (Inl (entry_of ?d F c), s)"
      using R(1) False by (simp add: q entry_of_def entry16_def)
    have "fat_step rd V dp s (x # xs) s (x # xs) F" using ok F by (simp add: fat_step_def data_kept_def)
    then show ?thesis using r R(2) False unfolding q Let_def fat_step_def store_of_def by fastforce
  qed
  show "\<exists>s' os'. Q READ_CLUSTER = Some (Inl (entry_of ?d F c), s')
      \<and> fat_step rd V dp s (x # xs) s' os' F \<and> dpbs s' = dpbs s" using both by blast
  show "v \<noteq> READ_CLUSTER \<Longrightarrow> \<exists>was s1 os'. Q v = Some (Inr was, s1)
      \<and> fat_step rd V dp s (x # xs) (mark_dirty x s1) os' (store_of ?d F c v) \<and> dpbs (mark_dirty x s1) = dpbs s"
    using both by blast
qed

lemma unat_max_cluster: "fat_vol V d \<Longrightarrow> unat (max_cluster d) = unat (dpb_size d)"
  using unat16[of "dpb_size d"] by (simp add: max_cluster_def fat_vol_def unat_ucast)

lemma in_range:
  assumes "fat_vol V d" "2 \<le> c" "c \<le> unat (dpb_size d)"
  shows "\<not> (of_nat c \<le> (1 :: 32 word) \<or> max_cluster d < of_nat c)"
proof -
  have "c < 65536" using assms(3) unat16[of "dpb_size d"] by simp
  then have "unat (of_nat c :: 32 word) = c" by (simp add: unat_small)
  moreover have "unat (max_cluster d) = unat (dpb_size d)" using assms(1) by (rule unat_max_cluster)
  ultimately show ?thesis using assms(2,3) by (simp add: word_le_nat_alt word_less_nat_alt)
qed

lemma fat_div_512: "fat_vol V d \<Longrightarrow> fat_div d \<noteq> 0"
  by (auto simp: fat_vol_def fat_div_def Let_def)

lemma link_fat_read:
  assumes rel: "reliable E 512 rd" and ok: "fat_ok rd V dp s os" and c: "2 \<le> c" "c \<le> unat (dpb_size (dpbs s dp))"
  shows "\<exists>s' os'. link_fat E dp (of_nat c) READ_CLUSTER s = Some (Inr (entry_of (dpbs s dp) (fat_bytes rd s os dp) c, s'))
      \<and> fat_step rd V dp s os s' os' (fat_bytes rd s os dp) \<and> dpbs s' = dpbs s"
proof -
  let ?d = "dpbs s dp" and ?F = "fat_bytes rd s os dp"
  have vol: "fat_vol V ?d" using ok by (simp add: fat_ok_def)
  obtain x xs s1 k idx where b: "getFATblock E dp (fat_sector ?d k) s = Some (Some x, s1)"
     "fat_index ?d (of_nat c) = (idx, fat_sector ?d k)" "fat_step rd V dp s os s1 (x # xs) ?F" "dpbs s1 = dpbs s"
     "fat_buffer (dpbs s1 dp) k (bufs s1 x)" "\<not> bit (b_flag (bufs s1 x)) 0" "k < unat (dpb_fatsize ?d)"
     "if ISFAT12 ?d then idx = of_nat (3 * c mod 1024) \<and> k = 3 * c div 1024
        else idx = of_nat (c mod 256) \<and> k = c div 256"
    using link_fat_block[OF rel ok c refl] by blast
  have ok1: "fat_ok rd V dp s1 (x # xs)" "?F = fat_bytes rd s1 (x # xs) dp" using b(3) by (auto simp: fat_step_def)
  define Q where "Q v = (if ISFAT12 (dpbs s1 dp) then link12 E dp (of_nat c) v x idx (fat_sector (dpbs s1 dp) k) s1
         else if ISFAT16 (dpbs s1 dp) then Some (link16 v x idx s1)
         else if ISFAT32 (dpbs s1 dp) then Some (link32 v x idx s1) else Some (Inl 1, s1))" for v
  have d1: "dpbs s1 dp = ?d" using b(4) by simp
  have c1: "c \<le> unat (dpb_size (dpbs s1 dp))" "k < unat (dpb_fatsize (dpbs s1 dp))"
    "if ISFAT12 (dpbs s1 dp) then idx = of_nat (3 * c mod 1024) \<and> k = 3 * c div 1024
        else idx = of_nat (c mod 256) \<and> k = c div 256"
    unfolding d1 by (rule c(2), rule b(7), rule b(8))
  obtain s' os' where q: "Q READ_CLUSTER = Some (Inl (entry_of ?d ?F c), s')"
      "fat_step rd V dp s1 (x # xs) s' os' ?F" "dpbs s' = dpbs s1"
    using link_fat_format(1)[OF rel ok1(1) c(1) c1(1) ok1(2) b(5,6) c1(2,3) Q_def] unfolding d1 by blast
  have rd: "READ_CLUSTER < LONG_BAD \<and> max_cluster ?d < READ_CLUSTER \<longleftrightarrow> False"
  proof -
    have "unat (max_cluster ?d) = unat (dpb_size ?d)" using vol by (rule unat_max_cluster)
    then show ?thesis using c by (simp add: READ_CLUSTER_def word_less_nat_alt)
  qed
  have "link_fat E dp (of_nat c) READ_CLUSTER s = Some (Inr (entry_of ?d ?F c, s'))"
    using b(1) q(1) unfolding link_fat_def Let_def if_not_P[OF in_range[OF vol c]] if_not_P[OF fat_div_512[OF vol]] rd b(2) prod.case Q_def d1 by simp
  then show ?thesis using q(2,3) b(3,4) fat_step_trans by metis
qed

lemma link_fat_write:
  assumes rel: "reliable E 512 rd" and ok: "fat_ok rd V dp s os" and c: "2 \<le> c" "c \<le> unat (dpb_size (dpbs s dp))"
    and v: "v \<noteq> READ_CLUSTER" "v < LONG_BAD \<Longrightarrow> unat v \<le> unat (dpb_size (dpbs s dp))"
  shows "\<exists>s' os' n. link_fat E dp (of_nat c) v s = Some (Inr (0, s'))
      \<and> fat_step rd V dp s os s' os' (store_of (dpbs s dp) (fat_bytes rd s os dp) c v)
      \<and> dpbs s' = (dpbs s)(dp := (dpbs s dp)\<lparr>dpb_xnfreeclst := n\<rparr>)"
proof -
  let ?d = "dpbs s dp" and ?F = "fat_bytes rd s os dp"
  have vol: "fat_vol V ?d" using ok by (simp add: fat_ok_def)
  obtain x xs s1 k idx where b: "getFATblock E dp (fat_sector ?d k) s = Some (Some x, s1)"
     "fat_index ?d (of_nat c) = (idx, fat_sector ?d k)" "fat_step rd V dp s os s1 (x # xs) ?F" "dpbs s1 = dpbs s"
     "fat_buffer (dpbs s1 dp) k (bufs s1 x)" "\<not> bit (b_flag (bufs s1 x)) 0" "k < unat (dpb_fatsize ?d)"
     "if ISFAT12 ?d then idx = of_nat (3 * c mod 1024) \<and> k = 3 * c div 1024
        else idx = of_nat (c mod 256) \<and> k = c div 256"
    using link_fat_block[OF rel ok c refl] by blast
  have ok1: "fat_ok rd V dp s1 (x # xs)" "?F = fat_bytes rd s1 (x # xs) dp" using b(3) by (auto simp: fat_step_def)
  define Q where "Q v = (if ISFAT12 (dpbs s1 dp) then link12 E dp (of_nat c) v x idx (fat_sector (dpbs s1 dp) k) s1
         else if ISFAT16 (dpbs s1 dp) then Some (link16 v x idx s1)
         else if ISFAT32 (dpbs s1 dp) then Some (link32 v x idx s1) else Some (Inl 1, s1))" for v
  have d1: "dpbs s1 dp = ?d" using b(4) by simp
  have c1: "c \<le> unat (dpb_size (dpbs s1 dp))" "k < unat (dpb_fatsize (dpbs s1 dp))"
    "if ISFAT12 (dpbs s1 dp) then idx = of_nat (3 * c mod 1024) \<and> k = 3 * c div 1024
        else idx = of_nat (c mod 256) \<and> k = c div 256"
    unfolding d1 by (rule c(2), rule b(7), rule b(8))
  obtain was s2 os' where q: "Q v = Some (Inr was, s2)"
      "fat_step rd V dp s1 (x # xs) (mark_dirty x s2) os' (store_of ?d ?F c v)" "dpbs (mark_dirty x s2) = dpbs s1"
    using link_fat_format(2)[OF rel ok1(1) c(1) c1(1) ok1(2) b(5,6) c1(2,3) Q_def v(1)] unfolding d1 by blast
  have st: "fat_step rd V dp s os (mark_dirty x s2) os' (store_of ?d ?F c v)" using fat_step_trans q(2) b(3,4) by metis
  have nf: "\<not> ISFAT32 (dpbs (mark_dirty x s2) dp)" using vol q(3) b(4) by (simp add: fat_vol_def)
  define s3 where "s3 n = set_dpb dp (\<lambda>d. d\<lparr>dpb_xnfreeclst := n\<rparr>) (mark_dirty x s2)" for n
  obtain n where n: "count_free E dp v was (mark_dirty x s2) = Some (Inr (s3 n))"
    using count_free_eq[OF nf, of E v was] unfolding s3_def by blast
  have "\<not> (v < LONG_BAD \<and> max_cluster ?d < v)"
  proof -
    have "unat (max_cluster ?d) = unat (dpb_size ?d)" using vol by (rule unat_max_cluster)
    then show ?thesis using v(2) by (auto simp: word_less_nat_alt)
  qed
  then have L: "link_fat E dp (of_nat c) v s = Some (Inr (0, s3 n))"
    using b(1) q(1) n unfolding link_fat_def Let_def if_not_P[OF in_range[OF vol c]] if_not_P[OF fat_div_512[OF vol]] b(2) prod.case Q_def d1 by simp
  have "fat_ok rd V dp (mark_dirty x s2) os'" using st by (simp add: fat_step_def)
  then have C: "fat_ok rd V dp (s3 n) os' \<and> view 512 rd (s3 n) os' = view 512 rd (mark_dirty x s2) os'
      \<and> fat_bytes rd (s3 n) os' dp = fat_bytes rd (mark_dirty x s2) os' dp"
    using set_count_ok[of rd V dp "mark_dirty x s2" os' "s3 n" n] by (simp add: s3_def)
  then have "fat_step rd V dp s os (s3 n) os' (store_of ?d ?F c v)"
    using st by (simp add: fat_step_def data_kept_def)
  moreover have "dpbs (s3 n) = (dpbs s)(dp := ?d\<lparr>dpb_xnfreeclst := n\<rparr>)"
    using q(3) b(4) by (simp add: s3_def set_dpb_def)
  ultimately show ?thesis using L by blast
qed

end
