(* ===== verification/Clusters_Proofs.thy ===== *)
theory Clusters_Proofs
  imports Clusters FatTab_Proofs
begin

text \<open>
  The cluster operations on a sound volume, over the facts about \<open>link_fat\<close>: what the search for
  a free cluster finds, how a chain grows, and that freeing a chain ends and frees exactly it.
\<close>

section \<open>The table of a volume is a table of entries\<close>

lemma fat_codec_of: "fat_vol V d \<Longrightarrow> fat_codec (entry_of d) (store_of d) (unat (dpb_size d))"
proof
  fix F :: bytes and c :: nat and v :: "32 word"
  assume vol: "fat_vol V d" and v: "v \<le> of_nat (unat (dpb_size d)) \<or> v = LONG_LAST_CLUSTER"
  have sz: "unat (dpb_size d) < 65536" by (rule unat16)
  have i: "int (unat (dpb_size d)) = uint (dpb_size d)" by simp
  have vn: "unat v \<le> unat (dpb_size d) \<or> v = LONG_LAST_CLUSTER"
  proof -
    have "unat (of_nat (unat (dpb_size d)) :: 32 word) = unat (dpb_size d)" by (rule unat_small) (use sz in simp)
    then show ?thesis using v unfolding word_le_nat_alt by metis
  qed
  show "entry_of d (store_of d F c v) c = v"
  proof (cases "ISFAT12 d")
    case True
    then have "uint (dpb_size d) \<le> 4085" by (simp add: ISFAT12_def FAT_MAGIC_def)
    then have "unat (dpb_size d) \<le> 4085" using i by linarith
    then have "v \<le> of_nat 4085 \<or> v = LONG_LAST_CLUSTER" using vn unfolding word_le_nat_alt by auto
    then show ?thesis using True fat12.entry_same by (simp add: entry_of_def store_of_def)
  next
    case False
    then have "ISFAT16 d" using vol by (simp add: fat_vol_def)
    then have "uint (dpb_size d) \<le> 65525" by (simp add: ISFAT16_def FAT_MAGIC16_def)
    then have "unat (dpb_size d) \<le> 65525" using i by linarith
    then have "v \<le> of_nat 65525 \<or> v = LONG_LAST_CLUSTER" using vn unfolding word_le_nat_alt by auto
    then show ?thesis using False fat16.entry_same by (simp add: entry_of_def store_of_def)
  qed
next
  fix F :: bytes and c c' :: nat and v :: "32 word"
  assume "c \<noteq> c'"
  then show "entry_of d (store_of d F c v) c' = entry_of d F c'"
    by (simp add: entry_of_def store_of_def fat12.entry_other fat16.entry_other)
qed

section \<open>Reading along a chain\<close>

abbreviation in_vol :: "dpb \<Rightarrow> nat \<Rightarrow> bool" where
  "in_vol d c \<equiv> 2 \<le> c \<and> c \<le> unat (dpb_size d)"

definition file_chain :: "dpb \<Rightarrow> bytes \<Rightarrow> nat \<Rightarrow> nat list \<Rightarrow> bool" where
  "file_chain d F c ds \<longleftrightarrow> fat_chain (entry_of d F) c ds \<and> distinct (c # ds) \<and> (\<forall>x \<in> set (c # ds). in_vol d x)"

text \<open>A step may also change the count of free clusters and the hint, on which no entry depends.\<close>

definition with_hint :: "dpb \<Rightarrow> 32 word \<Rightarrow> 16 word \<Rightarrow> dpb" where
  "with_hint d n c = d\<lparr>dpb_xnfreeclst := n, dpb_cluster := c\<rparr>"

lemma with_hint_same [simp]:
  "ISFAT12 (with_hint d n c) = ISFAT12 d" "dpb_size (with_hint d n c) = dpb_size d"
  "ISFAT32 (with_hint d n c) = ISFAT32 d" "entry_of (with_hint d n c) = entry_of d"
  "store_of (with_hint d n c) = store_of d" "fat_blocks (with_hint d n c) = fat_blocks d"
  "with_hint (with_hint d n c) n' c' = with_hint d n' c'"
  "dpb_cluster (with_hint d n c) = c" "max_cluster (with_hint d n c) = max_cluster d"
  by (auto simp: with_hint_def ISFAT12_def ISFAT32_def entry_of_def store_of_def fun_eq_iff
      max_cluster_def fat_blocks_def fat_sector_def)

lemma file_chain_with_hint [simp]: "file_chain (with_hint d n c) = file_chain d"
  by (simp add: fun_eq_iff file_chain_def)

lemma with_hint_id: "with_hint d (dpb_xnfreeclst d) (dpb_cluster d) = d"
  by (simp add: with_hint_def)

definition fat_run :: "'w disk_reader \<Rightarrow> block_id set \<Rightarrow> 32 word \<Rightarrow> 'w diskio \<Rightarrow> 16 word list
    \<Rightarrow> 'w diskio \<Rightarrow> 16 word list \<Rightarrow> bytes \<Rightarrow> bool" where
  "fat_run rd V dp s os s' os' F \<longleftrightarrow> fat_step rd V dp s os s' os' F
     \<and> (\<exists>n c. dpbs s' = (dpbs s)(dp := with_hint (dpbs s dp) n c))"

lemma fat_run_step: "fat_step rd V dp s os s' os' F \<Longrightarrow> dpbs s' = dpbs s \<Longrightarrow> fat_run rd V dp s os s' os' F"
  unfolding fat_run_def by (metis fun_upd_triv with_hint_id)

lemma fat_run_refl: "fat_ok rd V dp s os \<Longrightarrow> fat_run rd V dp s os s os (fat_bytes rd s os dp)"
  by (rule fat_run_step) (simp_all add: fat_step_def data_kept_def)

lemma fat_run_trans:
  assumes "fat_run rd V dp s os s1 os1 F" "fat_run rd V dp s1 os1 s2 os2 G"
  shows "fat_run rd V dp s os s2 os2 G"
proof -
  obtain n c n' c' where d: "dpbs s1 = (dpbs s)(dp := with_hint (dpbs s dp) n c)"
     "dpbs s2 = (dpbs s1)(dp := with_hint (dpbs s1 dp) n' c')" using assms by (auto simp: fat_run_def)
  have "data_kept rd V (dpbs s dp) s os s2 os2"
    using assms d(1) data_kept_trans[of rd V "dpbs s dp" s os s1 os1 s2 os2]
    by (simp add: fat_run_def fat_step_def data_kept_def)
  then show ?thesis using assms d by (auto simp: fat_run_def fat_step_def)
qed

lemma fat_run_ok: "fat_run rd V dp s os s' os' F \<Longrightarrow> fat_ok rd V dp s' os' \<and> fat_bytes rd s' os' dp = F"
  by (simp add: fat_run_def fat_step_def)

lemma fat_run_same:
  assumes "fat_run rd V dp s os s' os' F"
  shows "entry_of (dpbs s' dp) = entry_of (dpbs s dp)" "store_of (dpbs s' dp) = store_of (dpbs s dp)"
    "dpb_size (dpbs s' dp) = dpb_size (dpbs s dp)" "file_chain (dpbs s' dp) = file_chain (dpbs s dp)"
    "max_cluster (dpbs s' dp) = max_cluster (dpbs s dp)" "ISFAT32 (dpbs s' dp) = ISFAT32 (dpbs s dp)"
  using assms by (auto simp: fat_run_def)

lemma set_hint_run:
  assumes "fat_ok rd V dp s os"
  shows "fat_run rd V dp s os (set_dpb dp (\<lambda>d. with_hint d n c) s) os (fat_bytes rd s os dp)"
proof -
  have "fat_step rd V dp s os (set_dpb dp (\<lambda>d. with_hint d n c) s) os (fat_bytes rd s os dp)"
    using set_hint_ok[OF assms refl, where n = n and c = c] by (simp add: fat_step_def with_hint_def data_kept_def)
  then show ?thesis by (auto simp: fat_run_def set_dpb_def)
qed

lemma unat_vol: "in_vol d c \<Longrightarrow> unat (of_nat c :: 32 word) = c"
  using unat16[of "dpb_size d"] by (simp add: unat_small)

lemma is_free_ok:
  assumes rel: "reliable E 512 rd" and ok: "fat_ok rd V dp s os" and c: "in_vol (dpbs s dp) c"
    and F: "F = fat_bytes rd s os dp"
  shows "\<exists>s' os'. is_free_cluster E dp (of_nat c) s = Some (Inr (entry_of (dpbs s dp) F c = 0, s'))
     \<and> fat_step rd V dp s os s' os' F \<and> dpbs s' = dpbs s"
  using link_fat_read[OF rel ok, of c] c F by (auto simp: is_free_cluster_def FREE_CLUSTER_def)

lemma small_bad: "in_vol d c \<Longrightarrow> (of_nat c :: 32 word) < LONG_BAD \<and> \<not> of_nat c < (2 :: 32 word) \<and> \<not> of_nat c \<le> (1 :: 32 word)
    \<and> of_nat c \<noteq> LONG_LAST_CLUSTER \<and> of_nat c \<noteq> (0 :: 32 word)"
proof -
  assume a: "in_vol d c"
  have "unat (of_nat c :: 32 word) = c" "c < 65536" using unat_vol[OF a] a unat16[of "dpb_size d"] by simp_all
  then show ?thesis using a
    by (auto simp: word_less_nat_alt word_le_nat_alt LONG_BAD_def LONG_LAST_CLUSTER_def word_unat_eq_iff)
qed

lemma next_cluster_chain:
  assumes rel: "reliable E 512 rd" and ok: "fat_ok rd V dp s os" and F: "F = fat_bytes rd s os dp"
    and ch: "file_chain (dpbs s dp) F c ds"
  shows "\<exists>s' os'. next_cluster E dp (of_nat c) s =
       Some (Inr (case ds of [] \<Rightarrow> LONG_LAST_CLUSTER | d # _ \<Rightarrow> of_nat d, s'))
     \<and> fat_step rd V dp s os s' os' F \<and> dpbs s' = dpbs s"
proof -
  let ?d = "dpbs s dp"
  have c: "in_vol ?d c" using ch by (simp add: file_chain_def)
  obtain s1 os1 where r: "link_fat E dp (of_nat c) READ_CLUSTER s = Some (Inr (entry_of ?d F c, s1))"
     "fat_step rd V dp s os s1 os1 F" "dpbs s1 = dpbs s"
    using link_fat_read[OF rel ok, of c] c F by auto
  show ?thesis
  proof (cases ds)
    case Nil
    then have "entry_of ?d F c = LONG_LAST_CLUSTER" using ch by (simp add: file_chain_def)
    moreover have "LONG_BAD \<le> LONG_LAST_CLUSTER" by (simp add: LONG_BAD_def LONG_LAST_CLUSTER_def)
    ultimately show ?thesis using r Nil by (auto simp: next_cluster_def)
  next
    case (Cons e es)
    then have e: "entry_of ?d F c = of_nat e" "in_vol ?d e" "fat_chain (entry_of ?d F) e es" "\<forall>x \<in> set es. in_vol ?d x"
      using ch by (auto simp: file_chain_def)
    have ok1: "fat_ok rd V dp s1 os1" "fat_bytes rd s1 os1 dp = F" using r(2) by (auto simp: fat_step_def)
    obtain s2 os2 where r2: "link_fat E dp (of_nat e) READ_CLUSTER s1 = Some (Inr (entry_of ?d F e, s2))"
       "fat_step rd V dp s1 os1 s2 os2 F" "dpbs s2 = dpbs s1"
      using link_fat_read[OF rel ok1(1), of e] e(2) r(3) ok1(2) by auto
    have vol: "fat_vol V ?d" using ok by (simp add: fat_ok_def)
    have "entry_of ?d F e = LONG_LAST_CLUSTER \<or> (\<exists>x. entry_of ?d F e = of_nat x \<and> in_vol ?d x)"
      using e(3,4) by (cases es) auto
    then have "\<not> (entry_of ?d F e < 2 \<or> entry_of ?d F e < LONG_BAD \<and> max_cluster (dpbs s2 dp) < entry_of ?d F e)"
    proof
      assume "\<exists>x. entry_of ?d F e = of_nat x \<and> in_vol ?d x"
      then obtain x where x: "entry_of ?d F e = of_nat x" "in_vol ?d x" by blast
      then have "\<not> max_cluster ?d < of_nat x"
        using unat_max_cluster[OF vol] unat_vol[OF x(2)] by (simp add: word_less_nat_alt)
      then show ?thesis using x small_bad[OF x(2)] r(3) r2(3) by simp
    qed (simp add: LONG_LAST_CLUSTER_def LONG_BAD_def)
    then have "next_cluster E dp (of_nat c) s = Some (Inr (of_nat e, s2))"
      using r(1) r2(1) e(1) small_bad[OF e(2)] by (auto simp: next_cluster_def)
    moreover have "fat_step rd V dp s os s2 os2 F" using fat_step_trans r(2,3) r2(2) by metis
    ultimately show ?thesis using Cons r(3) r2(3) by auto
  qed
qed

section \<open>The search for a free cluster\<close>

text \<open>How many clusters the search still visits from \<open>i\<close> before it is back at \<open>h\<close>.\<close>

definition ahead :: "nat \<Rightarrow> nat \<Rightarrow> nat \<Rightarrow> nat" where
  "ahead n h i = (if i < h then h - i else h + n - 1 - i)"

definition succ_cl :: "nat \<Rightarrow> nat \<Rightarrow> nat" where
  "succ_cl n i = (if n < i + 1 then 2 else i + 1)"

definition none_ahead :: "dpb \<Rightarrow> bytes \<Rightarrow> nat \<Rightarrow> nat \<Rightarrow> bool" where
  "none_ahead d F h i \<longleftrightarrow> (\<forall>j. in_vol d j \<longrightarrow> entry_of d F j = 0 \<longrightarrow> (if i < h then j < i \<or> h \<le> j else h \<le> j \<and> j < i))"

definition found :: "dpb \<Rightarrow> bytes \<Rightarrow> nat \<Rightarrow> nat \<Rightarrow> 32 word \<Rightarrow> 32 word \<Rightarrow> bool" where
  "found d F h i r c \<longleftrightarrow> (\<exists>k. in_vol d k \<and> entry_of d F k = 0 \<and> r = of_nat k \<and> c = of_nat k)
     \<or> r = LONG_LAST_CLUSTER \<and> c = 0 \<and> none_ahead d F h i"

lemma none_ahead_last:
  assumes "in_vol d i" "in_vol d h" "entry_of d F i \<noteq> 0" "succ_cl (unat (dpb_size d)) i = h"
  shows "none_ahead d F h i"
  unfolding none_ahead_def
proof (intro allI impI)
  fix j assume j: "in_vol d j" "entry_of d F j = 0"
  then have "j \<noteq> i" using assms(3) by blast
  then show "if i < h then j < i \<or> h \<le> j else h \<le> j \<and> j < i"
    using assms(1,2,4) j(1) by (auto simp: succ_cl_def split: if_splits)
qed

lemma none_ahead_step:
  assumes "in_vol d i" "in_vol d h" "entry_of d F i \<noteq> 0" "succ_cl (unat (dpb_size d)) i \<noteq> h"
    and rest: "none_ahead d F h (succ_cl (unat (dpb_size d)) i)"
  shows "none_ahead d F h i"
  unfolding none_ahead_def
proof (intro allI impI)
  fix j assume j: "in_vol d j" "entry_of d F j = 0"
  have "j \<noteq> i" using assms(3) j(2) by blast
  moreover note rest[unfolded none_ahead_def, rule_format, OF j]
  ultimately show "if i < h then j < i \<or> h \<le> j else h \<le> j \<and> j < i"
    using assms(1,2,4) j(1) by (auto simp: succ_cl_def split: if_splits)
qed

lemma find_fat_loop_ok:
  assumes rel: "reliable E 512 rd" and vol: "in_vol (dpbs s dp) h"
  shows "fat_ok rd V dp s os \<Longrightarrow> F = fat_bytes rd s os dp \<Longrightarrow> d = dpbs s dp \<Longrightarrow> in_vol d i \<Longrightarrow>
     \<exists>r c s' os'. find_fat_loop E dp (max_cluster d) (of_nat h) (of_nat i) s = Some (Inr (r, c, s'))
       \<and> fat_step rd V dp s os s' os' F \<and> dpbs s' = dpbs s \<and> found d F h i r c"
  using vol
proof (induction "ahead (unat (dpb_size (dpbs s dp))) h i" arbitrary: i s os rule: less_induct)
  case less
  let ?d = "dpbs s dp" and ?n = "unat (dpb_size d)"
  have v: "fat_vol V ?d" using less.prems(1) by (simp add: fat_ok_def)
  obtain s1 os1 where f: "is_free_cluster E dp (of_nat i) s = Some (Inr (entry_of ?d F i = 0, s1))"
     "fat_step rd V dp s os s1 os1 F" "dpbs s1 = dpbs s"
    using is_free_ok[OF rel less.prems(1) _ less.prems(2), of i] less.prems(3,4) by blast
  have ui: "unat (of_nat i + 1 :: 32 word) = i + 1"
    using less.prems(3,4) unat16[of "dpb_size d"] by (simp add: unat_word_ariths unat_small)
  have nx: "(if max_cluster d < of_nat i + 1 then 2 else of_nat i + 1 :: 32 word) = of_nat (succ_cl ?n i)"
    using ui unat_max_cluster[OF v] less.prems(3) by (auto simp: word_less_nat_alt succ_cl_def)
  have h: "in_vol d h" using less.prems(3,5) by simp
  have sv: "in_vol d (succ_cl ?n i)" using less.prems(4) by (auto simp: succ_cl_def)
  have eqh: "(of_nat (succ_cl ?n i) :: 32 word) = of_nat h \<longleftrightarrow> succ_cl ?n i = h"
    using unat_vol[OF sv] unat_vol[OF h] by metis
  show ?case
  proof (cases "entry_of ?d F i = 0")
    case True
    then have "find_fat_loop E dp (max_cluster d) (of_nat h) (of_nat i) s = Some (Inr (of_nat i, of_nat i, s1))"
      using f(1) by (subst find_fat_loop.simps) simp
    moreover have "found d F h i (of_nat i) (of_nat i)" using True less.prems(3,4) unfolding found_def by blast
    ultimately show ?thesis using f(2,3) by blast
  next
    case False
    then have used: "entry_of d F i \<noteq> 0" using less.prems(3) by simp
    show ?thesis
    proof (cases "succ_cl ?n i = h")
      case True
      then have "find_fat_loop E dp (max_cluster d) (of_nat h) (of_nat i) s = Some (Inr (LONG_LAST_CLUSTER, 0, s1))"
        using f(1) False nx eqh by (subst find_fat_loop.simps) (simp add: Let_def UNKNCLUSTER_def)
      moreover have "found d F h i LONG_LAST_CLUSTER 0"
        using none_ahead_last[OF less.prems(4) h used True] by (simp add: found_def)
      ultimately show ?thesis using f(2,3) by blast
    next
      case ne: False
      have ok1: "fat_ok rd V dp s1 os1" "F = fat_bytes rd s1 os1 dp" using f(2) by (auto simp: fat_step_def)
      have d1: "d = dpbs s1 dp" and h1: "in_vol (dpbs s1 dp) h" using less.prems(3,5) f(3) by simp_all
      have lt: "ahead (unat (dpb_size (dpbs s1 dp))) h (succ_cl ?n i) < ahead (unat (dpb_size ?d)) h i"
        using ne less.prems(3-5) f(3) by (auto simp: ahead_def succ_cl_def)
      obtain r c s2 os2 where r: "find_fat_loop E dp (max_cluster d) (of_nat h) (of_nat (succ_cl ?n i)) s1 = Some (Inr (r, c, s2))"
         "fat_step rd V dp s1 os1 s2 os2 F" "dpbs s2 = dpbs s1" "found d F h (succ_cl ?n i) r c"
        using less.hyps[OF lt ok1 d1 sv h1] by blast
      have "find_fat_loop E dp (max_cluster d) (of_nat h) (of_nat i) s = Some (Inr (r, c, s2))"
        using f(1) False nx eqh ne r(1) by (subst find_fat_loop.simps) (simp add: Let_def)
      moreover have "fat_step rd V dp s os s2 os2 F" using fat_step_trans f(2,3) r(2) by metis
      moreover have "found d F h i r c"
        using r(4) none_ahead_step[OF less.prems(4) h used ne] unfolding found_def by blast
      ultimately show ?thesis using r(3) f(3) by auto
    qed
  qed
qed

section \<open>A free cluster\<close>

definition hint_of :: "dpb \<Rightarrow> nat" where
  "hint_of d = (if dpb_cluster d \<noteq> 0 then unat (dpb_cluster d) else 2)"

lemma find_fat_free_ok:
  assumes rel: "reliable E 512 rd" and ok: "fat_ok rd V dp s os" and F: "F = fat_bytes rd s os dp"
    and h: "in_vol (dpbs s dp) (hint_of (dpbs s dp))"
  shows "\<exists>r s' os'. find_fat_free E dp s = Some (Inr (r, s')) \<and> fat_run rd V dp s os s' os' F
     \<and> in_vol (dpbs s' dp) (hint_of (dpbs s' dp))
     \<and> ((\<exists>k. in_vol (dpbs s dp) k \<and> entry_of (dpbs s dp) F k = 0 \<and> r = of_nat k)
        \<or> r = LONG_LAST_CLUSTER \<and> (\<forall>j. in_vol (dpbs s dp) j \<longrightarrow> entry_of (dpbs s dp) F j \<noteq> 0))"
proof -
  let ?d = "dpbs s dp"
  have vol: "fat_vol V ?d" and n32: "\<not> ISFAT32 ?d" using ok by (auto simp: fat_ok_def fat_vol_def)
  have idx: "(if dpb_cluster ?d \<noteq> 0 then ucast (dpb_cluster ?d) else 2 :: 32 word) = of_nat (hint_of ?d)"
    by (simp add: hint_of_def)
  obtain r c s1 os1 where f: "find_fat_loop E dp (max_cluster ?d) (of_nat (hint_of ?d)) (of_nat (hint_of ?d)) s
      = Some (Inr (r, c, s1))" "fat_step rd V dp s os s1 os1 F" "dpbs s1 = dpbs s"
      "found ?d F (hint_of ?d) (hint_of ?d) r c"
    using find_fat_loop_ok[OF rel h ok F refl h] by blast
  let ?s = "set_dpb dp (\<lambda>d. d\<lparr>dpb_cluster := ucast c\<rparr>) s1"
  have st: "?s = set_dpb dp (\<lambda>d. with_hint d (dpb_xnfreeclst ?d) (ucast c)) s1"
    using f(3) by (simp add: set_dpb_def with_hint_def)
  have e: "find_fat_free E dp s = Some (Inr (r, ?s))"
    using f(1) n32 idx by (simp add: find_fat_free_def Let_def)
  have r1: "fat_run rd V dp s os s1 os1 F" using f(2,3) by (rule fat_run_step)
  then have run: "fat_run rd V dp s os ?s os1 F"
    using set_hint_run[of rd V dp s1 os1] fat_run_ok[OF r1] fat_run_trans[OF r1] unfolding st by metis
  have hint: "hint_of (dpbs ?s dp) = (if ucast c \<noteq> (0 :: 16 word) then unat (ucast c :: 16 word) else 2)"
    by (simp add: hint_of_def set_dpb_def)
  have size: "dpb_size (dpbs ?s dp) = dpb_size ?d" using fat_run_same(3)[OF run] .
  show ?thesis
  proof (cases "\<exists>k. in_vol ?d k \<and> entry_of ?d F k = 0 \<and> r = of_nat k \<and> c = of_nat k")
    case True
    then obtain k where k: "in_vol ?d k" "entry_of ?d F k = 0" "r = of_nat k" "c = of_nat k" by blast
    have "k < 65536" using k(1) unat16[of "dpb_size ?d"] by simp
    then have "unat (ucast c :: 16 word) = k" using k(4) by (simp add: unsigned_of_nat take_bit_eq_mod)
    then have "hint_of (dpbs ?s dp) = k" using k(1) hint by (auto simp: unat_eq_0)
    then show ?thesis using e run k size by auto
  next
    case False
    then have n: "r = LONG_LAST_CLUSTER" "c = 0" "none_ahead ?d F (hint_of ?d) (hint_of ?d)"
      using f(4) unfolding found_def by blast+
    then have "\<forall>j. in_vol ?d j \<longrightarrow> entry_of ?d F j \<noteq> 0" unfolding none_ahead_def by (metis less_irrefl not_less)
    moreover have "hint_of (dpbs ?s dp) = 2" using hint n(2) by simp
    moreover have "in_vol ?d 2" using h by simp
    ultimately show ?thesis using e run n(1) size by auto
  qed
qed

section \<open>Growing a chain\<close>

lemma entry_store_of:
  assumes vol: "fat_vol V d" and v: "unat v \<le> unat (dpb_size d) \<or> v = LONG_LAST_CLUSTER"
  shows "entry_of d (store_of d F c v) = (entry_of d F)(c := v)"
proof -
  have "unat (of_nat (unat (dpb_size d)) :: 32 word) = unat (dpb_size d)"
    by (rule unat_small) (use unat16[of "dpb_size d"] in simp)
  then have "v \<le> of_nat (unat (dpb_size d)) \<or> v = LONG_LAST_CLUSTER" using v unfolding word_le_nat_alt by metis
  then show ?thesis by (rule fat_codec.entry_store[OF fat_codec_of[OF vol]])
qed

lemma fat_chain_last: "fat_chain e c ds \<Longrightarrow> e (last (c # ds)) = LONG_LAST_CLUSTER"
  by (induction e c ds rule: fat_chain.induct) auto

lemma fat_chain_used:
  "fat_chain e c ds \<Longrightarrow> (\<forall>x \<in> set (c # ds). in_vol d x) \<Longrightarrow> x \<in> set (c # ds) \<Longrightarrow> e x \<noteq> 0"
proof (induction e c ds rule: fat_chain.induct)
  case (2 e c y ys)
  then have "(of_nat y :: 32 word) \<noteq> 0" using small_bad[of y d] by simp
  then show ?case using 2 by auto
qed (simp add: LONG_LAST_CLUSTER_def)

lemma file_chain_used: "file_chain d F c ds \<Longrightarrow> x \<in> set (c # ds) \<Longrightarrow> entry_of d F x \<noteq> 0"
  using fat_chain_used[of "entry_of d F" c ds, where d = d and x = x] by (auto simp: file_chain_def)

lemma file_chain_frame:
  assumes "file_chain d F c ds" "\<forall>x \<in> set (c # ds). entry_of d G x = entry_of d F x"
  shows "file_chain d G c ds"
  using assms fat_chain_cong[OF assms(2)] by (simp add: file_chain_def)

lemma file_chain_append:
  assumes vol: "fat_vol V d" and ch: "file_chain d F c ds" and k: "in_vol d k" "entry_of d F k = 0"
  shows "file_chain d (store_of d (store_of d F k LONG_LAST_CLUSTER) (last (c # ds)) (of_nat k)) c (ds @ [k])"
proof -
  have nk: "k \<notin> set (c # ds)" using file_chain_used[OF ch] k(2) by blast
  have "(of_nat k :: 32 word) \<le> of_nat (unat (dpb_size d))"
    using k(1) unat_vol[OF k(1)] unat_small[of "unat (dpb_size d)"] unat16[of "dpb_size d"]
    unfolding word_le_nat_alt by simp
  then have "fat_chain (entry_of d (store_of d (store_of d F k LONG_LAST_CLUSTER) (last (c # ds)) (of_nat k))) c (ds @ [k])"
    using fat_codec.append_cluster[OF fat_codec_of[OF vol], of F c ds k] ch nk by (simp add: file_chain_def)
  then show ?thesis using ch nk k(1) by (auto simp: file_chain_def)
qed

lemma link_run:
  assumes rel: "reliable E 512 rd" and ok: "fat_ok rd V dp s os" and F: "F = fat_bytes rd s os dp"
    and c: "in_vol (dpbs s dp) c"
    and v: "v \<noteq> READ_CLUSTER" "unat v \<le> unat (dpb_size (dpbs s dp)) \<or> v = LONG_LAST_CLUSTER"
  shows "\<exists>s' os'. link_fat E dp (of_nat c) v s = Some (Inr (0, s'))
     \<and> fat_run rd V dp s os s' os' (store_of (dpbs s dp) F c v)
     \<and> dpb_cluster (dpbs s' dp) = dpb_cluster (dpbs s dp)"
proof -
  have "v < LONG_BAD \<Longrightarrow> unat v \<le> unat (dpb_size (dpbs s dp))"
    using v(2) by (auto simp: LONG_BAD_def LONG_LAST_CLUSTER_def)
  then obtain s' os' n where b: "link_fat E dp (of_nat c) v s = Some (Inr (0, s'))"
     "fat_step rd V dp s os s' os' (store_of (dpbs s dp) F c v)"
     "dpbs s' = (dpbs s)(dp := (dpbs s dp)\<lparr>dpb_xnfreeclst := n\<rparr>)"
    using link_fat_write[OF rel ok _ _ v(1)] c F by blast
  have "dpbs s' = (dpbs s)(dp := with_hint (dpbs s dp) n (dpb_cluster (dpbs s dp)))"
    using b(3) by (simp add: with_hint_def)
  then show ?thesis using b(1,2) unfolding fat_run_def by fastforce
qed

lemma next_run:
  assumes "reliable E 512 rd" "fat_ok rd V dp s os" "F = fat_bytes rd s os dp" "file_chain (dpbs s dp) F c ds"
  shows "\<exists>s' os'. next_cluster E dp (of_nat c) s =
       Some (Inr (case ds of [] \<Rightarrow> LONG_LAST_CLUSTER | d # _ \<Rightarrow> of_nat d, s'))
     \<and> fat_run rd V dp s os s' os' F \<and> dpbs s' = dpbs s"
  using next_cluster_chain[OF assms] fat_run_step by blast

definition grown :: "dpb \<Rightarrow> bytes \<Rightarrow> nat \<Rightarrow> nat \<Rightarrow> bytes" where
  "grown d F l k = store_of d (store_of d F k LONG_LAST_CLUSTER) l (of_nat k)"

lemma extend_file_ok:
  assumes rel: "reliable E 512 rd" and ok: "fat_ok rd V dp s os" and F: "F = fat_bytes rd s os dp"
    and h: "in_vol (dpbs s dp) (hint_of (dpbs s dp))" and ch: "file_chain (dpbs s dp) F c ds"
    and f: "f_dpb f = dp" "f_cluster f = of_nat (last (c # ds))"
  shows "\<exists>r s' os' F'. extend_file E f s = Some (Inr (r, f, s')) \<and> fat_run rd V dp s os s' os' F'
     \<and> in_vol (dpbs s' dp) (hint_of (dpbs s' dp))
     \<and> ((\<exists>k. in_vol (dpbs s dp) k \<and> entry_of (dpbs s dp) F k = 0 \<and> r = of_nat k
            \<and> F' = grown (dpbs s dp) F (last (c # ds)) k)
        \<or> r = LONG_LAST_CLUSTER \<and> F' = F \<and> (\<forall>j. in_vol (dpbs s dp) j \<longrightarrow> entry_of (dpbs s dp) F j \<noteq> 0))"
proof -
  let ?d = "dpbs s dp" and ?l = "last (c # ds)"
  have vol: "fat_vol V ?d" using ok by (simp add: fat_ok_def)
  have "?l \<in> set (c # ds)" by (rule last_in_set) simp
  then have l: "in_vol ?d ?l" "entry_of ?d F ?l = LONG_LAST_CLUSTER" "entry_of ?d F ?l \<noteq> 0"
    using ch fat_chain_last[of "entry_of ?d F" c ds] file_chain_used[OF ch] by (auto simp: file_chain_def)
  obtain r s1 os1 where a: "find_fat_free E dp s = Some (Inr (r, s1))" "fat_run rd V dp s os s1 os1 F"
     "in_vol (dpbs s1 dp) (hint_of (dpbs s1 dp))"
     "(\<exists>k. in_vol ?d k \<and> entry_of ?d F k = 0 \<and> r = of_nat k)
        \<or> r = LONG_LAST_CLUSTER \<and> (\<forall>j. in_vol ?d j \<longrightarrow> entry_of ?d F j \<noteq> 0)"
    using find_fat_free_ok[OF rel ok F h] by blast
  show ?thesis
  proof (cases "r = LONG_LAST_CLUSTER")
    case True
    have "\<not> (\<exists>k. in_vol ?d k \<and> entry_of ?d F k = 0 \<and> r = of_nat k)" using True small_bad by fastforce
    moreover have "extend_file E f s = Some (Inr (r, f, s1))" using a(1) f(1) True by (simp add: extend_file_def)
    ultimately show ?thesis using a True by blast
  next
    case False
    then obtain k where k: "in_vol ?d k" "entry_of ?d F k = 0" "r = of_nat k" using a(4) by blast
    have kl: "k \<noteq> ?l" using l(3) k(2) by blast
    have ok1: "fat_ok rd V dp s1 os1" "fat_bytes rd s1 os1 dp = F" using fat_run_ok[OF a(2)] by auto
    note same1 = fat_run_same[OF a(2)]
    obtain s2 os2 where b: "link_fat E dp (of_nat k) LONG_LAST_CLUSTER s1 = Some (Inr (0, s2))"
      "fat_run rd V dp s1 os1 s2 os2 (store_of ?d F k LONG_LAST_CLUSTER)"
      "dpb_cluster (dpbs s2 dp) = dpb_cluster (dpbs s1 dp)"
      using link_run[OF rel ok1(1) ok1(2)[symmetric], of k LONG_LAST_CLUSTER] k(1) same1
      by (auto simp: LONG_LAST_CLUSTER_def READ_CLUSTER_def)
    let ?G = "store_of ?d F k LONG_LAST_CLUSTER"
    have ok2: "fat_ok rd V dp s2 os2" "fat_bytes rd s2 os2 dp = ?G" using fat_run_ok[OF b(2)] by auto
    note same2 = fat_run_same[OF b(2), unfolded same1]
    have eG: "entry_of ?d ?G = (entry_of ?d F)(k := LONG_LAST_CLUSTER)" using entry_store_of[OF vol] by blast
    have one: "file_chain (dpbs s2 dp) ?G ?l []" using l kl same2 by (simp add: file_chain_def eG)
    obtain s3 os3 where c: "next_cluster E dp (of_nat ?l) s2 = Some (Inr (LONG_LAST_CLUSTER, s3))"
      "fat_run rd V dp s2 os2 s3 os3 ?G" "dpbs s3 = dpbs s2"
      using next_run[OF rel ok2(1) ok2(2)[symmetric] one] by auto
    have ok3: "fat_ok rd V dp s3 os3" "fat_bytes rd s3 os3 dp = ?G" using fat_run_ok[OF c(2)] by auto
    have kv: "(of_nat k :: 32 word) \<noteq> READ_CLUSTER" "unat (of_nat k :: 32 word) \<le> unat (dpb_size (dpbs s3 dp))"
      using small_bad[OF k(1)] unat_vol[OF k(1)] k(1) c(3) same2 by (auto simp: READ_CLUSTER_def)
    obtain s4 os4 where e: "link_fat E dp (of_nat ?l) (of_nat k) s3 = Some (Inr (0, s4))"
      "fat_run rd V dp s3 os3 s4 os4 (grown ?d F ?l k)" "dpb_cluster (dpbs s4 dp) = dpb_cluster (dpbs s3 dp)"
      using link_run[OF rel ok3(1) ok3(2)[symmetric] _ kv(1), of ?l] kv(2) l(1) c(3) same2 by (auto simp: grown_def)
    have "(of_nat ?l :: 32 word) \<noteq> FREE_CLUSTER" using small_bad[OF l(1)] by (simp add: FREE_CLUSTER_def)
    then have E: "extend_file E f s = Some (Inr (of_nat k, f, s4))"
      using a(1) b(1) c(1) e(1) f False k(3) by (simp add: extend_file_def)
    have run: "fat_run rd V dp s os s4 os4 (grown ?d F ?l k)"
      by (rule fat_run_trans[OF fat_run_trans[OF fat_run_trans[OF a(2) b(2)] c(2)] e(2)])
    have "hint_of (dpbs s4 dp) = hint_of (dpbs s1 dp)" using e(3) c(3) b(3) by (simp add: hint_of_def)
    then have "in_vol (dpbs s4 dp) (hint_of (dpbs s4 dp))" using fat_run_same(3)[OF run] same1(3) a(3) by simp
    then show ?thesis using E run k by blast
  qed
qed

text \<open>The first cluster of an empty file.\<close>

lemma extend_empty_ok:
  assumes rel: "reliable E 512 rd" and ok: "fat_ok rd V dp s os" and F: "F = fat_bytes rd s os dp"
    and h: "in_vol (dpbs s dp) (hint_of (dpbs s dp))"
    and f: "f_dpb f = dp" "f_cluster f = FREE_CLUSTER"
    and k: "in_vol (dpbs s dp) j" "entry_of (dpbs s dp) F j = 0"
  shows "\<exists>k s' os'. extend_file E f s = Some (Inr (of_nat k, f\<lparr>f_dir := setdstart (of_nat k) (f_dir f)\<rparr>, s'))
     \<and> fat_run rd V dp s os s' os' (store_of (dpbs s dp) F k LONG_LAST_CLUSTER)
     \<and> in_vol (dpbs s' dp) (hint_of (dpbs s' dp)) \<and> in_vol (dpbs s dp) k \<and> entry_of (dpbs s dp) F k = 0"
proof -
  let ?d = "dpbs s dp"
  obtain k s1 os1 where a: "find_fat_free E dp s = Some (Inr (of_nat k, s1))" "fat_run rd V dp s os s1 os1 F"
     "in_vol (dpbs s1 dp) (hint_of (dpbs s1 dp))" "in_vol ?d k" "entry_of ?d F k = 0"
    using find_fat_free_ok[OF rel ok F h] k by blast
  have ok1: "fat_ok rd V dp s1 os1" "fat_bytes rd s1 os1 dp = F" using fat_run_ok[OF a(2)] by auto
  note same1 = fat_run_same[OF a(2)]
  obtain s2 os2 where b: "link_fat E dp (of_nat k) LONG_LAST_CLUSTER s1 = Some (Inr (0, s2))"
      "fat_run rd V dp s1 os1 s2 os2 (store_of ?d F k LONG_LAST_CLUSTER)"
      "dpb_cluster (dpbs s2 dp) = dpb_cluster (dpbs s1 dp)"
    using link_run[OF rel ok1(1) ok1(2)[symmetric], of k LONG_LAST_CLUSTER] a(4) same1
    by (auto simp: LONG_LAST_CLUSTER_def READ_CLUSTER_def)
  have run: "fat_run rd V dp s os s2 os2 (store_of ?d F k LONG_LAST_CLUSTER)" by (rule fat_run_trans[OF a(2) b(2)])
  have "hint_of (dpbs s2 dp) = hint_of (dpbs s1 dp)" using b(3) by (simp add: hint_of_def)
  then have h2: "in_vol (dpbs s2 dp) (hint_of (dpbs s2 dp))" using fat_run_same(3)[OF run] same1(3) a(3) by simp
  have "(of_nat k :: 32 word) \<noteq> LONG_LAST_CLUSTER" using small_bad[OF a(4)] by blast
  then have "extend_file E f s = Some (Inr (of_nat k, f\<lparr>f_dir := setdstart (of_nat k) (f_dir f)\<rparr>, s2))"
    using a(1) b(1) f by (simp add: extend_file_def)
  then show ?thesis using run h2 a(4,5) by blast
qed

section \<open>Freeing a chain\<close>

definition wiped :: "dpb \<Rightarrow> bytes \<Rightarrow> nat list \<Rightarrow> bytes" where
  "wiped d F cs = fold (\<lambda>c G. store_of d G c FREE_CLUSTER) cs F"

lemma entry_wiped:
  assumes "fat_vol V d"
  shows "entry_of d (wiped d F cs) = (\<lambda>x. if x \<in> set cs then 0 else entry_of d F x)"
proof (induction cs arbitrary: F)
  case (Cons c cs)
  have "entry_of d (store_of d F c FREE_CLUSTER) = (entry_of d F)(c := 0)"
    using entry_store_of[OF assms, of FREE_CLUSTER F c] by (simp add: FREE_CLUSTER_def)
  then show ?case using Cons by (auto simp: wiped_def fun_eq_iff)
qed (simp add: wiped_def)

lemma lower_hint_run:
  assumes ok: "fat_ok rd V dp s os" and st: "in_vol (dpbs s dp) c" and h: "in_vol (dpbs s dp) (hint_of (dpbs s dp))"
  shows "fat_run rd V dp s os (set_dpb dp (lower_hint (of_nat c)) s) os (fat_bytes rd s os dp)
    \<and> in_vol (dpbs (set_dpb dp (lower_hint (of_nat c)) s) dp) (hint_of (dpbs (set_dpb dp (lower_hint (of_nat c)) s) dp))"
proof -
  let ?d = "dpbs s dp" and ?c = "ucast (of_nat c :: 32 word) :: 16 word"
  have n: "\<not> ISFAT32 ?d" using ok by (simp add: fat_ok_def fat_vol_def)
  define h' where "h' = (if dpb_cluster ?d = 0 \<or> ?c < dpb_cluster ?d then ?c else dpb_cluster ?d)"
  have "lower_hint (of_nat c) ?d = with_hint ?d (dpb_xnfreeclst ?d) h'"
    using n by (simp add: lower_hint_def h'_def with_hint_def)
  then have s: "set_dpb dp (lower_hint (of_nat c)) s = set_dpb dp (\<lambda>d. with_hint d (dpb_xnfreeclst ?d) h') s"
    by (simp add: set_dpb_def)
  have "c < 65536" using st unat16[of "dpb_size ?d"] by simp
  then have "unat ?c = c" by (simp add: unsigned_of_nat take_bit_eq_mod)
  then have "in_vol ?d (hint_of (with_hint ?d (dpb_xnfreeclst ?d) h'))"
    using st h by (auto simp: h'_def hint_of_def)
  then show ?thesis unfolding s using set_hint_run[OF ok] by (simp add: set_dpb_def)
qed

lemma wipe_step:
  assumes rel: "reliable E 512 rd" and ok: "fat_ok rd V dp s os" and F: "F = fat_bytes rd s os dp"
    and h: "in_vol (dpbs s dp) (hint_of (dpbs s dp))" and ch: "file_chain (dpbs s dp) F c ds"
  shows "\<exists>s' os'. wipe_out_clusters E dp (of_nat c) s =
       wipe_out_clusters E dp (case ds of [] \<Rightarrow> LONG_LAST_CLUSTER | e # _ \<Rightarrow> of_nat e) s'
     \<and> fat_run rd V dp s os s' os' (wiped (dpbs s dp) F [c]) \<and> in_vol (dpbs s' dp) (hint_of (dpbs s' dp))"
proof -
  let ?d = "dpbs s dp" and ?n = "case ds of [] \<Rightarrow> LONG_LAST_CLUSTER | e # _ \<Rightarrow> (of_nat e :: 32 word)"
  have c: "in_vol ?d c" using ch by (simp add: file_chain_def)
  obtain s1 os1 where a: "next_cluster E dp (of_nat c) s = Some (Inr (?n, s1))"
     "fat_run rd V dp s os s1 os1 F" "dpbs s1 = dpbs s" using next_run[OF rel ok F ch] by blast
  have ok1: "fat_ok rd V dp s1 os1" "fat_bytes rd s1 os1 dp = F" using fat_run_ok[OF a(2)] by auto
  have n: "\<not> ?n \<le> 1"
    using ch small_bad[of _ ?d] by (auto simp: file_chain_def LONG_LAST_CLUSTER_def not_le split: list.split)
  have c1: "in_vol (dpbs s1 dp) c" using c a(3) by simp
  obtain s2 os2 where b: "link_fat E dp (of_nat c) FREE_CLUSTER s1 = Some (Inr (0, s2))"
     "fat_run rd V dp s1 os1 s2 os2 (store_of ?d F c FREE_CLUSTER)" "dpb_cluster (dpbs s2 dp) = dpb_cluster ?d"
    using link_run[OF rel ok1(1) ok1(2)[symmetric] c1, of FREE_CLUSTER] a(3)
    by (auto simp: FREE_CLUSTER_def READ_CLUSTER_def)
  have ok2: "fat_ok rd V dp s2 os2" "fat_bytes rd s2 os2 dp = store_of ?d F c FREE_CLUSTER" using fat_run_ok[OF b(2)] by auto
  have hh: "hint_of (dpbs s2 dp) = hint_of ?d" by (simp add: hint_of_def b(3))
  have d2: "in_vol (dpbs s2 dp) c" "in_vol (dpbs s2 dp) (hint_of (dpbs s2 dp))"
    using c h hh fat_run_same(3)[OF b(2)] a(3) by simp_all
  let ?s = "set_dpb dp (lower_hint (of_nat c)) s2"
  have r: "fat_run rd V dp s2 os2 ?s os2 (store_of ?d F c FREE_CLUSTER)" "in_vol (dpbs ?s dp) (hint_of (dpbs ?s dp))"
    using lower_hint_run[OF ok2(1) d2] ok2(2) by auto
  have "fat_run rd V dp s os ?s os2 (wiped ?d F [c])"
    using fat_run_trans[OF fat_run_trans[OF a(2) b(2)] r(1)] by (simp add: wiped_def)
  moreover have "wipe_out_clusters E dp (of_nat c) s = wipe_out_clusters E dp ?n ?s"
    using a(1) b(1) n small_bad[OF c] by (subst wipe_out_clusters.simps) simp
  ultimately show ?thesis using r(2) by blast
qed

lemma wipe_out_clusters_ok:
  assumes rel: "reliable E 512 rd"
  shows "fat_ok rd V dp s os \<Longrightarrow> F = fat_bytes rd s os dp \<Longrightarrow> in_vol (dpbs s dp) (hint_of (dpbs s dp)) \<Longrightarrow>
     file_chain (dpbs s dp) F c ds \<Longrightarrow>
     \<exists>s' os'. wipe_out_clusters E dp (of_nat c) s = Some (Inr s')
       \<and> fat_run rd V dp s os s' os' (wiped (dpbs s dp) F (c # ds)) \<and> in_vol (dpbs s' dp) (hint_of (dpbs s' dp))"
proof (induction ds arbitrary: c s os F)
  case (Nil c s os F)
  obtain s1 os1 where a: "wipe_out_clusters E dp (of_nat c) s = wipe_out_clusters E dp LONG_LAST_CLUSTER s1"
     "fat_run rd V dp s os s1 os1 (wiped (dpbs s dp) F [c])" "in_vol (dpbs s1 dp) (hint_of (dpbs s1 dp))"
    using wipe_step[OF rel Nil] by auto
  have "\<not> ISFAT32 (dpbs s1 dp)" using fat_run_ok[OF a(2)] by (simp add: fat_ok_def fat_vol_def)
  then have "wipe_out_clusters E dp LONG_LAST_CLUSTER s1 = Some (Inr s1)" by (subst wipe_out_clusters.simps) simp
  then show ?case using a by auto
next
  case (Cons e es c s os F)
  let ?d = "dpbs s dp"
  obtain s1 os1 where a: "wipe_out_clusters E dp (of_nat c) s = wipe_out_clusters E dp (of_nat e) s1"
     "fat_run rd V dp s os s1 os1 (wiped ?d F [c])" "in_vol (dpbs s1 dp) (hint_of (dpbs s1 dp))"
    using wipe_step[OF rel Cons.prems] by auto
  note same = fat_run_same[OF a(2)]
  have vol: "fat_vol V ?d" using Cons.prems(1) by (simp add: fat_ok_def)
  have "file_chain ?d F e es" using Cons.prems(4) by (auto simp: file_chain_def)
  then have ch: "file_chain (dpbs s1 dp) (wiped ?d F [c]) e es"
    unfolding same(4) by (rule file_chain_frame) (use Cons.prems(4) in \<open>auto simp: entry_wiped[OF vol] file_chain_def\<close>)
  obtain s2 os2 where b: "wipe_out_clusters E dp (of_nat e) s1 = Some (Inr s2)"
     "fat_run rd V dp s1 os1 s2 os2 (wiped (dpbs s1 dp) (wiped ?d F [c]) (e # es))"
     "in_vol (dpbs s2 dp) (hint_of (dpbs s2 dp))"
    using Cons.IH[OF conjunct1[OF fat_run_ok[OF a(2)]] conjunct2[OF fat_run_ok[OF a(2)], symmetric] a(3) ch] by blast
  have "wiped (dpbs s1 dp) (wiped ?d F [c]) (e # es) = wiped ?d F (c # e # es)" using same(2) by (simp add: wiped_def)
  then have "fat_run rd V dp s os s2 os2 (wiped ?d F (c # e # es))" using fat_run_trans[OF a(2) b(2)] by simp
  then show ?case using a(1) b(1,3) by auto
qed

section \<open>Counting the free clusters\<close>

definition free_below :: "dpb \<Rightarrow> bytes \<Rightarrow> nat \<Rightarrow> nat set" where
  "free_below d F i = {j. in_vol d j \<and> j < i \<and> entry_of d F j = 0}"

lemma free_below_finite [simp]: "finite (free_below d F i)"
  by (rule finite_subset[of _ "{..<i}"]) (auto simp: free_below_def)

lemma free_below_2 [simp]: "free_below d F 2 = {}"
  by (auto simp: free_below_def)

lemma free_below_Suc:
  "in_vol d i \<Longrightarrow> free_below d F (Suc i) = (if entry_of d F i = 0 then insert i (free_below d F i) else free_below d F i)"
  by (auto simp: free_below_def less_Suc_eq)

lemma free_below_card: "in_vol d i \<Longrightarrow> card (free_below d F (Suc i)) = card (free_below d F i) + (if entry_of d F i = 0 then 1 else 0)"
proof -
  assume "in_vol d i"
  moreover have "i \<notin> free_below d F i" by (simp add: free_below_def)
  ultimately show ?thesis by (simp add: free_below_Suc)
qed

lemma ucast16_of_nat: "(ucast (of_nat n :: 32 word) :: 16 word) = of_nat n"
  by (rule bit_word_eqI) (simp add: bit_simps)

lemma nfreeclst_set: "dpb_nfreeclst (set_nfreeclst v d) = v"
proof -
  have m: "(0xffff0000 :: 32 word) = NOT (mask 16)" by (simp add: mask_eq_exp_minus_1)
  show ?thesis unfolding dpb_nfreeclst_def set_nfreeclst_def m
    by (auto intro!: bit_word_eqI simp: bit_simps)
qed

lemma is_free_run:
  assumes "reliable E 512 rd" "fat_ok rd V dp s os" "in_vol (dpbs s dp) c" "F = fat_bytes rd s os dp"
  shows "\<exists>s' os'. is_free_cluster E dp (of_nat c) s = Some (Inr (entry_of (dpbs s dp) F c = 0, s'))
     \<and> fat_run rd V dp s os s' os' F \<and> dpbs s' = dpbs s"
  using is_free_ok[OF assms] fat_run_step by blast

lemma count_loop_ok:
  assumes rel: "reliable E 512 rd"
  shows "fat_ok rd V dp s os \<Longrightarrow> F = fat_bytes rd s os dp \<Longrightarrow> d = dpbs s dp \<Longrightarrow> 2 \<le> i \<Longrightarrow> i \<le> Suc (unat (dpb_size d)) \<Longrightarrow>
     1 \<le> unat (dpb_size d) \<Longrightarrow> cnt = of_nat (card (free_below d F i)) \<Longrightarrow>
     \<exists>s' os'. count_loop E dp (max_cluster d) (of_nat i) cnt s =
          Some (Inr (of_nat (card (free_below d F (Suc (unat (dpb_size d))))), s'))
        \<and> fat_run rd V dp s os s' os' F"
proof (induction "Suc (unat (dpb_size d)) - i" arbitrary: i s os cnt d)
  case 0
  let ?n = "unat (dpb_size d)"
  have v: "fat_vol V d" using "0.prems"(1,3) by (simp add: fat_ok_def)
  have i: "i = Suc ?n" using "0.hyps" "0.prems"(5) by simp
  have "unat (of_nat i :: 32 word) = Suc ?n" using i unat16[of "dpb_size d"] by (simp only: unat_small)
  then have "max_cluster d < of_nat i" using unat_max_cluster[OF v] by (simp add: word_less_nat_alt)
  then have "count_loop E dp (max_cluster d) (of_nat i) cnt s = Some (Inr (cnt, s))"
    by (subst count_loop.simps) simp
  then show ?case using "0.prems" i fat_run_refl by metis
next
  case (Suc x)
  let ?n = "unat (dpb_size d)"
  have v: "fat_vol V d" using Suc.prems(1,3) by (simp add: fat_ok_def)
  have iv: "in_vol (dpbs s dp) i" "in_vol d i" using Suc.hyps(2) Suc.prems(3,4) by auto
  have i32: "unat (of_nat i :: 32 word) = i" by (rule unat_vol[OF iv(1)])
  then have le: "\<not> max_cluster d < of_nat i" using unat_max_cluster[OF v] iv by (simp add: word_less_nat_alt)
  obtain s1 os1 where f: "is_free_cluster E dp (of_nat i) s = Some (Inr (entry_of d F i = 0, s1))"
     "fat_run rd V dp s os s1 os1 F" "dpbs s1 = dpbs s"
    using is_free_run[OF rel Suc.prems(1) iv(1) Suc.prems(2)] Suc.prems(3) by blast
  have n32: "\<not> ISFAT32 (dpbs s1 dp)" using fat_run_ok[OF f(2)] by (simp add: fat_ok_def fat_vol_def)
  define s2 where "s2 = (if entry_of d F i = 0 \<and> cnt = 0 then set_dpb dp (\<lambda>d. d\<lparr>dpb_cluster := ucast (of_nat i :: 32 word)\<rparr>) s1 else s1)"
  have "s2 = s1 \<or> s2 = set_dpb dp (\<lambda>d. with_hint d (dpb_xnfreeclst (dpbs s1 dp)) (ucast (of_nat i :: 32 word))) s1"
    by (simp add: s2_def set_dpb_def with_hint_def)
  then have "fat_run rd V dp s1 os1 s2 os1 F"
    using set_hint_run fat_run_refl fat_run_ok[OF f(2)] by metis
  then have run: "fat_run rd V dp s os s2 os1 F" by (rule fat_run_trans[OF f(2)])
  note same = fat_run_same[OF run]
  let ?cnt = "cnt + (if entry_of d F i = 0 then 1 else 0)"
  have cnt: "?cnt = of_nat (card (free_below (dpbs s2 dp) F (Suc i)))"
    using Suc.prems(3,7) free_below_card[OF iv(2), of F] same by (simp add: free_below_def)
  have step: "count_loop E dp (max_cluster d) (of_nat i) cnt s = count_loop E dp (max_cluster d) (of_nat (Suc i)) ?cnt s2"
    using f(1) le n32 by (subst count_loop.simps) (auto simp: s2_def Let_def add.commute set_dpb_def)
  have "Suc (unat (dpb_size (dpbs s2 dp))) - Suc i = x" using Suc.hyps(2) same(3) Suc.prems(3) by simp
  then obtain s3 os3 where r: "count_loop E dp (max_cluster (dpbs s2 dp)) (of_nat (Suc i)) ?cnt s2 =
       Some (Inr (of_nat (card (free_below (dpbs s2 dp) F (Suc (unat (dpb_size (dpbs s2 dp)))))), s3))"
     "fat_run rd V dp s2 os1 s3 os3 F"
    using Suc.hyps(1)[of "dpbs s2 dp" "Suc i" s2 os1 ?cnt] fat_run_ok[OF run] cnt iv same(3) Suc.prems(3,6) by auto
  have "free_below (dpbs s2 dp) F = free_below d F" using same Suc.prems(3) by (simp add: free_below_def fun_eq_iff)
  then show ?case using step r fat_run_trans[OF run r(2)] same Suc.prems(3) by auto
qed

lemma dos_free_ok:
  assumes rel: "reliable E 512 rd" and ok: "fat_ok rd V dp s os" and F: "F = fat_bytes rd s os dp"
    and unk: "dpb_nfreeclst (dpbs s dp) = UNKNCLSTFREE" and n: "1 \<le> unat (dpb_size (dpbs s dp))"
  shows "\<exists>s' os'. dos_free E dp s = Some (Inr (of_nat (card {j. in_vol (dpbs s dp) j \<and> entry_of (dpbs s dp) F j = 0}), s'))
     \<and> fat_run rd V dp s os s' os' F
     \<and> dpb_nfreeclst (dpbs s' dp) = of_nat (card {j. in_vol (dpbs s dp) j \<and> entry_of (dpbs s dp) F j = 0})"
proof -
  let ?d = "dpbs s dp" and ?A = "{j. in_vol (dpbs s dp) j \<and> entry_of (dpbs s dp) F j = 0}"
  have n32: "\<not> ISFAT32 ?d" using ok by (simp add: fat_ok_def fat_vol_def)
  have A: "free_below ?d F (Suc (unat (dpb_size ?d))) = ?A" by (auto simp: free_below_def)
  obtain s1 os1 where c: "count_loop E dp (max_cluster ?d) 2 0 s = Some (Inr (of_nat (card ?A), s1))"
     "fat_run rd V dp s os s1 os1 F"
    using count_loop_ok[OF rel ok F refl, of 2 0] n A by auto
  let ?w = "ucast (of_nat (card ?A) :: 32 word) :: 16 word"
  let ?s = "set_dpb dp (set_nfreeclst ?w) s1"
  have e: "dos_free E dp s = Some (Inr (of_nat (card ?A), ?s))"
    using c(1) n32 unk by (simp add: dos_free_def Let_def)
  have st: "?s = set_dpb dp (\<lambda>d. with_hint d ((dpb_xnfreeclst (dpbs s1 dp) AND 0xffff0000) OR ucast ?w) (dpb_cluster (dpbs s1 dp))) s1"
    by (simp add: set_dpb_def with_hint_def set_nfreeclst_def)
  note F1 = fat_run_ok[OF c(2)]
  have "fat_run rd V dp s1 os1 ?s os1 F"
    unfolding st using set_hint_run[OF conjunct1[OF F1]] unfolding conjunct2[OF F1] by blast
  then have r: "fat_run rd V dp s os ?s os1 F" by (rule fat_run_trans[OF c(2)])
  have w: "?w = of_nat (card ?A)" by (rule ucast16_of_nat)
  have "dpbs (set_dpb dp f s1) dp = f (dpbs s1 dp)" for f by (simp add: set_dpb_def)
  then have k: "dpb_nfreeclst (dpbs ?s dp) = of_nat (card ?A)" by (simp only: nfreeclst_set w)
  show ?thesis by (rule exI[of _ ?s], rule exI[of _ os1], intro conjI, rule e, rule r, rule k)
qed

end
