(* ===== verification/Fat_Props.thy ===== *)
theory Fat_Props
  imports Clusters_Proofs Blockio_Props
begin

text \<open>The properties of the file allocation table and of cluster chains, with their witnesses
  on a 12-bit volume that holds a file of two clusters and one of one.\<close>

section \<open>An example\<close>

definition fat_image :: bytes where
  "fat_image = (\<lambda>i. if i = 3 then 0x03 else if i = 4 then 0xf0 else if i = 5 \<or> i = 6 then 0xff
     else if i = 7 then 0x0f else 0)"

definition kern3 :: "platters kernel" where
  "kern3 = kern1\<lparr>world := (\<lambda>_ blk. if blk = 1 then fat_image else (\<lambda>_. 0))\<rparr>"

definition io3 :: "platters diskio" where
  "io3 = io1\<lparr>kern := kern3\<rparr>"

abbreviation bufs3 :: "16 word list" where
  "bufs3 \<equiv> [0, 0x214, 0x428]"

definition vol3 :: "block_id set" where
  "vol3 = {(0, 1), (0, 2), (0, 3), (0, 4), (0, 5), (0, 6), (0, 45)}"

lemma io3_simps [simp]:
  "kern io3 = kern3" "dpbs io3 = (\<lambda>_. dpb1)" "bufs io3 = bufs io1" "firstbuf io3 = firstbuf io1"
  by (simp_all add: io3_def io1_simps)

lemma io3_get_dpb: "get_dpb 0 io3 = Some 0x700000"
  by (simp add: get_dpb_def kern3_def kern1_def get_cds_def Let_def CDSPHYSDRV_def CDSVALID_def CDSJOINED_def CDSNETWDRV_def)

lemma io3_unused: "\<not> b_valid (bufs io1 x)"
  by (simp add: io1_simps buffer_zero_def)

lemma less_6: "k < (6 :: nat) \<longleftrightarrow> k \<in> {0, 1, 2, 3, 4, 5}"
  by auto

lemma dpb1_simps: "ISFAT12 dpb1" "\<not> ISFAT32 dpb1" "dpb_secsize dpb1 = 512" "unat (dpb_fats dpb1) = 2"
  "unat (dpb_fatsize dpb1) = 6" "unat (dpb_size dpb1) = 2000" "dpb_unit dpb1 = 0" "dpb_cluster dpb1 = 0"
  "ucast (dpb_fatsize dpb1) = (6 :: 32 word)" "ucast (dpb_fatstrt dpb1) = (1 :: 32 word)"
  by (simp_all add: dpb1_def ISFAT12_def ISFAT32_def FAT_MAGIC_def)

lemma fat_vol3: "fat_vol vol3 dpb1"
proof -
  have "\<forall>k < 6. (0, fat_sector dpb1 k) \<in> vol3 \<and> (0, fat_sector dpb1 k + 6) \<notin> vol3"
    unfolding less_6 by (auto simp: fat_sector_def dpb1_simps vol3_def)
  then show ?thesis by (auto simp: fat_vol_def dpb1_simps fat_len_def less_2_cases_iff)
qed

lemma fat_ok3: "fat_ok (\<lambda>w. w) vol3 0x700000 io3 bufs3"
proof -
  have "lru io3 bufs3" using lru_same_links[of io1 io3] io1_lru by (simp add: same_links_def)
  moreover have "drives_ok 512 (fst ` vol3) io3"
    by (auto simp: drives_ok_def vol3_def io3_get_dpb dpb1_simps)
  ultimately show ?thesis
    using fat_vol3 by (simp add: fat_ok_def cache_ok_def buffer_ok_def unique_blocks_def io3_unused)
qed

lemma fat_bytes3: "fat_bytes (\<lambda>w. w) io3 bufs3 0x700000 = fat_image"
proof -
  have "fat_sector dpb1 (i div 512) = 1 \<longleftrightarrow> i < 512" if "i < 3072" for i
  proof -
    have "i div 512 < 6" using that by simp
    then show ?thesis unfolding less_6 by (auto simp: fat_sector_def dpb1_simps)
  qed
  moreover have "fat_sector dpb1 0 = 1" by (simp add: fat_sector_def dpb1_simps)
  ultimately show ?thesis
    by (auto simp: fat_bytes_def fat_len_def dpb1_simps view_miss io3_unused disk_def sector_def kern3_def
        fat_image_def fun_eq_iff)
qed

lemma chain3: "file_chain dpb1 fat_image 2 [3]"
  by (simp add: file_chain_def entry_of_def dpb1_simps entry12_def read12_def load12_def pair12_def unpack12_def
      fat_image_def fat_defs)

lemma chain4: "file_chain dpb1 fat_image 4 []"
  by (simp add: file_chain_def entry_of_def dpb1_simps entry12_def read12_def load12_def pair12_def unpack12_def
      fat_image_def fat_defs)

lemma free3: "5 \<le> c \<Longrightarrow> entry_of dpb1 fat_image c = 0"
  by (cases "c = 5") (auto simp: entry_of_def dpb1_simps entry12_def read12_def load12_def pair12_def unpack12_def
      fat_image_def fat_defs)

lemma hint3: "in_vol dpb1 (hint_of dpb1)"
  by (simp add: hint_of_def dpb1_simps)

section \<open>Entries\<close>

text \<open>C34. Writing an entry of the table through the cache and reading it back gives the value
  written, every other entry reads as before, and no block outside the table changes.\<close>

theorem link_fat_roundtrip:
  assumes rel: "reliable E 512 rd" and ok: "fat_ok rd V dp s os" and c: "in_vol (dpbs s dp) c"
    and v: "v \<noteq> READ_CLUSTER" "unat v \<le> unat (dpb_size (dpbs s dp)) \<or> v = LONG_LAST_CLUSTER"
    and c': "in_vol (dpbs s dp) c'" "c' \<noteq> c"
  shows "\<exists>s1 os1 s2 s3 s4 w. link_fat E dp (of_nat c) v s = Some (Inr (0, s1))
     \<and> link_fat E dp (of_nat c) READ_CLUSTER s1 = Some (Inr (v, s2))
     \<and> link_fat E dp (of_nat c') READ_CLUSTER s = Some (Inr (w, s3))
     \<and> link_fat E dp (of_nat c') READ_CLUSTER s1 = Some (Inr (w, s4))
     \<and> cache_ok 512 rd V s1 os1 \<and> data_kept rd V (dpbs s dp) s os s1 os1"
proof -
  let ?d = "dpbs s dp" and ?F = "fat_bytes rd s os dp"
  have vol: "fat_vol V ?d" using ok by (simp add: fat_ok_def)
  obtain s1 os1 where w: "link_fat E dp (of_nat c) v s = Some (Inr (0, s1))"
     "fat_run rd V dp s os s1 os1 (store_of ?d ?F c v)" using link_run[OF rel ok refl c v] by blast
  have ok1: "fat_ok rd V dp s1 os1" "fat_bytes rd s1 os1 dp = store_of ?d ?F c v" using fat_run_ok[OF w(2)] by auto
  note same = fat_run_same[OF w(2)]
  have cs: "2 \<le> c" "c \<le> unat (dpb_size (dpbs s1 dp))" "2 \<le> c'" "c' \<le> unat (dpb_size (dpbs s1 dp))"
    using c c' same by auto
  note e = entry_store_of[OF vol v(2), of ?F c]
  obtain s2 where "link_fat E dp (of_nat c) READ_CLUSTER s1 = Some (Inr (v, s2))"
    using link_fat_read[OF rel ok1(1) cs(1,2)] ok1(2) same e by auto
  moreover obtain s4 where "link_fat E dp (of_nat c') READ_CLUSTER s1 = Some (Inr (entry_of ?d ?F c', s4))"
    using link_fat_read[OF rel ok1(1) cs(3,4)] ok1(2) same e c'(2) by auto
  moreover obtain s3 where "link_fat E dp (of_nat c') READ_CLUSTER s = Some (Inr (entry_of ?d ?F c', s3))"
    using link_fat_read[OF rel ok, of c'] c'(1) by auto
  moreover have "data_kept rd V ?d s os s1 os1" "cache_ok 512 rd V s1 os1"
    using w(2) ok1(1) by (simp_all add: fat_run_def fat_step_def fat_ok_def)
  ultimately show ?thesis using w(1) by blast
qed

theorem link_fat_roundtrip_witness:
  "\<exists>s1 s2. link_fat ram_disk 0x700000 341 LONG_LAST_CLUSTER io3 = Some (Inr (0, s1))
     \<and> link_fat ram_disk 0x700000 341 READ_CLUSTER s1 = Some (Inr (LONG_LAST_CLUSTER, s2))"
  using link_fat_roundtrip[OF ram_disk_reliable fat_ok3, of 341 LONG_LAST_CLUSTER 342]
  by (auto simp: dpb1_simps LONG_LAST_CLUSTER_def READ_CLUSTER_def)

text \<open>What an entry of each format can read as.\<close>

lemma unpack12_le: "unpack12 c w \<le> 0xfff"
  unfolding unpack12_def by (metis word_and_le1)

lemma read12_le: "v \<le> 0xfff \<Longrightarrow> read12 v \<le> 0xff6 \<or> read12 v = LONG_BAD \<or> read12 v = LONG_LAST_CLUSTER"
proof -
  have "v < 0xff8 \<Longrightarrow> v \<noteq> 0xff7 \<Longrightarrow> v \<le> 0xff6" by unat_arith
  then show ?thesis by (auto simp: read12_def MASK12_def BAD12_def not_le)
qed

lemma read16_le: "read16 v \<le> 0xfff6 \<or> read16 v = LONG_BAD \<or> read16 v = LONG_LAST_CLUSTER"
proof -
  have "v < 0xfff8 \<Longrightarrow> v \<noteq> 0xfff7 \<Longrightarrow> unat v \<le> 0xfff6" by unat_arith
  then have "v < 0xfff8 \<Longrightarrow> v \<noteq> 0xfff7 \<Longrightarrow> (ucast v :: 32 word) \<le> 0xfff6" by (simp add: word_le_nat_alt unat_ucast)
  then show ?thesis by (auto simp: read16_def MASK16_def BAD16_def not_le)
qed

lemma read32_le: "read32 v \<le> 0x0ffffff6 \<or> read32 v = LONG_BAD \<or> read32 v = LONG_LAST_CLUSTER"
proof -
  have "v \<le> 0x0ffffff7 \<Longrightarrow> v \<noteq> 0x0ffffff7 \<Longrightarrow> v \<le> 0x0ffffff6" by unat_arith
  then show ?thesis by (auto simp: read32_def LONG_BAD_def not_less)
qed

definition cluster_value :: "dpb \<Rightarrow> 32 word \<Rightarrow> bool" where
  "cluster_value d v \<longleftrightarrow> v \<le> (if ISFAT12 d then 0xff6 else if ISFAT16 d then 0xfff6 else 0x0ffffff6)
     \<or> v = LONG_BAD \<or> v = LONG_LAST_CLUSTER"

lemma cluster_value_1 [simp]: "cluster_value d 1"
  by (simp add: cluster_value_def)

lemma link12_value:
  assumes "link12 E dp c READ_CLUSTER bp idx sec s = Some (q, s')"
  shows "\<exists>v. q = Inl v \<and> (v = 1 \<or> v \<le> 0xff6 \<or> v = LONG_BAD \<or> v = LONG_LAST_CLUSTER)"
  using assms read12_le[OF unpack12_le]
  by (auto simp: link12_def Let_def bind_eq_Some_conv split: option.splits prod.splits if_splits)

lemma entry_value:
  assumes q: "(if ISFAT12 d then link12 E dp c READ_CLUSTER bp idx sec s
      else if ISFAT16 d then Some (link16 READ_CLUSTER bp idx s)
      else if ISFAT32 d then Some (link32 READ_CLUSTER bp idx s) else Some (Inl 1, s)) = Some (q, s')"
  shows "\<exists>v. q = Inl v \<and> cluster_value d v"
proof (cases "ISFAT12 d")
  case True
  then show ?thesis using q link12_value by (fastforce simp: cluster_value_def)
next
  case n12: False
  show ?thesis
  proof (cases "ISFAT16 d")
    case True
    then show ?thesis using q n12 read16_le by (auto simp: link16_def Let_def cluster_value_def)
  next
    case False
    then show ?thesis using q n12 read32_le by (auto simp: link32_def Let_def cluster_value_def split: if_splits)
  qed
qed

lemma link_fat_value:
  assumes l: "link_fat E dp c READ_CLUSTER s = Some (Inr (v, s'))"
  shows "cluster_value (dpbs s dp) v"
proof (cases "c \<le> 1 \<or> max_cluster (dpbs s dp) < c \<or> READ_CLUSTER < LONG_BAD \<and> max_cluster (dpbs s dp) < READ_CLUSTER")
  case True
  then show ?thesis using l by (auto simp: link_fat_def Let_def split: if_splits)
next
  case False
  let ?d = "dpbs s dp"
  obtain idx sec where fi: "fat_index ?d c = (idx, sec)" by (cases "fat_index ?d c")
  have f: "\<not> (c \<le> 1 \<or> max_cluster ?d < c)" "\<not> (READ_CLUSTER < LONG_BAD \<and> max_cluster ?d < READ_CLUSTER)"
    using False by blast+
  have nz: "fat_div ?d \<noteq> 0"
  proof
    assume "fat_div ?d = 0"
    then show False using l unfolding link_fat_def Let_def if_not_P[OF f(1)] if_not_P[OF f(2)] by simp
  qed
  note l' = l[unfolded link_fat_def Let_def fi prod.case if_not_P[OF f(1)] if_not_P[OF f(2)] if_not_P[OF nz]]
  obtain r s1 where g: "getFATblock E dp sec s = Some (r, s1)"
    using l' by (cases "getFATblock E dp sec s") auto
  show ?thesis
  proof (cases r)
    case None
    then show ?thesis using l' g by simp
  next
    case (Some bp)
    let ?q = "if ISFAT12 ?d then link12 E dp c READ_CLUSTER bp idx sec s1
      else if ISFAT16 ?d then Some (link16 READ_CLUSTER bp idx s1)
      else if ISFAT32 ?d then Some (link32 READ_CLUSTER bp idx s1) else Some (Inl 1, s1)"
    note l2 = l'[unfolded g Some Option.bind.simps prod.case option.case]
    obtain q s2 where q: "?q = Some (q, s2)" using l2 by (cases ?q) auto
    obtain v' where v': "q = Inl v'" "cluster_value ?d v'" using entry_value[OF q] by blast
    have "v = v'" using l2 unfolding q by (simp add: v'(1))
    then show ?thesis using v'(2) by simp
  qed
qed

text \<open>C35. Whatever the driver does, reading an entry yields a cluster number of the volume's
  format, the mark of a bad cluster or the end mark.\<close>

theorem link_fat_typed:
  assumes "link_fat E dp c READ_CLUSTER s = Some (Inr (v, s'))"
  shows "v \<le> (if ISFAT12 (dpbs s dp) then 0xff6 else if ISFAT16 (dpbs s dp) then 0xfff6 else 0x0ffffff6)
     \<or> v = LONG_BAD \<or> v = LONG_LAST_CLUSTER"
  using link_fat_value[OF assms] by (simp only: cluster_value_def)

theorem link_fat_typed_witness:
  "\<exists>v s'. link_fat ram_disk 0x700000 2 READ_CLUSTER io3 = Some (Inr (v, s'))
     \<and> (v \<le> 0xff6 \<or> v = LONG_BAD \<or> v = LONG_LAST_CLUSTER)"
proof -
  obtain v s' where "link_fat ram_disk 0x700000 2 READ_CLUSTER io3 = Some (Inr (v, s'))"
    using link_fat_read[OF ram_disk_reliable fat_ok3, of 2] by (auto simp: dpb1_simps)
  moreover from link_fat_typed[OF this] have "v \<le> 0xff6 \<or> v = LONG_BAD \<or> v = LONG_LAST_CLUSTER"
    by (simp add: dpb1_simps)
  ultimately show ?thesis by blast
qed

text \<open>C36. A FAT32 volume is read as a FAT12 volume: the drive parameter block that a BIOS
  parameter block without a 16-bit FAT size gives has \<open>dpb_size\<close> 0, and \<open>dpb_size - 1\<close> is
  negative in \<open>int\<close>. So no cluster above FF6h is ever found in a chain, however many the volume
  has, and the code for 32-bit entries never runs.\<close>

theorem fat32_volume_read_as_fat12:
  assumes b: "bpb_nfsect b = 0" and d: "dpbs s dp = bpb_dpb32 b secs (bpb_dpb16 b secs prev)"
    and l: "link_fat E dp c READ_CLUSTER s = Some (Inr (v, s'))"
  shows "ISFAT32 (dpbs s dp) \<and> ISFAT12 (dpbs s dp) \<and> (v \<le> 0xff6 \<or> v = LONG_BAD \<or> v = LONG_LAST_CLUSTER)"
proof -
  have "ISFAT32 (dpbs s dp) \<and> dpb_size (dpbs s dp) = 0"
    using b unfolding d by (simp add: bpb_dpb32_def bpb_dpb16_def dpb16to32_def set_nfreeclst_def ISFAT32_def Let_def)
  then have "ISFAT32 (dpbs s dp) \<and> ISFAT12 (dpbs s dp)" by (simp add: ISFAT12_def FAT_MAGIC_def)
  then show ?thesis using link_fat_value[OF l] by (simp add: cluster_value_def)
qed

definition bpb32 :: bpb where
  "bpb32 = \<lparr>bpb_nbyte = 512, bpb_nsector = 8, bpb_nreserved = 32, bpb_nfat = 2, bpb_ndirent = 0, bpb_nsize = 0,
     bpb_mdesc = 0xf8, bpb_nfsect = 0, bpb_huge = 0x200000, bpb_xnfsect = 0x7f8, bpb_xflags = 0, bpb_xrootclst = 2,
     bpb_xfsinfosec = 1, bpb_xbackupsec = 6\<rparr>"

definition io4 :: "platters diskio" where
  "io4 = io1\<lparr>dpbs := (\<lambda>_. bpb_dpb32 bpb32 0x200000 (bpb_dpb16 bpb32 0x200000 dpb1))\<rparr>"

theorem fat32_volume_read_as_fat12_witness:
  "ISFAT12 (dpbs io4 0) \<and> (\<exists>v s'. link_fat ram_disk 0 1 READ_CLUSTER io4 = Some (Inr (v, s')))"
proof -
  have "link_fat ram_disk 0 1 READ_CLUSTER io4 = Some (Inr (1, io4))" by (simp add: link_fat_def Let_def)
  then show ?thesis
    using fat32_volume_read_as_fat12[where b = bpb32 and s = io4 and dp = 0 and secs = "0x200000" and prev = dpb1]
    by (fastforce simp: io4_def bpb32_def)
qed

section \<open>Chains\<close>

text \<open>C37. Extending a non-empty file appends a cluster that was free to its chain and no other,
  or fails with the table as it was when no cluster is free; the chain of any other file and
  every block outside the table stay as they are.\<close>

theorem extend_grows_file:
  assumes rel: "reliable E 512 rd" and ok: "fat_ok rd V dp s os" and F: "F = fat_bytes rd s os dp"
    and h: "in_vol (dpbs s dp) (hint_of (dpbs s dp))"
    and ch: "file_chain (dpbs s dp) F c ds" and f: "f_dpb f = dp" "f_cluster f = of_nat (last (c # ds))"
    and other: "file_chain (dpbs s dp) F c2 ds2" "set (c # ds) \<inter> set (c2 # ds2) = {}"
  shows "\<exists>r s' os'. extend_file E f s = Some (Inr (r, f, s')) \<and> fat_ok rd V dp s' os'
     \<and> data_kept rd V (dpbs s dp) s os s' os' \<and> file_chain (dpbs s' dp) (fat_bytes rd s' os' dp) c2 ds2
     \<and> (if \<exists>k. in_vol (dpbs s dp) k \<and> entry_of (dpbs s dp) F k = 0
        then \<exists>k. r = of_nat k \<and> in_vol (dpbs s dp) k \<and> entry_of (dpbs s dp) F k = 0
               \<and> file_chain (dpbs s' dp) (fat_bytes rd s' os' dp) c (ds @ [k])
        else r = LONG_LAST_CLUSTER \<and> fat_bytes rd s' os' dp = F)"
proof -
  let ?d = "dpbs s dp" and ?l = "last (c # ds)"
  have vol: "fat_vol V ?d" using ok by (simp add: fat_ok_def)
  obtain r s1 os1 G where e: "extend_file E f s = Some (Inr (r, f, s1))" "fat_run rd V dp s os s1 os1 G"
     "(\<exists>k. in_vol ?d k \<and> entry_of ?d F k = 0 \<and> r = of_nat k \<and> G = grown ?d F ?l k)
        \<or> r = LONG_LAST_CLUSTER \<and> G = F \<and> (\<forall>j. in_vol ?d j \<longrightarrow> entry_of ?d F j \<noteq> 0)"
    using extend_file_ok[OF rel ok F h ch f] by blast
  have st: "fat_ok rd V dp s1 os1" "data_kept rd V ?d s os s1 os1" "fat_bytes rd s1 os1 dp = G"
    using e(2) by (simp_all add: fat_run_def fat_step_def)
  note same = fat_run_same[OF e(2)]
  show ?thesis
  proof (cases "\<exists>k. in_vol ?d k \<and> entry_of ?d F k = 0")
    case True
    then obtain k where k: "in_vol ?d k" "entry_of ?d F k = 0" "r = of_nat k" "G = grown ?d F ?l k" using e(3) by blast
    have kn: "k \<notin> set (c2 # ds2)" using file_chain_used[OF other(1)] k(2) by blast
    have ln: "?l \<notin> set (c2 # ds2)" using other(2) last_in_set[of "c # ds"] by blast
    have kv: "unat (of_nat k :: 32 word) \<le> unat (dpb_size ?d)" using k(1) unat_vol[OF k(1)] by simp
    have "entry_of ?d G x = entry_of ?d F x" if "x \<in> set (c2 # ds2)" for x
      unfolding k(4) grown_def using that kn ln entry_store_of[OF vol] kv by (metis fun_upd_other)
    then have "file_chain ?d G c2 ds2" using file_chain_frame[OF other(1)] by blast
    moreover have "file_chain ?d G c (ds @ [k])" unfolding k(4) grown_def by (rule file_chain_append[OF vol ch k(1,2)])
    ultimately have "(\<exists>k. r = of_nat k \<and> in_vol ?d k \<and> entry_of ?d F k = 0 \<and> file_chain ?d G c (ds @ [k]))
        \<and> file_chain ?d G c2 ds2" using k(1-3) by blast
    then show ?thesis using e(1) st True by (intro exI[of _ r] exI[of _ s1] exI[of _ os1]) (simp add: same)
  next
    case False
    then have "r = LONG_LAST_CLUSTER" "G = F" using e(3) by blast+
    then show ?thesis using e(1) st False other(1) by (intro exI[of _ r] exI[of _ s1] exI[of _ os1]) (auto simp: same)
  qed
qed

definition file3 :: f_node where
  "file3 = \<lparr>f_flags = 0x40,
     f_dir = \<lparr>dir_name = replicate 11 0x41, dir_attrib = 0x20, dir_case = 0, dir_crtimems = 0, dir_crtime = 0,
       dir_crdate = 0, dir_accdate = 0, dir_start_high = 0, dir_time = 0, dir_date = 0, dir_start = 2, dir_size = 1000\<rparr>,
     d_flags = 0, f_dirsector = 13, f_diridx = 0, f_dpb = 0x700000, f_offset = 0, f_cluster_offset = 1, f_cluster = 3, f_sft_idx = 0,
     dm_drive = 0, dm_name_pat = replicate 11 0x20, dm_attr_srch = 0, dm_entry = 0, dm_dircluster = 0\<rparr>"

theorem extend_grows_file_witness:
  "\<exists>k s' os'. extend_file ram_disk file3 io3 = Some (Inr (of_nat k, file3, s'))
     \<and> file_chain (dpbs s' 0x700000) (fat_bytes (\<lambda>w. w) s' os' 0x700000) 2 [3, k]"
proof -
  have "\<exists>k. in_vol dpb1 k \<and> entry_of dpb1 fat_image k = 0" using free3[of 5] by (auto simp: dpb1_simps intro!: exI[of _ 5])
  then show ?thesis
    using extend_grows_file[OF ram_disk_reliable fat_ok3 fat_bytes3[symmetric], of 2 "[3]" file3 4 "[]"]
      hint3 chain3 chain4 by (auto simp: file3_def)
qed

text \<open>Deleting a file's chain ends, frees exactly the clusters of the chain and changes no
  other entry, and no block outside the table.\<close>

theorem wipe_out_frees_file:
  assumes rel: "reliable E 512 rd" and ok: "fat_ok rd V dp s os" and F: "F = fat_bytes rd s os dp"
    and h: "in_vol (dpbs s dp) (hint_of (dpbs s dp))"
    and f: "f_dpb f = dp" "getdstart (dpbs s dp) (f_dir f) = of_nat c" and ch: "file_chain (dpbs s dp) F c ds"
  shows "\<exists>s' os'. wipe_out E f s = Some (Inr s') \<and> fat_ok rd V dp s' os' \<and> data_kept rd V (dpbs s dp) s os s' os'
     \<and> entry_of (dpbs s' dp) (fat_bytes rd s' os' dp)
         = (\<lambda>x. if x \<in> set (c # ds) then FREE_CLUSTER else entry_of (dpbs s dp) F x)"
proof -
  let ?d = "dpbs s dp"
  have vol: "fat_vol V ?d" using ok by (simp add: fat_ok_def)
  have "in_vol ?d c" using ch by (simp add: file_chain_def)
  then have nz: "(of_nat c :: 32 word) \<noteq> FREE_CLUSTER" using small_bad[of c ?d] by (simp add: FREE_CLUSTER_def)
  obtain s' os' where w: "wipe_out_clusters E dp (of_nat c) s = Some (Inr s')"
     "fat_run rd V dp s os s' os' (wiped ?d F (c # ds))"
    using wipe_out_clusters_ok[OF rel ok F h ch] by blast
  have "wipe_out E f s = Some (Inr s')" using w(1) nz f by (simp add: wipe_out_def Let_def)
  moreover have "fat_ok rd V dp s' os'" "data_kept rd V ?d s os s' os'" "fat_bytes rd s' os' dp = wiped ?d F (c # ds)"
    using w(2) by (simp_all add: fat_run_def fat_step_def)
  ultimately show ?thesis
    using entry_wiped[OF vol, of F "c # ds"]
    unfolding FREE_CLUSTER_def by (intro exI[of _ s'] exI[of _ os']) (simp add: fat_run_same[OF w(2)])
qed

theorem wipe_out_frees_file_witness:
  "\<exists>s' os'. wipe_out ram_disk file3 io3 = Some (Inr s')
     \<and> entry_of (dpbs s' 0x700000) (fat_bytes (\<lambda>w. w) s' os' 0x700000) 3 = FREE_CLUSTER"
proof -
  have "getdstart (dpbs io3 0x700000) (f_dir file3) = of_nat 2" by (simp add: getdstart_def file3_def dpb1_simps)
  then obtain s' os' where "wipe_out ram_disk file3 io3 = Some (Inr s')"
     "entry_of (dpbs s' 0x700000) (fat_bytes (\<lambda>w. w) s' os' 0x700000)
       = (\<lambda>x. if x \<in> set [2, 3] then FREE_CLUSTER else entry_of (dpbs io3 0x700000) fat_image x)"
    using wipe_out_frees_file[OF ram_disk_reliable fat_ok3 fat_bytes3[symmetric], of file3 2 "[3]"] hint3 chain3
    by (auto simp: file3_def)
  then have "wipe_out ram_disk file3 io3 = Some (Inr s')"
     "entry_of (dpbs s' 0x700000) (fat_bytes (\<lambda>w. w) s' os' 0x700000) 3 = FREE_CLUSTER" by simp_all
  then show ?thesis by blast
qed

text \<open>C38. When the number of free clusters is unknown, \<open>dos_free\<close> ends, returns the number of free
  entries and remembers it modulo 65536.\<close>

theorem dos_free_counts:
  assumes "reliable E 512 rd" "fat_ok rd V dp s os" "dpb_nfreeclst (dpbs s dp) = UNKNCLSTFREE"
    "1 \<le> unat (dpb_size (dpbs s dp))"
  shows "\<exists>s' os'. let n = card {j. in_vol (dpbs s dp) j \<and> entry_of (dpbs s dp) (fat_bytes rd s os dp) j = 0} in
     dos_free E dp s = Some (Inr (of_nat n, s')) \<and> dpb_nfreeclst (dpbs s' dp) = of_nat n
     \<and> fat_ok rd V dp s' os' \<and> fat_bytes rd s' os' dp = fat_bytes rd s os dp"
  using dos_free_ok[OF assms(1,2) refl assms(3,4)] fat_run_ok unfolding Let_def by blast

theorem dos_free_counts_witness:
  "\<exists>s'. dos_free ram_disk 0x700000 io3 = Some (Inr (1996, s'))"
proof -
  have "in_vol dpb1 j \<and> entry_of dpb1 fat_image j = 0 \<longleftrightarrow> j \<in> {5..2000}" for j
  proof (cases "5 \<le> j")
    case False
    then have "2 \<le> j \<Longrightarrow> j \<in> {2, 3, 4}" by auto
    then have "2 \<le> j \<Longrightarrow> entry_of dpb1 fat_image j \<noteq> 0"
      using file_chain_used[OF chain3] file_chain_used[OF chain4] by auto
    then show ?thesis using False by auto
  qed (simp add: free3 dpb1_simps)
  then have "{j. in_vol dpb1 j \<and> entry_of dpb1 fat_image j = 0} = {5..2000}" by blast
  then have n: "card {j. in_vol dpb1 j \<and> entry_of dpb1 fat_image j = 0} = 1996" by simp
  have "dpb_nfreeclst (dpbs io3 0x700000) = UNKNCLSTFREE" by (simp add: dpb_nfreeclst_def UNKNCLSTFREE_def dpb1_def)
  from dos_free_counts[OF ram_disk_reliable fat_ok3 this] show ?thesis
    unfolding fat_bytes3 Let_def io3_simps n by (auto simp: dpb1_simps)
qed

end
