(* ===== verification/Fileio.thy ===== *)
theory Fileio
  imports Clusters
begin

text \<open>
  The transfer of file data, \<open>rwblock\<close> of kernel/fatfs.c, with the copying between an entry of
  the system file table and the near f-node and the spreading of changes to the other entries
  of a file. The bytes at the caller's buffer are an argument and a result, as in \<open>dskxfer\<close>; the
  far pointer \<open>buf\<close> is a segment and an offset. Counts are at most FFFFh and a sector has at
  least 32 bytes, so they are natural numbers. What the near f-node \<open>fnode[0]\<close> holds before and
  after is an argument and a result too. \<open>IsShareInstalled\<close> is the constant true of proto.h.
\<close>

section \<open>The near f-node\<close>

definition D_VOLID :: "8 word" where "D_VOLID = 0x08"
definition D_ARCHIVE :: "8 word" where "D_ARCHIVE = 0x20"
definition SFT_FDATE :: "16 word" where "SFT_FDATE = 0x4000"
definition SFT_FCLEAN :: "16 word" where "SFT_FCLEAN = 0x0040"

definition load_fnode :: "nat \<Rightarrow> sft_t \<Rightarrow> f_node \<Rightarrow> f_node" where
  "load_fnode fd e f =
     f\<lparr>f_sft_idx := of_nat fd, f_flags := sft_flags e, d_flags := 0,
       f_dir := setdstart (sft_stclust e)
         ((f_dir f)\<lparr>dir_attrib := sft_attrib e, dir_name := sft_name e, dir_time := sft_time e,
                    dir_date := sft_date e, dir_size := sft_size e\<rparr>),
       f_dpb := sft_dev e, f_diridx := sft_diridx e, f_dirsector := sft_dirsector e,
       f_offset := sft_posit e, f_cluster := sft_cuclust e,
       f_cluster_offset := ucast (sft_relclust e) OR push_bit 16 (ucast (sft_relclust_high e))\<rparr>"

definition store_fnode :: "dpb \<Rightarrow> f_node \<Rightarrow> sft_t \<Rightarrow> sft_t" where
  "store_fnode d f e =
     e\<lparr>sft_flags := f_flags f, sft_attrib := dir_attrib (f_dir f), sft_name := dir_name (f_dir f),
       sft_time := dir_time (f_dir f), sft_date := dir_date (f_dir f), sft_size := dir_size (f_dir f),
       sft_stclust := getdstart d (f_dir f), sft_diridx := f_diridx f, sft_dirsector := f_dirsector f,
       sft_dev := f_dpb f, sft_posit := f_offset f, sft_cuclust := f_cluster f,
       sft_relclust := ucast (f_cluster_offset f), sft_relclust_high := ucast (drop_bit 16 (f_cluster_offset f))\<rparr>"

definition on_kernel :: "('w kernel \<Rightarrow> 'w kernel) \<Rightarrow> 'w diskio \<Rightarrow> 'w diskio" where
  "on_kernel g s = s\<lparr>kern := g (kern s)\<rparr>"

text \<open>An index without an entry is a pointer to FFFF:FFFF, which the code follows: a trap.\<close>

definition sft_to_fnode :: "nat \<Rightarrow> f_node \<Rightarrow> 'w diskio \<Rightarrow> (f_node \<times> 'w diskio) run" where
  "sft_to_fnode fd f s =
     (case idx_to_sft (int fd) (kern s) of (e, k) \<Rightarrow>
        (case e of None \<Rightarrow> Inl Null_deref
         | Some i \<Rightarrow> Inr (load_fnode fd (sft_at k i) f, on_kernel (\<lambda>_. k) s)))"

definition fnode_to_sft :: "f_node \<Rightarrow> 'w diskio \<Rightarrow> 'w diskio run" where
  "fnode_to_sft f s =
     (case idx_to_sft (uint (f_sft_idx f)) (kern s) of (e, k) \<Rightarrow>
        (case e of None \<Rightarrow> Inl Null_deref
         | Some i \<Rightarrow> Inr (on_kernel (\<lambda>_. set_sft i (store_fnode (dpbs s (f_dpb f)) f) k) s)))"

section \<open>Changes of a file that has several entries\<close>

definition same_file :: "f_node \<Rightarrow> nat \<Rightarrow> sft_t \<Rightarrow> bool" where
  "same_file f i e \<longleftrightarrow> i \<noteq> unat (f_sft_idx f) \<and> sft_count e \<noteq> 0 \<and> f_dpb f = sft_dev e
     \<and> dir_attrib (f_dir f) AND D_VOLID = 0 \<and> sft_attrib e AND D_VOLID = 0
     \<and> f_diridx f = sft_diridx e \<and> f_dirsector f = sft_dirsector e"

definition spread_to :: "dpb \<Rightarrow> f_node \<Rightarrow> sft_t \<Rightarrow> sft_t" where
  "spread_to d f e =
     e\<lparr>sft_stclust := getdstart d (f_dir f), sft_size := dir_size (f_dir f),
       sft_date := dir_date (f_dir f), sft_time := dir_time (f_dir f)\<rparr>"

text \<open>What \<open>merge_file_changes\<close> does when it neither closes nor collects, from entry \<open>i\<close> on: along
  the entries of a block, and along the blocks.\<close>

fun spread_block :: "dpb \<Rightarrow> f_node \<Rightarrow> nat \<Rightarrow> sft_t list \<Rightarrow> sft_t list" where
  "spread_block d f i [] = []"
| "spread_block d f i (e # es) = (if same_file f i e then spread_to d f e else e) # spread_block d f (Suc i) es"

fun spread_table :: "dpb \<Rightarrow> f_node \<Rightarrow> nat \<Rightarrow> sft_t list list \<Rightarrow> sft_t list list" where
  "spread_table d f i [] = []"
| "spread_table d f i (b # bs) = spread_block d f i b # spread_table d f (i + length b) bs"

definition merge_file_changes :: "f_node \<Rightarrow> 'w diskio \<Rightarrow> 'w diskio" where
  "merge_file_changes f s =
     on_kernel (\<lambda>k. k\<lparr>sft_tbl := spread_table (dpbs s (f_dpb f)) f 0 (sft_tbl k)\<rparr>) s"

text \<open>The branch that collects: the first other entry of the file that may write is copied.\<close>

definition collect_from :: "sft_t \<Rightarrow> f_node \<Rightarrow> f_node" where
  "collect_from e f = f\<lparr>f_dir := setdstart (sft_stclust e)
     ((f_dir f)\<lparr>dir_size := sft_size e, dir_date := sft_date e, dir_time := sft_time e\<rparr>)\<rparr>"

fun collect_changes :: "nat \<Rightarrow> sft_t list \<Rightarrow> f_node \<Rightarrow> f_node" where
  "collect_changes i [] f = f"
| "collect_changes i (e # es) f =
     (if same_file f i e \<and> sft_mode e AND 3 \<noteq> 0 then collect_from e f else collect_changes (Suc i) es f)"

text \<open>The branch that closes, before the attributes of a file change: it ends at the first failure.\<close>

fun close_changes :: "'w layers \<Rightarrow> f_node \<Rightarrow> nat list \<Rightarrow> 'w kernel \<Rightarrow> int \<times> 'w kernel" where
  "close_changes L f [] k = (SUCCESS, k)"
| "close_changes L f (i # is) k =
     (if same_file f i (sft_at k i) then
        (case DosCloseSft L (int i) False k of (rc, k1) \<Rightarrow>
           if rc \<noteq> SUCCESS then (rc, k1) else close_changes L f is k1)
      else close_changes L f is k)"

definition close_same_file :: "'w layers \<Rightarrow> f_node \<Rightarrow> 'w kernel \<Rightarrow> int \<times> 'w kernel" where
  "close_same_file L f k = close_changes L f [0..<length (concat (sft_tbl k))] k"

definition dos_merge_file_changes :: "nat \<Rightarrow> f_node \<Rightarrow> 'w diskio \<Rightarrow> (f_node \<times> 'w diskio) run" where
  "dos_merge_file_changes fd f0 s =
     bindE (sft_to_fnode fd f0 s) (\<lambda>(f, s1). Inr (f, merge_file_changes f s1))"

definition dos_extend :: "'w driver \<Rightarrow> f_node \<Rightarrow> 'w diskio \<Rightarrow> ((int \<times> f_node \<times> 'w diskio) run) option" where
  "dos_extend E f s =
     (if f_offset f \<le> dir_size (f_dir f) then returnR (SUCCESS, f, s)
      else bindR (map_cluster E XFR_WRITE f s) (\<lambda>(r, f1, s1).
        if r \<noteq> SUCCESS then returnR (DE_HNDLDSKFULL, f1, s1)
        else let f2 = f1\<lparr>f_dir := (f_dir f1)\<lparr>dir_size := f_offset f1\<rparr>\<rparr>
             in returnR (SUCCESS, f2, merge_file_changes f2 s1)))"

section \<open>The transfer\<close>

definition adjust_far :: "16 word \<times> 16 word \<Rightarrow> 16 word \<times> 16 word" where
  "adjust_far p = (if fst p = 0xffff then p else (fst p + drop_bit 4 (snd p), snd p AND 0xf))"

definition far_add :: "16 word \<times> 16 word \<Rightarrow> nat \<Rightarrow> 16 word \<times> 16 word" where
  "far_add p n = (fst p, snd p + of_nat n)"

text \<open>The memory from \<open>n\<close> bytes behind its start, and what is put there.\<close>

definition from_byte :: "nat \<Rightarrow> bytes \<Rightarrow> bytes" where
  "from_byte n m = (\<lambda>i. m (n + i))"

definition put_from :: "nat \<Rightarrow> bytes \<Rightarrow> bytes \<Rightarrow> bytes" where
  "put_from n b m = (\<lambda>i. if i < n then m i else b (i - n))"

text \<open>The sectors of consecutive clusters that lie next to each other, up to those wanted.\<close>

partial_function (option) contiguous ::
    "'w driver \<Rightarrow> nat \<Rightarrow> nat \<Rightarrow> 32 word \<Rightarrow> 32 word \<Rightarrow> nat \<Rightarrow> f_node \<Rightarrow> 'w diskio
     \<Rightarrow> ((nat \<times> f_node \<times> 'w diskio) run) option" where
  "contiguous E mode wanted start block n f s =
     (if wanted \<le> n then returnR (n, f, s)
      else bindR (map_cluster E mode f s) (\<lambda>(r, f1, s1).
        let d = dpbs s1 (f_dpb f1); n1 = min (n + unat (dpb_clsmask d) + 1) wanted in
        if r \<noteq> SUCCESS \<or> clus2phys (f_cluster f1) d \<noteq> block + of_nat n then returnR (n, f1, s1)
        else contiguous E mode wanted start block n1
               (f1\<lparr>f_offset := start + of_nat n1 * ucast (dpb_secsize d)\<rparr>) s1))"

text \<open>One round of the loop ends the call with \<open>DE_ACCESS\<close>, ends it with what was transferred, or
  has transferred some bytes.\<close>

datatype xfer = Xfer_denied | Xfer_ended | Xfer_bytes nat

definition rw_sector :: "f_node \<Rightarrow> dpb \<Rightarrow> nat" where
  "rw_sector f d = unat ((ucast (f_offset f div ucast (dpb_secsize d)) :: 8 word) AND dpb_clsmask d)"

definition rw_direct ::
    "'w driver \<Rightarrow> nat \<Rightarrow> nat \<Rightarrow> 16 word \<Rightarrow> bytes \<Rightarrow> f_node \<Rightarrow> 'w diskio
     \<Rightarrow> ((xfer \<times> bytes \<times> f_node \<times> 'w diskio) run) option" where
  "rw_direct E mode wanted seg m f s =
     (let d = dpbs s (f_dpb f); secsize = unat (dpb_secsize d); sector = rw_sector f d;
          block = clus2phys (f_cluster f) d + of_nat sector; start = f_offset f;
          n = min (unat (dpb_clsmask d) + 1 - sector) wanted
      in bindR (contiguous E mode wanted start block n (f\<lparr>f_offset := start + of_nat (n * secsize)\<rparr>) s)
        (\<lambda>(n1, f1, s1). do {
          let unit = scast (dpb_unit (dpbs s1 (f_dpb f1)));
          s2 \<leftarrow> DeleteBlockInBufferCache E block (block + of_nat n1 - 1) unit mode s1;
          (st, m1, s3) \<leftarrow> dskxfer E unit block seg m (of_nat n1) (if mode = XFR_READ then DSKREAD else DSKWRITE) s2;
          (if st \<noteq> 0 then returnR (Xfer_denied, m1, f1\<lparr>f_offset := start\<rparr>, s3)
           else returnR (Xfer_bytes (n1 * secsize), m1, f1, s3))
        }))"

definition rw_block ::
    "'w driver \<Rightarrow> nat \<Rightarrow> nat \<Rightarrow> bytes \<Rightarrow> f_node \<Rightarrow> 'w diskio
     \<Rightarrow> ((xfer \<times> bytes \<times> f_node \<times> 'w diskio) run) option" where
  "rw_block E mode to_xfer m f s =
     (let d = dpbs s (f_dpb f); secsize = unat (dpb_secsize d); boff = unat (f_offset f) mod secsize;
          left = unat (dir_size (f_dir f) - f_offset f)
      in do {
        (b, s1) \<leftarrow> getblock E (clus2phys (f_cluster f) d + of_nat (rw_sector f d)) (scast (dpb_unit d)) s;
        (case b of
           None \<Rightarrow> returnR (Xfer_ended, m, f, s1)
         | Some bp \<Rightarrow>
             let n0 = min to_xfer (secsize - boff); n = (if mode = XFR_READ then min n0 left else n0);
                 buf = b_buffer (bufs s1 bp);
                 s2 = (if mode = XFR_WRITE
                       then set_buf bp (\<lambda>b. b\<lparr>b_buffer := put_from boff (copy_bytes n m (from_byte boff buf)) buf,
                              b_flag := b_flag b OR (BFR_DIRTY OR BFR_VALID)\<rparr>) s1
                       else s1);
                 s3 = (if n = 512 \<or> mode = XFR_READ \<and> f_offset f + of_nat n = dir_size (f_dir f)
                       then set_buf bp (\<lambda>b. b\<lparr>b_flag := b_flag b OR BFR_UNCACHE\<rparr>) s2 else s2)
             in returnR (Xfer_bytes n, if mode = XFR_WRITE then m else copy_bytes n (from_byte boff buf) m,
                         f\<lparr>f_offset := f_offset f + of_nat n\<rparr>, s3))
      })"

text \<open>The choice between the two: whole sectors that the request and the file still have.\<close>

definition rw_wanted :: "nat \<Rightarrow> nat \<Rightarrow> f_node \<Rightarrow> dpb \<Rightarrow> nat" where
  "rw_wanted mode to_xfer f d =
     (let left = unat (dir_size (f_dir f) - f_offset f)
      in (if mode = XFR_READ \<and> left < to_xfer then left else to_xfer) div unat (dpb_secsize d))"

definition rw_step ::
    "'w driver \<Rightarrow> nat \<Rightarrow> nat \<Rightarrow> 16 word \<Rightarrow> bytes \<Rightarrow> f_node \<Rightarrow> 'w diskio
     \<Rightarrow> ((xfer \<times> bytes \<times> f_node \<times> 'w diskio) run) option" where
  "rw_step E mode to_xfer seg m f s =
     (let d = dpbs s (f_dpb f); wanted = rw_wanted mode to_xfer f d in
      if unat (f_offset f) mod unat (dpb_secsize d) = 0 \<and> wanted \<noteq> 0 then rw_direct E mode wanted seg m f s
      else rw_block E mode to_xfer m f s)"

definition rw_end :: "int \<Rightarrow> bytes \<Rightarrow> f_node \<Rightarrow> 'w diskio \<Rightarrow> ((int \<times> bytes \<times> f_node \<times> 'w diskio) run) option" where
  "rw_end r m f s = Some (bindE (fnode_to_sft f s) (\<lambda>s1. Inr (r, m, f, s1)))"

definition rw_grow :: "f_node \<Rightarrow> f_node" where
  "rw_grow f = (if dir_size (f_dir f) < f_offset f then f\<lparr>f_dir := (f_dir f)\<lparr>dir_size := f_offset f\<rparr>\<rparr> else f)"

partial_function (option) rw_loop ::
    "'w driver \<Rightarrow> nat \<Rightarrow> nat \<Rightarrow> nat \<Rightarrow> 16 word \<times> 16 word \<Rightarrow> bytes \<Rightarrow> f_node \<Rightarrow> 'w diskio
     \<Rightarrow> ((int \<times> bytes \<times> f_node \<times> 'w diskio) run) option" where
  "rw_loop E mode count ret buf m f s =
     (if count \<le> ret then rw_end (int ret) m f s
      else if mode = XFR_READ \<and> dir_size (f_dir f) \<le> f_offset f then rw_end (int ret) m f s
      else bindR (map_cluster E mode f s) (\<lambda>(r, f1, s1).
        if r \<noteq> SUCCESS then rw_end (int ret) m f1 s1
        else bindR (rw_step E mode (count - ret) (fst buf) (from_byte ret m) f1
                      (if mode = XFR_WRITE then merge_file_changes f1 s1 else s1)) (\<lambda>(x, m1, f2, s2).
          let m2 = put_from ret m1 m in
          case x of
            Xfer_denied \<Rightarrow> rw_end DE_ACCESS m2 f2 s2
          | Xfer_ended \<Rightarrow> rw_end (int ret) m2 f2 s2
          | Xfer_bytes n \<Rightarrow>
              let f3 = (if mode = XFR_WRITE then rw_grow f2 else f2);
                  s3 = (if mode = XFR_WRITE then merge_file_changes f3 s2 else s2)
              in rw_loop E mode count (ret + n) (adjust_far (far_add buf n)) m2 f3 s3)))"

text \<open>A transfer of no bytes: a write makes the file end at the current position.\<close>

definition rw_truncate ::
    "'w driver \<Rightarrow> nat \<Rightarrow> bytes \<Rightarrow> f_node \<Rightarrow> 'w diskio \<Rightarrow> ((int \<times> bytes \<times> f_node \<times> 'w diskio) run) option" where
  "rw_truncate E mode m f s =
     (if mode = XFR_WRITE then
        bindR (shrink_file E (f\<lparr>f_dir := (f_dir f)\<lparr>dir_size := f_offset f\<rparr>\<rparr>) s) (\<lambda>(r, f1, s1).
          if r < 0 then returnR (DE_ACCESS, m, f1, s1) else rw_end 0 m f1 s1)
      else rw_end 0 m f s)"

definition mark_written :: "f_node \<Rightarrow> f_node" where
  "mark_written f =
     f\<lparr>f_dir := (f_dir f)\<lparr>dir_attrib := dir_attrib (f_dir f) OR D_ARCHIVE\<rparr>,
       f_flags := f_flags f AND NOT (SFT_FCLEAN OR SFT_FDATE)\<rparr>"

definition rwblock ::
    "'w driver \<Rightarrow> f_node \<Rightarrow> nat \<Rightarrow> 16 word \<times> 16 word \<Rightarrow> bytes \<Rightarrow> nat \<Rightarrow> nat \<Rightarrow> 'w diskio
     \<Rightarrow> ((int \<times> bytes \<times> f_node \<times> 'w diskio) run) option" where
  "rwblock E f0 fd buf m count mode s0 =
     bindR (Some (sft_to_fnode fd f0 s0)) (\<lambda>(f, s).
     bindR (if mode = XFR_WRITE then dos_extend E (mark_written f) s else returnR (SUCCESS, f, s)) (\<lambda>(r, f1, s1).
       if r \<noteq> SUCCESS then rw_end 0 m f1 s1
       else if count = 0 then rw_truncate E mode m f1 s1
       else if dpb_secsize (dpbs s1 (f_dpb f1)) = 0 then Some (Inl Div_by_zero)
       else rw_loop E mode count 0 (adjust_far buf) m f1 s1))"

end
