(* ===== verification/Fileio_Frame.thy ===== *)
theory Fileio_Frame
  imports Fileio Clusters_Proofs
begin

text \<open>
  What the disk operations leave alone, whatever the driver does: of the kernel's state they
  change the world of the driver only. \<open>kcore\<close> is the kernel's state without that world.
\<close>

definition kcore :: "'w diskio \<Rightarrow> 'w kernel" where
  "kcore s = with_world undefined (kern s)"

lemma kcore_eqD: "kcore s' = kcore s \<Longrightarrow> kern s' = with_world (world (kern s')) (kern s)"
  by (cases "kern s"; cases "kern s'") (simp add: kcore_def with_world_def)

lemma kcore_fields:
  assumes "kcore s' = kcore s"
  shows "sft_tbl (kern s') = sft_tbl (kern s)" "CDSp (kern s') = CDSp (kern s)"
  using arg_cong[OF assms, of sft_tbl] arg_cong[OF assms, of CDSp] by (simp_all add: kcore_def with_world_def)

lemma kcore_simps [simp]:
  "kcore (set_buf x f s) = kcore s" "kcore (set_dpb p g s) = kcore s" "kcore (set_req h s) = kcore s"
  "kcore (s\<lparr>firstbuf := b\<rparr>) = kcore s" "kcore (s\<lparr>deblock_buf := m\<rparr>) = kcore s"
  by (simp_all add: kcore_def set_buf_def set_dpb_def set_req_def)

lemma kcore_move [simp]: "kcore (move_buffer bp first s) = kcore s"
  by (simp add: move_buffer_def Let_def)

lemma kcore_small [simp]:
  "kcore (put_byte bp i v s) = kcore s" "kcore (mark_dirty bp s) = kcore s"
  by (simp_all add: put_byte_def mark_dirty_def)

lemma kcore_dskxfer: "dskxfer E dsk b seg m n mode s = Some (st, d, s') \<Longrightarrow> kcore s' = kcore s"
  by (auto dest!: dskxfer_io_only simp: io_only_def kcore_def)

section \<open>The block cache\<close>

definition kcore_of :: "('r \<Rightarrow> 'w kernel) \<Rightarrow> 'r + 'a \<times> 'w diskio \<Rightarrow> 'w kernel" where
  "kcore_of K y = (case y of Inl r \<Rightarrow> K r | Inr as \<Rightarrow> kcore (snd as))"

lemma kcore_ring_do:
  assumes "ring_do body bp a s = Some y"
  shows "(\<forall>x a s y. body x a s = Some y \<longrightarrow> kcore_of K y = kcore s) \<longrightarrow> kcore_of K y = kcore s"
proof (rule ring_do.raw_induct[where P = "\<lambda>body bp a s y.
    (\<forall>x a s y. body x a s = Some y \<longrightarrow> kcore_of K y = kcore s) \<longrightarrow> kcore_of K y = kcore s", OF _ assms], intro impI)
  fix f body bp a s y
  assume IH: "\<And>body bp a s y. f body bp a s = Some y \<Longrightarrow>
      (\<forall>x a s y. body x a s = Some y \<longrightarrow> kcore_of K y = kcore s) \<longrightarrow> kcore_of K y = kcore s"
    and step: "Option.bind (body bp a s) (\<lambda>r. case r of Inl x \<Rightarrow> Some (Inl x)
        | Inr as \<Rightarrow> let bp1 = b_next (bufs (snd as) bp) in
            if bp1 = firstbuf (snd as) then Some (Inr as) else f body bp1 (fst as) (snd as)) = Some y"
    and body: "\<forall>x a s y. body x a s = Some y \<longrightarrow> kcore_of K y = kcore s"
  obtain r where r: "body bp a s = Some r" using step by (cases "body bp a s") auto
  then have k: "kcore_of K r = kcore s" using body by blast
  show "kcore_of K y = kcore s"
  proof (cases r)
    case (Inl x)
    then show ?thesis using step r k by (simp add: kcore_of_def)
  next
    case (Inr as)
    show ?thesis
    proof (cases "b_next (bufs (snd as) bp) = firstbuf (snd as)")
      case True
      then show ?thesis using step r Inr k by (simp add: Let_def)
    next
      case False
      then have "f body (b_next (bufs (snd as) bp)) (fst as) (snd as) = Some y" using step r Inr by (simp add: Let_def)
      from IH[OF this, THEN mp, OF body] show ?thesis using k Inr by (simp add: kcore_of_def)
    qed
  qed
qed

lemma kcore_search: "searchblock b d s = Some (x, s') \<Longrightarrow> kcore s' = kcore s"
proof -
  assume a: "searchblock b d s = Some (x, s')"
  let ?z = "\<lparr>fat_count = 0, lastNonFat = 0, uncacheBuf = 0\<rparr>"
  obtain y where y: "ring_do (search_body b d (firstbuf s)) (firstbuf s) ?z s = Some y"
    using a by (cases "ring_do (search_body b d (firstbuf s)) (firstbuf s) ?z s") (auto simp: searchblock_def Let_def)
  have "\<forall>x a s2 y. search_body b d (firstbuf s) x a s2 = Some y \<longrightarrow> kcore_of (\<lambda>r. kcore (snd r)) y = kcore s2"
    by (auto simp: search_body_def Let_def kcore_of_def split: if_splits)
  then have "kcore_of (\<lambda>r. kcore (snd r)) y = kcore s" using kcore_ring_do[OF y, of "\<lambda>r. kcore (snd r)"] by blast
  then show ?thesis using a y by (auto simp: searchblock_def Let_def kcore_of_def split: sum.splits if_splits)
qed

lemma kcore_copies: "write_copies E x n b off ok s = Some (r, s') \<Longrightarrow> kcore s' = kcore s"
  by (induction E x n b off ok s rule: write_copies.induct) (auto split: Option.bind_splits dest!: kcore_dskxfer)

lemma kcore_flush1: "flush1 E x s = Some (ok, s') \<Longrightarrow> kcore s' = kcore s"
  by (auto simp: flush1_def Let_def split: Option.bind_splits if_splits dest!: kcore_copies kcore_dskxfer)

lemma kcore_getblk: "getblk E b d ov s = Some (r, s') \<Longrightarrow> kcore s' = kcore s"
  by (auto simp: getblk_def Let_def split: Option.bind_splits if_splits
      dest!: kcore_search kcore_flush1 kcore_dskxfer)

lemma kcore_getblock: "getblock E b d s = Some (r, s') \<Longrightarrow> kcore s' = kcore s"
  by (simp add: getblock_def kcore_getblk)

lemma kcore_getFATblock: "getFATblock E dp b s = Some (r, s') \<Longrightarrow> kcore s' = kcore s"
  by (auto simp: getFATblock_def Let_def split: Option.bind_splits option.splits dest!: kcore_getblock)

lemma kcore_ring_state:
  assumes a: "ring_state (ring_do body bp a s) = Some (a', s')"
    and body: "\<And>x a s y. body x a s = Some y \<Longrightarrow> \<exists>a' s'. y = Inr (a', s') \<and> kcore s' = kcore s"
  shows "kcore s' = kcore s"
proof -
  obtain y where y: "ring_do body bp a s = Some y" "y = Inr (a', s')"
    using a by (auto simp: ring_state_def split: option.splits sum.splits)
  have "\<forall>x a s y. body x a s = Some y \<longrightarrow> kcore_of K y = kcore s" for K
    using body by (fastforce simp: kcore_of_def)
  then have "kcore_of K y = kcore s" for K using kcore_ring_do[OF y(1), of K] by blast
  then show ?thesis using y(2) by (simp add: kcore_of_def)
qed

lemma kcore_delete: "DeleteBlockInBufferCache E lo hi d mode s = Some s' \<Longrightarrow> kcore s' = kcore s"
  unfolding DeleteBlockInBufferCache_def map_option_eq_Some
  by (clarsimp, drule kcore_ring_state)
    (auto simp: Let_def split: if_splits Option.bind_splits dest!: kcore_flush1)

lemma kcore_flush_buffers: "flush_buffers E d s = Some (ok, s') \<Longrightarrow> kcore s' = kcore s"
  unfolding flush_buffers_def
  by (drule kcore_ring_state) (auto split: if_splits Option.bind_splits dest!: kcore_flush1)

section \<open>The file allocation table\<close>

lemma kcore_fsinfo: "fsinfo_block E dp c s = Some (Inr (x, s')) \<Longrightarrow> kcore s' = kcore s"
  by (auto simp: fsinfo_block_def split: Option.bind_splits option.splits dest!: kcore_getblock)

lemma kcore_write_fsinfo: "write_fsinfo E dp s = Some (Inr s') \<Longrightarrow> kcore s' = kcore s"
  by (auto simp: write_fsinfo_def Let_def split: Option.bind_splits if_splits dest!: kcore_fsinfo)

lemma kcore_link12: "link12 E dp c1 c2 bp i b s = Some (q, s') \<Longrightarrow> kcore s' = kcore s"
  by (auto simp: link12_def Let_def split: Option.bind_splits if_splits option.splits dest!: kcore_getFATblock)

lemma kcore_link16: "link16 c2 bp i s = (q, s') \<Longrightarrow> kcore s' = kcore s"
  by (auto simp: link16_def Let_def split: if_splits)

lemma kcore_link32: "link32 c2 bp i s = (q, s') \<Longrightarrow> kcore s' = kcore s"
  by (auto simp: link32_def Let_def split: if_splits)

lemma kcore_count_free: "count_free E dp c2 w s = Some (Inr s') \<Longrightarrow> kcore s' = kcore s"
  by (auto simp: count_free_def Let_def split: if_splits dest!: kcore_write_fsinfo)

lemma kcore_link_fat: "link_fat E dp c1 c2 s = Some (Inr (v, s')) \<Longrightarrow> kcore s' = kcore s"
  by (auto simp: link_fat_def Let_def split: Option.bind_splits option.splits if_splits prod.splits sum.splits
      dest!: kcore_getFATblock kcore_link12 kcore_link16 kcore_link32 kcore_count_free)

lemma kcore_next: "next_cluster E dp c s = Some (Inr (v, s')) \<Longrightarrow> kcore s' = kcore s"
  by (auto simp: next_cluster_def Let_def bindE_def split: Option.bind_splits if_splits prod.splits sum.splits
      dest!: kcore_link_fat)

lemma kcore_is_free: "is_free_cluster E dp c s = Some (Inr (v, s')) \<Longrightarrow> kcore s' = kcore s"
  by (auto simp: is_free_cluster_def split: Option.bind_splits dest!: kcore_link_fat)

section \<open>Chains\<close>

lemma kcore_find_loop: "find_fat_loop E dp sz cl idx s = Some (Inr (r, c, s')) \<Longrightarrow> kcore s' = kcore s"
proof -
  have "(\<forall>r c s'. y = Inr (r, c, s') \<longrightarrow> kcore s' = kcore s)" if "find_fat_loop E dp sz cl idx s = Some y" for y
    using that
  proof (rule find_fat_loop.raw_induct[where P = "\<lambda>E dp sz cl idx s y. \<forall>r c s'. y = Inr (r, c, s') \<longrightarrow> kcore s' = kcore s", rotated])
  qed (fastforce split: Option.bind_splits sum.splits prod.splits if_splits dest!: kcore_is_free simp: Let_def)
  then show "find_fat_loop E dp sz cl idx s = Some (Inr (r, c, s')) \<Longrightarrow> kcore s' = kcore s" by blast
qed

lemma kcore_find_free: "find_fat_free E dp s = Some (Inr (r, s')) \<Longrightarrow> kcore s' = kcore s"
  by (auto simp: find_fat_free_def Let_def split: Option.bind_splits sum.splits if_splits
      dest!: kcore_find_loop kcore_write_fsinfo)

lemma kcore_extend: "extend_file E f s = Some (Inr (r, f', s')) \<Longrightarrow> kcore s' = kcore s"
  by (auto simp: extend_file_def Let_def split: Option.bind_splits sum.splits if_splits
      dest!: kcore_find_free kcore_link_fat kcore_next)

lemma kcore_map_loop: "map_loop E mode rel f s = Some (Inr (r, f', s')) \<Longrightarrow> kcore s' = kcore s"
proof -
  have "(\<forall>r f' s'. y = Inr (r, f', s') \<longrightarrow> kcore s' = kcore s)" if "map_loop E mode rel f s = Some y" for y
    using that
  proof (rule map_loop.raw_induct[where P = "\<lambda>E mode rel f s y. \<forall>r f' s'. y = Inr (r, f', s') \<longrightarrow> kcore s' = kcore s", rotated])
  qed (fastforce split: Option.bind_splits sum.splits prod.splits if_splits dest!: kcore_next kcore_extend simp: Let_def)
  then show "map_loop E mode rel f s = Some (Inr (r, f', s')) \<Longrightarrow> kcore s' = kcore s" by blast
qed

lemma kcore_map_cluster: "map_cluster E mode f s = Some (Inr (r, f', s')) \<Longrightarrow> kcore s' = kcore s"
  by (auto simp: map_cluster_def map_from_def Let_def split: Option.bind_splits sum.splits if_splits
      dest!: kcore_extend kcore_map_loop)

lemma kcore_wipe_out_clusters: "wipe_out_clusters E dp st s = Some (Inr s') \<Longrightarrow> kcore s' = kcore s"
proof -
  have "(\<forall>s'. y = Inr s' \<longrightarrow> kcore s' = kcore s)" if "wipe_out_clusters E dp st s = Some y" for y
    using that
  proof (rule wipe_out_clusters.raw_induct[where P = "\<lambda>E dp st s y. \<forall>s'. y = Inr s' \<longrightarrow> kcore s' = kcore s", rotated])
  qed (fastforce split: Option.bind_splits sum.splits prod.splits if_splits
      dest!: kcore_next kcore_link_fat kcore_write_fsinfo simp: Let_def)
  then show "wipe_out_clusters E dp st s = Some (Inr s') \<Longrightarrow> kcore s' = kcore s" by blast
qed

lemma kcore_shrink: "shrink_file E f s = Some (Inr (r, f', s')) \<Longrightarrow> kcore s' = kcore s"
  by (auto simp: shrink_file_def Let_def split: Option.bind_splits sum.splits if_splits
      dest!: kcore_map_cluster kcore_next kcore_link_fat kcore_wipe_out_clusters kcore_flush_buffers)

end
