(* ===== verification/Fileio_Proofs.thy ===== *)
theory Fileio_Proofs
  imports Fileio_Frame
begin

text \<open>
  The transfer of file data over a reliable driver: transfers of several sectors, the sectors of
  a file along its chain, and what each round of the loop of \<open>rwblock\<close> does.
\<close>

section \<open>Transfers of several sectors\<close>

text \<open>A driver that reads and writes any number of sectors, and nothing beyond them.\<close>

definition sectors_of :: "nat \<Rightarrow> nat \<Rightarrow> (32 word \<Rightarrow> bytes) \<Rightarrow> 32 word \<Rightarrow> bytes \<Rightarrow> bytes" where
  "sectors_of n k D b m = (\<lambda>j. if j < k * n then D (b + of_nat (j div n)) (j mod n) else m j)"

definition store_sectors :: "nat \<Rightarrow> nat \<Rightarrow> 32 word \<Rightarrow> bytes \<Rightarrow> (32 word \<Rightarrow> bytes) \<Rightarrow> 32 word \<Rightarrow> bytes" where
  "store_sectors n k b m D =
     (\<lambda>v. if unat (v - b) < k then sector n (from_byte (n * unat (v - b)) m) else D v)"

definition reliable_all :: "'w driver \<Rightarrow> nat \<Rightarrow> 'w disk_reader \<Rightarrow> bool" where
  "reliable_all E n rd \<longleftrightarrow> (\<forall>r dev w r' w'. r_count r \<noteq> 0 \<longrightarrow> E r dev w = (r', w') \<longrightarrow>
     r_command r \<in> {CMD_INPUT, CMD_OUTPUT, CMD_OUTVFY} \<longrightarrow>
       r_status r' AND (S_ERROR OR S_DONE) = S_DONE
       \<and> (r_command r = CMD_INPUT \<longrightarrow> rd w' = rd w
            \<and> r_trans r' = sectors_of n (unat (r_count r)) (rd w (dev, r_unit r)) (request_block r) (r_trans r))
       \<and> (r_command r \<noteq> CMD_INPUT \<longrightarrow> r_trans r' = r_trans r
            \<and> rd w' = (rd w)((dev, r_unit r) :=
                 store_sectors n (unat (r_count r)) (request_block r) (r_trans r) (rd w (dev, r_unit r)))))"

lemma store_one: "store_sectors n (Suc 0) b m D = D(b := sector n m)"
proof
  fix v
  have "unat (v - b) = 0 \<longleftrightarrow> v = b" by (metis diff_self right_minus_eq unat_0 unat_eq_zero)
  then show "store_sectors n (Suc 0) b m D v = (D(b := sector n m)) v"
    by (simp add: store_sectors_def from_byte_def)
qed

lemma sectors_one: "0 < n \<Longrightarrow> sector n (sectors_of n (Suc 0) D b m) = sector n (D b)"
  by (auto simp: sectors_of_def sector_def fun_eq_iff)

lemma reliable_all_one: "reliable_all E n rd \<Longrightarrow> 0 < n \<Longrightarrow> reliable E n rd"
  unfolding reliable_all_def reliable_def
proof (intro allI impI)
  fix r dev w r' w'
  assume R: "\<forall>r dev w r' w'. r_count r \<noteq> 0 \<longrightarrow> E r dev w = (r', w') \<longrightarrow>
     r_command r \<in> {CMD_INPUT, CMD_OUTPUT, CMD_OUTVFY} \<longrightarrow>
       r_status r' AND (S_ERROR OR S_DONE) = S_DONE
       \<and> (r_command r = CMD_INPUT \<longrightarrow> rd w' = rd w
            \<and> r_trans r' = sectors_of n (unat (r_count r)) (rd w (dev, r_unit r)) (request_block r) (r_trans r))
       \<and> (r_command r \<noteq> CMD_INPUT \<longrightarrow> r_trans r' = r_trans r
            \<and> rd w' = (rd w)((dev, r_unit r) :=
                 store_sectors n (unat (r_count r)) (request_block r) (r_trans r) (rd w (dev, r_unit r))))"
    and n: "0 < n" and one: "r_count r = 1" and e: "E r dev w = (r', w')"
    and c: "r_command r \<in> {CMD_INPUT, CMD_OUTPUT, CMD_OUTVFY}"
  have u: "unat (r_count r) = Suc 0" and nz: "r_count r \<noteq> 0" using one by simp_all
  show "r_status r' AND (S_ERROR OR S_DONE) = S_DONE
       \<and> (r_command r = CMD_INPUT \<longrightarrow>
            rd w' = rd w \<and> sector n (r_trans r') = sector n (rd w (dev, r_unit r) (request_block r)))
       \<and> (r_command r \<noteq> CMD_INPUT \<longrightarrow> r_trans r' = r_trans r
            \<and> rd w' = (rd w)((dev, r_unit r) := (rd w (dev, r_unit r))(request_block r := sector n (r_trans r))))"
    using R[rule_format, OF nz e c] sectors_one[OF n, of "rd w (dev, r_unit r)" "request_block r" "r_trans r"]
    unfolding u store_one by simp
qed

lemma xfer_call_all:
  assumes rel: "reliable_all E n rd" and n: "unat (dpb_secsize (dpbs s dp)) = n" "0 < n" and k: "k \<noteq> 0"
    and r: "r_count (IoReqHdr s) = k" "r_command (IoReqHdr s) = cmd" "r_unit (IoReqHdr s) = dpb_subunit (dpbs s dp)"
    and cmd: "cmd = (if mode = DSKREAD then CMD_INPUT else if verify_ena s then CMD_OUTVFY else CMD_OUTPUT)"
    and mode: "mode = DSKREAD \<or> mode = DSKWRITE"
    and c: "xfer_call E dp seg data k mode s = (d, s')"
  shows "r_status (IoReqHdr s') AND (S_ERROR OR S_DONE) = S_DONE"
    "mode = DSKREAD \<Longrightarrow> rd (world (kern s')) = rd (world (kern s))
       \<and> d = sectors_of n (unat k) (rd (world (kern s)) (drive_key s dp)) (request_block (IoReqHdr s)) data"
    "mode = DSKWRITE \<Longrightarrow> d = data
       \<and> rd (world (kern s')) = (rd (world (kern s)))(drive_key s dp :=
            store_sectors n (unat k) (request_block (IoReqHdr s)) data (rd (world (kern s)) (drive_key s dp)))"
proof -
  let ?b = "0xa000 \<le> seg \<and> k = 1 \<and> bufloc s \<noteq> 0"
  define dev where "dev = dpb_device (kern s) dp"
  define t where "t = (if ?b then if mode = DSKWRITE then copy_bytes n data (deblock_buf s) else deblock_buf s else data)"
  obtain r' w' where e: "E ((IoReqHdr s)\<lparr>r_trans := t\<rparr>) dev (world (kern s)) = (r', w')"
    by (cases "E ((IoReqHdr s)\<lparr>r_trans := t\<rparr>) dev (world (kern s))")
  let ?r = "(IoReqHdr s)\<lparr>r_trans := t\<rparr>"
  have cm: "r_command ?r \<in> {CMD_INPUT, CMD_OUTPUT, CMD_OUTVFY}" "r_command ?r = CMD_INPUT \<longleftrightarrow> mode = DSKREAD"
    and rc: "r_count ?r \<noteq> 0" "r_count ?r = k"
    using r cmd mode k by (auto simp: req_defs)
  have b: "request_block ?r = request_block (IoReqHdr s)" by (simp add: request_block_def)
  have key: "drive_key s dp = (dev, r_unit ?r)" using r by (simp add: drive_key_def dev_def)
  have run: "IoReqHdr s' = r' \<and> world (kern s') = w'
      \<and> d = (if ?b then if mode = DSKREAD then copy_bytes n (r_trans r') data else data else r_trans r')"
  proof (cases ?b)
    case True
    then have k1: "k = 1" by simp
    show ?thesis using xfer_call_deblock[OF _ _ n(1) refl _ c[unfolded k1]] e True by (simp add: t_def dev_def)
  next
    case False
    let ?s2 = "execrh E dev (set_req (\<lambda>r. r\<lparr>r_trans := data\<rparr>) s)"
    have "(d, s') = (r_trans (IoReqHdr ?s2), ?s2)"
      using c unfolding xfer_call_def Let_def if_not_P[OF False] dev_def by (rule sym)
    moreover have "IoReqHdr ?s2 = r' \<and> world (kern ?s2) = w'"
      by (rule execrh_run) (use e False in \<open>simp add: t_def\<close>)
    ultimately show ?thesis using False by auto
  qed
  note R = rel[unfolded reliable_all_def, rule_format, OF rc(1) e cm(1), unfolded rc(2) b cm(2) key[symmetric]]
  show "r_status (IoReqHdr s') AND (S_ERROR OR S_DONE) = S_DONE" using R run by simp
  { assume m: "mode = DSKREAD"
    have d: "d = (if ?b then copy_bytes n (r_trans r') data else r_trans r')" using run m by simp
    have "d = sectors_of n (unat k) (rd (world (kern s)) (drive_key s dp)) (request_block (IoReqHdr s)) data"
    proof (cases ?b)
      case True
      then have "unat k = 1" by simp
      then show ?thesis using d True R m by (auto simp: sectors_of_def copy_bytes_def fun_eq_iff)
    next
      case False
      then have "t = data" by (auto simp: t_def)
      then show ?thesis using d R m unfolding if_not_P[OF False] by simp
    qed
    then show "rd (world (kern s')) = rd (world (kern s))
       \<and> d = sectors_of n (unat k) (rd (world (kern s)) (drive_key s dp)) (request_block (IoReqHdr s)) data"
      using R run m by simp }
  { assume m: "mode = DSKWRITE"
    then have m': "mode \<noteq> DSKREAD" by (simp add: dsk_defs)
    have rt: "r_trans r' = t" "rd w' = (rd (world (kern s)))(drive_key s dp :=
            store_sectors n (unat k) (request_block (IoReqHdr s)) t (rd (world (kern s)) (drive_key s dp)))"
      using R m' by simp_all
    have "store_sectors n (unat k) (request_block (IoReqHdr s)) t D
        = store_sectors n (unat k) (request_block (IoReqHdr s)) data D" for D
      by (cases ?b) (auto simp: t_def m store_one)
    then show "d = data \<and> rd (world (kern s')) = (rd (world (kern s)))(drive_key s dp :=
            store_sectors n (unat k) (request_block (IoReqHdr s)) data (rd (world (kern s)) (drive_key s dp)))"
      using rt run m' m by (cases ?b) (auto simp: t_def) }
qed

lemma dskxfer_all:
  assumes rel: "reliable_all E n rd" and g: "get_dpb dsk s = Some dp" and n: "unat (dpb_secsize (dpbs s dp)) = n" "0 < n"
    and k: "k \<noteq> 0"
  shows "\<exists>s'. dskxfer E dsk blkno seg data k DSKREAD s =
        Some (0, sectors_of n (unat k) (rd (world (kern s)) (drive_key s dp)) blkno data, s')
      \<and> io_only s s' \<and> rd (world (kern s')) = rd (world (kern s))"
    and "\<exists>s'. dskxfer E dsk blkno seg data k DSKWRITE s = Some (0, data, s') \<and> io_only s s'
      \<and> rd (world (kern s')) = (rd (world (kern s)))(drive_key s dp :=
           store_sectors n (unat k) blkno data (rd (world (kern s)) (drive_key s dp)))"
proof -
  let ?s0 = "set_req (\<lambda>r. r\<lparr>r_length := 30, r_unit := dpb_subunit (dpbs s dp)\<rparr>) s"
  have main: "\<exists>d s'. dskxfer E dsk blkno seg data k mode s = Some (0, d, s') \<and> io_only s s'
      \<and> (mode = DSKREAD \<longrightarrow> rd (world (kern s')) = rd (world (kern s))
            \<and> d = sectors_of n (unat k) (rd (world (kern s)) (drive_key s dp)) blkno data)
      \<and> (mode = DSKWRITE \<longrightarrow> d = data \<and> rd (world (kern s')) = (rd (world (kern s)))(drive_key s dp :=
           store_sectors n (unat k) blkno data (rd (world (kern s)) (drive_key s dp))))"
    if mode: "mode = DSKREAD \<or> mode = DSKWRITE" for mode
  proof -
    define cmd where "cmd = (if mode = DSKREAD then CMD_INPUT else if verify_ena s then CMD_OUTVFY else CMD_OUTPUT)"
    have x: "xfer_command mode (verify_ena s) = Some cmd"
      using mode by (auto simp: xfer_command_def cmd_def dsk_defs)
    let ?s1 = "xfer_request dp cmd blkno k ?s0"
    obtain d s' where c: "xfer_call E dp seg data k mode ?s1 = (d, s')" by (cases "xfer_call E dp seg data k mode ?s1")
    have v: "verify_ena ?s1 = verify_ena s" by (simp add: xfer_request_def set_req_def Let_def)
    have key: "drive_key ?s1 dp = drive_key s dp" by (simp add: drive_key_def xfer_request_simps)
    note R = xfer_call_all[OF rel _ n(2) k _ _ _ _ mode c, of cmd, unfolded v key xfer_request_simps]
    have st: "r_status (IoReqHdr s') AND (S_ERROR OR S_DONE) = S_DONE"
      using R(1) n by (simp add: cmd_def)
    then have e: "xfer_once E dp blkno seg data k mode s = (0, d, s')"
      using x c by (simp add: xfer_once_def Let_def)
    have "io_only s s'" using xfer_once_io_only[of s E dp blkno seg data k mode] e by simp
    moreover have "dskxfer E dsk blkno seg data k mode s = Some (0, d, s')"
      by (simp only: dskxfer_eq g option.case e)
    moreover have "mode = DSKREAD \<longrightarrow> rd (world (kern s')) = rd (world (kern s))
            \<and> d = sectors_of n (unat k) (rd (world (kern s)) (drive_key s dp)) blkno data"
      using R(2) n by (simp add: cmd_def)
    moreover have "mode = DSKWRITE \<longrightarrow> d = data \<and> rd (world (kern s')) = (rd (world (kern s)))(drive_key s dp :=
           store_sectors n (unat k) blkno data (rd (world (kern s)) (drive_key s dp)))"
      using R(3) n by (simp add: cmd_def)
    ultimately show ?thesis by blast
  qed
  show "\<exists>s'. dskxfer E dsk blkno seg data k DSKREAD s =
        Some (0, sectors_of n (unat k) (rd (world (kern s)) (drive_key s dp)) blkno data, s')
      \<and> io_only s s' \<and> rd (world (kern s')) = rd (world (kern s))"
    using main[of DSKREAD] by auto
  show "\<exists>s'. dskxfer E dsk blkno seg data k DSKWRITE s = Some (0, data, s') \<and> io_only s s'
      \<and> rd (world (kern s')) = (rd (world (kern s)))(drive_key s dp :=
           store_sectors n (unat k) blkno data (rd (world (kern s)) (drive_key s dp)))"
    using main[of DSKWRITE] by (auto simp: dsk_defs)
qed

section \<open>Buffers of a range of blocks\<close>

definition in_range :: "16 word \<Rightarrow> 32 word \<Rightarrow> 32 word \<Rightarrow> buffer \<Rightarrow> bool" where
  "in_range d lo hi b \<longleftrightarrow> lo \<le> b_blkno b \<and> b_blkno b \<le> hi \<and> b_valid b \<and> scast (b_unit b) = d"

definition flush_range :: "'w driver \<Rightarrow> 32 word \<Rightarrow> 32 word \<Rightarrow> 16 word \<Rightarrow> 16 word \<Rightarrow> unit \<Rightarrow> 'w diskio
    \<Rightarrow> (unit + unit \<times> 'w diskio) option" where
  "flush_range E lo hi d bp a s =
     (if in_range d lo hi (bufs s bp) then do { (ok, s1) \<leftarrow> flush1 E bp s; Some (Inr ((), s1)) } else Some (Inr ((), s)))"

lemma delete_read_list:
  assumes "lru s os"
  shows "DeleteBlockInBufferCache E lo hi d XFR_READ s = map_option snd (ring_state (list_do (flush_range E lo hi d) os () s))"
proof -
  have "(\<lambda>bp (a :: unit) s. let b = bufs s bp in
       if lo \<le> b_blkno b \<and> b_blkno b \<le> hi \<and> flag_set (b_flag b) BFR_VALID \<and> scast (b_unit b) = d then
         if XFR_READ = XFR_READ then do { (ok, s1) \<leftarrow> flush1 E bp s; Some (Inr ((), s1)) }
         else Some (Inr ((), set_buf bp (\<lambda>b. b\<lparr>b_flag := 0\<rparr>) s))
       else Some (Inr ((), s) :: unit + unit \<times> 'a diskio)) = flush_range E lo hi d"
    by (auto simp: fun_eq_iff flush_range_def in_range_def Let_def)
  moreover have "keeps_links (flush_range E lo hi d)"
    using flush1_same_links
    by (fastforce simp: keeps_links_def flush_range_def same_links_def split: Option.bind_splits if_splits)
  ultimately show ?thesis unfolding DeleteBlockInBufferCache_def using ring_do_list[OF _ assms] by metis
qed

lemma flush_range_list:
  assumes rel: "reliable E n rd"
  shows "cache_ok n rd V s os \<Longrightarrow> set xs \<subseteq> set os \<Longrightarrow>
    \<exists>s'. list_do (flush_range E lo hi d) xs () s = Some (Inr ((), s')) \<and> cache_ok n rd V s' os
      \<and> (\<forall>v \<in> V. view n rd s' os v = view n rd s os v) \<and> dpbs s' = dpbs s
      \<and> (\<forall>y. b_valid (bufs s' y) = b_valid (bufs s y) \<and> buf_id (bufs s' y) = buf_id (bufs s y)
             \<and> (b_dirty (bufs s' y) \<longrightarrow> b_dirty (bufs s y) \<and> (y \<in> set xs \<longrightarrow> \<not> in_range d lo hi (bufs s y))))"
proof (induction xs arbitrary: s)
  case (Cons x xs)
  show ?case
  proof (cases "in_range d lo hi (bufs s x)")
    case True
    obtain s1 where s1: "flush1 E x s = Some (True, s1)" "cache_ok n rd V s1 os"
       "\<forall>v \<in> V. view n rd s1 os v = view n rd s os v" "bufs s1 = flagged x (\<lambda>g. g AND NOT BFR_DIRTY) (bufs s)" "dpbs s1 = dpbs s"
      using flush1_ok[OF rel Cons.prems(1), of x] Cons.prems(2) by auto
    have b: "b_valid (bufs s1 y) = b_valid (bufs s y)" "buf_id (bufs s1 y) = buf_id (bufs s y)"
      "b_dirty (bufs s1 y) = (y \<noteq> x \<and> b_dirty (bufs s y))" "in_range d lo hi (bufs s1 y) = in_range d lo hi (bufs s y)" for y
      by (auto simp: s1(4) flagged_def flag_simps buf_id_def in_range_def)
    have xs: "set xs \<subseteq> set os" using Cons.prems(2) by simp
    obtain s' where s': "list_do (flush_range E lo hi d) xs () s1 = Some (Inr ((), s'))" "cache_ok n rd V s' os"
      "\<forall>v \<in> V. view n rd s' os v = view n rd s1 os v" "dpbs s' = dpbs s1"
      "\<forall>y. b_valid (bufs s' y) = b_valid (bufs s1 y) \<and> buf_id (bufs s' y) = buf_id (bufs s1 y)
             \<and> (b_dirty (bufs s' y) \<longrightarrow> b_dirty (bufs s1 y) \<and> (y \<in> set xs \<longrightarrow> \<not> in_range d lo hi (bufs s1 y)))"
      using Cons.IH[OF s1(2) xs] by blast
    have "list_do (flush_range E lo hi d) (x # xs) () s = Some (Inr ((), s'))"
      using s'(1) s1(1) True by (simp add: flush_range_def[of E lo hi d x])
    moreover have "\<forall>v \<in> V. view n rd s' os v = view n rd s os v" using s'(3) s1(3) by simp
    moreover have "\<forall>y. b_valid (bufs s' y) = b_valid (bufs s y) \<and> buf_id (bufs s' y) = buf_id (bufs s y)
             \<and> (b_dirty (bufs s' y) \<longrightarrow> b_dirty (bufs s y) \<and> (y \<in> set (x # xs) \<longrightarrow> \<not> in_range d lo hi (bufs s y)))"
      using s'(5) unfolding b by auto
    ultimately show ?thesis using s'(2,4) s1(5) by auto
  next
    case False
    then have f: "flush_range E lo hi d x () s = Some (Inr ((), s))" by (simp add: flush_range_def)
    show ?thesis using Cons.IH[OF Cons.prems(1)] Cons.prems(2) False by (auto simp: f)
  qed
qed simp

lemma delete_read_ok:
  assumes rel: "reliable E n rd" and ok: "cache_ok n rd V s os"
  shows "\<exists>s'. DeleteBlockInBufferCache E lo hi d XFR_READ s = Some s' \<and> cache_ok n rd V s' os
      \<and> (\<forall>v \<in> V. view n rd s' os v = view n rd s os v) \<and> dpbs s' = dpbs s
      \<and> (\<forall>b. lo \<le> b \<longrightarrow> b \<le> hi \<longrightarrow> (d, b) \<in> V \<longrightarrow> disk n rd s' (d, b) = view n rd s' os (d, b))"
proof -
  obtain s' where s': "list_do (flush_range E lo hi d) os () s = Some (Inr ((), s'))" "cache_ok n rd V s' os"
      "\<forall>v \<in> V. view n rd s' os v = view n rd s os v" "dpbs s' = dpbs s"
      "\<And>y. b_valid (bufs s' y) = b_valid (bufs s y)" "\<And>y. buf_id (bufs s' y) = buf_id (bufs s y)"
      "\<And>y. b_dirty (bufs s' y) \<Longrightarrow> y \<in> set os \<Longrightarrow> \<not> in_range d lo hi (bufs s y)"
    using flush_range_list[OF rel ok order_refl] by blast
  have "lru s os" using ok by (simp add: cache_ok_def)
  then have "DeleteBlockInBufferCache E lo hi d XFR_READ s = Some s'"
    unfolding delete_read_list[OF \<open>lru s os\<close>] s'(1) by (simp add: ring_state_def)
  moreover have "disk n rd s' (d, b) = view n rd s' os (d, b)" if b: "lo \<le> b" "b \<le> hi" "(d, b) \<in> V" for b
  proof (cases "\<exists>x \<in> set os. b_valid (bufs s' x) \<and> buf_id (bufs s' x) = (d, b)")
    case True
    then obtain x where x: "x \<in> set os" "b_valid (bufs s' x)" "buf_id (bufs s' x) = (d, b)" by blast
    then have "in_range d lo hi (bufs s x)" using b s'(5,6) by (auto simp: in_range_def buf_id_def)
    then have "\<not> b_dirty (bufs s' x)" using s'(7) x(1) by blast
    then show ?thesis using s'(2) x view_hit[OF s'(2) x(1,2)] by (auto simp: cache_ok_def buffer_ok_def)
  qed (use view_miss[of os s' "(d, b)" n rd] in auto)
  ultimately show ?thesis using s'(2-4) by blast
qed

section \<open>Sectors of a file\<close>

definition spc :: "dpb \<Rightarrow> nat" where
  "spc d = 2 ^ unat (dpb_shftcnt d)"

definition data_block :: "dpb \<Rightarrow> nat \<Rightarrow> nat \<Rightarrow> block_id" where
  "data_block d cl j = (vol_unit d, clus2phys (of_nat cl) d + of_nat j)"

text \<open>The volume's clusters are a power of two of sectors, which lie outside the table.\<close>

definition data_vol :: "block_id set \<Rightarrow> dpb \<Rightarrow> bool" where
  "data_vol V d \<longleftrightarrow> unat (dpb_shftcnt d) \<le> 7 \<and> unat (dpb_clsmask d) = spc d - 1
     \<and> (\<forall>c j. in_vol d c \<longrightarrow> j < spc d \<longrightarrow> data_block d c j \<in> V - fat_blocks d)"

definition file_block :: "dpb \<Rightarrow> nat list \<Rightarrow> nat \<Rightarrow> block_id" where
  "file_block d cs q = data_block d (cs ! (q div spc d)) (q mod spc d)"

definition file_byte :: "'w disk_reader \<Rightarrow> 'w diskio \<Rightarrow> 16 word list \<Rightarrow> 32 word \<Rightarrow> nat list \<Rightarrow> nat \<Rightarrow> 8 word" where
  "file_byte rd s os dp cs p = view 512 rd s os (file_block (dpbs s dp) cs (p div 512)) (p mod 512)"

definition capacity :: "dpb \<Rightarrow> nat list \<Rightarrow> nat" where
  "capacity d cs = length cs * (spc d * 512)"

text \<open>A step that reads: nothing the cache shows has changed.\<close>

definition quiet :: "'w disk_reader \<Rightarrow> block_id set \<Rightarrow> 32 word \<Rightarrow> 'w diskio \<Rightarrow> 16 word list \<Rightarrow> 'w diskio \<Rightarrow> 16 word list \<Rightarrow> bool" where
  "quiet rd V dp s os s' os' \<longleftrightarrow> fat_ok rd V dp s' os' \<and> fat_bytes rd s' os' dp = fat_bytes rd s os dp
     \<and> data_kept rd V (dpbs s dp) s os s' os' \<and> dpbs s' = dpbs s \<and> kcore s' = kcore s"

lemma quiet_refl: "fat_ok rd V dp s os \<Longrightarrow> quiet rd V dp s os s os"
  by (simp add: quiet_def data_kept_def)

lemma quiet_trans: "quiet rd V dp s os s1 os1 \<Longrightarrow> quiet rd V dp s1 os1 s2 os2 \<Longrightarrow> quiet rd V dp s os s2 os2"
  by (simp add: quiet_def data_kept_def)

lemma quiet_view:
  assumes "fat_ok rd V dp s' os'" "fat_vol V (dpbs s dp)" "\<forall>v \<in> V. view 512 rd s' os' v = view 512 rd s os v"
    "dpbs s' = dpbs s" "kcore s' = kcore s"
  shows "quiet rd V dp s os s' os'"
  using assms fat_bytes_view[OF assms(3,4,2)] data_kept_view[OF assms(3)] by (simp add: quiet_def)

lemma quiet_run:
  assumes "fat_run rd V dp s os s' os' F" "F = fat_bytes rd s os dp" "dpbs s' = dpbs s" "kcore s' = kcore s"
  shows "quiet rd V dp s os s' os'"
  using assms by (simp add: quiet_def fat_run_def fat_step_def)

lemma quiet_byte:
  assumes q: "quiet rd V dp s os s' os'" and vol: "data_vol V (dpbs s dp)"
    and cs: "\<forall>c \<in> set cs. in_vol (dpbs s dp) c" and p: "p < capacity (dpbs s dp) cs"
  shows "file_byte rd s' os' dp cs p = file_byte rd s os dp cs p"
proof -
  let ?d = "dpbs s dp" and ?q = "p div 512"
  have sp: "0 < spc ?d" by (simp add: spc_def)
  have "?q < length cs * spc ?d" using p by (simp add: capacity_def less_mult_imp_div_less mult.assoc)
  then have "?q div spc ?d < length cs" by (rule less_mult_imp_div_less)
  then have "in_vol ?d (cs ! (?q div spc ?d))" using cs by simp
  then have "file_block ?d cs ?q \<in> V - fat_blocks ?d"
    using vol sp by (simp add: data_vol_def file_block_def)
  then show ?thesis using q by (simp add: quiet_def data_kept_def file_byte_def)
qed

section \<open>Positions in a chain\<close>

definition at_chain :: "nat list \<Rightarrow> f_node \<Rightarrow> bool" where
  "at_chain cs f \<longleftrightarrow> (\<exists>i < length cs. f_cluster f = of_nat (cs ! i) \<and> f_cluster_offset f = of_nat i)"

definition at_cluster :: "nat list \<Rightarrow> nat \<Rightarrow> f_node \<Rightarrow> f_node" where
  "at_cluster cs k f = f\<lparr>f_cluster := of_nat (cs ! k), f_cluster_offset := of_nat k\<rparr>"

lemma fat_chain_drop: "fat_chain e c ds \<Longrightarrow> i < length (c # ds) \<Longrightarrow> fat_chain e ((c # ds) ! i) (drop (Suc i) (c # ds))"
proof (induction e c ds arbitrary: i rule: fat_chain.induct)
  case (2 e c d ds)
  then show ?case by (cases i) auto
qed simp

lemma file_chain_drop:
  assumes "file_chain d F c ds" "i < length (c # ds)"
  shows "file_chain d F ((c # ds) ! i) (drop (Suc i) (c # ds))"
proof -
  have s: "(c # ds) ! i # drop (Suc i) (c # ds) = drop i (c # ds)" using assms(2) by (rule Cons_nth_drop_Suc)
  show ?thesis using assms fat_chain_drop[of "entry_of d F" c ds i] set_drop_subset[of i "c # ds"] distinct_drop[of "c # ds" i]
    unfolding file_chain_def s by blast
qed

lemma file_chain_length:
  assumes "file_chain d F c ds"
  shows "length (c # ds) < 65536"
proof -
  have "set (c # ds) \<subseteq> {2..unat (dpb_size d)}" using assms by (auto simp: file_chain_def)
  then have "card (set (c # ds)) \<le> unat (dpb_size d) - 1" using card_mono[of "{2..unat (dpb_size d)}"] by fastforce
  then have "length (c # ds) \<le> unat (dpb_size d) - 1" using assms by (simp add: file_chain_def distinct_card)
  then show ?thesis using unat16[of "dpb_size d"] by linarith
qed

lemma at_cluster_simps [simp]:
  "f_dpb (at_cluster cs k f) = f_dpb f" "f_dir (at_cluster cs k f) = f_dir f" "f_sft_idx (at_cluster cs k f) = f_sft_idx f"
  "f_offset (at_cluster cs k f) = f_offset f" "f_cluster (at_cluster cs k f) = of_nat (cs ! k)"
  "f_cluster_offset (at_cluster cs k f) = of_nat k" "at_cluster cs j (at_cluster cs k f) = at_cluster cs j f"
  by (simp_all add: at_cluster_def)

lemma map_loop_ok:
  assumes rel: "reliable E 512 rd" and f: "f_dpb f = dp"
  shows "fat_ok rd V dp s os \<Longrightarrow> file_chain (dpbs s dp) (fat_bytes rd s os dp) c ds \<Longrightarrow> i \<le> k \<Longrightarrow> k < length (c # ds) \<Longrightarrow>
    \<exists>s' os'. map_loop E mode (of_nat k) (at_cluster (c # ds) i f) s = Some (Inr (SUCCESS, at_cluster (c # ds) k f, s'))
       \<and> quiet rd V dp s os s' os'"
proof (induction "k - i" arbitrary: i s os)
  case 0
  then have "k = i" by simp
  then have "map_loop E mode (of_nat k) (at_cluster (c # ds) i f) s = Some (Inr (SUCCESS, at_cluster (c # ds) k f, s))"
    by (subst map_loop.simps) simp
  then show ?case using quiet_refl[OF "0.prems"(1)] by blast
next
  case (Suc n)
  let ?cs = "c # ds" and ?d = "dpbs s dp" and ?F = "fat_bytes rd s os dp" and ?f = "at_cluster (c # ds) i f"
  have len: "length ?cs < 65536" using file_chain_length[OF Suc.prems(2)] .
  have i: "i < k" "Suc i < length ?cs" using Suc.hyps(2) Suc.prems(4) by auto
  then have drp: "drop (Suc i) ?cs = ?cs ! Suc i # drop (Suc (Suc i)) ?cs" using Cons_nth_drop_Suc[of "Suc i" ?cs] by simp
  have ch: "file_chain ?d ?F (?cs ! i) (?cs ! Suc i # drop (Suc (Suc i)) ?cs)"
    using file_chain_drop[OF Suc.prems(2), of i] i unfolding drp by simp
  obtain s1 os1 where n: "next_cluster E dp (of_nat (?cs ! i)) s = Some (Inr (of_nat (?cs ! Suc i), s1))"
     "fat_run rd V dp s os s1 os1 ?F" "dpbs s1 = dpbs s"
    using next_run[OF rel Suc.prems(1) refl ch] by auto
  have q: "quiet rd V dp s os s1 os1" using quiet_run[OF n(2) refl n(3) kcore_next[OF n(1)]] .
  have v: "in_vol ?d (?cs ! Suc i)" using ch by (simp add: file_chain_def)
  have ne: "f_cluster_offset ?f \<noteq> of_nat k"
  proof
    assume "f_cluster_offset ?f = of_nat k"
    then have "unat (of_nat i :: 32 word) = unat (of_nat k :: 32 word)" by simp
    then show False using i len Suc.prems(4) by (simp add: unat_small)
  qed
  have up: "?f\<lparr>f_cluster := of_nat (?cs ! Suc i), f_cluster_offset := f_cluster_offset ?f + 1\<rparr> = at_cluster ?cs (Suc i) f"
    by (simp add: at_cluster_def add.commute)
  have "map_loop E mode (of_nat k) ?f s = map_loop E mode (of_nat k) (at_cluster ?cs (Suc i) f) s1"
    using small_bad[OF v] n(1) up ne by (subst map_loop.simps) (simp add: f Let_def del: of_nat_Suc)
  moreover have "fat_ok rd V dp s1 os1" "file_chain (dpbs s1 dp) (fat_bytes rd s1 os1 dp) c ds"
    using q Suc.prems(2) by (simp_all add: quiet_def)
  then obtain s2 os2 where "map_loop E mode (of_nat k) (at_cluster ?cs (Suc i) f) s1 = Some (Inr (SUCCESS, at_cluster ?cs k f, s2))"
      "quiet rd V dp s1 os1 s2 os2"
    using Suc.hyps(1)[of "Suc i" s1 os1] Suc.hyps(2) i(1) Suc.prems(4) by (metis Suc_diff_Suc Suc_leI diff_Suc_Suc old.nat.inject)
  ultimately show ?case using quiet_trans[OF q] by auto
qed

lemma at_chain_eq: "at_chain cs f \<longleftrightarrow> (\<exists>i < length cs. f = at_cluster cs i f)"
  by (cases f) (auto simp: at_chain_def at_cluster_def)

lemma map_cluster_ok:
  assumes rel: "reliable E 512 rd" and ok: "fat_ok rd V dp s os" and ch: "file_chain (dpbs s dp) (fat_bytes rd s os dp) c ds"
    and f: "f_dpb f = dp" "f_sft_idx f \<noteq> 0xff" "getdstart (dpbs s dp) (f_dir f) = of_nat c" "at_chain (c # ds) f"
    and vol: "data_vol V (dpbs s dp)" and k: "k = unat (f_offset f) div 512 div spc (dpbs s dp)" "k < length (c # ds)"
  shows "\<exists>s' os'. map_cluster E mode f s = Some (Inr (SUCCESS, at_cluster (c # ds) k f, s')) \<and> quiet rd V dp s os s' os'"
proof -
  let ?cs = "c # ds" and ?d = "dpbs s dp"
  have sec: "dpb_secsize ?d = 512" using ok by (simp add: fat_ok_def fat_vol_def)
  have len: "length ?cs < 65536" using file_chain_length[OF ch] .
  obtain i where i: "i < length ?cs" "f = at_cluster ?cs i f" using f(4) at_chain_eq by blast
  have "in_vol ?d (?cs ! i)" using ch nth_mem[OF i(1)] unfolding file_chain_def by blast
  then have nf: "f_cluster f \<noteq> FREE_CLUSTER" using i(2) small_bad[of "?cs ! i" ?d] by (metis FREE_CLUSTER_def at_cluster_simps(5))
  have rc: "rel_cluster f ?d = of_nat k"
  proof (rule word_unat_eq_iff[THEN iffD2])
    have "unat (rel_cluster f ?d) = unat (f_offset f) div 512 div 2 ^ unat (dpb_shftcnt ?d)"
      unfolding rel_cluster_def sec unat_drop_bit_eq by (simp add: drop_bit_eq_div unat_div)
    then show "unat (rel_cluster f ?d) = unat (of_nat k :: 32 word)" using k len by (simp add: spc_def unat_small)
  qed
  define j where "j = (if k < i then 0 else i)"
  have j: "j \<le> k" by (simp add: j_def)
  have lt: "rel_cluster f ?d < f_cluster_offset f \<longleftrightarrow> k < i"
  proof -
    have "f_cluster_offset f = of_nat i" using i(2) by (metis at_cluster_simps(6))
    then show ?thesis unfolding rc word_less_nat_alt using i(1) k(2) len by (simp add: unat_small)
  qed
  have f1: "(if rel_cluster f ?d < f_cluster_offset f
       then f\<lparr>f_cluster := (if f_sft_idx f = 0xff then dm_dircluster f else getdstart ?d (f_dir f)), f_cluster_offset := 0\<rparr>
       else f) = at_cluster ?cs j f"
    unfolding lt j_def using f(2,3) i(2) by (auto simp: at_cluster_def)
  obtain s' os' where "map_loop E mode (of_nat k) (at_cluster ?cs j f) s = Some (Inr (SUCCESS, at_cluster ?cs k f, s'))"
     "quiet rd V dp s os s' os'"
    using map_loop_ok[OF rel f(1) ok ch _ k(2), of j mode] j by blast
  then show ?thesis
    using nf f1 sec unfolding map_cluster_def map_from_def Let_def f(1) rc by auto
qed

section \<open>Runs of adjacent sectors\<close>

definition on_file :: "32 word \<Rightarrow> dpb \<Rightarrow> nat list \<Rightarrow> f_node \<Rightarrow> bool" where
  "on_file dp d cs f \<longleftrightarrow> f_dpb f = dp \<and> f_sft_idx f \<noteq> 0xff \<and> getdstart d (f_dir f) = of_nat (hd cs) \<and> at_chain cs f"

definition moved_only :: "f_node \<Rightarrow> f_node \<Rightarrow> bool" where
  "moved_only f f' \<longleftrightarrow>
     f' = f\<lparr>f_offset := f_offset f', f_cluster := f_cluster f', f_cluster_offset := f_cluster_offset f'\<rparr>"

lemma moved_only_same:
  assumes "moved_only f f'"
  shows "f_dpb f' = f_dpb f" "f_dir f' = f_dir f" "f_sft_idx f' = f_sft_idx f" "f_flags f' = f_flags f"
    "f_diridx f' = f_diridx f" "f_dirsector f' = f_dirsector f"
  using assms by (cases f; cases f'; simp add: moved_only_def)+

lemma moved_only_trans: "moved_only f g \<Longrightarrow> moved_only g h \<Longrightarrow> moved_only f h"
  by (cases f; cases g; cases h) (simp add: moved_only_def)

lemma moved_only_intros [simp]:
  "moved_only f f" "moved_only f (at_cluster cs k f)" "moved_only f (f\<lparr>f_offset := x\<rparr>)"
  by (cases f; simp add: moved_only_def at_cluster_def)+

lemma on_file_at: "on_file dp d cs f \<Longrightarrow> k < length cs \<Longrightarrow> on_file dp d cs (at_cluster cs k f)"
  by (auto simp: on_file_def at_chain_def)

lemma on_file_offset [simp]: "on_file dp d cs (f\<lparr>f_offset := x\<rparr>) = on_file dp d cs f"
  by (simp add: on_file_def at_chain_def)

lemma spc_pos [simp]: "0 < spc d"
  by (simp add: spc_def)

lemma data_vol_clsmask: "data_vol V d \<Longrightarrow> unat (dpb_clsmask d) + 1 = spc d"
  using spc_pos[of d] unfolding data_vol_def by linarith

lemma capacity_small:
  assumes "data_vol V d" "file_chain d F c ds" "q \<le> length (c # ds) * spc d"
  shows "q * 512 < 4294967296"
proof -
  have "spc d \<le> 2 ^ 7" unfolding spc_def using assms(1) by (intro power_increasing) (simp_all add: data_vol_def)
  moreover have "length (c # ds) \<le> 65535" using file_chain_length[OF assms(2)] by simp
  ultimately have "length (c # ds) * spc d \<le> 65535 * 2 ^ 7" by (rule mult_le_mono[rotated])
  then show ?thesis using assms(3) by simp
qed

lemma adjacent_cluster:
  assumes k: "(q0 + n) mod spc d = 0" and adj: "clus2phys (of_nat (cs ! ((q0 + n) div spc d))) d = block + of_nat n"
    and old: "\<forall>q<n. file_block d cs (q0 + q) = (vol_unit d, block + of_nat q)" and q: "q < n + spc d"
  shows "file_block d cs (q0 + q) = (vol_unit d, block + of_nat q)"
proof (cases "q < n")
  case False
  define j where "j = q - n"
  have j: "q = n + j" "j < spc d" using False q by (simp_all add: j_def)
  obtain m where m: "q0 + n = spc d * m" using k by (auto simp: mod_eq_0_iff_dvd)
  have "q0 + q = spc d * m + j" using m j(1) by simp
  then have "(q0 + q) div spc d = m" "(q0 + q) mod spc d = j" "(q0 + n) div spc d = m" using j(2) m by simp_all
  then show ?thesis using adj j(1) by (simp add: file_block_def data_block_def)
qed (use old in simp)

lemma contiguous_ok:
  assumes rel: "reliable E 512 rd" and d: "d = dpbs s dp" and vol: "data_vol V d" and cs: "cs = c # ds"
    and start: "start = of_nat (q0 * 512)" and cap: "q0 + wanted \<le> length cs * spc d"
  shows "fat_ok rd V dp s os \<Longrightarrow> file_chain d (fat_bytes rd s os dp) c ds \<Longrightarrow> dpbs s dp = d \<Longrightarrow> on_file dp d cs f \<Longrightarrow>
    n \<le> wanted \<Longrightarrow> n = wanted \<or> (q0 + n) mod spc d = 0 \<Longrightarrow> unat (f_offset f) = (q0 + n) * 512 \<Longrightarrow>
    (\<forall>q<n. file_block d cs (q0 + q) = (vol_unit d, block + of_nat q)) \<Longrightarrow>
    \<exists>n' f' s' os'. contiguous E mode wanted start block n f s = Some (Inr (n', f', s')) \<and> n \<le> n' \<and> n' \<le> wanted
      \<and> quiet rd V dp s os s' os' \<and> on_file dp d cs f' \<and> moved_only f f' \<and> unat (f_offset f') = (q0 + n') * 512
      \<and> (\<forall>q<n'. file_block d cs (q0 + q) = (vol_unit d, block + of_nat q))"
  using d
proof (induction "wanted - n" arbitrary: n f s os rule: less_induct)
  case less
  note ok = less.prems(1) and ch = less.prems(2) and dd = less.prems(3) and of = less.prems(4)
  show ?case
  proof (cases "wanted \<le> n")
    case True
    then have "contiguous E mode wanted start block n f s = Some (Inr (n, f, s))" by (subst contiguous.simps) simp
    then show ?thesis using less.prems quiet_refl[OF ok] moved_only_intros(1) by blast
  next
    case False
    then have m0: "(q0 + n) mod spc d = 0" using less.prems(6) by simp
    define k where "k = (q0 + n) div spc d"
    have kl: "k < length cs" unfolding k_def by (rule less_mult_imp_div_less) (use False cap in linarith)
    have kp: "k = unat (f_offset f) div 512 div spc (dpbs s dp)" using less.prems(7) dd by (simp add: k_def)
    have fp: "f_dpb f = dp" "f_sft_idx f \<noteq> 0xff" "getdstart (dpbs s dp) (f_dir f) = of_nat c" "at_chain (c # ds) f"
      using of dd cs by (simp_all add: on_file_def)
    obtain s1 os1 where m: "map_cluster E mode f s = Some (Inr (SUCCESS, at_cluster cs k f, s1))" "quiet rd V dp s os s1 os1"
      using map_cluster_ok[OF rel ok _ fp, of k mode] ch kp kl dd vol cs by auto
    let ?f1 = "at_cluster cs k f"
    have s1: "fat_ok rd V dp s1 os1" "file_chain d (fat_bytes rd s1 os1 dp) c ds" "dpbs s1 dp = d"
      using m(2) ch dd by (simp_all add: quiet_def)
    have of1: "on_file dp d cs ?f1" using on_file_at[OF of kl] .
    have off1: "unat (f_offset ?f1) = (q0 + n) * 512" using less.prems(7) by simp
    show ?thesis
    proof (cases "clus2phys (f_cluster ?f1) d = block + of_nat n")
      case True
      define n1 where "n1 = min (n + spc d) wanted"
      define f2 where "f2 = ?f1\<lparr>f_offset := start + of_nat n1 * 512\<rparr>"
      have "(q0 + (n + spc d)) mod spc d = 0" using m0 by (simp add: add.assoc[symmetric])
      then have n1: "n < n1" "n1 \<le> wanted" "n1 = wanted \<or> (q0 + n1) mod spc d = 0"
        using \<open>\<not> wanted \<le> n\<close> spc_pos[of d] by (simp_all add: n1_def min_def)
      have "unat (start + of_nat n1 * 512 :: 32 word) = (q0 + n1) * 512"
      proof -
        have "start + of_nat n1 * 512 = (of_nat ((q0 + n1) * 512) :: 32 word)" by (simp add: start algebra_simps)
        moreover have "(q0 + n1) * 512 < 4294967296"
          by (rule capacity_small[OF vol ch], rule le_trans[OF _ cap[unfolded cs]]) (use n1(2) in simp)
        ultimately show ?thesis by (metis unat_small)
      qed
      then have off2: "unat (f_offset f2) = (q0 + n1) * 512" by (simp add: f2_def)
      have bl: "\<forall>q<n1. file_block d cs (q0 + q) = (vol_unit d, block + of_nat q)"
        using adjacent_cluster[OF m0 _ less.prems(8)] True by (simp add: k_def n1_def)
      have step: "contiguous E mode wanted start block n f s = contiguous E mode wanted start block n1 f2 s1"
      proof -
        have "dpb_secsize d = 512" using s1 by (simp add: fat_ok_def fat_vol_def)
        then have "n1 = min (n + unat (dpb_clsmask d) + 1) wanted"
          "f2 = ?f1\<lparr>f_offset := start + of_nat n1 * ucast (dpb_secsize d)\<rparr>"
          using data_vol_clsmask[OF vol] by (simp_all add: n1_def f2_def)
        then show ?thesis using False m(1) True fp(1) s1(3)
          by (subst contiguous.simps) (simp add: Let_def)
      qed
      have of2: "on_file dp d cs f2" using of1 by (simp add: f2_def)
      have lt: "wanted - n1 < wanted - n" using n1(1,2) by linarith
      obtain n' f' s' os' where r: "contiguous E mode wanted start block n1 f2 s1 = Some (Inr (n', f', s'))" "n1 \<le> n'" "n' \<le> wanted"
          "quiet rd V dp s1 os1 s' os'" "on_file dp d cs f'" "moved_only f2 f'" "unat (f_offset f') = (q0 + n') * 512"
          "\<forall>q<n'. file_block d cs (q0 + q) = (vol_unit d, block + of_nat q)"
        using less.hyps[OF lt s1 of2 n1(2,3) off2 bl s1(3)[symmetric]] by blast
      have "moved_only f f'"
        using moved_only_trans[OF moved_only_trans[OF moved_only_intros(2) moved_only_intros(3)] r(6)[unfolded f2_def]] .
      then show ?thesis using step r n1(1) quiet_trans[OF m(2) r(4)]
        by (intro exI[of _ n'] exI[of _ f'] exI[of _ s'] exI[of _ os']) simp
    next
      case False
      then have "contiguous E mode wanted start block n f s = Some (Inr (n, ?f1, s1))"
        using \<open>\<not> wanted \<le> n\<close> m(1) fp(1) s1(3) by (subst contiguous.simps) (simp add: Let_def)
      then show ?thesis using less.prems(5,8) m(2) of1 off1
        by (intro exI[of _ n] exI[of _ ?f1] exI[of _ s1] exI[of _ os1]) simp
    qed
  qed
qed

section \<open>Reading\<close>

lemma io_same_cache:
  assumes io: "io_only s s'" and r: "rd (world (kern s')) = rd (world (kern s))"
  shows "cache_ok n rd V s' os = cache_ok n rd V s os" "view n rd s' os v = view n rd s os v"
proof -
  have k: "bufs s' = bufs s" "firstbuf s' = firstbuf s" "dpbs s' = dpbs s" using io by (simp_all add: io_only_def)
  obtain w where w: "kern s' = with_world w (kern s)" using io by (auto simp: io_only_def)
  have d: "disk n rd s' v = disk n rd s v" for v
    using r w k(3) get_dpb_cong[OF w] by (simp add: disk_def dkey_def drive_key_def)
  have m: "mirrors_ok V s' b = mirrors_ok V s b" for b by (simp add: mirrors_ok_def copy_offset_def k)
  show "view n rd s' os v = view n rd s os v" unfolding view_def lru_find_def d k ..
  show "cache_ok n rd V s' os = cache_ok n rd V s os"
    by (simp add: cache_ok_def lru_def buffer_ok_def unique_blocks_def drives_ok_cong[OF w k(3)] d k m)
qed

lemma unat_block:
  assumes vol: "data_vol V d" "\<not> ISFAT32 d" and c: "in_vol d c" and j: "j < 65536"
  shows "unat (clus2phys (of_nat c) d + of_nat j) = (c - 2) * spc d + unat (dpb_data d) + j"
    "(c - 2) * spc d + unat (dpb_data d) + j < 2147483648"
proof -
  have cl: "c < 65536" "2 \<le> c" using c unat16[of "dpb_size d"] by auto
  have sp: "spc d \<le> 128"
  proof -
    have "spc d \<le> 2 ^ 7" unfolding spc_def using vol by (intro power_increasing) (simp_all add: data_vol_def)
    then show ?thesis by simp
  qed
  have "(c - 2) * spc d \<le> 65534 * 128" by (rule mult_le_mono) (use cl sp in simp_all)
  then show lt: "(c - 2) * spc d + unat (dpb_data d) + j < 2147483648" using j unat16[of "dpb_data d"] by simp
  have "push_bit (unat (dpb_shftcnt d)) (of_nat c - 2 :: 32 word) = of_nat ((c - 2) * spc d)"
    using cl by (simp add: push_bit_eq_mult spc_def of_nat_diff)
  moreover have "(ucast (dpb_data d) :: 32 word) = of_nat (unat (dpb_data d))" by simp
  ultimately have "clus2phys (of_nat c) d + of_nat j = (of_nat ((c - 2) * spc d + unat (dpb_data d) + j) :: 32 word)"
    unfolding clus2phys_def if_not_P[OF vol(2)] by (simp only: of_nat_add)
  then show "unat (clus2phys (of_nat c) d + of_nat j) = (c - 2) * spc d + unat (dpb_data d) + j"
    using lt unat_small[of "(c - 2) * spc d + unat (dpb_data d) + j"] by simp
qed

lemma rw_sector_eq:
  assumes vol: "data_vol V d" and sec: "dpb_secsize d = 512"
  shows "rw_sector f d = unat (f_offset f) div 512 mod spc d"
proof -
  have sh: "unat (dpb_shftcnt d) \<le> 7" using vol by (simp add: data_vol_def)
  have mk: "dpb_clsmask d = mask (unat (dpb_shftcnt d))"
  proof (rule word_unat_eq_iff[THEN iffD2])
    define m where "m = spc d - 1"
    have "(2 :: nat) ^ unat (dpb_shftcnt d) \<le> 2 ^ 7" using sh by (intro power_increasing) simp_all
    then have "m < 256" by (simp add: m_def spc_def)
    then have "unat (of_nat m :: 8 word) = m" by (simp add: unsigned_of_nat take_bit_eq_mod)
    moreover have "(mask (unat (dpb_shftcnt d)) :: 8 word) = of_nat (spc d - 1)"
      by (simp add: mask_eq_exp_minus_1 spc_def of_nat_diff)
    moreover note m_def
    ultimately show "unat (dpb_clsmask d) = unat (mask (unat (dpb_shftcnt d)) :: 8 word)"
      using vol by (simp add: data_vol_def)
  qed
  have "unat (ucast (f_offset f div 512) AND mask (unat (dpb_shftcnt d)) :: 8 word)
      = take_bit (unat (dpb_shftcnt d)) (unat (f_offset f) div 512)"
    using sh by (simp add: take_bit_eq_mask[symmetric] unsigned_take_bit_eq unsigned_ucast_eq unat_div take_bit_take_bit min_def)
  then show ?thesis by (simp add: rw_sector_def sec mk spc_def take_bit_eq_mod)
qed

lemma uncache_ok:
  assumes ok: "cache_ok n rd V s os" and x: "x \<in> set os" "b_valid (bufs s x)"
    and s': "s' = set_buf x (\<lambda>b. b\<lparr>b_flag := b_flag b OR BFR_UNCACHE\<rparr>) s"
  shows "cache_ok n rd V s' os" "view n rd s' os = view n rd s os"
proof -
  have f: "b_valid (bufs s' x)" "b_dirty (bufs s' x) = b_dirty (bufs s x)" "b_fat (bufs s' x) = b_fat (bufs s x)"
    "buf_id (bufs s' x) = buf_id (bufs s x)" "b_buffer (bufs s' x) = b_buffer (bufs s x)"
    using x(2) by (auto simp: s' flag_simps buf_id_def)
  have "b_fat (bufs s x) \<longrightarrow> mirrors_ok V s (bufs s x)" using ok x by (simp add: cache_ok_def buffer_ok_def)
  then have m: "b_fat (bufs s' x) \<longrightarrow> mirrors_ok V s' (bufs s' x)"
  proof -
    have "mirrors_ok V s' (bufs s' x) = mirrors_ok V s (bufs s x)" by (simp add: mirrors_ok_def copy_offset_def s')
    then show ?thesis using \<open>b_fat (bufs s x) \<longrightarrow> mirrors_ok V s (bufs s x)\<close> f(3) by simp
  qed
  have l: "same_links s s'" unfolding s' by (rule same_links_set_buf) simp
  have oth: "bufs s' y = bufs s y" if "y \<noteq> x" for y using that by (simp add: s')
  note P = poke_ok[OF ok x f(4,1) _ m oth l]
  show "cache_ok n rd V s' os" by (rule P(1)) (use f in \<open>simp_all add: s'\<close>)
  have "view n rd s' os = (view n rd s os)(buf_id (bufs s x) := sector n (b_buffer (bufs s' x)))"
    by (rule P(2)) (use f in \<open>simp_all add: s'\<close>)
  then show "view n rd s' os = view n rd s os" unfolding f(5) using view_hit[OF ok x] by (metis fun_upd_triv)
qed

lemma in_sector:
  assumes "p mod 512 + j < (512 :: nat)"
  shows "(p + j) div 512 = p div 512" "(p + j) mod 512 = p mod 512 + j"
proof -
  have e: "p + j = (p mod 512 + j) + 512 * (p div 512)" by simp
  show "(p + j) div 512 = p div 512" using div_mult_self2[of 512 "p mod 512 + j" "p div 512"] assms unfolding e[symmetric] by simp
  show "(p + j) mod 512 = p mod 512 + j" using mod_mult_self2[of "p mod 512 + j" 512 "p div 512"] assms unfolding e[symmetric] by simp
qed

lemma xfr_modes: "(XFR_READ = XFR_WRITE) = False" "(XFR_WRITE = XFR_READ) = False"
  by (simp_all add: XFR_READ_def XFR_WRITE_def)

text \<open>The block of the byte at a position, and what the volume's soundness says of it.\<close>

lemma position_block:
  assumes ok: "fat_ok rd V dp s os" and vol: "data_vol V (dpbs s dp)" and ch: "file_chain (dpbs s dp) F c ds"
    and p: "p = unat (f_offset f)" "p < capacity (dpbs s dp) (c # ds)"
    and cl: "f_cluster f = of_nat ((c # ds) ! (p div 512 div spc (dpbs s dp)))"
  shows "(vol_unit (dpbs s dp), clus2phys (f_cluster f) (dpbs s dp) + of_nat (rw_sector f (dpbs s dp)))
      = file_block (dpbs s dp) (c # ds) (p div 512)"
    "file_block (dpbs s dp) (c # ds) (p div 512) \<in> V - fat_blocks (dpbs s dp)"
proof -
  let ?d = "dpbs s dp" and ?cs = "c # ds"
  have sec: "dpb_secsize ?d = 512" using ok by (simp add: fat_ok_def fat_vol_def)
  have "p div 512 < length ?cs * spc ?d" by (rule less_mult_imp_div_less) (use p(2) in \<open>simp add: capacity_def mult.assoc\<close>)
  then have i: "p div 512 div spc ?d < length ?cs" by (rule less_mult_imp_div_less)
  have v: "in_vol ?d (?cs ! (p div 512 div spc ?d))" using ch nth_mem[OF i] unfolding file_chain_def by blast
  show "(vol_unit ?d, clus2phys (f_cluster f) ?d + of_nat (rw_sector f ?d)) = file_block ?d ?cs (p div 512)"
    unfolding rw_sector_eq[OF vol sec] file_block_def data_block_def p(1) cl ..
  show "file_block ?d ?cs (p div 512) \<in> V - fat_blocks ?d"
    unfolding file_block_def using vol v unfolding data_vol_def by simp
qed

lemma rw_block_read:
  assumes rel: "reliable E 512 rd" and ok: "fat_ok rd V dp s os" and vol: "data_vol V (dpbs s dp)"
    and ch: "file_chain (dpbs s dp) F c ds" and f: "f_dpb f = dp"
    and p: "p = unat (f_offset f)" "p < unat (dir_size (f_dir f))" "unat (dir_size (f_dir f)) \<le> capacity (dpbs s dp) (c # ds)"
    and cl: "f_cluster f = of_nat ((c # ds) ! (p div 512 div spc (dpbs s dp)))"
  shows "\<exists>n s' os'. rw_block E XFR_READ k m f s =
        Some (Inr (Xfer_bytes n, (\<lambda>j. if j < n then file_byte rd s os dp (c # ds) (p + j) else m j),
          f\<lparr>f_offset := f_offset f + of_nat n\<rparr>, s'))
      \<and> n = min (min k (512 - p mod 512)) (unat (dir_size (f_dir f)) - p) \<and> quiet rd V dp s os s' os'"
proof -
  let ?d = "dpbs s dp" and ?cs = "c # ds"
  define blk where "blk = clus2phys (f_cluster f) ?d + of_nat (rw_sector f ?d)"
  have pc: "p < capacity ?d ?cs" using p by simp
  note B = position_block[OF ok vol ch p(1) pc cl, folded blk_def]
  have V: "(vol_unit ?d, blk) \<in> V" using B by simp
  have co: "cache_ok 512 rd V s os" and len: "2 \<le> length os" and fv: "fat_vol V ?d" using ok by (simp_all add: fat_ok_def)
  have sec: "dpb_secsize ?d = 512" using fv by (simp add: fat_vol_def)
  have sec': "unat (dpb_secsize ?d) = 512" by (simp add: sec)
  obtain x s1 where g: "getblk E blk (vol_unit ?d) False s = Some (Some x, s1)" "x \<in> set os"
     "cache_ok 512 rd V s1 (x # remove1 x os)" "\<forall>v \<in> V. view 512 rd s1 (x # remove1 x os) v = view 512 rd s os v"
     "b_valid (bufs s1 x)" "buf_id (bufs s1 x) = (vol_unit ?d, blk)" "dpbs s1 = dpbs s"
    using getblk_ok[OF rel co V] by blast
  define os1 where "os1 = x # remove1 x os"
  have x1: "x \<in> set os1" by (simp add: os1_def)
  have len1: "2 \<le> length os1" using len g(2) by (simp add: os1_def length_remove1)
  define n where "n = min (min k (512 - p mod 512)) (unat (dir_size (f_dir f)) - p)"
  have un: "unat (dir_size (f_dir f) - f_offset f) = unat (dir_size (f_dir f)) - p"
    using p by (simp add: unat_sub word_le_nat_alt)
  define s2 where "s2 = (if n = 512 \<or> f_offset f + of_nat n = dir_size (f_dir f)
      then set_buf x (\<lambda>b. b\<lparr>b_flag := b_flag b OR BFR_UNCACHE\<rparr>) s1 else s1)"
  have s2: "cache_ok 512 rd V s2 os1" "view 512 rd s2 os1 = view 512 rd s1 os1" "dpbs s2 = dpbs s" "kcore s2 = kcore s1"
    using uncache_ok[OF g(3)[folded os1_def] x1 g(5) refl] g(3,7) by (simp_all add: s2_def os1_def)
  have q: "quiet rd V dp s os s2 os1"
    by (rule quiet_view) (use s2 g len1 fv kcore_getblk[OF g(1)] in \<open>simp_all add: fat_ok_def os1_def\<close>)
  have buf: "sector 512 (b_buffer (bufs s1 x)) = view 512 rd s os (file_block ?d ?cs (p div 512))"
    using view_hit[OF g(3)[folded os1_def] x1 g(5)] g(4,6) V B(1) by (simp add: os1_def)
  have bytes: "copy_bytes n (from_byte (p mod 512) (b_buffer (bufs s1 x))) m
      = (\<lambda>j. if j < n then file_byte rd s os dp ?cs (p + j) else m j)"
  proof
    fix j
    show "copy_bytes n (from_byte (p mod 512) (b_buffer (bufs s1 x))) m j
      = (if j < n then file_byte rd s os dp ?cs (p + j) else m j)"
    proof (cases "j < n")
      case True
      then have j: "p mod 512 + j < 512" unfolding n_def by linarith
      note e = in_sector[OF j]
      have "b_buffer (bufs s1 x) (p mod 512 + j) = sector 512 (b_buffer (bufs s1 x)) (p mod 512 + j)"
        using j by (simp add: sector_nth)
      then show ?thesis using True by (simp add: copy_bytes_def from_byte_def file_byte_def e buf)
    qed (simp add: copy_bytes_def)
  qed
  have "rw_block E XFR_READ k m f s = Some (Inr (Xfer_bytes n, copy_bytes n (from_byte (p mod 512) (b_buffer (bufs s1 x))) m,
          f\<lparr>f_offset := f_offset f + of_nat n\<rparr>, s2))"
    unfolding rw_block_def Let_def f getblock_def blk_def[symmetric] g(1) Option.bind.simps prod.case option.case
      sec' p(1)[symmetric] un xfr_modes if_False if_True simp_thms n_def[symmetric] s2_def[symmetric] ..
  then show ?thesis unfolding bytes using q n_def by blast
qed

lemma first_sectors:
  assumes q: "q < n" "n \<le> spc d - q0 mod spc d" and b: "file_block d cs q0 = (vol_unit d, block)"
  shows "file_block d cs (q0 + q) = (vol_unit d, block + of_nat q)"
proof -
  have lt: "q0 mod spc d + q < spc d" using q by linarith
  have e: "q0 + q = (q0 mod spc d + q) + spc d * (q0 div spc d)" by simp
  have "(q0 + q) div spc d = q0 div spc d"
    using div_mult_self2[of "spc d" "q0 mod spc d + q" "q0 div spc d"] lt spc_pos[of d] unfolding e[symmetric] by simp
  moreover have "(q0 + q) mod spc d = q0 mod spc d + q"
    using mod_mult_self2[of "q0 mod spc d + q" "spc d" "q0 div spc d"] lt unfolding e[symmetric] by simp
  ultimately show ?thesis using b by (simp add: file_block_def data_block_def add.assoc[symmetric])
qed

text \<open>The run of adjacent sectors a direct transfer finds: one reaches it for reading and writing.\<close>

lemma direct_run:
  assumes rel: "reliable E 512 rd" and ok: "fat_ok rd V dp s os" and d: "d = dpbs s dp" and vol: "data_vol V d"
    and cs: "cs = c # ds" and ch: "file_chain d (fat_bytes rd s os dp) c ds" and of: "on_file dp d cs f"
    and p: "unat (f_offset f) = q0 * 512" and w: "0 < wanted" "q0 + wanted \<le> length cs * spc d" "wanted < 65536"
    and cl: "f_cluster f = of_nat (cs ! (q0 div spc d))"
    and b: "block = clus2phys (f_cluster f) d + of_nat (rw_sector f d)"
    and n: "n = min (unat (dpb_clsmask d) + 1 - rw_sector f d) wanted"
  shows "\<exists>n' f' s' os'. contiguous E mode wanted (f_offset f) block n (f\<lparr>f_offset := f_offset f + of_nat (n * 512)\<rparr>) s
         = Some (Inr (n', f', s')) \<and> 0 < n' \<and> n' \<le> wanted
      \<and> quiet rd V dp s os s' os' \<and> on_file dp d cs f' \<and> moved_only f f' \<and> unat (f_offset f') = (q0 + n') * 512
      \<and> (\<forall>q<n'. file_block d cs (q0 + q) = (vol_unit d, block + of_nat q) \<and> (vol_unit d, block + of_nat q) \<in> V - fat_blocks d
             \<and> unat (block + of_nat q) = unat block + q)"
proof -
  have sec: "dpb_secsize d = 512" using ok d by (simp add: fat_ok_def fat_vol_def)
  have n32: "\<not> ISFAT32 d" using ok d by (simp add: fat_ok_def fat_vol_def)
  have q0: "q0 < length cs * spc d" using w by linarith
  then have i: "q0 div spc d < length cs" by (rule less_mult_imp_div_less)
  have rs: "rw_sector f d = q0 mod spc d" using rw_sector_eq[OF vol sec, of f] p by simp
  have fb: "file_block d cs q0 = (vol_unit d, block)"
    by (simp only: file_block_def data_block_def b cl rs)
  have nn: "n = min (spc d - q0 mod spc d) wanted" using n data_vol_clsmask[OF vol] rs by simp
  have m: "q0 mod spc d < spc d" by simp
  have n0: "0 < n" using nn w(1) m by simp
  have align: "n = wanted \<or> (q0 + n) mod spc d = 0"
  proof (cases "n = wanted")
    case False
    then have "n = spc d - q0 mod spc d" using nn by (simp add: min_def split: if_splits)
    then have "q0 + n = (q0 div spc d) * spc d + spc d" using m div_mult_mod_eq[of q0 "spc d"] by linarith
    then show ?thesis by simp
  qed simp
  have first: "\<forall>q<n. file_block d cs (q0 + q) = (vol_unit d, block + of_nat q)"
    using first_sectors[OF _ _ fb, of _ n] nn by (metis min.cobounded1)
  let ?f = "f\<lparr>f_offset := f_offset f + of_nat (n * 512)\<rparr>"
  have start: "f_offset f = of_nat (q0 * 512)" using p by (metis of_nat_unat ucast_id)
  have off: "unat (f_offset ?f) = (q0 + n) * 512"
  proof -
    have "f_offset f + of_nat (n * 512) = (of_nat ((q0 + n) * 512) :: 32 word)" unfolding start by (simp add: algebra_simps)
    moreover have "(q0 + n) * 512 < 4294967296"
      by (rule capacity_small[OF vol ch], rule le_trans[OF _ w(2)[unfolded cs]]) (use nn in simp)
    moreover have "f_offset ?f = f_offset f + of_nat (n * 512)" by simp
    ultimately show ?thesis by (metis unat_small)
  qed
  have of1: "on_file dp d cs ?f" using of by simp
  have nw: "n \<le> wanted" using nn by simp
  obtain n' f' s' os' where r: "contiguous E mode wanted (f_offset f) block n ?f s = Some (Inr (n', f', s'))" "n \<le> n'" "n' \<le> wanted"
      "quiet rd V dp s os s' os'" "on_file dp d cs f'" "moved_only ?f f'" "unat (f_offset f') = (q0 + n') * 512"
      "\<forall>q<n'. file_block d cs (q0 + q) = (vol_unit d, block + of_nat q)"
    using contiguous_ok[OF rel d vol cs start w(2) ok ch d[symmetric] of1 nw align off first] by blast
  have blk: "(vol_unit d, block + of_nat q) \<in> V - fat_blocks d \<and> unat (block + of_nat q) = unat block + q" if "q < n'" for q
  proof -
    have fq: "file_block d cs (q0 + q) = (vol_unit d, block + of_nat q)" using r(8) that by blast
    have "q0 + q < length cs * spc d" using that r(3) w(2) by linarith
    then have "(q0 + q) div spc d < length cs" by (rule less_mult_imp_div_less)
    then have v: "in_vol d (cs ! ((q0 + q) div spc d))" using ch unfolding cs file_chain_def by (meson nth_mem)
    then have "file_block d cs (q0 + q) \<in> V - fat_blocks d" using vol by (simp add: file_block_def data_vol_def)
    moreover have "unat (block + of_nat q) = unat block + q"
    proof -
      have v0: "in_vol d (cs ! (q0 div spc d))" using ch i unfolding cs file_chain_def by (meson nth_mem)
      have s0: "q0 mod spc d < 65536"
      proof -
        have "spc d \<le> 2 ^ 7" unfolding spc_def using vol by (intro power_increasing) (simp_all add: data_vol_def)
        then have "spc d \<le> 128" by simp
        then show "q0 mod spc d < 65536" using m by linarith
      qed
      have u: "unat block = (cs ! (q0 div spc d) - 2) * spc d + unat (dpb_data d) + q0 mod spc d" "unat block < 2147483648"
        using unat_block[OF vol n32 v0 s0] unfolding b cl rs by simp_all
      have "q < 65536" using that r(3) w(3) by simp
      then have "unat block + unat (of_nat q :: 32 word) < 2 ^ LENGTH(32)" using u(2) by (simp add: unat_small)
      then have "unat (block + of_nat q) = unat block + unat (of_nat q :: 32 word)" by (rule unat_add_lem[THEN iffD1])
      then show ?thesis using \<open>q < 65536\<close> by (simp add: unat_small)
    qed
    ultimately show ?thesis using fq by simp
  qed
  have "moved_only f f'" using moved_only_trans[OF moved_only_intros(3) r(6)] .
  then show ?thesis using r n0 blk by (intro exI[of _ n'] exI[of _ f'] exI[of _ s'] exI[of _ os']) auto
qed

lemma unit_get_dpb:
  assumes ok: "cache_ok n rd V s os" and v: "(d, b) \<in> V"
  shows "\<exists>dp. get_dpb d s = Some dp \<and> unat (dpb_secsize (dpbs s dp)) = n \<and> dkey s d = drive_key s dp"
  using ok v by (fastforce simp: cache_ok_def drives_ok_def dkey_def)

lemma rw_direct_read:
  assumes rel: "reliable_all E 512 rd" and ok: "fat_ok rd V dp s os" and d: "d = dpbs s dp" and vol: "data_vol V d"
    and cs: "cs = c # ds" and ch: "file_chain d (fat_bytes rd s os dp) c ds" and of: "on_file dp d cs f"
    and p: "unat (f_offset f) = q0 * 512" and w: "0 < wanted" "q0 + wanted \<le> length cs * spc d" "wanted < 65536"
    and cl: "f_cluster f = of_nat (cs ! (q0 div spc d))"
  shows "\<exists>n f' s' os'. rw_direct E XFR_READ wanted seg m f s =
        Some (Inr (Xfer_bytes (n * 512), (\<lambda>j. if j < n * 512 then file_byte rd s os dp cs (q0 * 512 + j) else m j), f', s'))
      \<and> 0 < n \<and> n \<le> wanted \<and> quiet rd V dp s os s' os' \<and> on_file dp d cs f' \<and> moved_only f f'
      \<and> unat (f_offset f') = (q0 + n) * 512"
proof -
  have rel1: "reliable E 512 rd" using reliable_all_one[OF rel] by simp
  have fv: "fat_vol V d" using ok d by (simp add: fat_ok_def)
  have sec: "unat (dpb_secsize d) = 512" using fv by (simp add: fat_vol_def)
  have fd: "f_dpb f = dp" using of by (simp add: on_file_def)
  define block where "block = clus2phys (f_cluster f) d + of_nat (rw_sector f d)"
  define n0 where "n0 = min (unat (dpb_clsmask d) + 1 - rw_sector f d) wanted"
  obtain n f' s1 os1 where r: "contiguous E XFR_READ wanted (f_offset f) block n0
        (f\<lparr>f_offset := f_offset f + of_nat (n0 * 512)\<rparr>) s = Some (Inr (n, f', s1))" "0 < n" "n \<le> wanted"
      "quiet rd V dp s os s1 os1" "on_file dp d cs f'" "moved_only f f'" "unat (f_offset f') = (q0 + n) * 512"
      "\<forall>q<n. file_block d cs (q0 + q) = (vol_unit d, block + of_nat q) \<and> (vol_unit d, block + of_nat q) \<in> V - fat_blocks d
             \<and> unat (block + of_nat q) = unat block + q"
    using direct_run[OF rel1 ok d vol cs ch of p w cl block_def n0_def] by blast
  have co1: "cache_ok 512 rd V s1 os1" and d1: "dpbs s1 dp = d" "dpbs s1 = dpbs s" using r(4) d by (simp_all add: quiet_def fat_ok_def)
  have fd1: "f_dpb f' = dp" using r(5) by (simp add: on_file_def)
  define hi where "hi = block + of_nat n - 1"
  have hi: "unat hi = unat block + (n - 1)"
  proof -
    have "hi = block + of_nat (n - 1)" using r(2) by (simp add: hi_def of_nat_diff)
    then show ?thesis using r(8)[rule_format, of "n - 1"] r(2) by simp
  qed
  obtain s2 where s2: "DeleteBlockInBufferCache E block hi (vol_unit d) XFR_READ s1 = Some s2" "cache_ok 512 rd V s2 os1"
      "\<forall>v \<in> V. view 512 rd s2 os1 v = view 512 rd s1 os1 v" "dpbs s2 = dpbs s1"
      "\<And>b. block \<le> b \<Longrightarrow> b \<le> hi \<Longrightarrow> (vol_unit d, b) \<in> V \<Longrightarrow> disk 512 rd s2 (vol_unit d, b) = view 512 rd s2 os1 (vol_unit d, b)"
    using delete_read_ok[OF rel1 co1] by blast
  have b0: "(vol_unit d, block) \<in> V" using r(8)[rule_format, of 0] r(2) by simp
  obtain dq where dq: "get_dpb (vol_unit d) s2 = Some dq" "unat (dpb_secsize (dpbs s2 dq)) = 512"
      "dkey s2 (vol_unit d) = drive_key s2 dq" using unit_get_dpb[OF s2(2) b0] by blast
  define D where "D = rd (world (kern s2)) (drive_key s2 dq)"
  have nw: "unat (of_nat n :: 16 word) = n" "(of_nat n :: 16 word) \<noteq> 0"
  proof -
    show u: "unat (of_nat n :: 16 word) = n" using r(3) w(3) by (simp add: unsigned_of_nat take_bit_eq_mod)
    show "(of_nat n :: 16 word) \<noteq> 0" using u r(2) by (metis unat_0 less_irrefl)
  qed
  obtain s3 where s3: "dskxfer E (vol_unit d) block seg m (of_nat n) DSKREAD s2 = Some (0, sectors_of 512 n D block m, s3)"
     "io_only s2 s3" "rd (world (kern s3)) = rd (world (kern s2))"
    using dskxfer_all(1)[OF rel dq(1,2) _ nw(2), of block seg m] unfolding nw(1) D_def by auto
  have s3': "cache_ok 512 rd V s3 os1" "view 512 rd s3 os1 v = view 512 rd s2 os1 v" "dpbs s3 = dpbs s2" for v
    using io_same_cache[OF s3(2,3)] s2(2) s3(2) by (simp_all add: io_only_def)
  have q3: "quiet rd V dp s1 os1 s3 os1"
    by (rule quiet_view) (use s3' s2 d1 r(4) fv kcore_delete[OF s2(1)] kcore_dskxfer[OF s3(1)] in \<open>simp_all add: fat_ok_def quiet_def\<close>)
  have bytes: "sectors_of 512 n D block m = (\<lambda>j. if j < n * 512 then file_byte rd s os dp cs (q0 * 512 + j) else m j)"
  proof
    fix j
    show "sectors_of 512 n D block m j = (if j < n * 512 then file_byte rd s os dp cs (q0 * 512 + j) else m j)"
    proof (cases "j < n * 512")
      case True
      define q where "q = j div 512"
      have q: "q < n" unfolding q_def by (rule less_mult_imp_div_less) (use True in simp)
      let ?v = "(vol_unit d, block + of_nat q)"
      have fb: "file_block d cs (q0 + q) = ?v" "?v \<in> V - fat_blocks d" "unat (block + of_nat q) = unat block + q"
        using r(8) q by blast+
      have "block \<le> block + of_nat q" "block + of_nat q \<le> hi" unfolding word_le_nat_alt fb(3) hi using q by simp_all
      then have "disk 512 rd s2 ?v = view 512 rd s2 os1 ?v" using s2(5) fb(2) by blast
      also have "\<dots> = view 512 rd s os ?v" using s2(3) fb(2) r(4) d by (simp add: quiet_def data_kept_def)
      finally have v: "disk 512 rd s2 ?v = view 512 rd s os ?v" .
      have "D (block + of_nat q) (j mod 512) = disk 512 rd s2 ?v (j mod 512)"
        by (simp add: disk_def D_def dq(3) sector_nth)
      moreover have "(q0 * 512 + j) div 512 = q0 + q" "(q0 * 512 + j) mod 512 = j mod 512" by (simp_all add: q_def)
      ultimately show ?thesis using True v fb(1) d by (simp add: sectors_of_def file_byte_def q_def[symmetric])
    qed (simp add: sectors_of_def)
  qed
  have "rw_direct E XFR_READ wanted seg m f s = Some (Inr (Xfer_bytes (n * 512), sectors_of 512 n D block m, f', s3))"
    unfolding rw_direct_def Let_def fd d[symmetric] sec block_def[symmetric] n0_def[symmetric] r(1) Option.bind.simps sum.case
      prod.case fd1 d1(1) hi_def[symmetric] s2(1) simp_thms if_True s3(1) by simp
  then show ?thesis using bytes r quiet_trans[OF r(4) q3]
    by (intro exI[of _ n] exI[of _ f'] exI[of _ s3] exI[of _ os1]) simp
qed

lemma rw_step_read:
  assumes rel: "reliable_all E 512 rd" and ok: "fat_ok rd V dp s os" and d: "d = dpbs s dp" and vol: "data_vol V d"
    and cs: "cs = c # ds" and ch: "file_chain d (fat_bytes rd s os dp) c ds" and of: "on_file dp d cs f"
    and p: "p = unat (f_offset f)" "p < unat (dir_size (f_dir f))" "unat (dir_size (f_dir f)) \<le> capacity d cs"
    and k: "0 < k" "k < 65536" and cl: "f_cluster f = of_nat (cs ! (p div 512 div spc d))"
  shows "\<exists>n f' s' os'. rw_step E XFR_READ k seg m f s =
        Some (Inr (Xfer_bytes n, (\<lambda>j. if j < n then file_byte rd s os dp cs (p + j) else m j), f', s'))
      \<and> 0 < n \<and> n \<le> k \<and> n \<le> unat (dir_size (f_dir f)) - p \<and> quiet rd V dp s os s' os' \<and> on_file dp d cs f'
      \<and> moved_only f f' \<and> unat (f_offset f') = p + n"
proof -
  let ?size = "unat (dir_size (f_dir f))"
  have sec: "unat (dpb_secsize d) = 512" using ok d by (simp add: fat_ok_def fat_vol_def)
  have fd: "f_dpb f = dp" using of by (simp add: on_file_def)
  have un: "unat (dir_size (f_dir f) - f_offset f) = ?size - p" using p by (simp add: unat_sub word_le_nat_alt)
  define w where "w = rw_wanted XFR_READ k f d"
  have we: "w = min k (?size - p) div 512" by (simp add: w_def rw_wanted_def un sec min_def Let_def)
  show ?thesis
  proof (cases "p mod 512 = 0 \<and> w \<noteq> 0")
    case True
    define q0 where "q0 = p div 512"
    have p0: "p = q0 * 512" using True by (auto simp: q0_def)
    have w1: "w * 512 \<le> min k (?size - p)" unfolding we by (rule div_times_less_eq_dividend)
    have "(q0 + w) * 512 \<le> capacity d cs" using w1 p(2,3) p0 unfolding add_mult_distrib by linarith
    then have "(q0 + w) * 512 \<le> (length cs * spc d) * 512" by (simp add: capacity_def mult.assoc)
    then have w2: "q0 + w \<le> length cs * spc d" by simp
    have w3: "0 < w" "w < 65536" using True w1 k by simp_all
    have pq: "unat (f_offset f) = q0 * 512" using p(1) p0 by simp
    have clq: "f_cluster f = of_nat (cs ! (q0 div spc d))" using cl by (simp only: q0_def)
    obtain n f' s' os' where r: "rw_direct E XFR_READ w seg m f s =
        Some (Inr (Xfer_bytes (n * 512), (\<lambda>j. if j < n * 512 then file_byte rd s os dp cs (q0 * 512 + j) else m j), f', s'))"
      "0 < n" "n \<le> w" "quiet rd V dp s os s' os'" "on_file dp d cs f'" "moved_only f f'" "unat (f_offset f') = (q0 + n) * 512"
      using rw_direct_read[OF rel ok d vol cs ch of pq w3(1) w2 w3(2) clq, of seg m] by blast
    have "n * 512 \<le> w * 512" using r(3) by simp
    then have n: "n * 512 \<le> min k (?size - p)" using w1 by linarith
    have "rw_step E XFR_READ k seg m f s = rw_direct E XFR_READ w seg m f s"
      unfolding rw_step_def Let_def fd d[symmetric] sec p(1)[symmetric] w_def[symmetric] using True by simp
    then show ?thesis using r n unfolding p0 by (intro exI[of _ "n * 512"] exI[of _ f'] exI[of _ s'] exI[of _ os']) simp
  next
    case False
    have ok': "data_vol V (dpbs s dp)" "file_chain (dpbs s dp) (fat_bytes rd s os dp) c ds"
       "?size \<le> capacity (dpbs s dp) (c # ds)" "f_cluster f = of_nat ((c # ds) ! (p div 512 div spc (dpbs s dp)))"
      using vol ch p(3) cl d cs by simp_all
    define n where "n = min (min k (512 - p mod 512)) (?size - p)"
    obtain s' os' where r: "rw_block E XFR_READ k m f s =
        Some (Inr (Xfer_bytes n, (\<lambda>j. if j < n then file_byte rd s os dp cs (p + j) else m j), f\<lparr>f_offset := f_offset f + of_nat n\<rparr>, s'))"
      "quiet rd V dp s os s' os'"
      using rw_block_read[OF reliable_all_one[OF rel] ok ok'(1,2) fd p(1,2) ok'(3,4), of k m] cs by (auto simp: n_def)
    have "512 - p mod 512 > 0" by simp
    then have n: "0 < n" "n \<le> k" "n \<le> ?size - p" using k p(2) by (simp_all add: n_def)
    have "p + n < 4294967296" using n(3) p(2) unat32[of "dir_size (f_dir f)"] by linarith
    then have off: "unat (f_offset f + of_nat n) = p + n"
      using p(1) unat_small[of n] by (simp add: unat_add_lem[THEN iffD1])
    have "rw_step E XFR_READ k seg m f s = rw_block E XFR_READ k m f s"
      unfolding rw_step_def Let_def fd d[symmetric] sec p(1)[symmetric] w_def[symmetric] using False by auto
    then show ?thesis using r n off of
      by (intro exI[of _ n] exI[of _ "f\<lparr>f_offset := f_offset f + of_nat n\<rparr>"] exI[of _ s'] exI[of _ os']) simp
  qed
qed

lemma put_from_bytes:
  "put_from r (\<lambda>j. if j < n then g j else from_byte r m j) m = (\<lambda>j. if r \<le> j \<and> j < r + n then g (j - r) else m j)"
  by (auto simp: put_from_def from_byte_def fun_eq_iff)

lemma rw_loop_read:
  assumes rel: "reliable_all E 512 rd" and vol: "data_vol V d" and cs: "cs = c # ds" and cnt: "count < 65536"
    and cap: "sz \<le> capacity d cs"
  shows "fat_ok rd V dp s os \<Longrightarrow> d = dpbs s dp \<Longrightarrow> file_chain d (fat_bytes rd s os dp) c ds \<Longrightarrow> on_file dp d cs f \<Longrightarrow>
    sz = unat (dir_size (f_dir f)) \<Longrightarrow> p = unat (f_offset f) \<Longrightarrow> n = min (count - ret) (sz - p) \<Longrightarrow>
    \<exists>f' s' os'. rw_loop E XFR_READ count ret buf m f s = rw_end (int (ret + n))
        (\<lambda>j. if ret \<le> j \<and> j < ret + n then file_byte rd s os dp cs (p + (j - ret)) else m j) f' s' \<and> quiet rd V dp s os s' os'
      \<and> on_file dp d cs f' \<and> moved_only f f' \<and> unat (f_offset f') = p + n"
proof (induction "count - ret" arbitrary: ret buf m f s os p n rule: less_induct)
  case less
  note ok = less.prems(1) and d = less.prems(2) and ch = less.prems(3) and of = less.prems(4) and szd = less.prems(5)
    and p = less.prems(6) and n = less.prems(7)
  show ?case
  proof (cases "count \<le> ret \<or> sz \<le> p")
    case True
    then have n0: "n = 0" using n by auto
    have "dir_size (f_dir f) \<le> f_offset f \<longleftrightarrow> sz \<le> p" using szd p by (simp add: word_le_nat_alt)
    then have e: "rw_loop E XFR_READ count ret buf m f s = rw_end (int ret) m f s"
      using True by (subst rw_loop.simps) auto
    have "(\<lambda>j. if ret \<le> j \<and> j < ret + n then file_byte rd s os dp cs (p + (j - ret)) else m j) = m"
      unfolding n0 by (auto simp: fun_eq_iff)
    then show ?thesis using quiet_refl[OF ok] of p n0 e by (intro exI[of _ f] exI[of _ s] exI[of _ os]) simp
  next
    case False
    then have lt: "ret < count" "p < sz" by simp_all
    have "p div 512 < length cs * spc d"
      by (rule less_mult_imp_div_less) (use lt cap in \<open>simp add: capacity_def mult.assoc\<close>)
    then have kl: "p div 512 div spc d < length cs" by (rule less_mult_imp_div_less)
    define f1 where "f1 = at_cluster cs (p div 512 div spc d) f"
    obtain s1 os1 where m1: "map_cluster E XFR_READ f s = Some (Inr (SUCCESS, f1, s1))" "quiet rd V dp s os s1 os1"
    proof -
      have "f_dpb f = dp" "f_sft_idx f \<noteq> 0xff" "getdstart (dpbs s dp) (f_dir f) = of_nat c" "at_chain (c # ds) f"
        using of d cs by (simp_all add: on_file_def)
      from map_cluster_ok[OF reliable_all_one[OF rel] ok _ this, of "p div 512 div spc d" XFR_READ]
      show ?thesis using that ch kl d cs vol p unfolding f1_def by auto
    qed
    have s1: "fat_ok rd V dp s1 os1" "d = dpbs s1 dp" "file_chain d (fat_bytes rd s1 os1 dp) c ds"
      using m1(2) d ch by (simp_all add: quiet_def)
    have of1: "on_file dp d cs f1" unfolding f1_def using on_file_at[OF of kl] .
    have f1: "p = unat (f_offset f1)" "p < unat (dir_size (f_dir f1))" "unat (dir_size (f_dir f1)) \<le> capacity d cs"
      "f_cluster f1 = of_nat (cs ! (p div 512 div spc d))" "unat (dir_size (f_dir f1)) = sz"
      using p lt(2) cap szd by (simp_all add: f1_def)
    have k: "0 < count - ret" "count - ret < 65536" using lt(1) cnt by simp_all
    obtain n1 f2 s2 os2 where r: "rw_step E XFR_READ (count - ret) (fst buf) (from_byte ret m) f1 s1 = Some (Inr (Xfer_bytes n1,
          (\<lambda>j. if j < n1 then file_byte rd s1 os1 dp cs (p + j) else from_byte ret m j), f2, s2))"
        "0 < n1" "n1 \<le> count - ret" "n1 \<le> sz - p" "quiet rd V dp s1 os1 s2 os2" "on_file dp d cs f2"
        "moved_only f1 f2" "unat (f_offset f2) = p + n1"
      using rw_step_read[OF rel s1(1,2) vol cs s1(3) of1 f1(1-3) k f1(4), of "fst buf" "from_byte ret m"] f1(5) by auto
    have q: "quiet rd V dp s os s2 os2" using quiet_trans[OF m1(2) r(5)] .
    have mv: "moved_only f f2" using moved_only_trans[OF moved_only_intros(2) r(7)[unfolded f1_def]] .
    have dir: "f_dir f2 = f_dir f" using moved_only_same[OF mv] by simp
    define m2 where "m2 = (\<lambda>j. if ret \<le> j \<and> j < ret + n1 then file_byte rd s1 os1 dp cs (p + (j - ret)) else m j)"
    have lt2: "count - (ret + n1) < count - ret" using r(2) lt(1) by linarith
    have s2: "fat_ok rd V dp s2 os2" "d = dpbs s2 dp" "file_chain d (fat_bytes rd s2 os2 dp) c ds"
      using q d ch by (simp_all add: quiet_def)
    define n2 where "n2 = min (count - (ret + n1)) (sz - (p + n1))"
    have nn: "n = n1 + n2" using n r(3,4) lt unfolding n2_def by linarith
    obtain f' s' os' where IH: "rw_loop E XFR_READ count (ret + n1) (adjust_far (far_add buf n1)) m2 f2 s2 =
         rw_end (int (ret + n1 + n2)) (\<lambda>j. if ret + n1 \<le> j \<and> j < ret + n1 + n2
            then file_byte rd s2 os2 dp cs (p + n1 + (j - (ret + n1))) else m2 j) f' s'"
        "quiet rd V dp s2 os2 s' os'" "on_file dp d cs f'" "moved_only f2 f'" "unat (f_offset f') = p + n1 + n2"
      using less.hyps[OF lt2 s2 r(6) _ r(8)[symmetric] n2_def, of "adjust_far (far_add buf n1)" m2] dir szd by auto
    have "rw_loop E XFR_READ count ret buf m f s = rw_loop E XFR_READ count (ret + n1) (adjust_far (far_add buf n1)) m2 f2 s2"
    proof -
      have "\<not> dir_size (f_dir f) \<le> f_offset f" using lt(2) szd p by (simp add: word_le_nat_alt)
      then show ?thesis using lt(1) m1(1) r(1)
        by (subst rw_loop.simps) (simp add: xfr_modes Let_def put_from_bytes m2_def)
    qed
    moreover have "(\<lambda>j. if ret + n1 \<le> j \<and> j < ret + n1 + n2 then file_byte rd s2 os2 dp cs (p + n1 + (j - (ret + n1))) else m2 j)
        = (\<lambda>j. if ret \<le> j \<and> j < ret + n then file_byte rd s os dp cs (p + (j - ret)) else m j)"
    proof
      fix j
      have inv: "\<forall>c \<in> set cs. in_vol (dpbs s dp) c" using ch d unfolding cs file_chain_def by blast
      have fb: "file_byte rd s2 os2 dp cs x = file_byte rd s os dp cs x" "file_byte rd s1 os1 dp cs x = file_byte rd s os dp cs x"
        if "x < sz" for x
        using quiet_byte[OF q _ inv, of x] quiet_byte[OF m1(2) _ inv, of x] that cap vol d by simp_all
      show "(if ret + n1 \<le> j \<and> j < ret + n1 + n2 then file_byte rd s2 os2 dp cs (p + n1 + (j - (ret + n1))) else m2 j)
        = (if ret \<le> j \<and> j < ret + n then file_byte rd s os dp cs (p + (j - ret)) else m j)"
      proof (cases "ret \<le> j \<and> j < ret + n")
        case True
        then have "p + (j - ret) < sz" using n lt by linarith
        then show ?thesis using True fb nn by (auto simp: m2_def)
      qed (use nn in \<open>auto simp: m2_def\<close>)
    qed
    ultimately show ?thesis using IH nn quiet_trans[OF q IH(2)] moved_only_trans[OF mv IH(4)]
      by (intro exI[of _ f'] exI[of _ s'] exI[of _ os']) (simp add: add.assoc)
  qed
qed

end
