(* ===== verification/Fileio_Entries.thy ===== *)
theory Fileio_Entries
  imports Fileio_Proofs Handles_Proofs
begin

text \<open>
  Entries of the system file table and the near f-node: what loading and storing an entry does,
  that the disk does not depend on the table, and how \<open>merge_file_changes\<close> spreads a change.
\<close>

section \<open>The disk does not depend on the table\<close>

definition with_table :: "sft_t list list \<Rightarrow> nat option \<Rightarrow> 'w kernel \<Rightarrow> 'w kernel" where
  "with_table t l k = k\<lparr>sft_tbl := t, lpCurSft := l\<rparr>"

definition table_only :: "'w diskio \<Rightarrow> 'w diskio \<Rightarrow> bool" where
  "table_only s s' \<longleftrightarrow> (\<exists>t l. s' = s\<lparr>kern := with_table t l (kern s)\<rparr>)"

lemma with_table_simps [simp]:
  "world (with_table t l k) = world k" "CDSp (with_table t l k) = CDSp k" "dpb_device (with_table t l k) = dpb_device k"
  "get_cds n (with_table t l k) = get_cds n k" "sft_tbl (with_table t l k) = t"
  by (simp_all add: with_table_def get_cds_def Let_def)

lemma table_only_disk:
  assumes "table_only s s'"
  shows "dpbs s' = dpbs s" "cache_ok n rd V s' os = cache_ok n rd V s os" "view n rd s' os = view n rd s os"
proof -
  obtain t l where s': "s' = s\<lparr>kern := with_table t l (kern s)\<rparr>" using assms by (auto simp: table_only_def)
  show d: "dpbs s' = dpbs s" by (simp add: s')
  have g: "get_dpb d s' = get_dpb d s" for d by (simp add: s' get_dpb_def split: option.split)
  have k: "drive_key s' dp = drive_key s dp" for dp by (simp add: s' drive_key_def)
  have dk: "dkey s' d = dkey s d" for d by (simp add: dkey_def g k)
  have ds: "disk n rd s' v = disk n rd s v" for v by (simp add: disk_def dk) (simp add: s')
  have b: "bufs s' = bufs s" "firstbuf s' = firstbuf s" by (simp_all add: s')
  have m: "mirrors_ok V s' x = mirrors_ok V s x" for x by (simp add: mirrors_ok_def copy_offset_def d)
  have dr: "drives_ok n D s' = drives_ok n D s" for D
    by (simp add: drives_ok_def g d) (simp add: inj_on_def dk)
  show "cache_ok n rd V s' os = cache_ok n rd V s os"
    by (simp add: cache_ok_def lru_def buffer_ok_def unique_blocks_def dr ds b m)
  show "view n rd s' os = view n rd s os" unfolding view_def lru_find_def ds b fun_eq_iff by simp
qed

lemma table_only_fat:
  assumes "table_only s s'"
  shows "fat_ok rd V dp s' os = fat_ok rd V dp s os" "fat_bytes rd s' os dp = fat_bytes rd s os dp"
    "file_byte rd s' os dp cs p = file_byte rd s os dp cs p" "data_kept rd V d s os s' os"
  unfolding fat_ok_def fat_bytes_def file_byte_def data_kept_def table_only_disk[OF assms] by simp_all

lemma table_only_trans: "table_only s s' \<Longrightarrow> table_only s' s'' \<Longrightarrow> table_only s s''"
proof -
  assume "table_only s s'" "table_only s' s''"
  then obtain t l where "s'' = s\<lparr>kern := with_table t l (kern s)\<rparr>" by (auto simp: table_only_def with_table_def)
  then show "table_only s s''" unfolding table_only_def by blast
qed

lemma table_only_refl [simp]: "table_only s s"
proof -
  have "s = s\<lparr>kern := with_table (sft_tbl (kern s)) (lpCurSft (kern s)) (kern s)\<rparr>" by (simp add: with_table_def)
  then show ?thesis unfolding table_only_def by metis
qed

section \<open>Loading and storing an entry\<close>

definition relclust :: "sft_t \<Rightarrow> 32 word" where
  "relclust e = ucast (sft_relclust e) OR push_bit 16 (ucast (sft_relclust_high e))"

lemma two_halves: "(ucast (ucast x :: 16 word) :: 32 word) OR push_bit 16 (ucast (ucast (drop_bit 16 x) :: 16 word)) = x"
  by (rule bit_word_eqI) (auto simp: bit_simps)

lemma getdstart_set: "\<not> ISFAT32 d \<Longrightarrow> unat v < 65536 \<Longrightarrow> getdstart d (setdstart v e) = v"
proof -
  assume a: "\<not> ISFAT32 d" "unat v < 65536"
  have "ucast (ucast v :: 16 word) = (v :: 32 word)"
    by (rule word_unat_eq_iff[THEN iffD2]) (use a(2) in \<open>simp add: unsigned_ucast_eq unsigned_take_bit_eq take_bit_nat_eq_self\<close>)
  then show ?thesis using a(1) by (simp add: getdstart_def setdstart_def)
qed

lemma sft_to_fnode_eq:
  assumes "fd < nsft (kern s)" "sft_count (sft_at (kern s) fd) \<noteq> 0"
  shows "sft_to_fnode fd f s =
     Inr (load_fnode fd (sft_at (kern s) fd) f, s\<lparr>kern := with_table (sft_tbl (kern s)) (Some fd) (kern s)\<rparr>)"
  using assms by (simp add: sft_to_fnode_def idx_to_sft_eq on_kernel_def with_table_def)

lemma fnode_to_sft_eq:
  assumes "fd < nsft (kern s)" "sft_count (sft_at (kern s) fd) \<noteq> 0" "uint (f_sft_idx f) = int fd"
  shows "fnode_to_sft f s = Inr (s\<lparr>kern := with_table (sft_upd fd (store_fnode (dpbs s (f_dpb f)) f) (sft_tbl (kern s))) (Some fd) (kern s)\<rparr>)"
  using assms by (simp add: fnode_to_sft_def idx_to_sft_eq on_kernel_def with_table_def set_sft_def)

text \<open>An entry of a file whose chain is \<open>cs\<close>, with a position that the entry's current cluster fits.\<close>

definition open_entry :: "32 word \<Rightarrow> dpb \<Rightarrow> nat list \<Rightarrow> sft_t \<Rightarrow> bool" where
  "open_entry dp d cs e \<longleftrightarrow> sft_count e \<noteq> 0 \<and> sft_dev e = dp \<and> sft_stclust e = of_nat (hd cs)
     \<and> unat (sft_size e) \<le> capacity d cs \<and> (\<exists>i < length cs. sft_cuclust e = of_nat (cs ! i) \<and> relclust e = of_nat i)"

lemma load_on_file:
  assumes e: "open_entry dp d cs e" and d: "\<not> ISFAT32 d" and fd: "fd < 255" and c: "hd cs < 65536"
  shows "on_file dp d cs (load_fnode fd e f)" "dir_size (f_dir (load_fnode fd e f)) = sft_size e"
    "f_offset (load_fnode fd e f) = sft_posit e" "uint (f_sft_idx (load_fnode fd e f)) = int fd"
proof -
  have u: "unat (of_nat fd :: 8 word) = fd" using fd by (simp add: unsigned_of_nat take_bit_eq_mod)
  have i: "(of_nat fd :: 8 word) \<noteq> 0xff"
  proof
    assume "(of_nat fd :: 8 word) = 0xff"
    then have "unat (of_nat fd :: 8 word) = 255" by simp
    then show False using u fd by simp
  qed
  have "uint (of_nat fd :: 8 word) = int (unat (of_nat fd :: 8 word))" by simp
  then show "uint (f_sft_idx (load_fnode fd e f)) = int fd" unfolding u by (simp add: load_fnode_def)
  have "unat (of_nat (hd cs) :: 32 word) < 65536" using c by (simp add: unat_small)
  then have "getdstart d (f_dir (load_fnode fd e f)) = of_nat (hd cs)"
    using e getdstart_set[OF d] by (simp add: load_fnode_def open_entry_def)
  then show "on_file dp d cs (load_fnode fd e f)"
    using e i by (auto simp: on_file_def at_chain_def open_entry_def load_fnode_def relclust_def)
qed (simp_all add: load_fnode_def setdstart_def)

end
