(* ===== verification/Fileio_Write.thy ===== *)
theory Fileio_Write
  imports Fileio_Entries
begin

text \<open>
  Writing file data over a reliable driver: buffers of sectors that are overwritten on the disk
  are dropped, and each round of the loop of \<open>rwblock\<close> changes the bytes it should and no other.
\<close>

section \<open>Dropping buffers and writing sectors\<close>

definition drop_range :: "32 word \<Rightarrow> 32 word \<Rightarrow> 16 word \<Rightarrow> 16 word \<Rightarrow> unit \<Rightarrow> 'w diskio \<Rightarrow> (unit + unit \<times> 'w diskio) option" where
  "drop_range lo hi d bp a s = Some (Inr ((), if in_range d lo hi (bufs s bp) then set_buf bp (\<lambda>b. b\<lparr>b_flag := 0\<rparr>) s else s))"

lemma delete_write_list:
  assumes "lru s os"
  shows "DeleteBlockInBufferCache E lo hi d XFR_WRITE s = map_option snd (ring_state (list_do (drop_range lo hi d) os () s))"
proof -
  have "(\<lambda>bp (a :: unit) s. let b = bufs s bp in
       if lo \<le> b_blkno b \<and> b_blkno b \<le> hi \<and> flag_set (b_flag b) BFR_VALID \<and> scast (b_unit b) = d then
         if XFR_WRITE = XFR_READ then do { (ok, s1) \<leftarrow> flush1 E bp s; Some (Inr ((), s1)) }
         else Some (Inr ((), set_buf bp (\<lambda>b. b\<lparr>b_flag := 0\<rparr>) s))
       else Some (Inr ((), s) :: unit + unit \<times> 'a diskio)) = drop_range lo hi d"
    by (auto simp: fun_eq_iff drop_range_def in_range_def Let_def xfr_modes)
  moreover have "keeps_links (drop_range lo hi d)"
    by (auto simp: keeps_links_def drop_range_def same_links_def)
  ultimately show ?thesis unfolding DeleteBlockInBufferCache_def using ring_do_list[OF _ assms] by metis
qed

lemma drop_one:
  assumes ok: "cache_ok n rd V s os" and x: "x \<in> set os"
    and s': "s' = (if in_range d lo hi (bufs s x) then set_buf x (\<lambda>b. b\<lparr>b_flag := 0\<rparr>) s else s)"
  shows "cache_ok n rd V s' os" "dpbs s' = dpbs s" "kern s' = kern s"
    "b_valid (bufs s' y) \<longleftrightarrow> b_valid (bufs s y) \<and> (y = x \<longrightarrow> \<not> in_range d lo hi (bufs s x))"
    "buf_id (bufs s' y) = buf_id (bufs s y)"
    "\<not> (fst v = d \<and> lo \<le> snd v \<and> snd v \<le> hi) \<Longrightarrow> view n rd s' os v = view n rd s os v"
proof -
  show k: "dpbs s' = dpbs s" "kern s' = kern s" by (simp_all add: s')
  have f: "b_valid (bufs s' y) \<longleftrightarrow> b_valid (bufs s y) \<and> (y = x \<longrightarrow> \<not> in_range d lo hi (bufs s x))"
    "buf_id (bufs s' y) = buf_id (bufs s y)" "b_buffer (bufs s' y) = b_buffer (bufs s y)"
    "b_valid (bufs s' y) \<Longrightarrow> bufs s' y = bufs s y" for y
    by (auto simp: s' buf_id_def)
  then show "b_valid (bufs s' y) \<longleftrightarrow> b_valid (bufs s y) \<and> (y = x \<longrightarrow> \<not> in_range d lo hi (bufs s x))"
    "buf_id (bufs s' y) = buf_id (bufs s y)" by blast+
  have ds: "disk n rd s' v = disk n rd s v" for v by (rule disk_cong[OF k(2,1)])
  have l: "same_links s s'" by (simp add: s' same_links_def)
  have g: "get_dpb d s' = get_dpb d s" for d using get_dpb_same[OF k(2)] .
  have dr: "drives_ok n D s' = drives_ok n D s" for D
    using drives_ok_cong[of s' "world (kern s)" s] k with_world_same[of "kern s"] by simp
  have m: "mirrors_ok V s' b = mirrors_ok V s b" for b by (simp add: mirrors_ok_def copy_offset_def k)
  have bo: "buffer_ok n rd V s' (bufs s' y)" if "y \<in> set os" for y
  proof (cases "b_valid (bufs s' y)")
    case True
    have "buffer_ok n rd V s (bufs s y)" using ok that by (simp add: cache_ok_def)
    then show ?thesis unfolding f(4)[OF True] by (simp add: buffer_ok_def ds m)
  qed (simp add: buffer_ok_def)
  show ok': "cache_ok n rd V s' os"
    using ok bo lru_same_links[OF l] dr by (auto simp: cache_ok_def unique_blocks_def f(1,2))
  assume v: "\<not> (fst v = d \<and> lo \<le> snd v \<and> snd v \<le> hi)"
  show "view n rd s' os v = view n rd s os v"
  proof (cases "\<exists>y \<in> set os. b_valid (bufs s y) \<and> buf_id (bufs s y) = v")
    case True
    then obtain y where y: "y \<in> set os" "b_valid (bufs s y)" "buf_id (bufs s y) = v" by blast
    have "\<not> in_range d lo hi (bufs s y)" using v y(3) by (auto simp: in_range_def buf_id_def)
    then have "b_valid (bufs s' y)" using f(1) y(2) by auto
    then show ?thesis using view_hit[OF ok y(1,2)] view_hit[OF ok' y(1)] y(3) f(2,3) by metis
  next
    case False
    then show ?thesis using view_miss[of os s v] view_miss[of os s' v] f(1,2) ds by auto
  qed
qed

lemma drop_list:
  "cache_ok n rd V s os \<Longrightarrow> set xs \<subseteq> set os \<Longrightarrow>
    \<exists>s'. list_do (drop_range lo hi d) xs () s = Some (Inr ((), s')) \<and> cache_ok n rd V s' os \<and> dpbs s' = dpbs s \<and> kern s' = kern s
      \<and> (\<forall>v. \<not> (fst v = d \<and> lo \<le> snd v \<and> snd v \<le> hi) \<longrightarrow> view n rd s' os v = view n rd s os v)
      \<and> (\<forall>y. b_valid (bufs s' y) \<longrightarrow> b_valid (bufs s y) \<and> (y \<in> set xs \<longrightarrow> \<not> in_range d lo hi (bufs s y)))
      \<and> (\<forall>y. buf_id (bufs s' y) = buf_id (bufs s y))"
proof (induction xs arbitrary: s)
  case (Cons x xs)
  define s1 where "s1 = (if in_range d lo hi (bufs s x) then set_buf x (\<lambda>b. b\<lparr>b_flag := 0\<rparr>) s else s)"
  have x: "x \<in> set os" "set xs \<subseteq> set os" using Cons.prems(2) by simp_all
  note D = drop_one[OF Cons.prems(1) x(1) s1_def]
  obtain s' where s': "list_do (drop_range lo hi d) xs () s1 = Some (Inr ((), s'))" "cache_ok n rd V s' os" "dpbs s' = dpbs s1"
     "kern s' = kern s1" "\<forall>v. \<not> (fst v = d \<and> lo \<le> snd v \<and> snd v \<le> hi) \<longrightarrow> view n rd s' os v = view n rd s1 os v"
     "\<forall>y. b_valid (bufs s' y) \<longrightarrow> b_valid (bufs s1 y) \<and> (y \<in> set xs \<longrightarrow> \<not> in_range d lo hi (bufs s1 y))"
     "\<forall>y. buf_id (bufs s' y) = buf_id (bufs s1 y)"
    using Cons.IH[OF D(1) x(2)] by blast
  have r: "in_range d lo hi (bufs s1 y) \<longleftrightarrow> in_range d lo hi (bufs s y) \<and> b_valid (bufs s1 y)" for y
    by (auto simp: s1_def in_range_def)
  have "list_do (drop_range lo hi d) (x # xs) () s = Some (Inr ((), s'))"
    using s'(1) by (simp add: drop_range_def[of lo hi d x] s1_def)
  moreover have "\<forall>y. b_valid (bufs s' y) \<longrightarrow> b_valid (bufs s y) \<and> (y \<in> set (x # xs) \<longrightarrow> \<not> in_range d lo hi (bufs s y))"
    using s'(6) D(4) r by auto
  ultimately show ?case using s'(2-5,7) D(2,3,5,6) by auto
qed simp

lemma delete_write_ok:
  assumes ok: "cache_ok n rd V s os"
  shows "\<exists>s'. DeleteBlockInBufferCache E lo hi d XFR_WRITE s = Some s' \<and> cache_ok n rd V s' os \<and> dpbs s' = dpbs s \<and> kern s' = kern s
      \<and> (\<forall>v. \<not> (fst v = d \<and> lo \<le> snd v \<and> snd v \<le> hi) \<longrightarrow> view n rd s' os v = view n rd s os v)
      \<and> (\<forall>y \<in> set os. b_valid (bufs s' y) \<longrightarrow> \<not> (fst (buf_id (bufs s' y)) = d \<and> lo \<le> snd (buf_id (bufs s' y)) \<and> snd (buf_id (bufs s' y)) \<le> hi))"
proof -
  obtain s' where s': "list_do (drop_range lo hi d) os () s = Some (Inr ((), s'))" "cache_ok n rd V s' os" "dpbs s' = dpbs s"
     "kern s' = kern s" "\<forall>v. \<not> (fst v = d \<and> lo \<le> snd v \<and> snd v \<le> hi) \<longrightarrow> view n rd s' os v = view n rd s os v"
     "\<forall>y. b_valid (bufs s' y) \<longrightarrow> b_valid (bufs s y) \<and> (y \<in> set os \<longrightarrow> \<not> in_range d lo hi (bufs s y))"
     "\<forall>y. buf_id (bufs s' y) = buf_id (bufs s y)"
    using drop_list[OF ok order_refl] by blast
  have "lru s os" using ok by (simp add: cache_ok_def)
  then have "DeleteBlockInBufferCache E lo hi d XFR_WRITE s = Some s'"
    unfolding delete_write_list[OF \<open>lru s os\<close>] s'(1) by (simp add: ring_state_def)
  moreover have "\<not> (fst (buf_id (bufs s' y)) = d \<and> lo \<le> snd (buf_id (bufs s' y)) \<and> snd (buf_id (bufs s' y)) \<le> hi)"
    if "y \<in> set os" "b_valid (bufs s' y)" for y
    using that s'(6,7) by (auto simp: in_range_def buf_id_def)
  ultimately show ?thesis using s'(2-5) by blast
qed

text \<open>Writing sectors that no buffer holds.\<close>

lemma write_sectors_ok:
  assumes ok: "cache_ok n rd V s os" and io: "io_only s s'" and b0: "(d, b) \<in> V"
    and w: "rd (world (kern s')) = (rd (world (kern s)))(dkey s d := store_sectors n k b m (rd (world (kern s)) (dkey s d)))"
    and free: "\<forall>y \<in> set os. b_valid (bufs s y) \<longrightarrow> \<not> (fst (buf_id (bufs s y)) = d \<and> unat (snd (buf_id (bufs s y)) - b) < k)"
  shows "cache_ok n rd V s' os"
    "v \<in> V \<Longrightarrow> view n rd s' os v =
       (if fst v = d \<and> unat (snd v - b) < k then sector n (from_byte (n * unat (snd v - b)) m) else view n rd s os v)"
proof -
  have kk: "bufs s' = bufs s" "firstbuf s' = firstbuf s" "dpbs s' = dpbs s" using io by (simp_all add: io_only_def)
  obtain w' where kw: "kern s' = with_world w' (kern s)" using io by (auto simp: io_only_def)
  have dk: "dkey s' x = dkey s x" for x using get_dpb_cong[OF kw] kw kk(3) by (simp add: dkey_def drive_key_def)
  have inj: "inj_on (dkey s) (fst ` V)" using ok by (simp add: cache_ok_def drives_ok_def)
  have ds: "disk n rd s' v = (if fst v = d \<and> unat (snd v - b) < k then sector n (from_byte (n * unat (snd v - b)) m) else disk n rd s v)"
    if "v \<in> V" for v
  proof -
    have e: "dkey s (fst v) = dkey s d \<longleftrightarrow> fst v = d" using inj that b0 by (metis inj_onD image_eqI fst_conv)
    show ?thesis
    proof (cases "fst v = d")
      case True
      then show ?thesis by (simp add: disk_def dk w store_sectors_def)
    next
      case False
      then show ?thesis using e by (simp add: disk_def dk w)
    qed
  qed
  have m: "mirrors_ok V s' x = mirrors_ok V s x" for x by (simp add: mirrors_ok_def copy_offset_def kk)
  have bo: "buffer_ok n rd V s' (bufs s' y)" if "y \<in> set os" for y
  proof -
    have "buffer_ok n rd V s (bufs s y)" using ok that by (simp add: cache_ok_def)
    then show ?thesis using free that ds[of "buf_id (bufs s y)"] unfolding buffer_ok_def kk m by auto
  qed
  show ok': "cache_ok n rd V s' os"
    using ok bo drives_ok_cong[OF kw kk(3)] by (simp add: cache_ok_def lru_def unique_blocks_def kk)
  assume v: "v \<in> V"
  show "view n rd s' os v =
       (if fst v = d \<and> unat (snd v - b) < k then sector n (from_byte (n * unat (snd v - b)) m) else view n rd s os v)"
  proof (cases "\<exists>y \<in> set os. b_valid (bufs s y) \<and> buf_id (bufs s y) = v")
    case True
    then obtain y where y: "y \<in> set os" "b_valid (bufs s y)" "buf_id (bufs s y) = v" by blast
    then show ?thesis using view_hit[OF ok y(1,2)] view_hit[OF ok' y(1)] kk free by auto
  next
    case False
    then show ?thesis using view_miss[of os s v] view_miss[of os s' v] ds[OF v] kk by auto
  qed
qed

section \<open>What a write changes\<close>

definition file_blocks :: "dpb \<Rightarrow> nat list \<Rightarrow> block_id set" where
  "file_blocks d cs = file_block d cs ` {..< length cs * spc d}"

text \<open>The bytes from \<open>a\<close> on are the \<open>n\<close> bytes at \<open>m\<close>; the table, the rest of the file and every
  other block are as before.\<close>

definition patched ::
    "'w disk_reader \<Rightarrow> block_id set \<Rightarrow> 32 word \<Rightarrow> nat list \<Rightarrow> nat \<Rightarrow> nat \<Rightarrow> bytes
     \<Rightarrow> 'w diskio \<Rightarrow> 16 word list \<Rightarrow> 'w diskio \<Rightarrow> 16 word list \<Rightarrow> bool" where
  "patched rd V dp cs a n m s os s' os' \<longleftrightarrow> fat_ok rd V dp s' os' \<and> fat_bytes rd s' os' dp = fat_bytes rd s os dp
     \<and> dpbs s' = dpbs s
     \<and> (\<forall>p < capacity (dpbs s dp) cs. file_byte rd s' os' dp cs p =
          (if a \<le> p \<and> p < a + n then m (p - a) else file_byte rd s os dp cs p))
     \<and> (\<forall>v \<in> V - fat_blocks (dpbs s dp) - file_blocks (dpbs s dp) cs. view 512 rd s' os' v = view 512 rd s os v)"

lemma patched_trans:
  assumes "patched rd V dp cs a n m s os s1 os1" "patched rd V dp cs (a + n) n2 (from_byte n m) s1 os1 s2 os2"
  shows "patched rd V dp cs a (n + n2) m s os s2 os2"
  using assms unfolding patched_def by (auto simp: from_byte_def)

lemma quiet_patched:
  assumes q: "quiet rd V dp s os s' os'" and vol: "data_vol V (dpbs s dp)" and cs: "\<forall>c \<in> set cs. in_vol (dpbs s dp) c"
  shows "patched rd V dp cs a 0 m s os s' os'"
  using q quiet_byte[OF q vol cs] unfolding patched_def quiet_def data_kept_def by auto

lemma table_patched:
  assumes "table_only s s'" "fat_ok rd V dp s os"
  shows "patched rd V dp cs a 0 m s os s' os"
  using assms(2) unfolding patched_def table_only_disk[OF assms(1)] table_only_fat(1-3)[OF assms(1)] by auto

lemma patched_0: "patched rd V dp cs a 0 m s os s1 os1 \<Longrightarrow> patched rd V dp cs a n m' s1 os1 s2 os2
    \<Longrightarrow> patched rd V dp cs a n m' s os s2 os2"
  using patched_trans[of rd V dp cs a 0 m' s os s1 os1 n s2 os2] by (simp add: patched_def from_byte_def)

lemma patched_0_right: "patched rd V dp cs a n m s os s1 os1 \<Longrightarrow> patched rd V dp cs b 0 m' s1 os1 s2 os2
    \<Longrightarrow> patched rd V dp cs a n m s os s2 os2"
  unfolding patched_def by auto

text \<open>No two sectors of a file are the same block.\<close>

lemma file_block_inj:
  assumes vol: "data_vol V d" "\<not> ISFAT32 d" and ch: "file_chain d F c ds" and cs: "cs = c # ds"
    and q: "q < length cs * spc d" "r < length cs * spc d" and e: "file_block d cs q = file_block d cs r"
  shows "q = r"
proof -
  let ?i = "q div spc d" and ?j = "r div spc d"
  have i: "?i < length cs" "?j < length cs" using q by (simp_all add: less_mult_imp_div_less)
  then have v: "in_vol d (cs ! ?i)" "in_vol d (cs ! ?j)" using ch unfolding cs file_chain_def by (meson nth_mem)+
  have sp: "spc d < 65536"
  proof -
    have "spc d \<le> 2 ^ 7" unfolding spc_def using vol by (intro power_increasing) (simp_all add: data_vol_def)
    then show ?thesis by simp
  qed
  have m: "q mod spc d < spc d" "r mod spc d < spc d" by simp_all
  have "unat (clus2phys (of_nat (cs ! ?i)) d + of_nat (q mod spc d)) = unat (clus2phys (of_nat (cs ! ?j)) d + of_nat (r mod spc d))"
    using e by (simp add: file_block_def data_block_def)
  then have s: "(cs ! ?i - 2) * spc d + q mod spc d = (cs ! ?j - 2) * spc d + r mod spc d"
    using unat_block(1)[OF vol v(1), of "q mod spc d"] unat_block(1)[OF vol v(2), of "r mod spc d"] m sp by simp
  then have "((cs ! ?i - 2) * spc d + q mod spc d) div spc d = ((cs ! ?j - 2) * spc d + r mod spc d) div spc d" by simp
  then have "cs ! ?i - 2 = cs ! ?j - 2" using m by simp
  then have "cs ! ?i = cs ! ?j" using v by linarith
  moreover have "distinct cs" using ch unfolding cs file_chain_def by blast
  ultimately have "?i = ?j" using i nth_eq_iff_index_eq by blast
  moreover have "q mod spc d = r mod spc d" using s \<open>cs ! ?i = cs ! ?j\<close> by simp
  ultimately show "q = r" by (metis mult_div_mod_eq)
qed

text \<open>From views of sectors to bytes: sectors \<open>q0\<close> up to \<open>q0 + k\<close> get new contents.\<close>

lemma patched_sectors:
  assumes ok: "fat_ok rd V dp s' os'" "fat_vol V (dpbs s dp)" "dpbs s' = dpbs s" and d: "d = dpbs s dp"
    and vol: "data_vol V d" "\<not> ISFAT32 d" and ch: "file_chain d F c ds" and cs: "cs = c # ds"
    and q: "q0 + k \<le> length cs * spc d"
    and new: "\<And>q i. q < k \<Longrightarrow> i < 512 \<Longrightarrow> view 512 rd s' os' (file_block d cs (q0 + q)) i =
        (if a \<le> (q0 + q) * 512 + i \<and> (q0 + q) * 512 + i < a + n then m ((q0 + q) * 512 + i - a)
         else view 512 rd s os (file_block d cs (q0 + q)) i)"
    and same: "\<And>v. v \<in> V \<Longrightarrow> v \<notin> file_block d cs ` {q0..<q0 + k} \<Longrightarrow> view 512 rd s' os' v = view 512 rd s os v"
    and rng: "q0 * 512 \<le> a" "a + n \<le> (q0 + k) * 512"
  shows "patched rd V dp cs a n m s os s' os'"
proof -
  have fb: "file_block d cs x \<in> V - fat_blocks d" if "x < length cs * spc d" for x
  proof -
    have "x div spc d < length cs" using that by (rule less_mult_imp_div_less)
    then have "in_vol d (cs ! (x div spc d))" using ch unfolding cs file_chain_def by (meson nth_mem)
    then show ?thesis using vol(1) by (simp add: file_block_def data_vol_def)
  qed
  have sub: "file_block d cs ` {q0..<q0 + k} \<subseteq> file_blocks d cs" unfolding file_blocks_def using q by auto
  have fat: "fat_bytes rd s' os' dp = fat_bytes rd s os dp"
  proof
    fix i
    show "fat_bytes rd s' os' dp i = fat_bytes rd s os dp i"
    proof (cases "i < fat_len d")
      case True
      then have i: "i div 512 < unat (dpb_fatsize d)" unfolding fat_len_def by (metis less_mult_imp_div_less mult.commute)
      let ?v = "(vol_unit d, fat_sector d (i div 512))"
      have "?v \<in> fat_blocks d" using i by (auto simp: fat_blocks_def)
      moreover have "?v \<in> V" using ok(2) i d by (simp add: fat_vol_def)
      moreover have "file_block d cs x \<notin> fat_blocks d" if "x < q0 + k" for x using fb[of x] that q by simp
      ultimately have "view 512 rd s' os' ?v = view 512 rd s os ?v" by (intro same) auto
      then show ?thesis using True ok(3) d by (simp add: fat_bytes_def)
    qed (use ok(3) d in \<open>simp add: fat_bytes_def\<close>)
  qed
  have bytes: "file_byte rd s' os' dp cs p = (if a \<le> p \<and> p < a + n then m (p - a) else file_byte rd s os dp cs p)"
    if p: "p < capacity d cs" for p
  proof -
    define x where "x = p div 512"
    have x: "x < length cs * spc d" unfolding x_def by (rule less_mult_imp_div_less) (use p in \<open>simp add: capacity_def mult.assoc\<close>)
    have px: "p = x * 512 + p mod 512" by (simp add: x_def)
    have e: "file_byte rd t u dp cs p = view 512 rd t u (file_block d cs x) (p mod 512)" if "dpbs t = dpbs s" for t u
      using that d by (simp add: file_byte_def x_def)
    show ?thesis
    proof (cases "q0 \<le> x \<and> x < q0 + k")
      case True
      define q where "q = x - q0"
      have "x = q0 + q" "q < k" using True by (auto simp: q_def)
      then show ?thesis using new[of q "p mod 512"] px unfolding e[OF ok(3)] e[OF refl] by simp
    next
      case False
      have "file_block d cs x \<notin> file_block d cs ` {q0..<q0 + k}"
      proof
        assume "file_block d cs x \<in> file_block d cs ` {q0..<q0 + k}"
        then obtain r where r: "file_block d cs x = file_block d cs r" "q0 \<le> r" "r < q0 + k" by auto
        then have "x = r" using file_block_inj[OF vol ch cs x] q by simp
        then show False using False r by simp
      qed
      then have v: "view 512 rd s' os' (file_block d cs x) = view 512 rd s os (file_block d cs x)"
        using same fb[OF x] by simp
      have "\<not> (a \<le> p \<and> p < a + n)"
      proof
        assume ap: "a \<le> p \<and> p < a + n"
        then have "q0 * 512 \<le> p" "p < (q0 + k) * 512" using rng by linarith+
        then have "q0 \<le> x" "x < q0 + k" unfolding x_def by (simp_all add: less_eq_div_iff_mult_less_eq div_less_iff_less_mult)
        then show False using False by blast
      qed
      then show ?thesis using v unfolding e[OF ok(3)] e[OF refl] by auto
    qed
  qed
  have "\<forall>v \<in> V - fat_blocks d - file_blocks d cs. view 512 rd s' os' v = view 512 rd s os v"
    using same sub by blast
  then show ?thesis unfolding patched_def d[symmetric] using ok(1,3) fat bytes by blast
qed

section \<open>A round of the loop\<close>

lemma spread_sector:
  assumes "i < 512" "p mod 512 + n \<le> (512 :: nat)"
  shows "put_from (p mod 512) (copy_bytes n m (from_byte (p mod 512) buf)) buf i
      = (if p \<le> p div 512 * 512 + i \<and> p div 512 * 512 + i < p + n then m (p div 512 * 512 + i - p) else buf i)"
proof -
  define b where "b = p mod 512"
  have e: "p = p div 512 * 512 + b" by (simp add: b_def)
  define a where "a = p div 512 * 512"
  have "p = a + b" using e a_def by simp
  then show ?thesis unfolding a_def[symmetric] b_def[symmetric]
    by (auto simp: put_from_def copy_bytes_def from_byte_def)
qed




lemma rw_block_write:
  assumes rel: "reliable E 512 rd" and ok: "fat_ok rd V dp s os" and vol: "data_vol V (dpbs s dp)"
    and ch: "file_chain (dpbs s dp) F c ds" and f: "f_dpb f = dp"
    and p: "p = unat (f_offset f)" "p < capacity (dpbs s dp) (c # ds)"
    and cl: "f_cluster f = of_nat ((c # ds) ! (p div 512 div spc (dpbs s dp)))" and n: "n = min k (512 - p mod 512)"
  shows "\<exists>s' os'. rw_block E XFR_WRITE k m f s =
        Some (Inr (Xfer_bytes n, m, f\<lparr>f_offset := f_offset f + of_nat n\<rparr>, s'))
      \<and> patched rd V dp (c # ds) p n m s os s' os' \<and> kcore s' = kcore s"
proof -
  let ?d = "dpbs s dp" and ?cs = "c # ds"
  define blk where "blk = clus2phys (f_cluster f) ?d + of_nat (rw_sector f ?d)"
  note B = position_block[OF ok vol ch p(1) p(2) cl, folded blk_def]
  have V: "(vol_unit ?d, blk) \<in> V" using B by simp
  have co: "cache_ok 512 rd V s os" and len: "2 \<le> length os" and fv: "fat_vol V ?d" using ok by (simp_all add: fat_ok_def)
  have sec: "unat (dpb_secsize ?d) = 512" and n32: "\<not> ISFAT32 ?d" using fv by (simp_all add: fat_vol_def)
  obtain x s1 where g: "getblk E blk (vol_unit ?d) False s = Some (Some x, s1)" "x \<in> set os"
     "cache_ok 512 rd V s1 (x # remove1 x os)" "\<forall>v \<in> V. view 512 rd s1 (x # remove1 x os) v = view 512 rd s os v"
     "b_valid (bufs s1 x)" "buf_id (bufs s1 x) = (vol_unit ?d, blk)" "dpbs s1 = dpbs s"
    using getblk_ok[OF rel co V] by blast
  define os1 where "os1 = x # remove1 x os"
  have x1: "x \<in> set os1" by (simp add: os1_def)
  have len1: "2 \<le> length os1" using len g(2) by (simp add: os1_def length_remove1)
  note co1 = g(3)[folded os1_def]
  define buf where "buf = b_buffer (bufs s1 x)"
  define nb where "nb = put_from (p mod 512) (copy_bytes n m (from_byte (p mod 512) buf)) buf"
  define s2 where "s2 = set_buf x (\<lambda>b. b\<lparr>b_buffer := nb, b_flag := b_flag b OR (BFR_DIRTY OR BFR_VALID)\<rparr>) s1"
  have s2b: "b_valid (bufs s2 x)" "b_dirty (bufs s2 x)" "b_fat (bufs s2 x) = b_fat (bufs s1 x)"
    "buf_id (bufs s2 x) = buf_id (bufs s1 x)" "b_buffer (bufs s2 x) = nb" "\<And>y. y \<noteq> x \<Longrightarrow> bufs s2 y = bufs s1 y"
    "dpbs s2 = dpbs s1" "kern s2 = kern s1"
    by (auto simp: s2_def flag_simps buf_id_def)
  have m2: "b_fat (bufs s2 x) \<longrightarrow> mirrors_ok V s2 (bufs s2 x)"
  proof -
    have "b_fat (bufs s1 x) \<longrightarrow> mirrors_ok V s1 (bufs s1 x)" using co1 x1 g(5) by (simp add: cache_ok_def buffer_ok_def)
    moreover have "mirrors_ok V s2 (bufs s2 x) = mirrors_ok V s1 (bufs s1 x)" by (simp add: mirrors_ok_def copy_offset_def s2_def)
    ultimately show ?thesis using s2b(3) by simp
  qed
  have l2: "same_links s1 s2" unfolding s2_def by (rule same_links_set_buf) simp
  note P = poke_ok[OF co1 x1 g(5) s2b(4,1) disjI1[OF s2b(2)] m2 s2b(6) l2 s2b(8)]
  have P1: "cache_ok 512 rd V s2 os1" by (rule P(1)) (simp_all add: s2b)
  have P2: "view 512 rd s2 os1 = (view 512 rd s1 os1)(buf_id (bufs s1 x) := sector 512 nb)"
    unfolding s2b(5)[symmetric] by (rule P(2)) (simp_all add: s2b)
  define s3 where "s3 = (if n = 512 then set_buf x (\<lambda>b. b\<lparr>b_flag := b_flag b OR BFR_UNCACHE\<rparr>) s2 else s2)"
  have s3: "cache_ok 512 rd V s3 os1" "view 512 rd s3 os1 = view 512 rd s2 os1" "dpbs s3 = dpbs s" "kcore s3 = kcore s1"
    using uncache_ok[OF P1 x1 s2b(1) refl] P1 g(7) s2b(7) by (simp_all add: s3_def) (simp_all add: s2_def)
  have buf: "sector 512 buf = view 512 rd s os (file_block ?d ?cs (p div 512))"
    using view_hit[OF co1 x1 g(5)] g(4,6) V B(1) by (simp add: os1_def buf_def)
  have pn: "p mod 512 + n \<le> 512"
  proof -
    have "p mod 512 < 512" by simp
    then show ?thesis using n by linarith
  qed
  have q1: "p div 512 + 1 \<le> length ?cs * spc ?d"
    using less_mult_imp_div_less[of p "length ?cs * spc ?d" 512] p(2) by (simp add: capacity_def mult.assoc)
  have w: "view 512 rd s3 os1 v = (if v = file_block ?d ?cs (p div 512) then sector 512 nb else view 512 rd s os v)"
    if "v \<in> V" for v
    using that s3(2) P2 g(4,6) B(1) by (simp add: os1_def)
  have fbV: "file_block ?d ?cs (p div 512) \<in> V" using B(2) by simp
  have pt: "patched rd V dp ?cs p n m s os s3 os1"
  proof (rule patched_sectors[OF _ fv s3(3) refl vol n32 ch refl q1])
    show "fat_ok rd V dp s3 os1" using s3(1,3) len1 fv by (simp add: fat_ok_def)
    show "view 512 rd s3 os1 v = view 512 rd s os v" if "v \<in> V" "v \<notin> file_block ?d ?cs ` {p div 512..<p div 512 + 1}" for v
      using w[OF that(1)] that(2) by auto
    show "p div 512 * 512 \<le> p" by (rule div_times_less_eq_dividend)
    have "p + n = p div 512 * 512 + (p mod 512 + n)" by simp
    also have "\<dots> \<le> p div 512 * 512 + 512" using pn by (rule add_left_mono)
    finally show "p + n \<le> (p div 512 + 1) * 512" by simp
    fix q i :: nat
    assume q: "q < 1" and i: "i < 512"
    have "view 512 rd s3 os1 (file_block ?d ?cs (p div 512)) i = nb i" using w[OF fbV] i by (simp add: sector_nth)
    moreover have "view 512 rd s os (file_block ?d ?cs (p div 512)) i = buf i" using i by (simp add: buf[symmetric] sector_nth)
    ultimately show "view 512 rd s3 os1 (file_block ?d ?cs (p div 512 + q)) i =
        (if p \<le> (p div 512 + q) * 512 + i \<and> (p div 512 + q) * 512 + i < p + n then m ((p div 512 + q) * 512 + i - p)
         else view 512 rd s os (file_block ?d ?cs (p div 512 + q)) i)"
      using q spread_sector[OF i pn, of m buf] by (simp add: nb_def)
  qed
  have "rw_block E XFR_WRITE k m f s = Some (Inr (Xfer_bytes n, m, f\<lparr>f_offset := f_offset f + of_nat n\<rparr>, s3))"
    unfolding rw_block_def Let_def f getblock_def blk_def[symmetric] g(1) Option.bind.simps prod.case option.case
      sec p(1)[symmetric] xfr_modes if_False if_True simp_thms n[symmetric] buf_def[symmetric] nb_def[symmetric]
      s2_def[symmetric] s3_def[symmetric] ..
  then show ?thesis using pt s3(4) kcore_getblk[OF g(1)] by (intro exI[of _ s3] exI[of _ os1]) simp
qed

lemma block_range:
  assumes "\<And>q. q < n \<Longrightarrow> unat (block + of_nat q) = unat block + q" "0 < n" "hi = block + of_nat n - (1 :: 32 word)"
  shows "block \<le> v \<and> v \<le> hi \<longleftrightarrow> unat (v - block) < n"
proof -
  have "hi = block + of_nat (n - 1)" using assms(2,3) by (simp add: of_nat_diff)
  then have hi: "unat hi = unat block + (n - 1)" using assms(1)[of "n - 1"] assms(2) by simp
  show ?thesis
  proof
    assume r: "block \<le> v \<and> v \<le> hi"
    then have "unat (v - block) = unat v - unat block" by (simp add: unat_sub)
    then show "unat (v - block) < n" using r hi assms(2) unfolding word_le_nat_alt by linarith
  next
    assume r: "unat (v - block) < n"
    define q where "q = unat (v - block)"
    have "v = block + of_nat q" by (simp add: q_def)
    then have "unat v = unat block + q" using assms(1)[of q] r q_def by simp
    then show "block \<le> v \<and> v \<le> hi" unfolding word_le_nat_alt hi using r q_def by linarith
  qed
qed

lemma rw_direct_write:
  assumes rel: "reliable_all E 512 rd" and ok: "fat_ok rd V dp s os" and d: "d = dpbs s dp" and vol: "data_vol V d"
    and cs: "cs = c # ds" and ch: "file_chain d (fat_bytes rd s os dp) c ds" and of: "on_file dp d cs f"
    and p: "unat (f_offset f) = q0 * 512" and w: "0 < wanted" "q0 + wanted \<le> length cs * spc d" "wanted < 65536"
    and cl: "f_cluster f = of_nat (cs ! (q0 div spc d))"
  shows "\<exists>n f' s' os'. rw_direct E XFR_WRITE wanted seg m f s = Some (Inr (Xfer_bytes (n * 512), m, f', s'))
      \<and> 0 < n \<and> n \<le> wanted \<and> patched rd V dp cs (q0 * 512) (n * 512) m s os s' os' \<and> kcore s' = kcore s
      \<and> on_file dp d cs f' \<and> moved_only f f' \<and> unat (f_offset f') = (q0 + n) * 512"
proof -
  have rel1: "reliable E 512 rd" using reliable_all_one[OF rel] by simp
  have fv: "fat_vol V d" using ok d by (simp add: fat_ok_def)
  have sec: "unat (dpb_secsize d) = 512" and n32: "\<not> ISFAT32 d" using fv by (simp_all add: fat_vol_def)
  have fd: "f_dpb f = dp" using of by (simp add: on_file_def)
  define block where "block = clus2phys (f_cluster f) d + of_nat (rw_sector f d)"
  define n0 where "n0 = min (unat (dpb_clsmask d) + 1 - rw_sector f d) wanted"
  obtain n f' s1 os1 where r: "contiguous E XFR_WRITE wanted (f_offset f) block n0
        (f\<lparr>f_offset := f_offset f + of_nat (n0 * 512)\<rparr>) s = Some (Inr (n, f', s1))" "0 < n" "n \<le> wanted"
      "quiet rd V dp s os s1 os1" "on_file dp d cs f'" "moved_only f f'" "unat (f_offset f') = (q0 + n) * 512"
      "\<forall>q<n. file_block d cs (q0 + q) = (vol_unit d, block + of_nat q) \<and> (vol_unit d, block + of_nat q) \<in> V - fat_blocks d
             \<and> unat (block + of_nat q) = unat block + q"
    using direct_run[OF rel1 ok d vol cs ch of p w cl block_def n0_def] by blast
  have co1: "cache_ok 512 rd V s1 os1" and d1: "dpbs s1 dp = d" "dpbs s1 = dpbs s" and len1: "2 \<le> length os1"
    using r(4) d by (simp_all add: quiet_def fat_ok_def)
  have fd1: "f_dpb f' = dp" using r(5) by (simp add: on_file_def)
  define hi where "hi = block + of_nat n - 1"
  have rg: "block \<le> v \<and> v \<le> hi \<longleftrightarrow> unat (v - block) < n" for v
    by (rule block_range[OF _ r(2) hi_def]) (use r(8) in blast)
  obtain s2 where s2: "DeleteBlockInBufferCache E block hi (vol_unit d) XFR_WRITE s1 = Some s2" "cache_ok 512 rd V s2 os1"
      "dpbs s2 = dpbs s1" "kern s2 = kern s1"
      "\<forall>v. \<not> (fst v = vol_unit d \<and> block \<le> snd v \<and> snd v \<le> hi) \<longrightarrow> view 512 rd s2 os1 v = view 512 rd s1 os1 v"
      "\<forall>y \<in> set os1. b_valid (bufs s2 y) \<longrightarrow> \<not> (fst (buf_id (bufs s2 y)) = vol_unit d \<and> block \<le> snd (buf_id (bufs s2 y)) \<and> snd (buf_id (bufs s2 y)) \<le> hi)"
    using delete_write_ok[OF co1] by blast
  have b0: "(vol_unit d, block) \<in> V" using r(8)[rule_format, of 0] r(2) by simp
  obtain dq where dq: "get_dpb (vol_unit d) s2 = Some dq" "unat (dpb_secsize (dpbs s2 dq)) = 512"
      "dkey s2 (vol_unit d) = drive_key s2 dq" using unit_get_dpb[OF s2(2) b0] by blast
  have nw: "unat (of_nat n :: 16 word) = n" "(of_nat n :: 16 word) \<noteq> 0"
  proof -
    show u: "unat (of_nat n :: 16 word) = n" using r(3) w(3) by (simp add: unsigned_of_nat take_bit_eq_mod)
    show "(of_nat n :: 16 word) \<noteq> 0" using u r(2) by (metis unat_0 less_irrefl)
  qed
  obtain s3 where s3: "dskxfer E (vol_unit d) block seg m (of_nat n) DSKWRITE s2 = Some (0, m, s3)" "io_only s2 s3"
     "rd (world (kern s3)) = (rd (world (kern s2)))(dkey s2 (vol_unit d) :=
        store_sectors 512 n block m (rd (world (kern s2)) (dkey s2 (vol_unit d))))"
    using dskxfer_all(2)[OF rel dq(1,2) _ nw(2), of block seg m] unfolding nw(1) dq(3) by auto
  have free: "\<forall>y \<in> set os1. b_valid (bufs s2 y) \<longrightarrow> \<not> (fst (buf_id (bufs s2 y)) = vol_unit d \<and> unat (snd (buf_id (bufs s2 y)) - block) < n)"
    using s2(6) rg by blast
  note W = write_sectors_ok[OF s2(2) s3(2) b0 s3(3) free]
  have d3: "dpbs s3 = dpbs s" using s3(2) s2(3) d1 by (simp add: io_only_def)
  have k3: "kcore s3 = kcore s" using kcore_dskxfer[OF s3(1)] kcore_delete[OF s2(1)] r(4) by (simp add: quiet_def)
  have v3: "view 512 rd s3 os1 v = (if fst v = vol_unit d \<and> unat (snd v - block) < n
      then sector 512 (from_byte (512 * unat (snd v - block)) m) else view 512 rd s1 os1 v)" if "v \<in> V" for v
  proof (cases "fst v = vol_unit d \<and> unat (snd v - block) < n")
    case False
    then have "view 512 rd s2 os1 v = view 512 rd s1 os1 v" using s2(5) rg by blast
    then show ?thesis using W(2)[OF that] False by auto
  qed (use W(2)[OF that] in simp)
  have pt: "patched rd V dp cs (q0 * 512) (n * 512) m s1 os1 s3 os1"
  proof (rule patched_sectors[OF _ _ _ d1(1)[symmetric] vol n32 ch cs])
    show "fat_ok rd V dp s3 os1" using W(1) len1 fv d3 d by (simp add: fat_ok_def)
    show "fat_vol V (dpbs s1 dp)" using fv d1 by simp
    show "dpbs s3 = dpbs s1" using d3 d1 by simp
    show "q0 + n \<le> length cs * spc d" using r(3) w(2) by simp
    show "q0 * 512 \<le> q0 * 512" "q0 * 512 + n * 512 \<le> (q0 + n) * 512" by simp_all
    show "view 512 rd s3 os1 v = view 512 rd s1 os1 v" if v: "v \<in> V" "v \<notin> file_block d cs ` {q0..<q0 + n}" for v
    proof -
      have "\<not> (fst v = vol_unit d \<and> unat (snd v - block) < n)"
      proof
        assume a: "fst v = vol_unit d \<and> unat (snd v - block) < n"
        define q where "q = unat (snd v - block)"
        have "v = (vol_unit d, block + of_nat q)" using a by (simp add: q_def prod_eq_iff)
        then have "v = file_block d cs (q0 + q)" using r(8) a q_def by simp
        moreover have "q0 + q \<in> {q0..<q0 + n}" using a q_def by simp
        ultimately show False using v(2) by blast
      qed
      then show ?thesis using v3[OF v(1)] by auto
    qed
    fix q i :: nat
    assume q: "q < n" and i: "i < 512"
    have fb: "file_block d cs (q0 + q) = (vol_unit d, block + of_nat q)" "(vol_unit d, block + of_nat q) \<in> V"
      using r(8) q by blast+
    have u: "unat (block + of_nat q - block) = q"
    proof -
      have "q < 4294967296" using q r(3) w(3) by linarith
      then show ?thesis by (simp add: unat_small)
    qed
    have "view 512 rd s3 os1 (file_block d cs (q0 + q)) i = m (q * 512 + i)"
      unfolding fb(1) v3[OF fb(2)] using u q i by (simp add: sector_nth from_byte_def mult.commute)
    moreover have "q0 * 512 \<le> (q0 + q) * 512 + i \<and> (q0 + q) * 512 + i < q0 * 512 + n * 512" using q i by simp
    moreover have "(q0 + q) * 512 + i - q0 * 512 = q * 512 + i" by simp
    ultimately show "view 512 rd s3 os1 (file_block d cs (q0 + q)) i =
        (if q0 * 512 \<le> (q0 + q) * 512 + i \<and> (q0 + q) * 512 + i < q0 * 512 + n * 512 then m ((q0 + q) * 512 + i - q0 * 512)
         else view 512 rd s1 os1 (file_block d cs (q0 + q)) i)" by simp
  qed
  have inv: "\<forall>c \<in> set cs. in_vol (dpbs s dp) c" using ch d unfolding cs file_chain_def by blast
  have pt0: "patched rd V dp cs (q0 * 512) 0 m s os s1 os1" by (rule quiet_patched[OF r(4) _ inv]) (use vol d in simp)
  have "rw_direct E XFR_WRITE wanted seg m f s = Some (Inr (Xfer_bytes (n * 512), m, f', s3))"
    unfolding rw_direct_def Let_def fd d[symmetric] sec block_def[symmetric] n0_def[symmetric] r(1) Option.bind.simps sum.case
      prod.case fd1 d1(1) hi_def[symmetric] s2(1) xfr_modes simp_thms if_False s3(1) by simp
  then show ?thesis using r patched_0[OF pt0 pt] k3
    by (intro exI[of _ n] exI[of _ f'] exI[of _ s3] exI[of _ os1]) simp
qed

lemma rw_step_write:
  assumes rel: "reliable_all E 512 rd" and ok: "fat_ok rd V dp s os" and d: "d = dpbs s dp" and vol: "data_vol V d"
    and cs: "cs = c # ds" and ch: "file_chain d (fat_bytes rd s os dp) c ds" and of: "on_file dp d cs f"
    and p: "p = unat (f_offset f)" "p + k \<le> capacity d cs"
    and k: "0 < k" "k < 65536" and cl: "f_cluster f = of_nat (cs ! (p div 512 div spc d))"
  shows "\<exists>n f' s' os'. rw_step E XFR_WRITE k seg m f s = Some (Inr (Xfer_bytes n, m, f', s')) \<and> 0 < n \<and> n \<le> k
      \<and> patched rd V dp cs p n m s os s' os' \<and> kcore s' = kcore s \<and> on_file dp d cs f' \<and> moved_only f f'
      \<and> unat (f_offset f') = p + n"
proof -
  have sec: "unat (dpb_secsize d) = 512" using ok d by (simp add: fat_ok_def fat_vol_def)
  have fd: "f_dpb f = dp" using of by (simp add: on_file_def)
  define w where "w = rw_wanted XFR_WRITE k f d"
  have we: "w = k div 512" by (simp add: w_def rw_wanted_def sec xfr_modes Let_def)
  show ?thesis
  proof (cases "p mod 512 = 0 \<and> w \<noteq> 0")
    case True
    define q0 where "q0 = p div 512"
    have p0: "p = q0 * 512" using True by (auto simp: q0_def)
    have w1: "w * 512 \<le> k" unfolding we by (rule div_times_less_eq_dividend)
    have "(q0 + w) * 512 \<le> capacity d cs" using w1 p(2) p0 unfolding add_mult_distrib by linarith
    then have "(q0 + w) * 512 \<le> (length cs * spc d) * 512" by (simp add: capacity_def mult.assoc)
    then have w2: "q0 + w \<le> length cs * spc d" by simp
    have w3: "0 < w" "w < 65536" using True w1 k by simp_all
    have pq: "unat (f_offset f) = q0 * 512" using p(1) p0 by simp
    have clq: "f_cluster f = of_nat (cs ! (q0 div spc d))" using cl by (simp only: q0_def)
    obtain n f' s' os' where r: "rw_direct E XFR_WRITE w seg m f s = Some (Inr (Xfer_bytes (n * 512), m, f', s'))"
      "0 < n" "n \<le> w" "patched rd V dp cs (q0 * 512) (n * 512) m s os s' os'" "kcore s' = kcore s" "on_file dp d cs f'"
      "moved_only f f'" "unat (f_offset f') = (q0 + n) * 512"
      using rw_direct_write[OF rel ok d vol cs ch of pq w3(1) w2 w3(2) clq, of seg m] by blast
    have "n * 512 \<le> w * 512" using r(3) by simp
    then have n: "n * 512 \<le> k" using w1 by linarith
    have "rw_step E XFR_WRITE k seg m f s = rw_direct E XFR_WRITE w seg m f s"
      unfolding rw_step_def Let_def fd d[symmetric] sec p(1)[symmetric] w_def[symmetric] using True by simp
    then show ?thesis using r n unfolding p0 by (intro exI[of _ "n * 512"] exI[of _ f'] exI[of _ s'] exI[of _ os']) simp
  next
    case False
    define n where "n = min k (512 - p mod 512)"
    have n: "0 < n" "n \<le> k" using k by (simp_all add: n_def)
    have ok': "data_vol V (dpbs s dp)" "file_chain (dpbs s dp) (fat_bytes rd s os dp) c ds"
       "p < capacity (dpbs s dp) (c # ds)" "f_cluster f = of_nat ((c # ds) ! (p div 512 div spc (dpbs s dp)))"
      using vol ch p(2) k(1) cl d cs by simp_all
    obtain s' os' where r: "rw_block E XFR_WRITE k m f s =
        Some (Inr (Xfer_bytes n, m, f\<lparr>f_offset := f_offset f + of_nat n\<rparr>, s'))"
      "patched rd V dp (c # ds) p n m s os s' os'" "kcore s' = kcore s"
      using rw_block_write[OF reliable_all_one[OF rel] ok ok'(1,2) fd p(1) ok'(3,4) n_def, of m] by auto
    have "length cs * spc d * 512 < 4294967296" by (rule capacity_small[OF vol ch]) (simp add: cs)
    then have "capacity d cs < 4294967296" by (simp only: capacity_def mult.assoc)
    then have "p + n < 4294967296" using p(2) n(2) by linarith
    then have off: "unat (f_offset f + of_nat n) = p + n"
      using p(1) unat_small[of n] by (simp add: unat_add_lem[THEN iffD1])
    have "rw_step E XFR_WRITE k seg m f s = rw_block E XFR_WRITE k m f s"
      unfolding rw_step_def Let_def fd d[symmetric] sec p(1)[symmetric] w_def[symmetric] using False by auto
    then show ?thesis using r n off of cs
      by (intro exI[of _ n] exI[of _ "f\<lparr>f_offset := f_offset f + of_nat n\<rparr>"] exI[of _ s'] exI[of _ os']) simp
  qed
qed

section \<open>What the other entries of the file see\<close>

definition same_key :: "f_node \<Rightarrow> f_node \<Rightarrow> bool" where
  "same_key f f' \<longleftrightarrow> f_sft_idx f' = f_sft_idx f \<and> f_dpb f' = f_dpb f \<and> f_diridx f' = f_diridx f
     \<and> f_dirsector f' = f_dirsector f \<and> dir_attrib (f_dir f') = dir_attrib (f_dir f)"

lemma same_key_file: "same_key f f' \<Longrightarrow> same_file f' i e = same_file f i e"
  by (simp add: same_key_def same_file_def)

lemma same_file_spread [simp]: "same_file f i (spread_to d g e) = same_file f i e"
  by (simp add: same_file_def spread_to_def)

lemma spread_twice [simp]: "spread_to d f' (spread_to d f e) = spread_to d f' e"
  by (simp add: spread_to_def)

lemma spread_block_again: "same_key f f' \<Longrightarrow> spread_block d f' i (spread_block d f i es) = spread_block d f' i es"
  by (induction es arbitrary: i) (simp_all add: same_key_file)

lemma length_spread_block [simp]: "length (spread_block d f i es) = length es"
  by (induction es arbitrary: i) simp_all

lemma spread_again: "same_key f f' \<Longrightarrow> spread_table d f' i (spread_table d f i t) = spread_table d f' i t"
  by (induction t arbitrary: i) (simp_all add: spread_block_again)

lemma spread_block_append: "spread_block d f i (es @ es') = spread_block d f i es @ spread_block d f (i + length es) es'"
  by (induction es arbitrary: i) simp_all

lemma concat_spread: "concat (spread_table d f i t) = spread_block d f i (concat t)"
  by (induction t arbitrary: i) (simp_all add: spread_block_append)

lemma spread_block_nth: "j < length es \<Longrightarrow>
    spread_block d f i es ! j = (if same_file f (i + j) (es ! j) then spread_to d f (es ! j) else es ! j)"
proof (induction es arbitrary: i j)
  case (Cons e es)
  then show ?case by (cases j) simp_all
qed simp

definition spread_over :: "dpb \<Rightarrow> f_node \<Rightarrow> 'w diskio \<Rightarrow> 'w diskio \<Rightarrow> bool" where
  "spread_over d f s s' \<longleftrightarrow> kcore s' = (kcore s)\<lparr>sft_tbl := spread_table d f 0 (sft_tbl (kern s))\<rparr>"

lemma sft_tbl_kcore [simp]: "sft_tbl (kcore s) = sft_tbl (kern s)"
  by (simp add: kcore_def with_world_def)

lemma spread_over_tbl: "spread_over d f s s' \<Longrightarrow> sft_tbl (kern s') = spread_table d f 0 (sft_tbl (kern s))"
  unfolding spread_over_def by (drule arg_cong[where f = sft_tbl]) simp

lemma merge_spread: "spread_over (dpbs s (f_dpb f)) f s (merge_file_changes f s)"
  by (simp add: spread_over_def merge_file_changes_def on_kernel_def kcore_def with_world_def)

lemma merge_table_only: "table_only s (merge_file_changes f s)"
proof -
  have "merge_file_changes f s = s\<lparr>kern := with_table (spread_table (dpbs s (f_dpb f)) f 0 (sft_tbl (kern s))) (lpCurSft (kern s)) (kern s)\<rparr>"
    by (simp add: merge_file_changes_def on_kernel_def with_table_def)
  then show ?thesis unfolding table_only_def by blast
qed

lemma spread_over_trans:
  assumes "spread_over d f s s1" "same_key f f'" "spread_over d f' s1 s2"
  shows "spread_over d f' s s2"
  using assms(1,3) spread_over_tbl[OF assms(1)] unfolding spread_over_def by (simp add: spread_again[OF assms(2)])

lemma spread_over_left: "kcore s1 = kcore s \<Longrightarrow> spread_over d f s1 s2 \<Longrightarrow> spread_over d f s s2"
  using kcore_fields(1)[of s1 s] by (simp add: spread_over_def)

lemma spread_over_right: "spread_over d f s s1 \<Longrightarrow> kcore s2 = kcore s1 \<Longrightarrow> spread_over d f s s2"
  by (simp add: spread_over_def)

section \<open>The loop\<close>

definition grown :: "f_node \<Rightarrow> f_node \<Rightarrow> bool" where
  "grown f f' \<longleftrightarrow> f' = f\<lparr>f_offset := f_offset f', f_cluster := f_cluster f', f_cluster_offset := f_cluster_offset f',
     f_dir := (f_dir f)\<lparr>dir_size := dir_size (f_dir f')\<rparr>\<rparr>"

lemma grown_same:
  assumes "grown f f'"
  shows "f_dpb f' = f_dpb f" "f_sft_idx f' = f_sft_idx f" "f_flags f' = f_flags f" "f_diridx f' = f_diridx f"
    "f_dirsector f' = f_dirsector f" "f_dir f' = (f_dir f)\<lparr>dir_size := dir_size (f_dir f')\<rparr>"
  using assms by (cases f; cases f'; simp add: grown_def)+

lemma grown_trans: "grown f g \<Longrightarrow> grown g h \<Longrightarrow> grown f h"
proof -
  have e: "(x\<lparr>dir_size := a\<rparr>)\<lparr>dir_size := b\<rparr> = x\<lparr>dir_size := b\<rparr>" for x :: dirent and a b by simp
  show "grown f g \<Longrightarrow> grown g h \<Longrightarrow> grown f h" by (cases f; cases g; cases h; simp add: grown_def; metis e)
qed

lemma grown_intros [simp]: "grown f f" "moved_only f f' \<Longrightarrow> grown f f'" "grown f (rw_grow f)"
proof -
  show "grown f f" by (cases f; simp add: grown_def)
  show "moved_only f f' \<Longrightarrow> grown f f'" by (cases f; cases f'; simp add: grown_def moved_only_def)
  show "grown f (rw_grow f)" by (cases f; simp add: grown_def rw_grow_def)
qed

lemma grown_key: "grown f f' \<Longrightarrow> same_key f f'"
  unfolding same_key_def using grown_same(1,2,4,5,6)[of f f'] by (metis dirent.select_convs(2) dirent.surjective dirent.update_convs(12))

lemma on_file_grow [simp]: "on_file dp d cs (rw_grow f) = on_file dp d cs f"
  by (simp add: on_file_def rw_grow_def getdstart_def at_chain_def)

lemma rw_grow_simps [simp]:
  "f_offset (rw_grow f) = f_offset f" "f_dpb (rw_grow f) = f_dpb f"
  "unat (dir_size (f_dir (rw_grow f))) = max (unat (dir_size (f_dir f))) (unat (f_offset f))"
  by (auto simp: rw_grow_def max_def not_less word_le_nat_alt word_less_nat_alt)

lemma put_back [simp]: "put_from n (from_byte n m) m = m"
  by (simp add: put_from_def from_byte_def fun_eq_iff)

lemma rw_loop_write:
  assumes rel: "reliable_all E 512 rd" and vol: "data_vol V d" and cs: "cs = c # ds" and cnt: "count < 65536"
  shows "fat_ok rd V dp s os \<Longrightarrow> d = dpbs s dp \<Longrightarrow> file_chain d (fat_bytes rd s os dp) c ds \<Longrightarrow> on_file dp d cs f \<Longrightarrow>
    p = unat (f_offset f) \<Longrightarrow> ret < count \<Longrightarrow> p + (count - ret) \<le> capacity d cs \<Longrightarrow>
    \<exists>f' s' os'. rw_loop E XFR_WRITE count ret buf m f s = rw_end (int count) m f' s'
      \<and> patched rd V dp cs p (count - ret) (from_byte ret m) s os s' os' \<and> on_file dp d cs f' \<and> grown f f'
      \<and> unat (f_offset f') = p + (count - ret) \<and> spread_over d f' s s'
      \<and> unat (dir_size (f_dir f')) = max (unat (dir_size (f_dir f))) (p + (count - ret))"
proof (induction "count - ret" arbitrary: ret buf f s os p rule: less_induct)
  case less
  note ok = less.prems(1) and d = less.prems(2) and ch = less.prems(3) and of = less.prems(4)
    and p = less.prems(5) and lt = less.prems(6) and cap = less.prems(7)
  have pl: "p < capacity d cs" using lt cap by linarith
  have "p div 512 < length cs * spc d"
    by (rule less_mult_imp_div_less) (use pl in \<open>simp add: capacity_def mult.assoc\<close>)
  then have kl: "p div 512 div spc d < length cs" by (rule less_mult_imp_div_less)
  define f1 where "f1 = at_cluster cs (p div 512 div spc d) f"
  obtain s1 os1 where m1: "map_cluster E XFR_WRITE f s = Some (Inr (SUCCESS, f1, s1))" "quiet rd V dp s os s1 os1"
  proof -
    have "f_dpb f = dp" "f_sft_idx f \<noteq> 0xff" "getdstart (dpbs s dp) (f_dir f) = of_nat c" "at_chain (c # ds) f"
      using of d cs by (simp_all add: on_file_def)
    from map_cluster_ok[OF reliable_all_one[OF rel] ok _ this, of "p div 512 div spc d" XFR_WRITE]
    show ?thesis using that ch kl d cs vol p unfolding f1_def by auto
  qed
  define t where "t = merge_file_changes f1 s1"
  have inv: "\<forall>c \<in> set cs. in_vol (dpbs s dp) c" using ch d unfolding cs file_chain_def by blast
  have fd1: "f_dpb f1 = dp" using of by (simp add: f1_def on_file_def)
  have s1: "fat_ok rd V dp s1 os1" "dpbs s1 = dpbs s" "kcore s1 = kcore s" using m1(2) by (simp_all add: quiet_def)
  have tt: "table_only s1 t" unfolding t_def by (rule merge_table_only)
  have p1: "patched rd V dp cs p 0 (from_byte ret m) s os t os1"
    by (rule patched_0[OF quiet_patched[OF m1(2) _ inv] table_patched[OF tt s1(1)]]) (use vol d in simp)
  have sp1: "spread_over d f1 s t" unfolding t_def
    by (rule spread_over_left[OF s1(3)]) (use merge_spread[of s1 f1] s1(2) d fd1 in simp)
  have t: "fat_ok rd V dp t os1" "d = dpbs t dp" "file_chain d (fat_bytes rd t os1 dp) c ds"
    using p1 d ch by (simp_all add: patched_def)
  have of1: "on_file dp d cs f1" unfolding f1_def using on_file_at[OF of kl] .
  have f1: "p = unat (f_offset f1)" "f_cluster f1 = of_nat (cs ! (p div 512 div spc d))" "f_dir f1 = f_dir f"
    using p by (simp_all add: f1_def)
  have k: "0 < count - ret" "count - ret < 65536" using lt cnt by simp_all
  obtain n f2 s2 os2 where r: "rw_step E XFR_WRITE (count - ret) (fst buf) (from_byte ret m) f1 t =
        Some (Inr (Xfer_bytes n, from_byte ret m, f2, s2))" "0 < n" "n \<le> count - ret"
      "patched rd V dp cs p n (from_byte ret m) t os1 s2 os2" "kcore s2 = kcore t" "on_file dp d cs f2"
      "moved_only f1 f2" "unat (f_offset f2) = p + n"
    using rw_step_write[OF rel t(1,2) vol cs t(3) of1 f1(1) cap k f1(2), of "fst buf" "from_byte ret m"] by blast
  define f3 where "f3 = rw_grow f2"
  define s3 where "s3 = merge_file_changes f3 s2"
  have g3: "grown f1 f3" unfolding f3_def by (rule grown_trans[OF grown_intros(2)[OF r(7)] grown_intros(3)])
  have g0: "grown f f3" by (rule grown_trans[OF _ g3]) (simp add: f1_def)
  have p2: "patched rd V dp cs p n (from_byte ret m) s os s3 os2"
  proof -
    have "fat_ok rd V dp s2 os2" using r(4) by (simp add: patched_def)
    then show ?thesis unfolding s3_def
      using patched_0_right[OF patched_0[OF p1 r(4)] table_patched[OF merge_table_only]] by blast
  qed
  have d2: "dpbs s2 = dpbs s" "dpbs s3 = dpbs s" using patched_0[OF p1 r(4)] p2 by (simp_all add: patched_def)
  have sp3: "spread_over d f3 s s3"
  proof -
    have fd3: "f_dpb f3 = dp" using r(6) by (simp add: f3_def on_file_def)
    have "spread_over d f3 t s3" unfolding s3_def
      by (rule spread_over_left[OF r(5)]) (use merge_spread[of s2 f3] d2 d fd3 in simp)
    then show ?thesis using spread_over_trans[OF sp1 grown_key[OF g3]] by blast
  qed
  have of3: "on_file dp d cs f3" "unat (f_offset f3) = p + n" using r(6,8) by (simp_all add: f3_def)
  have sz3: "unat (dir_size (f_dir f3)) = max (unat (dir_size (f_dir f))) (p + n)"
    using moved_only_same(2)[OF r(7)] r(8) f1(3) by (simp add: f3_def)
  have step: "rw_loop E XFR_WRITE count ret buf m f s = rw_loop E XFR_WRITE count (ret + n) (adjust_far (far_add buf n)) m f3 s3"
    using lt m1(1) r(1) by (subst rw_loop.simps) (simp add: xfr_modes Let_def t_def[symmetric] f3_def s3_def)
  show ?case
  proof (cases "ret + n < count")
    case False
    then have "n = count - ret" using r(3) by simp
    moreover have "rw_loop E XFR_WRITE count (ret + n) (adjust_far (far_add buf n)) m f3 s3 = rw_end (int count) m f3 s3"
    proof -
      have e: "ret + n = count" using False r(3) lt by linarith
      show ?thesis unfolding e by (subst rw_loop.simps) simp
    qed
    ultimately show ?thesis using step p2 of3 g0 sp3 sz3
      by (intro exI[of _ f3] exI[of _ s3] exI[of _ os2]) simp
  next
    case True
    have lt2: "count - (ret + n) < count - ret" using r(2) lt by linarith
    have nn: "count - ret = n + (count - (ret + n))" using True by simp
    have s3: "fat_ok rd V dp s3 os2" "d = dpbs s3 dp" "file_chain d (fat_bytes rd s3 os2 dp) c ds"
      using p2 d ch by (simp_all add: patched_def)
    have cap3: "p + n + (count - (ret + n)) \<le> capacity d cs" using cap nn by linarith
    obtain f' s' os' where IH: "rw_loop E XFR_WRITE count (ret + n) (adjust_far (far_add buf n)) m f3 s3 = rw_end (int count) m f' s'"
        "patched rd V dp cs (p + n) (count - (ret + n)) (from_byte (ret + n) m) s3 os2 s' os'" "on_file dp d cs f'" "grown f3 f'"
        "unat (f_offset f') = p + n + (count - (ret + n))" "spread_over d f' s3 s'"
        "unat (dir_size (f_dir f')) = max (unat (dir_size (f_dir f3))) (p + n + (count - (ret + n)))"
      using less.hyps[OF lt2 s3 of3(1) of3(2)[symmetric] True cap3, of "adjust_far (far_add buf n)"] by blast
    have "from_byte (ret + n) m = from_byte n (from_byte ret m)" by (simp add: from_byte_def fun_eq_iff add.assoc)
    then have "patched rd V dp cs p (count - ret) (from_byte ret m) s os s' os'"
      using patched_trans[OF p2] IH(2) nn by metis
    moreover have "spread_over d f' s s'" by (rule spread_over_trans[OF sp3 grown_key[OF IH(4)] IH(6)])
    moreover have "max (max a (p + n)) (p + n + x) = max a (p + (n + x))" for a x :: nat by linarith
    ultimately show ?thesis using step IH(1,3,5,7) grown_trans[OF g0 IH(4)] sz3 nn
      by (intro exI[of _ f'] exI[of _ s'] exI[of _ os']) simp
  qed
qed

end
