(* ===== verification/Fileio_Props.thy ===== *)
theory Fileio_Props
  imports Fileio_Write Fat_Props
begin

text \<open>The properties of the transfer of file data, with their witnesses on the volume of \<open>Fat_Props\<close>.\<close>

section \<open>Reading\<close>

text \<open>The system file table as one list, and the volume with a file on it. \<open>fd\<close> is below 255.\<close>

definition file_open :: "'w disk_reader \<Rightarrow> block_id set \<Rightarrow> 32 word \<Rightarrow> nat list \<Rightarrow> nat \<Rightarrow> 'w diskio \<Rightarrow> 16 word list \<Rightarrow> bool" where
  "file_open rd V dp cs fd s os \<longleftrightarrow> fat_ok rd V dp s os \<and> data_vol V (dpbs s dp) \<and> cs \<noteq> []
     \<and> file_chain (dpbs s dp) (fat_bytes rd s os dp) (hd cs) (tl cs)
     \<and> fd < 255 \<and> fd < nsft (kern s) \<and> open_entry dp (dpbs s dp) cs (sft_at (kern s) fd)"

lemma nsft_kcore: "kcore s' = kcore s \<Longrightarrow> nsft (kern s') = nsft (kern s) \<and> sft_at (kern s') = sft_at (kern s)"
  using kcore_fields(1)[of s' s] by (simp add: nsft_def sft_at_def fun_eq_iff)

lemma quiet_table:
  assumes t: "table_only s s1" and q: "quiet rd V dp s1 os s2 os2" and t2: "table_only s2 s3"
  shows "fat_ok rd V dp s3 os2 \<and> fat_bytes rd s3 os2 dp = fat_bytes rd s os dp
     \<and> data_kept rd V (dpbs s dp) s os s3 os2 \<and> dpbs s3 = dpbs s"
  using q unfolding quiet_def data_kept_def table_only_fat(1,2)[OF t2] table_only_disk[OF t2] table_only_fat(1,2)[OF t] table_only_disk[OF t]
  by simp

lemma rwblock_read:
  assumes rel: "reliable_all E 512 rd" and fo: "file_open rd V dp cs fd s os" and cnt: "count < 65536"
    and n: "n = min count (unat (sft_size (sft_at (kern s) fd)) - unat (sft_posit (sft_at (kern s) fd)))"
  shows "\<exists>f' s' os'. rwblock E f0 fd buf m count XFR_READ s = Some (Inr (int n,
        (\<lambda>j. if j < n then file_byte rd s os dp cs (unat (sft_posit (sft_at (kern s) fd)) + j) else m j), f', s'))
     \<and> file_open rd V dp cs fd s' os' \<and> data_kept rd V (dpbs s dp) s os s' os'
     \<and> fat_bytes rd s' os' dp = fat_bytes rd s os dp
     \<and> unat (sft_posit (sft_at (kern s') fd)) = unat (sft_posit (sft_at (kern s) fd)) + n
     \<and> sft_size (sft_at (kern s') fd) = sft_size (sft_at (kern s) fd)
     \<and> (\<forall>i. i \<noteq> fd \<longrightarrow> sft_at (kern s') i = sft_at (kern s) i)"
proof -
  let ?e = "sft_at (kern s) fd" and ?d = "dpbs s dp"
  obtain c ds where cs: "cs = c # ds" using fo by (cases cs) (auto simp: file_open_def)
  have F: "fat_ok rd V dp s os" "data_vol V ?d" "file_chain ?d (fat_bytes rd s os dp) c ds" "fd < 255" "fd < nsft (kern s)"
    "open_entry dp ?d cs ?e" using fo cs by (simp_all add: file_open_def)
  have n32: "\<not> ISFAT32 ?d" and sec: "dpb_secsize ?d = 512" using F(1) by (simp_all add: fat_ok_def fat_vol_def)
  have cl: "c < 65536" using F(3) unat16[of "dpb_size ?d"] by (auto simp: file_chain_def)
  have hd: "hd cs < 65536" using cl cs by simp
  have cnz: "sft_count ?e \<noteq> 0" using F(6) by (simp add: open_entry_def)
  define s1 where "s1 = s\<lparr>kern := with_table (sft_tbl (kern s)) (Some fd) (kern s)\<rparr>"
  have t1: "table_only s s1" unfolding table_only_def s1_def by blast
  define f where "f = load_fnode fd ?e f0"
  have L: "on_file dp ?d cs f" "dir_size (f_dir f) = sft_size ?e" "f_offset f = sft_posit ?e" "uint (f_sft_idx f) = int fd"
    using load_on_file[OF F(6) n32 F(4) hd, of f0] unfolding f_def by blast+
  have d1: "?d = dpbs s1 dp" using table_only_disk(1)[OF t1] by simp
  have ok1: "fat_ok rd V dp s1 os" "fat_bytes rd s1 os dp = fat_bytes rd s os dp" using table_only_fat[OF t1] F(1) by simp_all
  have sz: "unat (sft_size ?e) \<le> capacity ?d cs" using F(6) by (simp add: open_entry_def)
  let ?m = "\<lambda>j. if j < n then file_byte rd s os dp cs (unat (sft_posit ?e) + j) else m j"
  obtain f' s2 os2 where R: "rw_loop E XFR_READ count 0 (adjust_far buf) m f s1 = rw_end (int n) ?m f' s2"
      "quiet rd V dp s1 os s2 os2" "on_file dp ?d cs f'" "moved_only f f'" "unat (f_offset f') = unat (sft_posit ?e) + n"
  proof -
    have n1: "n = min (count - 0) (unat (sft_size ?e) - unat (f_offset f))" using n L(3) by simp
    have ch1: "file_chain ?d (fat_bytes rd s1 os dp) c ds" unfolding ok1(2) by (rule F(3))
    have sz1: "unat (sft_size ?e) = unat (dir_size (f_dir f))" using L(2) by simp
    have mm: "(\<lambda>j. if 0 \<le> j \<and> j < 0 + n then file_byte rd s1 os dp cs (unat (f_offset f) + (j - 0)) else m j) = ?m"
      by (simp add: fun_eq_iff table_only_fat(3)[OF t1] L(3))
    note R = rw_loop_read[OF rel F(2) cs cnt sz ok1(1) d1 ch1 L(1) sz1 refl n1, of "adjust_far buf" m, unfolded mm]
    show ?thesis using that R unfolding L(3) add_0 by blast
  qed
  have k2: "nsft (kern s2) = nsft (kern s)" "sft_at (kern s2) = sft_at (kern s)"
    using nsft_kcore[of s2 s1] R(2) by (simp_all add: quiet_def s1_def nsft_def sft_at_def fun_eq_iff)
  have d2: "dpbs s2 = dpbs s" using R(2) table_only_disk(1)[OF t1] by (simp add: quiet_def)
  have f': "f_dir f' = f_dir f" "f_sft_idx f' = f_sft_idx f" "f_dpb f' = dp"
    using moved_only_same[OF R(4)] R(3) by (simp_all add: on_file_def)
  define e' where "e' = store_fnode ?d f' ?e"
  define s3 where "s3 = s2\<lparr>kern := with_table (sft_upd fd (store_fnode (dpbs s2 (f_dpb f')) f') (sft_tbl (kern s2))) (Some fd) (kern s2)\<rparr>"
  have t3: "table_only s2 s3" unfolding table_only_def s3_def by blast
  have st: "fnode_to_sft f' s2 = Inr s3"
    unfolding s3_def by (rule fnode_to_sft_eq) (use k2 F(5) cnz f'(2) L(4) in simp_all)
  have S: "nsft (kern s3) = nsft (kern s)" "sft_at (kern s3) i = (if i = fd then e' else sft_at (kern s) i)" for i
  proof -
    have c: "concat (sft_tbl (kern s3)) = (concat (sft_tbl (kern s2)))[fd := e']"
      unfolding s3_def e'_def using k2 d2 f'(3) by (simp add: concat_sft_upd sft_at_def fun_eq_iff)
    show "nsft (kern s3) = nsft (kern s)" unfolding nsft_def c using k2(1) by (simp add: nsft_def)
    show "sft_at (kern s3) i = (if i = fd then e' else sft_at (kern s) i)"
      unfolding sft_at_def c using k2 F(5) by (simp add: nth_list_update nsft_def sft_at_def fun_eq_iff)
  qed
  have Q: "fat_ok rd V dp s3 os2" "fat_bytes rd s3 os2 dp = fat_bytes rd s os dp" "data_kept rd V ?d s os s3 os2" "dpbs s3 = dpbs s"
    using quiet_table[OF t1 R(2) t3] by simp_all
  have run: "rwblock E f0 fd buf m count XFR_READ s = Some (Inr (int n, ?m, f', s3))"
  proof (cases "count = 0")
    case True
    have "rw_truncate E XFR_READ m f s1 = rw_loop E XFR_READ count 0 (adjust_far buf) m f s1"
      unfolding True by (subst rw_loop.simps) (simp add: rw_truncate_def xfr_modes)
    then show ?thesis using R(1) st True
      unfolding rwblock_def sft_to_fnode_eq[OF F(5) cnz] s1_def[symmetric] f_def[symmetric]
      by (simp add: xfr_modes rw_end_def)
  next
    case False
    show ?thesis using R(1) st False sec d1 L(1)
      unfolding rwblock_def sft_to_fnode_eq[OF F(5) cnz] s1_def[symmetric] f_def[symmetric]
      by (simp add: xfr_modes on_file_def rw_end_def)
  qed
  have e': "open_entry dp ?d cs e'" "unat (sft_posit e') = unat (sft_posit ?e) + n" "sft_size e' = sft_size ?e"
    using R(3,5) F(6) f'(1) L(2) by (auto simp: e'_def open_entry_def store_fnode_def relclust_def two_halves on_file_def at_chain_def)
  have "file_open rd V dp cs fd s3 os2" using fo Q e'(1) S by (simp add: file_open_def)
  then show ?thesis using run Q e' S by (intro exI[of _ f'] exI[of _ s3] exI[of _ os2]) simp
qed

section \<open>Writing\<close>

text \<open>Another entry in use for the same file.\<close>

definition same_open :: "sft_t \<Rightarrow> sft_t \<Rightarrow> bool" where
  "same_open e x \<longleftrightarrow> sft_count x \<noteq> 0 \<and> sft_dev x = sft_dev e \<and> sft_diridx x = sft_diridx e \<and> sft_dirsector x = sft_dirsector e
     \<and> sft_attrib e AND D_VOLID = 0 \<and> sft_attrib x AND D_VOLID = 0"

lemma same_open_file:
  assumes "f_dpb f = sft_dev e" "f_diridx f = sft_diridx e" "f_dirsector f = sft_dirsector e"
    "dir_attrib (f_dir f) = sft_attrib e OR D_ARCHIVE" "f_sft_idx f = of_nat fd" "fd < 256" "i \<noteq> fd"
  shows "same_file f i x = same_open e x"
proof -
  have "D_ARCHIVE AND D_VOLID = 0" by (simp add: D_ARCHIVE_def D_VOLID_def)
  then have a: "(sft_attrib e OR D_ARCHIVE) AND D_VOLID = sft_attrib e AND D_VOLID" by (simp add: word_ao_dist)
  have u: "unat (f_sft_idx f) = fd" using assms(5,6) by (simp add: unsigned_of_nat take_bit_eq_mod)
  show ?thesis unfolding same_file_def same_open_def u using assms(1-4,7) a by auto
qed

lemma rwblock_write:
  assumes rel: "reliable_all E 512 rd" and fo: "file_open rd V dp cs fd s os" and cnt: "0 < count" "count < 65536"
    and e: "e = sft_at (kern s) fd" and pos: "sft_posit e \<le> sft_size e" and cap: "unat (sft_posit e) + count \<le> capacity (dpbs s dp) cs"
  shows "\<exists>f' s' os' e'. rwblock E f0 fd buf m count XFR_WRITE s = Some (Inr (int count, m, f', s'))
     \<and> file_open rd V dp cs fd s' os' \<and> patched rd V dp cs (unat (sft_posit e)) count m s os s' os'
     \<and> e' = sft_at (kern s') fd \<and> unat (sft_posit e') = unat (sft_posit e) + count
     \<and> unat (sft_size e') = max (unat (sft_size e)) (unat (sft_posit e) + count)
     \<and> sft_attrib e' = sft_attrib e OR D_ARCHIVE \<and> sft_flags e' = sft_flags e AND NOT (SFT_FCLEAN OR SFT_FDATE)
     \<and> nsft (kern s') = nsft (kern s)
     \<and> (\<forall>i < nsft (kern s). i \<noteq> fd \<longrightarrow> sft_at (kern s') i = (let x = sft_at (kern s) i in if same_open e x
          then x\<lparr>sft_stclust := sft_stclust e, sft_size := sft_size e', sft_date := sft_date e, sft_time := sft_time e\<rparr> else x))"
proof -
  let ?d = "dpbs s dp"
  obtain c ds where cs: "cs = c # ds" using fo by (cases cs) (auto simp: file_open_def)
  have F: "fat_ok rd V dp s os" "data_vol V ?d" "file_chain ?d (fat_bytes rd s os dp) c ds" "fd < 255" "fd < nsft (kern s)"
    "open_entry dp ?d cs e" using fo cs e by (simp_all add: file_open_def)
  have n32: "\<not> ISFAT32 ?d" and sec: "dpb_secsize ?d = 512" using F(1) by (simp_all add: fat_ok_def fat_vol_def)
  have cl: "c < 65536" using F(3) unat16[of "dpb_size ?d"] by (auto simp: file_chain_def)
  have hd: "hd cs < 65536" using cl cs by simp
  have cnz: "sft_count (sft_at (kern s) fd) \<noteq> 0" using F(6) e by (simp add: open_entry_def)
  define s1 where "s1 = s\<lparr>kern := with_table (sft_tbl (kern s)) (Some fd) (kern s)\<rparr>"
  have t1: "table_only s s1" unfolding table_only_def s1_def by blast
  define f where "f = mark_written (load_fnode fd e f0)"
  have L: "on_file dp ?d cs f" "dir_size (f_dir f) = sft_size e" "f_offset f = sft_posit e" "uint (f_sft_idx f) = int fd"
    using load_on_file[OF F(6) n32 F(4) hd, of f0] by (simp_all add: f_def mark_written_def on_file_def getdstart_def at_chain_def n32)
  have d1: "?d = dpbs s1 dp" "dpbs s1 = dpbs s" using table_only_disk(1)[OF t1] by simp_all
  have ok1: "fat_ok rd V dp s1 os" "fat_bytes rd s1 os dp = fat_bytes rd s os dp" using table_only_fat[OF t1] F(1) by simp_all
  obtain f' s2 os2 where R: "rw_loop E XFR_WRITE count 0 (adjust_far buf) m f s1 = rw_end (int count) m f' s2"
      "patched rd V dp cs (unat (sft_posit e)) count m s1 os s2 os2" "on_file dp ?d cs f'" "grown f f'"
      "unat (f_offset f') = unat (sft_posit e) + count" "spread_over ?d f' s1 s2"
      "unat (dir_size (f_dir f')) = max (unat (sft_size e)) (unat (sft_posit e) + count)"
  proof -
    have "file_chain ?d (fat_bytes rd s1 os dp) c ds" unfolding ok1(2) by (rule F(3))
    moreover have "unat (sft_posit e) + (count - 0) \<le> capacity ?d cs" using cap by simp
    moreover have "from_byte 0 m = m" by (simp add: from_byte_def)
    ultimately show ?thesis
      using that rw_loop_write[OF rel F(2) cs cnt(2) ok1(1) d1(1) _ L(1) _ cnt(1), of "unat (sft_posit e)" "adjust_far buf" m] L(2,3) by auto
  qed
  have k2: "concat (sft_tbl (kern s2)) = spread_block ?d f' 0 (concat (sft_tbl (kern s)))"
    using spread_over_tbl[OF R(6)] by (simp add: concat_spread s1_def)
  have n2: "nsft (kern s2) = nsft (kern s)" unfolding nsft_def k2 by simp
  have a2: "sft_at (kern s2) i = (if same_file f' i (sft_at (kern s) i) then spread_to ?d f' (sft_at (kern s) i) else sft_at (kern s) i)"
    if "i < nsft (kern s)" for i
    using that spread_block_nth[of i "concat (sft_tbl (kern s))" ?d f' 0] unfolding sft_at_def k2 by (simp add: nsft_def)
  have d2: "dpbs s2 = dpbs s" using R(2) d1(2) by (simp add: patched_def)
  note G = grown_same[OF R(4)]
  have f': "f_dpb f' = dp" "f_sft_idx f' = of_nat fd" "uint (f_sft_idx f') = int fd"
    using R(3) G(2) L(4) by (simp_all add: on_file_def) (simp add: f_def mark_written_def load_fnode_def)
  have dev: "sft_dev e = dp" "sft_stclust e = of_nat (hd cs)" using F(6) by (simp_all add: open_entry_def)
  have sdir: "f_dir (load_fnode fd e f0) = setdstart (sft_stclust e) ((f_dir f0)\<lparr>dir_attrib := sft_attrib e, dir_name := sft_name e,
      dir_time := sft_time e, dir_date := sft_date e, dir_size := sft_size e\<rparr>)" by (simp add: load_fnode_def)
  have "dir_date (f_dir f') = dir_date (f_dir f)" "dir_time (f_dir f') = dir_time (f_dir f)"
    "dir_attrib (f_dir f') = dir_attrib (f_dir f)" by (subst G(6), simp)+
  then have dt: "dir_date (f_dir f') = sft_date e" "dir_time (f_dir f') = sft_time e" "dir_attrib (f_dir f') = sft_attrib e OR D_ARCHIVE"
    "f_flags f' = sft_flags e AND NOT (SFT_FCLEAN OR SFT_FDATE)"
    using G(3) by (simp_all add: f_def mark_written_def load_fnode_def setdstart_def)
  have same: "same_file f' i x = same_open e x" if "i \<noteq> fd" for i x
    by (rule same_open_file[OF _ _ _ dt(3) f'(2) _ that])
      (use G(4,5) F(4) dev f'(1) in \<open>simp_all add: f_def mark_written_def load_fnode_def\<close>)
  have own: "\<not> same_file f' fd x" for x
    using f'(2) F(4) by (simp add: same_file_def unsigned_of_nat take_bit_eq_mod)
  have st': "getdstart ?d (f_dir f') = sft_stclust e" using R(3) dev(2) by (simp add: on_file_def)
  define e' where "e' = store_fnode ?d f' e"
  define s3 where "s3 = s2\<lparr>kern := with_table (sft_upd fd (store_fnode (dpbs s2 (f_dpb f')) f') (sft_tbl (kern s2))) (Some fd) (kern s2)\<rparr>"
  have t3: "table_only s2 s3" unfolding table_only_def s3_def by blast
  have efd: "sft_at (kern s2) fd = e" using a2[OF F(5)] own e by simp
  have st: "fnode_to_sft f' s2 = Inr s3"
    unfolding s3_def by (rule fnode_to_sft_eq) (use n2 F(5) cnz f'(3) efd e in simp_all)
  have S: "nsft (kern s3) = nsft (kern s)" "i < nsft (kern s) \<Longrightarrow> sft_at (kern s3) i = (if i = fd then e' else sft_at (kern s2) i)" for i
  proof -
    have c: "concat (sft_tbl (kern s3)) = (concat (sft_tbl (kern s2)))[fd := e']"
      unfolding s3_def e'_def using n2 d2 f'(1) F(5) efd by (simp add: concat_sft_upd sft_at_def nsft_def)
    show "nsft (kern s3) = nsft (kern s)" unfolding nsft_def c using n2 by (simp add: nsft_def)
    show "i < nsft (kern s) \<Longrightarrow> sft_at (kern s3) i = (if i = fd then e' else sft_at (kern s2) i)"
      unfolding sft_at_def c using n2 by (simp add: nth_list_update nsft_def)
  qed
  have P: "patched rd V dp cs (unat (sft_posit e)) count m s os s3 os2"
  proof -
    have "fat_ok rd V dp s2 os2" using R(2) by (simp add: patched_def)
    then show ?thesis
      using patched_0_right[OF patched_0[OF table_patched[OF t1 F(1)] R(2)] table_patched[OF t3]] by blast
  qed
  have run: "rwblock E f0 fd buf m count XFR_WRITE s = Some (Inr (int count, m, f', s3))"
  proof -
    have x: "dos_extend E f s1 = Some (Inr (SUCCESS, f, s1))" using pos L(2,3) by (simp add: dos_extend_def)
    show ?thesis using R(1) st cnt(1) sec d1(2) L(1)
      unfolding rwblock_def sft_to_fnode_eq[OF F(5) cnz] s1_def[symmetric] e[symmetric]
      by (simp add: f_def[symmetric] x on_file_def rw_end_def)
  qed
  have e': "open_entry dp ?d cs e'" "unat (sft_posit e') = unat (sft_posit e) + count"
      "unat (sft_size e') = max (unat (sft_size e)) (unat (sft_posit e) + count)" "sft_size e' = dir_size (f_dir f')"
      "sft_attrib e' = sft_attrib e OR D_ARCHIVE" "sft_flags e' = sft_flags e AND NOT (SFT_FCLEAN OR SFT_FDATE)"
    using R(3,5,7) F(6) dt(3,4) cap by (auto simp: e'_def open_entry_def store_fnode_def relclust_def two_halves on_file_def at_chain_def)
  have fo': "file_open rd V dp cs fd s3 os2" using fo P e'(1) S F(5) unfolding file_open_def patched_def by simp
  have oth: "\<forall>i < nsft (kern s). i \<noteq> fd \<longrightarrow> sft_at (kern s3) i = (let x = sft_at (kern s) i in if same_open e x
          then x\<lparr>sft_stclust := sft_stclust e, sft_size := sft_size e', sft_date := sft_date e, sft_time := sft_time e\<rparr> else x)"
    using S(2) a2 same e'(4) dt(1,2) st' by (simp add: Let_def spread_to_def)
  show ?thesis using run fo' P e' S oth F(5)
    by (intro exI[of _ f'] exI[of _ s3] exI[of _ os2] exI[of _ e']) simp
qed

section \<open>An example\<close>

definition ram_disk_all :: "platters driver" where
  "ram_disk_all r dev w =
     (let k = (dev, r_unit r); b = request_block r; n = unat (r_count r) in
      if r_command r = CMD_INPUT then (r\<lparr>r_status := S_DONE, r_trans := sectors_of 512 n (w k) b (r_trans r)\<rparr>, w)
      else (r\<lparr>r_status := S_DONE\<rparr>, w(k := store_sectors 512 n b (r_trans r) (w k))))"

lemma ram_disk_all_reliable: "reliable_all ram_disk_all 512 (\<lambda>w. w)"
  by (auto simp: reliable_all_def ram_disk_all_def Let_def req_defs)

text \<open>The file of two clusters, open twice; all other blocks than the second copy of the table.\<close>

definition entry5 :: sft_t where
  "entry5 = sft_zero\<lparr>sft_count := 1, sft_mode := 2, sft_dev := 0x700000, sft_stclust := 2, sft_cuclust := 2, sft_size := 2000,
     sft_posit := 100, sft_dirsector := 13\<rparr>"

definition io5 :: "platters diskio" where
  "io5 = io1\<lparr>kern := kern3\<lparr>sft_tbl := [[entry5], [entry5]],
     world := (\<lambda>_ blk. if blk = 1 then fat_image else if blk < 45 then (\<lambda>_. 0) else of_nat)\<rparr>\<rparr>"

definition vol5 :: "block_id set" where
  "vol5 = {(0, b) | b. b \<notin> {7, 8, 9, 10, 11, 12}}"

lemma io5_simps [simp]:
  "dpbs io5 = (\<lambda>_. dpb1)" "bufs io5 = bufs io1" "firstbuf io5 = firstbuf io1" "nsft (kern io5) = 2"
  "sft_at (kern io5) 0 = entry5" "sft_at (kern io5) (Suc 0) = entry5"
  by (simp_all add: io5_def io1_simps nsft_def sft_at_def)

lemma io5_get_dpb: "get_dpb 0 io5 = Some 0x700000"
  by (simp add: get_dpb_def io5_def kern3_def kern1_def get_cds_def Let_def CDSPHYSDRV_def CDSVALID_def CDSJOINED_def CDSNETWDRV_def)

lemma fat_vol5: "fat_vol vol5 dpb1"
proof -
  have "\<forall>k < 6. (0, fat_sector dpb1 k) \<in> vol5 \<and> (0, fat_sector dpb1 k + 6) \<notin> vol5"
    unfolding less_6 by (auto simp: fat_sector_def dpb1_simps vol5_def)
  then show ?thesis by (auto simp: fat_vol_def dpb1_simps fat_len_def less_2_cases_iff)
qed

lemma fat_ok5: "fat_ok (\<lambda>w. w) vol5 0x700000 io5 bufs3"
proof -
  have "lru io5 bufs3" using lru_same_links[of io1 io5] io1_lru by (simp add: same_links_def)
  moreover have "drives_ok 512 (fst ` vol5) io5"
    by (auto simp: drives_ok_def vol5_def io5_get_dpb dpb1_simps inj_on_def)
  ultimately show ?thesis
    using fat_vol5 by (simp add: fat_ok_def cache_ok_def buffer_ok_def unique_blocks_def io3_unused)
qed

lemma view5: "view 512 (\<lambda>w. w) io5 bufs3 (0, b) = sector 512 (if b = 1 then fat_image else if b < 45 then (\<lambda>_. 0) else of_nat)"
  by (simp add: view_miss io3_unused disk_def io5_def)

lemma fat_bytes5: "fat_bytes (\<lambda>w. w) io5 bufs3 0x700000 = fat_image"
proof
  fix i
  show "fat_bytes (\<lambda>w. w) io5 bufs3 0x700000 i = fat_image i"
  proof (cases "i < 3072")
    case True
    have "i div 512 < 6" using True by simp
    then have "fat_sector dpb1 (i div 512) < 45 \<and> (fat_sector dpb1 (i div 512) = 1 \<longleftrightarrow> i < 512)"
      unfolding less_6 by (auto simp: fat_sector_def dpb1_simps)
    then show ?thesis
      by (auto simp: fat_bytes_def fat_len_def dpb1_simps view5 sector_def fat_image_def)
  qed (simp add: fat_bytes_def fat_len_def dpb1_simps fat_image_def)
qed

lemma data_vol5: "data_vol vol5 dpb1"
proof -
  have sp: "spc dpb1 = 4" by (simp add: spc_def dpb1_def)
  have sh: "unat (dpb_shftcnt dpb1) = 2" "dpb_data dpb1 = 45" by (simp_all add: dpb1_def)
  have "data_block dpb1 c j \<in> vol5 - fat_blocks dpb1" if c: "in_vol dpb1 c" "j < 4" for c j
  proof -
    have dc: "clus2phys (of_nat c) dpb1 + of_nat j = (of_nat ((c - 2) * 4 + 45 + j) :: 32 word)"
      using c by (simp add: clus2phys_def dpb1_simps sh push_bit_eq_mult of_nat_diff)
    have lt: "(c - 2) * 4 + 45 + j < 10000" using c unfolding dpb1_simps by linarith
    have u: "unat (of_nat ((c - 2) * 4 + 45 + j) :: 32 word) = (c - 2) * 4 + 45 + j"
      by (rule unat_small) (use lt in linarith)
    then have ge: "unat (of_nat ((c - 2) * 4 + 45 + j) :: 32 word) \<ge> 45" by simp
    have "(of_nat ((c - 2) * 4 + 45 + j) :: 32 word) \<notin> {7, 8, 9, 10, 11, 12}"
    proof
      assume "(of_nat ((c - 2) * 4 + 45 + j) :: 32 word) \<in> {7, 8, 9, 10, 11, 12}"
      moreover have "unat x \<le> 12" if "x \<in> {7, 8, 9, 10, 11, 12}" for x :: "32 word" using that by auto
      ultimately have "unat (of_nat ((c - 2) * 4 + 45 + j) :: 32 word) \<le> 12" by blast
      then show False using ge by simp
    qed
    moreover have "(of_nat ((c - 2) * 4 + 45 + j) :: 32 word) \<noteq> fat_sector dpb1 k" if "k < 6" for k
    proof
      assume a: "(of_nat ((c - 2) * 4 + 45 + j) :: 32 word) = fat_sector dpb1 k"
      have "unat (fat_sector dpb1 k) \<le> 6" using that unfolding less_6 by (auto simp: fat_sector_def dpb1_simps)
      then show False using ge unfolding a by simp
    qed
    ultimately show ?thesis unfolding data_block_def dc vol5_def fat_blocks_def by (auto simp: dpb1_simps)
  qed
  then show ?thesis by (simp add: data_vol_def sp sh) (simp add: dpb1_def)
qed

lemma file_open5: "fd < 2 \<Longrightarrow> file_open (\<lambda>w. w) vol5 0x700000 [2, 3] fd io5 bufs3"
proof -
  assume fd: "fd < 2"
  have "sft_at (kern io5) fd = entry5" using fd by (auto simp: less_2_cases_iff)
  moreover have "open_entry 0x700000 dpb1 [2, 3] entry5"
    by (auto simp: open_entry_def entry5_def sft_zero_def capacity_def spc_def dpb1_def relclust_def intro: exI[of _ 0])
  ultimately show ?thesis
    using fat_ok5 fat_bytes5 data_vol5 chain3 fd by (simp add: file_open_def)
qed

section \<open>The properties\<close>

text \<open>C23. Reading \<open>count\<close> bytes of a file returns the bytes of the file from its position on, as the
  cache and the disk hold them along the chain of clusters, up to the end of the file: whole
  sectors read straight from the disk included. Nothing the cache shows changes, and of the entry
  only the position and the cluster it belongs to.\<close>

theorem rwblock_reads_file:
  assumes rel: "reliable_all E 512 rd" and fo: "file_open rd V dp cs fd s os" and cnt: "count < 65536"
    and n: "n = min count (unat (sft_size (sft_at (kern s) fd)) - unat (sft_posit (sft_at (kern s) fd)))"
  shows "\<exists>f' s' os'. rwblock E f0 fd buf m count XFR_READ s = Some (Inr (int n,
        (\<lambda>j. if j < n then file_byte rd s os dp cs (unat (sft_posit (sft_at (kern s) fd)) + j) else m j), f', s'))
     \<and> file_open rd V dp cs fd s' os' \<and> data_kept rd V (dpbs s dp) s os s' os'
     \<and> fat_bytes rd s' os' dp = fat_bytes rd s os dp
     \<and> unat (sft_posit (sft_at (kern s') fd)) = unat (sft_posit (sft_at (kern s) fd)) + n
     \<and> sft_size (sft_at (kern s') fd) = sft_size (sft_at (kern s) fd)
     \<and> (\<forall>i. i \<noteq> fd \<longrightarrow> sft_at (kern s') i = sft_at (kern s) i)"
  by (rule rwblock_read[OF assms])

theorem rwblock_reads_file_witness:
  "\<exists>f' s'. rwblock ram_disk_all file3 0 (0, 0) (\<lambda>_. 7) 3 XFR_READ io5 = Some (Inr (3, (\<lambda>j. if j < 3 then of_nat (100 + j) else 7), f', s'))"
proof -
  have "file_byte (\<lambda>w. w) io5 bufs3 0x700000 [2, 3] (100 + j) = of_nat (100 + j)" if "j < 3" for j
    using that by (simp add: file_byte_def file_block_def data_block_def clus2phys_def dpb1_simps view5 sector_nth)
      (simp add: dpb1_def)
  then have "(\<lambda>j. if j < 3 then file_byte (\<lambda>w. w) io5 bufs3 0x700000 [2, 3] (100 + j) else 7) = (\<lambda>j. if j < 3 then of_nat (100 + j) else 7)"
    by (auto simp: fun_eq_iff)
  moreover have p: "unat (sft_posit (sft_at (kern io5) 0)) = 100" "unat (sft_size (sft_at (kern io5) 0)) = 2000"
    by (simp_all add: entry5_def)
  moreover have "(0 :: nat) < 2" "(3 :: nat) < 65536" "(3 :: nat) = min 3 (2000 - 100)" by simp_all
  ultimately show ?thesis
    using rwblock_reads_file[OF ram_disk_all_reliable file_open5, of 0 3 3 file3 "(0, 0)" "\<lambda>_. 7", unfolded p] by auto
qed

text \<open>C24. Writing \<open>count\<close> bytes within the clusters of a file puts them at its position, whether a
  sector goes through a buffer or straight to the disk: every other byte of the file, the table and
  every other block read as before. The size becomes the furthest position, the archive bit is set,
  the marks that the file is clean and its date set are cleared, and all other entries of
  the same file get the size and the start, while the entries of other files stay.\<close>

theorem rwblock_writes_file:
  assumes rel: "reliable_all E 512 rd" and fo: "file_open rd V dp cs fd s os" and cnt: "0 < count" "count < 65536"
    and e: "e = sft_at (kern s) fd" and pos: "sft_posit e \<le> sft_size e" and cap: "unat (sft_posit e) + count \<le> capacity (dpbs s dp) cs"
  shows "\<exists>f' s' os' e'. rwblock E f0 fd buf m count XFR_WRITE s = Some (Inr (int count, m, f', s'))
     \<and> file_open rd V dp cs fd s' os'
     \<and> (\<forall>p < capacity (dpbs s dp) cs. file_byte rd s' os' dp cs p =
          (if unat (sft_posit e) \<le> p \<and> p < unat (sft_posit e) + count then m (p - unat (sft_posit e)) else file_byte rd s os dp cs p))
     \<and> fat_bytes rd s' os' dp = fat_bytes rd s os dp
     \<and> (\<forall>v \<in> V - fat_blocks (dpbs s dp) - file_blocks (dpbs s dp) cs. view 512 rd s' os' v = view 512 rd s os v)
     \<and> e' = sft_at (kern s') fd \<and> unat (sft_posit e') = unat (sft_posit e) + count
     \<and> unat (sft_size e') = max (unat (sft_size e)) (unat (sft_posit e) + count)
     \<and> sft_attrib e' = sft_attrib e OR D_ARCHIVE \<and> sft_flags e' = sft_flags e AND NOT (SFT_FCLEAN OR SFT_FDATE)
     \<and> (\<forall>i < nsft (kern s). i \<noteq> fd \<longrightarrow> sft_at (kern s') i = (let x = sft_at (kern s) i in if same_open e x
          then x\<lparr>sft_stclust := sft_stclust e, sft_size := sft_size e', sft_date := sft_date e, sft_time := sft_time e\<rparr> else x))"
  using rwblock_write[OF assms, of f0 buf m] unfolding patched_def by blast

theorem rwblock_writes_file_witness:
  "\<exists>f' s'. rwblock ram_disk_all file3 0 (0, 0) (\<lambda>_. 7) 3000 XFR_WRITE io5 = Some (Inr (3000, (\<lambda>_. 7), f', s'))
     \<and> unat (sft_size (sft_at (kern s') 0)) = 3100 \<and> unat (sft_size (sft_at (kern s') (Suc 0))) = 3100"
proof -
  have "same_open entry5 entry5" by (simp add: same_open_def entry5_def sft_zero_def)
  then obtain f' s' where "rwblock ram_disk_all file3 0 (0, 0) (\<lambda>_. 7) 3000 XFR_WRITE io5 = Some (Inr (3000, (\<lambda>_. 7), f', s'))"
     "unat (sft_size (sft_at (kern s') 0)) = 3100" "sft_size (sft_at (kern s') (Suc 0)) = sft_size (sft_at (kern s') 0)"
    using rwblock_writes_file[OF ram_disk_all_reliable file_open5, of 0 3000 entry5 file3 "(0, 0)" "\<lambda>_. 7"]
    by (auto simp: entry5_def sft_zero_def capacity_def spc_def dpb1_def less_2_cases_iff)
  then show ?thesis by auto
qed

text \<open>C25. What is written through one entry of a file is read back through any other entry open on
  it at the same position, at once and in full, even where the write made the file longer.\<close>

theorem written_bytes_read_through_other_handle:
  assumes rel: "reliable_all E 512 rd" and fo: "file_open rd V dp cs fd s os" "file_open rd V dp cs fd2 s os"
    and two: "fd2 \<noteq> fd" "same_open (sft_at (kern s) fd) (sft_at (kern s) fd2)"
    and p: "sft_posit (sft_at (kern s) fd2) = sft_posit (sft_at (kern s) fd)"
      "sft_posit (sft_at (kern s) fd) \<le> sft_size (sft_at (kern s) fd)"
      "unat (sft_posit (sft_at (kern s) fd)) + count \<le> capacity (dpbs s dp) cs"
    and cnt: "0 < count" "count < 65536"
  shows "\<exists>f1 s1 f2 s2. rwblock E f0 fd buf m count XFR_WRITE s = Some (Inr (int count, m, f1, s1))
     \<and> rwblock E f1 fd2 buf2 m2 count XFR_READ s1 = Some (Inr (int count, (\<lambda>j. if j < count then m j else m2 j), f2, s2))"
proof -
  let ?e = "sft_at (kern s) fd" and ?d = "dpbs s dp"
  obtain f1 s1 os1 e' where w: "rwblock E f0 fd buf m count XFR_WRITE s = Some (Inr (int count, m, f1, s1))"
     "file_open rd V dp cs fd s1 os1" "patched rd V dp cs (unat (sft_posit ?e)) count m s os s1 os1" "e' = sft_at (kern s1) fd"
     "unat (sft_size e') = max (unat (sft_size ?e)) (unat (sft_posit ?e) + count)" "nsft (kern s1) = nsft (kern s)"
     "\<forall>i < nsft (kern s). i \<noteq> fd \<longrightarrow> sft_at (kern s1) i = (let x = sft_at (kern s) i in if same_open ?e x
          then x\<lparr>sft_stclust := sft_stclust ?e, sft_size := sft_size e', sft_date := sft_date ?e, sft_time := sft_time ?e\<rparr> else x)"
    using rwblock_write[OF rel fo(1) cnt refl p(2,3), of f0 buf m] by blast
  define x where "x = sft_at (kern s1) fd2"
  have d1: "dpbs s1 = dpbs s" using w(3) by (simp add: patched_def)
  have x: "x = (sft_at (kern s) fd2)\<lparr>sft_stclust := sft_stclust ?e, sft_size := sft_size e', sft_date := sft_date ?e, sft_time := sft_time ?e\<rparr>"
    using w(7) two fo(2) unfolding x_def by (simp add: file_open_def Let_def)
  have "open_entry dp ?d cs e'" using w(2,4) d1 by (simp add: file_open_def)
  then have "open_entry dp ?d cs x" using fo x by (simp add: file_open_def open_entry_def relclust_def)
  then have fo2: "file_open rd V dp cs fd2 s1 os1" using fo(2) w(2,6) d1 x_def by (simp add: file_open_def)
  have cs: "count = min count (unat (sft_size (sft_at (kern s1) fd2)) - unat (sft_posit (sft_at (kern s1) fd2)))"
    using w(5) p(1) unfolding x_def[symmetric] x by simp
  obtain f2 s2 where r: "rwblock E f1 fd2 buf2 m2 count XFR_READ s1 = Some (Inr (int count,
        (\<lambda>j. if j < count then file_byte rd s1 os1 dp cs (unat (sft_posit (sft_at (kern s1) fd2)) + j) else m2 j), f2, s2))"
    using rwblock_read[OF rel fo2 cnt(2) cs, of f1 buf2 m2] by blast
  have "file_byte rd s1 os1 dp cs (unat (sft_posit (sft_at (kern s1) fd2)) + j) = m j" if "j < count" for j
    using w(3) p(1,3) that unfolding patched_def x_def[symmetric] x by simp
  then have "(\<lambda>j. if j < count then file_byte rd s1 os1 dp cs (unat (sft_posit (sft_at (kern s1) fd2)) + j) else m2 j)
      = (\<lambda>j. if j < count then m j else m2 j)" by (auto simp: fun_eq_iff)
  then show ?thesis using w(1) r by (intro exI[of _ f1] exI[of _ s1] exI[of _ f2] exI[of _ s2]) simp
qed

theorem written_bytes_read_through_other_handle_witness:
  "\<exists>f1 s1 f2 s2. rwblock ram_disk_all file3 0 (0, 0) (\<lambda>_. 7) 3000 XFR_WRITE io5 = Some (Inr (3000, (\<lambda>_. 7), f1, s1))
     \<and> rwblock ram_disk_all f1 1 (0, 0) (\<lambda>_. 0) 3000 XFR_READ s1 = Some (Inr (3000, (\<lambda>j. if j < 3000 then 7 else 0), f2, s2))"
proof -
  have "same_open entry5 entry5" by (simp add: same_open_def entry5_def sft_zero_def)
  then show ?thesis
    using written_bytes_read_through_other_handle[OF ram_disk_all_reliable file_open5 file_open5, of 0 1 3000 file3 "(0, 0)" "\<lambda>_. 7" "(0, 0)" "\<lambda>_. 0"]
    by (auto simp: entry5_def sft_zero_def capacity_def spc_def dpb1_def)
qed

text \<open>C26. An entry opened while its file was empty reads nothing for as long as it has no cluster of its
  own: another entry's write gives it the new size and the new start, but \<open>map_cluster\<close> asks
  only whether the entry has a current cluster. Whatever the driver does, no byte arrives.\<close>

theorem entry_opened_empty_reads_nothing:
  assumes i: "i < nsft (kern s)" "i < 256" and e: "same_file f i (sft_at (kern s) i)" "sft_cuclust (sft_at (kern s) i) = 0"
    and s1: "s1 = merge_file_changes f s" and sec: "dpb_secsize (dpbs s (f_dpb f)) \<noteq> 0"
  shows "sft_size (sft_at (kern s1) i) = dir_size (f_dir f) \<and> sft_stclust (sft_at (kern s1) i) = getdstart (dpbs s (f_dpb f)) (f_dir f)
     \<and> (\<exists>f' s'. rwblock E f0 i buf m count XFR_READ s1 = Some (Inr (0, m, f', s')))"
proof -
  let ?x = "sft_at (kern s) i" and ?d = "dpbs s (f_dpb f)"
  have c1: "concat (sft_tbl (kern s1)) = spread_block ?d f 0 (concat (sft_tbl (kern s)))"
    by (simp add: s1 merge_file_changes_def on_kernel_def concat_spread)
  have n1: "nsft (kern s1) = nsft (kern s)" unfolding nsft_def c1 by simp
  have x1: "sft_at (kern s1) i = spread_to ?d f ?x"
    using i(1) e(1) spread_block_nth[of i "concat (sft_tbl (kern s))" ?d f 0] unfolding sft_at_def c1 by (simp add: nsft_def)
  have d1: "dpbs s1 = dpbs s" by (simp add: s1 merge_file_changes_def on_kernel_def)
  have cnz: "sft_count (sft_at (kern s1) i) \<noteq> 0" using e(1) unfolding x1 by (simp add: same_file_def spread_to_def)
  define s2 where "s2 = s1\<lparr>kern := with_table (sft_tbl (kern s1)) (Some i) (kern s1)\<rparr>"
  define g where "g = load_fnode i (sft_at (kern s1) i) f0"
  have g: "f_cluster g = FREE_CLUSTER" "f_dpb g = f_dpb f" "uint (f_sft_idx g) = int i"
  proof -
    show "f_cluster g = FREE_CLUSTER" "f_dpb g = f_dpb f"
      using e by (simp_all add: g_def x1 load_fnode_def spread_to_def same_file_def FREE_CLUSTER_def)
    have "unat (f_sft_idx g) = i" using i(2) by (simp add: g_def load_fnode_def unsigned_of_nat take_bit_eq_mod)
    then show "uint (f_sft_idx g) = int i" by (metis uint_nat)
  qed
  have t2: "sft_tbl (kern s2) = sft_tbl (kern s1)" "dpbs s2 = dpbs s" by (simp_all add: s2_def d1)
  obtain s3 where st: "fnode_to_sft g s2 = Inr s3"
    using fnode_to_sft_eq[of i s2 g] g(3) i n1 cnz t2(1) by (auto simp: nsft_def sft_at_def)
  have L: "rw_loop E XFR_READ count 0 b m g s2 = Some (Inr (0, m, g, s3))" for b
    by (subst rw_loop.simps) (simp add: map_cluster_def g(1) st rw_end_def DE_SEEK_def SUCCESS_def)
  have T: "rw_truncate E XFR_READ m g s2 = Some (Inr (0, m, g, s3))"
    by (simp add: rw_truncate_def xfr_modes rw_end_def st)
  have "rwblock E f0 i buf m count XFR_READ s1 = Some (Inr (0, m, g, s3))"
    using L T sec g(2) t2(2) i(1) n1 cnz unfolding rwblock_def
    by (subst sft_to_fnode_eq) (simp_all add: g_def[symmetric] s2_def[symmetric] xfr_modes)
  then show ?thesis unfolding x1 by (auto simp: spread_to_def)
qed

theorem entry_opened_empty_reads_nothing_witness:
  "\<exists>s1 f' s'. sft_size (sft_at (kern s1) 1) = 2000
     \<and> rwblock ram_disk_all file3 1 (0, 0) (\<lambda>_. 7) 10 XFR_READ s1 = Some (Inr (0, (\<lambda>_. 7), f', s'))"
proof -
  define s where "s = io5\<lparr>kern := (kern io5)\<lparr>sft_tbl := [[entry5, entry5\<lparr>sft_stclust := 0, sft_cuclust := 0, sft_size := 0, sft_posit := 0\<rparr>]]\<rparr>\<rparr>"
  define f where "f = load_fnode 0 entry5 file3"
  have a: "nsft (kern s) = 2" "sft_cuclust (sft_at (kern s) 1) = 0" "same_file f 1 (sft_at (kern s) 1)" "dir_size (f_dir f) = 2000"
    "dpb_secsize (dpbs s (f_dpb f)) \<noteq> 0"
    by (simp_all add: s_def f_def nsft_def sft_at_def load_fnode_def same_file_def entry5_def sft_zero_def setdstart_def D_VOLID_def dpb1_simps)
  show ?thesis
    using entry_opened_empty_reads_nothing[of 1 s f "merge_file_changes f s" ram_disk_all file3 "(0, 0)" "\<lambda>_. 7" 10] a
    by (intro exI[of _ "merge_file_changes f s"]) auto
qed

end
