(* ===== verification/Dirs.thy ===== *)
theory Dirs
  imports Fileio
begin

text \<open>
  Directories: kernel/fatdir.c and the part of kernel/fatfs.c that finds, opens, creates,
  renames and removes directory entries. A path is the list of its characters without the
  final null; a position in it is the rest of the list. An f-node is an argument and a result,
  and a function that returns a null f-node for a failure has a truth value beside it. The time
  of day comes from the clock through the record of layers, and the label of the boot sector is
  written by the disk driver, an argument. A new boot parameter block asked of a driver is part
  of the media request.
\<close>

section \<open>Names and entries\<close>

definition D_RDONLY :: "8 word" where "D_RDONLY = 0x01"
definition D_HIDDEN :: "8 word" where "D_HIDDEN = 0x02"
definition D_SYSTEM :: "8 word" where "D_SYSTEM = 0x04"
definition D_DIR :: "8 word" where "D_DIR = 0x10"
definition D_DEVICE :: "8 word" where "D_DEVICE = 0x40"
definition D_LFN :: "8 word" where "D_LFN = 0x0f"
definition D_ALL :: "8 word" where "D_ALL = 0x37"
definition DFLG_DELETED :: "16 word" where "DFLG_DELETED = 1"
definition DFLG_DELETE_PEND :: "16 word" where "DFLG_DELETE_PEND = 2"
definition EXT_DELETED :: "8 word" where "EXT_DELETED = 0xe5"
definition SUBSTED_E5 :: "8 word" where "SUBSTED_E5 = 0x05"
definition chr_dot :: "8 word" where "chr_dot = 0x2e"
definition chr_blank :: "8 word" where "chr_blank = 0x20"
definition chr_slash :: "8 word" where "chr_slash = 0x5c"

lemmas dir_flags = D_RDONLY_def D_HIDDEN_def D_SYSTEM_def D_VOLID_def D_DIR_def D_ARCHIVE_def D_DEVICE_def
  D_LFN_def D_ALL_def DFLG_DELETED_def DFLG_DELETE_PEND_def EXT_DELETED_def SUBSTED_E5_def
lemmas chr_defs = chr_dot_def chr_blank_def chr_slash_def

text \<open>The loop of \<open>ConvertNameSZToName83\<close> from index \<open>i\<close> on: the name and the rest of the path.\<close>

fun to_name83 :: "nat \<Rightarrow> 8 word list \<Rightarrow> 8 word list \<Rightarrow> 8 word list \<times> 8 word list" where
  "to_name83 i nm [] = (nm, [])"
| "to_name83 i nm (c # cs) =
     (if 11 \<le> i then (nm, c # cs)
      else if c = chr_dot then to_name83 8 nm cs
      else if c \<noteq> 0 \<and> c \<noteq> chr_slash then to_name83 (Suc i) (nm[i := c]) cs
      else (nm, c # cs))"

definition ConvertNameSZToName83 :: "8 word list \<Rightarrow> 8 word list \<times> 8 word list" where
  "ConvertNameSZToName83 p = to_name83 0 (replicate 11 chr_blank) p"

text \<open>A field without the blanks at its end.\<close>

definition strip_blanks :: "8 word list \<Rightarrow> 8 word list" where
  "strip_blanks xs = rev (dropWhile (\<lambda>c. c = chr_blank) (rev xs))"

definition ConvertName83ToNameSZ :: "8 word list \<Rightarrow> 8 word list" where
  "ConvertName83ToNameSZ n =
     (let name = strip_blanks (take 8 n); ext = strip_blanks (take 3 (drop 8 n))
      in if n ! 0 = chr_dot \<or> ext = [] then name else name @ chr_dot # ext)"

text \<open>\<open>strncmp\<close> as a test for equality: characters behind a null do not count.\<close>

fun same_chars :: "nat \<Rightarrow> 8 word list \<Rightarrow> 8 word list \<Rightarrow> bool" where
  "same_chars (Suc n) (a # as) (b # bs) = (a = b \<and> (a = 0 \<or> same_chars n as bs))"
| "same_chars _ _ _ = True"

definition fcbmatch :: "8 word list \<Rightarrow> 8 word list \<Rightarrow> bool" where
  "fcbmatch a b = same_chars 11 a b"

fun fcmp_wild :: "8 word list \<Rightarrow> 8 word list \<Rightarrow> nat \<Rightarrow> bool" where
  "fcmp_wild (a # as) (b # bs) (Suc n) = ((a = 0x3f \<or> a = b) \<and> fcmp_wild as bs n)"
| "fcmp_wild _ _ _ = True"

definition getdirent :: "bytes \<Rightarrow> nat \<Rightarrow> dirent" where
  "getdirent b a =
     \<lparr>dir_name = map (\<lambda>i. b (a + i)) [0..<11], dir_attrib = b (a + 11), dir_case = b (a + 12), dir_crtimems = b (a + 13),
      dir_crtime = get16 b (a + 14), dir_crdate = get16 b (a + 16), dir_accdate = get16 b (a + 18),
      dir_start_high = get16 b (a + 20), dir_time = get16 b (a + 22), dir_date = get16 b (a + 24),
      dir_start = get16 b (a + 26), dir_size = get32 b (a + 28)\<rparr>"

definition put_name :: "8 word list \<Rightarrow> nat \<Rightarrow> bytes \<Rightarrow> bytes" where
  "put_name n a b = (\<lambda>i. if a \<le> i \<and> i < a + 11 then n ! (i - a) else b i)"

definition putdirent :: "dirent \<Rightarrow> nat \<Rightarrow> bytes \<Rightarrow> bytes" where
  "putdirent e a b =
     (let b1 = (put_name (dir_name e) a b)(a + 11 := dir_attrib e, a + 12 := dir_case e, a + 13 := dir_crtimems e);
          b2 = put16 (put16 (put16 b1 (a + 14) (dir_crtime e)) (a + 16) (dir_crdate e)) (a + 18) (dir_accdate e);
          b3 = put16 (put16 (put16 b2 (a + 20) (dir_start_high e)) (a + 22) (dir_time e)) (a + 24) (dir_date e)
      in put32 (put16 b3 (a + 26) (dir_start e)) (a + 28) (dir_size e))"

text \<open>Only the fields that are also in the system file table, for closing and committing.\<close>

definition put_sft_fields :: "dpb \<Rightarrow> dirent \<Rightarrow> nat \<Rightarrow> bytes \<Rightarrow> bytes" where
  "put_sft_fields d e a b =
     (let b1 = (put_name (dir_name e) a b)(a + 11 := dir_attrib e);
          b2 = put16 (put16 (put16 b1 (a + 22) (dir_time e)) (a + 24) (dir_date e)) (a + 26) (dir_start e)
      in put32 (if ISFAT32 d then put16 b2 (a + 20) (dir_start_high e) else b2) (a + 28) (dir_size e))"

definition init_direntry :: "'w layers \<Rightarrow> 8 word \<Rightarrow> 32 word \<Rightarrow> 8 word list \<Rightarrow> 'w kernel \<Rightarrow> dirent" where
  "init_direntry L attrib cluster nm k =
     \<lparr>dir_name = nm, dir_attrib = attrib, dir_case = 0, dir_crtimems = 0, dir_crtime = L_gettime L k,
      dir_crdate = L_getdate L k, dir_accdate = 0, dir_start_high = ucast (drop_bit 16 cluster),
      dir_time = L_gettime L k, dir_date = L_getdate L k, dir_start = ucast cluster, dir_size = 0\<rparr>"

section \<open>Deleted entries\<close>

definition is_deleted :: "f_node \<Rightarrow> bool" where
  "is_deleted f \<longleftrightarrow> d_flags f AND DFLG_DELETED \<noteq> 0"

definition SET_DELETED :: "f_node \<Rightarrow> f_node" where
  "SET_DELETED f = f\<lparr>d_flags := d_flags f OR DFLG_DELETE_PEND\<rparr>"

definition SET_RDELETED :: "f_node \<Rightarrow> f_node" where
  "SET_RDELETED f = f\<lparr>d_flags := (d_flags f OR DFLG_DELETED) AND NOT DFLG_DELETE_PEND\<rparr>"

definition CLEAR_RDELETED :: "f_node \<Rightarrow> f_node" where
  "CLEAR_RDELETED f = f\<lparr>d_flags := d_flags f AND NOT DFLG_DELETED\<rparr>"

definition first_char :: "f_node \<Rightarrow> 8 word" where
  "first_char f = dir_name (f_dir f) ! 0"

definition set_first :: "8 word \<Rightarrow> f_node \<Rightarrow> f_node" where
  "set_first c f = f\<lparr>f_dir := (f_dir f)\<lparr>dir_name := (dir_name (f_dir f))[0 := c]\<rparr>\<rparr>"

definition unsubst :: "f_node \<Rightarrow> f_node" where
  "unsubst f = (if first_char f = SUBSTED_E5 then set_first EXT_DELETED f else f)"

definition swap_deleted_rd :: "f_node \<Rightarrow> f_node" where
  "swap_deleted_rd f =
     unsubst (if first_char f = EXT_DELETED then
                let g = SET_RDELETED f; c = dir_crtimems (f_dir g)
                in if c = EXT_DELETED \<or> c = 0 then g else set_first c g
              else CLEAR_RDELETED f)"

definition swap_deleted_wr :: "f_node \<Rightarrow> f_node option" where
  "swap_deleted_wr f =
     (if first_char f = SUBSTED_E5 then None
      else let g = (if first_char f = EXT_DELETED then set_first SUBSTED_E5 f else f)
           in Some (if d_flags g AND DFLG_DELETE_PEND \<noteq> 0
                    then set_first EXT_DELETED (g\<lparr>f_dir := (f_dir g)\<lparr>dir_crtimems := first_char g\<rparr>\<rparr>) else g))"

definition unswap_deleted_wr :: "f_node \<Rightarrow> f_node" where
  "unswap_deleted_wr f =
     unsubst (if d_flags f AND DFLG_DELETE_PEND \<noteq> 0 then set_first (dir_crtimems (f_dir f)) (SET_RDELETED f)
              else CLEAR_RDELETED f)"

section \<open>Reading and writing entries\<close>

definition dir_init_fnode :: "dpb \<Rightarrow> 32 word \<Rightarrow> f_node \<Rightarrow> f_node" where
  "dir_init_fnode d st f =
     (let c = (if st = 0 \<and> ISFAT32 d then dpb_xrootclst d else st)
      in f\<lparr>f_sft_idx := 0xff, f_offset := 0, f_cluster_offset := 0, d_flags := 0, f_cluster := c, dm_dircluster := c\<rparr>)"

text \<open>The buffer of a directory sector is marked as such.\<close>

definition dir_buffer :: "buffer \<Rightarrow> buffer" where
  "dir_buffer b = b\<lparr>b_flag := (b_flag b AND NOT (BFR_DATA OR BFR_FAT)) OR (BFR_DIR OR BFR_VALID)\<rparr>"

definition read_entry ::
    "'w driver \<Rightarrow> nat \<Rightarrow> f_node \<Rightarrow> 'w diskio \<Rightarrow> ((int \<times> f_node \<times> 'w diskio) run) option" where
  "read_entry E entry f s =
     (let d = dpbs s (f_dpb f) in do {
        (b, s1) \<leftarrow> getblock E (f_dirsector f) (scast (dpb_unit d)) s;
        (case b of
           None \<Rightarrow> returnR (DE_BLKINVLD, f, s1)
         | Some bp \<Rightarrow>
             let idx = entry mod (unat (dpb_secsize d) div 32);
                 f1 = swap_deleted_rd (f\<lparr>f_diridx := of_nat idx,
                        f_dir := getdirent (b_buffer (bufs s1 bp)) (unat (of_nat idx :: 8 word) * 32)\<rparr>)
             in returnR (if first_char f1 \<noteq> 0 then 1 else 0, f1, set_buf bp dir_buffer s1))
      })"

definition dir_read :: "'w driver \<Rightarrow> f_node \<Rightarrow> 'w diskio \<Rightarrow> ((int \<times> f_node \<times> 'w diskio) run) option" where
  "dir_read E f s =
     (let d = dpbs s (f_dpb f); per = unat (dpb_secsize d) div 32; entry = unat (dm_entry f) in
      if 65535 \<le> entry then returnR (DE_SEEK, f, s)
      else if dm_dircluster f = 0 then
        if unat (dpb_dirents d) \<le> entry then returnR (DE_SEEK, f, s)
        else if per = 0 then Some (Inl Div_by_zero)
        else read_entry E entry (f\<lparr>f_dirsector := of_nat (entry div per) + ucast (dpb_dirstrt d)\<rparr>) s
      else bindR (map_cluster E XFR_READ (f\<lparr>f_offset := of_nat entry * 32\<rparr>) s) (\<lambda>(r, f1, s1).
        if r \<noteq> SUCCESS then returnR (DE_SEEK, f1, s1)
        else if per = 0 then Some (Inl Div_by_zero)
        else read_entry E entry (f1\<lparr>f_dirsector := clus2phys (f_cluster f1) (dpbs s1 (f_dpb f1))
                                       + of_nat (rw_sector f1 (dpbs s1 (f_dpb f1)))\<rparr>) s1))"

definition dir_write_update ::
    "'w driver \<Rightarrow> bool \<Rightarrow> f_node \<Rightarrow> 'w diskio \<Rightarrow> (bool \<times> f_node \<times> 'w diskio) option" where
  "dir_write_update E update f s =
     (let d = dpbs s (f_dpb f); unit = scast (dpb_unit d) in
      if \<not> update \<or> f_flags f AND (SFT_FCLEAN OR SFT_FDATE) \<noteq> SFT_FCLEAN then do {
        (b, s1) \<leftarrow> getblock E (f_dirsector f) unit s;
        (case b of
           None \<Rightarrow> Some (False, f, s1)
         | Some bp \<Rightarrow>
             (case swap_deleted_wr f of
                None \<Rightarrow> Some (False, f, s1)
              | Some g \<Rightarrow>
                  let a = unat (f_diridx g) * 32; buf = b_buffer (bufs s1 bp);
                      s2 = set_buf bp (\<lambda>b. b\<lparr>b_buffer := (if update then put_sft_fields d (f_dir g) a buf else putdirent (f_dir g) a buf),
                             b_flag := (b_flag b AND NOT (BFR_DATA OR BFR_FAT)) OR (BFR_DIR OR BFR_DIRTY OR BFR_VALID)\<rparr>) s1
                  in do {
                    (ok, s3) \<leftarrow> flush_buffers E unit s2;
                    Some (ok, unswap_deleted_wr g, s3)
                  }))
      }
      else do {
        (ok, s1) \<leftarrow> flush_buffers E unit s;
        Some (ok, f, s1)
      })"

definition dir_write :: "'w driver \<Rightarrow> f_node \<Rightarrow> 'w diskio \<Rightarrow> (bool \<times> f_node \<times> 'w diskio) option" where
  "dir_write E = dir_write_update E False"

section \<open>Finding an entry\<close>

text \<open>The loop that all searches share: the entries are read one after another until the
  directory ends or the test holds.\<close>

partial_function (option) scan_dir ::
    "'w driver \<Rightarrow> (f_node \<Rightarrow> bool) \<Rightarrow> f_node \<Rightarrow> 'w diskio \<Rightarrow> ((int \<times> f_node \<times> 'w diskio) run) option" where
  "scan_dir E P f s =
     bindR (dir_read E f s) (\<lambda>(r, f1, s1).
       if r \<noteq> 1 \<or> P f1 then returnR (r, f1, s1)
       else scan_dir E P (f1\<lparr>dm_entry := dm_entry f1 + 1\<rparr>) s1)"

text \<open>The walk along the components of a path.\<close>

definition walk_match :: "8 word list \<Rightarrow> f_node \<Rightarrow> bool" where
  "walk_match nm f \<longleftrightarrow> dir_attrib (f_dir f) AND D_VOLID = 0 \<and> fcbmatch nm (dir_name (f_dir f))"

definition no_pattern :: "f_node \<Rightarrow> f_node" where
  "no_pattern f = f\<lparr>dm_name_pat := (dm_name_pat f)[0 := 0], dm_entry := 0\<rparr>"

partial_function (option) dir_walk ::
    "'w driver \<Rightarrow> bool \<Rightarrow> 8 word list \<Rightarrow> f_node \<Rightarrow> 'w diskio \<Rightarrow> ((bool \<times> f_node \<times> 'w diskio) run) option" where
  "dir_walk E split p f s =
     (if length p \<le> 1 then returnR (True, f, s)
      else case ConvertNameSZToName83 (tl p) of (nm, rest) \<Rightarrow>
        let f1 = f\<lparr>dm_name_pat := nm\<rparr> in
        if split \<and> rest = [] then returnR (True, f1, s)
        else bindR (scan_dir E (walk_match nm) f1 s) (\<lambda>(r, f2, s2).
          if r \<noteq> 1 \<or> dir_attrib (f_dir f2) AND D_DIR = 0 then returnR (False, f2, s2)
          else let d = dpbs s2 (f_dpb f2)
               in dir_walk E split rest (no_pattern (dir_init_fnode d (getdstart d (f_dir f2)) f2)) s2))"

definition char_at :: "nat \<Rightarrow> 8 word list \<Rightarrow> 8 word" where
  "char_at i p = (if i < length p then p ! i else 0)"

definition path_drive :: "8 word list \<Rightarrow> 16 word" where
  "path_drive p = scast (char_at 0 p) - 65"

text \<open>A drive without parameter block gives a null pointer, which the set-up of the f-node follows.\<close>

definition dir_open ::
    "'w driver \<Rightarrow> 8 word list \<Rightarrow> bool \<Rightarrow> f_node \<Rightarrow> 'w diskio \<Rightarrow> ((bool \<times> f_node \<times> 'w diskio) run) option" where
  "dir_open E p split f s =
     (case get_dpb (path_drive p) s of
        None \<Rightarrow> Some (Inl Null_deref)
      | Some dp \<Rightarrow> dir_walk E split (drop 2 p) (no_pattern (dir_init_fnode (dpbs s dp) 0 (f\<lparr>f_dpb := dp\<rparr>))) s)"

definition split_path ::
    "'w driver \<Rightarrow> 8 word list \<Rightarrow> f_node \<Rightarrow> 'w diskio \<Rightarrow> ((bool \<times> f_node \<times> 'w diskio) run) option" where
  "split_path E p f s =
     (if p \<noteq> [] \<and> last p = chr_slash then returnR (False, f, s) else dir_open E p True f s)"

definition dir_exists ::
    "'w driver \<Rightarrow> 8 word list \<Rightarrow> f_node \<Rightarrow> 'w diskio \<Rightarrow> ((bool \<times> f_node \<times> 'w diskio) run) option" where
  "dir_exists E p f s = split_path E p f s"

definition dir_match :: "8 word \<Rightarrow> 8 word \<Rightarrow> f_node \<Rightarrow> bool" where
  "dir_match req allow f \<longleftrightarrow> \<not> is_deleted f
     \<and> (dm_name_pat f ! 0 = 0 \<or> fcbmatch (dir_name (f_dir f)) (dm_name_pat f))
     \<and> dir_attrib (f_dir f) AND req = req \<and> dir_attrib (f_dir f) AND NOT (D_RDONLY OR D_ARCHIVE OR allow) = 0"

definition find_in_dir ::
    "'w driver \<Rightarrow> 8 word \<Rightarrow> 8 word \<Rightarrow> f_node \<Rightarrow> 'w diskio \<Rightarrow> ((int \<times> f_node \<times> 'w diskio) run) option" where
  "find_in_dir E req allow f s =
     bindR (scan_dir E (dir_match req allow) f s) (\<lambda>(r, f1, s1).
       returnR (if r = 1 then SUCCESS else DE_FILENOTFND, f1, s1))"

definition find_fname ::
    "'w driver \<Rightarrow> 8 word list \<Rightarrow> 8 word \<Rightarrow> f_node \<Rightarrow> 'w diskio \<Rightarrow> ((int \<times> f_node \<times> 'w diskio) run) option" where
  "find_fname E p attr f s =
     bindR (split_path E p f s) (\<lambda>(ok, f1, s1).
       if \<not> ok then returnR (DE_PATHNOTFND, f1, s1) else find_in_dir E 0 attr f1 s1)"

definition find_free ::
    "'w driver \<Rightarrow> f_node \<Rightarrow> 'w diskio \<Rightarrow> ((bool \<times> f_node \<times> 'w diskio) run) option" where
  "find_free E f s = bindR (scan_dir E is_deleted f s) (\<lambda>(r, f1, s1). returnR (0 \<le> r, f1, s1))"

section \<open>Removing entries\<close>

partial_function (option) remove_lfn_loop ::
    "'w driver \<Rightarrow> f_node \<Rightarrow> 'w diskio \<Rightarrow> ((int \<times> f_node \<times> 'w diskio) run) option" where
  "remove_lfn_loop E f s =
     (if dm_entry f = 0 then returnR (SUCCESS, f, s)
      else bindR (dir_read E (f\<lparr>dm_entry := dm_entry f - 1\<rparr>) s) (\<lambda>(r, f1, s1).
        if r \<le> 0 then returnR (DE_ACCESS, f1, s1)
        else if dir_attrib (f_dir f1) \<noteq> D_LFN then returnR (SUCCESS, f1, s1)
        else do {
          (ok, f2, s2) \<leftarrow> dir_write E (SET_DELETED f1) s1;
          (if \<not> ok then returnR (DE_ACCESS, f2, s2) else remove_lfn_loop E f2 s2)
        }))"

definition remove_lfn_entries ::
    "'w driver \<Rightarrow> f_node \<Rightarrow> 'w diskio \<Rightarrow> ((int \<times> f_node \<times> 'w diskio) run) option" where
  "remove_lfn_entries E f s =
     bindR (remove_lfn_loop E f s) (\<lambda>(r, f1, s1).
       if r \<noteq> SUCCESS then returnR (r, f1, s1)
       else bindR (dir_read E (f1\<lparr>dm_entry := dm_entry f\<rparr>) s1) (\<lambda>(r2, f2, s2).
         returnR (if r2 \<le> 0 then DE_ACCESS else SUCCESS, f2, s2)))"

definition write_back ::
    "'w driver \<Rightarrow> f_node \<Rightarrow> 'w diskio \<Rightarrow> ((int \<times> f_node \<times> 'w diskio) run) option" where
  "write_back E f s =
     do { (ok, f1, s1) \<leftarrow> dir_write E f s; returnR (if ok then SUCCESS else DE_ACCESS, f1, s1) }"

definition delete_dir_entry ::
    "'w driver \<Rightarrow> f_node \<Rightarrow> 'w diskio \<Rightarrow> ((int \<times> f_node \<times> 'w diskio) run) option" where
  "delete_dir_entry E f s =
     bindR (remove_lfn_entries E f s) (\<lambda>(rc, f1, s1).
       if rc < 0 then returnR (rc, f1, s1)
       else bindR (wipe_out E f1 s1) (\<lambda>s2. write_back E (SET_DELETED f1) s2))"

definition dos_delete ::
    "'w driver \<Rightarrow> 8 word list \<Rightarrow> 8 word \<Rightarrow> f_node \<Rightarrow> 'w diskio \<Rightarrow> ((int \<times> f_node \<times> 'w diskio) run) option" where
  "dos_delete E p attrib f s =
     bindR (find_fname E p attrib f s) (\<lambda>(ret, f1, s1).
       if ret \<noteq> SUCCESS then returnR (ret, f1, s1)
       else if dir_attrib (f_dir f1) AND (D_RDONLY OR D_DIR) \<noteq> 0 then returnR (DE_ACCESS, f1, s1)
       else delete_dir_entry E f1 s1)"

text \<open>The entry behind the last one read; the result of \<open>dir_read\<close> is not looked at.\<close>

definition read_next ::
    "'w driver \<Rightarrow> f_node \<Rightarrow> 'w diskio \<Rightarrow> ((f_node \<times> 'w diskio) run) option" where
  "read_next E f s = bindR (dir_read E (f\<lparr>dm_entry := dm_entry f + 1\<rparr>) s) (\<lambda>(_, f1, s1). returnR (f1, s1))"

definition path_cds :: "8 word list \<Rightarrow> 'w diskio \<Rightarrow> nat option" where
  "path_cds p s = get_cds (unat (scast (char_at 0 p) - 65 :: 32 word)) (kern s)"

definition dos_rmdir ::
    "'w driver \<Rightarrow> 8 word list \<Rightarrow> f_node \<Rightarrow> 'w diskio \<Rightarrow> ((int \<times> f_node \<times> 'w diskio) run) option" where
  "dos_rmdir E p f s =
     (case path_cds p s of
        None \<Rightarrow> Some (Inl Null_deref)
      | Some c \<Rightarrow>
          if p = cdsCurrentPath (CDSp (kern s) ! c) then returnR (DE_RMVCUDIR, f, s)
          else if char_at 2 p = chr_slash \<and> char_at 3 p = 0 then returnR (DE_ACCESS, f, s)
          else bindR (dir_open E p False f s) (\<lambda>(ok, f1, s1).
            if \<not> ok then returnR (DE_PATHNOTFND, f1, s1)
            else if dir_attrib (f_dir f1) AND NOT (D_DIR OR D_RDONLY OR D_ARCHIVE) \<noteq> 0 then returnR (DE_ACCESS, f1, s1)
            else bindR (dir_read E f1 s1) (\<lambda>(_, f2, s2).
              if first_char f2 \<noteq> chr_dot \<or> dir_name (f_dir f2) ! 1 \<noteq> chr_blank then returnR (DE_ACCESS, f2, s2)
              else bindR (read_next E f2 s2) (\<lambda>(f3, s3).
                if first_char f3 \<noteq> chr_dot \<or> dir_name (f_dir f3) ! 1 \<noteq> chr_dot then returnR (DE_ACCESS, f3, s3)
                else bindR (scan_dir E (\<lambda>g. \<not> is_deleted g \<and> dir_attrib (f_dir g) \<noteq> D_LFN)
                              (f3\<lparr>dm_entry := dm_entry f3 + 1\<rparr>) s3) (\<lambda>(r, f4, s4).
                  if r = 1 then returnR (DE_ACCESS, f4, s4)
                  else bindR (find_fname E p D_ALL f4 s4) (\<lambda>(ret, f5, s5).
                    if ret \<noteq> SUCCESS then returnR (DE_PATHNOTFND, f5, s5) else delete_dir_entry E f5 s5))))))"

section \<open>Creating entries\<close>

definition extend_dir ::
    "'w driver \<Rightarrow> f_node \<Rightarrow> 'w diskio \<Rightarrow> ((int \<times> f_node \<times> 'w diskio) run) option" where
  "extend_dir E f s =
     bindR (extend_file E f s) (\<lambda>(cluster, f1, s1).
       if cluster = LONG_LAST_CLUSTER then returnR (DE_HNDLDSKFULL, f1, s1)
       else do {
         (ret, s2) \<leftarrow> clear_dir E f1 cluster s1;
         (if ret \<noteq> SUCCESS then returnR (ret, f1, s2)
          else bindR (find_free E f1 s2) (\<lambda>(ok, f2, s3).
            if \<not> ok then returnR (DE_HNDLDSKFULL, f2, s3)
            else do {
              (ok2, s4) \<leftarrow> flush_buffers E (scast (dpb_unit (dpbs s3 (f_dpb f2)))) s3;
              returnR (if ok2 then SUCCESS else DE_ACCESS, f2, s4)
            }))
       })"

text \<open>The path is walked again; a null f-node would be followed.\<close>

definition alloc_find_free ::
    "'w driver \<Rightarrow> 8 word list \<Rightarrow> f_node \<Rightarrow> 'w diskio \<Rightarrow> ((int \<times> f_node \<times> 'w diskio) run) option" where
  "alloc_find_free E p f s =
     bindR (split_path E p f s) (\<lambda>(ok, f1, s1).
       if \<not> ok then Some (Inl Null_deref)
       else bindR (find_free E f1 s1) (\<lambda>(free, f2, s2).
         if free then returnR (SUCCESS, f2, s2)
         else if dm_dircluster f2 = 0 then returnR (DE_TOOMANY, f2, s2)
         else extend_dir E f2 s2))"

text \<open>The two near f-nodes \<open>fnode[0]\<close> and \<open>fnode[1]\<close>.\<close>

definition dos_rename ::
    "'w driver \<Rightarrow> 8 word list \<Rightarrow> 8 word list \<Rightarrow> 8 word \<Rightarrow> f_node \<Rightarrow> f_node \<Rightarrow> 'w diskio
     \<Rightarrow> ((int \<times> f_node \<times> f_node \<times> 'w diskio) run) option" where
  "dos_rename E p1 p2 attrib fa fb s =
     (case path_cds p1 s of
        None \<Rightarrow> Some (Inl Null_deref)
      | Some c \<Rightarrow>
          if p1 = cdsCurrentPath (CDSp (kern s) ! c) then returnR (DE_RMVCUDIR, fa, fb, s)
          else bindR (find_fname E p1 attrib fa s) (\<lambda>(ret1, f1, s1).
            if ret1 \<noteq> SUCCESS then returnR (ret1, f1, fb, s1)
            else bindR (find_fname E p2 attrib fb s1) (\<lambda>(ret2, f2, s2).
              if ret2 \<noteq> DE_FILENOTFND then returnR (if ret2 = SUCCESS then DE_ACCESS else ret2, f1, f2, s2)
              else
                let name = (\<lambda>g f. g\<lparr>f_dir := (f_dir g)\<lparr>dir_name := dm_name_pat f\<rparr>\<rparr>)
                in if dm_dircluster f1 = dm_dircluster f2 then
                  bindR (remove_lfn_entries E f1 s2) (\<lambda>(rc, f3, s3).
                    if rc < 0 then returnR (rc, f3, f2, s3)
                    else bindR (write_back E (name f3 f2) s3) (\<lambda>(r, f4, s4). returnR (r, f4, f2, s4)))
                else if dir_attrib (f_dir f1) AND D_DIR \<noteq> 0 then returnR (DE_ACCESS, f1, f2, s2)
                else bindR (alloc_find_free E p2 f2 s2) (\<lambda>(ret3, g2, s3).
                  if ret3 \<noteq> SUCCESS then returnR (ret3, f1, g2, s3)
                  else bindR (remove_lfn_entries E f1 s3) (\<lambda>(rc, f3, s4).
                    if rc < 0 then returnR (rc, f3, g2, s4)
                    else bindR (write_back E (SET_DELETED f3) s4) (\<lambda>(r4, f4, s5).
                      let g3 = g2\<lparr>f_dir := f_dir f3\<rparr> in
                      if r4 \<noteq> SUCCESS then returnR (DE_ACCESS, f4, g3, s5)
                      else bindR (write_back E (name g3 g3) s5) (\<lambda>(r5, g4, s6). returnR (r5, f4, g4, s6))))))))"

definition MAX_CDSPATH :: nat where "MAX_CDSPATH = 67"

definition dot_name :: "8 word list" where
  "dot_name = chr_dot # replicate 10 chr_blank"

text \<open>Behind the new entry: the entries for the directory itself and for its parent.\<close>

definition new_directory ::
    "'w driver \<Rightarrow> 'w layers \<Rightarrow> 32 word \<Rightarrow> 32 word \<Rightarrow> f_node \<Rightarrow> 'w diskio \<Rightarrow> ((int \<times> f_node \<times> 'w diskio) run) option" where
  "new_directory E L cluster parent f s =
     (let f0 = (dir_init_fnode (dpbs s (f_dpb f)) cluster f)\<lparr>dm_entry := 0\<rparr> in
      bindR (find_free E f0 s) (\<lambda>(_, f1, s1).
      bindR (write_back E (f1\<lparr>f_dir := init_direntry L D_DIR cluster dot_name (kern s1)\<rparr>) s1) (\<lambda>(r, f2, s2).
        if r \<noteq> SUCCESS then returnR (DE_ACCESS, f2, s2)
        else bindR (find_free E f2 s2) (\<lambda>(ok, f3, s3).
          bindR (if ok then returnR (SUCCESS, f3, s3) else extend_dir E f3 s3) (\<lambda>(ret, f4, s4).
            if ret \<noteq> SUCCESS then returnR (ret, f4, s4)
            else
              let d = dpbs s4 (f_dpb f4); up = (if ISFAT32 d \<and> parent = dpb_xrootclst d then 0 else parent)
              in write_back E (f4\<lparr>f_dir := init_direntry L D_DIR up (dot_name[1 := chr_dot]) (kern s4)\<rparr>) s4)))))"

definition dos_mkdir ::
    "'w driver \<Rightarrow> 'w layers \<Rightarrow> 8 word list \<Rightarrow> f_node \<Rightarrow> 'w diskio \<Rightarrow> ((int \<times> f_node \<times> 'w diskio) run) option" where
  "dos_mkdir E L p f s =
     (if MAX_CDSPATH \<le> length p then returnR (DE_PATHNOTFND, f, s)
      else bindR (find_fname E p D_ALL f s) (\<lambda>(ret, f1, s1).
        if ret \<noteq> DE_FILENOTFND then returnR (if ret = SUCCESS then DE_ACCESS else ret, f1, s1)
        else bindR (alloc_find_free E p f1 s1) (\<lambda>(ret2, f2, s2).
          if ret2 \<noteq> SUCCESS then returnR (ret2, f2, s2)
          else bindR (find_fat_free E (f_dpb f2) s2) (\<lambda>(cluster, s3).
            if cluster = LONG_LAST_CLUSTER then returnR (DE_HNDLDSKFULL, f2, s3)
            else
              let f3 = f2\<lparr>f_dir := init_direntry L D_DIR cluster (dm_name_pat f2) (kern s3)\<rparr>
              in bindR (link_fat E (f_dpb f3) cluster LONG_LAST_CLUSTER s3) (\<lambda>(r, s4).
                if r \<noteq> 0 then returnR (DE_HNDLDSKFULL, f3, s4)
                else do {
                  (ret3, s5) \<leftarrow> clear_dir E f3 cluster s4;
                  (if ret3 \<noteq> SUCCESS then returnR (ret3, f3, s5)
                   else bindR (write_back E f3 s5) (\<lambda>(r6, f6, s6).
                     if r6 \<noteq> SUCCESS then returnR (DE_ACCESS, f6, s6)
                     else new_directory E L cluster (dm_dircluster f1) f6 s6))
                })))))"

section \<open>Opening and closing\<close>

definition O_OPEN :: "16 word" where "O_OPEN = 0x0100"
definition O_TRUNC :: "16 word" where "O_TRUNC = 0x0200"
definition O_CREAT :: "16 word" where "O_CREAT = 0x0400"
definition O_FCB :: "16 word" where "O_FCB = 0x8000"
definition S_OPENED :: int where "S_OPENED = 1"
definition S_CREATED :: int where "S_CREATED = 2"
definition S_REPLACED :: int where "S_REPLACED = 3"

lemmas open_defs = O_OPEN_def O_TRUNC_def O_CREAT_def O_FCB_def S_OPENED_def S_CREATED_def S_REPLACED_def

text \<open>What an open does with an entry it has found: the result, before the entry is written.\<close>

definition open_found ::
    "'w driver \<Rightarrow> 16 word \<Rightarrow> 8 word \<Rightarrow> f_node \<Rightarrow> 'w diskio \<Rightarrow> ((int \<times> 'w diskio) run) option" where
  "open_found E flags attrib f s =
     (let a = dir_attrib (f_dir f) in
      if flags AND O_TRUNC \<noteq> 0 then
        if a AND (D_RDONLY OR D_DIR OR D_VOLID) \<noteq> 0 \<or> a AND NOT D_ARCHIVE AND NOT attrib \<noteq> 0 then returnR (DE_ACCESS, s)
        else bindR (wipe_out E f s) (\<lambda>s1. returnR (S_REPLACED, s1))
      else if flags AND O_OPEN \<noteq> 0 then
        let acc = (if flags AND O_FCB \<noteq> 0 \<and> a AND D_RDONLY \<noteq> 0 then 0 else flags AND 3) in
        if a AND (D_DIR OR D_VOLID) \<noteq> 0 \<or> a AND D_RDONLY \<noteq> 0 \<and> acc \<noteq> 0 then returnR (DE_ACCESS, s)
        else returnR (S_OPENED, s)
      else returnR (DE_FILEEXISTS, s))"

text \<open>The end all branches share.\<close>

definition open_done ::
    "'w driver \<Rightarrow> 'w layers \<Rightarrow> 8 word \<Rightarrow> nat \<Rightarrow> int \<Rightarrow> f_node \<Rightarrow> 'w diskio \<Rightarrow> ((int \<times> f_node \<times> 'w diskio) run) option" where
  "open_done E L attrib fd status f s =
     (let f1 = f\<lparr>f_sft_idx := of_nat fd, f_offset := 0, f_cluster_offset := 0,
                 f_flags := (f_flags f AND NOT SFT_FDATE) OR SFT_FCLEAN\<rparr>
      in bindR (if status = S_OPENED then returnR (SUCCESS, f1, s)
                else write_back E (f1\<lparr>f_dir := init_direntry L attrib FREE_CLUSTER (dm_name_pat f1) (kern s)\<rparr>) s)
        (\<lambda>(r, f2, s2).
          if r \<noteq> SUCCESS then returnR (DE_ACCESS, f2, s2)
          else
            let f3 = (if status = S_OPENED then collect_changes 0 (concat (sft_tbl (kern s2))) f2 else f2);
                s3 = (if status = S_OPENED then s2 else merge_file_changes f2 s2);
                f4 = f3\<lparr>f_cluster := getdstart (dpbs s3 (f_dpb f3)) (f_dir f3)\<rparr>
            in bindR (Some (fnode_to_sft f4 s3)) (\<lambda>s4. returnR (status, f4, s4))))"

text \<open>The last component of a path, up to twelve characters of it.\<close>

definition base_name :: "8 word list \<Rightarrow> 8 word list option" where
  "base_name p = (if chr_slash \<in> set p then Some (rev (takeWhile (\<lambda>c. c \<noteq> chr_slash) (rev p))) else None)"

definition open_label ::
    "'w driver \<Rightarrow> 'w layers \<Rightarrow> (8 word \<Rightarrow> 8 word list \<Rightarrow> 'w diskio \<Rightarrow> 'w diskio) \<Rightarrow> 8 word list \<Rightarrow> 8 word \<Rightarrow> nat
     \<Rightarrow> f_node \<Rightarrow> 'w diskio \<Rightarrow> ((int \<times> f_node \<times> 'w diskio) run) option" where
  "open_label E L wl p attrib fd f s =
     (let root = [char_at 0 p, 0x3a, chr_slash] in
      bindR (dir_open E root False f s) (\<lambda>(ok, f1, s1).
        if \<not> ok then Some (Inl Null_deref)
        else bindR (find_in_dir E D_VOLID (D_VOLID OR D_RDONLY OR D_ARCHIVE) f1 s1) (\<lambda>(r, f2, s2).
          if r = SUCCESS then returnR (DE_ACCESS, f2, s2)
          else
            (case base_name p of
               None \<Rightarrow> returnR (DE_ACCESS, f2, s2)
             | Some b \<Rightarrow> bindR (alloc_find_free E (root @ take 12 b) f2 s2) (\<lambda>(ret, f3, s3).
                 if ret \<noteq> SUCCESS then returnR (ret, f3, s3)
                 else open_done E L attrib fd S_CREATED f3 (wl (char_at 0 p) (take 12 b) s3))))))"

definition dos_open ::
    "'w driver \<Rightarrow> 'w layers \<Rightarrow> (8 word \<Rightarrow> 8 word list \<Rightarrow> 'w diskio \<Rightarrow> 'w diskio) \<Rightarrow> 8 word list \<Rightarrow> 16 word \<Rightarrow> 8 word \<Rightarrow> nat
     \<Rightarrow> f_node \<Rightarrow> 'w diskio \<Rightarrow> ((int \<times> f_node \<times> 'w diskio) run) option" where
  "dos_open E L wl p flags attrib fd f0 s0 =
     bindR (Some (sft_to_fnode fd f0 s0)) (\<lambda>(f, s).
       if attrib AND D_VOLID \<noteq> 0 \<and> attrib AND D_DIR \<noteq> D_DIR \<and> attrib AND D_LFN \<noteq> D_LFN
          \<and> flags AND O_CREAT \<noteq> 0 \<and> flags AND O_FCB \<noteq> 0
       then open_label E L wl p attrib fd f s
       else bindR (find_fname E p (D_ALL OR attrib) f s) (\<lambda>(st, f1, s1).
         if st = SUCCESS then
           bindR (open_found E flags attrib f1 s1) (\<lambda>(st2, s2).
             if st2 < 0 then returnR (st2, f1, s2) else open_done E L attrib fd st2 f1 s2)
         else if st = DE_FILENOTFND \<and> flags AND O_CREAT \<noteq> 0 then
           bindR (alloc_find_free E p f1 s1) (\<lambda>(ret, f2, s2).
             if ret \<noteq> SUCCESS then returnR (ret, f2, s2) else open_done E L attrib fd S_CREATED f2 s2)
         else returnR (st, f1, s1)))"

definition dos_close ::
    "'w driver \<Rightarrow> 'w layers \<Rightarrow> nat \<Rightarrow> f_node \<Rightarrow> 'w diskio \<Rightarrow> ((int \<times> f_node \<times> 'w diskio) run) option" where
  "dos_close E L fd f0 s0 =
     bindR (Some (sft_to_fnode fd f0 s0)) (\<lambda>(f, s).
       let f1 = (if f_flags f AND SFT_FCLEAN = 0 \<and> f_flags f AND SFT_FDATE = 0
                 then f\<lparr>f_dir := (f_dir f)\<lparr>dir_time := L_gettime L (kern s), dir_date := L_getdate L (kern s)\<rparr>\<rparr> else f);
           s1 = (if f_flags f AND SFT_FCLEAN = 0 then merge_file_changes f1 s else s)
       in do {
         (ok, f2, s2) \<leftarrow> dir_write_update E True (f1\<lparr>f_sft_idx := 0xff\<rparr>) s1;
         returnR (if ok then SUCCESS else DE_INVLDHNDL, f2, s2)
       })"

section \<open>Attributes and the current directory\<close>

definition dos_getfattr ::
    "'w driver \<Rightarrow> 8 word list \<Rightarrow> f_node \<Rightarrow> 'w diskio \<Rightarrow> ((int \<times> f_node \<times> 'w diskio) run) option" where
  "dos_getfattr E p f s =
     bindR (find_fname E p D_ALL f s) (\<lambda>(ret, f1, s1).
       returnR (if ret = SUCCESS then uint (dir_attrib (f_dir f1)) else ret, f1, s1))"

definition dos_setfattr ::
    "'w driver \<Rightarrow> 'w layers \<Rightarrow> 8 word list \<Rightarrow> 16 word \<Rightarrow> f_node \<Rightarrow> 'w diskio \<Rightarrow> ((int \<times> f_node \<times> 'w diskio) run) option" where
  "dos_setfattr E L p attrp f s =
     (let a = ucast attrp in
      if a AND (D_VOLID OR 0xc0) \<noteq> 0 then returnR (DE_ACCESS, f, s)
      else bindR (find_fname E p D_ALL f s) (\<lambda>(rc, f1, s1).
        if rc \<noteq> SUCCESS then returnR (rc, f1, s1)
        else if a AND D_DIR \<noteq> 0 \<and> dir_attrib (f_dir f1) AND D_DIR = 0 then returnR (DE_ACCESS, f1, s1)
        else
          let f2 = f1\<lparr>f_dir := (f_dir f1)\<lparr>dir_attrib := (dir_attrib (f_dir f1) AND (D_VOLID OR D_DIR)) OR a\<rparr>\<rparr>
          in (case close_same_file L f2 (kern s1) of (rc2, k) \<Rightarrow>
                if rc2 \<noteq> SUCCESS then returnR (rc2, f2, on_kernel (\<lambda>_. k) s1)
                else write_back E f2 (on_kernel (\<lambda>_. k) s1))))"

definition dos_cd ::
    "'w driver \<Rightarrow> 8 word list \<Rightarrow> f_node \<Rightarrow> 'w diskio \<Rightarrow> ((int \<times> f_node \<times> 'w diskio) run) option" where
  "dos_cd E p f s =
     bindR (dir_open E p False f s) (\<lambda>(ok, f1, s1).
       if \<not> ok then returnR (DE_PATHNOTFND, f1, s1)
       else
         (case path_cds p s1 of
            None \<Rightarrow> Some (Inl Null_deref)
          | Some c \<Rightarrow> returnR (SUCCESS, f1, on_kernel (\<lambda>k. k\<lparr>CDSp := (CDSp k)[c := (CDSp k ! c)\<lparr>cdsStrtClst := ucast (dm_dircluster f1)\<rparr>]\<rparr>) s1)))"

section \<open>The medium of a drive\<close>

text \<open>A media request: the fields a check uses, and the BIOS parameter block the driver answers
  with. The blocks of parameters in the kernel's own segment are an argument.\<close>

record media_req =
  m_unit :: "8 word"
  m_command :: "8 word"
  m_mcmdesc :: "8 word"
  m_status :: "16 word"
  m_retcode :: "8 word"
  m_bpb :: bpb

type_synonym 'w media_driver = "media_req \<Rightarrow> 32 word \<Rightarrow> 'w \<Rightarrow> media_req \<times> 'w"

definition C_MEDIACHK :: "8 word" where "C_MEDIACHK = 0x01"
definition C_BLDBPB :: "8 word" where "C_BLDBPB = 0x02"
definition M_DONT_KNOW :: "8 word" where "M_DONT_KNOW = 0"
definition M_NOT_CHANGED :: "8 word" where "M_NOT_CHANGED = 1"

partial_function (option) media_ask ::
    "16 word \<Rightarrow> 32 word \<Rightarrow> 16 word \<Rightarrow> 'w diskio \<Rightarrow> (int \<times> 'w diskio) option" where
  "media_ask drive dev e s =
     (let a = DoCriticalError 0x38 drive e dev; s1 = s\<lparr>CritErrCode := e + 0x13\<rparr> in
      if a = A_ABORT \<or> a = A_FAIL \<or> a = A_RETRY \<or> a = A_CONTINUE then Some (a, s1) else media_ask drive dev e s1)"

partial_function (option) rqblockio ::
    "'w media_driver \<Rightarrow> 8 word \<Rightarrow> 32 word \<Rightarrow> media_req \<Rightarrow> 'w diskio \<Rightarrow> (int \<times> media_req \<times> 'w diskio) option" where
  "rqblockio M cmd dp q s =
     (let d = dpbs s dp; dev = dpb_device (kern s) dp in
      case M (q\<lparr>m_unit := dpb_subunit d, m_command := cmd, m_mcmdesc := dpb_mdb d, m_status := 0\<rparr>) dev (world (kern s)) of
        (q1, w1) \<Rightarrow>
          let s1 = on_kernel (with_world w1) s in
          if m_status q1 AND S_ERROR \<noteq> 0 \<or> m_status q1 AND S_DONE = 0 then
            do {
              (a, s2) \<leftarrow> media_ask (scast (dpb_unit d)) dev (m_status q1 AND S_MASK) s1;
              (if a = A_ABORT \<or> a = A_FAIL then Some (DE_INVLDDRV, q1, s2)
               else if a = A_RETRY then rqblockio M cmd dp q1 s2
               else Some (SUCCESS, q1, s2))
            }
          else Some (SUCCESS, q1, s1))"

definition media_check ::
    "'w driver \<Rightarrow> 'w media_driver \<Rightarrow> (32 word \<Rightarrow> bool) \<Rightarrow> 32 word option \<Rightarrow> media_req \<Rightarrow> 'w diskio
     \<Rightarrow> ((int \<times> media_req \<times> 'w diskio) run) option" where
  "media_check E M internal dpp q s =
     (case dpp of
        None \<Rightarrow> returnR (DE_INVLDDRV, q, s)
      | Some dp \<Rightarrow> do {
          (ret, q1, s1) \<leftarrow> rqblockio M C_MEDIACHK dp q s;
          (if ret < SUCCESS then returnR (ret, q1, s1)
           else
             let code = m_retcode q1 OR dpb_flags (dpbs s1 dp); unit = scast (dpb_unit (dpbs s1 dp)) in
             if code = M_NOT_CHANGED then returnR (SUCCESS, q1, s1)
             else do {
               dirty \<leftarrow> (if code = M_DONT_KNOW then dirty_buffers unit s1 else Some False);
               (if dirty then returnR (SUCCESS, q1, s1)
                else do {
                  s2 \<leftarrow> setinvld unit s1;
                  (ret2, q2, s3) \<leftarrow> rqblockio M C_BLDBPB dp q1 s2;
                  (if ret2 < SUCCESS then returnR (ret2, q2, s3)
                   else bindR (bpb_to_dpb E (m_bpb q2) dp (bpb_nfsect (m_bpb q2) = 0 \<or> internal dp) s3)
                          (\<lambda>s4. returnR (SUCCESS, q2, s4)))
                })
             })
        })"

section \<open>Searching\<close>

text \<open>The test on the attributes: a search for the label alone, or one that includes the
  attributes given.\<close>

definition attr_wanted :: "8 word \<Rightarrow> 8 word \<Rightarrow> bool" where
  "attr_wanted srch a \<longleftrightarrow>
     (let m = srch AND NOT (D_RDONLY OR D_ARCHIVE OR D_DEVICE)
      in if m = D_VOLID then a AND D_VOLID \<noteq> 0
         else NOT m AND (D_DIR OR D_SYSTEM OR D_HIDDEN OR D_VOLID) AND a = 0)"

definition find_match :: "f_node \<Rightarrow> bool" where
  "find_match f \<longleftrightarrow> \<not> is_deleted f \<and> dir_attrib (f_dir f) AND D_LFN \<noteq> D_LFN
     \<and> fcmp_wild (dm_name_pat f) (dir_name (f_dir f)) 11 \<and> attr_wanted (dm_attr_srch f) (dir_attrib (f_dir f))"

text \<open>The entry found is the result; the search goes on behind it.\<close>

definition dos_findnext ::
    "'w driver \<Rightarrow> 'w media_driver \<Rightarrow> (32 word \<Rightarrow> bool) \<Rightarrow> f_node \<Rightarrow> media_req \<Rightarrow> 'w diskio
     \<Rightarrow> ((int \<times> dirent option \<times> f_node \<times> media_req \<times> 'w diskio) run) option" where
  "dos_findnext E M internal f q s =
     (let dpp = get_dpb (ucast (dm_drive f)) s; f0 = f\<lparr>f_dpb := (case dpp of None \<Rightarrow> 0 | Some dp \<Rightarrow> dp)\<rparr> in
      bindR (media_check E M internal dpp q s) (\<lambda>(rc, q1, s1).
        if rc < 0 then returnR (DE_NFILES, None, f0, q1, s1)
        else bindR (scan_dir E find_match (dir_init_fnode (dpbs s1 (f_dpb f0)) (dm_dircluster f0) f0) s1) (\<lambda>(r, f1, s2).
          if r = 1 then returnR (SUCCESS, Some (f_dir f1), f1\<lparr>dm_entry := dm_entry f1 + 1\<rparr>, q1, s2)
          else returnR (DE_NFILES, None, f1, q1, s2))))"

definition dos_findfirst ::
    "'w driver \<Rightarrow> 'w media_driver \<Rightarrow> (32 word \<Rightarrow> bool) \<Rightarrow> 16 word \<Rightarrow> 8 word list \<Rightarrow> f_node \<Rightarrow> media_req \<Rightarrow> 'w diskio
     \<Rightarrow> ((int \<times> dirent option \<times> f_node \<times> media_req \<times> 'w diskio) run) option" where
  "dos_findfirst E M internal attr name f q s =
     (if char_at 3 name = 0 then returnR (DE_NFILES, None, f, q, s)
      else bindR (split_path E name f s) (\<lambda>(ok, f1, s1).
        if \<not> ok then returnR (DE_PATHNOTFND, None, f1, q, s1)
        else
          let label_only = (attr AND NOT (ucast (D_RDONLY OR D_ARCHIVE OR D_DEVICE)) = ucast D_VOLID);
              f2 = (if label_only then dir_init_fnode (dpbs s1 (f_dpb f1)) 0 f1 else f1)
          in dos_findnext E M internal (f2\<lparr>dm_drive := char_at 0 name - 65, dm_attr_srch := ucast attr\<rparr>) q s1))"

end
