(* ===== verification/Dirs_Proofs.thy ===== *)
theory Dirs_Proofs
  imports Dirs Fileio_Write
begin

text \<open>
  Directories over a reliable driver: encoding of entries, what reading and writing an entry of
  the root directory does, and the loop of all searches as a search in the list of entries.
\<close>

section \<open>Entries as bytes\<close>

lemma getdirent_cong: "(\<And>i. a \<le> i \<Longrightarrow> i < a + 32 \<Longrightarrow> b i = b' i) \<Longrightarrow> getdirent b a = getdirent b' a"
  by (simp add: getdirent_def get16_def get32_def)

lemma dir_name_length [simp]: "length (dir_name (getdirent b a)) = 11"
  by (simp add: getdirent_def)

lemma put_name_other [simp]: "i < a \<or> a + 11 \<le> i \<Longrightarrow> put_name n a b i = b i"
  by (auto simp: put_name_def)

lemma put_name_nth [simp]: "i < 11 \<Longrightarrow> put_name n a b (a + i) = n ! i"
  by (simp add: put_name_def)

lemma putdirent_other: "i < a \<or> a + 32 \<le> i \<Longrightarrow> putdirent e a b i = b i"
  by (auto simp: putdirent_def Let_def)

lemma name_bytes: "length n = 11 \<Longrightarrow> (\<And>i. i < 11 \<Longrightarrow> b (a + i) = n ! i) \<Longrightarrow> map (\<lambda>i. b (a + i)) [0..<11] = n"
  by (rule nth_equalityI) simp_all

lemma getdirent_putdirent:
  assumes "length (dir_name e) = 11"
  shows "getdirent (putdirent e a b) a = e"
proof -
  have n: "map (\<lambda>i. putdirent e a b (a + i)) [0..<11] = dir_name e"
    by (rule name_bytes[OF assms]) (simp add: putdirent_def Let_def)
  then show ?thesis unfolding getdirent_def n
    by (simp add: putdirent_def Let_def)
qed

lemma getdirent_putdirent_other: "c + 32 \<le> a \<or> a + 32 \<le> c \<Longrightarrow> getdirent (putdirent e a b) c = getdirent b c"
  by (rule getdirent_cong) (auto simp: putdirent_other)

section \<open>What a raw entry reads as\<close>

definition raw_first :: "dirent \<Rightarrow> 8 word" where
  "raw_first e = dir_name e ! 0"

definition entry_char :: "dirent \<Rightarrow> 8 word" where
  "entry_char e =
     (let c = (if raw_first e = EXT_DELETED \<and> dir_crtimems e \<noteq> EXT_DELETED \<and> dir_crtimems e \<noteq> 0 then dir_crtimems e
               else raw_first e)
      in if c = SUBSTED_E5 then EXT_DELETED else c)"

definition entry_read :: "dirent \<Rightarrow> dirent" where
  "entry_read e = e\<lparr>dir_name := (dir_name e)[0 := entry_char e]\<rparr>"

lemma first_set [simp]: "dir_name (f_dir f) \<noteq> [] \<Longrightarrow> first_char (set_first c f) = c"
  by (simp add: first_char_def set_first_def nth_list_update)

lemma set_first_simps [simp]:
  "d_flags (set_first c f) = d_flags f" "dir_crtimems (f_dir (set_first c f)) = dir_crtimems (f_dir f)"
  "f_dir (set_first c f) = (f_dir f)\<lparr>dir_name := (dir_name (f_dir f))[0 := c]\<rparr>"
  by (simp_all add: set_first_def)

lemma dflag_simps:
  "(((x :: 16 word) OR DFLG_DELETED) AND NOT DFLG_DELETE_PEND) AND DFLG_DELETED \<noteq> 0"
  "(x AND NOT DFLG_DELETED) AND DFLG_DELETED = 0"
proof -
  have "bit (((x OR DFLG_DELETED) AND NOT DFLG_DELETE_PEND) AND DFLG_DELETED) 0"
    by (simp add: bit_simps DFLG_DELETED_def DFLG_DELETE_PEND_def)
  then show "((x OR DFLG_DELETED) AND NOT DFLG_DELETE_PEND) AND DFLG_DELETED \<noteq> 0" by (metis bit_0_eq bot_apply bot_bool_def)
  show "(x AND NOT DFLG_DELETED) AND DFLG_DELETED = 0" by (simp add: and.assoc)
qed

lemma swap_deleted_rd_eq:
  assumes "dir_name (f_dir f) \<noteq> []"
  shows "swap_deleted_rd f = (if raw_first (f_dir f) = EXT_DELETED then SET_RDELETED f else CLEAR_RDELETED f)\<lparr>f_dir := entry_read (f_dir f)\<rparr>"
    "is_deleted (swap_deleted_rd f) \<longleftrightarrow> raw_first (f_dir f) = EXT_DELETED"
    "first_char (swap_deleted_rd f) = entry_char (f_dir f)"
proof -
  have ne: "(0xe5 :: 8 word) \<noteq> 5" "(5 :: 8 word) \<noteq> 0xe5" by simp_all
  have n0: "(dir_name (f_dir f))[0 := dir_name (f_dir f) ! 0] = dir_name (f_dir f)" by simp
  show e: "swap_deleted_rd f = (if raw_first (f_dir f) = EXT_DELETED then SET_RDELETED f else CLEAR_RDELETED f)\<lparr>f_dir := entry_read (f_dir f)\<rparr>"
    using assms n0
    by (auto simp: swap_deleted_rd_def unsubst_def first_char_def raw_first_def entry_read_def entry_char_def Let_def
        SET_RDELETED_def CLEAR_RDELETED_def EXT_DELETED_def SUBSTED_E5_def set_first_def nth_list_update)
  show "is_deleted (swap_deleted_rd f) \<longleftrightarrow> raw_first (f_dir f) = EXT_DELETED"
    unfolding e by (simp add: is_deleted_def SET_RDELETED_def CLEAR_RDELETED_def dflag_simps)
  show "first_char (swap_deleted_rd f) = entry_char (f_dir f)"
    unfolding e using assms by (simp add: first_char_def entry_read_def nth_list_update)
qed

lemma entry_char_0: "entry_char e = 0 \<longleftrightarrow> raw_first e = 0"
  by (auto simp: entry_char_def Let_def EXT_DELETED_def SUBSTED_E5_def)

section \<open>The root directory\<close>

definition root_block :: "dpb \<Rightarrow> nat \<Rightarrow> block_id" where
  "root_block d k = (vol_unit d, of_nat k + ucast (dpb_dirstrt d))"

definition root_vol :: "block_id set \<Rightarrow> dpb \<Rightarrow> bool" where
  "root_vol V d \<longleftrightarrow> unat (dpb_dirents d) < 65535 \<and> (\<forall>i < unat (dpb_dirents d). root_block d (i div 16) \<in> V - fat_blocks d)"

definition root_entry :: "'w disk_reader \<Rightarrow> 'w diskio \<Rightarrow> 16 word list \<Rightarrow> 32 word \<Rightarrow> nat \<Rightarrow> dirent" where
  "root_entry rd s os dp i = getdirent (view 512 rd s os (root_block (dpbs s dp) (i div 16))) (i mod 16 * 32)"

lemma root_entry_quiet:
  "quiet rd V dp s os s' os' \<Longrightarrow> root_vol V (dpbs s dp) \<Longrightarrow> i < unat (dpb_dirents (dpbs s dp))
    \<Longrightarrow> root_entry rd s' os' dp i = root_entry rd s os dp i"
  by (simp add: quiet_def data_kept_def root_entry_def root_vol_def)

lemma root_entry_data:
  "data_kept rd V (dpbs s dp) s os s' os' \<Longrightarrow> root_vol V (dpbs s dp) \<Longrightarrow> i < unat (dpb_dirents (dpbs s dp))
    \<Longrightarrow> root_block (dpbs s' dp) = root_block (dpbs s dp) \<Longrightarrow> root_entry rd s' os' dp i = root_entry rd s os dp i"
  by (simp add: data_kept_def root_entry_def root_vol_def)

lemma dir_buffer_ok:
  assumes ok: "cache_ok n rd V s os" and x: "x \<in> set os" "b_valid (bufs s x)" and s': "s' = set_buf x dir_buffer s"
  shows "cache_ok n rd V s' os" "view n rd s' os = view n rd s os"
proof -
  have f: "b_valid (bufs s' x)" "b_dirty (bufs s' x) = b_dirty (bufs s x)" "\<not> b_fat (bufs s' x)"
    "buf_id (bufs s' x) = buf_id (bufs s x)" "b_buffer (bufs s' x) = b_buffer (bufs s x)"
    by (auto simp: s' dir_buffer_def flag_simps buf_id_def)
  have m: "b_fat (bufs s' x) \<longrightarrow> mirrors_ok V s' (bufs s' x)" using f(3) by simp
  have l: "same_links s s'" unfolding s' by (rule same_links_set_buf) (simp add: dir_buffer_def)
  have oth: "bufs s' y = bufs s y" if "y \<noteq> x" for y using that by (simp add: s')
  note P = poke_ok[OF ok x f(4,1) _ m oth l]
  show "cache_ok n rd V s' os" by (rule P(1)) (use f in \<open>simp_all add: s'\<close>)
  have "view n rd s' os = (view n rd s os)(buf_id (bufs s x) := sector n (b_buffer (bufs s' x)))"
    by (rule P(2)) (use f in \<open>simp_all add: s'\<close>)
  then show "view n rd s' os = view n rd s os" unfolding f(5) using view_hit[OF ok x] by (metis fun_upd_triv)
qed

definition entry_node :: "dpb \<Rightarrow> nat \<Rightarrow> dirent \<Rightarrow> f_node \<Rightarrow> f_node" where
  "entry_node d i e f = swap_deleted_rd
     (f\<lparr>f_dirsector := snd (root_block d (i div 16)), f_diridx := of_nat (i mod 16), f_dir := e\<rparr>)"

lemma entry_node_simps [simp]:
  assumes "length (dir_name e) = 11"
  shows "f_dir (entry_node d i e f) = entry_read e" "is_deleted (entry_node d i e f) \<longleftrightarrow> raw_first e = EXT_DELETED"
    "first_char (entry_node d i e f) = entry_char e" "f_dirsector (entry_node d i e f) = snd (root_block d (i div 16))"
    "f_diridx (entry_node d i e f) = of_nat (i mod 16)" "f_dpb (entry_node d i e f) = f_dpb f"
    "dm_entry (entry_node d i e f) = dm_entry f" "dm_dircluster (entry_node d i e f) = dm_dircluster f"
    "dm_name_pat (entry_node d i e f) = dm_name_pat f" "dm_attr_srch (entry_node d i e f) = dm_attr_srch f"
    "f_sft_idx (entry_node d i e f) = f_sft_idx f" "f_flags (entry_node d i e f) = f_flags f"
proof -
  have ne: "dir_name e \<noteq> []" using assms by auto
  then show "is_deleted (entry_node d i e f) \<longleftrightarrow> raw_first e = EXT_DELETED" "first_char (entry_node d i e f) = entry_char e"
    by (simp_all add: entry_node_def swap_deleted_rd_eq(2,3))
  show "f_dir (entry_node d i e f) = entry_read e" "f_dirsector (entry_node d i e f) = snd (root_block d (i div 16))"
    "f_diridx (entry_node d i e f) = of_nat (i mod 16)" "f_dpb (entry_node d i e f) = f_dpb f"
    "dm_entry (entry_node d i e f) = dm_entry f" "dm_dircluster (entry_node d i e f) = dm_dircluster f"
    "dm_name_pat (entry_node d i e f) = dm_name_pat f" "dm_attr_srch (entry_node d i e f) = dm_attr_srch f"
    "f_sft_idx (entry_node d i e f) = f_sft_idx f" "f_flags (entry_node d i e f) = f_flags f"
    using ne by (simp_all add: entry_node_def swap_deleted_rd_eq(1) SET_RDELETED_def CLEAR_RDELETED_def)
qed

lemma root_entry_name [simp]: "length (dir_name (root_entry rd s os dp i)) = 11"
  by (simp add: root_entry_def)

lemma dir_read_root:
  assumes rel: "reliable E 512 rd" and ok: "fat_ok rd V dp s os" and rv: "root_vol V (dpbs s dp)"
    and f: "f_dpb f = dp" "dm_dircluster f = 0" and i: "i = unat (dm_entry f)" "i < unat (dpb_dirents (dpbs s dp))"
    and e: "e = root_entry rd s os dp i"
  shows "\<exists>s' os'. dir_read E f s = Some (Inr (if raw_first e \<noteq> 0 then 1 else 0, entry_node (dpbs s dp) i e f, s'))
     \<and> quiet rd V dp s os s' os'"
proof -
  let ?d = "dpbs s dp"
  have co: "cache_ok 512 rd V s os" and len: "2 \<le> length os" and fv: "fat_vol V ?d" using ok by (simp_all add: fat_ok_def)
  have sec: "unat (dpb_secsize ?d) = 512" using fv by (simp add: fat_vol_def)
  define blk where "blk = snd (root_block ?d (i div 16))"
  have rb: "root_block ?d (i div 16) = (vol_unit ?d, blk)" by (simp add: blk_def root_block_def)
  have V: "(vol_unit ?d, blk) \<in> V" using rv i(2) rb by (auto simp: root_vol_def)
  obtain x s1 where g: "getblk E blk (vol_unit ?d) False s = Some (Some x, s1)" "x \<in> set os"
     "cache_ok 512 rd V s1 (x # remove1 x os)" "\<forall>v \<in> V. view 512 rd s1 (x # remove1 x os) v = view 512 rd s os v"
     "b_valid (bufs s1 x)" "buf_id (bufs s1 x) = (vol_unit ?d, blk)" "dpbs s1 = dpbs s"
    using getblk_ok[OF rel co V] by blast
  define os1 where "os1 = x # remove1 x os"
  have x1: "x \<in> set os1" by (simp add: os1_def)
  have len1: "2 \<le> length os1" using len g(2) by (simp add: os1_def length_remove1)
  define s2 where "s2 = set_buf x dir_buffer s1"
  note D = dir_buffer_ok[OF g(3)[folded os1_def] x1 g(5) s2_def]
  have q: "quiet rd V dp s os s2 os1"
    by (rule quiet_view) (use D g fv len1 kcore_getblk[OF g(1)] in \<open>simp_all add: fat_ok_def os1_def s2_def\<close>)
  have buf: "sector 512 (b_buffer (bufs s1 x)) = view 512 rd s os (vol_unit ?d, blk)"
    using view_hit[OF g(3)[folded os1_def] x1 g(5)] g(4,6) V by (simp add: os1_def)
  have u: "unat (of_nat (i mod 16) :: 8 word) = i mod 16"
    by (simp add: unsigned_of_nat take_bit_eq_mod)
  have lt: "i mod 16 < 16" by simp
  have dir: "getdirent (b_buffer (bufs s1 x)) (i mod 16 * 32) = e"
    unfolding e root_entry_def rb buf[symmetric] by (rule getdirent_cong) (use lt in \<open>simp add: sector_nth\<close>)
  define f1 where "f1 = f\<lparr>f_dirsector := blk\<rparr>"
  have "dir_read E f s = read_entry E i f1 s"
    using i f rv sec by (simp add: dir_read_def Let_def root_vol_def f1_def blk_def root_block_def)
  also have "\<dots> = Some (Inr (if first_char (entry_node ?d i e f) \<noteq> 0 then 1 else 0, entry_node ?d i e f, s2))"
    using g(1) sec f(1) u dir by (simp add: read_entry_def getblock_def f1_def Let_def entry_node_def s2_def blk_def[symmetric])
  also have "first_char (entry_node ?d i e f) \<noteq> 0 \<longleftrightarrow> raw_first e \<noteq> 0"
    by (simp add: e entry_char_0)
  finally show ?thesis using q by (intro exI[of _ s2] exI[of _ os1]) simp
qed

lemma dir_read_root_end:
  assumes "f_dpb f = dp" "dm_dircluster f = 0" "unat (dpb_dirents (dpbs s dp)) \<le> unat (dm_entry f)"
  shows "dir_read E f s = Some (Inr (DE_SEEK, f, s))"
  using assms by (simp add: dir_read_def Let_def)

section \<open>A search is a search in the list of entries\<close>

fun dir_search :: "(dirent \<Rightarrow> bool) \<Rightarrow> nat \<Rightarrow> dirent list \<Rightarrow> int \<times> nat" where
  "dir_search Q i [] = (DE_SEEK, i)"
| "dir_search Q i (e # es) = (if raw_first e = 0 then (0, i) else if Q e then (1, i) else dir_search Q (Suc i) es)"

definition same_search :: "f_node \<Rightarrow> f_node \<Rightarrow> bool" where
  "same_search f g \<longleftrightarrow> f_dpb g = f_dpb f \<and> dm_name_pat g = dm_name_pat f \<and> dm_attr_srch g = dm_attr_srch f
     \<and> dm_dircluster g = dm_dircluster f \<and> f_sft_idx g = f_sft_idx f \<and> f_flags g = f_flags f
     \<and> (d_flags f AND DFLG_DELETE_PEND = 0 \<longrightarrow> d_flags g AND DFLG_DELETE_PEND = 0)"

lemma same_search_refl [simp]: "same_search f f"
  by (simp add: same_search_def)

lemma same_search_trans: "same_search f g \<Longrightarrow> same_search g h \<Longrightarrow> same_search f h"
  by (simp add: same_search_def)

lemma same_search_entry [simp]: "same_search f (f\<lparr>dm_entry := x\<rparr>)"
  by (simp add: same_search_def)

lemma pend_simps:
  "(x :: 16 word) AND DFLG_DELETE_PEND = 0 \<Longrightarrow> (x AND NOT DFLG_DELETED) AND DFLG_DELETE_PEND = 0"
  "((x OR DFLG_DELETED) AND NOT DFLG_DELETE_PEND) AND DFLG_DELETE_PEND = 0"
  by (simp_all add: and.assoc and.commute[of "NOT DFLG_DELETED"]) (simp_all add: and.assoc[symmetric])

lemma same_search_node:
  assumes "length (dir_name e) = 11"
  shows "same_search f (entry_node d i e f)"
proof -
  have ne: "dir_name e \<noteq> []" using assms by auto
  then have "d_flags (entry_node d i e f) AND DFLG_DELETE_PEND = 0" if "d_flags f AND DFLG_DELETE_PEND = 0"
    using that by (simp add: entry_node_def swap_deleted_rd_eq(1) SET_RDELETED_def CLEAR_RDELETED_def pend_simps)
  then show ?thesis using assms by (simp add: same_search_def)
qed

definition found_at :: "dpb \<Rightarrow> nat \<Rightarrow> dirent \<Rightarrow> f_node \<Rightarrow> f_node \<Rightarrow> bool" where
  "found_at d j e f f' \<longleftrightarrow> (\<exists>g. same_search f g \<and> dm_entry g = of_nat j \<and> f' = entry_node d j e g)"

lemma scan_root:
  assumes rel: "reliable E 512 rd" and d: "d = dpbs s0 dp" and rv: "root_vol V d" and n: "n = unat (dpb_dirents d)"
    and f0: "f_dpb f0 = dp" "dm_dircluster f0 = 0"
    and PQ: "\<And>g i e. same_search f0 g \<Longrightarrow> length (dir_name e) = 11 \<Longrightarrow> P (entry_node d i e g) = Q e"
    and es: "\<And>i. es i = root_entry rd s0 os0 dp i"
  shows "quiet rd V dp s0 os0 s os \<Longrightarrow> fat_ok rd V dp s0 os0 \<Longrightarrow> same_search f0 f \<Longrightarrow> i = unat (dm_entry f) \<Longrightarrow> i \<le> n \<Longrightarrow>
    dir_search Q i (map es [i..<n]) = (r, j) \<Longrightarrow>
    \<exists>f' s' os'. scan_dir E P f s = Some (Inr (r, f', s')) \<and> quiet rd V dp s0 os0 s' os' \<and> same_search f0 f'
      \<and> dm_entry f' = of_nat j \<and> j \<le> n \<and> (r \<noteq> DE_SEEK \<longrightarrow> j < n \<and> found_at d j (es j) f0 f')"
proof (induction "n - i" arbitrary: i f s os)
  case 0
  then have "n = i" by simp
  moreover have "f_dpb f = dp" "dm_dircluster f = 0" using 0(4) f0 by (simp_all add: same_search_def)
  moreover have ds: "dpbs s dp = d" using 0(2) d by (simp add: quiet_def)
  ultimately have "dir_read E f s = Some (Inr (DE_SEEK, f, s))"
    using 0(5) n dir_read_root_end[of f dp s] by simp
  then have "scan_dir E P f s = Some (Inr (DE_SEEK, f, s))" by (subst scan_dir.simps) (simp add: DE_SEEK_def)
  moreover have "r = DE_SEEK" "j = i" using 0(7) \<open>n = i\<close> by simp_all
  moreover have "dm_entry f = of_nat i" using 0(5) by simp
  ultimately show ?case using 0(2,4,6) by blast
next
  case (Suc m)
  have i: "i < n" using Suc.hyps(2) by simp
  have fd: "f_dpb f = dp" "dm_dircluster f = 0" using Suc.prems(3) f0 by (simp_all add: same_search_def)
  have ok: "fat_ok rd V dp s os" and ds: "dpbs s dp = d" using Suc.prems(1) d by (simp_all add: quiet_def)
  have e: "es i = root_entry rd s os dp i"
    using root_entry_quiet[OF Suc.prems(1)] rv i n d es by simp
  obtain s1 os1 where R: "dir_read E f s = Some (Inr (if raw_first (es i) \<noteq> 0 then 1 else 0, entry_node d i (es i) f, s1))"
      "quiet rd V dp s os s1 os1"
    using dir_read_root[OF rel ok _ fd Suc.prems(4) _ e] rv i n ds by auto
  have len: "length (dir_name (es i)) = 11" by (simp add: es)
  have q: "quiet rd V dp s0 os0 s1 os1" using quiet_trans[OF Suc.prems(1) R(2)] .
  have sn: "same_search f0 (entry_node d i (es i) f)"
    using same_search_trans[OF Suc.prems(3) same_search_node[OF len]] .
  have fe: "dm_entry f = of_nat i" using Suc.prems(4) by simp
  have fa: "found_at d i (es i) f0 (entry_node d i (es i) f)" unfolding found_at_def using Suc.prems(3) fe by blast
  have up: "[i..<n] = i # [Suc i..<n]" using i by (simp add: upt_conv_Cons)
  show ?case
  proof (cases "raw_first (es i) = 0 \<or> Q (es i)")
    case True
    have "scan_dir E P f s = Some (Inr (if raw_first (es i) \<noteq> 0 then 1 else 0, entry_node d i (es i) f, s1))"
      using R(1) True PQ[OF Suc.prems(3) len] by (subst scan_dir.simps) auto
    moreover have "r = (if raw_first (es i) \<noteq> 0 then 1 else 0)" "j = i" using Suc.prems(6) True unfolding up by (auto split: if_splits)
    ultimately show ?thesis using q sn fa fe i len
      by (intro exI[of _ "entry_node d i (es i) f"] exI[of _ s1] exI[of _ os1]) simp
  next
    case False
    define f1 where "f1 = (entry_node d i (es i) f)\<lparr>dm_entry := of_nat (Suc i)\<rparr>"
    have st: "scan_dir E P f s = scan_dir E P f1 s1"
      using R(1) False PQ[OF Suc.prems(3) len] fe len by (subst scan_dir.simps) (simp add: f1_def add.commute)
    have n16: "n < 65536" using rv n by (simp add: root_vol_def)
    have i1: "Suc i = unat (dm_entry f1)" using i n16 by (simp add: f1_def unsigned_of_nat take_bit_eq_mod del: of_nat_Suc)
    have ss: "same_search f0 f1" unfolding f1_def using same_search_trans[OF sn same_search_entry] .
    have hyp: "m = n - Suc i" using Suc.hyps(2) by simp
    have dsn: "dir_search Q (Suc i) (map es [Suc i..<n]) = (r, j)" using Suc.prems(6) False unfolding up by simp
    show ?thesis using Suc.hyps(1)[OF hyp q Suc.prems(2) ss i1 _ dsn] i st by simp
  qed
qed

end
