(* ===== verification/Dirs_Write.thy ===== *)
theory Dirs_Write
  imports Dirs_Proofs
begin

text \<open>
  Writing a directory entry: the buffers of the unit are flushed and stay valid, and the entry
  of the root directory becomes what was written while every other entry stays.
\<close>

section \<open>Flushing the buffers of a unit\<close>

definition flush_unit :: "'w driver \<Rightarrow> 16 word \<Rightarrow> 16 word \<Rightarrow> bool \<Rightarrow> 'w diskio \<Rightarrow> (unit + bool \<times> 'w diskio) option" where
  "flush_unit E d bp ok s =
     (if scast (b_unit (bufs s bp)) = d then do {
        (ok1, s1) \<leftarrow> flush1 E bp s;
        Some (Inr (ok \<and> ok1, s1))
      } else Some (Inr (ok, s)))"

lemma flush_unit_links: "keeps_links (flush_unit E d)"
  using flush1_same_links
  by (fastforce simp: keeps_links_def flush_unit_def same_links_def split: Option.bind_splits if_splits)

lemma flush_unit_list:
  assumes rel: "reliable E n rd"
  shows "cache_ok n rd V s os \<Longrightarrow> set xs \<subseteq> set os \<Longrightarrow>
    \<exists>s'. list_do (flush_unit E d) xs a s = Some (Inr (a, s')) \<and> cache_ok n rd V s' os
      \<and> (\<forall>v \<in> V. view n rd s' os v = view n rd s os v) \<and> dpbs s' = dpbs s \<and> kcore s' = kcore s
      \<and> (\<forall>y. buf_id (bufs s' y) = buf_id (bufs s y))
      \<and> (\<forall>y. b_dirty (bufs s' y) \<longrightarrow> b_dirty (bufs s y) \<and> (y \<in> set xs \<longrightarrow> fst (buf_id (bufs s y)) \<noteq> d))"
proof (induction xs arbitrary: a s)
  case (Cons x xs)
  have x: "x \<in> set os" "set xs \<subseteq> set os" using Cons.prems(2) by simp_all
  show ?case
  proof (cases "fst (buf_id (bufs s x)) = d")
    case True
    obtain s1 where s1: "flush1 E x s = Some (True, s1)" "cache_ok n rd V s1 os"
       "\<forall>v \<in> V. view n rd s1 os v = view n rd s os v" "bufs s1 = flagged x (\<lambda>g. g AND NOT BFR_DIRTY) (bufs s)"
       "dpbs s1 = dpbs s"
      using flush1_ok[OF rel Cons.prems(1) x(1)] by blast
    have b: "buf_id (bufs s1 y) = buf_id (bufs s y)" "b_dirty (bufs s1 y) \<longleftrightarrow> y \<noteq> x \<and> b_dirty (bufs s y)" for y
      by (auto simp: s1(4) flagged_def buf_id_def flag_simps)
    have st: "list_do (flush_unit E d) (x # xs) a s = list_do (flush_unit E d) xs a s1"
      using True s1(1) by (simp add: flush_unit_def[of E d x] buf_id_def)
    show ?thesis unfolding st using Cons.IH[OF s1(2) x(2), of a] s1(3,5) kcore_flush1[OF s1(1)] b by auto
  next
    case False
    have st: "list_do (flush_unit E d) (x # xs) a s = list_do (flush_unit E d) xs a s"
      using False by (simp add: flush_unit_def[of E d x] buf_id_def)
    show ?thesis unfolding st using Cons.IH[OF Cons.prems(1) x(2), of a] False by auto
  qed
qed simp

lemma flush_buffers_ok:
  assumes rel: "reliable E n rd" and ok: "cache_ok n rd V s os"
  shows "\<exists>s'. flush_buffers E d s = Some (True, s') \<and> cache_ok n rd V s' os
      \<and> (\<forall>v \<in> V. view n rd s' os v = view n rd s os v) \<and> dpbs s' = dpbs s \<and> kcore s' = kcore s
      \<and> (\<forall>v \<in> V. fst v = d \<longrightarrow> disk n rd s' v = view n rd s' os v)"
proof -
  obtain s' where s': "list_do (flush_unit E d) os True s = Some (Inr (True, s'))" "cache_ok n rd V s' os"
     "\<forall>v \<in> V. view n rd s' os v = view n rd s os v" "dpbs s' = dpbs s" "kcore s' = kcore s"
     "\<forall>y. buf_id (bufs s' y) = buf_id (bufs s y)"
     "\<forall>y. b_dirty (bufs s' y) \<longrightarrow> b_dirty (bufs s y) \<and> (y \<in> set os \<longrightarrow> fst (buf_id (bufs s y)) \<noteq> d)"
    using flush_unit_list[OF rel ok order_refl] by blast
  have l: "lru s os" using ok by (simp add: cache_ok_def)
  have body: "(\<lambda>bp ok s. if scast (b_unit (bufs s bp)) = d then do {
         (ok1, s1) \<leftarrow> flush1 E bp s;
         Some (Inr (ok \<and> ok1, s1))
       } else Some (Inr (ok, s) :: unit + bool \<times> 'a diskio)) = flush_unit E d"
    by (simp add: fun_eq_iff flush_unit_def)
  have "flush_buffers E d s = Some (True, s')"
    unfolding flush_buffers_def body ring_do_list[OF flush_unit_links l] s'(1) by (simp add: ring_state_def)
  moreover have "disk n rd s' v = view n rd s' os v" if v: "v \<in> V" "fst v = d" for v
  proof (cases "\<exists>y \<in> set os. b_valid (bufs s' y) \<and> buf_id (bufs s' y) = v")
    case True
    then obtain y where y: "y \<in> set os" "b_valid (bufs s' y)" "buf_id (bufs s' y) = v" by blast
    then have "\<not> b_dirty (bufs s' y)" using s'(6,7) v(2) by metis
    moreover have "buffer_ok n rd V s' (bufs s' y)" using s'(2) y(1) by (simp add: cache_ok_def)
    ultimately show ?thesis using view_hit[OF s'(2) y(1,2)] y(2,3) by (simp add: buffer_ok_def)
  next
    case False
    then show ?thesis using view_miss[of os s' v] by auto
  qed
  ultimately show ?thesis using s'(2-5) by blast
qed

section \<open>Writing an entry of the root directory\<close>

lemma root_block_inj:
  assumes "k < 65536" "j < 65536"
  shows "root_block d k = root_block d j \<longleftrightarrow> k = j"
proof
  assume "root_block d k = root_block d j"
  then have "(of_nat k :: 32 word) = of_nat j" by (simp add: root_block_def)
  then have "unat (of_nat k :: 32 word) = unat (of_nat j :: 32 word)" by simp
  then show "k = j" using assms unat_small by simp
qed simp

text \<open>Entry \<open>i\<close> is \<open>e\<close>; nothing else has changed, and the directory is on the disk.\<close>

definition entry_set ::
    "'w disk_reader \<Rightarrow> block_id set \<Rightarrow> 32 word \<Rightarrow> nat \<Rightarrow> dirent \<Rightarrow> 'w diskio \<Rightarrow> 16 word list \<Rightarrow> 'w diskio \<Rightarrow> 16 word list \<Rightarrow> bool" where
  "entry_set rd V dp i e s os s' os' \<longleftrightarrow> fat_ok rd V dp s' os' \<and> fat_bytes rd s' os' dp = fat_bytes rd s os dp
     \<and> dpbs s' = dpbs s \<and> kcore s' = kcore s
     \<and> (\<forall>j < unat (dpb_dirents (dpbs s dp)). root_entry rd s' os' dp j = (if j = i then e else root_entry rd s os dp j))
     \<and> (\<forall>v \<in> V - {root_block (dpbs s dp) (i div 16)}. view 512 rd s' os' v = view 512 rd s os v)
     \<and> (\<forall>v \<in> V. fst v = vol_unit (dpbs s dp) \<longrightarrow> disk 512 rd s' v = view 512 rd s' os' v)"

text \<open>The sector of the entry is fetched, the entry is put into it and the buffer is marked.\<close>

definition put_entry :: "dirent \<Rightarrow> nat \<Rightarrow> buffer \<Rightarrow> buffer" where
  "put_entry e a b = b\<lparr>b_buffer := putdirent e a (b_buffer b),
     b_flag := (b_flag b AND NOT (BFR_DATA OR BFR_FAT)) OR (BFR_DIR OR BFR_DIRTY OR BFR_VALID)\<rparr>"

lemma put_entry_ok:
  assumes ok: "cache_ok 512 rd V s os" and x: "x \<in> set os" "b_valid (bufs s x)"
    and s': "s' = set_buf x (put_entry e a) s"
  shows "cache_ok 512 rd V s' os"
    "view 512 rd s' os = (view 512 rd s os)(buf_id (bufs s x) := sector 512 (putdirent e a (b_buffer (bufs s x))))"
proof -
  have f: "b_valid (bufs s' x)" "b_dirty (bufs s' x)" "\<not> b_fat (bufs s' x)" "buf_id (bufs s' x) = buf_id (bufs s x)"
    "b_buffer (bufs s' x) = putdirent e a (b_buffer (bufs s x))"
    by (simp_all add: s' put_entry_def flag_simps buf_id_def)
  have m: "b_fat (bufs s' x) \<longrightarrow> mirrors_ok V s' (bufs s' x)" using f(3) by simp
  have l: "same_links s s'" unfolding s' by (rule same_links_set_buf) (simp add: put_entry_def)
  have oth: "bufs s' y = bufs s y" if "y \<noteq> x" for y using that by (simp add: s')
  note P = poke_ok[OF ok x f(4,1) _ m oth l]
  show "cache_ok 512 rd V s' os" by (rule P(1)) (use f in \<open>simp_all add: s'\<close>)
  have "view 512 rd s' os = (view 512 rd s os)(buf_id (bufs s x) := sector 512 (b_buffer (bufs s' x)))"
    by (rule P(2)) (use f in \<open>simp_all add: s'\<close>)
  then show "view 512 rd s' os = (view 512 rd s os)(buf_id (bufs s x) := sector 512 (putdirent e a (b_buffer (bufs s x))))"
    unfolding f(5) .
qed

lemma slots_apart: "p \<noteq> q \<Longrightarrow> p * 32 + 32 \<le> q * 32 \<or> q * 32 + 32 \<le> p * (32 :: nat)"
  by arith

lemma getdirent_sector: "a + 32 \<le> 512 \<Longrightarrow> getdirent (sector 512 b) a = getdirent b a"
  by (rule getdirent_cong) (simp add: sector_nth)

text \<open>The new sector as seen entry by entry.\<close>

lemma root_entry_poke:
  assumes i: "i < n" "j < n" "n < 65536" and e: "length (dir_name e) = 11"
    and v: "v' = v(root_block d (i div 16) := sector 512 (putdirent e (i mod 16 * 32) (v (root_block d (i div 16)))))"
  shows "getdirent (v' (root_block d (j div 16))) (j mod 16 * 32)
    = (if j = i then e else getdirent (v (root_block d (j div 16))) (j mod 16 * 32))"
proof (cases "j div 16 = i div 16")
  case True
  have b: "j mod 16 * 32 + 32 \<le> 512" using slots_apart[of "j mod 16" 16] mod_less_divisor[of 16 j] by simp
  have ji: "j = i \<longleftrightarrow> j mod 16 = i mod 16" using True by (metis mult_div_mod_eq)
  have ap: "j mod 16 * 32 + 32 \<le> i mod 16 * 32 \<or> i mod 16 * 32 + 32 \<le> j mod 16 * 32" if "j \<noteq> i"
    using slots_apart[of "j mod 16" "i mod 16"] that ji by blast
  show ?thesis
  proof (cases "j = i")
    case True
    then show ?thesis using b by (simp add: v getdirent_sector getdirent_putdirent e)
  next
    case False
    then show ?thesis using \<open>j div 16 = i div 16\<close> b ap by (simp add: v getdirent_sector getdirent_putdirent_other)
  qed
next
  case False
  have "j div 16 < 65536" "i div 16 < 65536" using i div_le_dividend[of j 16] div_le_dividend[of i 16] by linarith+
  then have "root_block d (j div 16) \<noteq> root_block d (i div 16)" using False root_block_inj by blast
  then show ?thesis using False by (auto simp: v)
qed

text \<open>An f-node that stands on entry \<open>i\<close> of the root directory.\<close>

definition on_root :: "32 word \<Rightarrow> dpb \<Rightarrow> nat \<Rightarrow> f_node \<Rightarrow> bool" where
  "on_root dp d i f \<longleftrightarrow> f_dpb f = dp \<and> i < unat (dpb_dirents d) \<and> f_dirsector f = snd (root_block d (i div 16))
     \<and> f_diridx f = of_nat (i mod 16) \<and> length (dir_name (f_dir f)) = 11"

lemma swap_wr_simps:
  assumes "swap_deleted_wr f = Some g" "length (dir_name (f_dir f)) = 11"
  shows "f_dpb g = f_dpb f" "f_dirsector g = f_dirsector f" "f_diridx g = f_diridx f" "length (dir_name (f_dir g)) = 11"
  using assms by (auto simp: swap_deleted_wr_def Let_def set_first_def split: if_splits)

lemma dir_write_root:
  assumes rel: "reliable E 512 rd" and ok: "fat_ok rd V dp s os" and rv: "root_vol V (dpbs s dp)"
    and f: "on_root dp (dpbs s dp) i f" and sw: "swap_deleted_wr f = Some g"
  shows "\<exists>s' os'. dir_write E f s = Some (True, unswap_deleted_wr g, s') \<and> entry_set rd V dp i (f_dir g) s os s' os'"
proof -
  let ?d = "dpbs s dp"
  define blk where "blk = snd (root_block ?d (i div 16))"
  have fd: "f_dpb f = dp" "i < unat (dpb_dirents ?d)" "f_dirsector f = blk" "f_diridx f = of_nat (i mod 16)"
    "length (dir_name (f_dir f)) = 11" using f by (simp_all add: on_root_def blk_def)
  note g = swap_wr_simps[OF sw fd(5)]
  have co: "cache_ok 512 rd V s os" and len: "2 \<le> length os" and fv: "fat_vol V ?d" using ok by (simp_all add: fat_ok_def)
  have rb: "root_block ?d (i div 16) = (vol_unit ?d, blk)" by (simp add: blk_def root_block_def)
  have V: "(vol_unit ?d, blk) \<in> V" "(vol_unit ?d, blk) \<notin> fat_blocks ?d" using rv fd(2) rb by (auto simp: root_vol_def)
  obtain x s1 where b: "getblk E blk (vol_unit ?d) False s = Some (Some x, s1)" "x \<in> set os"
     "cache_ok 512 rd V s1 (x # remove1 x os)" "\<forall>v \<in> V. view 512 rd s1 (x # remove1 x os) v = view 512 rd s os v"
     "b_valid (bufs s1 x)" "buf_id (bufs s1 x) = (vol_unit ?d, blk)" "dpbs s1 = dpbs s"
    using getblk_ok[OF rel co V(1)] by blast
  define os1 where "os1 = x # remove1 x os"
  have x1: "x \<in> set os1" by (simp add: os1_def)
  have len1: "2 \<le> length os1" using len b(2) by (simp add: os1_def length_remove1)
  define a where "a = i mod 16 * 32"
  define s2 where "s2 = set_buf x (put_entry (f_dir g) a) s1"
  note P = put_entry_ok[OF b(3)[folded os1_def] x1 b(5) s2_def]
  obtain s3 where F: "flush_buffers E (vol_unit ?d) s2 = Some (True, s3)" "cache_ok 512 rd V s3 os1"
     "\<forall>v \<in> V. view 512 rd s3 os1 v = view 512 rd s2 os1 v" "dpbs s3 = dpbs s2" "kcore s3 = kcore s2"
     "\<forall>v \<in> V. fst v = vol_unit ?d \<longrightarrow> disk 512 rd s3 v = view 512 rd s3 os1 v"
    using flush_buffers_ok[OF rel P(1)] by blast
  have u: "unat (of_nat (i mod 16) :: 8 word) = i mod 16" by (simp add: unsigned_of_nat take_bit_eq_mod)
  have "set_buf x (\<lambda>b. b\<lparr>b_buffer := putdirent (f_dir g) a (b_buffer (bufs s1 x)),
           b_flag := (b_flag b AND NOT (BFR_DATA OR BFR_FAT)) OR (BFR_DIR OR BFR_DIRTY OR BFR_VALID)\<rparr>) s1 = s2"
    by (simp add: s2_def set_buf_def put_entry_def)
  then have run: "dir_write E f s = Some (True, unswap_deleted_wr g, s3)"
    using b(1) sw F(1) g(3) fd u
    by (simp add: dir_write_def dir_write_update_def getblock_def a_def[symmetric] Let_def)
  have kd: "kcore s3 = kcore s" "dpbs s3 = dpbs s" using F(4,5) kcore_getblk[OF b(1)] b(7) by (simp_all add: s2_def)
  have v0: "sector 512 (b_buffer (bufs s1 x)) = view 512 rd s os (vol_unit ?d, blk)"
    using view_hit[OF b(3)[folded os1_def] x1 b(5)] b(4,6) V by (simp add: os1_def)
  have vw: "view 512 rd s3 os1 v = ((view 512 rd s os)(root_block ?d (i div 16) :=
      sector 512 (putdirent (f_dir g) a (view 512 rd s os (root_block ?d (i div 16)))))) v" if v: "v \<in> V" for v
  proof -
    have "sector 512 (putdirent (f_dir g) a (b_buffer (bufs s1 x)))
        = sector 512 (putdirent (f_dir g) a (sector 512 (b_buffer (bufs s1 x))))"
      by (auto simp: sector_def fun_eq_iff putdirent_def put_name_def put16_def put32_def Let_def)
    then show ?thesis using v F(3) P(2) b(4,6) v0 rb by (simp add: os1_def)
  qed
  have rt: "root_entry rd s3 os1 dp j = (if j = i then f_dir g else root_entry rd s os dp j)"
    if j: "j < unat (dpb_dirents ?d)" for j
  proof -
    have "root_block ?d (j div 16) \<in> V" using rv j by (simp add: root_vol_def)
    moreover have "unat (dpb_dirents ?d) < 65536" using rv by (simp add: root_vol_def)
    ultimately show ?thesis
      using root_entry_poke[where d = ?d and v = "view 512 rd s os", OF fd(2) j _ g(4) refl] vw
      by (simp add: root_entry_def kd a_def)
  qed
  have out: "\<forall>v \<in> V - {root_block ?d (i div 16)}. view 512 rd s3 os1 v = view 512 rd s os v" using vw by auto
  have fb: "fat_bytes rd s3 os1 dp = fat_bytes rd s os dp"
  proof
    fix k
    have "(vol_unit ?d, fat_sector ?d (k div 512)) \<in> fat_blocks ?d \<inter> V" if "k < fat_len ?d"
      using that fv by (auto simp: fat_blocks_def fat_vol_def fat_len_def)
    then have "view 512 rd s3 os1 (vol_unit ?d, fat_sector ?d (k div 512)) = view 512 rd s os (vol_unit ?d, fat_sector ?d (k div 512))"
      if "k < fat_len ?d" using that out V(2) rb by auto
    then show "fat_bytes rd s3 os1 dp k = fat_bytes rd s os dp k" by (simp add: fat_bytes_def kd)
  qed
  have "entry_set rd V dp i (f_dir g) s os s3 os1"
    unfolding entry_set_def using F(2,6) len1 fv fb kd rt out by (simp add: fat_ok_def)
  then show ?thesis using run by blast
qed

text \<open>A name that begins with 05h is refused after the sector has been fetched.\<close>

lemma dir_write_refused:
  assumes rel: "reliable E 512 rd" and ok: "fat_ok rd V dp s os" and rv: "root_vol V (dpbs s dp)"
    and f: "on_root dp (dpbs s dp) i f" and c: "first_char f = SUBSTED_E5"
  shows "\<exists>s' os'. dir_write E f s = Some (False, f, s') \<and> quiet rd V dp s os s' os'"
proof -
  let ?d = "dpbs s dp"
  define blk where "blk = snd (root_block ?d (i div 16))"
  have fd: "f_dpb f = dp" "i < unat (dpb_dirents ?d)" "f_dirsector f = blk" using f by (simp_all add: on_root_def blk_def)
  have co: "cache_ok 512 rd V s os" and len: "2 \<le> length os" and fv: "fat_vol V ?d" using ok by (simp_all add: fat_ok_def)
  have rb: "root_block ?d (i div 16) = (vol_unit ?d, blk)" by (simp add: blk_def root_block_def)
  have V: "(vol_unit ?d, blk) \<in> V" using rv fd(2) rb by (auto simp: root_vol_def)
  obtain x s1 where b: "getblk E blk (vol_unit ?d) False s = Some (Some x, s1)" "x \<in> set os"
     "cache_ok 512 rd V s1 (x # remove1 x os)" "\<forall>v \<in> V. view 512 rd s1 (x # remove1 x os) v = view 512 rd s os v"
     "dpbs s1 = dpbs s"
    using getblk_ok[OF rel co V] by blast
  have len1: "2 \<le> length (x # remove1 x os)" using len b(2) by (simp add: length_remove1)
  have q: "quiet rd V dp s os s1 (x # remove1 x os)"
    by (rule quiet_view) (use b fv len1 kcore_getblk[OF b(1)] in \<open>simp_all add: fat_ok_def\<close>)
  have "dir_write E f s = Some (False, f, s1)"
    using b(1) c fd by (simp add: dir_write_def dir_write_update_def getblock_def swap_deleted_wr_def Let_def)
  then show ?thesis using q by blast
qed

end
