(* ===== verification/Dirs_Ops.thy ===== *)
theory Dirs_Ops
  imports Dirs_Write
begin

text \<open>
  The operations on directories over a reliable driver: finding an entry of the root directory,
  walking a path, removing the entries of long names and deleting a file.
\<close>

section \<open>Finding\<close>

lemma dir_search_cases:
  "dir_search Q i es = (r, j) \<Longrightarrow>
     (r = DE_SEEK \<and> j = i + length es \<and> (\<forall>e \<in> set es. raw_first e \<noteq> 0 \<and> \<not> Q e)
      \<or> r \<noteq> DE_SEEK \<and> i \<le> j \<and> j < i + length es \<and> (\<forall>k < j - i. raw_first (es ! k) \<noteq> 0 \<and> \<not> Q (es ! k))
         \<and> (r = 0 \<and> raw_first (es ! (j - i)) = 0 \<or> r = 1 \<and> raw_first (es ! (j - i)) \<noteq> 0 \<and> Q (es ! (j - i))))"
proof (induction es arbitrary: i)
  case (Cons e es)
  show ?case
  proof (cases "raw_first e = 0 \<or> Q e")
    case False
    then have "dir_search Q (Suc i) es = (r, j)" using Cons.prems by simp
    from Cons.IH[OF this] show ?thesis
    proof
      assume a: "r \<noteq> DE_SEEK \<and> Suc i \<le> j \<and> j < Suc i + length es \<and> (\<forall>k < j - Suc i. raw_first (es ! k) \<noteq> 0 \<and> \<not> Q (es ! k))
         \<and> (r = 0 \<and> raw_first (es ! (j - Suc i)) = 0 \<or> r = 1 \<and> raw_first (es ! (j - Suc i)) \<noteq> 0 \<and> Q (es ! (j - Suc i)))"
      then have "Suc i \<le> j" by blast
      then have j: "j - i = Suc (j - Suc i)" by simp
      have "raw_first ((e # es) ! k) \<noteq> 0 \<and> \<not> Q ((e # es) ! k)" if "k < j - i" for k
        using that a False j by (cases k) auto
      then show ?thesis using a unfolding j by simp
    qed (use False in auto)
  qed (use Cons.prems in \<open>auto simp: DE_SEEK_def split: if_splits\<close>)
qed (simp add: DE_SEEK_def)

text \<open>The first entry of the root directory with a property, before the first entry never used.\<close>

definition root_first :: "'w disk_reader \<Rightarrow> 'w diskio \<Rightarrow> 16 word list \<Rightarrow> 32 word \<Rightarrow> (dirent \<Rightarrow> bool) \<Rightarrow> nat \<Rightarrow> bool" where
  "root_first rd s os dp Q j \<longleftrightarrow> j < unat (dpb_dirents (dpbs s dp)) \<and> Q (root_entry rd s os dp j)
     \<and> (\<forall>k \<le> j. raw_first (root_entry rd s os dp k) \<noteq> 0) \<and> (\<forall>k < j. \<not> Q (root_entry rd s os dp k))"

lemma root_first_unique: "root_first rd s os dp Q j \<Longrightarrow> root_first rd s os dp Q k \<Longrightarrow> j = k"
  unfolding root_first_def by (meson not_less_iff_gr_or_eq)

definition root_node :: "32 word \<Rightarrow> f_node \<Rightarrow> bool" where
  "root_node dp f \<longleftrightarrow> f_dpb f = dp \<and> dm_dircluster f = 0 \<and> dm_entry f = 0"

lemma scan_root_first:
  assumes rel: "reliable E 512 rd" and ok: "fat_ok rd V dp s os" and rv: "root_vol V (dpbs s dp)" and f: "root_node dp f"
    and PQ: "\<And>g i e. same_search f g \<Longrightarrow> length (dir_name e) = 11 \<Longrightarrow> P (entry_node (dpbs s dp) i e g) = Q e"
  shows "\<exists>r f' s' os' j. scan_dir E P f s = Some (Inr (r, f', s')) \<and> quiet rd V dp s os s' os' \<and> same_search f f' \<and> dm_entry f' = of_nat j
     \<and> (r = 1 \<and> root_first rd s os dp Q j \<and> found_at (dpbs s dp) j (root_entry rd s os dp j) f f'
        \<or> r \<noteq> 1 \<and> (\<forall>k. \<not> root_first rd s os dp Q k))"
proof -
  let ?d = "dpbs s dp" and ?e = "root_entry rd s os dp"
  define n where "n = unat (dpb_dirents ?d)"
  obtain r j where S: "dir_search Q 0 (map ?e [0..<n]) = (r, j)" by (cases "dir_search Q 0 (map ?e [0..<n])")
  have f0: "f_dpb f = dp" "dm_dircluster f = 0" "0 = unat (dm_entry f)" using f by (simp_all add: root_node_def)
  obtain f' s' os' where F: "scan_dir E P f s = Some (Inr (r, f', s'))" "quiet rd V dp s os s' os'" "same_search f f'"
      "dm_entry f' = of_nat j" "r \<noteq> DE_SEEK \<longrightarrow> j < n \<and> found_at ?d j (?e j) f f'"
    using scan_root[OF rel refl rv n_def f0(1,2) PQ refl quiet_refl[OF ok] ok same_search_refl f0(3) _ S] by auto
  have C: "r = DE_SEEK \<and> (\<forall>k < n. \<not> Q (?e k)) \<or> r \<noteq> DE_SEEK \<and> j < n \<and> (\<forall>k < j. raw_first (?e k) \<noteq> 0 \<and> \<not> Q (?e k))
         \<and> (r = 0 \<and> raw_first (?e j) = 0 \<or> r = 1 \<and> raw_first (?e j) \<noteq> 0 \<and> Q (?e j))"
    using dir_search_cases[OF S] by auto
  have "r = 1 \<and> root_first rd s os dp Q j \<and> found_at ?d j (?e j) f f' \<or> r \<noteq> 1 \<and> (\<forall>k. \<not> root_first rd s os dp Q k)"
  proof (cases "r = 1")
    case True
    then have "r \<noteq> DE_SEEK" by (simp add: DE_SEEK_def)
    then show ?thesis using C F(5) True by (auto simp: root_first_def n_def le_less)
  next
    case False
    have "\<not> root_first rd s os dp Q k" for k
    proof
      assume a: "root_first rd s os dp Q k"
      then have k: "k < n" "Q (?e k)" "\<forall>i \<le> k. raw_first (?e i) \<noteq> 0" by (simp_all add: root_first_def n_def)
      then have "r = 0 \<and> raw_first (?e j) = 0 \<and> (\<forall>k < j. \<not> Q (?e k))" using C False by blast
      then show False using k(2,3) by (metis not_le)
    qed
    then show ?thesis using False by blast
  qed
  then show ?thesis using F(1-4) by blast
qed

definition entry_matches :: "8 word \<Rightarrow> 8 word \<Rightarrow> 8 word list \<Rightarrow> dirent \<Rightarrow> bool" where
  "entry_matches req allow pat e \<longleftrightarrow> raw_first e \<noteq> EXT_DELETED \<and> (pat ! 0 = 0 \<or> fcbmatch (dir_name (entry_read e)) pat)
     \<and> dir_attrib e AND req = req \<and> dir_attrib e AND NOT (D_RDONLY OR D_ARCHIVE OR allow) = 0"

lemma entry_read_simps [simp]:
  "dir_attrib (entry_read e) = dir_attrib e" "dir_crtimems (entry_read e) = dir_crtimems e"
  "dir_start (entry_read e) = dir_start e" "dir_start_high (entry_read e) = dir_start_high e"
  "length (dir_name (entry_read e)) = length (dir_name e)"
  by (simp_all add: entry_read_def)

lemma find_in_dir_root:
  assumes rel: "reliable E 512 rd" and ok: "fat_ok rd V dp s os" and rv: "root_vol V (dpbs s dp)" and f: "root_node dp f"
  shows "\<exists>f' s' os' j. find_in_dir E req allow f s =
      Some (Inr (if \<exists>k. root_first rd s os dp (entry_matches req allow (dm_name_pat f)) k then SUCCESS else DE_FILENOTFND, f', s'))
     \<and> quiet rd V dp s os s' os' \<and> dm_entry f' = of_nat j \<and> same_search f f'
     \<and> (\<forall>k. root_first rd s os dp (entry_matches req allow (dm_name_pat f)) k \<longrightarrow>
          k = j \<and> found_at (dpbs s dp) j (root_entry rd s os dp j) f f')"
proof -
  have PQ: "dir_match req allow (entry_node (dpbs s dp) i e g) = entry_matches req allow (dm_name_pat f) e"
    if "same_search f g" "length (dir_name e) = 11" for g i e
    using that by (simp add: dir_match_def entry_matches_def same_search_def)
  obtain r f' s' os' j where S: "scan_dir E (dir_match req allow) f s = Some (Inr (r, f', s'))" "quiet rd V dp s os s' os'"
     "dm_entry f' = of_nat j" "same_search f f'"
     "r = 1 \<and> root_first rd s os dp (entry_matches req allow (dm_name_pat f)) j \<and> found_at (dpbs s dp) j (root_entry rd s os dp j) f f'
        \<or> r \<noteq> 1 \<and> (\<forall>k. \<not> root_first rd s os dp (entry_matches req allow (dm_name_pat f)) k)"
    using scan_root_first[where P = "dir_match req allow" and Q = "entry_matches req allow (dm_name_pat f)", OF rel ok rv f PQ] by blast
  have "find_in_dir E req allow f s = Some (Inr (if r = 1 then SUCCESS else DE_FILENOTFND, f', s'))"
    by (simp add: find_in_dir_def S(1))
  moreover have "r = 1 \<longleftrightarrow> (\<exists>k. root_first rd s os dp (entry_matches req allow (dm_name_pat f)) k)" using S(5) by blast
  ultimately show ?thesis using S(2-5) root_first_unique
    by (intro exI[of _ f'] exI[of _ s'] exI[of _ os'] exI[of _ j]) auto
qed

text \<open>A path to a name in the root directory.\<close>

definition root_path :: "8 word list \<Rightarrow> 8 word list \<Rightarrow> bool" where
  "root_path p pat \<longleftrightarrow> 4 \<le> length p \<and> last p \<noteq> chr_slash \<and> ConvertNameSZToName83 (drop 3 p) = (pat, [])"

definition root_start :: "32 word \<Rightarrow> 8 word list \<Rightarrow> f_node \<Rightarrow> f_node" where
  "root_start dp pat f = f\<lparr>f_dpb := dp, f_sft_idx := 0xff, f_offset := 0, f_cluster_offset := 0, d_flags := 0, f_cluster := 0,
     dm_dircluster := 0, dm_entry := 0, dm_name_pat := pat\<rparr>"

lemma root_start_simps [simp]: "root_node dp (root_start dp pat f)" "dm_name_pat (root_start dp pat f) = pat"
  "d_flags (root_start dp pat f) = 0"
  by (simp_all add: root_node_def root_start_def)

lemma split_path_root:
  assumes "root_path p pat" "get_dpb (path_drive p) s = Some dp" "\<not> ISFAT32 (dpbs s dp)"
  shows "split_path E p f s = Some (Inr (True, root_start dp pat f, s))"
proof -
  have p: "p \<noteq> []" "last p \<noteq> chr_slash" "1 < length (drop 2 p)" "tl (drop 2 p) = drop 3 p"
    using assms(1) by (auto simp: root_path_def drop_Suc tl_drop numeral_eq_Suc)
  have c: "ConvertNameSZToName83 (drop 3 p) = (pat, [])" using assms(1) by (simp add: root_path_def)
  have w: "dir_walk E True (drop 2 p) g s = Some (Inr (True, g\<lparr>dm_name_pat := pat\<rparr>, s))" for g
    by (subst dir_walk.simps) (use p c in \<open>simp add: Let_def\<close>)
  show ?thesis
    using p assms(2,3) w by (simp add: split_path_def dir_open_def no_pattern_def dir_init_fnode_def Let_def root_start_def)
qed

lemma find_fname_root:
  assumes "root_path p pat" "get_dpb (path_drive p) s = Some dp" "\<not> ISFAT32 (dpbs s dp)"
  shows "find_fname E p attr f s = find_in_dir E 0 attr (root_start dp pat f) s"
  using split_path_root[OF assms, of E f] by (simp add: find_fname_def)

section \<open>Marking entries as deleted\<close>

text \<open>A removed entry keeps its first character in the byte of the fine creation time.\<close>

definition marked :: "dirent \<Rightarrow> dirent" where
  "marked e = e\<lparr>dir_name := (dir_name e)[0 := EXT_DELETED],
     dir_crtimems := (if entry_char e = EXT_DELETED then SUBSTED_E5 else entry_char e)\<rparr>"

lemma length_marked [simp]: "length (dir_name (marked e)) = length (dir_name e)"
  by (simp add: marked_def)

lemma entry_char_not_5: "entry_char e \<noteq> SUBSTED_E5"
  by (simp add: entry_char_def Let_def EXT_DELETED_def SUBSTED_E5_def)

lemma pend_not_0 [simp]: "DFLG_DELETE_PEND \<noteq> 0"
  by (simp add: DFLG_DELETE_PEND_def)

lemma swap_wr_marked:
  assumes "f_dir f = entry_read e" "length (dir_name e) = 11"
  shows "\<exists>g. swap_deleted_wr (SET_DELETED f) = Some g \<and> f_dir g = marked e \<and> f_dpb (unswap_deleted_wr g) = f_dpb f
     \<and> dm_dircluster (unswap_deleted_wr g) = dm_dircluster f \<and> dm_entry (unswap_deleted_wr g) = dm_entry f
     \<and> d_flags (unswap_deleted_wr g) AND DFLG_DELETE_PEND = 0"
proof -
  have ne: "dir_name e \<noteq> []" using assms by auto
  then have c: "first_char f = entry_char e" using assms by (simp add: first_char_def entry_read_def)
  show ?thesis using ne
    by (simp add: swap_deleted_wr_def c SET_DELETED_def first_char_def assms(1) entry_read_def marked_def Let_def
        entry_char_not_5 set_first_def unswap_deleted_wr_def unsubst_def SET_RDELETED_def CLEAR_RDELETED_def nth_list_update pend_simps)
qed

text \<open>The entries of \<open>M\<close> are marked as deleted; the rest of the directory, the table and every
  other block are as before.\<close>

definition dir_marked ::
    "'w disk_reader \<Rightarrow> block_id set \<Rightarrow> 32 word \<Rightarrow> nat set \<Rightarrow> 'w diskio \<Rightarrow> 16 word list \<Rightarrow> 'w diskio \<Rightarrow> 16 word list \<Rightarrow> bool" where
  "dir_marked rd V dp M s os s' os' \<longleftrightarrow> fat_ok rd V dp s' os' \<and> fat_bytes rd s' os' dp = fat_bytes rd s os dp
     \<and> dpbs s' = dpbs s \<and> kcore s' = kcore s
     \<and> (\<forall>j < unat (dpb_dirents (dpbs s dp)). root_entry rd s' os' dp j
          = (if j \<in> M then marked (root_entry rd s os dp j) else root_entry rd s os dp j))
     \<and> (\<forall>v \<in> V - fat_blocks (dpbs s dp) - (\<lambda>k. root_block (dpbs s dp) (k div 16)) ` M. view 512 rd s' os' v = view 512 rd s os v)"

lemma dir_marked_quiet:
  "quiet rd V dp s os s' os' \<Longrightarrow> root_vol V (dpbs s dp) \<Longrightarrow> dir_marked rd V dp {} s os s' os'"
  using root_entry_quiet[of rd V dp s os s' os'] by (simp add: dir_marked_def quiet_def data_kept_def)

lemma dir_marked_set:
  assumes "entry_set rd V dp i (marked (root_entry rd s os dp i)) s os s' os'"
  shows "dir_marked rd V dp {i} s os s' os'"
  using assms unfolding dir_marked_def entry_set_def by auto

lemma dir_marked_trans:
  assumes "dir_marked rd V dp M s os s1 os1" "dir_marked rd V dp N s1 os1 s2 os2" "M \<inter> N = {}"
  shows "dir_marked rd V dp (M \<union> N) s os s2 os2"
proof -
  have d: "dpbs s1 = dpbs s" using assms(1) by (simp add: dir_marked_def)
  have "root_entry rd s2 os2 dp j = (if j \<in> M \<union> N then marked (root_entry rd s os dp j) else root_entry rd s os dp j)"
    if "j < unat (dpb_dirents (dpbs s dp))" for j
    using that assms d unfolding dir_marked_def by auto
  then show ?thesis using assms(1,2) d unfolding dir_marked_def by (auto simp: image_Un)
qed

section \<open>Removing the entries of a long name\<close>

definition lfn_run :: "(nat \<Rightarrow> dirent) \<Rightarrow> nat \<Rightarrow> nat set" where
  "lfn_run es j = {k. k < j \<and> (\<forall>i. k \<le> i \<and> i < j \<longrightarrow> dir_attrib (es i) = D_LFN)}"

lemma lfn_run_0 [simp]: "lfn_run es 0 = {}"
  by (simp add: lfn_run_def)

lemma lfn_run_Suc: "lfn_run es (Suc i) = (if dir_attrib (es i) = D_LFN then insert i (lfn_run es i) else {})"
proof (cases "dir_attrib (es i) = D_LFN")
  case False
  then have "k \<notin> lfn_run es (Suc i)" for k by (auto simp: lfn_run_def intro!: exI[of _ i])
  then show ?thesis using False by auto
qed (auto simp: lfn_run_def less_Suc_eq)

lemma lfn_run_cong: "(\<And>k. k < j \<Longrightarrow> es k = es' k) \<Longrightarrow> lfn_run es j = lfn_run es' j"
  by (auto simp: lfn_run_def)

text \<open>Reading entry \<open>i\<close> and marking it as deleted.\<close>

lemma read_root_mark:
  assumes rel: "reliable E 512 rd" and ok: "fat_ok rd V dp s os" and rv: "root_vol V (dpbs s dp)"
    and f: "f_dpb f = dp" "dm_dircluster f = 0" "i = unat (dm_entry f)" "i < unat (dpb_dirents (dpbs s dp))"
    and e: "e = root_entry rd s os dp i" "raw_first e \<noteq> 0"
  shows "\<exists>f1 s1 os1. dir_read E f s = Some (Inr (1, f1, s1)) \<and> quiet rd V dp s os s1 os1 \<and> f_dir f1 = entry_read e
     \<and> f1 = entry_node (dpbs s dp) i e f
     \<and> (\<exists>f2 s2 os2. dir_write E (SET_DELETED f1) s1 = Some (True, f2, s2) \<and> dir_marked rd V dp {i} s os s2 os2
          \<and> f_dpb f2 = dp \<and> dm_dircluster f2 = 0 \<and> dm_entry f2 = dm_entry f \<and> d_flags f2 AND DFLG_DELETE_PEND = 0)"
proof -
  have len: "length (dir_name e) = 11" by (simp add: e)
  define f1 where "f1 = entry_node (dpbs s dp) i e f"
  obtain s1 os1 where R: "dir_read E f s = Some (Inr (1, f1, s1))" "quiet rd V dp s os s1 os1"
    using dir_read_root[OF rel ok rv f(1,2,3,4) e(1)] e(2) by (auto simp: f1_def)
  have q: "fat_ok rd V dp s1 os1" "dpbs s1 = dpbs s" using R(2) by (simp_all add: quiet_def)
  have d1: "f_dir f1 = entry_read e" "f_dpb f1 = dp" "dm_dircluster f1 = 0" "dm_entry f1 = dm_entry f"
    using len f by (simp_all add: f1_def)
  obtain g where g: "swap_deleted_wr (SET_DELETED f1) = Some g" "f_dir g = marked e" "f_dpb (unswap_deleted_wr g) = f_dpb f1"
     "dm_dircluster (unswap_deleted_wr g) = dm_dircluster f1" "dm_entry (unswap_deleted_wr g) = dm_entry f1"
     "d_flags (unswap_deleted_wr g) AND DFLG_DELETE_PEND = 0"
    using swap_wr_marked[OF d1(1) len] by blast
  have on: "on_root dp (dpbs s1 dp) i (SET_DELETED f1)"
    using len f by (simp add: on_root_def SET_DELETED_def f1_def q(2))
  obtain s2 os2 where W: "dir_write E (SET_DELETED f1) s1 = Some (True, unswap_deleted_wr g, s2)" "entry_set rd V dp i (f_dir g) s1 os1 s2 os2"
    using dir_write_root[OF rel q(1) _ on g(1)] rv q(2) by auto
  have e1: "root_entry rd s1 os1 dp i = e" using root_entry_quiet[OF R(2) rv f(4)] e(1) by simp
  have "dir_marked rd V dp {i} s1 os1 s2 os2" by (rule dir_marked_set) (use W(2) g(2) e1 in simp)
  then have "dir_marked rd V dp ({} \<union> {i}) s os s2 os2" using dir_marked_trans[OF dir_marked_quiet[OF R(2) rv]] by blast
  then show ?thesis using R W(1) d1 g(3-6) f1_def
    by (intro exI[of _ f1] exI[of _ s1] exI[of _ os1] conjI exI[of _ "unswap_deleted_wr g"] exI[of _ s2] exI[of _ os2]) simp_all
qed

lemma remove_lfn_root:
  assumes rel: "reliable E 512 rd"
  shows "fat_ok rd V dp s os \<Longrightarrow> root_vol V (dpbs s dp) \<Longrightarrow> f_dpb f = dp \<Longrightarrow> dm_dircluster f = 0 \<Longrightarrow> dm_entry f = of_nat j
    \<Longrightarrow> j \<le> unat (dpb_dirents (dpbs s dp)) \<Longrightarrow> \<forall>k < j. raw_first (root_entry rd s os dp k) \<noteq> 0 \<Longrightarrow>
    \<exists>f' s' os'. remove_lfn_loop E f s = Some (Inr (SUCCESS, f', s')) \<and> dir_marked rd V dp (lfn_run (root_entry rd s os dp) j) s os s' os'
      \<and> f_dpb f' = dp \<and> dm_dircluster f' = 0
      \<and> (d_flags f AND DFLG_DELETE_PEND = 0 \<longrightarrow> d_flags f' AND DFLG_DELETE_PEND = 0)"
proof (induction j arbitrary: f s os)
  case 0
  then have "remove_lfn_loop E f s = Some (Inr (SUCCESS, f, s))" by (subst remove_lfn_loop.simps) simp
  then show ?case using dir_marked_quiet[OF quiet_refl[OF 0(1)] 0(2)] 0 by auto
next
  case (Suc i)
  let ?es = "root_entry rd s os dp"
  have n: "Suc i < 65536" using Suc.prems(2,6) by (simp add: root_vol_def)
  have ne: "dm_entry f \<noteq> 0"
  proof
    assume "dm_entry f = 0"
    then have "unat (of_nat (Suc i) :: 16 word) = 0" using Suc.prems(5) by simp
    then show False using n by (simp add: unsigned_of_nat take_bit_eq_mod del: of_nat_Suc)
  qed
  define f0 where "f0 = f\<lparr>dm_entry := dm_entry f - 1\<rparr>"
  have e0: "dm_entry f0 = of_nat i" "f_dpb f0 = dp" "dm_dircluster f0 = 0" using Suc.prems by (simp_all add: f0_def)
  have u: "i = unat (dm_entry f0)" using n by (simp add: e0 unsigned_of_nat take_bit_eq_mod)
  have i: "i < unat (dpb_dirents (dpbs s dp))" "raw_first (?es i) \<noteq> 0" using Suc.prems(6,7) by auto
  obtain f1 s1 os1 f2 s2 os2 where R: "dir_read E f0 s = Some (Inr (1, f1, s1))" "quiet rd V dp s os s1 os1"
     "f_dir f1 = entry_read (?es i)" "f1 = entry_node (dpbs s dp) i (?es i) f0"
     "dir_write E (SET_DELETED f1) s1 = Some (True, f2, s2)" "dir_marked rd V dp {i} s os s2 os2"
     "f_dpb f2 = dp" "dm_dircluster f2 = 0" "dm_entry f2 = dm_entry f0" "d_flags f2 AND DFLG_DELETE_PEND = 0"
    using read_root_mark[OF rel Suc.prems(1,2) e0(2,3) u i(1) refl i(2)] by blast
  show ?case
  proof (cases "dir_attrib (?es i) = D_LFN")
    case False
    have "remove_lfn_loop E f s = Some (Inr (SUCCESS, f1, s1))"
      by (subst remove_lfn_loop.simps) (use ne R(1,3) False in \<open>simp add: f0_def\<close>)
    moreover have "f_dpb f1 = dp" "dm_dircluster f1 = 0" using R(4) e0 by simp_all
    moreover have "d_flags f AND DFLG_DELETE_PEND = 0 \<longrightarrow> d_flags f1 AND DFLG_DELETE_PEND = 0"
      using same_search_node[OF root_entry_name, of f0 "dpbs s dp" i rd s os dp i] R(4) by (simp add: same_search_def f0_def)
    moreover have "dir_marked rd V dp (lfn_run ?es (Suc i)) s os s1 os1"
      using dir_marked_quiet[OF R(2) Suc.prems(2)] False by (simp add: lfn_run_Suc)
    ultimately show ?thesis by blast
  next
    case True
    have st: "remove_lfn_loop E f s = remove_lfn_loop E f2 s2"
      by (subst remove_lfn_loop.simps) (use ne R(1,3,5) True in \<open>simp add: f0_def\<close>)
    have k: "fat_ok rd V dp s2 os2" "dpbs s2 = dpbs s" using R(6) by (simp_all add: dir_marked_def)
    have same: "root_entry rd s2 os2 dp k = ?es k" if "k < i" for k using R(6) that i(1) by (simp add: dir_marked_def)
    have nz: "\<forall>k < i. raw_first (root_entry rd s2 os2 dp k) \<noteq> 0" using same Suc.prems(7) by simp
    obtain f' s' os' where I: "remove_lfn_loop E f2 s2 = Some (Inr (SUCCESS, f', s'))"
       "dir_marked rd V dp (lfn_run (root_entry rd s2 os2 dp) i) s2 os2 s' os'" "f_dpb f' = dp" "dm_dircluster f' = 0"
       "d_flags f' AND DFLG_DELETE_PEND = 0"
      using Suc.IH[OF k(1) _ R(7,8) _ _ nz] k(2) Suc.prems(2,6) e0(1) R(9,10) by auto
    have "lfn_run (root_entry rd s2 os2 dp) i = lfn_run ?es i" using same by (rule lfn_run_cong)
    moreover have "{i} \<inter> lfn_run ?es i = {}" by (auto simp: lfn_run_def)
    ultimately have "dir_marked rd V dp ({i} \<union> lfn_run ?es i) s os s' os'" using dir_marked_trans[OF R(6)] I(2) by simp
    then show ?thesis using True st I(1,3-5) by (auto simp: lfn_run_Suc)
  qed
qed

section \<open>Deleting a file\<close>

definition entry_chain :: "dpb \<Rightarrow> bytes \<Rightarrow> dirent \<Rightarrow> nat list \<Rightarrow> bool" where
  "entry_chain d F e cs \<longleftrightarrow>
     (case cs of [] \<Rightarrow> getdstart d e = FREE_CLUSTER | c # ds \<Rightarrow> getdstart d e = of_nat c \<and> file_chain d F c ds)"

lemma wipe_out_run:
  assumes rel: "reliable E 512 rd" and ok: "fat_ok rd V dp s os" and F: "F = fat_bytes rd s os dp"
    and h: "in_vol (dpbs s dp) (hint_of (dpbs s dp))" and f: "f_dpb f = dp" and ch: "entry_chain (dpbs s dp) F (f_dir f) cs"
  shows "\<exists>s' os'. wipe_out E f s = Some (Inr s') \<and> kcore s' = kcore s
     \<and> fat_run rd V dp s os s' os' (wiped (dpbs s dp) F cs)"
proof (cases cs)
  case Nil
  then have "wipe_out E f s = Some (Inr s)" using f ch by (simp add: wipe_out_def entry_chain_def)
  then show ?thesis using fat_run_refl[OF ok] Nil F by (auto simp: wiped_def)
next
  case (Cons c ds)
  then have st: "getdstart (dpbs s dp) (f_dir f) = of_nat c" "file_chain (dpbs s dp) F c ds" using ch by (simp_all add: entry_chain_def)
  have "in_vol (dpbs s dp) c" using st(2) by (simp add: file_chain_def)
  then have nz: "(of_nat c :: 32 word) \<noteq> FREE_CLUSTER" using small_bad[of c "dpbs s dp"] by (simp add: FREE_CLUSTER_def)
  obtain s' os' where w: "wipe_out_clusters E dp (of_nat c) s = Some (Inr s')"
     "fat_run rd V dp s os s' os' (wiped (dpbs s dp) F (c # ds))"
    using wipe_out_clusters_ok[OF rel ok F h st(2)] by blast
  then show ?thesis using nz f st(1) Cons kcore_wipe_out_clusters[OF w(1)] by (auto simp: wipe_out_def Let_def)
qed

lemma root_with_hint [simp]: "root_block (with_hint d n c) = root_block d" "root_vol V (with_hint d n c) = root_vol V d"
  "dpb_dirents (with_hint d n c) = dpb_dirents d" "vol_unit (with_hint d n c) = vol_unit d" "getdstart (with_hint d n c) = getdstart d"
  by (auto simp: with_hint_def root_block_def fun_eq_iff root_vol_def fat_blocks_def fat_sector_def getdstart_def ISFAT32_def)

text \<open>The entries of \<open>M\<close> are marked, the clusters of \<open>cs\<close> are free; all else is as before.\<close>

definition dir_removed :: "'w disk_reader \<Rightarrow> block_id set \<Rightarrow> 32 word \<Rightarrow> nat set \<Rightarrow> nat list
    \<Rightarrow> 'w diskio \<Rightarrow> 16 word list \<Rightarrow> 'w diskio \<Rightarrow> 16 word list \<Rightarrow> bool" where
  "dir_removed rd V dp M cs s os s' os' \<longleftrightarrow> fat_ok rd V dp s' os' \<and> kcore s' = kcore s
     \<and> fat_bytes rd s' os' dp = wiped (dpbs s dp) (fat_bytes rd s os dp) cs
     \<and> (\<exists>n c. dpbs s' = (dpbs s)(dp := with_hint (dpbs s dp) n c))
     \<and> (\<forall>j < unat (dpb_dirents (dpbs s dp)). root_entry rd s' os' dp j
          = (if j \<in> M then marked (root_entry rd s os dp j) else root_entry rd s os dp j))
     \<and> (\<forall>v \<in> V - fat_blocks (dpbs s dp) - (\<lambda>k. root_block (dpbs s dp) (k div 16)) ` M. view 512 rd s' os' v = view 512 rd s os v)"

lemma dir_removed_run:
  assumes m: "dir_marked rd V dp M s os s1 os1" and w: "fat_run rd V dp s1 os1 s2 os2 (wiped (dpbs s dp) (fat_bytes rd s os dp) cs)"
    and rv: "root_vol V (dpbs s dp)" and kc: "kcore s2 = kcore s1"
  shows "dir_removed rd V dp M cs s os s2 os2"
proof -
  have d: "dpbs s1 = dpbs s" using m by (simp add: dir_marked_def)
  obtain n c where d2: "dpbs s2 = (dpbs s1)(dp := with_hint (dpbs s1 dp) n c)" using w by (auto simp: fat_run_def)
  have k: "data_kept rd V (dpbs s1 dp) s1 os1 s2 os2" using w by (simp add: fat_run_def fat_step_def)
  have "root_entry rd s2 os2 dp j = root_entry rd s1 os1 dp j" if "j < unat (dpb_dirents (dpbs s dp))" for j
    by (rule root_entry_data[OF k]) (use that rv d d2 in simp_all)
  then show ?thesis
    using m k d d2 kc fat_run_ok[OF w] unfolding dir_removed_def dir_marked_def data_kept_def by auto
qed

lemma dir_removed_set:
  assumes r: "dir_removed rd V dp M cs s os s1 os1" and e: "entry_set rd V dp i e s1 os1 s2 os2"
    and m: "i \<notin> M" "e = marked (root_entry rd s os dp i)"
  shows "dir_removed rd V dp (insert i M) cs s os s2 os2"
proof -
  obtain n c where d: "dpbs s1 = (dpbs s)(dp := with_hint (dpbs s dp) n c)" using r by (auto simp: dir_removed_def)
  then have "dpbs s2 = (dpbs s)(dp := with_hint (dpbs s dp) n c)" using e by (simp add: entry_set_def)
  then show ?thesis using r e m d unfolding dir_removed_def entry_set_def by auto
qed

lemma entry_chain_read [simp]: "entry_chain d F (entry_read e) cs = entry_chain d F e cs"
  by (cases cs) (simp_all add: entry_chain_def getdstart_def entry_read_def)

lemma remove_lfn_entries_root:
  assumes rel: "reliable E 512 rd" and ok: "fat_ok rd V dp s os" and rv: "root_vol V (dpbs s dp)"
    and f: "f_dpb f = dp" "dm_dircluster f = 0" "dm_entry f = of_nat j" and j: "j < unat (dpb_dirents (dpbs s dp))"
    and nz: "\<forall>k \<le> j. raw_first (root_entry rd s os dp k) \<noteq> 0"
  shows "\<exists>f' s' os' g. remove_lfn_entries E f s = Some (Inr (SUCCESS, f', s'))
     \<and> dir_marked rd V dp (lfn_run (root_entry rd s os dp) j) s os s' os'
     \<and> f' = entry_node (dpbs s dp) j (root_entry rd s os dp j) g \<and> f_dpb g = dp \<and> dm_dircluster g = 0
     \<and> (d_flags f AND DFLG_DELETE_PEND = 0 \<longrightarrow> d_flags f' AND DFLG_DELETE_PEND = 0)"
proof -
  let ?d = "dpbs s dp" and ?es = "root_entry rd s os dp"
  define M where "M = lfn_run ?es j"
  have jM: "j \<notin> M" by (simp add: M_def lfn_run_def)
  obtain f1 s1 os1 where L: "remove_lfn_loop E f s = Some (Inr (SUCCESS, f1, s1))" "dir_marked rd V dp M s os s1 os1"
     "f_dpb f1 = dp" "dm_dircluster f1 = 0" "d_flags f AND DFLG_DELETE_PEND = 0 \<longrightarrow> d_flags f1 AND DFLG_DELETE_PEND = 0"
    using remove_lfn_root[OF rel ok rv f] j nz by (auto simp: M_def)
  have k1: "fat_ok rd V dp s1 os1" "dpbs s1 = dpbs s" using L(2) by (simp_all add: dir_marked_def)
  have e1: "root_entry rd s1 os1 dp j = ?es j" using L(2) j jM by (simp add: dir_marked_def)
  define g where "g = f1\<lparr>dm_entry := dm_entry f\<rparr>"
  have u: "j = unat (dm_entry g)" using j rv by (simp add: g_def f(3) root_vol_def unsigned_of_nat take_bit_eq_mod)
  have gd: "f_dpb g = dp" "dm_dircluster g = 0" using L(3,4) by (simp_all add: g_def)
  define f2 where "f2 = entry_node ?d j (?es j) g"
  obtain s2 os2 where R: "dir_read E g s1 = Some (Inr (1, f2, s2))" "quiet rd V dp s1 os1 s2 os2"
    using dir_read_root[OF rel k1(1) _ gd u _ e1[symmetric]] nz rv j k1(2) by (auto simp: f2_def)
  have "remove_lfn_entries E f s = Some (Inr (SUCCESS, f2, s2))"
    using L(1) R(1) by (simp add: remove_lfn_entries_def g_def)
  moreover have "dir_marked rd V dp M s os s2 os2"
    using dir_marked_trans[OF L(2) dir_marked_quiet[OF R(2)]] rv k1(2) by simp
  moreover have "d_flags f AND DFLG_DELETE_PEND = 0 \<longrightarrow> d_flags f2 AND DFLG_DELETE_PEND = 0"
    using same_search_node[OF root_entry_name, of g ?d j rd s os dp j] L(5) by (simp add: same_search_def g_def f2_def)
  ultimately show ?thesis using gd unfolding M_def f2_def by blast
qed

lemma delete_root:
  assumes rel: "reliable E 512 rd" and ok: "fat_ok rd V dp s os" and rv: "root_vol V (dpbs s dp)"
    and f: "f_dpb f = dp" "dm_dircluster f = 0" "dm_entry f = of_nat j" and j: "j < unat (dpb_dirents (dpbs s dp))"
    and nz: "\<forall>k \<le> j. raw_first (root_entry rd s os dp k) \<noteq> 0" and h: "in_vol (dpbs s dp) (hint_of (dpbs s dp))"
    and ch: "entry_chain (dpbs s dp) (fat_bytes rd s os dp) (root_entry rd s os dp j) cs"
  shows "\<exists>f' s' os'. delete_dir_entry E f s = Some (Inr (SUCCESS, f', s'))
     \<and> dir_removed rd V dp (insert j (lfn_run (root_entry rd s os dp) j)) cs s os s' os'"
proof -
  let ?d = "dpbs s dp" and ?es = "root_entry rd s os dp"
  define M where "M = lfn_run ?es j"
  have jM: "j \<notin> M" by (simp add: M_def lfn_run_def)
  obtain f2 s2 os2 g where R: "remove_lfn_entries E f s = Some (Inr (SUCCESS, f2, s2))" "dir_marked rd V dp M s os s2 os2"
     "f2 = entry_node ?d j (?es j) g" "f_dpb g = dp" "dm_dircluster g = 0"
    using remove_lfn_entries_root[OF rel ok rv f j nz] unfolding M_def by blast
  note rl = R(1) and m2 = R(2) and gd = R(4,5)
  have k2: "fat_ok rd V dp s2 os2" "dpbs s2 = dpbs s" "fat_bytes rd s2 os2 dp = fat_bytes rd s os dp"
    using m2 by (simp_all add: dir_marked_def)
  have fd: "f_dir f2 = entry_read (?es j)" "f_dpb f2 = dp" using gd by (simp_all add: R(3))
  obtain s3 os3 where W: "wipe_out E f2 s2 = Some (Inr s3)" "kcore s3 = kcore s2" "fat_run rd V dp s2 os2 s3 os3 (wiped ?d (fat_bytes rd s os dp) cs)"
    using wipe_out_run[OF rel k2(1) refl _ fd(2), of cs] h ch k2(2,3) fd(1) by auto
  note D = dir_removed_run[OF m2 W(3) rv W(2)]
  obtain n c where d3: "dpbs s3 dp = with_hint ?d n c" using D by (auto simp: dir_removed_def)
  obtain x where x: "swap_deleted_wr (SET_DELETED f2) = Some x" "f_dir x = marked (?es j)"
    using swap_wr_marked[OF fd(1)] by auto
  have on: "on_root dp (dpbs s3 dp) j (SET_DELETED f2)"
    using j gd by (simp add: on_root_def SET_DELETED_def R(3) d3)
  have ok3: "fat_ok rd V dp s3 os3" using D by (simp add: dir_removed_def)
  obtain s4 os4 where S: "dir_write E (SET_DELETED f2) s3 = Some (True, unswap_deleted_wr x, s4)"
     "entry_set rd V dp j (f_dir x) s3 os3 s4 os4"
    using dir_write_root[OF rel ok3 _ on x(1)] rv d3 by auto
  have "delete_dir_entry E f s = Some (Inr (SUCCESS, unswap_deleted_wr x, s4))"
    using rl W(1) S(1) by (simp add: delete_dir_entry_def write_back_def SUCCESS_def)
  moreover have "dir_removed rd V dp (insert j M) cs s os s4 os4" by (rule dir_removed_set[OF D S(2) jM x(2)])
  ultimately show ?thesis unfolding M_def by blast
qed

lemma find_in_dir_found:
  assumes "reliable E 512 rd" "fat_ok rd V dp s os" "root_vol V (dpbs s dp)" "root_node dp f"
    and "root_first rd s os dp (entry_matches req allow (dm_name_pat f)) j"
  shows "\<exists>f' s' os'. find_in_dir E req allow f s = Some (Inr (SUCCESS, f', s')) \<and> quiet rd V dp s os s' os' \<and> dm_entry f' = of_nat j
     \<and> found_at (dpbs s dp) j (root_entry rd s os dp j) f f'"
proof -
  have ex: "\<exists>k. root_first rd s os dp (entry_matches req allow (dm_name_pat f)) k" using assms(5) by blast
  obtain f' s' os' i where "find_in_dir E req allow f s = Some (Inr (SUCCESS, f', s'))" "quiet rd V dp s os s' os'" "dm_entry f' = of_nat i"
     "\<forall>k. root_first rd s os dp (entry_matches req allow (dm_name_pat f)) k \<longrightarrow>
          k = i \<and> found_at (dpbs s dp) i (root_entry rd s os dp i) f f'"
    using find_in_dir_root[OF assms(1-4), of req allow] unfolding if_P[OF ex] by blast
  then show ?thesis using assms(5) by blast
qed

lemma dos_delete_root:
  assumes rel: "reliable E 512 rd" and ok: "fat_ok rd V dp s os" and rv: "root_vol V (dpbs s dp)"
    and p: "root_path p pat" "get_dpb (path_drive p) s = Some dp"
    and e: "root_first rd s os dp (entry_matches 0 attr pat) j" "dir_attrib (root_entry rd s os dp j) AND (D_RDONLY OR D_DIR) = 0"
    and h: "in_vol (dpbs s dp) (hint_of (dpbs s dp))"
    and ch: "entry_chain (dpbs s dp) (fat_bytes rd s os dp) (root_entry rd s os dp j) cs"
  shows "\<exists>f' s' os'. dos_delete E p attr f s = Some (Inr (SUCCESS, f', s'))
     \<and> dir_removed rd V dp (insert j (lfn_run (root_entry rd s os dp) j)) cs s os s' os'"
proof -
  let ?e = "root_entry rd s os dp"
  have f32: "\<not> ISFAT32 (dpbs s dp)" using ok by (simp add: fat_ok_def fat_vol_def)
  have j: "j < unat (dpb_dirents (dpbs s dp))" "\<forall>k \<le> j. raw_first (?e k) \<noteq> 0" using e(1) by (simp_all add: root_first_def)
  obtain f1 s1 os1 where F: "find_in_dir E 0 attr (root_start dp pat f) s = Some (Inr (SUCCESS, f1, s1))" "quiet rd V dp s os s1 os1"
     "dm_entry f1 = of_nat j" "found_at (dpbs s dp) j (?e j) (root_start dp pat f) f1"
    using find_in_dir_found[OF rel ok rv root_start_simps(1)] e(1) by fastforce
  have nd: "f_dir f1 = entry_read (?e j)" "f_dpb f1 = dp" "dm_dircluster f1 = 0"
    using F(4) by (auto simp: found_at_def same_search_def root_start_def)
  have k: "fat_ok rd V dp s1 os1" "dpbs s1 = dpbs s" "fat_bytes rd s1 os1 dp = fat_bytes rd s os dp"
    using F(2) by (simp_all add: quiet_def)
  have same: "root_entry rd s1 os1 dp i = ?e i" if "i < unat (dpb_dirents (dpbs s dp))" for i
    using root_entry_quiet[OF F(2) rv that] .
  obtain f2 s2 os2 where D: "delete_dir_entry E f1 s1 = Some (Inr (SUCCESS, f2, s2))"
     "dir_removed rd V dp (insert j (lfn_run (root_entry rd s1 os1 dp) j)) cs s1 os1 s2 os2"
    using delete_root[OF rel k(1) _ nd(2,3), of j cs] F(3) rv j same h ch k(2,3) by auto
  have "lfn_run (root_entry rd s1 os1 dp) j = lfn_run ?e j" by (rule lfn_run_cong) (use same j(1) in simp)
  then have "dir_removed rd V dp (insert j (lfn_run ?e j)) cs s os s2 os2"
    using D(2) F(2) same k unfolding dir_removed_def quiet_def data_kept_def by auto
  moreover have "dos_delete E p attr f s = Some (Inr (SUCCESS, f2, s2))"
    using find_fname_root[OF p f32, of E attr f] F(1) D(1) nd(1) e(2) by (simp add: dos_delete_def)
  ultimately show ?thesis by blast
qed

text \<open>To the walk along a path a removed entry looks as before.\<close>

definition walk_entry :: "8 word list \<Rightarrow> dirent \<Rightarrow> bool" where
  "walk_entry pat e \<longleftrightarrow> dir_attrib e AND D_VOLID = 0 \<and> fcbmatch pat (dir_name (entry_read e))"

lemma marked_simps:
  assumes "length (dir_name e) = 11" "raw_first e \<noteq> 0"
  shows "raw_first (marked e) = EXT_DELETED" "dir_attrib (marked e) = dir_attrib e" "entry_char (marked e) = entry_char e"
    "dir_name (entry_read (marked e)) = dir_name (entry_read e)" "getdstart d (marked e) = getdstart d e"
    "walk_entry pat (marked e) = walk_entry pat e"
proof -
  have ne: "dir_name e \<noteq> []" using assms by auto
  then show a: "raw_first (marked e) = EXT_DELETED" "dir_attrib (marked e) = dir_attrib e" "getdstart d (marked e) = getdstart d e"
    by (simp_all add: marked_def raw_first_def nth_list_update getdstart_def)
  have "entry_char e \<noteq> 0" using assms(2) by (simp add: entry_char_0)
  then show c: "entry_char (marked e) = entry_char e"
    unfolding entry_char_def[of "marked e"] a using entry_char_not_5[of e] by (auto simp: marked_def Let_def EXT_DELETED_def SUBSTED_E5_def)
  then show n: "dir_name (entry_read (marked e)) = dir_name (entry_read e)" by (simp add: entry_read_def c) (simp add: marked_def)
  show "walk_entry pat (marked e) = walk_entry pat e" unfolding walk_entry_def n a ..
qed

lemma get_dpb_kcore: "kcore s' = kcore s \<Longrightarrow> get_dpb x s' = get_dpb x s"
  using get_dpb_cong[OF kcore_eqD] by blast

lemma root_first_removed:
  assumes r: "dir_removed rd V dp M cs s os s' os'" and Q: "\<And>e. length (dir_name e) = 11 \<Longrightarrow> raw_first e \<noteq> 0 \<Longrightarrow> Q (marked e) = Q e"
    and j: "root_first rd s os dp Q j"
  shows "root_first rd s' os' dp Q j"
proof -
  have d: "dpb_dirents (dpbs s' dp) = dpb_dirents (dpbs s dp)" using r by (auto simp: dir_removed_def)
  have e: "root_entry rd s' os' dp k = (if k \<in> M then marked (root_entry rd s os dp k) else root_entry rd s os dp k)"
    if "k \<le> j" for k using r that j by (auto simp: dir_removed_def root_first_def)
  have nz: "raw_first (root_entry rd s os dp k) \<noteq> 0" if "k \<le> j" for k using j that by (simp add: root_first_def)
  have "raw_first (root_entry rd s' os' dp k) \<noteq> 0 \<and> Q (root_entry rd s' os' dp k) = Q (root_entry rd s os dp k)" if k: "k \<le> j" for k
    using e[OF k] nz[OF k] Q[of "root_entry rd s os dp k"] marked_simps(1)[of "root_entry rd s os dp k"]
    by (simp add: EXT_DELETED_def)
  then show ?thesis using j unfolding root_first_def d by auto
qed

lemma dir_open_root:
  assumes rel: "reliable E 512 rd" and ok: "fat_ok rd V dp s os" and rv: "root_vol V (dpbs s dp)"
    and p: "root_path p pat" "get_dpb (path_drive p) s = Some dp"
    and j: "root_first rd s os dp (walk_entry pat) j" "dir_attrib (root_entry rd s os dp j) AND D_DIR \<noteq> 0"
  shows "\<exists>f' s' os'. dir_open E p False f s = Some (Inr (True, f', s')) \<and> quiet rd V dp s os s' os'
     \<and> f_dpb f' = dp \<and> dm_dircluster f' = getdstart (dpbs s dp) (root_entry rd s os dp j)"
proof -
  let ?e = "root_entry rd s os dp"
  have f32: "\<not> ISFAT32 (dpbs s dp)" using ok by (simp add: fat_ok_def fat_vol_def)
  have PQ: "walk_match pat (entry_node (dpbs s dp) i e g) = walk_entry pat e" if "length (dir_name e) = 11" for g i e
    using that by (simp add: walk_match_def walk_entry_def)
  obtain r f1 s1 os1 i where S: "scan_dir E (walk_match pat) (root_start dp pat f) s = Some (Inr (r, f1, s1))" "quiet rd V dp s os s1 os1"
     "r = 1 \<and> root_first rd s os dp (walk_entry pat) i \<and> found_at (dpbs s dp) i (?e i) (root_start dp pat f) f1
        \<or> r \<noteq> 1 \<and> (\<forall>k. \<not> root_first rd s os dp (walk_entry pat) k)"
    using scan_root_first[where P = "walk_match pat" and Q = "walk_entry pat", OF rel ok rv root_start_simps(1) PQ] by blast
  have F: "r = 1" "found_at (dpbs s dp) j (?e j) (root_start dp pat f) f1" using S(3) j(1) root_first_unique by blast+
  have nd: "f_dir f1 = entry_read (?e j)" "f_dpb f1 = dp" using F(2) by (auto simp: found_at_def same_search_def root_start_def)
  have d1: "dpbs s1 = dpbs s" using S(2) by (simp add: quiet_def)
  have pp: "1 < length (drop 2 p)" "tl (drop 2 p) = drop 3 p" "ConvertNameSZToName83 (drop 3 p) = (pat, [])"
    using p(1) by (auto simp: root_path_def drop_Suc tl_drop numeral_eq_Suc)
  have g: "getdstart d (entry_read e) = getdstart d e" for d e by (simp add: getdstart_def)
  define f2 where "f2 = no_pattern (dir_init_fnode (dpbs s dp) (getdstart (dpbs s dp) (?e j)) f1)"
  have st: "no_pattern (dir_init_fnode (dpbs s dp) 0 (f\<lparr>f_dpb := dp\<rparr>))\<lparr>dm_name_pat := pat\<rparr> = root_start dp pat f"
    using f32 by (simp add: no_pattern_def dir_init_fnode_def Let_def root_start_def)
  have w0: "dir_walk E False [] f2 s1 = Some (Inr (True, f2, s1))" by (subst dir_walk.simps) simp
  have "dir_open E p False f s = Some (Inr (True, f2, s1))"
    using p(2) pp st S(1) F(1) j(2) nd d1 g w0
    by (simp add: dir_open_def) (subst dir_walk.simps, simp add: Let_def f2_def)
  moreover have "f_dpb f2 = dp" "dm_dircluster f2 = getdstart (dpbs s dp) (?e j)"
    using nd(2) f32 by (simp_all add: f2_def no_pattern_def dir_init_fnode_def Let_def)
  ultimately show ?thesis using S(2) by blast
qed

section \<open>Renaming\<close>

definition stored_name :: "8 word list \<Rightarrow> 8 word list" where
  "stored_name n = (if n ! 0 = EXT_DELETED then n[0 := SUBSTED_E5] else n)"

lemma stored_name_first:
  assumes "length n = 11"
  shows "stored_name n ! 0 \<noteq> EXT_DELETED" "stored_name n ! 0 = 0 \<longleftrightarrow> n ! 0 = 0"
proof -
  have ne: "n \<noteq> []" using assms by auto
  then show "stored_name n ! 0 \<noteq> EXT_DELETED" "stored_name n ! 0 = 0 \<longleftrightarrow> n ! 0 = 0"
    by (auto simp: stored_name_def nth_list_update EXT_DELETED_def SUBSTED_E5_def)
qed

lemma stored_name_read:
  assumes "length n = 11" "n ! 0 \<noteq> SUBSTED_E5"
  shows "entry_read (e\<lparr>dir_name := stored_name n\<rparr>) = e\<lparr>dir_name := n\<rparr>"
proof -
  have ne: "n \<noteq> []" using assms(1) by auto
  have "n[0 := EXT_DELETED] = n" if "n ! 0 = EXT_DELETED" using that by (metis list_update_id)
  then have "n ! 0 = 0xe5 \<Longrightarrow> n[0 := 0xe5] = n" by (simp add: EXT_DELETED_def)
  then show ?thesis using assms(2) ne
    by (auto simp: entry_read_def entry_char_def raw_first_def stored_name_def Let_def nth_list_update EXT_DELETED_def SUBSTED_E5_def)
qed

text \<open>Writing an entry that stays: what is stored, and what the f-node holds afterwards.\<close>

lemma swap_wr_live:
  assumes len: "length (dir_name (f_dir h)) = 11" and c: "dir_name (f_dir h) ! 0 \<noteq> SUBSTED_E5" and p: "d_flags h AND DFLG_DELETE_PEND = 0"
  shows "\<exists>x. swap_deleted_wr h = Some x \<and> f_dir x = (f_dir h)\<lparr>dir_name := stored_name (dir_name (f_dir h))\<rparr>
     \<and> unswap_deleted_wr x = CLEAR_RDELETED h"
proof -
  have ne: "dir_name (f_dir h) \<noteq> []" using len by auto
  have upd: "(dir_name (f_dir h))[0 := EXT_DELETED] = dir_name (f_dir h)" if "dir_name (f_dir h) ! 0 = EXT_DELETED"
    using that by (metis list_update_id)
  show ?thesis
    using ne c p by (auto simp: upd swap_deleted_wr_def first_char_def Let_def stored_name_def set_first_def unswap_deleted_wr_def
        unsubst_def CLEAR_RDELETED_def nth_list_update)
qed

lemma length_to_name83: "length (fst (to_name83 i n p)) = length n"
  by (induction i n p rule: to_name83.induct) auto

lemma root_path_length: "root_path p pat \<Longrightarrow> length pat = 11"
  using length_to_name83[of 0 "replicate 11 chr_blank" "drop 3 p"] by (simp add: root_path_def ConvertNameSZToName83_def)

lemma rename_in_place:
  assumes rel: "reliable E 512 rd" and ok: "fat_ok rd V dp s os" and rv: "root_vol V (dpbs s dp)"
    and f: "f_dpb f = dp" "dm_dircluster f = 0" "dm_entry f = of_nat j" "d_flags f AND DFLG_DELETE_PEND = 0"
    and j: "j < unat (dpb_dirents (dpbs s dp))" "\<forall>k \<le> j. raw_first (root_entry rd s os dp k) \<noteq> 0"
    and n: "length n = 11" "n ! 0 \<noteq> SUBSTED_E5"
  shows "\<exists>f3 s3 f4 s4 os3 os4. remove_lfn_entries E f s = Some (Inr (SUCCESS, f3, s3))
     \<and> write_back E (f3\<lparr>f_dir := (f_dir f3)\<lparr>dir_name := n\<rparr>\<rparr>) s3 = Some (Inr (SUCCESS, f4, s4))
     \<and> dir_marked rd V dp (lfn_run (root_entry rd s os dp) j) s os s3 os3
     \<and> entry_set rd V dp j ((root_entry rd s os dp j)\<lparr>dir_name := stored_name n\<rparr>) s3 os3 s4 os4"
proof -
  let ?d = "dpbs s dp" and ?e = "root_entry rd s os dp j"
  obtain f3 s3 os3 g where R: "remove_lfn_entries E f s = Some (Inr (SUCCESS, f3, s3))"
     "dir_marked rd V dp (lfn_run (root_entry rd s os dp) j) s os s3 os3" "f3 = entry_node ?d j ?e g" "f_dpb g = dp"
     "d_flags f3 AND DFLG_DELETE_PEND = 0"
    using remove_lfn_entries_root[OF rel ok rv f(1-3) j] f(4) by blast
  define h where "h = f3\<lparr>f_dir := (f_dir f3)\<lparr>dir_name := n\<rparr>\<rparr>"
  have k: "fat_ok rd V dp s3 os3" "dpbs s3 = dpbs s" using R(2) by (simp_all add: dir_marked_def)
  have on: "on_root dp (dpbs s3 dp) j h" using j(1) n(1) R(4) by (simp add: on_root_def h_def R(3) k(2))
  obtain x where sw: "swap_deleted_wr h = Some x" "f_dir x = (f_dir h)\<lparr>dir_name := stored_name (dir_name (f_dir h))\<rparr>"
    using swap_wr_live[of h] n R(5) by (auto simp: h_def)
  have fx: "f_dir x = ?e\<lparr>dir_name := stored_name n\<rparr>"
    by (simp add: sw(2) h_def R(3) entry_read_def)
  obtain s4 os4 where W: "dir_write E h s3 = Some (True, unswap_deleted_wr x, s4)" "entry_set rd V dp j (f_dir x) s3 os3 s4 os4"
    using dir_write_root[OF rel k(1) _ on sw(1)] rv k(2) by auto
  have "write_back E h s3 = Some (Inr (SUCCESS, unswap_deleted_wr x, s4))" using W(1) by (simp add: write_back_def)
  then show ?thesis using R(1,2) W(2) unfolding fx h_def by blast
qed

lemma quiet_first:
  assumes "quiet rd V dp s os s' os'" "root_vol V (dpbs s dp)"
  shows "root_first rd s' os' dp Q k = root_first rd s os dp Q k"
proof -
  have d: "dpbs s' = dpbs s" using assms(1) by (simp add: quiet_def)
  have "k < unat (dpb_dirents (dpbs s dp)) \<Longrightarrow> i \<le> k \<Longrightarrow> root_entry rd s' os' dp i = root_entry rd s os dp i" for i
    using root_entry_quiet[OF assms] by simp
  then show ?thesis unfolding root_first_def d by auto
qed

lemma find_fname_step:
  assumes rel: "reliable E 512 rd" and ok: "fat_ok rd V dp s os" and rv: "root_vol V (dpbs s dp)"
    and p: "root_path p pat" "get_dpb (path_drive p) s = Some dp"
  shows "\<exists>f' s' os'. find_fname E p attr f s =
      Some (Inr (if \<exists>k. root_first rd s os dp (entry_matches 0 attr pat) k then SUCCESS else DE_FILENOTFND, f', s'))
     \<and> quiet rd V dp s os s' os' \<and> f_dpb f' = dp \<and> dm_dircluster f' = 0 \<and> dm_name_pat f' = pat
     \<and> d_flags f' AND DFLG_DELETE_PEND = 0
     \<and> (\<forall>k. root_first rd s os dp (entry_matches 0 attr pat) k \<longrightarrow>
          dm_entry f' = of_nat k \<and> f_dir f' = entry_read (root_entry rd s os dp k))"
proof -
  have f32: "\<not> ISFAT32 (dpbs s dp)" using ok by (simp add: fat_ok_def fat_vol_def)
  obtain f' s' os' j where F: "find_in_dir E 0 attr (root_start dp pat f) s =
      Some (Inr (if \<exists>k. root_first rd s os dp (entry_matches 0 attr pat) k then SUCCESS else DE_FILENOTFND, f', s'))"
     "quiet rd V dp s os s' os'" "dm_entry f' = of_nat j" "same_search (root_start dp pat f) f'"
     "\<forall>k. root_first rd s os dp (entry_matches 0 attr pat) k \<longrightarrow>
          k = j \<and> found_at (dpbs s dp) j (root_entry rd s os dp j) (root_start dp pat f) f'"
    using find_in_dir_root[OF rel ok rv root_start_simps(1), of 0 attr pat f] unfolding root_start_simps by blast
  have "f_dir f' = entry_read (root_entry rd s os dp j)"
    if "found_at (dpbs s dp) j (root_entry rd s os dp j) (root_start dp pat f) f'"
    using that by (auto simp: found_at_def)
  moreover have "f_dpb f' = dp" "dm_dircluster f' = 0" "dm_name_pat f' = pat" "d_flags f' AND DFLG_DELETE_PEND = 0"
    using F(4) by (simp_all add: same_search_def root_start_def)
  ultimately show ?thesis using F(1-3,5) unfolding find_fname_root[OF p f32] by blast
qed

section \<open>A free entry\<close>

definition free_slot :: "'w disk_reader \<Rightarrow> 'w diskio \<Rightarrow> 16 word list \<Rightarrow> 32 word \<Rightarrow> nat \<Rightarrow> bool" where
  "free_slot rd s os dp j \<longleftrightarrow> j < unat (dpb_dirents (dpbs s dp)) \<and> raw_first (root_entry rd s os dp j) \<in> {0, EXT_DELETED}
     \<and> (\<forall>k < j. raw_first (root_entry rd s os dp k) \<notin> {0, EXT_DELETED})"

lemma free_slot_unique: "free_slot rd s os dp j \<Longrightarrow> free_slot rd s os dp k \<Longrightarrow> j = k"
  unfolding free_slot_def by (meson not_less_iff_gr_or_eq)

lemma quiet_free_slot:
  assumes "quiet rd V dp s os s' os'" "root_vol V (dpbs s dp)"
  shows "free_slot rd s' os' dp k = free_slot rd s os dp k"
proof -
  have d: "dpbs s' = dpbs s" using assms(1) by (simp add: quiet_def)
  have "k < unat (dpb_dirents (dpbs s dp)) \<Longrightarrow> i \<le> k \<Longrightarrow> root_entry rd s' os' dp i = root_entry rd s os dp i" for i
    using root_entry_quiet[OF assms] by simp
  then show ?thesis unfolding free_slot_def d by auto
qed

lemma find_free_root:
  assumes rel: "reliable E 512 rd" and ok: "fat_ok rd V dp s os" and rv: "root_vol V (dpbs s dp)" and f: "root_node dp f"
  shows "\<exists>f' s' os' j. find_free E f s = Some (Inr (\<exists>k. free_slot rd s os dp k, f', s')) \<and> quiet rd V dp s os s' os' \<and> same_search f f'
     \<and> dm_entry f' = of_nat j
     \<and> (\<forall>k. free_slot rd s os dp k \<longrightarrow> k = j \<and> found_at (dpbs s dp) j (root_entry rd s os dp j) f f')"
proof -
  let ?d = "dpbs s dp" and ?e = "root_entry rd s os dp"
  define n where "n = unat (dpb_dirents ?d)"
  obtain r j where S: "dir_search (\<lambda>e. raw_first e = EXT_DELETED) 0 (map ?e [0..<n]) = (r, j)"
    by (cases "dir_search (\<lambda>e. raw_first e = EXT_DELETED) 0 (map ?e [0..<n])")
  have f0: "f_dpb f = dp" "dm_dircluster f = 0" "0 = unat (dm_entry f)" using f by (simp_all add: root_node_def)
  have PQ: "is_deleted (entry_node ?d i e g) = (raw_first e = EXT_DELETED)" if "length (dir_name e) = 11" for g i e
    using that by simp
  obtain f' s' os' where F: "scan_dir E is_deleted f s = Some (Inr (r, f', s'))" "quiet rd V dp s os s' os'" "same_search f f'"
      "dm_entry f' = of_nat j" "r \<noteq> DE_SEEK \<longrightarrow> j < n \<and> found_at ?d j (?e j) f f'"
    using scan_root[where P = is_deleted and Q = "\<lambda>e. raw_first e = EXT_DELETED",
        OF rel refl rv n_def f0(1,2) PQ refl quiet_refl[OF ok] ok same_search_refl f0(3) _ S] by auto
  have C: "r = DE_SEEK \<and> (\<forall>k < n. raw_first (?e k) \<noteq> 0 \<and> raw_first (?e k) \<noteq> EXT_DELETED)
      \<or> r \<noteq> DE_SEEK \<and> 0 \<le> r \<and> j < n \<and> (\<forall>k < j. raw_first (?e k) \<noteq> 0 \<and> raw_first (?e k) \<noteq> EXT_DELETED)
         \<and> (raw_first (?e j) = 0 \<or> raw_first (?e j) = EXT_DELETED)"
    using dir_search_cases[OF S] by auto
  have B: "(0 \<le> r) = (\<exists>k. free_slot rd s os dp k) \<and> (\<forall>k. free_slot rd s os dp k \<longrightarrow> k = j \<and> found_at ?d j (?e j) f f')"
  proof (cases "r = DE_SEEK")
    case True
    then have "\<not> free_slot rd s os dp k" for k using C by (auto simp: free_slot_def n_def)
    then show ?thesis using True by (simp add: DE_SEEK_def)
  next
    case False
    then have fs: "free_slot rd s os dp j" "0 \<le> r" using C by (auto simp: free_slot_def n_def)
    then show ?thesis using F(5) False free_slot_unique by blast
  qed
  have "find_free E f s = Some (Inr (\<exists>k. free_slot rd s os dp k, f', s'))"
    unfolding B[THEN conjunct1, symmetric] by (simp add: find_free_def F(1))
  then show ?thesis using F(2-4) B[THEN conjunct2] by blast
qed

lemma alloc_find_free_root:
  assumes rel: "reliable E 512 rd" and ok: "fat_ok rd V dp s os" and rv: "root_vol V (dpbs s dp)"
    and p: "root_path p pat" "get_dpb (path_drive p) s = Some dp"
  shows "\<exists>f' s' os' j. alloc_find_free E p f s = Some (Inr (if \<exists>k. free_slot rd s os dp k then SUCCESS else DE_TOOMANY, f', s'))
     \<and> quiet rd V dp s os s' os' \<and> same_search (root_start dp pat f) f' \<and> dm_entry f' = of_nat j
     \<and> (\<forall>k. free_slot rd s os dp k \<longrightarrow> k = j \<and> found_at (dpbs s dp) j (root_entry rd s os dp j) (root_start dp pat f) f')"
proof -
  have f32: "\<not> ISFAT32 (dpbs s dp)" using ok by (simp add: fat_ok_def fat_vol_def)
  obtain f' s' os' j where F: "find_free E (root_start dp pat f) s = Some (Inr (\<exists>k. free_slot rd s os dp k, f', s'))"
     "quiet rd V dp s os s' os'" "same_search (root_start dp pat f) f'" "dm_entry f' = of_nat j"
     "\<forall>k. free_slot rd s os dp k \<longrightarrow> k = j \<and> found_at (dpbs s dp) j (root_entry rd s os dp j) (root_start dp pat f) f'"
    using find_free_root[OF rel ok rv root_start_simps(1)] by blast
  have "dm_dircluster f' = 0" using F(3) by (simp add: same_search_def root_start_def)
  then have "alloc_find_free E p f s = Some (Inr (if \<exists>k. free_slot rd s os dp k then SUCCESS else DE_TOOMANY, f', s'))"
    using split_path_root[OF p f32, of E f] F(1) by (simp add: alloc_find_free_def)
  then show ?thesis using F(2-5) by blast
qed

end
