(* ===== verification/Dirs_Create.thy ===== *)
theory Dirs_Create
  imports Dirs_Ops
begin

text \<open>
  Creating a file in the root directory: the entry goes into the first free slot and the handle's
  entry of the system file table stands on it.
\<close>

section \<open>The table of files and the directory\<close>

lemma table_only_get_dpb: "table_only s s' \<Longrightarrow> get_dpb d s' = get_dpb d s"
  by (auto simp: table_only_def get_dpb_def split: option.split)

lemma table_only_root: "table_only s s' \<Longrightarrow> root_entry rd s' os dp k = root_entry rd s os dp k"
  by (simp add: root_entry_def table_only_disk)

lemma table_only_first:
  assumes "table_only s s'"
  shows "root_first rd s' os dp Q k = root_first rd s os dp Q k" "free_slot rd s' os dp k = free_slot rd s os dp k"
  by (simp_all add: root_first_def free_slot_def table_only_root[OF assms] table_only_disk(1)[OF assms])

text \<open>Entry \<open>j\<close> is \<open>e\<close>; the table of clusters, every other entry and every other block are as before.\<close>

definition entry_made ::
    "'w disk_reader \<Rightarrow> block_id set \<Rightarrow> 32 word \<Rightarrow> nat \<Rightarrow> dirent \<Rightarrow> 'w diskio \<Rightarrow> 16 word list \<Rightarrow> 'w diskio \<Rightarrow> 16 word list \<Rightarrow> bool" where
  "entry_made rd V dp j e s os s' os' \<longleftrightarrow> fat_ok rd V dp s' os' \<and> fat_bytes rd s' os' dp = fat_bytes rd s os dp \<and> dpbs s' = dpbs s
     \<and> (\<forall>k < unat (dpb_dirents (dpbs s dp)). root_entry rd s' os' dp k = (if k = j then e else root_entry rd s os dp k))
     \<and> (\<forall>v \<in> V - fat_blocks (dpbs s dp) - {root_block (dpbs s dp) (j div 16)}. view 512 rd s' os' v = view 512 rd s os v)"

lemma entry_set_made: "entry_set rd V dp j e s os s' os' \<Longrightarrow> entry_made rd V dp j e s os s' os'"
  by (auto simp: entry_set_def entry_made_def)

lemma entry_made_table: "entry_made rd V dp j e s os s1 os1 \<Longrightarrow> table_only s1 s2 \<Longrightarrow> entry_made rd V dp j e s os s2 os1"
  by (simp add: entry_made_def table_only_fat table_only_disk table_only_root)

lemma table_entry_made:
  assumes "table_only s s1" "entry_made rd V dp j e s1 os s2 os2"
  shows "entry_made rd V dp j e s os s2 os2"
  using assms(2) unfolding entry_made_def table_only_fat(1,2)[OF assms(1)] table_only_disk[OF assms(1)] table_only_root[OF assms(1)] .

lemma quiet_entry_made:
  assumes q: "quiet rd V dp s os s1 os1" and m: "entry_made rd V dp j e s1 os1 s2 os2" and rv: "root_vol V (dpbs s dp)"
  shows "entry_made rd V dp j e s os s2 os2"
proof -
  have d: "dpbs s1 = dpbs s" "fat_bytes rd s1 os1 dp = fat_bytes rd s os dp" using q by (simp_all add: quiet_def)
  have v: "\<forall>v \<in> V - fat_blocks (dpbs s dp). view 512 rd s1 os1 v = view 512 rd s os v" using q by (simp add: quiet_def data_kept_def)
  show ?thesis using m v root_entry_quiet[OF q rv] unfolding entry_made_def d by auto
qed

section \<open>The end of an open that creates\<close>

definition new_file :: "'w layers \<Rightarrow> 8 word \<Rightarrow> 8 word list \<Rightarrow> 'w kernel \<Rightarrow> dirent" where
  "new_file L attrib pat k = (init_direntry L attrib FREE_CLUSTER pat k)\<lparr>dir_name := stored_name pat\<rparr>"

text \<open>The entry of the system file table stands on the empty file in slot \<open>j\<close>.\<close>

definition sft_on_new :: "32 word \<Rightarrow> dpb \<Rightarrow> nat \<Rightarrow> 8 word \<Rightarrow> 8 word list \<Rightarrow> sft_t \<Rightarrow> bool" where
  "sft_on_new dp d j attrib pat e \<longleftrightarrow> sft_dev e = dp \<and> sft_name e = pat \<and> sft_attrib e = attrib \<and> sft_size e = 0 \<and> sft_posit e = 0
     \<and> sft_stclust e = FREE_CLUSTER \<and> sft_cuclust e = FREE_CLUSTER
     \<and> sft_dirsector e = snd (root_block d (j div 16)) \<and> sft_diridx e = of_nat (j mod 16)"

lemma open_done_created:
  assumes rel: "reliable E 512 rd" and ok: "fat_ok rd V dp s os" and rv: "root_vol V (dpbs s dp)"
    and f: "f_dpb f = dp" "j < unat (dpb_dirents (dpbs s dp))" "f_dirsector f = snd (root_block (dpbs s dp) (j div 16))"
      "f_diridx f = of_nat (j mod 16)" "dm_name_pat f = pat" "d_flags f AND DFLG_DELETE_PEND = 0"
    and n: "length pat = 11" "pat ! 0 \<noteq> SUBSTED_E5"
    and fd: "fd < 255" "fd < nsft (kern s)" "sft_count (sft_at (kern s) fd) \<noteq> 0"
  shows "\<exists>f' s' os'. open_done E L attrib fd S_CREATED f s = Some (Inr (S_CREATED, f', s'))
     \<and> entry_made rd V dp j (new_file L attrib pat (kern s)) s os s' os'
     \<and> sft_on_new dp (dpbs s dp) j attrib pat (sft_at (kern s') fd)"
proof -
  let ?d = "dpbs s dp"
  have f32: "\<not> ISFAT32 ?d" using ok by (simp add: fat_ok_def fat_vol_def)
  define f1 where "f1 = f\<lparr>f_sft_idx := of_nat fd, f_offset := 0, f_cluster_offset := 0,
                 f_flags := (f_flags f AND NOT SFT_FDATE) OR SFT_FCLEAN\<rparr>"
  define h where "h = f1\<lparr>f_dir := init_direntry L attrib FREE_CLUSTER pat (kern s)\<rparr>"
  have hd: "dir_name (f_dir h) = pat" "d_flags h AND DFLG_DELETE_PEND = 0"
    using f(6) by (simp_all add: h_def f1_def init_direntry_def)
  obtain x where x: "swap_deleted_wr h = Some x" "f_dir x = (f_dir h)\<lparr>dir_name := stored_name pat\<rparr>" "unswap_deleted_wr x = CLEAR_RDELETED h"
    using swap_wr_live[of h] n hd by auto
  have fx: "f_dir x = new_file L attrib pat (kern s)" by (simp add: x(2) h_def new_file_def)
  have on: "on_root dp ?d j h" using f(1-4) n(1) by (simp add: on_root_def h_def f1_def init_direntry_def)
  obtain s2 os2 where W: "dir_write E h s = Some (True, CLEAR_RDELETED h, s2)"
     "entry_set rd V dp j (new_file L attrib pat (kern s)) s os s2 os2"
    using dir_write_root[OF rel ok rv on x(1)] unfolding x(3) fx by blast
  define f2 where "f2 = CLEAR_RDELETED h"
  have d2: "dpbs s2 = dpbs s" and k2: "kcore s2 = kcore s" using W(2) by (simp_all add: entry_set_def)
  have t2: "sft_tbl (kern s2) = sft_tbl (kern s)" using kcore_fields[OF k2] by simp
  have fi: "f_sft_idx f2 = of_nat fd" "f_dpb f2 = dp" "f_dir f2 = init_direntry L attrib FREE_CLUSTER pat (kern s)"
    "f_offset f2 = 0" "f_dirsector f2 = snd (root_block ?d (j div 16))" "f_diridx f2 = of_nat (j mod 16)"
    using f(1,3,4) by (simp_all add: f2_def CLEAR_RDELETED_def h_def f1_def)
  define s3 where "s3 = merge_file_changes f2 s2"
  have t3: "table_only s2 s3" unfolding s3_def by (rule merge_table_only)
  have c3: "concat (sft_tbl (kern s3)) = spread_block ?d f2 0 (concat (sft_tbl (kern s)))"
    by (simp add: s3_def merge_file_changes_def on_kernel_def concat_spread t2 d2 fi(2))
  have u: "unat (of_nat fd :: 8 word) = fd" using fd(1) by (simp add: unsigned_of_nat take_bit_eq_mod)
  have own: "nsft (kern s3) = nsft (kern s)" "sft_at (kern s3) fd = sft_at (kern s) fd"
    using fd(2) spread_block_nth[of fd "concat (sft_tbl (kern s))" ?d f2 0] u fi(1)
    by (simp_all add: nsft_def sft_at_def c3 same_file_def)
  define f4 where "f4 = f2\<lparr>f_cluster := getdstart (dpbs s3 (f_dpb f2)) (f_dir f2)\<rparr>"
  have g0: "getdstart ?d (init_direntry L attrib FREE_CLUSTER pat (kern s)) = FREE_CLUSTER"
    using f32 by (simp add: getdstart_def init_direntry_def FREE_CLUSTER_def)
  have d3: "dpbs s3 = dpbs s" using table_only_disk(1)[OF t3] d2 by simp
  have f4: "f_cluster f4 = FREE_CLUSTER" "f_dpb f4 = dp" "f_sft_idx f4 = of_nat fd" "f_dir f4 = f_dir f2"
    "f_offset f4 = 0" "f_dirsector f4 = snd (root_block ?d (j div 16))" "f_diridx f4 = of_nat (j mod 16)"
    using fi g0 d3 by (simp_all add: f4_def)
  define s4 where "s4 = s3\<lparr>kern := with_table (sft_upd fd (store_fnode (dpbs s3 (f_dpb f4)) f4) (sft_tbl (kern s3))) (Some fd) (kern s3)\<rparr>"
  have ui: "uint (f_sft_idx f4) = int fd" using u f4(3) by (metis uint_nat)
  have st: "fnode_to_sft f4 s3 = Inr s4"
    unfolding s4_def by (rule fnode_to_sft_eq) (use own fd ui in simp_all)
  have t4: "table_only s3 s4" unfolding table_only_def s4_def by blast
  have hh: "f1\<lparr>f_dir := init_direntry L attrib FREE_CLUSTER (dm_name_pat f1) (kern s)\<rparr> = h"
    using f(5) by (simp add: h_def f1_def)
  have cr: "S_CREATED \<noteq> S_OPENED" by (simp add: S_CREATED_def S_OPENED_def)
  have "open_done E L attrib fd S_CREATED f s = Some (Inr (S_CREATED, f4, s4))"
    using W(1)[folded f2_def] st cr unfolding open_done_def f1_def[symmetric] Let_def hh write_back_def
    by (simp add: s3_def[symmetric] f4_def[symmetric])
  moreover have "entry_made rd V dp j (new_file L attrib pat (kern s)) s os s4 os2"
    using entry_made_table[OF entry_set_made[OF W(2)] table_only_trans[OF t3 t4]] .
  moreover have "sft_at (kern s4) fd = store_fnode ?d f4 (sft_at (kern s) fd)"
    using own fd(2) d3 f4(2) by (simp add: s4_def sft_at_def nsft_def concat_sft_upd)
  then have "sft_on_new dp ?d j attrib pat (sft_at (kern s4) fd)"
    using f4 fi(3) g0 by (simp add: sft_on_new_def store_fnode_def) (simp add: init_direntry_def)
  ultimately show ?thesis by blast
qed

end
