(* ===== verification/Dirs_Names.thy ===== *)
theory Dirs_Names
  imports Dirs
begin

text \<open>
  File names: the form a user writes, with a dot, and the form of a directory entry, padded
  with blanks.
\<close>

section \<open>Names and their padded form\<close>

definition ordinary :: "8 word list \<Rightarrow> bool" where
  "ordinary cs \<longleftrightarrow> (\<forall>c \<in> set cs. c \<noteq> 0 \<and> c \<noteq> chr_dot \<and> c \<noteq> chr_slash)"

definition pad_to :: "nat \<Rightarrow> 8 word list \<Rightarrow> 8 word list" where
  "pad_to n cs = cs @ replicate (n - length cs) chr_blank"

text \<open>A part of a name: ordinary characters, none of them a blank at the end.\<close>

definition name_part :: "nat \<Rightarrow> 8 word list \<Rightarrow> bool" where
  "name_part n cs \<longleftrightarrow> length cs \<le> n \<and> ordinary cs \<and> (cs \<noteq> [] \<longrightarrow> last cs \<noteq> chr_blank)"

definition dotted :: "8 word list \<Rightarrow> 8 word list \<Rightarrow> 8 word list" where
  "dotted name ext = (if ext = [] then name else name @ chr_dot # ext)"

lemma strip_pad [simp]: "name_part n cs \<Longrightarrow> strip_blanks (pad_to n cs) = cs"
proof -
  assume a: "name_part n cs"
  have "dropWhile (\<lambda>c. c = chr_blank) (replicate k chr_blank @ rev cs) = rev cs" for k
    using a by (induction k) (cases "rev cs"; auto simp: name_part_def last_rev hd_rev[symmetric])+
  then show ?thesis by (simp add: strip_blanks_def pad_to_def)
qed

lemma length_pad [simp]: "name_part n cs \<Longrightarrow> length (pad_to n cs) = n"
  by (simp add: pad_to_def name_part_def)

lemma to_name83_run:
  "ordinary cs \<Longrightarrow> i + length cs \<le> 11 \<Longrightarrow> length nm11 = 11 \<Longrightarrow>
     to_name83 i nm11 (cs @ rest) = to_name83 (i + length cs) (take i nm11 @ cs @ drop (i + length cs) nm11) rest"
proof (induction cs arbitrary: i nm11)
  case (Cons c cs)
  have c: "c \<noteq> 0" "c \<noteq> chr_dot" "c \<noteq> chr_slash" "ordinary cs" using Cons.prems(1) by (auto simp: ordinary_def)
  have "take (Suc i) (nm11[i := c]) = take i nm11 @ [c]" using Cons.prems(2,3) by (simp add: take_Suc_conv_app_nth)
  moreover have "drop (Suc i + length cs) (nm11[i := c]) = drop (Suc i + length cs) nm11" by simp
  moreover have "to_name83 i nm11 ((c # cs) @ rest) = to_name83 (Suc i) (nm11[i := c]) (cs @ rest)"
    using c Cons.prems(2) by simp
  ultimately show ?case using Cons.IH[OF c(4), of "Suc i" "nm11[i := c]"] Cons.prems(2,3) by simp
qed simp

lemma to_name83_stop: "rest = [] \<or> hd rest = chr_slash \<Longrightarrow> to_name83 i nm11 rest = (nm11, rest)"
  by (cases rest) (auto simp: chr_defs)

lemma convert_name:
  assumes n: "name_part 8 name" and e: "name_part 3 ext" and r: "rest = [] \<or> hd rest = chr_slash"
  shows "ConvertNameSZToName83 (dotted name ext @ rest) = (pad_to 8 name @ pad_to 3 ext, rest)"
proof -
  have l: "ordinary name" "length name \<le> 8" "ordinary ext" "length ext \<le> 3" using n e by (simp_all add: name_part_def)
  let ?n1 = "name @ replicate (11 - length name) chr_blank"
  have r1: "to_name83 0 (replicate 11 chr_blank) (name @ q) = to_name83 (length name) ?n1 q" for q
    using to_name83_run[OF l(1), of 0 "replicate 11 chr_blank" q] l(2) by simp
  have p8: "take 8 ?n1 = pad_to 8 name" using l(2) by (simp add: pad_to_def min_def)
  have p11: "?n1 = pad_to 8 name @ replicate 3 chr_blank"
    using l(2) by (simp add: pad_to_def replicate_add[symmetric])
  show ?thesis
  proof (cases "ext = []")
    case True
    then show ?thesis using r1 p11 to_name83_stop[OF r] by (simp add: ConvertNameSZToName83_def dotted_def pad_to_def[of 3])
  next
    case False
    have "length name < 11" using l(2) by simp
    then have "to_name83 (length name) ?n1 (chr_dot # ext @ rest) = to_name83 8 ?n1 (ext @ rest)" by simp
    also have "\<dots> = to_name83 (8 + length ext) (take 8 ?n1 @ ext @ drop (8 + length ext) ?n1) rest"
      by (rule to_name83_run) (use l in simp_all)
    also have "take 8 ?n1 @ ext @ drop (8 + length ext) ?n1 = pad_to 8 name @ pad_to 3 ext"
      unfolding p11 using n by (simp add: pad_to_def[of 3])
    finally show ?thesis using False r1 to_name83_stop[OF r] by (simp add: ConvertNameSZToName83_def dotted_def)
  qed
qed

lemma convert_back:
  assumes n: "name_part 8 name" "name \<noteq> []" and e: "name_part 3 ext"
  shows "ConvertName83ToNameSZ (pad_to 8 name @ pad_to 3 ext) = dotted name ext"
proof -
  have "(pad_to 8 name @ pad_to 3 ext) ! 0 = hd name" using n(2) by (simp add: pad_to_def hd_conv_nth nth_append)
  moreover have "hd name \<noteq> chr_dot" using n by (simp add: name_part_def ordinary_def)
  ultimately show ?thesis using n e by (auto simp: ConvertName83ToNameSZ_def Let_def dotted_def)
qed

end
