(* ===== verification/Dirs_Props.thy ===== *)
theory Dirs_Props
  imports Dirs_Create Dirs_Names Fileio_Props
begin

text \<open>
  The properties of directories, and a volume whose root directory holds a directory and a
  file, on which they are applied.
\<close>

section \<open>An example\<close>

definition plain_entry :: "8 word list \<Rightarrow> 8 word \<Rightarrow> 16 word \<Rightarrow> dirent" where
  "plain_entry name attr start = \<lparr>dir_name = pad_to 11 name, dir_attrib = attr, dir_case = 0, dir_crtimems = 0, dir_crtime = 0,
     dir_crdate = 0, dir_accdate = 0, dir_start_high = 0, dir_time = 0, dir_date = 0, dir_start = start, dir_size = 1000\<rparr>"

definition dir6 :: dirent where "dir6 = plain_entry [0x44] D_DIR 4"
definition file6 :: dirent where "file6 = plain_entry [0x41] D_ARCHIVE 2"

definition world6 :: platters where
  "world6 = (\<lambda>_ blk. if blk = 1 then fat_image
     else if blk = 13 then putdirent dir6 0 (putdirent file6 32 (\<lambda>_. 0)) else (\<lambda>_. 0))"

definition io6 :: "platters diskio" where
  "io6 = io5\<lparr>kern := with_world world6 (kern io5)\<rparr>"

lemma io6_simps [simp]: "dpbs io6 = (\<lambda>_. dpb1)" "bufs io6 = bufs io1" "firstbuf io6 = firstbuf io1"
  by (simp_all add: io6_def)

lemma io6_get_dpb: "get_dpb 0 io6 = Some 0x700000"
proof -
  have "kern io6 = with_world world6 (kern io5)" by (simp add: io6_def)
  from get_dpb_cong[OF this, of 0] show ?thesis unfolding io5_get_dpb .
qed

lemma fat_ok6: "fat_ok (\<lambda>w. w) vol5 0x700000 io6 bufs3"
proof -
  have "lru io6 bufs3" using lru_same_links[of io1 io6] io1_lru by (simp add: same_links_def)
  moreover have "drives_ok 512 (fst ` vol5) io6"
    by (auto simp: drives_ok_def vol5_def io6_get_dpb dpb1_simps inj_on_def)
  ultimately show ?thesis
    using fat_vol5 by (simp add: fat_ok_def cache_ok_def buffer_ok_def unique_blocks_def io3_unused)
qed

lemma view6: "view 512 (\<lambda>w. w) io6 bufs3 (0, b) = sector 512 (if b = 1 then fat_image
     else if b = 13 then putdirent dir6 0 (putdirent file6 32 (\<lambda>_. 0)) else (\<lambda>_. 0))"
  by (simp add: view_miss io3_unused disk_def io6_def with_world_def world6_def)

lemma fat_bytes6: "fat_bytes (\<lambda>w. w) io6 bufs3 0x700000 = fat_image"
proof
  fix i
  show "fat_bytes (\<lambda>w. w) io6 bufs3 0x700000 i = fat_image i"
  proof (cases "i < 3072")
    case True
    have "i div 512 < 6" using True by simp
    then have "fat_sector dpb1 (i div 512) < 13 \<and> (fat_sector dpb1 (i div 512) = 1 \<longleftrightarrow> i < 512)"
      unfolding less_6 by (auto simp: fat_sector_def dpb1_simps)
    then show ?thesis
      by (auto simp: fat_bytes_def fat_len_def dpb1_simps view6 sector_def fat_image_def)
  qed (simp add: fat_bytes_def fat_len_def dpb1_simps fat_image_def)
qed

lemma root_block6: "root_block dpb1 k = (0, of_nat k + 13)"
  by (simp add: root_block_def dpb1_def)

lemma dirents6: "unat (dpb_dirents dpb1) = 512"
  by (simp add: dpb1_def)

lemma root_vol6: "root_vol vol5 dpb1"
proof -
  have "root_block dpb1 (i div 16) \<in> vol5 - fat_blocks dpb1" if i: "i < 512" for i
  proof -
    have k: "unat (of_nat (i div 16) + 13 :: 32 word) = i div 16 + 13"
      using unat_small[of "i div 16 + 13"] i by simp
    have "(of_nat (i div 16) + 13 :: 32 word) \<notin> {7, 8, 9, 10, 11, 12}"
    proof
      assume a: "(of_nat (i div 16) + 13 :: 32 word) \<in> {7, 8, 9, 10, 11, 12}"
      have "unat x \<le> 12" if "x \<in> {7, 8, 9, 10, 11, 12}" for x :: "32 word" using that by auto
      from this[OF a] have "unat (of_nat (i div 16) + 13 :: 32 word) \<le> 12" .
      then show False using k by simp
    qed
    moreover have "(of_nat (i div 16) + 13 :: 32 word) \<noteq> fat_sector dpb1 j" if "j < 6" for j
    proof
      assume a: "(of_nat (i div 16) + 13 :: 32 word) = fat_sector dpb1 j"
      have "unat (fat_sector dpb1 j) \<le> 6" using that unfolding less_6 by (auto simp: fat_sector_def dpb1_simps)
      then show False using k unfolding a[symmetric] by simp
    qed
    ultimately show ?thesis unfolding root_block6 by (auto simp: vol5_def fat_blocks_def dpb1_simps)
  qed
  then show ?thesis by (simp add: root_vol_def dirents6)
qed

lemma root_entry6:
  "root_entry (\<lambda>w. w) io6 bufs3 0x700000 0 = dir6" "root_entry (\<lambda>w. w) io6 bufs3 0x700000 1 = file6"
proof -
  have l: "length (dir_name dir6) = 11" "length (dir_name file6) = 11" by (simp_all add: dir6_def file6_def plain_entry_def pad_to_def)
  have b: "root_block dpb1 0 = (0, 13)" by (simp add: root_block6)
  show "root_entry (\<lambda>w. w) io6 bufs3 0x700000 0 = dir6"
    by (simp add: root_entry_def b view6 getdirent_sector getdirent_putdirent l)
  show "root_entry (\<lambda>w. w) io6 bufs3 0x700000 1 = file6"
    by (simp add: root_entry_def b view6 getdirent_sector getdirent_putdirent_other getdirent_putdirent l)
qed

lemma ram_disk_all_single: "reliable ram_disk_all 512 (\<lambda>w. w)"
  using reliable_all_one[OF ram_disk_all_reliable] by simp

section \<open>The properties\<close>

text \<open>C27. Searching the root directory for a file is a search in the list of its entries: the first
  entry, before the first one never used, that is not deleted, has the name and only attributes
  that are allowed. The search ends, reports whether there is one, stands on it, and nothing the
  cache shows changes.\<close>

theorem find_fname_is_list_search:
  assumes rel: "reliable E 512 rd" and ok: "fat_ok rd V dp s os" and rv: "root_vol V (dpbs s dp)"
    and p: "root_path p pat" "get_dpb (path_drive p) s = Some dp"
  shows "\<exists>f' s' os' j. find_fname E p attr f s =
      Some (Inr (if \<exists>k. root_first rd s os dp (entry_matches 0 attr pat) k then SUCCESS else DE_FILENOTFND, f', s'))
     \<and> quiet rd V dp s os s' os'
     \<and> (\<forall>k. root_first rd s os dp (entry_matches 0 attr pat) k \<longrightarrow>
          k = j \<and> dm_entry f' = of_nat j \<and> f_dir f' = entry_read (root_entry rd s os dp j))"
proof -
  obtain f' s' os' where F: "find_fname E p attr f s =
      Some (Inr (if \<exists>k. root_first rd s os dp (entry_matches 0 attr pat) k then SUCCESS else DE_FILENOTFND, f', s'))"
     "quiet rd V dp s os s' os'"
     "\<forall>k. root_first rd s os dp (entry_matches 0 attr pat) k \<longrightarrow>
          dm_entry f' = of_nat k \<and> f_dir f' = entry_read (root_entry rd s os dp k)"
    using find_fname_step[OF assms, of attr f] by blast
  moreover obtain j where "\<forall>k. root_first rd s os dp (entry_matches 0 attr pat) k \<longrightarrow> k = j"
    using root_first_unique by metis
  ultimately show ?thesis by (intro exI[of _ f'] exI[of _ s'] exI[of _ os'] exI[of _ j]) blast
qed

definition path_a :: "8 word list" where "path_a = [0x41, 0x3a, 0x5c, 0x41]"
definition path_d :: "8 word list" where "path_d = [0x41, 0x3a, 0x5c, 0x44]"

lemma paths6: "root_path path_a (pad_to 11 [0x41])" "root_path path_d (pad_to 11 [0x44])"
  "path_drive path_a = 0" "path_drive path_d = 0"
  by code_simp+

lemma first_file6: "root_first (\<lambda>w. w) io6 bufs3 0x700000 (entry_matches 0 0 (pad_to 11 [0x41])) (Suc 0)"
proof -
  have "entry_matches 0 0 (pad_to 11 [0x41]) file6" "\<not> entry_matches 0 0 (pad_to 11 [0x41]) dir6"
    "raw_first dir6 \<noteq> 0" "raw_first file6 \<noteq> 0"
    by code_simp+
  then show ?thesis
    using root_entry6 by (auto simp: root_first_def dirents6 le_Suc_eq)
qed

theorem find_fname_is_list_search_witness:
  "\<exists>f' s'. find_fname ram_disk_all path_a 0 file3 io6 = Some (Inr (SUCCESS, f', s')) \<and> dir_start (f_dir f') = 2"
proof -
  have "root_vol vol5 (dpbs io6 0x700000)" "get_dpb (path_drive path_a) io6 = Some 0x700000"
    using root_vol6 io6_get_dpb by (simp_all add: paths6)
  from find_fname_is_list_search[OF ram_disk_all_single fat_ok6 this(1) paths6(1) this(2), of 0 file3]
  obtain f' s' os' j where F: "find_fname ram_disk_all path_a 0 file3 io6 =
      Some (Inr (if \<exists>k. root_first (\<lambda>w. w) io6 bufs3 0x700000 (entry_matches 0 0 (pad_to 11 [0x41])) k then SUCCESS else DE_FILENOTFND, f', s'))"
     "\<forall>k. root_first (\<lambda>w. w) io6 bufs3 0x700000 (entry_matches 0 0 (pad_to 11 [0x41])) k \<longrightarrow>
          k = j \<and> dm_entry f' = of_nat j \<and> f_dir f' = entry_read (root_entry (\<lambda>w. w) io6 bufs3 0x700000 j)"
    by blast
  have ex: "\<exists>k. root_first (\<lambda>w. w) io6 bufs3 0x700000 (entry_matches 0 0 (pad_to 11 [0x41])) k" using first_file6 by blast
  have "f_dir f' = entry_read file6" using F(2) first_file6 root_entry6(2) by auto
  then show ?thesis using F(1) unfolding if_P[OF ex] by (auto simp: file6_def plain_entry_def)
qed

text \<open>C29. Writing an entry of the root directory. A name that begins with 05h is refused and
  nothing changes. Any other entry is written and is then on the disk: reading it gives back
  what was written, a first byte E5h included, and says that the directory ends there when the
  first byte is 00h; no other entry changes and no other block, and every block of the drive is on
  the disk as the cache shows it.\<close>

theorem written_entry_is_read:
  assumes rel: "reliable E 512 rd" and ok: "fat_ok rd V dp s os" and rv: "root_vol V (dpbs s dp)"
    and f: "on_root dp (dpbs s dp) i f" "dm_dircluster f = 0" "dm_entry f = of_nat i" "d_flags f AND DFLG_DELETE_PEND = 0"
  shows "if first_char f = SUBSTED_E5 then \<exists>s1 os1. dir_write E f s = Some (False, f, s1) \<and> quiet rd V dp s os s1 os1
    else \<exists>f1 s1 os1 f2 s2. dir_write E f s = Some (True, f1, s1) \<and> f_dir f1 = f_dir f
     \<and> dir_read E f1 s1 = Some (Inr (if first_char f = 0 then 0 else 1, f2, s2)) \<and> f_dir f2 = f_dir f \<and> \<not> is_deleted f2
     \<and> fat_bytes rd s1 os1 dp = fat_bytes rd s os dp
     \<and> (\<forall>j < unat (dpb_dirents (dpbs s dp)). j \<noteq> i \<longrightarrow> root_entry rd s1 os1 dp j = root_entry rd s os dp j)
     \<and> (\<forall>v \<in> V - {root_block (dpbs s dp) (i div 16)}. view 512 rd s1 os1 v = view 512 rd s os v)
     \<and> (\<forall>v \<in> V. fst v = vol_unit (dpbs s dp) \<longrightarrow> disk 512 rd s1 v = view 512 rd s1 os1 v)"
proof (cases "first_char f = SUBSTED_E5")
  case True
  then show ?thesis using dir_write_refused[OF rel ok rv f(1)] by simp
next
  case c: False
  let ?d = "dpbs s dp" and ?n = "dir_name (f_dir f)"
  have on: "f_dpb f = dp" "i < unat (dpb_dirents ?d)" "length ?n = 11" using f(1) by (simp_all add: on_root_def)
  have n0: "?n ! 0 \<noteq> SUBSTED_E5" using c by (simp add: first_char_def)
  obtain g where g: "swap_deleted_wr f = Some g" "f_dir g = (f_dir f)\<lparr>dir_name := stored_name ?n\<rparr>" "unswap_deleted_wr g = CLEAR_RDELETED f"
    using swap_wr_live[OF on(3) n0 f(4)] by blast
  obtain s1 os1 where W: "dir_write E f s = Some (True, CLEAR_RDELETED f, s1)" "entry_set rd V dp i (f_dir g) s os s1 os1"
    using dir_write_root[OF rel ok rv f(1) g(1)] unfolding g(3) by blast
  define f1 where "f1 = CLEAR_RDELETED f"
  have d1: "f_dpb f1 = dp" "dm_dircluster f1 = 0" "dm_entry f1 = of_nat i" "f_dir f1 = f_dir f"
    using f on(1) by (simp_all add: f1_def CLEAR_RDELETED_def)
  have k: "fat_ok rd V dp s1 os1" "dpbs s1 = dpbs s" using W(2) by (simp_all add: entry_set_def)
  have e1: "f_dir g = root_entry rd s1 os1 dp i" using W(2) on(2) by (simp add: entry_set_def)
  have u: "i = unat (dm_entry f1)" using on(2) rv by (simp add: d1(3) root_vol_def unsigned_of_nat take_bit_eq_mod)
  have er: "entry_read (f_dir g) = f_dir f" unfolding g(2) using stored_name_read[OF on(3) n0, of "f_dir f"] by simp
  have rf: "raw_first (f_dir g) \<noteq> EXT_DELETED" "raw_first (f_dir g) = 0 \<longleftrightarrow> first_char f = 0"
    using stored_name_first[OF on(3)] by (simp_all add: g(2) raw_first_def first_char_def)
  have len: "length (dir_name (f_dir g)) = 11" by (simp add: e1)
  obtain s2 os2 where R: "dir_read E f1 s1 = Some (Inr (if first_char f = 0 then 0 else 1, entry_node ?d i (f_dir g) f1, s2))"
    using dir_read_root[OF rel k(1) _ d1(1,2) u _ e1] rf(2) rv on(2) k(2) by auto
  have "\<exists>f1 s1 os1 f2 s2. dir_write E f s = Some (True, f1, s1) \<and> f_dir f1 = f_dir f
     \<and> dir_read E f1 s1 = Some (Inr (if first_char f = 0 then 0 else 1, f2, s2)) \<and> f_dir f2 = f_dir f \<and> \<not> is_deleted f2
     \<and> fat_bytes rd s1 os1 dp = fat_bytes rd s os dp
     \<and> (\<forall>j < unat (dpb_dirents ?d). j \<noteq> i \<longrightarrow> root_entry rd s1 os1 dp j = root_entry rd s os dp j)
     \<and> (\<forall>v \<in> V - {root_block ?d (i div 16)}. view 512 rd s1 os1 v = view 512 rd s os v)
     \<and> (\<forall>v \<in> V. fst v = vol_unit ?d \<longrightarrow> disk 512 rd s1 v = view 512 rd s1 os1 v)"
    using W(1)[folded f1_def] d1(4) R er rf(1) len W(2) unfolding entry_set_def
    by (intro exI[of _ f1] exI[of _ s1] exI[of _ os1] exI[of _ "entry_node ?d i (f_dir g) f1"] exI[of _ s2]) simp
  then show ?thesis unfolding if_not_P[OF c] .
qed

definition slot6 :: f_node where
  "slot6 = file3\<lparr>f_dir := plain_entry [0xe5, 0x42] D_ARCHIVE 0, f_dirsector := 13, f_diridx := 2, dm_entry := 2\<rparr>"

theorem written_entry_is_read_witness:
  "\<exists>f1 s1 f2 s2. dir_write ram_disk_all slot6 io6 = Some (True, f1, s1) \<and> dir_read ram_disk_all f1 s1 = Some (Inr (1, f2, s2))
     \<and> f_dir f2 = plain_entry [0xe5, 0x42] D_ARCHIVE 0 \<and> \<not> is_deleted f2"
proof -
  have f: "on_root 0x700000 (dpbs io6 0x700000) 2 slot6" "dm_dircluster slot6 = 0" "dm_entry slot6 = of_nat 2"
    "d_flags slot6 AND DFLG_DELETE_PEND = 0" "f_dir slot6 = plain_entry [0xe5, 0x42] D_ARCHIVE 0"
    by (simp_all add: on_root_def slot6_def file3_def dirents6 root_block6 plain_entry_def pad_to_def)
  have c: "first_char slot6 = 0xe5" by (simp add: first_char_def f(5) plain_entry_def pad_to_def)
  have rv: "root_vol vol5 (dpbs io6 0x700000)" using root_vol6 by simp
  show ?thesis using written_entry_is_read[OF ram_disk_all_single fat_ok6 rv f(1-4)]
    unfolding c f(5) by (auto simp: SUBSTED_E5_def)
qed

lemma removed_not_found:
  assumes r: "dir_removed rd V dp M cs s os s' os'" and j: "j \<in> M" "root_first rd s os dp (entry_matches req attr pat) j"
    and k: "root_first rd s' os' dp (entry_matches req attr pat) k"
  shows "j < k"
proof (rule ccontr)
  assume "\<not> j < k"
  then have kj: "k \<le> j" by simp
  have lt: "k < unat (dpb_dirents (dpbs s dp))" using j(2) kj by (simp add: root_first_def)
  have nz: "raw_first (root_entry rd s os dp k) \<noteq> 0" using j(2) kj by (simp add: root_first_def)
  have e: "root_entry rd s' os' dp k = (if k \<in> M then marked (root_entry rd s os dp k) else root_entry rd s os dp k)"
    using r lt by (simp add: dir_removed_def)
  have m: "entry_matches req attr pat (root_entry rd s' os' dp k)" using k by (simp add: root_first_def)
  then have "k \<notin> M" using e marked_simps(1)[OF root_entry_name nz] by (auto simp: entry_matches_def)
  then have "entry_matches req attr pat (root_entry rd s os dp k)" "k \<noteq> j" using m e j(1) by auto
  then show False using j(2) kj by (simp add: root_first_def)
qed

text \<open>C28. Deleting a file of the root directory ends and succeeds: its entry and the entries of its
  long name are marked, the first character kept for an undelete, exactly its clusters are free,
  the name is not found again unless a later entry has it, and every other entry, cluster and
  block is as before.\<close>

theorem dos_delete_removes_file:
  assumes rel: "reliable E 512 rd" and ok: "fat_ok rd V dp s os" and rv: "root_vol V (dpbs s dp)"
    and p: "root_path p pat" "get_dpb (path_drive p) s = Some dp"
    and e: "root_first rd s os dp (entry_matches 0 attr pat) j" "dir_attrib (root_entry rd s os dp j) AND (D_RDONLY OR D_DIR) = 0"
    and h: "in_vol (dpbs s dp) (hint_of (dpbs s dp))"
    and ch: "entry_chain (dpbs s dp) (fat_bytes rd s os dp) (root_entry rd s os dp j) cs"
  shows "\<exists>f' s' os'. dos_delete E p attr f s = Some (Inr (SUCCESS, f', s'))
     \<and> dir_removed rd V dp (insert j (lfn_run (root_entry rd s os dp) j)) cs s os s' os'
     \<and> entry_of (dpbs s' dp) (fat_bytes rd s' os' dp)
         = (\<lambda>c. if c \<in> set cs then FREE_CLUSTER else entry_of (dpbs s dp) (fat_bytes rd s os dp) c)
     \<and> (\<forall>k. root_first rd s' os' dp (entry_matches 0 attr pat) k \<longrightarrow> j < k)"
proof -
  obtain f' s' os' where D: "dos_delete E p attr f s = Some (Inr (SUCCESS, f', s'))"
     "dir_removed rd V dp (insert j (lfn_run (root_entry rd s os dp) j)) cs s os s' os'"
    using dos_delete_root[OF assms] by blast
  have fv: "fat_vol V (dpbs s dp)" using ok by (simp add: fat_ok_def)
  have "entry_of (dpbs s' dp) (fat_bytes rd s' os' dp)
         = (\<lambda>c. if c \<in> set cs then FREE_CLUSTER else entry_of (dpbs s dp) (fat_bytes rd s os dp) c)"
    using D(2) entry_wiped[OF fv, of "fat_bytes rd s os dp" cs] by (auto simp: dir_removed_def FREE_CLUSTER_def)
  then show ?thesis using D removed_not_found[OF D(2) insertI1 e(1)] by blast
qed

lemma hint6: "in_vol (dpbs io6 0x700000) (hint_of (dpbs io6 0x700000))"
  using hint3 by simp

theorem dos_delete_removes_file_witness:
  "\<exists>f' s' os'. dos_delete ram_disk_all path_a 0 file3 io6 = Some (Inr (SUCCESS, f', s'))
     \<and> raw_first (root_entry (\<lambda>w. w) s' os' 0x700000 (Suc 0)) = EXT_DELETED
     \<and> dir_crtimems (root_entry (\<lambda>w. w) s' os' 0x700000 (Suc 0)) = 0x41
     \<and> root_entry (\<lambda>w. w) s' os' 0x700000 0 = dir6 \<and> entry_of (dpbs s' 0x700000) (fat_bytes (\<lambda>w. w) s' os' 0x700000) 3 = FREE_CLUSTER"
proof -
  have a: "root_vol vol5 (dpbs io6 0x700000)" "get_dpb (path_drive path_a) io6 = Some 0x700000"
    using root_vol6 io6_get_dpb by (simp_all add: paths6)
  have e: "dir_attrib (root_entry (\<lambda>w. w) io6 bufs3 0x700000 (Suc 0)) AND (D_RDONLY OR D_DIR) = 0"
    "entry_chain (dpbs io6 0x700000) (fat_bytes (\<lambda>w. w) io6 bufs3 0x700000) (root_entry (\<lambda>w. w) io6 bufs3 0x700000 (Suc 0)) [2, 3]"
    using root_entry6(2) chain3 fat_bytes6 by (simp_all add: file6_def plain_entry_def dir_flags entry_chain_def getdstart_def dpb1_simps)
  obtain f' s' os' where D: "dos_delete ram_disk_all path_a 0 file3 io6 = Some (Inr (SUCCESS, f', s'))"
     "dir_removed (\<lambda>w. w) vol5 0x700000 (insert (Suc 0) (lfn_run (root_entry (\<lambda>w. w) io6 bufs3 0x700000) (Suc 0))) [2, 3] io6 bufs3 s' os'"
     "entry_of (dpbs s' 0x700000) (fat_bytes (\<lambda>w. w) s' os' 0x700000)
         = (\<lambda>c. if c \<in> set [2, 3] then FREE_CLUSTER else entry_of (dpbs io6 0x700000) (fat_bytes (\<lambda>w. w) io6 bufs3 0x700000) c)"
    using dos_delete_removes_file[OF ram_disk_all_single fat_ok6 a(1) paths6(1) a(2) first_file6 e(1) hint6 e(2), of file3] by blast
  have l: "lfn_run (root_entry (\<lambda>w. w) io6 bufs3 0x700000) (Suc 0) = {}"
    using root_entry6(1) by (simp add: lfn_run_Suc dir6_def plain_entry_def dir_flags)
  have "root_entry (\<lambda>w. w) s' os' 0x700000 (Suc 0) = marked file6" "root_entry (\<lambda>w. w) s' os' 0x700000 0 = dir6"
    using D(2) root_entry6 unfolding l by (simp_all add: dir_removed_def dirents6)
  moreover have "raw_first (marked file6) = EXT_DELETED" "dir_crtimems (marked file6) = 0x41"
    by code_simp+
  moreover have "entry_of (dpbs s' 0x700000) (fat_bytes (\<lambda>w. w) s' os' 0x700000) 3 = FREE_CLUSTER" unfolding D(3) by simp
  ultimately show ?thesis using D(1) by metis
qed

text \<open>C32. A directory of the root directory that has been removed still opens: the entry is marked
  and its clusters are free, yet the walk along a path, which does not ask whether an entry is
  deleted, finds it under its old name and stands in its first, now free cluster.\<close>

theorem removed_directory_still_opens:
  assumes rel: "reliable E 512 rd" and ok: "fat_ok rd V dp s os" and rv: "root_vol V (dpbs s dp)"
    and p: "root_path p pat" "get_dpb (path_drive p) s = Some dp"
    and e: "root_first rd s os dp (walk_entry pat) j" "dir_attrib (root_entry rd s os dp j) AND D_DIR \<noteq> 0"
    and g: "f_dpb g = dp" "dm_dircluster g = 0" "dm_entry g = of_nat j"
    and h: "in_vol (dpbs s dp) (hint_of (dpbs s dp))"
    and ch: "entry_chain (dpbs s dp) (fat_bytes rd s os dp) (root_entry rd s os dp j) cs"
  shows "\<exists>g' s1 os1. delete_dir_entry E g s = Some (Inr (SUCCESS, g', s1))
     \<and> raw_first (root_entry rd s1 os1 dp j) = EXT_DELETED
     \<and> (\<forall>c \<in> set cs. entry_of (dpbs s1 dp) (fat_bytes rd s1 os1 dp) c = FREE_CLUSTER)
     \<and> (\<forall>f. \<exists>f' s2. dir_open E p False f s1 = Some (Inr (True, f', s2))
          \<and> dm_dircluster f' = getdstart (dpbs s dp) (root_entry rd s os dp j))"
proof -
  let ?e = "root_entry rd s os dp j"
  have j: "j < unat (dpb_dirents (dpbs s dp))" "\<forall>k \<le> j. raw_first (root_entry rd s os dp k) \<noteq> 0"
    using e(1) by (simp_all add: root_first_def)
  obtain g' s1 os1 where D: "delete_dir_entry E g s = Some (Inr (SUCCESS, g', s1))"
     "dir_removed rd V dp (insert j (lfn_run (root_entry rd s os dp) j)) cs s os s1 os1"
    using delete_root[OF rel ok rv g j h ch] by blast
  obtain n c where d: "dpbs s1 dp = with_hint (dpbs s dp) n c" using D(2) by (auto simp: dir_removed_def)
  have m: "root_entry rd s1 os1 dp j = marked ?e" using D(2) j(1) by (simp add: dir_removed_def)
  have nz: "raw_first ?e \<noteq> 0" using j(2) by simp
  note M = marked_simps[OF root_entry_name nz]
  have fv: "fat_vol V (dpbs s dp)" using ok by (simp add: fat_ok_def)
  have "entry_of (dpbs s1 dp) (fat_bytes rd s1 os1 dp) c = FREE_CLUSTER" if "c \<in> set cs" for c
    using D(2) that entry_wiped[OF fv, of "fat_bytes rd s os dp" cs] d by (simp add: dir_removed_def FREE_CLUSTER_def)
  moreover have "\<exists>f' s2. dir_open E p False f s1 = Some (Inr (True, f', s2)) \<and> dm_dircluster f' = getdstart (dpbs s dp) ?e" for f
  proof -
    have k: "fat_ok rd V dp s1 os1" "root_vol V (dpbs s1 dp)" using D(2) rv d by (simp_all add: dir_removed_def)
    have p1: "get_dpb (path_drive p) s1 = Some dp" using D(2) p(2) get_dpb_kcore[of s1 s] by (simp add: dir_removed_def)
    have e1: "root_first rd s1 os1 dp (walk_entry pat) j"
      by (rule root_first_removed[OF D(2) _ e(1)]) (rule marked_simps(6))
    have "dir_attrib (root_entry rd s1 os1 dp j) AND D_DIR \<noteq> 0" using m M(2) e(2) by simp
    from dir_open_root[OF rel k p(1) p1 e1 this, of f] show ?thesis using m M(5) d by auto
  qed
  moreover have "raw_first (root_entry rd s1 os1 dp j) = EXT_DELETED" using m M(1) by simp
  ultimately show ?thesis using D(1) by blast
qed

lemma first_dir6: "root_first (\<lambda>w. w) io6 bufs3 0x700000 (walk_entry (pad_to 11 [0x44])) 0"
proof -
  have "walk_entry (pad_to 11 [0x44]) dir6" "raw_first dir6 \<noteq> 0" by code_simp+
  then show ?thesis using root_entry6 by (simp add: root_first_def dirents6)
qed

theorem removed_directory_still_opens_witness:
  "\<exists>g' s1 os1 f' s2. delete_dir_entry ram_disk_all file3 io6 = Some (Inr (SUCCESS, g', s1))
     \<and> raw_first (root_entry (\<lambda>w. w) s1 os1 0x700000 0) = EXT_DELETED
     \<and> entry_of (dpbs s1 0x700000) (fat_bytes (\<lambda>w. w) s1 os1 0x700000) 4 = FREE_CLUSTER
     \<and> dir_open ram_disk_all path_d False file3 s1 = Some (Inr (True, f', s2)) \<and> dm_dircluster f' = 4"
proof -
  have a: "root_vol vol5 (dpbs io6 0x700000)" "get_dpb (path_drive path_d) io6 = Some 0x700000"
    using root_vol6 io6_get_dpb by (simp_all add: paths6)
  have e: "dir_attrib (root_entry (\<lambda>w. w) io6 bufs3 0x700000 0) AND D_DIR \<noteq> 0"
    "entry_chain (dpbs io6 0x700000) (fat_bytes (\<lambda>w. w) io6 bufs3 0x700000) (root_entry (\<lambda>w. w) io6 bufs3 0x700000 0) [4]"
    "getdstart (dpbs io6 0x700000) (root_entry (\<lambda>w. w) io6 bufs3 0x700000 0) = 4"
    using root_entry6(1) chain4 fat_bytes6 by (simp_all add: dir6_def plain_entry_def dir_flags entry_chain_def getdstart_def dpb1_simps)
  have g: "f_dpb file3 = 0x700000" "dm_dircluster file3 = 0" "dm_entry file3 = of_nat 0" by (simp_all add: file3_def)
  have "\<exists>g' s1 os1. delete_dir_entry ram_disk_all file3 io6 = Some (Inr (SUCCESS, g', s1))
     \<and> raw_first (root_entry (\<lambda>w. w) s1 os1 0x700000 0) = EXT_DELETED
     \<and> (\<forall>c \<in> set [4]. entry_of (dpbs s1 0x700000) (fat_bytes (\<lambda>w. w) s1 os1 0x700000) c = FREE_CLUSTER)
     \<and> (\<forall>f. \<exists>f' s2. dir_open ram_disk_all path_d False f s1 = Some (Inr (True, f', s2))
          \<and> dm_dircluster f' = getdstart (dpbs io6 0x700000) (root_entry (\<lambda>w. w) io6 bufs3 0x700000 0))"
    by (rule removed_directory_still_opens[OF ram_disk_all_single fat_ok6 a(1) paths6(2) a(2) first_dir6 e(1) g hint6 e(2)])
  then show ?thesis unfolding e(3) by fastforce
qed

text \<open>C33. A name with its extension goes into the padded form of a directory entry and back: the
  conversion that opens a path reads the dotted name into the two padded fields and stops at the
  next component, and the conversion that reports a found file gives the dotted name back.\<close>

theorem names_roundtrip:
  assumes "name_part 8 name" "name \<noteq> []" "name_part 3 ext" "rest = [] \<or> hd rest = chr_slash"
  shows "ConvertNameSZToName83 (dotted name ext @ rest) = (pad_to 8 name @ pad_to 3 ext, rest)
     \<and> ConvertName83ToNameSZ (pad_to 8 name @ pad_to 3 ext) = dotted name ext"
  using convert_name[OF assms(1,3,4)] convert_back[OF assms(1-3)] by simp

theorem names_roundtrip_witness:
  "ConvertName83ToNameSZ (fst (ConvertNameSZToName83 [0x41, 0x42, 0x2e, 0x43, 0x5c, 0x44])) = [0x41, 0x42, 0x2e, 0x43]"
proof -
  have "name_part 8 [0x41, 0x42]" "name_part 3 [0x43]" by (simp_all add: name_part_def ordinary_def chr_defs)
  then show ?thesis
    using names_roundtrip[of "[0x41, 0x42]" "[0x43]" "[0x5c, 0x44]"] by (simp add: dotted_def chr_defs)
qed

text \<open>C31. Renaming a file within the root directory, not the current directory and not to a name that
  begins with 00h or 05h: when an entry with the new name and allowed
  attributes exists the call is refused and nothing changes; otherwise it succeeds, the entry
  keeps everything but its name, which reads back as the new one, the entries of the old long
  name are marked, and nothing else changes.\<close>

theorem dos_rename_renames_in_place:
  assumes rel: "reliable E 512 rd" and ok: "fat_ok rd V dp s os" and rv: "root_vol V (dpbs s dp)"
    and p1: "root_path p1 pat1" "get_dpb (path_drive p1) s = Some dp" and p2: "root_path p2 pat2" "get_dpb (path_drive p2) s = Some dp"
    and cur: "path_cds p1 s = Some c" "p1 \<noteq> cdsCurrentPath (CDSp (kern s) ! c)"
    and j: "root_first rd s os dp (entry_matches 0 attr pat1) j" and n: "pat2 ! 0 \<noteq> SUBSTED_E5" "pat2 ! 0 \<noteq> 0"
  shows "if \<exists>k. root_first rd s os dp (entry_matches 0 attr pat2) k
    then \<exists>fa' fb' s' os'. dos_rename E p1 p2 attr fa fb s = Some (Inr (DE_ACCESS, fa', fb', s')) \<and> quiet rd V dp s os s' os'
    else \<exists>fa' fb' s1 s' os1 os'. dos_rename E p1 p2 attr fa fb s = Some (Inr (SUCCESS, fa', fb', s'))
      \<and> dir_marked rd V dp (lfn_run (root_entry rd s os dp) j) s os s1 os1
      \<and> entry_set rd V dp j ((root_entry rd s os dp j)\<lparr>dir_name := stored_name pat2\<rparr>) s1 os1 s' os'
      \<and> entry_read (root_entry rd s' os' dp j) = (root_entry rd s os dp j)\<lparr>dir_name := pat2\<rparr>"
proof -
  let ?es = "root_entry rd s os dp"
  have jn: "j < unat (dpb_dirents (dpbs s dp))" "\<forall>k \<le> j. raw_first (?es k) \<noteq> 0" using j by (simp_all add: root_first_def)
  have ex1: "\<exists>k. root_first rd s os dp (entry_matches 0 attr pat1) k" using j by blast
  obtain f1 s1 os1 where F: "find_fname E p1 attr fa s = Some (Inr (SUCCESS, f1, s1))" "quiet rd V dp s os s1 os1"
     "f_dpb f1 = dp" "dm_dircluster f1 = 0" "d_flags f1 AND DFLG_DELETE_PEND = 0" "dm_entry f1 = of_nat j"
    using find_fname_step[OF rel ok rv p1, of attr fa] j unfolding if_P[OF ex1] by blast
  have k1: "fat_ok rd V dp s1 os1" "dpbs s1 = dpbs s" "kcore s1 = kcore s" using F(2) by (simp_all add: quiet_def)
  have g1: "get_dpb (path_drive p2) s1 = Some dp" using get_dpb_kcore[OF k1(3)] p2(2) by simp
  have same: "root_first rd s1 os1 dp Q k = root_first rd s os dp Q k" for Q k using quiet_first[OF F(2) rv] .
  have rv1: "root_vol V (dpbs s1 dp)" using rv k1(2) by simp
  obtain f2 s2 os2 where G: "find_fname E p2 attr fb s1 =
      Some (Inr (if \<exists>k. root_first rd s os dp (entry_matches 0 attr pat2) k then SUCCESS else DE_FILENOTFND, f2, s2))"
     "quiet rd V dp s1 os1 s2 os2" "dm_dircluster f2 = 0" "dm_name_pat f2 = pat2"
    using find_fname_step[OF rel k1(1) rv1 p2(1) g1, of attr fb] unfolding same by blast
  have q: "quiet rd V dp s os s2 os2" using quiet_trans[OF F(2) G(2)] .
  show ?thesis
  proof (cases "\<exists>k. root_first rd s os dp (entry_matches 0 attr pat2) k")
    case True
    have "dos_rename E p1 p2 attr fa fb s = Some (Inr (DE_ACCESS, f1, f2, s2))"
      using cur F(1) G(1) True by (simp add: dos_rename_def SUCCESS_def DE_FILENOTFND_def)
    then show ?thesis using q unfolding if_P[OF True] by blast
  next
    case False
    have k2: "fat_ok rd V dp s2 os2" "dpbs s2 = dpbs s" using q by (simp_all add: quiet_def)
    have e2: "root_entry rd s2 os2 dp i = ?es i" if "i < unat (dpb_dirents (dpbs s dp))" for i
      using root_entry_quiet[OF q rv that] .
    have len: "length pat2 = 11" using root_path_length[OF p2(1)] .
    have l2: "lfn_run (root_entry rd s2 os2 dp) j = lfn_run ?es j" by (rule lfn_run_cong) (use e2 jn(1) in simp)
    obtain f3 s3 f4 s4 os3 os4 where R: "remove_lfn_entries E f1 s2 = Some (Inr (SUCCESS, f3, s3))"
       "write_back E (f3\<lparr>f_dir := (f_dir f3)\<lparr>dir_name := pat2\<rparr>\<rparr>) s3 = Some (Inr (SUCCESS, f4, s4))"
       "dir_marked rd V dp (lfn_run ?es j) s2 os2 s3 os3"
       "entry_set rd V dp j ((?es j)\<lparr>dir_name := stored_name pat2\<rparr>) s3 os3 s4 os4"
      using rename_in_place[OF rel k2(1) _ F(3,4,6,5) _ _ len n(1)] rv k2(2) jn e2 unfolding l2 by auto
    have "dos_rename E p1 p2 attr fa fb s = Some (Inr (SUCCESS, f4, f2, s4))"
      using cur F(1) G(1) False R(1,2) F(4) G(3,4) by (simp add: dos_rename_def Let_def SUCCESS_def DE_FILENOTFND_def)
    moreover have "dir_marked rd V dp (lfn_run ?es j) s os s3 os3"
      using dir_marked_trans[OF dir_marked_quiet[OF q rv] R(3)] by simp
    moreover have "root_entry rd s4 os4 dp j = (?es j)\<lparr>dir_name := stored_name pat2\<rparr>"
      using R(3,4) jn(1) k2(2) by (simp add: entry_set_def dir_marked_def)
    moreover have "entry_read ((?es j)\<lparr>dir_name := stored_name pat2\<rparr>) = (?es j)\<lparr>dir_name := pat2\<rparr>"
      using stored_name_read[OF len n(1)] .
    ultimately show ?thesis using R(4) unfolding if_not_P[OF False] by metis
  qed
qed

definition path_b :: "8 word list" where "path_b = [0x41, 0x3a, 0x5c, 0x42]"

lemma path_b6: "root_path path_b (pad_to 11 [0x42])" "path_drive path_b = 0" "pad_to 11 [0x42] ! 0 = (0x42 :: 8 word)"
  by code_simp+

lemma path_cds6: "path_cds path_a io6 = Some 0" "path_a \<noteq> cdsCurrentPath (CDSp (kern io6) ! 0)"
  by (simp_all add: path_cds_def io6_def io5_def with_world_def kern3_def kern1_def get_cds_def path_a_def char_at_def
      Let_def CDSVALID_def CDSJOINED_def CDSNETWDRV_def)

lemma entry2_6: "raw_first (root_entry (\<lambda>w. w) io6 bufs3 0x700000 2) = 0"
proof -
  have "root_entry (\<lambda>w. w) io6 bufs3 0x700000 2 = getdirent (\<lambda>_. 0) 64"
    by (simp add: root_entry_def root_block6 view6 getdirent_sector getdirent_putdirent_other)
  then show ?thesis by (simp add: raw_first_def getdirent_def)
qed

lemma no_file_b6: "\<not> root_first (\<lambda>w. w) io6 bufs3 0x700000 (entry_matches 0 0 (pad_to 11 [0x42])) k"
proof
  assume k: "root_first (\<lambda>w. w) io6 bufs3 0x700000 (entry_matches 0 0 (pad_to 11 [0x42])) k"
  have n: "\<not> entry_matches 0 0 (pad_to 11 [0x42]) dir6" "\<not> entry_matches 0 0 (pad_to 11 [0x42]) file6" by code_simp+
  have "\<not> 2 \<le> k" using k entry2_6 by (auto simp: root_first_def)
  then have "k = 0 \<or> k = 1" by auto
  then show False using k n root_entry6 by (auto simp: root_first_def)
qed

theorem dos_rename_renames_in_place_witness:
  "\<exists>fa fb s' os'. dos_rename ram_disk_all path_a path_b 0 file3 file3 io6 = Some (Inr (SUCCESS, fa, fb, s'))
     \<and> dir_name (entry_read (root_entry (\<lambda>w. w) s' os' 0x700000 1)) = pad_to 11 [0x42]
     \<and> dir_start (root_entry (\<lambda>w. w) s' os' 0x700000 1) = 2"
proof -
  have a: "root_vol vol5 (dpbs io6 0x700000)" "get_dpb (path_drive path_a) io6 = Some 0x700000"
    "get_dpb (path_drive path_b) io6 = Some 0x700000"
    using root_vol6 io6_get_dpb by (simp_all add: paths6 path_b6)
  have n: "pad_to 11 [0x42] ! 0 \<noteq> SUBSTED_E5" "pad_to 11 [0x42] ! 0 \<noteq> (0 :: 8 word)" unfolding path_b6(3) SUBSTED_E5_def by simp_all
  have no: "\<not> (\<exists>k. root_first (\<lambda>w. w) io6 bufs3 0x700000 (entry_matches 0 0 (pad_to 11 [0x42])) k)" using no_file_b6 by blast
  obtain fa' fb' s' os' where R: "dos_rename ram_disk_all path_a path_b 0 file3 file3 io6 = Some (Inr (SUCCESS, fa', fb', s'))"
     "entry_read (root_entry (\<lambda>w. w) s' os' 0x700000 (Suc 0)) = (root_entry (\<lambda>w. w) io6 bufs3 0x700000 (Suc 0))\<lparr>dir_name := pad_to 11 [0x42]\<rparr>"
    using dos_rename_renames_in_place[OF ram_disk_all_single fat_ok6 a(1) paths6(1) a(2) path_b6(1) a(3) path_cds6 first_file6 n, of file3 file3]
    unfolding if_not_P[OF no] by blast
  have "dir_start (root_entry (\<lambda>w. w) s' os' 0x700000 1) = dir_start (entry_read (root_entry (\<lambda>w. w) s' os' 0x700000 (Suc 0)))" by simp
  also have "\<dots> = 2" unfolding R(2) using root_entry6(2) by (simp add: file6_def plain_entry_def)
  finally have st: "dir_start (root_entry (\<lambda>w. w) s' os' 0x700000 1) = 2" .
  have "dir_name (entry_read (root_entry (\<lambda>w. w) s' os' 0x700000 1)) = pad_to 11 [0x42]" using R(2) by simp
  with R(1) st show ?thesis by blast
qed

lemma pend_entry_node: "length (dir_name e) = 11 \<Longrightarrow> d_flags g AND DFLG_DELETE_PEND = 0 \<Longrightarrow> d_flags (entry_node d i e g) AND DFLG_DELETE_PEND = 0"
  using same_search_node[of e g d i] by (simp add: same_search_def)

text \<open>C30. Opening a new file for creation in the root directory, when no entry has its name and the name
  does not begin with 05h: the
  entry goes into the first slot that is free, removed or never used, holds the name and no
  cluster, no other entry, cluster or block changes, and the handle's entry of the system file
  table stands on it with size and position zero. When no slot is free the call says so and the
  volume is as before.\<close>

theorem dos_open_creates_file:
  assumes rel: "reliable E 512 rd" and ok: "fat_ok rd V dp s os" and rv: "root_vol V (dpbs s dp)"
    and p: "root_path p pat" "get_dpb (path_drive p) s = Some dp" and n: "pat ! 0 \<noteq> SUBSTED_E5"
    and fd: "fd < 255" "fd < nsft (kern s)" "sft_count (sft_at (kern s) fd) \<noteq> 0"
    and fl: "attrib AND D_VOLID = 0" "flags AND O_CREAT \<noteq> 0"
    and no: "\<forall>k. \<not> root_first rd s os dp (entry_matches 0 (D_ALL OR attrib) pat) k"
  shows "(\<forall>j. free_slot rd s os dp j \<longrightarrow> (\<exists>f' s' os' k. dos_open E L wl p flags attrib fd f s = Some (Inr (S_CREATED, f', s'))
        \<and> entry_made rd V dp j (new_file L attrib pat k) s os s' os' \<and> sft_on_new dp (dpbs s dp) j attrib pat (sft_at (kern s') fd)))
     \<and> ((\<forall>j. \<not> free_slot rd s os dp j) \<longrightarrow> (\<exists>f' s' os'. dos_open E L wl p flags attrib fd f s = Some (Inr (DE_TOOMANY, f', s'))
        \<and> fat_ok rd V dp s' os' \<and> fat_bytes rd s' os' dp = fat_bytes rd s os dp \<and> data_kept rd V (dpbs s dp) s os s' os'))"
proof -
  define f0 where "f0 = load_fnode fd (sft_at (kern s) fd) f"
  define s1 where "s1 = s\<lparr>kern := with_table (sft_tbl (kern s)) (Some fd) (kern s)\<rparr>"
  have t1: "table_only s s1" unfolding table_only_def s1_def by blast
  have k1: "fat_ok rd V dp s1 os" "dpbs s1 = dpbs s" using ok table_only_fat(1)[OF t1] table_only_disk(1)[OF t1] by simp_all
  have g1: "get_dpb (path_drive p) s1 = Some dp" using table_only_get_dpb[OF t1] p(2) by simp
  have no1: "\<not> (\<exists>k. root_first rd s1 os dp (entry_matches 0 (D_ALL OR attrib) pat) k)" using no table_only_first(1)[OF t1] by blast
  have rv1: "root_vol V (dpbs s1 dp)" using rv k1(2) by simp
  obtain f2 s2 os2 where F: "find_fname E p (D_ALL OR attrib) f0 s1 = Some (Inr (DE_FILENOTFND, f2, s2))" "quiet rd V dp s1 os s2 os2"
    using find_fname_step[OF rel k1(1) rv1 p(1) g1, of "D_ALL OR attrib" f0] unfolding if_not_P[OF no1] by blast
  have k2: "fat_ok rd V dp s2 os2" "dpbs s2 = dpbs s" "kcore s2 = kcore s1" using F(2) k1(2) by (simp_all add: quiet_def)
  have g2: "get_dpb (path_drive p) s2 = Some dp" using get_dpb_kcore[OF k2(3)] g1 by simp
  have rv2: "root_vol V (dpbs s2 dp)" using rv k2(2) by simp
  have slot: "free_slot rd s2 os2 dp k = free_slot rd s os dp k" for k
    using quiet_free_slot[OF F(2) rv1] table_only_first(2)[OF t1] by simp
  obtain f3 s3 os3 i where A: "alloc_find_free E p f2 s2 = Some (Inr (if \<exists>k. free_slot rd s os dp k then SUCCESS else DE_TOOMANY, f3, s3))"
     "quiet rd V dp s2 os2 s3 os3"
     "\<forall>k. free_slot rd s os dp k \<longrightarrow> k = i \<and> found_at (dpbs s2 dp) i (root_entry rd s2 os2 dp i) (root_start dp pat f2) f3"
    using alloc_find_free_root[OF rel k2(1) rv2 p(1) g2, of f2] unfolding slot by blast
  have q: "quiet rd V dp s1 os s3 os3" using quiet_trans[OF F(2) A(2)] .
  have k3: "fat_ok rd V dp s3 os3" "dpbs s3 = dpbs s" "kcore s3 = kcore s1" using q k1(2) by (simp_all add: quiet_def)
  have ns: "DE_FILENOTFND \<noteq> SUCCESS" "DE_TOOMANY \<noteq> SUCCESS" by (simp_all add: DE_FILENOTFND_def SUCCESS_def DE_TOOMANY_def)
  have op: "dos_open E L wl p flags attrib fd f s =
      bindR (alloc_find_free E p f2 s2) (\<lambda>(ret, f2, s2). if ret \<noteq> SUCCESS then returnR (ret, f2, s2) else open_done E L attrib fd S_CREATED f2 s2)"
    using fl F(1) ns unfolding dos_open_def sft_to_fnode_eq[OF fd(2,3)] f0_def[symmetric] s1_def[symmetric] by simp
  have "\<exists>f' s' os' k. dos_open E L wl p flags attrib fd f s = Some (Inr (S_CREATED, f', s'))
        \<and> entry_made rd V dp j (new_file L attrib pat k) s os s' os' \<and> sft_on_new dp (dpbs s dp) j attrib pat (sft_at (kern s') fd)"
    if j: "free_slot rd s os dp j" for j
  proof -
    have ex: "\<exists>k. free_slot rd s os dp k" using j by blast
    have ji: "i = j" and fa: "found_at (dpbs s dp) j (root_entry rd s2 os2 dp j) (root_start dp pat f2) f3" using A(3) j k2(2) by auto
    have nd: "f_dpb f3 = dp" "f_dirsector f3 = snd (root_block (dpbs s3 dp) (j div 16))" "f_diridx f3 = of_nat (j mod 16)"
       "dm_name_pat f3 = pat" "d_flags f3 AND DFLG_DELETE_PEND = 0"
      using fa k3(2) by (auto simp: pend_entry_node found_at_def same_search_def root_start_def)
    have fd3: "fd < nsft (kern s3)" "sft_count (sft_at (kern s3) fd) \<noteq> 0"
      using fd nsft_kcore[OF k3(3)] by (simp_all add: s1_def nsft_def sft_at_def)
    have jn: "j < unat (dpb_dirents (dpbs s3 dp))" using j k3(2) by (simp add: free_slot_def)
    have rv3: "root_vol V (dpbs s3 dp)" using rv k3(2) by simp
    obtain f' s' os' where O: "open_done E L attrib fd S_CREATED f3 s3 = Some (Inr (S_CREATED, f', s'))"
       "entry_made rd V dp j (new_file L attrib pat (kern s3)) s3 os3 s' os'" "sft_on_new dp (dpbs s3 dp) j attrib pat (sft_at (kern s') fd)"
      using open_done_created[OF rel k3(1) rv3 nd(1) jn nd(2-5) root_path_length[OF p(1)] n fd(1) fd3] by blast
    have "dos_open E L wl p flags attrib fd f s = Some (Inr (S_CREATED, f', s'))"
      unfolding op A(1) if_P[OF ex] using O(1) by simp
    moreover have "entry_made rd V dp j (new_file L attrib pat (kern s3)) s os s' os'"
      using table_entry_made[OF t1 quiet_entry_made[OF q O(2) rv1]] .
    ultimately show ?thesis using O(3) unfolding k3(2) by blast
  qed
  moreover have "\<exists>f' s' os'. dos_open E L wl p flags attrib fd f s = Some (Inr (DE_TOOMANY, f', s'))
        \<and> fat_ok rd V dp s' os' \<and> fat_bytes rd s' os' dp = fat_bytes rd s os dp \<and> data_kept rd V (dpbs s dp) s os s' os'"
    if "\<forall>j. \<not> free_slot rd s os dp j"
  proof -
    have nx: "\<not> (\<exists>k. free_slot rd s os dp k)" using that by blast
    have "dos_open E L wl p flags attrib fd f s = Some (Inr (DE_TOOMANY, f3, s3))"
      unfolding op A(1) if_not_P[OF nx] using ns by simp
    then show ?thesis using quiet_table[OF t1 q table_only_refl] by blast
  qed
  ultimately show ?thesis by blast
qed

lemma slot6_free: "free_slot (\<lambda>w. w) io6 bufs3 0x700000 2"
proof -
  have "raw_first dir6 \<notin> {0, EXT_DELETED}" "raw_first file6 \<notin> {0, EXT_DELETED}" by code_simp+
  then show ?thesis using root_entry6 entry2_6 by (auto simp: free_slot_def dirents6 less_2_cases_iff)
qed

lemma no_entry_b6: "\<not> root_first (\<lambda>w. w) io6 bufs3 0x700000 (entry_matches 0 (D_ALL OR D_ARCHIVE) (pad_to 11 [0x42])) k"
proof
  assume k: "root_first (\<lambda>w. w) io6 bufs3 0x700000 (entry_matches 0 (D_ALL OR D_ARCHIVE) (pad_to 11 [0x42])) k"
  have n: "\<not> entry_matches 0 (D_ALL OR D_ARCHIVE) (pad_to 11 [0x42]) dir6"
    "\<not> entry_matches 0 (D_ALL OR D_ARCHIVE) (pad_to 11 [0x42]) file6" by code_simp+
  have "\<not> 2 \<le> k" using k entry2_6 by (auto simp: root_first_def)
  then have "k = 0 \<or> k = 1" by auto
  then show False using k n root_entry6 by (auto simp: root_first_def)
qed

theorem dos_open_creates_file_witness:
  "\<forall>L wl. \<exists>f' s' os' e. dos_open ram_disk_all L wl path_b O_CREAT D_ARCHIVE 0 file3 io6 = Some (Inr (S_CREATED, f', s'))
     \<and> root_entry (\<lambda>w. w) s' os' 0x700000 2 = e \<and> dir_name e = pad_to 11 [0x42] \<and> dir_start e = 0
     \<and> root_entry (\<lambda>w. w) s' os' 0x700000 1 = file6 \<and> sft_diridx (sft_at (kern s') 0) = 2"
proof (intro allI)
  fix L :: "platters layers" and wl :: "8 word \<Rightarrow> 8 word list \<Rightarrow> platters diskio \<Rightarrow> platters diskio"
  have a: "root_vol vol5 (dpbs io6 0x700000)" "get_dpb (path_drive path_b) io6 = Some 0x700000"
    using root_vol6 io6_get_dpb by (simp_all add: path_b6)
  have n: "pad_to 11 [0x42] ! 0 \<noteq> SUBSTED_E5" unfolding path_b6(3) SUBSTED_E5_def by simp
  have k6: "kern io6 = with_world world6 (kern io5)" by (simp add: io6_def)
  have fd: "(0 :: nat) < 255" "0 < nsft (kern io6)" "sft_count (sft_at (kern io6) 0) \<noteq> 0"
    using io5_simps(4,5) unfolding k6 by (simp_all add: with_world_def nsft_def sft_at_def entry5_def)
  have fl: "D_ARCHIVE AND D_VOLID = 0" "O_CREAT AND O_CREAT \<noteq> 0" by (simp_all add: dir_flags O_CREAT_def)
  have no: "\<forall>k. \<not> root_first (\<lambda>w. w) io6 bufs3 0x700000 (entry_matches 0 (D_ALL OR D_ARCHIVE) (pad_to 11 [0x42])) k"
    using no_entry_b6 by blast
  obtain f' s' os' k where C: "dos_open ram_disk_all L wl path_b O_CREAT D_ARCHIVE 0 file3 io6 = Some (Inr (S_CREATED, f', s'))"
     "entry_made (\<lambda>w. w) vol5 0x700000 2 (new_file L D_ARCHIVE (pad_to 11 [0x42]) k) io6 bufs3 s' os'"
     "sft_on_new 0x700000 (dpbs io6 0x700000) 2 D_ARCHIVE (pad_to 11 [0x42]) (sft_at (kern s') 0)"
    using dos_open_creates_file[OF ram_disk_all_single fat_ok6 a(1) path_b6(1) a(2) n fd fl no, of L wl file3] slot6_free by blast
  have e: "root_entry (\<lambda>w. w) s' os' 0x700000 2 = new_file L D_ARCHIVE (pad_to 11 [0x42]) k" "root_entry (\<lambda>w. w) s' os' 0x700000 1 = file6"
    using C(2) root_entry6(2) by (simp_all add: entry_made_def dirents6)
  have "stored_name (pad_to 11 [0x42]) = pad_to 11 [0x42]" by code_simp
  then have "dir_name (new_file L D_ARCHIVE (pad_to 11 [0x42]) k) = pad_to 11 [0x42]" "dir_start (new_file L D_ARCHIVE (pad_to 11 [0x42]) k) = 0"
    by (simp_all add: new_file_def init_direntry_def FREE_CLUSTER_def)
  moreover have "sft_diridx (sft_at (kern s') 0) = 2" using C(3) by (simp add: sft_on_new_def)
  ultimately show "\<exists>f' s' os' e. dos_open ram_disk_all L wl path_b O_CREAT D_ARCHIVE 0 file3 io6 = Some (Inr (S_CREATED, f', s'))
     \<and> root_entry (\<lambda>w. w) s' os' 0x700000 2 = e \<and> dir_name e = pad_to 11 [0x42] \<and> dir_start e = 0
     \<and> root_entry (\<lambda>w. w) s' os' 0x700000 1 = file6 \<and> sft_diridx (sft_at (kern s') 0) = 2"
    using C(1) e by blast
qed

end
