(* ===== verification/Chario.thy ===== *)
theory Chario
  imports Blockio
begin

text \<open>
  Requests to character devices, the first part of kernel/chario.c. The driver is an argument,
  as in \<open>Blockio\<close>; the buffer a request points to is the field \<open>r_trans\<close> of the request.
\<close>

definition S_BUSY :: "16 word" where "S_BUSY = 0x0200"
definition C_INIT :: "8 word" where "C_INIT = 0x00"
definition C_NDREAD :: "8 word" where "C_NDREAD = 0x05"
definition C_ISTAT :: "8 word" where "C_ISTAT = 0x06"
definition C_IFLUSH :: "8 word" where "C_IFLUSH = 0x07"
definition C_OFLUSH :: "8 word" where "C_OFLUSH = 0x0b"

text \<open>\<open>CharReqHdr\<close> and \<open>ClkReqHdr\<close> are two names of one request header.\<close>

record 'w chario =
  CharReqHdr :: request
  char_crit :: "16 word"
  char_world :: 'w

definition set_char_req :: "(request \<Rightarrow> request) \<Rightarrow> 'w chario \<Rightarrow> 'w chario" where
  "set_char_req f s = s\<lparr>CharReqHdr := f (CharReqHdr s)\<rparr>"

definition exec_char :: "'w driver \<Rightarrow> 32 word \<Rightarrow> 'w chario \<Rightarrow> 'w chario" where
  "exec_char E dev s =
     (case E (CharReqHdr s) dev (char_world s) of (r, w) \<Rightarrow> s\<lparr>CharReqHdr := r, char_world := w\<rparr>)"

definition char_error :: "32 word \<Rightarrow> 'w chario \<Rightarrow> int \<times> 'w chario" where
  "char_error dev s =
     (let e = r_status (CharReqHdr s) AND S_MASK
      in (DoCriticalError 0xb8 0 e dev, s\<lparr>char_crit := e + 0x13\<rparr>))"

text \<open>The loop around the question asks until it gets one of the four answers.\<close>

partial_function (option) ask_char :: "32 word \<Rightarrow> 'w chario \<Rightarrow> (int \<times> 'w chario) option" where
  "ask_char dev s =
     (case char_error dev s of
        (a, s1) \<Rightarrow> if a = A_ABORT \<or> a = A_FAIL then Some (DE_INVLDACC, s1)
                   else if a = A_CONTINUE then Some (0, set_char_req (\<lambda>r. r\<lparr>r_count := 0\<rparr>) s1)
                   else if a = A_RETRY then Some (1, s1)
                   else ask_char dev s1)"

definition CharRequest :: "'w driver \<Rightarrow> 32 word \<Rightarrow> 8 word \<Rightarrow> 'w chario \<Rightarrow> (int \<times> 'w chario) option" where
  "CharRequest E dev command s =
     (let s1 = exec_char E dev (set_char_req (\<lambda>r. r\<lparr>r_command := command, r_unit := 0, r_status := 0,
                 r_length := 30\<rparr>) s)
      in if r_status (CharReqHdr s1) AND S_ERROR \<noteq> 0 then ask_char dev s1 else Some (SUCCESS, s1))"

text \<open>The result of a transfer, and the bytes of the buffer after it.\<close>

partial_function (option) BinaryCharIO ::
    "'w driver \<Rightarrow> 32 word \<Rightarrow> 16 word \<Rightarrow> bytes \<Rightarrow> 8 word \<Rightarrow> 'w chario \<Rightarrow> (int \<times> bytes \<times> 'w chario) option" where
  "BinaryCharIO E dev n bp command s = do {
     (err, s1) \<leftarrow> CharRequest E dev command (set_char_req (\<lambda>r. r\<lparr>r_count := n, r_trans := bp\<rparr>) s);
     let bp1 = r_trans (CharReqHdr s1);
     (if err = 1 then BinaryCharIO E dev n bp1 command s1
      else Some (if err = SUCCESS then uint (r_count (CharReqHdr s1)) else err, bp1, s1))
   }"

definition CharIO :: "'w driver \<Rightarrow> 32 word \<Rightarrow> 8 word \<Rightarrow> 8 word \<Rightarrow> 'w chario \<Rightarrow> (int \<times> 'w chario) option" where
  "CharIO E dev ch command s = do {
     (r, bp, s1) \<leftarrow> BinaryCharIO E dev 1 (\<lambda>_. ch) command s;
     let err = sint (word_of_int r :: 16 word);
     Some (if err = 0 then 256 else if err < 0 then err else uint (bp 0), s1)
   }"

partial_function (option) CharCmd :: "'w driver \<Rightarrow> 32 word \<Rightarrow> 8 word \<Rightarrow> 'w chario \<Rightarrow> 'w chario option" where
  "CharCmd E dev command s = do {
     (err, s1) \<leftarrow> CharRequest E dev command s;
     (if err = 1 then CharCmd E dev command s1 else Some s1)
   }"

definition Busy :: "'w driver \<Rightarrow> 32 word \<Rightarrow> 'w chario \<Rightarrow> (int \<times> 'w chario) option" where
  "Busy E dev s = do {
     s1 \<leftarrow> CharCmd E dev C_ISTAT (set_char_req (\<lambda>r. r\<lparr>r_count := 1\<rparr>) s);
     let ret = r_status (CharReqHdr s1) AND S_BUSY;
     Some (if ret = 0 \<and> r_count (CharReqHdr s1) = 0 then 256 else uint ret, s1)
   }"

definition con_flush :: "'w driver \<Rightarrow> 32 word \<Rightarrow> 'w chario \<Rightarrow> 'w chario option" where
  "con_flush E dev s = CharCmd E dev C_IFLUSH s"

section \<open>Facts\<close>

lemma ask_char_fails: "ask_char dev s = Some (DE_INVLDACC, s\<lparr>char_crit := (r_status (CharReqHdr s) AND S_MASK) + 0x13\<rparr>)"
  by (subst ask_char.simps) (simp add: char_error_def DoCriticalError_def Let_def)

text \<open>No request is ever repeated.\<close>

lemma CharRequest_result:
  "\<exists>r s'. CharRequest E dev c s = Some (r, s') \<and> (r = SUCCESS \<or> r = DE_INVLDACC)
     \<and> (r = SUCCESS \<longleftrightarrow> r_status (CharReqHdr s') AND S_ERROR = 0)"
  by (auto simp: CharRequest_def Let_def ask_char_fails SUCCESS_def DE_INVLDACC_def)

lemma BinaryCharIO_once:
  "BinaryCharIO E dev n bp c s = do {
     (err, s1) \<leftarrow> CharRequest E dev c (set_char_req (\<lambda>r. r\<lparr>r_count := n, r_trans := bp\<rparr>) s);
     Some (if err = SUCCESS then uint (r_count (CharReqHdr s1)) else err, r_trans (CharReqHdr s1), s1)
   }"
proof -
  obtain r s' where r: "CharRequest E dev c (set_char_req (\<lambda>r. r\<lparr>r_count := n, r_trans := bp\<rparr>) s) = Some (r, s')"
     "r = SUCCESS \<or> r = DE_INVLDACC" using CharRequest_result by blast
  have "r \<noteq> 1" using r(2) by (auto simp: SUCCESS_def DE_INVLDACC_def)
  then show ?thesis by (subst BinaryCharIO.simps) (simp add: r(1) Let_def)
qed

end
