(* ===== verification/Clock.thy ===== *)
theory Clock
  imports Chario "HOL-Library.Signed_Division"
begin

text \<open>
  Date and time: kernel/systime.c, the clock driver kernel/sysclk.c with the routines of
  kernel/drivers that call the BIOS, and the conversion to file dates of kernel/fatfs.c. The
  BIOS interrupt 1Ah is an argument. Years and numbers of days are natural numbers: no value
  the code computes leaves 16 bits.
\<close>

section \<open>The calendar\<close>

definition days :: "nat list list" where
  "days = [[0, 31, 59, 90, 120, 151, 181, 212, 243, 273, 304, 334, 365],
           [0, 31, 60, 91, 121, 152, 182, 213, 244, 274, 305, 335, 366]]"

definition is_leap_year_monthdays :: "nat \<Rightarrow> nat list" where
  "is_leap_year_monthdays y = (if y mod 4 \<noteq> 0 \<or> y = 2100 then days ! 0 else days ! 1)"

definition DaysFromYearMonthDay :: "nat \<Rightarrow> nat \<Rightarrow> nat \<Rightarrow> nat" where
  "DaysFromYearMonthDay year month day =
     (if year < 1980 then 0
      else (day - 1 + is_leap_year_monthdays year ! (month - 1) + (year - 1980) * 365 + (year - 1980 + 3) div 4)
           mod 65536)"

text \<open>The loop over the years, and the one over the months, of \<open>DosGetDate\<close>.\<close>

lemma monthdays_12: "is_leap_year_monthdays y ! 12 = (if y mod 4 \<noteq> 0 \<or> y = 2100 then 365 else 366)"
  by (simp add: is_leap_year_monthdays_def days_def)

function year_loop :: "nat \<Rightarrow> nat \<Rightarrow> nat \<times> nat" where
  "year_loop year c =
     (if is_leap_year_monthdays year ! 12 \<le> c then year_loop (Suc year) (c - is_leap_year_monthdays year ! 12)
      else (year, c))"
  by pat_completeness auto
termination
  by (relation "measure snd") (auto simp: monthdays_12)

function month_loop :: "nat list \<Rightarrow> nat \<Rightarrow> nat \<Rightarrow> nat" where
  "month_loop pdays c month = (if month < 13 \<and> pdays ! month \<le> c then month_loop pdays c (Suc month) else month)"
  by pat_completeness auto
termination
  by (relation "measure (\<lambda>(p, c, m). 13 - m)") auto

declare year_loop.simps [simp del] month_loop.simps [simp del]

section \<open>The clock driver\<close>

record clock_rec =
  clkDays :: "16 word"
  clkMinutes :: "8 word"
  clkHours :: "8 word"
  clkHundredths :: "8 word"
  clkSeconds :: "8 word"

definition put_clock :: "clock_rec \<Rightarrow> bytes \<Rightarrow> bytes" where
  "put_clock r m = (put16 m 0 (clkDays r))(2 := clkMinutes r, 3 := clkHours r, 4 := clkHundredths r, 5 := clkSeconds r)"

definition get_clock :: "bytes \<Rightarrow> clock_rec" where
  "get_clock m = \<lparr>clkDays = get16 m 0, clkMinutes = m 2, clkHours = m 3, clkHundredths = m 4, clkSeconds = m 5\<rparr>"

text \<open>
  Interrupt 1Ah: function 0 returns the midnight count and the ticks, 1 sets the ticks, 3 sets
  the time and 5 the date of the battery clock, in BCD.
\<close>

record 'b bios =
  get_ticks :: "'b \<Rightarrow> 8 word \<times> 32 word \<times> 'b"
  set_ticks :: "32 word \<Rightarrow> 'b \<Rightarrow> 'b"
  set_rtc_time :: "8 word \<Rightarrow> 8 word \<Rightarrow> 8 word \<Rightarrow> 'b \<Rightarrow> 'b"
  set_rtc_date :: "8 word list \<Rightarrow> 'b \<Rightarrow> 'b"

record 'b clock_hw =
  DaysSinceEpoch :: "16 word"
  hw :: 'b

definition E_LENGTH :: "16 word" where "E_LENGTH = 5"
definition E_FAILURE :: "16 word" where "E_FAILURE = 12"

definition failure :: "16 word \<Rightarrow> 16 word" where
  "failure x = S_ERROR + S_DONE + x"

definition ReadPCClock :: "'b bios \<Rightarrow> 'b clock_hw \<Rightarrow> 32 word \<times> 'b clock_hw" where
  "ReadPCClock B c =
     (case get_ticks B (hw c) of (midnight, ticks, h) \<Rightarrow>
        (ticks, c\<lparr>DaysSinceEpoch := DaysSinceEpoch c + ucast midnight, hw := h\<rparr>))"

definition WritePCClock :: "'b bios \<Rightarrow> 32 word \<Rightarrow> 'b clock_hw \<Rightarrow> 'b clock_hw" where
  "WritePCClock B t c = c\<lparr>hw := set_ticks B t (hw c)\<rparr>"

definition WriteATClock ::
    "'b bios \<Rightarrow> 8 word list \<Rightarrow> 8 word \<Rightarrow> 8 word \<Rightarrow> 8 word \<Rightarrow> 'b clock_hw \<Rightarrow> 'b clock_hw" where
  "WriteATClock B date hours minutes seconds c =
     c\<lparr>hw := set_rtc_date B date (set_rtc_time B hours minutes seconds (hw c))\<rparr>"

definition ByteToBcd :: "nat \<Rightarrow> 8 word" where
  "ByteToBcd x = of_nat (push_bit 4 (x div 10) OR x mod 10)"

definition InitBcdToByte :: "8 word \<Rightarrow> nat" where
  "InitBcdToByte x = unat (drop_bit 4 x AND 0xf) * 10 + unat (x AND 0xf)"

definition DayToBcd :: "nat \<Rightarrow> nat \<Rightarrow> nat \<Rightarrow> 8 word list" where
  "DayToBcd mon day yr = [ByteToBcd day, ByteToBcd mon, ByteToBcd (yr mod 100), ByteToBcd (yr div 100)]"

text \<open>Hundredths of a second from ticks and back, in 32-bit arithmetic.\<close>

definition ticks_to_hs :: "32 word \<Rightarrow> 32 word" where
  "ticks_to_hs t = (let k = 5 * t in push_bit 16 (k div 59659) + push_bit 16 (k mod 59659) div 59659)"

definition hs_to_ticks :: "32 word \<Rightarrow> 32 word" where
  "hs_to_ticks hs = (drop_bit 16 hs * 59659 + drop_bit 16 ((hs AND 0xffff) * 59659)) div 5"

definition hs_of_clock :: "clock_rec \<Rightarrow> 32 word" where
  "hs_of_clock r = 6000 * (60 * ucast (clkHours r) + ucast (clkMinutes r))
     + (100 * ucast (clkSeconds r) + ucast (clkHundredths r))"

definition clock_of_hs :: "16 word \<Rightarrow> 32 word \<Rightarrow> clock_rec" where
  "clock_of_hs d hs =
     (let m = sint (ucast (hs div 6000) :: 16 word); s = sint (ucast (hs mod 6000) :: 16 word)
      in \<lparr>clkDays = d, clkMinutes = word_of_int (m smod 60), clkHours = word_of_int (m sdiv 60),
          clkHundredths = word_of_int (s smod 100), clkSeconds = word_of_int (s sdiv 100)\<rparr>)"

definition clk_input :: "'b bios \<Rightarrow> 'b clock_hw \<Rightarrow> clock_rec \<times> 'b clock_hw" where
  "clk_input B c = (case ReadPCClock B c of (t, c1) \<Rightarrow> (clock_of_hs (DaysSinceEpoch c1) (ticks_to_hs t), c1))"

definition clk_output :: "'b bios \<Rightarrow> clock_rec \<Rightarrow> 'b clock_hw \<Rightarrow> 'b clock_hw" where
  "clk_output B r c =
     (let c1 = WritePCClock B (hs_to_ticks (hs_of_clock r)) (c\<lparr>DaysSinceEpoch := clkDays r\<rparr>) in
      case year_loop 1980 (unat (clkDays r)) of
        (year, day) \<Rightarrow>
          let pdays = is_leap_year_monthdays year;
              month = month_loop pdays day 1;
              day1 = (if month < 13 then day - pdays ! (month - 1) + 1 else day)
          in WriteATClock B (DayToBcd month day1 year) (ByteToBcd (unat (clkHours r)))
               (ByteToBcd (unat (clkMinutes r))) (ByteToBcd (unat (clkSeconds r))) c1)"

text \<open>The status the driver returns is stored in the request by its assembly entry. \<open>r_nunits\<close>
  shares its byte with \<open>r_meddesc\<close>.\<close>

definition clk_driver :: "'b bios \<Rightarrow> 'b clock_hw driver" where
  "clk_driver B r dev c =
     (if r_command r = C_INIT then (r\<lparr>r_meddesc := 0, r_status := S_DONE\<rparr>, c)
      else if r_command r = CMD_INPUT then
        if r_count r \<noteq> 6 then (r\<lparr>r_status := failure E_LENGTH\<rparr>, c)
        else (case clk_input B c of (k, c1) \<Rightarrow> (r\<lparr>r_trans := put_clock k (r_trans r), r_status := S_DONE\<rparr>, c1))
      else if r_command r = CMD_OUTPUT then
        if r_count r \<noteq> 6 then (r\<lparr>r_status := failure E_LENGTH\<rparr>, c)
        else (r\<lparr>r_status := S_DONE\<rparr>, clk_output B (get_clock (r_trans r)) c)
      else if r_command r = C_OFLUSH \<or> r_command r = C_IFLUSH then (r\<lparr>r_status := S_DONE\<rparr>, c)
      else (r\<lparr>r_status := failure E_FAILURE\<rparr>, c))"

section \<open>The system calls\<close>

record dostime =
  hour :: "8 word"
  minute :: "8 word"
  second :: "8 word"
  hundredth :: "8 word"

record dosdate =
  year :: "16 word"
  month :: "8 word"
  monthday :: "8 word"

record 'w clock =
  ClkRecord :: clock_rec
  clock_dev :: "32 word"
  clk_io :: "'w chario"

definition ExecuteClockDriverRequest :: "'w driver \<Rightarrow> 8 word \<Rightarrow> 'w clock \<Rightarrow> 'w clock option" where
  "ExecuteClockDriverRequest E command s = do {
     (r, bp, io) \<leftarrow> BinaryCharIO E (clock_dev s) 6 (put_clock (ClkRecord s) (\<lambda>_. 0)) command (clk_io s);
     Some (s\<lparr>ClkRecord := get_clock bp, clk_io := io\<rparr>)
   }"

definition clk_failed :: "'w clock \<Rightarrow> bool" where
  "clk_failed s \<longleftrightarrow> r_status (CharReqHdr (clk_io s)) AND S_ERROR \<noteq> 0"

definition clk_error :: "'w clock \<Rightarrow> int \<times> 'w clock" where
  "clk_error s = (case char_error (clock_dev s) (clk_io s) of (a, io) \<Rightarrow> (a, s\<lparr>clk_io := io\<rparr>))"

text \<open>A structure passed by address is an argument and the result's second component.\<close>

definition DosGetTime :: "'w driver \<Rightarrow> dostime \<Rightarrow> 'w clock \<Rightarrow> (dostime \<times> 'w clock) option" where
  "DosGetTime E dt s = do {
     s1 \<leftarrow> ExecuteClockDriverRequest E CMD_INPUT s;
     let r = ClkRecord s1;
     Some (if clk_failed s1 then dt
           else \<lparr>hour = clkHours r, minute = clkMinutes r, second = clkSeconds r, hundredth = clkHundredths r\<rparr>, s1)
   }"

definition DosSetTime :: "'w driver \<Rightarrow> dostime \<Rightarrow> 'w clock \<Rightarrow> (int \<times> 'w clock) option" where
  "DosSetTime E dt s =
     (if 23 < hour dt \<or> 59 < minute dt \<or> 59 < second dt \<or> 99 < hundredth dt then Some (DE_INVLDDATA, s)
      else do {
        s1 \<leftarrow> ExecuteClockDriverRequest E CMD_INPUT s;
        s2 \<leftarrow> ExecuteClockDriverRequest E CMD_OUTPUT (s1\<lparr>ClkRecord := (ClkRecord s1)
               \<lparr>clkHours := hour dt, clkMinutes := minute dt, clkSeconds := second dt, clkHundredths := hundredth dt\<rparr>\<rparr>);
        Some (if clk_failed s2 then clk_error s2 else (SUCCESS, s2))
      })"

definition DosGetDate :: "'w driver \<Rightarrow> dosdate \<Rightarrow> 'w clock \<Rightarrow> (8 word \<times> dosdate \<times> 'w clock) option" where
  "DosGetDate E dd s = do {
     s1 \<leftarrow> ExecuteClockDriverRequest E CMD_INPUT s;
     let d = unat (clkDays (ClkRecord s1));
     Some (if clk_failed s1 then (0, dd, s1)
           else case year_loop 1980 d of
             (y, c) \<Rightarrow>
               let pdays = is_leap_year_monthdays y; m = month_loop pdays c 1
               in (of_nat ((d + 2) mod 7),
                   \<lparr>year = of_nat y, month = of_nat m, monthday = of_nat (c - pdays ! (m - 1) + 1)\<rparr>, s1))
   }"

definition DosSetDate :: "'w driver \<Rightarrow> dosdate \<Rightarrow> 'w clock \<Rightarrow> (int \<times> 'w clock) option" where
  "DosSetDate E dd s =
     (let y = unat (year dd); m = unat (month dd); d = unat (monthday dd); pdays = is_leap_year_monthdays y in
      if y < 1980 \<or> 2099 < y \<or> m < 1 \<or> 12 < m \<or> d < 1 \<or> pdays ! m - pdays ! (m - 1) < d then Some (DE_INVLDDATA, s)
      else do {
        s1 \<leftarrow> ExecuteClockDriverRequest E CMD_INPUT s;
        s2 \<leftarrow> ExecuteClockDriverRequest E CMD_OUTPUT
               (s1\<lparr>ClkRecord := (ClkRecord s1)\<lparr>clkDays := of_nat (DaysFromYearMonthDay y m d)\<rparr>\<rparr>);
        Some (if clk_failed s2 then clk_error s2 else (SUCCESS, s2))
      })"

section \<open>File dates and times\<close>

definition time_encode :: "dostime \<Rightarrow> 16 word" where
  "time_encode t = push_bit 11 (ucast (hour t)) OR push_bit 5 (ucast (minute t)) OR drop_bit 1 (ucast (second t))"

definition DT_ENCODE :: "16 word \<Rightarrow> 16 word \<Rightarrow> 16 word \<Rightarrow> 16 word" where
  "DT_ENCODE m d y = push_bit 5 (m AND 0x0f) OR (d AND 0x1f) OR push_bit 9 (y AND 0x7f)"

text \<open>\<open>junk\<close> is what the local variable holds before the call; it is used when the driver fails.\<close>

definition dos_getdate :: "'w driver \<Rightarrow> dosdate \<Rightarrow> 'w clock \<Rightarrow> (16 word \<times> 'w clock) option" where
  "dos_getdate E junk s = do {
     (wd, dd, s1) \<leftarrow> DosGetDate E junk s;
     Some (DT_ENCODE (ucast (month dd)) (ucast (monthday dd)) (year dd - 1980), s1)
   }"

definition dos_gettime :: "'w driver \<Rightarrow> dostime \<Rightarrow> 'w clock \<Rightarrow> (16 word \<times> 'w clock) option" where
  "dos_gettime E junk s = do {
     (dt, s1) \<leftarrow> DosGetTime E junk s;
     Some (time_encode dt, s1)
   }"

end
