(* ===== verification/Clock_Props.thy ===== *)
theory Clock_Props
  imports Clock
begin

text \<open>The properties of the clock: dates and times that are set are read back.\<close>

section \<open>The calendar\<close>

definition days_before :: "nat \<Rightarrow> nat" where
  "days_before y = (y - 1980) * 365 + (y - 1980 + 3) div 4"

lemma days_before_Suc:
  assumes "1980 \<le> y" "y < 2100"
  shows "days_before (Suc y) = days_before y + is_leap_year_monthdays y ! 12"
proof -
  obtain k where k: "y = 1980 + k" "k < 120" using assms le_Suc_ex[of 1980 y] by auto
  have "(1980 + k) mod 4 = k mod 4" by presburger
  moreover have "(Suc k + 3) div 4 = (k + 3) div 4 + (if k mod 4 = 0 then 1 else 0)" by presburger
  ultimately show ?thesis using k by (simp add: days_before_def monthdays_12)
qed

lemma days_before_mono: "1980 \<le> y \<Longrightarrow> y \<le> y' \<Longrightarrow> y' \<le> 2100 \<Longrightarrow> days_before y \<le> days_before y'"
  unfolding days_before_def by (intro add_mono mult_right_mono div_le_mono) auto

lemma year_loop_eq:
  assumes "1980 \<le> y" "y \<le> y'" "y' \<le> 2100" "c < is_leap_year_monthdays y' ! 12"
  shows "year_loop y (days_before y' - days_before y + c) = (y', c)"
  using assms
proof (induction "y' - y" arbitrary: y)
  case 0
  then show ?case by (subst year_loop.simps) simp
next
  case (Suc n)
  let ?l = "is_leap_year_monthdays y ! 12"
  have s: "days_before (Suc y) = days_before y + ?l" using Suc by (intro days_before_Suc) auto
  have m: "days_before (Suc y) \<le> days_before y'" using Suc by (intro days_before_mono) auto
  have "?l \<le> days_before y' - days_before y + c"
    "days_before y' - days_before y + c - ?l = days_before y' - days_before (Suc y) + c" using s m by arith+
  then have "year_loop y (days_before y' - days_before y + c) = year_loop (Suc y) (days_before y' - days_before (Suc y) + c)"
    by (subst year_loop.simps) simp
  also have "\<dots> = (y', c)" using Suc by (intro Suc.hyps(1)) auto
  finally show ?case .
qed

lemma month_loop_eq:
  assumes "k \<le> m" "m < 13" "c < pdays ! m" "\<forall>j < m. pdays ! j \<le> c"
  shows "month_loop pdays c k = m"
  using assms
proof (induction "m - k" arbitrary: k)
  case 0
  then show ?case by (subst month_loop.simps) auto
next
  case (Suc n)
  then have "month_loop pdays c k = month_loop pdays c (Suc k)" by (subst month_loop.simps) auto
  then show ?case using Suc by auto
qed

lemma monthdays_sorted: "sorted (is_leap_year_monthdays y)" "length (is_leap_year_monthdays y) = 13"
  by (simp_all add: is_leap_year_monthdays_def days_def)

definition valid_date :: "nat \<Rightarrow> nat \<Rightarrow> nat \<Rightarrow> bool" where
  "valid_date y m d \<longleftrightarrow> 1980 \<le> y \<and> y \<le> 2099 \<and> 1 \<le> m \<and> m \<le> 12 \<and> 1 \<le> d
     \<and> d \<le> is_leap_year_monthdays y ! m - is_leap_year_monthdays y ! (m - 1)"

lemma date_of_days:
  assumes v: "valid_date y m d"
  defines "c \<equiv> is_leap_year_monthdays y ! (m - 1) + d - 1"
  shows "DaysFromYearMonthDay y m d < 65536 \<and> year_loop 1980 (DaysFromYearMonthDay y m d) = (y, c)
     \<and> month_loop (is_leap_year_monthdays y) c 1 = m \<and> c - is_leap_year_monthdays y ! (m - 1) + 1 = d"
proof -
  let ?p = "is_leap_year_monthdays y"
  have mm: "m - 1 \<le> m" "m \<le> 12" "j < m \<Longrightarrow> j \<le> m - 1" for j using v by (auto simp: valid_date_def)
  have le: "?p ! i \<le> ?p ! j" if "i \<le> j" "j \<le> 12" for i j
    using sorted_nth_mono[OF monthdays_sorted(1), of i j y] that monthdays_sorted(2)[of y] by simp
  have c: "c < ?p ! m" using v by (auto simp: c_def valid_date_def)
  then have c12: "c < ?p ! 12" using le[OF mm(2)] by simp
  have "?p ! 12 \<le> 366" by (simp add: monthdays_12)
  have db: "days_before y < 44000" "days_before 1980 = 0" using v by (auto simp: valid_date_def days_before_def)
  have "d - 1 + ?p ! (m - 1) + (y - 1980) * 365 + (y - 1980 + 3) div 4 = days_before y + c"
    using v unfolding days_before_def c_def valid_date_def by arith
  then have D: "DaysFromYearMonthDay y m d = days_before y + c"
    using v db c12 \<open>?p ! 12 \<le> 366\<close> by (simp only: DaysFromYearMonthDay_def) (simp add: valid_date_def)
  have "year_loop 1980 (days_before y - days_before 1980 + c) = (y, c)"
    using v c12 by (intro year_loop_eq) (auto simp: valid_date_def)
  moreover have "\<forall>j < m. ?p ! j \<le> c"
  proof (intro allI impI)
    fix j assume "j < m"
    then have "?p ! j \<le> ?p ! (m - 1)" using mm le by auto
    then show "?p ! j \<le> c" using v unfolding c_def valid_date_def by arith
  qed
  then have "month_loop ?p c 1 = m" using v c by (intro month_loop_eq) (auto simp: valid_date_def)
  moreover have "c - ?p ! (m - 1) + 1 = d" using v by (simp add: c_def valid_date_def)
  ultimately show ?thesis using D db c12 \<open>?p ! 12 \<le> 366\<close> by simp
qed

section \<open>Calls of the clock driver\<close>

lemma get_put_clock [simp]: "get_clock (put_clock r m) = r"
  by (simp add: get_clock_def put_clock_def get16_def put16_def split8)

definition clock_world :: "'w clock \<Rightarrow> 'w" where
  "clock_world s = char_world (clk_io s)"

lemma clock_input:
  "\<exists>s1. ExecuteClockDriverRequest (clk_driver B) CMD_INPUT s = Some s1 \<and> \<not> clk_failed s1
     \<and> ClkRecord s1 = fst (clk_input B (clock_world s)) \<and> clock_world s1 = snd (clk_input B (clock_world s))"
  by (auto simp: ExecuteClockDriverRequest_def BinaryCharIO_once CharRequest_def exec_char_def set_char_req_def
      clk_driver_def clock_world_def clk_failed_def req_defs C_INIT_def split: prod.split)

lemma clock_output:
  "\<exists>s1. ExecuteClockDriverRequest (clk_driver B) CMD_OUTPUT s = Some s1 \<and> \<not> clk_failed s1
     \<and> ClkRecord s1 = ClkRecord s \<and> clock_world s1 = clk_output B (ClkRecord s) (clock_world s)"
  by (auto simp: ExecuteClockDriverRequest_def BinaryCharIO_once CharRequest_def exec_char_def set_char_req_def
      clk_driver_def clock_world_def clk_failed_def req_defs C_INIT_def)

text \<open>The BIOS keeps the ticks it was given while no time passes, and counts no midnight.\<close>

definition bios_ok :: "'b bios \<Rightarrow> bool" where
  "bios_ok B \<longleftrightarrow> (\<forall>t h a b c d. \<exists>h'. get_ticks B (set_rtc_date B d (set_rtc_time B a b c (set_ticks B t h))) = (0, t, h'))"

lemma input_after_output:
  assumes "bios_ok B"
  shows "fst (clk_input B (clk_output B r w)) = clock_of_hs (clkDays r) (ticks_to_hs (hs_to_ticks (hs_of_clock r)))"
proof -
  obtain y c where y: "year_loop 1980 (unat (clkDays r)) = (y, c)" by (cases "year_loop 1980 (unat (clkDays r))")
  obtain h a b e d where w: "clk_output B r w = w\<lparr>DaysSinceEpoch := clkDays r,
       hw := set_rtc_date B d (set_rtc_time B a b e (set_ticks B (hs_to_ticks (hs_of_clock r)) h))\<rparr>"
    by (simp add: clk_output_def y Let_def WriteATClock_def WritePCClock_def)
  obtain h' where "get_ticks B (hw (clk_output B r w)) = (0, hs_to_ticks (hs_of_clock r), h')"
    using assms w unfolding bios_ok_def by fastforce
  then show ?thesis by (simp add: clk_input_def ReadPCClock_def w)
qed

text \<open>C39. A valid date that is set is the date read back, with its day of the week, and the battery
  clock is set to it.\<close>

theorem date_set_is_date_read:
  assumes B: "bios_ok B" and v: "valid_date (unat (year dd)) (unat (month dd)) (unat (monthday dd))"
  shows "\<exists>s1 s2. DosSetDate (clk_driver B) dd s = Some (SUCCESS, s1)
     \<and> DosGetDate (clk_driver B) dd0 s1 =
         Some (of_nat ((DaysFromYearMonthDay (unat (year dd)) (unat (month dd)) (unat (monthday dd)) + 2) mod 7), dd, s2)
     \<and> (\<exists>h. hw (clock_world s1) = set_rtc_date B (DayToBcd (unat (month dd)) (unat (monthday dd)) (unat (year dd))) h)"
proof -
  let ?y = "unat (year dd)" and ?m = "unat (month dd)" and ?d = "unat (monthday dd)"
  define D where "D = DaysFromYearMonthDay ?y ?m ?d"
  define c where "c = is_leap_year_monthdays ?y ! (?m - 1) + ?d - 1"
  have D: "D < 65536" "year_loop 1980 D = (?y, c)" "month_loop (is_leap_year_monthdays ?y) c 1 = ?m"
     "c - is_leap_year_monthdays ?y ! (?m - 1) + 1 = ?d"
    using date_of_days[OF v] unfolding D_def c_def by blast+
  obtain s1 where s1: "ExecuteClockDriverRequest (clk_driver B) CMD_INPUT s = Some s1" using clock_input by blast
  let ?s = "s1\<lparr>ClkRecord := (ClkRecord s1)\<lparr>clkDays := of_nat D\<rparr>\<rparr>"
  obtain s2 where s2: "ExecuteClockDriverRequest (clk_driver B) CMD_OUTPUT ?s = Some s2" "\<not> clk_failed s2"
     "clock_world s2 = clk_output B (ClkRecord ?s) (clock_world ?s)"
    using clock_output[of B ?s] by blast
  obtain s3 where s3: "ExecuteClockDriverRequest (clk_driver B) CMD_INPUT s2 = Some s3" "\<not> clk_failed s3"
     "ClkRecord s3 = fst (clk_input B (clock_world s2))" using clock_input by blast
  have "clkDays (ClkRecord s3) = of_nat D"
    unfolding s3(3) s2(3) input_after_output[OF B] by (simp add: clock_of_hs_def Let_def)
  then have u: "unat (clkDays (ClkRecord s3)) = D" using D(1) by (simp add: unsigned_of_nat take_bit_eq_mod)
  have "DosSetDate (clk_driver B) dd s = Some (SUCCESS, s2)"
    using v s1 s2(1,2) unfolding DosSetDate_def Let_def D_def by (auto simp: valid_date_def)
  moreover have "DosGetDate (clk_driver B) dd0 s2 = Some (of_nat ((D + 2) mod 7), dd, s3)"
  proof -
    have "(of_nat (c - is_leap_year_monthdays ?y ! (?m - 1) + 1) :: 8 word) = monthday dd" unfolding D(4) by simp
    then show ?thesis
      unfolding DosGetDate_def Let_def s3(1) Option.bind.simps u D(2) prod.case D(3) if_not_P[OF s3(2)] by simp
  qed
  moreover have "\<exists>h. hw (clock_world s2) = set_rtc_date B (DayToBcd ?m ?d ?y) h"
  proof -
    have r: "unat (clkDays (ClkRecord ?s)) = D" using D(1) by (simp add: unsigned_of_nat take_bit_eq_mod)
    have "?m < 13" using v by (simp add: valid_date_def)
    then have "hw (clk_output B (ClkRecord ?s) (clock_world ?s)) = set_rtc_date B (DayToBcd ?m ?d ?y)
        (set_rtc_time B (ByteToBcd (unat (clkHours (ClkRecord ?s)))) (ByteToBcd (unat (clkMinutes (ClkRecord ?s))))
          (ByteToBcd (unat (clkSeconds (ClkRecord ?s))))
          (hw (WritePCClock B (hs_to_ticks (hs_of_clock (ClkRecord ?s))) ((clock_world ?s)\<lparr>DaysSinceEpoch := clkDays (ClkRecord ?s)\<rparr>))))"
      unfolding clk_output_def Let_def r D(2) prod.case D(3) if_P D(4) by (simp add: WriteATClock_def)
    then show ?thesis unfolding s2(3) by blast
  qed
  ultimately show ?thesis unfolding D_def by blast
qed

lemma bcd_example: "DayToBcd 12 31 1999 = [0x31, 0x12, 0x99, 0x19]"
  by (simp add: DayToBcd_def ByteToBcd_def push_bit_eq_mult)

definition bios1 :: "32 word bios" where
  "bios1 = \<lparr>get_ticks = (\<lambda>h. (0, h, h)), set_ticks = (\<lambda>t h. t), set_rtc_time = (\<lambda>a b c h. h),
     set_rtc_date = (\<lambda>d h. h)\<rparr>"

lemma bios1_ok: "bios_ok bios1"
  by (simp add: bios_ok_def bios1_def)

definition clock1 :: "32 word clock_hw clock" where
  "clock1 = \<lparr>ClkRecord = get_clock (\<lambda>_. 0), clock_dev = 0x700000,
     clk_io = \<lparr>CharReqHdr = \<lparr>r_length = 0, r_unit = 0, r_command = 0, r_status = 0, r_meddesc = 0, r_trans = (\<lambda>_. 0),
       r_count = 0, r_start = 0, r_huge = 0\<rparr>, char_crit = 0, char_world = \<lparr>DaysSinceEpoch = 0, hw = 5\<rparr>\<rparr>\<rparr>"

definition leap_day :: dosdate where
  "leap_day = \<lparr>year = 2096, month = 2, monthday = 29\<rparr>"

theorem date_set_is_date_read_witness:
  "\<exists>s1 w s2. DosSetDate (clk_driver bios1) leap_day clock1 = Some (SUCCESS, s1)
     \<and> DosGetDate (clk_driver bios1) (\<lparr>year = 0, month = 0, monthday = 0\<rparr>) s1 = Some (w, leap_day, s2)"
proof -
  have "valid_date (unat (year leap_day)) (unat (month leap_day)) (unat (monthday leap_day))"
    by (simp add: leap_day_def valid_date_def is_leap_year_monthdays_def days_def)
  from date_set_is_date_read[OF bios1_ok this] show ?thesis by blast
qed

section \<open>Ticks\<close>

lemma mult_split: "(n :: nat) * a = n mod m * a + (n div m * a) * m"
proof -
  have "n * a = (n mod m + n div m * m) * a" by simp
  then show ?thesis by (simp only: distrib_right mult.assoc mult.commute[of m a])
qed

lemma hs_to_ticks_unat:
  assumes "unat hs < 8640000"
  shows "unat (hs_to_ticks hs) = unat hs * 59659 div 65536 div 5"
proof -
  let ?h = "unat hs"
  have "hs AND 0xffff = take_bit 16 hs" by (simp add: take_bit_eq_mask mask_eq_exp_minus_1)
  then have lo: "unat (hs AND 0xffff) = ?h mod 65536" by (simp add: take_bit_eq_mod unat_mod)
  have hi: "unat (drop_bit 16 hs) = ?h div 65536" by (simp add: drop_bit_eq_div unat_div)
  have "?h mod 65536 * 59659 < 4294967296"
  proof -
    have "?h mod 65536 * 59659 \<le> 65535 * 59659" by (intro mult_right_mono) simp_all
    then show ?thesis by simp
  qed
  then have lo2: "unat (drop_bit 16 ((hs AND 0xffff) * 59659)) = ?h mod 65536 * 59659 div 65536"
    by (simp add: drop_bit_eq_div unat_div unat_word_ariths lo)
  have "?h div 65536 \<le> 131" using assms by simp
  then have hi2: "unat (drop_bit 16 hs * 59659) = ?h div 65536 * 59659"
    by (simp add: unat_word_ariths hi)
  have "?h mod 65536 * 59659 div 65536 \<le> 59659" by (simp add: div_le_mono less_mult_imp_div_less order.strict_implies_order)
  then have "unat (drop_bit 16 hs * 59659 + drop_bit 16 ((hs AND 0xffff) * 59659))
     = ?h div 65536 * 59659 + ?h mod 65536 * 59659 div 65536"
    using \<open>?h div 65536 \<le> 131\<close> by (simp only: unat_word_ariths(1) hi2 lo2) simp
  also have "\<dots> = ?h * 59659 div 65536"
  proof -
    have "?h * 59659 = ?h mod 65536 * 59659 + (?h div 65536 * 59659) * 65536" by (rule mult_split)
    then show ?thesis by (simp only: div_mult_self3)
  qed
  finally show ?thesis by (simp add: hs_to_ticks_def unat_div)
qed

lemma ticks_to_hs_unat:
  assumes "unat t \<le> 1573039"
  shows "unat (ticks_to_hs t) = 5 * unat t * 65536 div 59659"
proof -
  let ?k = "5 * unat t"
  have kl: "?k mod 4294967296 = ?k" using assms by simp
  then have k: "unat (5 * t) = ?k" by (simp add: unat_word_ariths)
  have q: "?k div 59659 \<le> 131" using assms by simp
  have "?k mod 59659 \<le> 59658" using mod_less_divisor[of 59659 ?k] by simp
  then have "?k mod 59659 * 65536 < 4294967296" by simp
  then have a: "unat (push_bit 16 (5 * t mod 59659) div 59659) = ?k mod 59659 * 65536 div 59659"
    by (simp add: push_bit_eq_mult unat_div unat_word_ariths unat_mod k kl)
  have b: "unat (push_bit 16 (5 * t div 59659)) = ?k div 59659 * 65536"
    using q by (simp add: push_bit_eq_mult unat_div unat_word_ariths k kl)
  have "?k mod 59659 * 65536 div 59659 \<le> 65536"
    using \<open>?k mod 59659 \<le> 59658\<close> by (simp add: div_le_mono)
  then have "unat (ticks_to_hs t) = ?k div 59659 * 65536 + ?k mod 59659 * 65536 div 59659"
    using q by (simp only: ticks_to_hs_def Let_def unat_word_ariths(1) a b) simp
  also have "\<dots> = ?k * 65536 div 59659"
  proof -
    have "?k * 65536 = ?k mod 59659 * 65536 + (?k div 59659 * 65536) * 59659" by (rule mult_split)
    then show ?thesis by (simp only: div_mult_self3)
  qed
  finally show ?thesis .
qed

lemma div_bounds: "0 < (m :: nat) \<Longrightarrow> n div m * m \<le> n \<and> n < n div m * m + m"
  using div_mult_mod_eq[of n m] mod_less_divisor[of m n] by linarith

lemma tick_error:
  fixes h x t r :: nat
  assumes "x * 65536 \<le> h * 59659 \<and> h * 59659 < x * 65536 + 65536" "t * 5 \<le> x \<and> x < t * 5 + 5"
    "r * 59659 \<le> 5 * t * 65536 \<and> 5 * t * 65536 < r * 59659 + 59659"
  shows "r \<le> h \<and> h \<le> r + 6"
  using assms by linarith

text \<open>A time loses less than seven hundredths in ticks.\<close>

lemma ticks_round:
  assumes "unat hs < 8640000"
  shows "unat (ticks_to_hs (hs_to_ticks hs)) \<le> unat hs \<and> unat hs \<le> unat (ticks_to_hs (hs_to_ticks hs)) + 6"
proof -
  let ?h = "unat hs"
  let ?x = "?h * 59659 div 65536"
  let ?t = "?x div 5"
  let ?r = "5 * ?t * 65536 div 59659"
  have "?h * 59659 div 65536 \<le> 8639999 * 59659 div 65536" using assms by (intro div_le_mono mult_right_mono) simp_all
  then have "?t \<le> 7865199 div 5" by (intro div_le_mono) simp
  then have t: "unat (hs_to_ticks hs) = ?t" "unat (hs_to_ticks hs) \<le> 1573039" using hs_to_ticks_unat[OF assms] by simp_all
  have r: "unat (ticks_to_hs (hs_to_ticks hs)) = ?r" using ticks_to_hs_unat[OF t(2)] t(1) by simp
  have "?x * 65536 \<le> ?h * 59659 \<and> ?h * 59659 < ?x * 65536 + 65536" by (rule div_bounds) simp
  moreover have "?t * 5 \<le> ?x \<and> ?x < ?t * 5 + 5" by (rule div_bounds) simp
  moreover have "?r * 59659 \<le> 5 * ?t * 65536 \<and> 5 * ?t * 65536 < ?r * 59659 + 59659" by (rule div_bounds) simp
  ultimately show ?thesis unfolding r by (rule tick_error)
qed

definition hs_of_time :: "dostime \<Rightarrow> nat" where
  "hs_of_time t = 6000 * (60 * unat (hour t) + unat (minute t)) + 100 * unat (second t) + unat (hundredth t)"

definition valid_time :: "dostime \<Rightarrow> bool" where
  "valid_time t \<longleftrightarrow> unat (hour t) \<le> 23 \<and> unat (minute t) \<le> 59 \<and> unat (second t) \<le> 59 \<and> unat (hundredth t) \<le> 99"

lemma hs_of_clock_unat:
  assumes "clkHours r = hour t" "clkMinutes r = minute t" "clkSeconds r = second t" "clkHundredths r = hundredth t"
    and "valid_time t"
  shows "unat (hs_of_clock r) = hs_of_time t \<and> hs_of_time t < 8640000"
proof -
  have "hs_of_time t < 8640000" using assms(5) by (simp add: hs_of_time_def valid_time_def)
  then show ?thesis using assms by (simp add: hs_of_clock_def hs_of_time_def unat_word_ariths unat_ucast valid_time_def)
qed

lemma sint_small: "n < 32768 \<Longrightarrow> sint (of_nat n :: 16 word) = int n"
  by (simp add: signed_of_nat signed_take_bit_int_eq_self)

text \<open>The clock record of a time of day has its hundredths.\<close>

lemma clock_of_hs_time:
  assumes "unat hs < 8640000"
  shows "hs_of_time \<lparr>hour = clkHours (clock_of_hs d hs), minute = clkMinutes (clock_of_hs d hs),
     second = clkSeconds (clock_of_hs d hs), hundredth = clkHundredths (clock_of_hs d hs)\<rparr> = unat hs"
proof -
  let ?h = "unat hs"
  have m: "?h div 6000 < 1440" and s: "?h mod 6000 < 6000" using assms by simp_all
  have w: "ucast w = (of_nat (unat w) :: 16 word)" for w :: "32 word" by simp
  have a: "sint (ucast (hs div 6000) :: 16 word) = int (?h div 6000)"
    "sint (ucast (hs mod 6000) :: 16 word) = int (?h mod 6000)"
    unfolding w unat_div unat_mod using m s by (simp_all add: sint_small)
  have b: "unat (word_of_int (int n) :: 8 word) = n" if "n < 256" for n
    using that by (simp add: unsigned_of_nat take_bit_eq_mod)
  have q: "int n sdiv int k = int (n div k)" "int n smod int k = int (n mod k)" for n k
    by (simp_all add: signed_divide_int_def signed_modulo_int_def sgn_if zdiv_int zmod_int)
  have c: "clock_of_hs d hs = \<lparr>clkDays = d, clkMinutes = word_of_int (int (?h div 6000 mod 60)),
      clkHours = word_of_int (int (?h div 6000 div 60)), clkHundredths = word_of_int (int (?h mod 6000 mod 100)),
      clkSeconds = word_of_int (int (?h mod 6000 div 100))\<rparr>"
    using q[of _ 60] q[of _ 100] by (simp only: clock_of_hs_def Let_def a of_nat_numeral)
  have lt: "?h div 6000 mod 60 < 256" "?h div 6000 div 60 < 256" "?h mod 6000 mod 100 < 256" "?h mod 6000 div 100 < 256"
    using m s by (simp_all add: order.strict_trans[OF mod_less_divisor])
  have "6000 * (60 * (?h div 6000 div 60) + ?h div 6000 mod 60) + 100 * (?h mod 6000 div 100) + ?h mod 6000 mod 100 = ?h"
    by simp
  then show ?thesis unfolding c hs_of_time_def by (simp only: clock_rec.simps dostime.simps b[OF lt(1)] b[OF lt(2)] b[OF lt(3)] b[OF lt(4)])
qed

text \<open>C40. A valid time that is set is read back at most six hundredths of a second early, when no
  time passes, and never late.\<close>

theorem time_set_is_time_read:
  assumes B: "bios_ok B" and v: "valid_time dt"
  shows "\<exists>s1 t s2. DosSetTime (clk_driver B) dt s = Some (SUCCESS, s1) \<and> DosGetTime (clk_driver B) dt0 s1 = Some (t, s2)
     \<and> hs_of_time t \<le> hs_of_time dt \<and> hs_of_time dt \<le> hs_of_time t + 6"
proof -
  obtain s1 where s1: "ExecuteClockDriverRequest (clk_driver B) CMD_INPUT s = Some s1" using clock_input by blast
  let ?s = "s1\<lparr>ClkRecord := (ClkRecord s1)\<lparr>clkHours := hour dt, clkMinutes := minute dt, clkSeconds := second dt,
     clkHundredths := hundredth dt\<rparr>\<rparr>"
  obtain s2 where s2: "ExecuteClockDriverRequest (clk_driver B) CMD_OUTPUT ?s = Some s2" "\<not> clk_failed s2"
     "clock_world s2 = clk_output B (ClkRecord ?s) (clock_world ?s)"
    using clock_output[of B ?s] by blast
  obtain s3 where s3: "ExecuteClockDriverRequest (clk_driver B) CMD_INPUT s2 = Some s3" "\<not> clk_failed s3"
     "ClkRecord s3 = fst (clk_input B (clock_world s2))" using clock_input by blast
  let ?hs = "hs_of_clock (ClkRecord ?s)"
  have h: "unat ?hs = hs_of_time dt" "hs_of_time dt < 8640000" using hs_of_clock_unat[of "ClkRecord ?s" dt] v by simp_all
  have r: "ClkRecord s3 = clock_of_hs (clkDays (ClkRecord ?s)) (ticks_to_hs (hs_to_ticks ?hs))"
    unfolding s3(3) s2(3) by (rule input_after_output[OF B])
  note rd = ticks_round[of ?hs]
  let ?t = "\<lparr>hour = clkHours (ClkRecord s3), minute = clkMinutes (ClkRecord s3), second = clkSeconds (ClkRecord s3),
     hundredth = clkHundredths (ClkRecord s3)\<rparr>"
  have "hs_of_time ?t = unat (ticks_to_hs (hs_to_ticks ?hs))"
    unfolding r using rd h by (intro clock_of_hs_time) linarith
  moreover have "DosSetTime (clk_driver B) dt s = Some (SUCCESS, s2)"
    using v s1 s2(1,2) by (auto simp: DosSetTime_def valid_time_def word_less_nat_alt)
  moreover have "DosGetTime (clk_driver B) dt0 s2 = Some (?t, s3)" using s3(1,2) by (simp add: DosGetTime_def Let_def)
  ultimately show ?thesis using rd h by auto
qed

theorem time_set_is_time_read_witness:
  "\<exists>s1 t s2. DosSetTime (clk_driver bios1) (\<lparr>hour = 23, minute = 59, second = 59, hundredth = 99\<rparr>) clock1 = Some (SUCCESS, s1)
     \<and> DosGetTime (clk_driver bios1) (\<lparr>hour = 0, minute = 0, second = 0, hundredth = 0\<rparr>) s1 = Some (t, s2)
     \<and> 8639993 \<le> hs_of_time t"
proof -
  have "valid_time \<lparr>hour = 23, minute = 59, second = 59, hundredth = 99\<rparr>" by (simp add: valid_time_def)
  from time_set_is_time_read[OF bios1_ok this] show ?thesis by (fastforce simp: hs_of_time_def)
qed

end
