(* ===== verification/Spec2Isabelle.thy ===== *)
theory Spec2Isabelle
  imports Smalloc_Props Hma_Props Memmgr_Props Share_Props Handles_Props Blockio_Props Fat_Props Fileio_Props Dirs_Props Clock_Props
begin

text \<open>
  A verification development for fdpp, the FreeDOS kernel ported to 64 bits (src/kernel,
  src/hdr) with the C++ layer that runs it inside an emulator (src/fdpp).

  \<^bold>\<open>The program.\<close> A program running under the emulator reaches the kernel through interrupt 21h.
  The dispatcher (kernel/inthndlr.c) calls the memory manager, the file functions or the
  clock. A file function works on a handle of the process, finds its entry in the system file
  table, asks SHARE for permission and hands the request to a character device or to the FAT
  file system, which follows the chain of clusters in the file allocation table and moves
  sectors through the cache of blocks; the cache calls the block device driver. Memory of the
  kernel comes from the DOS memory manager, from the HMA manager, and, for objects the 64-bit
  code shares with 16-bit code, from the pool allocator of fdpp/smalloc.c.

  \<^bold>\<open>Conventions.\<close> State is passed explicitly, as one record per component. A loop or recursion
  that need not end is a \<open>partial_function (option)\<close>: not ending is \<open>None\<close>, and the
  properties state that the result is \<open>Some\<close>. Code that can stop the process (a failed
  \<open>assert\<close>, a null pointer followed) returns the result type of \<open>Prelude\<close>, whose error values
  name the reason. The codes an operation returns to its caller are integers, as in the code
  (\<open>Errors\<close> lists them). Machine words keep their width where the code's arithmetic can wrap;
  elsewhere the opening text of the theory says why a natural number or an integer is enough.
  Far pointers are linear addresses or the segment and offset the code computes with. Code
  outside the repository, and the assembly that only calls it, is an argument: the device driver,
  the BIOS, the commit call-backs of the pool allocator, the file system below the handles.

  \<^bold>\<open>Shared theories.\<close> \<open>Prelude\<close> has the result type, the integer conversions and lemmas on lists
  and maps; \<open>Errors\<close> the result codes (hdr/error.h); \<open>Bytes\<close> the fields of packed structures.
  \<open>Region\<close> states as a locale what an allocator promises its clients and proves once what a whole
  run of requests keeps; it is interpreted for the pool allocator and for the DOS memory
  manager. \<open>Blocks\<close> has the chains of blocks with headers that the DOS memory manager and the
  HMA manager share, and as the locale \<open>block_heap\<close> the joining of free blocks, interpreted for both.

  \<^bold>\<open>Pool allocator\<close> (fdpp/smalloc.c, smalloc.h): \<open>Smalloc\<close>. A pool is the list of its nodes, which
  tile an address range, with the bytes of the range. Each C function is a definition of
  the same name. \<open>Smalloc_Proofs\<close> has the invariant of a pool and one lemma per operation,
  \<open>Smalloc_Props\<close> the properties: fresh, disjoint and cleared areas, when a request fails,
  release undoes allocation, resizing keeps the contents, and three errors.

  \<^bold>\<open>HMA manager\<close> (kernel/hmamgr.c; interrupt 2Fh function 4Ah in kernel/inthndlr.c; the boot-time
  allocator of kernel/inithma.c): \<open>Hma\<close>, over the 64 KiB of the area as bytes. \<open>Hma_Props\<close>: first
  fit from either end, the release at process exit that frees nothing, a request that wraps.

  \<^bold>\<open>DOS memory manager\<close> (kernel/memmgr.c, functions 48h to 4Ah): \<open>Memmgr\<close>, a memory of MCBs by
  paragraph with the link state of upper memory. \<open>Memmgr_Props\<close> shows what each call
  does to the list of blocks, that areas in use stay disjoint over any run, that the loops end on
  well-formed chains.

  \<^bold>\<open>SHARE\<close> (kernel/share.c): \<open>Share\<close>, the two tables and every call. \<open>Share_Props\<close> has the step
  relation of the calls and its reachable states; the abstract specification is a map from the
  bytes of a file to the owner of the lock on them, which the calls refine.

  \<^bold>\<open>File handles\<close> (kernel/dosfns.c, with parts of newstuff.c and task.c): \<open>Handles\<close>, the chain of
  blocks of the system file table and the handle tables of processes. The layers below (the
  calls on files and paths, whose own models are in \<open>Dirs\<close>) are a record of functions.
  \<open>Handles_Props\<close>: the chain is one flat table, no run of calls loses a reference and none of
  successful calls leaks one, forced duplicates onto the same handle apart, which do; the last
  close releases the locks, a transfer over another's lock never reaches the file system.

  \<^bold>\<open>Block cache\<close> (kernel/blockio.c, with kernel/error.c and the set-up in kernel/config.c):
  \<open>Blockio\<close>, a segment with a ring of buffers, the request header and the driver's own state.
  \<open>Blockio_Proofs\<close> abstracts the ring to a list, \<open>Blockio_View\<close> defines what the cache shows of a
  disk (the sector in its buffer, or else on the disk), \<open>Blockio_Props\<close> shows that the search
  refines a move-to-front list and where its choice of a buffer departs from the comments, that fetching never changes what is shown, that flushing leaves
  it on the disk, and what a failed read leaves behind. A driver is \<open>reliable\<close> when it reads
  what was written; sectors have 512 bytes there.

  \<^bold>\<open>File allocation table\<close> (kernel/fattab.c): \<open>FatTab\<close>, entries of 12, 16 and 32 bits through the
  block cache. \<open>FatTab_Proofs\<close> states as the locale \<open>fat_codec\<close> that storing an entry is read back
  and disturbs no other, interpreted for the packed 12-bit and the 16-bit format.

  \<^bold>\<open>Cluster chains\<close> (kernel/fatfs.c): \<open>Clusters\<close>, allocation, the walk of \<open>map_cluster\<close>, deletion,
  truncation, counting, clearing, and the drive parameter block derived from a BIOS parameter
  block. \<open>Fat_Props\<close> has the properties of both on volumes with 12- and 16-bit tables
  over a reliable driver: an entry written is read, extending a file takes one free cluster,
  deletion ends and frees exactly the chain, the count of free clusters is exact; without any
  assumption on the driver an entry read is a cluster, the bad mark or the end mark.

  \<^bold>\<open>File data\<close> (\<open>rwblock\<close> of kernel/fatfs.c): \<open>Fileio\<close>, whole sectors straight between the disk and the
  caller's memory, parts of sectors through the cache, with the copy of the file table entry
  in the near f-node and the spreading of a change to the other entries of the file.
  \<open>Fileio_Frame\<close> shows that no disk operation touches the kernel's tables; \<open>Fileio_Proofs\<close> follows a
  read, \<open>Fileio_Entries\<close> the entries, \<open>Fileio_Write\<close> a write. \<open>Fileio_Props\<close>: a read returns the bytes of
  the file, a write changes those and no other, what one entry writes another reads, and
  an entry opened on an empty file stays blind. The driver is \<open>reliable_all\<close>: it keeps its word on
  requests of any number of sectors. Writes that extend the chain are covered by the properties
  of the chains, not by those of \<open>rwblock\<close>.

  \<^bold>\<open>Directories\<close> (kernel/fatdir.c and the rest of kernel/fatfs.c): \<open>Dirs\<close>, entries as bytes and as
  records, the marks of removed entries and the first character they keep, the walk along a
  path, the loop all searches share (a \<open>partial_function\<close> over \<open>dir_read\<close>), opening, creating,
  renaming and removing files and directories, attributes, find first and next, and the check
  for a changed medium. \<open>Dirs_Names\<close> has the two forms of a name. \<open>Dirs_Proofs\<close> reads an entry of the
  root directory and turns a search into one in the list of entries, \<open>Dirs_Write\<close> writes one and
  flushes the unit, \<open>Dirs_Ops\<close> combines them: finding, removing the entries of a long name,
  deleting, renaming, a free slot; \<open>Dirs_Create\<close> the end of an open that creates.
  \<open>Dirs_Props\<close>: a search is a list search, an entry written is on the disk and is read back (one whose
  name begins with 05h is refused), deleting a file marks its entries and frees exactly its chain,
  creating takes the first free slot, renaming in place changes the name and nothing else, names convert both ways, and a
  removed directory still opens. The properties are about the root directory of a volume with a
  12- or 16-bit table; sub-directories are modelled without properties of their own.

  \<^bold>\<open>Character devices and clock\<close> (kernel/chario.c, systime.c, sysclk.c, drivers/*clk.asm): \<open>Chario\<close>,
  the request and its critical error; \<open>Clock\<close>, the calendar, the clock driver over interrupt 1Ah
  and the calls that set and read date and time. \<open>Clock_Props\<close>: both are read back as set,
  the time within the resolution of the timer.

  \<^bold>\<open>Bounds.\<close> No fuel is used anywhere. Loops over the ring of buffers, chains of blocks, clusters and
  SFT blocks end on well-formed structures, which the invariants describe; the properties of the
  volumes assume a 12- or 16-bit table, since the code reads the 32-bit table of a volume as
  a 12-bit one (\<open>fat32_volume_read_as_fat12\<close>).

  \<^bold>\<open>Not modelled.\<close> The FCB calls; the dispatcher and path resolution; loading of programs (kernel/task.c); CONFIG.SYS and start-up (config.c, main.c, dyninit.c, init*.c), which run once
  on text and segment addresses; the disk driver and partition scan (dsk.c, initdisk.c), which
  program the BIOS; national language support, the line editor of the console, the redirector
  interface; formatted output (stb_sprintf.h is third-party); the far pointers and thunks of
  src/fdpp and the ELF loader, which are C++ over a code generator and over libelf.
\<close>

end
